(* ===== verification/Lmdb_Prelude.thy ===== *)
theory Lmdb_Prelude
  imports Main "HOL-Library.Word" "HOL-Library.Multiset" "HOL-Library.Monad_Syntax"
begin

unbundle bit_operations_syntax

text \<open>
  Shared vocabulary of the development: the integer types of the C code, checked access to
  arrays, flag tests, and the generic lemmas on lists and options that the component theories
  use.

  Conventions.  The code is read for the platform the repository builds for (64-bit, little
  endian, LP64): \<open>size_t\<close>, \<open>MDB_ID\<close>, \<open>pgno_t\<close> and \<open>txnid_t\<close> are 64 bits wide,
  \<open>unsigned\<close> and \<open>int\<close> 32 bits.  Identifiers and flag words are \<open>'n word\<close> values.  Byte
  offsets, array indices and sizes are \<open>nat\<close>; where the code stores one into a narrower
  variable the truncation is written out (\<open>u16\<close>, \<open>u32\<close>).
  A partial result \<open>None\<close> stands for behaviour that C leaves undefined (an access outside of an
  array, a null pointer) or for a failed \<open>mdb_cassert\<close>, so a theorem that the result is
  \<open>Some\<close> is a memory-safety statement.  Error codes are ordinary results.
\<close>

named_theorems array_simps "evaluation of checked array accesses that are in range"

type_synonym byte = "8 word"
type_synonym MDB_ID = "64 word"
type_synonym pgno_t = MDB_ID
type_synonym txnid_t = MDB_ID

definition u16 :: "nat \<Rightarrow> nat" where
  "u16 n = n mod 65536"

definition u32 :: "nat \<Rightarrow> nat" where
  "u32 n = n mod 4294967296"

lemma u16_id [simp]: "n < 65536 \<Longrightarrow> u16 n = n"
  by (simp add: u16_def)

lemma u32_id [simp]: "n < 4294967296 \<Longrightarrow> u32 n = n"
  by (simp add: u32_def)

lemma unat_of_nat64 [simp]: "n < 18446744073709551616 \<Longrightarrow> unat (of_nat n :: 64 word) = n"
  by (simp add: unat_of_nat take_bit_nat_eq_self)

lemma unat64_less: "unat (w :: 64 word) < 2 ^ 64"
  using unsigned_less [of w, where 'a = nat] by simp

lemma unat_add_small: "unat (a :: 64 word) + unat b < 2 ^ 64 \<Longrightarrow> unat (a + b) = unat a + unat b"
  by (subst unat_add_lem [THEN iffD1]) auto

section \<open>Checked arrays\<close>

definition rd :: "'a list \<Rightarrow> nat \<Rightarrow> 'a option" where
  "rd xs i = (if i < length xs then Some (xs ! i) else None)"

definition wr :: "'a list \<Rightarrow> nat \<Rightarrow> 'a \<Rightarrow> 'a list option" where
  "wr xs i v = (if i < length xs then Some (xs[i := v]) else None)"

lemma rd_in [array_simps, simp]: "i < length xs \<Longrightarrow> rd xs i = Some (xs ! i)"
  by (simp add: rd_def)

lemma wr_in [array_simps, simp]: "i < length xs \<Longrightarrow> wr xs i v = Some (xs[i := v])"
  by (simp add: wr_def)

lemma rd_SomeD: "rd xs i = Some x \<Longrightarrow> i < length xs \<and> x = xs ! i"
  by (auto simp: rd_def split: if_splits)

lemma wr_SomeD: "wr xs i v = Some ys \<Longrightarrow> i < length xs \<and> ys = xs[i := v]"
  by (auto simp: wr_def split: if_splits)

text \<open>Read the two cells first, then store both: the exchange of two array cells.\<close>

definition swap :: "'a list \<Rightarrow> nat \<Rightarrow> nat \<Rightarrow> 'a list option" where
  "swap xs i j = do {
     x \<leftarrow> rd xs i;
     y \<leftarrow> rd xs j;
     xs' \<leftarrow> wr xs i y;
     wr xs' j x }"

lemma swap_in [array_simps, simp]:
  "i < length xs \<Longrightarrow> j < length xs \<Longrightarrow> swap xs i j = Some (xs[i := xs ! j, j := xs ! i])"
  by (simp add: swap_def)

lemma swap_SomeD:
  "swap xs i j = Some ys \<Longrightarrow> i < length xs \<and> j < length xs \<and> ys = xs[i := xs ! j, j := xs ! i]"
  by (cases "i < length xs"; cases "j < length xs") (auto simp: swap_def rd_def wr_def)

section \<open>Lists\<close>

definition insert_at :: "nat \<Rightarrow> 'a \<Rightarrow> 'a list \<Rightarrow> 'a list" where
  "insert_at i x xs = take i xs @ x # drop i xs"

definition remove_at :: "nat \<Rightarrow> 'a list \<Rightarrow> 'a list" where
  "remove_at i xs = take i xs @ drop (Suc i) xs"

lemma length_insert_at [simp]: "length (insert_at i x xs) = Suc (length xs)"
  by (simp add: insert_at_def min_def)

lemma length_remove_at [simp]: "i < length xs \<Longrightarrow> length (remove_at i xs) = length xs - 1"
  by (simp add: remove_at_def)

lemma nth_insert_at:
  "i \<le> length xs \<Longrightarrow> k \<le> length xs \<Longrightarrow>
   insert_at i x xs ! k = (if k < i then xs ! k else if k = i then x else xs ! (k - 1))"
  by (auto simp: insert_at_def nth_append nth_Cons' min_def)

lemma nth_remove_at:
  "i < length xs \<Longrightarrow> k < length xs - 1 \<Longrightarrow>
   remove_at i xs ! k = (if k < i then xs ! k else xs ! Suc k)"
  by (auto simp: remove_at_def nth_append min_def)

lemma remove_insert_at [simp]: "i \<le> length xs \<Longrightarrow> remove_at i (insert_at i x xs) = xs"
  by (simp add: remove_at_def insert_at_def min_def)

lemma map_insert_at: "map f (insert_at i x xs) = insert_at i (f x) (map f xs)"
  by (simp add: insert_at_def take_map drop_map)

lemma map_remove_at: "map f (remove_at i xs) = remove_at i (map f xs)"
  by (simp add: remove_at_def take_map drop_map)

lemma set_insert_at: "i \<le> length xs \<Longrightarrow> set (insert_at i x xs) = insert x (set xs)"
  by (metis append_take_drop_id insert_at_def list.simps(15) set_append Un_insert_right)

lemma set_remove_at_subset: "set (remove_at i xs) \<subseteq> set xs"
  by (auto simp: remove_at_def dest: in_set_takeD in_set_dropD)

lemma mset_insert_at [simp]: "mset (insert_at i x xs) = add_mset x (mset xs)"
proof -
  have "mset xs = mset (take i xs) + mset (drop i xs)"
    by (metis append_take_drop_id mset_append)
  then show ?thesis by (simp add: insert_at_def)
qed

lemma mset_swap_list:
  assumes "i < length xs" "j < length xs"
  shows "mset (xs[i := xs ! j, j := xs ! i]) = mset xs"
  using assms mset_swap [of j xs i] by simp

section \<open>Ranges of cells\<close>

definition cells :: "'a list \<Rightarrow> nat \<Rightarrow> nat \<Rightarrow> 'a list" where
  "cells xs a b = map (\<lambda>i. xs ! i) [a..<b]"

lemma length_cells [simp]: "length (cells xs a b) = b - a"
  by (simp add: cells_def)

lemma nth_cells [simp]: "i < b - a \<Longrightarrow> cells xs a b ! i = xs ! (a + i)"
  by (simp add: cells_def)

lemma set_cells: "set (cells xs a b) = (\<lambda>i. xs ! i) ` {a..<b}"
  by (simp add: cells_def)

lemma cells_empty [simp]: "b \<le> a \<Longrightarrow> cells xs a b = []"
  by (simp add: cells_def)

lemma cells_snoc: "a \<le> b \<Longrightarrow> cells xs a (Suc b) = cells xs a b @ [xs ! b]"
  by (simp add: cells_def)

lemma cells_Cons: "a < b \<Longrightarrow> cells xs a b = xs ! a # cells xs (Suc a) b"
  by (simp add: cells_def upt_conv_Cons)

lemma cells_append: "a \<le> b \<Longrightarrow> b \<le> c \<Longrightarrow> cells xs a c = cells xs a b @ cells xs b c"
  unfolding cells_def by (metis map_append upt_add_eq_append le_add_diff_inverse)

lemma cells_cong: "(\<And>i. a \<le> i \<Longrightarrow> i < b \<Longrightarrow> xs ! i = ys ! i) \<Longrightarrow> cells xs a b = cells ys a b"
  by (simp add: cells_def)

lemma cells_update_outside [simp]: "i < a \<or> b \<le> i \<Longrightarrow> cells (xs[i := v]) a b = cells xs a b"
  by (rule cells_cong) auto

lemma cells_take_drop: "b \<le> length xs \<Longrightarrow> cells xs a b = take (b - a) (drop a xs)"
  by (rule nth_equalityI) auto

lemma sorted_wrt_cells:
  "sorted_wrt P (cells xs a b) \<longleftrightarrow> (\<forall>p q. a \<le> p \<longrightarrow> p < q \<longrightarrow> q < b \<longrightarrow> P (xs ! p) (xs ! q))"
proof -
  have "sorted_wrt P (cells xs a b) \<longleftrightarrow>
      (\<forall>i j. i < j \<longrightarrow> j < b - a \<longrightarrow> P (xs ! (a + i)) (xs ! (a + j)))"
    by (auto simp: sorted_wrt_iff_nth_less)
  also have "\<dots> \<longleftrightarrow> (\<forall>p q. a \<le> p \<longrightarrow> p < q \<longrightarrow> q < b \<longrightarrow> P (xs ! p) (xs ! q))"
  proof (intro iffI allI impI)
    fix p q assume h: "\<forall>i j. i < j \<longrightarrow> j < b - a \<longrightarrow> P (xs ! (a + i)) (xs ! (a + j))"
      and "a \<le> p" "p < q" "q < b"
    then show "P (xs ! p) (xs ! q)"
      using h [rule_format, of "p - a" "q - a"] by simp
  qed simp
  finally show ?thesis .
qed

lemma mset_cells_swap:
  assumes "a \<le> i" "i < b" "a \<le> j" "j < b" "b \<le> length xs"
  shows "mset (cells (xs[i := xs ! j, j := xs ! i]) a b) = mset (cells xs a b)"
proof -
  have "cells (xs[i := xs ! j, j := xs ! i]) a b =
      (cells xs a b)[i - a := cells xs a b ! (j - a), j - a := cells xs a b ! (i - a)]"
    using assms by (intro nth_equalityI) (auto simp: nth_list_update)
  then show ?thesis
    using assms mset_swap_list [of "i - a" "cells xs a b" "j - a"] by simp
qed

section \<open>Flags\<close>

text \<open>\<open>F_ISSET(w, f)\<close>: all bits of the mask are set.\<close>

definition F_ISSET :: "'a::len word \<Rightarrow> 'a word \<Rightarrow> bool" where
  "F_ISSET w f \<longleftrightarrow> w AND f = f"

text \<open>A C condition \<open>(w & f)\<close>: some bit of the mask is set.\<close>

definition anyset :: "'a::len word \<Rightarrow> 'a word \<Rightarrow> bool" where
  "anyset w f \<longleftrightarrow> w AND f \<noteq> 0"

definition EVEN :: "nat \<Rightarrow> nat" where
  "EVEN n = (n + 1) div 2 * 2"

lemma EVEN_even [simp]: "even (EVEN n)"
  by (simp add: EVEN_def)

lemma EVEN_ge: "n \<le> EVEN n" and EVEN_le: "EVEN n \<le> n + 1"
  by (simp_all add: EVEN_def)

lemma EVEN_id [simp]: "even n \<Longrightarrow> EVEN n = n"
  by (auto simp: EVEN_def elim: evenE)

lemma EVEN_idem [simp]: "EVEN (EVEN n) = EVEN n"
  by simp

end
