(* ===== verification/Lmdb_Midl.thy ===== *)
theory Lmdb_Midl
  imports Lmdb_Prelude
begin

text \<open>
  The ID lists of \<open>LegacyDatabase/midl.c\<close>: page numbers of free pages and of spilled pages
  (descending, an \<open>MDB_IDL\<close>) and the dirty-page table (ascending by page number, an
  \<open>MDB_ID2L\<close>).

  An \<open>MDB_IDL\<close> points one cell into its allocation.  The record keeps the cell before the
  pointer (\<open>ids[-1]\<close>, the capacity) apart from the cells from the pointer on (\<open>ids[0]\<close> is the
  number of IDs).  The list holds exactly the cells that were allocated, so an access beyond
  it is an access outside of the allocation.  Whether \<open>malloc\<close> and \<open>realloc\<close> succeed is a
  parameter \<open>mem\<close> of the requested size in bytes.
\<close>

section \<open>Data and constants\<close>

definition CMP :: "'a::linorder \<Rightarrow> 'a \<Rightarrow> int" where
  "CMP x y = (if x < y then -1 else if x > y then 1 else 0)"

definition MDB_IDL_LOGN :: nat where
  "MDB_IDL_LOGN = 16"

definition MDB_IDL_UM_SIZE :: nat where
  "MDB_IDL_UM_SIZE = 2 ^ (MDB_IDL_LOGN + 1)"

definition MDB_IDL_UM_MAX :: nat where
  "MDB_IDL_UM_MAX = MDB_IDL_UM_SIZE - 1"

lemma MDB_IDL_UM_MAX_val [simp]: "MDB_IDL_UM_MAX = 131071"
  by (simp add: MDB_IDL_UM_MAX_def MDB_IDL_UM_SIZE_def MDB_IDL_LOGN_def)

definition sizeof_MDB_ID :: nat where
  "sizeof_MDB_ID = 8"

record MDB_IDL =
  idl_len :: MDB_ID
  idl_ids :: "MDB_ID list"

text \<open>\<open>ids[0]\<close> read as a count.\<close>

abbreviation idl_count :: "MDB_ID list \<Rightarrow> nat" where
  "idl_count ids \<equiv> unat (ids ! 0)"

text \<open>The IDs of a list: the cells \<open>1 .. ids[0]\<close>.\<close>

definition idl_elems :: "MDB_ID list \<Rightarrow> MDB_ID list" where
  "idl_elems ids = cells ids 1 (Suc (idl_count ids))"

record 'p MDB_ID2 =
  mid :: MDB_ID
  mptr :: 'p

section \<open>Binary search\<close>

text \<open>
  The loop shared by \<open>mdb_midl_search\<close> and \<open>mdb_mid2l_search\<close>; the comparison with the cell
  at the cursor (\<open>CMP(ids[cursor], id)\<close> in the one, \<open>CMP(id, ids[cursor].mid)\<close> in the other)
  is the parameter.
\<close>

function search_loop :: "(nat \<Rightarrow> int option) \<Rightarrow> nat \<Rightarrow> nat \<Rightarrow> nat \<Rightarrow> int \<Rightarrow> nat option" where
  "search_loop cmp base n cursor val =
     (if 0 < n then
        (let pivot = n div 2; cursor = base + pivot + 1 in
         case cmp cursor of
           None \<Rightarrow> None
         | Some val \<Rightarrow>
             (if val < 0 then search_loop cmp base pivot cursor val
              else if val > 0 then search_loop cmp cursor (n - (pivot + 1)) cursor val
              else Some cursor))
      else Some (if val > 0 then cursor + 1 else cursor))"
  by pat_completeness auto
termination by (relation "measure (\<lambda>(cmp, base, n, cursor, val). n)") auto

declare search_loop.simps [simp del]

definition mdb_midl_search :: "MDB_ID list \<Rightarrow> MDB_ID \<Rightarrow> nat option" where
  "mdb_midl_search ids idn = do {
     n \<leftarrow> rd ids 0;
     c \<leftarrow> search_loop (\<lambda>cursor. map_option (\<lambda>x. CMP x idn) (rd ids cursor)) 0 (u32 (unat n)) 1 0;
     Some (u32 c) }"

definition mdb_mid2l_search :: "'p MDB_ID2 list \<Rightarrow> MDB_ID \<Rightarrow> nat option" where
  "mdb_mid2l_search ids idn = do {
     n \<leftarrow> rd ids 0;
     c \<leftarrow> search_loop (\<lambda>cursor. map_option (\<lambda>x. CMP idn (mid x)) (rd ids cursor))
            0 (u32 (unat (mid n))) 1 0;
     Some (u32 c) }"

section \<open>Allocation and growth\<close>

text \<open>A count passed as an \<open>int\<close> parameter and then added to an \<open>MDB_ID\<close>.\<close>

definition int_arg :: "nat \<Rightarrow> MDB_ID" where
  "int_arg num = scast (word_of_nat num :: 32 word)"

lemma int_arg_small [simp]: "num < 2147483648 \<Longrightarrow> int_arg num = of_nat num"
proof -
  assume "num < 2147483648"
  then have "signed_take_bit 31 (int num) = int num" by (intro signed_take_bit_int_eq_self) auto
  then have "sint (word_of_nat num :: 32 word) = int num" by (simp add: signed_of_nat)
  then show ?thesis by (simp add: int_arg_def scast_eq)
qed

text \<open>Fresh cells are unspecified in C; the model fills them with zero.\<close>

definition mdb_midl_alloc :: "(nat \<Rightarrow> bool) \<Rightarrow> nat \<Rightarrow> MDB_IDL option" where
  "mdb_midl_alloc mem num =
     (let n = int_arg num; ncells = unat (n + 2) in
      if mem (ncells * sizeof_MDB_ID)
      then Some \<lparr>idl_len = n, idl_ids = 0 # replicate (ncells - 2) 0\<rparr>
      else None)"

text \<open>\<open>realloc\<close> keeps the first cells; \<open>ncells\<close> counts the cells from \<open>ids[0]\<close> on.\<close>

definition realloc_cells :: "nat \<Rightarrow> MDB_ID list \<Rightarrow> MDB_ID list" where
  "realloc_cells ncells ids = take ncells (ids @ replicate ncells 0)"

lemma length_realloc_cells [simp]: "length (realloc_cells n ids) = n"
  by (simp add: realloc_cells_def)

lemma nth_realloc_cells:
  "i < n \<Longrightarrow> i < length ids \<Longrightarrow> realloc_cells n ids ! i = ids ! i"
  by (simp add: realloc_cells_def nth_append)

definition mdb_midl_shrink :: "(nat \<Rightarrow> bool) \<Rightarrow> MDB_IDL \<Rightarrow> bool \<times> MDB_IDL" where
  "mdb_midl_shrink mem idl =
     (if unat (idl_len idl) > MDB_IDL_UM_MAX \<and> mem ((MDB_IDL_UM_MAX + 1) * sizeof_MDB_ID)
      then (True, \<lparr>idl_len = of_nat MDB_IDL_UM_MAX,
                   idl_ids = realloc_cells MDB_IDL_UM_MAX (idl_ids idl)\<rparr>)
      else (False, idl))"

text \<open>The \<open>int\<close> result \<open>ENOMEM\<close> or \<open>0\<close>; on failure the list is unchanged.\<close>

definition ENOMEM :: int where
  "ENOMEM = 12"

definition mdb_midl_grow :: "(nat \<Rightarrow> bool) \<Rightarrow> MDB_IDL \<Rightarrow> nat \<Rightarrow> int \<times> MDB_IDL" where
  "mdb_midl_grow mem idl num =
     (let n = idl_len idl + int_arg num; ncells = unat (n + 2) in
      if mem (ncells * sizeof_MDB_ID)
      then (0, \<lparr>idl_len = n, idl_ids = realloc_cells (ncells - 1) (idl_ids idl)\<rparr>)
      else (ENOMEM, idl))"

text \<open>
  \<open>num\<close> is unsigned: a sum that wraps around to no cells leaves no cell for the capacity that
  \<open>*ids++ = num - 2\<close> stores.
\<close>

definition mdb_midl_need :: "(nat \<Rightarrow> bool) \<Rightarrow> MDB_IDL \<Rightarrow> nat \<Rightarrow> (int \<times> MDB_IDL) option" where
  "mdb_midl_need mem idl num = do {
     n0 \<leftarrow> rd (idl_ids idl) 0;
     let num = u32 (num + unat n0);
     if num > unat (idl_len idl) then
       let num = u32 (num + num div 4 + (256 + 2)) div 256 * 256 in
       if mem (num * sizeof_MDB_ID)
       then if num = 0 then None
         else Some (0, \<lparr>idl_len = of_nat (num - 2), idl_ids = realloc_cells (num - 1) (idl_ids idl)\<rparr>)
       else Some (ENOMEM, idl)
     else Some (0, idl) }"

definition mdb_midl_append :: "(nat \<Rightarrow> bool) \<Rightarrow> MDB_IDL \<Rightarrow> MDB_ID \<Rightarrow> (int \<times> MDB_IDL) option" where
  "mdb_midl_append mem idl idn = do {
     n \<leftarrow> rd (idl_ids idl) 0;
     let (rc, idl) = (if n \<ge> idl_len idl then mdb_midl_grow mem idl MDB_IDL_UM_MAX else (0, idl));
     if rc \<noteq> 0 then Some (rc, idl)
     else do {
       ids \<leftarrow> wr (idl_ids idl) 0 (n + 1);
       ids \<leftarrow> wr ids (unat (n + 1)) idn;
       Some (0, idl\<lparr>idl_ids := ids\<rparr>) } }"

text \<open>\<open>memcpy\<close> between two arrays: \<open>n\<close> cells from \<open>src + s\<close> to \<open>dst + d\<close>.\<close>

definition memcpy :: "'a list \<Rightarrow> nat \<Rightarrow> 'a list \<Rightarrow> nat \<Rightarrow> nat \<Rightarrow> 'a list option" where
  "memcpy dst d src s n =
     (if n = 0 then Some dst
      else if d + n \<le> length dst \<and> s + n \<le> length src
      then Some (take d dst @ take n (drop s src) @ drop (d + n) dst)
      else None)"

definition mdb_midl_append_list ::
  "(nat \<Rightarrow> bool) \<Rightarrow> MDB_IDL \<Rightarrow> MDB_ID list \<Rightarrow> (int \<times> MDB_IDL) option" where
  "mdb_midl_append_list mem idl app = do {
     n \<leftarrow> rd (idl_ids idl) 0;
     k \<leftarrow> rd app 0;
     let (rc, idl) = (if n + k \<ge> idl_len idl then mdb_midl_grow mem idl (unat k) else (0, idl));
     if rc \<noteq> 0 then Some (rc, idl)
     else do {
       ids \<leftarrow> memcpy (idl_ids idl) (unat n + 1) app 1 (unat k);
       ids \<leftarrow> wr ids 0 (n + k);
       Some (0, idl\<lparr>idl_ids := ids\<rparr>) } }"

text \<open>The loop \<open>while (n) ids[n--] = id++\<close> with \<open>ids\<close> moved by \<open>len\<close> cells.\<close>

fun append_range_loop :: "MDB_ID list \<Rightarrow> nat \<Rightarrow> MDB_ID \<Rightarrow> nat \<Rightarrow> MDB_ID list option" where
  "append_range_loop ids len idn 0 = Some ids"
| "append_range_loop ids len idn (Suc n) = do {
     ids \<leftarrow> wr ids (len + Suc n) idn;
     append_range_loop ids len (idn + 1) n }"

definition mdb_midl_append_range ::
  "(nat \<Rightarrow> bool) \<Rightarrow> MDB_IDL \<Rightarrow> MDB_ID \<Rightarrow> nat \<Rightarrow> (int \<times> MDB_IDL) option" where
  "mdb_midl_append_range mem idl idn n = do {
     len \<leftarrow> rd (idl_ids idl) 0;
     let (rc, idl) = (if len + of_nat n > idl_len idl
                      then mdb_midl_grow mem idl (or n MDB_IDL_UM_MAX) else (0, idl));
     if rc \<noteq> 0 then Some (rc, idl)
     else do {
       ids \<leftarrow> wr (idl_ids idl) 0 (len + of_nat n);
       ids \<leftarrow> append_range_loop ids (unat len) idn n;
       Some (0, idl\<lparr>idl_ids := ids\<rparr>) } }"

text \<open>The macro \<open>mdb_midl_xappend\<close> of \<open>midl.h\<close>: no check of the capacity.\<close>

definition mdb_midl_xappend :: "MDB_ID list \<Rightarrow> MDB_ID \<Rightarrow> MDB_ID list option" where
  "mdb_midl_xappend ids idn = do {
     n \<leftarrow> rd ids 0;
     ids \<leftarrow> wr ids 0 (n + 1);
     wr ids (unat (n + 1)) idn }"

section \<open>Merging two descending lists\<close>

text \<open>The inner loop \<open>for (; old_id < merge_id; old_id = idl[--j]) idl[k--] = old_id\<close>.\<close>

fun xmerge_shift ::
  "MDB_ID list \<Rightarrow> MDB_ID \<Rightarrow> MDB_ID \<Rightarrow> nat \<Rightarrow> nat \<Rightarrow> (MDB_ID list \<times> MDB_ID \<times> nat \<times> nat) option" where
  "xmerge_shift idl merge_id old_id j k =
     (if old_id < merge_id then
        (case j of
           0 \<Rightarrow> None
         | Suc j' \<Rightarrow> do {
             idl \<leftarrow> wr idl k old_id;
             old_id \<leftarrow> rd idl j';
             xmerge_shift idl merge_id old_id j' (k - 1) })
      else Some (idl, old_id, j, k))"

declare xmerge_shift.simps [simp del]

text \<open>The outer loop \<open>while (i)\<close>.\<close>

fun xmerge_loop ::
  "MDB_ID list \<Rightarrow> MDB_ID list \<Rightarrow> nat \<Rightarrow> MDB_ID \<Rightarrow> nat \<Rightarrow> nat \<Rightarrow> MDB_ID list option" where
  "xmerge_loop idl merge 0 old_id j k = Some idl"
| "xmerge_loop idl merge (Suc i) old_id j k = do {
     merge_id \<leftarrow> rd merge (Suc i);
     (idl, old_id, j, k) \<leftarrow> xmerge_shift idl merge_id old_id j k;
     idl \<leftarrow> wr idl k merge_id;
     xmerge_loop idl merge i old_id j (k - 1) }"

definition mdb_midl_xmerge :: "MDB_ID list \<Rightarrow> MDB_ID list \<Rightarrow> MDB_ID list option" where
  "mdb_midl_xmerge idl merge = do {
     i \<leftarrow> rd merge 0;
     j \<leftarrow> rd idl 0;
     let total = i + j;
     idl \<leftarrow> wr idl 0 (-1);
     old_id \<leftarrow> rd idl (unat j);
     idl \<leftarrow> xmerge_loop idl merge (unat i) old_id (unat j) (unat total);
     wr idl 0 total }"

section \<open>The dirty-page table\<close>

text \<open>The loop \<open>for (i=ids[0].mid; i>x; i--) ids[i] = ids[i-1]\<close>.\<close>

fun mid2l_shift :: "'p MDB_ID2 list \<Rightarrow> nat \<Rightarrow> nat \<Rightarrow> 'p MDB_ID2 list option" where
  "mid2l_shift ids x 0 = Some ids"
| "mid2l_shift ids x (Suc i) =
     (if Suc i > x then do {
        e \<leftarrow> rd ids i;
        ids \<leftarrow> wr ids (Suc i) e;
        mid2l_shift ids x i }
      else Some ids)"

definition mdb_mid2l_insert ::
  "'p MDB_ID2 list \<Rightarrow> 'p MDB_ID2 \<Rightarrow> (int \<times> 'p MDB_ID2 list) option" where
  "mdb_mid2l_insert ids idn = do {
     x \<leftarrow> mdb_mid2l_search ids (mid idn);
     hdr \<leftarrow> rd ids 0;
     if x < 1 then Some (-2, ids)
     else do {
       dup \<leftarrow> (if x \<le> unat (mid hdr) then map_option (\<lambda>e. mid e = mid idn) (rd ids x) else Some False);
       if dup then Some (-1, ids)
       else if unat (mid hdr) \<ge> MDB_IDL_UM_MAX then Some (-2, ids)
       else do {
         ids \<leftarrow> wr ids 0 (hdr\<lparr>mid := mid hdr + 1\<rparr>);
         ids \<leftarrow> mid2l_shift ids x (u32 (unat (mid hdr + 1)));
         ids \<leftarrow> wr ids x idn;
         Some (0, ids) } } }"

definition mdb_mid2l_append ::
  "'p MDB_ID2 list \<Rightarrow> 'p MDB_ID2 \<Rightarrow> (int \<times> 'p MDB_ID2 list) option" where
  "mdb_mid2l_append ids idn = do {
     hdr \<leftarrow> rd ids 0;
     if unat (mid hdr) \<ge> MDB_IDL_UM_MAX then Some (-2, ids)
     else do {
       ids \<leftarrow> wr ids 0 (hdr\<lparr>mid := mid hdr + 1\<rparr>);
       ids \<leftarrow> wr ids (unat (mid hdr + 1)) idn;
       Some (0, ids) } }"

section \<open>Correctness of the searches\<close>

text \<open>
  The contract of the search loop: the sign of the comparison changes once along the cells
  \<open>1 .. N\<close>, from positive over at most one zero to negative, and the result is the first cell
  whose sign is not positive (\<open>N + 1\<close> when all are).
\<close>

definition sign_change :: "(nat \<Rightarrow> int) \<Rightarrow> nat \<Rightarrow> bool" where
  "sign_change f N \<longleftrightarrow> (\<forall>i j. 1 \<le> i \<longrightarrow> i < j \<longrightarrow> j \<le> N \<longrightarrow> f i \<le> 0 \<longrightarrow> f j < 0)"

lemma search_loop_finds:
  assumes cmp: "\<And>c. 1 \<le> c \<Longrightarrow> c \<le> N \<Longrightarrow> cmp c = Some (f c)"
    and f: "sign_change f N"
    and "base + n \<le> N"
    and "\<forall>c. 1 \<le> c \<longrightarrow> c \<le> base \<longrightarrow> f c > 0"
    and "\<forall>c. base + n < c \<longrightarrow> c \<le> N \<longrightarrow> f c < 0"
    and "n = 0 \<Longrightarrow> cursor = (if val > 0 then base else base + 1)"
  shows "\<exists>r. search_loop cmp base n cursor val = Some r \<and> 1 \<le> r \<and> r \<le> N + 1
       \<and> (\<forall>c. 1 \<le> c \<longrightarrow> c < r \<longrightarrow> f c > 0) \<and> (\<forall>c. r < c \<longrightarrow> c \<le> N \<longrightarrow> f c < 0)
       \<and> (r \<le> N \<longrightarrow> f r \<le> 0)"
  using assms
proof (induction cmp base n cursor val rule: search_loop.induct)
  case (1 cmp base n cursor val)
  note IH = "1.IH" and cmp = "1.prems"(1) and f = "1.prems"(2) and bn = "1.prems"(3)
    and below = "1.prems"(4) and above = "1.prems"(5) and stop = "1.prems"(6)
  show ?case
  proof (cases "n = 0")
    case True
    with stop have "search_loop cmp base n cursor val = Some (base + 1)"
      by (simp add: search_loop.simps [of cmp base 0] split: if_splits)
    with True bn below above show ?thesis
      by (intro exI [of _ "base + 1"]) (auto simp: order_less_imp_le)
  next
    case False
    define p c v where "p = n div 2" and "c = base + p + 1" and "v = f c"
    have c: "1 \<le> c" "c \<le> N" "c + (n - (p + 1)) = base + n"
      using False bn by (auto simp: p_def c_def)
    have cv: "cmp c = Some v" using cmp c by (simp add: v_def)
    have left: "f x > 0" if "v \<ge> 0" "1 \<le> x" "x < c" for x
      using f that c unfolding sign_change_def v_def by (meson leD leI)
    have right: "f x < 0" if "v \<le> 0" "c < x" "x \<le> N" for x
      using f that c unfolding sign_change_def v_def by blast
    have unf: "search_loop cmp base n cursor val =
        (if v < 0 then search_loop cmp base p c v
         else if v > 0 then search_loop cmp c (n - (p + 1)) c v else Some c)"
      using False cv unfolding p_def c_def by (subst search_loop.simps) (simp add: Let_def)
    consider "v < 0" | "v > 0" | "v = 0" by linarith
    then show ?thesis
    proof cases
      case 1
      have "\<exists>r. search_loop cmp base p c v = Some r \<and> 1 \<le> r \<and> r \<le> N + 1
       \<and> (\<forall>c. 1 \<le> c \<longrightarrow> c < r \<longrightarrow> f c > 0) \<and> (\<forall>c. r < c \<longrightarrow> c \<le> N \<longrightarrow> f c < 0)
       \<and> (r \<le> N \<longrightarrow> f r \<le> 0)"
      proof (rule IH(1) [OF _ p_def c_def cv])
        show "\<forall>x. base + p < x \<longrightarrow> x \<le> N \<longrightarrow> f x < 0"
          using 1 right v_def by (auto simp: c_def) (metis Suc_lessI add.commute plus_1_eq_Suc)
      qed (use 1 False bn below cmp f in \<open>auto simp: p_def c_def\<close>)
      then show ?thesis using 1 by (simp add: unf)
    next
      case 2
      have "\<exists>r. search_loop cmp c (n - (p + 1)) c v = Some r \<and> 1 \<le> r \<and> r \<le> N + 1
       \<and> (\<forall>c. 1 \<le> c \<longrightarrow> c < r \<longrightarrow> f c > 0) \<and> (\<forall>c. r < c \<longrightarrow> c \<le> N \<longrightarrow> f c < 0)
       \<and> (r \<le> N \<longrightarrow> f r \<le> 0)"
      proof (rule IH(2) [OF _ p_def c_def cv])
        show "\<forall>x. 1 \<le> x \<longrightarrow> x \<le> c \<longrightarrow> f x > 0"
          using 2 left v_def by (metis le_neq_implies_less less_imp_le)
      qed (use 2 False bn above cmp f c in \<open>auto simp: p_def c_def\<close>)
      then show ?thesis using 2 by (simp add: unf)
    next
      case 3
      then show ?thesis using c left right by (simp add: unf) (simp add: v_def)
    qed
  qed
qed

lemma CMP_less [simp]: "CMP x y < 0 \<longleftrightarrow> x < y" and CMP_greater [simp]: "0 < CMP x y \<longleftrightarrow> y < x"
  and CMP_le [simp]: "CMP x y \<le> 0 \<longleftrightarrow> x \<le> y"
  by (auto simp: CMP_def)

definition idl_ok :: "MDB_ID list \<Rightarrow> bool" where
  "idl_ok ids \<longleftrightarrow> idl_count ids < length ids \<and> idl_count ids < 2 ^ 32 - 1"

lemma idl_okD:
  "idl_ok ids \<Longrightarrow> idl_count ids < length ids" "idl_ok ids \<Longrightarrow> idl_count ids < 2 ^ 32 - 1"
  "idl_ok ids \<Longrightarrow> rd ids 0 = Some (ids ! 0)"
  by (auto simp: idl_ok_def intro: rd_in)

lemma set_idl_elems: "set (idl_elems ids) = {ids ! i |i. 1 \<le> i \<and> i \<le> idl_count ids}"
  by (auto simp: idl_elems_def set_cells less_Suc_eq_le image_iff)

lemma sorted_idl_elems:
  "sorted_wrt P (idl_elems ids) \<longleftrightarrow>
   (\<forall>p q. 1 \<le> p \<longrightarrow> p < q \<longrightarrow> q \<le> idl_count ids \<longrightarrow> P (ids ! p) (ids ! q))"
  by (simp add: idl_elems_def sorted_wrt_cells less_Suc_eq_le)

lemma midl_search_correct:
  assumes ok: "idl_ok ids" and desc: "sorted_wrt (>) (idl_elems ids)"
  shows "\<exists>r. mdb_midl_search ids x = Some r \<and> 1 \<le> r \<and> r \<le> idl_count ids + 1
       \<and> (\<forall>c. 1 \<le> c \<longrightarrow> c < r \<longrightarrow> ids ! c > x)
       \<and> (\<forall>c. r < c \<longrightarrow> c \<le> idl_count ids \<longrightarrow> ids ! c < x)
       \<and> (r \<le> idl_count ids \<longrightarrow> ids ! r \<le> x)"
proof -
  define f where "f c = CMP (ids ! c) x" for c
  have "\<exists>r. search_loop (\<lambda>c. map_option (\<lambda>y. CMP y x) (rd ids c)) 0 (idl_count ids) 1 0 = Some r
       \<and> 1 \<le> r \<and> r \<le> idl_count ids + 1
       \<and> (\<forall>c. 1 \<le> c \<longrightarrow> c < r \<longrightarrow> f c > 0) \<and> (\<forall>c. r < c \<longrightarrow> c \<le> idl_count ids \<longrightarrow> f c < 0)
       \<and> (r \<le> idl_count ids \<longrightarrow> f r \<le> 0)"
    by (rule search_loop_finds)
      (use ok desc in \<open>auto simp: f_def idl_ok_def sign_change_def sorted_idl_elems
         intro: less_le_trans\<close>)
  then show ?thesis
    using idl_okD [OF ok] by (auto simp: mdb_midl_search_def f_def)
qed

text \<open>Found or not found, as the callers test it: \<open>x <= ids[0] && ids[x] == id\<close>.\<close>

lemma midl_search_found:
  assumes "1 \<le> r" "\<forall>c. 1 \<le> c \<longrightarrow> c < r \<longrightarrow> ids ! c > x"
    "\<forall>c. r < c \<longrightarrow> c \<le> idl_count ids \<longrightarrow> ids ! c < (x :: MDB_ID)"
  shows "r \<le> idl_count ids \<and> ids ! r = x \<longleftrightarrow> x \<in> set (idl_elems ids)"
  using assms by (auto simp: set_idl_elems) (metis leI linorder_neqE_nat order_less_irrefl)+

section \<open>The dirty-page table stays sorted\<close>

definition id2l_count :: "'p MDB_ID2 list \<Rightarrow> nat" where
  "id2l_count ids = unat (mid (ids ! 0))"

definition id2l_elems :: "'p MDB_ID2 list \<Rightarrow> 'p MDB_ID2 list" where
  "id2l_elems ids = cells ids 1 (Suc (id2l_count ids))"

definition id2l_sorted :: "'p MDB_ID2 list \<Rightarrow> bool" where
  "id2l_sorted ids \<longleftrightarrow> sorted_wrt (\<lambda>a b. mid a < mid b) (id2l_elems ids)"

text \<open>The table is allocated with \<open>MDB_IDL_UM_SIZE\<close> cells (\<open>mdb_env_open\<close>, \<open>mdb_txn_begin\<close>).\<close>

definition id2l_ok :: "'p MDB_ID2 list \<Rightarrow> bool" where
  "id2l_ok ids \<longleftrightarrow> length ids = MDB_IDL_UM_SIZE \<and> id2l_count ids \<le> MDB_IDL_UM_MAX"

lemma MDB_IDL_UM_SIZE_val [simp]: "MDB_IDL_UM_SIZE = 131072"
  by (simp add: MDB_IDL_UM_SIZE_def MDB_IDL_LOGN_def)

lemma id2l_okD:
  "id2l_ok ids \<Longrightarrow> id2l_count ids < length ids" "id2l_ok ids \<Longrightarrow> id2l_count ids \<le> MDB_IDL_UM_MAX"
  "id2l_ok ids \<Longrightarrow> rd ids 0 = Some (ids ! 0)"
  by (auto simp: id2l_ok_def intro: rd_in)

lemma set_id2l_elems: "set (id2l_elems ids) = {ids ! i |i. 1 \<le> i \<and> i \<le> id2l_count ids}"
  by (auto simp: id2l_elems_def set_cells less_Suc_eq_le image_iff)

lemma id2l_sorted_nth:
  "id2l_sorted ids \<longleftrightarrow>
   (\<forall>p q. 1 \<le> p \<longrightarrow> p < q \<longrightarrow> q \<le> id2l_count ids \<longrightarrow> mid (ids ! p) < mid (ids ! q))"
  by (simp add: id2l_sorted_def id2l_elems_def sorted_wrt_cells less_Suc_eq_le)

lemma mid2l_search_correct:
  assumes ok: "id2l_ok ids" and asc: "id2l_sorted ids"
  shows "\<exists>r. mdb_mid2l_search ids x = Some r \<and> 1 \<le> r \<and> r \<le> id2l_count ids + 1
       \<and> (\<forall>c. 1 \<le> c \<longrightarrow> c < r \<longrightarrow> mid (ids ! c) < x)
       \<and> (\<forall>c. r < c \<longrightarrow> c \<le> id2l_count ids \<longrightarrow> mid (ids ! c) > x)
       \<and> (r \<le> id2l_count ids \<longrightarrow> mid (ids ! r) \<ge> x)"
proof -
  define f where "f c = CMP x (mid (ids ! c))" for c
  have "\<exists>r. search_loop (\<lambda>c. map_option (\<lambda>y. CMP x (mid y)) (rd ids c)) 0 (id2l_count ids) 1 0 = Some r
       \<and> 1 \<le> r \<and> r \<le> id2l_count ids + 1
       \<and> (\<forall>c. 1 \<le> c \<longrightarrow> c < r \<longrightarrow> f c > 0) \<and> (\<forall>c. r < c \<longrightarrow> c \<le> id2l_count ids \<longrightarrow> f c < 0)
       \<and> (r \<le> id2l_count ids \<longrightarrow> f r \<le> 0)"
    by (rule search_loop_finds)
      (use ok asc in \<open>auto simp: f_def id2l_ok_def sign_change_def id2l_sorted_nth
         intro: le_less_trans\<close>)
  then show ?thesis
    using id2l_okD [OF ok] by (auto simp: mdb_mid2l_search_def f_def simp flip: id2l_count_def)
qed

lemma mid2l_shift_moves:
  "n < length ids \<Longrightarrow> \<exists>ids'. mid2l_shift ids x n = Some ids' \<and> length ids' = length ids
     \<and> (\<forall>p. ids' ! p = (if x < p \<and> p \<le> n then ids ! (p - 1) else ids ! p))"
proof (induction n arbitrary: ids)
  case 0
  then show ?case by auto
next
  case (Suc n)
  show ?case
  proof (cases "Suc n > x")
    case True
    let ?ids = "ids[Suc n := ids ! n]"
    from Suc.IH [of ?ids] Suc.prems obtain ids' where
      "mid2l_shift ?ids x n = Some ids'" "length ids' = length ids"
      and "\<forall>p. ids' ! p = (if x < p \<and> p \<le> n then ?ids ! (p - 1) else ?ids ! p)"
      by auto
    then show ?thesis
      using True Suc.prems by (auto simp: nth_list_update)
  qed (auto simp: Suc.prems)
qed

lemma unat_succ_less: "unat (w :: MDB_ID) < n \<Longrightarrow> n < 2 ^ 64 \<Longrightarrow> unat (w + 1) = unat w + 1"
  by (subst unat_add_lem [THEN iffD1]) auto

lemma mid2l_insert_new:
  assumes ok: "id2l_ok ids" and asc: "id2l_sorted ids"
    and new: "mid e \<notin> mid ` set (id2l_elems ids)" and room: "id2l_count ids < MDB_IDL_UM_MAX"
  shows "\<exists>x ids'. mdb_mid2l_insert ids e = Some (0, ids') \<and> length ids' = length ids
       \<and> 1 \<le> x \<and> x \<le> id2l_count ids + 1
       \<and> (\<forall>c. 1 \<le> c \<longrightarrow> c < x \<longrightarrow> mid (ids ! c) < mid e)
       \<and> (\<forall>c. x \<le> c \<longrightarrow> c \<le> id2l_count ids \<longrightarrow> mid e < mid (ids ! c))
       \<and> id2l_count ids' = id2l_count ids + 1
       \<and> id2l_elems ids' = insert_at (x - 1) e (id2l_elems ids)"
proof -
  define n where "n = id2l_count ids"
  obtain x where x: "mdb_mid2l_search ids (mid e) = Some x" "1 \<le> x" "x \<le> n + 1"
    and lt: "\<forall>c. 1 \<le> c \<longrightarrow> c < x \<longrightarrow> mid (ids ! c) < mid e"
    and gt: "\<forall>c. x < c \<longrightarrow> c \<le> n \<longrightarrow> mid (ids ! c) > mid e"
    and ge: "x \<le> n \<longrightarrow> mid (ids ! x) \<ge> mid e"
    using mid2l_search_correct [OF ok asc, of "mid e"] n_def by auto
  have ne: "mid (ids ! x) \<noteq> mid e" if "x \<le> n"
  proof -
    have "ids ! x \<in> set (id2l_elems ids)" using that x(2) by (auto simp: set_id2l_elems n_def)
    then show ?thesis using new by (metis image_eqI)
  qed
  have len: "n + 1 < length ids" using ok room by (auto simp: id2l_ok_def n_def)
  have succ: "unat (mid (ids ! 0) + 1) = n + 1"
    using room unat_succ_less [of "mid (ids ! 0)" MDB_IDL_UM_MAX] by (simp add: n_def id2l_count_def)
  define ids1 where "ids1 = ids[0 := (ids ! 0)\<lparr>mid := mid (ids ! 0) + 1\<rparr>]"
  obtain ids2 where ids2: "mid2l_shift ids1 x (n + 1) = Some ids2" "length ids2 = length ids"
    and nth2: "\<And>p. ids2 ! p = (if x < p \<and> p \<le> n + 1 then ids1 ! (p - 1) else ids1 ! p)"
    using mid2l_shift_moves [of "n + 1" ids1 x] len by (auto simp: ids1_def)
  let ?ids' = "ids2[x := e]"
  have hdr: "rd ids 0 = Some (ids ! 0)" and hdr': "wr ids 0 v = Some (ids[0 := v])" for v
    using len by (auto intro: rd_in wr_in)
  have dup: "(if x \<le> n then map_option (\<lambda>e'. mid e' = mid e) (rd ids x) else Some False) = Some False"
    using ne len by auto
  have n32: "u32 (n + 1) = n + 1" using room by (simp add: n_def)
  have "mdb_mid2l_insert ids e = Some (0, ?ids')"
    using x dup len succ ids2 n32 room [folded n_def]
    by (simp add: mdb_mid2l_insert_def hdr hdr' n_def [unfolded id2l_count_def, symmetric] ids1_def [symmetric]
        del: mid2l_shift.simps)
  moreover have cnt: "id2l_count ?ids' = n + 1"
  proof -
    have "ids \<noteq> []" using len by auto
    then show ?thesis using x len ids2(2) succ by (simp add: id2l_count_def nth2 ids1_def)
  qed
  moreover have "id2l_elems ?ids' = insert_at (x - 1) e (id2l_elems ids)"
  proof (rule nth_equalityI)
    fix i assume "i < length (id2l_elems ?ids')"
    then have i: "i \<le> n" by (simp add: id2l_elems_def cnt)
    have "ids2[x := e] ! Suc i = (if Suc i < x then ids ! Suc i else if Suc i = x then e else ids ! i)"
      using i x len ids2 by (auto simp: nth2 ids1_def nth_list_update)
    then show "id2l_elems ?ids' ! i = insert_at (x - 1) e (id2l_elems ids) ! i"
      using i x by (auto simp: id2l_elems_def cnt nth_insert_at n_def [symmetric])
  qed (simp add: id2l_elems_def cnt n_def [symmetric])
  ultimately show ?thesis
    using x lt gt ge ne ids2 by (intro exI [of _ x] exI [of _ ?ids'])
      (auto simp: n_def [symmetric] le_less)
qed

lemma sorted_insert_at:
  assumes "sorted_wrt P xs" "i \<le> length xs"
    and "\<forall>k < i. P (xs ! k) x" and "\<forall>k. i \<le> k \<longrightarrow> k < length xs \<longrightarrow> P x (xs ! k)"
  shows "sorted_wrt P (insert_at i x xs)"
proof -
  have "sorted_wrt P (take i xs @ drop i xs)" using assms(1) by simp
  moreover have "\<forall>a \<in> set (take i xs). P a x" using assms(3) by (auto simp: in_set_conv_nth)
  moreover have "\<forall>b \<in> set (drop i xs). P x b" using assms(2,4) by (auto simp: in_set_conv_nth)
  ultimately show ?thesis by (simp only: insert_at_def sorted_wrt_append sorted_wrt.simps) auto
qed

lemma mid2l_search_found:
  assumes "1 \<le> r" "\<forall>c. 1 \<le> c \<longrightarrow> c < r \<longrightarrow> mid (ids ! c) < x"
    "\<forall>c. r < c \<longrightarrow> c \<le> id2l_count ids \<longrightarrow> mid (ids ! c) > x"
  shows "r \<le> id2l_count ids \<and> mid (ids ! r) = x \<longleftrightarrow> x \<in> mid ` set (id2l_elems ids)"
proof
  assume "x \<in> mid ` set (id2l_elems ids)"
  then obtain i where i: "1 \<le> i" "i \<le> id2l_count ids" "mid (ids ! i) = x"
    by (auto simp: set_id2l_elems)
  then have "i = r" using assms(2,3) by (metis linorder_neqE_nat order_less_irrefl)
  with i show "r \<le> id2l_count ids \<and> mid (ids ! r) = x" by simp
qed (use assms(1) in \<open>auto simp: set_id2l_elems\<close>)

text \<open>
  What an insertion does in each of its three outcomes; in the successful one the table stays
  sorted and gains exactly the new entry.
\<close>

lemma mid2l_insert_cases:
  assumes ok: "id2l_ok ids" and asc: "id2l_sorted ids"
  shows "\<exists>rc ids'. mdb_mid2l_insert ids e = Some (rc, ids') \<and> id2l_sorted ids' \<and> id2l_ok ids'
       \<and> length ids' = length ids
       \<and> (if mid e \<in> mid ` set (id2l_elems ids) then rc = -1 \<and> ids' = ids
          else if id2l_count ids = MDB_IDL_UM_MAX then rc = -2 \<and> ids' = ids
          else rc = 0 \<and> id2l_count ids' = id2l_count ids + 1
             \<and> mset (id2l_elems ids') = add_mset e (mset (id2l_elems ids)))"
proof -
  define n where "n = id2l_count ids"
  obtain x where x: "mdb_mid2l_search ids (mid e) = Some x" "1 \<le> x" "x \<le> n + 1"
    and lt: "\<forall>c. 1 \<le> c \<longrightarrow> c < x \<longrightarrow> mid (ids ! c) < mid e"
    and gt: "\<forall>c. x < c \<longrightarrow> c \<le> n \<longrightarrow> mid (ids ! c) > mid e"
    using mid2l_search_correct [OF ok asc, of "mid e"] n_def by auto
  have n: "n < length ids" "n \<le> MDB_IDL_UM_MAX" "rd ids 0 = Some (ids ! 0)"
    using id2l_okD [OF ok] by (auto simp: n_def)
  have dup: "(if x \<le> n then map_option (\<lambda>e'. mid e' = mid e) (rd ids x) else Some False)
      = Some (mid e \<in> mid ` set (id2l_elems ids))"
  proof -
    have "(x \<le> n \<and> mid (ids ! x) = mid e) \<longleftrightarrow> mid e \<in> mid ` set (id2l_elems ids)"
      using mid2l_search_found [OF x(2) lt] gt by (simp add: n_def)
    then show ?thesis using n x by (auto simp: rd_def)
  qed
  consider "mid e \<in> mid ` set (id2l_elems ids)"
    | "mid e \<notin> mid ` set (id2l_elems ids)" "n = MDB_IDL_UM_MAX"
    | "mid e \<notin> mid ` set (id2l_elems ids)" "n < MDB_IDL_UM_MAX"
    using n by linarith
  then show ?thesis
  proof cases
    case 1
    then show ?thesis
      using ok asc x n dup by (simp add: mdb_mid2l_insert_def n_def id2l_count_def)
  next
    case 2
    then show ?thesis
      using ok asc x n dup by (simp add: mdb_mid2l_insert_def n_def id2l_count_def)
  next
    case 3
    obtain y ids' where y: "mdb_mid2l_insert ids e = Some (0, ids')" "length ids' = length ids"
        "1 \<le> y" "y \<le> n + 1"
      and lt: "\<forall>c. 1 \<le> c \<longrightarrow> c < y \<longrightarrow> mid (ids ! c) < mid e"
      and gt: "\<forall>c. y \<le> c \<longrightarrow> c \<le> n \<longrightarrow> mid e < mid (ids ! c)"
      and cnt: "id2l_count ids' = n + 1"
      and el: "id2l_elems ids' = insert_at (y - 1) e (id2l_elems ids)"
      using mid2l_insert_new [OF ok asc 3(1)] 3(2) n_def by auto
    have "id2l_sorted ids'"
      unfolding id2l_sorted_def el
      by (rule sorted_insert_at) (use asc [unfolded id2l_sorted_def] y lt gt in
          \<open>auto simp: id2l_elems_def n_def [symmetric]\<close>)
    moreover have "id2l_ok ids'"
      using ok 3(2) y(2) cnt by (simp add: id2l_ok_def)
    ultimately show ?thesis
      using 3 y cnt el by (auto simp: n_def)
  qed
qed

section \<open>Merging\<close>

lemma xmerge_shift_spec:
  assumes "j < k" "k < length idl" "idl ! 0 = -1"
  shows "\<exists>idl' j'. xmerge_shift idl m (idl ! j) j k = Some (idl', idl ! j', j', k - (j - j'))
     \<and> j' \<le> j \<and> length idl' = length idl \<and> m \<le> idl ! j' \<and> (\<forall>p. j' < p \<longrightarrow> p \<le> j \<longrightarrow> idl ! p < m)
     \<and> (\<forall>p. idl' ! p = (if k - (j - j') < p \<and> p \<le> k then idl ! (p - (k - j)) else idl ! p))"
  using assms
proof (induction j arbitrary: idl k)
  case 0
  have "\<not> idl ! 0 < m" unfolding 0 by (simp add: not_less)
  then show ?case
    using 0 by (auto simp: xmerge_shift.simps [of idl m "- 1"])
next
  case (Suc j)
  show ?case
  proof (cases "idl ! Suc j < m")
    case False
    then show ?thesis
      by (intro exI [of _ idl] exI [of _ "Suc j"]) (auto simp: xmerge_shift.simps [of idl])
  next
    case True
    let ?idl = "idl[k := idl ! Suc j]"
    have "j < k - 1" "k - 1 < length ?idl" "?idl ! 0 = -1" using Suc.prems by auto
    from Suc.IH [OF this] obtain idl' j' where
      r: "xmerge_shift ?idl m (?idl ! j) j (k - 1) = Some (idl', ?idl ! j', j', k - 1 - (j - j'))"
      and "j' \<le> j" "length idl' = length idl" "m \<le> ?idl ! j'"
      and small: "\<forall>p. j' < p \<longrightarrow> p \<le> j \<longrightarrow> ?idl ! p < m"
      and nth: "\<And>p. idl' ! p = (if k - 1 - (j - j') < p \<and> p \<le> k - 1 then ?idl ! (p - (k - 1 - j)) else ?idl ! p)"
      by auto
    have same: "?idl ! p = idl ! p" if "p \<le> j" for p using that Suc.prems by auto
    have "xmerge_shift idl m (idl ! Suc j) (Suc j) k = Some (idl', idl ! j', j', k - (Suc j - j'))"
      using True Suc.prems r same [of j] same [OF \<open>j' \<le> j\<close>] \<open>j' \<le> j\<close>
      by (subst xmerge_shift.simps) (simp add: Suc_diff_le)
    moreover have "idl ! p < m" if "j' < p" "p \<le> Suc j" for p
      using that small same True by (cases "p = Suc j") auto
    moreover have "idl' ! p = (if k - (Suc j - j') < p \<and> p \<le> k then idl ! (p - (k - Suc j)) else idl ! p)" for p
      using Suc.prems \<open>j' \<le> j\<close> by (auto simp: nth nth_list_update)
    ultimately show ?thesis
      using \<open>j' \<le> j\<close> \<open>length idl' = length idl\<close> \<open>m \<le> ?idl ! j'\<close> same [OF \<open>j' \<le> j\<close>]
      by (intro exI [of _ idl'] exI [of _ j']) auto
  qed
qed

lemma xmerge_loop_spec:
  assumes "i + j < length idl" "i < length merge" "idl ! 0 = -1"
    and "sorted_wrt (\<ge>) (cells idl 1 (Suc j))" "sorted_wrt (\<ge>) (cells merge 1 (Suc i))"
  shows "\<exists>idl'. xmerge_loop idl merge i (idl ! j) j (i + j) = Some idl' \<and> length idl' = length idl
     \<and> idl' ! 0 = -1 \<and> (\<forall>p > i + j. idl' ! p = idl ! p)
     \<and> mset (cells idl' 1 (Suc (i + j))) = mset (cells idl 1 (Suc j)) + mset (cells merge 1 (Suc i))
     \<and> sorted_wrt (\<ge>) (cells idl' 1 (Suc (i + j)))"
  using assms
proof (induction i arbitrary: idl j)
  case 0
  then show ?case by simp
next
  case (Suc i)
  define m k where "m = merge ! Suc i" and "k = Suc i + j"
  obtain idl1 j' where sh: "xmerge_shift idl m (idl ! j) j k = Some (idl1, idl ! j', j', k - (j - j'))"
    and j': "j' \<le> j" and len1: "length idl1 = length idl" and mle: "m \<le> idl ! j'"
    and small: "\<forall>p. j' < p \<longrightarrow> p \<le> j \<longrightarrow> idl ! p < m"
    and nth1: "\<And>p. idl1 ! p = (if k - (j - j') < p \<and> p \<le> k then idl ! (p - (k - j)) else idl ! p)"
    using xmerge_shift_spec [of j k idl m] Suc.prems by (auto simp: k_def)
  have k': "k - (j - j') = Suc (i + j')" using j' by (simp add: k_def)
  have sh': "xmerge_shift idl m (idl ! j) j (Suc (i + j)) = Some (idl1, idl ! j', j', Suc (i + j'))"
    using sh k' by (simp add: k_def)
  define idl2 where "idl2 = idl1[Suc (i + j') := m]"
  have low: "idl2 ! p = idl ! p" if "p \<le> j'" for p
    using that k' by (simp add: idl2_def nth1)
  have pre: "i + j' < length idl2" "i < length merge" "idl2 ! 0 = -1"
    "sorted_wrt (\<ge>) (cells idl2 1 (Suc j'))" "sorted_wrt (\<ge>) (cells merge 1 (Suc i))"
    using Suc.prems j' low [of 0] low by (auto simp: idl2_def len1 sorted_wrt_cells k_def)
  obtain idl' where r: "xmerge_loop idl2 merge i (idl2 ! j') j' (i + j') = Some idl'"
    and len: "length idl' = length idl2" and h: "idl' ! 0 = -1"
    and up: "\<And>p. p > i + j' \<Longrightarrow> idl' ! p = idl2 ! p"
    and ms: "mset (cells idl' 1 (Suc (i + j'))) = mset (cells idl2 1 (Suc j')) + mset (cells merge 1 (Suc i))"
    and so: "sorted_wrt (\<ge>) (cells idl' 1 (Suc (i + j')))"
    using Suc.IH [OF pre] by blast
  have run: "xmerge_loop idl merge (Suc i) (idl ! j) j (Suc i + j) = Some idl'"
    using Suc.prems sh' r low [of j'] j' by (simp add: m_def [symmetric] len1 idl2_def)
  have tail: "cells idl' (Suc (Suc (i + j'))) (Suc k) = cells idl (Suc j') (Suc j)"
    by (rule nth_equalityI) (use j' k' in \<open>auto simp: up idl2_def nth1 k_def\<close>)
  have mid: "idl' ! Suc (i + j') = m" using up len1 Suc.prems j' by (simp add: idl2_def)
  have split: "cells idl' 1 (Suc k) = cells idl' 1 (Suc (i + j')) @ m # cells idl (Suc j') (Suc j)"
    using j' mid tail cells_append [of 1 "Suc (i + j')" "Suc k" idl']
    by (simp add: k_def cells_Cons [of "Suc (i + j')"])
  have lowcells: "cells idl2 1 (Suc j') = cells idl 1 (Suc j')"
    by (rule cells_cong) (simp add: low)
  have "mset (cells idl' 1 (Suc k)) = mset (cells idl 1 (Suc j)) + mset (cells merge 1 (Suc (Suc i)))"
  proof -
    have a: "cells idl 1 (Suc j) = cells idl 1 (Suc j') @ cells idl (Suc j') (Suc j)"
      by (rule cells_append) (use j' in auto)
    show ?thesis
      unfolding split a mset_append mset.simps ms lowcells by (simp add: cells_snoc m_def)
  qed
  moreover have "sorted_wrt (\<ge>) (cells idl' 1 (Suc k))"
  proof -
    have "x \<ge> m" if "x \<in> set (cells idl' 1 (Suc (i + j')))" for x
    proof -
      have "x \<in># mset (cells idl 1 (Suc j')) + mset (cells merge 1 (Suc i))"
        using that ms lowcells by (metis set_mset_mset)
      then consider p where "1 \<le> p" "p \<le> j'" "x = idl ! p" | p where "1 \<le> p" "p \<le> i" "x = merge ! p"
        by (auto simp: set_cells less_Suc_eq_le)
      then show ?thesis
      proof cases
        case 1
        then have "idl ! p \<ge> idl ! j'"
          using Suc.prems(4) j' by (cases "p = j'") (auto simp: sorted_wrt_cells)
        with 1 mle show ?thesis by simp
      next
        case 2
        then show ?thesis using Suc.prems(5) by (auto simp: sorted_wrt_cells m_def)
      qed
    qed
    moreover have "y < m" if "y \<in> set (cells idl (Suc j') (Suc j))" for y
      using that small by (auto simp: set_cells less_Suc_eq_le)
    moreover have "sorted_wrt (\<ge>) (cells idl (Suc j') (Suc j))"
      using Suc.prems(4) by (auto simp: sorted_wrt_cells)
    ultimately show ?thesis
      using so unfolding split sorted_wrt_append by (force intro: order_trans less_imp_le)
  qed
  moreover have "idl' ! p = idl ! p" if "p > k" for p
    using that j' k' by (simp add: up idl2_def nth1 k_def)
  ultimately show ?case
    using run len h len1 by (auto simp: idl2_def k_def)
qed

lemma midl_xmerge_correct:
  assumes "idl_count idl + idl_count merge < length idl" "idl_count merge < length merge"
    and "sorted_wrt (\<ge>) (idl_elems idl)" "sorted_wrt (\<ge>) (idl_elems merge)"
    and "idl_count idl + idl_count merge < 2 ^ 64"
  shows "\<exists>idl'. mdb_midl_xmerge idl merge = Some idl' \<and> length idl' = length idl
     \<and> idl_count idl' = idl_count idl + idl_count merge
     \<and> mset (idl_elems idl') = mset (idl_elems idl) + mset (idl_elems merge)
     \<and> sorted_wrt (\<ge>) (idl_elems idl')"
proof -
  let ?i = "idl_count merge" and ?j = "idl_count idl" and ?idl = "idl[0 := -1]"
  have ne: "idl \<noteq> []" "merge \<noteq> []" using assms by auto
  have tot: "unat (merge ! 0 + idl ! 0) = ?i + ?j"
    using assms(5) by (subst unat_add_lem [THEN iffD1]) auto
  have same: "cells ?idl 1 b = cells idl 1 b" for b by simp
  obtain idl' where r: "xmerge_loop ?idl merge ?i (?idl ! ?j) ?j (?i + ?j) = Some idl'"
    and len: "length idl' = length idl"
    and ms: "mset (cells idl' 1 (Suc (?i + ?j))) = mset (cells idl 1 (Suc ?j)) + mset (cells merge 1 (Suc ?i))"
    and so: "sorted_wrt (\<ge>) (cells idl' 1 (Suc (?i + ?j)))"
    using xmerge_loop_spec [of ?i ?j ?idl merge] assms ne same
    by (auto simp: idl_elems_def add.commute)
  have ne': "idl' \<noteq> []" using len ne by auto
  then have hd: "idl'[0 := v] ! 0 = v" for v by simp
  have "mdb_midl_xmerge idl merge = Some (idl'[0 := merge ! 0 + idl ! 0])"
    using r ne ne' assms len by (simp add: mdb_midl_xmerge_def tot rd_def wr_def)
  then show ?thesis
    using hd len tot ms so
    by (intro exI [of _ "idl'[0 := merge ! 0 + idl ! 0]"]) (auto simp: idl_elems_def add.commute)
qed

section \<open>Appending\<close>

text \<open>A list in its allocation: there is a cell for every ID up to the recorded capacity.\<close>

definition idl_wf :: "MDB_IDL \<Rightarrow> bool" where
  "idl_wf idl \<longleftrightarrow> unat (idl_len idl) < length (idl_ids idl)
     \<and> idl_count (idl_ids idl) \<le> unat (idl_len idl)"

lemma idl_wfD:
  "idl_wf idl \<Longrightarrow> unat (idl_len idl) < length (idl_ids idl)"
  "idl_wf idl \<Longrightarrow> idl_count (idl_ids idl) \<le> unat (idl_len idl)"
  "idl_wf idl \<Longrightarrow> rd (idl_ids idl) 0 = Some (idl_ids idl ! 0)"
  "idl_wf idl \<Longrightarrow> idl_ids idl \<noteq> []"
  by (auto simp: idl_wf_def intro: rd_in)

lemma idl_elems_cong:
  "ids ! 0 = ids' ! 0 \<Longrightarrow> (\<And>i. 1 \<le> i \<Longrightarrow> i \<le> idl_count ids \<Longrightarrow> ids ! i = ids' ! i) \<Longrightarrow>
   idl_elems ids = idl_elems ids'"
  by (auto simp: idl_elems_def intro: cells_cong)

lemma idl_elems_realloc:
  "idl_count ids < n \<Longrightarrow> idl_count ids < length ids \<Longrightarrow>
   idl_elems (realloc_cells n ids) = idl_elems ids \<and> realloc_cells n ids ! 0 = ids ! 0"
proof -
  assume a: "idl_count ids < n" "idl_count ids < length ids"
  then have "realloc_cells n ids ! i = ids ! i" if "i \<le> idl_count ids" for i
    using that by (intro nth_realloc_cells) auto
  then show ?thesis by (auto intro!: idl_elems_cong)
qed

lemma midl_alloc_empty:
  assumes "mdb_midl_alloc mem num = Some idl" and "num < 2 ^ 31"
  shows "idl_wf idl \<and> idl_elems (idl_ids idl) = [] \<and> unat (idl_len idl) = num"
proof -
  have "unat (of_nat num + 2 :: 64 word) = num + 2" using assms(2) by (subst unat_add_small) auto
  then show ?thesis using assms by (auto simp: mdb_midl_alloc_def Let_def idl_wf_def idl_elems_def split: if_splits)
qed

lemma midl_grow_cases:
  assumes wf: "idl_wf idl" and small: "unat (idl_len idl) + num + 2 < 2 ^ 64" "num < 2 ^ 31"
  shows "\<exists>rc idl'. mdb_midl_grow mem idl num = (rc, idl')
     \<and> (rc = ENOMEM \<and> idl' = idl \<and> \<not> mem ((unat (idl_len idl) + num + 2) * sizeof_MDB_ID)
        \<or> rc = 0 \<and> mem ((unat (idl_len idl) + num + 2) * sizeof_MDB_ID) \<and> idl_wf idl' \<and> unat (idl_len idl') = unat (idl_len idl) + num
          \<and> idl_ids idl' ! 0 = idl_ids idl ! 0 \<and> idl_elems (idl_ids idl') = idl_elems (idl_ids idl))"
proof -
  have "unat (idl_len idl + of_nat num) = unat (idl_len idl) + num"
    using small by (subst unat_add_small) auto
  moreover from this have "unat (idl_len idl + of_nat num + 2) = unat (idl_len idl) + num + 2"
    using small by (subst unat_add_small) auto
  moreover have "int_arg num = of_nat num" using small by simp
  ultimately show ?thesis
    using idl_wfD [OF wf] idl_elems_realloc [of "idl_ids idl" "unat (idl_len idl) + num + 1"]
    by (auto simp: mdb_midl_grow_def Let_def idl_wf_def)
qed

lemma ENOMEM_nz [simp]: "ENOMEM \<noteq> 0"
  by (simp add: ENOMEM_def)

lemma midl_append_cases:
  assumes wf: "idl_wf idl" and small: "unat (idl_len idl) < 2 ^ 63"
  shows "\<exists>rc idl'. mdb_midl_append mem idl x = Some (rc, idl')
     \<and> (rc = ENOMEM \<and> idl' = idl \<and> idl_count (idl_ids idl) = unat (idl_len idl) \<and> \<not> mem ((unat (idl_len idl) + MDB_IDL_UM_MAX + 2) * sizeof_MDB_ID)
        \<or> rc = 0 \<and> (idl_count (idl_ids idl) \<noteq> unat (idl_len idl) \<or> mem ((unat (idl_len idl) + MDB_IDL_UM_MAX + 2) * sizeof_MDB_ID))
          \<and> idl_wf idl' \<and> unat (idl_len idl') \<ge> unat (idl_len idl)
          \<and> idl_elems (idl_ids idl') = idl_elems (idl_ids idl) @ [x])"
proof -
  define n where "n = idl_count (idl_ids idl)"
  define g where "g = (if idl_ids idl ! 0 \<ge> idl_len idl
      then mdb_midl_grow mem idl MDB_IDL_UM_MAX else (0, idl))"
  obtain rc idl1 where g': "g = (rc, idl1)" by force
  have *: "rc = ENOMEM \<and> idl1 = idl \<and> n = unat (idl_len idl) \<and> \<not> mem ((unat (idl_len idl) + MDB_IDL_UM_MAX + 2) * sizeof_MDB_ID)
      \<or> rc = 0 \<and> (n \<noteq> unat (idl_len idl) \<or> mem ((unat (idl_len idl) + MDB_IDL_UM_MAX + 2) * sizeof_MDB_ID)) \<and> idl_wf idl1 \<and> n < unat (idl_len idl1) \<and> unat (idl_len idl) \<le> unat (idl_len idl1)
        \<and> idl_ids idl1 ! 0 = idl_ids idl ! 0
        \<and> idl_elems (idl_ids idl1) = idl_elems (idl_ids idl)"
    using midl_grow_cases [OF wf, of MDB_IDL_UM_MAX mem] g' small wf idl_wfD(2) [OF wf]
    by (auto simp: g_def n_def word_le_nat_alt not_le split: if_splits)
  show ?thesis
  proof (cases "rc = 0")
    case False
    then have "mdb_midl_append mem idl x = Some (ENOMEM, idl)"
      using * g' idl_wfD(3) [OF wf] by (simp add: mdb_midl_append_def g_def [symmetric])
    then show ?thesis using False * by (auto simp: n_def)
  next
    case True
    then have wf1: "idl_wf idl1" and lt: "n < unat (idl_len idl1)" and hd: "idl_ids idl1 ! 0 = idl_ids idl ! 0"
      and el: "idl_elems (idl_ids idl1) = idl_elems (idl_ids idl)" and ge: "unat (idl_len idl) \<le> unat (idl_len idl1)"
      using * by auto
    have suc: "unat (idl_ids idl ! 0 + 1) = n + 1"
      using lt unat64_less [of "idl_len idl1"] by (subst unat_add_small) (auto simp: n_def)
    define ids2 where "ids2 = (idl_ids idl1)[0 := idl_ids idl ! 0 + 1, n + 1 := x]"
    have len: "n + 1 < length (idl_ids idl1)" using lt idl_wfD(1) [OF wf1] by simp
    have "mdb_midl_append mem idl x = Some (0, idl1\<lparr>idl_ids := ids2\<rparr>)"
      using True g' idl_wfD(3,4) [OF wf] idl_wfD(4) [OF wf1] len suc
      by (simp add: mdb_midl_append_def g_def [symmetric] ids2_def wr_def)
    moreover have hd2: "ids2 ! 0 = idl_ids idl ! 0 + 1"
      using idl_wfD(4) [OF wf1] by (simp add: ids2_def)
    moreover have "idl_elems ids2 = idl_elems (idl_ids idl) @ [x]"
    proof -
      have "idl_elems ids2 = cells ids2 1 (Suc n) @ [ids2 ! (n + 1)]"
        by (simp add: idl_elems_def hd2 suc cells_snoc)
      then show ?thesis using el hd len by (simp add: ids2_def idl_elems_def n_def)
    qed
    ultimately show ?thesis
      using wf1 suc lt ge * True by (auto simp: idl_wf_def ids2_def n_def)
  qed
qed

lemma append_range_loop_spec:
  "len + n < length ids \<Longrightarrow>
   \<exists>ids'. append_range_loop ids len x n = Some ids' \<and> length ids' = length ids
     \<and> (\<forall>p. ids' ! p = (if len < p \<and> p \<le> len + n then x + of_nat (len + n - p) else ids ! p))"
proof (induction n arbitrary: ids x)
  case (Suc n)
  let ?ids = "ids[len + Suc n := x]"
  from Suc.IH [of ?ids "x + 1"] Suc.prems obtain ids' where
    "append_range_loop ?ids len (x + 1) n = Some ids'" "length ids' = length ids"
    and "\<forall>p. ids' ! p = (if len < p \<and> p \<le> len + n then x + 1 + of_nat (len + n - p) else ?ids ! p)"
    by auto
  then show ?case
    using Suc.prems by (auto simp: nth_list_update Suc_diff_le algebra_simps)
qed auto

lemma or_ge_nat: "(n :: nat) \<le> or n m"
proof -
  have "int n \<le> or (int n) (int m)" by (simp add: or_greater_eq)
  then show ?thesis by (simp flip: of_nat_or_eq)
qed

lemma midl_append_range_cases:
  assumes wf: "idl_wf idl" and small: "unat (idl_len idl) < 2 ^ 63" "or n MDB_IDL_UM_MAX < 2 ^ 31"
  shows "\<exists>rc idl'. mdb_midl_append_range mem idl x n = Some (rc, idl')
     \<and> (rc = ENOMEM \<and> idl' = idl
        \<or> rc = 0 \<and> idl_wf idl'
          \<and> idl_elems (idl_ids idl') = idl_elems (idl_ids idl) @ map (\<lambda>k. x + of_nat k) (rev [0..<n]))"
proof -
  define c where "c = idl_count (idl_ids idl)"
  define g where "g = (if idl_ids idl ! 0 + of_nat n > idl_len idl
      then mdb_midl_grow mem idl (or n MDB_IDL_UM_MAX) else (0, idl))"
  obtain rc idl1 where g': "g = (rc, idl1)" by force
  have n63: "n < 2 ^ 63" "c + n < 2 ^ 64"
    using or_ge_nat [of n MDB_IDL_UM_MAX] small idl_wfD(2) [OF wf] by (simp_all add: c_def)
  have sum: "unat (idl_ids idl ! 0 + of_nat n) = c + n"
    using n63 by (subst unat_add_small) (auto simp: c_def)
  have *: "rc = ENOMEM \<and> idl1 = idl
      \<or> rc = 0 \<and> idl_wf idl1 \<and> c + n \<le> unat (idl_len idl1) \<and> idl_ids idl1 ! 0 = idl_ids idl ! 0
        \<and> idl_elems (idl_ids idl1) = idl_elems (idl_ids idl)"
    using midl_grow_cases [OF wf, of "or n MDB_IDL_UM_MAX" mem] g' small wf idl_wfD(2) [OF wf]
      or_ge_nat [of n MDB_IDL_UM_MAX] sum
    by (auto simp: g_def c_def word_less_nat_alt not_less split: if_splits)
  show ?thesis
  proof (cases "rc = 0")
    case False
    then show ?thesis
      using * g' idl_wfD(3) [OF wf] by (simp add: mdb_midl_append_range_def g_def [symmetric])
  next
    case True
    then have wf1: "idl_wf idl1" and fits: "c + n \<le> unat (idl_len idl1)"
      and hd: "idl_ids idl1 ! 0 = idl_ids idl ! 0" and el: "idl_elems (idl_ids idl1) = idl_elems (idl_ids idl)"
      using * by auto
    let ?ids = "(idl_ids idl1)[0 := idl_ids idl ! 0 + of_nat n]"
    have len: "c + n < length ?ids" using fits idl_wfD(1) [OF wf1] by simp
    obtain ids2 where l: "append_range_loop ?ids c x n = Some ids2" "length ids2 = length ?ids"
      and nth: "\<And>p. ids2 ! p = (if c < p \<and> p \<le> c + n then x + of_nat (c + n - p) else ?ids ! p)"
      using append_range_loop_spec [OF len] by blast
    have run: "mdb_midl_append_range mem idl x n = Some (0, idl1\<lparr>idl_ids := ids2\<rparr>)"
      using True g' l idl_wfD(3) [OF wf] idl_wfD(4) [OF wf1]
      by (simp add: mdb_midl_append_range_def g_def [symmetric] wr_def c_def)
    have hd2: "unat (ids2 ! 0) = c + n" using idl_wfD(4) [OF wf1] sum by (simp add: nth)
    have "idl_elems ids2 = cells ids2 1 (Suc c) @ cells ids2 (Suc c) (Suc (c + n))"
      unfolding idl_elems_def hd2 by (rule cells_append) auto
    also have "cells ids2 1 (Suc c) = idl_elems (idl_ids idl)"
      unfolding el [symmetric] unfolding idl_elems_def hd c_def [symmetric]
      by (rule cells_cong) (auto simp: nth)
    also have "cells ids2 (Suc c) (Suc (c + n)) = map (\<lambda>k. x + of_nat k) (rev [0..<n])"
      by (rule nth_equalityI) (auto simp: nth rev_nth)
    finally show ?thesis
      using run wf1 fits hd2 l(2) by (auto simp: idl_wf_def)
  qed
qed

lemma midl_append_list_cases:
  assumes wf: "idl_wf idl" and app: "idl_count app < length app"
    and small: "unat (idl_len idl) < 2 ^ 63" "idl_count app < 2 ^ 31"
  shows "\<exists>rc idl'. mdb_midl_append_list mem idl app = Some (rc, idl')
     \<and> (rc = ENOMEM \<and> idl' = idl
        \<or> rc = 0 \<and> idl_wf idl' \<and> idl_elems (idl_ids idl') = idl_elems (idl_ids idl) @ idl_elems app)"
proof -
  define c n where "c = idl_count (idl_ids idl)" and "n = idl_count app"
  define g where "g = (if idl_ids idl ! 0 + app ! 0 \<ge> idl_len idl
      then mdb_midl_grow mem idl n else (0, idl))"
  obtain rc idl1 where g': "g = (rc, idl1)" by force
  have sum: "unat (idl_ids idl ! 0 + app ! 0) = c + n"
    using small idl_wfD(2) [OF wf] by (subst unat_add_small) (auto simp: c_def n_def)
  have *: "rc = ENOMEM \<and> idl1 = idl
      \<or> rc = 0 \<and> idl_wf idl1 \<and> c + n \<le> unat (idl_len idl1) \<and> idl_ids idl1 ! 0 = idl_ids idl ! 0
        \<and> idl_elems (idl_ids idl1) = idl_elems (idl_ids idl)"
    using midl_grow_cases [OF wf, of n mem] g' small wf idl_wfD(2) [OF wf] sum
    by (auto simp: g_def c_def n_def word_le_nat_alt not_le split: if_splits)
  have unf: "mdb_midl_append_list mem idl app = (case g of (rc, idl') \<Rightarrow>
      if rc \<noteq> 0 then Some (rc, idl')
      else do {
        ids \<leftarrow> memcpy (idl_ids idl') (c + 1) app 1 n;
        ids \<leftarrow> wr ids 0 (idl_ids idl ! 0 + app ! 0);
        Some (0, idl'\<lparr>idl_ids := ids\<rparr>) })"
  proof -
    have "rd app 0 = Some (app ! 0)" using app by (auto intro: rd_in)
    then show ?thesis
      using idl_wfD(3) [OF wf]
      by (auto simp: mdb_midl_append_list_def g_def c_def n_def split: prod.split)
  qed
  show ?thesis
  proof (cases "rc = 0")
    case False
    then show ?thesis using * g' by (simp add: unf)
  next
    case True
    then have wf1: "idl_wf idl1" and fits: "c + n \<le> unat (idl_len idl1)"
      and hd: "idl_ids idl1 ! 0 = idl_ids idl ! 0" and el: "idl_elems (idl_ids idl1) = idl_elems (idl_ids idl)"
      using * by auto
    define ids1 where "ids1 = idl_ids idl1"
    have len: "c + n < length ids1" using fits idl_wfD(1) [OF wf1] by (simp add: ids1_def)
    define ids2 where "ids2 = take (c + 1) ids1 @ take n (drop 1 app) @ drop (c + 1 + n) ids1"
    have cpy: "memcpy ids1 (c + 1) app 1 n = Some ids2"
      using len app by (cases "n = 0") (auto simp: memcpy_def ids2_def n_def)
    have nth: "ids2 ! p = (if c < p \<and> p \<le> c + n then app ! (p - c) else ids1 ! p)" if "p < length ids1" for p
    proof -
      have l: "length (take n (drop 1 app)) = n" "length (take (c + 1) ids1) = c + 1"
        using len app by (auto simp: n_def)
      consider "p \<le> c" | "c < p" "p \<le> c + n" | "c + n < p" by linarith
      then show ?thesis
        by cases (use that len app l in
          \<open>auto simp: ids2_def nth_append n_def Suc_diff_Suc simp del: length_take length_drop\<close>)
    qed
    have l2: "length ids2 = length ids1" using len app by (simp add: ids2_def n_def)
    let ?ids3 = "ids2[0 := idl_ids idl ! 0 + app ! 0]"
    have ne: "ids2 \<noteq> []" using l2 len by auto
    have run: "mdb_midl_append_list mem idl app = Some (0, idl1\<lparr>idl_ids := ?ids3\<rparr>)"
      using True g' cpy ne by (simp add: unf wr_def ids1_def)
    have hd3: "unat (?ids3 ! 0) = c + n" using ne sum by simp
    have "idl_elems ?ids3 = cells ?ids3 1 (Suc c) @ cells ?ids3 (Suc c) (Suc (c + n))"
      unfolding idl_elems_def hd3 by (rule cells_append) auto
    also have "cells ?ids3 1 (Suc c) = idl_elems (idl_ids idl)"
    proof -
      have "idl_elems (idl_ids idl) = cells ids1 1 (Suc c)"
        unfolding el [symmetric] by (simp add: idl_elems_def hd c_def ids1_def)
      then show ?thesis using len by (auto intro!: cells_cong simp: nth)
    qed
    also have "cells ?ids3 (Suc c) (Suc (c + n)) = idl_elems app"
      by (rule nth_equalityI) (use len in \<open>auto simp: nth idl_elems_def n_def\<close>)
    finally show ?thesis
      using run wf1 fits hd3 l2 by (auto simp: idl_wf_def ids1_def)
  qed
qed

text \<open>\<open>mdb_midl_need\<close> makes room for \<open>num\<close> more IDs and keeps the list.\<close>

lemma midl_need_cases:
  assumes wf: "idl_wf idl" and small: "num + idl_count (idl_ids idl) < 2 ^ 31"
  shows "\<exists>rc idl'. mdb_midl_need mem idl num = Some (rc, idl')
     \<and> (rc = ENOMEM \<and> idl' = idl
        \<or> rc = 0 \<and> idl_wf idl' \<and> idl_ids idl' ! 0 = idl_ids idl ! 0
          \<and> idl_elems (idl_ids idl') = idl_elems (idl_ids idl)
          \<and> idl_count (idl_ids idl') + num \<le> unat (idl_len idl'))"
proof -
  define c m where "c = idl_count (idl_ids idl)" and "m = num + c"
  define k where "k = (m + m div 4 + 258) div 256 * 256"
  have k: "m + 3 \<le> k" "k < 2 ^ 32" using small by (auto simp: k_def m_def c_def)
  define k2 where "k2 = k - 2"
  have k2: "k2 = k - 2" by (simp add: k2_def)
  then have "k2 < 18446744073709551616" using k by simp
  then have k2': "unat (of_nat k2 :: 64 word) = k2" by (rule unat_of_nat64)
  have k0: "k \<noteq> 0" using k by simp
  have u: "u32 (num + idl_count (idl_ids idl)) = m" "u32 (m + m div 4 + 258) = m + m div 4 + 258"
    using small by (auto simp: m_def c_def)
  have "idl_elems (realloc_cells (k - 1) (idl_ids idl)) = idl_elems (idl_ids idl)
      \<and> realloc_cells (k - 1) (idl_ids idl) ! 0 = idl_ids idl ! 0"
    by (rule idl_elems_realloc) (use k idl_wfD [OF wf] in \<open>auto simp: m_def c_def\<close>)
  moreover have "mdb_midl_need mem idl num =
      (if m > unat (idl_len idl) then
         if mem (k * sizeof_MDB_ID)
         then Some (0, \<lparr>idl_len = of_nat k2, idl_ids = realloc_cells (k - 1) (idl_ids idl)\<rparr>)
         else Some (ENOMEM, idl)
       else Some (0, idl))"
    using u idl_wfD(3) [OF wf] k0
    by (simp add: mdb_midl_need_def Let_def k_def [symmetric] k2 del: of_nat_diff of_nat_mult)
  ultimately show ?thesis
    using k k2 k2' wf by (auto simp: idl_wf_def m_def c_def)
qed

text \<open>
  After a shrink the allocation has one cell less than the recorded capacity asks for
  (\<open>realloc(ids, (MDB_IDL_UM_MAX+1) * sizeof(MDB_ID))\<close> holds \<open>ids[-1] .. ids[MDB_IDL_UM_MAX-1]\<close>):
  the list is no longer well formed, and once it holds \<open>MDB_IDL_UM_MAX - 1\<close> IDs the next append
  passes the capacity check and stores outside of the allocation.
\<close>

lemma midl_shrink_not_wf:
  "mdb_midl_shrink mem idl = (True, idl') \<Longrightarrow> \<not> idl_wf idl'"
  by (auto simp: mdb_midl_shrink_def idl_wf_def split: if_splits)

lemma midl_append_after_shrink:
  assumes "mdb_midl_shrink mem idl = (True, idl')"
    and "length ids = length (idl_ids idl')" and "idl_count ids = MDB_IDL_UM_MAX - 1"
  shows "mdb_midl_append mem (idl'\<lparr>idl_ids := ids\<rparr>) x = None"
proof -
  have l: "length ids = 131071" "idl_len idl' = 131071" and n: "idl_count ids = 131070"
    using assms by (auto simp: mdb_midl_shrink_def split: if_splits)
  then have "ids ! 0 = 131070" by (simp add: word_unat_eq_iff)
  then show ?thesis
    using l by (auto simp: mdb_midl_append_def rd_def wr_def)
qed

end
