(* ===== verification/Lmdb_Midl_Facts.thy ===== *)
theory Lmdb_Midl_Facts
  imports Lmdb_Midl
begin

text \<open>
  What the ID lists guarantee their callers: searching, inserting into the dirty-page table, merging
  and appending, over the IDs as a list.
\<close>

lemma idl_elems_Cons: "unat n \<le> length xs \<Longrightarrow> idl_elems (n # xs) = take (unat n) xs"
  by (rule nth_equalityI) (auto simp: idl_elems_def)

lemma idl_wf_lit: "idl_wf \<lparr>idl_len = l, idl_ids = n # xs\<rparr> \<longleftrightarrow> unat l \<le> length xs \<and> unat n \<le> unat l"
  by (auto simp: idl_wf_def)

section \<open>Searching\<close>

text \<open>
  C21: on a descending list \<open>mdb_midl_search\<close> returns the first cell whose ID is not greater than the
  one searched, one past the last cell when all are greater: every cell before it holds a greater ID,
  and every cell from it on a smaller one or, at the cell itself, the ID.  So the caller's test
  \<open>x <= ids[0] && ids[x] == id\<close> decides membership.
\<close>

theorem midl_search_decides:
  assumes "idl_ok ids" and "sorted_wrt (>) (idl_elems ids)"
  shows "\<exists>r. mdb_midl_search ids x = Some r \<and> 1 \<le> r \<and> r \<le> idl_count ids + 1
     \<and> (r \<le> idl_count ids \<and> ids ! r = x \<longleftrightarrow> x \<in> set (idl_elems ids))
     \<and> (\<forall>y \<in> set (take (r - 1) (idl_elems ids)). y > x)
     \<and> (\<forall>y \<in> set (drop (r - 1) (idl_elems ids)). y \<le> x)
     \<and> (\<forall>y \<in> set (drop r (idl_elems ids)). y < x)"
proof -
  obtain r where r: "mdb_midl_search ids x = Some r" "1 \<le> r" "r \<le> idl_count ids + 1"
    "\<forall>c. 1 \<le> c \<longrightarrow> c < r \<longrightarrow> ids ! c > x" "\<forall>c. r < c \<longrightarrow> c \<le> idl_count ids \<longrightarrow> ids ! c < x"
    "r \<le> idl_count ids \<longrightarrow> ids ! r \<le> x"
    using midl_search_correct [OF assms] by blast
  moreover have "\<forall>y \<in> set (take (r - 1) (idl_elems ids)). y > x"
    using r(2-4) by (auto simp: idl_elems_def in_set_conv_nth)
  moreover have "\<forall>y \<in> set (drop (r - 1) (idl_elems ids)). y \<le> x"
  proof
    fix y assume "y \<in> set (drop (r - 1) (idl_elems ids))"
    then obtain i where "y = ids ! (r + i)" "r + i \<le> idl_count ids"
      using r(2) by (auto simp: idl_elems_def in_set_conv_nth)
    then show "y \<le> x" using r(5,6) by (cases "i = 0") (auto intro: less_imp_le)
  qed
  moreover have "\<forall>y \<in> set (drop r (idl_elems ids)). y < x"
    using r(2,3,5) by (auto simp: idl_elems_def in_set_conv_nth)
  ultimately show ?thesis using midl_search_found [OF r(2,4,5)] by blast
qed

lemma midl_search_decides_witness:
  "mdb_midl_search [1, 9] 5 = Some 2"
proof -
  have "idl_ok [1, 9]" "sorted_wrt (>) (idl_elems [1, 9 :: MDB_ID])"
    by (simp_all add: idl_ok_def idl_elems_Cons)
  from midl_search_decides [OF this, of 5] show ?thesis
    by (auto simp: idl_elems_Cons le_Suc_eq)
qed

section \<open>The dirty-page table\<close>

text \<open>
  C22: \<open>mdb_mid2l_insert\<close> on a table in order: a page number that is there gives \<open>-1\<close> and a full table
  \<open>-2\<close>, both without a change; otherwise the entry is added and the table stays in order.  It never
  stores outside of the table.
\<close>

theorem mid2l_insert_keeps_order:
  assumes "id2l_ok ids" and "id2l_sorted ids"
  shows "\<exists>rc ids'. mdb_mid2l_insert ids e = Some (rc, ids') \<and> id2l_ok ids' \<and> id2l_sorted ids'
     \<and> (if mid e \<in> mid ` set (id2l_elems ids) then rc = -1 \<and> ids' = ids
        else if id2l_count ids = MDB_IDL_UM_MAX then rc = -2 \<and> ids' = ids
        else rc = 0 \<and> mset (id2l_elems ids') = add_mset e (mset (id2l_elems ids)))"
  using mid2l_insert_cases [OF assms, of e] by (auto split: if_splits)

lemma id2l_empty:
  assumes "ids = replicate 131072 \<lparr>mid = 0, mptr = p\<rparr>"
  shows "id2l_ok ids" "id2l_sorted ids" "id2l_elems ids = []" "id2l_count ids = 0"
  using assms by (simp_all add: id2l_ok_def id2l_sorted_def id2l_elems_def id2l_count_def)

lemma mid2l_insert_keeps_order_witness:
  "\<exists>ids'. mdb_mid2l_insert (replicate 131072 \<lparr>mid = 0, mptr = ()\<rparr>) \<lparr>mid = 5, mptr = ()\<rparr> = Some (0, ids')
     \<and> id2l_sorted ids' \<and> id2l_elems ids' = [\<lparr>mid = 5, mptr = ()\<rparr>]"
proof -
  define ids where "ids = replicate 131072 \<lparr>mid = (0 :: MDB_ID), mptr = ()\<rparr>"
  note e = id2l_empty [OF ids_def]
  show ?thesis
    using mid2l_insert_keeps_order [OF e(1,2), of "\<lparr>mid = 5, mptr = ()\<rparr>"] e
    unfolding ids_def [symmetric] by (auto split: if_splits)
qed

text \<open>
  C23: on the dirty-page table in order \<open>mdb_mid2l_search\<close> gives the first cell whose page number is not
  smaller than the one searched, one past the last when all are smaller: the cell by which the callers
  decide whether a page is dirty, and the place where an absent page belongs.
\<close>

theorem mid2l_search_decides:
  assumes "id2l_ok ids" and "id2l_sorted ids"
  shows "\<exists>r. mdb_mid2l_search ids x = Some r \<and> 1 \<le> r \<and> r \<le> id2l_count ids + 1
     \<and> (r \<le> id2l_count ids \<and> mid (ids ! r) = x \<longleftrightarrow> x \<in> mid ` set (id2l_elems ids))
     \<and> (\<forall>e \<in> set (take (r - 1) (id2l_elems ids)). mid e < x)
     \<and> (\<forall>e \<in> set (drop (r - 1) (id2l_elems ids)). mid e \<ge> x)
     \<and> (\<forall>e \<in> set (drop r (id2l_elems ids)). mid e > x)"
proof -
  obtain r where r: "mdb_mid2l_search ids x = Some r" "1 \<le> r" "r \<le> id2l_count ids + 1"
    "\<forall>c. 1 \<le> c \<longrightarrow> c < r \<longrightarrow> mid (ids ! c) < x"
    "\<forall>c. r < c \<longrightarrow> c \<le> id2l_count ids \<longrightarrow> mid (ids ! c) > x"
    "r \<le> id2l_count ids \<longrightarrow> mid (ids ! r) \<ge> x"
    using mid2l_search_correct [OF assms] by blast
  moreover have "\<forall>e \<in> set (take (r - 1) (id2l_elems ids)). mid e < x"
    using r(2-4) by (auto simp: id2l_elems_def in_set_conv_nth)
  moreover have "\<forall>e \<in> set (drop (r - 1) (id2l_elems ids)). mid e \<ge> x"
  proof
    fix e assume "e \<in> set (drop (r - 1) (id2l_elems ids))"
    then obtain i where "e = ids ! (r + i)" "r + i \<le> id2l_count ids"
      using r(2) by (auto simp: id2l_elems_def in_set_conv_nth)
    then show "mid e \<ge> x" using r(5,6) by (cases "i = 0") (auto intro: less_imp_le)
  qed
  moreover have "\<forall>e \<in> set (drop r (id2l_elems ids)). mid e > x"
    using r(2,3,5) by (auto simp: id2l_elems_def in_set_conv_nth)
  ultimately show ?thesis using mid2l_search_found [OF r(2,4,5)] by blast
qed

lemma mid2l_search_decides_witness:
  "mdb_mid2l_search (replicate 131072 \<lparr>mid = 0, mptr = ()\<rparr>) 5 = Some 1"
proof -
  define ids where "ids = replicate 131072 \<lparr>mid = (0 :: MDB_ID), mptr = ()\<rparr>"
  note e = id2l_empty [OF ids_def]
  show ?thesis
    using mid2l_search_decides [OF e(1,2), of 5] e unfolding ids_def [symmetric] by auto
qed

section \<open>Merging\<close>

text \<open>
  C24: \<open>mdb_midl_xmerge\<close> of two descending lists, the first allocated large enough, is the descending
  list of all their IDs, in the first list's allocation; no cell outside of it is touched.
\<close>

theorem midl_xmerge_merges:
  assumes "idl_count idl + idl_count merge < length idl" and "idl_count merge < length merge"
    and "sorted_wrt (\<ge>) (idl_elems idl)" and "sorted_wrt (\<ge>) (idl_elems merge)"
    and "idl_count idl + idl_count merge < 2 ^ 64"
  shows "\<exists>idl'. mdb_midl_xmerge idl merge = Some idl' \<and> length idl' = length idl
     \<and> sorted_wrt (\<ge>) (idl_elems idl') \<and> mset (idl_elems idl') = mset (idl_elems idl) + mset (idl_elems merge)"
  using midl_xmerge_correct [OF assms] by blast

lemma midl_xmerge_merges_witness:
  "\<exists>idl'. mdb_midl_xmerge [2, 9, 4, 0, 0] [2, 7, 3] = Some idl' \<and> sorted_wrt (\<ge>) (idl_elems idl')
     \<and> mset (idl_elems idl') = {#9, 7, 4, 3#}"
proof -
  have e: "idl_elems [2, 9, 4, 0, 0 :: MDB_ID] = [9, 4]" "idl_elems [2, 7, 3 :: MDB_ID] = [7, 3]"
    by (simp_all add: idl_elems_Cons)
  obtain idl' where "mdb_midl_xmerge [2, 9, 4, 0, 0] [2, 7, 3] = Some idl'" "sorted_wrt (\<ge>) (idl_elems idl')"
    "mset (idl_elems idl') = mset [9, 4] + mset [7, 3]"
    using midl_xmerge_merges [of "[2, 9, 4, 0, 0]" "[2, 7, 3]"] unfolding e by auto
  then show ?thesis by (simp add: add_mset_commute)
qed

section \<open>Appending\<close>

text \<open>
  C25: \<open>mdb_midl_append\<close> adds one ID at the end, growing the list when it is full; the result is
  \<open>ENOMEM\<close>, and the list as before, exactly when the list is full and \<open>realloc\<close> refuses the
  \<open>MDB_IDL_UM_MAX\<close> cells more.
\<close>

theorem midl_append_adds:
  assumes "idl_wf idl" and "unat (idl_len idl) < 2 ^ 63"
  shows "\<exists>rc idl'. mdb_midl_append mem idl x = Some (rc, idl') \<and> idl_wf idl'
     \<and> (if idl_count (idl_ids idl) = unat (idl_len idl) \<and> \<not> mem ((unat (idl_len idl) + MDB_IDL_UM_MAX + 2) * sizeof_MDB_ID)
        then rc = ENOMEM \<and> idl' = idl
        else rc = 0 \<and> idl_elems (idl_ids idl') = idl_elems (idl_ids idl) @ [x])"
  using midl_append_cases [OF assms, of mem x] assms(1) by fastforce

lemma midl_append_adds_witness:
  "\<exists>idl'. mdb_midl_append (\<lambda>_. True) \<lparr>idl_len = 2, idl_ids = [1, 7, 0]\<rparr> 5 = Some (0, idl')
     \<and> idl_elems (idl_ids idl') = [7, 5]"
  using midl_append_adds [of "\<lparr>idl_len = 2, idl_ids = [1, 7, 0]\<rparr>" "\<lambda>_. True" 5]
  by (auto simp: idl_wf_lit idl_elems_Cons)

text \<open>
  \<open>mdb_midl_append_range\<close> adds \<open>n\<close> consecutive IDs, the largest first, so that a run of pages
  continues a descending list; on \<open>ENOMEM\<close> the list is as before.
\<close>

theorem midl_append_range_adds:
  assumes "idl_wf idl" and "unat (idl_len idl) < 2 ^ 63" and "or n MDB_IDL_UM_MAX < 2 ^ 31"
  shows "\<exists>rc idl'. mdb_midl_append_range mem idl x n = Some (rc, idl') \<and> idl_wf idl'
     \<and> (rc = ENOMEM \<and> idl' = idl
        \<or> rc = 0 \<and> idl_elems (idl_ids idl') = idl_elems (idl_ids idl) @ map (\<lambda>k. x + of_nat k) (rev [0..<n]))"
  using midl_append_range_cases [OF assms, of mem x] assms(1) by auto

lemma midl_append_range_adds_witness:
  "\<exists>rc idl'. mdb_midl_append_range (\<lambda>_. True) \<lparr>idl_len = 5, idl_ids = [1, 9, 0, 0, 0, 0]\<rparr> 3 3 = Some (rc, idl')
     \<and> (rc = 0 \<longrightarrow> idl_elems (idl_ids idl') = [9, 5, 4, 3])"
  using midl_append_range_adds [of "\<lparr>idl_len = 5, idl_ids = [1, 9, 0, 0, 0, 0]\<rparr>" 3 "\<lambda>_. True" 3]
  by (auto simp: idl_wf_lit idl_elems_Cons upt_rec)

text \<open>
  \<open>mdb_midl_append_list\<close> adds another list at the end; on \<open>ENOMEM\<close> the list is as before.
\<close>

theorem midl_append_list_adds:
  assumes "idl_wf idl" and "idl_count app < length app" and "unat (idl_len idl) < 2 ^ 63" and "idl_count app < 2 ^ 31"
  shows "\<exists>rc idl'. mdb_midl_append_list mem idl app = Some (rc, idl') \<and> idl_wf idl'
     \<and> (rc = ENOMEM \<and> idl' = idl
        \<or> rc = 0 \<and> idl_elems (idl_ids idl') = idl_elems (idl_ids idl) @ idl_elems app)"
  using midl_append_list_cases [OF assms, of mem] assms(1) by auto

lemma midl_append_list_adds_witness:
  "\<exists>rc idl'. mdb_midl_append_list (\<lambda>_. True) \<lparr>idl_len = 4, idl_ids = [1, 9, 0, 0, 0]\<rparr> [2, 6, 4] = Some (rc, idl')
     \<and> (rc = 0 \<longrightarrow> idl_elems (idl_ids idl') = [9, 6, 4])"
  using midl_append_list_adds [of "\<lparr>idl_len = 4, idl_ids = [1, 9, 0, 0, 0]\<rparr>" "[2, 6, 4]" "\<lambda>_. True"]
  by (auto simp: idl_wf_lit idl_elems_Cons)

text \<open>
  C26: \<open>mdb_midl_need\<close> makes room for \<open>num\<close> more IDs, so that the unchecked \<open>mdb_midl_xappend\<close> is in
  bounds that many times, and keeps the IDs; on \<open>ENOMEM\<close> the list is as before.
\<close>

theorem midl_need_makes_room:
  assumes "idl_wf idl" and "num + idl_count (idl_ids idl) < 2 ^ 31"
  shows "\<exists>rc idl'. mdb_midl_need mem idl num = Some (rc, idl') \<and> idl_wf idl'
     \<and> (rc = ENOMEM \<and> idl' = idl
        \<or> rc = 0 \<and> idl_elems (idl_ids idl') = idl_elems (idl_ids idl)
          \<and> idl_count (idl_ids idl') + num \<le> unat (idl_len idl'))"
  using midl_need_cases [OF assms, of mem] assms(1) by auto

lemma midl_need_makes_room_witness:
  "\<exists>rc idl'. mdb_midl_need (\<lambda>_. True) \<lparr>idl_len = 2, idl_ids = [2, 7, 5]\<rparr> 3 = Some (rc, idl') \<and> idl_wf idl'
     \<and> (rc = 0 \<longrightarrow> idl_elems (idl_ids idl') = [7, 5] \<and> idl_count (idl_ids idl') + 3 \<le> unat (idl_len idl'))"
  using midl_need_makes_room [of "\<lparr>idl_len = 2, idl_ids = [2, 7, 5]\<rparr>" 3 "\<lambda>_. True"]
  by (auto simp: idl_wf_lit idl_elems_Cons)

text \<open>
  C27: after \<open>mdb_midl_shrink\<close> has shrunk a list, its capacity is one more than its allocation holds:
  when \<open>MDB_IDL_UM_MAX - 1\<close> IDs are in it, \<open>mdb_midl_append\<close> finds room and stores outside of the
  allocation.
\<close>

theorem midl_shrink_append_overflows:
  assumes "mdb_midl_shrink mem idl = (True, idl')"
    and "length ids = length (idl_ids idl')" and "idl_count ids = MDB_IDL_UM_MAX - 1"
  shows "idl_count ids < unat (idl_len idl') \<and> mdb_midl_append mem (idl'\<lparr>idl_ids := ids\<rparr>) x = None"
proof -
  have "unat (idl_len idl') = MDB_IDL_UM_MAX"
    using assms(1) by (auto simp: mdb_midl_shrink_def split: if_splits)
  then show ?thesis using midl_append_after_shrink [OF assms, of x] assms(3) by simp
qed

lemma midl_shrink_append_overflows_witness:
  "mdb_midl_append (\<lambda>_. True) \<lparr>idl_len = 131071, idl_ids = 131070 # replicate 131070 0\<rparr> 1 = None"
proof -
  let ?big = "\<lparr>idl_len = 131072 :: MDB_ID, idl_ids = []\<rparr>"
  have s: "mdb_midl_shrink (\<lambda>_. True) ?big = (True, \<lparr>idl_len = 131071, idl_ids = realloc_cells 131071 []\<rparr>)"
    by (simp add: mdb_midl_shrink_def)
  show ?thesis
    using midl_shrink_append_overflows [OF s, of "131070 # replicate 131070 0" 1] by simp
qed

end
