(* ===== verification/Lmdb_Midl_Sort_Facts.thy ===== *)
theory Lmdb_Midl_Sort_Facts
  imports Lmdb_Midl_Sort Lmdb_Midl_Facts
begin

text \<open>
  \<open>mdb_midl_sort\<close> is correct: it returns, it stays inside the list and inside its stack of 64
  numbers, and the result is the descending arrangement of the IDs.

  A step changes only a segment of the list and permutes it (\<open>seg_perm\<close>).  Between the turns of
  the main loop the segments that are still to be sorted are disjoint, and two IDs that are not in
  one of them are in order.  The larger half is pushed, so the \<open>k\<close>th segment on the stack has at
  most \<open>n / 2 ^ (k - 1)\<close> IDs; a segment is only split when it has more than eight.
\<close>

section \<open>Permuting a segment\<close>

definition seg_perm :: "nat \<Rightarrow> nat \<Rightarrow> 'a list \<Rightarrow> 'a list \<Rightarrow> bool" where
  "seg_perm l r xs ys \<longleftrightarrow> length ys = length xs \<and> (\<forall>q. q < l \<or> r < q \<longrightarrow> ys ! q = xs ! q) \<and>
     mset (cells ys l (Suc r)) = mset (cells xs l (Suc r))"

lemma seg_perm_refl [simp]: "seg_perm l r xs xs"
  by (simp add: seg_perm_def)

lemma seg_perm_trans: "seg_perm l r xs ys \<Longrightarrow> seg_perm l r ys zs \<Longrightarrow> seg_perm l r xs zs"
  by (simp add: seg_perm_def)

lemma seg_perm_length: "seg_perm l r xs ys \<Longrightarrow> length ys = length xs"
  by (simp add: seg_perm_def)

lemma seg_perm_widen:
  assumes p: "seg_perm l r xs ys" and "l' \<le> l" "r \<le> r'"
  shows "seg_perm l' r' xs ys"
proof -
  have "mset (cells ys l' (Suc r')) = mset (cells xs l' (Suc r'))"
  proof (cases "l \<le> Suc r")
    case True
    have e: "cells zs l' (Suc r') = cells zs l' l @ cells zs l (Suc r) @ cells zs (Suc r) (Suc r')" for zs :: "'a list"
      using True assms(2,3) cells_append [of l' l "Suc r'" zs] cells_append [of l "Suc r" "Suc r'" zs] by simp
    have "cells ys l' l = cells xs l' l" "cells ys (Suc r) (Suc r') = cells xs (Suc r) (Suc r')"
      using p by (auto intro!: cells_cong simp: seg_perm_def)
    then show ?thesis using p by (simp add: e seg_perm_def)
  next
    case False
    then have "\<forall>q. ys ! q = xs ! q" using p by (auto simp: seg_perm_def)
    then show ?thesis by (metis cells_cong)
  qed
  then show ?thesis using assms by (auto simp: seg_perm_def)
qed

lemma seg_perm_swap:
  assumes "l \<le> i" "i \<le> r" "l \<le> j" "j \<le> r" "r < length xs"
  shows "seg_perm l r xs (xs[i := xs ! j, j := xs ! i])"
  using assms mset_cells_swap [of l i "Suc r" j xs] by (auto simp: seg_perm_def)

text \<open>What is in the segment afterwards was there before.\<close>

lemma seg_perm_nth:
  assumes "seg_perm l r xs ys" "l \<le> p" "p \<le> r"
  shows "\<exists>p'. l \<le> p' \<and> p' \<le> r \<and> ys ! p = xs ! p'"
proof -
  have "set (cells ys l (Suc r)) = set (cells xs l (Suc r))"
    using assms(1) by (metis seg_perm_def set_mset_mset)
  moreover have "ys ! p \<in> set (cells ys l (Suc r))" using assms by (auto simp: set_cells)
  ultimately show ?thesis by (auto simp: set_cells)
qed

section \<open>Insertion sort\<close>

lemma insertion_inner_spec:
  "i + 1 < length ids \<Longrightarrow> \<exists>p ids'. insertion_inner ids a i = Some ids' \<and> p \<le> i \<and> length ids' = length ids \<and>
     (\<forall>q. ids' ! q = (if q = p + 1 then a else if p + 1 < q \<and> q \<le> i + 1 then ids ! (q - 1) else ids ! q)) \<and>
     (\<forall>q. p < q \<longrightarrow> q \<le> i \<longrightarrow> ids ! q < a) \<and> (p = 0 \<or> ids ! p \<ge> a)"
proof (induction ids a i rule: insertion_inner.induct)
  case (1 ids a)
  then show ?case by (intro exI [of _ 0] exI [of _ "ids[1 := a]"]) (auto simp: nth_list_update)
next
  case (2 ids a i)
  show ?case
  proof (cases "ids ! Suc i \<ge> a")
    case True
    then show ?thesis
      using 2 by (intro exI [of _ "Suc i"] exI [of _ "ids[Suc (Suc i) := a]"]) (auto simp: nth_list_update)
  next
    case False
    let ?ids = "ids[Suc (Suc i) := ids ! Suc i]"
    obtain p ids' where p: "insertion_inner ?ids a i = Some ids'" "p \<le> i" "length ids' = length ids"
      "\<forall>q. ids' ! q = (if q = p + 1 then a else if p + 1 < q \<and> q \<le> i + 1 then ?ids ! (q - 1) else ?ids ! q)"
      "\<forall>q. p < q \<longrightarrow> q \<le> i \<longrightarrow> ?ids ! q < a" "p = 0 \<or> ?ids ! p \<ge> a"
      using 2 False by fastforce
    have "insertion_inner ids a (Suc i) = Some ids'" using 2(2) False p(1) by simp
    moreover have "\<forall>q. p < q \<longrightarrow> q \<le> Suc i \<longrightarrow> ids ! q < a"
      using p(5) False by (auto simp: le_Suc_eq nth_list_update)
    moreover have "\<forall>q. ids' ! q = (if q = p + 1 then a else if p + 1 < q \<and> q \<le> Suc i + 1 then ids ! (q - 1) else ids ! q)"
    proof
      fix q
      have "q \<le> i + 1 \<or> q = Suc (Suc i) \<or> Suc (Suc i) < q" by arith
      then show "ids' ! q = (if q = p + 1 then a else if p + 1 < q \<and> q \<le> Suc i + 1 then ids ! (q - 1) else ids ! q)"
        using p(4) [rule_format, of q] p(2) 2(2) by (auto simp: nth_list_update)
    qed
    ultimately show ?thesis
      using p(2,3,6) by (intro exI [of _ p] exI [of _ ids']) (auto simp: nth_list_update)
  qed
qed

lemma insertion_sort_spec:
  assumes "1 \<le> l" "l < j" "j \<le> Suc ir" "ir < length ids"
    and "\<And>p q. l \<le> p \<Longrightarrow> p < q \<Longrightarrow> q < j \<Longrightarrow> ids ! p \<ge> ids ! q"
    and "\<And>q. 1 < l \<Longrightarrow> l \<le> q \<Longrightarrow> q \<le> ir \<Longrightarrow> ids ! (l - 1) \<ge> ids ! q"
  shows "\<exists>ids'. insertion_sort_loop ids j ir = Some ids' \<and> seg_perm l ir ids ids' \<and>
     (\<forall>p q. l \<le> p \<longrightarrow> p < q \<longrightarrow> q \<le> ir \<longrightarrow> ids' ! p \<ge> ids' ! q)"
  using assms
proof (induction "Suc ir - j" arbitrary: ids j)
  case 0
  then show ?case by (subst insertion_sort_loop.simps) auto
next
  case (Suc k)
  note prems = Suc.prems
  have j: "j \<le> ir" "j < length ids" using Suc.hyps(2) prems by auto
  have j1: "j - 1 + 1 = j" using prems(1,2) by simp
  obtain p ids' where p0: "insertion_inner ids (ids ! j) (j - 1) = Some ids'" "p \<le> j - 1" "length ids' = length ids"
    "\<forall>q. ids' ! q = (if q = p + 1 then ids ! j else if p + 1 < q \<and> q \<le> j then ids ! (q - 1) else ids ! q)"
    "\<forall>q. p < q \<longrightarrow> q \<le> j - 1 \<longrightarrow> ids ! q < ids ! j" "p = 0 \<or> ids ! p \<ge> ids ! j"
    using insertion_inner_spec [of "j - 1" ids "ids ! j", unfolded j1, OF j(2)] by blast
  note p = p0(1-3) p0(4,5) [rule_format] p0(6)
  have lp: "l - 1 \<le> p"
  proof (rule ccontr)
    assume "\<not> l - 1 \<le> p"
    then have "ids ! (l - 1) < ids ! j" using p(5) [of "l - 1"] prems(2) by auto
    moreover have "1 < l" using \<open>\<not> l - 1 \<le> p\<close> by arith
    ultimately show False using prems(6) [of j] prems(2) j by auto
  qed
  have perm: "seg_perm l ir ids ids'"
  proof -
    have "cells ids' (p + 1) (Suc j) = ids ! j # cells ids (p + 1) j"
      using p(2,4) prems(1,2) by (intro nth_equalityI) (auto simp: nth_Cons split: nat.split)
    moreover have "cells ids (p + 1) (Suc j) = cells ids (p + 1) j @ [ids ! j]"
      using p(2) prems(2) by (intro cells_snoc) auto
    ultimately have "seg_perm (p + 1) j ids ids'" using p(3,4) by (auto simp: seg_perm_def)
    then show ?thesis by (rule seg_perm_widen) (use lp j in auto)
  qed
  have "\<exists>ids''. insertion_sort_loop ids' (j + 1) ir = Some ids'' \<and> seg_perm l ir ids' ids'' \<and>
     (\<forall>p q. l \<le> p \<longrightarrow> p < q \<longrightarrow> q \<le> ir \<longrightarrow> ids'' ! p \<ge> ids'' ! q)"
  proof (rule Suc.hyps(1))
    fix u v assume uv: "l \<le> u" "u < v" "v < j + 1"
    consider "v \<le> p" | "v = p + 1" | "u \<le> p" "p + 1 < v" | "u = p + 1" | "p + 1 < u" using uv by linarith
    then show "ids' ! u \<ge> ids' ! v"
    proof cases
      case 1
      then show ?thesis using prems(5) [of u v] uv p(2,4) prems(2) by simp
    next
      case 2
      then have "ids ! u \<ge> ids ! p" using prems(5) [of u p] uv p(2) prems(2) by (cases "u = p") auto
      then show ?thesis using 2 p(4,6) uv prems(1) by auto
    next
      case 3
      then show ?thesis using prems(5) [of u "v - 1"] uv p(2,4) by auto
    next
      case 4
      then show ?thesis using p(5) [of "v - 1"] uv p(4) by (auto simp: less_imp_le)
    next
      case 5
      then show ?thesis using prems(5) [of "u - 1" "v - 1"] uv p(2,4) lp by auto
    qed
  next
    fix q assume q: "1 < l" "l \<le> q" "q \<le> ir"
    obtain q' where q': "l \<le> q'" "q' \<le> ir" "ids' ! q = ids ! q'" using seg_perm_nth [OF perm q(2,3)] by auto
    have "ids' ! (l - 1) = ids ! (l - 1)" using perm q by (auto simp: seg_perm_def)
    then show "ids' ! (l - 1) \<ge> ids' ! q" using prems(6) [OF q(1) q'(1,2)] q'(3) by simp
  qed (use Suc.hyps(2) prems p(3) j in auto)
  then obtain ids'' where "insertion_sort_loop ids' (j + 1) ir = Some ids''" "seg_perm l ir ids' ids''"
    "\<forall>p q. l \<le> p \<longrightarrow> p < q \<longrightarrow> q \<le> ir \<longrightarrow> ids'' ! p \<ge> ids'' ! q" by blast
  moreover have "insertion_sort_loop ids j ir = insertion_sort_loop ids' (j + 1) ir"
    using j p(1) by (subst insertion_sort_loop.simps) simp
  ultimately show ?case using seg_perm_trans [OF perm] by auto
qed

section \<open>Partition\<close>

lemma scan_up_spec:
  "i < q \<Longrightarrow> q < length ids \<Longrightarrow> ids ! q \<le> a \<Longrightarrow>
   \<exists>i'. scan_up ids a i = Some i' \<and> i < i' \<and> i' \<le> q \<and> ids ! i' \<le> a \<and> (\<forall>p. i < p \<longrightarrow> p < i' \<longrightarrow> ids ! p > a)"
proof (induction "q - i" arbitrary: i)
  case (Suc n)
  show ?case
  proof (cases "ids ! (i + 1) > a")
    case True
    then have "i + 1 < q" using Suc.prems by (cases "i + 1 = q") auto
    then obtain i' where i': "scan_up ids a (i + 1) = Some i'" "i + 1 < i'" "i' \<le> q" "ids ! i' \<le> a"
      "\<forall>p. i + 1 < p \<longrightarrow> p < i' \<longrightarrow> ids ! p > a" using Suc.hyps(1) [of "i + 1"] Suc.hyps(2) Suc.prems by fastforce
    have "\<forall>p. i < p \<longrightarrow> p < i' \<longrightarrow> ids ! p > a"
      using i'(5) True by (metis Suc_eq_plus1 Suc_lessI)
    then show ?thesis using i' True Suc.prems by (intro exI [of _ i']) (subst scan_up.simps, auto)
  next
    case False
    then show ?thesis using Suc.prems by (intro exI [of _ "i + 1"]) (subst scan_up.simps, auto)
  qed
qed auto

lemma scan_down_spec:
  "q < j \<Longrightarrow> j \<le> length ids \<Longrightarrow> ids ! q \<ge> a \<Longrightarrow>
   \<exists>j'. scan_down ids a j = Some j' \<and> q \<le> j' \<and> j' < j \<and> ids ! j' \<ge> a \<and> (\<forall>p. j' < p \<longrightarrow> p < j \<longrightarrow> ids ! p < a)"
proof (induction ids a j rule: scan_down.induct)
  case (2 ids a j)
  show ?case
  proof (cases "ids ! j < a")
    case True
    then have "q < j" using 2(2,4) by (cases "q = j") auto
    then obtain j' where j': "scan_down ids a j = Some j'" "q \<le> j'" "j' < j" "ids ! j' \<ge> a"
      "\<forall>p. j' < p \<longrightarrow> p < j \<longrightarrow> ids ! p < a" using 2 True by fastforce
    then show ?thesis using True 2(3) by (intro exI [of _ j']) (auto simp: less_Suc_eq)
  next
    case False
    then show ?thesis using 2(2,3) by (intro exI [of _ j]) auto
  qed
qed auto

text \<open>From \<open>lo\<close> to \<open>i\<close> nothing is below the pivot, from \<open>j\<close> to \<open>hi\<close> nothing above it.\<close>

definition part_inv :: "MDB_ID list \<Rightarrow> MDB_ID \<Rightarrow> nat \<Rightarrow> nat \<Rightarrow> nat \<Rightarrow> nat \<Rightarrow> bool" where
  "part_inv ids a lo hi i j \<longleftrightarrow> lo \<le> i \<and> i \<le> j \<and> j \<le> hi \<and> hi < length ids \<and> (i < j \<or> lo < i \<and> j < hi) \<and>
     ids ! lo = a \<and> (\<forall>p. lo \<le> p \<longrightarrow> p \<le> i \<longrightarrow> ids ! p \<ge> a) \<and> (\<forall>p. j \<le> p \<longrightarrow> p \<le> hi \<longrightarrow> ids ! p \<le> a)"

lemma partition_loop_spec:
  "part_inv ids a lo hi i j \<Longrightarrow>
   \<exists>ids' i' j'. partition_loop ids a i j = Some (ids', i', j') \<and> seg_perm lo hi ids ids' \<and> ids' ! lo = a \<and>
     lo \<le> j' \<and> j' < i' \<and> i' \<le> hi \<and> (\<forall>p. lo \<le> p \<longrightarrow> p \<le> j' \<longrightarrow> ids' ! p \<ge> a) \<and>
     (\<forall>p. i' \<le> p \<longrightarrow> p \<le> hi \<longrightarrow> ids' ! p \<le> a) \<and> (\<forall>p. j' < p \<longrightarrow> p < i' \<longrightarrow> ids' ! p = a)"
proof (induction ids a i j rule: partition_loop.induct)
  case (1 ids a i j)
  have I: "lo \<le> i" "i \<le> j" "j \<le> hi" "hi < length ids" "i < j \<or> lo < i \<and> j < hi" "ids ! lo = a"
    "\<And>p. lo \<le> p \<Longrightarrow> p \<le> i \<Longrightarrow> ids ! p \<ge> a" "\<And>p. j \<le> p \<Longrightarrow> p \<le> hi \<Longrightarrow> ids ! p \<le> a"
    using "1.prems" by (auto simp: part_inv_def)
  define q where "q = (if i < j then j else j + 1)"
  have q: "i < q" "q \<le> hi" "ids ! q \<le> a" using I by (auto simp: q_def)
  obtain i' where i': "scan_up ids a i = Some i'" "i < i'" "i' \<le> q" "ids ! i' \<le> a"
    "\<And>p. i < p \<Longrightarrow> p < i' \<Longrightarrow> ids ! p > a"
    using scan_up_spec [OF q(1) _ q(3)] q(2) I(4) by auto
  define u where "u = (if i < j then i else i - 1)"
  have u: "u < j" "lo \<le> u" "ids ! u \<ge> a" using I by (auto simp: u_def)
  obtain j' where j': "scan_down ids a j = Some j'" "u \<le> j'" "j' < j" "ids ! j' \<ge> a"
    "\<And>p. j' < p \<Longrightarrow> p < j \<Longrightarrow> ids ! p < a"
    using scan_down_spec [OF u(1) _ u(3)] I(3,4) by auto
  show ?case
  proof (cases "j' < i'")
    case True
    have "partition_loop ids a i j = Some (ids, i', j')"
      using i'(1) j'(1) True by (subst partition_loop.simps) simp
    moreover have "ids ! p \<ge> a" if "lo \<le> p" "p \<le> j'" for p
      using I(7) [of p] i'(5) [of p] that True by (cases "p \<le> i") (auto simp: less_imp_le)
    moreover have "ids ! p \<le> a" if "i' \<le> p" "p \<le> hi" for p
      using I(8) [of p] j'(5) [of p] that True by (cases "j \<le> p") (auto simp: less_imp_le)
    moreover have "ids ! p = a" if "j' < p" "p < i'" for p
    proof (rule antisym)
      show "ids ! p \<ge> a" using I(7) [of p] i'(5) [of p] that j'(2) u(2) by (cases "p \<le> i") (auto simp: less_imp_le)
      show "ids ! p \<le> a" using I(8) [of p] j'(5) [of p] that i'(3) q(2) by (cases "j \<le> p") (auto simp: less_imp_le)
    qed
    ultimately show ?thesis
      using True I(6) u(2) j'(2) i'(3) q(2) by (intro exI [of _ ids] exI [of _ i'] exI [of _ j']) auto
  next
    case False
    define ids1 where "ids1 = ids[i' := ids ! j', j' := ids ! i']"
    have b: "lo < i'" "i' \<le> j'" "j' < hi" "i' < length ids" "j' < length ids" "i' < j" using False I i'(2) j'(3) by auto
    have sw: "swap ids i' j' = Some ids1" using b by (simp add: ids1_def)
    have perm: "seg_perm lo hi ids ids1"
      unfolding ids1_def by (rule seg_perm_swap) (use b I(4) in auto)
    have "part_inv ids1 a lo hi i' j'"
    proof -
      have "ids1 ! p \<ge> a" if "lo \<le> p" "p \<le> i'" for p
        using I(7) [of p] i'(5) [of p] that b j'(4) i'(4)
        by (cases "p = i'"; cases "p \<le> i") (auto simp: ids1_def nth_list_update less_imp_le)
      moreover have "ids1 ! p \<le> a" if "j' \<le> p" "p \<le> hi" for p
        using I(8) [of p] j'(5) [of p] that b j'(4) i'(4)
        by (cases "p = j'"; cases "j \<le> p") (auto simp: ids1_def nth_list_update less_imp_le)
      moreover have "ids1 ! lo = a" using b I(6) by (simp add: ids1_def)
      moreover have "length ids1 = length ids" by (simp add: ids1_def)
      ultimately show ?thesis using b I(4) by (auto simp: part_inv_def)
    qed
    then obtain ids' i2 j2 where r: "partition_loop ids1 a i' j' = Some (ids', i2, j2)" "seg_perm lo hi ids1 ids'"
      "ids' ! lo = a \<and> lo \<le> j2 \<and> j2 < i2 \<and> i2 \<le> hi \<and> (\<forall>p. lo \<le> p \<longrightarrow> p \<le> j2 \<longrightarrow> ids' ! p \<ge> a) \<and>
       (\<forall>p. i2 \<le> p \<longrightarrow> p \<le> hi \<longrightarrow> ids' ! p \<le> a) \<and> (\<forall>p. j2 < p \<longrightarrow> p < i2 \<longrightarrow> ids' ! p = a)"
      using "1.IH" [OF i'(1) j'(1) False sw] by blast
    have "partition_loop ids a i j = Some (ids', i2, j2)"
      using i'(1) j'(1) False sw r(1) by (subst partition_loop.simps) simp
    then show ?thesis using seg_perm_trans [OF perm r(2)] r(3) by blast
  qed
qed

lemma order_pair_spec:
  assumes "x < length ids" "y < length ids"
  shows "\<exists>ids'. order_pair ids x y = Some ids' \<and> length ids' = length ids \<and>
     (ids' = ids \<and> ids ! x \<ge> ids ! y \<or> ids' = ids[x := ids ! y, y := ids ! x] \<and> ids ! x < ids ! y)"
  using assms by (auto simp: order_pair_def not_less)

lemma order_pair_perm:
  assumes "l \<le> x" "x < y" "y \<le> r" "r < length ids"
  shows "\<exists>ids'. order_pair ids x y = Some ids' \<and> seg_perm l r ids ids' \<and> ids' ! x = max (ids ! x) (ids ! y) \<and>
     ids' ! y = min (ids ! x) (ids ! y) \<and> (\<forall>q. q \<noteq> x \<longrightarrow> q \<noteq> y \<longrightarrow> ids' ! q = ids ! q)"
proof -
  obtain ids' where o: "order_pair ids x y = Some ids'"
    "ids' = ids \<and> ids ! x \<ge> ids ! y \<or> ids' = ids[x := ids ! y, y := ids ! x] \<and> ids ! x < ids ! y"
    using order_pair_spec [of x ids y] assms by auto
  moreover have "seg_perm l r ids ids'" using o(2) seg_perm_swap [of l x r y ids] assms by auto
  ultimately show ?thesis using assms by (intro exI [of _ ids']) (auto simp: max_def min_def nth_list_update)
qed

lemma sort_partition_spec:
  assumes l: "1 \<le> l" and r: "l + SMALL \<le> ir" and len: "ir < length ids"
  shows "\<exists>ids' i j a. sort_partition ids l ir = Some (ids', i, j) \<and> seg_perm l ir ids ids' \<and>
     l < j \<and> j < i \<and> i \<le> ir \<and> (\<forall>p. l \<le> p \<longrightarrow> p < j \<longrightarrow> ids' ! p \<ge> a) \<and>
     (\<forall>p. j \<le> p \<longrightarrow> p < i \<longrightarrow> ids' ! p = a) \<and> (\<forall>p. i \<le> p \<longrightarrow> p \<le> ir \<longrightarrow> ids' ! p \<le> a)"
proof -
  have r8: "l + 8 \<le> ir" using r by (simp add: SMALL_def)
  define k where "k = (l + ir) div 2"
  have k: "l + 1 \<le> k" "k \<le> ir" using r8 by (auto simp: k_def)
  define ids0 where "ids0 = ids[k := ids ! (l + 1), l + 1 := ids ! k]"
  have s0: "swap ids k (l + 1) = Some ids0" using k r8 len by (simp add: ids0_def)
  have p0: "seg_perm l ir ids ids0" unfolding ids0_def by (rule seg_perm_swap) (use k r8 len in auto)
  have len0: "ir < length ids0" using seg_perm_length [OF p0] len by simp
  obtain ids1 where o1: "order_pair ids0 l ir = Some ids1" "seg_perm l ir ids0 ids1"
    "ids1 ! l = max (ids0 ! l) (ids0 ! ir)" "ids1 ! ir = min (ids0 ! l) (ids0 ! ir)"
    using order_pair_perm [of l l ir ir ids0] r8 len0 by force
  have len1: "ir < length ids1" using seg_perm_length [OF o1(2)] len0 by simp
  obtain ids2 where o2: "order_pair ids1 (l + 1) ir = Some ids2" "seg_perm l ir ids1 ids2"
    "ids2 ! (l + 1) = max (ids1 ! (l + 1)) (ids1 ! ir)" "ids2 ! ir = min (ids1 ! (l + 1)) (ids1 ! ir)" "ids2 ! l = ids1 ! l"
    using order_pair_perm [of l "l + 1" ir ir ids1] r8 len1 by force
  have len2: "ir < length ids2" using seg_perm_length [OF o2(2)] len1 by simp
  obtain ids3 where o3: "order_pair ids2 l (l + 1) = Some ids3" "seg_perm l ir ids2 ids3"
    "ids3 ! l = max (ids2 ! l) (ids2 ! (l + 1))" "ids3 ! (l + 1) = min (ids2 ! l) (ids2 ! (l + 1))" "ids3 ! ir = ids2 ! ir"
    using order_pair_perm [of l l "l + 1" ir ids2] r8 len2 by force
  have len3: "ir < length ids3" using seg_perm_length [OF o3(2)] len2 by simp
  define a where "a = ids3 ! (l + 1)"
  have al: "ids3 ! l \<ge> a" unfolding a_def o3(3,4) by (simp add: le_max_iff_disj)
  have ar: "ids3 ! ir \<le> a" using o1(3,4) o2(3-5) o3(4,5) by (simp add: a_def min_le_iff_disj le_max_iff_disj)
  have inv: "part_inv ids3 a (l + 1) ir (l + 1) ir"
    using r8 len3 ar by (auto simp: part_inv_def a_def dest!: antisym)
  obtain ids4 i j where pl: "partition_loop ids3 a (l + 1) ir = Some (ids4, i, j)" "seg_perm (l + 1) ir ids3 ids4"
    "ids4 ! (l + 1) = a" "l + 1 \<le> j" "j < i" "i \<le> ir" "\<forall>p. l + 1 \<le> p \<longrightarrow> p \<le> j \<longrightarrow> ids4 ! p \<ge> a"
    "\<forall>p. i \<le> p \<longrightarrow> p \<le> ir \<longrightarrow> ids4 ! p \<le> a" "\<forall>p. j < p \<longrightarrow> p < i \<longrightarrow> ids4 ! p = a"
    using partition_loop_spec [OF inv] by blast
  have len4: "ir < length ids4" using seg_perm_length [OF pl(2)] len3 by simp
  define ids5 where "ids5 = ids4[l + 1 := ids4 ! j, j := ids4 ! (l + 1)]"
  have p5: "seg_perm l ir ids4 ids5" unfolding ids5_def by (rule seg_perm_swap) (use pl(4-6) r8 len4 in auto)
  have run: "sort_partition ids l ir = Some (ids5, i, j)"
  proof -
    have "ids3 ! Suc l = a" by (simp add: a_def)
    then show ?thesis
      using s0 o1(1) o2(1) o3(1) pl(1,3-6) len3 len4 r8
      by (simp add: sort_partition_def Let_def ids5_def flip: k_def)
  qed
  have l4: "ids4 ! l \<ge> a" using pl(2) al by (simp add: seg_perm_def)
  have perm: "seg_perm l ir ids ids5"
    using p0 o1(2) o2(2) o3(2) seg_perm_widen [OF pl(2), of l ir] p5 by (meson le_add1 order_refl seg_perm_trans)
  have "ids5 ! p \<ge> a" if "l \<le> p" "p < j" for p
  proof -
    have "ids5 ! p = (if p = l + 1 then ids4 ! j else ids4 ! p)" using that pl(4-6) len4 by (auto simp: ids5_def nth_list_update)
    then show ?thesis using that pl(4,7) l4 by (cases "p = l") auto
  qed
  moreover have "ids5 ! p = a" if "j \<le> p" "p < i" for p
    using that pl(3-6,9) len4 by (auto simp: ids5_def nth_list_update)
  moreover have "ids5 ! p \<le> a" if "i \<le> p" "p \<le> ir" for p
    using that pl(4-6,8) len4 by (auto simp: ids5_def nth_list_update)
  ultimately show ?thesis using run perm pl(4-6) by (intro exI [of _ ids5] exI [of _ i] exI [of _ j] exI [of _ a]) auto
qed

section \<open>The main loop\<close>

text \<open>
  The segments that are still to be sorted, the current one first: they are in the list and disjoint,
  and the one at depth \<open>k\<close> of the stack is small enough.
\<close>

fun pending :: "nat \<Rightarrow> (nat \<times> nat) list \<Rightarrow> bool" where
  "pending n [] = True"
| "pending n ((l, r) # S) \<longleftrightarrow> 1 \<le> l \<and> r \<le> n \<and> (r + 1 - l) * 2 ^ length S \<le> n \<and>
     (\<forall>(c, d) \<in> set S. r < c \<or> d < l) \<and> pending n S"

fun stack_holds :: "nat list \<Rightarrow> (nat \<times> nat) list \<Rightarrow> bool" where
  "stack_holds stk [] = True"
| "stack_holds stk ((l, r) # S) \<longleftrightarrow> stk ! (2 * length S + 2) = r \<and> stk ! (2 * length S + 1) = l \<and> stack_holds stk S"

definition ordered_outside :: "nat \<Rightarrow> MDB_ID list \<Rightarrow> (nat \<times> nat) list \<Rightarrow> bool" where
  "ordered_outside n ids S \<longleftrightarrow>
     (\<forall>p q. 1 \<le> p \<longrightarrow> p < q \<longrightarrow> q \<le> n \<longrightarrow> (\<exists>(a, b) \<in> set S. a \<le> p \<and> q \<le> b) \<or> ids ! p \<ge> ids ! q)"

definition work :: "(nat \<times> nat) list \<Rightarrow> nat" where
  "work S = sum_list (map (\<lambda>(l, r). 2 * (r + 1 - l) + 1) S)"

lemma stack_holds_cong:
  "(\<And>k. k \<le> 2 * length S \<Longrightarrow> stk' ! k = stk ! k) \<Longrightarrow> stack_holds stk S \<Longrightarrow> stack_holds stk' S"
  by (induction S) auto

lemma ordered_outsideD:
  "ordered_outside n ids S \<Longrightarrow> 1 \<le> p \<Longrightarrow> p < q \<Longrightarrow> q \<le> n \<Longrightarrow>
   (\<exists>(a, b) \<in> set S. a \<le> p \<and> q \<le> b) \<or> ids ! p \<ge> ids ! q"
  unfolding ordered_outside_def by blast

text \<open>Permuting the current segment keeps everything else in order.\<close>

lemma ordered_perm:
  assumes "pending n ((l, r) # S)" "ordered_outside n ids ((l, r) # S)" "seg_perm l r ids ids'"
    and "1 \<le> p" "p < q" "q \<le> n" "\<not> (l \<le> p \<and> q \<le> r)"
  shows "(\<exists>(a, b) \<in> set S. a \<le> p \<and> q \<le> b) \<or> ids' ! p \<ge> ids' ! q"
proof -
  have dis: "\<And>c d. (c, d) \<in> set S \<Longrightarrow> r < c \<or> d < l" using assms(1) by auto
  have lr: "1 \<le> l" "r \<le> n" using assms(1) by auto
  have ord: "(\<exists>(a, b) \<in> set S. a \<le> x \<and> y \<le> b) \<or> l \<le> x \<and> y \<le> r \<or> ids ! x \<ge> ids ! y" if "1 \<le> x" "x < y" "y \<le> n" for x y
    using ordered_outsideD [OF assms(2) that] by auto
  have out: "ids' ! x = ids ! x" if "x < l \<or> r < x" for x using assms(3) that unfolding seg_perm_def by blast
  consider "l \<le> p" "p \<le> r" "r < q" | "p < l" "l \<le> q" "q \<le> r" | "p < l \<or> r < p" "q < l \<or> r < q"
    using assms(5,7) by linarith
  then show ?thesis
  proof cases
    case 1
    obtain p' where p': "l \<le> p'" "p' \<le> r" "ids' ! p = ids ! p'" using seg_perm_nth [OF assms(3) 1(1,2)] by auto
    have "\<not> (\<exists>(a, b) \<in> set S. a \<le> p' \<and> q \<le> b)" using dis p'(1,2) 1(3) by force
    then have "ids ! p' \<ge> ids ! q" using ord [of p' q] p' 1 assms(6) lr by auto
    then show ?thesis using p'(3) out [of q] 1(3) by simp
  next
    case 2
    obtain q' where q': "l \<le> q'" "q' \<le> r" "ids' ! q = ids ! q'" using seg_perm_nth [OF assms(3) 2(2,3)] by auto
    have "\<not> (\<exists>(a, b) \<in> set S. a \<le> p \<and> q' \<le> b)" using dis q'(1,2) 2(1) by force
    then have "ids ! p \<ge> ids ! q'" using ord [of p q'] q' 2 assms(4) lr by auto
    then show ?thesis using q'(3) out [of p] 2(1) by simp
  next
    case 3
    then have "ids' ! p = ids ! p" "ids' ! q = ids ! q" using out by auto
    then show ?thesis using ord [OF assms(4-6)] assms(7) by auto
  qed
qed

text \<open>After a partition both parts are pending, whichever is pushed.\<close>

lemma split_pending:
  assumes "pending n ((l, r) # S)" "l < j" "j < i" "i \<le> r"
    and "small = (if r + 1 + l \<ge> j + i then (l, j - 1) else (i, r))" "big = (if r + 1 + l \<ge> j + i then (i, r) else (l, j - 1))"
  shows "pending n (small # big # S)" "work (small # big # S) < work ((l, r) # S)"
proof -
  define N where "N = r + 1 - l"
  have N: "N * 2 ^ length S \<le> n" using assms(1) by (simp add: N_def)
  obtain a b where s: "small = (a, b)" by fastforce
  obtain c d where g: "big = (c, d)" by fastforce
  have sz: "2 * (b + 1 - a) \<le> N" "d + 1 - c \<le> N" "b + 1 - a + (d + 1 - c) < N"
    and seg: "l \<le> a" "b \<le> r" "l \<le> c" "d \<le> r" "b < c \<or> d < a"
    using assms(2-) s g by (auto simp: N_def split: if_splits)
  have "(b + 1 - a) * 2 ^ (length S + 1) \<le> N * 2 ^ length S"
    using mult_le_mono1 [OF sz(1), of "2 ^ length S"] by simp
  moreover have "(d + 1 - c) * 2 ^ length S \<le> N * 2 ^ length S" using sz(2) by simp
  ultimately have b: "(b + 1 - a) * 2 ^ length (big # S) \<le> n" "(d + 1 - c) * 2 ^ length S \<le> n"
    using N by (simp_all only: length_Cons Suc_eq_plus1)
  have dis: "b < x \<or> y < a" "d < x \<or> y < c" if "(x, y) \<in> set S" for x y using assms(1) seg that by auto
  show "pending n (small # big # S)"
    unfolding s g pending.simps using b [unfolded g] seg assms(1) dis by auto
  show "work (small # big # S) < work ((l, r) # S)" using sz(3) s g by (simp add: work_def N_def)
qed

lemma split_ordered:
  assumes "pending n ((l, r) # S)" "ordered_outside n ids ((l, r) # S)" "seg_perm l r ids ids'"
    and "l < j" "j < i" "i \<le> r" "\<forall>p. l \<le> p \<longrightarrow> p < j \<longrightarrow> ids' ! p \<ge> a"
    and "\<forall>p. j \<le> p \<longrightarrow> p < i \<longrightarrow> ids' ! p = a" "\<forall>p. i \<le> p \<longrightarrow> p \<le> r \<longrightarrow> ids' ! p \<le> a"
  shows "ordered_outside n ids' ((l, j - 1) # (i, r) # S)"
  unfolding ordered_outside_def
proof (intro allI impI)
  fix p q assume pq: "1 \<le> p" "p < q" "q \<le> n"
  show "(\<exists>(a, b) \<in> set ((l, j - 1) # (i, r) # S). a \<le> p \<and> q \<le> b) \<or> ids' ! p \<ge> ids' ! q"
  proof (cases "l \<le> p \<and> q \<le> r")
    case True
    have up: "ids' ! p \<ge> a" if "p < i" using assms(7,8) that True by (cases "p < j") auto
    have dn: "ids' ! q \<le> a" if "j \<le> q" using assms(8,9) that True by (cases "q < i") auto
    consider "q < j" | "i \<le> p" | "p < i" "j \<le> q" by linarith
    then show ?thesis
    proof cases
      case 3
      then show ?thesis using up dn by (meson order_trans)
    qed (use True in auto)
  qed (use ordered_perm [OF assms(1-3) pq] in auto)
qed

lemma stack_depth:
  fixes n :: nat
  assumes "length stk = ISTACK_SIZE" "n < 2 ^ 31" "S = [] \<or> 2 ^ length S \<le> n"
  shows "2 * length S < length stk"
proof (cases "S = []")
  case False
  then have "(2 :: nat) ^ length S < 2 ^ 31" using assms(2,3) by linarith
  then have "length S < 31" by (rule power_less_imp_less_exp [rotated]) simp
  then show ?thesis using assms(1) by (simp add: ISTACK_SIZE_def)
qed (use assms(1) in \<open>simp add: ISTACK_SIZE_def\<close>)

lemma sort_loop_correct:
  assumes "pending n ((l, r) # S)" "ordered_outside n ids ((l, r) # S)" "stack_holds stk S"
    and "length stk = ISTACK_SIZE" "n < length ids" "n < 2 ^ 31" "S = [] \<or> 2 ^ length S \<le> n"
  shows "\<exists>ids'. sort_loop ids stk (2 * length S) l r = Some ids' \<and> seg_perm 1 n ids ids' \<and> ordered_outside n ids' []"
  using assms
proof (induction "work ((l, r) # S)" arbitrary: l r S ids stk rule: less_induct)
  case less
  note P = less.prems(1) and O = less.prems(2) and len = less.prems(5)
  have lr: "1 \<le> l" "r \<le> n" "r < length ids" using P len by auto
  show ?case
  proof (cases "r < l + SMALL")
    case True
    have bound: "ids ! (l - 1) \<ge> ids ! q" if "1 < l" "l \<le> q" "q \<le> r" for q
    proof -
      have "\<not> (\<exists>(a, b) \<in> set ((l, r) # S). a \<le> l - 1 \<and> q \<le> b)" using P that by auto
      then show ?thesis using ordered_outsideD [OF O, of "l - 1" q] that lr by auto
    qed
    obtain ids1 where i1: "insertion_sort_loop ids (l + 1) r = Some ids1" "seg_perm l r ids ids1"
      "\<forall>p q. l \<le> p \<longrightarrow> p < q \<longrightarrow> q \<le> r \<longrightarrow> ids1 ! p \<ge> ids1 ! q"
    proof (cases "l \<le> r")
      case True
      then show ?thesis
        using insertion_sort_spec [of l "l + 1" r ids] lr bound that by auto
    next
      case False
      then have "insertion_sort_loop ids (l + 1) r = Some ids" by (subst insertion_sort_loop.simps) auto
      then show ?thesis using False that by auto
    qed
    have O1: "ordered_outside n ids1 S"
      unfolding ordered_outside_def
    proof (intro allI impI)
      fix p q assume "1 \<le> p" "p < q" "q \<le> n"
      then show "(\<exists>(a, b) \<in> set S. a \<le> p \<and> q \<le> b) \<or> ids1 ! p \<ge> ids1 ! q"
        using ordered_perm [OF P O i1(2)] i1(3) by (cases "l \<le> p \<and> q \<le> r") auto
    qed
    have w: "seg_perm 1 n ids ids1" using seg_perm_widen [OF i1(2)] lr by simp
    show ?thesis
    proof (cases S)
      case Nil
      then have "sort_loop ids stk (2 * length S) l r = Some ids1"
        using True i1(1) by (subst sort_loop.simps) simp
      then show ?thesis using w O1 Nil by auto
    next
      case (Cons s S')
      obtain a b where s: "s = (a, b)" by fastforce
      have depth: "2 * length S < length stk" using less.prems(4,6,7) by (rule stack_depth)
      have step: "sort_loop ids stk (2 * length S) l r = sort_loop ids1 stk (2 * length S') a b"
        using True i1(1) less.prems(3) depth Cons s by (subst sort_loop.simps) simp
      have "2 ^ length S' \<le> n" using less.prems(7) Cons by simp
      moreover have "work ((a, b) # S') < work ((l, r) # S)" using Cons s by (simp add: work_def)
      ultimately have "\<exists>ids'. sort_loop ids1 stk (2 * length S') a b = Some ids' \<and> seg_perm 1 n ids1 ids' \<and> ordered_outside n ids' []"
        using P O1 less.prems(3) Cons s seg_perm_length [OF w] len less.prems(4,6) by (intro less.hyps) simp_all
      then show ?thesis using step seg_perm_trans [OF w] by auto
    qed
  next
    case False
    then have big8: "l + SMALL \<le> r" by simp
    obtain ids1 i j a where sp: "sort_partition ids l r = Some (ids1, i, j)" "seg_perm l r ids ids1" "l < j" "j < i" "i \<le> r"
      "\<forall>p. l \<le> p \<longrightarrow> p < j \<longrightarrow> ids1 ! p \<ge> a" "\<forall>p. j \<le> p \<longrightarrow> p < i \<longrightarrow> ids1 ! p = a"
      "\<forall>p. i \<le> p \<longrightarrow> p \<le> r \<longrightarrow> ids1 ! p \<le> a"
      using sort_partition_spec [OF lr(1) big8 lr(3)] by blast
    have w: "seg_perm 1 n ids ids1" using seg_perm_widen [OF sp(2)] lr by simp
    define L where "L = (l, j - 1)"
    define R where "R = (i, r)"
    define small big where "small = (if r + 1 + l \<ge> j + i then L else R)" and "big = (if r + 1 + l \<ge> j + i then R else L)"
    have pend: "pending n (small # big # S)" "work (small # big # S) < work ((l, r) # S)"
      by (rule split_pending [OF P sp(3-5) small_def [unfolded L_def R_def] big_def [unfolded L_def R_def]])+
    have "ordered_outside n ids1 (L # R # S)"
      unfolding L_def R_def by (rule split_ordered [OF P O sp(2-)])
    then have ord: "ordered_outside n ids1 (small # big # S)"
      by (auto simp: ordered_outside_def small_def big_def)
    have deep: "2 ^ length (big # S) \<le> n"
    proof -
      have "2 * 2 ^ length S \<le> (r + 1 - l) * 2 ^ length S" using big8 by (intro mult_le_mono1) (simp add: SMALL_def)
      also have "\<dots> \<le> n" using P by simp
      finally show ?thesis by simp
    qed
    have depth: "2 * length (big # S) < length stk" using less.prems(4,6) deep by (intro stack_depth) auto
    define stk1 where "stk1 = stk[2 * length S + 2 := snd big, 2 * length S + 1 := fst big]"
    have hold: "stack_holds stk1 (big # S)"
    proof -
      have "stack_holds stk1 S" using less.prems(3) by (rule stack_holds_cong [rotated]) (simp add: stk1_def)
      then show ?thesis using depth by (cases big) (simp add: stk1_def)
    qed
    have step: "sort_loop ids stk (2 * length S) l r = sort_loop ids1 stk1 (2 * length (big # S)) (fst small) (snd small)"
      using False sp(1) depth
      by (subst sort_loop.simps) (auto simp: stk1_def small_def big_def L_def R_def Let_def)
    have "\<exists>ids'. sort_loop ids1 stk1 (2 * length (big # S)) (fst small) (snd small) = Some ids' \<and>
        seg_perm 1 n ids1 ids' \<and> ordered_outside n ids' []"
      using pend ord hold deep seg_perm_length [OF w] len less.prems(4,6)
      by (intro less.hyps) (simp_all add: stk1_def)
    then show ?thesis using step seg_perm_trans [OF w] by auto
  qed
qed

section \<open>The sort\<close>

lemma sint_count:
  assumes "unat (w :: 64 word) < 2 ^ 31"
  shows "nat (sint (ucast w :: 32 word)) = unat w"
proof -
  have "sint (of_nat n :: 32 word) = int n" if "n < 2 ^ 31" for n
    using that by (simp add: signed_of_nat signed_take_bit_int_eq_self_iff)
  from this [OF assms] show ?thesis by simp
qed

text \<open>
  C20: \<open>mdb_midl_sort\<close> returns for every list of fewer than \<open>2 ^ 31\<close> IDs, without a store or a load
  outside of the list or of its stack; the result has the same IDs in descending order, and the count
  and the unused cells after the IDs are as before.
\<close>

theorem midl_sort_sorts:
  assumes "ids \<noteq> []" and "unat (ids ! 0) < length ids" and "unat (ids ! 0) < 2 ^ 31"
  shows "\<exists>ids'. mdb_midl_sort ids = Some ids' \<and> length ids' = length ids \<and> ids' ! 0 = ids ! 0 \<and>
     mset (idl_elems ids') = mset (idl_elems ids) \<and> sorted_wrt (\<ge>) (idl_elems ids') \<and>
     drop (unat (ids ! 0) + 1) ids' = drop (unat (ids ! 0) + 1) ids"
proof -
  define n where "n = unat (ids ! 0)"
  have "\<exists>ids'. sort_loop ids (replicate ISTACK_SIZE 0) (2 * length ([] :: (nat \<times> nat) list)) 1 n = Some ids' \<and>
      seg_perm 1 n ids ids' \<and> ordered_outside n ids' []"
    by (rule sort_loop_correct) (use assms in \<open>auto simp: n_def ordered_outside_def\<close>)
  then obtain ids' where r: "sort_loop ids (replicate ISTACK_SIZE 0) 0 1 n = Some ids'"
    "seg_perm 1 n ids ids'" "ordered_outside n ids' []" by auto
  have z: "ids' ! 0 = ids ! 0" "length ids' = length ids" using r(2) by (simp_all add: seg_perm_def)
  have cnt: "idl_count ids = n" "idl_count ids' = n" using z by (simp_all add: n_def)
  have "mdb_midl_sort ids = Some ids'"
    using assms r(1) by (simp add: mdb_midl_sort_def sint_count n_def)
  moreover have "mset (idl_elems ids') = mset (idl_elems ids)"
    using r(2) by (simp add: idl_elems_def cnt seg_perm_def)
  moreover have "sorted_wrt (\<ge>) (idl_elems ids')"
    using ordered_outsideD [OF r(3)] by (auto simp: sorted_idl_elems cnt)
  moreover have "drop (n + 1) ids' = drop (n + 1) ids"
    using r(2) by (intro nth_equalityI) (auto simp: seg_perm_def)
  ultimately show ?thesis using z by (auto simp: n_def)
qed

lemma midl_sort_sorts_witness:
  "\<exists>ids'. mdb_midl_sort [5, 30, 10, 50, 20, 40, 7, 7] = Some ids' \<and> sorted_wrt (\<ge>) (idl_elems ids') \<and>
     mset (idl_elems ids') = {#30, 10, 50, 20, 40#} \<and> drop 6 ids' = [7, 7]"
  using midl_sort_sorts [of "[5, 30, 10, 50, 20, 40, 7, 7]"] by (auto simp: idl_elems_Cons)

end
