(* ===== verification/Lmdb_Types.thy ===== *)
theory Lmdb_Types
  imports Lmdb_Midl
begin

text \<open>
  The data of \<open>LegacyDatabase/mdb.c\<close>: constants and flags, pages and nodes, database records,
  cursors, transactions, the environment, and the state on which the operations of the engine
  work.

  A page is a record of its header and of its contents.  The contents of a branch or leaf page
  are the index array \<open>mp_ptrs\<close> and the nodes by their byte offset in the page (\<open>mp_nodes\<close>); a
  C expression \<open>NODEPTR(p, i)\<close> looks up offset \<open>mp_ptrs[i]\<close>, and the \<open>memmove\<close>s of the code move
  the nodes of a range of offsets.  \<open>mp_data\<close> holds the bytes after the header of an overflow
  page.  \<open>mp_lower\<close>/\<open>mp_upper\<close> and \<open>mp_pages\<close> share storage in C; each kind of page uses only
  one of them.

  A page pointer is null, a page of the memory map or a page from \<open>malloc\<close>.  Cursors are kept by
  address, because the code walks the list of a transaction's cursors and changes them behind
  each other's back.
\<close>

section \<open>Constants\<close>

definition MDB_MINKEYS :: nat where "MDB_MINKEYS = 2"
definition MDB_MAGIC :: "32 word" where "MDB_MAGIC = 0xBEEFC0DE"
definition MDB_DATA_VERSION :: "32 word" where "MDB_DATA_VERSION = 1"
definition MDB_MAXKEYSIZE :: nat where "MDB_MAXKEYSIZE = 511"
definition MAXDATASIZE :: nat where "MAXDATASIZE = 0xffffffff"
definition P_INVALID :: pgno_t where "P_INVALID = NOT 0"
definition DEFAULT_MAPSIZE :: nat where "DEFAULT_MAPSIZE = 1048576"
definition DEFAULT_READERS :: nat where "DEFAULT_READERS = 126"
definition MAX_PAGESIZE :: nat where "MAX_PAGESIZE = 0x8000"
definition CURSOR_STACK :: nat where "CURSOR_STACK = 32"
definition MDB_COMMIT_PAGES :: nat where "MDB_COMMIT_PAGES = 64"
definition FILL_THRESHOLD :: int where "FILL_THRESHOLD = 250"
definition FREE_DBI :: nat where "FREE_DBI = 0"
definition MAIN_DBI :: nat where "MAIN_DBI = 1"

text \<open>Sizes on the platform: \<open>offsetof(MDB_page, mp_ptrs)\<close>, \<open>offsetof(MDB_node, mn_data)\<close>, \<open>sizeof\<close>.\<close>

definition PAGEHDRSZ :: nat where "PAGEHDRSZ = 16"
definition PAGEBASE :: nat where "PAGEBASE = 0"
definition NODESIZE :: nat where "NODESIZE = 8"
definition sizeof_indx_t :: nat where "sizeof_indx_t = 2"
definition sizeof_pgno_t :: nat where "sizeof_pgno_t = 8"
definition sizeof_MDB_db :: nat where "sizeof_MDB_db = 48"
definition PGNO_TOPWORD :: nat where "PGNO_TOPWORD = 32"

lemmas size_defs = PAGEHDRSZ_def PAGEBASE_def NODESIZE_def sizeof_indx_t_def sizeof_pgno_t_def
  sizeof_MDB_db_def PGNO_TOPWORD_def

text \<open>Page flags.\<close>

definition P_BRANCH :: "16 word" where "P_BRANCH = 0x01"
definition P_LEAF :: "16 word" where "P_LEAF = 0x02"
definition P_OVERFLOW :: "16 word" where "P_OVERFLOW = 0x04"
definition P_META :: "16 word" where "P_META = 0x08"
definition P_DIRTY :: "16 word" where "P_DIRTY = 0x10"
definition P_LEAF2 :: "16 word" where "P_LEAF2 = 0x20"
definition P_SUBP :: "16 word" where "P_SUBP = 0x40"
definition P_LOOSE :: "16 word" where "P_LOOSE = 0x4000"
definition P_KEEP :: "16 word" where "P_KEEP = 0x8000"

lemmas page_flag_defs = P_BRANCH_def P_LEAF_def P_OVERFLOW_def P_META_def P_DIRTY_def
  P_LEAF2_def P_SUBP_def P_LOOSE_def P_KEEP_def

text \<open>Node flags.\<close>

definition F_BIGDATA :: "32 word" where "F_BIGDATA = 0x01"
definition F_SUBDATA :: "32 word" where "F_SUBDATA = 0x02"
definition F_DUPDATA :: "32 word" where "F_DUPDATA = 0x04"

text \<open>Environment flags.\<close>

definition MDB_FIXEDMAP :: "32 word" where "MDB_FIXEDMAP = 0x01"
definition MDB_NOSUBDIR :: "32 word" where "MDB_NOSUBDIR = 0x4000"
definition MDB_NOSYNC :: "32 word" where "MDB_NOSYNC = 0x10000"
definition MDB_RDONLY :: "32 word" where "MDB_RDONLY = 0x20000"
definition MDB_NOMETASYNC :: "32 word" where "MDB_NOMETASYNC = 0x40000"
definition MDB_WRITEMAP :: "32 word" where "MDB_WRITEMAP = 0x80000"
definition MDB_MAPASYNC :: "32 word" where "MDB_MAPASYNC = 0x100000"
definition MDB_NOTLS :: "32 word" where "MDB_NOTLS = 0x200000"
definition MDB_NOLOCK :: "32 word" where "MDB_NOLOCK = 0x400000"
definition MDB_NORDAHEAD :: "32 word" where "MDB_NORDAHEAD = 0x800000"
definition MDB_NOMEMINIT :: "32 word" where "MDB_NOMEMINIT = 0x1000000"
definition MDB_FATAL_ERROR :: "32 word" where "MDB_FATAL_ERROR = 0x80000000"
definition MDB_ENV_ACTIVE :: "32 word" where "MDB_ENV_ACTIVE = 0x20000000"
definition MDB_ENV_TXKEY :: "32 word" where "MDB_ENV_TXKEY = 0x10000000"

text \<open>Database flags and the flags of a put.\<close>

definition MDB_REVERSEKEY :: "32 word" where "MDB_REVERSEKEY = 0x02"
definition MDB_DUPSORT :: "32 word" where "MDB_DUPSORT = 0x04"
definition MDB_INTEGERKEY :: "32 word" where "MDB_INTEGERKEY = 0x08"
definition MDB_DUPFIXED :: "32 word" where "MDB_DUPFIXED = 0x10"
definition MDB_INTEGERDUP :: "32 word" where "MDB_INTEGERDUP = 0x20"
definition MDB_REVERSEDUP :: "32 word" where "MDB_REVERSEDUP = 0x40"
definition MDB_CREATE :: "32 word" where "MDB_CREATE = 0x40000"
definition MDB_NOOVERWRITE :: "32 word" where "MDB_NOOVERWRITE = 0x10"
definition MDB_NODUPDATA :: "32 word" where "MDB_NODUPDATA = 0x20"
definition MDB_CURRENT :: "32 word" where "MDB_CURRENT = 0x40"
definition MDB_RESERVE :: "32 word" where "MDB_RESERVE = 0x10000"
definition MDB_APPEND :: "32 word" where "MDB_APPEND = 0x20000"
definition MDB_APPENDDUP :: "32 word" where "MDB_APPENDDUP = 0x40000"
definition MDB_MULTIPLE :: "32 word" where "MDB_MULTIPLE = 0x80000"
definition MDB_SPLIT_REPLACE :: "32 word" where "MDB_SPLIT_REPLACE = MDB_APPENDDUP"
definition NODE_ADD_FLAGS :: "32 word" where
  "NODE_ADD_FLAGS = F_DUPDATA OR F_SUBDATA OR MDB_RESERVE OR MDB_APPEND"
definition MDB_VALID :: "32 word" where "MDB_VALID = 0x8000"
definition PERSISTENT_FLAGS :: "32 word" where "PERSISTENT_FLAGS = 0xffff AND NOT MDB_VALID"
definition VALID_FLAGS :: "32 word" where
  "VALID_FLAGS = MDB_REVERSEKEY OR MDB_DUPSORT OR MDB_INTEGERKEY OR MDB_DUPFIXED OR
     MDB_INTEGERDUP OR MDB_REVERSEDUP OR MDB_CREATE"

text \<open>Flags of a page search.\<close>

definition MDB_PS_MODIFY :: "32 word" where "MDB_PS_MODIFY = 1"
definition MDB_PS_ROOTONLY :: "32 word" where "MDB_PS_ROOTONLY = 2"
definition MDB_PS_FIRST :: "32 word" where "MDB_PS_FIRST = 4"
definition MDB_PS_LAST :: "32 word" where "MDB_PS_LAST = 8"

text \<open>Flags of a database within a transaction, of a transaction, of a cursor.\<close>

definition DB_DIRTY :: "8 word" where "DB_DIRTY = 0x01"
definition DB_STALE :: "8 word" where "DB_STALE = 0x02"
definition DB_NEW :: "8 word" where "DB_NEW = 0x04"
definition DB_VALID :: "8 word" where "DB_VALID = 0x08"
definition MDB_TXN_RDONLY :: "32 word" where "MDB_TXN_RDONLY = 0x01"
definition MDB_TXN_ERROR :: "32 word" where "MDB_TXN_ERROR = 0x02"
definition MDB_TXN_DIRTY :: "32 word" where "MDB_TXN_DIRTY = 0x04"
definition MDB_TXN_SPILLS :: "32 word" where "MDB_TXN_SPILLS = 0x08"
definition C_INITIALIZED :: "32 word" where "C_INITIALIZED = 0x01"
definition C_EOF :: "32 word" where "C_EOF = 0x02"
definition C_SUB :: "32 word" where "C_SUB = 0x04"
definition C_DEL :: "32 word" where "C_DEL = 0x08"
definition C_SPLITTING :: "32 word" where "C_SPLITTING = 0x20"
definition C_UNTRACK :: "32 word" where "C_UNTRACK = 0x40"

text \<open>Return codes.\<close>

definition MDB_SUCCESS :: int where "MDB_SUCCESS = 0"
definition MDB_KEYEXIST :: int where "MDB_KEYEXIST = -30799"
definition MDB_NOTFOUND :: int where "MDB_NOTFOUND = -30798"
definition MDB_PAGE_NOTFOUND :: int where "MDB_PAGE_NOTFOUND = -30797"
definition MDB_CORRUPTED :: int where "MDB_CORRUPTED = -30796"
definition MDB_PANIC :: int where "MDB_PANIC = -30795"
definition MDB_VERSION_MISMATCH :: int where "MDB_VERSION_MISMATCH = -30794"
definition MDB_INVALID :: int where "MDB_INVALID = -30793"
definition MDB_MAP_FULL :: int where "MDB_MAP_FULL = -30792"
definition MDB_DBS_FULL :: int where "MDB_DBS_FULL = -30791"
definition MDB_READERS_FULL :: int where "MDB_READERS_FULL = -30790"
definition MDB_TLS_FULL :: int where "MDB_TLS_FULL = -30789"
definition MDB_TXN_FULL :: int where "MDB_TXN_FULL = -30788"
definition MDB_CURSOR_FULL :: int where "MDB_CURSOR_FULL = -30787"
definition MDB_PAGE_FULL :: int where "MDB_PAGE_FULL = -30786"
definition MDB_MAP_RESIZED :: int where "MDB_MAP_RESIZED = -30785"
definition MDB_INCOMPATIBLE :: int where "MDB_INCOMPATIBLE = -30784"
definition MDB_BAD_RSLOT :: int where "MDB_BAD_RSLOT = -30783"
definition MDB_BAD_TXN :: int where "MDB_BAD_TXN = -30782"
definition MDB_BAD_VALSIZE :: int where "MDB_BAD_VALSIZE = -30781"
definition MDB_BAD_DBI :: int where "MDB_BAD_DBI = -30780"
definition MDB_LAST_ERRCODE :: int where "MDB_LAST_ERRCODE = MDB_BAD_DBI"
definition EINVAL :: int where "EINVAL = 22"
definition EACCES :: int where "EACCES = 13"
definition EIO :: int where "EIO = 5"
definition ENOENT :: int where "ENOENT = 2"
definition EINTR :: int where "EINTR = 4"
definition EBUSY :: int where "EBUSY = 16"
definition ENOSPC :: int where "ENOSPC = 28"

text \<open>\<open>mdb_errstr\<close> and \<open>mdb_strerror\<close>; the system's \<open>strerror\<close> is a parameter.\<close>

definition mdb_errstr :: "string list" where
  "mdb_errstr = [
     ''MDB_KEYEXIST: Key/data pair already exists'',
     ''MDB_NOTFOUND: No matching key/data pair found'',
     ''MDB_PAGE_NOTFOUND: Requested page not found'',
     ''MDB_CORRUPTED: Located page was wrong type'',
     ''MDB_PANIC: Update of meta page failed or environment had fatal error'',
     ''MDB_VERSION_MISMATCH: Database environment version mismatch'',
     ''MDB_INVALID: File is not an LMDB file'',
     ''MDB_MAP_FULL: Environment mapsize limit reached'',
     ''MDB_DBS_FULL: Environment maxdbs limit reached'',
     ''MDB_READERS_FULL: Environment maxreaders limit reached'',
     ''MDB_TLS_FULL: Thread-local storage keys full - too many environments open'',
     ''MDB_TXN_FULL: Transaction has too many dirty pages - transaction too big'',
     ''MDB_CURSOR_FULL: Internal error - cursor stack limit reached'',
     ''MDB_PAGE_FULL: Internal error - page has no more space'',
     ''MDB_MAP_RESIZED: Database contents grew beyond environment mapsize'',
     ''MDB_INCOMPATIBLE: Operation and DB incompatible, or DB flags changed'',
     ''MDB_BAD_RSLOT: Invalid reuse of reader locktable slot'',
     ''MDB_BAD_TXN: Transaction cannot recover - it must be aborted'',
     ''MDB_BAD_VALSIZE: Unsupported size of key/DB name/data, or wrong DUPFIXED size'',
     ''MDB_BAD_DBI: The specified DBI handle was closed/changed unexpectedly'']"

definition mdb_strerror :: "(int \<Rightarrow> string) \<Rightarrow> int \<Rightarrow> string option" where
  "mdb_strerror strerror err =
     (if err = 0 then Some ''Successful return: 0''
      else if err \<ge> MDB_KEYEXIST \<and> err \<le> MDB_LAST_ERRCODE
      then rd mdb_errstr (nat (err - MDB_KEYEXIST))
      else Some (strerror err))"

section \<open>Data\<close>

text \<open>
  \<open>MDB_val\<close>: for the data of an existing overflow node the size is that of the data while
  the bytes are the page number stored in the node, so the two are kept apart.
\<close>

record MDB_val =
  mv_size :: nat
  mv_data :: "byte list"

definition val_of :: "byte list \<Rightarrow> MDB_val" where
  "val_of bs = \<lparr>mv_size = length bs, mv_data = bs\<rparr>"

lemma val_of_simps [simp]: "mv_size (val_of bs) = length bs" "mv_data (val_of bs) = bs"
  by (simp_all add: val_of_def)

record MDB_node =
  mn_lo :: "16 word"
  mn_hi :: "16 word"
  mn_flags :: "16 word"
  mn_ksize :: nat
  mn_data :: "byte list"

datatype page_ref = PNull | PMap pgno_t | PMem nat

record MDB_page =
  mp_pgno :: pgno_t
  mp_pad :: nat
  mp_flags :: "16 word"
  mp_lower :: nat
  mp_upper :: nat
  mp_pages :: nat
  mp_ptrs :: "nat \<Rightarrow> nat"
  mp_nodes :: "nat \<Rightarrow> MDB_node option"
  mp_data :: "byte list"

record MDB_db =
  md_pad :: "32 word"
  md_flags :: "16 word"
  md_depth :: "16 word"
  md_branch_pages :: pgno_t
  md_leaf_pages :: pgno_t
  md_overflow_pages :: pgno_t
  md_entries :: "64 word"
  md_root :: pgno_t

definition zero_db :: MDB_db where
  "zero_db = \<lparr>md_pad = 0, md_flags = 0, md_depth = 0, md_branch_pages = 0, md_leaf_pages = 0,
     md_overflow_pages = 0, md_entries = 0, md_root = 0\<rparr>"

record MDB_meta =
  mm_magic :: "32 word"
  mm_version :: "32 word"
  mm_address :: "64 word"
  mm_mapsize :: "64 word"
  mm_dbs :: "MDB_db list"
  mm_last_pg :: pgno_t
  mm_txnid :: txnid_t

text \<open>
  Comparison functions.  The code compares the function pointers \<open>mdb_cmp_cint\<close>,
  \<open>mdb_cmp_long\<close>, \<open>mdb_cmp_int\<close>; a comparator set by the application is a function.
\<close>

datatype MDB_cmp_func = Cmp_memn | Cmp_memnr | Cmp_int | Cmp_cint | Cmp_long
  | Cmp_user "byte list \<Rightarrow> byte list \<Rightarrow> int"

record MDB_dbx =
  md_name :: "byte list"
  md_cmp :: "MDB_cmp_func option"
  md_dcmp :: "MDB_cmp_func option"

record MDB_reader =
  mr_txnid :: txnid_t
  mr_pid :: nat
  mr_tid :: nat

record MDB_txninfo =
  mti_txnid :: txnid_t
  mti_numreaders :: nat
  mti_readers :: "MDB_reader list"

record MDB_pgstate =
  mf_pghead :: "MDB_IDL option"
  mf_pglast :: txnid_t

text \<open>
  A cursor; \<open>mc_db\<close>, \<open>mc_dbx\<close> and \<open>mc_dbflag\<close> point into the transaction at \<open>mc_dbi\<close>.
\<close>

record MDB_cursor =
  mc_dbi :: nat
  mc_snum :: nat
  mc_top :: nat
  mc_flags :: "32 word"
  mc_pg :: "page_ref list"
  mc_ki :: "nat list"

text \<open>
  A transaction.  \<open>mt_cursors\<close> holds, per database, the linked list of its cursors, most recent
  first; \<open>mt_backups\<close> holds what the cursors' \<open>mc_backup\<close> point to, and \<open>mnt_pgstate\<close> the parent's
  page state in a nested transaction (\<open>MDB_ntxn\<close>).  \<open>mt_dbxs\<close> says that the pointer is not null
  (it is null in a transaction that was reset); the array is the environment's \<open>me_dbxs\<close>.
\<close>

record MDB_txn =
  mt_next_pgno :: pgno_t
  mt_txnid :: txnid_t
  mt_free_pgs :: MDB_IDL
  mt_loose_pgs :: "page_ref list"
  mt_loose_count :: nat
  mt_spill_pgs :: "MDB_IDL option"
  mt_dirty_list :: "page_ref MDB_ID2 list"
  mt_reader :: "nat option"
  mt_dbs :: "MDB_db list"
  mt_dbiseqs :: "32 word list"
  mt_cursors :: "nat list list"
  mt_backups :: "(nat \<times> MDB_cursor) list"
  mt_dbflags :: "8 word list"
  mt_numdbs :: nat
  mt_dbxs :: bool
  mt_flags :: "32 word"
  mt_dirty_room :: nat
  mnt_pgstate :: MDB_pgstate

text \<open>
  The environment.  \<open>me_map\<close> is the memory map of the data file (of the pages that hold data;
  the two meta pages are \<open>me_metas\<close>), \<open>me_mapaddr\<close> its address, 0 before the environment
  is opened.  \<open>me_txn\<close> says that a write transaction runs; between two of
  them \<open>me_txn0\<close>, the structure they all use, keeps what the last one left in it.
\<close>

record MDB_env =
  me_flags :: "32 word"
  me_psize :: nat
  me_os_psize :: nat
  me_maxreaders :: nat
  me_numreaders :: nat
  me_numdbs :: nat
  me_maxdbs :: nat
  me_pid :: nat
  me_mapaddr :: nat
  me_map :: "pgno_t \<Rightarrow> MDB_page option"
  me_txns :: "MDB_txninfo option"
  me_metas :: "MDB_meta list"
  me_txn :: bool
  me_txn0 :: MDB_txn
  me_mapsize :: nat
  me_maxpg :: pgno_t
  me_dbxs :: "MDB_dbx list"
  me_dbflags :: "16 word list"
  me_dbiseqs :: "32 word list"
  me_pgoldest :: txnid_t
  me_pglast :: txnid_t
  me_pghead :: "MDB_IDL option"
  me_dpages :: "nat list"
  me_free_pgs :: MDB_IDL
  me_maxfree_1pg :: nat
  me_nodemax :: nat
  me_live_reader :: bool

text \<open>
  The state of the engine as one thread sees it: the environment, its current transaction
  followed by the transaction's ancestors, the cursors and \<open>malloc\<close>ed pages by address.
  \<open>malloc_ok\<close> and \<open>io_rc\<close> say which allocation and which system call on the file succeeds; the
  counters advance with each of them.  A write that fails may have written the first
  \<open>io_part\<close> parts of its batch.  \<open>tls\<close> is the thread's value of \<open>me_txkey\<close> (the index of a reader
  slot), \<open>tid\<close> is \<open>pthread_self()\<close>, and \<open>pid_locked\<close> says which processes hold their lock on the
  lock file.
\<close>

record st =
  env :: MDB_env
  txns :: "MDB_txn list"
  crs :: "nat \<Rightarrow> MDB_cursor option"
  ncrs :: nat
  heap :: "nat \<Rightarrow> MDB_page option"
  nalloc :: nat
  malloc_ok :: "nat \<Rightarrow> nat \<Rightarrow> bool"
  nio :: nat
  io_rc :: "nat \<Rightarrow> int"
  io_part :: "nat \<Rightarrow> nat"
  tls :: "nat option"
  tid :: nat
  pid_locked :: "nat \<Rightarrow> bool"

section \<open>Access to the state\<close>

definition mem_of :: "st \<Rightarrow> nat \<Rightarrow> bool" where
  "mem_of st = malloc_ok st (nalloc st)"

definition tick :: "st \<Rightarrow> st" where
  "tick st = st\<lparr>nalloc := nalloc st + 1\<rparr>"

definition upd_env :: "(MDB_env \<Rightarrow> MDB_env) \<Rightarrow> st \<Rightarrow> st" where
  "upd_env f st = st\<lparr>env := f (env st)\<rparr>"

definition get_txn :: "st \<Rightarrow> MDB_txn option" where
  "get_txn st = (case txns st of [] \<Rightarrow> None | t # ts \<Rightarrow> Some t)"

definition upd_txn :: "(MDB_txn \<Rightarrow> MDB_txn) \<Rightarrow> st \<Rightarrow> st" where
  "upd_txn f st = st\<lparr>txns := (case txns st of [] \<Rightarrow> [] | t # ts \<Rightarrow> f t # ts)\<rparr>"

text \<open>\<open>txn->mt_parent\<close> is not null.\<close>

definition has_parent :: "st \<Rightarrow> bool" where
  "has_parent st = (length (txns st) > 1)"

definition upd_cur :: "nat \<Rightarrow> (MDB_cursor \<Rightarrow> MDB_cursor) \<Rightarrow> st \<Rightarrow> st" where
  "upd_cur c f st = st\<lparr>crs := (crs st)(c := map_option f (crs st c))\<rparr>"

definition get_page :: "st \<Rightarrow> page_ref \<Rightarrow> MDB_page option" where
  "get_page st p = (case p of PNull \<Rightarrow> None | PMap n \<Rightarrow> me_map (env st) n | PMem a \<Rightarrow> heap st a)"

text \<open>A system call: its return code.\<close>

definition io_call :: "st \<Rightarrow> int \<times> st" where
  "io_call st = (io_rc st (nio st), st\<lparr>nio := nio st + 1\<rparr>)"

text \<open>A store into a page: the map is writable only with \<open>MDB_WRITEMAP\<close>.\<close>

definition put_page :: "st \<Rightarrow> page_ref \<Rightarrow> MDB_page \<Rightarrow> st option" where
  "put_page st p mp =
     (case p of
        PNull \<Rightarrow> None
      | PMem a \<Rightarrow> (case heap st a of None \<Rightarrow> None | Some _ \<Rightarrow> Some (st\<lparr>heap := (heap st)(a \<mapsto> mp)\<rparr>))
      | PMap n \<Rightarrow> if anyset (me_flags (env st)) MDB_WRITEMAP
                  then Some (upd_env (\<lambda>e. e\<lparr>me_map := (me_map e)(n \<mapsto> mp)\<rparr>) st) else None)"

definition set_txn_error :: "st \<Rightarrow> st" where
  "set_txn_error = upd_txn (\<lambda>t. t\<lparr>mt_flags := mt_flags t OR MDB_TXN_ERROR\<rparr>)"

text \<open>The cursor's current page: \<open>mc->mc_pg[mc->mc_top]\<close>, and \<open>mc->mc_ki[mc->mc_top]\<close>.\<close>

definition cur_pg :: "MDB_cursor \<Rightarrow> page_ref option" where
  "cur_pg mc = rd (mc_pg mc) (mc_top mc)"

definition cur_ki :: "MDB_cursor \<Rightarrow> nat option" where
  "cur_ki mc = rd (mc_ki mc) (mc_top mc)"

definition set_pg :: "nat \<Rightarrow> page_ref \<Rightarrow> MDB_cursor \<Rightarrow> MDB_cursor" where
  "set_pg i p mc = mc\<lparr>mc_pg := (mc_pg mc)[i := p]\<rparr>"

definition set_ki :: "nat \<Rightarrow> nat \<Rightarrow> MDB_cursor \<Rightarrow> MDB_cursor" where
  "set_ki i k mc = mc\<lparr>mc_ki := (mc_ki mc)[i := u16 k]\<rparr>"

text \<open>The database record and the flags a cursor points to.\<close>

definition get_db :: "st \<Rightarrow> nat \<Rightarrow> MDB_db option" where
  "get_db st dbi = do { t \<leftarrow> get_txn st; rd (mt_dbs t) dbi }"

definition upd_db :: "nat \<Rightarrow> (MDB_db \<Rightarrow> MDB_db) \<Rightarrow> st \<Rightarrow> st" where
  "upd_db dbi f = upd_txn (\<lambda>t. t\<lparr>mt_dbs := (mt_dbs t)[dbi := f (mt_dbs t ! dbi)]\<rparr>)"

definition get_dbflag :: "st \<Rightarrow> nat \<Rightarrow> 8 word option" where
  "get_dbflag st dbi = do { t \<leftarrow> get_txn st; rd (mt_dbflags t) dbi }"

definition set_dbflag :: "nat \<Rightarrow> 8 word \<Rightarrow> st \<Rightarrow> st" where
  "set_dbflag dbi f = upd_txn (\<lambda>t. t\<lparr>mt_dbflags := (mt_dbflags t)[dbi := f]\<rparr>)"

text \<open>\<open>mdb_cassert\<close>, \<open>mdb_tassert\<close>, \<open>mdb_eassert\<close>: a failed assertion aborts the process.\<close>

definition mdb_cassert :: "bool \<Rightarrow> unit option" where
  "mdb_cassert b = (if b then Some () else None)"

lemma mdb_cassert_True [simp]: "mdb_cassert True = Some ()" and mdb_cassert_False [simp]: "mdb_cassert False = None"
  by (simp_all add: mdb_cassert_def)

text \<open>\<open>if ((rc = ...)) return rc;\<close>: go on only after success.\<close>

definition rc_bind :: "(int \<times> 's) option \<Rightarrow> ('s \<Rightarrow> (int \<times> 's) option) \<Rightarrow> (int \<times> 's) option" where
  "rc_bind m f = (case m of None \<Rightarrow> None | Some (rc, s) \<Rightarrow> if rc \<noteq> 0 then Some (rc, s) else f s)"

text \<open>\<open>if ((rc = ...)) goto fail;\<close>: on an error run the handler.\<close>

definition rc_handle :: "(int \<times> 's) option \<Rightarrow> ('s \<Rightarrow> 's) \<Rightarrow> (int \<times> 's) option" where
  "rc_handle m h = map_option (\<lambda>(rc, s). (rc, if rc \<noteq> 0 then h s else s)) m"

end
