(* ===== verification/Lmdb_Bytes.thy ===== *)
theory Lmdb_Bytes
  imports Lmdb_Types
begin

text \<open>
  Values of the code in memory: little-endian integers, page numbers, ID lists and database
  records as the bytes of keys and data items, and the key comparison functions
  \<open>mdb_cmp_memn\<close>, \<open>mdb_cmp_memnr\<close>, \<open>mdb_cmp_int\<close>, \<open>mdb_cmp_cint\<close>, \<open>mdb_cmp_long\<close> with the
  orders they decide.
\<close>

section \<open>Little-endian integers\<close>

fun le_bytes :: "nat \<Rightarrow> nat \<Rightarrow> byte list" where
  "le_bytes 0 v = []"
| "le_bytes (Suc n) v = of_nat (v mod 256) # le_bytes n (v div 256)"

fun of_le :: "byte list \<Rightarrow> nat" where
  "of_le [] = 0"
| "of_le (b # bs) = unat b + 256 * of_le bs"

lemma length_le_bytes [simp]: "length (le_bytes n v) = n"
  by (induction n arbitrary: v) auto

lemma of_le_le_bytes [simp]: "of_le (le_bytes n v) = v mod 256 ^ n"
proof (induction n arbitrary: v)
  case (Suc n)
  have "unat (of_nat (v mod 256) :: byte) = v mod 256"
    by (simp add: unat_of_nat take_bit_nat_eq_self)
  then show ?case
    using Suc by (simp add: mod_mult2_eq)
qed simp

lemma of_le_less: "of_le bs < 256 ^ length bs"
proof (induction bs)
  case (Cons b bs)
  have "unat b < 256" using unsigned_less [of b, where 'a = nat] by simp
  then show ?case using Cons by simp
qed simp

lemma le_bytes_of_le [simp]: "le_bytes (length bs) (of_le bs) = bs"
proof (induction bs)
  case (Cons b bs)
  have "unat b < 256" using unsigned_less [of b, where 'a = nat] by simp
  then have "(unat b + 256 * of_le bs) div 256 = of_le bs"
    "(unat b + 256 * of_le bs) mod 256 = unat b" by simp_all
  then show ?case using Cons by simp
qed simp

lemma of_le_append: "of_le (xs @ ys) = of_le xs + 256 ^ length xs * of_le ys"
  by (induction xs) (auto simp: algebra_simps)

lemma of_le_inj: "length xs = length ys \<Longrightarrow> of_le xs = of_le ys \<longleftrightarrow> xs = ys"
  by (metis le_bytes_of_le)

definition bytes64 :: "64 word \<Rightarrow> byte list" where
  "bytes64 w = le_bytes 8 (unat w)"

text \<open>A load of \<open>n\<close> bytes at the start of an object.\<close>

definition load :: "nat \<Rightarrow> byte list \<Rightarrow> nat option" where
  "load n bs = (if n \<le> length bs then Some (of_le (take n bs)) else None)"

definition load64 :: "byte list \<Rightarrow> 64 word option" where
  "load64 bs = map_option of_nat (load 8 bs)"

lemma length_bytes64 [simp]: "length (bytes64 w) = 8"
  by (simp add: bytes64_def)

lemma load64_bytes64 [simp]: "load64 (bytes64 w @ bs) = Some w"
proof -
  have "unat w < 256 ^ 8" using unat64_less [of w] by simp
  then show ?thesis by (simp add: load64_def load_def bytes64_def)
qed

lemma load64_bytes64' [simp]: "load64 (bytes64 w) = Some w"
  using load64_bytes64 [of w "[]"] by simp

section \<open>ID lists and database records as data items\<close>

text \<open>The data item of a free-list record: \<open>ids[0]\<close> and the IDs.\<close>

definition bytes_of_ids :: "MDB_ID list \<Rightarrow> byte list" where
  "bytes_of_ids ids = concat (map bytes64 ids)"

function ids_of_bytes :: "byte list \<Rightarrow> MDB_ID list" where
  "ids_of_bytes bs =
     (if length bs < 8 then [] else of_nat (of_le (take 8 bs)) # ids_of_bytes (drop 8 bs))"
  by pat_completeness auto
termination by (relation "measure length") auto

declare ids_of_bytes.simps [simp del]

lemma ids_of_bytes_Nil [simp]: "ids_of_bytes [] = []"
  by (simp add: ids_of_bytes.simps)

lemma ids_of_bytes_bytes_of_ids [simp]: "ids_of_bytes (bytes_of_ids ids) = ids"
proof (induction ids)
  case (Cons x ids)
  have "unat x < 256 ^ 8" using unat64_less [of x] by simp
  then show ?case
    using Cons by (subst ids_of_bytes.simps) (simp add: bytes_of_ids_def bytes64_def)
qed (simp add: bytes_of_ids_def)

lemma length_bytes_of_ids [simp]: "length (bytes_of_ids ids) = 8 * length ids"
  by (induction ids) (auto simp: bytes_of_ids_def)

text \<open>
  A database record is copied as it lies in memory: the members of \<open>struct MDB_db\<close> in their order and
  widths, without padding, least significant byte first (the 64-bit little-endian targets).
\<close>

definition bytes_of_db :: "MDB_db \<Rightarrow> byte list" where
  "bytes_of_db db =
     le_bytes 4 (unat (md_pad db)) @ le_bytes 2 (unat (md_flags db)) @ le_bytes 2 (unat (md_depth db)) @
     bytes64 (md_branch_pages db) @ bytes64 (md_leaf_pages db) @ bytes64 (md_overflow_pages db) @
     bytes64 (md_entries db) @ bytes64 (md_root db)"

definition db_of_bytes :: "byte list \<Rightarrow> MDB_db option" where
  "db_of_bytes bs = do {
     pad \<leftarrow> load 4 bs;
     flags \<leftarrow> load 2 (drop 4 bs);
     depth \<leftarrow> load 2 (drop 6 bs);
     bp \<leftarrow> load64 (drop 8 bs);
     lp \<leftarrow> load64 (drop 16 bs);
     op \<leftarrow> load64 (drop 24 bs);
     en \<leftarrow> load64 (drop 32 bs);
     root \<leftarrow> load64 (drop 40 bs);
     Some \<lparr>md_pad = of_nat pad, md_flags = of_nat flags, md_depth = of_nat depth,
           md_branch_pages = bp, md_leaf_pages = lp, md_overflow_pages = op,
           md_entries = en, md_root = root\<rparr> }"

lemma length_bytes_of_db [simp]: "length (bytes_of_db db) = sizeof_MDB_db"
  by (simp add: bytes_of_db_def sizeof_MDB_db_def)

lemma load_append: "load n (xs @ ys) = (if n \<le> length xs then load n xs else load n (xs @ ys))"
  by (auto simp: load_def)

lemma load_le_bytes: "n \<le> length xs \<Longrightarrow> load n (xs @ ys) = load n xs"
  by (simp add: load_def)

lemma unat16_less: "unat (w :: 16 word) < 65536" and unat32_less: "unat (v :: 32 word) < 4294967296"
  using unsigned_less [of w, where 'a = nat] unsigned_less [of v, where 'a = nat] by simp_all

lemma db_of_bytes_bytes_of_db [simp]: "db_of_bytes (bytes_of_db db) = Some db"
proof -
  have l: "load 4 (le_bytes 4 (unat (md_pad db)) @ r) = Some (unat (md_pad db))"
    "load 2 (le_bytes 2 (unat (md_flags db)) @ r) = Some (unat (md_flags db))"
    "load 2 (le_bytes 2 (unat (md_depth db)) @ r) = Some (unat (md_depth db))" for r
    using unat16_less [of "md_flags db"] unat16_less [of "md_depth db"] unat32_less [of "md_pad db"]
    by (simp_all add: load_def)
  show ?thesis
    by (simp add: db_of_bytes_def bytes_of_db_def l)
qed

section \<open>Comparing keys\<close>

text \<open>\<open>memcmp\<close>: the difference of the first bytes that differ.\<close>

fun memcmp :: "byte list \<Rightarrow> byte list \<Rightarrow> nat \<Rightarrow> int option" where
  "memcmp xs ys 0 = Some 0"
| "memcmp (x # xs) (y # ys) (Suc n) =
     (if x = y then memcmp xs ys n else Some (uint x - uint y))"
| "memcmp _ _ (Suc n) = None"

definition mdb_cmp_long :: "byte list \<Rightarrow> byte list \<Rightarrow> int option" where
  "mdb_cmp_long a b = do {
     x \<leftarrow> load 8 a;
     y \<leftarrow> load 8 b;
     Some (if x < y then -1 else if x > y then 1 else 0) }"

definition mdb_cmp_int :: "byte list \<Rightarrow> byte list \<Rightarrow> int option" where
  "mdb_cmp_int a b = do {
     x \<leftarrow> load 4 a;
     y \<leftarrow> load 4 b;
     Some (if x < y then -1 else if x > y then 1 else 0) }"

text \<open>\<open>do { x = *--u - *--c; } while (!x && u > a->mv_data)\<close>; \<open>u\<close> is the byte offset of the pointer.\<close>

fun cmp_cint_loop :: "byte list \<Rightarrow> byte list \<Rightarrow> nat \<Rightarrow> int option" where
  "cmp_cint_loop a b (Suc (Suc u)) = do {
     x \<leftarrow> load 2 (drop u a);
     y \<leftarrow> load 2 (drop u b);
     if x = y \<and> u > 0 then cmp_cint_loop a b u else Some (int x - int y) }"
| "cmp_cint_loop a b _ = None"

definition mdb_cmp_cint :: "byte list \<Rightarrow> byte list \<Rightarrow> int option" where
  "mdb_cmp_cint a b = cmp_cint_loop a b (length a)"

text \<open>Keys are at most \<open>MDB_MAXKEYSIZE\<close> bytes, so \<open>unsigned int len = a->mv_size\<close> loses nothing.\<close>

definition mdb_cmp_memn :: "byte list \<Rightarrow> byte list \<Rightarrow> int option" where
  "mdb_cmp_memn a b = do {
     let len = u32 (length a);
     let len_diff = int (length a) - int (length b);
     let (len, len_diff) = (if len_diff > 0 then (u32 (length b), 1) else (len, len_diff));
     diff \<leftarrow> memcmp a b len;
     Some (if diff \<noteq> 0 then diff else if len_diff < 0 then -1 else len_diff) }"

text \<open>\<open>while (p1 > p1_lim)\<close>: \<open>i\<close> and \<open>j\<close> are the offsets of \<open>p1\<close> and \<open>p2\<close>.\<close>

function memnr_loop :: "byte list \<Rightarrow> byte list \<Rightarrow> nat \<Rightarrow> nat \<Rightarrow> nat \<Rightarrow> int \<Rightarrow> int option" where
  "memnr_loop a b i j lim len_diff =
     (if i > lim then
        if j = 0 then None
        else do {
          x \<leftarrow> rd a (i - 1);
          y \<leftarrow> rd b (j - 1);
          if x \<noteq> y then Some (uint x - uint y) else memnr_loop a b (i - 1) (j - 1) lim len_diff }
      else Some (if len_diff < 0 then -1 else len_diff))"
  by pat_completeness auto
termination by (relation "measure (\<lambda>(a, b, i, j, lim, d). i)") auto

declare memnr_loop.simps [simp del]

definition mdb_cmp_memnr :: "byte list \<Rightarrow> byte list \<Rightarrow> int option" where
  "mdb_cmp_memnr a b =
     (let len_diff = int (length a) - int (length b);
          (lim, len_diff) = (if len_diff > 0 then (nat len_diff, 1) else (0, len_diff))
      in memnr_loop a b (length a) (length b) lim len_diff)"

text \<open>A call through the function pointer.\<close>

definition cmp_call :: "MDB_cmp_func \<Rightarrow> byte list \<Rightarrow> byte list \<Rightarrow> int option" where
  "cmp_call c a b =
     (case c of
        Cmp_memn \<Rightarrow> mdb_cmp_memn a b
      | Cmp_memnr \<Rightarrow> mdb_cmp_memnr a b
      | Cmp_int \<Rightarrow> mdb_cmp_int a b
      | Cmp_cint \<Rightarrow> mdb_cmp_cint a b
      | Cmp_long \<Rightarrow> mdb_cmp_long a b
      | Cmp_user f \<Rightarrow> Some (f a b))"

definition cmp_is :: "MDB_cmp_func \<Rightarrow> MDB_cmp_func \<Rightarrow> bool" where
  "cmp_is c d =
     (case (c, d) of (Cmp_memn, Cmp_memn) \<Rightarrow> True | (Cmp_memnr, Cmp_memnr) \<Rightarrow> True
      | (Cmp_int, Cmp_int) \<Rightarrow> True | (Cmp_cint, Cmp_cint) \<Rightarrow> True | (Cmp_long, Cmp_long) \<Rightarrow> True
      | _ \<Rightarrow> False)"

section \<open>The orders the comparisons decide\<close>

text \<open>
  What the tree relies on: on the keys \<open>K\<close> of a database the comparison returns, and its sign is
  a total order.
\<close>

locale key_order =
  fixes K :: "byte list set" and cmp :: "byte list \<Rightarrow> byte list \<Rightarrow> int option"
  assumes defined: "a \<in> K \<Longrightarrow> b \<in> K \<Longrightarrow> cmp a b \<noteq> None"
    and same: "a \<in> K \<Longrightarrow> b \<in> K \<Longrightarrow> cmp a b = Some 0 \<longleftrightarrow> a = b"
    and anti: "a \<in> K \<Longrightarrow> b \<in> K \<Longrightarrow> the (cmp a b) < 0 \<longleftrightarrow> the (cmp b a) > 0"
    and trans: "a \<in> K \<Longrightarrow> b \<in> K \<Longrightarrow> c \<in> K \<Longrightarrow> the (cmp a b) < 0 \<Longrightarrow> the (cmp b c) < 0 \<Longrightarrow>
                  the (cmp a c) < 0"
begin

definition less :: "byte list \<Rightarrow> byte list \<Rightarrow> bool" where
  "less a b \<longleftrightarrow> the (cmp a b) < 0"

lemma cmp_Some: "a \<in> K \<Longrightarrow> b \<in> K \<Longrightarrow> cmp a b = Some (the (cmp a b))"
  using defined [of a b] by (cases "cmp a b") auto

lemma irrefl: "a \<in> K \<Longrightarrow> \<not> less a a"
  using same [of a a] by (simp add: less_def)

lemma total: "a \<in> K \<Longrightarrow> b \<in> K \<Longrightarrow> less a b \<or> a = b \<or> less b a"
  using same [of a b] anti [of b a] defined [of a b]
  by (cases "cmp a b") (auto simp: less_def)

lemma asym: "a \<in> K \<Longrightarrow> b \<in> K \<Longrightarrow> less a b \<Longrightarrow> \<not> less b a"
  using anti [of a b] by (simp add: less_def)

lemma greater: "a \<in> K \<Longrightarrow> b \<in> K \<Longrightarrow> the (cmp a b) > 0 \<longleftrightarrow> less b a"
  using anti [of b a] by (simp add: less_def)

end

text \<open>A comparison that agrees in sign with the order of an injective rank is a key order.\<close>

lemma key_order_rank:
  fixes rank :: "byte list \<Rightarrow> 'a::linorder"
  assumes "\<And>a b. a \<in> K \<Longrightarrow> b \<in> K \<Longrightarrow> \<exists>d. cmp a b = Some d \<and>
      (d < 0 \<longleftrightarrow> rank a < rank b) \<and> (d > 0 \<longleftrightarrow> rank b < rank a)"
    and "inj_on rank K"
  shows "key_order K cmp"
proof
  fix a b c assume k: "a \<in> K" "b \<in> K"
  obtain d e where d: "cmp a b = Some d" "(d < 0 \<longleftrightarrow> rank a < rank b)" "(d > 0 \<longleftrightarrow> rank b < rank a)"
    and e: "cmp b a = Some e" "(e < 0 \<longleftrightarrow> rank b < rank a)" "(e > 0 \<longleftrightarrow> rank a < rank b)"
    using assms(1) [OF k] assms(1) [OF k(2,1)] by auto
  show "cmp a b \<noteq> None" using d by simp
  have "rank a = rank b \<longleftrightarrow> a = b" using assms(2) k by (auto dest: inj_onD)
  then show "cmp a b = Some 0 \<longleftrightarrow> a = b" using d by (metis not_less_iff_gr_or_eq option.inject)
  show "the (cmp a b) < 0 \<longleftrightarrow> the (cmp b a) > 0" using d e by simp
  assume "c \<in> K" and lt: "the (cmp a b) < 0" "the (cmp b c) < 0"
  then obtain f g where "cmp b c = Some f" "(f < 0 \<longleftrightarrow> rank b < rank c)"
    "cmp a c = Some g" "(g < 0 \<longleftrightarrow> rank a < rank c)"
    using assms(1) [OF k(2)] assms(1) [OF k(1)] by meson
  with lt d show "the (cmp a c) < 0" by auto
qed

subsection \<open>Integer keys\<close>

lemma key_order_long: "key_order {bs. length bs = 8} mdb_cmp_long"
proof (rule key_order_rank [where rank = of_le])
  show "inj_on of_le {bs. length bs = 8}" by (auto intro!: inj_onI dest: of_le_inj [THEN iffD1, rotated])
qed (auto simp: mdb_cmp_long_def load_def)

lemma key_order_int: "key_order {bs. length bs = 4} mdb_cmp_int"
proof (rule key_order_rank [where rank = of_le])
  show "inj_on of_le {bs. length bs = 4}" by (auto intro!: inj_onI dest: of_le_inj [THEN iffD1, rotated])
qed (auto simp: mdb_cmp_int_def load_def)

text \<open>
  \<open>mdb_cmp_cint\<close> compares from the most significant 16-bit unit down; on keys of the same even
  length this is the order of the integers the keys hold.
\<close>

lemma cmp_cint_loop_sign:
  assumes "even u" "0 < u" "u \<le> length a" "u \<le> length b"
  shows "\<exists>d. cmp_cint_loop a b u = Some d \<and>
     (d < 0 \<longleftrightarrow> of_le (take u a) < of_le (take u b)) \<and> (d > 0 \<longleftrightarrow> of_le (take u b) < of_le (take u a))"
  using assms
proof (induction u rule: less_induct)
  case (less u)
  define v where "v = u - 2"
  have "u \<noteq> 1" using less.prems(1) by auto
  then have v: "u = Suc (Suc v)" "even v" using less.prems(1,2) by (auto simp: v_def)
  define x y where "x = of_le (take 2 (drop v a))" and "y = of_le (take 2 (drop v b))"
  have tk: "of_le (take u a) = of_le (take v a) + 256 ^ v * x"
    "of_le (take u b) = of_le (take v b) + 256 ^ v * y"
    using less.prems v(1) take_add [of v 2 a] take_add [of v 2 b]
    by (simp_all add: of_le_append x_def y_def)
  have bd: "of_le (take v a) < 256 ^ v" "of_le (take v b) < 256 ^ v"
    using of_le_less [of "take v a"] of_le_less [of "take v b"] less.prems v(1) by simp_all
  have step: "cmp_cint_loop a b u = (if x = y \<and> v > 0 then cmp_cint_loop a b v else Some (int x - int y))"
  proof -
    have "2 \<le> length a - v" "2 \<le> length b - v" using less.prems v(1) by simp_all
    then show ?thesis using v by (simp add: load_def x_def y_def)
  qed
  have order: "of_le (take v a) + 256 ^ v * x < of_le (take v b) + 256 ^ v * y" if "x < y"
  proof -
    have "256 ^ v * (x + 1) \<le> 256 ^ v * y" using that by (intro mult_le_mono) auto
    then show ?thesis using bd by (simp add: algebra_simps)
  qed
  have order': "of_le (take v b) + 256 ^ v * y < of_le (take v a) + 256 ^ v * x" if "y < x"
  proof -
    have "256 ^ v * (y + 1) \<le> 256 ^ v * x" using that by (intro mult_le_mono) auto
    then show ?thesis using bd by (simp add: algebra_simps)
  qed
  consider "x < y" | "y < x" | "x = y" "v = 0" | "x = y" "v > 0" by linarith
  then show ?case
  proof cases
    case 4
    then show ?thesis using less.IH [of v] less.prems v step tk by simp
  qed (use step tk order order' in \<open>auto\<close>)
qed

lemma key_order_cint:
  assumes "even n" "0 < n"
  shows "key_order {bs. length bs = n} mdb_cmp_cint"
proof (rule key_order_rank [where rank = of_le])
  fix a b :: "byte list" assume "a \<in> {bs. length bs = n}" "b \<in> {bs. length bs = n}"
  then show "\<exists>d. mdb_cmp_cint a b = Some d \<and> (d < 0 \<longleftrightarrow> of_le a < of_le b) \<and> (d > 0 \<longleftrightarrow> of_le b < of_le a)"
    using cmp_cint_loop_sign [of n a b] assms by (simp add: mdb_cmp_cint_def)
qed (auto intro!: inj_onI dest: of_le_inj [THEN iffD1, rotated])

subsection \<open>Byte strings\<close>

text \<open>The lexicographic order of byte strings, a prefix first.\<close>

fun lex_less :: "byte list \<Rightarrow> byte list \<Rightarrow> bool" where
  "lex_less [] [] = False"
| "lex_less [] (y # ys) = True"
| "lex_less (x # xs) [] = False"
| "lex_less (x # xs) (y # ys) = (x < y \<or> x = y \<and> lex_less xs ys)"

lemma lex_less_irrefl [simp]: "\<not> lex_less xs xs"
  by (induction xs) auto

lemma lex_less_Nil [simp]: "lex_less [] ys \<longleftrightarrow> ys \<noteq> []" and lex_less_Nil2 [simp]: "\<not> lex_less xs []"
  by (cases ys; simp) (cases xs; simp)

lemma lex_less_trans: "lex_less xs ys \<Longrightarrow> lex_less ys zs \<Longrightarrow> lex_less xs zs"
proof (induction xs ys arbitrary: zs rule: lex_less.induct)
  case (2 y ys)
  then show ?case by (cases zs) auto
next
  case (4 x xs y ys)
  then show ?case by (cases zs) auto
qed auto

lemma lex_less_total: "lex_less xs ys \<or> xs = ys \<or> lex_less ys xs"
  by (induction xs ys rule: lex_less.induct) auto

lemma lex_less_asym: "lex_less xs ys \<Longrightarrow> \<not> lex_less ys xs"
  using lex_less_trans lex_less_irrefl by blast

lemma memcmp_lex:
  "n = min (length a) (length b) \<Longrightarrow>
   \<exists>d. memcmp a b n = Some d \<and>
     (d = 0 \<longrightarrow> take n a = take n b \<and>
        (lex_less a b \<longleftrightarrow> length a < length b) \<and> (lex_less b a \<longleftrightarrow> length b < length a))
     \<and> (d < 0 \<longrightarrow> lex_less a b) \<and> (d > 0 \<longrightarrow> lex_less b a)"
proof (induction a b n rule: memcmp.induct)
  case (1 xs ys)
  then show ?case by (cases xs; cases ys) auto
next
  case (2 x xs y ys n)
  then show ?case
    by (auto simp: word_less_def word_uint_eq_iff)
qed auto

lemma cmp_memn_lex:
  assumes "length a < 2 ^ 32" "length b < 2 ^ 32"
  shows "\<exists>d. mdb_cmp_memn a b = Some d \<and> (d < 0 \<longleftrightarrow> lex_less a b) \<and> (d > 0 \<longleftrightarrow> lex_less b a)"
proof -
  define n where "n = min (length a) (length b)"
  obtain d where d: "memcmp a b n = Some d"
    "d = 0 \<longrightarrow> (lex_less a b \<longleftrightarrow> length a < length b) \<and> (lex_less b a \<longleftrightarrow> length b < length a)"
    "d < 0 \<longrightarrow> lex_less a b" "d > 0 \<longrightarrow> lex_less b a"
    using memcmp_lex [OF n_def] by auto
  have len: "n = (if length a > length b then length b else length a)" by (auto simp: n_def)
  have run: "mdb_cmp_memn a b = Some (if d \<noteq> 0 then d else if length a > length b then 1
      else if length a < length b then -1 else 0)"
    using assms d(1) len by (auto simp: mdb_cmp_memn_def)
  consider "d < 0" | "d = 0" | "d > 0" by linarith
  then show ?thesis
  proof cases
    case 2
    then show ?thesis using run d(2) by auto
  qed (use run d lex_less_asym in auto)
qed

lemma key_order_lexI:
  assumes "\<And>a b. a \<in> K \<Longrightarrow> b \<in> K \<Longrightarrow>
      \<exists>d. cmp a b = Some d \<and> (d < 0 \<longleftrightarrow> lex_less (f a) (f b)) \<and> (d > 0 \<longleftrightarrow> lex_less (f b) (f a))"
    and "inj f"
  shows "key_order K cmp"
proof
  fix a b c assume k: "a \<in> K" "b \<in> K"
  note ab = assms(1) [OF k] and ba = assms(1) [OF k(2,1)]
  show "cmp a b \<noteq> None" using ab by auto
  show "cmp a b = Some 0 \<longleftrightarrow> a = b"
    using ab lex_less_total [of "f a" "f b"] assms(2) by (auto simp: inj_eq)
  show "the (cmp a b) < 0 \<longleftrightarrow> the (cmp b a) > 0" using ab ba by auto
  assume "c \<in> K" and lt: "the (cmp a b) < 0" "the (cmp b c) < 0"
  then show "the (cmp a c) < 0"
    using ab assms(1) [of b c] assms(1) [of a c] k lex_less_trans by (metis option.sel)
qed

lemma key_order_memn: "key_order {bs. length bs < 2 ^ 32} mdb_cmp_memn"
  by (rule key_order_lexI [where f = "\<lambda>x. x"]) (use cmp_memn_lex in auto)

text \<open>\<open>mdb_cmp_memnr\<close> compares from the last byte back: the order of the reversed strings.\<close>

lemma memnr_loop_lex:
  assumes "i \<le> length a" "j \<le> length b" "lim \<le> i"
    and "lim = length a - length b" "int i - int j = int (length a) - int (length b)"
    and "ld = (if length a > length b then 1 else int (length a) - int (length b))"
    and "drop i a = drop j b"
  shows "\<exists>d. memnr_loop a b i j lim ld = Some d \<and>
     (d < 0 \<longleftrightarrow> lex_less (rev (take i a)) (rev (take j b))) \<and>
     (d > 0 \<longleftrightarrow> lex_less (rev (take j b)) (rev (take i a)))"
  using assms
proof (induction a b i j lim ld rule: memnr_loop.induct)
  case (1 a b i j lim ld)
  note prems = "1.prems"
  show ?case
  proof (cases "i > lim")
    case False
    have "i = lim" using False prems by simp
    have stop: "memnr_loop a b i j lim ld = Some (if ld < 0 then -1 else ld)"
      using False by (simp add: memnr_loop.simps [of a b i])
    have len: "int i - int j = int (length a) - int (length b)" "i \<le> length a" "j \<le> length b"
      "i = length a - length b" using \<open>i = lim\<close> prems by auto
    have "i = 0 \<or> j = 0" using len by linarith
    moreover have "ld > 0 \<longleftrightarrow> i > 0" "ld < 0 \<longleftrightarrow> j > i"
      using len prems(6) by auto
    moreover have "rev (take i a) = [] \<longleftrightarrow> i = 0" "rev (take j b) = [] \<longleftrightarrow> j = 0" using len by auto
    ultimately show ?thesis unfolding stop by (elim disjE) auto
  next
    case True
    then obtain i' j' where i: "i = Suc i'" and j: "j = Suc j'"
      using prems by (cases i; cases j) (auto split: if_splits)
    have r: "rev (take i a) = a ! i' # rev (take i' a)" "rev (take j b) = b ! j' # rev (take j' b)"
      using prems(1,2) i j by (simp_all add: take_Suc_conv_app_nth)
    show ?thesis
    proof (cases "a ! i' = b ! j'")
      case eq: True
      have "drop i' a = drop j' b"
        using eq prems(1,2,7) i j by (simp add: Cons_nth_drop_Suc [symmetric])
      then have "\<exists>d. memnr_loop a b i' j' lim ld = Some d \<and>
          (d < 0 \<longleftrightarrow> lex_less (rev (take i' a)) (rev (take j' b))) \<and>
          (d > 0 \<longleftrightarrow> lex_less (rev (take j' b)) (rev (take i' a)))"
        using "1.IH" [OF True _ rd_in rd_in] eq prems i j True by simp
      then show ?thesis using True eq prems(1,2) i j r by (simp add: memnr_loop.simps [of a b "Suc i'"])
    next
      case False
      then show ?thesis using True prems(1,2) i j r
        by (auto simp: memnr_loop.simps [of a b "Suc i'"] word_less_def word_uint_eq_iff)
    qed
  qed
qed

lemma cmp_memnr_lex:
  "\<exists>d. mdb_cmp_memnr a b = Some d \<and> (d < 0 \<longleftrightarrow> lex_less (rev a) (rev b)) \<and>
     (d > 0 \<longleftrightarrow> lex_less (rev b) (rev a))"
  using memnr_loop_lex [of "length a" a "length b" b "length a - length b"
      "if length a > length b then 1 else int (length a) - int (length b)"]
  by (auto simp: mdb_cmp_memnr_def Let_def nat_diff_distrib' split: if_splits)

lemma key_order_memnr: "key_order UNIV mdb_cmp_memnr"
  by (rule key_order_lexI [where f = rev]) (use cmp_memnr_lex in \<open>auto intro: inj_on_rev\<close>)

interpretation memn: key_order "{bs. length bs < 2 ^ 32}" mdb_cmp_memn by (rule key_order_memn)
interpretation memnr: key_order UNIV mdb_cmp_memnr by (rule key_order_memnr)
interpretation cmp_long: key_order "{bs. length bs = 8}" mdb_cmp_long by (rule key_order_long)
interpretation cmp_int: key_order "{bs. length bs = 4}" mdb_cmp_int by (rule key_order_int)

end
