(* ===== verification/Lmdb_Bytes_Facts.thy ===== *)
theory Lmdb_Bytes_Facts
  imports Lmdb_Bytes
begin

text \<open>
  What the comparators guarantee: each comparator is a total order on the keys it is used for, and
  which one.
\<close>

text \<open>
  C28: the default comparator \<open>mdb_cmp_memn\<close> decides the lexicographic order of unsigned bytes, a
  proper prefix first, and gives 0 for equal keys only; the results for the two argument orders agree.
\<close>

theorem cmp_memn_lexicographic:
  assumes "length a < 2 ^ 32" and "length b < 2 ^ 32"
  shows "\<exists>d e. mdb_cmp_memn a b = Some d \<and> mdb_cmp_memn b a = Some e
     \<and> (d < 0 \<longleftrightarrow> lex_less a b) \<and> (d = 0 \<longleftrightarrow> a = b) \<and> (d > 0 \<longleftrightarrow> lex_less b a) \<and> (e < 0 \<longleftrightarrow> d > 0)"
proof -
  obtain d where d: "mdb_cmp_memn a b = Some d" "d < 0 \<longleftrightarrow> lex_less a b" "d > 0 \<longleftrightarrow> lex_less b a"
    using cmp_memn_lex [OF assms] by auto
  obtain e where e: "mdb_cmp_memn b a = Some e" "e < 0 \<longleftrightarrow> lex_less b a"
    using cmp_memn_lex [OF assms(2,1)] by auto
  have "d = 0 \<longleftrightarrow> a = b" using memn.same [of a b] d(1) assms by simp
  then show ?thesis using d e by blast
qed

lemma cmp_memn_lexicographic_witness: "\<exists>d. mdb_cmp_memn [1, 2] [1, 2, 0] = Some d \<and> d < 0"
  using cmp_memn_lexicographic [of "[1, 2]" "[1, 2, 0]"] by auto

text \<open>
  C29: \<open>mdb_cmp_memnr\<close>, the comparator of \<open>MDB_REVERSEKEY\<close>, decides the lexicographic order of the
  reversed keys, for keys of any two lengths.
\<close>

theorem cmp_memnr_reversed:
  "\<exists>d. mdb_cmp_memnr a b = Some d \<and> (d < 0 \<longleftrightarrow> lex_less (rev a) (rev b)) \<and> (d = 0 \<longleftrightarrow> a = b)
     \<and> (d > 0 \<longleftrightarrow> lex_less (rev b) (rev a))"
proof -
  obtain d where d: "mdb_cmp_memnr a b = Some d" "d < 0 \<longleftrightarrow> lex_less (rev a) (rev b)"
    "d > 0 \<longleftrightarrow> lex_less (rev b) (rev a)"
    using cmp_memnr_lex by blast
  moreover have "d = 0 \<longleftrightarrow> a = b" using memnr.same [of a b] d(1) by simp
  ultimately show ?thesis by blast
qed

text \<open>
  C30: \<open>mdb_cmp_cint\<close>, the comparator of \<open>MDB_INTEGERKEY\<close>, compares keys of the same even length as
  the little-endian integers they hold, in particular the 8-byte transaction numbers of the free list.
\<close>

theorem cmp_cint_integers:
  assumes "even n" and "0 < n" and "length a = n" and "length b = n"
  shows "\<exists>d. mdb_cmp_cint a b = Some d \<and> (d < 0 \<longleftrightarrow> of_le a < of_le b) \<and> (d = 0 \<longleftrightarrow> a = b)
     \<and> (d > 0 \<longleftrightarrow> of_le b < of_le a)"
proof -
  obtain d where d: "mdb_cmp_cint a b = Some d" "d < 0 \<longleftrightarrow> of_le a < of_le b" "d > 0 \<longleftrightarrow> of_le b < of_le a"
    using cmp_cint_loop_sign [of n a b] assms by (auto simp: mdb_cmp_cint_def)
  moreover have "of_le a = of_le b \<longleftrightarrow> a = b" using of_le_inj assms by simp
  ultimately show ?thesis by (metis linorder_neqE_linordered_idom linorder_neqE_nat order_less_irrefl)
qed

lemma cmp_cint_integers_witness: "\<exists>d. mdb_cmp_cint (bytes64 255) (bytes64 256) = Some d \<and> d < 0"
proof -
  have "of_le (bytes64 255) < of_le (bytes64 256)" by (simp add: bytes64_def)
  then show ?thesis using cmp_cint_integers [of 8 "bytes64 255" "bytes64 256"] by auto
qed

end
