(* ===== verification/Lmdb_Page.thy ===== *)
theory Lmdb_Page
  imports Lmdb_Bytes
begin

text \<open>
  Branch and leaf pages (\<open>LegacyDatabase/mdb.c\<close>): the node and page macros, the search for a
  key in a page, and the operations that add, delete and re-key a node or copy a page, as
  functions of the page.  A page keeps an array of offsets that grows up from the header and
  nodes that are packed against the end of the page.

  The operations keep the page well formed (\<open>page_ok\<close>: the nodes are disjoint, inside the page
  and fill it from \<open>mp_upper\<close> on), and on the list of the page's nodes they are the insertion,
  the deletion and the update of one element.
\<close>

section \<open>Nodes\<close>

definition NODEPGNO :: "MDB_node \<Rightarrow> pgno_t" where
  "NODEPGNO nd = ucast (mn_lo nd) OR push_bit 16 (ucast (mn_hi nd)) OR
     push_bit PGNO_TOPWORD (ucast (mn_flags nd))"

definition SETPGNO :: "MDB_node \<Rightarrow> pgno_t \<Rightarrow> MDB_node" where
  "SETPGNO nd pg = nd\<lparr>mn_lo := ucast (pg AND 0xffff), mn_hi := ucast (drop_bit 16 pg),
     mn_flags := ucast (drop_bit PGNO_TOPWORD pg)\<rparr>"

definition NODEDSZ :: "MDB_node \<Rightarrow> nat" where
  "NODEDSZ nd = unat ((ucast (mn_lo nd) :: 32 word) OR push_bit 16 (ucast (mn_hi nd)))"

definition SETDSZ :: "MDB_node \<Rightarrow> nat \<Rightarrow> MDB_node" where
  "SETDSZ nd sz = nd\<lparr>mn_lo := of_nat (and sz 0xffff), mn_hi := of_nat (drop_bit 16 sz)\<rparr>"

definition NODEKSZ :: "MDB_node \<Rightarrow> nat" where
  "NODEKSZ nd = mn_ksize nd"

definition NODEKEY :: "MDB_node \<Rightarrow> byte list" where
  "NODEKEY nd = take (mn_ksize nd) (mn_data nd)"

definition NODEDATA :: "MDB_node \<Rightarrow> byte list" where
  "NODEDATA nd = drop (mn_ksize nd) (mn_data nd)"

definition INDXSIZE :: "byte list option \<Rightarrow> nat" where
  "INDXSIZE k = NODESIZE + (case k of None \<Rightarrow> 0 | Some key \<Rightarrow> length key)"

definition LEAFSIZE :: "byte list \<Rightarrow> MDB_val \<Rightarrow> nat" where
  "LEAFSIZE k d = NODESIZE + length k + mv_size d"

definition node_isset :: "MDB_node \<Rightarrow> 32 word \<Rightarrow> bool" where
  "node_isset nd f = F_ISSET (ucast (mn_flags nd)) f"

section \<open>Pages\<close>

definition NUMKEYS :: "MDB_page \<Rightarrow> nat" where
  "NUMKEYS p = drop_bit 1 (mp_lower p - (PAGEHDRSZ - PAGEBASE))"

definition SIZELEFT :: "MDB_page \<Rightarrow> nat" where
  "SIZELEFT p = u16 (mp_upper p + 65536 - mp_lower p)"

text \<open>\<open>PAGEFILL\<close>: how full the page is, in thousandths.\<close>

definition PAGEFILL :: "nat \<Rightarrow> MDB_page \<Rightarrow> int" where
  "PAGEFILL psize p =
     1000 * (int psize - int PAGEHDRSZ - int (SIZELEFT p)) div (int psize - int PAGEHDRSZ)"

definition IS_LEAF :: "MDB_page \<Rightarrow> bool" where "IS_LEAF p = F_ISSET (mp_flags p) P_LEAF"
definition IS_LEAF2 :: "MDB_page \<Rightarrow> bool" where "IS_LEAF2 p = F_ISSET (mp_flags p) P_LEAF2"
definition IS_BRANCH :: "MDB_page \<Rightarrow> bool" where "IS_BRANCH p = F_ISSET (mp_flags p) P_BRANCH"
definition IS_OVERFLOW :: "MDB_page \<Rightarrow> bool" where "IS_OVERFLOW p = F_ISSET (mp_flags p) P_OVERFLOW"

definition OVPAGES :: "nat \<Rightarrow> nat \<Rightarrow> nat" where
  "OVPAGES sz psize = (PAGEHDRSZ - 1 + sz) div psize + 1"

definition NODEPTR :: "MDB_page \<Rightarrow> nat \<Rightarrow> MDB_node option" where
  "NODEPTR p i = mp_nodes p (mp_ptrs p i + PAGEBASE)"

text \<open>The key \<open>i\<close> of a \<open>LEAF2\<close> page of keys of size \<open>ks\<close>.\<close>

definition LEAF2KEY :: "MDB_page \<Rightarrow> nat \<Rightarrow> nat \<Rightarrow> byte list" where
  "LEAF2KEY p i ks = take ks (drop (i * ks) (mp_data p))"

text \<open>The bytes a node takes on its page, as \<open>mdb_node_del\<close> computes them.\<close>

definition node_space :: "MDB_page \<Rightarrow> MDB_node \<Rightarrow> nat" where
  "node_space mp nd = EVEN (NODESIZE + mn_ksize nd +
     (if IS_LEAF mp then if node_isset nd F_BIGDATA then sizeof_pgno_t else NODEDSZ nd else 0))"

section \<open>Searching a page\<close>

text \<open>
  The loop of \<open>mdb_node_search\<close>; \<open>f\<close> compares the key with the key of an index.  The result is
  the last index, the last comparison, and the index of \<open>node\<close> (none when nothing was probed).
\<close>

function node_search_loop ::
  "(nat \<Rightarrow> int option) \<Rightarrow> int \<Rightarrow> int \<Rightarrow> nat \<Rightarrow> int \<Rightarrow> nat option \<Rightarrow> (nat \<times> int \<times> nat option) option" where
  "node_search_loop f low high i rc nodep =
     (if low \<le> high then
        (let m = (low + high) div 2; i = nat m in
         case f i of
           None \<Rightarrow> None
         | Some rc \<Rightarrow>
             (if rc = 0 then Some (i, rc, Some i)
              else if rc > 0 then node_search_loop f (m + 1) high i rc (Some i)
              else node_search_loop f low (m - 1) i rc (Some i)))
      else Some (i, rc, nodep))"
  by pat_completeness auto
termination by (relation "measure (\<lambda>(f, low, high, i, rc, nodep). nat (high + 1 - low))") auto

declare node_search_loop.simps [simp del]

text \<open>
  The index, whether the key was found, and the node (\<open>None\<close> for \<open>NULL\<close>).  \<open>ksz\<close> (\<open>md_pad\<close>) is the key
  size of a \<open>LEAF2\<close> page; its \<open>node\<close> is that of index 0 in the code, which only tells \<open>NULL\<close>
  from not \<open>NULL\<close>.
\<close>

definition mdb_node_search ::
  "MDB_cmp_func \<Rightarrow> nat \<Rightarrow> MDB_page \<Rightarrow> byte list \<Rightarrow> (nat \<times> bool \<times> nat option) option" where
  "mdb_node_search dcmp ksz mp key = do {
     let nkeys = NUMKEYS mp;
     let low = (if IS_LEAF mp then 0 else 1);
     let high = int nkeys - 1;
     cmp \<leftarrow> (if cmp_is dcmp Cmp_cint \<and> IS_BRANCH mp then do {
               nd \<leftarrow> NODEPTR mp 1;
               Some (if mn_ksize nd = 8 then Cmp_long else Cmp_int) }
             else Some dcmp);
     (i, rc, nodep) \<leftarrow>
       (if IS_LEAF2 mp
        then node_search_loop (\<lambda>i. cmp_call cmp key (LEAF2KEY mp i ksz)) low high 0 0 (Some 0)
        else node_search_loop
          (\<lambda>i. do { nd \<leftarrow> NODEPTR mp i; cmp_call cmp key (NODEKEY nd) }) low high 0 0 None);
     let (i, nodep) = (if rc > 0 then (i + 1, if IS_LEAF2 mp then nodep else Some (i + 1)) else (i, nodep));
     let exact = (rc = 0 \<and> nkeys > 0);
     Some (i, exact, if i \<ge> nkeys then None else nodep) }"

section \<open>Sizes\<close>

definition mdb_leaf_size :: "nat \<Rightarrow> byte list \<Rightarrow> MDB_val \<Rightarrow> nat" where
  "mdb_leaf_size nodemax key data =
     (let sz = LEAFSIZE key data;
          sz = (if sz > nodemax then sz + sizeof_pgno_t - mv_size data else sz)
      in EVEN (sz + sizeof_indx_t))"

definition mdb_branch_size :: "byte list option \<Rightarrow> nat" where
  "mdb_branch_size key = INDXSIZE key + sizeof_indx_t"

section \<open>Adding a node\<close>

text \<open>\<open>for (i = NUMKEYS(mp); i > indx; i--) mp->mp_ptrs[i] = mp->mp_ptrs[i - 1];\<close>\<close>

fun shift_ptrs_up :: "(nat \<Rightarrow> nat) \<Rightarrow> nat \<Rightarrow> nat \<Rightarrow> (nat \<Rightarrow> nat)" where
  "shift_ptrs_up ptrs indx 0 = ptrs"
| "shift_ptrs_up ptrs indx (Suc i) =
     (if Suc i > indx then shift_ptrs_up (ptrs(Suc i := ptrs i)) indx i else ptrs)"

text \<open>
  A \<open>LEAF2\<close> page takes the key between its keys.  \<open>room\<close> and the later stores of a node are the
  two parts of \<open>mdb_node_add\<close> around the allocation of an overflow page.
\<close>

definition leaf2_add :: "nat \<Rightarrow> MDB_page \<Rightarrow> nat \<Rightarrow> byte list \<Rightarrow> MDB_page" where
  "leaf2_add ksize mp indx key =
     (let ptr = indx * ksize; dif = int (NUMKEYS mp) - int indx;
          keys = (if dif > 0
                  then take (ptr + ksize) (mp_data mp) @ take (nat dif * ksize) (drop ptr (mp_data mp)) @
                       drop (ptr + ksize + nat dif * ksize) (mp_data mp)
                  else mp_data mp);
          keys = take ptr keys @ take ksize key @ drop (ptr + ksize) keys
      in mp\<lparr>mp_data := keys, mp_lower := u16 (mp_lower mp + sizeof_indx_t),
            mp_upper := u16 (mp_upper mp + 65536 - (ksize - sizeof_indx_t))\<rparr>)"

definition node_room :: "MDB_page \<Rightarrow> int" where
  "node_room mp = int (SIZELEFT mp) - int sizeof_indx_t"

text \<open>The stores under the label \<open>update\<close>: the pointer array and the new node.\<close>

definition node_insert :: "MDB_page \<Rightarrow> nat \<Rightarrow> nat \<Rightarrow> MDB_node \<Rightarrow> MDB_page option" where
  "node_insert mp indx node_size nd = do {
     let ptrs = shift_ptrs_up (mp_ptrs mp) indx (NUMKEYS mp);
     let ofs = u16 (mp_upper mp + 65536 - node_size);
     mdb_cassert (ofs \<ge> mp_lower mp + sizeof_indx_t);
     Some (mp\<lparr>mp_ptrs := ptrs(indx := ofs), mp_upper := ofs,
              mp_lower := u16 (mp_lower mp + sizeof_indx_t),
              mp_nodes := (mp_nodes mp)(ofs + PAGEBASE := Some nd)\<rparr>) }"

text \<open>The header and the key of a node, then its data.\<close>

definition make_node ::
  "bool \<Rightarrow> byte list option \<Rightarrow> MDB_val \<Rightarrow> pgno_t \<Rightarrow> 32 word \<Rightarrow> byte list \<Rightarrow> MDB_node" where
  "make_node leaf key data pg flags payload =
     (let k = (case key of None \<Rightarrow> [] | Some bs \<Rightarrow> bs);
          nd = \<lparr>mn_lo = 0, mn_hi = 0, mn_flags = ucast flags, mn_ksize = u16 (length k),
                mn_data = k @ payload\<rparr>
      in if leaf then SETDSZ nd (mv_size data) else SETPGNO nd pg)"

section \<open>Deleting a node\<close>

text \<open>\<open>for (i = j = 0; i < numkeys; i++) if (i != indx) { ... j++; }\<close>\<close>

function del_ptrs :: "(nat \<Rightarrow> nat) \<Rightarrow> nat \<Rightarrow> nat \<Rightarrow> nat \<Rightarrow> nat \<Rightarrow> nat \<Rightarrow> nat \<Rightarrow> (nat \<Rightarrow> nat)" where
  "del_ptrs ptrs numkeys indx ptr sz i j =
     (if i < numkeys then
        if i \<noteq> indx then
          (let ptrs1 = ptrs(j := ptrs i);
               ptrs2 = (if ptrs1 i < ptr then ptrs1(j := u16 (ptrs1 j + sz)) else ptrs1)
           in del_ptrs ptrs2 numkeys indx ptr sz (i + 1) (j + 1))
        else del_ptrs ptrs numkeys indx ptr sz (i + 1) j
      else ptrs)"
  by pat_completeness auto
termination by (relation "measure (\<lambda>(ptrs, n, indx, ptr, sz, i, j). n - i)") auto

declare del_ptrs.simps [simp del]

text \<open>\<open>memmove(base + d, base, len)\<close> on the nodes of a page.\<close>

definition move_nodes_up :: "(nat \<Rightarrow> MDB_node option) \<Rightarrow> nat \<Rightarrow> nat \<Rightarrow> nat \<Rightarrow> (nat \<Rightarrow> MDB_node option)" where
  "move_nodes_up nodes base len d =
     (\<lambda>o'. if base + d \<le> o' \<and> o' < base + d + len then nodes (o' - d) else nodes o')"

definition move_nodes_down :: "(nat \<Rightarrow> MDB_node option) \<Rightarrow> nat \<Rightarrow> nat \<Rightarrow> nat \<Rightarrow> (nat \<Rightarrow> MDB_node option)" where
  "move_nodes_down nodes base len d =
     (\<lambda>o'. if base - d \<le> o' \<and> o' < base - d + len then nodes (o' + d) else nodes o')"

definition mdb_node_del :: "MDB_page \<Rightarrow> nat \<Rightarrow> nat \<Rightarrow> MDB_page option" where
  "mdb_node_del mp indx ksize = do {
     let numkeys = NUMKEYS mp;
     mdb_cassert (indx < numkeys);
     if IS_LEAF2 mp then
       (let x = numkeys - 1 - indx; base = indx * ksize;
            keys = (if x \<noteq> 0
                    then take base (mp_data mp) @ take (x * ksize) (drop (base + ksize) (mp_data mp)) @
                         drop (base + x * ksize) (mp_data mp)
                    else mp_data mp)
        in Some (mp\<lparr>mp_data := keys, mp_lower := mp_lower mp - sizeof_indx_t,
                    mp_upper := u16 (mp_upper mp + ksize - sizeof_indx_t)\<rparr>))
     else do {
       nd \<leftarrow> NODEPTR mp indx;
       let sz = node_space mp nd;
       let ptr = mp_ptrs mp indx;
       let ptrs = del_ptrs (mp_ptrs mp) numkeys indx ptr sz 0 0;
       let base = mp_upper mp + PAGEBASE;
       Some (mp\<lparr>mp_ptrs := ptrs,
                mp_nodes := move_nodes_up (mp_nodes mp) base (ptr - mp_upper mp) sz,
                mp_lower := mp_lower mp - sizeof_indx_t,
                mp_upper := u16 (mp_upper mp + sz)\<rparr>) } }"

section \<open>Replacing the key of a branch node\<close>

text \<open>\<open>for (i = 0; i < numkeys; i++) if (mp->mp_ptrs[i] <= ptr) mp->mp_ptrs[i] -= delta;\<close>\<close>

definition adjust_ptrs :: "(nat \<Rightarrow> nat) \<Rightarrow> nat \<Rightarrow> nat \<Rightarrow> int \<Rightarrow> (nat \<Rightarrow> nat)" where
  "adjust_ptrs ptrs numkeys ptr delta =
     (\<lambda>i. if i < numkeys \<and> ptrs i \<le> ptr then u16 (nat (int (ptrs i) - delta)) else ptrs i)"

text \<open>Make room for a key that is \<open>delta\<close> bytes longer (\<open>if (delta) ...\<close>).\<close>

definition resize_node :: "MDB_page \<Rightarrow> nat \<Rightarrow> int \<Rightarrow> MDB_page" where
  "resize_node mp ptr delta =
     (if delta \<noteq> 0 then
        let base = mp_upper mp + PAGEBASE; len = ptr - mp_upper mp + NODESIZE in
        mp\<lparr>mp_ptrs := adjust_ptrs (mp_ptrs mp) (NUMKEYS mp) ptr delta,
           mp_nodes := (if delta > 0 then move_nodes_down (mp_nodes mp) base len (nat delta)
                        else move_nodes_up (mp_nodes mp) base len (nat (- delta))),
           mp_upper := u16 (nat (int (mp_upper mp) - delta))\<rparr>
      else mp)"

text \<open>
  The part of \<open>mdb_update_key\<close> that works on the page; the first result says that the key does not
  fit (\<open>delta > 0 && SIZELEFT(mp) < delta\<close>), and then the page is unchanged.  The key is replaced
  on branch pages, whose nodes hold nothing after the key.
\<close>

definition update_key_page :: "MDB_page \<Rightarrow> nat \<Rightarrow> byte list \<Rightarrow> (bool \<times> MDB_page) option" where
  "update_key_page mp indx key = do {
     nd \<leftarrow> NODEPTR mp indx;
     mdb_cassert (\<not> IS_LEAF mp);
     let ptr = mp_ptrs mp indx;
     let ksize = EVEN (length key);
     let oksize = EVEN (mn_ksize nd);
     let delta = int ksize - int oksize;
     if delta > 0 \<and> int (SIZELEFT mp) < delta then Some (True, mp)
     else do {
       let mp = resize_node mp ptr delta;
       nd \<leftarrow> NODEPTR mp indx;
       Some (False, mp\<lparr>mp_nodes := (mp_nodes mp)(mp_ptrs mp indx + PAGEBASE :=
               Some (nd\<lparr>mn_ksize := u16 (length key), mn_data := key\<rparr>))\<rparr>) } }"

section \<open>Copying a page\<close>

text \<open>
  \<open>mp_lower\<close> and \<open>mp_upper\<close> as the code reads them from any page: on an overflow page they are
  the two halves of \<open>mp_pages\<close>.
\<close>

definition pb_lower :: "MDB_page \<Rightarrow> nat" where
  "pb_lower p = (if IS_OVERFLOW p then mp_pages p mod 65536 else mp_lower p)"

definition pb_upper :: "MDB_page \<Rightarrow> nat" where
  "pb_upper p = (if IS_OVERFLOW p then mp_pages p div 65536 else mp_upper p)"

text \<open>
  \<open>memcpy((char *)dst + a, (char *)src + a, b - a)\<close>: the parts of the page that lie within the
  range are copied.
\<close>

definition copy_range :: "MDB_page \<Rightarrow> MDB_page \<Rightarrow> nat \<Rightarrow> nat \<Rightarrow> MDB_page" where
  "copy_range dst src a b =
     (let hd = (if a = 0 \<and> 8 \<le> b then dst\<lparr>mp_pgno := mp_pgno src\<rparr> else dst);
          hd = (if a \<le> 8 \<and> PAGEHDRSZ \<le> b
                then hd\<lparr>mp_pad := mp_pad src, mp_flags := mp_flags src, mp_lower := mp_lower src,
                        mp_upper := mp_upper src, mp_pages := mp_pages src\<rparr> else hd)
      in hd\<lparr>mp_ptrs := (\<lambda>i. if a \<le> PAGEHDRSZ + 2 * i \<and> PAGEHDRSZ + 2 * i + 2 \<le> b
                             then mp_ptrs src i else mp_ptrs dst i),
            mp_nodes := (\<lambda>o'. if a \<le> o' \<and> o' < b then mp_nodes src o' else mp_nodes dst o'),
            mp_data := (if IS_OVERFLOW src \<or> IS_LEAF2 src then
                          if a \<le> PAGEHDRSZ then take (b - PAGEHDRSZ) (mp_data src) @
                            drop (b - PAGEHDRSZ) (mp_data dst)
                          else mp_data dst
                        else mp_data dst)\<rparr>)"

definition mdb_page_copy :: "MDB_page \<Rightarrow> MDB_page \<Rightarrow> nat \<Rightarrow> MDB_page" where
  "mdb_page_copy dst src psize =
     (let upper = pb_upper src; lower = pb_lower src;
          unused = u16 (upper + 65536 - lower) div 8 * 8
      in if unused \<noteq> 0 \<and> \<not> IS_LEAF2 src then
           let upper = (upper + PAGEBASE) div 8 * 8;
               dst = copy_range dst src 0 ((lower + PAGEBASE + 7) div 8 * 8)
           in copy_range dst src upper psize
         else copy_range dst src 0 (psize - unused))"

section \<open>The loops on the pointer array\<close>

lemma NUMKEYS_eq: "NUMKEYS p = (mp_lower p - 16) div 2"
  by (simp add: NUMKEYS_def PAGEHDRSZ_def PAGEBASE_def drop_bit_eq_div)

lemma shift_ptrs_up_eq:
  "shift_ptrs_up ptrs indx n = (\<lambda>k. if indx < k \<and> k \<le> n then ptrs (k - 1) else ptrs k)"
proof (induction n arbitrary: ptrs)
  case (Suc n)
  show ?case by (simp only: shift_ptrs_up.simps Suc.IH) (auto simp: fun_eq_iff)
qed auto

definition del_ptr :: "nat \<Rightarrow> nat \<Rightarrow> nat \<Rightarrow> nat" where
  "del_ptr ptr sz x = (if x < ptr then u16 (x + sz) else x)"

lemma del_ptrs_step:
  "i < n \<Longrightarrow> i \<noteq> indx \<Longrightarrow> j \<le> i \<Longrightarrow>
   del_ptrs ptrs n indx ptr sz i j = del_ptrs (ptrs(j := del_ptr ptr sz (ptrs i))) n indx ptr sz (i + 1) (j + 1)"
  by (subst del_ptrs.simps) (auto simp: Let_def del_ptr_def)

lemma del_ptrs_after:
  "indx < i \<Longrightarrow> j \<le> i \<Longrightarrow> del_ptrs ptrs n indx ptr sz i j =
     (\<lambda>k. if j \<le> k \<and> k < j + (n - i) then del_ptr ptr sz (ptrs (i + k - j)) else ptrs k)"
proof (induction "n - i" arbitrary: ptrs i j)
  case 0
  then show ?case by (subst del_ptrs.simps) auto
next
  case (Suc m)
  then have i: "i < n" "i \<noteq> indx" by auto
  let ?p = "ptrs(j := del_ptr ptr sz (ptrs i))"
  have "del_ptrs ?p n indx ptr sz (i + 1) (j + 1) =
      (\<lambda>k. if j + 1 \<le> k \<and> k < j + 1 + (n - (i + 1)) then del_ptr ptr sz (?p (i + 1 + k - (j + 1))) else ?p k)"
    using Suc.hyps Suc.prems by (intro Suc.hyps(1)) auto
  also have "\<dots> = (\<lambda>k. if j \<le> k \<and> k < j + (n - i) then del_ptr ptr sz (ptrs (i + k - j)) else ptrs k)"
    using Suc.prems i by (auto simp: fun_eq_iff)
  finally show ?case using del_ptrs_step [OF i Suc.prems(2)] by simp
qed

lemma del_ptrs_before:
  "i \<le> indx \<Longrightarrow> indx < n \<Longrightarrow> del_ptrs ptrs n indx ptr sz i i =
     (\<lambda>k. if i \<le> k \<and> k < indx then del_ptr ptr sz (ptrs k)
          else if indx \<le> k \<and> k < n - 1 then del_ptr ptr sz (ptrs (k + 1)) else ptrs k)"
proof (induction "indx - i" arbitrary: ptrs i)
  case 0
  then have "i = indx" by simp
  then have "del_ptrs ptrs n indx ptr sz i i = del_ptrs ptrs n indx ptr sz (indx + 1) indx"
    using 0 by (subst del_ptrs.simps) auto
  then show ?case using 0 \<open>i = indx\<close> by (auto simp: del_ptrs_after fun_eq_iff)
next
  case (Suc m)
  let ?p = "ptrs(i := del_ptr ptr sz (ptrs i))"
  have "del_ptrs ptrs n indx ptr sz i i = del_ptrs ?p n indx ptr sz (i + 1) (i + 1)"
    using Suc by (intro del_ptrs_step) auto
  also have "\<dots> = (\<lambda>k. if i + 1 \<le> k \<and> k < indx then del_ptr ptr sz (?p k)
          else if indx \<le> k \<and> k < n - 1 then del_ptr ptr sz (?p (k + 1)) else ?p k)"
    using Suc by (intro Suc.hyps(1)) auto
  finally show ?case using Suc by (auto simp: fun_eq_iff)
qed

section \<open>Well-formed pages\<close>

definition node_ok :: "MDB_page \<Rightarrow> MDB_node \<Rightarrow> bool" where
  "node_ok mp nd \<longleftrightarrow> length (mn_data nd) = mn_ksize nd +
     (if IS_LEAF mp then if node_isset nd F_BIGDATA then sizeof_pgno_t else NODEDSZ nd else 0)"

definition page_items :: "MDB_page \<Rightarrow> MDB_node list" where
  "page_items mp = map (\<lambda>i. the (NODEPTR mp i)) [0..<NUMKEYS mp]"

definition item_space :: "MDB_page \<Rightarrow> nat \<Rightarrow> nat" where
  "item_space mp i = node_space mp (the (NODEPTR mp i))"

definition page_ok :: "nat \<Rightarrow> MDB_page \<Rightarrow> bool" where
  "page_ok psize mp \<longleftrightarrow>
     psize \<le> MAX_PAGESIZE \<and> \<not> IS_LEAF2 mp \<and> even (mp_lower mp) \<and> PAGEHDRSZ \<le> mp_lower mp \<and>
     mp_lower mp \<le> mp_upper mp \<and> mp_upper mp \<le> psize \<and>
     (\<forall>i < NUMKEYS mp. \<exists>nd. NODEPTR mp i = Some nd \<and> node_ok mp nd) \<and>
     (\<forall>i < NUMKEYS mp. mp_upper mp \<le> mp_ptrs mp i \<and> mp_ptrs mp i + item_space mp i \<le> psize) \<and>
     (\<forall>i < NUMKEYS mp. \<forall>j < NUMKEYS mp. i \<noteq> j \<longrightarrow>
        mp_ptrs mp i + item_space mp i \<le> mp_ptrs mp j \<or> mp_ptrs mp j + item_space mp j \<le> mp_ptrs mp i) \<and>
     sum_list (map (node_space mp) (page_items mp)) + mp_upper mp = psize"

lemma length_page_items [simp]: "length (page_items mp) = NUMKEYS mp"
  by (simp add: page_items_def)

lemma page_items_nth: "i < NUMKEYS mp \<Longrightarrow> page_items mp ! i = the (NODEPTR mp i)"
  by (simp add: page_items_def)

lemma page_okD:
  assumes "page_ok psize mp"
  shows "psize \<le> 32768" "\<not> IS_LEAF2 mp" "even (mp_lower mp)" "16 \<le> mp_lower mp"
    "mp_lower mp \<le> mp_upper mp" "mp_upper mp \<le> psize"
    "i < NUMKEYS mp \<Longrightarrow> NODEPTR mp i = Some (page_items mp ! i)"
    "i < NUMKEYS mp \<Longrightarrow> node_ok mp (page_items mp ! i)"
    "i < NUMKEYS mp \<Longrightarrow> mp_upper mp \<le> mp_ptrs mp i"
    "i < NUMKEYS mp \<Longrightarrow> mp_ptrs mp i + node_space mp (page_items mp ! i) \<le> psize"
    "i < NUMKEYS mp \<Longrightarrow> j < NUMKEYS mp \<Longrightarrow> i \<noteq> j \<Longrightarrow>
       mp_ptrs mp i + node_space mp (page_items mp ! i) \<le> mp_ptrs mp j \<or>
       mp_ptrs mp j + node_space mp (page_items mp ! j) \<le> mp_ptrs mp i"
    "sum_list (map (node_space mp) (page_items mp)) + mp_upper mp = psize"
  using assms by (auto simp: page_ok_def MAX_PAGESIZE_def PAGEHDRSZ_def item_space_def page_items_nth)

lemma node_space_pos: "8 \<le> node_space mp nd"
  using EVEN_ge [of "NODESIZE + mn_ksize nd +
     (if IS_LEAF mp then if node_isset nd F_BIGDATA then sizeof_pgno_t else NODEDSZ nd else 0)"]
  by (simp add: node_space_def NODESIZE_def)

lemma node_space_cong: "mp_flags mp' = mp_flags mp \<Longrightarrow> node_space mp' = node_space mp"
  and node_ok_cong: "mp_flags mp' = mp_flags mp \<Longrightarrow> node_ok mp' = node_ok mp"
  and IS_LEAF_cong: "mp_flags mp' = mp_flags mp \<Longrightarrow> IS_LEAF mp' = IS_LEAF mp"
  and IS_LEAF2_cong: "mp_flags mp' = mp_flags mp \<Longrightarrow> IS_LEAF2 mp' = IS_LEAF2 mp"
  and IS_BRANCH_cong: "mp_flags mp' = mp_flags mp \<Longrightarrow> IS_BRANCH mp' = IS_BRANCH mp"
  by (auto simp: node_space_def node_ok_def IS_LEAF_def IS_LEAF2_def IS_BRANCH_def fun_eq_iff)

text \<open>How to show a page well formed from its list of nodes.\<close>

lemma page_okI:
  assumes "psize \<le> 32768" "\<not> IS_LEAF2 mp" "even (mp_lower mp)"
    "mp_lower mp = 16 + 2 * length its" "mp_lower mp \<le> mp_upper mp" "mp_upper mp \<le> psize"
    and "\<And>i. i < length its \<Longrightarrow> NODEPTR mp i = Some (its ! i)"
    and "\<And>i. i < length its \<Longrightarrow> node_ok mp (its ! i)"
    and "\<And>i. i < length its \<Longrightarrow> mp_upper mp \<le> mp_ptrs mp i"
    and "\<And>i. i < length its \<Longrightarrow> mp_ptrs mp i + node_space mp (its ! i) \<le> psize"
    and "\<And>i j. i < length its \<Longrightarrow> j < length its \<Longrightarrow> i < j \<Longrightarrow>
       mp_ptrs mp i + node_space mp (its ! i) \<le> mp_ptrs mp j \<or>
       mp_ptrs mp j + node_space mp (its ! j) \<le> mp_ptrs mp i"
    and "sum_list (map (node_space mp) its) + mp_upper mp = psize"
  shows "page_ok psize mp \<and> page_items mp = its"
proof -
  have n: "NUMKEYS mp = length its" using assms(4) by (simp add: NUMKEYS_eq)
  have its: "page_items mp = its"
    using assms(7) by (intro nth_equalityI) (auto simp: n page_items_nth)
  have sp: "item_space mp i = node_space mp (its ! i)" if "i < length its" for i
    using assms(7) [OF that] by (simp add: item_space_def)
  have dis: "mp_ptrs mp i + node_space mp (its ! i) \<le> mp_ptrs mp j \<or>
       mp_ptrs mp j + node_space mp (its ! j) \<le> mp_ptrs mp i"
    if "i < length its" "j < length its" "i \<noteq> j" for i j
    using that assms(11) [of i j] assms(11) [of j i] by (meson linorder_neqE_nat)
  have "page_ok psize mp"
    unfolding page_ok_def n its using assms(1-6,12)
    by (simp add: MAX_PAGESIZE_def PAGEHDRSZ_def assms(7-10) sp dis)
  with its show ?thesis by simp
qed

lemma sum_list_insert_at: "i \<le> length xs \<Longrightarrow> sum_list (insert_at i (x :: nat) xs) = x + sum_list xs"
  by (metis mset_insert_at sum_mset.add_mset sum_mset_sum_list)

lemma insert_remove_at: "i < length xs \<Longrightarrow> insert_at i (xs ! i) (remove_at i xs) = xs"
  by (rule nth_equalityI) (auto simp: nth_insert_at nth_remove_at)

lemma sum_list_remove_at: "i < length xs \<Longrightarrow> sum_list (remove_at i xs) + xs ! i = sum_list (xs :: nat list)"
  using sum_list_insert_at [of i "remove_at i xs" "xs ! i"] by (simp add: insert_remove_at)

lemma page_lower: "page_ok psize mp \<Longrightarrow> mp_lower mp = 16 + 2 * NUMKEYS mp"
  using page_okD(3,4) [of psize mp] by (auto simp: NUMKEYS_eq elim!: evenE)

lemma u16_diff: "a \<le> b \<Longrightarrow> b < 65536 + a \<Longrightarrow> u16 (b + 65536 - a) = b - a"
proof -
  assume a: "a \<le> b" "b < 65536 + a"
  then have e: "b + 65536 - a = (b - a) + 65536" by simp
  have "b - a < 65536" using a by simp
  then show ?thesis unfolding e u16_def by (simp only: mod_add_self2 mod_less)
qed

lemma page_room: "page_ok psize mp \<Longrightarrow> node_room mp = int (mp_upper mp) - int (mp_lower mp) - 2"
  using page_okD(1,5,6) [of psize mp]
  by (simp add: node_room_def SIZELEFT_def u16_diff sizeof_indx_t_def)

lemma page_SIZELEFT: "page_ok psize mp \<Longrightarrow> SIZELEFT mp = mp_upper mp - mp_lower mp"
  using page_okD(1,5,6) [of psize mp] by (simp add: SIZELEFT_def u16_diff)

section \<open>Adding and deleting\<close>

lemma node_insert_ok:
  assumes ok: "page_ok psize mp" and i: "indx \<le> NUMKEYS mp" and nd: "node_ok mp nd"
    and fits: "int (node_space mp nd) \<le> node_room mp"
  shows "\<exists>mp'. node_insert mp indx (node_space mp nd) nd = Some mp' \<and> page_ok psize mp' \<and>
     page_items mp' = insert_at indx nd (page_items mp) \<and> mp_flags mp' = mp_flags mp \<and>
     mp_pgno mp' = mp_pgno mp \<and> mp_upper mp' = mp_upper mp - node_space mp nd"
proof -
  define s ofs where "s = node_space mp nd" and "ofs = mp_upper mp - s"
  note okD = page_okD [OF ok]
  note lower = page_lower [OF ok]
  have s: "ofs + s = mp_upper mp" "mp_lower mp + 2 \<le> ofs" "8 \<le> s" "ofs < 65536"
    using fits page_room [OF ok] okD(1,5,6) node_space_pos [of mp nd] by (auto simp: ofs_def s_def)
  have u: "u16 (mp_upper mp + 65536 - s) = ofs"
    using s okD(1,6) by (subst u16_diff) (auto simp: ofs_def)
  define mp' where "mp' = mp\<lparr>mp_ptrs := (shift_ptrs_up (mp_ptrs mp) indx (NUMKEYS mp))(indx := ofs),
      mp_upper := ofs, mp_lower := mp_lower mp + 2, mp_nodes := (mp_nodes mp)(ofs := Some nd)\<rparr>"
  have run: "node_insert mp indx s nd = Some mp'"
    using s okD(1,5,6) by (simp add: node_insert_def u mp'_def sizeof_indx_t_def PAGEBASE_def)
  have fl: "mp_flags mp' = mp_flags mp" and up: "mp_upper mp' = ofs" by (simp_all add: mp'_def)
  note cong = node_space_cong [OF fl] node_ok_cong [OF fl]
  have leaf2: "\<not> IS_LEAF2 mp'" using okD(2) IS_LEAF2_cong [OF fl] by simp
  define src where "src k = (if k < indx then k else k - 1)" for k
  have src: "src k < NUMKEYS mp" if "k \<noteq> indx" "k \<le> NUMKEYS mp" for k
    using that i by (auto simp: src_def)
  have ptr: "mp_ptrs mp' k = (if k = indx then ofs else mp_ptrs mp (src k))" if "k \<le> NUMKEYS mp" for k
    using that i by (auto simp: mp'_def shift_ptrs_up_eq src_def)
  have it: "insert_at indx nd (page_items mp) ! k = (if k = indx then nd else page_items mp ! src k)"
    if "k \<le> NUMKEYS mp" for k
    using that i by (simp add: nth_insert_at src_def)
  have far: "mp_ptrs mp (src k) \<ge> ofs + s" if "k \<noteq> indx" "k \<le> NUMKEYS mp" for k
    using okD(9) [OF src [OF that]] s by simp
  have "page_ok psize mp' \<and> page_items mp' = insert_at indx nd (page_items mp)"
  proof (rule page_okI)
    fix k assume "k < length (insert_at indx nd (page_items mp))"
    then have k: "k \<le> NUMKEYS mp" by simp
    show "NODEPTR mp' k = Some (insert_at indx nd (page_items mp) ! k)"
    proof (cases "k = indx")
      case False
      have "NODEPTR mp' k = NODEPTR mp (src k)"
        using ptr [OF k] far [OF False k] False s by (simp add: NODEPTR_def PAGEBASE_def) (simp add: mp'_def)
      then show ?thesis using okD(7) [OF src [OF False k]] it [OF k] False by simp
    qed (use ptr [OF k] it [OF k] in \<open>simp add: NODEPTR_def PAGEBASE_def mp'_def\<close>)
    show "node_ok mp' (insert_at indx nd (page_items mp) ! k)"
      using it [OF k] nd okD(8) [OF src [OF _ k]] by (auto simp: cong)
    show "mp_upper mp' \<le> mp_ptrs mp' k"
      using ptr [OF k] far [OF _ k] by (auto simp: mp'_def)
    show "mp_ptrs mp' k + node_space mp' (insert_at indx nd (page_items mp) ! k) \<le> psize"
      using ptr [OF k] it [OF k] okD(6) okD(10) [OF src [OF _ k]] s by (auto simp: cong s_def [symmetric])
    fix l assume l: "l < length (insert_at indx nd (page_items mp))" and kl: "k < l"
    then have l: "l \<le> NUMKEYS mp" by simp
    show "mp_ptrs mp' k + node_space mp' (insert_at indx nd (page_items mp) ! k) \<le> mp_ptrs mp' l \<or>
        mp_ptrs mp' l + node_space mp' (insert_at indx nd (page_items mp) ! l) \<le> mp_ptrs mp' k"
    proof (cases "k = indx \<or> l = indx")
      case False
      then have "src k \<noteq> src l" using kl by (auto simp: src_def)
      then show ?thesis
        using okD(11) [OF src src] False k l ptr it by (simp add: cong)
    next
      case True
      then show ?thesis using kl ptr [OF k] ptr [OF l] it [OF k] it [OF l] far [OF _ k] far [OF _ l]
        by (auto simp: cong s_def)
    qed
  next
    show "sum_list (map (node_space mp') (insert_at indx nd (page_items mp))) + mp_upper mp' = psize"
      using okD(12) s i up by (simp add: cong map_insert_at sum_list_insert_at s_def [symmetric])
  qed (use okD(1,3,5,6) s lower leaf2 in \<open>auto simp: mp'_def\<close>)
  then show ?thesis
    using run fl by (auto simp: s_def [symmetric] mp'_def ofs_def)
qed

lemma node_del_ok:
  assumes ok: "page_ok psize mp" and i: "indx < NUMKEYS mp"
  shows "\<exists>mp'. mdb_node_del mp indx ksize = Some mp' \<and> page_ok psize mp' \<and>
     page_items mp' = remove_at indx (page_items mp) \<and> mp_flags mp' = mp_flags mp \<and>
     mp_pgno mp' = mp_pgno mp \<and> mp_upper mp' = mp_upper mp + node_space mp (page_items mp ! indx)"
proof -
  note okD = page_okD [OF ok]
  note lower = page_lower [OF ok]
  define nd s ptr where "nd = page_items mp ! indx" and "s = node_space mp nd" and "ptr = mp_ptrs mp indx"
  define mp' where "mp' = mp\<lparr>mp_ptrs := del_ptrs (mp_ptrs mp) (NUMKEYS mp) indx ptr s 0 0,
      mp_nodes := move_nodes_up (mp_nodes mp) (mp_upper mp) (ptr - mp_upper mp) s,
      mp_lower := mp_lower mp - 2, mp_upper := mp_upper mp + s\<rparr>"
  have top: "mp_upper mp \<le> ptr" "ptr + s \<le> psize"
    using okD(9,10) [OF i] by (auto simp: ptr_def s_def nd_def)
  have run: "mdb_node_del mp indx ksize = Some mp'"
    using okD(7) [OF i] okD(1,2) top i
    by (simp add: mdb_node_del_def Let_def mp'_def nd_def s_def ptr_def sizeof_indx_t_def PAGEBASE_def)
  have fl: "mp_flags mp' = mp_flags mp" and up: "mp_upper mp' = mp_upper mp + s" by (simp_all add: mp'_def)
  note cong = node_space_cong [OF fl] node_ok_cong [OF fl]
  have leaf2: "\<not> IS_LEAF2 mp'" using okD(2) IS_LEAF2_cong [OF fl] by simp
  define src where "src k = (if k < indx then k else k + 1)" for k
  have src: "src k < NUMKEYS mp" "src k \<noteq> indx" if "k < NUMKEYS mp - 1" for k
    using that i by (auto simp: src_def)
  have it: "remove_at indx (page_items mp) ! k = page_items mp ! src k" if "k < NUMKEYS mp - 1" for k
    using that i by (simp add: nth_remove_at src_def)
  have cut: "(mp_ptrs mp (src k) < ptr \<and> mp_ptrs mp (src k) + node_space mp (page_items mp ! src k) \<le> ptr)
      \<or> (ptr + s \<le> mp_ptrs mp (src k))" if "k < NUMKEYS mp - 1" for k
    using okD(11) [OF src(1) [OF that] i src(2) [OF that]] node_space_pos [of mp "page_items mp ! src k"]
    by (auto simp: ptr_def s_def nd_def)
  have ptr': "mp_ptrs mp' k = (if mp_ptrs mp (src k) < ptr then mp_ptrs mp (src k) + s else mp_ptrs mp (src k))"
    if "k < NUMKEYS mp - 1" for k
    using that i top okD(1) by (auto simp: mp'_def del_ptrs_before src_def del_ptr_def)
  have len: "length (remove_at indx (page_items mp)) = NUMKEYS mp - 1" using i by simp
  have "page_ok psize mp' \<and> page_items mp' = remove_at indx (page_items mp)"
  proof (rule page_okI)
    fix k assume "k < length (remove_at indx (page_items mp))"
    then have k: "k < NUMKEYS mp - 1" by (simp add: len)
    note ptrk = ptr' [OF k] and cutk = cut [OF k] and srck = src [OF k] and itk = it [OF k]
    have "NODEPTR mp' k = NODEPTR mp (src k)"
      using ptrk cutk okD(9) [OF srck(1)]
      by (auto simp: NODEPTR_def PAGEBASE_def) (auto simp: mp'_def move_nodes_up_def)
    then show "NODEPTR mp' k = Some (remove_at indx (page_items mp) ! k)"
      using okD(7) [OF srck(1)] itk by simp
    show "node_ok mp' (remove_at indx (page_items mp) ! k)"
      using okD(8) [OF srck(1)] itk by (simp add: cong)
    show "mp_upper mp' \<le> mp_ptrs mp' k"
      using ptrk cutk okD(9) [OF srck(1)] top by (auto simp: mp'_def)
    show "mp_ptrs mp' k + node_space mp' (remove_at indx (page_items mp) ! k) \<le> psize"
      using ptrk cutk itk okD(10) [OF srck(1)] top by (auto simp: cong)
    fix l assume "l < length (remove_at indx (page_items mp))" and kl: "k < l"
    then have l: "l < NUMKEYS mp - 1" by (simp add: len)
    have "src k \<noteq> src l" using kl by (auto simp: src_def)
    then show "mp_ptrs mp' k + node_space mp' (remove_at indx (page_items mp) ! k) \<le> mp_ptrs mp' l \<or>
        mp_ptrs mp' l + node_space mp' (remove_at indx (page_items mp) ! l) \<le> mp_ptrs mp' k"
      using okD(11) [OF srck(1) src(1) [OF l]] ptrk ptr' [OF l] cutk cut [OF l] itk it [OF l]
      by (auto simp: cong)
  next
    show "sum_list (map (node_space mp') (remove_at indx (page_items mp))) + mp_upper mp' = psize"
      using okD(12) i sum_list_remove_at [of indx "map (node_space mp) (page_items mp)"]
      by (simp add: up cong map_remove_at) (simp add: s_def nd_def)
  qed (use okD(1,3,5) top lower i leaf2 in \<open>auto simp: mp'_def\<close>)
  then show ?thesis
    using run fl by (auto simp: mp'_def s_def nd_def)
qed
section \<open>Node fields\<close>

lemma word16_bits: "bit (ucast (w :: 16 word) :: 64 word) n \<longleftrightarrow> n < 16 \<and> bit w n"
  by (auto simp: bit_simps dest: bit_imp_le_length)

lemma ffff_mask: "(0xffff :: 64 word) = mask 16" "(0xffff :: nat) = mask 16"
  by (simp_all add: mask_eq_exp_minus_1)

lemma NODEPGNO_SETPGNO: "NODEPGNO (SETPGNO nd pg) = pg AND mask 48"
proof (rule bit_eqI)
  fix n :: nat
  have "n < 16 \<or> 16 \<le> n \<and> n < 32 \<or> 32 \<le> n" by linarith
  then show "bit (NODEPGNO (SETPGNO nd pg)) n \<longleftrightarrow> bit (pg AND mask 48) n"
    by (auto simp: NODEPGNO_def SETPGNO_def PGNO_TOPWORD_def ffff_mask bit_simps word16_bits)
qed

lemma NODEPGNO_SETPGNO_id: "unat pg < 2 ^ 48 \<Longrightarrow> NODEPGNO (SETPGNO nd pg) = pg"
  by (simp add: NODEPGNO_SETPGNO flip: take_bit_eq_mask)
    (simp add: word_unat_eq_iff unsigned_take_bit_eq take_bit_nat_eq_self)

lemma SETPGNO_simps [simp]: "mn_ksize (SETPGNO nd pg) = mn_ksize nd" "mn_data (SETPGNO nd pg) = mn_data nd"
  by (simp_all add: SETPGNO_def)

lemma SETDSZ_simps [simp]: "mn_ksize (SETDSZ nd n) = mn_ksize nd" "mn_data (SETDSZ nd n) = mn_data nd"
  "mn_flags (SETDSZ nd n) = mn_flags nd"
  by (simp_all add: SETDSZ_def)

lemma NODEDSZ_SETDSZ [simp]: "n < 2 ^ 32 \<Longrightarrow> NODEDSZ (SETDSZ nd n) = n"
proof -
  assume n: "n < 2 ^ 32"
  have "(ucast (of_nat (and n 0xffff) :: 16 word) :: 32 word) OR
      push_bit 16 (ucast (of_nat (drop_bit 16 n) :: 16 word)) = of_nat n"
  proof (rule bit_eqI)
    fix k :: nat
    have "k < 16 \<or> 16 \<le> k" by linarith
    then show "bit ((ucast (of_nat (and n 0xffff) :: 16 word) :: 32 word) OR
      push_bit 16 (ucast (of_nat (drop_bit 16 n) :: 16 word))) k \<longleftrightarrow> bit (of_nat n :: 32 word) k"
      by (auto simp: bit_simps ffff_mask)
  qed
  moreover have "unat (of_nat n :: 32 word) = n" using n by (simp add: unat_of_nat take_bit_nat_eq_self)
  ultimately show ?thesis by (simp add: NODEDSZ_def SETDSZ_def)
qed

section \<open>Replacing a key\<close>

lemma EVEN_add8: "EVEN (8 + n) = 8 + EVEN n"
  unfolding EVEN_def by presburger

lemma node_space_branch: "\<not> IS_LEAF mp \<Longrightarrow> node_space mp nd = 8 + EVEN (mn_ksize nd)"
  by (simp add: node_space_def NODESIZE_def EVEN_add8)

lemma update_key_ok:
  assumes ok: "page_ok psize mp" and i: "indx < NUMKEYS mp" and br: "\<not> IS_LEAF mp"
    and len: "length key < 65536"
    and fits: "int (EVEN (length key)) - int (EVEN (mn_ksize (page_items mp ! indx))) \<le> int (SIZELEFT mp)"
  shows "\<exists>mp'. update_key_page mp indx key = Some (False, mp') \<and> page_ok psize mp' \<and>
     page_items mp' = (page_items mp)[indx := (page_items mp ! indx)\<lparr>mn_ksize := length key, mn_data := key\<rparr>] \<and>
     mp_flags mp' = mp_flags mp \<and> mp_pgno mp' = mp_pgno mp"
proof -
  note okD = page_okD [OF ok]
  note lower = page_lower [OF ok]
  define nd ptr where "nd = page_items mp ! indx" and "ptr = mp_ptrs mp indx"
  define nk ok' where "nk = EVEN (length key)" and "ok' = EVEN (mn_ksize nd)"
  define nd' where "nd' = nd\<lparr>mn_ksize := length key, mn_data := key\<rparr>"
  define delta where "delta = int nk - int ok'"
  have sp: "node_space mp nd = 8 + ok'" and sp': "node_space mp nd' = 8 + nk"
    using br by (simp_all add: node_space_branch nk_def ok'_def nd'_def)
  have top: "mp_upper mp \<le> ptr" "ptr + 8 + ok' \<le> psize"
    using okD(9,10) [OF i] sp by (auto simp: ptr_def nd_def)
  have left: "delta \<le> int (mp_upper mp) - int (mp_lower mp)"
    using fits page_SIZELEFT [OF ok] okD(5) by (simp add: delta_def nk_def ok'_def nd_def of_nat_diff)
  define up where "up = nat (int (mp_upper mp) - delta)"
  have up: "int up = int (mp_upper mp) - delta" "mp_lower mp \<le> up" "up \<le> psize"
    using left okD(1,5,6) top by (auto simp: up_def delta_def)
  define mv where "mv x = nat (int x - delta)" for x
  define nodes1 where "nodes1 = (if delta > 0 then move_nodes_down (mp_nodes mp) (mp_upper mp) (ptr - mp_upper mp + 8) (nat delta)
      else move_nodes_up (mp_nodes mp) (mp_upper mp) (ptr - mp_upper mp + 8) (nat (- delta)))"
  define mp1 where "mp1 = mp\<lparr>mp_ptrs := adjust_ptrs (mp_ptrs mp) (NUMKEYS mp) ptr delta,
      mp_nodes := nodes1, mp_upper := up\<rparr>"
  define mp' where "mp' = mp1\<lparr>mp_nodes := nodes1(mv ptr := Some nd')\<rparr>"
  have mvle: "int (mv x) = int x - delta" if "mp_upper mp \<le> x" for x
    using that left okD(4,5) by (simp add: mv_def)
  have nodes: "nodes1 (mv x) = mp_nodes mp x" if "mp_upper mp \<le> x" "x \<le> ptr" for x
    using that mvle [OF that(1)] top(1) left by (auto simp: nodes1_def move_nodes_down_def move_nodes_up_def)
      (use that in \<open>auto intro!: arg_cong [where f = "mp_nodes mp"]\<close>)
  have nodes': "nodes1 x = mp_nodes mp x" if "ptr + 8 + ok' \<le> x" for x
    using that top(1) left by (auto simp: nodes1_def move_nodes_down_def move_nodes_up_def delta_def)
  have ptrs: "mp_ptrs mp1 k = (if mp_ptrs mp k \<le> ptr then mv (mp_ptrs mp k) else mp_ptrs mp k)"
    if "k < NUMKEYS mp" for k
  proof -
    have "mp_ptrs mp k \<le> ptr \<Longrightarrow> mv (mp_ptrs mp k) < 65536"
      using mvle [OF okD(9) [OF that]] top okD(1) by (simp add: delta_def)
    then show ?thesis using that by (auto simp: mp1_def adjust_ptrs_def mv_def)
  qed
  have run: "update_key_page mp indx key = Some (False, mp')"
  proof -
    have n1: "NODEPTR mp1 indx = Some nd"
      using ptrs [OF i] okD(7) [OF i] nodes [OF top(1)] top(1)
      by (simp add: NODEPTR_def PAGEBASE_def ptr_def nd_def mp1_def)
    have e: "mp1 = mp" if "delta = 0"
    proof -
      have "adjust_ptrs (mp_ptrs mp) (NUMKEYS mp) ptr 0 = mp_ptrs mp"
        using okD(10) okD(1) by (fastforce simp: adjust_ptrs_def fun_eq_iff)
      moreover have "move_nodes_up (mp_nodes mp) b l 0 = mp_nodes mp" for b l
        by (simp add: move_nodes_up_def fun_eq_iff)
      ultimately show ?thesis using that by (simp add: mp1_def nodes1_def up_def)
    qed
    have u: "u16 up = up" using up okD(1) by simp
    have mpe: "resize_node mp ptr delta = mp1"
      using e u by (auto simp: resize_node_def Let_def mp1_def nodes1_def up_def PAGEBASE_def NODESIZE_def)
    have room: "\<not> (delta > 0 \<and> int (SIZELEFT mp) < delta)"
      using left page_SIZELEFT [OF ok] okD(5) by (simp add: of_nat_diff)
    have p1: "mp_ptrs mp1 indx = mv ptr" using ptrs [OF i] by (simp add: ptr_def)
    have p1': "adjust_ptrs (mp_ptrs mp) (NUMKEYS mp) ptr delta indx = mv ptr"
      using p1 by (simp add: mp1_def)
    have room': "ok' < nk \<longrightarrow> \<not> int (SIZELEFT mp) < delta" using room by (simp add: delta_def)
    have N: "NODEPTR mp indx = Some nd" using okD(7) [OF i] by (simp add: nd_def)
    show ?thesis
      using room room' br n1 len
      by (simp add: update_key_page_def N Let_def ptr_def [symmetric] nk_def [symmetric] ok'_def [symmetric]
          delta_def [symmetric] mpe p1 p1' mp'_def nd'_def PAGEBASE_def mp1_def)
  qed
  have fl: "mp_flags mp' = mp_flags mp" by (simp add: mp'_def mp1_def)
  have upper': "mp_upper mp' = up" by (simp add: mp'_def mp1_def)
  note cong = node_space_cong [OF fl] node_ok_cong [OF fl]
  have leaf2: "\<not> IS_LEAF2 mp'" using okD(2) IS_LEAF2_cong [OF fl] by simp
  have cut: "mp_ptrs mp k < ptr \<and> mp_ptrs mp k + node_space mp (page_items mp ! k) \<le> ptr \<or>
      ptr + 8 + ok' \<le> mp_ptrs mp k" if "k < NUMKEYS mp" "k \<noteq> indx" for k
    using okD(11) [OF that(1) i that(2)] node_space_pos [of mp "page_items mp ! k"] sp
    by (auto simp: ptr_def nd_def)
  have ptr': "mp_ptrs mp' k = (if mp_ptrs mp k \<le> ptr then mv (mp_ptrs mp k) else mp_ptrs mp k)"
    if "k < NUMKEYS mp" for k using ptrs [OF that] by (simp add: mp'_def)
  have self: "mp_ptrs mp' indx = mv ptr" using ptr' [OF i] by (simp add: ptr_def)
  have moved: "mp_ptrs mp k < ptr \<and> int (mp_ptrs mp' k) = int (mp_ptrs mp k) - delta \<or>
      ptr < mp_ptrs mp k \<and> mp_ptrs mp' k = mp_ptrs mp k" if "k < NUMKEYS mp" "k \<noteq> indx" for k
    using ptr' [OF that(1)] cut [OF that] mvle [OF okD(9) [OF that(1)]] by auto
  have "page_ok psize mp' \<and> page_items mp' = (page_items mp)[indx := nd']"
  proof (rule page_okI)
    fix k assume "k < length ((page_items mp)[indx := nd'])"
    then have k: "k < NUMKEYS mp" by simp
    note mvk = mvle [OF okD(9) [OF k]] and mvp = mvle [OF top(1)]
    show "NODEPTR mp' k = Some ((page_items mp)[indx := nd'] ! k)"
    proof (cases "k = indx")
      case False
      then have "NODEPTR mp' k = NODEPTR mp k"
        using ptr' [OF k] cut [OF k False] okD(9) [OF k] nodes [of "mp_ptrs mp k"] nodes' [of "mp_ptrs mp k"] mvk mvp
        by (auto simp: NODEPTR_def PAGEBASE_def) (auto simp: mp'_def delta_def)
      then show ?thesis using okD(7) [OF k] False by simp
    qed (use self i in \<open>simp add: NODEPTR_def PAGEBASE_def mp'_def\<close>)
    show "node_ok mp' ((page_items mp)[indx := nd'] ! k)"
      using okD(8) [OF k] br i by (cases "k = indx") (auto simp: cong node_ok_def nd'_def)
    show "mp_upper mp' \<le> mp_ptrs mp' k"
      using ptr' [OF k] okD(9) [OF k] mvk up cut [OF k] top(1)
      by (cases "k = indx") (auto simp: upper' self mvp delta_def ptr_def)
    show "mp_ptrs mp' k + node_space mp' ((page_items mp)[indx := nd'] ! k) \<le> psize"
    proof (cases "k = indx")
      case True
      then show ?thesis using self top mvp i sp' by (simp add: cong delta_def)
    next
      case False
      then show ?thesis using ptr' [OF k] cut [OF k False] okD(10) [OF k] mvk top by (auto simp: cong delta_def)
    qed
    fix l assume "l < length ((page_items mp)[indx := nd'])" and kl: "k < l"
    then have l: "l < NUMKEYS mp" by simp
    note mvl = mvle [OF okD(9) [OF l]]
    show "mp_ptrs mp' k + node_space mp' ((page_items mp)[indx := nd'] ! k) \<le> mp_ptrs mp' l \<or>
        mp_ptrs mp' l + node_space mp' ((page_items mp)[indx := nd'] ! l) \<le> mp_ptrs mp' k"
    proof (cases "k = indx \<or> l = indx")
      case False
      then have e: "(page_items mp)[indx := nd'] ! k = page_items mp ! k" "(page_items mp)[indx := nd'] ! l = page_items mp ! l"
        by auto
      have n: "k \<noteq> indx" "l \<noteq> indx" "k \<noteq> l" using False kl by auto
      show ?thesis
        unfolding e cong using okD(11) [OF k l n(3)] moved [OF k n(1)] moved [OF l n(2)] cut [OF k n(1)] cut [OF l n(2)]
          delta_def by linarith
    next
      case True
      then show ?thesis
      proof
        assume "k = indx"
        then have e: "(page_items mp)[indx := nd'] ! k = nd'" "(page_items mp)[indx := nd'] ! l = page_items mp ! l"
          and ki: "mp_ptrs mp' k = mv ptr" and ll: "l \<noteq> indx" using kl i self by auto
        show ?thesis
          unfolding e ki cong sp' using moved [OF l ll] cut [OF l ll] mvp delta_def by linarith
      next
        assume "l = indx"
        then have e: "(page_items mp)[indx := nd'] ! l = nd'" "(page_items mp)[indx := nd'] ! k = page_items mp ! k"
          and li: "mp_ptrs mp' l = mv ptr" and kk: "k \<noteq> indx" using kl i self by auto
        show ?thesis
          unfolding e li cong sp' using moved [OF k kk] cut [OF k kk] mvp delta_def by linarith
      qed
    qed
  next
    have "sum_list (map (node_space mp) ((page_items mp)[indx := nd'])) + (8 + ok') =
        sum_list (map (node_space mp) (page_items mp)) + (8 + nk)"
      using i sp sp' elem_le_sum_list [of indx "map (node_space mp) (page_items mp)"]
      by (simp add: map_update sum_list_update nd_def)
    then show "sum_list (map (node_space mp') ((page_items mp)[indx := nd'])) + mp_upper mp' = psize"
      using okD(12) up(1) by (simp add: cong upper' delta_def)
  qed (use okD(1,3) up leaf2 lower upper' in \<open>auto simp: mp'_def mp1_def\<close>)
  then show ?thesis
    using run fl by (auto simp: nd'_def nd_def mp'_def mp1_def)
qed

section \<open>The search in a page\<close>

text \<open>
  Where the loop ends: \<open>g i\<close> is the sign of the comparison of the key with entry \<open>i\<close>, positive
  below and negative above at most one zero.
\<close>

lemma node_search_loop_spec:
  fixes g :: "int \<Rightarrow> int"
  assumes f: "\<And>i. L \<le> i \<Longrightarrow> i \<le> H \<Longrightarrow> f (nat i) = Some (g i)" and L: "0 \<le> L"
    and mono: "\<And>i j. L \<le> i \<Longrightarrow> i < j \<Longrightarrow> j \<le> H \<Longrightarrow> (g j \<ge> 0 \<longrightarrow> g i > 0) \<and> (g i \<le> 0 \<longrightarrow> g j < 0)"
    and range: "L \<le> low" "low \<le> high + 1" "high \<le> H"
    and below: "\<And>i. L \<le> i \<Longrightarrow> i < low \<Longrightarrow> g i > 0" and above: "\<And>i. high < i \<Longrightarrow> i \<le> H \<Longrightarrow> g i < 0"
    and last: "rc > 0 \<and> int i = low - 1 \<and> nodep = Some i \<and> L \<le> int i \<or>
       rc < 0 \<and> int i = high + 1 \<and> nodep = Some i \<and> int i \<le> H \<or> rc = 0 \<and> low \<le> high"
  shows "\<exists>i' rc'. node_search_loop f low high i rc nodep = Some (i', rc', Some i') \<and>
     (rc' = 0 \<longrightarrow> g (int i') = 0) \<and>
     (rc' > 0 \<longrightarrow> (\<forall>k. L \<le> k \<longrightarrow> k \<le> int i' \<longrightarrow> g k > 0) \<and> (\<forall>k. int i' < k \<longrightarrow> k \<le> H \<longrightarrow> g k < 0)) \<and>
     (rc' < 0 \<longrightarrow> (\<forall>k. L \<le> k \<longrightarrow> k < int i' \<longrightarrow> g k > 0) \<and> (\<forall>k. int i' \<le> k \<longrightarrow> k \<le> H \<longrightarrow> g k < 0)) \<and>
     L \<le> int i' \<and> int i' \<le> H"
  using f range below above last
proof (induction f low high i rc nodep rule: node_search_loop.induct)
  case (1 f low high i rc nodep)
  note f = "1.prems"(1) and prems = "1.prems"(2-) and IH = "1.IH"
  show ?case
  proof (cases "low \<le> high")
    case False
    then have e: "node_search_loop f low high i rc nodep = Some (i, rc, nodep)"
      by (simp add: node_search_loop.simps [of f low])
    have "nodep = Some i" "rc \<noteq> 0" using prems(6) False by auto
    moreover have "rc > 0 \<Longrightarrow> int i = low - 1" "rc < 0 \<Longrightarrow> int i = high + 1" "low = high + 1"
      using prems(2,6) False by auto
    ultimately show ?thesis
      using prems e by (intro exI [of _ i] exI [of _ rc]) auto
  next
    case True
    define m where "m = (low + high) div 2"
    have m: "low \<le> m" "m \<le> high" "0 \<le> m" "int (nat m) = m" using True prems(1) L by (auto simp: m_def)
    have fm: "f (nat m) = Some (g m)" by (rule f) (use prems(1,3) m in auto)
    have step: "node_search_loop f low high i rc nodep =
        (if g m = 0 then Some (nat m, g m, Some (nat m))
         else if g m > 0 then node_search_loop f (m + 1) high (nat m) (g m) (Some (nat m))
         else node_search_loop f low (m - 1) (nat m) (g m) (Some (nat m)))"
      using True fm by (subst node_search_loop.simps) (simp add: Let_def m_def)
    have lt: "g k > 0" if "g m \<ge> 0" "L \<le> k" "k < m" for k using mono [of k m] that prems(1,3) m by auto
    have gt: "g k < 0" if "g m \<le> 0" "m < k" "k \<le> H" for k using mono [of m k] that prems(1,3) m by auto
    consider "g m = 0" | "g m > 0" | "g m < 0" by linarith
    then show ?thesis
    proof cases
      case 1
      then show ?thesis using step m prems(1,3) by (intro exI [of _ "nat m"] exI [of _ 0]) auto
    next
      case 2
      have "g k > 0" if "L \<le> k" "k < m + 1" for k using that lt 2 by (cases "k = m") auto
      then show ?thesis
        using IH(1) [OF True m_def refl fm] f 2 prems(1-3,5) m step by simp
    next
      case 3
      have "g k < 0" if "m - 1 < k" "k \<le> H" for k using that gt 3 by (cases "k = m") auto
      moreover have "node_search_loop f low high i rc nodep = node_search_loop f low (m - 1) (nat m) (g m) (Some (nat m))"
        using step 3 by simp
      ultimately show ?thesis
        using IH(2) [OF True m_def refl fm] f 3 prems(1-4) m by simp
    qed
  qed
qed

context key_order
begin

lemma search_keys:
  fixes ks :: "byte list list"
  defines "n \<equiv> length ks"
  assumes key: "key \<in> K" and ks: "\<And>k. low \<le> k \<Longrightarrow> k < n \<Longrightarrow> ks ! k \<in> K"
    and sorted: "\<And>i j. low \<le> i \<Longrightarrow> i < j \<Longrightarrow> j < n \<Longrightarrow> less (ks ! i) (ks ! j)"
    and f: "\<And>i. i < n \<Longrightarrow> f i = cmp key (ks ! i)" and low: "low < n"
  shows "\<exists>i rc r. node_search_loop f (int low) (int n - 1) 0 0 nodep = Some (i, rc, Some i) \<and>
     r = (if rc > 0 then i + 1 else i) \<and> low \<le> r \<and> r \<le> n \<and>
     (\<forall>k. low \<le> k \<longrightarrow> k < r \<longrightarrow> less (ks ! k) key) \<and>
     (\<forall>k. r \<le> k \<longrightarrow> k < n \<longrightarrow> ks ! k = key \<or> less key (ks ! k)) \<and>
     (rc = 0 \<longleftrightarrow> r < n \<and> ks ! r = key)"
proof -
  define g where "g i = the (cmp key (ks ! nat i))" for i :: int
  have sgn: "(g (int k) > 0 \<longleftrightarrow> less (ks ! k) key) \<and> (g (int k) < 0 \<longleftrightarrow> less key (ks ! k))
      \<and> (g (int k) = 0 \<longleftrightarrow> ks ! k = key)" if "low \<le> k" "k < n" for k
    using greater [OF key ks [OF that]] same [OF key ks [OF that]] cmp_Some [OF key ks [OF that]]
    by (auto simp: g_def less_def)
  have "\<exists>i rc. node_search_loop f (int low) (int n - 1) 0 0 nodep = Some (i, rc, Some i) \<and>
     (rc = 0 \<longrightarrow> g (int i) = 0) \<and>
     (rc > 0 \<longrightarrow> (\<forall>k. int low \<le> k \<longrightarrow> k \<le> int i \<longrightarrow> g k > 0) \<and> (\<forall>k. int i < k \<longrightarrow> k \<le> int n - 1 \<longrightarrow> g k < 0)) \<and>
     (rc < 0 \<longrightarrow> (\<forall>k. int low \<le> k \<longrightarrow> k < int i \<longrightarrow> g k > 0) \<and> (\<forall>k. int i \<le> k \<longrightarrow> k \<le> int n - 1 \<longrightarrow> g k < 0)) \<and>
     int low \<le> int i \<and> int i \<le> int n - 1"
  proof (rule node_search_loop_spec)
    fix i assume i: "int low \<le> i" "i \<le> int n - 1"
    then show "f (nat i) = Some (g i)"
      using f [of "nat i"] cmp_Some [OF key ks [of "nat i"]] by (simp add: g_def)
  next
    fix i j assume i: "int low \<le> i" and j: "i < j" "j \<le> int n - 1"
    obtain a b where ab: "i = int a" "j = int b" "low \<le> a" "a < b" "b < n"
      using i j by (intro that [of "nat i" "nat j"]) auto
    note K = ks [of a] ks [of b]
    have l: "less (ks ! a) (ks ! b)" using sorted ab by auto
    show "(0 \<le> g j \<longrightarrow> 0 < g i) \<and> (g i \<le> 0 \<longrightarrow> g j < 0)"
      using sgn [of a] sgn [of b] ab l K key total [of "ks ! b" key] trans [of "ks ! a" "ks ! b" key]
        trans [of key "ks ! a" "ks ! b"] total [of "ks ! a" key]
      by (auto simp: less_def) 
  qed (use low in auto)
  then obtain i rc where run: "node_search_loop f (int low) (int n - 1) 0 0 nodep = Some (i, rc, Some i)"
    and z: "rc = 0 \<Longrightarrow> g (int i) = 0"
    and p: "rc > 0 \<Longrightarrow> \<forall>k. int low \<le> k \<longrightarrow> k \<le> int i \<longrightarrow> g k > 0" "rc > 0 \<Longrightarrow> \<forall>k. int i < k \<longrightarrow> k \<le> int n - 1 \<longrightarrow> g k < 0"
    and q: "rc < 0 \<Longrightarrow> \<forall>k. int low \<le> k \<longrightarrow> k < int i \<longrightarrow> g k > 0" "rc < 0 \<Longrightarrow> \<forall>k. int i \<le> k \<longrightarrow> k \<le> int n - 1 \<longrightarrow> g k < 0"
    and i: "low \<le> i" "i < n" by auto
  have ii: "\<not> less (ks ! k) (ks ! k)" if "low \<le> k" "k < n" for k using irrefl ks that by auto
  consider "rc = 0" | "rc > 0" | "rc < 0" by linarith
  then show ?thesis
  proof cases
    case 1
    then have "ks ! i = key" using z sgn i by auto
    then have "less (ks ! k) key" if "low \<le> k" "k < i" for k using sorted that i by blast
    moreover have "ks ! k = key \<or> less key (ks ! k)" if "i \<le> k" "k < n" for k
      using \<open>ks ! i = key\<close> sorted [of i k] that i by (cases "k = i") auto
    ultimately show ?thesis using run 1 i \<open>ks ! i = key\<close> by (intro exI [of _ i] exI [of _ rc]) auto
  next
    case 2
    have "less (ks ! k) key" if "low \<le> k" "k < i + 1" for k using p(1) [OF 2] sgn [of k] that i by auto
    moreover have "less key (ks ! k)" if "i + 1 \<le> k" "k < n" for k using p(2) [OF 2] sgn [of k] that i by auto
    moreover from this have "\<not> (i + 1 < n \<and> ks ! (i + 1) = key)" using irrefl [OF key] by (metis le_refl)
    ultimately show ?thesis using run 2 i by (intro exI [of _ i] exI [of _ rc] exI [of _ "i + 1"]) simp
  next
    case 3
    have "less (ks ! k) key" if "low \<le> k" "k < i" for k using q(1) [OF 3] sgn [of k] that i by auto
    moreover have "less key (ks ! k)" if "i \<le> k" "k < n" for k using q(2) [OF 3] sgn [of k] that i by auto
    moreover from this have "ks ! i \<noteq> key" using irrefl [OF key] i by (metis le_refl)
    ultimately show ?thesis using run 3 i by (intro exI [of _ i] exI [of _ rc] exI [of _ i]) simp
  qed
qed

text \<open>The search in a well-formed page whose keys are in order (key 0 of a branch page is not used).\<close>

lemma node_search_page:
  assumes c: "cmp = cmp_call c" "\<not> (cmp_is c Cmp_cint \<and> IS_BRANCH mp)" and ok: "page_ok psize mp"
    and low: "low = (if IS_LEAF mp then 0 else 1)" and n: "IS_LEAF mp \<or> NUMKEYS mp > 1"
    and key: "key \<in> K" and ks: "\<And>k. low \<le> k \<Longrightarrow> k < NUMKEYS mp \<Longrightarrow> NODEKEY (page_items mp ! k) \<in> K"
    and sorted: "\<And>i j. low \<le> i \<Longrightarrow> i < j \<Longrightarrow> j < NUMKEYS mp \<Longrightarrow>
        less (NODEKEY (page_items mp ! i)) (NODEKEY (page_items mp ! j))"
  shows "\<exists>r exact. mdb_node_search c ksz mp key = Some (r, exact, if r < NUMKEYS mp then Some r else None) \<and>
     low \<le> r \<and> r \<le> NUMKEYS mp \<and> (\<forall>k. low \<le> k \<longrightarrow> k < r \<longrightarrow> less (NODEKEY (page_items mp ! k)) key) \<and>
     (\<forall>k. r \<le> k \<longrightarrow> k < NUMKEYS mp \<longrightarrow>
        NODEKEY (page_items mp ! k) = key \<or> less key (NODEKEY (page_items mp ! k))) \<and>
     (exact \<longleftrightarrow> r < NUMKEYS mp \<and> NODEKEY (page_items mp ! r) = key)"
proof -
  define f where "f i = do { nd \<leftarrow> NODEPTR mp i; cmp_call c key (NODEKEY nd) }" for i
  have unf: "mdb_node_search c ksz mp key =
      (case node_search_loop f (int low) (int (NUMKEYS mp) - 1) 0 0 None of None \<Rightarrow> None
       | Some (i, rc, nodep) \<Rightarrow>
          Some (if rc > 0 then i + 1 else i, rc = 0 \<and> NUMKEYS mp > 0,
                if NUMKEYS mp \<le> (if rc > 0 then i + 1 else i) then None
                else if rc > 0 then Some (i + 1) else nodep))"
    using c(2) page_okD(2) [OF ok] low
    by (auto simp: mdb_node_search_def Let_def f_def [abs_def] split: option.split)
  show ?thesis
  proof (cases "NUMKEYS mp = 0")
    case True
    then have l: "low = 0" using n low by auto
    have "node_search_loop f (int low) (int (NUMKEYS mp) - 1) 0 0 None = Some (0, 0, None)"
      using True l by (simp add: node_search_loop.simps [of f 0])
    then show ?thesis using True l by (intro exI [of _ 0] exI [of _ False]) (simp add: unf)
  next
    case False
    let ?ks = "map NODEKEY (page_items mp)"
    have "\<exists>i rc r. node_search_loop f (int low) (int (length ?ks) - 1) 0 0 None = Some (i, rc, Some i) \<and>
       r = (if rc > 0 then i + 1 else i) \<and> low \<le> r \<and> r \<le> length ?ks \<and>
       (\<forall>k. low \<le> k \<longrightarrow> k < r \<longrightarrow> less (?ks ! k) key) \<and>
       (\<forall>k. r \<le> k \<longrightarrow> k < length ?ks \<longrightarrow> ?ks ! k = key \<or> less key (?ks ! k)) \<and>
       (rc = 0 \<longleftrightarrow> r < length ?ks \<and> ?ks ! r = key)"
    proof (rule search_keys)
      fix i assume "i < length ?ks"
      then show "f i = cmp key (?ks ! i)" using page_okD(7) [OF ok, of i] by (simp add: f_def c)
    qed (use key ks sorted low n False in auto)
    then obtain i rc r where run: "node_search_loop f (int low) (int (NUMKEYS mp) - 1) 0 0 None = Some (i, rc, Some i)"
      and r: "r = (if rc > 0 then i + 1 else i)" "low \<le> r" "r \<le> NUMKEYS mp"
      and lt: "\<forall>k. low \<le> k \<longrightarrow> k < r \<longrightarrow> less (?ks ! k) key"
      and ge: "\<forall>k. r \<le> k \<longrightarrow> k < NUMKEYS mp \<longrightarrow> ?ks ! k = key \<or> less key (?ks ! k)"
      and ex: "rc = 0 \<longleftrightarrow> r < NUMKEYS mp \<and> ?ks ! r = key"
      unfolding length_map length_page_items by blast
    have nth: "?ks ! k = NODEKEY (page_items mp ! k)" if "k < NUMKEYS mp" for k using that by simp
    have "less (NODEKEY (page_items mp ! k)) key" if "low \<le> k" "k < r" for k
      using lt that nth [of k] r(3) by (metis order_less_le_trans)
    moreover have "NODEKEY (page_items mp ! k) = key \<or> less key (NODEKEY (page_items mp ! k))"
      if "r \<le> k" "k < NUMKEYS mp" for k using ge that nth [of k] by metis
    moreover have "rc = 0 \<longleftrightarrow> r < NUMKEYS mp \<and> NODEKEY (page_items mp ! r) = key" using ex nth [of r] by metis
    moreover have "mdb_node_search c ksz mp key = Some (r, rc = 0, if r < NUMKEYS mp then Some r else None)"
      using run r(1) False by (auto simp: unf)
    ultimately show ?thesis
      using r(2,3) by (intro exI [of _ r] exI [of _ "rc = 0"]) simp
  qed
qed

end

section \<open>A page as a list of slots\<close>

text \<open>
  What the users of a page rely on: it holds a list of items, an item that fits is inserted at an
  index, and a deletion frees the room of its item.
\<close>

locale slotted =
  fixes ok :: "'p \<Rightarrow> bool" and items :: "'p \<Rightarrow> 'n list" and fits :: "'p \<Rightarrow> 'n \<Rightarrow> bool"
    and add :: "'p \<Rightarrow> nat \<Rightarrow> 'n \<Rightarrow> 'p option" and del :: "'p \<Rightarrow> nat \<Rightarrow> 'p option"
  assumes add_ok: "ok p \<Longrightarrow> i \<le> length (items p) \<Longrightarrow> fits p n \<Longrightarrow>
      \<exists>p'. add p i n = Some p' \<and> ok p' \<and> items p' = insert_at i n (items p)"
    and del_ok: "ok p \<Longrightarrow> i < length (items p) \<Longrightarrow>
      \<exists>p'. del p i = Some p' \<and> ok p' \<and> items p' = remove_at i (items p) \<and> fits p' (items p ! i)"
begin

lemma add_del:
  assumes "ok p" "i \<le> length (items p)" "fits p n"
  shows "\<exists>p' p''. add p i n = Some p' \<and> del p' i = Some p'' \<and> ok p'' \<and> items p'' = items p"
proof -
  obtain p' where p': "add p i n = Some p'" "ok p'" "items p' = insert_at i n (items p)"
    using add_ok assms by blast
  then show ?thesis using del_ok [of p' i] assms by auto
qed

lemma del_add:
  assumes "ok p" "i < length (items p)"
  shows "\<exists>p' p''. del p i = Some p' \<and> add p' i (items p ! i) = Some p'' \<and> ok p'' \<and> items p'' = items p"
proof -
  obtain p' where p': "del p i = Some p'" "ok p'" "items p' = remove_at i (items p)" "fits p' (items p ! i)"
    using del_ok assms by blast
  then show ?thesis using add_ok [of p' i "items p ! i"] assms by (auto simp: insert_remove_at)
qed

lemma replace:
  assumes "ok p" "i < length (items p)" "del p i = Some p'" "fits p' n"
  shows "\<exists>p''. add p' i n = Some p'' \<and> ok p'' \<and> items p'' = (items p)[i := n]"
proof -
  have p': "ok p'" "items p' = remove_at i (items p)" using del_ok [of p i] assms by auto
  have "insert_at i n (remove_at i (items p)) = (items p)[i := n]"
    using assms(2) by (intro nth_equalityI) (auto simp: nth_insert_at nth_remove_at nth_list_update)
  then show ?thesis using add_ok [of p' i n] p' assms by auto
qed

end

definition page_fits :: "MDB_page \<Rightarrow> MDB_node \<Rightarrow> bool" where
  "page_fits mp nd \<longleftrightarrow> node_ok mp nd \<and> int (node_space mp nd) \<le> node_room mp"

interpretation page_slots: slotted "page_ok psize" page_items page_fits
  "\<lambda>mp i nd. node_insert mp i (node_space mp nd) nd" "\<lambda>mp i. mdb_node_del mp i ksize" for psize ksize
proof
  fix p n i assume "page_ok psize p" "i \<le> length (page_items p)" "page_fits p n"
  then show "\<exists>p'. node_insert p i (node_space p n) n = Some p' \<and> page_ok psize p' \<and>
      page_items p' = insert_at i n (page_items p)"
    using node_insert_ok [of psize p i n] by (auto simp: page_fits_def)
next
  fix p i assume ok: "page_ok psize p" and i: "i < length (page_items p)"
  then obtain p' where p': "mdb_node_del p i ksize = Some p'" "page_ok psize p'"
    "page_items p' = remove_at i (page_items p)" "mp_flags p' = mp_flags p"
    "mp_upper p' = mp_upper p + node_space p (page_items p ! i)"
    using node_del_ok [of psize p i ksize] by auto
  have "NUMKEYS p' = NUMKEYS p - 1" using p'(3) i by (metis length_page_items length_remove_at)
  then have "page_fits p' (page_items p ! i)"
    using page_room [OF p'(2)] page_lower [OF p'(2)] page_lower [OF ok] page_okD(5,8) [OF ok] i p'(4,5)
    by (auto simp: page_fits_def node_ok_cong [OF p'(4)] node_space_cong [OF p'(4)])
  then show "\<exists>p'. mdb_node_del p i ksize = Some p' \<and> page_ok psize p' \<and>
      page_items p' = remove_at i (page_items p) \<and> page_fits p' (page_items p ! i)"
    using p' by blast
qed

end
