(* ===== verification/Lmdb_Page_Facts.thy ===== *)
theory Lmdb_Page_Facts
  imports Lmdb_Page
begin

text \<open>
  What the operations on one page guarantee, over the list of its nodes (\<open>page_items\<close>) and the
  invariant of its layout (\<open>page_ok\<close>): nodes do not overlap, lie between \<open>mp_upper\<close> and the end of the
  page, and fill that space exactly.
\<close>

section \<open>Copying\<close>

lemma NODEPTR_cong:
  "mp_ptrs p i = mp_ptrs q i \<Longrightarrow> mp_nodes p (mp_ptrs q i) = mp_nodes q (mp_ptrs q i) \<Longrightarrow> NODEPTR p i = NODEPTR q i"
  by (simp add: NODEPTR_def PAGEBASE_def)

lemma page_copy_agrees:
  assumes ok: "page_ok psize src" and fl: "\<not> IS_OVERFLOW src"
  shows "mp_flags (mdb_page_copy dst src psize) = mp_flags src \<and> mp_pgno (mdb_page_copy dst src psize) = mp_pgno src
     \<and> mp_lower (mdb_page_copy dst src psize) = mp_lower src \<and> mp_upper (mdb_page_copy dst src psize) = mp_upper src
     \<and> (\<forall>i < NUMKEYS src. mp_ptrs (mdb_page_copy dst src psize) i = mp_ptrs src i)
     \<and> (\<forall>o'. mp_upper src \<le> o' \<longrightarrow> o' < psize \<longrightarrow> mp_nodes (mdb_page_copy dst src psize) o' = mp_nodes src o')"
proof -
  note p = page_okD [OF ok]
  define unused where "unused = (mp_upper src - mp_lower src) div 8 * 8"
  have u: "u16 (mp_upper src + 65536 - mp_lower src) div 8 * 8 = unused"
    using p(1,5,6) by (simp add: unused_def u16_diff)
  have idx: "16 + 2 * i + 2 \<le> mp_lower src" if "i < NUMKEYS src" for i
    using that p(3,4) by (auto simp: NUMKEYS_eq)
  show ?thesis
  proof (cases "unused = 0")
    case True
    then have "mdb_page_copy dst src psize = copy_range dst src 0 psize"
      using fl u by (simp add: mdb_page_copy_def pb_lower_def pb_upper_def)
    then show ?thesis
      using p(4,5,6) idx by (auto simp: copy_range_def PAGEHDRSZ_def Let_def) (meson le_trans)+
  next
    case False
    define a b where "a = (mp_lower src + 7) div 8 * 8" and "b = mp_upper src div 8 * 8"
    have "mdb_page_copy dst src psize = copy_range (copy_range dst src 0 a) src b psize"
      using fl u False p(2) by (simp add: mdb_page_copy_def pb_lower_def pb_upper_def a_def b_def PAGEBASE_def)
    moreover have "mp_lower src \<le> a" "b \<le> mp_upper src" "16 \<le> a" "16 \<le> b" "a \<le> b"
      using p(4,5) False by (auto simp: a_def b_def unused_def)
    ultimately show ?thesis
      using p(4,5,6) idx by (auto simp: copy_range_def PAGEHDRSZ_def Let_def) (meson le_trans)+
  qed
qed

lemma page_copy_ok:
  assumes ok: "page_ok psize src" and fl: "\<not> IS_OVERFLOW src"
  shows "page_ok psize (mdb_page_copy dst src psize) \<and> page_items (mdb_page_copy dst src psize) = page_items src"
proof -
  let ?c = "mdb_page_copy dst src psize"
  note p = page_okD [OF ok] and c = page_copy_agrees [OF ok fl, of dst]
  have sp: "node_space ?c = node_space src" "node_ok ?c = node_ok src"
    using c by (auto simp: fun_eq_iff node_space_def node_ok_def IS_LEAF_def)
  have n: "i < length (page_items src) \<Longrightarrow> mp_ptrs ?c i = mp_ptrs src i" for i using c by simp
  have np: "NODEPTR ?c i = Some (page_items src ! i)" if i: "i < length (page_items src)" for i
  proof -
    have "mp_ptrs src i < psize"
      using p(10) [of i] i node_space_pos [of src "page_items src ! i"] by simp
    then show ?thesis using i p(7,9) [of i] c by (simp add: NODEPTR_def PAGEBASE_def)
  qed
  have low: "mp_lower src = 16 + 2 * length (page_items src)" using page_lower [OF ok] by simp
  have h: "mp_lower ?c = mp_lower src" "mp_upper ?c = mp_upper src" "\<not> IS_LEAF2 ?c"
    using c p(2) by (auto simp: IS_LEAF2_def)
  have b: "mp_upper src \<le> mp_ptrs ?c i" "mp_ptrs ?c i + node_space src (page_items src ! i) \<le> psize"
    "node_ok src (page_items src ! i)"
    if "i < length (page_items src)" for i
    using that n p(8-10) [of i] by simp_all
  have d: "mp_ptrs ?c i + node_space src (page_items src ! i) \<le> mp_ptrs ?c j \<or>
      mp_ptrs ?c j + node_space src (page_items src ! j) \<le> mp_ptrs ?c i"
    if "i < length (page_items src)" "j < length (page_items src)" "i < j" for i j
    using that n p(11) [of i j] by simp
  show ?thesis
  proof (rule page_okI)
    show "psize \<le> 32768" "\<not> IS_LEAF2 ?c" by (fact p h)+
    show "even (mp_lower ?c)" "mp_lower ?c = 16 + 2 * length (page_items src)" "mp_lower ?c \<le> mp_upper ?c"
      "mp_upper ?c \<le> psize" unfolding h using p(3,5,6) low by auto
    show "sum_list (map (node_space ?c) (page_items src)) + mp_upper ?c = psize" unfolding h sp by (fact p)
  qed ((simp only: sp h)?, (rule np b d; assumption))+
qed

text \<open>
  C31: \<open>mdb_page_copy\<close>, which skips the unused middle of a page, gives a page with the same nodes, number,
  flags and bounds, whatever the destination held.
\<close>

theorem page_copy_same_items:
  assumes "page_ok psize src" and "\<not> IS_OVERFLOW src"
  shows "page_ok psize (mdb_page_copy dst src psize)
     \<and> page_items (mdb_page_copy dst src psize) = page_items src
     \<and> mp_pgno (mdb_page_copy dst src psize) = mp_pgno src \<and> mp_flags (mdb_page_copy dst src psize) = mp_flags src"
  using page_copy_ok [OF assms] page_copy_agrees [OF assms] by blast

section \<open>A small page\<close>

text \<open>A leaf page of 64 bytes with the items \<open>[1] \<mapsto> [10]\<close> and \<open>[3] \<mapsto> [30]\<close>, for the concrete instances.\<close>

definition sample_node :: "byte \<Rightarrow> byte \<Rightarrow> MDB_node" where
  "sample_node k v = \<lparr>mn_lo = 1, mn_hi = 0, mn_flags = 0, mn_ksize = 1, mn_data = [k, v]\<rparr>"

definition sample_leaf :: MDB_page where
  "sample_leaf = \<lparr>mp_pgno = 5, mp_pad = 0, mp_flags = P_LEAF, mp_lower = 20, mp_upper = 44, mp_pages = 0,
     mp_ptrs = (\<lambda>_. 0)(0 := 54, 1 := 44),
     mp_nodes = (\<lambda>_. None)(54 \<mapsto> sample_node 1 10, 44 \<mapsto> sample_node 3 30), mp_data = []\<rparr>"

lemma sample_node_simps [simp]:
  "NODEKEY (sample_node k v) = [k]" "NODEDATA (sample_node k v) = [v]" "NODEDSZ (sample_node k v) = 1"
  "mn_ksize (sample_node k v) = 1" "length (mn_data (sample_node k v)) = 2" "\<not> node_isset (sample_node k v) F_BIGDATA"
  by (simp_all add: sample_node_def NODEKEY_def NODEDATA_def NODEDSZ_def node_isset_def F_ISSET_def F_BIGDATA_def)

lemma sample_leaf_simps [simp]:
  "IS_LEAF sample_leaf" "\<not> IS_LEAF2 sample_leaf" "\<not> IS_OVERFLOW sample_leaf" "\<not> IS_BRANCH sample_leaf"
  "NUMKEYS sample_leaf = 2"
  by (simp_all add: sample_leaf_def IS_LEAF_def IS_LEAF2_def IS_OVERFLOW_def IS_BRANCH_def F_ISSET_def
      page_flag_defs NUMKEYS_eq)

lemma sample_node_space [simp]: "node_space sample_leaf (sample_node k v) = 10"
  "node_ok sample_leaf (sample_node k v)"
  by (simp_all add: node_space_def node_ok_def EVEN_def NODESIZE_def)

lemma sample_leaf_ok: "page_ok 64 sample_leaf \<and> page_items sample_leaf = [sample_node 1 10, sample_node 3 30]"
proof (rule page_okI)
  fix i assume "i < length [sample_node 1 10, sample_node 3 30]"
  then have i: "i = 0 \<or> i = 1" by auto
  show "NODEPTR sample_leaf i = Some ([sample_node 1 10, sample_node 3 30] ! i)"
    using i by (auto simp: NODEPTR_def sample_leaf_def PAGEBASE_def)
  show "node_ok sample_leaf ([sample_node 1 10, sample_node 3 30] ! i)" using i by auto
  show "mp_upper sample_leaf \<le> mp_ptrs sample_leaf i" using i by (auto simp: sample_leaf_def)
  show "mp_ptrs sample_leaf i + node_space sample_leaf ([sample_node 1 10, sample_node 3 30] ! i) \<le> 64"
    using i by (auto simp: sample_leaf_def [THEN arg_cong, of mp_ptrs])
qed (auto simp: sample_leaf_def [THEN arg_cong, of mp_lower] sample_leaf_def [THEN arg_cong, of mp_upper]
      sample_leaf_def [THEN arg_cong, of mp_ptrs] nth_Cons split: nat.splits)

lemma page_copy_same_items_witness:
  "page_items (mdb_page_copy (sample_leaf\<lparr>mp_ptrs := (\<lambda>_. 0)\<rparr>) sample_leaf 64) = [sample_node 1 10, sample_node 3 30]"
  using page_copy_same_items [of 64 sample_leaf] sample_leaf_ok by simp

section \<open>Adding, deleting and replacing nodes\<close>

text \<open>
  C32: the stores of \<open>mdb_node_add\<close> on a page with room for the node insert the node at its index,
  shift the nodes after it by one and keep the layout; nothing else of the page changes.
\<close>

theorem page_insert_node:
  assumes "page_ok psize mp" and "indx \<le> NUMKEYS mp" and "node_ok mp nd"
    and "int (node_space mp nd) \<le> node_room mp"
  shows "\<exists>mp'. node_insert mp indx (node_space mp nd) nd = Some mp' \<and> page_ok psize mp'
     \<and> page_items mp' = insert_at indx nd (page_items mp)
     \<and> mp_flags mp' = mp_flags mp \<and> mp_pgno mp' = mp_pgno mp"
  using node_insert_ok [OF assms] by blast

lemma sample_room: "node_room sample_leaf = 22"
  using page_room [of 64 sample_leaf] sample_leaf_ok by (simp add: sample_leaf_def)

lemma page_insert_node_witness:
  "\<exists>mp'. node_insert sample_leaf 1 10 (sample_node 2 20) = Some mp'
     \<and> page_items mp' = [sample_node 1 10, sample_node 2 20, sample_node 3 30]"
  using page_insert_node [of 64 sample_leaf 1 "sample_node 2 20"] sample_leaf_ok sample_room
  by (auto simp: insert_at_def)

text \<open>
  C33: \<open>mdb_node_del\<close> takes out the node at its index, moves the nodes below it up over the hole,
  corrects their pointers, and keeps the layout; the room of the node is free again.
\<close>

theorem page_delete_node:
  assumes "page_ok psize mp" and "indx < NUMKEYS mp"
  shows "\<exists>mp'. mdb_node_del mp indx ksize = Some mp' \<and> page_ok psize mp'
     \<and> page_items mp' = remove_at indx (page_items mp) \<and> mp_flags mp' = mp_flags mp
     \<and> page_fits mp' (page_items mp ! indx)"
proof -
  obtain mp' where "mdb_node_del mp indx ksize = Some mp'" "page_ok psize mp'"
    "page_items mp' = remove_at indx (page_items mp)" "mp_flags mp' = mp_flags mp"
    using node_del_ok [OF assms] by blast
  then show ?thesis using page_slots.del_ok [of psize mp indx ksize] assms by auto
qed

lemma page_delete_node_witness:
  "\<exists>mp'. mdb_node_del sample_leaf 0 0 = Some mp' \<and> page_items mp' = [sample_node 3 30]"
  using page_delete_node [of 64 sample_leaf 0 0] sample_leaf_ok by (auto simp: remove_at_def)

text \<open>
  Replacing an item of another size, as \<open>mdb_cursor_put\<close> does it: after \<open>mdb_node_del\<close>, adding a
  node that fits at the same index gives the page with just that item replaced.
\<close>

theorem page_replace_node:
  assumes "page_ok psize mp" and "indx < NUMKEYS mp" and "mdb_node_del mp indx ksize = Some mp'"
    and "page_fits mp' nd"
  shows "\<exists>mp''. node_insert mp' indx (node_space mp' nd) nd = Some mp'' \<and> page_ok psize mp''
     \<and> page_items mp'' = (page_items mp)[indx := nd]"
  using page_slots.replace [of psize mp indx ksize mp' nd] assms by simp

lemma page_replace_node_witness:
  "\<exists>mp' mp''. mdb_node_del sample_leaf 0 0 = Some mp' \<and>
     node_insert mp' 0 (node_space mp' (sample_node 1 99)) (sample_node 1 99) = Some mp'' \<and>
     page_items mp'' = [sample_node 1 99, sample_node 3 30]"
proof -
  obtain mp' where d: "mdb_node_del sample_leaf 0 0 = Some mp'" "mp_flags mp' = mp_flags sample_leaf"
    "page_fits mp' (sample_node 1 10)"
    using page_slots.del_ok [of 64 sample_leaf 0 0] node_del_ok [of 64 sample_leaf 0 0] sample_leaf_ok by auto
  then have "page_fits mp' (sample_node 1 99)"
    by (simp add: page_fits_def node_ok_cong [OF d(2)] node_space_cong [OF d(2)])
  then show ?thesis
    using page_replace_node [of 64 sample_leaf 0 0 mp' "sample_node 1 99"] d sample_leaf_ok by auto
qed

text \<open>
  C34: \<open>mdb_update_key\<close> on a branch page, when the new key fits: the node at the index has the new key
  and its page number, flags and size fields as before, the other nodes are unchanged although they may
  have moved, and the layout is kept.
\<close>

theorem page_update_key:
  assumes "page_ok psize mp" and "indx < NUMKEYS mp" and "\<not> IS_LEAF mp" and "length key < 65536"
    and "int (EVEN (length key)) - int (EVEN (mn_ksize (page_items mp ! indx))) \<le> int (SIZELEFT mp)"
  shows "\<exists>mp'. update_key_page mp indx key = Some (False, mp') \<and> page_ok psize mp'
     \<and> page_items mp' = (page_items mp)[indx := (page_items mp ! indx)\<lparr>mn_ksize := length key, mn_data := key\<rparr>]
     \<and> NODEPGNO (page_items mp' ! indx) = NODEPGNO (page_items mp ! indx) \<and> NODEKEY (page_items mp' ! indx) = key"
  using update_key_ok [OF assms] assms(2) by (auto simp: NODEPGNO_def NODEKEY_def)

definition sample_branch :: MDB_page where
  "sample_branch = \<lparr>mp_pgno = 6, mp_pad = 0, mp_flags = P_BRANCH, mp_lower = 20, mp_upper = 46, mp_pages = 0,
     mp_ptrs = (\<lambda>_. 0)(0 := 56, 1 := 46),
     mp_nodes = (\<lambda>_. None)(56 \<mapsto> \<lparr>mn_lo = 5, mn_hi = 0, mn_flags = 0, mn_ksize = 0, mn_data = []\<rparr>,
                          46 \<mapsto> \<lparr>mn_lo = 7, mn_hi = 0, mn_flags = 0, mn_ksize = 1, mn_data = [3]\<rparr>),
     mp_data = []\<rparr>"

lemma sample_branch_simps [simp]:
  "\<not> IS_LEAF sample_branch" "\<not> IS_LEAF2 sample_branch" "IS_BRANCH sample_branch" "NUMKEYS sample_branch = 2"
  by (simp_all add: sample_branch_def IS_LEAF_def IS_LEAF2_def IS_BRANCH_def F_ISSET_def page_flag_defs NUMKEYS_eq)

lemma sample_branch_ok:
  "page_ok 64 sample_branch \<and> page_items sample_branch =
     [\<lparr>mn_lo = 5, mn_hi = 0, mn_flags = 0, mn_ksize = 0, mn_data = []\<rparr>,
      \<lparr>mn_lo = 7, mn_hi = 0, mn_flags = 0, mn_ksize = 1, mn_data = [3]\<rparr>]" (is "_ \<and> _ = ?its")
proof (rule page_okI)
  fix i assume "i < length ?its"
  then have i: "i = 0 \<or> i = 1" by auto
  show "NODEPTR sample_branch i = Some (?its ! i)"
    using i by (auto simp: NODEPTR_def sample_branch_def PAGEBASE_def)
  show "node_ok sample_branch (?its ! i)" using i by (auto simp: node_ok_def)
  show "mp_upper sample_branch \<le> mp_ptrs sample_branch i" using i by (auto simp: sample_branch_def)
  show "mp_ptrs sample_branch i + node_space sample_branch (?its ! i) \<le> 64"
    using i by (auto simp: sample_branch_def [THEN arg_cong, of mp_ptrs] node_space_def EVEN_def NODESIZE_def)
qed (auto simp: sample_branch_def [THEN arg_cong, of mp_lower] sample_branch_def [THEN arg_cong, of mp_upper]
      sample_branch_def [THEN arg_cong, of mp_ptrs] nth_Cons node_space_def EVEN_def NODESIZE_def split: nat.splits)

lemma page_update_key_witness:
  "\<exists>mp'. update_key_page sample_branch 1 [4, 4, 4] = Some (False, mp') \<and> NODEKEY (page_items mp' ! 1) = [4, 4, 4]
     \<and> NODEPGNO (page_items mp' ! 1) = 7"
proof -
  have "SIZELEFT sample_branch = 26"
    using page_SIZELEFT [of 64 sample_branch] sample_branch_ok by (simp add: sample_branch_def)
  then show ?thesis
    using page_update_key [of 64 sample_branch 1 "[4, 4, 4]"] sample_branch_ok
    by (auto simp: NODEPGNO_def EVEN_def)
qed

section \<open>Searching\<close>

text \<open>
  C35: on a leaf page with keys in order \<open>mdb_node_search\<close> with the default comparator gives the index
  of the first key that is not smaller than the one searched for, \<open>NULL\<close> past the last, and
  \<open>exact\<close> just when the key there is equal.
\<close>

theorem leaf_search_position:
  assumes "page_ok psize mp" and "IS_LEAF mp"
    and "\<forall>nd \<in> set (page_items mp). length (NODEKEY nd) < 2 ^ 32" and "length key < 2 ^ 32"
    and "sorted_wrt lex_less (map NODEKEY (page_items mp))"
  shows "\<exists>r exact. mdb_node_search Cmp_memn ksz mp key = Some (r, exact, if r < NUMKEYS mp then Some r else None)
     \<and> r \<le> NUMKEYS mp \<and> (\<forall>k < r. lex_less (NODEKEY (page_items mp ! k)) key)
     \<and> (\<forall>k. r \<le> k \<longrightarrow> k < NUMKEYS mp \<longrightarrow> \<not> lex_less (NODEKEY (page_items mp ! k)) key)
     \<and> (exact \<longleftrightarrow> key \<in> NODEKEY ` set (page_items mp))"
proof -
  have less: "memn.less a b \<longleftrightarrow> lex_less a b" if "length a < 2 ^ 32" "length b < 2 ^ 32" for a b
    using cmp_memn_lex [OF that] by (auto simp: memn.less_def)
  have K: "length (NODEKEY (page_items mp ! k)) < 2 ^ 32" if "k < NUMKEYS mp" for k
    using assms(3) that by simp
  have srt: "lex_less (NODEKEY (page_items mp ! i)) (NODEKEY (page_items mp ! j))"
    if "i < j" "j < NUMKEYS mp" for i j
    using assms(5) that by (auto simp: sorted_wrt_iff_nth_less)
  have "\<exists>r exact. mdb_node_search Cmp_memn ksz mp key = Some (r, exact, if r < NUMKEYS mp then Some r else None) \<and>
     0 \<le> r \<and> r \<le> NUMKEYS mp \<and> (\<forall>k. 0 \<le> k \<longrightarrow> k < r \<longrightarrow> memn.less (NODEKEY (page_items mp ! k)) key) \<and>
     (\<forall>k. r \<le> k \<longrightarrow> k < NUMKEYS mp \<longrightarrow>
        NODEKEY (page_items mp ! k) = key \<or> memn.less key (NODEKEY (page_items mp ! k))) \<and>
     (exact \<longleftrightarrow> r < NUMKEYS mp \<and> NODEKEY (page_items mp ! r) = key)"
  proof (rule memn.node_search_page)
    show "mdb_cmp_memn = cmp_call Cmp_memn" by (simp add: cmp_call_def fun_eq_iff)
    show "\<not> (cmp_is Cmp_memn Cmp_cint \<and> IS_BRANCH mp)" by (simp add: cmp_is_def)
    fix i j assume "i < j" "j < NUMKEYS mp"
    then show "memn.less (NODEKEY (page_items mp ! i)) (NODEKEY (page_items mp ! j))"
      using srt less K by simp
  qed (use assms(1,2,4) K in auto)
  then obtain r exact where
    r: "mdb_node_search Cmp_memn ksz mp key = Some (r, exact, if r < NUMKEYS mp then Some r else None)"
    "r \<le> NUMKEYS mp" "\<And>k. k < r \<Longrightarrow> memn.less (NODEKEY (page_items mp ! k)) key"
    "\<And>k. r \<le> k \<Longrightarrow> k < NUMKEYS mp \<Longrightarrow> NODEKEY (page_items mp ! k) = key \<or> memn.less key (NODEKEY (page_items mp ! k))"
    "exact \<longleftrightarrow> r < NUMKEYS mp \<and> NODEKEY (page_items mp ! r) = key"
    by auto
  have lt: "lex_less (NODEKEY (page_items mp ! k)) key" if "k < r" for k
    using r(2) r(3) [OF that] that less [OF K [of k] assms(4)] by simp
  have ge: "NODEKEY (page_items mp ! k) = key \<or> lex_less key (NODEKEY (page_items mp ! k))"
    if "r \<le> k" "k < NUMKEYS mp" for k
    using r(4) [OF that] less [OF assms(4) K [OF that(2)]] by simp
  have "key \<in> NODEKEY ` set (page_items mp) \<longleftrightarrow> r < NUMKEYS mp \<and> NODEKEY (page_items mp ! r) = key"
  proof
    assume "key \<in> NODEKEY ` set (page_items mp)"
    then obtain k where k: "k < NUMKEYS mp" "NODEKEY (page_items mp ! k) = key" by (auto simp: in_set_conv_nth)
    have "\<not> k < r" using lt [of k] k by auto
    moreover have "\<not> r < k" using srt [of r k] ge [of r] k lex_less_asym by (auto dest: lex_less_trans)
    ultimately show "r < NUMKEYS mp \<and> NODEKEY (page_items mp ! r) = key" using k by (metis linorder_neqE_nat)
  qed auto
  moreover have "\<not> lex_less (NODEKEY (page_items mp ! k)) key" if "r \<le> k" "k < NUMKEYS mp" for k
    using ge [OF that] lex_less_irrefl lex_less_asym by metis
  ultimately show ?thesis using r(1,2,5) lt by blast
qed

lemma leaf_search_position_witness: "\<exists>n. mdb_node_search Cmp_memn 0 sample_leaf [3] = Some (n, True, Some n) \<and> n = 1"
proof -
  obtain r exact where "mdb_node_search Cmp_memn 0 sample_leaf [3] = Some (r, exact, if r < 2 then Some r else None)"
    "r \<le> 2" "\<forall>k < r. lex_less (NODEKEY (page_items sample_leaf ! k)) [3]"
    "\<forall>k. r \<le> k \<longrightarrow> k < 2 \<longrightarrow> \<not> lex_less (NODEKEY (page_items sample_leaf ! k)) [3]" "exact"
    using leaf_search_position [of 64 sample_leaf "[3]" 0] sample_leaf_ok by auto
  moreover from this have "r = 1"
    using sample_leaf_ok by (cases "r = 0"; cases "r = 2") (auto dest: spec [of _ 0] spec [of _ 1])
  ultimately show ?thesis by simp
qed

section \<open>Fields of a node\<close>

text \<open>
  C36: the page number of a branch node and the data size of a leaf node are read back as they were
  set, up to 48 and 32 bits; setting them leaves the key and the data of the node alone.
\<close>

theorem node_fields_roundtrip:
  assumes "unat pg < 2 ^ 48" and "sz < 2 ^ 32"
  shows "NODEPGNO (SETPGNO nd pg) = pg \<and> NODEDSZ (SETDSZ nd sz) = sz
     \<and> NODEKEY (SETPGNO nd pg) = NODEKEY nd \<and> NODEDATA (SETPGNO nd pg) = NODEDATA nd
     \<and> NODEKEY (SETDSZ nd sz) = NODEKEY nd \<and> NODEDATA (SETDSZ nd sz) = NODEDATA nd
     \<and> mn_flags (SETDSZ nd sz) = mn_flags nd"
  using NODEPGNO_SETPGNO_id [OF assms(1)] NODEDSZ_SETDSZ [OF assms(2)]
  by (simp add: NODEKEY_def NODEDATA_def)

lemma node_fields_roundtrip_witness:
  "NODEPGNO (SETPGNO (sample_node 1 10) 123456789012) = 123456789012
   \<and> NODEDSZ (SETDSZ (sample_node 1 10) 70000) = 70000"
  using node_fields_roundtrip [of 123456789012 70000 "sample_node 1 10"] by simp

end
