(* ===== verification/Lmdb_Meta.thy ===== *)
theory Lmdb_Meta
  imports Lmdb_Types
begin

text \<open>
  The meta pages (\<open>LegacyDatabase/mdb.c\<close>): the two records at the start of the file, of which the
  one with the higher transaction number is current.  A commit writes the other one
  (\<open>mdb_env_write_meta\<close>), so that a crash leaves the current one as it was.
\<close>

section \<open>The current meta page\<close>

definition mdb_env_pick_meta :: "MDB_env \<Rightarrow> nat option" where
  "mdb_env_pick_meta e = do {
     m0 \<leftarrow> rd (me_metas e) 0;
     m1 \<leftarrow> rd (me_metas e) 1;
     Some (if mm_txnid m0 < mm_txnid m1 then 1 else 0) }"

text \<open>\<open>env->me_metas[mdb_env_pick_meta(env)]\<close>.\<close>

definition picked_meta :: "MDB_env \<Rightarrow> MDB_meta option" where
  "picked_meta e = do { i \<leftarrow> mdb_env_pick_meta e; rd (me_metas e) i }"

section \<open>Synchronising\<close>

text \<open>Both branches are one system call (\<open>msync\<close> of the map or \<open>fdatasync\<close> of the file).\<close>

definition mdb_env_sync :: "bool \<Rightarrow> st \<Rightarrow> int \<times> st" where
  "mdb_env_sync force st =
     (if force \<or> \<not> F_ISSET (me_flags (env st)) MDB_NOSYNC then io_call st else (0, st))"

section \<open>Writing a meta page\<close>

text \<open>
  A write of the fields from \<open>mm_mapsize\<close> on, in their order in the record, of which the first \<open>k\<close>
  reach the file.
\<close>

definition store_meta :: "nat \<Rightarrow> MDB_meta \<Rightarrow> MDB_meta \<Rightarrow> MDB_meta" where
  "store_meta k new old =
     (let m = (if k \<ge> 1 then old\<lparr>mm_mapsize := mm_mapsize new\<rparr> else old);
          m = (if k \<ge> 2 then m\<lparr>mm_dbs := (mm_dbs m)[0 := mm_dbs new ! 0]\<rparr> else m);
          m = (if k \<ge> 3 then m\<lparr>mm_dbs := (mm_dbs m)[1 := mm_dbs new ! 1]\<rparr> else m);
          m = (if k \<ge> 4 then m\<lparr>mm_last_pg := mm_last_pg new\<rparr> else m)
      in if k \<ge> 5 then m\<lparr>mm_txnid := mm_txnid new\<rparr> else m)"

definition META_FIELDS :: nat where
  "META_FIELDS = 5"

definition set_meta :: "nat \<Rightarrow> MDB_meta \<Rightarrow> st \<Rightarrow> st" where
  "set_meta i m = upd_env (\<lambda>e. e\<lparr>me_metas := (me_metas e)[i := m]\<rparr>)"

text \<open>\<open>pwrite(fd, &meta + off, len, ...)\<close>: the code 0 when all of it was written.\<close>

definition pwrite_meta :: "nat \<Rightarrow> MDB_meta \<Rightarrow> st \<Rightarrow> (int \<times> st) option" where
  "pwrite_meta toggle new st = do {
     old \<leftarrow> rd (me_metas (env st)) toggle;
     let k = (if io_rc st (nio st) = 0 then META_FIELDS else io_part st (nio st));
     let (rc, st) = io_call st;
     Some (rc, set_meta toggle (store_meta k new old) st) }"

definition set_mti_txnid :: "txnid_t \<Rightarrow> st \<Rightarrow> st" where
  "set_mti_txnid n = upd_env (\<lambda>e. e\<lparr>me_txns := map_option (\<lambda>ti. ti\<lparr>mti_txnid := n\<rparr>) (me_txns e)\<rparr>)"

definition set_fatal :: "st \<Rightarrow> st" where
  "set_fatal = upd_env (\<lambda>e. e\<lparr>me_flags := me_flags e OR MDB_FATAL_ERROR\<rparr>)"

definition mdb_env_write_meta :: "st \<Rightarrow> (int \<times> st) option" where
  "mdb_env_write_meta st = do {
     t \<leftarrow> get_txn st;
     let toggle = unat (mt_txnid t AND 1);
     mp \<leftarrow> rd (me_metas (env st)) toggle;
     other \<leftarrow> rd (me_metas (env st)) (unat (mt_txnid t AND 1 XOR 1));
     d0 \<leftarrow> rd (mt_dbs t) FREE_DBI;
     d1 \<leftarrow> rd (mt_dbs t) MAIN_DBI;
     let mapsize = (if unat (mm_mapsize other) < me_mapsize (env st)
                    then of_nat (me_mapsize (env st)) else mm_mapsize other);
     let new = mp\<lparr>mm_mapsize := mapsize, mm_dbs := [d0, d1], mm_last_pg := mt_next_pgno t - 1,
                  mm_txnid := mt_txnid t\<rparr>;
     if anyset (me_flags (env st)) MDB_WRITEMAP then do {
       let st = set_meta toggle new st;
       let (rc, st) = (if \<not> anyset (me_flags (env st)) (MDB_NOMETASYNC OR MDB_NOSYNC)
                       then io_call st else (0, st));
       if rc \<noteq> 0 then Some (rc, set_fatal st)
       else Some (MDB_SUCCESS, set_mti_txnid (mt_txnid t) st) }
     else do {
       (rc, st) \<leftarrow> pwrite_meta toggle new st;
       if rc \<noteq> 0 then do {
         (_, st) \<leftarrow> pwrite_meta toggle (new\<lparr>mm_last_pg := mm_last_pg mp, mm_txnid := mm_txnid mp\<rparr>) st;
         Some (rc, set_fatal st) }
       else Some (MDB_SUCCESS, set_mti_txnid (mt_txnid t) st) } }"

section \<open>Reading and creating the meta pages\<close>

text \<open>\<open>mm_psize\<close> and \<open>mm_flags\<close> are fields of the free-list database's record.\<close>

definition mm_psize :: "MDB_meta \<Rightarrow> nat" where
  "mm_psize m = unat (md_pad (mm_dbs m ! FREE_DBI))"

definition zero_meta :: MDB_meta where
  "zero_meta = \<lparr>mm_magic = 0, mm_version = 0, mm_address = 0, mm_mapsize = 0,
     mm_dbs = [zero_db, zero_db], mm_last_pg = 0, mm_txnid = 0\<rparr>"

definition sizeof_MDB_metabuf :: int where
  "sizeof_MDB_metabuf = 152"

text \<open>
  What \<open>pread\<close> gives at an offset: the number of bytes (negative for an error), the error code,
  and the page's flags and meta record when all of it was read.
\<close>

type_synonym pread_fun = "nat \<Rightarrow> int \<times> int \<times> 16 word \<times> MDB_meta"

definition read_one_header :: "pread_fun \<Rightarrow> nat \<Rightarrow> MDB_meta \<Rightarrow> int \<times> MDB_meta" where
  "read_one_header pread off meta =
     (let (n, err, flags, m) = pread off in
      if n \<noteq> sizeof_MDB_metabuf then
        (if n = 0 \<and> off = 0 then ENOENT else if n < 0 then err else MDB_INVALID, meta)
      else if \<not> F_ISSET flags P_META then (MDB_INVALID, meta)
      else if mm_magic m \<noteq> MDB_MAGIC then (MDB_INVALID, meta)
      else if mm_version m \<noteq> MDB_DATA_VERSION then (MDB_VERSION_MISMATCH, meta)
      else (0, if off = 0 \<or> mm_txnid m > mm_txnid meta then m else meta))"

definition mdb_env_read_header :: "pread_fun \<Rightarrow> MDB_meta \<Rightarrow> int \<times> MDB_meta" where
  "mdb_env_read_header pread meta =
     (let (rc, meta) = read_one_header pread 0 meta in
      if rc \<noteq> 0 then (rc, meta) else read_one_header pread (mm_psize meta) meta)"

definition mdb_env_init_meta0 :: "MDB_env \<Rightarrow> MDB_meta \<Rightarrow> MDB_meta" where
  "mdb_env_init_meta0 e meta = meta\<lparr>mm_magic := MDB_MAGIC, mm_version := MDB_DATA_VERSION,
     mm_mapsize := of_nat (me_mapsize e), mm_last_pg := 1,
     mm_dbs := [(mm_dbs meta ! 0)\<lparr>md_pad := of_nat (me_psize e),
                  md_flags := ucast (me_flags e AND 0xffff) OR ucast MDB_INTEGERKEY, md_root := P_INVALID\<rparr>,
                (mm_dbs meta ! 1)\<lparr>md_root := P_INVALID\<rparr>]\<rparr>"

text \<open>
  \<open>pwrite\<close> of the two pages gives the number of bytes written or a negative number, and an error
  code.  The results are the return code, the record, and the records in the file when the write
  was complete.  The code does not test the result of \<open>calloc\<close>.
\<close>

definition mdb_env_init_meta ::
  "(nat \<Rightarrow> int \<times> int) \<Rightarrow> MDB_meta \<Rightarrow> st \<Rightarrow> (int \<times> MDB_meta \<times> MDB_meta list \<times> st) option" where
  "mdb_env_init_meta pwrite meta st =
     (let psize = me_psize (env st); meta = mdb_env_init_meta0 (env st) meta in
      if \<not> mem_of st (2 * psize) then None
      else let (len, err) = pwrite (psize * 2) in
        Some (if len < 0 then (err, meta, [], tick st)
              else if len = int (psize * 2) then (MDB_SUCCESS, meta, [meta, meta], tick st)
              else (ENOSPC, meta, [], tick st)))"

section \<open>The map and its size\<close>

text \<open>
  \<open>mmap\<close> gives an error code and an address; the address \<open>addr\<close> is 0 unless \<open>MDB_FIXEDMAP\<close> asks for
  one.  \<open>file_metas\<close> are the meta records in the file.
\<close>

definition mdb_env_map :: "(nat \<Rightarrow> nat \<Rightarrow> int \<times> nat) \<Rightarrow> MDB_meta list \<Rightarrow> nat \<Rightarrow> st \<Rightarrow> int \<times> st" where
  "mdb_env_map mmap file_metas addr st =
     (let (rc, st) = (if anyset (me_flags (env st)) MDB_WRITEMAP then io_call st else (0, st)) in
      if rc \<noteq> 0 then (rc, st)
      else let (rc, a) = mmap addr (me_mapsize (env st)) in
        if rc \<noteq> 0 then (rc, upd_env (\<lambda>e. e\<lparr>me_mapaddr := 0\<rparr>) st)
        else let st = upd_env (\<lambda>e. e\<lparr>me_mapaddr := a\<rparr>) st in
          if addr \<noteq> 0 \<and> a \<noteq> addr then (EBUSY, st)
          else (MDB_SUCCESS, upd_env (\<lambda>e. e\<lparr>me_metas := file_metas\<rparr>) st))"

text \<open>The end of \<open>mdb_env_set_mapsize\<close>.\<close>

definition store_mapsize :: "nat \<Rightarrow> st \<Rightarrow> int \<times> st" where
  "store_mapsize sz st =
     (MDB_SUCCESS, upd_env (\<lambda>e. let e = e\<lparr>me_mapsize := sz\<rparr> in
        if me_psize e \<noteq> 0 then e\<lparr>me_maxpg := of_nat (sz div me_psize e)\<rparr> else e) st)"

definition mdb_env_set_mapsize :: "(nat \<Rightarrow> nat \<Rightarrow> int \<times> nat) \<Rightarrow> nat \<Rightarrow> st \<Rightarrow> (int \<times> st) option" where
  "mdb_env_set_mapsize mmap sz st =
     (if me_mapaddr (env st) \<noteq> 0 then
        if me_txn (env st) then Some (EINVAL, st)
        else do {
          m \<leftarrow> picked_meta (env st);
          let minsize = unat ((mm_last_pg m + 1) * of_nat (me_psize (env st)));
          let sz = (if sz = 0 then unat (mm_mapsize m)
                    else if sz < me_mapsize (env st) \<and> sz < minsize then minsize else sz);
          let old = (if anyset (me_flags (env st)) MDB_FIXEDMAP then me_mapaddr (env st) else 0);
          let (rc, st) = mdb_env_map mmap (me_metas (env st)) old (upd_env (\<lambda>e. e\<lparr>me_mapsize := sz\<rparr>) st);
          if rc \<noteq> 0 then Some (rc, st) else Some (store_mapsize sz st) }
      else Some (store_mapsize sz st))"

definition mdb_env_set_maxdbs :: "nat \<Rightarrow> st \<Rightarrow> int \<times> st" where
  "mdb_env_set_maxdbs dbs st =
     (if me_mapaddr (env st) \<noteq> 0 then (EINVAL, st)
      else (MDB_SUCCESS, upd_env (\<lambda>e. e\<lparr>me_maxdbs := dbs + 2\<rparr>) st))"

definition mdb_env_set_maxreaders :: "nat \<Rightarrow> st \<Rightarrow> int \<times> st" where
  "mdb_env_set_maxreaders readers st =
     (if me_mapaddr (env st) \<noteq> 0 \<or> readers < 1 then (EINVAL, st)
      else (MDB_SUCCESS, upd_env (\<lambda>e. e\<lparr>me_maxreaders := readers\<rparr>) st))"

definition mdb_env_get_maxreaders :: "st \<Rightarrow> nat" where
  "mdb_env_get_maxreaders st = me_maxreaders (env st)"

end
