(* ===== verification/Lmdb_Sample.thy ===== *)
theory Lmdb_Sample
  imports Lmdb_Meta
begin

text \<open>
  A small open environment, a write transaction and the states made of them, on which the theorems
  of the development are evaluated.  The environment has committed transaction 6; its lock table
  holds one reader of transaction 5 and a free slot.
\<close>

definition sample_db :: MDB_db where
  "sample_db = zero_db\<lparr>md_root := P_INVALID\<rparr>"

definition sample_meta :: "txnid_t \<Rightarrow> MDB_meta" where
  "sample_meta n = zero_meta\<lparr>mm_magic := MDB_MAGIC, mm_version := MDB_DATA_VERSION, mm_dbs := [sample_db, sample_db],
     mm_mapsize := 1048576, mm_last_pg := 1 + n, mm_txnid := n\<rparr>"

definition sample_idl :: MDB_IDL where
  "sample_idl = \<lparr>idl_len = 4, idl_ids = [0, 0, 0, 0, 0]\<rparr>"

definition sample_txn :: MDB_txn where
  "sample_txn = \<lparr>mt_next_pgno = 8, mt_txnid = 7, mt_free_pgs = sample_idl, mt_loose_pgs = [], mt_loose_count = 0,
     mt_spill_pgs = None, mt_dirty_list = [\<lparr>mid = 0, mptr = PNull\<rparr>, \<lparr>mid = 0, mptr = PNull\<rparr>], mt_reader = None,
     mt_dbs = [sample_db, sample_db], mt_dbiseqs = [0, 0], mt_cursors = [[], []], mt_backups = [],
     mt_dbflags = [DB_VALID, DB_VALID], mt_numdbs = 2, mt_dbxs = True, mt_flags = 0,
     mt_dirty_room = MDB_IDL_UM_MAX, mnt_pgstate = \<lparr>mf_pghead = None, mf_pglast = 0\<rparr>\<rparr>"

definition sample_ti :: MDB_txninfo where
  "sample_ti = \<lparr>mti_txnid = 6, mti_numreaders = 2,
     mti_readers = [\<lparr>mr_txnid = 5, mr_pid = 42, mr_tid = 1\<rparr>, \<lparr>mr_txnid = -1, mr_pid = 0, mr_tid = 0\<rparr>,
                    \<lparr>mr_txnid = -1, mr_pid = 0, mr_tid = 0\<rparr>]\<rparr>"

definition sample_env :: MDB_env where
  "sample_env = \<lparr>me_flags = MDB_NOSYNC, me_psize = 4096, me_os_psize = 4096, me_maxreaders = 3, me_numreaders = 2,
     me_numdbs = 2, me_maxdbs = 2, me_pid = 42, me_mapaddr = 65536, me_map = (\<lambda>_. None), me_txns = Some sample_ti,
     me_metas = [sample_meta 6, sample_meta 5], me_txn = False, me_txn0 = sample_txn, me_mapsize = 1048576,
     me_maxpg = 256, me_dbxs = [\<lparr>md_name = [], md_cmp = None, md_dcmp = None\<rparr>, \<lparr>md_name = [], md_cmp = None, md_dcmp = None\<rparr>],
     me_dbflags = [0, 0], me_dbiseqs = [0, 0], me_pgoldest = 0, me_pglast = 0, me_pghead = None, me_dpages = [],
     me_free_pgs = sample_idl, me_maxfree_1pg = 508, me_nodemax = 2030, me_live_reader = False\<rparr>"

text \<open>No transaction runs in \<open>sample_st\<close>; every allocation and every system call succeeds.\<close>

definition sample_st :: st where
  "sample_st = \<lparr>env = sample_env, txns = [], crs = (\<lambda>_. None), ncrs = 0, heap = (\<lambda>_. None), nalloc = 0,
     malloc_ok = (\<lambda>_ _. True), nio = 0, io_rc = (\<lambda>_. 0), io_part = (\<lambda>_. 0), tls = None, tid = 7,
     pid_locked = (\<lambda>_. False)\<rparr>"

definition sample_wst :: st where
  "sample_wst = sample_st\<lparr>txns := [sample_txn], env := sample_env\<lparr>me_txn := True\<rparr>\<rparr>"

lemma sample_meta_simps [simp]: "mm_txnid (sample_meta n) = n" "mm_dbs (sample_meta n) = [sample_db, sample_db]"
  "mm_last_pg (sample_meta n) = 1 + n" "mm_mapsize (sample_meta n) = 1048576"
  by (simp_all add: sample_meta_def)

lemma sample_txn_simps [simp]:
  "mt_next_pgno sample_txn = 8" "mt_txnid sample_txn = 7" "mt_free_pgs sample_txn = sample_idl"
  "mt_loose_pgs sample_txn = []" "mt_loose_count sample_txn = 0" "mt_spill_pgs sample_txn = None"
  "mt_dirty_list sample_txn = [\<lparr>mid = 0, mptr = PNull\<rparr>, \<lparr>mid = 0, mptr = PNull\<rparr>]"
  "mt_reader sample_txn = None" "mt_dbs sample_txn = [sample_db, sample_db]" "mt_dbiseqs sample_txn = [0, 0]"
  "mt_cursors sample_txn = [[], []]" "mt_backups sample_txn = []"
  "mt_dbflags sample_txn = [DB_VALID, DB_VALID]" "mt_numdbs sample_txn = 2" "mt_dbxs sample_txn = True"
  "mt_flags sample_txn = 0" "mt_dirty_room sample_txn = MDB_IDL_UM_MAX"
  "mnt_pgstate sample_txn = \<lparr>mf_pghead = None, mf_pglast = 0\<rparr>"
  by (simp_all add: sample_txn_def)

lemma sample_ti_simps [simp]:
  "mti_txnid sample_ti = 6" "mti_numreaders sample_ti = 2"
  "mti_readers sample_ti = [\<lparr>mr_txnid = 5, mr_pid = 42, mr_tid = 1\<rparr>, \<lparr>mr_txnid = -1, mr_pid = 0, mr_tid = 0\<rparr>, \<lparr>mr_txnid = -1, mr_pid = 0, mr_tid = 0\<rparr>]"
  by (simp_all add: sample_ti_def)

lemma sample_env_simps [simp]:
  "me_flags sample_env = MDB_NOSYNC" "me_psize sample_env = 4096" "me_os_psize sample_env = 4096"
  "me_maxreaders sample_env = 3" "me_numreaders sample_env = 2" "me_numdbs sample_env = 2"
  "me_maxdbs sample_env = 2" "me_pid sample_env = 42" "me_mapaddr sample_env = 65536"
  "me_map sample_env = (\<lambda>_. None)" "me_txns sample_env = Some sample_ti"
  "me_metas sample_env = [sample_meta 6, sample_meta 5]" "me_txn sample_env = False"
  "me_txn0 sample_env = sample_txn" "me_mapsize sample_env = 1048576" "me_maxpg sample_env = 256"
  "me_dbxs sample_env = [\<lparr>md_name = [], md_cmp = None, md_dcmp = None\<rparr>, \<lparr>md_name = [], md_cmp = None, md_dcmp = None\<rparr>]"
  "me_dbflags sample_env = [0, 0]" "me_dbiseqs sample_env = [0, 0]" "me_pgoldest sample_env = 0"
  "me_pglast sample_env = 0" "me_pghead sample_env = None" "me_dpages sample_env = []"
  "me_free_pgs sample_env = sample_idl" "me_maxfree_1pg sample_env = 508" "me_nodemax sample_env = 2030"
  "me_live_reader sample_env = False"
  by (simp_all add: sample_env_def)

lemma sample_st_simps [simp]:
  "env sample_st = sample_env" "txns sample_st = []" "crs sample_st = (\<lambda>_. None)" "ncrs sample_st = 0"
  "heap sample_st = (\<lambda>_. None)" "nalloc sample_st = 0" "malloc_ok sample_st = (\<lambda>_ _. True)"
  "nio sample_st = 0" "io_rc sample_st = (\<lambda>_. 0)" "io_part sample_st = (\<lambda>_. 0)"
  "tls sample_st = None" "tid sample_st = 7" "pid_locked sample_st = (\<lambda>_. False)"
  by (simp_all add: sample_st_def)

lemma sample_wst_simps [simp]:
  "env sample_wst = sample_env\<lparr>me_txn := True\<rparr>" "txns sample_wst = [sample_txn]" "get_txn sample_wst = Some sample_txn"
  "nio sample_wst = 0" "io_rc sample_wst = (\<lambda>_. 0)" "io_part sample_wst = (\<lambda>_. 0)" "crs sample_wst = (\<lambda>_. None)"
  "heap sample_wst = (\<lambda>_. None)" "malloc_ok sample_wst = (\<lambda>_ _. True)" "nalloc sample_wst = 0" "\<not> has_parent sample_wst"
  "mem_of sample_wst = (\<lambda>_. True)" "mem_of sample_st = (\<lambda>_. True)" "get_txn sample_st = None"
  by (simp_all add: sample_wst_def get_txn_def has_parent_def mem_of_def fun_eq_iff)

lemma sample_flags [simp]: "\<not> anyset MDB_NOSYNC MDB_WRITEMAP" "\<not> anyset MDB_NOSYNC MDB_FATAL_ERROR"
  "\<not> anyset MDB_NOSYNC MDB_RDONLY" "\<not> anyset MDB_NOSYNC MDB_NOTLS" "F_ISSET MDB_NOSYNC MDB_NOSYNC"
  by (simp_all add: anyset_def F_ISSET_def MDB_NOSYNC_def MDB_WRITEMAP_def MDB_FATAL_ERROR_def MDB_RDONLY_def MDB_NOTLS_def)

lemmas sample_defs = sample_db_def sample_idl_def sample_txn_def sample_ti_def sample_env_def sample_st_def sample_wst_def

end
