(* ===== verification/Lmdb_Meta_Facts.thy ===== *)
theory Lmdb_Meta_Facts
  imports Lmdb_Sample
begin

text \<open>
  What the two meta pages guarantee: a write of a meta page that is cut off leaves the current one
  in force, a complete one puts the new one in force, and a failed write that was taken back leaves
  the environment with its old state and marked as unusable.  The map size is never set below what
  is in use.
\<close>

section \<open>The current meta page\<close>

text \<open>The meta page of transaction \<open>n\<close> is number \<open>n & 1\<close>, and the current one is where it belongs.\<close>

definition metas_ok :: "MDB_env \<Rightarrow> MDB_meta \<Rightarrow> bool" where
  "metas_ok e m \<longleftrightarrow> length (me_metas e) = 2 \<and> (\<forall>x \<in> set (me_metas e). length (mm_dbs x) = 2) \<and>
     mdb_env_pick_meta e = Some (unat (mm_txnid m AND 1)) \<and> picked_meta e = Some m"

lemma pick_meta_eq: "me_metas e = [m0, m1] \<Longrightarrow>
    mdb_env_pick_meta e = Some (if mm_txnid m0 < mm_txnid m1 then 1 else 0) \<and>
    picked_meta e = Some (if mm_txnid m0 < mm_txnid m1 then m1 else m0)"
  by (simp add: mdb_env_pick_meta_def picked_meta_def)

lemma store_meta_short: "k < 5 \<Longrightarrow> mm_txnid (store_meta k new old) = mm_txnid old"
  by (simp add: store_meta_def Let_def)

lemma store_meta_full:
  "5 \<le> k \<Longrightarrow> store_meta k new old = old\<lparr>mm_mapsize := mm_mapsize new,
     mm_dbs := (mm_dbs old)[0 := mm_dbs new ! 0, 1 := mm_dbs new ! 1], mm_last_pg := mm_last_pg new,
     mm_txnid := mm_txnid new\<rparr>"
  by (simp add: store_meta_def Let_def)

lemma store_meta_dbs [simp]: "length (mm_dbs (store_meta k new old)) = length (mm_dbs old)"
  by (simp add: store_meta_def Let_def)

lemma parity: "unat ((n :: 64 word) AND 1) = (if bit n 0 then 1 else 0)"
  by (simp add: and_one_eq mod_2_eq_odd bit_0)

lemma parity_add_one: "bit ((n :: 64 word) + 1) 0 \<longleftrightarrow> \<not> bit n 0"
  by (simp add: bit_0)

lemma parity_xor: "unat (((n :: 64 word) AND 1) XOR 1) = (if bit n 0 then 0 else 1)"
  by (simp add: and_one_eq mod_2_eq_odd bit_0)

lemma less_add_one64:
  assumes "(n :: 64 word) \<noteq> -1"
  shows "n < n + 1"
proof -
  have "unat n \<noteq> unat (-1 :: 64 word)" using assms by (simp only: word_unat_eq_iff) simp
  moreover have "unat (-1 :: 64 word) = 2 ^ 64 - 1" by (simp add: unsigned_minus_1_eq_mask mask_eq_exp_minus_1)
  ultimately have "unat n + 1 < 2 ^ 64" using unat64_less [of n] by simp
  then show ?thesis using unat_add_small [of n 1] by (simp add: word_less_nat_alt)
qed

text \<open>The two cases of the invariant, with the current meta page and the other one.\<close>

lemma metas_ok_cases:
  assumes "metas_ok e m"
  obtains (even) o' where "\<not> bit (mm_txnid m) 0" "me_metas e = [m, o']" "\<not> mm_txnid m < mm_txnid o'"
      "length (mm_dbs m) = 2" "length (mm_dbs o') = 2"
  | (odd) o' where "bit (mm_txnid m) 0" "me_metas e = [o', m]" "mm_txnid o' < mm_txnid m"
      "length (mm_dbs m) = 2" "length (mm_dbs o') = 2"
proof -
  obtain m0 m1 where ms: "me_metas e = [m0, m1]"
    using assms by (auto simp: metas_ok_def numeral_2_eq_2 length_Suc_conv)
  show ?thesis
    using assms pick_meta_eq [OF ms] that ms
    by (cases "mm_txnid m0 < mm_txnid m1"; cases "bit (mm_txnid m) 0") (auto simp: metas_ok_def parity)
qed

lemma metas_okI:
  assumes "length (mm_dbs m) = 2" "length (mm_dbs o') = 2"
    and "if bit (mm_txnid m) 0 then me_metas e = [o', m] \<and> mm_txnid o' < mm_txnid m
         else me_metas e = [m, o'] \<and> \<not> mm_txnid m < mm_txnid o'"
  shows "metas_ok e m"
  using assms by (auto simp: metas_ok_def parity mdb_env_pick_meta_def picked_meta_def split: if_splits)

text \<open>Replacing the other meta page by one that is not newer, or by the next one.\<close>

lemma replace_other_old:
  assumes "metas_ok e m" "i = unat ((mm_txnid m + 1) AND 1)" "length (mm_dbs x) = 2"
    and "mm_txnid x = mm_txnid (me_metas e ! i)" "me_metas e' = (me_metas e)[i := x]"
  shows "metas_ok e' m"
  using assms(1)
  by (cases rule: metas_ok_cases)
    (use assms(2-) in \<open>auto intro!: metas_okI [of m x] simp: parity parity_add_one\<close>)

lemma replace_other_new:
  assumes "metas_ok e m" "mm_txnid m \<noteq> -1" "i = unat ((mm_txnid m + 1) AND 1)" "length (mm_dbs x) = 2"
    and "mm_txnid x = mm_txnid m + 1" "me_metas e' = (me_metas e)[i := x]"
  shows "metas_ok e' x"
proof -
  note less_add_one64 [OF assms(2)]
  with assms(1) show ?thesis
    by (elim metas_ok_cases)
      (use assms(3-) in \<open>auto intro!: metas_okI [of x m] simp: parity parity_add_one\<close>)
qed

section \<open>Writing a meta page\<close>

lemma sample_metas_ok: "metas_ok sample_env (sample_meta 6)" "metas_ok (env sample_wst) (sample_meta 6)"
  by (rule metas_okI [where o' = "sample_meta 5"]; simp add: bit_0)+

text \<open>
  C37: a write of the meta page of the next transaction that is cut off after any number of fields
  leaves the current meta page in force and unchanged; only a complete write puts the new one in
  force.
\<close>

theorem meta_write_cut_off:
  assumes "metas_ok e m" and "mm_txnid m \<noteq> -1" and "mm_txnid new = mm_txnid m + 1"
    and "i = unat (mm_txnid new AND 1)"
    and "e' = e\<lparr>me_metas := (me_metas e)[i := store_meta k new (me_metas e ! i)]\<rparr>"
  shows "metas_ok e' (if k < META_FIELDS then m else store_meta k new (me_metas e ! i))"
proof -
  have len: "length (mm_dbs (store_meta k new (me_metas e ! i))) = 2"
    using assms(1,4) by (simp add: metas_ok_def parity)
  show ?thesis
  proof (cases "k < 5")
    case True
    then show ?thesis
      using replace_other_old [OF assms(1) _ len] assms(3-5) by (simp add: META_FIELDS_def store_meta_short)
  next
    case False
    then show ?thesis
      using replace_other_new [OF assms(1,2) _ len] assms(3-5) by (simp add: META_FIELDS_def store_meta_full)
  qed
qed

lemma meta_write_cut_off_witness:
  "metas_ok (sample_env\<lparr>me_metas := [sample_meta 6, store_meta 4 (sample_meta 7) (sample_meta 5)]\<rparr>) (sample_meta 6)"
  using meta_write_cut_off [of sample_env "sample_meta 6" "sample_meta 7" 1 _ 4]
  by (simp add: sample_metas_ok parity bit_0 META_FIELDS_def)

lemma pwrite_meta_eq:
  "i < length (me_metas (env st)) \<Longrightarrow> pwrite_meta i new st = Some (io_rc st (nio st),
     set_meta i (store_meta (if io_rc st (nio st) = 0 then META_FIELDS else io_part st (nio st)) new (me_metas (env st) ! i))
       (st\<lparr>nio := nio st + 1\<rparr>))"
  by (simp add: pwrite_meta_def io_call_def Let_def)

lemma set_meta_simps [simp]: "me_metas (env (set_meta i x st)) = (me_metas (env st))[i := x]"
  "nio (set_meta i x st) = nio st" "io_rc (set_meta i x st) = io_rc st" "io_part (set_meta i x st) = io_part st"
  "me_map (env (set_meta i x st)) = me_map (env st)" "me_txns (env (set_meta i x st)) = me_txns (env st)"
  "me_flags (env (set_meta i x st)) = me_flags (env st)"
  by (simp_all add: set_meta_def upd_env_def)

lemma set_fatal_simps [simp]: "me_metas (env (set_fatal st)) = me_metas (env st)"
  "me_map (env (set_fatal st)) = me_map (env st)" "me_txns (env (set_fatal st)) = me_txns (env st)"
  "me_flags (env (set_fatal st)) = me_flags (env st) OR MDB_FATAL_ERROR"
  by (simp_all add: set_fatal_def upd_env_def)

lemma set_mti_txnid_simps [simp]: "me_metas (env (set_mti_txnid n st)) = me_metas (env st)"
  "me_map (env (set_mti_txnid n st)) = me_map (env st)" "me_flags (env (set_mti_txnid n st)) = me_flags (env st)"
  "me_txns (env (set_mti_txnid n st)) = map_option (\<lambda>ti. ti\<lparr>mti_txnid := n\<rparr>) (me_txns (env st))"
  by (simp_all add: set_mti_txnid_def upd_env_def)

lemma F_ISSET_or: "F_ISSET (w OR f) f"
  by (rule bit_word_eqI [of "(w OR f) AND f" f, folded F_ISSET_def]) (auto simp: bit_simps)

lemma env_write_meta_run:
  assumes "get_txn st = Some t" and "metas_ok (env st) m" and "mm_txnid m \<noteq> -1"
    and "mt_txnid t = mm_txnid m + 1" and "2 \<le> length (mt_dbs t)"
    and "\<not> anyset (me_flags (env st)) MDB_WRITEMAP"
  shows "\<exists>rc st'. mdb_env_write_meta st = Some (rc, st') \<and> me_map (env st') = me_map (env st) \<and>
     txns st' = txns st \<and> heap st' = heap st \<and>
     (rc = 0 \<longrightarrow> (\<exists>m'. metas_ok (env st') m' \<and> mm_txnid m' = mt_txnid t \<and>
          mm_dbs m' = [mt_dbs t ! FREE_DBI, mt_dbs t ! MAIN_DBI] \<and> mm_last_pg m' = mt_next_pgno t - 1) \<and>
        me_txns (env st') = map_option (\<lambda>ti. ti\<lparr>mti_txnid := mt_txnid t\<rparr>) (me_txns (env st)) \<and>
        me_flags (env st') = me_flags (env st)) \<and>
     (rc \<noteq> 0 \<longrightarrow> F_ISSET (me_flags (env st')) MDB_FATAL_ERROR \<and> me_txns (env st') = me_txns (env st) \<and>
        (io_part st (nio st) < META_FIELDS \<or> io_rc st (nio st + 1) = 0 \<longrightarrow> metas_ok (env st') m))"
proof -
  note ok = assms(2)
  define i where "i = unat (mt_txnid t AND 1)"
  have i: "i < 2" "i = unat ((mm_txnid m + 1) AND 1)" by (auto simp: i_def parity assms(4))
  define old where "old = me_metas (env st) ! i"
  have len: "length (me_metas (env st)) = 2" using ok by (simp add: metas_ok_def)
  have lenold: "length (mm_dbs old) = 2" using ok i by (simp add: metas_ok_def old_def)
  define mapsize where "mapsize = (let o' = me_metas (env st) ! unat (mt_txnid t AND 1 XOR 1) in
      if unat (mm_mapsize o') < me_mapsize (env st) then of_nat (me_mapsize (env st)) else mm_mapsize o')"
  define new where "new = old\<lparr>mm_mapsize := mapsize, mm_dbs := [mt_dbs t ! 0, mt_dbs t ! 1],
      mm_last_pg := mt_next_pgno t - 1, mm_txnid := mt_txnid t\<rparr>"
  define k where "k = (if io_rc st (nio st) = 0 then META_FIELDS else io_part st (nio st))"
  define k2 where "k2 = (if io_rc st (nio st + 1) = 0 then META_FIELDS else io_part st (nio st + 1))"
  define x where "x = store_meta k new old"
  define y where "y = store_meta k2 (new\<lparr>mm_last_pg := mm_last_pg old, mm_txnid := mm_txnid old\<rparr>) x"
  define st1 where "st1 = set_meta i x (st\<lparr>nio := nio st + 1\<rparr>)"
  define st2 where "st2 = set_meta i y (st1\<lparr>nio := nio st + 2\<rparr>)"
  have run: "mdb_env_write_meta st =
      (if io_rc st (nio st) \<noteq> 0 then Some (io_rc st (nio st), set_fatal st2)
       else Some (MDB_SUCCESS, set_mti_txnid (mt_txnid t) st1))"
  proof -
    have d: "rd (mt_dbs t) 0 = Some (mt_dbs t ! 0)" "rd (mt_dbs t) (Suc 0) = Some (mt_dbs t ! 1)"
      "rd (me_metas (env st)) i = Some old" using assms(5) i(1) len by (auto simp: rd_def old_def)
    have o': "rd (me_metas (env st)) (unat (mt_txnid t AND 1 XOR 1)) = Some (me_metas (env st) ! unat (mt_txnid t AND 1 XOR 1))"
      using len by (simp add: parity_xor)
    have p1: "pwrite_meta i new st = Some (io_rc st (nio st), st1)"
      using i len by (simp add: pwrite_meta_eq k_def old_def x_def st1_def)
    have p2: "pwrite_meta i (new\<lparr>mm_last_pg := mm_last_pg old, mm_txnid := mm_txnid old\<rparr>) st1 = Some (io_rc st (nio st + 1), st2)"
      using i len by (simp add: pwrite_meta_eq k2_def y_def st1_def st2_def set_meta_def upd_env_def)
    have "mdb_env_write_meta st = pwrite_meta i new st \<bind> (\<lambda>(rc, st).
        if rc \<noteq> 0 then pwrite_meta i (new\<lparr>mm_last_pg := mm_last_pg old, mm_txnid := mm_txnid old\<rparr>) st \<bind>
          (\<lambda>(_, st). Some (rc, set_fatal st))
        else Some (MDB_SUCCESS, set_mti_txnid (mt_txnid t) st))"
      unfolding mdb_env_write_meta_def new_def mapsize_def Let_def
      by (simp only: assms(1) d o' bind.simps FREE_DBI_def MAIN_DBI_def i_def [symmetric] One_nat_def)
        (simp add: assms(6) d o')
    then show ?thesis by (simp add: p1 p2)
  qed
  have m1: "me_metas (env st1) = (me_metas (env st))[i := x]" and m2: "me_metas (env st2) = (me_metas (env st))[i := y]"
    by (simp_all add: st1_def st2_def)
  have lens: "length (mm_dbs x) = 2" "length (mm_dbs y) = 2" using lenold by (simp_all add: x_def y_def)
  have keep: "metas_ok (env (set_fatal st2)) m"
    if "io_rc st (nio st) \<noteq> 0" "io_part st (nio st) < META_FIELDS \<or> io_rc st (nio st + 1) = 0"
  proof (rule replace_other_old [OF ok i(2) lens(2)])
    show "mm_txnid y = mm_txnid (me_metas (env st) ! i)"
    proof (cases "io_rc st (nio st + 1) = 0 \<or> 5 \<le> k2")
      case True
      then show ?thesis by (simp add: y_def k2_def META_FIELDS_def store_meta_full old_def split: if_splits)
    next
      case False
      then show ?thesis using that by (simp add: y_def x_def k_def META_FIELDS_def store_meta_short old_def)
    qed
  qed (simp add: m2)
  have new: "metas_ok (env (set_mti_txnid (mt_txnid t) st1)) x \<and> mm_txnid x = mt_txnid t \<and>
      mm_dbs x = [mt_dbs t ! FREE_DBI, mt_dbs t ! MAIN_DBI] \<and> mm_last_pg x = mt_next_pgno t - 1"
    if "io_rc st (nio st) = 0"
  proof -
    have x: "mm_txnid x = mt_txnid t" "mm_dbs x = [mt_dbs t ! 0, mt_dbs t ! 1]" "mm_last_pg x = mt_next_pgno t - 1"
      using that lenold by (auto simp: x_def k_def META_FIELDS_def store_meta_full new_def numeral_2_eq_2 length_Suc_conv)
    then show ?thesis
      using replace_other_new [OF ok assms(3) i(2) lens(1) _ m1 [folded set_mti_txnid_simps(1) [of "mt_txnid t" st1]]]
      by (simp add: assms(4) FREE_DBI_def MAIN_DBI_def)
  qed
  show ?thesis
  proof (cases "io_rc st (nio st) = 0")
    case True
    then have e: "mdb_env_write_meta st = Some (0, set_mti_txnid (mt_txnid t) st1)"
      using run by (simp add: MDB_SUCCESS_def)
    show ?thesis
      by (rule exI [of _ 0], rule exI [of _ "set_mti_txnid (mt_txnid t) st1"])
        (use e new [OF True] in \<open>auto simp: st1_def set_mti_txnid_def upd_env_def set_meta_def\<close>)
  next
    case False
    then have e: "mdb_env_write_meta st = Some (io_rc st (nio st), set_fatal st2)" using run by simp
    show ?thesis
      by (rule exI [of _ "io_rc st (nio st)"], rule exI [of _ "set_fatal st2"])
        (use e keep [OF False] False in \<open>simp add: F_ISSET_or\<close>, simp add: st1_def st2_def set_fatal_def upd_env_def set_meta_def)
  qed
qed

text \<open>
  C12: \<open>mdb_env_write_meta\<close> either succeeds, and the meta page of the transaction is in force with its
  databases and its last page, which readers see from then on; or it fails, marks the environment as
  unusable, and the old meta page is in force (unless the failed write reached the last field and
  taking it back failed too).  In both cases no data page changes.
\<close>

theorem env_write_meta_outcome:
  assumes "get_txn st = Some t" and "metas_ok (env st) m" and "mm_txnid m \<noteq> -1"
    and "mt_txnid t = mm_txnid m + 1" and "2 \<le> length (mt_dbs t)"
    and "\<not> anyset (me_flags (env st)) MDB_WRITEMAP"
  shows "\<exists>rc st'. mdb_env_write_meta st = Some (rc, st') \<and> me_map (env st') = me_map (env st) \<and>
     (rc = 0 \<longrightarrow> (\<exists>m'. metas_ok (env st') m' \<and> mm_txnid m' = mt_txnid t \<and>
          mm_dbs m' = [mt_dbs t ! FREE_DBI, mt_dbs t ! MAIN_DBI] \<and> mm_last_pg m' = mt_next_pgno t - 1) \<and>
        me_txns (env st') = map_option (\<lambda>ti. ti\<lparr>mti_txnid := mt_txnid t\<rparr>) (me_txns (env st)) \<and>
        me_flags (env st') = me_flags (env st)) \<and>
     (rc \<noteq> 0 \<longrightarrow> F_ISSET (me_flags (env st')) MDB_FATAL_ERROR \<and> me_txns (env st') = me_txns (env st) \<and>
        (io_part st (nio st) < META_FIELDS \<or> io_rc st (nio st + 1) = 0 \<longrightarrow> metas_ok (env st') m))"
  using env_write_meta_run [OF assms] by blast

lemma env_write_meta_outcome_witness:
  "\<exists>st' m'. mdb_env_write_meta sample_wst = Some (0, st') \<and> metas_ok (env st') m' \<and> mm_txnid m' = 7 \<and> mm_last_pg m' = 7"
proof -
  obtain rc st' where run: "mdb_env_write_meta sample_wst = Some (rc, st')"
    and ok: "rc = 0 \<longrightarrow> (\<exists>m'. metas_ok (env st') m' \<and> mm_txnid m' = 7 \<and> mm_last_pg m' = 7)"
    using env_write_meta_outcome [of sample_wst sample_txn "sample_meta 6", OF _ sample_metas_ok(2)] by auto
  have "rc = 0"
    using run by (auto simp: mdb_env_write_meta_def pwrite_meta_def io_call_def Let_def MDB_SUCCESS_def rd_def
        split: if_splits Option.bind_splits)
  then show ?thesis using run ok by auto
qed

section \<open>The size of the map\<close>

lemma env_map_keeps: "mdb_env_map mmap ms addr st = (rc, st') \<Longrightarrow>
    me_mapsize (env st') = me_mapsize (env st) \<and> me_psize (env st') = me_psize (env st) \<and> me_maxpg (env st') = me_maxpg (env st)"
  by (auto simp: mdb_env_map_def io_call_def upd_env_def Let_def split: if_splits prod.splits)

text \<open>The size that the environment gets, and the space that the committed pages use.\<close>

definition used_space :: "MDB_env \<Rightarrow> MDB_meta \<Rightarrow> nat" where
  "used_space e m = (unat (mm_last_pg m) + 1) * me_psize e"

definition new_mapsize :: "MDB_env \<Rightarrow> MDB_meta \<Rightarrow> nat \<Rightarrow> nat" where
  "new_mapsize e m sz =
     (if sz = 0 then unat (mm_mapsize m)
      else if sz < me_mapsize e then max sz (used_space e m)
      else sz)"

lemma set_mapsize_run:
  assumes "me_mapaddr (env st) \<noteq> 0" and "metas_ok (env st) m" and "\<not> me_txn (env st)" and "used_space (env st) m < 2 ^ 64"
  shows "\<exists>rc st1. mdb_env_map mmap (me_metas (env st)) (if anyset (me_flags (env st)) MDB_FIXEDMAP then me_mapaddr (env st) else 0)
        (upd_env (\<lambda>e. e\<lparr>me_mapsize := new_mapsize (env st) m sz\<rparr>) st) = (rc, st1) \<and>
     mdb_env_set_mapsize mmap sz st = Some (if rc \<noteq> 0 then (rc, st1) else store_mapsize (new_mapsize (env st) m sz) st1)"
proof -
  have "(mm_last_pg m + 1) * of_nat (me_psize (env st)) = of_nat (used_space (env st) m)"
    by (simp add: used_space_def algebra_simps)
  then have min: "unat ((mm_last_pg m + 1) * of_nat (me_psize (env st))) = used_space (env st) m"
    using unat_of_nat64 [of "used_space (env st) m"] assms(4) by simp
  have sz: "(if sz = 0 then unat (mm_mapsize m) else if sz < me_mapsize (env st) \<and> sz < used_space (env st) m
      then used_space (env st) m else sz) = new_mapsize (env st) m sz" by (auto simp: new_mapsize_def)
  have "picked_meta (env st) = Some m" using assms(2) by (simp add: metas_ok_def)
  then have "mdb_env_set_mapsize mmap sz st = (case mdb_env_map mmap (me_metas (env st))
        (if anyset (me_flags (env st)) MDB_FIXEDMAP then me_mapaddr (env st) else 0)
        (upd_env (\<lambda>e. e\<lparr>me_mapsize := new_mapsize (env st) m sz\<rparr>) st) of
      (rc, st1) \<Rightarrow> if rc \<noteq> 0 then Some (rc, st1) else Some (store_mapsize (new_mapsize (env st) m sz) st1))"
    using assms(1,3) by (simp only: mdb_env_set_mapsize_def Let_def min sz if_True if_False not_False_eq_True Option.bind.bind_lunit simp_thms)
  moreover obtain rc st1 where "mdb_env_map mmap (me_metas (env st)) (if anyset (me_flags (env st)) MDB_FIXEDMAP then me_mapaddr (env st) else 0)
      (upd_env (\<lambda>e. e\<lparr>me_mapsize := new_mapsize (env st) m sz\<rparr>) st) = (rc, st1)" by fastforce
  ultimately show ?thesis by (intro exI [of _ rc] exI [of _ st1]) (simp only: prod.case if_distrib [of Some] simp_thms)
qed

text \<open>
  C38: \<open>mdb_env_set_mapsize\<close> of an open environment refuses with \<open>EINVAL\<close> while a write transaction runs.
  Otherwise the size becomes: for 0, the one of the meta page in force; for a size smaller than the
  configured one, that size or, if it is larger, the space that the committed pages use; and for any
  other size, that size, whatever space is used.  The greatest page number follows if the file can be
  mapped; if not, it stays as it was, though the size is already the new one.
\<close>

theorem set_mapsize_outcome:
  assumes "me_mapaddr (env st) \<noteq> 0" and "metas_ok (env st) m" and "used_space (env st) m < 2 ^ 64"
  shows "\<exists>rc st'. mdb_env_set_mapsize mmap sz st = Some (rc, st') \<and>
     (if me_txn (env st) then rc = EINVAL \<and> st' = st
      else me_mapsize (env st') = new_mapsize (env st) m sz \<and> me_psize (env st') = me_psize (env st) \<and>
        me_maxpg (env st') = (if rc = 0 \<and> me_psize (env st) \<noteq> 0 then of_nat (new_mapsize (env st) m sz div me_psize (env st))
                              else me_maxpg (env st)))"
proof (cases "me_txn (env st)")
  case True
  then show ?thesis using assms(1) by (simp add: mdb_env_set_mapsize_def)
next
  case False
  obtain rc st1 where mp: "mdb_env_map mmap (me_metas (env st)) (if anyset (me_flags (env st)) MDB_FIXEDMAP then me_mapaddr (env st) else 0)
      (upd_env (\<lambda>e. e\<lparr>me_mapsize := new_mapsize (env st) m sz\<rparr>) st) = (rc, st1)"
    and run: "mdb_env_set_mapsize mmap sz st = Some (if rc \<noteq> 0 then (rc, st1) else store_mapsize (new_mapsize (env st) m sz) st1)"
    using set_mapsize_run [OF assms(1,2) False assms(3)] by blast
  have "me_mapsize (env st1) = new_mapsize (env st) m sz" "me_psize (env st1) = me_psize (env st)" "me_maxpg (env st1) = me_maxpg (env st)"
    using env_map_keeps [OF mp] by (simp_all add: upd_env_def)
  then show ?thesis using run False
    by (cases "rc = 0") (auto simp: store_mapsize_def upd_env_def MDB_SUCCESS_def Let_def)
qed

lemma set_mapsize_outcome_witness:
  "\<exists>rc st'. mdb_env_set_mapsize (\<lambda>a n. (0, 65536)) 5 sample_st = Some (rc, st') \<and> me_mapsize (env st') = 32768"
proof -
  have "metas_ok (env sample_st) (sample_meta 6)" using sample_metas_ok by simp
  then show ?thesis using set_mapsize_outcome [of sample_st "sample_meta 6" "\<lambda>a n. (0, 65536)" 5]
    by (auto simp: used_space_def new_mapsize_def)
qed

text \<open>
  A size that is not smaller than the configured one, but smaller than the space used (another process
  has let the file grow), is taken as it is: the map does not hold all pages.
\<close>

lemma set_mapsize_below_used:
  assumes "me_mapaddr (env st) \<noteq> 0" and "metas_ok (env st) m" and "used_space (env st) m < 2 ^ 64" and "\<not> me_txn (env st)"
    and "sz \<noteq> 0" and "me_mapsize (env st) \<le> sz" and "sz < used_space (env st) m"
  shows "\<exists>rc st'. mdb_env_set_mapsize mmap sz st = Some (rc, st') \<and> me_mapsize (env st') < used_space (env st) m"
proof -
  obtain rc st1 where mp: "mdb_env_map mmap (me_metas (env st)) (if anyset (me_flags (env st)) MDB_FIXEDMAP then me_mapaddr (env st) else 0)
      (upd_env (\<lambda>e. e\<lparr>me_mapsize := new_mapsize (env st) m sz\<rparr>) st) = (rc, st1)"
    and run: "mdb_env_set_mapsize mmap sz st = Some (if rc \<noteq> 0 then (rc, st1) else store_mapsize (new_mapsize (env st) m sz) st1)"
    using set_mapsize_run [OF assms(1,2,4,3)] by blast
  have "me_mapsize (env st1) = new_mapsize (env st) m sz" using env_map_keeps [OF mp] by (simp add: upd_env_def)
  moreover have "new_mapsize (env st) m sz = sz" using assms(5,6) by (simp add: new_mapsize_def)
  ultimately show ?thesis using run assms(7)
    by (cases "rc = 0") (auto simp: store_mapsize_def upd_env_def MDB_SUCCESS_def Let_def)
qed

end
