(* ===== verification/Lmdb_Store.thy ===== *)
theory Lmdb_Store
  imports Lmdb_Page Lmdb_Midl_Sort
begin

text \<open>
  The page store of a transaction (\<open>LegacyDatabase/mdb.c\<close>): where the current version of a page
  is (\<open>mdb_page_get\<close>), the pages in memory (\<open>mdb_page_malloc\<close> to \<open>mdb_dlist_free\<close>), the dirty
  list, freeing pages (\<open>mdb_page_loose\<close>, \<open>mdb_ovpage_free\<close>), writing dirty pages to the file
  (\<open>mdb_page_flush\<close>) and spilling them when a transaction grows large.
\<close>

section \<open>Pages in memory\<close>

definition blank_page :: MDB_page where
  "blank_page = \<lparr>mp_pgno = 0, mp_pad = 0, mp_flags = 0, mp_lower = 0, mp_upper = 0, mp_pages = 0,
     mp_ptrs = (\<lambda>_. 0), mp_nodes = (\<lambda>_. None), mp_data = []\<rparr>"

text \<open>
  A fresh page; its contents are unspecified in C (with \<open>MDB_NOMEMINIT\<close>) or zero, and zero in the
  model.  A page from the free list \<open>me_dpages\<close> keeps what it held.  \<open>None\<close> inside the pair is
  \<open>NULL\<close>.
\<close>

definition mdb_page_malloc :: "st \<Rightarrow> nat \<Rightarrow> page_ref option \<times> st" where
  "mdb_page_malloc st num =
     (let psize = me_psize (env st) in
      case me_dpages (env st) of
        a # rest \<Rightarrow>
          if num = 1 then (Some (PMem a), upd_env (\<lambda>e. e\<lparr>me_dpages := rest\<rparr>) st)
          else if mem_of st (psize * num)
          then (Some (PMem (nalloc st)), (tick st)\<lparr>heap := (heap st)(nalloc st \<mapsto>
                  blank_page\<lparr>mp_data := replicate (psize * num - PAGEHDRSZ) 0\<rparr>)\<rparr>)
          else (None, set_txn_error (tick st))
      | [] \<Rightarrow>
          if mem_of st (psize * num)
          then (Some (PMem (nalloc st)), (tick st)\<lparr>heap := (heap st)(nalloc st \<mapsto>
                  blank_page\<lparr>mp_data := replicate (psize * num - PAGEHDRSZ) 0\<rparr>)\<rparr>)
          else (None, set_txn_error (tick st)))"

text \<open>
  Only \<open>malloc\<close>ed pages go to the free list.  \<open>mp_next\<close>, the link of that list, is stored in place of
  the page number; the number of a buffer plus one stands for its address, 0 for \<open>NULL\<close>.
\<close>

definition next_word :: "nat list \<Rightarrow> pgno_t" where
  "next_word dps = (case dps of [] \<Rightarrow> 0 | a # _ \<Rightarrow> of_nat (Suc a))"

definition mdb_page_free :: "st \<Rightarrow> page_ref \<Rightarrow> st option" where
  "mdb_page_free st p =
     (case p of
        PMem a \<Rightarrow> do {
          mp \<leftarrow> heap st a;
          let mp = mp\<lparr>mp_pgno := next_word (me_dpages (env st))\<rparr>;
          Some (upd_env (\<lambda>e. e\<lparr>me_dpages := a # me_dpages e\<rparr>) (st\<lparr>heap := (heap st)(a \<mapsto> mp)\<rparr>)) }
      | _ \<Rightarrow> None)"

definition mdb_dpage_free :: "st \<Rightarrow> page_ref \<Rightarrow> st option" where
  "mdb_dpage_free st p = do {
     dp \<leftarrow> get_page st p;
     if \<not> IS_OVERFLOW dp \<or> mp_pages dp = 1 then mdb_page_free st p
     else (case p of PMem a \<Rightarrow> Some (st\<lparr>heap := (heap st)(a := None)\<rparr>) | _ \<Rightarrow> None) }"

text \<open>\<open>for (i = 1; i <= n; i++) mdb_dpage_free(env, dl[i].mptr);\<close>, the cells \<open>i .. i + k - 1\<close>.\<close>

fun dlist_free_loop :: "st \<Rightarrow> page_ref MDB_ID2 list \<Rightarrow> nat \<Rightarrow> nat \<Rightarrow> st option" where
  "dlist_free_loop st dl i 0 = Some st"
| "dlist_free_loop st dl i (Suc k) = do {
     e \<leftarrow> rd dl i;
     st \<leftarrow> mdb_dpage_free st (mptr e);
     dlist_free_loop st dl (i + 1) k }"

definition set_dirty_list :: "page_ref MDB_ID2 list \<Rightarrow> st \<Rightarrow> st" where
  "set_dirty_list dl = upd_txn (\<lambda>t. t\<lparr>mt_dirty_list := dl\<rparr>)"

definition mdb_dlist_free :: "st \<Rightarrow> st option" where
  "mdb_dlist_free st = do {
     t \<leftarrow> get_txn st;
     let dl = mt_dirty_list t;
     d0 \<leftarrow> rd dl 0;
     st \<leftarrow> dlist_free_loop st dl 1 (unat (mid d0));
     Some (set_dirty_list (dl[0 := d0\<lparr>mid := 0\<rparr>]) st) }"

definition mdb_page_dirty :: "st \<Rightarrow> page_ref \<Rightarrow> st option" where
  "mdb_page_dirty st p = do {
     t \<leftarrow> get_txn st;
     mp \<leftarrow> get_page st p;
     let e = \<lparr>mid = mp_pgno mp, mptr = p\<rparr>;
     (rc, dl) \<leftarrow> (if anyset (me_flags (env st)) MDB_WRITEMAP
                  then mdb_mid2l_append (mt_dirty_list t) e else mdb_mid2l_insert (mt_dirty_list t) e);
     mdb_cassert (rc = 0);
     Some (upd_txn (\<lambda>t. t\<lparr>mt_dirty_list := dl, mt_dirty_room := mt_dirty_room t - 1\<rparr>) st) }"

section \<open>Finding a page\<close>

text \<open>A page number as it is kept in a spill list: \<open>pgno << 1\<close>; the low bit marks a deleted entry.\<close>

definition spill_id :: "pgno_t \<Rightarrow> MDB_ID" where
  "spill_id pg = push_bit 1 pg"

text \<open>\<open>x = mdb_midl_search(sl, pn); x <= sl[0] && sl[x] == pn\<close>: the index when the ID is there.\<close>

definition midl_lookup :: "MDB_ID list \<Rightarrow> MDB_ID \<Rightarrow> nat option option" where
  "midl_lookup ids pn = do {
     x \<leftarrow> mdb_midl_search ids pn;
     n \<leftarrow> rd ids 0;
     if x \<le> unat n then do { y \<leftarrow> rd ids x; Some (if y = pn then Some x else None) } else Some None }"

definition mid2l_lookup :: "page_ref MDB_ID2 list \<Rightarrow> pgno_t \<Rightarrow> nat option option" where
  "mid2l_lookup dl pg = do {
     d0 \<leftarrow> rd dl 0;
     if mid d0 = 0 then Some None
     else do {
       x \<leftarrow> mdb_mid2l_search dl pg;
       if x \<le> unat (mid d0) then do { e \<leftarrow> rd dl x; Some (if mid e = pg then Some x else None) }
       else Some None } }"

text \<open>The loop over the transaction and its ancestors in \<open>mdb_page_get\<close>.\<close>

fun page_get_loop :: "MDB_txn list \<Rightarrow> pgno_t \<Rightarrow> nat \<Rightarrow> (page_ref \<times> nat) option option" where
  "page_get_loop [] pg level = Some None"
| "page_get_loop (tx2 # txs) pg level = do {
     sp \<leftarrow> (case mt_spill_pgs tx2 of None \<Rightarrow> Some None
            | Some sl \<Rightarrow> midl_lookup (idl_ids sl) (spill_id pg));
     if sp \<noteq> None then Some (Some (PMap pg, level))
     else do {
       x \<leftarrow> mid2l_lookup (mt_dirty_list tx2) pg;
       case x of
         Some i \<Rightarrow> do { e \<leftarrow> rd (mt_dirty_list tx2) i; Some (Some (mptr e, level)) }
       | None \<Rightarrow> page_get_loop txs pg (level + 1) } }"

text \<open>The return code, the page and the level: 0 for the map, 1 for this transaction, and so on.\<close>

definition mdb_page_get :: "st \<Rightarrow> pgno_t \<Rightarrow> (int \<times> (page_ref \<times> nat) \<times> st) option" where
  "mdb_page_get st pg = do {
     t \<leftarrow> get_txn st;
     hit \<leftarrow> (if anyset (mt_flags t) MDB_TXN_RDONLY \<or> anyset (me_flags (env st)) MDB_WRITEMAP
             then Some None else page_get_loop (txns st) pg 1);
     case hit of
       Some r \<Rightarrow> Some (MDB_SUCCESS, r, st)
     | None \<Rightarrow>
         if pg < mt_next_pgno t then Some (MDB_SUCCESS, (PMap pg, 0), st)
         else Some (MDB_PAGE_NOTFOUND, (PNull, 0), set_txn_error st) }"

section \<open>Free pages\<close>

text \<open>The list of a transaction's freed pages, through \<open>midl.c\<close>.\<close>

definition set_free_pgs :: "MDB_IDL \<Rightarrow> st \<Rightarrow> st" where
  "set_free_pgs idl = upd_txn (\<lambda>t. t\<lparr>mt_free_pgs := idl\<rparr>)"

definition set_pghead :: "MDB_IDL option \<Rightarrow> st \<Rightarrow> st" where
  "set_pghead h = upd_env (\<lambda>e. e\<lparr>me_pghead := h\<rparr>)"

definition set_spill_pgs :: "MDB_IDL option \<Rightarrow> st \<Rightarrow> st" where
  "set_spill_pgs sl = upd_txn (\<lambda>t. t\<lparr>mt_spill_pgs := sl\<rparr>)"

definition set_page_flags :: "(16 word \<Rightarrow> 16 word) \<Rightarrow> page_ref \<Rightarrow> st \<Rightarrow> st option" where
  "set_page_flags f p st = do { mp \<leftarrow> get_page st p; put_page st p (mp\<lparr>mp_flags := f (mp_flags mp)\<rparr>) }"

text \<open>A page becomes loose when it is dirty in this transaction; otherwise it is freed.\<close>

definition mdb_page_loose :: "nat \<Rightarrow> page_ref \<Rightarrow> st \<Rightarrow> (int \<times> st) option" where
  "mdb_page_loose mc p st = do {
     c \<leftarrow> crs st mc;
     t \<leftarrow> get_txn st;
     mp \<leftarrow> get_page st p;
     let pg = mp_pgno mp;
     loose \<leftarrow> (if anyset (mp_flags mp) P_DIRTY \<and> mc_dbi c \<noteq> FREE_DBI then
                 if has_parent st then do {
                   x \<leftarrow> mid2l_lookup (mt_dirty_list t) pg;
                   case x of
                     None \<Rightarrow> Some (Some False)
                   | Some i \<Rightarrow> do { e \<leftarrow> rd (mt_dirty_list t) i;
                                    Some (if p \<noteq> mptr e then None else Some True) } }
                 else Some (Some True)
               else Some (Some False));
     case loose of
       None \<Rightarrow> Some (MDB_CORRUPTED, set_txn_error
                 (upd_cur mc (\<lambda>c. c\<lparr>mc_flags := mc_flags c AND NOT (C_INITIALIZED OR C_EOF)\<rparr>) st))
     | Some True \<Rightarrow> do {
         st \<leftarrow> put_page st p (mp\<lparr>mp_flags := mp_flags mp OR P_LOOSE\<rparr>);
         Some (MDB_SUCCESS, upd_txn (\<lambda>t. t\<lparr>mt_loose_pgs := p # mt_loose_pgs t,
                                            mt_loose_count := mt_loose_count t + 1\<rparr>) st) }
     | Some False \<Rightarrow> do {
         (rc, idl) \<leftarrow> mdb_midl_append (mem_of st) (mt_free_pgs t) pg;
         Some (rc, set_free_pgs idl (tick st)) } }"

text \<open>\<open>x == sl[0] ? sl[0]-- : (sl[x] |= 1)\<close>: take an entry out of a spill list.\<close>

definition spill_remove :: "MDB_ID list \<Rightarrow> nat \<Rightarrow> MDB_ID list option" where
  "spill_remove sl x = do {
     n \<leftarrow> rd sl 0;
     if x = unat n then wr sl 0 (n - 1)
     else do { y \<leftarrow> rd sl x; wr sl x (y OR 1) } }"

text \<open>
  \<open>for (ix = dl[x]; ix.mptr != mp; ix = iy) ...\<close>: take the page out of the dirty list from the
  end, moving the entries above it down by one.  The second result says whether it was found; the
  third is the last entry that was moved.
\<close>

fun dirty_remove :: "page_ref MDB_ID2 list \<Rightarrow> page_ref \<Rightarrow> nat \<Rightarrow> page_ref MDB_ID2 \<Rightarrow>
    (page_ref MDB_ID2 list \<times> bool \<times> page_ref MDB_ID2) option" where
  "dirty_remove dl p x ix =
     (if mptr ix = p then Some (dl, True, ix)
      else case x of
        Suc (Suc x') \<Rightarrow> do {
          iy \<leftarrow> rd dl (Suc x');
          dl \<leftarrow> wr dl (Suc x') ix;
          dirty_remove dl p (Suc x') iy }
      | _ \<Rightarrow> Some (dl, False, ix))"

text \<open>\<open>for (i = mop[0]; i && mop[i] < pg; i--) mop[j--] = mop[i];\<close>, then the page numbers themselves.\<close>

fun release_shift :: "MDB_ID list \<Rightarrow> pgno_t \<Rightarrow> nat \<Rightarrow> nat \<Rightarrow> (MDB_ID list \<times> nat \<times> nat) option" where
  "release_shift mop pg 0 j = Some (mop, 0, j)"
| "release_shift mop pg (Suc i) j = do {
     y \<leftarrow> rd mop (Suc i);
     if y < pg then do { mop \<leftarrow> wr mop j y; release_shift mop pg i (j - 1) }
     else Some (mop, Suc i, j) }"

text \<open>\<open>while (j>i) mop[j--] = pg++;\<close> with \<open>k = j - i\<close> stores left.\<close>

fun release_fill :: "MDB_ID list \<Rightarrow> nat \<Rightarrow> pgno_t \<Rightarrow> nat \<Rightarrow> MDB_ID list option" where
  "release_fill mop i pg 0 = Some mop"
| "release_fill mop i pg (Suc k) = do {
     mop \<leftarrow> wr mop (i + Suc k) pg;
     release_fill mop i (pg + 1) k }"

text \<open>Insert \<open>ovpages\<close> page numbers from \<open>pg\<close> on into the descending list \<open>mop\<close> (label \<open>release\<close>).\<close>

definition pghead_release :: "MDB_ID list \<Rightarrow> pgno_t \<Rightarrow> nat \<Rightarrow> MDB_ID list option" where
  "pghead_release mop pg ovpages = do {
     n \<leftarrow> rd mop 0;
     (mop, i, j) \<leftarrow> release_shift mop pg (unat n) (unat n + ovpages);
     mop \<leftarrow> release_fill mop i pg (j - i);
     n \<leftarrow> rd mop 0;
     wr mop 0 (n + of_nat ovpages) }"

definition sub_overflow :: "nat \<Rightarrow> nat \<Rightarrow> st \<Rightarrow> st" where
  "sub_overflow dbi n = upd_db dbi (\<lambda>d. d\<lparr>md_overflow_pages := md_overflow_pages d - of_nat n\<rparr>)"

definition mdb_ovpage_free :: "nat \<Rightarrow> page_ref \<Rightarrow> st \<Rightarrow> (int \<times> st) option" where
  "mdb_ovpage_free mc p st = do {
     c \<leftarrow> crs st mc;
     t \<leftarrow> get_txn st;
     mp \<leftarrow> get_page st p;
     let pg = mp_pgno mp;
     let ovpages = mp_pages mp;
     let dirty = anyset (mp_flags mp) P_DIRTY;
     let reuse = (me_pghead (env st) \<noteq> None \<and> \<not> has_parent st);
     x \<leftarrow> (if reuse \<and> \<not> dirty then
             (case mt_spill_pgs t of None \<Rightarrow> Some None | Some sl \<Rightarrow> midl_lookup (idl_ids sl) (spill_id pg))
           else Some None);
     if reuse \<and> (dirty \<or> x \<noteq> None) then do {
       pghead \<leftarrow> me_pghead (env st);
       (rc, pghead) \<leftarrow> mdb_midl_need (mem_of st) pghead ovpages;
       let st = set_pghead (Some pghead) (tick st);
       if rc \<noteq> 0 then Some (rc, st)
       else do {
         (rc, st) \<leftarrow>
           (if \<not> dirty then do {
              sl \<leftarrow> mt_spill_pgs t;
              i \<leftarrow> x;
              ids \<leftarrow> spill_remove (idl_ids sl) i;
              Some (0, set_spill_pgs (Some (sl\<lparr>idl_ids := ids\<rparr>)) st) }
            else do {
              let dl = mt_dirty_list t;
              d0 \<leftarrow> rd dl 0;
              let n = unat (mid d0);
              dl \<leftarrow> wr dl 0 (d0\<lparr>mid := mid d0 - 1\<rparr>);
              ix \<leftarrow> rd dl n;
              (dl, found, ix) \<leftarrow> dirty_remove dl p n ix;
              if found then do {
                let st = set_dirty_list dl st;
                if \<not> anyset (me_flags (env st)) MDB_WRITEMAP
                then do { st \<leftarrow> mdb_dpage_free st p; Some (0, st) } else Some (0, st) }
              else do {
                mdb_cassert False;
                dl \<leftarrow> wr dl 0 d0;
                dl \<leftarrow> wr dl n ix;
                Some (MDB_CORRUPTED, set_txn_error (set_dirty_list dl st)) } });
         if rc \<noteq> 0 then Some (rc, st)
         else do {
           mop \<leftarrow> pghead_release (idl_ids pghead) pg ovpages;
           Some (0, sub_overflow (mc_dbi c) ovpages (set_pghead (Some (pghead\<lparr>idl_ids := mop\<rparr>)) st)) } } }
     else do {
       (rc, idl) \<leftarrow> mdb_midl_append_range (mem_of st) (mt_free_pgs t) pg ovpages;
       let st = set_free_pgs idl (tick st);
       if rc \<noteq> 0 then Some (rc, st)
       else Some (0, sub_overflow (mc_dbi c) ovpages st) } }"

section \<open>Readers\<close>

text \<open>The oldest transaction a reader may still see.\<close>

fun find_oldest_loop :: "MDB_reader list \<Rightarrow> nat \<Rightarrow> txnid_t \<Rightarrow> txnid_t option" where
  "find_oldest_loop r 0 oldest = Some oldest"
| "find_oldest_loop r (Suc i) oldest = do {
     x \<leftarrow> rd r i;
     find_oldest_loop r i (if mr_pid x \<noteq> 0 then (let mr = mr_txnid x in if oldest > mr then mr else oldest)
                           else oldest) }"

definition mdb_find_oldest :: "st \<Rightarrow> txnid_t option" where
  "mdb_find_oldest st = do {
     t \<leftarrow> get_txn st;
     let oldest = mt_txnid t - 1;
     case me_txns (env st) of
       None \<Rightarrow> Some oldest
     | Some ti \<Rightarrow> find_oldest_loop (mti_readers ti) (mti_numreaders ti) oldest }"

section \<open>Writing dirty pages\<close>

definition MAX_WRITE :: nat where
  "MAX_WRITE = 0x80000000"

text \<open>A page of the file: an overflow page covers the numbers after its own.\<close>

definition store_map :: "(pgno_t \<Rightarrow> MDB_page option) \<Rightarrow> pgno_t \<Rightarrow> MDB_page \<Rightarrow> (pgno_t \<Rightarrow> MDB_page option)" where
  "store_map m pg dp =
     (\<lambda>q. if q = pg then Some dp
          else if IS_OVERFLOW dp \<and> pg < q \<and> unat q < unat pg + mp_pages dp then None else m q)"

fun store_batch :: "(pgno_t \<Rightarrow> MDB_page option) \<Rightarrow> (pgno_t \<times> MDB_page) list \<Rightarrow> (pgno_t \<Rightarrow> MDB_page option)" where
  "store_batch m [] = m"
| "store_batch m ((pg, dp) # ps) = store_batch (store_map m pg dp) ps"

text \<open>\<open>pwrite\<close> or \<open>writev\<close> of one batch; a short write is the code \<open>EIO\<close>.\<close>

definition write_batch :: "(pgno_t \<times> MDB_page) list \<Rightarrow> st \<Rightarrow> int \<times> st" where
  "write_batch iov st =
     (let rc = io_rc st (nio st); k = (if rc = 0 then length iov else io_part st (nio st)) in
      (rc, upd_env (\<lambda>e. e\<lparr>me_map := store_batch (me_map e) (take k iov)\<rparr>) (st\<lparr>nio := nio st + 1\<rparr>)))"

text \<open>The pages in \<open>WRITEMAP\<close> mode: only their flags change.\<close>

function flush_writemap_loop :: "st \<Rightarrow> page_ref MDB_ID2 list \<Rightarrow> nat \<Rightarrow> nat \<Rightarrow> nat \<Rightarrow>
    (st \<times> page_ref MDB_ID2 list \<times> nat) option" where
  "flush_writemap_loop st dl i j pagecount =
     (if i < pagecount then do {
        let i = i + 1;
        e \<leftarrow> rd dl i;
        dp \<leftarrow> get_page st (mptr e);
        if anyset (mp_flags dp) (P_LOOSE OR P_KEEP) then do {
          st \<leftarrow> put_page st (mptr e) (dp\<lparr>mp_flags := mp_flags dp AND NOT P_KEEP\<rparr>);
          dl \<leftarrow> wr dl (j + 1) e;
          flush_writemap_loop st dl i (j + 1) pagecount }
        else do {
          st \<leftarrow> put_page st (mptr e) (dp\<lparr>mp_flags := mp_flags dp AND NOT P_DIRTY\<rparr>);
          flush_writemap_loop st dl i j pagecount } }
      else Some (st, dl, j))"
  by pat_completeness auto
termination by (relation "measure (\<lambda>(st, dl, i, j, n). n - i)") auto

declare flush_writemap_loop.simps [simp del]

text \<open>
  The loop that collects runs of adjacent pages in \<open>iov\<close> and writes a run when the next page does
  not continue it.  A page that is kept is marked with page number 0.  \<open>cur\<close> is \<open>dp\<close>, \<open>pos\<close> its
  position and \<open>size\<close> its length; when the list is at its end \<open>pos\<close> differs from \<open>next_pos\<close>, so
  the last run is written and the loop stops.
\<close>

function flush_loop :: "st \<Rightarrow> page_ref MDB_ID2 list \<Rightarrow> nat \<Rightarrow> nat \<Rightarrow> (pgno_t \<times> MDB_page) \<Rightarrow> nat \<Rightarrow> nat \<Rightarrow>
    nat \<Rightarrow> nat \<Rightarrow> (pgno_t \<times> MDB_page) list \<Rightarrow> (int \<times> st \<times> page_ref MDB_ID2 list) option" where
  "flush_loop st dl i pagecount cur pos sz next_pos wsize iov =
     (if i < pagecount then do {
        let i = i + 1;
        e \<leftarrow> rd dl i;
        dp \<leftarrow> get_page st (mptr e);
        if anyset (mp_flags dp) (P_LOOSE OR P_KEEP) then do {
          st \<leftarrow> put_page st (mptr e) (dp\<lparr>mp_flags := mp_flags dp AND NOT P_KEEP\<rparr>);
          dl \<leftarrow> wr dl i (e\<lparr>mid := 0\<rparr>);
          flush_loop st dl i pagecount cur pos sz next_pos wsize iov }
        else do {
          let pg = mid e;
          let dp = dp\<lparr>mp_flags := mp_flags dp AND NOT P_DIRTY\<rparr>;
          st \<leftarrow> put_page st (mptr e) dp;
          let psize = me_psize (env st);
          let pos = unat pg * psize;
          let sz = (if IS_OVERFLOW dp then psize * mp_pages dp else psize);
          let write = (pos \<noteq> next_pos \<or> length iov = MDB_COMMIT_PAGES \<or> wsize + sz > MAX_WRITE);
          let (rc, st) = (if write \<and> iov \<noteq> [] then write_batch iov st else (0, st));
          if rc \<noteq> 0 then Some (rc, st, dl)
          else
            let (wsize, iov) = (if write then (0, []) else (wsize, iov)) in
            flush_loop st dl i pagecount (pg, dp) pos sz (pos + sz) (wsize + sz) (iov @ [(pg, dp)]) } }
      else if pos \<noteq> next_pos \<or> length iov = MDB_COMMIT_PAGES \<or> wsize + sz > MAX_WRITE then
        (let (rc, st) = (if iov \<noteq> [] then write_batch iov st else (0, st)) in Some (rc, st, dl))
      else None)"
  by pat_completeness auto
termination by (relation "measure (\<lambda>(st, dl, i, n, cur, pos, sz, np, ws, iov). n - i)") auto

declare flush_loop.simps [simp del]

text \<open>The loop that frees the pages that were written and compacts the dirty list.\<close>

function flush_free_loop :: "st \<Rightarrow> page_ref MDB_ID2 list \<Rightarrow> nat \<Rightarrow> nat \<Rightarrow> nat \<Rightarrow>
    (st \<times> page_ref MDB_ID2 list \<times> nat) option" where
  "flush_free_loop st dl i j pagecount =
     (if i < pagecount then do {
        let i = i + 1;
        e \<leftarrow> rd dl i;
        if mid e = 0 then do {
          dp \<leftarrow> get_page st (mptr e);
          dl \<leftarrow> wr dl (j + 1) (e\<lparr>mid := mp_pgno dp\<rparr>);
          flush_free_loop st dl i (j + 1) pagecount }
        else do {
          st \<leftarrow> mdb_dpage_free st (mptr e);
          flush_free_loop st dl i j pagecount } }
      else Some (st, dl, j))"
  by pat_completeness auto
termination by (relation "measure (\<lambda>(st, dl, i, j, n). n - i)") auto

declare flush_free_loop.simps [simp del]

definition mdb_page_flush :: "nat \<Rightarrow> st \<Rightarrow> (int \<times> st) option" where
  "mdb_page_flush keep st = do {
     t \<leftarrow> get_txn st;
     let dl = mt_dirty_list t;
     d0 \<leftarrow> rd dl 0;
     let pagecount = unat (mid d0);
     if anyset (me_flags (env st)) MDB_WRITEMAP then do {
       (st, dl, j) \<leftarrow> flush_writemap_loop st dl keep keep pagecount;
       Some (MDB_SUCCESS, upd_txn (\<lambda>t. t\<lparr>mt_dirty_list := dl[0 := d0\<lparr>mid := of_nat j\<rparr>],
               mt_dirty_room := mt_dirty_room t + (pagecount - j)\<rparr>) st) }
     else do {
       (rc, st, dl) \<leftarrow> flush_loop st dl keep pagecount (0, blank_page) 0 0 1 0 [];
       if rc \<noteq> 0 then Some (rc, set_dirty_list dl st)
       else do {
         (st, dl, j) \<leftarrow> flush_free_loop st dl keep keep pagecount;
         Some (MDB_SUCCESS, upd_txn (\<lambda>t. t\<lparr>mt_dirty_list := dl[0 := d0\<lparr>mid := of_nat j\<rparr>],
                 mt_dirty_room := mt_dirty_room t + (pagecount - j)\<rparr>) st) } } }"

section \<open>Spilling\<close>

text \<open>\<open>P_KEEP\<close> is flipped on the pages of a cursor's stack whose flags are exactly \<open>pflags\<close>.\<close>

definition xkeep_mask :: "16 word" where
  "xkeep_mask = P_SUBP OR P_DIRTY OR P_LOOSE OR P_KEEP"

fun xkeep_pages :: "16 word \<Rightarrow> page_ref list \<Rightarrow> st \<Rightarrow> st option" where
  "xkeep_pages pflags [] st = Some st"
| "xkeep_pages pflags (p # ps) st = do {
     mp \<leftarrow> get_page st p;
     st \<leftarrow> (if mp_flags mp AND xkeep_mask = pflags
            then put_page st p (mp\<lparr>mp_flags := mp_flags mp XOR P_KEEP\<rparr>) else Some st);
     xkeep_pages pflags ps st }"

fun xkeep_cursors :: "16 word \<Rightarrow> nat list \<Rightarrow> st \<Rightarrow> st option" where
  "xkeep_cursors pflags [] st = Some st"
| "xkeep_cursors pflags (m # ms) st = do {
     c \<leftarrow> crs st m;
     st \<leftarrow> (if anyset (mc_flags c) C_INITIALIZED then xkeep_pages pflags (take (mc_snum c) (mc_pg c)) st
            else Some st);
     xkeep_cursors pflags ms st }"

text \<open>The roots of the databases the transaction changed; \<open>k\<close> databases are left from \<open>i\<close> on.\<close>

fun xkeep_roots :: "16 word \<Rightarrow> nat \<Rightarrow> nat \<Rightarrow> st \<Rightarrow> (int \<times> st) option" where
  "xkeep_roots pflags i 0 st = Some (MDB_SUCCESS, st)"
| "xkeep_roots pflags i (Suc k) st = do {
     fl \<leftarrow> get_dbflag st i;
     db \<leftarrow> get_db st i;
     if anyset fl DB_DIRTY \<and> md_root db \<noteq> P_INVALID then do {
       (rc, (p, level), st) \<leftarrow> mdb_page_get st (md_root db);
       if rc \<noteq> MDB_SUCCESS then Some (rc, st)
       else do {
         dp \<leftarrow> get_page st p;
         st \<leftarrow> (if mp_flags dp AND xkeep_mask = pflags \<and> level \<le> 1
                then put_page st p (dp\<lparr>mp_flags := mp_flags dp XOR P_KEEP\<rparr>) else Some st);
         xkeep_roots pflags (i + 1) k st } }
     else xkeep_roots pflags (i + 1) k st }"

definition mdb_pages_xkeep :: "nat \<Rightarrow> 16 word \<Rightarrow> bool \<Rightarrow> st \<Rightarrow> (int \<times> st) option" where
  "mdb_pages_xkeep mc pflags all_roots st = do {
     c \<leftarrow> crs st mc;
     t \<leftarrow> get_txn st;
     st \<leftarrow> xkeep_cursors pflags
             ((if anyset (mc_flags c) C_UNTRACK then [] else [mc]) @
              concat (rev (take (mt_numdbs t) (mt_cursors t)))) st;
     if all_roots then xkeep_roots pflags 0 (mt_numdbs t) st else Some (MDB_SUCCESS, st) }"

text \<open>\<open>for (i=1; i<=num; i++) if (!(sl[i] & 1)) sl[++j] = sl[i];\<close> with \<open>k\<close> entries left.\<close>

fun spill_purge :: "MDB_ID list \<Rightarrow> nat \<Rightarrow> nat \<Rightarrow> nat \<Rightarrow> (MDB_ID list \<times> nat) option" where
  "spill_purge sl i j 0 = Some (sl, j)"
| "spill_purge sl i j (Suc k) = do {
     y \<leftarrow> rd sl i;
     if \<not> anyset y 1 then do { sl \<leftarrow> wr sl (j + 1) y; spill_purge sl (i + 1) (j + 1) k }
     else spill_purge sl (i + 1) j k }"

text \<open>Whether an ancestor has the page in its spill list.\<close>

fun ancestor_spilled :: "MDB_txn list \<Rightarrow> MDB_ID \<Rightarrow> bool option" where
  "ancestor_spilled [] pn = Some False"
| "ancestor_spilled (tx2 # txs) pn = do {
     x \<leftarrow> (case mt_spill_pgs tx2 of None \<Rightarrow> Some None | Some sl \<Rightarrow> midl_lookup (idl_ids sl) pn);
     if x \<noteq> None then Some True else ancestor_spilled txs pn }"

text \<open>\<open>for (i=dl[0].mid; i && need; i--)\<close>: the pages to spill, from the end of the dirty list.\<close>

fun spill_loop :: "st \<Rightarrow> nat \<Rightarrow> nat \<Rightarrow> (int \<times> nat \<times> st) option" where
  "spill_loop st 0 need = Some (0, 0, st)"
| "spill_loop st (Suc i) need =
     (if need = 0 then Some (0, Suc i, st)
      else do {
        t \<leftarrow> get_txn st;
        e \<leftarrow> rd (mt_dirty_list t) (Suc i);
        let pn = spill_id (mid e);
        dp \<leftarrow> get_page st (mptr e);
        if anyset (mp_flags dp) (P_LOOSE OR P_KEEP) then spill_loop st i need
        else do {
          anc \<leftarrow> ancestor_spilled (tl (txns st)) pn;
          if anc then do {
            st \<leftarrow> put_page st (mptr e) (dp\<lparr>mp_flags := mp_flags dp OR P_KEEP\<rparr>);
            spill_loop st i need }
          else do {
            sl \<leftarrow> mt_spill_pgs t;
            (rc, sl) \<leftarrow> mdb_midl_append (mem_of st) sl pn;
            let st = set_spill_pgs (Some sl) (tick st);
            if rc \<noteq> 0 then Some (rc, Suc i, st) else spill_loop st i (need - 1) } } })"

text \<open>The label \<open>done\<close>.\<close>

definition spill_finish :: "int \<Rightarrow> st \<Rightarrow> int \<times> st" where
  "spill_finish rc st =
     (rc, upd_txn (\<lambda>t. t\<lparr>mt_flags := mt_flags t OR (if rc \<noteq> 0 then MDB_TXN_ERROR else MDB_TXN_SPILLS)\<rparr>) st)"

definition mdb_page_spill :: "nat \<Rightarrow> (byte list \<times> MDB_val) option \<Rightarrow> st \<Rightarrow> (int \<times> st) option" where
  "mdb_page_spill m0 kd st = do {
     c \<leftarrow> crs st m0;
     t \<leftarrow> get_txn st;
     if anyset (mc_flags c) C_SUB then Some (MDB_SUCCESS, st)
     else do {
       db \<leftarrow> get_db st (mc_dbi c);
       mdb \<leftarrow> get_db st MAIN_DBI;
       let psize = me_psize (env st);
       let i = unat (md_depth db) + (if mc_dbi c > MAIN_DBI then unat (md_depth mdb) else 0) +
               (case kd of None \<Rightarrow> 0 | Some (key, data) \<Rightarrow> (LEAFSIZE key data + psize) div psize);
       let need = i + i;
       if mt_dirty_room t > need then Some (MDB_SUCCESS, st)
       else do {
         (rc, st) \<leftarrow>
           (case mt_spill_pgs t of
              None \<Rightarrow> (case mdb_midl_alloc (mem_of st) MDB_IDL_UM_MAX of
                         None \<Rightarrow> Some (ENOMEM, tick st)
                       | Some sl \<Rightarrow> Some (0, set_spill_pgs (Some sl) (tick st)))
            | Some sl \<Rightarrow> do {
                n \<leftarrow> rd (idl_ids sl) 0;
                (ids, j) \<leftarrow> spill_purge (idl_ids sl) 1 0 (unat n);
                ids \<leftarrow> wr ids 0 (of_nat j);
                Some (0, set_spill_pgs (Some (sl\<lparr>idl_ids := ids\<rparr>)) st) });
         if rc \<noteq> 0 then Some (rc, st)
         else do {
           (rc, st) \<leftarrow> mdb_pages_xkeep m0 P_DIRTY True st;
           if rc \<noteq> MDB_SUCCESS then Some (spill_finish rc st)
           else do {
             let need = (if need < MDB_IDL_UM_MAX div 8 then MDB_IDL_UM_MAX div 8 else need);
             d0 \<leftarrow> rd (mt_dirty_list t) 0;
             (rc, i, st) \<leftarrow> spill_loop st (unat (mid d0)) need;
             if rc \<noteq> 0 then Some (spill_finish rc st)
             else do {
               t \<leftarrow> get_txn st;
               sl \<leftarrow> mt_spill_pgs t;
               ids \<leftarrow> mdb_midl_sort (idl_ids sl);
               let st = set_spill_pgs (Some (sl\<lparr>idl_ids := ids\<rparr>)) st;
               (rc, st) \<leftarrow> mdb_page_flush i st;
               if rc \<noteq> MDB_SUCCESS then Some (spill_finish rc st)
               else do {
                 (rc, st) \<leftarrow> mdb_pages_xkeep m0 (P_DIRTY OR P_KEEP) (i \<noteq> 0) st;
                 Some (spill_finish rc st) } } } } } } }"

text \<open>The loop of \<open>mdb_page_unspill\<close> over the transaction and its ancestors; \<open>own\<close> says \<open>tx2 == txn\<close>.\<close>

fun unspill_find :: "MDB_txn list \<Rightarrow> MDB_ID \<Rightarrow> bool \<Rightarrow> (bool \<times> nat) option option" where
  "unspill_find [] pn own = Some None"
| "unspill_find (tx2 # txs) pn own = do {
     x \<leftarrow> (case mt_spill_pgs tx2 of None \<Rightarrow> Some None | Some sl \<Rightarrow> midl_lookup (idl_ids sl) pn);
     case x of Some i \<Rightarrow> Some (Some (own, i)) | None \<Rightarrow> unspill_find txs pn False }"

text \<open>The return code and the page, \<open>PNull\<close> when the page was not spilled.\<close>

definition mdb_page_unspill :: "page_ref \<Rightarrow> st \<Rightarrow> (int \<times> page_ref \<times> st) option" where
  "mdb_page_unspill p st = do {
     t \<leftarrow> get_txn st;
     mp \<leftarrow> get_page st p;
     hit \<leftarrow> unspill_find (txns st) (spill_id (mp_pgno mp)) True;
     case hit of
       None \<Rightarrow> Some (MDB_SUCCESS, PNull, st)
     | Some (own, x) \<Rightarrow>
         if mt_dirty_room t = 0 then Some (MDB_TXN_FULL, PNull, st)
         else do {
           let num = (if IS_OVERFLOW mp then mp_pages mp else 1);
           (np, st) \<leftarrow>
             (if anyset (me_flags (env st)) MDB_WRITEMAP then Some (p, st)
              else case mdb_page_malloc st num of
                (None, st) \<Rightarrow> Some (PNull, st)
              | (Some np, st) \<Rightarrow> do {
                  q \<leftarrow> get_page st np;
                  st \<leftarrow> put_page st np (if num > 1 then mp else mdb_page_copy q mp (me_psize (env st)));
                  Some (np, st) });
           if np = PNull then Some (ENOMEM, PNull, st)
           else do {
             st \<leftarrow> (if own then do {
                      sl \<leftarrow> mt_spill_pgs t;
                      ids \<leftarrow> spill_remove (idl_ids sl) x;
                      Some (set_spill_pgs (Some (sl\<lparr>idl_ids := ids\<rparr>)) st) }
                    else Some st);
             st \<leftarrow> mdb_page_dirty st np;
             st \<leftarrow> set_page_flags (\<lambda>f. f OR P_DIRTY) np st;
             Some (MDB_SUCCESS, np, st) } } }"

end
