(* ===== verification/Lmdb_Cursor.thy ===== *)
theory Lmdb_Cursor
  imports Lmdb_Store
begin

text \<open>
  Cursors and reading (\<open>LegacyDatabase/mdb.c\<close>): the cursor's stack, the descent from the root
  (\<open>mdb_page_search\<close>), moving to a sibling page, the positioning operations behind
  \<open>mdb_cursor_get\<close> and \<open>mdb_get\<close>.

  The descent copies the pages it passes when it is asked to (\<open>MDB_PS_MODIFY\<close>), and the copying
  allocates pages, for which the allocator reads the free list with a cursor of its own.  The code
  ties these together by mutual recursion; here the descent takes the copying function
  (\<open>mdb_page_touch\<close>) as the argument \<open>touch\<close>.  The reading operations of this theory never pass
  \<open>MDB_PS_MODIFY\<close>, so they use \<open>no_touch\<close>, which is undefined.

  Cursors of databases without \<open>MDB_DUPSORT\<close> are modelled, whose \<open>mc_xcursor\<close> is null.
\<close>

datatype MDB_cursor_op = MDB_FIRST | MDB_FIRST_DUP | MDB_GET_BOTH | MDB_GET_BOTH_RANGE
  | MDB_GET_CURRENT | MDB_GET_MULTIPLE | MDB_LAST | MDB_LAST_DUP | MDB_NEXT | MDB_NEXT_DUP
  | MDB_NEXT_MULTIPLE | MDB_NEXT_NODUP | MDB_PREV | MDB_PREV_DUP | MDB_PREV_NODUP | MDB_SET
  | MDB_SET_KEY | MDB_SET_RANGE

type_synonym touch_fun = "nat \<Rightarrow> st \<Rightarrow> (int \<times> st) option"

definition no_touch :: touch_fun where
  "no_touch mc st = None"

section \<open>The stack\<close>

definition mdb_cursor_pop :: "MDB_cursor \<Rightarrow> MDB_cursor" where
  "mdb_cursor_pop c =
     (if mc_snum c \<noteq> 0 then
        let c = c\<lparr>mc_snum := mc_snum c - 1\<rparr> in
        if mc_snum c \<noteq> 0 then c\<lparr>mc_top := mc_top c - 1\<rparr> else c
      else c)"

definition mdb_cursor_push :: "nat \<Rightarrow> page_ref \<Rightarrow> st \<Rightarrow> (int \<times> st) option" where
  "mdb_cursor_push mc p st = do {
     c \<leftarrow> crs st mc;
     if mc_snum c \<ge> CURSOR_STACK then Some (MDB_CURSOR_FULL, set_txn_error st)
     else do {
       let top = mc_snum c;
       pg \<leftarrow> wr (mc_pg c) top p;
       ki \<leftarrow> wr (mc_ki c) top 0;
       Some (MDB_SUCCESS, st\<lparr>crs := (crs st)(mc \<mapsto>
               c\<lparr>mc_top := top, mc_snum := mc_snum c + 1, mc_pg := pg, mc_ki := ki\<rparr>)\<rparr>) } }"

text \<open>The page and the index at the top of a cursor.\<close>

definition top_page :: "st \<Rightarrow> nat \<Rightarrow> MDB_page option" where
  "top_page st mc = do { c \<leftarrow> crs st mc; p \<leftarrow> cur_pg c; get_page st p }"

definition top_ki :: "st \<Rightarrow> nat \<Rightarrow> nat option" where
  "top_ki st mc = do { c \<leftarrow> crs st mc; cur_ki c }"

definition set_top_ki :: "nat \<Rightarrow> nat \<Rightarrow> st \<Rightarrow> st" where
  "set_top_ki mc k = upd_cur mc (\<lambda>c. set_ki (mc_top c) k c)"

definition or_flags :: "nat \<Rightarrow> 32 word \<Rightarrow> st \<Rightarrow> st" where
  "or_flags mc f = upd_cur mc (\<lambda>c. c\<lparr>mc_flags := mc_flags c OR f\<rparr>)"

definition clear_flags :: "nat \<Rightarrow> 32 word \<Rightarrow> st \<Rightarrow> st" where
  "clear_flags mc f = upd_cur mc (\<lambda>c. c\<lparr>mc_flags := mc_flags c AND NOT f\<rparr>)"

text \<open>A cursor on the C stack: a fresh address, given up at the end of its function.\<close>

definition blank_cursor :: "nat \<Rightarrow> MDB_cursor" where
  "blank_cursor dbi = \<lparr>mc_dbi = dbi, mc_snum = 0, mc_top = 0, mc_flags = 0,
     mc_pg = replicate CURSOR_STACK PNull, mc_ki = replicate CURSOR_STACK 0\<rparr>"

definition local_cursor :: "MDB_cursor \<Rightarrow> st \<Rightarrow> nat \<times> st" where
  "local_cursor c st = (ncrs st, st\<lparr>crs := (crs st)(ncrs st \<mapsto> c), ncrs := ncrs st + 1\<rparr>)"

definition drop_cursor :: "nat \<Rightarrow> st \<Rightarrow> st" where
  "drop_cursor mc st = st\<lparr>crs := (crs st)(mc := None)\<rparr>"

definition get_dbx :: "st \<Rightarrow> nat \<Rightarrow> MDB_dbx option" where
  "get_dbx st dbi = rd (me_dbxs (env st)) dbi"

definition cursor_cmp :: "st \<Rightarrow> nat \<Rightarrow> MDB_cmp_func option" where
  "cursor_cmp st mc = do { c \<leftarrow> crs st mc; x \<leftarrow> get_dbx st (mc_dbi c); md_cmp x }"

text \<open>\<open>mdb_node_search(mc, key, &exact)\<close>: the cursor's index is set.\<close>

definition cursor_node_search :: "nat \<Rightarrow> byte list \<Rightarrow> st \<Rightarrow> (bool \<times> nat option \<times> st) option" where
  "cursor_node_search mc key st = do {
     c \<leftarrow> crs st mc;
     mp \<leftarrow> top_page st mc;
     cmp \<leftarrow> cursor_cmp st mc;
     db \<leftarrow> get_db st (mc_dbi c);
     (i, exact, nodep) \<leftarrow> mdb_node_search cmp (unat (md_pad db)) mp key;
     Some (exact, nodep, set_top_ki mc i st) }"

section \<open>The descent\<close>

text \<open>The child to follow on a branch page.\<close>

definition choose_child :: "nat \<Rightarrow> byte list option \<Rightarrow> 32 word \<Rightarrow> MDB_page \<Rightarrow> st \<Rightarrow> (nat \<times> st) option" where
  "choose_child mc key flags mp st =
     (if anyset flags (MDB_PS_FIRST OR MDB_PS_LAST) then
        Some (if anyset flags MDB_PS_LAST then NUMKEYS mp - 1 else 0, st)
      else do {
        k \<leftarrow> key;
        (exact, nodep, st) \<leftarrow> cursor_node_search mc k st;
        if nodep = None then Some (NUMKEYS mp - 1, st)
        else do {
          i \<leftarrow> top_ki st mc;
          if \<not> exact then do { mdb_cassert (i > 0); Some (i - 1, st) } else Some (i, st) } })"

text \<open>\<open>while (IS_BRANCH(mp))\<close>; every turn pushes a page, so \<open>CURSOR_STACK + 1\<close> turns are enough.\<close>

fun search_root_loop :: "touch_fun \<Rightarrow> nat \<Rightarrow> nat \<Rightarrow> byte list option \<Rightarrow> 32 word \<Rightarrow> st \<Rightarrow> (int \<times> st) option" where
  "search_root_loop touch 0 mc key flags st = None"
| "search_root_loop touch (Suc n) mc key flags st = do {
     mp \<leftarrow> top_page st mc;
     if IS_BRANCH mp then do {
       mdb_cassert (NUMKEYS mp > 1);
       (i, st) \<leftarrow> choose_child mc key flags mp st;
       mdb_cassert (i < NUMKEYS mp);
       nd \<leftarrow> NODEPTR mp i;
       (rc, (p, level), st) \<leftarrow> mdb_page_get st (NODEPGNO nd);
       if rc \<noteq> 0 then Some (rc, st)
       else
         rc_bind (mdb_cursor_push mc p (set_top_ki mc i st)) (\<lambda>st.
         rc_bind (if anyset flags MDB_PS_MODIFY then touch mc st else Some (0, st)) (\<lambda>st.
         search_root_loop touch n mc key flags st)) }
     else if \<not> IS_LEAF mp then Some (MDB_CORRUPTED, set_txn_error st)
     else Some (MDB_SUCCESS, clear_flags mc C_EOF (or_flags mc C_INITIALIZED st)) }"

definition mdb_page_search_root :: "touch_fun \<Rightarrow> nat \<Rightarrow> byte list option \<Rightarrow> 32 word \<Rightarrow> st \<Rightarrow> (int \<times> st) option" where
  "mdb_page_search_root touch = search_root_loop touch (CURSOR_STACK + 1)"

definition mdb_page_search_lowest :: "nat \<Rightarrow> st \<Rightarrow> (int \<times> st) option" where
  "mdb_page_search_lowest mc st = do {
     mp \<leftarrow> top_page st mc;
     nd \<leftarrow> NODEPTR mp 0;
     (rc, (p, level), st) \<leftarrow> mdb_page_get st (NODEPGNO nd);
     if rc \<noteq> 0 then Some (rc, st)
     else rc_bind (mdb_cursor_push mc p (set_top_ki mc 0 st))
            (mdb_page_search_root no_touch mc None MDB_PS_FIRST) }"

text \<open>
  The data of a node: in the node or on an overflow page.  The result is the return code and the
  bytes.
\<close>

definition mdb_node_read :: "MDB_node \<Rightarrow> st \<Rightarrow> (int \<times> byte list \<times> st) option" where
  "mdb_node_read leaf st =
     (if \<not> node_isset leaf F_BIGDATA then Some (MDB_SUCCESS, take (NODEDSZ leaf) (NODEDATA leaf), st)
      else do {
        pg \<leftarrow> load64 (NODEDATA leaf);
        (rc, (p, level), st) \<leftarrow> mdb_page_get st pg;
        if rc \<noteq> 0 then Some (rc, [], st)
        else do {
          omp \<leftarrow> get_page st p;
          mdb_cassert (NODEDSZ leaf \<le> length (mp_data omp));
          Some (MDB_SUCCESS, take (NODEDSZ leaf) (mp_data omp), st) } })"

text \<open>\<open>TXN_DBI_CHANGED\<close>; a read-only transaction shares the environment's array.\<close>

definition dbi_changed :: "st \<Rightarrow> nat \<Rightarrow> bool option" where
  "dbi_changed st dbi = do {
     t \<leftarrow> get_txn st;
     a \<leftarrow> rd (if anyset (mt_flags t) MDB_TXN_RDONLY then me_dbiseqs (env st) else mt_dbiseqs t) dbi;
     b \<leftarrow> rd (me_dbiseqs (env st)) dbi;
     Some (a \<noteq> b) }"

text \<open>The record of a named database, found by the cursor \<open>mc2\<close> on the main database.\<close>

definition load_db_record :: "nat \<Rightarrow> nat \<Rightarrow> byte list \<Rightarrow> st \<Rightarrow> (int \<times> st) option" where
  "load_db_record mc2 dbi name st = do {
     (exact, nodep, st) \<leftarrow> cursor_node_search mc2 name st;
     if \<not> exact then Some (MDB_NOTFOUND, st)
     else do {
       i \<leftarrow> nodep;
       mp \<leftarrow> top_page st mc2;
       leaf \<leftarrow> NODEPTR mp i;
       (rc, data, st) \<leftarrow> mdb_node_read leaf st;
       if rc \<noteq> 0 then Some (rc, st)
       else do {
         new \<leftarrow> db_of_bytes data;
         db \<leftarrow> get_db st dbi;
         if md_flags db AND ucast PERSISTENT_FLAGS \<noteq> md_flags new then Some (MDB_INCOMPATIBLE, st)
         else Some (0, upd_db dbi (\<lambda>_. new) st) } } }"

text \<open>The part of \<open>mdb_page_search\<close> after the database record is known to be current.\<close>

definition search_from_root :: "touch_fun \<Rightarrow> nat \<Rightarrow> byte list option \<Rightarrow> 32 word \<Rightarrow> st \<Rightarrow> (int \<times> st) option" where
  "search_from_root touch mc key flags st = do {
     c \<leftarrow> crs st mc;
     db \<leftarrow> get_db st (mc_dbi c);
     let root = md_root db;
     if root = P_INVALID then Some (MDB_NOTFOUND, st)
     else do {
       mdb_cassert (root > 1);
       p0 \<leftarrow> rd (mc_pg c) 0;
       same \<leftarrow> (if p0 = PNull then Some False
                else do { mp \<leftarrow> get_page st p0; Some (mp_pgno mp = root) });
       (rc, st) \<leftarrow> (if same then Some (0, st)
                    else do {
                      (rc, (p, level), st) \<leftarrow> mdb_page_get st root;
                      Some (rc, if rc \<noteq> 0 then st else upd_cur mc (set_pg 0 p) st) });
       if rc \<noteq> 0 then Some (rc, st)
       else
         rc_bind (let st = upd_cur mc (\<lambda>c. c\<lparr>mc_snum := 1, mc_top := 0\<rparr>) st in
                  if anyset flags MDB_PS_MODIFY then touch mc st else Some (0, st)) (\<lambda>st.
         if anyset flags MDB_PS_ROOTONLY then Some (MDB_SUCCESS, st)
         else mdb_page_search_root touch mc key flags st) } }"

text \<open>
  \<open>mdb_page_search\<close> and \<open>mdb_cursor_init\<close> call each other when the record of a named database is
  stale; the main database never is, so two levels are enough (\<open>n\<close> counts them).
\<close>

fun page_search_n :: "touch_fun \<Rightarrow> nat \<Rightarrow> nat \<Rightarrow> byte list option \<Rightarrow> 32 word \<Rightarrow> st \<Rightarrow> (int \<times> st) option"
  and cursor_init_n :: "nat \<Rightarrow> nat \<Rightarrow> nat \<Rightarrow> st \<Rightarrow> st option" where
  "page_search_n touch 0 mc key flags st = None"
| "page_search_n touch (Suc n) mc key flags st = do {
     t \<leftarrow> get_txn st;
     if F_ISSET (mt_flags t) MDB_TXN_ERROR then Some (MDB_BAD_TXN, st)
     else do {
       c \<leftarrow> crs st mc;
       let dbi = mc_dbi c;
       fl \<leftarrow> get_dbflag st dbi;
       rc_bind
         (if anyset fl DB_STALE then do {
            changed \<leftarrow> dbi_changed st dbi;
            if changed then Some (MDB_BAD_DBI, st)
            else do {
              dbx \<leftarrow> get_dbx st dbi;
              let (mc2, st) = local_cursor (blank_cursor MAIN_DBI) st;
              st \<leftarrow> cursor_init_n n mc2 MAIN_DBI st;
              (rc, st) \<leftarrow> rc_bind (page_search_n no_touch n mc2 (Some (md_name dbx)) 0 st)
                            (load_db_record mc2 dbi (md_name dbx));
              let st = drop_cursor mc2 st;
              if rc \<noteq> 0 then Some (rc, st)
              else do {
                fl \<leftarrow> get_dbflag st dbi;
                Some (0, set_dbflag dbi (fl AND NOT DB_STALE) st) } } }
          else Some (0, st))
         (search_from_root touch mc key flags) } }"
| "cursor_init_n 0 mc dbi st = None"
| "cursor_init_n (Suc n) mc dbi st = do {
     db \<leftarrow> get_db st dbi;
     mdb_cassert (\<not> anyset (ucast (md_flags db)) MDB_DUPSORT);
     fl \<leftarrow> get_dbflag st dbi;
     let st = st\<lparr>crs := (crs st)(mc \<mapsto> blank_cursor dbi)\<rparr>;
     if anyset fl DB_STALE
     then map_option snd (page_search_n no_touch n mc None MDB_PS_ROOTONLY st)
     else Some st }"

text \<open>Enough levels: a named database, the main database, and one for each initialisation.\<close>

definition search_levels :: nat where
  "search_levels = 4"

definition page_search :: "touch_fun \<Rightarrow> nat \<Rightarrow> byte list option \<Rightarrow> 32 word \<Rightarrow> st \<Rightarrow> (int \<times> st) option" where
  "page_search touch = page_search_n touch search_levels"

definition mdb_cursor_init :: "nat \<Rightarrow> nat \<Rightarrow> st \<Rightarrow> st option" where
  "mdb_cursor_init = cursor_init_n search_levels"

section \<open>Moving\<close>

text \<open>
  To the next or previous page.  The recursion pops one page per level; \<open>n\<close> bounds the depth.
\<close>

fun cursor_sibling_n :: "nat \<Rightarrow> nat \<Rightarrow> bool \<Rightarrow> st \<Rightarrow> (int \<times> st) option" where
  "cursor_sibling_n 0 mc move_right st = None"
| "cursor_sibling_n (Suc n) mc move_right st = do {
     c \<leftarrow> crs st mc;
     if mc_snum c < 2 then Some (MDB_NOTFOUND, st)
     else do {
       let st = upd_cur mc mdb_cursor_pop st;
       mp \<leftarrow> top_page st mc;
       ki \<leftarrow> top_ki st mc;
       (rc, st) \<leftarrow>
         (if (if move_right then ki + 1 \<ge> NUMKEYS mp else ki = 0) then do {
            (rc, st) \<leftarrow> cursor_sibling_n n mc move_right st;
            Some (rc, if rc \<noteq> MDB_SUCCESS
                      then upd_cur mc (\<lambda>c. c\<lparr>mc_top := mc_top c + 1, mc_snum := mc_snum c + 1\<rparr>) st
                      else st) }
          else Some (MDB_SUCCESS, set_top_ki mc (if move_right then ki + 1 else ki - 1) st));
       if rc \<noteq> MDB_SUCCESS then Some (rc, st)
       else do {
         mp \<leftarrow> top_page st mc;
         mdb_cassert (IS_BRANCH mp);
         ki \<leftarrow> top_ki st mc;
         indx \<leftarrow> NODEPTR mp ki;
         (rc, (p, level), st) \<leftarrow> mdb_page_get st (NODEPGNO indx);
         if rc \<noteq> 0 then Some (rc, clear_flags mc (C_INITIALIZED OR C_EOF) st)
         else do {
           (_, st) \<leftarrow> mdb_cursor_push mc p st;
           mp \<leftarrow> get_page st p;
           Some (MDB_SUCCESS, if \<not> move_right then set_top_ki mc (NUMKEYS mp + 65535) st else st) } } } }"

definition mdb_cursor_sibling :: "nat \<Rightarrow> bool \<Rightarrow> st \<Rightarrow> (int \<times> st) option" where
  "mdb_cursor_sibling = cursor_sibling_n (CURSOR_STACK + 1)"

text \<open>
  The results of the positioning operations: the return code, the key and the data they stored
  through their pointers (\<open>None\<close> when they did not), and the state.  \<open>wd\<close> says that a data pointer
  was given.
\<close>

type_synonym cursor_res = "int \<times> byte list option \<times> byte list option \<times> st"

text \<open>The end of the positioning operations: the key, and the data if asked for, of a leaf node.\<close>

definition read_item :: "nat \<Rightarrow> bool \<Rightarrow> st \<Rightarrow> cursor_res option" where
  "read_item mc wd st = do {
     c \<leftarrow> crs st mc;
     mp \<leftarrow> top_page st mc;
     ki \<leftarrow> top_ki st mc;
     if IS_LEAF2 mp then do {
       db \<leftarrow> get_db st (mc_dbi c);
       Some (MDB_SUCCESS, Some (LEAF2KEY mp ki (unat (md_pad db))), None, st) }
     else do {
       mdb_cassert (IS_LEAF mp);
       leaf \<leftarrow> NODEPTR mp ki;
       mdb_cassert (\<not> node_isset leaf F_DUPDATA);
       if wd then do {
         (rc, data, st) \<leftarrow> mdb_node_read leaf st;
         if rc \<noteq> MDB_SUCCESS then Some (rc, None, None, st)
         else Some (MDB_SUCCESS, Some (NODEKEY leaf), Some data, st) }
       else Some (MDB_SUCCESS, Some (NODEKEY leaf), None, st) } }"

text \<open>\<open>op\<close> only matters for duplicates.\<close>

definition mdb_cursor_next :: "nat \<Rightarrow> bool \<Rightarrow> st \<Rightarrow> cursor_res option" where
  "mdb_cursor_next mc wd st = do {
     c \<leftarrow> crs st mc;
     if anyset (mc_flags c) C_EOF then Some (MDB_NOTFOUND, None, None, st)
     else do {
       mdb_cassert (anyset (mc_flags c) C_INITIALIZED);
       mp \<leftarrow> top_page st mc;
       ki \<leftarrow> top_ki st mc;
       (rc, st) \<leftarrow>
         (if anyset (mc_flags c) C_DEL then Some (0, st)
          else if ki + 1 \<ge> NUMKEYS mp then do {
            (rc, st) \<leftarrow> mdb_cursor_sibling mc True st;
            Some (rc, if rc \<noteq> MDB_SUCCESS then or_flags mc C_EOF st else st) }
          else Some (0, set_top_ki mc (ki + 1) st));
       if rc \<noteq> 0 then Some (rc, None, None, st) else read_item mc wd st } }"

definition mdb_cursor_prev :: "nat \<Rightarrow> bool \<Rightarrow> st \<Rightarrow> cursor_res option" where
  "mdb_cursor_prev mc wd st = do {
     c \<leftarrow> crs st mc;
     mdb_cassert (anyset (mc_flags c) C_INITIALIZED);
     ki \<leftarrow> top_ki st mc;
     (rc, st) \<leftarrow>
       (if ki = 0 then do {
          (rc, st) \<leftarrow> mdb_cursor_sibling mc False st;
          if rc \<noteq> MDB_SUCCESS then Some (rc, st)
          else do { mp \<leftarrow> top_page st mc; Some (0, set_top_ki mc (NUMKEYS mp + 65535) st) } }
        else Some (0, set_top_ki mc (ki - 1) st));
     if rc \<noteq> 0 then Some (rc, None, None, st)
     else read_item mc wd (clear_flags mc C_EOF st) }"

definition mdb_cursor_first :: "nat \<Rightarrow> bool \<Rightarrow> st \<Rightarrow> cursor_res option" where
  "mdb_cursor_first mc wd st = do {
     c \<leftarrow> crs st mc;
     (rc, st) \<leftarrow> (if \<not> anyset (mc_flags c) C_INITIALIZED \<or> mc_top c \<noteq> 0
                  then page_search no_touch mc None MDB_PS_FIRST st else Some (MDB_SUCCESS, st));
     if rc \<noteq> MDB_SUCCESS then Some (rc, None, None, st)
     else do {
       mp \<leftarrow> top_page st mc;
       mdb_cassert (IS_LEAF mp);
       read_item mc wd (set_top_ki mc 0 (clear_flags mc C_EOF (or_flags mc C_INITIALIZED st))) } }"

definition mdb_cursor_last :: "nat \<Rightarrow> bool \<Rightarrow> st \<Rightarrow> cursor_res option" where
  "mdb_cursor_last mc wd st = do {
     c \<leftarrow> crs st mc;
     (rc, st) \<leftarrow>
       (if \<not> anyset (mc_flags c) C_EOF then do {
          (rc, st) \<leftarrow> (if \<not> anyset (mc_flags c) C_INITIALIZED \<or> mc_top c \<noteq> 0
                       then page_search no_touch mc None MDB_PS_LAST st else Some (MDB_SUCCESS, st));
          if rc \<noteq> MDB_SUCCESS then Some (rc, st)
          else do { mp \<leftarrow> top_page st mc; mdb_cassert (IS_LEAF mp); Some (MDB_SUCCESS, st) } }
        else Some (MDB_SUCCESS, st));
     if rc \<noteq> MDB_SUCCESS then Some (rc, None, None, st)
     else do {
       mp \<leftarrow> top_page st mc;
       read_item mc wd (or_flags mc (C_INITIALIZED OR C_EOF) (set_top_ki mc (NUMKEYS mp + 65535) st)) } }"

section \<open>Positioning at a key\<close>

text \<open>The label \<open>set1\<close>: the cursor is at node \<open>i\<close> of its page.\<close>

definition cursor_set_found :: "nat \<Rightarrow> bool \<Rightarrow> MDB_cursor_op \<Rightarrow> nat \<Rightarrow> st \<Rightarrow> cursor_res option" where
  "cursor_set_found mc wd op i st = do {
     let st = clear_flags mc C_EOF (or_flags mc C_INITIALIZED st);
     c \<leftarrow> crs st mc;
     mp \<leftarrow> top_page st mc;
     let wk = (op = MDB_SET_RANGE \<or> op = MDB_SET_KEY);
     if IS_LEAF2 mp then do {
       db \<leftarrow> get_db st (mc_dbi c);
       ki \<leftarrow> top_ki st mc;
       Some (MDB_SUCCESS, if wk then Some (LEAF2KEY mp ki (unat (md_pad db))) else None, None, st) }
     else do {
       leaf \<leftarrow> NODEPTR mp i;
       mdb_cassert (\<not> node_isset leaf F_DUPDATA);
       (rc, data, st) \<leftarrow> (if wd then do {
                              (rc, data, st) \<leftarrow> mdb_node_read leaf st;
                              Some (rc, Some data, st) }
                           else Some (0, None, st));
       if rc \<noteq> 0 then Some (rc, None, None, st)
       else Some (0, if wk then Some (NODEKEY leaf) else None, data, st) } }"

text \<open>The label \<open>set2\<close>: search the cursor's page.  \<open>want_exact\<close> says that \<open>exactp\<close> is given.\<close>

definition cursor_set_search :: "nat \<Rightarrow> byte list \<Rightarrow> bool \<Rightarrow> MDB_cursor_op \<Rightarrow> bool \<Rightarrow> st \<Rightarrow> cursor_res option" where
  "cursor_set_search mc key wd op want_exact st = do {
     (exact, nodep, st) \<leftarrow> cursor_node_search mc key st;
     if want_exact \<and> \<not> exact then Some (MDB_NOTFOUND, None, None, st)
     else case nodep of
       Some i \<Rightarrow> cursor_set_found mc wd op i st
     | None \<Rightarrow> do {
         (rc, st) \<leftarrow> mdb_cursor_sibling mc True st;
         if rc \<noteq> MDB_SUCCESS then Some (rc, None, None, st)
         else do {
           mp \<leftarrow> top_page st mc;
           mdb_cassert (IS_LEAF mp);
           cursor_set_found mc wd op 0 st } } }"

text \<open>
  \<open>for (i=0; i<mc->mc_top; i++) if (ki[i] < NUMKEYS(pg[i])-1) break;\<close>: there are pages to the right.
  \<open>NUMKEYS\<close> is unsigned, so on a page without entries the difference is the greatest number.
\<close>

fun has_right_page :: "st \<Rightarrow> MDB_cursor \<Rightarrow> nat \<Rightarrow> nat \<Rightarrow> bool option" where
  "has_right_page st c i 0 = Some False"
| "has_right_page st c i (Suc k) = do {
     p \<leftarrow> rd (mc_pg c) i;
     mp \<leftarrow> get_page st p;
     ki \<leftarrow> rd (mc_ki c) i;
     if NUMKEYS mp = 0 \<or> ki < NUMKEYS mp - 1 then Some True else has_right_page st c (i + 1) k }"

text \<open>The key of entry \<open>i\<close> of the cursor's page.\<close>

definition item_key :: "st \<Rightarrow> nat \<Rightarrow> MDB_page \<Rightarrow> nat \<Rightarrow> byte list option" where
  "item_key st dbi mp i =
     (if anyset (mp_flags mp) P_LEAF2 then do { db \<leftarrow> get_db st dbi; Some (LEAF2KEY mp i (unat (md_pad db))) }
      else do { nd \<leftarrow> NODEPTR mp i; Some (NODEKEY nd) })"

text \<open>
  The cursor's page is tried first; \<open>Inl\<close> is a finished call, \<open>Inr\<close> a search that goes on at
  \<open>set2\<close> (\<open>True\<close>) or from the root (\<open>False\<close>).
\<close>

definition cursor_set_here :: "nat \<Rightarrow> byte list \<Rightarrow> bool \<Rightarrow> MDB_cursor_op \<Rightarrow> bool \<Rightarrow> st \<Rightarrow>
    (cursor_res + bool) option" where
  "cursor_set_here mc key wd op want_exact st = do {
     c \<leftarrow> crs st mc;
     mp \<leftarrow> top_page st mc;
     ki \<leftarrow> cur_ki c;
     cmp \<leftarrow> cursor_cmp st mc;
     let nkeys = NUMKEYS mp;
     if nkeys = 0 then Some (Inl (MDB_NOTFOUND, None, None, set_top_ki mc 0 st))
     else do {
       k0 \<leftarrow> item_key st (mc_dbi c) mp 0;
       rc \<leftarrow> cmp_call cmp key k0;
       if rc = 0 then map_option Inl (cursor_set_found mc wd op 0 (set_top_ki mc 0 st))
       else if rc > 0 then do {
         rc1 \<leftarrow> (if nkeys > 1 then do {
                   k1 \<leftarrow> item_key st (mc_dbi c) mp (nkeys - 1);
                   cmp_call cmp key k1 }
                 else Some rc);
         if nkeys > 1 \<and> rc1 = 0
         then map_option Inl (cursor_set_found mc wd op (nkeys - 1) (set_top_ki mc (nkeys - 1) st))
         else if nkeys > 1 \<and> rc1 < 0 then
           if ki < nkeys then do {
             k2 \<leftarrow> item_key st (mc_dbi c) mp ki;
             rc2 \<leftarrow> cmp_call cmp key k2;
             if rc2 = 0 then map_option Inl (cursor_set_found mc wd op ki st) else Some (Inr True) }
           else Some (Inr True)
         else do {
           right \<leftarrow> has_right_page st c 0 (mc_top c);
           if \<not> right then Some (Inl (MDB_NOTFOUND, None, None, set_top_ki mc nkeys st))
           else Some (Inr False) } }
       else if mc_top c = 0 then
         if op = MDB_SET_RANGE \<and> \<not> want_exact
         then map_option Inl (cursor_set_found mc wd op 0 (set_top_ki mc 0 st))
         else Some (Inl (MDB_NOTFOUND, None, None, set_top_ki mc 0 st))
       else Some (Inr False) } }"

definition mdb_cursor_set :: "nat \<Rightarrow> byte list \<Rightarrow> bool \<Rightarrow> MDB_cursor_op \<Rightarrow> bool \<Rightarrow> st \<Rightarrow> cursor_res option" where
  "mdb_cursor_set mc key wd op want_exact st =
     (if key = [] then Some (MDB_BAD_VALSIZE, None, None, st)
      else do {
        c \<leftarrow> crs st mc;
        here \<leftarrow> (if anyset (mc_flags c) C_INITIALIZED then cursor_set_here mc key wd op want_exact st
                 else Some (Inr False));
        case here of
          Inl r \<Rightarrow> Some r
        | Inr True \<Rightarrow> cursor_set_search mc key wd op want_exact st
        | Inr False \<Rightarrow> do {
            (rc, st) \<leftarrow> page_search no_touch mc (Some key) 0 st;
            if rc \<noteq> MDB_SUCCESS then Some (rc, None, None, st)
            else do {
              mp \<leftarrow> top_page st mc;
              mdb_cassert (IS_LEAF mp);
              cursor_set_search mc key wd op want_exact st } } })"

section \<open>The interface\<close>

text \<open>The switch of \<open>mdb_cursor_get\<close>; \<open>key\<close> is \<open>None\<close> for a null pointer.\<close>

definition cursor_get_op :: "nat \<Rightarrow> byte list option \<Rightarrow> bool \<Rightarrow> MDB_cursor_op \<Rightarrow> st \<Rightarrow> cursor_res option" where
  "cursor_get_op mc key wd op st = do {
     c \<leftarrow> crs st mc;
     let err = (\<lambda>rc. Some (rc, None, None, st));
     let init = anyset (mc_flags c) C_INITIALIZED;
     case op of
       MDB_GET_CURRENT \<Rightarrow>
         if \<not> init then err EINVAL
         else do {
           mp \<leftarrow> top_page st mc;
           ki \<leftarrow> top_ki st mc;
           let nkeys = NUMKEYS mp;
           if nkeys = 0 \<or> ki \<ge> nkeys then Some (MDB_NOTFOUND, None, None, set_top_ki mc nkeys st)
           else if IS_LEAF2 mp then do {
             db \<leftarrow> get_db st (mc_dbi c);
             Some (MDB_SUCCESS, Some (LEAF2KEY mp ki (unat (md_pad db))), None, st) }
           else do {
             leaf \<leftarrow> NODEPTR mp ki;
             if wd then do {
               mdb_cassert (\<not> node_isset leaf F_DUPDATA);
               (rc, data, st) \<leftarrow> mdb_node_read leaf st;
               Some (rc, Some (NODEKEY leaf), if rc = 0 then Some data else None, st) }
             else Some (MDB_SUCCESS, Some (NODEKEY leaf), None, st) } }
     | MDB_GET_BOTH \<Rightarrow> err (if \<not> wd then EINVAL else MDB_INCOMPATIBLE)
     | MDB_GET_BOTH_RANGE \<Rightarrow> err (if \<not> wd then EINVAL else MDB_INCOMPATIBLE)
     | MDB_SET \<Rightarrow> (case key of None \<Rightarrow> err EINVAL | Some k \<Rightarrow> mdb_cursor_set mc k wd op True st)
     | MDB_SET_KEY \<Rightarrow> (case key of None \<Rightarrow> err EINVAL | Some k \<Rightarrow> mdb_cursor_set mc k wd op True st)
     | MDB_SET_RANGE \<Rightarrow> (case key of None \<Rightarrow> err EINVAL | Some k \<Rightarrow> mdb_cursor_set mc k wd op False st)
     | MDB_GET_MULTIPLE \<Rightarrow> err (if \<not> wd \<or> \<not> init then EINVAL else MDB_INCOMPATIBLE)
     | MDB_NEXT_MULTIPLE \<Rightarrow> err (if \<not> wd then EINVAL else MDB_INCOMPATIBLE)
     | MDB_NEXT \<Rightarrow> if \<not> init then mdb_cursor_first mc wd st else mdb_cursor_next mc wd st
     | MDB_NEXT_DUP \<Rightarrow> if \<not> init then mdb_cursor_first mc wd st else mdb_cursor_next mc wd st
     | MDB_NEXT_NODUP \<Rightarrow> if \<not> init then mdb_cursor_first mc wd st else mdb_cursor_next mc wd st
     | MDB_FIRST \<Rightarrow> mdb_cursor_first mc wd st
     | MDB_LAST \<Rightarrow> mdb_cursor_last mc wd st
     | MDB_FIRST_DUP \<Rightarrow> err (if \<not> wd \<or> \<not> init then EINVAL else MDB_INCOMPATIBLE)
     | MDB_LAST_DUP \<Rightarrow> err (if \<not> wd \<or> \<not> init then EINVAL else MDB_INCOMPATIBLE)
     | _ \<Rightarrow>
         if \<not> init then do {
           (rc, k, d, st) \<leftarrow> mdb_cursor_last mc wd st;
           if rc \<noteq> 0 then Some (rc, k, d, st)
           else do {
             ki \<leftarrow> top_ki st mc;
             mdb_cursor_prev mc wd (set_top_ki mc (ki + 1) (or_flags mc C_INITIALIZED st)) } }
         else mdb_cursor_prev mc wd st }"

definition mdb_cursor_get :: "nat \<Rightarrow> byte list option \<Rightarrow> bool \<Rightarrow> MDB_cursor_op \<Rightarrow> st \<Rightarrow> cursor_res option" where
  "mdb_cursor_get mc key wd op st = do {
     t \<leftarrow> get_txn st;
     if anyset (mt_flags t) MDB_TXN_ERROR then Some (MDB_BAD_TXN, None, None, st)
     else do {
       (rc, k, d, st) \<leftarrow> cursor_get_op mc key wd op st;
       Some (rc, k, d, upd_cur mc (\<lambda>c. if anyset (mc_flags c) C_DEL
                then c\<lparr>mc_flags := mc_flags c XOR C_DEL\<rparr> else c) st) } }"

definition TXN_DBI_EXIST :: "MDB_txn \<Rightarrow> nat \<Rightarrow> bool" where
  "TXN_DBI_EXIST t dbi \<longleftrightarrow> dbi < mt_numdbs t \<and>
     (case rd (mt_dbflags t) dbi of None \<Rightarrow> False | Some fl \<Rightarrow> anyset fl DB_VALID)"

definition mdb_get :: "nat \<Rightarrow> byte list \<Rightarrow> st \<Rightarrow> (int \<times> byte list option \<times> st) option" where
  "mdb_get dbi key st = do {
     t \<leftarrow> get_txn st;
     if dbi = FREE_DBI \<or> \<not> TXN_DBI_EXIST t dbi then Some (EINVAL, None, st)
     else if anyset (mt_flags t) MDB_TXN_ERROR then Some (MDB_BAD_TXN, None, st)
     else do {
       let (mc, st) = local_cursor (blank_cursor dbi) st;
       st \<leftarrow> mdb_cursor_init mc dbi st;
       (rc, k, d, st) \<leftarrow> mdb_cursor_set mc key True MDB_SET True st;
       Some (rc, d, drop_cursor mc st) } }"

text \<open>A cursor from \<open>malloc\<close>; one of a write transaction is tracked in \<open>mt_cursors\<close>.\<close>

definition sizeof_MDB_cursor :: nat where
  "sizeof_MDB_cursor = 392"

definition mdb_cursor_open :: "nat \<Rightarrow> st \<Rightarrow> (int \<times> nat option \<times> st) option" where
  "mdb_cursor_open dbi st = do {
     t \<leftarrow> get_txn st;
     if \<not> TXN_DBI_EXIST t dbi then Some (EINVAL, None, st)
     else if anyset (mt_flags t) MDB_TXN_ERROR then Some (MDB_BAD_TXN, None, st)
     else if dbi = 0 \<and> \<not> F_ISSET (mt_flags t) MDB_TXN_RDONLY then Some (EINVAL, None, st)
     else if \<not> mem_of st sizeof_MDB_cursor then Some (ENOMEM, None, tick st)
     else do {
       let (mc, st) = local_cursor (blank_cursor dbi) (tick st);
       st \<leftarrow> mdb_cursor_init mc dbi st;
       t \<leftarrow> get_txn st;
       if mt_cursors t \<noteq> [] then do {
         ms \<leftarrow> rd (mt_cursors t) dbi;
         cs \<leftarrow> wr (mt_cursors t) dbi (mc # ms);
         Some (MDB_SUCCESS, Some mc, or_flags mc C_UNTRACK (upd_txn (\<lambda>t. t\<lparr>mt_cursors := cs\<rparr>) st)) }
       else Some (MDB_SUCCESS, Some mc, st) } }"

definition mdb_cursor_renew :: "nat \<Rightarrow> st \<Rightarrow> (int \<times> st) option" where
  "mdb_cursor_renew mc st = do {
     t \<leftarrow> get_txn st;
     c \<leftarrow> crs st mc;
     if \<not> TXN_DBI_EXIST t (mc_dbi c) then Some (EINVAL, st)
     else if anyset (mc_flags c) C_UNTRACK \<or> mt_cursors t \<noteq> [] then Some (EINVAL, st)
     else if anyset (mt_flags t) MDB_TXN_ERROR then Some (MDB_BAD_TXN, st)
     else do { st \<leftarrow> mdb_cursor_init mc (mc_dbi c) st; Some (MDB_SUCCESS, st) } }"

text \<open>Without duplicates there is nothing to count.\<close>

definition mdb_cursor_count :: "nat \<Rightarrow> st \<Rightarrow> int" where
  "mdb_cursor_count mc st = MDB_INCOMPATIBLE"

definition mdb_cursor_close :: "nat \<Rightarrow> st \<Rightarrow> st option" where
  "mdb_cursor_close mc st = do {
     t \<leftarrow> get_txn st;
     c \<leftarrow> crs st mc;
     if mc \<in> fst ` set (mt_backups t) then Some st
     else do {
       st \<leftarrow> (if anyset (mc_flags c) C_UNTRACK \<and> mt_cursors t \<noteq> [] then do {
                ms \<leftarrow> rd (mt_cursors t) (mc_dbi c);
                cs \<leftarrow> wr (mt_cursors t) (mc_dbi c) (remove1 mc ms);
                Some (upd_txn (\<lambda>t. t\<lparr>mt_cursors := cs\<rparr>) st) }
              else Some st);
       Some (drop_cursor mc st) } }"

end
