(* ===== verification/Lmdb_Get_Facts.thy ===== *)
theory Lmdb_Get_Facts
  imports Lmdb_Cursor
begin

text \<open>
  Reading refines a finite map: \<open>subtree st c d pg its\<close> says that the pages reachable from page
  \<open>pg\<close> form a search tree of depth \<open>d\<close> whose leaves hold the items \<open>its\<close> in key order, with the
  pages as the running transaction sees them (its own dirty pages, those of its ancestors, the file).
  The descent of \<open>mdb_page_search\<close> ends at the leaf that can hold the key, and \<open>mdb_get\<close> is the
  lookup in \<open>its\<close>.
\<close>

section \<open>States that differ in their cursors only\<close>

definition same_pages :: "st \<Rightarrow> st \<Rightarrow> bool" where
  "same_pages st st' \<longleftrightarrow> env st' = env st \<and> txns st' = txns st \<and> heap st' = heap st"

lemma same_pages_refl [simp]: "same_pages st st"
  by (simp add: same_pages_def)

lemma same_pages_trans: "same_pages st st' \<Longrightarrow> same_pages st' st'' \<Longrightarrow> same_pages st st''"
  by (simp add: same_pages_def)

lemma same_pages_sym: "same_pages st st' \<Longrightarrow> same_pages st' st"
  by (simp add: same_pages_def)

lemma same_pages_crs [simp]: "same_pages st (st\<lparr>crs := f\<rparr>)" "same_pages st (upd_cur mc g st)"
  "same_pages st (set_top_ki mc k st)" "same_pages st (or_flags mc fl st)" "same_pages st (clear_flags mc fl st)"
  "same_pages st (drop_cursor mc st)" "same_pages st (snd (local_cursor c st))"
  by (simp_all add: same_pages_def upd_cur_def set_top_ki_def or_flags_def clear_flags_def drop_cursor_def local_cursor_def)

lemma same_pages_simps:
  assumes "same_pages st st'"
  shows "get_page st' = get_page st" "get_txn st' = get_txn st" "get_db st' = get_db st" "get_dbflag st' = get_dbflag st"
    "get_dbx st' = get_dbx st" "env st' = env st" "txns st' = txns st"
  using assms by (auto simp: same_pages_def get_page_def get_txn_def get_db_def get_dbflag_def get_dbx_def fun_eq_iff
      split: page_ref.split)

lemma page_get_same:
  assumes "same_pages st st'" "mdb_page_get st pg = Some (0, r, s)"
  shows "mdb_page_get st' pg = Some (0, r, st') \<and> s = st"
  using assms by (auto simp: mdb_page_get_def same_pages_simps MDB_SUCCESS_def MDB_PAGE_NOTFOUND_def
      split: Option.bind_splits option.splits if_splits)

text \<open>The page of a number, as the running transaction sees it.\<close>

definition page_at :: "st \<Rightarrow> pgno_t \<Rightarrow> MDB_page \<Rightarrow> bool" where
  "page_at st pg mp \<longleftrightarrow> (\<exists>p l. mdb_page_get st pg = Some (0, (p, l), st) \<and> get_page st p = Some mp)"

definition node_value :: "st \<Rightarrow> MDB_node \<Rightarrow> byte list \<Rightarrow> bool" where
  "node_value st nd v \<longleftrightarrow> mdb_node_read nd st = Some (MDB_SUCCESS, v, st)"

lemma page_at_same: "same_pages st st' \<Longrightarrow> page_at st pg mp \<Longrightarrow> page_at st' pg mp"
  using page_get_same same_pages_simps(1) by (fastforce simp: page_at_def)

lemma node_value_same:
  assumes "same_pages st st'" "node_value st nd v"
  shows "node_value st' nd v"
proof (cases "node_isset nd F_BIGDATA")
  case True
  then obtain pg p l omp s where o: "load64 (NODEDATA nd) = Some pg" "mdb_page_get st pg = Some (0, (p, l), s)"
    "get_page s p = Some omp" "NODEDSZ nd \<le> length (mp_data omp)" "v = take (NODEDSZ nd) (mp_data omp)"
    using assms(2)
    by (auto simp: node_value_def mdb_node_read_def MDB_SUCCESS_def mdb_cassert_def split: Option.bind_splits if_splits)
  then show ?thesis
    using page_get_same [OF assms(1) o(2)] page_get_same [OF same_pages_refl o(2)] same_pages_simps(1) [OF assms(1)] True
    by (simp add: node_value_def mdb_node_read_def)
qed (use assms(2) in \<open>simp add: node_value_def mdb_node_read_def\<close>)

section \<open>The tree\<close>

definition leaf_items :: "st \<Rightarrow> MDB_page \<Rightarrow> (byte list \<times> byte list) list \<Rightarrow> bool" where
  "leaf_items st mp its \<longleftrightarrow> map fst its = map NODEKEY (page_items mp) \<and>
     (\<forall>i < length its. node_value st (page_items mp ! i) (snd (its ! i)) \<and> \<not> node_isset (page_items mp ! i) F_DUPDATA)"

text \<open>The keys of a branch page are in order and separate the items under its children; key 0 is not used.\<close>

definition separates :: "(byte list \<Rightarrow> byte list \<Rightarrow> bool) \<Rightarrow> MDB_page \<Rightarrow> (byte list \<times> byte list) list list \<Rightarrow> bool" where
  "separates lt mp kids \<longleftrightarrow>
     (\<forall>i j. 1 \<le> i \<longrightarrow> i < j \<longrightarrow> j < NUMKEYS mp \<longrightarrow> lt (NODEKEY (page_items mp ! i)) (NODEKEY (page_items mp ! j))) \<and>
     (\<forall>i j. 1 \<le> i \<longrightarrow> i < NUMKEYS mp \<longrightarrow> j < i \<longrightarrow>
       (\<forall>k \<in> fst ` set (kids ! j). lt k (NODEKEY (page_items mp ! i)))) \<and>
     (\<forall>i j. 1 \<le> i \<longrightarrow> i \<le> j \<longrightarrow> j < NUMKEYS mp \<longrightarrow>
       (\<forall>k \<in> fst ` set (kids ! j). k = NODEKEY (page_items mp ! i) \<or> lt (NODEKEY (page_items mp ! i)) k))"

lemma separatesD:
  assumes "separates lt mp kids"
  shows "1 \<le> i \<Longrightarrow> i < j \<Longrightarrow> j < NUMKEYS mp \<Longrightarrow> lt (NODEKEY (page_items mp ! i)) (NODEKEY (page_items mp ! j))"
    "1 \<le> i \<Longrightarrow> i < NUMKEYS mp \<Longrightarrow> j < i \<Longrightarrow> k \<in> fst ` set (kids ! j) \<Longrightarrow> lt k (NODEKEY (page_items mp ! i))"
    "1 \<le> i \<Longrightarrow> i \<le> j \<Longrightarrow> j < NUMKEYS mp \<Longrightarrow> k \<in> fst ` set (kids ! j) \<Longrightarrow>
       k = NODEKEY (page_items mp ! i) \<or> lt (NODEKEY (page_items mp ! i)) k"
proof -
  note s = assms [unfolded separates_def]
  show "1 \<le> i \<Longrightarrow> i < j \<Longrightarrow> j < NUMKEYS mp \<Longrightarrow> lt (NODEKEY (page_items mp ! i)) (NODEKEY (page_items mp ! j))"
    using s by simp
  show "1 \<le> i \<Longrightarrow> i < NUMKEYS mp \<Longrightarrow> j < i \<Longrightarrow> k \<in> fst ` set (kids ! j) \<Longrightarrow> lt k (NODEKEY (page_items mp ! i))"
    using s [THEN conjunct2, THEN conjunct1, rule_format, of i j k] by simp
  show "1 \<le> i \<Longrightarrow> i \<le> j \<Longrightarrow> j < NUMKEYS mp \<Longrightarrow> k \<in> fst ` set (kids ! j) \<Longrightarrow>
       k = NODEKEY (page_items mp ! i) \<or> lt (NODEKEY (page_items mp ! i)) k"
    using s [THEN conjunct2, THEN conjunct2, rule_format, of i j k] by simp
qed

inductive subtree :: "(byte list \<Rightarrow> byte list \<Rightarrow> bool) \<Rightarrow> st \<Rightarrow> nat \<Rightarrow> pgno_t \<Rightarrow> (byte list \<times> byte list) list \<Rightarrow> bool"
  for lt :: "byte list \<Rightarrow> byte list \<Rightarrow> bool" and st :: st where
  leaf: "page_at st pg mp \<Longrightarrow> page_ok psize mp \<Longrightarrow> IS_LEAF mp \<Longrightarrow> \<not> IS_BRANCH mp \<Longrightarrow> leaf_items st mp its \<Longrightarrow> its \<noteq> [] \<Longrightarrow>
    subtree lt st 0 pg its"
| branch: "page_at st pg mp \<Longrightarrow> page_ok psize mp \<Longrightarrow> IS_BRANCH mp \<Longrightarrow> \<not> IS_LEAF mp \<Longrightarrow> 2 \<le> NUMKEYS mp \<Longrightarrow>
    length kids = NUMKEYS mp \<Longrightarrow>
    (\<forall>i < NUMKEYS mp. subtree lt st d (NODEPGNO (page_items mp ! i)) (kids ! i)) \<Longrightarrow>
    separates lt mp kids \<Longrightarrow>
    subtree lt st (Suc d) pg (concat kids)"

inductive_cases subtree_leafE: "subtree lt st 0 pg its"
inductive_cases subtree_branchE: "subtree lt st (Suc d) pg its"

section \<open>A cursor on a page\<close>

definition cursor_at :: "st \<Rightarrow> nat \<Rightarrow> nat \<Rightarrow> nat \<Rightarrow> MDB_page \<Rightarrow> bool" where
  "cursor_at st mc dbi tp mp \<longleftrightarrow> (\<exists>c. crs st mc = Some c \<and> mc_dbi c = dbi \<and> mc_top c = tp \<and> mc_snum c = tp + 1 \<and>
     length (mc_pg c) = CURSOR_STACK \<and> length (mc_ki c) = CURSOR_STACK \<and> tp < CURSOR_STACK \<and>
     get_page st (mc_pg c ! tp) = Some mp)"

text \<open>\<open>only mc st st'\<close>: nothing but the cursor \<open>mc\<close> differs.\<close>

definition only :: "nat \<Rightarrow> st \<Rightarrow> st \<Rightarrow> bool" where
  "only mc st st' \<longleftrightarrow> st' = st\<lparr>crs := crs st'\<rparr> \<and> (\<forall>m. m \<noteq> mc \<longrightarrow> crs st' m = crs st m)"

lemma only_refl [simp]: "only mc st st"
  by (simp add: only_def)

lemma only_trans: "only mc st st' \<Longrightarrow> only mc st' st'' \<Longrightarrow> only mc st st''"
proof -
  assume a: "only mc st st'" and b: "only mc st' st''"
  have "st'' = st'\<lparr>crs := crs st''\<rparr>" using b by (simp add: only_def)
  also have "\<dots> = st\<lparr>crs := crs st''\<rparr>" by (subst a [unfolded only_def, THEN conjunct1]) simp
  finally show "only mc st st''" using a b by (simp add: only_def)
qed

lemma only_same: "only mc st st' \<Longrightarrow> same_pages st st'"
proof -
  assume a: "only mc st st'"
  show "same_pages st st'" unfolding same_pages_def by (subst (1 2 3) a [unfolded only_def, THEN conjunct1]) simp
qed

lemma only_ncrs: "only mc st st' \<Longrightarrow> ncrs st' = ncrs st"
proof -
  assume a: "only mc st st'"
  show "ncrs st' = ncrs st" by (subst a [unfolded only_def, THEN conjunct1]) simp
qed

lemma only_upd [simp]: "only mc st (upd_cur mc g st)" "only mc st (set_top_ki mc k st)" "only mc st (or_flags mc fl st)"
  "only mc st (clear_flags mc fl st)" "only mc st (st\<lparr>crs := (crs st)(mc := x)\<rparr>)"
  by (simp_all add: only_def upd_cur_def set_top_ki_def or_flags_def clear_flags_def same_pages_def)

lemma get_page_crs [simp]: "get_page (st\<lparr>crs := f\<rparr>) = get_page st"
  by (simp add: get_page_def fun_eq_iff split: page_ref.split)

lemma set_top_ki_at: "cursor_at st mc dbi tp mp \<Longrightarrow> cursor_at (set_top_ki mc k st) mc dbi tp mp"
  by (auto simp: cursor_at_def set_top_ki_def upd_cur_def set_ki_def)

lemma flags_at: "cursor_at st mc dbi tp mp \<Longrightarrow> cursor_at (or_flags mc fl st) mc dbi tp mp"
  "cursor_at st mc dbi tp mp \<Longrightarrow> cursor_at (clear_flags mc fl st) mc dbi tp mp"
  by (auto simp: cursor_at_def or_flags_def clear_flags_def upd_cur_def)

lemma top_page_at: "cursor_at st mc dbi tp mp \<Longrightarrow> top_page st mc = Some mp"
  by (auto simp: cursor_at_def top_page_def cur_pg_def)

lemma top_ki_set: "cursor_at st mc dbi tp mp \<Longrightarrow> k < 65536 \<Longrightarrow> top_ki (set_top_ki mc k st) mc = Some k"
  by (auto simp: cursor_at_def top_ki_def cur_ki_def set_top_ki_def upd_cur_def set_ki_def)

lemma push_at:
  assumes "cursor_at st mc dbi tp mp" "tp + 1 < CURSOR_STACK" "get_page st p = Some mp'"
  shows "\<exists>st'. mdb_cursor_push mc p st = Some (0, st') \<and> only mc st st' \<and> cursor_at st' mc dbi (tp + 1) mp'"
proof -
  obtain c where c: "crs st mc = Some c" "mc_dbi c = dbi" "mc_top c = tp" "mc_snum c = tp + 1"
    "length (mc_pg c) = CURSOR_STACK" "length (mc_ki c) = CURSOR_STACK"
    using assms(1) by (auto simp: cursor_at_def)
  define c' where "c' = c\<lparr>mc_top := tp + 1, mc_snum := tp + 1 + 1, mc_pg := (mc_pg c)[tp + 1 := p],
      mc_ki := (mc_ki c)[tp + 1 := 0]\<rparr>"
  have "mdb_cursor_push mc p st = Some (0, st\<lparr>crs := (crs st)(mc := Some c')\<rparr>)"
    using c assms(2) by (simp add: mdb_cursor_push_def MDB_SUCCESS_def c'_def)
  moreover have "cursor_at (st\<lparr>crs := (crs st)(mc := Some c')\<rparr>) mc dbi (tp + 1) mp'"
    using c assms(2,3) by (simp add: cursor_at_def c'_def)
  ultimately show ?thesis by (intro exI conjI) (assumption, simp_all)
qed

lemma node_search_at:
  assumes "cursor_at st mc dbi tp mp" "cursor_cmp st mc = Some cc" "get_db st dbi = Some db"
    and "mdb_node_search cc (unat (md_pad db)) mp key = Some (i, exact, nodep)"
  shows "cursor_node_search mc key st = Some (exact, nodep, set_top_ki mc i st)"
proof -
  obtain c where "crs st mc = Some c" "mc_dbi c = dbi" using assms(1) by (auto simp: cursor_at_def)
  then show ?thesis using assms(2-4) top_page_at [OF assms(1)] by (simp add: cursor_node_search_def)
qed

lemma cursor_cmp_at: "cursor_at st mc dbi tp mp \<Longrightarrow> cursor_at st' mc dbi tp' mp' \<Longrightarrow> same_pages st st' \<Longrightarrow>
    cursor_cmp st' mc = cursor_cmp st mc"
  by (auto simp: cursor_at_def cursor_cmp_def same_pages_simps)

section \<open>The descent\<close>

text \<open>The index of the child in which the key belongs.\<close>

definition child_of :: "(byte list \<Rightarrow> byte list \<Rightarrow> bool) \<Rightarrow> byte list \<Rightarrow> MDB_page \<Rightarrow> nat \<Rightarrow> bool" where
  "child_of lt key mp i \<longleftrightarrow> i < NUMKEYS mp \<and>
     (i \<noteq> 0 \<longrightarrow> NODEKEY (page_items mp ! i) = key \<or> lt (NODEKEY (page_items mp ! i)) key) \<and>
     (i + 1 < NUMKEYS mp \<longrightarrow> lt key (NODEKEY (page_items mp ! (i + 1))))"

context key_order
begin

lemma choose_child_spec:
  assumes c: "cmp = cmp_call cc" "\<not> cmp_is cc Cmp_cint" and at: "cursor_at st mc dbi tp mp"
    and cur: "cursor_cmp st mc = Some cc" "get_db st dbi = Some db" and ok: "page_ok psize mp" "\<not> IS_LEAF mp" "2 \<le> NUMKEYS mp"
    and key: "key \<in> K" and ks: "\<And>k. 1 \<le> k \<Longrightarrow> k < NUMKEYS mp \<Longrightarrow> NODEKEY (page_items mp ! k) \<in> K"
    and sorted: "\<And>i j. 1 \<le> i \<Longrightarrow> i < j \<Longrightarrow> j < NUMKEYS mp \<Longrightarrow>
        less (NODEKEY (page_items mp ! i)) (NODEKEY (page_items mp ! j))"
  shows "\<exists>i r. choose_child mc (Some key) 0 mp st = Some (i, set_top_ki mc r st) \<and> r < 65536 \<and> child_of less key mp i"
proof -
  have small: "NUMKEYS mp < 65536" using page_okD(1,5,6) [OF ok(1)] by (simp add: NUMKEYS_eq)
  have "\<exists>r exact. mdb_node_search cc (unat (md_pad db)) mp key = Some (r, exact, if r < NUMKEYS mp then Some r else None) \<and>
     1 \<le> r \<and> r \<le> NUMKEYS mp \<and> (\<forall>k. 1 \<le> k \<longrightarrow> k < r \<longrightarrow> less (NODEKEY (page_items mp ! k)) key) \<and>
     (\<forall>k. r \<le> k \<longrightarrow> k < NUMKEYS mp \<longrightarrow>
        NODEKEY (page_items mp ! k) = key \<or> less key (NODEKEY (page_items mp ! k))) \<and>
     (exact \<longleftrightarrow> r < NUMKEYS mp \<and> NODEKEY (page_items mp ! r) = key)"
    by (rule node_search_page [where psize = psize]) (use c ok key ks sorted in auto)
  then obtain r exact where s: "mdb_node_search cc (unat (md_pad db)) mp key = Some (r, exact, if r < NUMKEYS mp then Some r else None)"
    "1 \<le> r" "r \<le> NUMKEYS mp" and lt: "\<And>k. 1 \<le> k \<Longrightarrow> k < r \<Longrightarrow> less (NODEKEY (page_items mp ! k)) key"
    and ge: "\<And>k. r \<le> k \<Longrightarrow> k < NUMKEYS mp \<Longrightarrow> NODEKEY (page_items mp ! k) = key \<or> less key (NODEKEY (page_items mp ! k))"
    and ex: "exact \<longleftrightarrow> r < NUMKEYS mp \<and> NODEKEY (page_items mp ! r) = key" by blast
  define i where "i = (if r < NUMKEYS mp then if exact then r else r - 1 else NUMKEYS mp - 1)"
  have run: "choose_child mc (Some key) 0 mp st = Some (i, set_top_ki mc r st)"
    using node_search_at [OF at cur s(1)] top_ki_set [OF at, of r] s(2,3) small
    by (auto simp: choose_child_def anyset_def i_def)
  have "child_of less key mp i"
  proof (cases "r < NUMKEYS mp \<and> exact")
    case True
    then have "less key (NODEKEY (page_items mp ! (r + 1)))" if "r + 1 < NUMKEYS mp"
      using ex sorted [of r "r + 1"] s(2) that by auto
    then show ?thesis using True ex by (auto simp: child_of_def i_def)
  next
    case False
    then have i: "i = r - 1" using s(3) by (auto simp: i_def)
    have "less key (NODEKEY (page_items mp ! r))" if "r < NUMKEYS mp" using ge [of r] that False ex by auto
    then show ?thesis using i s(2,3) lt [of "r - 1"] by (auto simp: child_of_def)
  qed
  then show ?thesis using run s(3) small by auto
qed

lemma map_of_concat_at:
  "i < length xss \<Longrightarrow> (\<And>j. j < length xss \<Longrightarrow> j \<noteq> i \<Longrightarrow> k \<notin> fst ` set (xss ! j)) \<Longrightarrow>
   map_of (concat xss) k = map_of (xss ! i) k"
proof -
  assume i: "i < length xss" and no: "\<And>j. j < length xss \<Longrightarrow> j \<noteq> i \<Longrightarrow> k \<notin> fst ` set (xss ! j)"
  have "xss = take i xss @ xss ! i # drop (Suc i) xss" using i by (rule id_take_nth_drop)
  then have "concat xss = concat (take i xss) @ xss ! i @ concat (drop (Suc i) xss)"
    by (metis concat.simps(2) concat_append)
  moreover have "k \<notin> fst ` set xs" if x: "xs \<in> set (take i xss)" for xs
  proof -
    obtain j where "j < i" "xs = xss ! j" using x i by (auto simp: in_set_conv_nth)
    then show ?thesis using no [of j] i by simp
  qed
  then have "map_of (concat (take i xss)) k = None" by (auto simp: map_of_eq_None_iff)
  moreover have "k \<notin> fst ` set xs" if x: "xs \<in> set (drop (Suc i) xss)" for xs
  proof -
    obtain j where "j < length xss - Suc i" "xs = xss ! (Suc i + j)" using x by (auto simp: in_set_conv_nth)
    then show ?thesis using no [of "Suc i + j"] by simp
  qed
  then have "map_of (concat (drop (Suc i) xss)) k = None" by (auto simp: map_of_eq_None_iff)
  ultimately show ?thesis by (simp add: map_add_def split: option.split)
qed

lemma child_holds:
  assumes len: "length kids = NUMKEYS mp" and i: "child_of less key mp i" and key: "key \<in> K"
    and ks: "\<And>k. k < NUMKEYS mp \<Longrightarrow> NODEKEY (page_items mp ! k) \<in> K"
    and below: "\<And>i j k. 1 \<le> i \<Longrightarrow> i < NUMKEYS mp \<Longrightarrow> j < i \<Longrightarrow> k \<in> fst ` set (kids ! j) \<Longrightarrow> less k (NODEKEY (page_items mp ! i))"
    and above: "\<And>i j k. 1 \<le> i \<Longrightarrow> i \<le> j \<Longrightarrow> j < NUMKEYS mp \<Longrightarrow> k \<in> fst ` set (kids ! j) \<Longrightarrow>
       k = NODEKEY (page_items mp ! i) \<or> less (NODEKEY (page_items mp ! i)) k"
  shows "map_of (concat kids) key = map_of (kids ! i) key"
proof (rule map_of_concat_at)
  show "i < length kids" using i len by (simp add: child_of_def)
  fix j assume j: "j < length kids" "j \<noteq> i"
  have asym: "\<not> (less a b \<and> less b a)" if "a \<in> K" "b \<in> K" for a b
    using that trans [of a b a] irrefl [of a] by (auto simp: less_def)
  show "key \<notin> fst ` set (kids ! j)"
  proof
    assume kj: "key \<in> fst ` set (kids ! j)"
    show False
    proof (cases "j < i")
      case True
      have b: "i < NUMKEYS mp" "NODEKEY (page_items mp ! i) = key \<or> less (NODEKEY (page_items mp ! i)) key"
        using i True by (auto simp: child_of_def)
      have "less key (NODEKEY (page_items mp ! i))" by (rule below [OF _ b(1) True kj]) (use True in simp)
      then show False using b asym [OF key ks [OF b(1)]] irrefl [OF key] by auto
    next
      case False
      then have b: "i + 1 \<le> j" "i + 1 < NUMKEYS mp" "j < NUMKEYS mp" using j len by auto
      then have l: "less key (NODEKEY (page_items mp ! (i + 1)))" using i by (simp add: child_of_def)
      have "key = NODEKEY (page_items mp ! (i + 1)) \<or> less (NODEKEY (page_items mp ! (i + 1))) key"
        by (rule above [OF _ b(1,3) kj]) simp
      then show False using l asym [OF key ks [OF b(2)]] irrefl [OF key] by auto
    qed
  qed
qed

lemma descend:
  assumes c: "cmp = cmp_call cc" "\<not> cmp_is cc Cmp_cint"
    and pageK: "\<And>psize mp k. page_ok psize mp \<Longrightarrow> k < NUMKEYS mp \<Longrightarrow> NODEKEY (page_items mp ! k) \<in> K"
    and key: "key \<in> K"
    and "subtree less st d pg its" "sorted_wrt less (map fst its)" "page_at st pg mp" "same_pages st st1"
      "cursor_at st1 mc dbi tp mp" "cursor_cmp st1 mc = Some cc" "get_db st dbi = Some db" "tp + d < CURSOR_STACK" "d < n"
  shows "\<exists>st' tp' mp' psize its'. search_root_loop touch n mc (Some key) 0 st1 = Some (0, st') \<and> only mc st1 st' \<and>
     cursor_at st' mc dbi tp' mp' \<and> IS_LEAF mp' \<and> page_ok psize mp' \<and> leaf_items st mp' its' \<and>
     sorted_wrt less (map fst its') \<and> map_of its key = map_of its' key"
  using assms(5-)
proof (induction d arbitrary: pg its mp st1 tp n)
  case 0
  from 0(1) obtain mp0 psize where l: "page_at st pg mp0" "page_ok psize mp0" "IS_LEAF mp0" "\<not> IS_BRANCH mp0" "leaf_items st mp0 its"
    by (elim subtree_leafE)
  have "mp0 = mp" using l(1) 0(3) by (auto simp: page_at_def)
  obtain n' where n: "n = Suc n'" using 0(9) by (cases n) auto
  have "search_root_loop touch n mc (Some key) 0 st1 = Some (0, clear_flags mc C_EOF (or_flags mc C_INITIALIZED st1))"
    using n l(3,4) \<open>mp0 = mp\<close> top_page_at [OF 0(5)] by (simp add: MDB_SUCCESS_def)
  moreover have "only mc st1 (clear_flags mc C_EOF (or_flags mc C_INITIALIZED st1))"
    by (rule only_trans [OF only_upd(3) only_upd(4)])
  ultimately show ?case using l(2,3,5) \<open>mp0 = mp\<close> 0(2) flags_at [OF flags_at(1) [OF 0(5)]] by blast
next
  case (Suc d)
  from Suc.prems(1) obtain mp0 psize kids where l: "page_at st pg mp0" "page_ok psize mp0" "IS_BRANCH mp0" "\<not> IS_LEAF mp0"
    "2 \<le> NUMKEYS mp0" "length kids = NUMKEYS mp0" "its = concat kids"
    and sub: "\<forall>i < NUMKEYS mp0. subtree less st d (NODEPGNO (page_items mp0 ! i)) (kids ! i)"
    and sep: "separates less mp0 kids"
    by (elim subtree_branchE) (rule that; assumption)
  have mp: "mp0 = mp" using l(1) Suc.prems(3) by (auto simp: page_at_def)
  note l = l [unfolded mp] and sub = sub [unfolded mp] and sep = sep [unfolded mp]
  obtain n' where n: "n = Suc n'" "d < n'" using Suc.prems(9) by (cases n) auto
  have db1: "get_db st1 dbi = Some db" using Suc.prems(4,7) by (simp add: same_pages_simps)
  obtain i r where "choose_child mc (Some key) 0 mp st1 = Some (i, set_top_ki mc r st1)" "child_of less key mp i"
  proof -
    have "\<exists>i r. choose_child mc (Some key) 0 mp st1 = Some (i, set_top_ki mc r st1) \<and> r < 65536 \<and> child_of less key mp i"
      by (rule choose_child_spec [OF c Suc.prems(5,6) db1 l(2,4,5) key]) (use pageK [OF l(2)] separatesD(1) [OF sep] in simp_all)
    then show ?thesis using that by blast
  qed
  then obtain st2 where ch: "choose_child mc (Some key) 0 mp st1 = Some (i, st2)" "only mc st1 st2"
    "cursor_at st2 mc dbi tp mp" "child_of less key mp i"
    using set_top_ki_at [OF Suc.prems(5)] only_upd(2) by blast
  have i: "i < NUMKEYS mp" using ch(4) by (simp add: child_of_def)
  have nd: "NODEPTR mp i = Some (page_items mp ! i)" using page_okD(7) [OF l(2) i] .
  have subi: "subtree less st d (NODEPGNO (page_items mp ! i)) (kids ! i)" using sub i by simp
  obtain mp1 where at1: "page_at st (NODEPGNO (page_items mp ! i)) mp1"
    using subi by (cases d) (auto elim: subtree_leafE subtree_branchE)
  have same2: "same_pages st st2" using same_pages_trans [OF Suc.prems(4) only_same [OF ch(2)]] .
  obtain p lv where pg: "mdb_page_get st2 (NODEPGNO (page_items mp ! i)) = Some (0, (p, lv), st2)" "get_page st2 p = Some mp1"
    using page_at_same [OF same2 at1] by (auto simp: page_at_def)
  have at2: "cursor_at (set_top_ki mc i st2) mc dbi tp mp" by (rule set_top_ki_at [OF ch(3)])
  have pg': "get_page (set_top_ki mc i st2) p = Some mp1"
    using pg(2) same_pages_simps(1) [OF same_pages_crs(3) [of st2 mc i]] by simp
  obtain st3 where push: "mdb_cursor_push mc p (set_top_ki mc i st2) = Some (0, st3)" "only mc (set_top_ki mc i st2) st3"
    "cursor_at st3 mc dbi (tp + 1) mp1"
    using push_at [OF at2 _ pg'] Suc.prems(8) by auto
  have o3: "only mc st1 st3" by (rule only_trans [OF only_trans [OF ch(2) only_upd(2)] push(2)])
  have same3: "same_pages st st3" using same_pages_trans [OF Suc.prems(4) only_same [OF o3]] .
  have cmp3: "cursor_cmp st3 mc = Some cc"
    using cursor_cmp_at [OF Suc.prems(5) push(3) only_same [OF o3]] Suc.prems(6) by simp
  have step: "search_root_loop touch n mc (Some key) 0 st1 = search_root_loop touch n' mc (Some key) 0 st3"
    using n l(3,5) top_page_at [OF Suc.prems(5)] ch(1) i nd pg(1) push(1)
    by (simp add: rc_bind_def anyset_def)
  have srti: "sorted_wrt less (map fst (kids ! i))"
  proof -
    have "kids = take i kids @ kids ! i # drop (Suc i) kids" using i l(6) by (simp add: id_take_nth_drop)
    then have "concat kids = concat (take i kids) @ kids ! i @ concat (drop (Suc i) kids)"
      by (metis concat.simps(2) concat_append)
    then show ?thesis using Suc.prems(2) l(7) by (simp add: sorted_wrt_append)
  qed
  have "map_of its key = map_of (kids ! i) key"
    unfolding l(7) by (rule child_holds [OF l(6) ch(4) key]) (use pageK [OF l(2)] separatesD(2,3) [OF sep] in auto)
  then show ?case
    using Suc.IH [OF subi srti at1 same3 push(3) cmp3 Suc.prems(7) _ n(2)] Suc.prems(8) only_trans [OF o3]
    by (simp add: step) blast
qed

end

section \<open>The lookup\<close>

text \<open>A database that the running transaction can read without loading its record.\<close>

definition db_open :: "st \<Rightarrow> nat \<Rightarrow> MDB_db \<Rightarrow> MDB_cmp_func \<Rightarrow> bool" where
  "db_open st dbi db cc \<longleftrightarrow> (\<exists>t fl dbx. get_txn st = Some t \<and> \<not> anyset (mt_flags t) MDB_TXN_ERROR \<and>
     dbi \<noteq> FREE_DBI \<and> TXN_DBI_EXIST t dbi \<and> rd (mt_dbflags t) dbi = Some fl \<and> \<not> anyset fl DB_STALE \<and>
     rd (mt_dbs t) dbi = Some db \<and> \<not> anyset (ucast (md_flags db)) MDB_DUPSORT \<and>
     rd (me_dbxs (env st)) dbi = Some dbx \<and> md_cmp dbx = Some cc)"

definition db_holds :: "(byte list \<Rightarrow> byte list \<Rightarrow> bool) \<Rightarrow> st \<Rightarrow> MDB_db \<Rightarrow> (byte list \<times> byte list) list \<Rightarrow> bool" where
  "db_holds lt st db its \<longleftrightarrow> sorted_wrt lt (map fst its) \<and>
     (if md_root db = P_INVALID then its = []
      else 1 < md_root db \<and> (\<exists>d < CURSOR_STACK. subtree lt st d (md_root db) its))"

lemma not_error: "\<not> anyset f MDB_TXN_ERROR \<Longrightarrow> \<not> F_ISSET f MDB_TXN_ERROR"
  by (auto simp: anyset_def F_ISSET_def MDB_TXN_ERROR_def)

lemma blank_at_root:
  assumes "mdb_page_get st root = Some (0, (p, l), st)" "get_page st p = Some mp" "crs st mc = Some (blank_cursor dbi)"
  shows "cursor_at (upd_cur mc (\<lambda>c. c\<lparr>mc_snum := 1, mc_top := 0\<rparr>) (upd_cur mc (set_pg 0 p) st)) mc dbi 0 mp"
  using assms(2,3) by (simp add: cursor_at_def upd_cur_def set_pg_def blank_cursor_def CURSOR_STACK_def)

context key_order
begin

lemma search_leaf:
  assumes c: "cmp = cmp_call cc" "\<not> cmp_is cc Cmp_cint" and at: "cursor_at st mc dbi tp mp"
    and cur: "cursor_cmp st mc = Some cc" "get_db st dbi = Some db" and ok: "page_ok psize mp" "IS_LEAF mp"
    and its: "leaf_items st mp its" "sorted_wrt less (map fst its)" and key: "key \<in> K"
    and pageK: "\<And>psize mp k. page_ok psize mp \<Longrightarrow> k < NUMKEYS mp \<Longrightarrow> NODEKEY (page_items mp ! k) \<in> K"
  shows "\<exists>r st'. cursor_set_search mc key True MDB_SET True st =
      Some (case map_of its key of None \<Rightarrow> (MDB_NOTFOUND, None, None, st') | Some v \<Rightarrow> (0, None, Some v, st')) \<and> only mc st st' \<and>
     st' = (if map_of its key = None then set_top_ki mc r st
            else clear_flags mc C_EOF (or_flags mc C_INITIALIZED (set_top_ki mc r st))) \<and>
     r \<le> length its \<and> (\<forall>k < r. less (fst (its ! k)) key) \<and>
     (\<forall>k. r \<le> k \<longrightarrow> k < length its \<longrightarrow> fst (its ! k) = key \<or> less key (fst (its ! k))) \<and>
     (map_of its key \<noteq> None \<longleftrightarrow> r < length its \<and> fst (its ! r) = key)"
proof -
  have len: "length its = NUMKEYS mp" using its(1) by (metis leaf_items_def length_map length_page_items)
  have kk: "NODEKEY (page_items mp ! k) = fst (its ! k)" if "k < NUMKEYS mp" for k
  proof -
    have "map fst its ! k = map NODEKEY (page_items mp) ! k" using its(1) by (simp add: leaf_items_def)
    then show ?thesis using that len by simp
  qed
  have "\<exists>r exact. mdb_node_search cc (unat (md_pad db)) mp key = Some (r, exact, if r < NUMKEYS mp then Some r else None) \<and>
     0 \<le> r \<and> r \<le> NUMKEYS mp \<and> (\<forall>k. 0 \<le> k \<longrightarrow> k < r \<longrightarrow> less (NODEKEY (page_items mp ! k)) key) \<and>
     (\<forall>k. r \<le> k \<longrightarrow> k < NUMKEYS mp \<longrightarrow>
        NODEKEY (page_items mp ! k) = key \<or> less key (NODEKEY (page_items mp ! k))) \<and>
     (exact \<longleftrightarrow> r < NUMKEYS mp \<and> NODEKEY (page_items mp ! r) = key)"
  proof (rule node_search_page)
    fix i j assume "i < j" "j < NUMKEYS mp"
    then show "less (NODEKEY (page_items mp ! i)) (NODEKEY (page_items mp ! j))"
      using its(2) kk len by (simp add: sorted_wrt_iff_nth_less)
  qed (use c ok key pageK in auto)
  then obtain r exact where s: "mdb_node_search cc (unat (md_pad db)) mp key = Some (r, exact, if r < NUMKEYS mp then Some r else None)"
    and le: "r \<le> NUMKEYS mp"
    and lt: "\<forall>k. 0 \<le> k \<longrightarrow> k < r \<longrightarrow> less (NODEKEY (page_items mp ! k)) key"
    and ge: "\<forall>k. r \<le> k \<longrightarrow> k < NUMKEYS mp \<longrightarrow> NODEKEY (page_items mp ! k) = key \<or> less key (NODEKEY (page_items mp ! k))"
    and ex: "exact \<longleftrightarrow> r < NUMKEYS mp \<and> NODEKEY (page_items mp ! r) = key" by blast
  note run = node_search_at [OF at cur s]
  have pos: "r \<le> length its" "\<forall>k < r. less (fst (its ! k)) key"
    "\<forall>k. r \<le> k \<longrightarrow> k < length its \<longrightarrow> fst (its ! k) = key \<or> less key (fst (its ! k))"
    using le lt ge kk len by auto
  show ?thesis
  proof (cases exact)
    case True
    then have r: "r < NUMKEYS mp" "fst (its ! r) = key" using ex kk by auto
    have dist: "distinct (map fst its)"
      unfolding distinct_conv_nth
    proof (intro allI impI)
      fix i j assume ij: "i < length (map fst its)" "j < length (map fst its)" "i \<noteq> j"
      have K: "fst (its ! i) \<in> K" "fst (its ! j) \<in> K" using ij pageK [OF ok(1)] kk len by auto
      have "less (fst (its ! i)) (fst (its ! j)) \<or> less (fst (its ! j)) (fst (its ! i))"
        using ij its(2) by (cases "i < j") (auto simp: sorted_wrt_iff_nth_less)
      then show "map fst its ! i \<noteq> map fst its ! j" using ij irrefl [OF K(1)] by auto
    qed
    have mo: "map_of its key = Some (snd (its ! r))"
      using dist r len by (metis map_of_eq_Some_iff nth_mem prod.collapse)
    define st2 where "st2 = clear_flags mc C_EOF (or_flags mc C_INITIALIZED (set_top_ki mc r st))"
    have o2: "only mc st st2"
      unfolding st2_def by (rule only_trans [OF only_trans [OF only_upd(2) only_upd(3)] only_upd(4)])
    have at2: "cursor_at st2 mc dbi tp mp"
      unfolding st2_def by (rule flags_at(2) [OF flags_at(1) [OF set_top_ki_at [OF at]]])
    have nv: "mdb_node_read (page_items mp ! r) st2 = Some (MDB_SUCCESS, snd (its ! r), st2)"
      using node_value_same [OF only_same [OF o2]] its(1) r(1) len by (auto simp: leaf_items_def node_value_def)
    have nd: "NODEPTR mp r = Some (page_items mp ! r)" "\<not> IS_LEAF2 mp" "\<not> node_isset (page_items mp ! r) F_DUPDATA"
      using page_okD(7,2) [OF ok(1)] r(1) its(1) len by (auto simp: leaf_items_def)
    obtain c2 where "crs st2 mc = Some c2" using at2 by (auto simp: cursor_at_def)
    then have "cursor_set_found mc True MDB_SET r (set_top_ki mc r st) = Some (0, None, Some (snd (its ! r)), st2)"
      using top_page_at [OF at2] nv nd
      by (simp add: cursor_set_found_def Let_def st2_def [symmetric] MDB_SUCCESS_def)
    then have "cursor_set_search mc key True MDB_SET True st = Some (0, None, Some (snd (its ! r)), st2)"
      using run True r(1) by (simp add: cursor_set_search_def)
    then show ?thesis using mo o2 pos r len
      by (intro exI [of _ r] exI [of _ st2]) (simp add: st2_def)
  next
    case False
    have "map_of its key = None"
    proof (rule ccontr)
      assume "map_of its key \<noteq> None"
      then have "key \<in> fst ` set its" by (simp add: map_of_eq_None_iff)
      then obtain k where k: "k < NUMKEYS mp" "fst (its ! k) = key" using len by (auto simp: in_set_conv_nth)
      have nr: "\<not> less key key" using irrefl [OF key] .
      have "\<not> k < r" using lt k kk nr by auto
      then have "r \<le> k" by simp
      have "r < NUMKEYS mp" using \<open>r \<le> k\<close> k(1) by simp
      then have "less key (fst (its ! r))" using ge ex False kk by auto
      moreover have "r < k" using \<open>r \<le> k\<close> k(2) \<open>less key (fst (its ! r))\<close> nr by (cases "r = k") auto
      then have "less (fst (its ! r)) key" using its(2) k len by (auto simp: sorted_wrt_iff_nth_less)
      moreover have "fst (its ! r) \<in> K" using pageK [OF ok(1) \<open>r < NUMKEYS mp\<close>] kk [OF \<open>r < NUMKEYS mp\<close>] by simp
      ultimately show False using trans [of key "fst (its ! r)" key] key nr by (simp add: less_def)
    qed
    moreover from this have "\<not> (r < length its \<and> fst (its ! r) = key)"
      using ex False kk len by auto
    ultimately show ?thesis using run False pos
      by (intro exI [of _ r] exI [of _ "set_top_ki mc r st"]) (simp add: cursor_set_search_def)
  qed
qed

lemma get_lookup:
  assumes c: "cmp = cmp_call cc" "\<not> cmp_is cc Cmp_cint"
    and pageK: "\<And>psize mp k. page_ok psize mp \<Longrightarrow> k < NUMKEYS mp \<Longrightarrow> NODEKEY (page_items mp ! k) \<in> K"
    and key: "key \<in> K" "key \<noteq> []" and op: "db_open st dbi db cc" and holds: "db_holds less st db its"
  shows "\<exists>st'. mdb_get dbi key st =
      Some (case map_of its key of None \<Rightarrow> (MDB_NOTFOUND, None, st') | Some v \<Rightarrow> (0, Some v, st')) \<and>
      same_pages st st' \<and> (\<forall>m. m \<noteq> ncrs st \<longrightarrow> crs st' m = crs st m)"
proof -
  obtain t fl dbx where o: "get_txn st = Some t" "\<not> anyset (mt_flags t) MDB_TXN_ERROR" "dbi \<noteq> FREE_DBI" "TXN_DBI_EXIST t dbi"
    "rd (mt_dbflags t) dbi = Some fl" "\<not> anyset fl DB_STALE" "rd (mt_dbs t) dbi = Some db"
    "\<not> anyset (ucast (md_flags db)) MDB_DUPSORT" "rd (me_dbxs (env st)) dbi = Some dbx" "md_cmp dbx = Some cc"
    using op unfolding db_open_def by blast
  define mc where "mc = ncrs st"
  define st1 where "st1 = st\<lparr>crs := (crs st)(mc \<mapsto> blank_cursor dbi), ncrs := mc + 1\<rparr>"
  have s1: "same_pages st st1" by (simp add: st1_def same_pages_def)
  note sim1 = same_pages_simps [OF s1]
  have t1: "get_txn st1 = Some t" "get_db st1 dbi = Some db" "get_dbflag st1 dbi = Some fl"
    using o(1,5,7) by (simp_all add: sim1 get_db_def get_dbflag_def)
  have init: "mdb_cursor_init mc dbi (snd (local_cursor (blank_cursor dbi) st)) = Some st1"
    using o(1,5-8) by (simp add: mdb_cursor_init_def search_levels_def numeral_eq_Suc local_cursor_def get_db_def
        get_dbflag_def get_txn_def st1_def mc_def)
  have b1: "crs st1 mc = Some (blank_cursor dbi)" by (simp add: st1_def)
  have run: "mdb_get dbi key st = (mdb_cursor_set mc key True MDB_SET True st1 \<bind>
      (\<lambda>(rc, k, d, st). Some (rc, d, drop_cursor mc st)))"
    using o(1-4) init by (simp add: mdb_get_def local_cursor_def mc_def)
  have set: "mdb_cursor_set mc key True MDB_SET True st1 =
      page_search no_touch mc (Some key) 0 st1 \<bind> (\<lambda>(rc, st). if rc \<noteq> MDB_SUCCESS then Some (rc, None, None, st)
        else top_page st mc \<bind> (\<lambda>mp. mdb_cassert (IS_LEAF mp) \<bind> (\<lambda>_. cursor_set_search mc key True MDB_SET True st)))"
    using key(2) b1 by (simp add: mdb_cursor_set_def blank_cursor_def anyset_def)
  have ps: "page_search no_touch mc (Some key) 0 st1 = search_from_root no_touch mc (Some key) 0 st1"
    using t1 o(2,6) b1 not_error [OF o(2)]
    by (simp add: page_search_def search_levels_def numeral_eq_Suc rc_bind_def blank_cursor_def)
  have ends: "same_pages st (drop_cursor mc st') \<and> (\<forall>m. m \<noteq> ncrs st \<longrightarrow> crs (drop_cursor mc st') m = crs st m)"
    if "only mc st1 st'" for st'
    using that same_pages_trans [OF same_pages_trans [OF s1 only_same [OF that]] same_pages_crs(6)]
    by (auto simp: only_def drop_cursor_def st1_def mc_def)
  show ?thesis
  proof (cases "md_root db = P_INVALID")
    case True
    then have "search_from_root no_touch mc (Some key) 0 st1 = Some (MDB_NOTFOUND, st1)"
      using b1 t1(2) by (simp add: search_from_root_def blank_cursor_def)
    then have "mdb_get dbi key st = Some (MDB_NOTFOUND, None, drop_cursor mc st1)"
      by (simp add: run set ps MDB_NOTFOUND_def MDB_SUCCESS_def)
    moreover have "map_of its key = None" using holds True by (simp add: db_holds_def)
    ultimately show ?thesis using ends [OF only_refl] by auto
  next
    case False
    then obtain d where d: "1 < md_root db" "d < CURSOR_STACK" "subtree less st d (md_root db) its" and srt: "sorted_wrt less (map fst its)"
      using holds by (auto simp: db_holds_def)
    obtain mp where at0: "page_at st (md_root db) mp" using d(3) by (cases d) (auto elim: subtree_leafE subtree_branchE)
    obtain p l where pg: "mdb_page_get st1 (md_root db) = Some (0, (p, l), st1)" "get_page st1 p = Some mp"
      using page_at_same [OF s1 at0] by (auto simp: page_at_def)
    define st2 where "st2 = upd_cur mc (\<lambda>c. c\<lparr>mc_snum := 1, mc_top := 0\<rparr>) (upd_cur mc (set_pg 0 p) st1)"
    have at2: "cursor_at st2 mc dbi 0 mp" unfolding st2_def by (rule blank_at_root [OF pg b1])
    have o2: "only mc st1 st2" unfolding st2_def by (rule only_trans [OF only_upd(1) only_upd(1)])
    have s2: "same_pages st st2" by (rule same_pages_trans [OF s1 only_same [OF o2]])
    have cc2: "cursor_cmp st2 mc = Some cc"
      using at2 o(9,10) same_pages_simps(5) [OF s2] by (auto simp: cursor_at_def cursor_cmp_def get_dbx_def)
    have db: "get_db st dbi = Some db" using o(1,7) by (simp add: get_db_def)
    obtain st3 tp' mp' psize its' where st3: "search_root_loop no_touch (CURSOR_STACK + 1) mc (Some key) 0 st2 = Some (0, st3)"
      "only mc st2 st3" "cursor_at st3 mc dbi tp' mp'" "IS_LEAF mp'" "page_ok psize mp'" "leaf_items st mp' its'"
      "sorted_wrt less (map fst its')" "map_of its key = map_of its' key"
    proof -
      have "\<exists>st' tp' mp' psize its'. search_root_loop no_touch (CURSOR_STACK + 1) mc (Some key) 0 st2 = Some (0, st') \<and>
          only mc st2 st' \<and> cursor_at st' mc dbi tp' mp' \<and> IS_LEAF mp' \<and> page_ok psize mp' \<and> leaf_items st mp' its' \<and>
          sorted_wrt less (map fst its') \<and> map_of its key = map_of its' key"
        by (rule descend [OF c pageK key(1) d(3) srt at0 s2 at2 cc2 db]) (use d(2) in simp_all)
      then show ?thesis using that by blast
    qed
    have sfr: "search_from_root no_touch mc (Some key) 0 st1 = Some (0, st3)"
      using b1 t1(2) False d(1) pg(1) st3(1)
      by (simp add: search_from_root_def blank_cursor_def CURSOR_STACK_def rc_bind_def anyset_def st2_def mdb_page_search_root_def)
    have o3: "only mc st1 st3" by (rule only_trans [OF o2 st3(2)])
    have s3: "same_pages st st3" by (rule same_pages_trans [OF s1 only_same [OF o3]])
    have li: "leaf_items st3 mp' its'"
      using st3(6) node_value_same [OF s3] by (simp add: leaf_items_def)
    have cc3: "cursor_cmp st3 mc = Some cc" using cursor_cmp_at [OF at2 st3(3) only_same [OF st3(2)]] cc2 by simp
    have db3: "get_db st3 dbi = Some db" using db same_pages_simps(3) [OF s3] by simp
    obtain st4 where st4: "cursor_set_search mc key True MDB_SET True st3 =
        Some (case map_of its' key of None \<Rightarrow> (MDB_NOTFOUND, None, None, st4) | Some v \<Rightarrow> (0, None, Some v, st4))" "only mc st3 st4"
    proof -
      note sl = search_leaf [OF c st3(3) cc3 db3 st3(5,4) li st3(7) key(1)]
      show ?thesis using sl pageK that by blast
    qed
    have "mdb_get dbi key st = Some (case map_of its key of None \<Rightarrow> (MDB_NOTFOUND, None, drop_cursor mc st4)
        | Some v \<Rightarrow> (0, Some v, drop_cursor mc st4))"
      using st3(4,8) st4(1) top_page_at [OF st3(3)]
      by (simp add: run set ps sfr MDB_SUCCESS_def split: option.split)
    then show ?thesis using ends [OF only_trans [OF o3 st4(2)]] by blast
  qed
qed

end

end
