(* ===== verification/Lmdb_Read_Facts.thy ===== *)
theory Lmdb_Read_Facts
  imports Lmdb_Get_Facts Lmdb_Page_Facts Lmdb_Sample
begin

text \<open>
  The properties of reading: \<open>mdb_get\<close> with the default comparator refines the lookup in the finite
  map that the tree represents, on trees of any depth the cursor stack allows, and its error codes.
\<close>

lemma page_key_length: "page_ok psize mp \<Longrightarrow> k < NUMKEYS mp \<Longrightarrow> length (NODEKEY (page_items mp ! k)) < 2 ^ 32"
proof -
  assume ok: "page_ok psize mp" and k: "k < NUMKEYS mp"
  have "mn_ksize (page_items mp ! k) \<le> node_space mp (page_items mp ! k)"
    unfolding node_space_def by (rule order_trans [OF _ EVEN_ge]) simp
  also have "\<dots> \<le> 32768" using page_okD(10) [OF ok k] page_okD(1) [OF ok] by simp
  finally show ?thesis by (simp add: NODEKEY_def)
qed

lemma less_memn: "length a < 2 ^ 32 \<Longrightarrow> length b < 2 ^ 32 \<Longrightarrow> memn.less a b \<longleftrightarrow> lex_less a b"
  using cmp_memn_lex [of a b] by (auto simp: memn.less_def)

text \<open>The order only matters on the keys of the pages.\<close>

lemma subtree_keys: "subtree lt st d pg its \<Longrightarrow> k \<in> fst ` set its \<Longrightarrow> length k < 2 ^ 32"
proof (induction arbitrary: k rule: subtree.induct)
  case (leaf pg mp psize its)
  then have "k \<in> set (map NODEKEY (page_items mp))" by (metis leaf_items_def list.set_map)
  then show ?case using page_key_length [OF leaf.hyps(2)] by (auto simp: in_set_conv_nth)
next
  case (branch pg mp psize kids d)
  then obtain xs where "xs \<in> set kids" "k \<in> fst ` set xs" by auto
  then obtain i where "i < NUMKEYS mp" "k \<in> fst ` set (kids ! i)" using branch.hyps(6) by (auto simp: in_set_conv_nth)
  then show ?case using branch.IH by blast
qed

lemma subtree_order:
  assumes "subtree lt st d pg its" and lt: "\<And>a b. length a < 2 ^ 32 \<Longrightarrow> length b < 2 ^ 32 \<Longrightarrow> lt' a b \<longleftrightarrow> lt a b"
  shows "subtree lt' st d pg its"
  using assms(1)
proof (induction rule: subtree.induct)
  case (branch pg mp psize kids d)
  have K: "length (NODEKEY (page_items mp ! i)) < 2 ^ 32" if "i < NUMKEYS mp" for i
    using page_key_length [OF branch.hyps(2) that] .
  have kk: "length k < 2 ^ 32" if "j < NUMKEYS mp" "k \<in> fst ` set (kids ! j)" for j k
    using branch.IH that subtree_keys by blast
  have "separates lt' mp kids"
    unfolding separates_def
  proof (intro conjI allI impI ballI)
    fix i j assume ij: "1 \<le> i" "i < j" "j < NUMKEYS mp"
    then show "lt' (NODEKEY (page_items mp ! i)) (NODEKEY (page_items mp ! j))"
      using separatesD(1) [OF branch.hyps(7) ij] lt K by simp
  next
    fix i j k assume ij: "1 \<le> i" "i < NUMKEYS mp" "j < i" and k: "k \<in> fst ` set (kids ! j)"
    then show "lt' k (NODEKEY (page_items mp ! i))"
      using separatesD(2) [OF branch.hyps(7) ij k] lt [OF kk [OF _ k] K [OF ij(2)]] by simp
  next
    fix i j k assume ij: "1 \<le> i" "i \<le> j" "j < NUMKEYS mp" and k: "k \<in> fst ` set (kids ! j)"
    then show "k = NODEKEY (page_items mp ! i) \<or> lt' (NODEKEY (page_items mp ! i)) k"
      using separatesD(3) [OF branch.hyps(7) ij k] lt [OF K kk [OF ij(3) k]] by auto
  qed
  then show ?case using branch by (intro subtree.branch) auto
qed (rule subtree.leaf)

lemma sorted_order:
  assumes "subtree lt0 st d pg its" "sorted_wrt lt (map fst its)"
    and lt: "\<And>a b. length a < 2 ^ 32 \<Longrightarrow> length b < 2 ^ 32 \<Longrightarrow> lt' a b \<longleftrightarrow> lt a b"
  shows "sorted_wrt lt' (map fst its)"
proof -
  have "length (fst x) < 2 ^ 32" if "x \<in> set its" for x using subtree_keys [OF assms(1)] that by auto
  then show ?thesis using assms(2) lt by (auto simp: sorted_wrt_iff_nth_less)
qed

lemma db_holds_memn: "db_holds lex_less st db its \<Longrightarrow> db_holds memn.less st db its"
proof -
  assume h: "db_holds lex_less st db its"
  show ?thesis
  proof (cases "md_root db = P_INVALID")
    case True
    then show ?thesis using h by (simp add: db_holds_def)
  next
    case False
    then obtain d where d: "1 < md_root db" "d < CURSOR_STACK" "subtree lex_less st d (md_root db) its" "sorted_wrt lex_less (map fst its)"
      using h by (auto simp: db_holds_def)
    have "subtree memn.less st d (md_root db) its" by (rule subtree_order [OF d(3) less_memn])
    moreover have "sorted_wrt memn.less (map fst its)" by (rule sorted_order [OF d(3,4) less_memn])
    ultimately show ?thesis using False d by (auto simp: db_holds_def)
  qed
qed

section \<open>The lookup\<close>

text \<open>
  C1: \<open>mdb_get\<close> on a database whose pages, as the running transaction sees them, form a search tree
  with the items \<open>its\<close> returns the value of the key in \<open>its\<close>, and \<open>MDB_NOTFOUND\<close> when it has none; no
  page, database or transaction changes, and its cursor is given up.
\<close>

theorem mdb_get_refines_map:
  assumes "db_open st dbi db Cmp_memn" and "db_holds lex_less st db its"
    and "key \<noteq> []" and "length key < 2 ^ 32"
  shows "\<exists>st'. mdb_get dbi key st =
      Some (case map_of its key of None \<Rightarrow> (MDB_NOTFOUND, None, st') | Some v \<Rightarrow> (0, Some v, st')) \<and>
      same_pages st st' \<and> (\<forall>m. m \<noteq> ncrs st \<longrightarrow> crs st' m = crs st m)"
proof (rule memn.get_lookup)
  show "mdb_cmp_memn = cmp_call Cmp_memn" by (simp add: cmp_call_def fun_eq_iff)
  show "\<not> cmp_is Cmp_memn Cmp_cint" by (simp add: cmp_is_def)
  show "NODEKEY (page_items mp ! k) \<in> {bs. length bs < 2 ^ 32}" if "page_ok psize mp" "k < NUMKEYS mp" for psize mp k
    using page_key_length [OF that] by simp
  show "db_holds memn.less st db its" by (rule db_holds_memn [OF assms(2)])
qed (use assms in simp_all)

text \<open>A tree of two levels: the branch page 6 with the leaf pages 5 and 7.\<close>

definition leaf_of :: "pgno_t \<Rightarrow> byte \<Rightarrow> byte \<Rightarrow> byte \<Rightarrow> byte \<Rightarrow> MDB_page" where
  "leaf_of g a va b vb = sample_leaf\<lparr>mp_pgno := g, mp_nodes := (\<lambda>_. None)(54 \<mapsto> sample_node a va, 44 \<mapsto> sample_node b vb)\<rparr>"

definition tree_db :: MDB_db where
  "tree_db = sample_db\<lparr>md_root := 6, md_depth := 2, md_entries := 4\<rparr>"

definition tree_st :: st where
  "tree_st = sample_st\<lparr>txns := [sample_txn\<lparr>mt_flags := MDB_TXN_RDONLY, mt_dbs := [sample_db, tree_db], mt_cursors := []\<rparr>],
     env := sample_env\<lparr>me_map := [6 \<mapsto> sample_branch, 5 \<mapsto> leaf_of 5 1 10 2 20, 7 \<mapsto> leaf_of 7 3 30 4 40],
       me_dbxs := [\<lparr>md_name = [], md_cmp = None, md_dcmp = None\<rparr>, \<lparr>md_name = [], md_cmp = Some Cmp_memn, md_dcmp = None\<rparr>]\<rparr>\<rparr>"

lemma leaf_of_ok: "page_ok 64 (leaf_of g a va b vb) \<and> page_items (leaf_of g a va b vb) = [sample_node a va, sample_node b vb]"
  (is "page_ok 64 ?mp \<and> page_items ?mp = ?its")
proof (rule page_okI)
  have fl: "mp_flags ?mp = mp_flags sample_leaf" by (simp add: leaf_of_def)
  note cong = node_space_cong [OF fl] node_ok_cong [OF fl]
  show "\<not> IS_LEAF2 ?mp" using IS_LEAF2_cong [OF fl] by simp
  show "sum_list (map (node_space ?mp) ?its) + mp_upper ?mp = 64"
    by (simp add: cong) (simp add: leaf_of_def sample_leaf_def)
  fix i assume "i < length ?its"
  then have i: "i = 0 \<or> i = 1" by auto
  show "NODEPTR ?mp i = Some (?its ! i)" using i by (auto simp: NODEPTR_def leaf_of_def sample_leaf_def PAGEBASE_def)
  show "node_ok ?mp (?its ! i)" using i by (auto simp: cong)
  show "mp_upper ?mp \<le> mp_ptrs ?mp i" using i by (auto simp: leaf_of_def sample_leaf_def)
  have "node_space ?mp (?its ! i) = 10" using i by (auto simp: cong)
  then show "mp_ptrs ?mp i + node_space ?mp (?its ! i) \<le> 64" using i by (auto simp: leaf_of_def sample_leaf_def)
  fix j assume "j < length ?its" "i < j"
  then have "i = 0" "j = 1" by auto
  then show "mp_ptrs ?mp i + node_space ?mp (?its ! i) \<le> mp_ptrs ?mp j \<or> mp_ptrs ?mp j + node_space ?mp (?its ! j) \<le> mp_ptrs ?mp i"
    by (simp add: cong) (simp add: leaf_of_def sample_leaf_def)
qed (auto simp: leaf_of_def sample_leaf_def)

lemma leaf_of_flags: "IS_LEAF (leaf_of g a va b vb)" "\<not> IS_BRANCH (leaf_of g a va b vb)" "NUMKEYS (leaf_of g a va b vb) = 2"
proof -
  have fl: "mp_flags (leaf_of g a va b vb) = mp_flags sample_leaf" by (simp add: leaf_of_def)
  show "IS_LEAF (leaf_of g a va b vb)" "\<not> IS_BRANCH (leaf_of g a va b vb)" "NUMKEYS (leaf_of g a va b vb) = 2"
    using IS_LEAF_cong [OF fl] IS_BRANCH_cong [OF fl] by (simp_all) (simp add: leaf_of_def NUMKEYS_eq sample_leaf_def)
qed

lemma tree_page: "me_map (env tree_st) pg = Some mp \<Longrightarrow> pg < 8 \<Longrightarrow> page_at tree_st pg mp"
  by (simp add: page_at_def mdb_page_get_def get_page_def tree_st_def get_txn_def MDB_SUCCESS_def anyset_def
      MDB_TXN_RDONLY_def)

lemma leaf_of_items: "leaf_items tree_st (leaf_of g a va b vb) [([a], [va]), ([b], [vb])]"
  using leaf_of_ok [of g a va b vb]
  by (auto simp: leaf_items_def node_value_def mdb_node_read_def less_Suc_eq node_isset_def F_ISSET_def sample_node_def
      F_DUPDATA_def F_BIGDATA_def NODEKEY_def NODEDATA_def NODEDSZ_def)

lemma tree_leaf: "me_map (env tree_st) pg = Some (leaf_of g a va b vb) \<Longrightarrow> pg < 8 \<Longrightarrow>
    subtree lex_less tree_st 0 pg [([a], [va]), ([b], [vb])]"
  using tree_page leaf_of_ok [of g a va b vb] leaf_of_flags(1,2) [of g a va b vb] leaf_of_items [of g a va b vb]
  by (intro subtree.leaf [where psize = 64 and mp = "leaf_of g a va b vb"]) simp_all

lemma tree_subtree: "subtree lex_less tree_st (Suc 0) 6 [([1], [10]), ([2], [20]), ([3], [30]), ([4], [40])]"
proof -
  let ?kids = "[[([1], [10]), ([2], [20])], [([3], [30]), ([4], [40])]] :: (byte list \<times> byte list) list list"
  have its: "page_items sample_branch ! 0 = \<lparr>mn_lo = 5, mn_hi = 0, mn_flags = 0, mn_ksize = 0, mn_data = []\<rparr>"
    "page_items sample_branch ! 1 = \<lparr>mn_lo = 7, mn_hi = 0, mn_flags = 0, mn_ksize = 1, mn_data = [3]\<rparr>"
    using sample_branch_ok by simp_all
  have "subtree lex_less tree_st (Suc 0) 6 (concat ?kids)"
  proof (rule subtree.branch)
    show "page_at tree_st 6 sample_branch" by (rule tree_page) (simp_all add: tree_st_def)
    show "page_ok 64 sample_branch" using sample_branch_ok by simp
    show "\<forall>i < NUMKEYS sample_branch. subtree lex_less tree_st 0 (NODEPGNO (page_items sample_branch ! i)) (?kids ! i)"
    proof (intro allI impI)
      fix i assume "i < NUMKEYS sample_branch"
      then consider "i = 0" | "i = 1" by fastforce
      then show "subtree lex_less tree_st 0 (NODEPGNO (page_items sample_branch ! i)) (?kids ! i)"
      proof cases
        case 1
        have "NODEPGNO (page_items sample_branch ! 0) = 5" unfolding its by (simp add: NODEPGNO_def)
        moreover have "me_map (env tree_st) 5 = Some (leaf_of 5 1 10 2 20)" by (simp add: tree_st_def)
        ultimately show ?thesis using 1 tree_leaf [of 5 5 1 10 2 20] by simp
      next
        case 2
        have "NODEPGNO (page_items sample_branch ! 1) = 7" unfolding its by (simp add: NODEPGNO_def)
        moreover have "me_map (env tree_st) 7 = Some (leaf_of 7 3 30 4 40)" by (simp add: tree_st_def)
        ultimately show ?thesis using 2 tree_leaf [of 7 7 3 30 4 40] by simp
      qed
    qed
    show "separates lex_less sample_branch ?kids"
      unfolding separates_def
    proof (intro conjI allI impI ballI)
      have n: "NODEKEY (page_items sample_branch ! 1) = [3]" unfolding its by (simp add: NODEKEY_def)
      fix i j assume i: "1 \<le> i" "i < NUMKEYS sample_branch" "j < i"
      then have "i = 1" "j = 0" by simp_all
      then show "lex_less k (NODEKEY (page_items sample_branch ! i))" if "k \<in> fst ` set (?kids ! j)" for k
        using that n by auto
    next
      have n: "NODEKEY (page_items sample_branch ! 1) = [3]" unfolding its by (simp add: NODEKEY_def)
      fix i j assume i: "1 \<le> i" "i \<le> j" "j < NUMKEYS sample_branch"
      then have "i = 1" "j = 1" by simp_all
      then show "k = NODEKEY (page_items sample_branch ! i) \<or> lex_less (NODEKEY (page_items sample_branch ! i)) k"
        if "k \<in> fst ` set (?kids ! j)" for k using that n by auto
    qed simp
  qed simp_all
  then show ?thesis by simp
qed

lemma tree_holds: "db_holds lex_less tree_st tree_db [([1], [10]), ([2], [20]), ([3], [30]), ([4], [40])]"
  using tree_subtree by (auto simp: db_holds_def tree_db_def P_INVALID_def CURSOR_STACK_def intro!: exI [of _ "Suc 0"])

lemma tree_open: "db_open tree_st MAIN_DBI tree_db Cmp_memn"
  by (simp add: db_open_def tree_st_def get_txn_def TXN_DBI_EXIST_def MAIN_DBI_def FREE_DBI_def rd_def anyset_def
      MDB_TXN_RDONLY_def MDB_TXN_ERROR_def DB_VALID_def DB_STALE_def tree_db_def sample_db_def zero_db_def)

lemma mdb_get_refines_map_witness:
  "\<exists>st1 st2. mdb_get MAIN_DBI [3] tree_st = Some (0, Some [30], st1) \<and> mdb_get MAIN_DBI [7] tree_st = Some (MDB_NOTFOUND, None, st2)"
  using mdb_get_refines_map [OF tree_open tree_holds, of "[3]"] mdb_get_refines_map [OF tree_open tree_holds, of "[7]"]
  by auto

end
