(* ===== verification/Lmdb_Walk_Facts.thy ===== *)
theory Lmdb_Walk_Facts
  imports Lmdb_Read_Facts
begin

text \<open>
  Walking with a cursor: the stack of a cursor is a path from the root to a leaf, \<open>mdb_cursor_sibling\<close>
  goes to the next path on the same level, and \<open>mdb_cursor_first\<close> followed by \<open>mdb_cursor_next\<close>
  lists the items of the database in the order of the keys.
\<close>

section \<open>The stack of a cursor\<close>

definition cursor_path :: "st \<Rightarrow> nat \<Rightarrow> nat \<Rightarrow> 32 word \<Rightarrow> (page_ref \<times> nat) list \<Rightarrow> bool" where
  "cursor_path st mc dbi fl path \<longleftrightarrow> path \<noteq> [] \<and> length path \<le> CURSOR_STACK \<and> (\<exists>c. crs st mc = Some c \<and> mc_dbi c = dbi \<and>
     mc_flags c = fl \<and> mc_snum c = length path \<and> mc_top c = length path - 1 \<and> length (mc_pg c) = CURSOR_STACK \<and> length (mc_ki c) = CURSOR_STACK \<and>
     take (length path) (zip (mc_pg c) (mc_ki c)) = path)"

lemma take_zip_snoc:
  assumes "take (Suc n) (zip xs ys) = path @ [(p, k)]" "length path = n" "n < length xs" "n < length ys"
  shows "take n (zip xs ys) = path" "xs ! n = p" "ys ! n = k"
proof -
  have "take (Suc n) (zip xs ys) = take n (zip xs ys) @ [(xs ! n, ys ! n)]"
    using assms(3,4) by (simp add: take_Suc_conv_app_nth)
  then show "take n (zip xs ys) = path" "xs ! n = p" "ys ! n = k" using assms(1) by simp_all
qed

lemma path_top:
  assumes "cursor_path st mc dbi fl (path @ [(p, k)])"
  shows "top_page st mc = get_page st p" "top_ki st mc = Some k" "\<exists>c. crs st mc = Some c \<and> mc_dbi c = dbi \<and> mc_flags c = fl \<and> mc_snum c = Suc (length path)"
proof -
  obtain c where c: "crs st mc = Some c" "mc_snum c = Suc (length path)" "mc_top c = length path" "length (mc_pg c) = CURSOR_STACK"
    "length (mc_ki c) = CURSOR_STACK" "take (Suc (length path)) (zip (mc_pg c) (mc_ki c)) = path @ [(p, k)]" "length path < CURSOR_STACK"
    "mc_dbi c = dbi" "mc_flags c = fl"
    using assms by (auto simp: cursor_path_def)
  note t = take_zip_snoc [OF c(6) refl]
  show "top_page st mc = get_page st p" "top_ki st mc = Some k" "\<exists>c. crs st mc = Some c \<and> mc_dbi c = dbi \<and> mc_flags c = fl \<and> mc_snum c = Suc (length path)"
    using c t by (simp_all add: top_page_def top_ki_def cur_pg_def cur_ki_def)
qed

lemma path_set_ki:
  assumes "cursor_path st mc dbi fl (path @ [(p, k)])" "j < 65536"
  shows "cursor_path (set_top_ki mc j st) mc dbi fl (path @ [(p, j)])"
proof -
  obtain c where c: "crs st mc = Some c" "mc_snum c = Suc (length path)" "mc_top c = length path" "length (mc_pg c) = CURSOR_STACK"
    "length (mc_ki c) = CURSOR_STACK" "take (Suc (length path)) (zip (mc_pg c) (mc_ki c)) = path @ [(p, k)]" "length path < CURSOR_STACK"
    "mc_dbi c = dbi" "mc_flags c = fl"
    using assms by (auto simp: cursor_path_def)
  note t = take_zip_snoc [OF c(6) refl]
  have "take (Suc (length path)) (zip (mc_pg c) ((mc_ki c)[length path := j])) = path @ [(p, j)]"
  proof -
    have "zip (mc_pg c) ((mc_ki c)[length path := j]) = (zip (mc_pg c) (mc_ki c))[length path := (p, j)]"
      using update_zip [of "mc_pg c" "mc_ki c" "length path" "(p, j)"] t c by (metis fst_conv list_update_id snd_conv)
    then show ?thesis using t c by (simp add: take_Suc_conv_app_nth)
  qed
  then show ?thesis using c assms(2) by (simp add: cursor_path_def set_top_ki_def upd_cur_def set_ki_def)
qed

lemma path_push:
  assumes "cursor_path st mc dbi fl path" "length path < CURSOR_STACK"
  shows "\<exists>st'. mdb_cursor_push mc q st = Some (0, st') \<and> only mc st st' \<and> cursor_path st' mc dbi fl (path @ [(q, 0)])"
proof -
  obtain c where c: "crs st mc = Some c" "mc_dbi c = dbi" "mc_flags c = fl" "mc_snum c = length path" "length (mc_pg c) = CURSOR_STACK"
    "length (mc_ki c) = CURSOR_STACK" "take (length path) (zip (mc_pg c) (mc_ki c)) = path"
    using assms(1) by (auto simp: cursor_path_def)
  define n where "n = length path"
  define c' where "c' = c\<lparr>mc_top := n, mc_snum := n + 1, mc_pg := (mc_pg c)[n := q], mc_ki := (mc_ki c)[n := 0]\<rparr>"
  have "mdb_cursor_push mc q st = Some (0, st\<lparr>crs := (crs st)(mc := Some c')\<rparr>)"
    using c assms(2) by (simp add: mdb_cursor_push_def MDB_SUCCESS_def c'_def n_def Let_def)
  moreover have "take (Suc n) (zip (mc_pg c') (mc_ki c')) = path @ [(q, 0)]"
    using c assms(2) by (simp add: c'_def take_Suc_conv_app_nth n_def take_zip)
  then have "cursor_path (st\<lparr>crs := (crs st)(mc := Some c')\<rparr>) mc dbi fl (path @ [(q, 0)])"
    using c assms(2) by (simp add: cursor_path_def c'_def n_def)
  ultimately show ?thesis by (intro exI conjI) (assumption, simp_all)
qed

lemma path_pop:
  assumes "cursor_path st mc dbi fl (path @ [(q, j)])" "path \<noteq> []"
  shows "cursor_path (upd_cur mc mdb_cursor_pop st) mc dbi fl path"
    "upd_cur mc (\<lambda>c. c\<lparr>mc_top := mc_top c + 1, mc_snum := mc_snum c + 1\<rparr>) (upd_cur mc mdb_cursor_pop st) = st"
proof -
  obtain c where c: "crs st mc = Some c" "mc_dbi c = dbi" "mc_flags c = fl" "mc_snum c = Suc (length path)" "mc_top c = length path" "length (mc_pg c) = CURSOR_STACK"
    "length (mc_ki c) = CURSOR_STACK" "take (Suc (length path)) (zip (mc_pg c) (mc_ki c)) = path @ [(q, j)]" "length path < CURSOR_STACK"
    using assms by (auto simp: cursor_path_def)
  note t = take_zip_snoc [OF c(8) refl]
  define c1 where "c1 = c\<lparr>mc_snum := length path, mc_top := length path - 1\<rparr>"
  have p: "mdb_cursor_pop c = c1" using c assms(2) by (simp add: mdb_cursor_pop_def c1_def)
  show "cursor_path (upd_cur mc mdb_cursor_pop st) mc dbi fl path"
    using c p t(1) assms(2) by (simp add: cursor_path_def upd_cur_def c1_def)
  have "c1\<lparr>mc_top := mc_top c1 + 1, mc_snum := mc_snum c1 + 1\<rparr> = c" using c assms(2) by (simp add: c1_def)
  then show "upd_cur mc (\<lambda>c. c\<lparr>mc_top := mc_top c + 1, mc_snum := mc_snum c + 1\<rparr>) (upd_cur mc mdb_cursor_pop st) = st"
    using c(1) p by (simp add: upd_cur_def fun_upd_idem)
qed

lemma path_flags: "cursor_path st mc dbi fl path \<Longrightarrow> cursor_path (or_flags mc f st) mc dbi (fl OR f) path"
  "cursor_path st mc dbi fl path \<Longrightarrow> cursor_path (clear_flags mc f st) mc dbi (fl AND NOT f) path"
  by (auto simp: cursor_path_def or_flags_def clear_flags_def upd_cur_def)

section \<open>A node of the tree on a path\<close>

text \<open>
  The last page of the path is the root of a subtree of height \<open>h\<close> that holds the items \<open>sub\<close>, which
  are those from number \<open>lo\<close> on among all.  The indices of the pages above it lead there; the last one
  does not matter.
\<close>

inductive on_trunk :: "(byte list \<Rightarrow> byte list \<Rightarrow> bool) \<Rightarrow> st \<Rightarrow> nat \<Rightarrow> pgno_t \<Rightarrow> (byte list \<times> byte list) list \<Rightarrow>
    (page_ref \<times> nat) list \<Rightarrow> nat \<Rightarrow> nat \<Rightarrow> (byte list \<times> byte list) list \<Rightarrow> bool"
  for lt :: "byte list \<Rightarrow> byte list \<Rightarrow> bool" and st :: st and d :: nat and root :: pgno_t and its :: "(byte list \<times> byte list) list" where
  root: "mdb_page_get st root = Some (0, (p, l), st) \<Longrightarrow> subtree lt st d root its \<Longrightarrow> on_trunk lt st d root its [(p, k)] d 0 its"
| child: "on_trunk lt st d root its (path @ [(p, k0)]) (Suc h) lo (concat kids) \<Longrightarrow>
    get_page st p = Some mp \<Longrightarrow> page_ok psize mp \<Longrightarrow> IS_BRANCH mp \<Longrightarrow> \<not> IS_LEAF mp \<Longrightarrow> length kids = NUMKEYS mp \<Longrightarrow>
    (\<forall>i < NUMKEYS mp. subtree lt st h (NODEPGNO (page_items mp ! i)) (kids ! i)) \<Longrightarrow> k < NUMKEYS mp \<Longrightarrow>
    mdb_page_get st (NODEPGNO (page_items mp ! k)) = Some (0, (q, l), st) \<Longrightarrow>
    on_trunk lt st d root its ((path @ [(p, k)]) @ [(q, j)]) h (lo + length (concat (take k kids))) (kids ! k)"

lemma trunk_last: "on_trunk lt st d root its (path @ [(p, k)]) h lo sub \<Longrightarrow> on_trunk lt st d root its (path @ [(p, k')]) h lo sub"
proof (erule on_trunk.cases)
  fix p' l k0 assume "path @ [(p, k)] = [(p', k0)]" "h = d" "lo = 0" "sub = its" "mdb_page_get st root = Some (0, (p', l), st)"
    "subtree lt st d root its"
  then show ?thesis using on_trunk.root [of st root p l lt d its k'] by (simp add: Cons_eq_append_conv)
next
  fix path' p' k0 h' lo' kids mp psize i q l j
  assume e: "path @ [(p, k)] = (path' @ [(p', i)]) @ [(q, j)]" "h = h'" "lo = lo' + length (concat (take i kids))" "sub = kids ! i"
    and c: "on_trunk lt st d root its (path' @ [(p', k0)]) (Suc h') lo' (concat kids)"
    "get_page st p' = Some mp" "page_ok psize mp" "IS_BRANCH mp" "\<not> IS_LEAF mp" "length kids = NUMKEYS mp"
    "\<forall>i < NUMKEYS mp. subtree lt st h' (NODEPGNO (page_items mp ! i)) (kids ! i)" "i < NUMKEYS mp"
    "mdb_page_get st (NODEPGNO (page_items mp ! i)) = Some (0, (q, l), st)"
  show ?thesis using on_trunk.child [OF c, of k'] e by simp
qed

lemma subtree_nonempty: "subtree lt st d pg its \<Longrightarrow> its \<noteq> []"
proof (induction rule: subtree.induct)
  case (branch pg mp psize kids d)
  then have "kids \<noteq> []" "kids ! 0 \<in> set kids" "kids ! 0 \<noteq> []" by auto
  then show ?case by auto
qed simp

lemma subtree_unique:
  assumes "mdb_page_get st pg = Some (0, (p, l), st)" "get_page st p = Some mp" "subtree lt st (Suc h) pg its"
  shows "\<exists>psize kids. page_ok psize mp \<and> IS_BRANCH mp \<and> \<not> IS_LEAF mp \<and> 2 \<le> NUMKEYS mp \<and> length kids = NUMKEYS mp \<and> its = concat kids \<and>
    (\<forall>i < NUMKEYS mp. subtree lt st h (NODEPGNO (page_items mp ! i)) (kids ! i))"
proof -
  from assms(3) obtain mp0 psize kids where l: "page_at st pg mp0" "page_ok psize mp0" "IS_BRANCH mp0" "\<not> IS_LEAF mp0"
    "2 \<le> NUMKEYS mp0" "length kids = NUMKEYS mp0" "its = concat kids"
    and sub: "\<forall>i < NUMKEYS mp0. subtree lt st h (NODEPGNO (page_items mp0 ! i)) (kids ! i)"
    by (elim subtree_branchE) (rule that; assumption)
  have "mp0 = mp" using l(1) assms(1,2) by (auto simp: page_at_def)
  then show ?thesis using l sub by blast
qed

lemma subtree_page: "subtree lt st d pg its \<Longrightarrow> \<exists>p l mp. mdb_page_get st pg = Some (0, (p, l), st) \<and> get_page st p = Some mp"
  by (cases d) (auto elim!: subtree_leafE subtree_branchE simp: page_at_def)

text \<open>A trunk ends at a subtree, and where its items are.\<close>

lemma trunk_subtree:
  assumes "on_trunk lt st d root its path h lo sub"
  shows "\<exists>path' p k pg l. path = path' @ [(p, k)] \<and> mdb_page_get st pg = Some (0, (p, l), st) \<and> subtree lt st h pg sub"
    "length path + h = Suc d" "lo + length sub \<le> length its" "sub = take (length sub) (drop lo its)"
  using assms
proof (induction rule: on_trunk.induct)
  case (root p l k)
  {
    case 1
    show ?case using root by (intro exI [of _ "[]"]) auto
  next
    case 2
    show ?case by simp
  next
    case 3
    show ?case by simp
  next
    case 4
    show ?case by simp
  }
next
  case (child path p k0 h lo kids mp psize k q l j)
  have k: "k < length kids" using child.hyps by simp
  have split: "concat kids = concat (take k kids) @ kids ! k @ concat (drop (Suc k) kids)"
  proof -
    have "kids = take k kids @ kids ! k # drop (Suc k) kids" using k by (rule id_take_nth_drop)
    then show ?thesis by (metis concat.simps(2) concat_append)
  qed
  {
    case 1
    show ?case using child.hyps by (intro exI [of _ "path @ [(p, k)]"]) auto
  next
    case 2
    show ?case using child.IH(2) by simp
  next
    case 3
    show ?case using child.IH(3) arg_cong [OF split, of length] by simp
  next
    case 4
    have "drop lo its = concat kids @ drop (length (concat kids)) (drop lo its)"
      using child.IH(4) by (metis append_take_drop_id)
    then have "drop (lo + length (concat (take k kids))) its = kids ! k @ concat (drop (Suc k) kids) @ drop (length (concat kids)) (drop lo its)"
      by (metis (no_types, lifting) split add.commute append.assoc append_eq_conv_conj drop_drop)
    then show ?case by simp
  }
qed

section \<open>To the next page\<close>

lemma page_get_in: "same_pages st st' \<Longrightarrow> mdb_page_get st pg = Some (0, r, st) \<Longrightarrow> mdb_page_get st' pg = Some (0, r, st')"
  using page_get_same by blast

lemma numkeys_small: "page_ok psize mp \<Longrightarrow> NUMKEYS mp < 65535"
  using page_okD(1,5,6) [of psize mp] by (simp add: NUMKEYS_eq)

text \<open>Going down from a page to one of its children.\<close>

lemma go_child:
  assumes "on_trunk lt st d root its (path @ [(p, k0)]) (Suc h) lo (concat kids)"
    and "get_page st p = Some mp" "page_ok psize mp" "IS_BRANCH mp" "\<not> IS_LEAF mp" "length kids = NUMKEYS mp"
    and "\<forall>i < NUMKEYS mp. subtree lt st h (NODEPGNO (page_items mp ! i)) (kids ! i)" "k < NUMKEYS mp"
    and "cursor_path st1 mc dbi fl (path @ [(p, k)])" "same_pages st st1" "length path + 1 < CURSOR_STACK"
  shows "\<exists>q l mp' st2. NODEPTR mp k = Some (page_items mp ! k) \<and>
     mdb_page_get st1 (NODEPGNO (page_items mp ! k)) = Some (0, (q, l), st1) \<and> get_page st q = Some mp' \<and>
     mdb_cursor_push mc q st1 = Some (0, st2) \<and> only mc st1 st2 \<and> cursor_path st2 mc dbi fl ((path @ [(p, k)]) @ [(q, 0)]) \<and>
     on_trunk lt st d root its ((path @ [(p, k)]) @ [(q, 0)]) h (lo + length (concat (take k kids))) (kids ! k)"
proof -
  have sub: "subtree lt st h (NODEPGNO (page_items mp ! k)) (kids ! k)" using assms(7,8) by simp
  obtain q l mp' where q: "mdb_page_get st (NODEPGNO (page_items mp ! k)) = Some (0, (q, l), st)" "get_page st q = Some mp'"
    using subtree_page [OF sub] by blast
  obtain st2 where "mdb_cursor_push mc q st1 = Some (0, st2)" "only mc st1 st2" "cursor_path st2 mc dbi fl ((path @ [(p, k)]) @ [(q, 0)])"
    using path_push [OF assms(9)] assms(11) by fastforce
  then show ?thesis
    using on_trunk.child [OF assms(1-8) q(1), of 0] page_okD(7) [OF assms(3,8)] page_get_in [OF assms(10) q(1)] q(2) by blast
qed

lemma concat_all: "Suc k = length kids \<Longrightarrow> length (concat (take k kids)) + length (kids ! k) = length (concat kids)"
proof -
  assume "Suc k = length kids"
  then have "kids = take k kids @ [kids ! k]" by (metis lessI take_Suc_conv_app_nth take_all_iff order_refl)
  then show ?thesis by (metis concat.simps concat_append append_Nil2 length_append)
qed

lemma concat_more: "Suc k < length kids \<Longrightarrow> length (concat (take k kids)) + length (kids ! k) = length (concat (take (Suc k) kids))"
  by (simp add: take_Suc_conv_app_nth)

lemma concat_less: "k < length kids \<Longrightarrow> kids ! k \<noteq> [] \<Longrightarrow> length (concat (take k kids)) < length (concat kids)"
proof -
  assume k: "k < length kids" "kids ! k \<noteq> []"
  then have "concat kids = concat (take k kids) @ kids ! k @ concat (drop (Suc k) kids)"
    by (metis concat.simps(2) concat_append id_take_nth_drop)
  then show ?thesis using k(2) by simp
qed

lemma sibling_right:
  assumes "on_trunk lt st d root its path h lo sub" "cursor_path st1 mc dbi fl (butlast path @ [(fst (last path), j')])"
    and "same_pages st st1" "length path \<le> n"
  shows "if lo + length sub = length its then cursor_sibling_n n mc True st1 = Some (MDB_NOTFOUND, st1)
     else \<exists>st2 path' q sub'. cursor_sibling_n n mc True st1 = Some (0, st2) \<and> only mc st1 st2 \<and>
       cursor_path st2 mc dbi fl (path' @ [(q, 0)]) \<and> on_trunk lt st d root its (path' @ [(q, 0)]) h (lo + length sub) sub'"
  using assms
proof (induction arbitrary: st1 n j' rule: on_trunk.induct)
  case (root p l k)
  obtain n' where n: "n = Suc n'" using root.prems(3) by (cases n) auto
  show ?case using path_top(3) [of st1 mc dbi fl "[]" p j'] root.prems(1) n by auto
next
  case (child path p k0 h lo kids mp psize k q l j)
  have prems1: "cursor_path st1 mc dbi fl ((path @ [(p, k)]) @ [(q, j')])" using child.prems(1) by (simp add: butlast_append)
  obtain n' where n: "n = Suc n'" "length (path @ [(p, k)]) \<le> n'" using child.prems(3) by (cases n) auto
  define st2 where "st2 = upd_cur mc mdb_cursor_pop st1"
  have path2: "cursor_path st2 mc dbi fl (path @ [(p, k)])"
    and undo: "upd_cur mc (\<lambda>c. c\<lparr>mc_top := mc_top c + 1, mc_snum := mc_snum c + 1\<rparr>) st2 = st1"
    using path_pop [OF prems1] by (simp_all add: st2_def)
  have o2: "only mc st1 st2" by (simp add: st2_def)
  have same2: "same_pages st st2" using same_pages_trans [OF child.prems(2) only_same [OF o2]] .
  have top2: "top_page st2 mc = Some mp" "top_ki st2 mc = Some k"
    using path_top(1,2) [OF path2] same_pages_simps(1) [OF same2] child.hyps(2) by simp_all
  obtain c where c: "crs st1 mc = Some c" "mc_snum c = Suc (length (path @ [(p, k)]))" using path_top(3) [OF prems1] by auto
  have depth: "length path + 1 < CURSOR_STACK" using prems1 by (simp add: cursor_path_def)
  have ne: "kids ! i \<noteq> []" if "i < NUMKEYS mp" for i using child.hyps(7) subtree_nonempty that by blast
  have small: "NUMKEYS mp < 65535" by (rule numkeys_small [OF child.hyps(3)])
  define up where "up = (if k + 1 \<ge> NUMKEYS mp then do {
            (rc, st) \<leftarrow> cursor_sibling_n n' mc True st2;
            Some (rc, if rc \<noteq> MDB_SUCCESS
                      then upd_cur mc (\<lambda>c. c\<lparr>mc_top := mc_top c + 1, mc_snum := mc_snum c + 1\<rparr>) st
                      else st) }
          else Some (MDB_SUCCESS, set_top_ki mc (k + 1) st2))"
  have unfold: "cursor_sibling_n n mc True st1 = up \<bind> (\<lambda>(rc, st). if rc \<noteq> MDB_SUCCESS then Some (rc, st)
       else do {
         mp \<leftarrow> top_page st mc;
         mdb_cassert (IS_BRANCH mp);
         ki \<leftarrow> top_ki st mc;
         indx \<leftarrow> NODEPTR mp ki;
         (rc, (p, level), st) \<leftarrow> mdb_page_get st (NODEPGNO indx);
         if rc \<noteq> 0 then Some (rc, clear_flags mc (C_INITIALIZED OR C_EOF) st)
         else do {
           (_, st) \<leftarrow> mdb_cursor_push mc p st;
           mp \<leftarrow> get_page st p;
           Some (MDB_SUCCESS, if \<not> True then set_top_ki mc (NUMKEYS mp + 65535) st else st) } })"
    using n(1) c top2 by (simp add: st2_def [symmetric] up_def)
  show ?case
  proof (cases "k + 1 \<ge> NUMKEYS mp")
    case True
    then have k: "Suc k = length kids" using child.hyps(6,8) by simp
    have pos: "lo + length (concat (take k kids)) + length (kids ! k) = lo + length (concat kids)" using concat_all [OF k] by simp
    have "cursor_path st2 mc dbi fl (butlast (path @ [(p, k0)]) @ [(fst (last (path @ [(p, k0)])), k)])" "length (path @ [(p, k0)]) \<le> n'"
      using path2 n(2) by simp_all
    note IH = child.IH [OF this(1) same2 this(2)]
    show ?thesis
    proof (cases "lo + length (concat kids) = length its")
      case end': True
      have "cursor_sibling_n n' mc True st2 = Some (MDB_NOTFOUND, st2)" using IH end' by simp
      then have "cursor_sibling_n n mc True st1 = Some (MDB_NOTFOUND, st1)"
        using unfold True undo by (simp add: up_def MDB_NOTFOUND_def MDB_SUCCESS_def)
      then show ?thesis using end' pos by simp
    next
      case more: False
      obtain st3 path' p' kids' where r: "cursor_sibling_n n' mc True st2 = Some (0, st3)" "only mc st2 st3"
        "cursor_path st3 mc dbi fl (path' @ [(p', 0)])"
        "on_trunk lt st d root its (path' @ [(p', 0)]) (Suc h) (lo + length (concat kids)) kids'"
        using IH more by auto
      have o3: "only mc st1 st3" by (rule only_trans [OF o2 r(2)])
      have same3: "same_pages st st3" using same_pages_trans [OF child.prems(2) only_same [OF o3]] .
      obtain pg l' where pg: "mdb_page_get st pg = Some (0, (p', l'), st)" "subtree lt st (Suc h) pg kids'"
        using trunk_subtree(1) [OF r(4)] by auto
      obtain mp' where mp': "get_page st p' = Some mp'" using subtree_page [OF pg(2)] pg(1) by auto
      obtain psize' kids1 where b: "page_ok psize' mp'" "IS_BRANCH mp'" "\<not> IS_LEAF mp'" "2 \<le> NUMKEYS mp'" "length kids1 = NUMKEYS mp'"
        "kids' = concat kids1" "\<forall>i < NUMKEYS mp'. subtree lt st h (NODEPGNO (page_items mp' ! i)) (kids1 ! i)"
        using subtree_unique [OF pg(1) mp' pg(2)] by blast
      have top3: "top_page st3 mc = Some mp'" "top_ki st3 mc = Some 0"
        using path_top(1,2) [OF r(3)] same_pages_simps(1) [OF same3] mp' by simp_all
      have z: "0 < NUMKEYS mp'" using b(4) by simp
      have depth': "length path' + 1 < CURSOR_STACK"
        using trunk_subtree(2) [OF r(4)] trunk_subtree(2) [OF child.hyps(1)] depth by simp
      obtain q' l2 mp2 st4 where g: "NODEPTR mp' 0 = Some (page_items mp' ! 0)"
        "mdb_page_get st3 (NODEPGNO (page_items mp' ! 0)) = Some (0, (q', l2), st3)" "get_page st q' = Some mp2"
        "mdb_cursor_push mc q' st3 = Some (0, st4)" "only mc st3 st4" "cursor_path st4 mc dbi fl ((path' @ [(p', 0)]) @ [(q', 0)])"
        "on_trunk lt st d root its ((path' @ [(p', 0)]) @ [(q', 0)]) h (lo + length (concat kids) + length (concat (take 0 kids1))) (kids1 ! 0)"
        using go_child [OF r(4) [unfolded b(6)] mp' b(1-3,5,7) z r(3) same3 depth'] by blast
      have "get_page st4 q' = Some mp2"
        using same_pages_simps(1) [OF same_pages_trans [OF same3 only_same [OF g(5)]]] g(3) by simp
      then have "cursor_sibling_n n mc True st1 = Some (0, st4)"
        using unfold True r(1) top3 g(1,2,4) b(2) by (simp add: up_def MDB_SUCCESS_def)
      then show ?thesis using more pos only_trans [OF o3 g(5)] g(6,7) by (auto simp add: add.assoc simp del: append_assoc)
    qed
  next
    case False
    define st3 where "st3 = set_top_ki mc (Suc k) st2"
    have path3: "cursor_path st3 mc dbi fl (path @ [(p, Suc k)])" unfolding st3_def by (rule path_set_ki [OF path2]) (use False small in simp)
    have o3: "only mc st1 st3" unfolding st3_def by (rule only_trans [OF o2 only_upd(2)])
    have same3: "same_pages st st3" using same_pages_trans [OF child.prems(2) only_same [OF o3]] .
    have top3: "top_page st3 mc = Some mp" "top_ki st3 mc = Some (Suc k)"
      using path_top(1,2) [OF path3] same_pages_simps(1) [OF same3] child.hyps(2) by simp_all
    have k1: "Suc k < NUMKEYS mp" using False by simp
    obtain q' l' mp' st4 where g: "NODEPTR mp (Suc k) = Some (page_items mp ! (Suc k))"
     "mdb_page_get st3 (NODEPGNO (page_items mp ! (Suc k))) = Some (0, (q', l'), st3)" "get_page st q' = Some mp'"
     "mdb_cursor_push mc q' st3 = Some (0, st4)" "only mc st3 st4" "cursor_path st4 mc dbi fl ((path @ [(p, Suc k)]) @ [(q', 0)])"
     "on_trunk lt st d root its ((path @ [(p, Suc k)]) @ [(q', 0)]) h (lo + length (concat (take (Suc k) kids))) (kids ! (Suc k))"
      using go_child [OF child.hyps(1-7) k1 path3 same3 depth] by blast
    have "get_page st4 q' = Some mp'"
      using same_pages_simps(1) [OF same_pages_trans [OF same3 only_same [OF g(5)]]] g(3) by simp
    then have "cursor_sibling_n n mc True st1 = Some (0, st4)"
      using unfold False top3 g child.hyps(4) by (simp add: up_def st3_def [symmetric] MDB_SUCCESS_def)
    moreover have "lo + length (concat (take k kids)) + length (kids ! k) = lo + length (concat (take (Suc k) kids))"
      using concat_more [of k kids] False child.hyps(6) by simp
    moreover have "lo + length (concat (take (Suc k) kids)) < length its"
      using concat_less [of "Suc k" kids] ne [OF k1] k1 child.hyps(6) trunk_subtree(3) [OF child.hyps(1)] by simp
    ultimately show ?thesis using only_trans [OF o3 g(5)] g(6,7) by (auto simp add: add.assoc simp del: append_assoc)
  qed
qed

section \<open>The item under the cursor\<close>

lemma leaf_of_subtree:
  assumes "mdb_page_get st pg = Some (0, (p, l), st)" "subtree lt st 0 pg its"
  shows "\<exists>mp psize. get_page st p = Some mp \<and> page_ok psize mp \<and> IS_LEAF mp \<and> \<not> IS_BRANCH mp \<and> leaf_items st mp its \<and> NUMKEYS mp = length its"
proof -
  from assms(2) obtain mp psize where l: "page_at st pg mp" "page_ok psize mp" "IS_LEAF mp" "\<not> IS_BRANCH mp" "leaf_items st mp its"
    by (elim subtree_leafE)
  have "get_page st p = Some mp" using l(1) assms(1) by (auto simp: page_at_def)
  moreover have "NUMKEYS mp = length its" using l(5) by (metis leaf_items_def length_map length_page_items)
  ultimately show ?thesis using l by blast
qed

definition flags_ready :: "32 word \<Rightarrow> bool" where
  "flags_ready fl \<longleftrightarrow> anyset fl C_INITIALIZED \<and> \<not> anyset fl C_EOF \<and> \<not> anyset fl C_DEL"

definition at_item :: "(byte list \<Rightarrow> byte list \<Rightarrow> bool) \<Rightarrow> st \<Rightarrow> nat \<Rightarrow> pgno_t \<Rightarrow> (byte list \<times> byte list) list \<Rightarrow> st \<Rightarrow> nat \<Rightarrow> nat \<Rightarrow> nat \<Rightarrow> bool" where
  "at_item lt st d root its st1 mc dbi pos \<longleftrightarrow> same_pages st st1 \<and> (\<exists>fl path p k lo sub. flags_ready fl \<and>
     cursor_path st1 mc dbi fl (path @ [(p, k)]) \<and> on_trunk lt st d root its (path @ [(p, k)]) 0 lo sub \<and> k < length sub \<and> pos = lo + k)"

lemma trunk_leaf:
  assumes "on_trunk lt st d root its (path @ [(p, k)]) 0 lo sub" "cursor_path st1 mc dbi fl (path @ [(p, k)])" "same_pages st st1"
  shows "\<exists>mp psize. top_page st1 mc = Some mp \<and> top_ki st1 mc = Some k \<and> page_ok psize mp \<and> IS_LEAF mp \<and> \<not> IS_BRANCH mp \<and>
    leaf_items st1 mp sub \<and> NUMKEYS mp = length sub"
proof -
  obtain pg l where "mdb_page_get st pg = Some (0, (p, l), st)" "subtree lt st 0 pg sub"
    using trunk_subtree(1) [OF assms(1)] by auto
  then obtain mp psize where mp: "get_page st p = Some mp" "page_ok psize mp" "IS_LEAF mp" "\<not> IS_BRANCH mp" "leaf_items st mp sub" "NUMKEYS mp = length sub"
    using leaf_of_subtree by blast
  moreover have "leaf_items st1 mp sub" using mp(5) node_value_same [OF assms(3)] by (simp add: leaf_items_def)
  moreover have "top_page st1 mc = Some mp" "top_ki st1 mc = Some k"
    using path_top(1,2) [OF assms(2)] mp(1) same_pages_simps(1) [OF assms(3)] by simp_all
  ultimately show ?thesis by blast
qed

lemma read_at:
  assumes "on_trunk lt st d root its (path @ [(p, k)]) 0 lo sub" "cursor_path st1 mc dbi fl (path @ [(p, k)])" "same_pages st st1"
    and "k < length sub"
  shows "read_item mc True st1 = Some (MDB_SUCCESS, Some (fst (its ! (lo + k))), Some (snd (its ! (lo + k))), st1)"
proof -
  obtain mp psize where mp: "top_page st1 mc = Some mp" "top_ki st1 mc = Some k" "page_ok psize mp" "IS_LEAF mp"
    "leaf_items st1 mp sub" "NUMKEYS mp = length sub"
    using trunk_leaf [OF assms(1-3)] by blast
  obtain c where c: "crs st1 mc = Some c" using path_top(3) [OF assms(2)] by auto
  have k: "k < NUMKEYS mp" using assms(4) mp(6) by simp
  have sub: "its ! (lo + k) = sub ! k"
    using trunk_subtree(3,4) [OF assms(1)] assms(4)
    by (metis add_leD1 nth_drop nth_take)
  have key: "NODEKEY (page_items mp ! k) = fst (sub ! k)"
  proof -
    have "map fst sub ! k = map NODEKEY (page_items mp) ! k" using mp(5) by (simp add: leaf_items_def)
    then show ?thesis using k mp(6) by simp
  qed
  have "mdb_node_read (page_items mp ! k) st1 = Some (MDB_SUCCESS, snd (sub ! k), st1)" "\<not> node_isset (page_items mp ! k) F_DUPDATA"
    using mp(5) assms(4) by (auto simp: leaf_items_def node_value_def)
  then show ?thesis
    using c mp(1,2,4) page_okD(7,2) [OF mp(3)] k key sub by (simp add: read_item_def)
qed

lemma next_item:
  assumes "at_item lt st d root its st1 mc dbi pos"
  shows "if pos + 1 < length its
     then \<exists>st2. mdb_cursor_next mc True st1 = Some (MDB_SUCCESS, Some (fst (its ! (pos + 1))), Some (snd (its ! (pos + 1))), st2) \<and>
       only mc st1 st2 \<and> at_item lt st d root its st2 mc dbi (pos + 1)
     else mdb_cursor_next mc True st1 = Some (MDB_NOTFOUND, None, None, or_flags mc C_EOF st1)"
proof -
  obtain fl path p k lo sub where i: "flags_ready fl" "cursor_path st1 mc dbi fl (path @ [(p, k)])"
    "on_trunk lt st d root its (path @ [(p, k)]) 0 lo sub" "k < length sub" "pos = lo + k" and same: "same_pages st st1"
    using assms by (auto simp: at_item_def)
  obtain mp psize where mp: "top_page st1 mc = Some mp" "top_ki st1 mc = Some k" "page_ok psize mp" "NUMKEYS mp = length sub"
    using trunk_leaf [OF i(3,2) same] by blast
  obtain c where c: "crs st1 mc = Some c" "mc_flags c = fl" using path_top(3) [OF i(2)] by auto
  have unfold: "mdb_cursor_next mc True st1 = (if k + 1 \<ge> NUMKEYS mp then do {
            (rc, st) \<leftarrow> mdb_cursor_sibling mc True st1;
            Some (rc, if rc \<noteq> MDB_SUCCESS then or_flags mc C_EOF st else st) }
          else Some (0, set_top_ki mc (k + 1) st1)) \<bind> (\<lambda>(rc, st). if rc \<noteq> 0 then Some (rc, None, None, st) else read_item mc True st)"
    using c mp(1,2) i(1) by (simp add: mdb_cursor_next_def flags_ready_def)
  show ?thesis
  proof (cases "k + 1 < length sub")
    case True
    define st2 where "st2 = set_top_ki mc (k + 1) st1"
    have p2: "cursor_path st2 mc dbi fl (path @ [(p, k + 1)])"
      unfolding st2_def by (rule path_set_ki [OF i(2)]) (use True mp(4) numkeys_small [OF mp(3)] in simp)
    have t2: "on_trunk lt st d root its (path @ [(p, k + 1)]) 0 lo sub" by (rule trunk_last [OF i(3)])
    have o2: "only mc st1 st2" by (simp add: st2_def)
    have s2: "same_pages st st2" by (rule same_pages_trans [OF same only_same [OF o2]])
    have "mdb_cursor_next mc True st1 = read_item mc True st2"
      using unfold True mp(4) by (simp add: st2_def)
    then have "mdb_cursor_next mc True st1 = Some (MDB_SUCCESS, Some (fst (its ! (pos + 1))), Some (snd (its ! (pos + 1))), st2)"
      using read_at [OF t2 p2 s2 True] i(5) by (simp add: add.assoc)
    moreover have "at_item lt st d root its st2 mc dbi (pos + 1)"
      unfolding at_item_def using s2 i(1,5) p2 t2 True by (metis add.assoc)
    moreover have "pos + 1 < length its" using trunk_subtree(3) [OF i(3)] True i(5) by simp
    ultimately show ?thesis using o2 by auto
  next
    case False
    then have last: "lo + length sub = pos + 1" using i(4,5) by simp
    have "cursor_path st1 mc dbi fl (butlast (path @ [(p, k)]) @ [(fst (last (path @ [(p, k)])), k)])" using i(2) by simp
    moreover have "length (path @ [(p, k)]) \<le> CURSOR_STACK + 1" using i(2) by (simp add: cursor_path_def)
    ultimately have sib: "if lo + length sub = length its then mdb_cursor_sibling mc True st1 = Some (MDB_NOTFOUND, st1)
     else \<exists>st2 path' q sub'. mdb_cursor_sibling mc True st1 = Some (0, st2) \<and> only mc st1 st2 \<and>
       cursor_path st2 mc dbi fl (path' @ [(q, 0)]) \<and> on_trunk lt st d root its (path' @ [(q, 0)]) 0 (lo + length sub) sub'"
      unfolding mdb_cursor_sibling_def by (rule sibling_right [OF i(3) _ same])
    show ?thesis
    proof (cases "pos + 1 < length its")
      case True
      then obtain st2 path' q sub' where s: "mdb_cursor_sibling mc True st1 = Some (0, st2)" "only mc st1 st2"
       "cursor_path st2 mc dbi fl (path' @ [(q, 0)])" "on_trunk lt st d root its (path' @ [(q, 0)]) 0 (pos + 1) sub'"
        using sib last by auto
      have s2: "same_pages st st2" by (rule same_pages_trans [OF same only_same [OF s(2)]])
      have ne: "0 < length sub'"
        using trunk_subtree(1) [OF s(4)] subtree_nonempty by blast
      have "mdb_cursor_next mc True st1 = read_item mc True st2"
        using unfold False mp(4) s(1) by (simp add: MDB_SUCCESS_def)
      then have "mdb_cursor_next mc True st1 = Some (MDB_SUCCESS, Some (fst (its ! (pos + 1))), Some (snd (its ! (pos + 1))), st2)"
        using read_at [OF s(4,3) s2 ne] by simp
      moreover have "at_item lt st d root its st2 mc dbi (pos + 1)"
        unfolding at_item_def using s2 i(1) s(3,4) ne by (metis add_0_right)
      ultimately show ?thesis using True s(2) by auto
    next
      case end': False
      have "lo + length sub = length its" using end' last trunk_subtree(3) [OF i(3)] by simp
      then have "mdb_cursor_sibling mc True st1 = Some (MDB_NOTFOUND, st1)" using sib by simp
      then show ?thesis using unfold False mp(4) end' by (simp add: MDB_SUCCESS_def MDB_NOTFOUND_def)
    qed
  qed
qed

text \<open>All items from the next one on, until an operation fails; \<open>n\<close> bounds their number.\<close>

fun walk_next :: "nat \<Rightarrow> nat \<Rightarrow> st \<Rightarrow> ((byte list \<times> byte list) list \<times> int \<times> st) option" where
  "walk_next 0 mc st = None"
| "walk_next (Suc n) mc st = do {
     (rc, k, v, st) \<leftarrow> mdb_cursor_next mc True st;
     if rc \<noteq> 0 then Some ([], rc, st)
     else do {
       k \<leftarrow> k;
       v \<leftarrow> v;
       (xs, rc, st) \<leftarrow> walk_next n mc st;
       Some ((k, v) # xs, rc, st) } }"

lemma walk_from:
  assumes "at_item lt st d root its st1 mc dbi pos" "length its - pos \<le> n" "pos < length its"
  shows "\<exists>st2. walk_next n mc st1 = Some (drop (pos + 1) its, MDB_NOTFOUND, st2) \<and> only mc st1 st2"
  using assms
proof (induction n arbitrary: pos st1)
  case (Suc n)
  note nx = next_item [OF Suc.prems(1)]
  show ?case
  proof (cases "pos + 1 < length its")
    case True
    then obtain st2 where s: "mdb_cursor_next mc True st1 = Some (MDB_SUCCESS, Some (fst (its ! (pos + 1))), Some (snd (its ! (pos + 1))), st2)"
       "only mc st1 st2" "at_item lt st d root its st2 mc dbi (pos + 1)" using nx by auto
    obtain st3 where "walk_next n mc st2 = Some (drop (pos + 1 + 1) its, MDB_NOTFOUND, st3)" "only mc st2 st3"
    proof -
      have "length its - (pos + 1) \<le> n" using Suc.prems(2,3) by linarith
      then show ?thesis using Suc.IH [OF s(3) _ True] that by blast
    qed
    moreover have "drop (pos + 1) its = its ! (pos + 1) # drop (pos + 1 + 1) its" using True by (simp add: Cons_nth_drop_Suc)
    ultimately show ?thesis using s(1) only_trans [OF s(2)] by (auto simp: MDB_SUCCESS_def)
  next
    case False
    then show ?thesis using nx Suc.prems(3) by (auto simp: MDB_NOTFOUND_def)
  qed
qed simp

section \<open>To the first item\<close>

lemma ps_first [simp]: "anyset MDB_PS_FIRST (MDB_PS_FIRST OR MDB_PS_LAST)" "\<not> anyset MDB_PS_FIRST MDB_PS_LAST"
  "\<not> anyset MDB_PS_FIRST MDB_PS_MODIFY" "\<not> anyset MDB_PS_FIRST MDB_PS_ROOTONLY"
  by (simp_all add: anyset_def MDB_PS_FIRST_def MDB_PS_LAST_def MDB_PS_MODIFY_def MDB_PS_ROOTONLY_def)

lemma descend_first:
  assumes "on_trunk lt st d root its (path @ [(p, k0)]) h lo sub" "cursor_path st1 mc dbi fl (path @ [(p, k0)])"
    and "same_pages st st1" "h < n" "length path + h < CURSOR_STACK"
  shows "\<exists>st2 path' q k sub'. search_root_loop touch n mc None MDB_PS_FIRST st1 = Some (0, st2) \<and> only mc st1 st2 \<and>
     cursor_path st2 mc dbi ((fl OR C_INITIALIZED) AND NOT C_EOF) (path' @ [(q, k)]) \<and>
     on_trunk lt st d root its (path' @ [(q, k)]) 0 lo sub'"
  using assms
proof (induction h arbitrary: path p k0 sub st1 n)
  case 0
  obtain n' where n: "n = Suc n'" using "0.prems"(4) by (cases n) auto
  obtain mp psize where mp: "top_page st1 mc = Some mp" "IS_LEAF mp" "\<not> IS_BRANCH mp"
    using trunk_leaf [OF "0.prems"(1-3)] by blast
  have "search_root_loop touch n mc None MDB_PS_FIRST st1 = Some (0, clear_flags mc C_EOF (or_flags mc C_INITIALIZED st1))"
    using n mp by (simp add: MDB_SUCCESS_def)
  moreover have "only mc st1 (clear_flags mc C_EOF (or_flags mc C_INITIALIZED st1))"
    by (rule only_trans [OF only_upd(3) only_upd(4)])
  ultimately show ?case using path_flags(2) [OF path_flags(1) [OF "0.prems"(2)]] "0.prems"(1) by blast
next
  case (Suc h)
  obtain n' where n: "n = Suc n'" "h < n'" using Suc.prems(4) by (cases n) auto
  obtain pg l where pg: "mdb_page_get st pg = Some (0, (p, l), st)" "subtree lt st (Suc h) pg sub"
    using trunk_subtree(1) [OF Suc.prems(1)] by auto
  obtain mp where mp: "get_page st p = Some mp" using subtree_page [OF pg(2)] pg(1) by auto
  obtain psize kids where b: "page_ok psize mp" "IS_BRANCH mp" "\<not> IS_LEAF mp" "2 \<le> NUMKEYS mp" "length kids = NUMKEYS mp"
    "sub = concat kids" "\<forall>i < NUMKEYS mp. subtree lt st h (NODEPGNO (page_items mp ! i)) (kids ! i)"
    using subtree_unique [OF pg(1) mp pg(2)] by blast
  have top1: "top_page st1 mc = Some mp"
    using path_top(1) [OF Suc.prems(2)] mp same_pages_simps(1) [OF Suc.prems(3)] by simp
  define st2 where "st2 = set_top_ki mc 0 st1"
  have p2: "cursor_path st2 mc dbi fl (path @ [(p, 0)])" unfolding st2_def by (rule path_set_ki [OF Suc.prems(2)]) simp
  have o2: "only mc st1 st2" by (simp add: st2_def)
  have s2: "same_pages st st2" by (rule same_pages_trans [OF Suc.prems(3) only_same [OF o2]])
  have z: "0 < NUMKEYS mp" using b(4) by simp
  have dep: "length path + 1 < CURSOR_STACK" using Suc.prems(5) by simp
  obtain q l' mp' st3 where g: "NODEPTR mp 0 = Some (page_items mp ! 0)"
    "mdb_page_get st2 (NODEPGNO (page_items mp ! 0)) = Some (0, (q, l'), st2)"
    "mdb_cursor_push mc q st2 = Some (0, st3)" "only mc st2 st3" "cursor_path st3 mc dbi fl ((path @ [(p, 0)]) @ [(q, 0)])"
    "on_trunk lt st d root its ((path @ [(p, 0)]) @ [(q, 0)]) h (lo + length (concat (take 0 kids))) (kids ! 0)"
    using go_child [OF Suc.prems(1) [unfolded b(6)] mp b(1-3,5,7) z p2 s2 dep] by blast
  have pg1: "mdb_page_get st1 (NODEPGNO (page_items mp ! 0)) = Some (0, (q, l'), st1)"
    using page_get_in [OF same_pages_sym [OF only_same [OF o2]] g(2)] .
  have o3: "only mc st1 st3" by (rule only_trans [OF o2 g(4)])
  have s3: "same_pages st st3" by (rule same_pages_trans [OF Suc.prems(3) only_same [OF o3]])
  have step: "search_root_loop touch n mc None MDB_PS_FIRST st1 = search_root_loop touch n' mc None MDB_PS_FIRST st3"
    using n(1) top1 b(2,4) g(1,3) pg1 by (simp add: choose_child_def rc_bind_def st2_def)
  have t3: "on_trunk lt st d root its ((path @ [(p, 0)]) @ [(q, 0)]) h lo (kids ! 0)" using g(6) by simp
  have dep3: "length (path @ [(p, 0)]) + h < CURSOR_STACK" using Suc.prems(5) by simp
  obtain st4 path' q' k sub' where "search_root_loop touch n' mc None MDB_PS_FIRST st3 = Some (0, st4)" "only mc st3 st4"
     "cursor_path st4 mc dbi ((fl OR C_INITIALIZED) AND NOT C_EOF) (path' @ [(q', k)])"
     "on_trunk lt st d root its (path' @ [(q', k)]) 0 lo sub'"
    using Suc.IH [OF t3 g(5) s3 n(2) dep3] by blast
  then show ?case using step only_trans [OF o3] by metis
qed

lemma first_item:
  assumes op: "db_open st dbi db cc" and h: "1 < md_root db" "d < CURSOR_STACK" "subtree lt st d (md_root db) its" "md_root db \<noteq> P_INVALID"
    and cur: "crs st mc = Some (blank_cursor dbi)"
  shows "\<exists>st1. mdb_cursor_first mc True st = Some (MDB_SUCCESS, Some (fst (its ! 0)), Some (snd (its ! 0)), st1) \<and> only mc st st1 \<and>
     at_item lt st d (md_root db) its st1 mc dbi 0"
proof -
  obtain t fl dbx where o: "get_txn st = Some t" "\<not> anyset (mt_flags t) MDB_TXN_ERROR"
    "rd (mt_dbflags t) dbi = Some fl" "\<not> anyset fl DB_STALE" "rd (mt_dbs t) dbi = Some db"
    using op unfolding db_open_def by blast
  obtain p l mp where pg: "mdb_page_get st (md_root db) = Some (0, (p, l), st)" "get_page st p = Some mp"
    using subtree_page [OF h(3)] by blast
  define st1 where "st1 = upd_cur mc (\<lambda>c. c\<lparr>mc_snum := 1, mc_top := 0\<rparr>) (upd_cur mc (set_pg 0 p) st)"
  have p1: "cursor_path st1 mc dbi 0 ([] @ [(p, 0)])"
    using cur by (simp add: cursor_path_def st1_def upd_cur_def set_pg_def blank_cursor_def CURSOR_STACK_def numeral_eq_Suc)
  have o1: "only mc st st1" unfolding st1_def by (rule only_trans [OF only_upd(1) only_upd(1)])
  have t1: "on_trunk lt st d (md_root db) its ([] @ [(p, 0)]) d 0 its" using on_trunk.root [OF pg(1) h(3)] by simp
  obtain st2 path' q k sub' where s: "search_root_loop no_touch (CURSOR_STACK + 1) mc None MDB_PS_FIRST st1 = Some (0, st2)" "only mc st1 st2"
     "cursor_path st2 mc dbi ((0 OR C_INITIALIZED) AND NOT C_EOF) (path' @ [(q, k)])"
     "on_trunk lt st d (md_root db) its (path' @ [(q, k)]) 0 0 sub'"
    using descend_first [OF t1 p1 only_same [OF o1], of "CURSOR_STACK + 1" no_touch] h(2) by auto
  have ps: "page_search no_touch mc None MDB_PS_FIRST st = Some (0, st2)"
  proof -
    have "page_search no_touch mc None MDB_PS_FIRST st = search_from_root no_touch mc None MDB_PS_FIRST st"
      using o cur not_error [OF o(2)]
      by (simp add: page_search_def search_levels_def numeral_eq_Suc rc_bind_def blank_cursor_def get_dbflag_def)
    also have "\<dots> = Some (0, st2)"
      using o(1,5) cur h(1,4) pg(1) s(1)
      by (simp add: search_from_root_def get_db_def blank_cursor_def CURSOR_STACK_def rc_bind_def st1_def mdb_page_search_root_def)
    finally show ?thesis .
  qed
  define st3 where "st3 = set_top_ki mc 0 (clear_flags mc C_EOF (or_flags mc C_INITIALIZED st2))"
  define f3 where "f3 = ((((0 OR C_INITIALIZED) AND NOT C_EOF) OR C_INITIALIZED) AND NOT C_EOF)"
  have p3: "cursor_path st3 mc dbi f3 (path' @ [(q, 0)])"
    unfolding st3_def f3_def by (rule path_set_ki [OF path_flags(2) [OF path_flags(1) [OF s(3)]]]) simp
  have o2: "only mc st st2" by (rule only_trans [OF o1 s(2)])
  have o3: "only mc st st3"
    unfolding st3_def by (rule only_trans [OF only_trans [OF only_trans [OF o2 only_upd(3)] only_upd(4)] only_upd(2)])
  have t3: "on_trunk lt st d (md_root db) its (path' @ [(q, 0)]) 0 0 sub'" by (rule trunk_last [OF s(4)])
  have ne: "0 < length sub'" using trunk_subtree(1) [OF t3] subtree_nonempty by blast
  obtain mp' where "top_page st2 mc = Some mp'" "IS_LEAF mp'" using trunk_leaf [OF s(4,3) only_same [OF o2]] by blast
  then have "mdb_cursor_first mc True st = read_item mc True st3"
    using cur ps by (simp add: mdb_cursor_first_def blank_cursor_def anyset_def MDB_SUCCESS_def st3_def)
  moreover have "flags_ready f3"
    by (simp add: flags_ready_def f3_def anyset_def C_INITIALIZED_def C_EOF_def C_DEL_def)
  ultimately show ?thesis
    using read_at [OF t3 p3 only_same [OF o3] ne] o3 p3 t3 ne unfolding at_item_def
    by (intro exI [of _ st3]) (auto simp: only_same [OF o3] intro!: exI [of _ f3] exI [of _ path'] exI [of _ q] exI [of _ sub'])
qed

text \<open>
  C2: a fresh cursor on a database that holds the items \<open>its\<close> lists exactly these, in the order of the
  keys: \<open>mdb_cursor_first\<close> gives the first, \<open>mdb_cursor_next\<close> all the others one after the other and
  then \<open>MDB_NOTFOUND\<close>, on trees of any depth; no page, database or transaction changes.
\<close>

theorem cursor_walk_enumerates:
  assumes "db_open st dbi db cc" and "db_holds lt st db its" and "its \<noteq> []" and "crs st mc = Some (blank_cursor dbi)"
  shows "\<exists>st1 st2. mdb_cursor_first mc True st = Some (MDB_SUCCESS, Some (fst (hd its)), Some (snd (hd its)), st1) \<and>
     walk_next (length its) mc st1 = Some (tl its, MDB_NOTFOUND, st2) \<and> same_pages st st2 \<and> (\<forall>m. m \<noteq> mc \<longrightarrow> crs st2 m = crs st m)"
proof -
  obtain d where d: "md_root db \<noteq> P_INVALID" "1 < md_root db" "d < CURSOR_STACK" "subtree lt st d (md_root db) its"
    using assms(2,3) by (auto simp: db_holds_def split: if_splits)
  obtain st1 where s: "mdb_cursor_first mc True st = Some (MDB_SUCCESS, Some (fst (its ! 0)), Some (snd (its ! 0)), st1)" "only mc st st1"
     "at_item lt st d (md_root db) its st1 mc dbi 0"
    using first_item [OF assms(1) d(2-4,1) assms(4)] by blast
  obtain st2 where w: "walk_next (length its) mc st1 = Some (drop 1 its, MDB_NOTFOUND, st2)" "only mc st1 st2"
    using walk_from [OF s(3), of "length its"] assms(3) by auto
  have o: "only mc st st2" by (rule only_trans [OF s(2) w(2)])
  have "\<forall>m. m \<noteq> mc \<longrightarrow> crs st2 m = crs st m" using o by (simp add: only_def)
  then show ?thesis
    using s(1) w(1) only_same [OF o] assms(3) by (simp add: hd_conv_nth drop_Suc)
qed

lemma subtree_same: "subtree lt st d pg its \<Longrightarrow> same_pages st st' \<Longrightarrow> subtree lt st' d pg its"
proof (induction rule: subtree.induct)
  case (leaf pg mp psize its)
  then show ?case using page_at_same node_value_same
    by (intro subtree.leaf [of st' pg mp psize its lt]) (auto simp: leaf_items_def)
next
  case (branch pg mp psize kids d)
  then show ?case using page_at_same by (intro subtree.branch [of st' pg mp psize kids]) auto
qed

lemma db_same: "same_pages st st' \<Longrightarrow> db_holds lt st db its \<Longrightarrow> db_holds lt st' db its"
  "same_pages st st' \<Longrightarrow> db_open st dbi db cc \<Longrightarrow> db_open st' dbi db cc"
proof -
  show "same_pages st st' \<Longrightarrow> db_holds lt st db its \<Longrightarrow> db_holds lt st' db its"
    unfolding db_holds_def using subtree_same by (metis (no_types, lifting))
qed (simp add: db_open_def same_pages_simps)

lemma cursor_walk_enumerates_witness:
  "\<exists>st1 st2. mdb_cursor_first 0 True (tree_st\<lparr>crs := [0 \<mapsto> blank_cursor MAIN_DBI]\<rparr>) = Some (MDB_SUCCESS, Some [1], Some [10], st1) \<and>
     walk_next 4 0 st1 = Some ([([2], [20]), ([3], [30]), ([4], [40])], MDB_NOTFOUND, st2)"
proof -
  define s where "s = tree_st\<lparr>crs := [0 \<mapsto> blank_cursor MAIN_DBI]\<rparr>"
  have same: "same_pages tree_st s" by (simp add: s_def)
  have cur: "crs s 0 = Some (blank_cursor MAIN_DBI)" by (simp add: s_def)
  have four: "length [([1 :: byte], [10 :: byte]), ([2], [20]), ([3], [30]), ([4], [40])] = 4" by simp
  show ?thesis
    using cursor_walk_enumerates [OF db_same(2) [OF same tree_open] db_same(1) [OF same tree_holds] _ cur]
    unfolding four s_def by auto
qed

end
