(* ===== verification/Lmdb_Route_Facts.thy ===== *)
theory Lmdb_Route_Facts
  imports Lmdb_Walk_Facts "HOL-Library.Multiset"
begin

text \<open>
  The pages of a tree and the way from the root to the leaf of a key.  \<open>tree_pgs\<close> lists the page
  numbers a tree uses; when they are distinct, a change of the page at the end of a route changes the
  items there and nowhere else (\<open>route_lift\<close>).  The descent of \<open>mdb_cursor_set\<close> leaves the pages of
  the route on the stack of the cursor.
\<close>

section \<open>The pages of a tree\<close>

definition page_of :: "st \<Rightarrow> pgno_t \<Rightarrow> MDB_page option" where
  "page_of st pg = (case mdb_page_get st pg of
     None \<Rightarrow> None
   | Some (rc, (p, l), s) \<Rightarrow> if rc = 0 then get_page st p else None)"

lemma page_of_get: "mdb_page_get st pg = Some (0, (p, l), s) \<Longrightarrow> page_of st pg = get_page st p"
  by (simp add: page_of_def)

lemma page_at_iff: "page_at st pg mp \<longleftrightarrow> page_of st pg = Some mp"
proof
  assume "page_of st pg = Some mp"
  then obtain p l s where "mdb_page_get st pg = Some (0, (p, l), s)" "get_page st p = Some mp"
    by (auto simp: page_of_def split: option.splits if_splits)
  then show "page_at st pg mp" using page_get_same [OF same_pages_refl] by (auto simp: page_at_def)
qed (auto simp: page_at_def page_of_def)

text \<open>The overflow pages of the values of a leaf page.\<close>

definition leaf_overflows :: "MDB_page \<Rightarrow> pgno_t list" where
  "leaf_overflows mp = map (\<lambda>nd. the (load64 (NODEDATA nd))) (filter (\<lambda>nd. node_isset nd F_BIGDATA) (page_items mp))"

fun tree_pgs :: "st \<Rightarrow> nat \<Rightarrow> pgno_t \<Rightarrow> pgno_t list" where
  "tree_pgs st 0 pg = pg # (case page_of st pg of None \<Rightarrow> [] | Some mp \<Rightarrow> leaf_overflows mp)"
| "tree_pgs st (Suc d) pg = pg # (case page_of st pg of None \<Rightarrow> []
     | Some mp \<Rightarrow> concat (map (\<lambda>nd. tree_pgs st d (NODEPGNO nd)) (page_items mp)))"

lemma tree_pgs_root: "pg \<in> set (tree_pgs st d pg)"
  by (cases d) simp_all

lemma node_value_of:
  "node_value st nd v \<longleftrightarrow>
     (if node_isset nd F_BIGDATA
      then \<exists>pg omp. load64 (NODEDATA nd) = Some pg \<and> page_of st pg = Some omp \<and> NODEDSZ nd \<le> length (mp_data omp) \<and>
             v = take (NODEDSZ nd) (mp_data omp)
      else v = take (NODEDSZ nd) (NODEDATA nd))"
proof (cases "node_isset nd F_BIGDATA")
  case True
  have "node_value st nd v \<longleftrightarrow> (\<exists>pg omp. load64 (NODEDATA nd) = Some pg \<and> page_at st pg omp \<and>
      NODEDSZ nd \<le> length (mp_data omp) \<and> v = take (NODEDSZ nd) (mp_data omp))"
  proof
    assume "node_value st nd v"
    then obtain pg p l omp s where o: "load64 (NODEDATA nd) = Some pg" "mdb_page_get st pg = Some (0, (p, l), s)"
      "get_page s p = Some omp" "NODEDSZ nd \<le> length (mp_data omp)" "v = take (NODEDSZ nd) (mp_data omp)"
      using True
      by (auto simp: node_value_def mdb_node_read_def MDB_SUCCESS_def mdb_cassert_def split: Option.bind_splits if_splits)
    moreover have "s = st" using page_get_same [OF same_pages_refl o(2)] by simp
    ultimately show "\<exists>pg omp. load64 (NODEDATA nd) = Some pg \<and> page_at st pg omp \<and>
      NODEDSZ nd \<le> length (mp_data omp) \<and> v = take (NODEDSZ nd) (mp_data omp)" by (auto simp: page_at_def)
  qed (use True in \<open>auto simp: node_value_def mdb_node_read_def page_at_def\<close>)
  then show ?thesis using True by (simp add: page_at_iff)
qed (auto simp: node_value_def mdb_node_read_def)

lemma leaf_items_cong:
  assumes "leaf_items st mp its" "\<forall>x \<in> set (leaf_overflows mp). page_of st' x = page_of st x"
  shows "leaf_items st' mp its"
proof -
  have len: "length its = NUMKEYS mp" using assms(1) by (metis leaf_items_def length_map length_page_items)
  have "node_value st' (page_items mp ! i) (snd (its ! i))" if i: "i < length its" for i
  proof -
    have "page_items mp ! i \<in> set (page_items mp)" using i len by simp
    then have "node_isset (page_items mp ! i) F_BIGDATA \<Longrightarrow> the (load64 (NODEDATA (page_items mp ! i))) \<in> set (leaf_overflows mp)"
      by (auto simp: leaf_overflows_def)
    moreover have "node_value st (page_items mp ! i) (snd (its ! i))" using assms(1) i by (simp add: leaf_items_def)
    ultimately show ?thesis using assms(2) by (auto simp: node_value_of split: if_splits)
  qed
  then show ?thesis using assms(1) by (simp add: leaf_items_def)
qed

lemma tree_pgs_cong: "\<forall>x \<in> set (tree_pgs st d pg). page_of st' x = page_of st x \<Longrightarrow> tree_pgs st' d pg = tree_pgs st d pg"
proof (induction d arbitrary: pg)
  case (Suc d)
  have e: "page_of st' pg = page_of st pg" using Suc.prems by simp
  show ?case
  proof (cases "page_of st pg")
    case (Some mp)
    have "tree_pgs st' d (NODEPGNO nd) = tree_pgs st d (NODEPGNO nd)" if "nd \<in> set (page_items mp)" for nd
      using that Suc.prems Some by (intro Suc.IH) auto
    then show ?thesis using e Some by (simp cong: map_cong)
  qed (use e in simp)
qed simp

lemma subtree_cong:
  "subtree lt st d pg its \<Longrightarrow> \<forall>x \<in> set (tree_pgs st d pg). page_of st' x = page_of st x \<Longrightarrow> subtree lt st' d pg its"
proof (induction rule: subtree.induct)
  case (leaf pg mp psize its)
  have p: "page_of st pg = Some mp" using leaf.hyps(1) by (simp add: page_at_iff)
  have "leaf_items st' mp its" by (rule leaf_items_cong [OF leaf.hyps(5)]) (use leaf.prems p in simp)
  then show ?case using subtree.leaf [of st' pg mp psize its lt] leaf p by (simp add: page_at_iff)
next
  case (branch pg mp psize kids d)
  have p: "page_of st pg = Some mp" using branch.hyps(1) by (simp add: page_at_iff)
  have "subtree lt st' d (NODEPGNO (page_items mp ! i)) (kids ! i)" if i: "i < NUMKEYS mp" for i
  proof -
    have "page_items mp ! i \<in> set (page_items mp)" using i by simp
    then have "\<forall>x \<in> set (tree_pgs st d (NODEPGNO (page_items mp ! i))). page_of st' x = page_of st x"
      using branch.prems p by auto
    then show ?thesis using branch.IH i by blast
  qed
  then show ?case using subtree.branch [of st' pg mp psize kids lt d] branch.hyps branch.prems p by (simp add: page_at_iff)
qed

lemma child_pages:
  assumes p: "page_of st pg = Some mp" and i: "i < NUMKEYS mp"
  shows "\<exists>R. mset (tree_pgs st (Suc d) pg) = mset (R @ tree_pgs st d (NODEPGNO (page_items mp ! i))) \<and> pg \<in> set R \<and>
     (\<forall>st'. (\<forall>x \<in> set R. page_of st' x = page_of st x) \<longrightarrow>
       (\<forall>j < NUMKEYS mp. j \<noteq> i \<longrightarrow> (\<forall>x \<in> set (tree_pgs st d (NODEPGNO (page_items mp ! j))). page_of st' x = page_of st x)) \<and>
       mset (tree_pgs st' (Suc d) pg) = mset (R @ tree_pgs st' d (NODEPGNO (page_items mp ! i))))"
proof -
  define ps where "ps st nds = concat (map (\<lambda>nd. tree_pgs st d (NODEPGNO nd)) nds)" for st and nds :: "MDB_node list"
  define bs cs where "bs = take i (page_items mp)" and "cs = drop (Suc i) (page_items mp)"
  define R where "R = pg # ps st bs @ ps st cs"
  have spl: "page_items mp = bs @ page_items mp ! i # cs" using i by (simp add: bs_def cs_def id_take_nth_drop)
  have all: "mset (tree_pgs s (Suc d) pg) = mset (pg # ps s bs @ ps s cs @ tree_pgs s d (NODEPGNO (page_items mp ! i)))"
    if "page_of s pg = Some mp" for s
  proof -
    have "concat (map (\<lambda>nd. tree_pgs s d (NODEPGNO nd)) (page_items mp)) = ps s bs @ tree_pgs s d (NODEPGNO (page_items mp ! i)) @ ps s cs"
      by (subst spl) (simp add: ps_def)
    then show ?thesis using that by simp
  qed
  have R: "set (tree_pgs st d (NODEPGNO (page_items mp ! j))) \<subseteq> set R" if j: "j < NUMKEYS mp" "j \<noteq> i" for j
  proof -
    have "page_items mp ! j \<in> set bs \<union> set cs"
    proof (cases "j < i")
      case True
      then show ?thesis using i by (auto simp: bs_def in_set_conv_nth)
    next
      case False
      then show ?thesis using j i by (auto simp: cs_def in_set_conv_nth intro!: exI [of _ "j - Suc i"])
    qed
    then show ?thesis by (auto simp: R_def ps_def)
  qed
  have same: "ps s nds = ps st nds" if nds: "set (ps st nds) \<subseteq> set R" "\<forall>x \<in> set R. page_of s x = page_of st x" for s nds
  proof -
    have "tree_pgs s d (NODEPGNO nd) = tree_pgs st d (NODEPGNO nd)" if "nd \<in> set nds" for nd
      using that nds by (intro tree_pgs_cong) (auto simp: ps_def)
    then show ?thesis by (simp add: ps_def cong: map_cong)
  qed
  have root: "pg \<in> set R" by (simp add: R_def)
  have upd: "mset (tree_pgs s (Suc d) pg) = mset (R @ tree_pgs s d (NODEPGNO (page_items mp ! i)))"
    if s: "\<forall>x \<in> set R. page_of s x = page_of st x" for s
  proof -
    have "ps s bs = ps st bs" "ps s cs = ps st cs" by (auto intro!: same [OF _ s] simp: R_def)
    moreover have "page_of s pg = Some mp" using s root p by simp
    ultimately show ?thesis using all by (simp add: R_def)
  qed
  show ?thesis
    using upd root R by (intro exI [of _ R] conjI allI impI ballI) (simp_all del: tree_pgs.simps, blast)
qed

section \<open>The way to a key\<close>

text \<open>
  \<open>route d pg rt h q\<close>: from page \<open>pg\<close>, the root of a tree of height \<open>d\<close>, the pages and indices \<open>rt\<close> lead to
  page \<open>q\<close> at height \<open>h\<close>, always to the child in which the key belongs.
\<close>

inductive route :: "(byte list \<Rightarrow> byte list \<Rightarrow> bool) \<Rightarrow> st \<Rightarrow> byte list \<Rightarrow> nat \<Rightarrow> pgno_t \<Rightarrow> (pgno_t \<times> nat) list \<Rightarrow> nat \<Rightarrow> pgno_t \<Rightarrow> bool"
  for lt :: "byte list \<Rightarrow> byte list \<Rightarrow> bool" and st :: st and key :: "byte list" where
  here: "route lt st key d pg [] d pg"
| down: "page_of st pg = Some mp \<Longrightarrow> child_of lt key mp i \<Longrightarrow> route lt st key d (NODEPGNO (page_items mp ! i)) rt h q \<Longrightarrow>
    route lt st key (Suc d) pg ((pg, i) # rt) h q"

text \<open>What the theorems on trees need of the comparator: it orders the keys that fit into a node.\<close>

locale tree_order = key_order K cmp for K :: "byte list set" and cmp :: "byte list \<Rightarrow> byte list \<Rightarrow> int option" +
  fixes cc :: MDB_cmp_func
  assumes cmp_cc: "cmp = cmp_call cc" and not_cint: "\<not> cmp_is cc Cmp_cint"
    and pageK: "\<And>psize mp k. page_ok psize mp \<Longrightarrow> k < NUMKEYS mp \<Longrightarrow> NODEKEY (page_items mp ! k) \<in> K"
begin

lemma less_trans: "a \<in> K \<Longrightarrow> b \<in> K \<Longrightarrow> c \<in> K \<Longrightarrow> less a b \<Longrightarrow> less b c \<Longrightarrow> less a c"
  using trans [of a b c] by (simp add: less_def)

lemma subtree_K: "subtree less st d pg its \<Longrightarrow> k \<in> fst ` set its \<Longrightarrow> k \<in> K"
proof (induction arbitrary: k rule: subtree.induct)
  case (leaf pg mp psize its)
  then have "k \<in> set (map NODEKEY (page_items mp))" by (metis leaf_items_def list.set_map)
  then show ?case using pageK [OF leaf.hyps(2)] by (auto simp: in_set_conv_nth)
next
  case (branch pg mp psize kids d)
  then obtain xs where "xs \<in> set kids" "k \<in> fst ` set xs" by auto
  then obtain i where "i < NUMKEYS mp" "k \<in> fst ` set (kids ! i)" using branch.hyps(6) by (auto simp: in_set_conv_nth)
  then show ?case using branch.IH by blast
qed

lemma separates_update:
  assumes sep: "separates less mp kids" and i: "child_of less key mp i" and len: "length kids = NUMKEYS mp"
    and K: "key \<in> K" "\<And>j. j < NUMKEYS mp \<Longrightarrow> NODEKEY (page_items mp ! j) \<in> K"
    and new: "NUMKEYS mp' = NUMKEYS mp" "\<And>j. 1 \<le> j \<Longrightarrow> j < NUMKEYS mp \<Longrightarrow> NODEKEY (page_items mp' ! j) = NODEKEY (page_items mp ! j)"
    and sub: "fst ` set its1 \<subseteq> insert key (fst ` set (kids ! i))"
  shows "separates less mp' (kids[i := its1])"
  unfolding separates_def
proof (intro conjI allI impI ballI)
  fix a b assume "1 \<le> a" "a < b" "b < NUMKEYS mp'"
  then show "less (NODEKEY (page_items mp' ! a)) (NODEKEY (page_items mp' ! b))"
    using separatesD(1) [OF sep] new by simp
next
  fix a b k assume a: "1 \<le> a" "a < NUMKEYS mp'" "b < a" and k: "k \<in> fst ` set (kids[i := its1] ! b)"
  have an: "a < NUMKEYS mp" "NODEKEY (page_items mp' ! a) = NODEKEY (page_items mp ! a)" using a new by simp_all
  show "less k (NODEKEY (page_items mp' ! a))"
  proof (cases "k \<in> fst ` set (kids ! b)")
    case True
    then show ?thesis using separatesD(2) [OF sep a(1) an(1) a(3)] an(2) by simp
  next
    case False
    then have b: "b = i" using k by (cases "b = i") simp_all
    then have "k \<in> fst ` set its1" using k a(3) an(1) len by simp
    then have b: "b = i" "k = key" using sub False b by blast+
    have nx: "less key (NODEKEY (page_items mp ! (i + 1)))" using i a(3) an(1) b by (simp add: child_of_def)
    show ?thesis
    proof (cases "a = i + 1")
      case False
      then have "i + 1 < a" using a(3) b by simp
      then have "less (NODEKEY (page_items mp ! (i + 1))) (NODEKEY (page_items mp ! a))" using separatesD(1) [OF sep] an(1) by simp
      then show ?thesis using less_trans [OF K(1) K(2) K(2) nx] an \<open>i + 1 < a\<close> b by simp
    qed (use nx an b in simp)
  qed
next
  fix a b k assume a: "1 \<le> a" "a \<le> b" "b < NUMKEYS mp'" and k: "k \<in> fst ` set (kids[i := its1] ! b)"
  have an: "a < NUMKEYS mp" "b < NUMKEYS mp" "NODEKEY (page_items mp' ! a) = NODEKEY (page_items mp ! a)" using a new by simp_all
  show "k = NODEKEY (page_items mp' ! a) \<or> less (NODEKEY (page_items mp' ! a)) k"
  proof (cases "k \<in> fst ` set (kids ! b)")
    case True
    then show ?thesis using separatesD(3) [OF sep a(1,2) an(2)] an(3) by simp
  next
    case False
    then have b: "b = i" using k by (cases "b = i") simp_all
    then have "k \<in> fst ` set its1" using k an len by simp
    then have b: "b = i" "k = key" using sub False b by blast+
    then have ge: "NODEKEY (page_items mp ! i) = key \<or> less (NODEKEY (page_items mp ! i)) key" using i a by (auto simp: child_of_def)
    show ?thesis
    proof (cases "a = i")
      case False
      then have "less (NODEKEY (page_items mp ! a)) (NODEKEY (page_items mp ! i))" using separatesD(1) [OF sep, of a i] a b an by simp
      then show ?thesis using ge less_trans [OF K(2) K(2) K(1), of a i] an b by auto
    qed (use ge an b in auto)
  qed
qed

text \<open>A branch page on the route, after its child changed.\<close>

lemma branch_replace:
  assumes sep: "separates less mp kids" and i: "child_of less key mp i" and len: "length kids = NUMKEYS mp" and key: "key \<in> K"
    and ok: "page_ok psize mp" "2 \<le> NUMKEYS mp"
    and new: "page_of st' pg = Some mp'" "page_ok psize mp'" "IS_BRANCH mp'" "\<not> IS_LEAF mp'" "NUMKEYS mp' = NUMKEYS mp"
      "\<And>j. 1 \<le> j \<Longrightarrow> j < NUMKEYS mp \<Longrightarrow> NODEKEY (page_items mp' ! j) = NODEKEY (page_items mp ! j)"
    and old: "\<And>j. j < NUMKEYS mp \<Longrightarrow> j \<noteq> i \<Longrightarrow> subtree less st' h (NODEPGNO (page_items mp' ! j)) (kids ! j)"
    and sub: "subtree less st' h (NODEPGNO (page_items mp' ! i)) its1" "fst ` set its1 \<subseteq> insert key (fst ` set (kids ! i))"
  shows "subtree less st' (Suc h) pg (concat (kids[i := its1]))"
proof (rule subtree.branch [OF _ new(2-4)])
  show "page_at st' pg mp'" using new(1) by (simp add: page_at_iff)
  show "2 \<le> NUMKEYS mp'" "length (kids[i := its1]) = NUMKEYS mp'" using ok new(5) len by simp_all
  show "\<forall>j < NUMKEYS mp'. subtree less st' h (NODEPGNO (page_items mp' ! j)) (kids[i := its1] ! j)"
  proof (intro allI impI)
    fix j assume "j < NUMKEYS mp'"
    then show "subtree less st' h (NODEPGNO (page_items mp' ! j)) (kids[i := its1] ! j)"
      using old sub(1) len new(5) by (cases "j = i") simp_all
  qed
  show "separates less mp' (kids[i := its1])"
    by (rule separates_update [OF sep i len key pageK [OF ok(1)] new(5,6) sub(2)])
qed

text \<open>The keys of the children on both sides.\<close>

lemma child_sides:
  assumes ok: "page_ok psize mp" "length kids = NUMKEYS mp"
    and sub: "\<forall>j < NUMKEYS mp. subtree less st d (NODEPGNO (page_items mp ! j)) (kids ! j)"
    and sep: "separates less mp kids" and i: "child_of less key mp i" and key: "key \<in> K"
  shows "k \<in> fst ` set (concat (take i kids)) \<Longrightarrow> less k key" "k \<in> fst ` set (concat (drop (Suc i) kids)) \<Longrightarrow> less key k"
proof -
  have n: "i < NUMKEYS mp" using i by (simp add: child_of_def)
  have kK: "k \<in> K" if "j < NUMKEYS mp" "k \<in> fst ` set (kids ! j)" for j using sub subtree_K that by blast
  note pK = pageK [OF ok(1)]
  assume "k \<in> fst ` set (concat (take i kids))"
  then obtain xs where "xs \<in> set (take i kids)" "k \<in> fst ` set xs" by auto
  moreover from this obtain j where "j < i" "xs = kids ! j" using n ok(2) by (auto simp: in_set_conv_nth)
  ultimately obtain j where j: "j < i" "k \<in> fst ` set (kids ! j)" by blast
  then have "less k (NODEKEY (page_items mp ! i))" using separatesD(2) [OF sep _ n] by simp
  moreover have "NODEKEY (page_items mp ! i) = key \<or> less (NODEKEY (page_items mp ! i)) key" using i j(1) by (auto simp: child_of_def)
  ultimately show "less k key" using less_trans [OF kK [OF _ j(2)] pK [OF n] key] j(1) n by auto
next
  have n: "i < NUMKEYS mp" using i by (simp add: child_of_def)
  have kK: "k \<in> K" if "j < NUMKEYS mp" "k \<in> fst ` set (kids ! j)" for j using sub subtree_K that by blast
  note pK = pageK [OF ok(1)]
  assume "k \<in> fst ` set (concat (drop (Suc i) kids))"
  then obtain xs where "xs \<in> set (drop (Suc i) kids)" "k \<in> fst ` set xs" by auto
  moreover from this obtain x where "x < length kids - Suc i" "xs = kids ! (Suc i + x)" using n ok(2) by (auto simp: in_set_conv_nth)
  ultimately have j: "i + 1 \<le> Suc i + x" "Suc i + x < NUMKEYS mp" "k \<in> fst ` set (kids ! (Suc i + x))" using ok(2) by auto
  then have "k = NODEKEY (page_items mp ! (i + 1)) \<or> less (NODEKEY (page_items mp ! (i + 1))) k" using separatesD(3) [OF sep _ j] by simp
  moreover have "less key (NODEKEY (page_items mp ! (i + 1)))" using i j by (simp add: child_of_def)
  ultimately show "less key k" using less_trans [OF key pK [of "i + 1"] kK [OF j(2,3)]] j by auto
qed

text \<open>
  The pages of the tree are those under \<open>q\<close> and others \<open>R\<close>.  While those stay as they are, a new tree
  under \<open>q\<close> whose keys are old ones or the key of the route takes the place of the old one.
\<close>

lemma route_lift:
  assumes "route less st key d pg rt h q" "subtree less st d pg its" "key \<in> K"
  shows "\<exists>R bef its0 aft. mset (tree_pgs st d pg) = mset (R @ tree_pgs st h q) \<and> fst ` set rt \<subseteq> set R \<and>
     its = bef @ its0 @ aft \<and> subtree less st h q its0 \<and>
     (\<forall>k \<in> fst ` set bef. less k key) \<and> (\<forall>k \<in> fst ` set aft. less key k) \<and>
     (\<forall>st'. (\<forall>x \<in> set R. page_of st' x = page_of st x) \<longrightarrow>
        mset (tree_pgs st' d pg) = mset (R @ tree_pgs st' h q) \<and>
        (\<forall>its1. subtree less st' h q its1 \<longrightarrow> fst ` set its1 \<subseteq> insert key (fst ` set its0) \<longrightarrow>
           subtree less st' d pg (bef @ its1 @ aft)))"
  using assms
proof (induction arbitrary: its rule: route.induct)
  case (here d pg)
  then show ?case by (intro exI [of _ "[]"] exI [of _ its]) simp
next
  case (down pg mp i d rt h q)
  obtain psize kids where b: "page_ok psize mp" "IS_BRANCH mp" "\<not> IS_LEAF mp" "2 \<le> NUMKEYS mp" "length kids = NUMKEYS mp"
    "its = concat kids" "\<forall>j < NUMKEYS mp. subtree less st d (NODEPGNO (page_items mp ! j)) (kids ! j)" "separates less mp kids"
  proof -
    from down.prems(1) obtain mp0 psize kids where l: "page_at st pg mp0" "page_ok psize mp0" "IS_BRANCH mp0" "\<not> IS_LEAF mp0"
      "2 \<le> NUMKEYS mp0" "length kids = NUMKEYS mp0" "\<forall>i < NUMKEYS mp0. subtree less st d (NODEPGNO (page_items mp0 ! i)) (kids ! i)"
      "separates less mp0 kids" "its = concat kids"
      by (elim subtree_branchE) (rule that; assumption)
    then show thesis using that down.hyps(1) by (simp add: page_at_iff)
  qed
  have i: "i < NUMKEYS mp" using down.hyps(2) by (simp add: child_of_def)
  have subi: "subtree less st d (NODEPGNO (page_items mp ! i)) (kids ! i)" using b(7) i by simp
  obtain R bef its0 aft where IH: "mset (tree_pgs st d (NODEPGNO (page_items mp ! i))) = mset (R @ tree_pgs st h q)" "fst ` set rt \<subseteq> set R"
     "kids ! i = bef @ its0 @ aft" "subtree less st h q its0" "\<forall>k \<in> fst ` set bef. less k key" "\<forall>k \<in> fst ` set aft. less key k"
     and lift: "\<forall>st'. (\<forall>x \<in> set R. page_of st' x = page_of st x) \<longrightarrow>
        mset (tree_pgs st' d (NODEPGNO (page_items mp ! i))) = mset (R @ tree_pgs st' h q) \<and>
        (\<forall>its1. subtree less st' h q its1 \<longrightarrow> fst ` set its1 \<subseteq> insert key (fst ` set its0) \<longrightarrow>
           subtree less st' d (NODEPGNO (page_items mp ! i)) (bef @ its1 @ aft))"
    using down.IH [OF subi down.prems(2)] by (elim exE conjE) (rule that; assumption)
  note lift = lift [THEN spec, THEN mp]
  obtain R0 where R0: "mset (tree_pgs st (Suc d) pg) = mset (R0 @ tree_pgs st d (NODEPGNO (page_items mp ! i)))" "pg \<in> set R0"
    and others: "\<And>st'. \<forall>x \<in> set R0. page_of st' x = page_of st x \<Longrightarrow>
      (\<forall>j < NUMKEYS mp. j \<noteq> i \<longrightarrow> (\<forall>x \<in> set (tree_pgs st d (NODEPGNO (page_items mp ! j))). page_of st' x = page_of st x)) \<and>
      mset (tree_pgs st' (Suc d) pg) = mset (R0 @ tree_pgs st' d (NODEPGNO (page_items mp ! i)))"
    using child_pages [OF down.hyps(1) i] by blast
  have spl: "concat kids = concat (take i kids) @ (kids ! i) @ concat (drop (Suc i) kids)"
    and upd: "concat (kids[i := xs]) = concat (take i kids) @ xs @ concat (drop (Suc i) kids)" for xs
  proof -
    have "kids = take i kids @ kids ! i # drop (Suc i) kids" using i b(5) by (simp add: id_take_nth_drop)
    then show "concat kids = concat (take i kids) @ (kids ! i) @ concat (drop (Suc i) kids)"
      by (metis concat.simps(2) concat_append)
    show "concat (kids[i := xs]) = concat (take i kids) @ xs @ concat (drop (Suc i) kids)"
      using i b(5) by (simp add: upd_conv_take_nth_drop)
  qed
  note sides = child_sides [OF b(1,5,7,8) down.hyps(2) down.prems(2)]
  have new: "subtree less st' (Suc d) pg ((concat (take i kids) @ bef) @ its1 @ aft @ concat (drop (Suc i) kids))"
    if st': "\<forall>x \<in> set (R0 @ R). page_of st' x = page_of st x" and its1: "subtree less st' h q its1"
      "fst ` set its1 \<subseteq> insert key (fst ` set its0)" for st' its1
  proof -
    have "subtree less st' (Suc d) pg (concat (kids[i := bef @ its1 @ aft]))"
    proof (rule branch_replace [OF b(8) down.hyps(2) b(5) down.prems(2) b(1,4) _ b(1-3) refl refl])
      show "page_of st' pg = Some mp" using st' R0(2) down.hyps(1) by simp
      show "subtree less st' d (NODEPGNO (page_items mp ! j)) (kids ! j)" if "j < NUMKEYS mp" "j \<noteq> i" for j
        by (rule subtree_cong [of _ st]) (use others [of st'] st' that b(7) in simp_all)
      show "subtree less st' d (NODEPGNO (page_items mp ! i)) (bef @ its1 @ aft)" using lift [of st'] st' its1 by simp
      show "fst ` set (bef @ its1 @ aft) \<subseteq> insert key (fst ` set (kids ! i))" using its1(2) IH(3) by auto
    qed
    then show ?thesis by (simp only: upd append_assoc)
  qed
  have pgs: "mset (tree_pgs st' (Suc d) pg) = mset ((R0 @ R) @ tree_pgs st' h q)"
    if "\<forall>x \<in> set (R0 @ R). page_of st' x = page_of st x" for st'
  proof -
    have "mset (tree_pgs st' (Suc d) pg) = mset (R0 @ tree_pgs st' d (NODEPGNO (page_items mp ! i)))"
      using others [of st'] that by simp
    also have "\<dots> = mset ((R0 @ R) @ tree_pgs st' h q)" using lift [of st'] that by simp
    finally show ?thesis .
  qed
  have its: "its = (concat (take i kids) @ bef) @ its0 @ aft @ concat (drop (Suc i) kids)" using b(6) spl IH(3) by simp
  have rt: "fst ` set ((pg, i) # rt) \<subseteq> set (R0 @ R)" using R0(2) IH(2) by auto
  have "\<forall>k \<in> fst ` set (concat (take i kids) @ bef). less k key" "\<forall>k \<in> fst ` set (aft @ concat (drop (Suc i) kids)). less key k"
    unfolding set_append image_Un ball_Un using IH(5,6) by (blast intro: sides)+
  note sides = this
  have "mset (tree_pgs st (Suc d) pg) = mset ((R0 @ R) @ tree_pgs st h q)" by (rule pgs) simp
  then show ?case
    by (intro exI conjI allI impI) (assumption | rule rt its IH(4) sides | erule pgs | erule new, assumption+)+
qed

end

section \<open>The stack after a search\<close>

text \<open>The pages and indices on the stack are those of the route.\<close>

definition on_stack :: "st \<Rightarrow> (pgno_t \<times> nat) list \<Rightarrow> (page_ref \<times> nat) list \<Rightarrow> bool" where
  "on_stack st = list_all2 (\<lambda>(pg, i) (p, k). k = i \<and> (\<exists>l. mdb_page_get st pg = Some (0, (p, l), st)))"

lemma cursor_at_path:
  assumes "cursor_path st mc dbi fl (path @ [(p, k)])" "get_page st p = Some mp"
  shows "cursor_at st mc dbi (length path) mp"
proof -
  obtain c where c: "crs st mc = Some c" "mc_snum c = Suc (length path)" "mc_top c = length path" "length (mc_pg c) = CURSOR_STACK"
    "length (mc_ki c) = CURSOR_STACK" "take (Suc (length path)) (zip (mc_pg c) (mc_ki c)) = path @ [(p, k)]" "length path < CURSOR_STACK"
    "mc_dbi c = dbi"
    using assms(1) by (auto simp: cursor_path_def)
  then show ?thesis using assms(2) take_zip_snoc(2) [OF c(6) refl] by (simp add: cursor_at_def)
qed

context tree_order
begin

lemma descend_route:
  assumes key: "key \<in> K" and "subtree less st d pg its" "mdb_page_get st pg = Some (0, (p, l), st)" "same_pages st st1"
    and "cursor_path st1 mc dbi fl (pre @ [(p, k0)])" "cursor_cmp st1 mc = Some cc" "get_db st dbi = Some db"
    and "length pre + d < CURSOR_STACK" "d < n"
  shows "\<exists>st' rt path q p' l' k. search_root_loop touch n mc (Some key) 0 st1 = Some (0, st') \<and> only mc st1 st' \<and>
     route less st key d pg rt 0 q \<and> on_stack st rt path \<and> mdb_page_get st q = Some (0, (p', l'), st) \<and>
     cursor_path st' mc dbi ((fl OR C_INITIALIZED) AND NOT C_EOF) ((pre @ path) @ [(p', k)])"
  using assms(2-)
proof (induction d arbitrary: pg its p l st1 pre k0 n)
  case 0
  from 0(1) obtain mp psize where l: "page_at st pg mp" "IS_LEAF mp" "\<not> IS_BRANCH mp" by (elim subtree_leafE)
  then have mp: "get_page st p = Some mp" using 0(2) by (simp add: page_at_iff page_of_get)
  obtain n' where n: "n = Suc n'" using 0(8) by (cases n) auto
  have "search_root_loop touch n mc (Some key) 0 st1 = Some (0, clear_flags mc C_EOF (or_flags mc C_INITIALIZED st1))"
    using n l(2,3) mp path_top(1) [OF 0(4)] same_pages_simps(1) [OF 0(3)] by (simp add: MDB_SUCCESS_def)
  moreover have "only mc st1 (clear_flags mc C_EOF (or_flags mc C_INITIALIZED st1))"
    by (rule only_trans [OF only_upd(3) only_upd(4)])
  ultimately show ?case using path_flags(2) [OF path_flags(1) [OF 0(4)]] 0(2)
    by (intro exI [of _ "clear_flags mc C_EOF (or_flags mc C_INITIALIZED st1)"] exI [of _ "[]"] exI [of _ pg] exI [of _ p]
        exI [of _ l] exI [of _ k0]) (simp add: on_stack_def route.here)
next
  case (Suc d)
  from Suc.prems(1) obtain mp psize kids where l: "page_at st pg mp" "page_ok psize mp" "IS_BRANCH mp" "\<not> IS_LEAF mp"
    "2 \<le> NUMKEYS mp" "length kids = NUMKEYS mp"
    and sub: "\<forall>i < NUMKEYS mp. subtree less st d (NODEPGNO (page_items mp ! i)) (kids ! i)" and sep: "separates less mp kids"
    by (elim subtree_branchE) (rule that; assumption)
  have mp: "page_of st pg = Some mp" "get_page st p = Some mp" using l(1) Suc.prems(2) by (simp_all add: page_at_iff page_of_get)
  have mp1: "get_page st1 p = Some mp" using mp(2) same_pages_simps(1) [OF Suc.prems(3)] by simp
  obtain n' where n: "n = Suc n'" "d < n'" using Suc.prems(8) by (cases n) auto
  have at1: "cursor_at st1 mc dbi (length pre) mp" by (rule cursor_at_path [OF Suc.prems(4) mp1])
  have db1: "get_db st1 dbi = Some db" using Suc.prems(3,6) by (simp add: same_pages_simps)
  have "\<exists>i r. choose_child mc (Some key) 0 mp st1 = Some (i, set_top_ki mc r st1) \<and> r < 65536 \<and> child_of less key mp i"
    by (rule choose_child_spec [OF cmp_cc not_cint at1 Suc.prems(5) db1 l(2,4,5) key]) (use pageK [OF l(2)] separatesD(1) [OF sep] in simp_all)
  then obtain i r where ch: "choose_child mc (Some key) 0 mp st1 = Some (i, set_top_ki mc r st1)" "r < 65536" "child_of less key mp i" by blast
  have i: "i < NUMKEYS mp" using ch(3) by (simp add: child_of_def)
  have i': "i < 65536" using i numkeys_small [OF l(2)] by simp
  define st2 where "st2 = set_top_ki mc i (set_top_ki mc r st1)"
  have p2: "cursor_path st2 mc dbi fl (pre @ [(p, i)])"
    unfolding st2_def by (rule path_set_ki [OF path_set_ki [OF Suc.prems(4) ch(2)] i'])
  have o2: "only mc st1 st2" unfolding st2_def by (rule only_trans [OF only_upd(2) only_upd(2)])
  have subi: "subtree less st d (NODEPGNO (page_items mp ! i)) (kids ! i)" using sub i by simp
  obtain q lv mp2 where q: "mdb_page_get st (NODEPGNO (page_items mp ! i)) = Some (0, (q, lv), st)" "get_page st q = Some mp2"
    using subtree_page [OF subi] by blast
  have q2: "mdb_page_get (set_top_ki mc r st1) (NODEPGNO (page_items mp ! i)) = Some (0, (q, lv), set_top_ki mc r st1)"
    using page_get_in [OF same_pages_trans [OF Suc.prems(3) same_pages_crs(3)] q(1)] .
  have "length (pre @ [(p, i)]) < CURSOR_STACK" using Suc.prems(7) by simp
  then obtain st3 where push: "mdb_cursor_push mc q st2 = Some (0, st3)" "only mc st2 st3"
    "cursor_path st3 mc dbi fl ((pre @ [(p, i)]) @ [(q, 0)])"
    using path_push [OF p2] by blast
  have o3: "only mc st1 st3" by (rule only_trans [OF o2 push(2)])
  have same3: "same_pages st st3" using same_pages_trans [OF Suc.prems(3) only_same [OF o3]] .
  have "get_page st3 q = Some mp2" using same_pages_simps(1) [OF same3] q(2) by simp
  then have cmp3: "cursor_cmp st3 mc = Some cc"
    using cursor_cmp_at [OF at1 cursor_at_path [OF push(3)] only_same [OF o3]] Suc.prems(5) by simp
  have step: "search_root_loop touch n mc (Some key) 0 st1 = search_root_loop touch n' mc (Some key) 0 st3"
    using n l(3,5) top_page_at [OF at1] ch(1) i page_okD(7) [OF l(2) i] q2 push(1)
    by (simp add: rc_bind_def anyset_def st2_def)
  have depth: "length (pre @ [(p, i)]) + d < CURSOR_STACK" using Suc.prems(7) by simp
  obtain st' rt path q' p' l' k where IH: "search_root_loop touch n' mc (Some key) 0 st3 = Some (0, st')" "only mc st3 st'"
     "route less st key d (NODEPGNO (page_items mp ! i)) rt 0 q'" "on_stack st rt path" "mdb_page_get st q' = Some (0, (p', l'), st)"
     "cursor_path st' mc dbi ((fl OR C_INITIALIZED) AND NOT C_EOF) (((pre @ [(p, i)]) @ path) @ [(p', k)])"
    using Suc.IH [OF subi q(1) same3 push(3) cmp3 Suc.prems(6) depth n(2)] by blast
  have "route less st key (Suc d) pg ((pg, i) # rt) 0 q'" by (rule route.down [OF mp(1) ch(3) IH(3)])
  moreover have "on_stack st ((pg, i) # rt) ((p, i) # path)" using IH(4) Suc.prems(2) by (simp add: on_stack_def)
  moreover have "cursor_path st' mc dbi ((fl OR C_INITIALIZED) AND NOT C_EOF) ((pre @ ((p, i) # path)) @ [(p', k)])" using IH(6) by simp
  ultimately show ?case using step IH(1,5) only_trans [OF o3 IH(2)] by metis
qed

end

interpretation memn_tree: tree_order "{bs. length bs < 2 ^ 32}" mdb_cmp_memn Cmp_memn
proof unfold_locales
  fix psize mp k assume "page_ok psize mp" "k < NUMKEYS mp"
  then show "NODEKEY (page_items mp ! k) \<in> {bs. length bs < 2 ^ 32}" using page_key_length by simp
qed (auto simp: cmp_call_def fun_eq_iff cmp_is_def)

interpretation memnr_tree: tree_order UNIV mdb_cmp_memnr Cmp_memnr
  by unfold_locales (auto simp: cmp_call_def fun_eq_iff cmp_is_def)

end
