(* ===== verification/Lmdb_Alloc.thy ===== *)
theory Lmdb_Alloc
  imports Lmdb_Cursor
begin

text \<open>
  Allocating and copying pages (\<open>LegacyDatabase/mdb.c\<close>): \<open>mdb_page_alloc\<close> takes a loose page, a
  run of reclaimed pages or new pages at the end of the file; \<open>mdb_page_touch\<close> makes a writable
  copy of a page and puts it into the tree and into the cursors that point to the old one.  With
  it the descent for writing is \<open>mdb_page_search\<close>.
\<close>

section \<open>Allocation\<close>

text \<open>
  \<open>do { pgno = mop[i]; if (mop[i-n2] == pgno+n2) goto search_done; } while (--i > n2);\<close>
\<close>

fun find_run :: "MDB_ID list \<Rightarrow> nat \<Rightarrow> nat \<Rightarrow> nat option option" where
  "find_run mop n2 0 = None"
| "find_run mop n2 (Suc i) = do {
     pg \<leftarrow> rd mop (Suc i);
     y \<leftarrow> rd mop (Suc i - n2);
     if y = pg + of_nat n2 then Some (Some (Suc i))
     else if i > n2 then find_run mop n2 i else Some None }"

text \<open>\<open>for (j = i-num; j < mop_len; ) mop[++j] = mop[++i];\<close> with \<open>k = mop_len - j\<close> moves left.\<close>

fun alloc_shift :: "MDB_ID list \<Rightarrow> nat \<Rightarrow> nat \<Rightarrow> nat \<Rightarrow> MDB_ID list option" where
  "alloc_shift mop i j 0 = Some mop"
| "alloc_shift mop i j (Suc k) = do {
     y \<leftarrow> rd mop (i + 1);
     mop \<leftarrow> wr mop (j + 1) y;
     alloc_shift mop (i + 1) (j + 1) k }"

text \<open>How the search for reclaimed pages ends: a run that ends at an index, none, \<open>goto fail\<close>, \<open>return\<close>.\<close>

datatype alloc_end = Run nat | NoRun | Fail int | Return int

text \<open>\<open>if (oldest <= last) { if (!found_old) ... }\<close>.\<close>

definition refresh_oldest :: "txnid_t \<Rightarrow> txnid_t \<Rightarrow> bool \<Rightarrow> st \<Rightarrow> (txnid_t \<times> bool \<times> st) option" where
  "refresh_oldest oldest lastid found_old st =
     (if oldest \<le> lastid \<and> \<not> found_old then do {
        old \<leftarrow> mdb_find_oldest st;
        Some (old, True, upd_env (\<lambda>e. e\<lparr>me_pgoldest := old\<rparr>) st) }
      else Some (oldest, found_old, st))"

text \<open>Merge the page list of one free-list record into \<open>me_pghead\<close>.\<close>

definition merge_record :: "nat \<Rightarrow> txnid_t \<Rightarrow> st \<Rightarrow> (alloc_end option \<times> st) option" where
  "merge_record m2 lastid st = do {
     np \<leftarrow> top_page st m2;
     ki \<leftarrow> top_ki st m2;
     leaf \<leftarrow> NODEPTR np ki;
     (rc, data, st) \<leftarrow> mdb_node_read leaf st;
     if rc \<noteq> MDB_SUCCESS then Some (Some (Return rc), st)
     else do {
       let idl = ids_of_bytes data;
       i \<leftarrow> rd idl 0;
       (rc, mop) \<leftarrow>
         (case me_pghead (env st) of
            None \<Rightarrow> (case mdb_midl_alloc (mem_of st) (u32 (unat i)) of
                       None \<Rightarrow> Some (ENOMEM, None) | Some mop \<Rightarrow> Some (0, Some mop))
          | Some mop \<Rightarrow> map_option (\<lambda>(rc, mop). (rc, Some mop)) (mdb_midl_need (mem_of st) mop (u32 (unat i))));
       let st = set_pghead mop (tick st);
       if rc \<noteq> 0 then Some (Some (Fail rc), st)
       else do {
         mop \<leftarrow> mop;
         ids \<leftarrow> mdb_midl_xmerge (idl_ids mop) idl;
         Some (None, set_pghead (Some (mop\<lparr>idl_ids := ids\<rparr>)) (upd_env (\<lambda>e. e\<lparr>me_pglast := lastid\<rparr>) st)) } } }"

text \<open>
  \<open>for (op = MDB_FIRST;; op = MDB_NEXT)\<close>; \<open>fuel\<close> bounds the number of free-list records read,
  each turn but the last reads one.
\<close>

fun alloc_loop :: "nat \<Rightarrow> nat \<Rightarrow> MDB_cursor_op \<Rightarrow> int \<Rightarrow> txnid_t \<Rightarrow> txnid_t \<Rightarrow> bool \<Rightarrow> nat \<Rightarrow> st \<Rightarrow>
    (alloc_end \<times> st) option" where
  "alloc_loop 0 num op retry lastid oldest found_old m2 st = None"
| "alloc_loop (Suc fuel) num op retry lastid oldest found_old m2 st = do {
     let n2 = num - 1;
     mop \<leftarrow> (case me_pghead (env st) of None \<Rightarrow> Some [0] | Some mop \<Rightarrow> Some (idl_ids mop));
     n \<leftarrow> rd mop 0;
     let mop_len = unat n;
     run \<leftarrow> (if mop_len > n2 then find_run mop n2 mop_len else Some None);
     let retry = (if mop_len > n2 then retry - 1 else retry);
     case run of
       Some i \<Rightarrow> Some (Run i, st)
     | None \<Rightarrow>
         if mop_len > n2 \<and> retry < 0 then Some (NoRun, st)
         else do {
           (op, lastid, oldest, st) \<leftarrow>
             (if op = MDB_FIRST then do {
                st \<leftarrow> mdb_cursor_init m2 FREE_DBI st;
                let lastid = me_pglast (env st);
                Some (if lastid \<noteq> 0 then MDB_SET_RANGE else op, lastid, me_pgoldest (env st), st) }
              else Some (op, lastid, oldest, st));
           let lastid = lastid + 1;
           (oldest, found_old, st) \<leftarrow> refresh_oldest oldest lastid found_old st;
           if oldest \<le> lastid then Some (NoRun, st)
           else do {
             (rc, key, _, st) \<leftarrow> mdb_cursor_get m2 (Some (bytes64 lastid)) False op st;
             if rc = MDB_NOTFOUND then Some (NoRun, st)
             else if rc \<noteq> 0 then Some (Fail rc, st)
             else do {
               k \<leftarrow> key;
               lastid \<leftarrow> load64 k;
               (oldest, found_old, st) \<leftarrow> refresh_oldest oldest lastid found_old st;
               if oldest \<le> lastid then Some (NoRun, st)
               else do {
                 (e, st) \<leftarrow> merge_record m2 lastid st;
                 case e of
                   Some r \<Rightarrow> Some (r, st)
                 | None \<Rightarrow> alloc_loop fuel num MDB_NEXT retry lastid oldest found_old m2 st } } } } }"

text \<open>The label \<open>search_done\<close>: \<open>i\<close> is the end of the run, or 0 for pages at the end of the file.\<close>

definition alloc_take :: "nat \<Rightarrow> nat \<Rightarrow> pgno_t \<Rightarrow> st \<Rightarrow> (int \<times> page_ref \<times> st) option" where
  "alloc_take num i pg st = do {
     (np, st) \<leftarrow> (if anyset (me_flags (env st)) MDB_WRITEMAP then Some (Some (PMap pg), st)
                  else Some (mdb_page_malloc st num));
     case np of
       None \<Rightarrow> Some (ENOMEM, PNull, set_txn_error st)
     | Some p \<Rightarrow> do {
         st \<leftarrow> (if i \<noteq> 0 then do {
                  pghead \<leftarrow> me_pghead (env st);
                  n \<leftarrow> rd (idl_ids pghead) 0;
                  let mop_len = unat n - num;
                  mop \<leftarrow> wr (idl_ids pghead) 0 (of_nat mop_len);
                  mop \<leftarrow> alloc_shift mop i (i - num) (mop_len - (i - num));
                  Some (set_pghead (Some (pghead\<lparr>idl_ids := mop\<rparr>)) st) }
                else Some (upd_txn (\<lambda>t. t\<lparr>mt_next_pgno := pg + of_nat num\<rparr>) st));
         mp \<leftarrow> get_page st p;
         st \<leftarrow> put_page st p (mp\<lparr>mp_pgno := pg\<rparr>);
         st \<leftarrow> mdb_page_dirty st p;
         Some (MDB_SUCCESS, p, st) } }"

definition mdb_page_alloc :: "nat \<Rightarrow> nat \<Rightarrow> st \<Rightarrow> (int \<times> page_ref \<times> st) option" where
  "mdb_page_alloc mc num st = do {
     t \<leftarrow> get_txn st;
     case (num = 1, mt_loose_pgs t) of
       (True, np # rest) \<Rightarrow>
         Some (MDB_SUCCESS, np, upd_txn (\<lambda>t. t\<lparr>mt_loose_pgs := rest, mt_loose_count := mt_loose_count t - 1\<rparr>) st)
     | _ \<Rightarrow>
         if mt_dirty_room t = 0 then Some (MDB_TXN_FULL, PNull, set_txn_error st)
         else do {
           db \<leftarrow> get_db st FREE_DBI;
           let (m2, st) = local_cursor (blank_cursor FREE_DBI) st;
           (e, st) \<leftarrow> alloc_loop (unat (md_entries db) + 2) num MDB_FIRST (int num * 60) 0 0 False m2 st;
           let st = drop_cursor m2 st;
           case e of
             Return rc \<Rightarrow> Some (rc, PNull, st)
           | Fail rc \<Rightarrow> Some (rc, PNull, set_txn_error st)
           | Run i \<Rightarrow> do {
               pghead \<leftarrow> me_pghead (env st);
               pg \<leftarrow> rd (idl_ids pghead) i;
               alloc_take num i pg st }
           | NoRun \<Rightarrow> do {
               t \<leftarrow> get_txn st;
               let pg = mt_next_pgno t;
               if pg + of_nat num \<ge> me_maxpg (env st) then Some (MDB_MAP_FULL, PNull, set_txn_error st)
               else alloc_take num 0 pg st } } }"

section \<open>Copy on write\<close>

text \<open>The cursors of the same database that point to the old page follow to the new one.\<close>

fun touch_cursors :: "nat list \<Rightarrow> nat \<Rightarrow> nat \<Rightarrow> page_ref \<Rightarrow> page_ref \<Rightarrow> st \<Rightarrow> st option" where
  "touch_cursors [] snum lvl mp np st = Some st"
| "touch_cursors (m2 # ms) snum lvl mp np st = do {
     c2 \<leftarrow> crs st m2;
     if mc_snum c2 < snum then touch_cursors ms snum lvl mp np st
     else do {
       p \<leftarrow> rd (mc_pg c2) lvl;
       touch_cursors ms snum lvl mp np (if p = mp then upd_cur m2 (set_pg lvl np) st else st) } }"

text \<open>\<open>None\<close> in the result is a page that needs no copy.\<close>

definition touch_page :: "nat \<Rightarrow> st \<Rightarrow> (int \<times> page_ref option \<times> st) option" where
  "touch_page mc st = do {
     c \<leftarrow> crs st mc;
     t \<leftarrow> get_txn st;
     p \<leftarrow> cur_pg c;
     mp \<leftarrow> get_page st p;
     let copy = (\<lambda>np pg st. do {
       q \<leftarrow> get_page st np;
       mp \<leftarrow> get_page st p;
       let q = mdb_page_copy q mp (me_psize (env st));
       st \<leftarrow> put_page st np (q\<lparr>mp_pgno := pg, mp_flags := mp_flags q OR P_DIRTY\<rparr>);
       Some (0, Some np, st) });
     if \<not> F_ISSET (mp_flags mp) P_DIRTY then do {
       (rc, np, st) \<leftarrow> (if anyset (mt_flags t) MDB_TXN_SPILLS then mdb_page_unspill p st
                        else Some (0, PNull, st));
       if rc \<noteq> 0 then Some (rc, None, set_txn_error st)
       else if np \<noteq> PNull then Some (0, Some np, st)
       else do {
         t \<leftarrow> get_txn st;
         (rc, idl) \<leftarrow> mdb_midl_need (mem_of st) (mt_free_pgs t) 1;
         let st = set_free_pgs idl (tick st);
         (rc, np, st) \<leftarrow> (if rc \<noteq> 0 then Some (rc, PNull, st) else mdb_page_alloc mc 1 st);
         if rc \<noteq> 0 then Some (rc, None, set_txn_error st)
         else do {
           q \<leftarrow> get_page st np;
           let pg = mp_pgno q;
           mdb_cassert (mp_pgno mp \<noteq> pg);
           t \<leftarrow> get_txn st;
           ids \<leftarrow> mdb_midl_xappend (idl_ids (mt_free_pgs t)) (mp_pgno mp);
           let st = set_free_pgs (mt_free_pgs t\<lparr>idl_ids := ids\<rparr>) st;
           st \<leftarrow> (if mc_top c \<noteq> 0 then do {
                    pp \<leftarrow> rd (mc_pg c) (mc_top c - 1);
                    parent \<leftarrow> get_page st pp;
                    ki \<leftarrow> rd (mc_ki c) (mc_top c - 1);
                    nd \<leftarrow> NODEPTR parent ki;
                    put_page st pp (parent\<lparr>mp_nodes := (mp_nodes parent)(mp_ptrs parent ki + PAGEBASE \<mapsto> SETPGNO nd pg)\<rparr>) }
                  else Some (upd_db (mc_dbi c) (\<lambda>d. d\<lparr>md_root := pg\<rparr>) st));
           copy np pg st } } }
     else if has_parent st \<and> \<not> anyset (mp_flags mp) P_SUBP then do {
       let pg = mp_pgno mp;
       x \<leftarrow> mid2l_lookup (mt_dirty_list t) pg;
       case x of
         Some i \<Rightarrow> do {
           e \<leftarrow> rd (mt_dirty_list t) i;
           if p \<noteq> mptr e
           then Some (MDB_CORRUPTED, None, set_txn_error (clear_flags mc (C_INITIALIZED OR C_EOF) st))
           else Some (0, None, st) }
       | None \<Rightarrow> do {
           d0 \<leftarrow> rd (mt_dirty_list t) 0;
           mdb_cassert (unat (mid d0) < MDB_IDL_UM_MAX);
           let (np, st) = mdb_page_malloc st 1;
           case np of
             None \<Rightarrow> Some (ENOMEM, None, st)
           | Some np \<Rightarrow> do {
               (rc, dl) \<leftarrow> mdb_mid2l_insert (mt_dirty_list t) \<lparr>mid = pg, mptr = np\<rparr>;
               mdb_cassert (rc = 0);
               copy np pg (set_dirty_list dl st) } } }
     else Some (0, None, st) }"

definition mdb_page_touch :: touch_fun where
  "mdb_page_touch mc st = do {
     c \<leftarrow> crs st mc;
     old \<leftarrow> cur_pg c;
     mdb_cassert (\<not> anyset (mc_flags c) C_SUB);
     (rc, np, st) \<leftarrow> touch_page mc st;
     case np of
       None \<Rightarrow> Some (rc, st)
     | Some np \<Rightarrow> do {
         t \<leftarrow> get_txn st;
         let st = upd_cur mc (set_pg (mc_top c) np) st;
         ms \<leftarrow> (if mt_cursors t = [] then Some [] else rd (mt_cursors t) (mc_dbi c));
         st \<leftarrow> touch_cursors ms (mc_snum c) (mc_top c) old np st;
         Some (0, st) } }"

section \<open>The descent for writing\<close>

definition mdb_page_search :: "nat \<Rightarrow> byte list option \<Rightarrow> 32 word \<Rightarrow> st \<Rightarrow> (int \<times> st) option" where
  "mdb_page_search = page_search mdb_page_touch"

text \<open>\<open>do rc = mdb_page_touch(mc); while (!rc && ++(mc->mc_top) < mc->mc_snum);\<close> with \<open>k\<close> levels left.\<close>

fun touch_stack :: "nat \<Rightarrow> nat \<Rightarrow> st \<Rightarrow> (int \<times> st) option" where
  "touch_stack mc 0 st = Some (0, st)"
| "touch_stack mc (Suc k) st =
     rc_bind (mdb_page_touch mc st) (\<lambda>st.
       touch_stack mc k (upd_cur mc (\<lambda>c. c\<lparr>mc_top := mc_top c + 1\<rparr>) st))"

definition mdb_cursor_touch :: "nat \<Rightarrow> st \<Rightarrow> (int \<times> st) option" where
  "mdb_cursor_touch mc st = do {
     c \<leftarrow> crs st mc;
     let dbi = mc_dbi c;
     fl \<leftarrow> get_dbflag st dbi;
     rc_bind
       (if dbi > MAIN_DBI \<and> \<not> anyset fl DB_DIRTY then do {
          changed \<leftarrow> dbi_changed st dbi;
          if changed then Some (MDB_BAD_DBI, st)
          else do {
            dbx \<leftarrow> get_dbx st dbi;
            let (mc2, st) = local_cursor (blank_cursor MAIN_DBI) st;
            st \<leftarrow> mdb_cursor_init mc2 MAIN_DBI st;
            (rc, st) \<leftarrow> mdb_page_search mc2 (Some (md_name dbx)) MDB_PS_MODIFY st;
            let st = drop_cursor mc2 st;
            if rc \<noteq> 0 then Some (rc, st)
            else do {
              fl \<leftarrow> get_dbflag st dbi;
              Some (0, set_dbflag dbi (fl OR DB_DIRTY) st) } } }
        else Some (MDB_SUCCESS, st))
       (\<lambda>st. do {
          let st = upd_cur mc (\<lambda>c. c\<lparr>mc_top := 0\<rparr>) st;
          c \<leftarrow> crs st mc;
          if mc_snum c \<noteq> 0 then do {
            (rc, st) \<leftarrow> touch_stack mc (mc_snum c) st;
            Some (rc, upd_cur mc (\<lambda>c. c\<lparr>mc_top := mc_snum c - 1\<rparr>) st) }
          else Some (MDB_SUCCESS, st) }) }"

section \<open>New pages\<close>

definition mdb_page_new :: "nat \<Rightarrow> 16 word \<Rightarrow> nat \<Rightarrow> st \<Rightarrow> (int \<times> page_ref \<times> st) option" where
  "mdb_page_new mc flags num st = do {
     c \<leftarrow> crs st mc;
     (rc, p, st) \<leftarrow> mdb_page_alloc mc num st;
     if rc \<noteq> 0 then Some (rc, PNull, st)
     else do {
       np \<leftarrow> get_page st p;
       let np = np\<lparr>mp_flags := flags OR P_DIRTY, mp_lower := PAGEHDRSZ - PAGEBASE,
                   mp_upper := u16 (me_psize (env st) - PAGEBASE)\<rparr>;
       let st = (if IS_BRANCH np then upd_db (mc_dbi c) (\<lambda>d. d\<lparr>md_branch_pages := md_branch_pages d + 1\<rparr>) st
                 else if IS_LEAF np then upd_db (mc_dbi c) (\<lambda>d. d\<lparr>md_leaf_pages := md_leaf_pages d + 1\<rparr>) st
                 else if IS_OVERFLOW np
                 then upd_db (mc_dbi c) (\<lambda>d. d\<lparr>md_overflow_pages := md_overflow_pages d + of_nat num\<rparr>) st
                 else st);
       st \<leftarrow> put_page st p (if IS_OVERFLOW np \<and> \<not> IS_BRANCH np \<and> \<not> IS_LEAF np then np\<lparr>mp_pages := num\<rparr> else np);
       Some (0, p, st) } }"

end
