(* ===== verification/Lmdb_Split.thy ===== *)
theory Lmdb_Split
  imports Lmdb_Alloc
begin

text \<open>
  Adding a node to a page of the tree and splitting a full page (\<open>LegacyDatabase/mdb.c\<close>):
  \<open>mdb_node_add\<close> with its overflow pages, \<open>mdb_cursor_copy\<close>, \<open>mdb_page_split\<close>,
  \<open>mdb_update_key\<close>.  Pages of kind \<open>LEAF2\<close> belong to databases with \<open>MDB_DUPFIXED\<close> and are not
  split here.
\<close>

section \<open>Adding a node\<close>

text \<open>The bytes of a node after its key: those of the data, of a page number, or reserved ones.\<close>

definition node_payload :: "bool \<Rightarrow> MDB_val option \<Rightarrow> 32 word \<Rightarrow> pgno_t option \<Rightarrow> byte list option" where
  "node_payload leaf data flags ofp =
     (if leaf then
        (case ofp of
           Some pg \<Rightarrow> Some (bytes64 pg)
         | None \<Rightarrow> do {
             d \<leftarrow> data;
             if F_ISSET flags F_BIGDATA then do {
               mdb_cassert (length (mv_data d) \<ge> sizeof_pgno_t);
               Some (take sizeof_pgno_t (mv_data d)) }
             else if F_ISSET flags MDB_RESERVE then Some (replicate (mv_size d) 0)
             else do {
               mdb_cassert (length (mv_data d) \<ge> mv_size d);
               Some (take (mv_size d) (mv_data d)) } })
      else Some [])"

text \<open>The stores under \<open>update\<close>, on the page of the cursor.\<close>

definition node_store :: "page_ref \<Rightarrow> nat \<Rightarrow> nat \<Rightarrow> byte list option \<Rightarrow> MDB_val option \<Rightarrow> pgno_t \<Rightarrow> 32 word \<Rightarrow>
    pgno_t option \<Rightarrow> st \<Rightarrow> st option" where
  "node_store p indx node_size key data pg flags ofp st = do {
     mp \<leftarrow> get_page st p;
     let leaf = IS_LEAF mp;
     mdb_cassert (\<not> leaf \<or> key \<noteq> None);
     payload \<leftarrow> node_payload leaf data flags ofp;
     let d = (case data of None \<Rightarrow> val_of [] | Some d \<Rightarrow> d);
     mp' \<leftarrow> node_insert mp indx node_size (make_node leaf key d pg flags payload);
     put_page st p mp' }"

text \<open>\<open>memcpy(METADATA(ofp), data->mv_data, data->mv_size)\<close>.\<close>

definition overflow_store :: "page_ref \<Rightarrow> MDB_val \<Rightarrow> st \<Rightarrow> st option" where
  "overflow_store p d st = do {
     mp \<leftarrow> get_page st p;
     mdb_cassert (mv_size d \<le> length (mv_data d) \<and> mv_size d \<le> length (mp_data mp));
     put_page st p (mp\<lparr>mp_data := take (mv_size d) (mv_data d) @ drop (mv_size d) (mp_data mp)\<rparr>) }"

definition mdb_node_add :: "nat \<Rightarrow> nat \<Rightarrow> byte list option \<Rightarrow> MDB_val option \<Rightarrow> pgno_t \<Rightarrow> 32 word \<Rightarrow> st \<Rightarrow>
    (int \<times> st) option" where
  "mdb_node_add mc indx key data pg flags st = do {
     c \<leftarrow> crs st mc;
     p \<leftarrow> cur_pg c;
     mp \<leftarrow> get_page st p;
     mdb_cassert (mp_upper mp \<ge> mp_lower mp);
     let full = Some (MDB_PAGE_FULL, set_txn_error st);
     if IS_LEAF2 mp then do {
       db \<leftarrow> get_db st (mc_dbi c);
       k \<leftarrow> key;
       st \<leftarrow> put_page st p (leaf2_add (unat (md_pad db)) mp indx k);
       Some (MDB_SUCCESS, st) }
     else do {
       let room = node_room mp;
       let node_size = NODESIZE + (case key of None \<Rightarrow> 0 | Some k \<Rightarrow> length k);
       if IS_LEAF mp then do {
         d \<leftarrow> data;
         if F_ISSET flags F_BIGDATA \<or> node_size + mv_size d \<le> me_nodemax (env st) then do {
           let node_size = EVEN (node_size + (if F_ISSET flags F_BIGDATA then sizeof_pgno_t else mv_size d));
           if int node_size > room then full
           else do {
             st \<leftarrow> node_store p indx node_size key data pg flags None st;
             Some (MDB_SUCCESS, st) } }
         else do {
           let ovpages = OVPAGES (mv_size d) (me_psize (env st));
           let node_size = EVEN (node_size + sizeof_pgno_t);
           if int node_size > room then full
           else do {
             (rc, ofp, st) \<leftarrow> mdb_page_new mc P_OVERFLOW ovpages st;
             if rc \<noteq> 0 then Some (rc, st)
             else do {
               omp \<leftarrow> get_page st ofp;
               st \<leftarrow> node_store p indx node_size key data pg (flags OR F_BIGDATA) (Some (mp_pgno omp)) st;
               st \<leftarrow> (if F_ISSET flags MDB_RESERVE then Some st else overflow_store ofp d st);
               Some (MDB_SUCCESS, st) } } } }
       else do {
         let node_size = EVEN node_size;
         if int node_size > room then full
         else do {
           st \<leftarrow> node_store p indx node_size key data pg flags None st;
           Some (MDB_SUCCESS, st) } } } }"

text \<open>\<open>mdb_node_del\<close> on the page of a cursor.\<close>

definition cursor_node_del :: "nat \<Rightarrow> nat \<Rightarrow> st \<Rightarrow> st option" where
  "cursor_node_del mc ksize st = do {
     c \<leftarrow> crs st mc;
     p \<leftarrow> cur_pg c;
     mp \<leftarrow> get_page st p;
     ki \<leftarrow> cur_ki c;
     mp' \<leftarrow> mdb_node_del mp ki ksize;
     put_page st p mp' }"

section \<open>Cursors of the same database\<close>

definition tracked :: "st \<Rightarrow> nat \<Rightarrow> nat list option" where
  "tracked st dbi = do { t \<leftarrow> get_txn st; if mt_cursors t = [] then Some [] else rd (mt_cursors t) dbi }"

text \<open>A loop over the tracked cursors that changes each of them.\<close>

fun map_cursors :: "nat list \<Rightarrow> (nat \<Rightarrow> MDB_cursor \<Rightarrow> MDB_cursor option) \<Rightarrow> st \<Rightarrow> st option" where
  "map_cursors [] f st = Some st"
| "map_cursors (m # ms) f st = do {
     c \<leftarrow> crs st m;
     c' \<leftarrow> f m c;
     map_cursors ms f (st\<lparr>crs := (crs st)(m \<mapsto> c')\<rparr>) }"

text \<open>The used part of the stack is copied; the rest of the destination stays.\<close>

definition mdb_cursor_copy :: "MDB_cursor \<Rightarrow> MDB_cursor \<Rightarrow> MDB_cursor" where
  "mdb_cursor_copy csrc cdst =
     \<lparr>mc_dbi = mc_dbi csrc, mc_snum = mc_snum csrc, mc_top = mc_top csrc, mc_flags = mc_flags csrc,
      mc_pg = take (mc_snum csrc) (mc_pg csrc) @ drop (mc_snum csrc) (mc_pg cdst),
      mc_ki = take (mc_snum csrc) (mc_ki csrc) @ drop (mc_snum csrc) (mc_ki cdst)\<rparr>"

definition copy_local :: "nat \<Rightarrow> st \<Rightarrow> (nat \<times> st) option" where
  "copy_local mc st = do {
     c \<leftarrow> crs st mc;
     Some (local_cursor (mdb_cursor_copy c (blank_cursor (mc_dbi c))) st) }"

section \<open>Where to split\<close>

text \<open>\<open>for (i=0, j=0; i<nkeys; i++) { if (i == newindx) ptrs[j++] = 0; ptrs[j++] = mp->mp_ptrs[i]; }\<close>\<close>

definition ptrs_with_gap :: "(nat \<Rightarrow> nat) \<Rightarrow> nat \<Rightarrow> (nat \<Rightarrow> nat)" where
  "ptrs_with_gap ptrs newindx = (\<lambda>j. if j < newindx then ptrs j else if j = newindx then 0 else ptrs (j - 1))"

text \<open>
  The search for the split point by size; \<open>i\<close> runs by \<open>j = 1\<close> or \<open>j = -1\<close> to \<open>k\<close>, and the loop
  stops at the latest at \<open>k - j\<close>.
\<close>

function split_scan :: "MDB_page \<Rightarrow> (nat \<Rightarrow> nat) \<Rightarrow> nat \<Rightarrow> nat \<Rightarrow> nat \<Rightarrow> int \<Rightarrow> int \<Rightarrow> int \<Rightarrow> nat \<Rightarrow> nat \<Rightarrow> nat option" where
  "split_scan mp ptrs newindx nsize pmax i j k psize split_indx =
     (if i = k \<or> \<not> (j = 1 \<and> i < k \<or> j = -1 \<and> k < i) then Some split_indx
      else case (if i = int newindx then Some (psize + nsize)
                 else do {
                   nd \<leftarrow> mp_nodes mp (ptrs (nat i) + PAGEBASE);
                   Some (EVEN (psize + NODESIZE + NODEKSZ nd + sizeof_indx_t +
                     (if IS_LEAF mp then if node_isset nd F_BIGDATA then sizeof_pgno_t else NODEDSZ nd else 0))) }) of
        None \<Rightarrow> None
      | Some psize' \<Rightarrow>
          (if psize' > pmax \<or> i = k - j then Some (nat (i + (if j < 0 then 1 else 0)))
           else split_scan mp ptrs newindx nsize pmax (i + j) j k psize' split_indx))"
  by pat_completeness auto
termination
  by (relation "measure (\<lambda>(mp, ptrs, newindx, nsize, pmax, i, j, k, psize, s). nat \<bar>k - i\<bar>)") auto

declare split_scan.simps [simp del]

definition split_point :: "nat \<Rightarrow> MDB_page \<Rightarrow> (nat \<Rightarrow> nat) \<Rightarrow> nat \<Rightarrow> nat \<Rightarrow> nat \<Rightarrow> nat option" where
  "split_point pmax mp ptrs nkeys newindx nsize =
     (let split_indx = (nkeys + 1) div 2 in
      if nkeys < 20 \<or> nsize > pmax div 16 \<or> newindx \<ge> nkeys then
        (let (i, j, k) = (if newindx \<le> split_indx \<or> newindx \<ge> nkeys
                          then (0, 1, if newindx \<ge> nkeys then int nkeys else int split_indx + 2)
                          else (int nkeys, -1, int split_indx - 1))
         in split_scan mp ptrs newindx nsize pmax i j k 0 split_indx)
      else Some split_indx)"

section \<open>Splitting a page\<close>

text \<open>
  The new right page and, when the root is split, the new root above the old one.  The result
  tells the right page, the index \<open>ptop\<close> of the parent and whether there is a new root.
\<close>

definition split_setup :: "nat \<Rightarrow> st \<Rightarrow> (int \<times> page_ref \<times> nat \<times> bool \<times> st) option" where
  "split_setup mc st = do {
     c \<leftarrow> crs st mc;
     p \<leftarrow> cur_pg c;
     mp \<leftarrow> get_page st p;
     (rc, rp, st) \<leftarrow> mdb_page_new mc (mp_flags mp) 1 st;
     if rc \<noteq> 0 then Some (rc, PNull, 0, False, st)
     else if mc_snum c < 2 then do {
       (rc, pp, st) \<leftarrow> mdb_page_new mc P_BRANCH 1 st;
       if rc \<noteq> 0 then Some (rc, PNull, 0, False, set_txn_error st)
       else do {
         root \<leftarrow> get_page st pp;
         p0 \<leftarrow> rd (mc_pg c) 0;
         k0 \<leftarrow> rd (mc_ki c) 0;
         let st = upd_cur mc (\<lambda>c. set_ki 0 0 (set_pg 0 pp (set_ki 1 k0 (set_pg 1 p0 c)))) st;
         let st = upd_db (mc_dbi c) (\<lambda>d. d\<lparr>md_root := mp_pgno root, md_depth := md_depth d + 1\<rparr>) st;
         (rc, st) \<leftarrow> mdb_node_add mc 0 None None (mp_pgno mp) 0 st;
         if rc \<noteq> MDB_SUCCESS then
           Some (rc, PNull, 0, False, set_txn_error
             (upd_db (mc_dbi c) (\<lambda>d. d\<lparr>md_root := mp_pgno mp, md_depth := md_depth d - 1\<rparr>)
               (upd_cur mc (\<lambda>c. set_ki 0 k0 (set_pg 0 p0 c)) st)))
         else Some (0, rp, 0, True, upd_cur mc (\<lambda>c. c\<lparr>mc_snum := 2, mc_top := 1\<rparr>) st) } }
     else Some (0, rp, mc_top c - 1, False, st) }"

text \<open>
  The separator and the split index; \<open>copy\<close> is the scratch page that takes the left half.  With
  \<open>MDB_APPEND\<close> nothing is moved.
\<close>

definition split_choose :: "page_ref \<Rightarrow> nat \<Rightarrow> byte list \<Rightarrow> MDB_val option \<Rightarrow> 32 word \<Rightarrow> st \<Rightarrow>
    (int \<times> byte list \<times> nat \<times> page_ref \<times> (nat \<Rightarrow> nat) \<times> st) option" where
  "split_choose p newindx newkey newdata nflags st = do {
     mp \<leftarrow> get_page st p;
     if anyset nflags MDB_APPEND then Some (0, newkey, newindx, PNull, mp_ptrs mp, st)
     else do {
       mdb_cassert (\<not> IS_LEAF2 mp);
       let nkeys = NUMKEYS mp;
       let pmax = me_psize (env st) - PAGEHDRSZ;
       nsize \<leftarrow> (if IS_LEAF mp then do { d \<leftarrow> newdata; Some (mdb_leaf_size (me_nodemax (env st)) newkey d) }
                 else Some (mdb_branch_size (Some newkey)));
       let nsize = EVEN nsize;
       case mdb_page_malloc st 1 of
         (None, st) \<Rightarrow> Some (ENOMEM, [], 0, PNull, mp_ptrs mp, st)
       | (Some cp, st) \<Rightarrow> do {
           copy \<leftarrow> get_page st cp;
           let ptrs = ptrs_with_gap (mp_ptrs mp) newindx;
           st \<leftarrow> put_page st cp (copy\<lparr>mp_pgno := mp_pgno mp, mp_flags := mp_flags mp,
                   mp_lower := PAGEHDRSZ - PAGEBASE, mp_upper := u16 (me_psize (env st) - PAGEBASE),
                   mp_ptrs := (\<lambda>j. if j < nkeys + (if newindx < nkeys then 1 else 0) then ptrs j
                                   else mp_ptrs copy j)\<rparr>);
           split_indx \<leftarrow> split_point pmax mp ptrs nkeys newindx nsize;
           sepkey \<leftarrow> (if split_indx = newindx then Some newkey
                      else do { nd \<leftarrow> mp_nodes mp (ptrs split_indx + PAGEBASE); Some (NODEKEY nd) });
           Some (0, sepkey, split_indx, cp, ptrs, st) } } }"

text \<open>
  \<open>do { ... } while (i != split_indx)\<close>: the nodes from \<open>split_indx\<close> on go to the right page, the
  others to \<open>copy\<close>, the new node in its place; \<open>mp\<close> is the page being split.  Each of the
  \<open>nkeys + 1\<close> entries is added once.
\<close>

fun split_loop :: "nat \<Rightarrow> nat \<Rightarrow> MDB_page \<Rightarrow> (nat \<Rightarrow> nat) \<Rightarrow> page_ref \<Rightarrow> nat \<Rightarrow> nat \<Rightarrow> nat \<Rightarrow> byte list \<Rightarrow>
    MDB_val option \<Rightarrow> pgno_t \<Rightarrow> 32 word \<Rightarrow> nat \<Rightarrow> nat \<Rightarrow> st \<Rightarrow> (int \<times> st) option" where
  "split_loop 0 mc mp ptrs copy nkeys newindx split_indx newkey newdata newpg nflags i j st = None"
| "split_loop (Suc n) mc mp ptrs copy nkeys newindx split_indx newkey newdata newpg nflags i j st = do {
     (rkey, rdata, pg, flags, st) \<leftarrow>
       (if i = newindx then
          Some (newkey, if IS_LEAF mp then newdata else None, newpg, nflags, set_top_ki mc j st)
        else do {
          nd \<leftarrow> mp_nodes mp (ptrs i + PAGEBASE);
          Some (NODEKEY nd,
                if IS_LEAF mp then Some \<lparr>mv_size = NODEDSZ nd, mv_data = NODEDATA nd\<rparr> else None,
                NODEPGNO nd, ucast (mn_flags nd), st) });
     let rkey = (if \<not> IS_LEAF mp \<and> j = 0 then [] else rkey);
     rc_bind (mdb_node_add mc j (Some rkey) rdata pg flags st) (\<lambda>st.
       let (i, j, st) = (if i = nkeys then (0, 0, upd_cur mc (\<lambda>c. set_pg (mc_top c) copy c) st)
                         else (i + 1, j + 1, st)) in
       if i \<noteq> split_indx
       then split_loop n mc mp ptrs copy nkeys newindx split_indx newkey newdata newpg nflags i j st
       else Some (0, st)) }"

text \<open>The left half goes back from \<open>copy\<close> to the page.\<close>

definition split_copy_back :: "page_ref \<Rightarrow> page_ref \<Rightarrow> st \<Rightarrow> st option" where
  "split_copy_back p cp st = do {
     mp \<leftarrow> get_page st p;
     copy \<leftarrow> get_page st cp;
     let nkeys = NUMKEYS copy;
     mdb_cassert (nkeys > 0);
     let a = mp_ptrs copy (nkeys - 1) + PAGEBASE;
     let len = me_psize (env st) - mp_upper copy - PAGEBASE;
     put_page st p (mp\<lparr>mp_ptrs := (\<lambda>i. if i < nkeys then mp_ptrs copy i else mp_ptrs mp i),
       mp_lower := mp_lower copy, mp_upper := mp_upper copy,
       mp_nodes := (\<lambda>o'. if a \<le> o' \<and> o' < a + len then mp_nodes copy o' else mp_nodes mp o')\<rparr>) }"

text \<open>\<open>for (i=0; i<k; i++) { mc_pg[i] = mn.mc_pg[i]; mc_ki[i] = mn.mc_ki[i]; }\<close>\<close>

definition copy_stack :: "nat \<Rightarrow> MDB_cursor \<Rightarrow> MDB_cursor \<Rightarrow> MDB_cursor" where
  "copy_stack k mn c = c\<lparr>mc_pg := take k (mc_pg mn) @ drop k (mc_pg c),
                         mc_ki := take k (mc_ki mn) @ drop k (mc_ki c)\<rparr>"

text \<open>After a split of the parent: the stacks of \<open>mc\<close> and \<open>mn\<close> are brought together again.\<close>

definition split_reparent :: "nat \<Rightarrow> nat \<Rightarrow> nat \<Rightarrow> st \<Rightarrow> (nat \<times> st) option" where
  "split_reparent mc mn ptop st = do {
     c \<leftarrow> crs st mc;
     n \<leftarrow> crs st mn;
     (ptop, c) \<leftarrow>
       (if mc_snum n = mc_snum c then do {
          p \<leftarrow> rd (mc_pg c) (mc_top c);
          k \<leftarrow> rd (mc_ki c) (mc_top c);
          pp \<leftarrow> rd (mc_pg c) ptop;
          pk \<leftarrow> rd (mc_ki c) ptop;
          mdb_cassert (mc_snum c < CURSOR_STACK);
          let c = set_ki (mc_snum c) k (set_pg (mc_snum c) p c);
          let c = set_ki (mc_top c) pk (set_pg (mc_top c) pp c);
          Some (ptop + 1, c\<lparr>mc_snum := mc_snum c + 1, mc_top := mc_top c + 1\<rparr>) }
        else Some (ptop, c));
     let st = st\<lparr>crs := (crs st)(mc \<mapsto> c)\<rparr>;
     np \<leftarrow> rd (mc_pg n) ptop;
     nk \<leftarrow> rd (mc_ki n) ptop;
     cp \<leftarrow> rd (mc_pg c) ptop;
     ck \<leftarrow> rd (mc_ki c) ptop;
     pp \<leftarrow> get_page st cp;
     if np \<noteq> cp \<and> ck \<ge> NUMKEYS pp then do {
       let c = set_pg ptop np (copy_stack ptop n c);
       if nk \<noteq> 0 then Some (ptop, st\<lparr>crs := (crs st)(mc \<mapsto> set_ki ptop (nk - 1) c)\<rparr>)
       else do {
         (_, st) \<leftarrow> mdb_cursor_sibling mc False (st\<lparr>crs := (crs st)(mc \<mapsto> set_ki ptop nk c)\<rparr>);
         Some (ptop, st) } }
     else Some (ptop, st) }"

text \<open>The other cursors of the database follow the nodes that moved.\<close>

definition split_fix_cursor :: "MDB_cursor \<Rightarrow> MDB_cursor \<Rightarrow> page_ref \<Rightarrow> page_ref \<Rightarrow> nat \<Rightarrow> nat \<Rightarrow> nat \<Rightarrow> nat \<Rightarrow>
    bool \<Rightarrow> bool \<Rightarrow> 32 word \<Rightarrow> MDB_cursor \<Rightarrow> MDB_cursor option" where
  "split_fix_cursor c mn mp rp fixup newindx split_indx ptop new_root did_split nflags m3 =
     (if \<not> anyset (mc_flags m3) C_INITIALIZED \<or> anyset (mc_flags m3) C_SPLITTING then Some m3
      else do {
        m3 \<leftarrow> (if new_root then do {
                 mdb_cassert (mc_top m3 + 1 < CURSOR_STACK);
                 k0 \<leftarrow> rd (mc_ki m3) 0;
                 p0 \<leftarrow> rd (mc_pg c) 0;
                 let n = mc_top m3 + 1;
                 Some (m3\<lparr>mc_ki := (if k0 \<ge> split_indx then 1 else 0) # take n (mc_ki m3) @ drop (n + 1) (mc_ki m3),
                          mc_pg := p0 # take n (mc_pg m3) @ drop (n + 1) (mc_pg m3),
                          mc_snum := mc_snum m3 + 1, mc_top := mc_top m3 + 1\<rparr>) }
               else Some m3);
        let lvl = mc_top c;
        p \<leftarrow> rd (mc_pg m3) lvl;
        k \<leftarrow> rd (mc_ki m3) lvl;
        if mc_top m3 \<ge> lvl \<and> p = mp then do {
          let k = (if k \<ge> newindx \<and> \<not> anyset nflags MDB_SPLIT_REPLACE then k + 1 else k);
          let m3 = set_ki lvl k m3;
          if k \<ge> fixup then do {
            nk \<leftarrow> rd (mc_ki mn) ptop;
            Some (set_ki ptop nk (set_ki lvl (k - fixup) (set_pg lvl rp m3))) }
          else Some m3 }
        else do {
          pp \<leftarrow> rd (mc_pg m3) ptop;
          pk \<leftarrow> rd (mc_ki m3) ptop;
          cp \<leftarrow> rd (mc_pg c) ptop;
          ck \<leftarrow> rd (mc_ki c) ptop;
          Some (if \<not> did_split \<and> mc_top m3 \<ge> ptop \<and> pp = cp \<and> pk \<ge> ck then set_ki ptop (pk + 1) m3 else m3) } })"

text \<open>The label \<open>done\<close>.\<close>

definition split_done :: "page_ref \<Rightarrow> int \<Rightarrow> st \<Rightarrow> (int \<times> st) option" where
  "split_done copy rc st = do {
     st \<leftarrow> (if copy = PNull then Some st else mdb_page_free st copy);
     Some (rc, if rc \<noteq> 0 then set_txn_error st else st) }"

text \<open>The nodes of the page are distributed, the cursor is left on the new node.\<close>

definition split_distribute :: "nat \<Rightarrow> nat \<Rightarrow> page_ref \<Rightarrow> page_ref \<Rightarrow> page_ref \<Rightarrow> (nat \<Rightarrow> nat) \<Rightarrow> nat \<Rightarrow> nat \<Rightarrow> nat \<Rightarrow>
    byte list \<Rightarrow> MDB_val option \<Rightarrow> pgno_t \<Rightarrow> 32 word \<Rightarrow> st \<Rightarrow> (int \<times> st) option" where
  "split_distribute mc mn p rp copy ptrs newindx split_indx ptop newkey newdata newpg nflags st = do {
     mp \<leftarrow> get_page st p;
     n \<leftarrow> crs st mn;
     if anyset nflags MDB_APPEND then
       rc_bind (mdb_node_add mc 0 (Some newkey) newdata newpg nflags
                 (upd_cur mc (\<lambda>c. set_ki (mc_top c) 0 (set_pg (mc_top c) rp c)) st))
         (\<lambda>st. Some (0, upd_cur mc (\<lambda>c. c\<lparr>mc_ki := take (mc_top c) (mc_ki n) @ drop (mc_top c) (mc_ki c)\<rparr>) st))
     else
       rc_bind (split_loop (NUMKEYS mp + 2) mc mp ptrs copy (NUMKEYS mp) newindx split_indx newkey newdata
                  newpg nflags split_indx 0 (upd_cur mc (\<lambda>c. set_pg (mc_top c) rp c) st))
         (\<lambda>st. do {
            st \<leftarrow> split_copy_back p copy st;
            if newindx < split_indx then Some (0, upd_cur mc (\<lambda>c. set_pg (mc_top c) p c) st)
            else do {
              c \<leftarrow> crs st mc;
              k \<leftarrow> rd (mc_ki c) ptop;
              let c = set_ki ptop (k + 1) (set_pg (mc_top c) rp c);
              np \<leftarrow> rd (mc_pg n) ptop;
              cp \<leftarrow> rd (mc_pg c) ptop;
              ck \<leftarrow> rd (mc_ki c) ptop;
              pp \<leftarrow> get_page st cp;
              let c = (if np \<noteq> cp \<and> ck \<ge> NUMKEYS pp then copy_stack (ptop + 1) n c else c);
              Some (0, st\<lparr>crs := (crs st)(mc \<mapsto> c)\<rparr>) } }) }"

text \<open>
  A full parent is split first, one level up; \<open>n\<close> bounds the depth.
\<close>

fun page_split_n :: "nat \<Rightarrow> nat \<Rightarrow> byte list \<Rightarrow> MDB_val option \<Rightarrow> pgno_t \<Rightarrow> 32 word \<Rightarrow> st \<Rightarrow> (int \<times> st) option" where
  "page_split_n 0 mc newkey newdata newpg nflags st = None"
| "page_split_n (Suc lvl) mc newkey newdata newpg nflags st = do {
     c \<leftarrow> crs st mc;
     p \<leftarrow> cur_pg c;
     newindx \<leftarrow> cur_ki c;
     (rc, rp, ptop, new_root, st) \<leftarrow> split_setup mc st;
     if rc \<noteq> 0 then Some (rc, st)
     else do {
       rpage \<leftarrow> get_page st rp;
       let st = or_flags mc C_SPLITTING st;
       (mn, st) \<leftarrow> copy_local mc st;
       c \<leftarrow> crs st mc;
       pk \<leftarrow> rd (mc_ki c) ptop;
       let st = upd_cur mn (\<lambda>n. set_ki ptop (pk + 1) (set_pg (mc_top n) rp n)) st;
       let st = (if anyset nflags MDB_APPEND then set_top_ki mn 0 st else st);
       (rc, sepkey, split_indx, copy, ptrs, st) \<leftarrow> split_choose p newindx newkey newdata nflags st;
       if rc \<noteq> 0 then split_done PNull rc (drop_cursor mn st)
       else do {
         n \<leftarrow> crs st mn;
         pp \<leftarrow> rd (mc_pg n) ptop;
         parent \<leftarrow> get_page st pp;
         let did_split = (SIZELEFT parent < mdb_branch_size (Some sepkey));
         (rc, ptop, st) \<leftarrow>
           (if did_split then do {
              (rc, st) \<leftarrow> page_split_n lvl mn sepkey None (mp_pgno rpage) 0
                 (upd_cur mn (\<lambda>n. n\<lparr>mc_snum := mc_snum n - 1, mc_top := mc_top n - 1\<rparr>) st);
              if rc \<noteq> 0 then Some (rc, ptop, st)
              else do { (ptop, st) \<leftarrow> split_reparent mc mn ptop st; Some (0, ptop, clear_flags mc C_SPLITTING st) } }
            else do {
              nk \<leftarrow> rd (mc_ki n) ptop;
              (rc, st) \<leftarrow> mdb_node_add mn nk (Some sepkey) None (mp_pgno rpage) 0
                 (upd_cur mn (\<lambda>n. n\<lparr>mc_top := mc_top n - 1\<rparr>) st);
              Some (rc, ptop, clear_flags mc C_SPLITTING (upd_cur mn (\<lambda>n. n\<lparr>mc_top := mc_top n + 1\<rparr>) st)) });
         if rc \<noteq> MDB_SUCCESS then split_done copy rc (drop_cursor mn st)
         else do {
           (rc, st) \<leftarrow> split_distribute mc mn p rp copy ptrs newindx split_indx ptop newkey newdata newpg nflags st;
           if rc \<noteq> 0 then split_done copy rc (drop_cursor mn st)
           else do {
             mp \<leftarrow> get_page st p;
             c \<leftarrow> crs st mc;
             n \<leftarrow> crs st mn;
             ms \<leftarrow> tracked st (mc_dbi c);
             st \<leftarrow> map_cursors ms (\<lambda>m m3. if m = mc then Some m3
                     else split_fix_cursor c n p rp (NUMKEYS mp) newindx split_indx ptop new_root did_split nflags m3) st;
             split_done copy 0 (drop_cursor mn st) } } } } }"

definition mdb_page_split :: "nat \<Rightarrow> byte list \<Rightarrow> MDB_val option \<Rightarrow> pgno_t \<Rightarrow> 32 word \<Rightarrow> st \<Rightarrow> (int \<times> st) option" where
  "mdb_page_split = page_split_n (CURSOR_STACK + 1)"

section \<open>Replacing a key\<close>

definition mdb_update_key :: "nat \<Rightarrow> byte list \<Rightarrow> st \<Rightarrow> (int \<times> st) option" where
  "mdb_update_key mc key st = do {
     c \<leftarrow> crs st mc;
     p \<leftarrow> cur_pg c;
     indx \<leftarrow> cur_ki c;
     mp \<leftarrow> get_page st p;
     (full, mp') \<leftarrow> update_key_page mp indx key;
     if full then do {
       nd \<leftarrow> NODEPTR mp indx;
       st \<leftarrow> cursor_node_del mc 0 st;
       mdb_page_split mc key None (NODEPGNO nd) MDB_SPLIT_REPLACE st }
     else do { st \<leftarrow> put_page st p mp'; Some (MDB_SUCCESS, st) } }"

end
