(* ===== verification/Lmdb_Tree.thy ===== *)
theory Lmdb_Tree
  imports Lmdb_Split
begin

text \<open>
  Changing the tree (\<open>LegacyDatabase/mdb.c\<close>): storing and deleting an item at a cursor
  (\<open>mdb_cursor_put\<close>, \<open>mdb_cursor_del\<close>), the rebalancing after a deletion (\<open>mdb_node_move\<close>,
  \<open>mdb_page_merge\<close>, \<open>mdb_rebalance\<close>), and \<open>mdb_put\<close> and \<open>mdb_del\<close>.
\<close>

section \<open>Moving a node to a neighbour\<close>

text \<open>The first key below a branch page, found by descending to the left.\<close>

definition lowest_key :: "nat \<Rightarrow> st \<Rightarrow> (int \<times> byte list \<times> st) option" where
  "lowest_key mc st = do {
     (rc, st) \<leftarrow> mdb_page_search_lowest mc st;
     if rc \<noteq> 0 then Some (rc, [], st)
     else do {
       c \<leftarrow> crs st mc;
       mp \<leftarrow> top_page st mc;
       if IS_LEAF2 mp then do { db \<leftarrow> get_db st (mc_dbi c); Some (0, LEAF2KEY mp 0 (unat (md_pad db)), st) }
       else do { s2 \<leftarrow> NODEPTR mp 0; Some (0, NODEKEY s2, st) } } }"

text \<open>
  The first key of a branch page stands for everything to the left of the second: before a node
  is put in front of it, it gets its real value.
\<close>

definition move_fix_first :: "nat \<Rightarrow> st \<Rightarrow> (int \<times> st) option" where
  "move_fix_first cdst st = do {
     d \<leftarrow> crs st cdst;
     dp \<leftarrow> top_page st cdst;
     ki \<leftarrow> cur_ki d;
     if IS_BRANCH dp \<and> ki = 0 then do {
       (mn, st) \<leftarrow> copy_local cdst st;
       (rc, bkey, st) \<leftarrow> lowest_key mn st;
       if rc \<noteq> 0 then Some (rc, drop_cursor mn st)
       else do {
         let st = upd_cur mn (\<lambda>n. set_ki (mc_snum d - 1) 0 (n\<lparr>mc_snum := mc_snum d, mc_top := mc_snum d - 1\<rparr>)) st;
         (rc, st) \<leftarrow> mdb_update_key mn bkey st;
         Some (rc, drop_cursor mn st) } }
     else Some (0, st) }"

text \<open>
  After the move: when the first node of a page changed, the separator in its parent and the
  empty first key of a branch page are set.
\<close>

definition move_fix_separator :: "nat \<Rightarrow> st \<Rightarrow> (int \<times> st) option" where
  "move_fix_separator mc st = do {
     c \<leftarrow> crs st mc;
     ki \<leftarrow> cur_ki c;
     if ki \<noteq> 0 then Some (0, st)
     else do {
       mdb_cassert (mc_top c > 0);
       pk \<leftarrow> rd (mc_ki c) (mc_top c - 1);
       rc_bind
         (if pk \<noteq> 0 then do {
            mp \<leftarrow> top_page st mc;
            key \<leftarrow> (if IS_LEAF2 mp
                    then do { db \<leftarrow> get_db st (mc_dbi c); Some (LEAF2KEY mp 0 (unat (md_pad db))) }
                    else do { nd \<leftarrow> NODEPTR mp 0; Some (NODEKEY nd) });
            (mn, st) \<leftarrow> copy_local mc st;
            (rc, st) \<leftarrow> mdb_update_key mn key
               (upd_cur mn (\<lambda>n. n\<lparr>mc_snum := mc_snum n - 1, mc_top := mc_top n - 1\<rparr>) st);
            Some (rc, drop_cursor mn st) }
          else Some (0, st))
         (\<lambda>st. do {
            mp \<leftarrow> top_page st mc;
            if IS_BRANCH mp then do {
              ix \<leftarrow> top_ki st mc;
              (rc, st) \<leftarrow> mdb_update_key mc [] (set_top_ki mc 0 st);
              mdb_cassert (rc = MDB_SUCCESS);
              Some (0, set_top_ki mc ix st) }
            else Some (0, st) }) } }"

definition mdb_node_move :: "nat \<Rightarrow> nat \<Rightarrow> st \<Rightarrow> (int \<times> st) option" where
  "mdb_node_move csrc cdst st =
     rc_bind (mdb_page_touch csrc st) (\<lambda>st.
     rc_bind (mdb_page_touch cdst st) (\<lambda>st. do {
       s \<leftarrow> crs st csrc;
       sp \<leftarrow> top_page st csrc;
       ki \<leftarrow> cur_ki s;
       (rc, key, data, srcpg, flags, st) \<leftarrow>
         (if IS_LEAF2 sp then do {
            db \<leftarrow> get_db st (mc_dbi s);
            Some (0, LEAF2KEY sp ki (unat (md_pad db)), val_of [], 0, 0, st) }
          else do {
            srcnode \<leftarrow> NODEPTR sp ki;
            mdb_cassert (even (mp_ptrs sp ki));
            (rc, key, st) \<leftarrow>
              (if ki = 0 \<and> IS_BRANCH sp then do {
                 (rc, key, st) \<leftarrow> lowest_key csrc st;
                 Some (rc, key, if rc \<noteq> 0 then st
                   else upd_cur csrc (\<lambda>c. c\<lparr>mc_snum := mc_snum s, mc_top := mc_snum s - 1\<rparr>) st) }
               else Some (0, NODEKEY srcnode, st));
            Some (rc, key, \<lparr>mv_size = NODEDSZ srcnode, mv_data = NODEDATA srcnode\<rparr>,
                  NODEPGNO srcnode, ucast (mn_flags srcnode), st) });
       if rc \<noteq> 0 then Some (rc, st)
       else
         rc_bind (move_fix_first cdst st) (\<lambda>st. do {
           d \<leftarrow> crs st cdst;
           dk \<leftarrow> cur_ki d;
           dpg \<leftarrow> cur_pg d;
           rc_bind (mdb_node_add cdst dk (Some key) (Some data) srcpg flags st) (\<lambda>st. do {
             st \<leftarrow> cursor_node_del csrc (length key) st;
             s \<leftarrow> crs st csrc;
             spg \<leftarrow> cur_pg s;
             sk \<leftarrow> cur_ki s;
             ms \<leftarrow> tracked st (mc_dbi s);
             st \<leftarrow> map_cursors ms (\<lambda>m m3. if m = csrc then Some m3
                     else do {
                       p \<leftarrow> rd (mc_pg m3) (mc_top s);
                       k \<leftarrow> rd (mc_ki m3) (mc_top s);
                       Some (if p = spg \<and> k = sk then set_ki (mc_top s) dk (set_pg (mc_top s) dpg m3) else m3) }) st;
             rc_bind (move_fix_separator csrc st) (move_fix_separator cdst) }) }) }))"

section \<open>Merging pages and rebalancing\<close>

text \<open>
  \<open>for (i = 0; i < NUMKEYS(psrc); i++, j++) mdb_node_add(cdst, j, ...)\<close> with \<open>k\<close> nodes left.  The
  first key of a branch page is looked up at the bottom of the tree.
\<close>

fun merge_nodes :: "nat \<Rightarrow> nat \<Rightarrow> MDB_page \<Rightarrow> nat \<Rightarrow> nat \<Rightarrow> nat \<Rightarrow> st \<Rightarrow> (int \<times> st) option" where
  "merge_nodes csrc cdst psrc i j 0 st = Some (0, st)"
| "merge_nodes csrc cdst psrc i j (Suc k) st = do {
     s \<leftarrow> crs st csrc;
     if IS_LEAF2 psrc then do {
       db \<leftarrow> get_db st (mc_dbi s);
       rc_bind (mdb_node_add cdst j (Some (LEAF2KEY psrc i (unat (md_pad db)))) None 0 0 st)
         (merge_nodes csrc cdst psrc (i + 1) (j + 1) k) }
     else do {
       srcnode \<leftarrow> NODEPTR psrc i;
       (rc, key, st) \<leftarrow>
         (if i = 0 \<and> IS_BRANCH psrc then do {
            (mn, st) \<leftarrow> copy_local csrc st;
            (rc, key, st) \<leftarrow> lowest_key mn st;
            Some (rc, key, drop_cursor mn st) }
          else Some (0, NODEKEY srcnode, st));
       if rc \<noteq> 0 then Some (rc, st)
       else
         rc_bind (mdb_node_add cdst j (Some key)
                    (Some \<lparr>mv_size = NODEDSZ srcnode, mv_data = NODEDATA srcnode\<rparr>)
                    (NODEPGNO srcnode) (ucast (mn_flags srcnode)) st)
           (merge_nodes csrc cdst psrc (i + 1) (j + 1) k) } }"

text \<open>
  The part of \<open>mdb_page_merge\<close> before the rebalancing of the parent.  \<open>pdst\<close> is the destination
  page as it was before \<open>mdb_page_touch\<close>, as in the code.
\<close>

definition merge_into :: "nat \<Rightarrow> nat \<Rightarrow> st \<Rightarrow> (int \<times> st) option" where
  "merge_into csrc cdst st = do {
     s \<leftarrow> crs st csrc;
     d \<leftarrow> crs st cdst;
     psrc \<leftarrow> cur_pg s;
     pdst \<leftarrow> cur_pg d;
     mdb_cassert (mc_snum s > 1);
     mdb_cassert (mc_snum d > 1);
     rc_bind (mdb_page_touch cdst st) (\<lambda>st. do {
       src \<leftarrow> get_page st psrc;
       dst \<leftarrow> get_page st pdst;
       let nkeys = NUMKEYS dst;
       rc_bind (merge_nodes csrc cdst src 0 nkeys (NUMKEYS src) st) (\<lambda>st. do {
         let st = upd_cur csrc (\<lambda>c. c\<lparr>mc_top := mc_top c - 1\<rparr>) st;
         st \<leftarrow> cursor_node_del csrc 0 st;
         ki \<leftarrow> top_ki st csrc;
         (rc, st) \<leftarrow> (if ki = 0 then mdb_update_key csrc [] st else Some (0, st));
         let st = upd_cur csrc (\<lambda>c. c\<lparr>mc_top := mc_top c + 1\<rparr>) st;
         if rc \<noteq> 0 then Some (rc, st)
         else do {
           s \<leftarrow> crs st csrc;
           psrc \<leftarrow> cur_pg s;
           rc_bind (mdb_page_loose csrc psrc st) (\<lambda>st. do {
             src \<leftarrow> get_page st psrc;
             let st = upd_db (mc_dbi s) (\<lambda>db. if IS_LEAF src then db\<lparr>md_leaf_pages := md_leaf_pages db - 1\<rparr>
                                             else db\<lparr>md_branch_pages := md_branch_pages db - 1\<rparr>) st;
             ms \<leftarrow> tracked st (mc_dbi s);
             st \<leftarrow> map_cursors ms (\<lambda>m m3. if m = csrc \<or> mc_snum m3 < mc_snum s then Some m3
                     else do {
                       p \<leftarrow> rd (mc_pg m3) (mc_top s);
                       k \<leftarrow> rd (mc_ki m3) (mc_top s);
                       Some (if p = psrc then set_ki (mc_top s) (k + nkeys) (set_pg (mc_top s) pdst m3) else m3) }) st;
             Some (0, st) }) } }) }) }"

text \<open>\<open>md_depth\<close> is 16 bits wide; the stacks are shifted down by one level.\<close>

definition shift_stack :: "nat \<Rightarrow> MDB_cursor \<Rightarrow> MDB_cursor" where
  "shift_stack n c = c\<lparr>mc_pg := take n (tl (mc_pg c)) @ drop n (mc_pg c),
                      mc_ki := take n (tl (mc_ki c)) @ drop n (mc_ki c)\<rparr>"

text \<open>The root page has become empty.\<close>

definition rebalance_empty :: "nat \<Rightarrow> page_ref \<Rightarrow> MDB_page \<Rightarrow> st \<Rightarrow> (int \<times> st) option" where
  "rebalance_empty mc p mp st = do {
     c \<leftarrow> crs st mc;
     let st = upd_db (mc_dbi c) (\<lambda>d. d\<lparr>md_root := P_INVALID, md_depth := 0, md_leaf_pages := 0\<rparr>) st;
     t \<leftarrow> get_txn st;
     (rc, idl) \<leftarrow> mdb_midl_append (mem_of st) (mt_free_pgs t) (mp_pgno mp);
     let st = set_free_pgs idl (tick st);
     if rc \<noteq> 0 then Some (rc, st)
     else do {
       let clear = (\<lambda>m. m\<lparr>mc_snum := 0, mc_top := 0, mc_flags := mc_flags m AND NOT C_INITIALIZED\<rparr>);
       ms \<leftarrow> tracked st (mc_dbi c);
       st \<leftarrow> map_cursors ms (\<lambda>m m3. do {
               p0 \<leftarrow> rd (mc_pg m3) 0;
               Some (if p0 = p then clear m3 else m3) }) (upd_cur mc clear st);
       Some (MDB_SUCCESS, st) } }"

text \<open>The root page is a branch page with one child, which becomes the root.\<close>

definition rebalance_collapse :: "nat \<Rightarrow> page_ref \<Rightarrow> MDB_page \<Rightarrow> st \<Rightarrow> (int \<times> st) option" where
  "rebalance_collapse mc p mp st = do {
     c \<leftarrow> crs st mc;
     t \<leftarrow> get_txn st;
     (rc, idl) \<leftarrow> mdb_midl_append (mem_of st) (mt_free_pgs t) (mp_pgno mp);
     let st = set_free_pgs idl (tick st);
     if rc \<noteq> 0 then Some (rc, st)
     else do {
       nd \<leftarrow> NODEPTR mp 0;
       let root = NODEPGNO nd;
       (rc, (q, level), st) \<leftarrow> mdb_page_get (upd_db (mc_dbi c) (\<lambda>d. d\<lparr>md_root := root\<rparr>) st) root;
       if rc \<noteq> 0 then Some (rc, st)
       else do {
         let st = upd_db (mc_dbi c) (\<lambda>d. d\<lparr>md_depth := md_depth d - 1, md_branch_pages := md_branch_pages d - 1\<rparr>) st;
         db \<leftarrow> get_db st (mc_dbi c);
         k1 \<leftarrow> rd (mc_ki c) 1;
         let n = unat (md_depth db);
         mdb_cassert (n < CURSOR_STACK);
         let st = upd_cur mc (\<lambda>c. c\<lparr>mc_pg := q # take (n - 1) (drop 2 (mc_pg c)) @ drop (max 1 n) (mc_pg c),
                                    mc_ki := k1 # take (n - 1) (drop 2 (mc_ki c)) @ drop (max 1 n) (mc_ki c)\<rparr>) st;
         ms \<leftarrow> tracked st (mc_dbi c);
         st \<leftarrow> map_cursors ms (\<lambda>m m3. if m = mc \<or> mc_snum m3 < mc_snum c then Some m3
                 else do {
                   p0 \<leftarrow> rd (mc_pg m3) 0;
                   Some (if p0 = p
                         then shift_stack (mc_snum m3 - 1) (m3\<lparr>mc_snum := mc_snum m3 - 1, mc_top := mc_top m3 - 1\<rparr>)
                         else m3) }) st;
         Some (MDB_SUCCESS, st) } } }"

text \<open>The neighbour of the page: the right one for the first child, otherwise the left one.\<close>

definition rebalance_neighbor :: "nat \<Rightarrow> nat \<Rightarrow> nat \<Rightarrow> st \<Rightarrow> (int \<times> st) option" where
  "rebalance_neighbor mc mn ptop st = do {
     c \<leftarrow> crs st mc;
     pk \<leftarrow> rd (mc_ki c) ptop;
     pp \<leftarrow> rd (mc_pg c) ptop;
     parent \<leftarrow> get_page st pp;
     let nk = (if pk = 0 then pk + 1 else pk - 1);
     let st = upd_cur mn (set_ki ptop nk) st;
     nd \<leftarrow> NODEPTR parent nk;
     (rc, (q, level), st) \<leftarrow> mdb_page_get st (NODEPGNO nd);
     if rc \<noteq> 0 then Some (rc, st)
     else do {
       let st = upd_cur mn (\<lambda>n. set_pg (mc_top n) q n) st;
       qp \<leftarrow> get_page st q;
       mp \<leftarrow> top_page st mc;
       Some (0, if pk = 0 then set_top_ki mc (NUMKEYS mp) (set_top_ki mn 0 st)
                else set_top_ki mc 0 (set_top_ki mn (NUMKEYS qp + 65535) st)) } }"

text \<open>
  \<open>mdb_rebalance\<close> and \<open>mdb_page_merge\<close> call each other one level higher in the tree; \<open>n\<close> bounds
  the depth.
\<close>

fun rebalance_n :: "nat \<Rightarrow> nat \<Rightarrow> st \<Rightarrow> (int \<times> st) option"
  and page_merge_n :: "nat \<Rightarrow> nat \<Rightarrow> nat \<Rightarrow> st \<Rightarrow> (int \<times> st) option" where
  "rebalance_n 0 mc st = None"
| "rebalance_n (Suc lvl) mc st = do {
     c \<leftarrow> crs st mc;
     mp \<leftarrow> top_page st mc;
     let minkeys = (if IS_BRANCH mp then 2 else 1);
     if PAGEFILL (me_psize (env st)) mp \<ge> FILL_THRESHOLD \<and> NUMKEYS mp \<ge> minkeys then Some (MDB_SUCCESS, st)
     else if mc_snum c < 2 then do {
       p0 \<leftarrow> rd (mc_pg c) 0;
       root \<leftarrow> get_page st p0;
       if anyset (mp_flags root) P_SUBP then Some (MDB_SUCCESS, st)
       else if NUMKEYS root = 0 then rebalance_empty mc p0 root st
       else if IS_BRANCH root \<and> NUMKEYS root = 1 then rebalance_collapse mc p0 root st
       else Some (MDB_SUCCESS, st) }
     else do {
       let ptop = mc_top c - 1;
       pp \<leftarrow> rd (mc_pg c) ptop;
       parent \<leftarrow> get_page st pp;
       mdb_cassert (NUMKEYS parent > 1);
       (mn, st) \<leftarrow> copy_local mc st;
       oldki \<leftarrow> cur_ki c;
       pk \<leftarrow> rd (mc_ki c) ptop;
       (rc, st) \<leftarrow> rebalance_neighbor mc mn ptop st;
       if rc \<noteq> 0 then Some (rc, drop_cursor mn st)
       else do {
         np \<leftarrow> top_page st mn;
         let minkeys = (if IS_BRANCH np then 2 else 1);
         (rc, oldki, st) \<leftarrow>
           (if PAGEFILL (me_psize (env st)) np \<ge> FILL_THRESHOLD \<and> NUMKEYS np > minkeys then do {
              (rc, st) \<leftarrow> mdb_node_move mn mc st;
              c \<leftarrow> crs st mc;
              pk \<leftarrow> rd (mc_ki c) ptop;
              Some (rc, if pk \<noteq> 0 then oldki + 1 else oldki, st) }
            else if pk = 0 then do {
              (rc, st) \<leftarrow> page_merge_n lvl mn mc st;
              Some (rc, oldki, clear_flags mc C_EOF st) }
            else do {
              n \<leftarrow> crs st mn;
              nk \<leftarrow> cur_ki n;
              c \<leftarrow> crs st mc;
              ck \<leftarrow> rd (mc_ki c) (mc_top n);
              (rc, st) \<leftarrow> page_merge_n lvl mc mn (set_top_ki mn (nk + ck + 1) st);
              n \<leftarrow> crs st mn;
              let st = upd_cur mc (mdb_cursor_copy n) st;
              Some (rc, oldki + NUMKEYS np, clear_flags mc C_EOF st) });
         Some (rc, drop_cursor mn (set_top_ki mc oldki st)) } } }"
| "page_merge_n 0 csrc cdst st = None"
| "page_merge_n (Suc lvl) csrc cdst st =
     rc_bind (merge_into csrc cdst st) (\<lambda>st. do {
       d \<leftarrow> crs st cdst;
       db \<leftarrow> get_db st (mc_dbi d);
       (rc, st) \<leftarrow> rebalance_n lvl cdst (upd_cur cdst mdb_cursor_pop st);
       db' \<leftarrow> get_db st (mc_dbi d);
       let snum = (if md_depth db > md_depth db' then mc_snum d - 1 else mc_snum d);
       Some (rc, upd_cur cdst (\<lambda>c. c\<lparr>mc_snum := snum, mc_top := snum - 1\<rparr>) st) })"

definition mdb_rebalance :: "nat \<Rightarrow> st \<Rightarrow> (int \<times> st) option" where
  "mdb_rebalance = rebalance_n (2 * CURSOR_STACK)"

section \<open>Deleting\<close>

text \<open>\<open>mdb_cursor_sibling(m, 1)\<close> when the cursor is past the end of its page.\<close>

definition del_settle :: "nat \<Rightarrow> st \<Rightarrow> (int \<times> st) option" where
  "del_settle m st = do {
     (rc, st) \<leftarrow> mdb_cursor_sibling m True st;
     Some (if rc = MDB_NOTFOUND then (MDB_SUCCESS, or_flags m C_EOF st) else (rc, st)) }"

fun del_fix_cursors :: "nat list \<Rightarrow> nat \<Rightarrow> MDB_cursor \<Rightarrow> page_ref \<Rightarrow> nat \<Rightarrow> nat \<Rightarrow> st \<Rightarrow> (int \<times> st) option" where
  "del_fix_cursors [] mc c p ki nkeys st = Some (0, st)"
| "del_fix_cursors (m # ms) mc c p ki nkeys st = do {
     m3 \<leftarrow> crs st m;
     if \<not> anyset (mc_flags m3) C_INITIALIZED \<or> m = mc \<or> mc_snum m3 < mc_snum c
     then del_fix_cursors ms mc c p ki nkeys st
     else do {
       q \<leftarrow> rd (mc_pg m3) (mc_top c);
       k \<leftarrow> rd (mc_ki m3) (mc_top c);
       rc_bind
         (if q = p then
            let st = (if k \<ge> ki then upd_cur m (\<lambda>m3. (if k > ki then set_ki (mc_top c) (k - 1) m3 else m3)
                                      \<lparr>mc_flags := mc_flags m3 OR C_DEL\<rparr>) st else st);
                k = (if k > ki then k - 1 else k)
            in if k \<ge> nkeys then del_settle m st else Some (0, st)
          else Some (0, st))
         (del_fix_cursors ms mc c p ki nkeys) } }"

definition mdb_cursor_del0 :: "nat \<Rightarrow> st \<Rightarrow> (int \<times> st) option" where
  "mdb_cursor_del0 mc st = do {
     c \<leftarrow> crs st mc;
     ki \<leftarrow> cur_ki c;
     db \<leftarrow> get_db st (mc_dbi c);
     st \<leftarrow> cursor_node_del mc (unat (md_pad db)) st;
     let st = upd_db (mc_dbi c) (\<lambda>d. d\<lparr>md_entries := md_entries d - 1\<rparr>) st;
     (rc, st) \<leftarrow> rc_bind (mdb_rebalance mc st) (\<lambda>st. do {
         c \<leftarrow> crs st mc;
         p \<leftarrow> cur_pg c;
         mp \<leftarrow> get_page st p;
         let nkeys = NUMKEYS mp;
         k \<leftarrow> cur_ki c;
         (rc, st) \<leftarrow> (if k \<ge> nkeys then del_settle mc st else Some (MDB_SUCCESS, st));
         ms \<leftarrow> tracked st (mc_dbi c);
         c' \<leftarrow> crs st mc;
         (rc, st) \<leftarrow> (if rc \<noteq> 0 then Some (rc, st) else del_fix_cursors ms mc c' p ki nkeys st);
         Some (rc, or_flags mc C_DEL st) });
     Some (rc, if rc \<noteq> 0 then set_txn_error st else st) }"

definition MDB_NOSPILL :: "32 word" where
  "MDB_NOSPILL = 0x8000"

definition mdb_cursor_del :: "nat \<Rightarrow> 32 word \<Rightarrow> st \<Rightarrow> (int \<times> st) option" where
  "mdb_cursor_del mc flags st = do {
     t \<leftarrow> get_txn st;
     c \<leftarrow> crs st mc;
     if anyset (mt_flags t) (MDB_TXN_RDONLY OR MDB_TXN_ERROR)
     then Some (if anyset (mt_flags t) MDB_TXN_RDONLY then EACCES else MDB_BAD_TXN, st)
     else if \<not> anyset (mc_flags c) C_INITIALIZED then Some (EINVAL, st)
     else do {
       mp \<leftarrow> top_page st mc;
       ki \<leftarrow> cur_ki c;
       if ki \<ge> NUMKEYS mp then Some (MDB_NOTFOUND, st)
       else
         rc_bind (if \<not> anyset flags MDB_NOSPILL then mdb_page_spill mc None st else Some (0, st)) (\<lambda>st.
         rc_bind (mdb_cursor_touch mc st) (\<lambda>st. do {
           mp \<leftarrow> top_page st mc;
           ki \<leftarrow> top_ki st mc;
           (rc, st) \<leftarrow>
             (if IS_LEAF2 mp then Some (0, st)
              else do {
                leaf \<leftarrow> NODEPTR mp ki;
                mdb_cassert (\<not> node_isset leaf F_DUPDATA);
                if node_isset leaf F_BIGDATA then do {
                  pg \<leftarrow> load64 (NODEDATA leaf);
                  (rc, (omp, level), st) \<leftarrow> mdb_page_get st pg;
                  if rc \<noteq> 0 then Some (rc, st) else mdb_ovpage_free mc omp st }
                else Some (0, st) });
           if rc \<noteq> 0 then Some (rc, set_txn_error st) else mdb_cursor_del0 mc st })) } }"

text \<open>Without duplicates the data argument of \<open>mdb_del\<close> is ignored.\<close>

definition mdb_del0 :: "nat \<Rightarrow> byte list \<Rightarrow> 32 word \<Rightarrow> st \<Rightarrow> (int \<times> st) option" where
  "mdb_del0 dbi key flags st = do {
     let (mc, st) = local_cursor (blank_cursor dbi) st;
     st \<leftarrow> mdb_cursor_init mc dbi st;
     (rc, _, _, st) \<leftarrow> mdb_cursor_set mc key False MDB_SET True st;
     (rc, st) \<leftarrow>
       (if rc = 0 then do {
          t \<leftarrow> get_txn st;
          ms \<leftarrow> rd (mt_cursors t) dbi;
          let st = or_flags mc C_UNTRACK (upd_txn (\<lambda>t. t\<lparr>mt_cursors := (mt_cursors t)[dbi := mc # ms]\<rparr>) st);
          (rc, st) \<leftarrow> mdb_cursor_del mc (flags OR MDB_NODUPDATA) st;
          Some (rc, upd_txn (\<lambda>t. t\<lparr>mt_cursors := (mt_cursors t)[dbi := ms]\<rparr>) st) }
        else Some (rc, st));
     Some (rc, drop_cursor mc st) }"

definition mdb_del :: "nat \<Rightarrow> byte list \<Rightarrow> st \<Rightarrow> (int \<times> st) option" where
  "mdb_del dbi key st = do {
     t \<leftarrow> get_txn st;
     if dbi = FREE_DBI \<or> \<not> TXN_DBI_EXIST t dbi then Some (EINVAL, st)
     else if anyset (mt_flags t) (MDB_TXN_RDONLY OR MDB_TXN_ERROR)
     then Some (if anyset (mt_flags t) MDB_TXN_RDONLY then EACCES else MDB_BAD_TXN, st)
     else mdb_del0 dbi key 0 st }"

section \<open>Storing\<close>

definition MDB_NO_ROOT :: int where
  "MDB_NO_ROOT = MDB_LAST_ERRCODE + 10"

text \<open>
  Position the cursor for a put: the code (\<open>0\<close> when the key is there), the data found there, and
  whether the put returns with it at once.
\<close>

definition put_position :: "nat \<Rightarrow> byte list \<Rightarrow> 32 word \<Rightarrow> st \<Rightarrow> (int \<times> byte list option \<times> bool \<times> st) option" where
  "put_position mc key flags st = do {
     c \<leftarrow> crs st mc;
     db \<leftarrow> get_db st (mc_dbi c);
     if flags = MDB_CURRENT then
       if \<not> anyset (mc_flags c) C_INITIALIZED then Some (EINVAL, None, True, st)
       else Some (MDB_SUCCESS, None, False, st)
     else if md_root db = P_INVALID then
       Some (MDB_NO_ROOT, None, False,
         upd_cur mc (\<lambda>c. c\<lparr>mc_snum := 0, mc_top := 0, mc_flags := mc_flags c AND NOT C_INITIALIZED\<rparr>) st)
     else do {
       (rc, d2, st) \<leftarrow>
         (if anyset flags MDB_APPEND then do {
            (rc, k2, d2, st) \<leftarrow> mdb_cursor_last mc True st;
            if rc \<noteq> 0 then Some (rc, d2, st)
            else do {
              k2 \<leftarrow> k2;
              cmp \<leftarrow> cursor_cmp st mc;
              r \<leftarrow> cmp_call cmp key k2;
              ki \<leftarrow> top_ki st mc;
              Some (if r > 0 then (MDB_NOTFOUND, d2, set_top_ki mc (ki + 1) st) else (MDB_KEYEXIST, d2, st)) } }
          else do { (rc, _, d2, st) \<leftarrow> mdb_cursor_set mc key True MDB_SET True st; Some (rc, d2, st) });
       if anyset flags MDB_NOOVERWRITE \<and> rc = 0 then Some (MDB_KEYEXIST, d2, True, st)
       else if rc \<noteq> 0 \<and> rc \<noteq> MDB_NOTFOUND then Some (rc, None, True, st)
       else Some (rc, None, False, st) } }"

text \<open>The first page of an empty database.\<close>

definition put_new_root :: "nat \<Rightarrow> st \<Rightarrow> (int \<times> st) option" where
  "put_new_root mc st = do {
     c \<leftarrow> crs st mc;
     (rc, np, st) \<leftarrow> mdb_page_new mc P_LEAF 1 st;
     if rc \<noteq> 0 then Some (rc, st)
     else do {
       (_, st) \<leftarrow> mdb_cursor_push mc np st;
       q \<leftarrow> get_page st np;
       let st = upd_db (mc_dbi c) (\<lambda>d. d\<lparr>md_root := mp_pgno q, md_depth := md_depth d + 1\<rparr>) st;
       fl \<leftarrow> get_dbflag st (mc_dbi c);
       let st = set_dbflag (mc_dbi c) (fl OR DB_DIRTY) st;
       db \<leftarrow> get_db st (mc_dbi c);
       mdb_cassert (ucast (md_flags db) AND (MDB_DUPSORT OR MDB_DUPFIXED) \<noteq> MDB_DUPFIXED);
       Some (0, or_flags mc C_INITIALIZED st) } }"

text \<open>Replace the node in the page.\<close>

definition put_node :: "page_ref \<Rightarrow> nat \<Rightarrow> MDB_node \<Rightarrow> st \<Rightarrow> st option" where
  "put_node p i nd st = do {
     mp \<leftarrow> get_page st p;
     put_page st p (mp\<lparr>mp_nodes := (mp_nodes mp)(mp_ptrs mp i + PAGEBASE \<mapsto> nd)\<rparr>) }"

text \<open>
  The new value goes to the overflow page of the old one, when that is large enough and can be
  written; otherwise its pages are freed.  The result says whether the put is finished.
\<close>

definition put_overflow :: "nat \<Rightarrow> MDB_node \<Rightarrow> MDB_val \<Rightarrow> 32 word \<Rightarrow> st \<Rightarrow> (int \<times> bool \<times> st) option" where
  "put_overflow mc leaf data flags st = do {
     c \<leftarrow> crs st mc;
     p \<leftarrow> cur_pg c;
     ki \<leftarrow> cur_ki c;
     let psize = me_psize (env st);
     let dpages = OVPAGES (mv_size data) psize;
     pg \<leftarrow> load64 (NODEDATA leaf);
     (rc, (omp, level), st) \<leftarrow> mdb_page_get st pg;
     if rc \<noteq> 0 then Some (rc, True, st)
     else do {
       om \<leftarrow> get_page st omp;
       let ovpages = mp_pages om;
       (rc, omp, level, st) \<leftarrow>
         (if ovpages \<ge> dpages \<and> \<not> anyset (mp_flags om) P_DIRTY \<and>
             (level \<noteq> 0 \<or> anyset (me_flags (env st)) MDB_WRITEMAP) then do {
            (rc, q, st) \<leftarrow> mdb_page_unspill omp st;
            Some (rc, if q = PNull then omp else q, 0, st) }
          else Some (0, omp, level, st));
       if rc \<noteq> 0 then Some (rc, True, st)
       else do {
         om \<leftarrow> get_page st omp;
         if ovpages \<ge> dpages \<and> anyset (mp_flags om) P_DIRTY then do {
           (rc, omp, st) \<leftarrow>
             (if level > 1 then
                (case mdb_page_malloc st ovpages of
                   (None, st) \<Rightarrow> Some (ENOMEM, omp, st)
                 | (Some np, st) \<Rightarrow> do {
                     t \<leftarrow> get_txn st;
                     (rc2, dl) \<leftarrow> mdb_mid2l_insert (mt_dirty_list t) \<lparr>mid = pg, mptr = np\<rparr>;
                     mdb_cassert (rc2 = 0);
                     n \<leftarrow> get_page st np;
                     let off = (if anyset flags MDB_RESERVE then 0
                                else (PAGEHDRSZ + mv_size data) div 8 * 8 - PAGEHDRSZ);
                     st \<leftarrow> put_page (set_dirty_list dl st) np
                             (om\<lparr>mp_data := take off (mp_data n) @ drop off (mp_data om)\<rparr>);
                     Some (0, np, st) })
              else Some (0, omp, st));
           if rc \<noteq> 0 then Some (rc, True, st)
           else do {
             st \<leftarrow> put_node p ki (SETDSZ leaf (mv_size data)) st;
             st \<leftarrow> (if F_ISSET flags MDB_RESERVE then Some st else overflow_store omp data st);
             Some (MDB_SUCCESS, True, st) } }
         else do {
           (rc, st) \<leftarrow> mdb_ovpage_free mc omp st;
           Some (rc, rc \<noteq> MDB_SUCCESS, st) } } } }"

text \<open>The cursor is on an item with the key: its value is overwritten in place, or the node deleted.\<close>

definition put_replace :: "nat \<Rightarrow> byte list \<Rightarrow> MDB_val \<Rightarrow> 32 word \<Rightarrow> st \<Rightarrow> (int \<times> bool \<times> st) option" where
  "put_replace mc key data flags st = do {
     c \<leftarrow> crs st mc;
     p \<leftarrow> cur_pg c;
     ki \<leftarrow> cur_ki c;
     mp \<leftarrow> get_page st p;
     mdb_cassert (\<not> IS_LEAF2 mp);
     leaf \<leftarrow> NODEPTR mp ki;
     (rc, fin, st) \<leftarrow>
       (if node_isset leaf F_BIGDATA then put_overflow mc leaf data flags st
        else if mv_size data = NODEDSZ leaf then
          if F_ISSET flags MDB_RESERVE then Some (MDB_SUCCESS, True, st)
          else do {
            mdb_cassert (\<not> anyset (mc_flags c) C_SUB \<and> mv_size data \<le> length (mv_data data));
            st \<leftarrow> put_node p ki (leaf\<lparr>mn_data := take (mn_ksize leaf) (mn_data leaf) @ take (mv_size data) (mv_data data)\<rparr>) st;
            Some (MDB_SUCCESS, True, st) }
        else Some (0, False, st));
     if fin then Some (rc, True, st)
     else do { st \<leftarrow> cursor_node_del mc 0 st; Some (0, False, st) } }"

text \<open>The label \<open>new_sub\<close>: add the node, or split the page.\<close>

definition put_add :: "nat \<Rightarrow> byte list \<Rightarrow> MDB_val \<Rightarrow> 32 word \<Rightarrow> bool \<Rightarrow> st \<Rightarrow> (int \<times> st) option" where
  "put_add mc key data flags insert_key st = do {
     c \<leftarrow> crs st mc;
     p \<leftarrow> cur_pg c;
     ki \<leftarrow> cur_ki c;
     mp \<leftarrow> get_page st p;
     let nflags = flags AND NODE_ADD_FLAGS;
     let nsize = (if IS_LEAF2 mp then length key else mdb_leaf_size (me_nodemax (env st)) key data);
     (rc, st) \<leftarrow>
       (if SIZELEFT mp < nsize then
          (let nflags = (if flags AND (F_DUPDATA OR F_SUBDATA) = F_DUPDATA then nflags AND NOT MDB_APPEND else nflags);
               nflags = (if \<not> insert_key then nflags OR MDB_SPLIT_REPLACE else nflags)
           in mdb_page_split mc key (Some data) P_INVALID nflags st)
        else do {
          (rc, st) \<leftarrow> mdb_node_add mc ki (Some key) (Some data) 0 nflags st;
          if rc = 0 \<and> insert_key then do {
            ms \<leftarrow> tracked st (mc_dbi c);
            st \<leftarrow> map_cursors ms (\<lambda>m m3. if m = mc \<or> mc_snum m3 < mc_snum c then Some m3
                    else do {
                      q \<leftarrow> rd (mc_pg m3) (mc_top c);
                      k \<leftarrow> rd (mc_ki m3) (mc_top c);
                      Some (if q = p \<and> k \<ge> ki then set_ki (mc_top c) (k + 1) m3 else m3) }) st;
            Some (rc, st) }
          else Some (rc, st) });
     if rc = MDB_SUCCESS then
       Some (rc, if insert_key
                 then or_flags mc C_INITIALIZED (upd_db (mc_dbi c) (\<lambda>d. d\<lparr>md_entries := md_entries d + 1\<rparr>) st)
                 else st)
     else Some (rc, set_txn_error st) }"

text \<open>The return code, and the existing data with \<open>MDB_NOOVERWRITE\<close>.\<close>

definition mdb_cursor_put :: "nat \<Rightarrow> byte list \<Rightarrow> MDB_val \<Rightarrow> 32 word \<Rightarrow> st \<Rightarrow> (int \<times> byte list option \<times> st) option" where
  "mdb_cursor_put mc key data flags st = do {
     t \<leftarrow> get_txn st;
     let ret = (\<lambda>rc. Some (rc, None, st));
     if anyset flags MDB_MULTIPLE then ret MDB_INCOMPATIBLE
     else do {
       let nospill = anyset flags MDB_NOSPILL;
       let flags = flags AND NOT MDB_NOSPILL;
       if anyset (mt_flags t) (MDB_TXN_RDONLY OR MDB_TXN_ERROR)
       then ret (if anyset (mt_flags t) MDB_TXN_RDONLY then EACCES else MDB_BAD_TXN)
       else if key = [] \<or> length key - 1 \<ge> MDB_MAXKEYSIZE then ret MDB_BAD_VALSIZE
       else if mv_size data > MAXDATASIZE then ret MDB_BAD_VALSIZE
       else do {
         (rc, d2, fin, st) \<leftarrow> put_position mc key flags st;
         if fin then Some (rc, d2, st)
         else do {
           let st = upd_cur mc (\<lambda>c. if anyset (mc_flags c) C_DEL then c\<lparr>mc_flags := mc_flags c XOR C_DEL\<rparr> else c) st;
           (rc2, st) \<leftarrow>
             rc_bind (if nospill then Some (0, st) else mdb_page_spill mc (Some (key, data)) st)
               (if rc = MDB_NO_ROOT then put_new_root mc else mdb_cursor_touch mc);
           if rc2 \<noteq> 0 then Some (rc2, None, st)
           else do {
             let insert_key = (rc \<noteq> 0);
             (rc2, fin, st) \<leftarrow> (if insert_key then Some (0, False, st) else put_replace mc key data flags st);
             if fin then Some (rc2, None, st)
             else do {
               (rc, st) \<leftarrow> put_add mc key data flags insert_key st;
               Some (rc, None, st) } } } } } }"

definition mdb_put :: "nat \<Rightarrow> byte list \<Rightarrow> byte list \<Rightarrow> 32 word \<Rightarrow> st \<Rightarrow> (int \<times> byte list option \<times> st) option" where
  "mdb_put dbi key data flags st = do {
     t \<leftarrow> get_txn st;
     if dbi = FREE_DBI \<or> \<not> TXN_DBI_EXIST t dbi then Some (EINVAL, None, st)
     else if flags AND (MDB_NOOVERWRITE OR MDB_NODUPDATA OR MDB_RESERVE OR MDB_APPEND OR MDB_APPENDDUP) \<noteq> flags
     then Some (EINVAL, None, st)
     else do {
       let (mc, st) = local_cursor (blank_cursor dbi) st;
       st \<leftarrow> mdb_cursor_init mc dbi st;
       (rc, d, st) \<leftarrow> mdb_cursor_put mc key (val_of data) flags st;
       Some (rc, d, drop_cursor mc st) } }"

end
