(* ===== verification/Lmdb_Write_Facts.thy ===== *)
theory Lmdb_Write_Facts
  imports Lmdb_Route_Facts Lmdb_Tree
begin

text \<open>
  Changing a page of the tree in place: which page a number stands for depends on the dirty and spill
  lists only, so a store into a dirty page changes that page and no other.
\<close>

section \<open>A node is replaced by one of the same size\<close>

definition set_node :: "MDB_page \<Rightarrow> nat \<Rightarrow> MDB_node \<Rightarrow> MDB_page" where
  "set_node mp i nd = mp\<lparr>mp_nodes := (mp_nodes mp)(mp_ptrs mp i + PAGEBASE \<mapsto> nd)\<rparr>"

lemma set_node_simps [simp]: "mp_flags (set_node mp i nd) = mp_flags mp" "mp_pgno (set_node mp i nd) = mp_pgno mp"
  "mp_lower (set_node mp i nd) = mp_lower mp" "mp_upper (set_node mp i nd) = mp_upper mp" "mp_ptrs (set_node mp i nd) = mp_ptrs mp"
  "NUMKEYS (set_node mp i nd) = NUMKEYS mp"
  by (simp_all add: set_node_def NUMKEYS_eq)

lemma set_node_ok:
  assumes ok: "page_ok psize mp" and i: "i < NUMKEYS mp" and nd: "node_ok mp nd"
    and sp: "node_space mp nd = node_space mp (page_items mp ! i)"
  shows "page_ok psize (set_node mp i nd)" "page_items (set_node mp i nd) = (page_items mp)[i := nd]"
proof -
  note okD = page_okD [OF ok]
  define its where "its = (page_items mp)[i := nd]"
  have fl: "node_space (set_node mp i nd) = node_space mp" "node_ok (set_node mp i nd) = node_ok mp" "\<not> IS_LEAF2 (set_node mp i nd)"
    using node_space_cong [of "set_node mp i nd" mp] node_ok_cong [of "set_node mp i nd" mp] IS_LEAF2_cong [of "set_node mp i nd" mp]
      okD(2) by simp_all
  have len: "length its = NUMKEYS mp" by (simp add: its_def)
  have sps: "node_space mp (its ! j) = node_space mp (page_items mp ! j)" if "j < NUMKEYS mp" for j
    using sp that by (cases "j = i") (simp_all add: its_def)
  have ptr: "mp_ptrs mp j \<noteq> mp_ptrs mp i" if "j < NUMKEYS mp" "j \<noteq> i" for j
    using okD(11) [OF that(1) i that(2)] node_space_pos [of mp "page_items mp ! j"] node_space_pos [of mp "page_items mp ! i"] by auto
  have np: "NODEPTR (set_node mp i nd) j = Some (its ! j)" if "j < NUMKEYS mp" for j
    using that ptr [OF that] okD(7) [OF that] by (cases "j = i") (simp_all add: NODEPTR_def set_node_def its_def PAGEBASE_def)
  have "page_ok psize (set_node mp i nd) \<and> page_items (set_node mp i nd) = its"
  proof (rule page_okI)
    show "psize \<le> 32768" "\<not> IS_LEAF2 (set_node mp i nd)" "even (mp_lower (set_node mp i nd))"
      "mp_lower (set_node mp i nd) = 16 + 2 * length its" "mp_lower (set_node mp i nd) \<le> mp_upper (set_node mp i nd)"
      "mp_upper (set_node mp i nd) \<le> psize"
      using okD(1,3,5,6) fl page_lower [OF ok] len by simp_all
    fix j assume j: "j < length its"
    show "NODEPTR (set_node mp i nd) j = Some (its ! j)" using np j len by simp
    show "node_ok (set_node mp i nd) (its ! j)"
      using j len nd okD(8) [of j] fl by (cases "j = i") (simp_all add: its_def)
    show "mp_upper (set_node mp i nd) \<le> mp_ptrs (set_node mp i nd) j" using okD(9) [of j] j len by simp
    show "mp_ptrs (set_node mp i nd) j + node_space (set_node mp i nd) (its ! j) \<le> psize"
      using okD(10) [of j] j len fl sps [of j] by simp
  next
    fix j k assume "j < length its" "k < length its" "j < k"
    then show "mp_ptrs (set_node mp i nd) j + node_space (set_node mp i nd) (its ! j) \<le> mp_ptrs (set_node mp i nd) k \<or>
       mp_ptrs (set_node mp i nd) k + node_space (set_node mp i nd) (its ! k) \<le> mp_ptrs (set_node mp i nd) j"
      using okD(11) [of j k] sps len fl by simp
  next
    have "map (node_space mp) its = map (node_space mp) (page_items mp)"
      by (rule nth_equalityI) (use sps len in simp_all)
    then show "sum_list (map (node_space (set_node mp i nd)) its) + mp_upper (set_node mp i nd) = psize"
      using okD(12) fl by simp
  qed
  then show "page_ok psize (set_node mp i nd)" "page_items (set_node mp i nd) = (page_items mp)[i := nd]" by (simp_all add: its_def)
qed

section \<open>Where the pages are\<close>

text \<open>The parts of the transactions in which \<open>mdb_page_get\<close> looks.\<close>

definition lookup_part :: "MDB_txn \<Rightarrow> 32 word \<times> pgno_t \<times> MDB_IDL option \<times> page_ref MDB_ID2 list" where
  "lookup_part t = (mt_flags t, mt_next_pgno t, mt_spill_pgs t, mt_dirty_list t)"

definition same_lookup :: "st \<Rightarrow> st \<Rightarrow> bool" where
  "same_lookup st st' \<longleftrightarrow> map lookup_part (txns st') = map lookup_part (txns st) \<and> me_flags (env st') = me_flags (env st)"

lemma same_lookup_refl [simp]: "same_lookup st st"
  by (simp add: same_lookup_def)

lemma same_lookup_trans: "same_lookup st st' \<Longrightarrow> same_lookup st' st'' \<Longrightarrow> same_lookup st st''"
  by (simp add: same_lookup_def)

lemma same_lookup_pages: "same_pages st st' \<Longrightarrow> same_lookup st st'"
  by (simp add: same_lookup_def same_pages_def)

lemma page_get_loop_cong: "map lookup_part ts' = map lookup_part ts \<Longrightarrow> page_get_loop ts' pg n = page_get_loop ts pg n"
proof (induction ts arbitrary: ts' n)
  case (Cons t ts)
  then obtain t' ts'' where t: "ts' = t' # ts''" "lookup_part t' = lookup_part t" "map lookup_part ts'' = map lookup_part ts" by auto
  then have e: "mt_spill_pgs t' = mt_spill_pgs t" "mt_dirty_list t' = mt_dirty_list t" by (simp_all add: lookup_part_def)
  have ih: "page_get_loop ts'' pg (n + 1) = page_get_loop ts pg (n + 1)" by (rule Cons.IH [OF t(3)])
  show ?case by (simp only: t(1) page_get_loop.simps e ih)
qed simp

lemma lookup_get:
  assumes "same_lookup st st'" "mdb_page_get st pg = Some (0, r, st)"
  shows "mdb_page_get st' pg = Some (0, r, st')"
proof -
  obtain t ts where ts: "txns st = t # ts" using assms(2) by (cases "txns st") (simp_all add: mdb_page_get_def get_txn_def)
  then obtain t' ts' where ts': "txns st' = t' # ts'" "lookup_part t' = lookup_part t"
    using assms(1) by (auto simp: same_lookup_def)
  have "page_get_loop (txns st') pg 1 = page_get_loop (txns st) pg 1"
    by (rule page_get_loop_cong) (use assms(1) in \<open>simp add: same_lookup_def\<close>)
  moreover have "mt_flags t' = mt_flags t" "mt_next_pgno t' = mt_next_pgno t" using ts'(2) by (simp_all add: lookup_part_def)
  moreover have "me_flags (env st') = me_flags (env st)" using assms(1) by (simp add: same_lookup_def)
  moreover have unf: "mdb_page_get s pg = (if anyset (mt_flags x) MDB_TXN_RDONLY \<or> anyset (me_flags (env s)) MDB_WRITEMAP
             then Some None else page_get_loop (txns s) pg 1) \<bind> (\<lambda>hit. case hit of Some r \<Rightarrow> Some (0, r, s) | None \<Rightarrow>
         if pg < mt_next_pgno x then Some (0, (PMap pg, 0), s) else Some (MDB_PAGE_NOTFOUND, (PNull, 0), set_txn_error s))"
    if "txns s = x # xs" for s x xs
    using that by (simp add: mdb_page_get_def get_txn_def MDB_SUCCESS_def)
  ultimately have "mdb_page_get st' pg = (if anyset (mt_flags t) MDB_TXN_RDONLY \<or> anyset (me_flags (env st)) MDB_WRITEMAP
             then Some None else page_get_loop (txns st) pg 1) \<bind> (\<lambda>hit. case hit of Some r \<Rightarrow> Some (0, r, st') | None \<Rightarrow>
         if pg < mt_next_pgno t then Some (0, (PMap pg, 0), st') else Some (MDB_PAGE_NOTFOUND, (PNull, 0), set_txn_error st'))"
    using unf [OF ts'(1)] by simp
  moreover note assms(2) [unfolded unf [OF ts]]
  ultimately show ?thesis
    by (cases "if anyset (mt_flags t) MDB_TXN_RDONLY \<or> anyset (me_flags (env st)) MDB_WRITEMAP
             then Some None else page_get_loop (txns st) pg 1") (auto simp: MDB_PAGE_NOTFOUND_def split: option.splits if_splits)
qed

lemma same_lookup_sym: "same_lookup st st' \<Longrightarrow> same_lookup st' st"
  by (simp add: same_lookup_def)

lemma lookup_get_iff: "same_lookup st st' \<Longrightarrow> mdb_page_get st' pg = Some (0, r, st') \<longleftrightarrow> mdb_page_get st pg = Some (0, r, st)"
  by (blast intro: lookup_get same_lookup_sym)

lemma page_of_ref: "page_of st pg = Some mp \<longleftrightarrow> (\<exists>p l. mdb_page_get st pg = Some (0, (p, l), st) \<and> get_page st p = Some mp)"
  using page_at_iff [of st pg mp] by (simp add: page_at_def)

lemma page_of_cong:
  assumes "same_lookup st st'" "\<And>p l. mdb_page_get st pg = Some (0, (p, l), st) \<Longrightarrow> get_page st' p = get_page st p"
  shows "page_of st' pg = page_of st pg"
proof -
  have "page_of st' pg = Some mp \<longleftrightarrow> page_of st pg = Some mp" for mp
    unfolding page_of_ref lookup_get_iff [OF assms(1)] using assms(2) by auto
  then show ?thesis by (metis not_Some_eq)
qed

text \<open>A page in memory carries the number under which it is found.\<close>

definition pages_named :: "st \<Rightarrow> bool" where
  "pages_named st \<longleftrightarrow> (\<forall>pg a l. mdb_page_get st pg = Some (0, (PMem a, l), st) \<longrightarrow> (\<exists>mp. heap st a = Some mp \<and> mp_pgno mp = pg))"

lemma page_of_store:
  assumes "same_lookup st st'" "pages_named st" "mdb_page_get st q = Some (0, (PMem a, l), st)"
    and "heap st' = (heap st)(a \<mapsto> mp)" "me_map (env st') = me_map (env st)"
  shows "page_of st' x = (if x = q then Some mp else page_of st x)"
proof (cases "x = q")
  case True
  then show ?thesis using lookup_get [OF assms(1,3)] assms(4) by (auto simp: page_of_ref get_page_def)
next
  case False
  have "page_of st' x = page_of st x"
  proof (rule page_of_cong [OF assms(1)])
    fix p l' assume p: "mdb_page_get st x = Some (0, (p, l'), st)"
    have "p \<noteq> PMem a"
    proof
      assume "p = PMem a"
      then show False using p assms(2,3) False unfolding pages_named_def by (metis option.inject)
    qed
    then show "get_page st' p = get_page st p" using assms(4,5) by (auto simp: get_page_def split: page_ref.split)
  qed
  then show ?thesis using False by simp
qed

lemma pages_named_store:
  assumes "same_lookup st st'" "pages_named st" "heap st' = (heap st)(a \<mapsto> mp')" "heap st a = Some mp" "mp_pgno mp' = mp_pgno mp"
  shows "pages_named st'"
  using assms(2-) unfolding pages_named_def lookup_get_iff [OF assms(1)] by (metis fun_upd_apply option.inject)

end
