(* ===== verification/Lmdb_Put_Facts.thy ===== *)
theory Lmdb_Put_Facts
  imports Lmdb_Write_Facts
begin

text \<open>
  Storing an item: \<open>mdb_cursor_set\<close> leaves the cursor at the place of the key in its leaf, and the
  stores of \<open>mdb_cursor_put\<close> into that leaf update the items of the database at the key.
\<close>

section \<open>The place of a key\<close>

text \<open>
  The cursor \<open>mc\<close> of \<open>st1\<close> is at index \<open>r\<close> of leaf \<open>q\<close>, which holds the items \<open>its0\<close>: the first item
  there whose key is not smaller.
\<close>

definition at_leaf :: "(byte list \<Rightarrow> byte list \<Rightarrow> bool) \<Rightarrow> st \<Rightarrow> byte list \<Rightarrow> nat \<Rightarrow> pgno_t \<Rightarrow> st \<Rightarrow> nat \<Rightarrow> nat \<Rightarrow>
    (pgno_t \<times> nat) list \<Rightarrow> (page_ref \<times> nat) list \<Rightarrow> pgno_t \<Rightarrow> page_ref \<Rightarrow> nat \<Rightarrow> MDB_page \<Rightarrow> (byte list \<times> byte list) list \<Rightarrow> bool" where
  "at_leaf lt st key d root st1 mc dbi rt path q p r mp its0 \<longleftrightarrow>
     route lt st key d root rt 0 q \<and> on_stack st rt path \<and> (\<exists>l. mdb_page_get st q = Some (0, (p, l), st)) \<and> get_page st p = Some mp \<and>
     (\<exists>psize. page_ok psize mp) \<and> IS_LEAF mp \<and> \<not> IS_BRANCH mp \<and> leaf_items st mp its0 \<and>
     cursor_path st1 mc dbi C_INITIALIZED (path @ [(p, r)]) \<and> r \<le> length its0 \<and> (\<forall>k < r. lt (fst (its0 ! k)) key) \<and>
     (\<forall>k. r \<le> k \<longrightarrow> k < length its0 \<longrightarrow> fst (its0 ! k) = key \<or> lt key (fst (its0 ! k)))"

lemma init_flags [simp]: "(C_INITIALIZED AND NOT C_EOF) = C_INITIALIZED" "((0 OR C_INITIALIZED) AND NOT C_EOF) = C_INITIALIZED"
  "((C_INITIALIZED OR C_INITIALIZED) AND NOT C_EOF) = C_INITIALIZED"
  by (simp_all add: C_INITIALIZED_def C_EOF_def)

context tree_order
begin

lemma less_not_same: "a \<in> K \<Longrightarrow> less a b \<Longrightarrow> a \<noteq> b"
  using irrefl by blast

lemma cursor_set_leaf:
  assumes key: "key \<in> K" "key \<noteq> []" and op: "db_open st dbi db cc" and root: "1 < md_root db" "md_root db \<noteq> P_INVALID"
    and d: "d < CURSOR_STACK" "subtree less st d (md_root db) its" "sorted_wrt less (map fst its)"
    and cur: "crs st mc = Some (blank_cursor dbi)"
  shows "\<exists>st1 rt path q p r mp its0. mdb_cursor_set mc key True MDB_SET True st =
       Some (case map_of its key of None \<Rightarrow> (MDB_NOTFOUND, None, None, st1) | Some v \<Rightarrow> (0, None, Some v, st1)) \<and> only mc st st1 \<and>
     at_leaf less st key d (md_root db) st1 mc dbi rt path q p r mp its0 \<and>
     (map_of its key \<noteq> None \<longleftrightarrow> r < length its0 \<and> fst (its0 ! r) = key)"
proof -
  obtain t fl dbx where o: "get_txn st = Some t" "\<not> anyset (mt_flags t) MDB_TXN_ERROR"
    "rd (mt_dbflags t) dbi = Some fl" "\<not> anyset fl DB_STALE" "rd (mt_dbs t) dbi = Some db"
    "rd (me_dbxs (env st)) dbi = Some dbx" "md_cmp dbx = Some cc"
    using op unfolding db_open_def by blast
  obtain p0 l0 mp0 where pg: "mdb_page_get st (md_root db) = Some (0, (p0, l0), st)" "get_page st p0 = Some mp0"
    using subtree_page [OF d(2)] by blast
  define st1 where "st1 = upd_cur mc (\<lambda>c. c\<lparr>mc_snum := 1, mc_top := 0\<rparr>) (upd_cur mc (set_pg 0 p0) st)"
  have p1: "cursor_path st1 mc dbi 0 ([] @ [(p0, 0)])"
    using cur by (simp add: cursor_path_def st1_def upd_cur_def set_pg_def blank_cursor_def CURSOR_STACK_def numeral_eq_Suc)
  have o1: "only mc st st1" unfolding st1_def by (rule only_trans [OF only_upd(1) only_upd(1)])
  have cc1: "cursor_cmp st1 mc = Some cc"
    using p1 o(6,7) same_pages_simps(5) [OF only_same [OF o1]] by (auto simp: cursor_path_def cursor_cmp_def get_dbx_def)
  have db: "get_db st dbi = Some db" using o(1,5) by (simp add: get_db_def)
  have dep: "length ([] :: (page_ref \<times> nat) list) + d < CURSOR_STACK" "d < CURSOR_STACK + 1" using d(1) by simp_all
  obtain st2 rt path q p l k where s: "search_root_loop no_touch (CURSOR_STACK + 1) mc (Some key) 0 st1 = Some (0, st2)" "only mc st1 st2"
     "route less st key d (md_root db) rt 0 q" "on_stack st rt path" "mdb_page_get st q = Some (0, (p, l), st)"
     "cursor_path st2 mc dbi C_INITIALIZED (path @ [(p, k)])"
    using descend_route [OF key(1) d(2) pg(1) only_same [OF o1] p1 cc1 db dep, of no_touch] by auto
  have o2: "only mc st st2" by (rule only_trans [OF o1 s(2)])
  have same2: "same_pages st st2" by (rule only_same [OF o2])
  obtain R bef its0 aft where lift: "its = bef @ its0 @ aft" "subtree less st 0 q its0" "\<forall>k \<in> fst ` set bef. less k key"
     "\<forall>k \<in> fst ` set aft. less key k"
    using route_lift [OF s(3) d(2) key(1)] by (elim exE conjE) (rule that; assumption)
  obtain mp psize where mp: "get_page st p = Some mp" "page_ok psize mp" "IS_LEAF mp" "\<not> IS_BRANCH mp" "leaf_items st mp its0"
    "NUMKEYS mp = length its0"
    using leaf_of_subtree [OF s(5) lift(2)] by blast
  have ps: "page_search no_touch mc (Some key) 0 st = Some (0, st2)"
  proof -
    have "page_search no_touch mc (Some key) 0 st = search_from_root no_touch mc (Some key) 0 st"
      using o cur not_error [OF o(2)]
      by (simp add: page_search_def search_levels_def numeral_eq_Suc rc_bind_def blank_cursor_def get_dbflag_def)
    also have "\<dots> = Some (0, st2)"
      using o(1,5) cur root pg(1) s(1)
      by (simp add: search_from_root_def get_db_def blank_cursor_def CURSOR_STACK_def rc_bind_def anyset_def st1_def mdb_page_search_root_def)
    finally show ?thesis .
  qed
  have mp2: "get_page st2 p = Some mp" using mp(1) same_pages_simps(1) [OF same2] by simp
  have at2: "cursor_at st2 mc dbi (length path) mp" by (rule cursor_at_path [OF s(6) mp2])
  have cc2: "cursor_cmp st2 mc = Some cc"
    using at2 o(6,7) same_pages_simps(5) [OF same2] by (auto simp: cursor_at_def cursor_cmp_def get_dbx_def)
  have db2: "get_db st2 dbi = Some db" using db same_pages_simps(3) [OF same2] by simp
  have li2: "leaf_items st2 mp its0" using mp(5) node_value_same [OF same2] by (simp add: leaf_items_def)
  have srt0: "sorted_wrt less (map fst its0)" using d(3) lift(1) by (simp add: sorted_wrt_append)
  obtain r st3 where r: "cursor_set_search mc key True MDB_SET True st2 =
      Some (case map_of its0 key of None \<Rightarrow> (MDB_NOTFOUND, None, None, st3) | Some v \<Rightarrow> (0, None, Some v, st3))" "only mc st2 st3"
     "st3 = (if map_of its0 key = None then set_top_ki mc r st2
            else clear_flags mc C_EOF (or_flags mc C_INITIALIZED (set_top_ki mc r st2)))"
     "r \<le> length its0" "\<forall>k < r. less (fst (its0 ! k)) key"
     "\<forall>k. r \<le> k \<longrightarrow> k < length its0 \<longrightarrow> fst (its0 ! k) = key \<or> less key (fst (its0 ! k))"
     "map_of its0 key \<noteq> None \<longleftrightarrow> r < length its0 \<and> fst (its0 ! r) = key"
  proof -
    note sl = search_leaf [OF cmp_cc not_cint at2 cc2 db2 mp(2,3) li2 srt0 key(1)]
    show thesis using sl pageK that by blast
  qed
  have "key \<notin> fst ` set bef" "key \<notin> fst ` set aft" using lift(3,4) irrefl [OF key(1)] by auto
  then have mo: "map_of its key = map_of its0 key"
    by (simp add: lift(1) map_add_def map_of_eq_None_iff [THEN iffD2] split: option.split)
  have small: "r < 65536" using r(4) mp(6) numkeys_small [OF mp(2)] by simp
  have p3: "cursor_path st3 mc dbi C_INITIALIZED (path @ [(p, r)])"
    using path_set_ki [OF s(6) small] path_flags(2) [OF path_flags(1) [OF path_set_ki [OF s(6) small]], of C_EOF C_INITIALIZED] r(3)
    by (simp split: if_splits)
  have "mdb_cursor_set mc key True MDB_SET True st =
      Some (case map_of its key of None \<Rightarrow> (MDB_NOTFOUND, None, None, st3) | Some v \<Rightarrow> (0, None, Some v, st3))"
    using key(2) cur ps top_page_at [OF at2] mp(3) r(1)
    by (simp add: mdb_cursor_set_def blank_cursor_def anyset_def MDB_SUCCESS_def mo)
  moreover have "at_leaf less st key d (md_root db) st3 mc dbi rt path q p r mp its0"
    unfolding at_leaf_def using s(3-5) mp r(4-6) p3 by blast
  ultimately show ?thesis using only_trans [OF o2 r(2)] r(7) mo by metis
qed

end

section \<open>The items of a leaf\<close>

text \<open>The update of a list of items at the place \<open>r\<close> of the key.\<close>

definition put_items :: "nat \<Rightarrow> byte list \<Rightarrow> byte list \<Rightarrow> (byte list \<times> byte list) list \<Rightarrow> (byte list \<times> byte list) list" where
  "put_items r key v its = (if r < length its \<and> fst (its ! r) = key then its[r := (key, v)] else insert_at r (key, v) its)"

lemma leaf_items_length: "leaf_items st mp its \<Longrightarrow> length its = NUMKEYS mp"
  by (metis leaf_items_def length_map length_page_items)

lemma leaf_items_list:
  "leaf_items st mp its \<longleftrightarrow> list_all2 (\<lambda>nd (k, v). NODEKEY nd = k \<and> node_value st nd v \<and> \<not> node_isset nd F_DUPDATA) (page_items mp) its"
proof
  assume l: "leaf_items st mp its"
  have k: "NODEKEY (page_items mp ! i) = fst (its ! i)" if "i < length its" for i
  proof -
    have "map fst its ! i = map NODEKEY (page_items mp) ! i" using l by (simp add: leaf_items_def)
    then show ?thesis using that leaf_items_length [OF l] by simp
  qed
  show "list_all2 (\<lambda>nd (k, v). NODEKEY nd = k \<and> node_value st nd v \<and> \<not> node_isset nd F_DUPDATA) (page_items mp) its"
    unfolding list_all2_conv_all_nth using leaf_items_length [OF l] k l by (auto simp: leaf_items_def split_beta)
next
  assume a: "list_all2 (\<lambda>nd (k, v). NODEKEY nd = k \<and> node_value st nd v \<and> \<not> node_isset nd F_DUPDATA) (page_items mp) its"
  then have "map fst its = map NODEKEY (page_items mp)"
    by (intro nth_equalityI) (auto simp: list_all2_conv_all_nth split_beta)
  then show "leaf_items st mp its" using a by (auto simp: leaf_items_def list_all2_conv_all_nth split_beta)
qed

lemma list_all2_insert_at: "list_all2 P xs ys \<Longrightarrow> P x y \<Longrightarrow> list_all2 P (insert_at i x xs) (insert_at i y ys)"
  by (simp add: insert_at_def list_all2_appendI list_all2_takeI list_all2_dropI)

text \<open>The node of the new item.\<close>

definition item_node :: "byte list \<Rightarrow> byte list \<Rightarrow> MDB_node" where
  "item_node key v = make_node True (Some key) (val_of v) 0 0 v"

lemma item_node_props:
  assumes "length key < 65536" "length v < 2 ^ 32"
  shows "mn_ksize (item_node key v) = length key" "mn_data (item_node key v) = key @ v" "mn_flags (item_node key v) = 0"
    "NODEDSZ (item_node key v) = length v" "NODEKEY (item_node key v) = key" "NODEDATA (item_node key v) = v"
    "\<not> node_isset (item_node key v) F_BIGDATA" "\<not> node_isset (item_node key v) F_DUPDATA"
    "node_value st (item_node key v) v"
    "IS_LEAF mp \<Longrightarrow> node_ok mp (item_node key v)" "IS_LEAF mp \<Longrightarrow> node_space mp (item_node key v) = EVEN (8 + length key + length v)"
proof -
  show *: "mn_ksize (item_node key v) = length key" "mn_data (item_node key v) = key @ v" "mn_flags (item_node key v) = 0"
    "NODEDSZ (item_node key v) = length v"
    using assms by (simp_all add: item_node_def make_node_def u16_id)
  then show "NODEKEY (item_node key v) = key" "NODEDATA (item_node key v) = v" by (simp_all add: NODEKEY_def NODEDATA_def)
  show "\<not> node_isset (item_node key v) F_BIGDATA" "\<not> node_isset (item_node key v) F_DUPDATA"
    using * by (simp_all add: node_isset_def F_ISSET_def F_BIGDATA_def F_DUPDATA_def)
  then show "node_value st (item_node key v) v" "IS_LEAF mp \<Longrightarrow> node_ok mp (item_node key v)"
    "IS_LEAF mp \<Longrightarrow> node_space mp (item_node key v) = EVEN (8 + length key + length v)"
    using * \<open>NODEDATA (item_node key v) = v\<close> by (simp_all add: node_value_of node_ok_def node_space_def NODESIZE_def)
qed

lemma leaf_size_space:
  assumes "8 + length key + length v \<le> nodemax"
  shows "mdb_leaf_size nodemax key (val_of v) = EVEN (8 + length key + length v) + 2"
  using assms by (simp add: mdb_leaf_size_def LEAFSIZE_def NODESIZE_def sizeof_indx_t_def Let_def EVEN_def)

section \<open>The stores into the leaf\<close>

text \<open>What the loops over the tracked cursors leave of them.\<close>

definition stack_full :: "MDB_cursor \<Rightarrow> bool" where
  "stack_full c \<longleftrightarrow> length (mc_pg c) = CURSOR_STACK \<and> length (mc_ki c) = CURSOR_STACK"

definition cursors_kept :: "(nat \<Rightarrow> MDB_cursor option) \<Rightarrow> (nat \<Rightarrow> MDB_cursor option) \<Rightarrow> bool" where
  "cursors_kept g g' \<longleftrightarrow> (\<forall>m. (g m = None \<longrightarrow> g' m = None) \<and> (\<forall>c. g m = Some c \<longrightarrow> stack_full c \<longrightarrow> (\<exists>c'. g' m = Some c' \<and> stack_full c')))"

lemma cursors_kept_refl [simp]: "cursors_kept g g"
  by (simp add: cursors_kept_def)

lemma cursors_kept_flags: "cursors_kept g (g(mc := map_option (\<lambda>c. c\<lparr>mc_flags := f c\<rparr>) (g mc)))"
  by (auto simp: cursors_kept_def stack_full_def)

lemma cursors_kept_trans: "cursors_kept g g' \<Longrightarrow> cursors_kept g' g'' \<Longrightarrow> cursors_kept g g''"
  unfolding cursors_kept_def by metis

text \<open>
  \<open>wrote st st' dbi f a mp\<close>: page \<open>a\<close> in memory is now \<open>mp\<close>, the record of the database changed by \<open>f\<close>,
  and cursors may have moved; everything else is as before.
\<close>

definition wrote :: "st \<Rightarrow> st \<Rightarrow> nat \<Rightarrow> (MDB_db \<Rightarrow> MDB_db) \<Rightarrow> nat \<Rightarrow> MDB_page \<Rightarrow> bool" where
  "wrote st st' dbi f a mp \<longleftrightarrow> st' = (upd_db dbi f st)\<lparr>heap := (heap st)(a \<mapsto> mp), crs := crs st'\<rparr> \<and> cursors_kept (crs st) (crs st')"

lemma upd_db_id [simp]: "upd_db dbi (\<lambda>d. d) st = st"
  by (cases "txns st") (simp_all add: upd_db_def upd_txn_def)

lemma upd_db_fields [simp]: "env (upd_db dbi f st) = env st" "heap (upd_db dbi f st) = heap st" "crs (upd_db dbi f st) = crs st"
  "ncrs (upd_db dbi f st) = ncrs st"
  by (simp_all add: upd_db_def upd_txn_def)

lemma upd_db_crs: "upd_db dbi f (st\<lparr>crs := g\<rparr>) = (upd_db dbi f st)\<lparr>crs := g\<rparr>"
  "upd_db dbi f (st\<lparr>heap := h\<rparr>) = (upd_db dbi f st)\<lparr>heap := h\<rparr>"
  by (simp_all add: upd_db_def upd_txn_def)

lemma upd_db_lookup: "same_lookup st (upd_db dbi f st)"
  by (cases "txns st") (simp_all add: same_lookup_def upd_db_def upd_txn_def lookup_part_def)

lemma wrote_lookup: "wrote st st' dbi f a mp \<Longrightarrow> same_lookup st st' \<and> env st' = env st \<and> heap st' = (heap st)(a \<mapsto> mp)"
proof -
  assume w: "wrote st st' dbi f a mp"
  have "txns st' = txns (upd_db dbi f st)" "env st' = env st" "heap st' = (heap st)(a \<mapsto> mp)"
    by (subst w [unfolded wrote_def, THEN conjunct1], simp)+
  then show ?thesis using upd_db_lookup [of st dbi f] by (simp add: same_lookup_def)
qed

lemma wrote_again: "wrote st st' dbi (\<lambda>d. d) a mp \<Longrightarrow> wrote st' st'' dbi f a mp' \<Longrightarrow> wrote st st'' dbi f a mp'"
proof -
  assume w: "wrote st st' dbi (\<lambda>d. d) a mp" and w': "wrote st' st'' dbi f a mp'"
  have e: "st' = st\<lparr>heap := (heap st)(a \<mapsto> mp), crs := crs st'\<rparr>" using w by (simp add: wrote_def)
  have h: "heap st' = (heap st)(a \<mapsto> mp)" using wrote_lookup [OF w] by simp
  have "upd_db dbi f st' = (upd_db dbi f st)\<lparr>heap := (heap st)(a \<mapsto> mp), crs := crs st'\<rparr>"
    by (subst e) (simp add: upd_db_crs)
  then have "st'' = (upd_db dbi f st)\<lparr>heap := (heap st)(a \<mapsto> mp), crs := crs st'\<rparr>\<lparr>heap := (heap st')(a \<mapsto> mp'), crs := crs st''\<rparr>"
    using w' unfolding wrote_def by simp
  moreover have "cursors_kept (crs st) (crs st'')" using w w' cursors_kept_trans unfolding wrote_def by blast
  ultimately show ?thesis by (simp add: wrote_def h)
qed

text \<open>The cursors that \<open>mdb_cursor_put\<close> adjusts are there and have full stacks.\<close>

definition cursors_ok :: "st \<Rightarrow> nat \<Rightarrow> bool" where
  "cursors_ok st dbi \<longleftrightarrow> (\<exists>ms. tracked st dbi = Some ms \<and> (\<forall>m \<in> set ms. \<exists>c. crs st m = Some c \<and> stack_full c))"

lemma map_cursors_keeps:
  assumes "\<forall>m \<in> set ms. \<exists>c. crs st m = Some c \<and> P c" "\<And>m c. P c \<Longrightarrow> \<exists>c'. f m c = Some c' \<and> P c'"
  shows "\<exists>g. map_cursors ms f st = Some (st\<lparr>crs := g\<rparr>) \<and> (\<forall>m. m \<notin> set ms \<longrightarrow> g m = crs st m) \<and> (\<forall>m \<in> set ms. \<exists>c. g m = Some c \<and> P c)"
  using assms(1)
proof (induction ms arbitrary: st)
  case Nil
  then show ?case by (intro exI [of _ "crs st"]) simp
next
  case (Cons m ms)
  obtain c c' where c: "crs st m = Some c" "f m c = Some c'" "P c'" using Cons.prems assms(2) by (auto, blast)
  define st1 where "st1 = st\<lparr>crs := (crs st)(m \<mapsto> c')\<rparr>"
  have "\<forall>x \<in> set ms. \<exists>c. crs st1 x = Some c \<and> P c" using Cons.prems c(3) by (simp add: st1_def)
  then obtain g where g: "map_cursors ms f st1 = Some (st1\<lparr>crs := g\<rparr>)" "\<forall>x. x \<notin> set ms \<longrightarrow> g x = crs st1 x"
    "\<forall>x \<in> set ms. \<exists>c. g x = Some c \<and> P c"
    using Cons.IH by blast
  have "map_cursors (m # ms) f st = Some (st\<lparr>crs := g\<rparr>)" using c(1,2) g(1) by (simp add: st1_def)
  moreover have "\<exists>c. g m = Some c \<and> P c" using g(2,3) c(3) by (cases "m \<in> set ms") (simp_all add: st1_def)
  ultimately show ?case using g(2,3) by (intro exI [of _ g]) (simp add: st1_def)
qed

lemma node_add_run:
  assumes cur: "crs st mc = Some c" "cur_pg c = Some (PMem a)" and mp: "heap st a = Some mp" "page_ok psize mp" "IS_LEAF mp" "r \<le> NUMKEYS mp"
    and sz: "length key < 65536" "8 + length key + length v \<le> me_nodemax (env st)" "EVEN (8 + length key + length v) + 2 \<le> SIZELEFT mp"
  shows "\<exists>mp'. mdb_node_add mc r (Some key) (Some (val_of v)) 0 0 st = Some (MDB_SUCCESS, st\<lparr>heap := (heap st)(a \<mapsto> mp')\<rparr>) \<and> page_ok psize mp' \<and>
     page_items mp' = insert_at r (item_node key v) (page_items mp) \<and> mp_flags mp' = mp_flags mp \<and> mp_pgno mp' = mp_pgno mp"
proof -
  have gp: "get_page st (PMem a) = Some mp" using mp(1) by (simp add: get_page_def)
  have "SIZELEFT mp < 65536" using page_SIZELEFT [OF mp(2)] page_okD(1,6) [OF mp(2)] by simp
  then have v: "length v < 2 ^ 32" using sz(3) EVEN_ge [of "8 + length key + length v"] by simp
  note nd = item_node_props [OF sz(1) v]
  have sp: "node_space mp (item_node key v) = EVEN (8 + length key + length v)" by (rule nd(11) [OF mp(3)])
  have room: "int (node_space mp (item_node key v)) \<le> node_room mp"
    using sz(3) unfolding sp node_room_def sizeof_indx_t_def by linarith
  obtain mp' where mp': "node_insert mp r (node_space mp (item_node key v)) (item_node key v) = Some mp'" "page_ok psize mp'"
     "page_items mp' = insert_at r (item_node key v) (page_items mp)" "mp_flags mp' = mp_flags mp" "mp_pgno mp' = mp_pgno mp"
    using node_insert_ok [OF mp(2,4) nd(10) [OF mp(3)] room] by blast
  have pay: "node_payload True (Some (val_of v)) 0 None = Some v"
    by (simp add: node_payload_def F_ISSET_def F_BIGDATA_def MDB_RESERVE_def)
  have "node_store (PMem a) r (EVEN (8 + length key + length v)) (Some key) (Some (val_of v)) 0 0 None st
      = Some (st\<lparr>heap := (heap st)(a \<mapsto> mp')\<rparr>)"
    using gp mp(1,3) pay mp'(1) by (simp add: node_store_def put_page_def item_node_def [symmetric] sp)
  then have "mdb_node_add mc r (Some key) (Some (val_of v)) 0 0 st = Some (MDB_SUCCESS, st\<lparr>heap := (heap st)(a \<mapsto> mp')\<rparr>)"
    using cur gp mp(3) page_okD(2,5) [OF mp(2)] sz(2) room
    by (simp add: mdb_node_add_def sp NODESIZE_def Let_def F_ISSET_def F_BIGDATA_def)
  then show ?thesis using mp'(2-) by blast
qed

lemma put_add_run:
  assumes cur: "crs st mc = Some c" "cur_pg c = Some (PMem a)" "cur_ki c = Some r" "mc_dbi c = dbi" "mc_top c < CURSOR_STACK"
    and mp: "heap st a = Some mp" "page_ok psize mp" "IS_LEAF mp" "r \<le> NUMKEYS mp"
    and sz: "length key < 65536" "8 + length key + length v \<le> me_nodemax (env st)" "EVEN (8 + length key + length v) + 2 \<le> SIZELEFT mp"
    and ms: "cursors_ok st dbi"
  shows "\<exists>st' mp'. put_add mc key (val_of v) 0 ik st = Some (MDB_SUCCESS, st') \<and>
     wrote st st' dbi (if ik then (\<lambda>d. d\<lparr>md_entries := md_entries d + 1\<rparr>) else (\<lambda>d. d)) a mp' \<and> page_ok psize mp' \<and>
     page_items mp' = insert_at r (item_node key v) (page_items mp) \<and> mp_flags mp' = mp_flags mp \<and> mp_pgno mp' = mp_pgno mp"
proof -
  have gp: "get_page st (PMem a) = Some mp" using mp(1) by (simp add: get_page_def)
  obtain mp' where mp': "mdb_node_add mc r (Some key) (Some (val_of v)) 0 0 st = Some (MDB_SUCCESS, st\<lparr>heap := (heap st)(a \<mapsto> mp')\<rparr>)"
    "page_ok psize mp'" "page_items mp' = insert_at r (item_node key v) (page_items mp)" "mp_flags mp' = mp_flags mp" "mp_pgno mp' = mp_pgno mp"
    using node_add_run [OF cur(1,2) mp sz] by blast
  define st1 where "st1 = st\<lparr>heap := (heap st)(a \<mapsto> mp')\<rparr>"
  obtain ms where ms: "tracked st dbi = Some ms" "\<forall>m \<in> set ms. \<exists>c. crs st m = Some c \<and> stack_full c"
    using ms by (auto simp: cursors_ok_def)
  have ms1: "tracked st1 dbi = Some ms" "\<forall>m \<in> set ms. \<exists>c. crs st1 m = Some c \<and> stack_full c"
    using ms by (simp_all add: st1_def tracked_def get_txn_def)
  define f where "f = (\<lambda>m m3. if m = mc \<or> mc_snum m3 < mc_snum c then Some m3
                    else do {
                      q \<leftarrow> rd (mc_pg m3) (mc_top c);
                      k \<leftarrow> rd (mc_ki m3) (mc_top c);
                      Some (if q = PMem a \<and> k \<ge> r then set_ki (mc_top c) (k + 1) m3 else m3) })"
  have "\<exists>c'. f m m3 = Some c' \<and> stack_full c'" if "stack_full m3" for m m3
    using that cur(5) by (simp add: f_def rd_in stack_full_def set_ki_def)
  then obtain g where g: "map_cursors ms f st1 = Some (st1\<lparr>crs := g\<rparr>)" "\<forall>m. m \<notin> set ms \<longrightarrow> g m = crs st1 m"
    "\<forall>m \<in> set ms. \<exists>c. g m = Some c \<and> stack_full c"
    using map_cursors_keeps [OF ms1(2), of f] by blast
  have kept: "cursors_kept (crs st) g"
    unfolding cursors_kept_def
  proof
    fix m
    show "(crs st m = None \<longrightarrow> g m = None) \<and> (\<forall>c. crs st m = Some c \<longrightarrow> stack_full c \<longrightarrow> (\<exists>c'. g m = Some c' \<and> stack_full c'))"
      using g(2,3) ms(2) by (cases "m \<in> set ms") (auto simp: st1_def)
  qed
  define st2 where "st2 = (if ik then or_flags mc C_INITIALIZED (upd_db dbi (\<lambda>d. d\<lparr>md_entries := md_entries d + 1\<rparr>) (st1\<lparr>crs := g\<rparr>)) else st1)"
  have fits: "\<not> SIZELEFT mp < mdb_leaf_size (me_nodemax (env st)) key (val_of v)" using sz(3) leaf_size_space [OF sz(2)] by simp
  have "put_add mc key (val_of v) 0 ik st = Some (MDB_SUCCESS, st2)"
    using cur gp mp'(1) fits page_okD(2) [OF mp(2)] ms1(1) g(1)
    by (simp add: put_add_def Let_def st1_def [symmetric] f_def [symmetric] st2_def MDB_SUCCESS_def)
  moreover have "wrote st st2 dbi (if ik then (\<lambda>d. d\<lparr>md_entries := md_entries d + 1\<rparr>) else (\<lambda>d. d)) a mp'"
    using kept cursors_kept_flags [of g mc] cursors_kept_trans
    by (auto simp: wrote_def st2_def st1_def or_flags_def upd_cur_def upd_db_crs)
  ultimately show ?thesis using mp'(2-) by blast
qed

text \<open>The new item fits into the leaf, in place of an old one with the key.\<close>

definition leaf_fits :: "nat \<Rightarrow> MDB_page \<Rightarrow> nat \<Rightarrow> bool \<Rightarrow> byte list \<Rightarrow> byte list \<Rightarrow> bool" where
  "leaf_fits nodemax mp r found key v \<longleftrightarrow> 8 + length key + length v \<le> nodemax \<and>
     (found \<longrightarrow> \<not> node_isset (page_items mp ! r) F_BIGDATA) \<and>
     EVEN (8 + length key + length v) + 2 \<le> SIZELEFT mp + (if found then node_space mp (page_items mp ! r) + 2 else 0)"

lemma filter_insert_at: "\<not> P x \<Longrightarrow> filter P (insert_at i x xs) = filter P xs"
  unfolding insert_at_def by (metis append_take_drop_id filter.simps(2) filter_append)

lemma filter_list_update: "i < length xs \<Longrightarrow> \<not> P x \<Longrightarrow> \<not> P (xs ! i) \<Longrightarrow> filter P (xs[i := x]) = filter P xs"
proof -
  assume i: "i < length xs" and x: "\<not> P x" "\<not> P (xs ! i)"
  have "filter P (xs[i := x]) = filter P (take i xs) @ filter P (drop (Suc i) xs)" using i x by (simp add: upd_conv_take_nth_drop)
  also have "\<dots> = filter P (take i xs @ xs ! i # drop (Suc i) xs)" using x by simp
  finally show ?thesis using i by (simp add: id_take_nth_drop [symmetric])
qed

lemma update_insert_remove: "i < length xs \<Longrightarrow> insert_at i x (remove_at i xs) = xs[i := x]"
  by (rule nth_equalityI) (auto simp: nth_insert_at nth_remove_at nth_list_update)

lemma put_node_run:
  assumes "heap st a = Some mp" "i < NUMKEYS mp"
  shows "put_node (PMem a) i nd st = Some (st\<lparr>heap := (heap st)(a \<mapsto> set_node mp i nd)\<rparr>)"
  using assms by (simp add: put_node_def get_page_def put_page_def set_node_def)

lemma node_set_data:
  assumes "page_ok psize mp" "IS_LEAF mp" "i < NUMKEYS mp" "\<not> node_isset (page_items mp ! i) F_BIGDATA"
    and "length v = NODEDSZ (page_items mp ! i)"
    and nd: "nd = (page_items mp ! i)\<lparr>mn_data := take (mn_ksize (page_items mp ! i)) (mn_data (page_items mp ! i)) @ v\<rparr>"
  shows "node_ok mp nd" "node_space mp nd = node_space mp (page_items mp ! i)" "NODEKEY nd = NODEKEY (page_items mp ! i)" "node_value st nd v"
    "mn_flags nd = mn_flags (page_items mp ! i)"
proof -
  have ok: "length (mn_data (page_items mp ! i)) = mn_ksize (page_items mp ! i) + NODEDSZ (page_items mp ! i)"
    using page_okD(8) [OF assms(1,3)] assms(2,4) by (simp add: node_ok_def)
  have f: "NODEDSZ nd = NODEDSZ (page_items mp ! i)" "node_isset nd F_BIGDATA = node_isset (page_items mp ! i) F_BIGDATA"
    "mn_ksize nd = mn_ksize (page_items mp ! i)"
    by (simp_all add: nd NODEDSZ_def node_isset_def)
  show "node_ok mp nd" "node_space mp nd = node_space mp (page_items mp ! i)"
    using f ok assms(2,4,5) by (simp_all add: node_ok_def node_space_def nd)
  show "NODEKEY nd = NODEKEY (page_items mp ! i)" using ok by (simp add: nd NODEKEY_def)
  have "NODEDATA nd = v" using ok by (simp add: nd NODEDATA_def)
  then show "node_value st nd v" using f assms(4,5) by (simp add: node_value_of)
  show "mn_flags nd = mn_flags (page_items mp ! i)" by (simp add: nd)
qed

lemma leaf_items_update:
  assumes "leaf_items st mp its" "page_items mp' = (page_items mp)[r := nd]" "NODEKEY nd = key" "node_value st nd v" "\<not> node_isset nd F_DUPDATA"
  shows "leaf_items st mp' (its[r := (key, v)])"
  using assms unfolding leaf_items_list by (simp add: list_all2_update_cong)

lemma leaf_items_insert:
  assumes "leaf_items st mp its" "page_items mp' = insert_at r nd (page_items mp)" "NODEKEY nd = key" "node_value st nd v" "\<not> node_isset nd F_DUPDATA"
  shows "leaf_items st mp' (insert_at r (key, v) its)"
  using assms unfolding leaf_items_list by (simp add: list_all2_insert_at)

text \<open>The part of \<open>mdb_cursor_put\<close> that changes the leaf.\<close>

definition put_tail :: "nat \<Rightarrow> byte list \<Rightarrow> byte list \<Rightarrow> bool \<Rightarrow> st \<Rightarrow> (int \<times> byte list option \<times> st) option" where
  "put_tail mc key v insert_key st = do {
     (rc2, fin, st) \<leftarrow> (if insert_key then Some (0, False, st) else put_replace mc key (val_of v) 0 st);
     if fin then Some (rc2, None, st)
     else do {
       (rc, st) \<leftarrow> put_add mc key (val_of v) 0 insert_key st;
       Some (rc, None, st) } }"

lemma put_insert_run:
  assumes cur: "crs st mc = Some c" "cur_pg c = Some (PMem a)" "cur_ki c = Some r" "mc_dbi c = dbi" "mc_top c < CURSOR_STACK"
    and mp: "heap st a = Some mp" "page_ok psize mp" "IS_LEAF mp" "leaf_items st mp its" "r \<le> length its"
    and fit: "length key < 65536" "leaf_fits (me_nodemax (env st)) mp r False key v" and ms: "cursors_ok st dbi"
    and new: "\<not> (r < length its \<and> fst (its ! r) = key)"
  shows "\<exists>st' mp'. put_tail mc key v True st = Some (MDB_SUCCESS, None, st') \<and>
     wrote st st' dbi (\<lambda>d. d\<lparr>md_entries := md_entries d + 1\<rparr>) a mp' \<and> page_ok psize mp' \<and>
     leaf_items st mp' (put_items r key v its) \<and> leaf_overflows mp' = leaf_overflows mp \<and> mp_flags mp' = mp_flags mp \<and> mp_pgno mp' = mp_pgno mp"
proof -
  have len: "length its = NUMKEYS mp" by (rule leaf_items_length [OF mp(4)])
  have sz: "8 + length key + length v \<le> me_nodemax (env st)" "EVEN (8 + length key + length v) + 2 \<le> SIZELEFT mp"
    using fit(2) by (simp_all add: leaf_fits_def)
  have "SIZELEFT mp < 65536" using page_SIZELEFT [OF mp(2)] page_okD(1,6) [OF mp(2)] by simp
  then have v: "length v < 2 ^ 32" using sz(2) EVEN_ge [of "8 + length key + length v"] by simp
  note nd = item_node_props [OF fit(1) v]
  have r: "r \<le> NUMKEYS mp" using mp(5) len by simp
  obtain st' mp' where s: "put_add mc key (val_of v) 0 True st = Some (MDB_SUCCESS, st')"
    "wrote st st' dbi (\<lambda>d. d\<lparr>md_entries := md_entries d + 1\<rparr>) a mp'" "page_ok psize mp'"
    "page_items mp' = insert_at r (item_node key v) (page_items mp)" "mp_flags mp' = mp_flags mp" "mp_pgno mp' = mp_pgno mp"
    using put_add_run [OF cur mp(1-3) r fit(1) sz ms, of True] by auto
  have "leaf_items st mp' (put_items r key v its)"
    using leaf_items_insert [OF mp(4) s(4) nd(5,9,8)] new by (auto simp: put_items_def)
  moreover have "leaf_overflows mp' = leaf_overflows mp"
    using nd(7) by (simp add: leaf_overflows_def s(4) filter_insert_at)
  moreover have "put_tail mc key v True st = Some (MDB_SUCCESS, None, st')" using s(1) by (simp add: put_tail_def)
  ultimately show ?thesis using s by blast
qed

lemma put_replace_run:
  assumes cur: "crs st mc = Some c" "cur_pg c = Some (PMem a)" "cur_ki c = Some r" "mc_dbi c = dbi" "mc_top c < CURSOR_STACK"
    and fl: "\<not> anyset (mc_flags c) C_SUB"
    and mp: "heap st a = Some mp" "page_ok psize mp" "IS_LEAF mp" "leaf_items st mp its"
    and fit: "length key < 65536" "leaf_fits (me_nodemax (env st)) mp r True key v" and ms: "cursors_ok st dbi"
    and old: "r < length its" "fst (its ! r) = key"
  shows "\<exists>st' mp'. put_tail mc key v False st = Some (MDB_SUCCESS, None, st') \<and>
     wrote st st' dbi (\<lambda>d. d) a mp' \<and> page_ok psize mp' \<and>
     leaf_items st mp' (put_items r key v its) \<and> leaf_overflows mp' = leaf_overflows mp \<and> mp_flags mp' = mp_flags mp \<and> mp_pgno mp' = mp_pgno mp"
proof -
  define leaf where "leaf = page_items mp ! r"
  have r: "r < NUMKEYS mp" using old(1) leaf_items_length [OF mp(4)] by simp
  have gp: "get_page st (PMem a) = Some mp" using mp(1) by (simp add: get_page_def)
  have np: "NODEPTR mp r = Some leaf" using page_okD(7) [OF mp(2) r] by (simp add: leaf_def)
  have l: "NODEKEY leaf = key" "\<not> node_isset leaf F_DUPDATA"
    using mp(4) r old unfolding leaf_items_list list_all2_conv_all_nth by (auto simp: leaf_def split_beta)
  have nb: "\<not> node_isset leaf F_BIGDATA" using fit(2) by (simp add: leaf_fits_def leaf_def)
  have pit: "put_items r key v its = its[r := (key, v)]" using old by (simp add: put_items_def)
  have upd: "leaf_overflows mp' = leaf_overflows mp \<and> leaf_items st mp' (put_items r key v its)"
    if "page_items mp' = (page_items mp)[r := nd]" "NODEKEY nd = key" "node_value st nd v" "\<not> node_isset nd F_DUPDATA"
      "\<not> node_isset nd F_BIGDATA" for mp' nd
    using leaf_items_update [OF mp(4) that(1-4)] that(1,5) nb r by (simp add: pit leaf_overflows_def filter_list_update leaf_def)
  show ?thesis
  proof (cases "length v = NODEDSZ leaf")
    case True
    define nd where "nd = leaf\<lparr>mn_data := take (mn_ksize leaf) (mn_data leaf) @ v\<rparr>"
    note nd = node_set_data [OF mp(2,3) r nb [unfolded leaf_def] True [unfolded leaf_def] nd_def [unfolded leaf_def]]
    note s = set_node_ok [OF mp(2) r nd(1,2)]
    have "put_replace mc key (val_of v) 0 st = Some (MDB_SUCCESS, True, st\<lparr>heap := (heap st)(a \<mapsto> set_node mp r nd)\<rparr>)"
      using cur(1-3) gp page_okD(2) [OF mp(2)] np nb True fl put_node_run [OF mp(1) r]
      by (simp add: put_replace_def F_ISSET_def MDB_RESERVE_def nd_def)
    then have "put_tail mc key v False st = Some (MDB_SUCCESS, None, st\<lparr>heap := (heap st)(a \<mapsto> set_node mp r nd)\<rparr>)"
      by (simp add: put_tail_def)
    moreover have "NODEKEY nd = key" "\<not> node_isset nd F_DUPDATA" "\<not> node_isset nd F_BIGDATA"
      using nd(3,5) l nb by (simp_all add: leaf_def node_isset_def)
    moreover have "wrote st (st\<lparr>heap := (heap st)(a \<mapsto> set_node mp r nd)\<rparr>) dbi (\<lambda>d. d) a (set_node mp r nd)" by (simp add: wrote_def)
    ultimately show ?thesis using upd [OF s(2) _ nd(4)] s(1) set_node_simps(1,2) by blast
  next
    case False
    obtain mp1 where d: "mdb_node_del mp r 0 = Some mp1" "page_ok psize mp1" "page_items mp1 = remove_at r (page_items mp)"
      "mp_flags mp1 = mp_flags mp" "mp_pgno mp1 = mp_pgno mp" "mp_upper mp1 = mp_upper mp + node_space mp leaf"
      using node_del_ok [OF mp(2) r, of 0] by (auto simp: leaf_def)
    define st1 where "st1 = st\<lparr>heap := (heap st)(a \<mapsto> mp1)\<rparr>"
    have n1: "NUMKEYS mp1 = NUMKEYS mp - 1" using d(3) r by (metis length_page_items length_remove_at)
    have "mp_lower mp1 = mp_lower mp - 2" using page_lower [OF d(2)] page_lower [OF mp(2)] n1 r by simp
    then have left: "SIZELEFT mp1 = SIZELEFT mp + node_space mp leaf + 2"
      using page_SIZELEFT [OF d(2)] page_SIZELEFT [OF mp(2)] d(6) page_lower [OF mp(2)] page_okD(5) [OF mp(2)] r by simp
    have rep: "put_replace mc key (val_of v) 0 st = Some (0, False, st1)"
      using cur(1-3) gp page_okD(2) [OF mp(2)] np nb False d(1) mp(1)
      by (simp add: put_replace_def cursor_node_del_def put_page_def st1_def)
    have sz: "8 + length key + length v \<le> me_nodemax (env st1)" "EVEN (8 + length key + length v) + 2 \<le> SIZELEFT mp1"
      using fit(2) left by (simp_all add: leaf_fits_def st1_def leaf_def)
    have "SIZELEFT mp1 < 65536" using page_SIZELEFT [OF d(2)] page_okD(1,6) [OF d(2)] by simp
    then have v: "length v < 2 ^ 32" using sz(2) EVEN_ge [of "8 + length key + length v"] by simp
    note nd = item_node_props [OF fit(1) v]
    have cur1: "crs st1 mc = Some c" "heap st1 a = Some mp1" "IS_LEAF mp1" "r \<le> NUMKEYS mp1" "cursors_ok st1 dbi"
      using cur(1) mp(3) IS_LEAF_cong [OF d(4)] n1 r ms by (simp_all add: st1_def cursors_ok_def tracked_def get_txn_def)
    obtain st' mp' where s: "put_add mc key (val_of v) 0 False st1 = Some (MDB_SUCCESS, st')"
      "wrote st1 st' dbi (\<lambda>d. d) a mp'" "page_ok psize mp'"
      "page_items mp' = insert_at r (item_node key v) (page_items mp1)" "mp_flags mp' = mp_flags mp1" "mp_pgno mp' = mp_pgno mp1"
      using put_add_run [OF cur1(1) cur(2-5) cur1(2) d(2) cur1(3,4) fit(1) sz cur1(5), of False] by auto
    have its': "page_items mp' = (page_items mp)[r := item_node key v]" using s(4) d(3) r by (simp add: update_insert_remove)
    have "put_tail mc key v False st = Some (MDB_SUCCESS, None, st')" using rep s(1) by (simp add: put_tail_def)
    moreover have "wrote st st1 dbi (\<lambda>d. d) a mp1" by (simp add: wrote_def st1_def)
    ultimately show ?thesis using upd [OF its' nd(5,9,8,7)] wrote_again [OF _ s(2)] s(3,5,6) d(4,5) by metis
  qed
qed

end
