(* ===== verification/Lmdb_Cow_Facts.thy ===== *)
theory Lmdb_Cow_Facts
  imports Lmdb_Put_Facts
begin

text \<open>
  Copy on write, seen from the tree: one page on the way to a key gets a new number, its parent (or
  the record of the database) the reference to it, and the tree holds the same items as before.
\<close>

section \<open>The page numbers on the way to a key\<close>

definition chain :: "(byte list \<Rightarrow> byte list \<Rightarrow> bool) \<Rightarrow> st \<Rightarrow> byte list \<Rightarrow> pgno_t list \<Rightarrow> nat list \<Rightarrow> bool" where
  "chain lt st key gs ks \<longleftrightarrow> length gs = Suc (length ks) \<and>
     (\<forall>j < length ks. \<exists>mp. page_of st (gs ! j) = Some mp \<and> child_of lt key mp (ks ! j) \<and>
        NODEPGNO (page_items mp ! (ks ! j)) = gs ! Suc j)"

lemma chain_Cons:
  "chain lt st key (g # gs) (k # ks) \<longleftrightarrow> gs \<noteq> [] \<and> chain lt st key gs ks \<and>
     (\<exists>mp. page_of st g = Some mp \<and> child_of lt key mp k \<and> NODEPGNO (page_items mp ! k) = gs ! 0)"
  by (auto simp: chain_def All_less_Suc2)

lemma chain_Nil: "chain lt st key gs [] \<longleftrightarrow> (\<exists>g. gs = [g])"
  by (auto simp: chain_def length_Suc_conv)

lemma route_chain: "route lt st key d pg rt h q \<Longrightarrow> chain lt st key (map fst rt @ [q]) (map snd rt) \<and> d = length rt + h \<and> (map fst rt @ [q]) ! 0 = pg"
proof (induction rule: route.induct)
  case (down pg mp i d rt h q)
  then show ?case by (auto simp: chain_Cons)
qed (simp add: chain_Nil)

lemma chain_route: "chain lt st key gs ks \<Longrightarrow> route lt st key (length ks + h) (gs ! 0) (zip gs ks) h (gs ! length ks)"
proof (induction ks arbitrary: gs)
  case Nil
  then show ?case by (auto simp: chain_Nil route.here)
next
  case (Cons k ks)
  then obtain g gs' where gs: "gs = g # gs'" by (cases gs) (auto simp: chain_def)
  then obtain mp where mp: "page_of st g = Some mp" "child_of lt key mp k" "NODEPGNO (page_items mp ! k) = gs' ! 0"
    and c: "chain lt st key gs' ks" using Cons.prems by (auto simp: chain_Cons)
  have "route lt st key (Suc (length ks + h)) g ((g, k) # zip gs' ks) h (gs' ! length ks)"
    by (rule route.down [OF mp(1,2)]) (use Cons.IH [OF c] mp(3) in simp)
  then show ?case by (simp add: gs)
qed

lemma chain_pages: "chain lt st key gs ks \<Longrightarrow> j \<le> length ks \<Longrightarrow> gs ! j \<in> set (tree_pgs st (length ks + h) (gs ! 0))"
proof (induction ks arbitrary: gs j)
  case Nil
  then show ?case by (simp add: tree_pgs_root)
next
  case (Cons k ks)
  then obtain g gs' where gs: "gs = g # gs'" by (cases gs) (auto simp: chain_def)
  then obtain mp where mp: "page_of st g = Some mp" "child_of lt key mp k" "NODEPGNO (page_items mp ! k) = gs' ! 0"
    and c: "chain lt st key gs' ks" using Cons.prems by (auto simp: chain_Cons)
  show ?case
  proof (cases j)
    case 0
    then show ?thesis by (simp add: tree_pgs_root gs del: tree_pgs.simps)
  next
    case (Suc i)
    have "page_items mp ! k \<in> set (page_items mp)" using mp(2) by (simp add: child_of_def)
    moreover have "gs' ! i \<in> set (tree_pgs st (length ks + h) (NODEPGNO (page_items mp ! k)))"
      using Cons.IH [OF c, of i] Cons.prems(2) Suc mp(3) by simp
    ultimately show ?thesis using mp(1) by (auto simp: gs Suc)
  qed
qed

section \<open>One page is copied\<close>

lemma distinct_concat_disjoint: "distinct (concat xss) \<Longrightarrow> i < j \<Longrightarrow> j < length xss \<Longrightarrow> set (xss ! i) \<inter> set (xss ! j) = {}"
proof -
  assume d: "distinct (concat xss)" and ij: "i < j" "j < length xss"
  have "concat xss = concat (take j xss) @ xss ! j @ concat (drop (Suc j) xss)"
    by (metis concat.simps(2) concat_append ij(2) id_take_nth_drop)
  then have "set (concat (take j xss)) \<inter> set (xss ! j) = {}" using d by auto
  moreover have "xss ! i \<in> set (take j xss)" using ij by (auto simp: in_set_conv_nth)
  ultimately show ?thesis by auto
qed

text \<open>The trees of the children of a page share no page.\<close>

lemma child_disjoint:
  assumes d: "distinct (tree_pgs st (Suc d) pg)" and mp: "page_of st pg = Some mp" and i: "i < NUMKEYS mp"
  shows "distinct (tree_pgs st d (NODEPGNO (page_items mp ! i)))" "pg \<notin> set (tree_pgs st d (NODEPGNO (page_items mp ! i)))"
    "set (tree_pgs st d (NODEPGNO (page_items mp ! i))) \<subseteq> set (tree_pgs st (Suc d) pg)"
    "j < NUMKEYS mp \<Longrightarrow> j \<noteq> i \<Longrightarrow>
       set (tree_pgs st d (NODEPGNO (page_items mp ! j))) \<inter> set (tree_pgs st d (NODEPGNO (page_items mp ! i))) = {}"
proof -
  define xss where "xss = map (\<lambda>nd. tree_pgs st d (NODEPGNO nd)) (page_items mp)"
  have t: "tree_pgs st (Suc d) pg = pg # concat xss" using mp by (simp add: xss_def)
  have x: "xss ! j = tree_pgs st d (NODEPGNO (page_items mp ! j))" "xss ! j \<in> set xss" if "j < NUMKEYS mp" for j
    using that by (simp_all add: xss_def)
  have len: "length xss = NUMKEYS mp" by (simp add: xss_def)
  show "pg \<notin> set (tree_pgs st d (NODEPGNO (page_items mp ! i)))" "set (tree_pgs st d (NODEPGNO (page_items mp ! i))) \<subseteq> set (tree_pgs st (Suc d) pg)"
    using d x [OF i] unfolding t by auto
  show "distinct (tree_pgs st d (NODEPGNO (page_items mp ! i)))"
    using d x [OF i] unfolding t by (simp add: distinct_concat_iff)
  assume j: "j < NUMKEYS mp" "j \<noteq> i"
  then show "set (tree_pgs st d (NODEPGNO (page_items mp ! j))) \<inter> set (tree_pgs st d (NODEPGNO (page_items mp ! i))) = {}"
    using d distinct_concat_disjoint [of xss i j] distinct_concat_disjoint [of xss j i] i len x(1) [OF i] x(1) [OF j(1)] unfolding t
    by (cases "i < j") auto
qed

lemma mset_concat_update: "i < length xss \<Longrightarrow> mset (concat (xss[i := ys])) + mset (xss ! i) = mset (concat xss) + mset ys"
proof -
  assume i: "i < length xss"
  have "concat xss = concat (take i xss) @ xss ! i @ concat (drop (Suc i) xss)"
    by (metis concat.simps(2) concat_append i id_take_nth_drop)
  moreover have "concat (xss[i := ys]) = concat (take i xss) @ ys @ concat (drop (Suc i) xss)"
    using i by (simp add: upd_conv_take_nth_drop)
  ultimately show ?thesis by simp
qed

lemma leaf_overflows_items: "page_items mp' = page_items mp \<Longrightarrow> leaf_overflows mp' = leaf_overflows mp"
  by (simp add: leaf_overflows_def)

text \<open>A copy of the root page under another number.\<close>

lemma subtree_copy:
  assumes sub: "subtree lt st h g its" and mp: "page_of st g = Some mp"
    and new: "page_of st' g' = Some mp'" "page_items mp' = page_items mp" "page_ok psize mp'" "IS_LEAF mp' = IS_LEAF mp"
      "IS_BRANCH mp' = IS_BRANCH mp"
    and same: "\<forall>x \<in> set (tl (tree_pgs st h g)). page_of st' x = page_of st x"
  shows "subtree lt st' h g' its" "tree_pgs st' h g' = g' # tl (tree_pgs st h g)"
proof -
  have n: "NUMKEYS mp' = NUMKEYS mp" using new(2) by (metis length_page_items)
  have "subtree lt st' h g' its \<and> tree_pgs st' h g' = g' # tl (tree_pgs st h g)"
  proof (cases h)
    case 0
    from sub [unfolded 0] obtain mp0 psize0 where l: "page_at st g mp0" "IS_LEAF mp0" "\<not> IS_BRANCH mp0" "leaf_items st mp0 its" "its \<noteq> []"
      by (elim subtree_leafE)
    then have "mp0 = mp" using mp by (simp add: page_at_iff)
    then have l: "IS_LEAF mp'" "\<not> IS_BRANCH mp'" "leaf_items st mp' its" "its \<noteq> []" using l new by (simp_all add: leaf_items_def)
    have "leaf_items st' mp' its"
      by (rule leaf_items_cong [OF l(3)]) (use same mp new(2) 0 in \<open>simp add: leaf_overflows_items [of mp' mp]\<close>)
    then have "subtree lt st' 0 g' its" using subtree.leaf [of st' g' mp' psize its lt] l new by (simp add: page_at_iff)
    then show ?thesis using mp new(1,2) by (simp add: 0 leaf_overflows_items [of mp' mp])
  next
    case (Suc d)
    from sub [unfolded Suc] obtain mp0 psize0 kids where l: "page_at st g mp0" "IS_BRANCH mp0" "\<not> IS_LEAF mp0" "2 \<le> NUMKEYS mp0"
      "length kids = NUMKEYS mp0" "\<forall>i < NUMKEYS mp0. subtree lt st d (NODEPGNO (page_items mp0 ! i)) (kids ! i)" "separates lt mp0 kids"
      "its = concat kids"
      by (elim subtree_branchE) (rule that; assumption)
    have "mp0 = mp" using l(1) mp by (simp add: page_at_iff)
    note l = l [unfolded this]
    have t: "\<forall>x \<in> set (tree_pgs st d (NODEPGNO nd)). page_of st' x = page_of st x" if "nd \<in> set (page_items mp)" for nd
      using that same mp by (auto simp: Suc)
    have "\<forall>i < NUMKEYS mp'. subtree lt st' d (NODEPGNO (page_items mp' ! i)) (kids ! i)"
    proof (intro allI impI)
      fix i assume "i < NUMKEYS mp'"
      then have i: "i < NUMKEYS mp" "page_items mp ! i \<in> set (page_items mp)" using n by simp_all
      show "subtree lt st' d (NODEPGNO (page_items mp' ! i)) (kids ! i)"
        unfolding new(2) by (rule subtree_cong [of lt st]) (use l(6) i t in blast)+
    qed
    moreover have "separates lt mp' kids" using l(7) n new(2) by (simp add: separates_def)
    ultimately have "subtree lt st' (Suc d) g' (concat kids)"
      using l(2-5) n new by (intro subtree.branch [of _ _ mp' psize]) (simp_all add: page_at_iff)
    moreover have "map (\<lambda>nd. tree_pgs st' d (NODEPGNO nd)) (page_items mp) = map (\<lambda>nd. tree_pgs st d (NODEPGNO nd)) (page_items mp)"
      by (rule map_cong [OF refl], rule tree_pgs_cong, rule t)
    ultimately show ?thesis using mp new(1,2) l(8) by (simp add: Suc cong: map_cong)
  qed
  then show "subtree lt st' h g' its" "tree_pgs st' h g' = g' # tl (tree_pgs st h g)" by simp_all
qed

context tree_order
begin

text \<open>A branch page whose child \<open>i\<close> has changed: the items and the pages of its tree.\<close>

lemma child_change:
  assumes mp: "page_of st pg = Some mp" "page_ok psize mp" "2 \<le> NUMKEYS mp" "length kids = NUMKEYS mp"
    and kids: "\<forall>j < NUMKEYS mp. subtree less st d (NODEPGNO (page_items mp ! j)) (kids ! j)" "separates less mp kids"
    and i: "child_of less key mp i" and key: "key \<in> K"
    and new: "page_of st' pg = Some mp'" "page_ok psize mp'" "IS_BRANCH mp'" "\<not> IS_LEAF mp'" "NUMKEYS mp' = NUMKEYS mp"
      "\<And>j. 1 \<le> j \<Longrightarrow> j < NUMKEYS mp \<Longrightarrow> NODEKEY (page_items mp' ! j) = NODEKEY (page_items mp ! j)"
      "\<And>j. j < NUMKEYS mp \<Longrightarrow> j \<noteq> i \<Longrightarrow> NODEPGNO (page_items mp' ! j) = NODEPGNO (page_items mp ! j)"
    and others: "\<And>j. j < NUMKEYS mp \<Longrightarrow> j \<noteq> i \<Longrightarrow> \<forall>x \<in> set (tree_pgs st d (NODEPGNO (page_items mp ! j))). page_of st' x = page_of st x"
    and sub: "subtree less st' d (NODEPGNO (page_items mp' ! i)) its1" "fst ` set its1 \<subseteq> insert key (fst ` set (kids ! i))"
  shows "subtree less st' (Suc d) pg (concat (kids[i := its1]))"
    "mset (tree_pgs st' (Suc d) pg) + mset (tree_pgs st d (NODEPGNO (page_items mp ! i)))
       = mset (tree_pgs st (Suc d) pg) + mset (tree_pgs st' d (NODEPGNO (page_items mp' ! i)))"
proof -
  have n: "i < NUMKEYS mp" using i by (simp add: child_of_def)
  have old: "subtree less st' d (NODEPGNO (page_items mp' ! j)) (kids ! j)" if j: "j < NUMKEYS mp" "j \<noteq> i" for j
  proof -
    have "subtree less st d (NODEPGNO (page_items mp ! j)) (kids ! j)" using kids(1) j(1) by blast
    then show ?thesis unfolding new(7) [OF j] using others [OF j] by (rule subtree_cong)
  qed
  show "subtree less st' (Suc d) pg (concat (kids[i := its1]))"
    by (rule branch_replace [OF kids(2) i mp(4) key mp(2,3) new(1-5)]) (assumption | rule new(6) old sub)+
  define xss where "xss = map (\<lambda>nd. tree_pgs st d (NODEPGNO nd)) (page_items mp)"
  have "map (\<lambda>nd. tree_pgs st' d (NODEPGNO nd)) (page_items mp') = xss[i := tree_pgs st' d (NODEPGNO (page_items mp' ! i))]"
  proof (rule nth_equalityI)
    fix j assume "j < length (map (\<lambda>nd. tree_pgs st' d (NODEPGNO nd)) (page_items mp'))"
    then have j: "j < NUMKEYS mp" using new(5) by simp
    show "map (\<lambda>nd. tree_pgs st' d (NODEPGNO nd)) (page_items mp') ! j = xss[i := tree_pgs st' d (NODEPGNO (page_items mp' ! i))] ! j"
    proof (cases "j = i")
      case False
      have "tree_pgs st' d (NODEPGNO (page_items mp ! j)) = tree_pgs st d (NODEPGNO (page_items mp ! j))"
        by (rule tree_pgs_cong [OF others [OF j False]])
      then show ?thesis using j False new(5) new(7) [OF j False] by (simp add: xss_def)
    qed (use n new(5) in \<open>simp add: xss_def\<close>)
  qed (simp add: xss_def new(5))
  then have "tree_pgs st' (Suc d) pg = pg # concat (xss[i := tree_pgs st' d (NODEPGNO (page_items mp' ! i))])"
    using new(1) by simp
  moreover have "tree_pgs st (Suc d) pg = pg # concat xss" "xss ! i = tree_pgs st d (NODEPGNO (page_items mp ! i))" "i < length xss"
    using mp(1) n by (simp_all add: xss_def)
  ultimately show "mset (tree_pgs st' (Suc d) pg) + mset (tree_pgs st d (NODEPGNO (page_items mp ! i)))
       = mset (tree_pgs st (Suc d) pg) + mset (tree_pgs st' d (NODEPGNO (page_items mp' ! i)))"
    using mset_concat_update [of i xss] by simp
qed

end

lemma set_pgno_node:
  assumes "page_ok psize mp" "\<not> IS_LEAF mp" "i < NUMKEYS mp"
  shows "page_ok psize (set_node mp i (SETPGNO (page_items mp ! i) pg))"
    "page_items (set_node mp i (SETPGNO (page_items mp ! i) pg)) = (page_items mp)[i := SETPGNO (page_items mp ! i) pg]"
proof -
  have nd: "node_ok mp (SETPGNO (page_items mp ! i) pg)" "node_space mp (SETPGNO (page_items mp ! i) pg) = node_space mp (page_items mp ! i)"
    using page_okD(8) [OF assms(1,3)] assms(2) by (simp_all add: node_ok_def node_space_branch)
  note s = set_node_ok [OF assms(1,3) nd]
  show "page_ok psize (set_node mp i (SETPGNO (page_items mp ! i) pg))" by (rule s(1))
  show "page_items (set_node mp i (SETPGNO (page_items mp ! i) pg)) = (page_items mp)[i := SETPGNO (page_items mp ! i) pg]" by (rule s(2))
qed

text \<open>
  The page \<open>gs ! j\<close> on the way has been copied to page \<open>g'\<close>, and its parent refers to the copy.  The
  tree, whose root may be the copy, holds the same items; its pages are the old ones but for this.
\<close>

definition copied :: "st \<Rightarrow> st \<Rightarrow> pgno_t list \<Rightarrow> nat list \<Rightarrow> nat \<Rightarrow> pgno_t \<Rightarrow> bool" where
  "copied st st' gs ks j g' \<longleftrightarrow> unat g' < 2 ^ 48 \<and>
     (\<exists>mp mp' psize. page_of st (gs ! j) = Some mp \<and> page_of st' g' = Some mp' \<and> page_items mp' = page_items mp \<and> page_ok psize mp' \<and>
        IS_LEAF mp' = IS_LEAF mp \<and> IS_BRANCH mp' = IS_BRANCH mp) \<and>
     (0 < j \<longrightarrow> (\<exists>par. page_of st (gs ! (j - 1)) = Some par \<and>
        page_of st' (gs ! (j - 1)) = Some (set_node par (ks ! (j - 1)) (SETPGNO (page_items par ! (ks ! (j - 1))) g'))))"

context tree_order
begin

lemma cow_tree:
  assumes "subtree less st (length ks) (gs ! 0) its" "distinct (tree_pgs st (length ks) (gs ! 0))" "chain less st key gs ks"
    and "j \<le> length ks" "key \<in> K" "copied st st' gs ks j g'" "g' \<notin> set (tree_pgs st (length ks) (gs ! 0))"
    and "\<forall>x \<in> set (tree_pgs st (length ks) (gs ! 0)). x \<noteq> gs ! j \<longrightarrow> (0 < j \<longrightarrow> x \<noteq> gs ! (j - 1)) \<longrightarrow> page_of st' x = page_of st x"
  shows "subtree less st' (length ks) (gs[j := g'] ! 0) its \<and>
     mset (tree_pgs st' (length ks) (gs[j := g'] ! 0)) + {#gs ! j#} = mset (tree_pgs st (length ks) (gs ! 0)) + {#g'#}"
  using assms
proof (induction ks arbitrary: gs its j)
  case Nil
  then obtain g where gs: "gs = [g]" "j = 0" by (auto simp: chain_Nil)
  obtain mp mp' psize where c: "page_of st g = Some mp" "page_of st' g' = Some mp'" "page_items mp' = page_items mp" "page_ok psize mp'"
    "IS_LEAF mp' = IS_LEAF mp" "IS_BRANCH mp' = IS_BRANCH mp"
    using Nil.prems(6) by (auto simp: copied_def gs)
  have tl: "tree_pgs st 0 g = g # tl (tree_pgs st 0 g)" by simp
  have "\<forall>x \<in> set (tl (tree_pgs st 0 g)). page_of st' x = page_of st x"
    using Nil.prems(2,8) by (auto simp: gs)
  note s = subtree_copy [OF _ c this, of less its]
  show ?case using s Nil.prems(1) by (simp add: gs del: tree_pgs.simps) (subst tl, simp)
next
  case (Cons k ks)
  obtain g gs' where gs: "gs = g # gs'" using Cons.prems(3) by (cases gs) (auto simp: chain_def)
  obtain mp where mp: "page_of st g = Some mp" "child_of less key mp k" "NODEPGNO (page_items mp ! k) = gs' ! 0"
    and ch: "chain less st key gs' ks" and gs': "gs' \<noteq> []"
    using Cons.prems(3) by (auto simp: chain_Cons gs)
  show ?case
  proof (cases j)
    case 0
    obtain mp1 mp' psize where c: "page_of st g = Some mp1" "page_of st' g' = Some mp'" "page_items mp' = page_items mp1" "page_ok psize mp'"
      "IS_LEAF mp' = IS_LEAF mp1" "IS_BRANCH mp' = IS_BRANCH mp1"
      using Cons.prems(6) by (auto simp: copied_def gs 0)
    have tl: "tree_pgs st (length (k # ks)) g = g # tl (tree_pgs st (length (k # ks)) g)" by simp
    have "x \<noteq> g" if "x \<in> set (tl (tree_pgs st (length (k # ks)) g))" for x
      using that Cons.prems(2) tl unfolding gs nth_Cons_0 by (metis distinct.simps(2))
    then have "\<forall>x \<in> set (tl (tree_pgs st (length (k # ks)) g)). page_of st' x = page_of st x"
      using Cons.prems(8) tl by (metis "0" gs list.set_intros(2) not_less0 nth_Cons_0)
    note s = subtree_copy [OF _ c this, of less its]
    have "mset (tree_pgs st (length (k # ks)) g) = mset (tl (tree_pgs st (length (k # ks)) g)) + {#g#}"
      by (subst tl) simp
    then show ?thesis using s Cons.prems(1) by (simp add: gs 0 del: tree_pgs.simps)
  next
    case (Suc i)
    obtain psize kids where b: "page_ok psize mp" "IS_BRANCH mp" "\<not> IS_LEAF mp" "2 \<le> NUMKEYS mp" "length kids = NUMKEYS mp"
      "\<forall>j < NUMKEYS mp. subtree less st (length ks) (NODEPGNO (page_items mp ! j)) (kids ! j)" "separates less mp kids" "its = concat kids"
    proof -
      have "subtree less st (Suc (length ks)) g its" using Cons.prems(1) by (simp add: gs)
      then obtain mp0 psize kids where l: "page_at st g mp0" "page_ok psize mp0" "IS_BRANCH mp0" "\<not> IS_LEAF mp0"
        "2 \<le> NUMKEYS mp0" "length kids = NUMKEYS mp0" "\<forall>j < NUMKEYS mp0. subtree less st (length ks) (NODEPGNO (page_items mp0 ! j)) (kids ! j)"
        "separates less mp0 kids" "its = concat kids"
        by (elim subtree_branchE) (rule that; assumption)
      then show thesis using that mp(1) by (simp add: page_at_iff)
    qed
    have k: "k < NUMKEYS mp" using mp(2) by (simp add: child_of_def)
    define c where "c = gs' ! 0"
    have sub: "subtree less st (length ks) c (kids ! k)" using b(6) k mp(3) by (metis c_def)
    have d: "distinct (tree_pgs st (Suc (length ks)) g)" using Cons.prems(2) by (simp add: gs)
    note dis = child_disjoint [OF d mp(1) k, unfolded mp(3), folded c_def]
    have pos: "gs ! j = gs' ! i" "gs ! (j - 1) = (if i = 0 then g else gs' ! (i - 1))" "gs[j := g'] = g # gs'[i := g']"
      using Suc by (simp_all add: gs nth_Cons')
    have same: "page_of st' x = page_of st x"
      if "x \<in> set (tree_pgs st (Suc (length ks)) g)" "x \<noteq> gs' ! i" "0 < i \<longrightarrow> x \<noteq> gs' ! (i - 1)" "i = 0 \<longrightarrow> x \<noteq> g" for x
    proof -
      have "x \<noteq> gs ! j" "x \<noteq> gs ! (j - 1)" unfolding pos(1,2) using that(2-4) by (cases "i = 0"; simp)+
      then show ?thesis using Cons.prems(8) that(1) by (simp add: gs del: tree_pgs.simps)
    qed
    have cop: "copied st st' gs' ks i g'"
      using Cons.prems(6) pos(1,2) unfolding copied_def by (auto simp: Suc nth_Cons' split: if_splits)
    have fresh: "g' \<notin> set (tree_pgs st (length ks) c)" using Cons.prems(7) dis(3) by (auto simp: gs)
    have same': "\<forall>x \<in> set (tree_pgs st (length ks) (gs' ! 0)). x \<noteq> gs' ! i \<longrightarrow> (0 < i \<longrightarrow> x \<noteq> gs' ! (i - 1)) \<longrightarrow> page_of st' x = page_of st x"
    proof (intro ballI impI)
      fix x assume x: "x \<in> set (tree_pgs st (length ks) (gs' ! 0))" "x \<noteq> gs' ! i" "0 < i \<longrightarrow> x \<noteq> gs' ! (i - 1)"
      have "x \<in> set (tree_pgs st (Suc (length ks)) g)" "x \<noteq> g" using x(1) dis(2,3) unfolding c_def by blast+
      then show "page_of st' x = page_of st x" by (intro same) (use x(2,3) in simp_all)
    qed
    have IH: "subtree less st' (length ks) (gs'[i := g'] ! 0) (kids ! k)"
       "mset (tree_pgs st' (length ks) (gs'[i := g'] ! 0)) + {#gs' ! i#} = mset (tree_pgs st (length ks) c) + {#g'#}"
      using Cons.IH [OF sub [unfolded c_def] dis(1) [unfolded c_def] ch _ Cons.prems(5) cop fresh [unfolded c_def] same'] Cons.prems(4) Suc
      by (simp_all add: c_def)
    have on: "gs' ! i \<in> set (tree_pgs st (length ks) c)" "gs' ! (i - 1) \<in> set (tree_pgs st (length ks) c)"
      using chain_pages [OF ch, of _ 0] Cons.prems(4) Suc by (simp_all add: c_def)
    have others: "\<forall>x \<in> set (tree_pgs st (length ks) (NODEPGNO (page_items mp ! j'))). page_of st' x = page_of st x"
      if j': "j' < NUMKEYS mp" "j' \<noteq> k" for j'
    proof
      fix x assume x: "x \<in> set (tree_pgs st (length ks) (NODEPGNO (page_items mp ! j')))"
      note dj = child_disjoint [OF d mp(1) j'(1)]
      have "x \<in> set (tree_pgs st (Suc (length ks)) g)" "x \<noteq> g" "x \<notin> set (tree_pgs st (length ks) c)"
        using x dj(2,3) dis(4) [OF j'] by auto
      moreover from this have "x \<noteq> gs' ! i" "x \<noteq> gs' ! (i - 1)" using on by auto
      ultimately show "page_of st' x = page_of st x" by (intro same) simp_all
    qed
    obtain mp0 where mp0: "page_of st' g = Some mp0" "page_ok psize mp0" "IS_BRANCH mp0" "\<not> IS_LEAF mp0" "NUMKEYS mp0 = NUMKEYS mp"
      "\<And>j. j < NUMKEYS mp \<Longrightarrow> NODEKEY (page_items mp0 ! j) = NODEKEY (page_items mp ! j)"
      "\<And>j. j < NUMKEYS mp \<Longrightarrow> j \<noteq> k \<Longrightarrow> NODEPGNO (page_items mp0 ! j) = NODEPGNO (page_items mp ! j)"
      "NODEPGNO (page_items mp0 ! k) = gs'[i := g'] ! 0"
    proof (cases "i = 0")
      case True
      define nd where "nd = SETPGNO (page_items mp ! k) g'"
      have "page_of st' g = Some (set_node mp k nd)" "unat g' < 2 ^ 48"
        using Cons.prems(6) mp(1) pos(1,2) True Suc by (auto simp: copied_def nd_def gs)
      moreover have "NODEKEY nd = NODEKEY (page_items mp ! k)" by (simp add: nd_def NODEKEY_def)
      moreover note set_pgno_node [OF b(1,3) k, of g', folded nd_def]
      moreover have "IS_BRANCH (set_node mp k nd) = IS_BRANCH mp" "IS_LEAF (set_node mp k nd) = IS_LEAF mp"
        by (simp_all add: IS_BRANCH_def IS_LEAF_def)
      ultimately show thesis using b(2,3) k gs' True
        by (intro that [of "set_node mp k nd"]) (auto simp: nth_list_update nd_def NODEPGNO_SETPGNO_id)
    next
      case False
      have "g \<noteq> gs' ! i" "g \<noteq> gs' ! (i - 1)" using on dis(2) by auto
      then have "page_of st' g = Some mp" using same [of g] mp(1) False by (simp add: tree_pgs_root del: tree_pgs.simps)
      then show thesis using b(1-3) mp(3) False by (intro that [of mp]) (simp_all add: nth_list_update)
    qed
    have kk: "fst ` set (kids ! k) \<subseteq> insert key (fst ` set (kids ! k))" by auto
    note new = child_change [OF mp(1) b(1,4,5,6,7) mp(2) Cons.prems(5) mp0(1-5,6,7) others IH(1) [folded mp0(8)] kk]
    have "kids[k := kids ! k] = kids" by simp
    then have "subtree less st' (Suc (length ks)) g its" using new(1) b(8) by simp
    moreover have "mset (tree_pgs st' (Suc (length ks)) g) + {#gs' ! i#} = mset (tree_pgs st (Suc (length ks)) g) + {#g'#}"
    proof -
      have "mset (tree_pgs st' (Suc (length ks)) g) + mset (tree_pgs st (length ks) c) + {#gs' ! i#}
          = mset (tree_pgs st (Suc (length ks)) g) + (mset (tree_pgs st' (length ks) (gs'[i := g'] ! 0)) + {#gs' ! i#})"
        using new(2) mp(3) mp0(8) by (simp add: c_def del: tree_pgs.simps)
      then show ?thesis unfolding IH(2) by (simp del: tree_pgs.simps add: union_assoc)
    qed
    ultimately show ?thesis by (simp add: gs Suc del: tree_pgs.simps)
  qed
qed

end

lemma child_of_cong:
  assumes "child_of lt key mp i" "NUMKEYS mp' = NUMKEYS mp" "\<And>j. j < NUMKEYS mp \<Longrightarrow> NODEKEY (page_items mp' ! j) = NODEKEY (page_items mp ! j)"
  shows "child_of lt key mp' i"
  using assms by (auto simp: child_of_def)

text \<open>The way to the key goes through the copy.\<close>

lemma chain_copied:
  assumes ch: "chain lt st key gs ks" and cop: "copied st st' gs ks j g'" and j: "j \<le> length ks" and d: "distinct gs"
    and same: "\<And>x. x \<in> set gs \<Longrightarrow> x \<noteq> gs ! j \<Longrightarrow> 0 < j \<longrightarrow> x \<noteq> gs ! (j - 1) \<Longrightarrow> page_of st' x = page_of st x"
    and ok: "\<And>i mp. i < length ks \<Longrightarrow> page_of st (gs ! i) = Some mp \<Longrightarrow> \<exists>psize. page_ok psize mp \<and> \<not> IS_LEAF mp"
  shows "chain lt st' key (gs[j := g']) ks"
  unfolding chain_def
proof (intro conjI allI impI)
  have len: "length gs = Suc (length ks)" using ch by (simp add: chain_def)
  then show "length (gs[j := g']) = Suc (length ks)" by simp
  fix i assume i: "i < length ks"
  obtain mp where mp: "page_of st (gs ! i) = Some mp" "child_of lt key mp (ks ! i)" "NODEPGNO (page_items mp ! (ks ! i)) = gs ! Suc i"
    using ch i by (auto simp: chain_def)
  have k: "ks ! i < NUMKEYS mp" using mp(2) by (simp add: child_of_def)
  consider "i = j" | "0 < j" "i = j - 1" | "i \<noteq> j" "Suc i \<noteq> j" by linarith
  then show "\<exists>mp. page_of st' (gs[j := g'] ! i) = Some mp \<and> child_of lt key mp (ks ! i) \<and>
      NODEPGNO (page_items mp ! (ks ! i)) = gs[j := g'] ! Suc i"
  proof cases
    case 1
    then obtain mp' where "page_of st' g' = Some mp'" "page_items mp' = page_items mp"
      using cop mp(1) by (auto simp: copied_def)
    moreover from this have "NUMKEYS mp' = NUMKEYS mp" by (metis length_page_items)
    ultimately show ?thesis using mp(2,3) child_of_cong [OF mp(2), of mp'] 1 i len by (auto simp: nth_list_update)
  next
    case 2
    define nd where "nd = SETPGNO (page_items mp ! (ks ! i)) g'"
    have n: "page_of st' (gs ! i) = Some (set_node mp (ks ! i) nd)" "unat g' < 2 ^ 48"
      using cop mp(1) 2 by (auto simp: copied_def nd_def)
    obtain psize where "page_ok psize mp" "\<not> IS_LEAF mp" using ok [OF i mp(1)] by blast
    note s = set_pgno_node(2) [OF this k, of g', folded nd_def]
    have kk: "NODEKEY (page_items (set_node mp (ks ! i) nd) ! x) = NODEKEY (page_items mp ! x)" if "x < NUMKEYS mp" for x
      using that unfolding s by (cases "x = ks ! i") (simp_all add: nd_def NODEKEY_def)
    have "child_of lt key (set_node mp (ks ! i) nd) (ks ! i)" by (rule child_of_cong [OF mp(2)]) (use kk in simp_all)
    moreover have "NODEPGNO (page_items (set_node mp (ks ! i) nd) ! (ks ! i)) = g'" using k n(2) unfolding s by (simp add: nd_def NODEPGNO_SETPGNO_id)
    ultimately show ?thesis using n(1) 2 j len by auto
  next
    case 3
    have "gs ! i \<noteq> gs ! j" "0 < j \<longrightarrow> gs ! i \<noteq> gs ! (j - 1)"
      using d i j len 3 by (auto simp: nth_eq_iff_index_eq)
    then have "page_of st' (gs ! i) = Some mp" using same [of "gs ! i"] mp(1) i len by simp
    then show ?thesis using mp(2,3) 3 by auto
  qed
qed

lemma chain_distinct: "chain lt st key gs ks \<Longrightarrow> distinct (tree_pgs st (length ks + h) (gs ! 0)) \<Longrightarrow> distinct gs"
proof (induction ks arbitrary: gs)
  case Nil
  then show ?case by (auto simp: chain_Nil)
next
  case (Cons k ks)
  then obtain g gs' where gs: "gs = g # gs'" by (cases gs) (auto simp: chain_def)
  then obtain mp where mp: "page_of st g = Some mp" "child_of lt key mp k" "NODEPGNO (page_items mp ! k) = gs' ! 0"
    and c: "chain lt st key gs' ks" using Cons.prems by (auto simp: chain_Cons)
  have d: "distinct (tree_pgs st (Suc (length ks + h)) g)" using Cons.prems(2) by (simp add: gs)
  have k: "k < NUMKEYS mp" using mp(2) by (simp add: child_of_def)
  note dis = child_disjoint [OF d mp(1) k, unfolded mp(3)]
  have "g \<notin> set gs'"
  proof
    assume "g \<in> set gs'"
    then obtain j where "j < length gs'" "gs' ! j = g" by (auto simp: in_set_conv_nth)
    then show False using chain_pages [OF c, of j h] dis(2) c by (auto simp: chain_def)
  qed
  then show ?case using Cons.IH [OF c dis(1)] by (simp add: gs)
qed

end
