(* ===== verification/Lmdb_Alloc_Facts.thy ===== *)
theory Lmdb_Alloc_Facts
  imports Lmdb_Cow_Facts
begin

text \<open>
  \<open>mdb_page_alloc\<close> for one page: the page it gives is new to the transaction, its buffer is in no
  other use, and nothing that \<open>mdb_page_get\<close> finds changes but for the new number.
\<close>

section \<open>The dirty list\<close>

lemma mid2l_lookup_spec:
  assumes ok: "id2l_ok dl" "id2l_sorted dl"
  shows "if pg \<in> mid ` set (id2l_elems dl)
    then \<exists>i. mid2l_lookup dl pg = Some (Some i) \<and> rd dl i = Some (dl ! i) \<and> dl ! i \<in> set (id2l_elems dl) \<and> mid (dl ! i) = pg
    else mid2l_lookup dl pg = Some None"
proof -
  obtain r where r: "mdb_mid2l_search dl pg = Some r" "1 \<le> r" "r \<le> id2l_count dl + 1"
    "\<forall>c. 1 \<le> c \<longrightarrow> c < r \<longrightarrow> mid (dl ! c) < pg" "\<forall>c. r < c \<longrightarrow> c \<le> id2l_count dl \<longrightarrow> mid (dl ! c) > pg"
    using mid2l_search_correct [OF ok, of pg] by auto
  note found = mid2l_search_found [OF r(2,4,5)]
  have in_: "rd dl r = Some (dl ! r)" "dl ! r \<in> set (id2l_elems dl)" if "r \<le> id2l_count dl"
    using that r(2) id2l_okD(1) [OF ok(1)] by (auto simp: set_id2l_elems intro: rd_in)
  have c: "unat (mid (dl ! 0)) = id2l_count dl" by (simp add: id2l_count_def)
  show ?thesis
  proof (cases "mid (dl ! 0) = 0")
    case True
    then have "id2l_count dl = 0" using c by simp
    then have "id2l_elems dl = []" by (simp add: id2l_elems_def)
    then show ?thesis using True id2l_okD(3) [OF ok(1)] by (simp add: mid2l_lookup_def)
  next
    case False
    then have "mid2l_lookup dl pg = (if r \<le> id2l_count dl \<and> mid (dl ! r) = pg then Some (Some r) else Some None)"
      using id2l_okD(3) [OF ok(1)] r(1) in_(1) c by (auto simp: mid2l_lookup_def)
    then show ?thesis using found in_ by auto
  qed
qed

lemma dirty_unique:
  assumes "id2l_sorted dl" "e \<in> set (id2l_elems dl)" "e' \<in> set (id2l_elems dl)" "mid e = mid e'"
  shows "e = e'"
proof -
  obtain i j where i: "e = dl ! i" "1 \<le> i" "i \<le> id2l_count dl" and j: "e' = dl ! j" "1 \<le> j" "j \<le> id2l_count dl"
    using assms(2,3) by (auto simp: set_id2l_elems)
  have "\<not> i < j" "\<not> j < i" using assms(1,4) i j unfolding id2l_sorted_nth by fastforce+
  then show ?thesis using i(1) j(1) by simp
qed

text \<open>A write transaction without a parent that has spilled nothing.\<close>

definition plain_writer :: "st \<Rightarrow> MDB_txn \<Rightarrow> bool" where
  "plain_writer st t \<longleftrightarrow> txns st = [t] \<and> \<not> anyset (mt_flags t) MDB_TXN_RDONLY \<and> \<not> anyset (mt_flags t) MDB_TXN_ERROR \<and>
     \<not> anyset (mt_flags t) MDB_TXN_SPILLS \<and> mt_spill_pgs t = None \<and> \<not> anyset (me_flags (env st)) MDB_WRITEMAP \<and>
     id2l_ok (mt_dirty_list t) \<and> id2l_sorted (mt_dirty_list t)"

abbreviation dirty_of :: "MDB_txn \<Rightarrow> page_ref MDB_ID2 set" where
  "dirty_of t \<equiv> set (id2l_elems (mt_dirty_list t))"

lemma writer_get_dirty:
  assumes "plain_writer st t" "e \<in> dirty_of t"
  shows "mdb_page_get st (mid e) = Some (0, (mptr e, 1), st)"
proof -
  note w = assms(1) [unfolded plain_writer_def]
  have "mid e \<in> mid ` dirty_of t" using assms(2) by simp
  then obtain i where i: "mid2l_lookup (mt_dirty_list t) (mid e) = Some (Some i)" "rd (mt_dirty_list t) i = Some (mt_dirty_list t ! i)"
    "mt_dirty_list t ! i \<in> dirty_of t" "mid (mt_dirty_list t ! i) = mid e"
    using mid2l_lookup_spec [of "mt_dirty_list t" "mid e"] w by auto
  have "mt_dirty_list t ! i = e" using dirty_unique [OF _ i(3) assms(2) i(4)] w by blast
  then show ?thesis using w i(1,2) by (simp add: mdb_page_get_def get_txn_def MDB_SUCCESS_def)
qed

lemma writer_get_clean:
  assumes "plain_writer st t" "pg \<notin> mid ` dirty_of t"
  shows "mdb_page_get st pg = (if pg < mt_next_pgno t then Some (0, (PMap pg, 0), st) else Some (MDB_PAGE_NOTFOUND, (PNull, 0), set_txn_error st))"
proof -
  note w = assms(1) [unfolded plain_writer_def]
  have "mid2l_lookup (mt_dirty_list t) pg = Some None"
    using mid2l_lookup_spec [of "mt_dirty_list t" pg] w assms(2) by auto
  then show ?thesis using w by (simp add: mdb_page_get_def get_txn_def MDB_SUCCESS_def)
qed

section \<open>The state of a writer\<close>

definition pghead_ids :: "st \<Rightarrow> pgno_t list" where
  "pghead_ids st = (case me_pghead (env st) of None \<Rightarrow> [] | Some mop \<Rightarrow> idl_elems (idl_ids mop))"

text \<open>
  The dirty pages and their buffers, the list of free buffers and the reclaimed pages are apart from
  each other.
\<close>

definition writer_ok :: "st \<Rightarrow> MDB_txn \<Rightarrow> bool" where
  "writer_ok st t \<longleftrightarrow> plain_writer st t \<and> mt_loose_pgs t = [] \<and>
     (\<forall>e \<in> dirty_of t. mid e < mt_next_pgno t \<and> (\<exists>a mp. mptr e = PMem a \<and> heap st a = Some mp \<and> mp_pgno mp = mid e \<and>
        a \<notin> set (me_dpages (env st)))) \<and>
     (\<forall>a \<in> set (me_dpages (env st)). heap st a \<noteq> None) \<and> distinct (me_dpages (env st)) \<and> (\<forall>a \<ge> nalloc st. heap st a = None) \<and>
     (\<forall>n s. malloc_ok st n s) \<and> (\<forall>m \<ge> ncrs st. crs st m = None) \<and>
     (\<forall>mop. me_pghead (env st) = Some mop \<longrightarrow> idl_wf mop) \<and> distinct (pghead_ids st) \<and>
     (\<forall>x \<in> set (pghead_ids st). x < mt_next_pgno t \<and> x \<notin> mid ` dirty_of t)"

lemma writer_okD:
  assumes "writer_ok st t"
  shows "plain_writer st t" "mt_loose_pgs t = []" "e \<in> dirty_of t \<Longrightarrow> mid e < mt_next_pgno t"
    "e \<in> dirty_of t \<Longrightarrow> \<exists>a mp. mptr e = PMem a \<and> heap st a = Some mp \<and> mp_pgno mp = mid e \<and> a \<notin> set (me_dpages (env st))"
    "a \<in> set (me_dpages (env st)) \<Longrightarrow> heap st a \<noteq> None" "distinct (me_dpages (env st))" "nalloc st \<le> a \<Longrightarrow> heap st a = None"
    "malloc_ok st n s" "ncrs st \<le> m \<Longrightarrow> crs st m = None" "me_pghead (env st) = Some mop \<Longrightarrow> idl_wf mop" "distinct (pghead_ids st)"
    "x \<in> set (pghead_ids st) \<Longrightarrow> x < mt_next_pgno t \<and> x \<notin> mid ` dirty_of t"
  using assms unfolding writer_ok_def by auto

lemma writer_named: "writer_ok st t \<Longrightarrow> pages_named st"
proof -
  assume w: "writer_ok st t"
  show ?thesis unfolding pages_named_def
  proof (intro allI impI)
    fix pg a l assume g: "mdb_page_get st pg = Some (0, (PMem a, l), st)"
    have pw: "plain_writer st t" using w by (simp add: writer_ok_def)
    have "pg \<in> mid ` dirty_of t"
    proof (rule ccontr)
      assume "pg \<notin> mid ` dirty_of t"
      then show False using writer_get_clean [OF pw] g by (auto simp: MDB_PAGE_NOTFOUND_def split: if_splits)
    qed
    then obtain e where e: "e \<in> dirty_of t" "mid e = pg" by auto
    then have "mptr e = PMem a" using writer_get_dirty [OF pw e(1)] g by simp
    then show "\<exists>mp. heap st a = Some mp \<and> mp_pgno mp = pg" using w e by (auto simp: writer_ok_def)
  qed
qed


section \<open>Looking for a page\<close>

text \<open>
  There is nothing to read from the free list: it is empty, or a reader still sees the oldest
  transaction whose pages it holds.
\<close>

definition nothing_to_reclaim :: "st \<Rightarrow> bool" where
  "nothing_to_reclaim st \<longleftrightarrow> (\<exists>old. mdb_find_oldest st = Some old \<and>
     ((\<exists>db. get_db st FREE_DBI = Some db \<and> md_root db = P_INVALID) \<or> me_pgoldest (env st) \<le> me_pglast (env st) + 1 \<and> old \<le> me_pglast (env st) + 1))"

text \<open>The record of the free list is that of a database without duplicates.\<close>

definition free_db_ok :: "st \<Rightarrow> bool" where
  "free_db_ok st \<longleftrightarrow> (\<exists>db fl. get_db st FREE_DBI = Some db \<and> \<not> anyset (ucast (md_flags db) :: 32 word) MDB_DUPSORT \<and>
     get_dbflag st FREE_DBI = Some fl \<and> \<not> anyset fl DB_STALE)"

lemma free_empty_get:
  assumes t: "get_txn st = Some t" "\<not> anyset (mt_flags t) MDB_TXN_ERROR" and c: "crs st m = Some (blank_cursor FREE_DBI)"
    and db: "get_db st FREE_DBI = Some db" "md_root db = P_INVALID" and fl: "get_dbflag st FREE_DBI = Some fl" "\<not> anyset fl DB_STALE"
    and op: "op = MDB_FIRST \<or> op = MDB_SET_RANGE" and k: "key \<noteq> []"
  shows "\<exists>g. mdb_cursor_get m (Some key) False op st = Some (MDB_NOTFOUND, None, None, st\<lparr>crs := (crs st)(m := g)\<rparr>)"
proof -
  have ps: "page_search no_touch m kk f st = Some (MDB_NOTFOUND, st)" for kk f
    using t c db fl not_error [OF t(2)]
    by (simp add: page_search_def search_levels_def numeral_eq_Suc rc_bind_def blank_cursor_def search_from_root_def)
  have nf: "MDB_NOTFOUND \<noteq> 0" by (simp add: MDB_NOTFOUND_def)
  have "cursor_get_op m (Some key) False op st = Some (MDB_NOTFOUND, None, None, st)"
    using op
  proof
    assume "op = MDB_FIRST"
    then show ?thesis using c ps nf by (simp add: cursor_get_op_def mdb_cursor_first_def blank_cursor_def anyset_def MDB_SUCCESS_def)
  next
    assume "op = MDB_SET_RANGE"
    then show ?thesis using c ps nf k by (simp add: cursor_get_op_def mdb_cursor_set_def blank_cursor_def anyset_def MDB_SUCCESS_def)
  qed
  then show ?thesis using t by (simp add: mdb_cursor_get_def upd_cur_def) blast
qed

lemma pghead_ids_elems: "me_pghead (env st) = Some mop \<Longrightarrow> pghead_ids st = idl_elems (idl_ids mop)"
  "me_pghead (env st) = None \<Longrightarrow> pghead_ids st = []"
  by (simp_all add: pghead_ids_def)

lemma length_idl_elems: "length (idl_elems ids) = idl_count ids"
  by (simp add: idl_elems_def)

text \<open>The search takes the last of the reclaimed pages, or finds none.\<close>

lemma alloc_search_run:
  assumes w: "writer_ok st t" and ids: "pghead_ids st \<noteq> []" and m: "local_cursor c0 st = (m2, st0)"
  shows "\<exists>st1. alloc_loop (Suc f) 1 MDB_FIRST r 0 0 False m2 st0 = Some (Run (length (pghead_ids st)), st1) \<and>
     drop_cursor m2 st1 = st\<lparr>ncrs := ncrs st + 1\<rparr>"
proof -
  obtain mop where mop: "me_pghead (env st) = Some mop" using ids by (cases "me_pghead (env st)") (simp_all add: pghead_ids_elems)
  note e = pghead_ids_elems(1) [OF mop]
  have wf: "idl_wf mop" using w mop by (simp add: writer_ok_def)
  define n where "n = idl_count (idl_ids mop)"
  have n: "length (pghead_ids st) = n" by (simp add: e length_idl_elems n_def)
  then have "0 < n" using ids by (cases "pghead_ids st") simp_all
  then obtain i where i: "n = Suc i" by (cases n) simp_all
  have "n < length (idl_ids mop)" using idl_wfD(1,2) [OF wf] by (simp add: n_def)
  then have fr: "find_run (idl_ids mop) 0 n = Some (Some n)" by (simp add: i)
  have m': "m2 = ncrs st" "st0 = st\<lparr>crs := (crs st)(ncrs st \<mapsto> c0), ncrs := ncrs st + 1\<rparr>" using m by (auto simp: local_cursor_def)
  have "crs st (ncrs st) = None" using w by (simp add: writer_ok_def)
  then have "drop_cursor m2 st0 = st\<lparr>ncrs := ncrs st + 1\<rparr>" by (auto simp: drop_cursor_def m' fun_upd_idem)
  moreover have "alloc_loop (Suc f) 1 MDB_FIRST r 0 0 False m2 st0 = Some (Run n, st0)"
    using mop idl_wfD(3) [OF wf] fr \<open>0 < n\<close> by (simp add: m' n_def)
  ultimately show ?thesis using n by blast
qed

lemma alloc_search_none:
  assumes w: "writer_ok st t" and ids: "pghead_ids st = []" and m: "local_cursor c0 st = (m2, st0)"
    and rec: "nothing_to_reclaim st" and free: "free_db_ok st"
  shows "\<exists>st1 g. alloc_loop (Suc f) 1 MDB_FIRST r 0 0 False m2 st0 = Some (NoRun, st1) \<and>
     drop_cursor m2 st1 = upd_env (\<lambda>e. e\<lparr>me_pgoldest := g\<rparr>) (st\<lparr>ncrs := ncrs st + 1\<rparr>) \<and> g \<in> {me_pgoldest (env st), the (mdb_find_oldest st)}"
proof -
  obtain old where old: "mdb_find_oldest st = Some old"
    and src: "(\<exists>db. get_db st FREE_DBI = Some db \<and> md_root db = P_INVALID) \<or> me_pgoldest (env st) \<le> me_pglast (env st) + 1 \<and> old \<le> me_pglast (env st) + 1"
    using rec by (auto simp: nothing_to_reclaim_def)
  obtain db fl where db: "get_db st FREE_DBI = Some db" "\<not> anyset (ucast (md_flags db) :: 32 word) MDB_DUPSORT"
    "get_dbflag st FREE_DBI = Some fl" "\<not> anyset fl DB_STALE"
    using free by (auto simp: free_db_ok_def)
  have m': "m2 = ncrs st" "st0 = st\<lparr>crs := (crs st)(ncrs st \<mapsto> c0), ncrs := ncrs st + 1\<rparr>" using m by (auto simp: local_cursor_def)
  define n where "n = st\<lparr>ncrs := ncrs st + 1\<rparr>"
  define sx where "sx = (\<lambda>g c. upd_env (\<lambda>e. e\<lparr>me_pgoldest := g\<rparr>) (n\<lparr>crs := (crs st)(ncrs st := c)\<rparr>))"
  have drop: "drop_cursor m2 (sx g c) = upd_env (\<lambda>e. e\<lparr>me_pgoldest := g\<rparr>) n" for g c
    using w by (auto simp: drop_cursor_def m' sx_def n_def upd_env_def writer_ok_def fun_upd_idem)
  define b where "b = Some (blank_cursor FREE_DBI)"
  have init: "mdb_cursor_init m2 FREE_DBI st0 = Some (sx (me_pgoldest (env st)) b)"
    using db by (simp add: mdb_cursor_init_def search_levels_def numeral_eq_Suc m' get_db_def get_dbflag_def get_txn_def sx_def n_def b_def upd_env_def)
  have sxs: "env (sx g c) = (env st)\<lparr>me_pgoldest := g\<rparr>" "get_txn (sx g c) = get_txn st" "get_db (sx g c) = get_db st" "get_dbflag (sx g c) = get_dbflag st"
    "crs (sx g c) = (crs st)(ncrs st := c)" for g c
    by (simp_all add: sx_def n_def upd_env_def get_txn_def get_db_def get_dbflag_def fun_eq_iff)
  have find: "mdb_find_oldest (sx g c) = Some old" for g c using old by (simp add: mdb_find_oldest_def sxs)
  have set: "upd_env (\<lambda>e. e\<lparr>me_pgoldest := h\<rparr>) (sx g c) = sx h c" for g h c by (simp add: sx_def upd_env_def)
  have pg: "(case me_pghead (env st) of None \<Rightarrow> Some [0] | Some mop \<Rightarrow> Some (idl_ids mop)) \<bind> (\<lambda>mop. rd mop 0) = Some 0"
  proof (cases "me_pghead (env st)")
    case (Some mop)
    then have "idl_count (idl_ids mop) = 0" using ids length_idl_elems [of "idl_ids mop"] by (simp add: pghead_ids_elems)
    then have "idl_ids mop ! 0 = 0" by (simp add: unsigned_eq_0_iff)
    then show ?thesis using Some w by (simp add: writer_ok_def idl_wfD(3))
  qed simp
  define last1 where "last1 = me_pglast (env st) + 1"
  define g where "g = (if me_pgoldest (env st) \<le> last1 then old else me_pgoldest (env st))"
  define op where "op = (if me_pglast (env st) \<noteq> 0 then MDB_SET_RANGE else MDB_FIRST)"
  have ref: "refresh_oldest (me_pgoldest (env st)) last1 False (sx (me_pgoldest (env st)) b) = Some (g, me_pgoldest (env st) \<le> last1, sx g b)"
    by (simp add: refresh_oldest_def find set g_def)
  obtain t' where t': "get_txn st = Some t'" "\<not> anyset (mt_flags t') MDB_TXN_ERROR"
    using w by (auto simp: writer_ok_def plain_writer_def get_txn_def)
  have get: "\<exists>c. mdb_cursor_get m2 (Some (bytes64 last1)) False op (sx g b) = Some (MDB_NOTFOUND, None, None, sx g c)" if "\<not> g \<le> last1"
  proof -
    have "old \<le> last1 \<Longrightarrow> me_pgoldest (env st) \<le> last1 \<Longrightarrow> False" using that by (simp add: g_def)
    then obtain db' where db': "get_db st FREE_DBI = Some db'" "md_root db' = P_INVALID" using src by (auto simp: last1_def)
    have k: "bytes64 last1 \<noteq> []" by (metis length_bytes64 list.size(3) zero_neq_numeral)
    have "op = MDB_FIRST \<or> op = MDB_SET_RANGE" by (simp add: op_def)
    note fe = free_empty_get [OF _ t'(2) _ _ db'(2) _ db(4) this k, of "sx g b" m2]
    obtain c where "mdb_cursor_get m2 (Some (bytes64 last1)) False op (sx g b) = Some (MDB_NOTFOUND, None, None, (sx g b)\<lparr>crs := (crs (sx g b))(m2 := c)\<rparr>)"
      using fe t'(1) db'(1) db(3) by (auto simp: sxs m' b_def)
    moreover have "(sx g b)\<lparr>crs := (crs (sx g b))(m2 := c)\<rparr> = sx g c" by (simp add: sx_def upd_env_def m' n_def)
    ultimately show ?thesis by metis
  qed
  have e0: "env st0 = env st" by (simp add: m')
  have "\<exists>c. alloc_loop (Suc f) 1 MDB_FIRST r 0 0 False m2 st0 = Some (NoRun, sx g c)"
  proof (cases "g \<le> last1")
    case True
    then show ?thesis using pg init ref by (intro exI [of _ b]) (cases "me_pghead (env st)"; simp add: e0 sxs last1_def Let_def)
  next
    case False
    then obtain c where c: "mdb_cursor_get m2 (Some (bytes64 last1)) False op (sx g b) = Some (MDB_NOTFOUND, None, None, sx g c)" using get by blast
    show ?thesis using pg init ref c False
      by (intro exI [of _ c]) (cases "me_pghead (env st)"; simp add: e0 sxs last1_def op_def Let_def cong: if_cong)
  qed
  moreover have "g \<in> {me_pgoldest (env st), the (mdb_find_oldest st)}" using old by (simp add: g_def)
  ultimately show ?thesis using drop n_def by blast
qed


section \<open>Taking a page\<close>

lemma page_malloc_run:
  assumes w: "writer_ok st t"
  shows "\<exists>a dp mp k. mdb_page_malloc st 1 = (Some (PMem a), st\<lparr>env := (env st)\<lparr>me_dpages := dp\<rparr>, heap := (heap st)(a \<mapsto> mp), nalloc := k\<rparr>) \<and>
     nalloc st \<le> k \<and> a < k \<and> a \<notin> set dp \<and> set dp \<subseteq> set (me_dpages (env st)) \<and> distinct dp \<and> PMem a \<notin> mptr ` dirty_of t"
proof (cases "me_dpages (env st)")
  case Nil
  have "heap st (nalloc st) = None" using w by (simp add: writer_ok_def)
  then have "PMem (nalloc st) \<notin> mptr ` dirty_of t" using writer_okD(4) [OF w] by fastforce
  moreover have "env st = (env st)\<lparr>me_dpages := []\<rparr>" using Nil by simp
  ultimately show ?thesis using w Nil
    by (intro exI [of _ "nalloc st"] exI [of _ "[]"] exI [of _ "blank_page\<lparr>mp_data := replicate (me_psize (env st) * 1 - PAGEHDRSZ) 0\<rparr>"]
        exI [of _ "nalloc st + 1"]) (simp add: mdb_page_malloc_def writer_ok_def mem_of_def tick_def)
next
  case (Cons a dp)
  then have "heap st a \<noteq> None" using w by (simp add: writer_ok_def)
  then obtain mp where mp: "heap st a = Some mp" by blast
  have "a < nalloc st" using writer_okD(7) [OF w, of a] mp by (cases "a < nalloc st") simp_all
  moreover have "PMem a \<notin> mptr ` dirty_of t" using writer_okD(4) [OF w] Cons by fastforce
  moreover have "a \<notin> set dp \<and> distinct dp" using w Cons by (simp add: writer_ok_def)
  ultimately show ?thesis using mp Cons
    by (intro exI [of _ a] exI [of _ dp] exI [of _ mp] exI [of _ "nalloc st"])
       (auto simp: mdb_page_malloc_def upd_env_def fun_upd_idem)
qed

text \<open>
  Page \<open>pg\<close> with contents \<open>q\<close> in buffer \<open>a\<close> is new in the transaction; it was a reclaimed page or the
  one after the last.
\<close>

definition gained :: "st \<Rightarrow> MDB_txn \<Rightarrow> st \<Rightarrow> MDB_txn \<Rightarrow> nat \<Rightarrow> pgno_t \<Rightarrow> MDB_page \<Rightarrow> bool" where
  "gained st t st' t' a pg q \<longleftrightarrow> writer_ok st' t' \<and> heap st' = (heap st)(a \<mapsto> q) \<and> mp_pgno q = pg \<and> pg \<notin> mid ` dirty_of t \<and>
     (pg \<in> set (pghead_ids st) \<and> mt_next_pgno t' = mt_next_pgno t \<or>
      pg = mt_next_pgno t \<and> unat (mt_next_pgno t') = unat (mt_next_pgno t) + 1) \<and>
     dirty_of t' = insert \<lparr>mid = pg, mptr = PMem a\<rparr> (dirty_of t) \<and> PMem a \<notin> mptr ` dirty_of t \<and>
     id2l_count (mt_dirty_list t') = id2l_count (mt_dirty_list t) + 1 \<and>
     (\<exists>dl n. t' = t\<lparr>mt_dirty_list := dl, mt_dirty_room := mt_dirty_room t - 1, mt_next_pgno := n\<rparr>) \<and>
     (\<exists>h dp g m k. st' = st\<lparr>env := (env st)\<lparr>me_pghead := h, me_dpages := dp, me_pgoldest := g\<rparr>, txns := [t'], ncrs := m,
        heap := (heap st)(a \<mapsto> q), nalloc := k\<rparr> \<and> ncrs st \<le> m \<and> g \<in> {me_pgoldest (env st), the (mdb_find_oldest st)}) \<and>
     pghead_ids st' = remove1 pg (pghead_ids st)"

lemma page_dirty_run:
  assumes t: "txns st = [t]" "\<not> anyset (me_flags (env st)) MDB_WRITEMAP" and a: "heap st a = Some q"
    and dl: "id2l_ok (mt_dirty_list t)" "id2l_sorted (mt_dirty_list t)" "mp_pgno q \<notin> mid ` dirty_of t" "id2l_count (mt_dirty_list t) < MDB_IDL_UM_MAX"
  shows "\<exists>dl. mdb_page_dirty st (PMem a) = Some (st\<lparr>txns := [t\<lparr>mt_dirty_list := dl, mt_dirty_room := mt_dirty_room t - 1\<rparr>]\<rparr>) \<and>
     id2l_ok dl \<and> id2l_sorted dl \<and> id2l_count dl = id2l_count (mt_dirty_list t) + 1 \<and>
     set (id2l_elems dl) = insert \<lparr>mid = mp_pgno q, mptr = PMem a\<rparr> (dirty_of t)"
proof -
  define e where "e = \<lparr>mid = mp_pgno q, mptr = PMem a\<rparr>"
  obtain dl where i: "mdb_mid2l_insert (mt_dirty_list t) e = Some (0, dl)" "id2l_sorted dl" "id2l_ok dl"
    "id2l_count dl = id2l_count (mt_dirty_list t) + 1" "mset (id2l_elems dl) = add_mset e (mset (id2l_elems (mt_dirty_list t)))"
    using mid2l_insert_cases [OF dl(1,2), of e] dl(3,4) by (auto simp: e_def)
  have "set (id2l_elems dl) = insert e (dirty_of t)" by (metis i(5) set_mset_add_mset_insert set_mset_mset)
  moreover have "mdb_page_dirty st (PMem a) = Some (st\<lparr>txns := [t\<lparr>mt_dirty_list := dl, mt_dirty_room := mt_dirty_room t - 1\<rparr>]\<rparr>)"
    using t a i(1) by (simp add: mdb_page_dirty_def get_txn_def get_page_def Let_def e_def [symmetric] upd_txn_def)
  ultimately show ?thesis using i unfolding e_def by blast
qed


lemma take_last: "length xs = Suc n \<Longrightarrow> distinct xs \<Longrightarrow> take n xs = remove1 (xs ! n) xs"
proof -
  assume l: "length xs = Suc n" and d: "distinct xs"
  have x: "xs = take n xs @ [xs ! n]" using l by (metis lessI take_Suc_conv_app_nth take_all order_refl)
  then have "xs ! n \<notin> set (take n xs)" using d by (metis distinct_append disjoint_insert(1) list.set_intros(1) list.simps(15))
  then have "remove1 (xs ! n) (take n xs @ [xs ! n]) = take n xs" by (simp add: remove1_append)
  then show ?thesis using x by simp
qed

text \<open>Taking the last entry of the list of reclaimed pages.\<close>

lemma pghead_take:
  assumes wf: "idl_wf mop" and n: "idl_count (idl_ids mop) = Suc n" and ids: "idl_elems (idl_ids mop) = xs" "distinct xs"
  defines "mop' \<equiv> mop\<lparr>idl_ids := (idl_ids mop)[0 := of_nat n]\<rparr>"
  shows "wr (idl_ids mop) 0 (of_nat n) = Some (idl_ids mop')" "idl_wf mop'" "idl_elems (idl_ids mop') = remove1 (xs ! n) xs"
    "rd (idl_ids mop) (Suc n) = Some (xs ! n)" "length xs = Suc n"
proof -
  note w = idl_wfD [OF wf]
  have s: "Suc n < length (idl_ids mop)" "n < 2 ^ 64" using w(1,2) n unat64_less [of "idl_ids mop ! 0"] by simp_all
  then have c: "idl_count (idl_ids mop') = n" using w(4) by (simp add: mop'_def)
  show "length xs = Suc n" using ids(1) n by (metis length_idl_elems)
  have x: "xs ! i = idl_ids mop ! Suc i" if "i < Suc n" for i using ids(1) n that by (auto simp: idl_elems_def)
  show "wr (idl_ids mop) 0 (of_nat n) = Some (idl_ids mop')" using w(4) by (simp add: mop'_def)
  show "idl_wf mop'" using w(1,2) n c by (simp add: idl_wf_def mop'_def)
  show "rd (idl_ids mop) (Suc n) = Some (xs ! n)" using s x by simp
  have "idl_elems (idl_ids mop') = take n xs"
  proof (rule nth_equalityI)
    show "length (idl_elems (idl_ids mop')) = length (take n xs)" using \<open>length xs = Suc n\<close> c by (simp add: length_idl_elems)
    fix i assume "i < length (idl_elems (idl_ids mop'))"
    then have "i < n" using c by (simp add: length_idl_elems)
    then show "idl_elems (idl_ids mop') ! i = take n xs ! i" using x c by (simp add: idl_elems_def mop'_def)
  qed
  then show "idl_elems (idl_ids mop') = remove1 (xs ! n) xs" using take_last [OF \<open>length xs = Suc n\<close> ids(2)] by simp
qed

text \<open>What the store of the page's number and its entry in the dirty list leave.\<close>

lemma alloc_finish:
  assumes w: "writer_ok st t" and room: "id2l_count (mt_dirty_list t) < MDB_IDL_UM_MAX"
    and a: "a < k" "nalloc st \<le> k" "a \<notin> set dp" "set dp \<subseteq> set (me_dpages (env st))" "distinct dp" "PMem a \<notin> mptr ` dirty_of t"
    and pg: "pg \<in> set (pghead_ids st) \<and> next = mt_next_pgno t \<or> pg = mt_next_pgno t \<and> unat next = unat (mt_next_pgno t) + 1"
    and h: "(case h of None \<Rightarrow> [] | Some mop \<Rightarrow> idl_elems (idl_ids mop)) = remove1 pg (pghead_ids st)" "\<forall>mop. h = Some mop \<longrightarrow> idl_wf mop"
    and st1: "st1 = st\<lparr>env := (env st)\<lparr>me_pghead := h, me_dpages := dp, me_pgoldest := g\<rparr>, txns := [t\<lparr>mt_next_pgno := next\<rparr>], ncrs := m,
        heap := (heap st)(a \<mapsto> mp), nalloc := k\<rparr>" and m: "ncrs st \<le> m" "g \<in> {me_pgoldest (env st), the (mdb_find_oldest st)}"
  shows "\<exists>st' t' q. (do { mp \<leftarrow> get_page st1 (PMem a); st \<leftarrow> put_page st1 (PMem a) (mp\<lparr>mp_pgno := pg\<rparr>); st \<leftarrow> mdb_page_dirty st (PMem a);
     Some (MDB_SUCCESS, PMem a, st) }) = Some (0, PMem a, st') \<and> gained st t st' t' a pg q"
proof -
  note ok = writer_okD [OF w]
  define q where "q = mp\<lparr>mp_pgno := pg\<rparr>"
  define st2 where "st2 = st\<lparr>env := (env st)\<lparr>me_pghead := h, me_dpages := dp, me_pgoldest := g\<rparr>, txns := [t\<lparr>mt_next_pgno := next\<rparr>], ncrs := m,
        heap := (heap st)(a \<mapsto> q), nalloc := k\<rparr>"
  have new: "pg \<notin> mid ` dirty_of t" using pg ok(3,12) by fastforce
  have pw: "id2l_ok (mt_dirty_list t)" "id2l_sorted (mt_dirty_list t)" "\<not> anyset (me_flags (env st)) MDB_WRITEMAP"
    using ok(1) by (simp_all add: plain_writer_def)
  obtain dl where d: "mdb_page_dirty st2 (PMem a) = Some (st2\<lparr>txns := [t\<lparr>mt_next_pgno := next\<rparr>\<lparr>mt_dirty_list := dl, mt_dirty_room := mt_dirty_room t - 1\<rparr>]\<rparr>)"
    "id2l_ok dl" "id2l_sorted dl" "id2l_count dl = id2l_count (mt_dirty_list t) + 1"
    "set (id2l_elems dl) = insert \<lparr>mid = pg, mptr = PMem a\<rparr> (dirty_of t)"
    using page_dirty_run [of st2 "t\<lparr>mt_next_pgno := next\<rparr>" a q] pw new room by (auto simp: st2_def q_def)
  define t' where "t' = t\<lparr>mt_dirty_list := dl, mt_dirty_room := mt_dirty_room t - 1, mt_next_pgno := next\<rparr>"
  define st' where "st' = st\<lparr>env := (env st)\<lparr>me_pghead := h, me_dpages := dp, me_pgoldest := g\<rparr>, txns := [t'], ncrs := m,
        heap := (heap st)(a \<mapsto> q), nalloc := k\<rparr>"
  have e: "st1\<lparr>heap := (heap st1)(a \<mapsto> q)\<rparr> = st2" "st2\<lparr>txns := [t\<lparr>mt_next_pgno := next\<rparr>\<lparr>mt_dirty_list := dl, mt_dirty_room := mt_dirty_room t - 1\<rparr>]\<rparr> = st'"
    by (rule st.equality; simp add: st1 st2_def st'_def t'_def)+
  have a1: "heap st1 a = Some mp" by (simp add: st1)
  have run: "do { mp \<leftarrow> get_page st1 (PMem a); st \<leftarrow> put_page st1 (PMem a) (mp\<lparr>mp_pgno := pg\<rparr>); st \<leftarrow> mdb_page_dirty st (PMem a);
     Some (MDB_SUCCESS, PMem a, st) } = Some (0, PMem a, st')"
    using d(1) e a1 by (simp add: get_page_def put_page_def q_def [symmetric] MDB_SUCCESS_def)
  have le: "mt_next_pgno t \<le> next" "pg < next" "\<forall>x \<in> set (pghead_ids st). x < next"
    using pg ok(12) by (auto simp: word_le_nat_alt word_less_nat_alt) (metis less_SucI word_less_nat_alt)
  have pgh: "pghead_ids st' = remove1 pg (pghead_ids st)" using h(1) by (simp add: pghead_ids_def st'_def split: option.splits)
  have pw': "plain_writer st' t'" using ok(1) d(2,3) by (simp add: plain_writer_def st'_def t'_def)
  have dirty: "dirty_of t' = insert \<lparr>mid = pg, mptr = PMem a\<rparr> (dirty_of t)" using d(5) by (simp add: t'_def)
  have keep: "\<forall>e \<in> dirty_of t'. mid e < mt_next_pgno t' \<and> (\<exists>b mp. mptr e = PMem b \<and> heap st' b = Some mp \<and> mp_pgno mp = mid e \<and>
        b \<notin> set (me_dpages (env st')))"
  proof
    fix e assume "e \<in> dirty_of t'"
    then consider "e = \<lparr>mid = pg, mptr = PMem a\<rparr>" | "e \<in> dirty_of t" unfolding dirty by blast
    then show "mid e < mt_next_pgno t' \<and> (\<exists>b mp. mptr e = PMem b \<and> heap st' b = Some mp \<and> mp_pgno mp = mid e \<and> b \<notin> set (me_dpages (env st')))"
    proof cases
      case 1
      then show ?thesis using le(2) a(3) by (simp add: st'_def t'_def q_def)
    next
      case 2
      obtain b mp' where b: "mptr e = PMem b" "heap st b = Some mp'" "mp_pgno mp' = mid e" "b \<notin> set (me_dpages (env st))" using ok(4) [OF 2] by blast
      moreover have "b \<noteq> a" using a(6) 2 b(1) by (metis image_eqI)
      moreover have "mid e < next" using ok(3) [OF 2] le(1) by simp
      ultimately show ?thesis using a(4) by (auto simp: st'_def t'_def)
    qed
  qed
  have "writer_ok st' t'"
    unfolding writer_ok_def
  proof (intro conjI)
    show "\<forall>x \<in> set (pghead_ids st'). x < mt_next_pgno t' \<and> x \<notin> mid ` dirty_of t'"
      using ok(11,12) le(3) unfolding pgh dirty by (auto simp: t'_def)
    show "\<forall>b \<ge> nalloc st'. heap st' b = None" "\<forall>b \<in> set (me_dpages (env st')). heap st' b \<noteq> None" "distinct (me_dpages (env st'))"
      "\<forall>m \<ge> ncrs st'. crs st' m = None" "\<forall>n s. malloc_ok st' n s" "\<forall>mop. me_pghead (env st') = Some mop \<longrightarrow> idl_wf mop"
      using a ok(5,7,8,9) h(2) m(1) by (auto simp: st'_def)
  qed (use pw' keep ok(2,11) pgh in \<open>simp_all add: t'_def\<close>)
  moreover have "heap st' = (heap st)(a \<mapsto> q)" "mp_pgno q = pg" "id2l_count (mt_dirty_list t') = id2l_count (mt_dirty_list t) + 1"
    "mt_next_pgno t' = next"
    using d(4) by (simp_all add: st'_def t'_def q_def)
  ultimately have "gained st t st' t' a pg q"
    unfolding gained_def using new pg dirty a(6) pgh m st'_def t'_def by blast
  then show ?thesis using run by blast
qed


section \<open>Allocating one page\<close>

text \<open>\<open>n\<close> more pages can be taken: from the reclaimed pages, or after the last page of the file.\<close>

definition pages_ready :: "nat \<Rightarrow> st \<Rightarrow> MDB_txn \<Rightarrow> bool" where
  "pages_ready n st t \<longleftrightarrow> n \<le> mt_dirty_room t \<and> id2l_count (mt_dirty_list t) + n \<le> MDB_IDL_UM_MAX \<and> free_db_ok st \<and>
     (n \<le> length (pghead_ids st) \<or> nothing_to_reclaim st \<and> unat (mt_next_pgno t) + n < unat (me_maxpg (env st)))"

lemma find_oldest_cong: "me_txns (env st') = me_txns (env st) \<Longrightarrow> txns st = [t] \<Longrightarrow> txns st' = [t'] \<Longrightarrow> mt_txnid t' = mt_txnid t \<Longrightarrow>
   mdb_find_oldest st' = mdb_find_oldest st"
  by (simp add: mdb_find_oldest_def get_txn_def)

lemma gained_oldest: "gained st t st' t' a pg q \<Longrightarrow> txns st = [t] \<Longrightarrow> mdb_find_oldest st' = mdb_find_oldest st"
proof -
  assume g: "gained st t st' t' a pg q" and t: "txns st = [t]"
  have "me_txns (env st') = me_txns (env st)" "txns st' = [t']" "mt_txnid t' = mt_txnid t" using g unfolding gained_def by auto
  then show ?thesis using find_oldest_cong t by blast
qed

lemma gained_ready:
  assumes g: "gained st t st' t' a pg q" and t: "txns st = [t]" and r: "pages_ready (Suc n) st t"
  shows "pages_ready n st' t'"
proof -
  obtain dl nx where t': "t' = t\<lparr>mt_dirty_list := dl, mt_dirty_room := mt_dirty_room t - 1, mt_next_pgno := nx\<rparr>"
    using g unfolding gained_def by blast
  obtain h dp o' m k where st': "st' = st\<lparr>env := (env st)\<lparr>me_pghead := h, me_dpages := dp, me_pgoldest := o'\<rparr>, txns := [t'], ncrs := m,
        heap := (heap st)(a \<mapsto> q), nalloc := k\<rparr>" and o': "o' \<in> {me_pgoldest (env st), the (mdb_find_oldest st)}"
    using g unfolding gained_def by blast
  have dbs: "get_db st' = get_db st" "get_dbflag st' = get_dbflag st"
    by (simp_all add: fun_eq_iff get_db_def get_dbflag_def get_txn_def t st' t')
  have e: "me_pglast (env st') = me_pglast (env st)" "me_pgoldest (env st') = o'" "me_maxpg (env st') = me_maxpg (env st)" by (simp_all add: st')
  have rec: "nothing_to_reclaim st' " if "nothing_to_reclaim st"
    using that o' unfolding nothing_to_reclaim_def gained_oldest [OF g t] dbs e by auto
  have c: "id2l_count (mt_dirty_list t') = id2l_count (mt_dirty_list t) + 1" "mt_dirty_room t' = mt_dirty_room t - 1"
    using g by (simp_all add: gained_def t')
  have "pghead_ids st' = remove1 pg (pghead_ids st)" using g by (simp add: gained_def)
  then have len: "length (pghead_ids st) \<le> Suc (length (pghead_ids st'))" by (auto simp: length_remove1 split: nat_diff_split)
  have nx: "unat (mt_next_pgno t') \<le> Suc (unat (mt_next_pgno t))" using g unfolding gained_def by auto
  have f: "free_db_ok st'" using r by (simp add: pages_ready_def free_db_ok_def dbs)
  have "n \<le> length (pghead_ids st') \<or> nothing_to_reclaim st' \<and> unat (mt_next_pgno t') + n < unat (me_maxpg (env st'))"
    using r len nx rec e(3) unfolding pages_ready_def by auto
  then show ?thesis using r f c unfolding pages_ready_def by auto
qed


text \<open>What the search changes does not matter for the pages.\<close>

lemma writer_ok_search: "writer_ok st t \<Longrightarrow> ncrs st \<le> m \<Longrightarrow> writer_ok (st\<lparr>env := (env st)\<lparr>me_pgoldest := g\<rparr>, ncrs := m\<rparr>) t"
  unfolding writer_ok_def plain_writer_def pghead_ids_def by auto

lemma alloc_take_run:
  assumes w: "writer_ok st t" and room: "id2l_count (mt_dirty_list t) < MDB_IDL_UM_MAX" and m: "ncrs st \<le> m" "g \<in> {me_pgoldest (env st), the (mdb_find_oldest st)}"
    and src: "i = 0 \<and> pg = mt_next_pgno t \<and> unat pg + 1 < 2 ^ 64 \<or>
      i \<noteq> 0 \<and> (\<exists>mop. me_pghead (env st) = Some mop \<and> idl_count (idl_ids mop) = i \<and> pg = pghead_ids st ! (i - 1))"
  shows "\<exists>st' t' a q. alloc_take 1 i pg (st\<lparr>env := (env st)\<lparr>me_pgoldest := g\<rparr>, ncrs := m\<rparr>) = Some (0, PMem a, st') \<and> gained st t st' t' a pg q"
proof -
  define st1 where "st1 = st\<lparr>env := (env st)\<lparr>me_pgoldest := g\<rparr>, ncrs := m\<rparr>"
  note ok = writer_okD [OF w]
  have t: "txns st = [t]" "\<not> anyset (me_flags (env st)) MDB_WRITEMAP" using ok(1) by (simp_all add: plain_writer_def)
  have w1: "writer_ok st1 t" unfolding st1_def by (rule writer_ok_search [OF w m(1)])
  obtain a dp mp k where a: "mdb_page_malloc st1 1 = (Some (PMem a), st1\<lparr>env := (env st1)\<lparr>me_dpages := dp\<rparr>, heap := (heap st1)(a \<mapsto> mp), nalloc := k\<rparr>)"
    "nalloc st1 \<le> k" "a < k" "a \<notin> set dp" "set dp \<subseteq> set (me_dpages (env st1))" "distinct dp" "PMem a \<notin> mptr ` dirty_of t"
    using page_malloc_run [OF w1] by blast
  define tail where "tail = (\<lambda>st. do { mp \<leftarrow> get_page st (PMem a); st \<leftarrow> put_page st (PMem a) (mp\<lparr>mp_pgno := pg\<rparr>);
     st \<leftarrow> mdb_page_dirty st (PMem a); Some (MDB_SUCCESS, PMem a, st) })"
  define wth where "wth = (\<lambda>h nx. st\<lparr>env := (env st)\<lparr>me_pghead := h, me_dpages := dp, me_pgoldest := g\<rparr>, txns := [t\<lparr>mt_next_pgno := nx\<rparr>], ncrs := m,
        heap := (heap st)(a \<mapsto> mp), nalloc := k\<rparr>)"
  have s1: "env st1 = (env st)\<lparr>me_pgoldest := g\<rparr>" "txns st1 = [t]" "heap st1 = heap st" "nalloc st1 = nalloc st" by (simp_all add: st1_def t)
  have fin: "\<exists>st' t' q. tail (wth h nx) = Some (0, PMem a, st') \<and> gained st t st' t' a pg q"
    if "pg \<in> set (pghead_ids st) \<and> nx = mt_next_pgno t \<or> pg = mt_next_pgno t \<and> unat nx = unat (mt_next_pgno t) + 1"
      "(case h of None \<Rightarrow> [] | Some mop \<Rightarrow> idl_elems (idl_ids mop)) = remove1 pg (pghead_ids st)" "\<forall>mop. h = Some mop \<longrightarrow> idl_wf mop" for h nx
    unfolding tail_def
    by (rule alloc_finish [OF w room a(3) _ a(4) _ a(6,7) that wth_def [THEN fun_cong, THEN fun_cong] m]) (use a(2,5) in \<open>simp_all add: s1\<close>)
  show ?thesis
  proof (cases "i = 0")
    case True
    have "alloc_take 1 i pg st1 = tail (wth (me_pghead (env st)) (pg + 1))"
    proof -
      have "upd_txn (\<lambda>t. t\<lparr>mt_next_pgno := pg + 1\<rparr>) (st1\<lparr>env := (env st1)\<lparr>me_dpages := dp\<rparr>, heap := (heap st1)(a \<mapsto> mp), nalloc := k\<rparr>)
          = wth (me_pghead (env st)) (pg + 1)"
        by (rule st.equality) (simp_all add: upd_txn_def wth_def st1_def t)
      then show ?thesis using True t(2) a(1) by (simp add: alloc_take_def s1 tail_def)
    qed
    moreover have "pg = mt_next_pgno t" "unat (pg + 1) = unat (mt_next_pgno t) + 1" using src True unat_add_small [of pg 1] by auto
    moreover have "pg \<notin> set (pghead_ids st)" using ok(12) \<open>pg = mt_next_pgno t\<close> by blast
    moreover have "(case me_pghead (env st) of None \<Rightarrow> [] | Some mop \<Rightarrow> idl_elems (idl_ids mop)) = pghead_ids st" by (simp add: pghead_ids_def)
    ultimately show ?thesis using fin [of "pg + 1" "me_pghead (env st)"] ok(10) unfolding st1_def by (metis remove1_idem)
  next
    case False
    then obtain mop j where mop: "me_pghead (env st) = Some mop" "i = Suc j" "idl_count (idl_ids mop) = Suc j" "pg = pghead_ids st ! j"
      using src by (cases i) auto
    note pt = pghead_take [OF ok(10) [OF mop(1)] mop(3) pghead_ids_elems(1) [OF mop(1), symmetric] ok(11)]
    define mop' where "mop' = mop\<lparr>idl_ids := (idl_ids mop)[0 := of_nat j]\<rparr>"
    note pt = pt [folded mop'_def, folded mop(4)]
    have "alloc_take 1 i pg st1 = tail (wth (Some mop') (mt_next_pgno t))"
    proof -
      have "set_pghead (Some mop') (st1\<lparr>env := (env st1)\<lparr>me_dpages := dp\<rparr>, heap := (heap st1)(a \<mapsto> mp), nalloc := k\<rparr>)
          = wth (Some mop') (mt_next_pgno t)"
        by (rule st.equality) (simp_all add: set_pghead_def upd_env_def wth_def st1_def t)
      moreover have "rd (idl_ids mop) 0 = Some (idl_ids mop ! 0)" by (rule idl_wfD(3) [OF ok(10) [OF mop(1)]])
      moreover have "mop\<lparr>idl_ids := idl_ids mop'\<rparr> = mop'" by (simp add: mop'_def)
      ultimately show ?thesis using t(2) a(1) mop(1,3) pt(1) by (simp add: alloc_take_def s1 tail_def mop(2))
    qed
    moreover have "pg \<in> set (pghead_ids st)" using pt(5) mop(4) by simp
    ultimately show ?thesis using fin [of "mt_next_pgno t" "Some mop'"] pt(2,3) unfolding st1_def by auto
  qed
qed

lemma page_alloc_run:
  assumes w: "writer_ok st t" and r: "pages_ready (Suc n) st t"
  shows "\<exists>st' t' a pg q. mdb_page_alloc mc 1 st = Some (0, PMem a, st') \<and> gained st t st' t' a pg q"
proof -
  note ok = writer_okD [OF w]
  have t: "txns st = [t]" using ok(1) by (simp add: plain_writer_def)
  have room: "id2l_count (mt_dirty_list t) < MDB_IDL_UM_MAX" "mt_dirty_room t \<noteq> 0" using r by (simp_all add: pages_ready_def)
  have free: "free_db_ok st" using r by (simp add: pages_ready_def)
  obtain db where db: "get_db st FREE_DBI = Some db" using free by (auto simp: free_db_ok_def)
  obtain m2 st0 where m: "local_cursor (blank_cursor FREE_DBI) st = (m2, st0)" by fastforce
  define f where "f = Suc (unat (md_entries db))"
  define rest where "rest = (\<lambda>(e, st). let st = drop_cursor m2 st in
      case e of
        Return rc \<Rightarrow> Some (rc, PNull, st)
      | Fail rc \<Rightarrow> Some (rc, PNull, set_txn_error st)
      | Run i \<Rightarrow> do { pghead \<leftarrow> me_pghead (env st); pg \<leftarrow> rd (idl_ids pghead) i; alloc_take 1 i pg st }
      | NoRun \<Rightarrow> do {
          t \<leftarrow> get_txn st;
          let pg = mt_next_pgno t;
          if pg + of_nat 1 \<ge> me_maxpg (env st) then Some (MDB_MAP_FULL, PNull, set_txn_error st)
          else alloc_take 1 0 pg st })"
  have step: "mdb_page_alloc mc 1 st = alloc_loop (Suc f) 1 MDB_FIRST 60 0 0 False m2 st0 \<bind> rest"
    using ok(2) t room(2) db m unfolding rest_def by (simp add: mdb_page_alloc_def get_txn_def f_def del: alloc_loop.simps One_nat_def)
  show ?thesis
  proof (cases "pghead_ids st = []")
    case False
    obtain mop where mop: "me_pghead (env st) = Some mop" using False by (cases "me_pghead (env st)") (simp_all add: pghead_ids_elems)
    have e: "pghead_ids st = idl_elems (idl_ids mop)" by (rule pghead_ids_elems(1) [OF mop])
    have "0 < idl_count (idl_ids mop)" using False unfolding e by (metis length_greater_0_conv length_idl_elems)
    then obtain i where i: "idl_count (idl_ids mop) = Suc i" by (metis gr0_conv_Suc)
    note pt = pghead_take(4,5) [OF ok(10) [OF mop] i e [symmetric] ok(11)]
    obtain st1 where s: "alloc_loop (Suc f) 1 MDB_FIRST 60 0 0 False m2 st0 = Some (Run (Suc i), st1)" "drop_cursor m2 st1 = st\<lparr>ncrs := ncrs st + 1\<rparr>"
      using alloc_search_run [OF w False m, of f 60] pt(2) by auto
    have "mdb_page_alloc mc 1 st = alloc_take 1 (Suc i) (pghead_ids st ! i) (st\<lparr>ncrs := ncrs st + 1\<rparr>)"
      unfolding step s(1) using s(2) mop pt(1) by (simp add: rest_def)
    moreover have "st\<lparr>ncrs := ncrs st + 1\<rparr> = st\<lparr>env := (env st)\<lparr>me_pgoldest := me_pgoldest (env st)\<rparr>, ncrs := ncrs st + 1\<rparr>" by simp
    ultimately show ?thesis
      using alloc_take_run [OF w room(1), of "ncrs st + 1" "me_pgoldest (env st)" "Suc i" "pghead_ids st ! i"] mop i by auto blast
  next
    case True
    have n: "nothing_to_reclaim st" "unat (mt_next_pgno t) + Suc n < unat (me_maxpg (env st))" using r True by (simp_all add: pages_ready_def)
    obtain st1 g where s: "alloc_loop (Suc f) 1 MDB_FIRST 60 0 0 False m2 st0 = Some (NoRun, st1)"
      "drop_cursor m2 st1 = upd_env (\<lambda>e. e\<lparr>me_pgoldest := g\<rparr>) (st\<lparr>ncrs := ncrs st + 1\<rparr>)" "g \<in> {me_pgoldest (env st), the (mdb_find_oldest st)}"
      using alloc_search_none [OF w True m n(1) free, of f 60] by blast
    have lt: "unat (mt_next_pgno t) + 1 < 2 ^ 64" using n(2) unat64_less [of "me_maxpg (env st)"] by simp
    then have "\<not> mt_next_pgno t + 1 \<ge> me_maxpg (env st)" using n(2) unat_add_small [of "mt_next_pgno t" 1] by (simp add: word_le_nat_alt)
    moreover have "upd_env (\<lambda>e. e\<lparr>me_pgoldest := g\<rparr>) (st\<lparr>ncrs := ncrs st + 1\<rparr>) = st\<lparr>env := (env st)\<lparr>me_pgoldest := g\<rparr>, ncrs := ncrs st + 1\<rparr>"
      by (simp add: upd_env_def)
    ultimately have "mdb_page_alloc mc 1 st = alloc_take 1 0 (mt_next_pgno t) (st\<lparr>env := (env st)\<lparr>me_pgoldest := g\<rparr>, ncrs := ncrs st + 1\<rparr>)"
      unfolding step s(1) using s(2) t by (simp add: rest_def get_txn_def)
    then show ?thesis
      using alloc_take_run [OF w room(1), of "ncrs st + 1" g 0 "mt_next_pgno t"] s(3) lt by auto blast+
  qed
qed

end
