(* ===== verification/Lmdb_Touch_Facts.thy ===== *)
theory Lmdb_Touch_Facts
  imports Lmdb_Alloc_Facts
begin

text \<open>
  Copy on write, as \<open>mdb_page_touch\<close> does it for one page on the stack of a cursor and
  \<open>mdb_cursor_touch\<close> for all of them: afterwards every page on the way to the key is dirty, and the
  tree, whose pages in the file are as they were, holds the same items.
\<close>

section \<open>What a new page leaves\<close>

lemma gained_get:
  assumes w: "writer_ok st t" and g: "gained st t st' t' a pg q"
  shows "mdb_page_get st' pg = Some (0, (PMem a, 1), st')"
    "x \<noteq> pg \<Longrightarrow> mdb_page_get st' x = Some (0, r, st') \<longleftrightarrow> mdb_page_get st x = Some (0, r, st)"
    "mdb_page_get st x = Some (0, (PMem b, l), st) \<Longrightarrow> b \<noteq> a"
proof -
  have pw: "plain_writer st t" "plain_writer st' t'" using w g by (simp_all add: writer_ok_def gained_def)
  have d: "dirty_of t' = insert \<lparr>mid = pg, mptr = PMem a\<rparr> (dirty_of t)" "PMem a \<notin> mptr ` dirty_of t" using g by (simp_all add: gained_def)
  show "mdb_page_get st' pg = Some (0, (PMem a, 1), st')"
    using writer_get_dirty [OF pw(2), of "\<lparr>mid = pg, mptr = PMem a\<rparr>"] d(1) by simp
  show "mdb_page_get st' x = Some (0, r, st') \<longleftrightarrow> mdb_page_get st x = Some (0, r, st)" if x: "x \<noteq> pg"
  proof (cases "x \<in> mid ` dirty_of t")
    case True
    then obtain e where e: "e \<in> dirty_of t" "mid e = x" by blast
    then have e': "e \<in> dirty_of t'" using d(1) by blast
    show ?thesis using writer_get_dirty [OF pw(1) e(1)] writer_get_dirty [OF pw(2) e'] e(2) by simp
  next
    case False
    then have n: "x \<notin> mid ` dirty_of t'" using d(1) x by auto
    have "x < mt_next_pgno t' \<longleftrightarrow> x < mt_next_pgno t"
      using g x unfolding gained_def by (auto simp: word_less_nat_alt less_Suc_eq unsigned_word_eqI)
    then show ?thesis using writer_get_clean [OF pw(1) False] writer_get_clean [OF pw(2) n] by (auto simp: MDB_PAGE_NOTFOUND_def)
  qed
  show "b \<noteq> a" if x: "mdb_page_get st x = Some (0, (PMem b, l), st)"
  proof (cases "x \<in> mid ` dirty_of t")
    case True
    then obtain e where e: "e \<in> dirty_of t" "mid e = x" by blast
    then have "mptr e = PMem b" using writer_get_dirty [OF pw(1) e(1)] x by simp
    then show ?thesis using d(2) e(1) by (metis image_eqI)
  next
    case False
    then show ?thesis using writer_get_clean [OF pw(1) False] x by (auto simp: MDB_PAGE_NOTFOUND_def split: if_splits)
  qed
qed

lemma gained_map: "gained st t st' t' a pg q \<Longrightarrow> me_map (env st') = me_map (env st) \<and> me_psize (env st') = me_psize (env st) \<and>
   txns st' = [t'] \<and> crs st' = crs st \<and> heap st' = (heap st)(a \<mapsto> q) \<and> mt_free_pgs t' = mt_free_pgs t \<and> mt_dbs t' = mt_dbs t \<and>
   mt_cursors t' = mt_cursors t \<and> me_flags (env st') = me_flags (env st)"
  unfolding gained_def by auto

section \<open>The other cursors\<close>

definition follow :: "nat \<Rightarrow> nat \<Rightarrow> page_ref \<Rightarrow> page_ref \<Rightarrow> MDB_cursor \<Rightarrow> MDB_cursor" where
  "follow snum lvl old np c = (if snum \<le> mc_snum c \<and> mc_pg c ! lvl = old then set_pg lvl np c else c)"

lemma touch_cursors_run:
  assumes "\<forall>m \<in> set ms. \<exists>c. crs st m = Some c \<and> stack_full c" "lvl < CURSOR_STACK" "old \<noteq> np"
  shows "touch_cursors ms snum lvl old np st =
     Some (st\<lparr>crs := (\<lambda>m. if m \<in> set ms then map_option (follow snum lvl old np) (crs st m) else crs st m)\<rparr>)"
  using assms(1)
proof (induction ms arbitrary: st)
  case (Cons m ms)
  obtain c where c: "crs st m = Some c" "stack_full c" using Cons.prems by auto
  define c' where "c' = follow snum lvl old np c"
  define st1 where "st1 = st\<lparr>crs := (crs st)(m \<mapsto> c')\<rparr>"
  have full: "stack_full c'" using c(2) by (simp add: c'_def follow_def stack_full_def set_pg_def)
  have "touch_cursors (m # ms) snum lvl old np st = touch_cursors ms snum lvl old np st1"
    using c assms(2) by (auto simp: st1_def c'_def follow_def stack_full_def upd_cur_def fun_upd_idem)
  moreover have "\<forall>x \<in> set ms. \<exists>c. crs st1 x = Some c \<and> stack_full c" using Cons.prems full by (simp add: st1_def)
  moreover have "follow snum lvl old np c' = c'" using assms(2,3) c(2) by (simp add: c'_def follow_def set_pg_def stack_full_def)
  ultimately show ?case using Cons.IH c(1) by (auto simp: st1_def c'_def fun_eq_iff)
qed simp


section \<open>The new page and the old number\<close>

lemma xappend_run:
  assumes wf: "idl_wf idl" and room: "idl_count (idl_ids idl) + 1 \<le> unat (idl_len idl)"
  shows "\<exists>ids. mdb_midl_xappend (idl_ids idl) x = Some ids \<and> idl_wf (idl\<lparr>idl_ids := ids\<rparr>) \<and>
     idl_count ids = idl_count (idl_ids idl) + 1 \<and> idl_elems ids = idl_elems (idl_ids idl) @ [x]"
proof -
  note w = idl_wfD [OF wf]
  define c where "c = idl_count (idl_ids idl)"
  have s: "c + 1 < length (idl_ids idl)" "c < 2 ^ 64 - 1" using w(1) room unat64_less [of "idl_len idl"] by (simp_all add: c_def)
  have n: "unat (idl_ids idl ! 0 + 1) = c + 1" using s(2) unat_add_small [of "idl_ids idl ! 0" 1] by (simp add: c_def)
  define ids where "ids = (idl_ids idl)[0 := idl_ids idl ! 0 + 1, c + 1 := x]"
  have len: "length ids = length (idl_ids idl)" by (simp add: ids_def)
  have n0: "idl_count ids = c + 1" using n s(1) w(4) by (simp add: ids_def)
  have "mdb_midl_xappend (idl_ids idl) x = Some ids" using w(3,4) n s(1) by (simp add: mdb_midl_xappend_def ids_def)
  moreover have "idl_wf (idl\<lparr>idl_ids := ids\<rparr>)" using w(1) room n0 len by (simp add: idl_wf_def c_def)
  moreover have "idl_elems ids = idl_elems (idl_ids idl) @ [x]"
  proof -
    have "idl_elems ids = cells ids 1 (Suc c) @ [ids ! (c + 1)]" using n0 by (simp add: idl_elems_def cells_snoc)
    moreover have "cells ids 1 (Suc c) = idl_elems (idl_ids idl)" unfolding idl_elems_def c_def [symmetric] by (rule cells_cong) (simp add: ids_def)
    ultimately show ?thesis using s(1) by (simp add: ids_def)
  qed
  ultimately show ?thesis using n0 by (simp add: c_def)
qed

text \<open>\<open>mt_free_pgs\<close> can take \<open>n\<close> more page numbers, and page numbers stay below the 48 bits of a node.\<close>

definition free_room :: "nat \<Rightarrow> MDB_txn \<Rightarrow> bool" where
  "free_room n t \<longleftrightarrow> idl_wf (mt_free_pgs t) \<and> idl_count (idl_ids (mt_free_pgs t)) + n < 2 ^ 31 \<and> unat (mt_next_pgno t) + n < 2 ^ 48"

lemma writer_ok_free: "writer_ok st t \<Longrightarrow> st' = st\<lparr>txns := [t\<lparr>mt_free_pgs := f\<rparr>], nalloc := k\<rparr> \<Longrightarrow> nalloc st \<le> k \<Longrightarrow> writer_ok st' (t\<lparr>mt_free_pgs := f\<rparr>)"
  unfolding writer_ok_def plain_writer_def pghead_ids_def by auto

lemma pages_ready_free:
  assumes "pages_ready n st t" "txns st = [t]" "st' = st\<lparr>txns := [t\<lparr>mt_free_pgs := f\<rparr>], nalloc := k\<rparr>"
  shows "pages_ready n st' (t\<lparr>mt_free_pgs := f\<rparr>)"
proof -
  have "get_db st' = get_db st" "get_dbflag st' = get_dbflag st"
    by (simp_all add: fun_eq_iff get_db_def get_dbflag_def get_txn_def assms(2,3))
  moreover have "mdb_find_oldest st' = mdb_find_oldest st" using find_oldest_cong [OF _ assms(2), of st' "t\<lparr>mt_free_pgs := f\<rparr>"] assms(3) by simp
  moreover have "env st' = env st" using assms(3) by simp
  ultimately show ?thesis using assms(1) unfolding pages_ready_def nothing_to_reclaim_def free_db_ok_def pghead_ids_def by simp
qed

text \<open>
  A page \<open>g'\<close> with contents \<open>q\<close> in buffer \<open>a\<close> is new: no number that could be found before refers to
  it, and those refer to what they referred to.
\<close>

definition fresh_page :: "st \<Rightarrow> MDB_txn \<Rightarrow> st \<Rightarrow> MDB_txn \<Rightarrow> nat \<Rightarrow> pgno_t \<Rightarrow> MDB_page \<Rightarrow> bool" where
  "fresh_page st t st' t' a g' q \<longleftrightarrow> writer_ok st' t' \<and> heap st' = (heap st)(a \<mapsto> q) \<and> mp_pgno q = g' \<and>
     mdb_page_get st' g' = Some (0, (PMem a, 1), st') \<and>
     (\<forall>x r. x \<noteq> g' \<longrightarrow> (mdb_page_get st' x = Some (0, r, st') \<longleftrightarrow> mdb_page_get st x = Some (0, r, st))) \<and>
     (\<forall>x b l. mdb_page_get st x = Some (0, (PMem b, l), st) \<longrightarrow> b \<noteq> a) \<and>
     (g' \<in> set (pghead_ids st) \<or> mt_next_pgno t \<le> g') \<and> g' \<notin> mid ` dirty_of t \<and> g' < mt_next_pgno t' \<and> mt_next_pgno t \<le> mt_next_pgno t' \<and>
     set (pghead_ids st') \<subseteq> set (pghead_ids st) - {g'} \<and> dirty_of t' = insert \<lparr>mid = g', mptr = PMem a\<rparr> (dirty_of t) \<and>
     crs st' = crs st \<and> ncrs st \<le> ncrs st' \<and> (\<exists>h dp g. env st' = (env st)\<lparr>me_pghead := h, me_dpages := dp, me_pgoldest := g\<rparr>) \<and>
     (\<exists>dl r n f. t' = t\<lparr>mt_dirty_list := dl, mt_dirty_room := r, mt_next_pgno := n, mt_free_pgs := f\<rparr>)"

lemma gained_fresh:
  assumes w: "writer_ok st t" and g: "gained st t st' t' a pg q"
  shows "fresh_page st t st' t' a pg q"
proof -
  note ok = writer_okD [OF w]
  have n: "pg < mt_next_pgno t'" "mt_next_pgno t \<le> mt_next_pgno t'" using g ok(12) [of pg]
    unfolding gained_def by (auto simp: word_less_nat_alt word_le_nat_alt)
  have "set (pghead_ids st') \<subseteq> set (pghead_ids st) - {pg}" using g ok(11) by (simp add: gained_def)
  moreover have "pg \<in> set (pghead_ids st) \<or> mt_next_pgno t \<le> pg" using g by (auto simp: gained_def)
  moreover obtain h dp o' m k where st': "st' = st\<lparr>env := (env st)\<lparr>me_pghead := h, me_dpages := dp, me_pgoldest := o'\<rparr>, txns := [t'], ncrs := m,
        heap := (heap st)(a \<mapsto> q), nalloc := k\<rparr>" "ncrs st \<le> m"
    using g unfolding gained_def by blast
  moreover have "\<exists>h dp g. env st' = (env st)\<lparr>me_pghead := h, me_dpages := dp, me_pgoldest := g\<rparr>"
    by (intro exI [of _ h] exI [of _ dp] exI [of _ o']) (simp add: st'(1))
  moreover have "ncrs st \<le> ncrs st'" using st' by simp
  moreover have "\<exists>dl r n f. t' = t\<lparr>mt_dirty_list := dl, mt_dirty_room := r, mt_next_pgno := n, mt_free_pgs := f\<rparr>"
  proof -
    obtain dl n where "t' = t\<lparr>mt_dirty_list := dl, mt_dirty_room := mt_dirty_room t - 1, mt_next_pgno := n\<rparr>" using g unfolding gained_def by blast
    then have "t' = t\<lparr>mt_dirty_list := dl, mt_dirty_room := mt_dirty_room t - 1, mt_next_pgno := n, mt_free_pgs := mt_free_pgs t\<rparr>" by simp
    then show ?thesis by blast
  qed
  moreover have "writer_ok st' t'" "mp_pgno q = pg" "pg \<notin> mid ` dirty_of t" "dirty_of t' = insert \<lparr>mid = pg, mptr = PMem a\<rparr> (dirty_of t)"
    using g by (simp_all add: gained_def)
  moreover have "heap st' = (heap st)(a \<mapsto> q)" "crs st' = crs st" using gained_map [OF g] by simp_all
  ultimately show ?thesis
    unfolding fresh_page_def
    by (intro conjI allI impI) (assumption | rule n gained_get [OF w g] | erule gained_get(3) [OF w g])+
qed


lemma fresh_page_free:
  assumes f: "fresh_page st t st1 t1 a g' q" and st2: "st2 = st1\<lparr>txns := [t1\<lparr>mt_free_pgs := idl\<rparr>]\<rparr>"
  shows "fresh_page st t st2 (t1\<lparr>mt_free_pgs := idl\<rparr>) a g' q"
proof -
  have w: "writer_ok st1 t1" using f by (simp add: fresh_page_def)
  have e: "env st2 = env st1" "heap st2 = heap st1" "crs st2 = crs st1" "ncrs st2 = ncrs st1" using st2 by simp_all
  have "txns st1 = [t1]" using writer_okD(1) [OF w] by (simp add: plain_writer_def)
  then have l: "same_lookup st1 st2" using st2 by (simp add: same_lookup_def lookup_part_def)
  have w2: "writer_ok st2 (t1\<lparr>mt_free_pgs := idl\<rparr>)" by (rule writer_ok_free [OF w, where k = "nalloc st1"]) (use st2 in simp_all)
  have p: "pghead_ids st2 = pghead_ids st1" by (simp add: pghead_ids_def e)
  obtain dl r n f' where t1: "t1 = t\<lparr>mt_dirty_list := dl, mt_dirty_room := r, mt_next_pgno := n, mt_free_pgs := f'\<rparr>"
    using f unfolding fresh_page_def by (elim conjE exE) (rule that)
  have "\<exists>dl r n f. t1\<lparr>mt_free_pgs := idl\<rparr> = t\<lparr>mt_dirty_list := dl, mt_dirty_room := r, mt_next_pgno := n, mt_free_pgs := f\<rparr>"
    by (intro exI [of _ dl] exI [of _ r] exI [of _ n] exI [of _ idl]) (simp add: t1)
  then show ?thesis using f w2 unfolding fresh_page_def lookup_get_iff [OF l] e p by simp
qed

text \<open>The first part of \<open>mdb_page_touch\<close>: room in the list of freed pages, the new page, the old number in the list.\<close>

lemma touch_new_page:
  assumes w: "writer_ok st t" and r: "pages_ready (Suc n) st t" and fr: "free_room (Suc n) t"
  shows "\<exists>idl st2 t2 a g' q ids. mdb_midl_need (mem_of st) (mt_free_pgs t) 1 = Some (0, idl) \<and>
     mdb_page_alloc mc 1 (set_free_pgs idl (tick st)) = Some (0, PMem a, st2) \<and> txns st2 = [t2] \<and>
     mdb_midl_xappend (idl_ids (mt_free_pgs t2)) x = Some ids \<and>
     (let f = mt_free_pgs t2\<lparr>idl_ids := ids\<rparr>; st3 = st2\<lparr>txns := [t2\<lparr>mt_free_pgs := f\<rparr>]\<rparr>; t3 = t2\<lparr>mt_free_pgs := f\<rparr> in
      fresh_page st t st3 t3 a g' q \<and> pages_ready n st3 t3 \<and> free_room n t3 \<and>
      idl_elems ids = idl_elems (idl_ids (mt_free_pgs t)) @ [x])"
proof -
  note ok = writer_okD [OF w]
  have t: "txns st = [t]" using ok(1) by (simp add: plain_writer_def)
  have wf: "idl_wf (mt_free_pgs t)" "1 + idl_count (idl_ids (mt_free_pgs t)) < 2 ^ 31" using fr by (simp_all add: free_room_def)
  obtain rc idl where need: "mdb_midl_need (mem_of st) (mt_free_pgs t) 1 = Some (rc, idl)"
    "rc = ENOMEM \<and> idl = mt_free_pgs t
        \<or> rc = 0 \<and> idl_wf idl \<and> idl_ids idl ! 0 = idl_ids (mt_free_pgs t) ! 0
          \<and> idl_elems (idl_ids idl) = idl_elems (idl_ids (mt_free_pgs t))
          \<and> idl_count (idl_ids idl) + 1 \<le> unat (idl_len idl)"
    using midl_need_cases [OF wf, of "mem_of st"] by blast
  have "rc \<noteq> ENOMEM"
  proof -
    have "mem_of st = (\<lambda>_. True)" using ok(8) by (simp add: mem_of_def fun_eq_iff)
    then show ?thesis using need(1) by (auto simp: mdb_midl_need_def Let_def split: Option.bind_splits if_splits)
  qed
  then have idl: "rc = 0" "idl_wf idl" "idl_ids idl ! 0 = idl_ids (mt_free_pgs t) ! 0"
    "idl_elems (idl_ids idl) = idl_elems (idl_ids (mt_free_pgs t))" "idl_count (idl_ids idl) + 1 \<le> unat (idl_len idl)"
    using need(2) by auto
  define t1 where "t1 = t\<lparr>mt_free_pgs := idl\<rparr>"
  define st1 where "st1 = st\<lparr>txns := [t1], nalloc := nalloc st + 1\<rparr>"
  have s1: "set_free_pgs idl (tick st) = st1" using t by (simp add: set_free_pgs_def upd_txn_def tick_def st1_def t1_def)
  have w1: "writer_ok st1 t1" unfolding t1_def by (rule writer_ok_free [OF w, where k = "nalloc st + 1"]) (simp_all add: st1_def t1_def)
  have r1: "pages_ready (Suc n) st1 t1" unfolding t1_def by (rule pages_ready_free [OF r t, where k = "nalloc st + 1"]) (simp add: st1_def t1_def)
  obtain st2 t2 a g' q where al: "mdb_page_alloc mc 1 st1 = Some (0, PMem a, st2)" "gained st1 t1 st2 t2 a g' q"
    using page_alloc_run [OF w1 r1] by blast
  have t1': "txns st1 = [t1]" by (simp add: st1_def)
  have r2: "pages_ready n st2 t2" by (rule gained_ready [OF al(2) t1' r1])
  note gm = gained_map [OF al(2)]
  have t2: "txns st2 = [t2]" "mt_free_pgs t2 = idl" using gm by (simp_all add: t1_def)
  obtain ids where xa: "mdb_midl_xappend (idl_ids idl) x = Some ids" "idl_wf (idl\<lparr>idl_ids := ids\<rparr>)"
     "idl_count ids = idl_count (idl_ids idl) + 1" "idl_elems ids = idl_elems (idl_ids idl) @ [x]"
    using xappend_run [OF idl(2,5)] by blast
  define f where "f = idl\<lparr>idl_ids := ids\<rparr>"
  define st3 where "st3 = st2\<lparr>txns := [t2\<lparr>mt_free_pgs := f\<rparr>]\<rparr>"
  have fp1: "fresh_page st1 t1 st2 t2 a g' q" by (rule gained_fresh [OF w1 al(2)])
  have "fresh_page st t st2 t2 a g' q"
  proof -
    have l: "same_lookup st st1" using t by (simp add: same_lookup_def lookup_part_def st1_def t1_def)
    have e: "env st1 = env st" "heap st1 = heap st" "crs st1 = crs st" "ncrs st1 = ncrs st" "pghead_ids st1 = pghead_ids st"
      "mt_next_pgno t1 = mt_next_pgno t" "mt_dirty_list t1 = mt_dirty_list t" by (simp_all add: st1_def t1_def pghead_ids_def)
    obtain dl r n f' where "t2 = t1\<lparr>mt_dirty_list := dl, mt_dirty_room := r, mt_next_pgno := n, mt_free_pgs := f'\<rparr>"
      using fp1 unfolding fresh_page_def by (elim conjE exE) (rule that)
    then have "t2 = t\<lparr>mt_dirty_list := dl, mt_dirty_room := r, mt_next_pgno := n, mt_free_pgs := f'\<rparr>" by (simp add: t1_def)
    then show ?thesis using fp1 unfolding fresh_page_def lookup_get_iff [OF l] e by blast
  qed
  then have fp: "fresh_page st t st3 (t2\<lparr>mt_free_pgs := f\<rparr>) a g' q" by (rule fresh_page_free) (simp add: st3_def)
  have r3: "pages_ready n st3 (t2\<lparr>mt_free_pgs := f\<rparr>)" by (rule pages_ready_free [OF r2 t2(1), where k = "nalloc st2"]) (simp add: st3_def)
  have nx: "unat (mt_next_pgno t2) \<le> Suc (unat (mt_next_pgno t))" using al(2) unfolding gained_def by (auto simp: t1_def)
  have c: "idl_count ids = Suc (idl_count (idl_ids (mt_free_pgs t)))" using xa(3) idl(3) by simp
  have "free_room n (t2\<lparr>mt_free_pgs := f\<rparr>)" using fr xa(2) nx c unfolding free_room_def f_def by simp
  then show ?thesis using need(1) idl(1,4) s1 al(1) t2 xa(1,4) fp r3 unfolding Let_def st3_def f_def by auto
qed


section \<open>The copy and the reference to it\<close>

text \<open>Dirty pages are marked as such; pages of the file are not, and carry their number.\<close>

definition pages_marked :: "st \<Rightarrow> MDB_txn \<Rightarrow> bool" where
  "pages_marked st t \<longleftrightarrow> (\<forall>e \<in> dirty_of t. \<forall>a mp. mptr e = PMem a \<longrightarrow> heap st a = Some mp \<longrightarrow> F_ISSET (mp_flags mp) P_DIRTY) \<and>
     (\<forall>g mp. me_map (env st) g = Some mp \<longrightarrow> mp_pgno mp = g \<and> \<not> F_ISSET (mp_flags mp) P_DIRTY)"

lemma clean_in_map:
  assumes w: "writer_ok st t" and m: "pages_marked st t" and g: "mdb_page_get st g = Some (0, (p, l), st)" "get_page st p = Some mp"
  shows "F_ISSET (mp_flags mp) P_DIRTY \<Longrightarrow> \<exists>a. p = PMem a \<and> \<lparr>mid = g, mptr = PMem a\<rparr> \<in> dirty_of t \<and> mp_pgno mp = g"
    "\<not> F_ISSET (mp_flags mp) P_DIRTY \<Longrightarrow> p = PMap g \<and> mp_pgno mp = g \<and> g < mt_next_pgno t \<and> g \<notin> mid ` dirty_of t"
proof -
  note ok = writer_okD [OF w]
  have "(if g \<in> mid ` dirty_of t then F_ISSET (mp_flags mp) P_DIRTY \<and> (\<exists>a. p = PMem a \<and> \<lparr>mid = g, mptr = PMem a\<rparr> \<in> dirty_of t \<and> mp_pgno mp = g)
     else \<not> F_ISSET (mp_flags mp) P_DIRTY \<and> p = PMap g \<and> mp_pgno mp = g \<and> g < mt_next_pgno t)"
  proof (cases "g \<in> mid ` dirty_of t")
    case True
    then obtain e where e: "e \<in> dirty_of t" "mid e = g" by blast
    obtain a mp' where a: "mptr e = PMem a" "heap st a = Some mp'" "mp_pgno mp' = mid e" using ok(4) [OF e(1)] by blast
    have "p = PMem a" using writer_get_dirty [OF ok(1) e(1)] e(2) g(1) a(1) by simp
    moreover have "mp' = mp" using g(2) a(2) \<open>p = PMem a\<close> by (simp add: get_page_def)
    moreover have "e = \<lparr>mid = g, mptr = PMem a\<rparr>" using e(2) a(1) by (cases e) simp
    then have "\<lparr>mid = g, mptr = PMem a\<rparr> \<in> dirty_of t" using e(1) by simp
    moreover have "F_ISSET (mp_flags mp') P_DIRTY" using m e(1) a(1,2) unfolding pages_marked_def by blast
    ultimately show ?thesis using True e(2) a(3) by simp
  next
    case False
    then have "p = PMap g" "g < mt_next_pgno t" using writer_get_clean [OF ok(1) False] g(1) by (auto simp: MDB_PAGE_NOTFOUND_def split: if_splits)
    then show ?thesis using False g(2) m unfolding pages_marked_def by (auto simp: get_page_def)
  qed
  then show "F_ISSET (mp_flags mp) P_DIRTY \<Longrightarrow> \<exists>a. p = PMem a \<and> \<lparr>mid = g, mptr = PMem a\<rparr> \<in> dirty_of t \<and> mp_pgno mp = g"
    "\<not> F_ISSET (mp_flags mp) P_DIRTY \<Longrightarrow> p = PMap g \<and> mp_pgno mp = g \<and> g < mt_next_pgno t \<and> g \<notin> mid ` dirty_of t"
    by (auto split: if_splits)
qed

text \<open>The copy that \<open>mdb_page_touch\<close> makes, and the state after its stores.\<close>

definition touched_copy :: "MDB_page \<Rightarrow> MDB_page \<Rightarrow> nat \<Rightarrow> pgno_t \<Rightarrow> MDB_page" where
  "touched_copy q mp psize g' = (let q' = mdb_page_copy q mp psize in q'\<lparr>mp_pgno := g', mp_flags := mp_flags q' OR P_DIRTY\<rparr>)"

definition touch_stored :: "st \<Rightarrow> nat \<Rightarrow> (nat \<times> MDB_page) option \<Rightarrow> nat \<Rightarrow> pgno_t \<Rightarrow> MDB_page \<Rightarrow> st" where
  "touch_stored st dbi up a g' q = (case up of
     None \<Rightarrow> (upd_db dbi (\<lambda>d. d\<lparr>md_root := g'\<rparr>) st)\<lparr>heap := (heap st)(a \<mapsto> q)\<rparr>
   | Some (b, par) \<Rightarrow> st\<lparr>heap := (heap st)(b \<mapsto> par, a \<mapsto> q)\<rparr>)"

lemma dirty_flag:
  fixes f :: "16 word"
  shows "F_ISSET (f OR P_DIRTY) P_LEAF = F_ISSET f P_LEAF" "F_ISSET (f OR P_DIRTY) P_BRANCH = F_ISSET f P_BRANCH"
    "F_ISSET (f OR P_DIRTY) P_LEAF2 = F_ISSET f P_LEAF2" "F_ISSET (f OR P_DIRTY) P_OVERFLOW = F_ISSET f P_OVERFLOW"
    "F_ISSET (f OR P_DIRTY) P_DIRTY"
  by (simp_all add: F_ISSET_def P_DIRTY_def P_LEAF_def P_BRANCH_def P_LEAF2_def P_OVERFLOW_def word_ao_dist)

lemma page_header_ok:
  assumes ok: "page_ok psize mp" and fl: "IS_LEAF mp' = IS_LEAF mp" "IS_LEAF2 mp' = IS_LEAF2 mp"
    and mp': "mp' = mp\<lparr>mp_pgno := g, mp_flags := f\<rparr>"
  shows "page_ok psize mp'" "page_items mp' = page_items mp"
proof -
  have e: "NUMKEYS mp' = NUMKEYS mp" "NODEPTR mp' = NODEPTR mp" by (simp_all add: mp' NUMKEYS_eq NODEPTR_def fun_eq_iff)
  then have it: "page_items mp' = page_items mp" by (simp add: page_items_def)
  have sp: "node_space mp' = node_space mp" "node_ok mp' = node_ok mp" using fl by (auto simp: fun_eq_iff node_space_def node_ok_def)
  then have isp: "item_space mp' = item_space mp" by (simp add: fun_eq_iff item_space_def e)
  have fields: "mp_lower mp' = mp_lower mp" "mp_upper mp' = mp_upper mp" "mp_ptrs mp' = mp_ptrs mp" by (simp_all add: mp')
  show "page_ok psize mp'" using ok fl(2) unfolding page_ok_def e it sp isp fields by simp
  show "page_items mp' = page_items mp" by (rule it)
qed

lemma touched_copy_ok:
  assumes ok: "page_ok psize mp" and fl: "\<not> IS_OVERFLOW mp"
    and q': "q' = touched_copy q mp psize g'"
  shows "page_ok psize q'" "page_items q' = page_items mp" "IS_LEAF q' = IS_LEAF mp" "IS_BRANCH q' = IS_BRANCH mp"
    "mp_pgno q' = g'" "F_ISSET (mp_flags q') P_DIRTY" "IS_OVERFLOW q' = IS_OVERFLOW mp"
proof -
  define cp where "cp = mdb_page_copy q mp psize"
  have c: "mp_flags cp = mp_flags mp" using page_copy_agrees [OF ok fl, of q] by (simp add: cp_def)
  have k: "page_ok psize cp" "page_items cp = page_items mp" using page_copy_ok [OF ok fl, of q] by (simp_all add: cp_def)
  have e: "q' = cp\<lparr>mp_pgno := g', mp_flags := mp_flags cp OR P_DIRTY\<rparr>" by (simp add: q' touched_copy_def Let_def cp_def)
  have f: "IS_LEAF q' = IS_LEAF mp" "IS_BRANCH q' = IS_BRANCH mp" "IS_LEAF2 q' = IS_LEAF2 cp" "IS_OVERFLOW q' = IS_OVERFLOW mp" "IS_LEAF q' = IS_LEAF cp"
    by (simp_all add: e IS_LEAF_def IS_BRANCH_def IS_LEAF2_def IS_OVERFLOW_def c dirty_flag)
  show "IS_LEAF q' = IS_LEAF mp" "IS_BRANCH q' = IS_BRANCH mp" "IS_OVERFLOW q' = IS_OVERFLOW mp" by (fact f)+
  show "mp_pgno q' = g'" "F_ISSET (mp_flags q') P_DIRTY" by (simp_all add: e dirty_flag)
  show "page_ok psize q'" "page_items q' = page_items mp" using page_header_ok [OF k(1) f(5,3) e] k(2) by simp_all
qed

lemma touch_page_run:
  assumes w: "writer_ok st t" "pages_ready (Suc n) st t" "free_room (Suc n) t" "pages_marked st t"
    and c: "crs st mc = Some c" "stack_full c" "mc_top c < CURSOR_STACK" "mc_dbi c = dbi"
    and g: "mdb_page_get st g = Some (0, (mc_pg c ! mc_top c, l), st)" "get_page st (mc_pg c ! mc_top c) = Some mp"
      "\<not> F_ISSET (mp_flags mp) P_DIRTY" "g \<notin> set (pghead_ids st)"
    and up: "0 < mc_top c \<Longrightarrow> mdb_page_get st gp = Some (0, (PMem b, l'), st) \<and> mc_pg c ! (mc_top c - 1) = PMem b \<and>
      heap st b = Some par \<and> mc_ki c ! (mc_top c - 1) = k \<and> NODEPTR par k = Some nd"
  shows "\<exists>st3 t3 a g' q. touch_page mc st = Some (0, Some (PMem a),
       touch_stored st3 dbi (if mc_top c = 0 then None else Some (b, set_node par k (SETPGNO nd g'))) a g' (touched_copy q mp (me_psize (env st)) g')) \<and>
     fresh_page st t st3 t3 a g' q \<and> pages_ready n st3 t3 \<and> free_room n t3 \<and> g \<noteq> g' \<and>
     idl_elems (idl_ids (mt_free_pgs t3)) = idl_elems (idl_ids (mt_free_pgs t)) @ [g]"
proof -
  note ok = writer_okD [OF w(1)]
  have t: "txns st = [t]" "\<not> anyset (mt_flags t) MDB_TXN_SPILLS" using ok(1) by (simp_all add: plain_writer_def)
  have m: "mc_pg c ! mc_top c = PMap g" "mp_pgno mp = g" "g < mt_next_pgno t" using clean_in_map(2) [OF w(1,4) g(1-3)] by blast+
  obtain idl st2 t2 a g' q ids where al: "mdb_midl_need (mem_of st) (mt_free_pgs t) 1 = Some (0, idl)"
     "mdb_page_alloc mc 1 (set_free_pgs idl (tick st)) = Some (0, PMem a, st2)" "txns st2 = [t2]"
     "mdb_midl_xappend (idl_ids (mt_free_pgs t2)) g = Some ids"
    and all: "let f = mt_free_pgs t2\<lparr>idl_ids := ids\<rparr>; st3 = st2\<lparr>txns := [t2\<lparr>mt_free_pgs := f\<rparr>]\<rparr>; t3 = t2\<lparr>mt_free_pgs := f\<rparr> in
      fresh_page st t st3 t3 a g' q \<and> pages_ready n st3 t3 \<and> free_room n t3 \<and>
      idl_elems ids = idl_elems (idl_ids (mt_free_pgs t)) @ [g]"
    using touch_new_page [OF w(1-3), of mc g] by (elim exE conjE) (rule that; assumption)
  define t3 where "t3 = t2\<lparr>mt_free_pgs := mt_free_pgs t2\<lparr>idl_ids := ids\<rparr>\<rparr>"
  define st3 where "st3 = st2\<lparr>txns := [t3]\<rparr>"
  have f: "fresh_page st t st3 t3 a g' q" "pages_ready n st3 t3" "free_room n t3" "idl_elems ids = idl_elems (idl_ids (mt_free_pgs t)) @ [g]"
    using all by (simp_all add: Let_def st3_def t3_def)
  have ne: "g \<noteq> g'" using f(1) g(4) m(3) unfolding fresh_page_def by auto
  have h3: "heap st3 = (heap st)(a \<mapsto> q)" "mp_pgno q = g'" "crs st3 = crs st" using f(1) by (simp_all add: fresh_page_def)
  have e3: "me_map (env st3) = me_map (env st)" "me_psize (env st3) = me_psize (env st)" using f(1) unfolding fresh_page_def by auto
  have ba: "0 < mc_top c \<Longrightarrow> b \<noteq> a" using up f(1) unfolding fresh_page_def by blast
  have h2: "heap st2 = (heap st)(a \<mapsto> q)" using h3(1) by (simp add: st3_def)
  have sf: "set_free_pgs (mt_free_pgs t2\<lparr>idl_ids := ids\<rparr>) st2 = st3" using al(3) by (simp add: set_free_pgs_def upd_txn_def st3_def t3_def)
  define st4 where "st4 = (if mc_top c = 0 then upd_db dbi (\<lambda>d. d\<lparr>md_root := g'\<rparr>) st3 else st3\<lparr>heap := (heap st3)(b \<mapsto> set_node par k (SETPGNO nd g'))\<rparr>)"
  have mg: "me_map (env st) g = Some mp" using g(2) m(1) by (simp add: get_page_def)
  have p: "cur_pg c = Some (PMap g)" "get_page st (PMap g) = Some mp" "get_page st2 (PMem a) = Some q"
    using c(2,3) m(1) mg h2 by (simp_all add: cur_pg_def stack_full_def get_page_def)
  have nf: "\<not> F_ISSET (mp_flags mp) P_DIRTY" "get_txn st = Some t" "get_txn st2 = Some t2" using g(3) t(1) al(3) by (simp_all add: get_txn_def)
  have s3: "heap st3 a = Some q" "me_map (env st3) g = Some mp" "0 < mc_top c \<Longrightarrow> heap st3 b = Some par"
    using h3(1) e3 mg up ba by auto
  note simps = touch_page_def c(1,4) p nf t(2) al(1,2,4) h3(2) m(2) ne sf
  have "touch_page mc st = Some (0, Some (PMem a), st4\<lparr>heap := (heap st4)(a \<mapsto> touched_copy q mp (me_psize (env st)) g')\<rparr>)"
  proof (cases "mc_top c = 0")
    case True
    then show ?thesis by (simp add: simps Let_def del: One_nat_def) (simp add: get_page_def put_page_def s3 e3 mg st4_def touched_copy_def Let_def)
  next
    case False
    then have u: "rd (mc_pg c) (mc_top c - 1) = Some (PMem b)" "rd (mc_ki c) (mc_top c - 1) = Some k" "NODEPTR par k = Some nd" "get_page st3 (PMem b) = Some par"
      using up c(2,3) s3(3) by (simp_all add: stack_full_def get_page_def)
    have ab: "a \<noteq> b" "b \<noteq> a" using ba False by simp_all
    show ?thesis using False u ab
      by (simp add: simps Let_def del: One_nat_def) (simp add: get_page_def put_page_def s3 e3 mg st4_def touched_copy_def Let_def set_node_def)
  qed
  moreover have "st4\<lparr>heap := (heap st4)(a \<mapsto> touched_copy q mp (me_psize (env st)) g')\<rparr> =
      touch_stored st3 dbi (if mc_top c = 0 then None else Some (b, set_node par k (SETPGNO nd g'))) a g' (touched_copy q mp (me_psize (env st)) g')"
    by (simp add: st4_def touch_stored_def)
  moreover have "idl_ids (mt_free_pgs t3) = ids" by (simp add: t3_def)
  ultimately show ?thesis using f ne by metis
qed


section \<open>What the stores change\<close>

lemma writer_ok_heap:
  assumes "writer_ok st t" "heap st a = Some mp" "mp_pgno mp' = mp_pgno mp"
  shows "writer_ok (st\<lparr>heap := (heap st)(a \<mapsto> mp')\<rparr>) t"
proof -
  note ok = writer_okD [OF assms(1)]
  have "\<forall>e \<in> dirty_of t. \<exists>b mq. mptr e = PMem b \<and> ((heap st)(a \<mapsto> mp')) b = Some mq \<and> mp_pgno mq = mid e \<and> b \<notin> set (me_dpages (env st))"
  proof
    fix e assume "e \<in> dirty_of t"
    then obtain b mq where b: "mptr e = PMem b" "heap st b = Some mq" "mp_pgno mq = mid e" "b \<notin> set (me_dpages (env st))" using ok(4) by blast
    then show "\<exists>b mq. mptr e = PMem b \<and> ((heap st)(a \<mapsto> mp')) b = Some mq \<and> mp_pgno mq = mid e \<and> b \<notin> set (me_dpages (env st))"
      using assms(2,3) by (cases "b = a") auto
  qed
  moreover have "a < nalloc st" using ok(7) [of a] assms(2) by (cases "a < nalloc st") simp_all
  ultimately show ?thesis using ok unfolding writer_ok_def plain_writer_def pghead_ids_def by auto
qed

lemma writer_ok_dbs: "writer_ok st t \<Longrightarrow> txns st = [t] \<Longrightarrow> writer_ok (upd_db dbi f st) (t\<lparr>mt_dbs := (mt_dbs t)[dbi := f (mt_dbs t ! dbi)]\<rparr>)"
  unfolding writer_ok_def plain_writer_def pghead_ids_def by (auto simp: upd_db_def upd_txn_def)

lemma dirty_same_ref: "writer_ok st t \<Longrightarrow> e \<in> dirty_of t \<Longrightarrow> e' \<in> dirty_of t \<Longrightarrow> mptr e = mptr e' \<Longrightarrow> e = e'"
proof -
  assume w: "writer_ok st t" and e: "e \<in> dirty_of t" "e' \<in> dirty_of t" "mptr e = mptr e'"
  have "mid e = mid e'" using writer_okD(4) [OF w e(1)] writer_okD(4) [OF w e(2)] e(3) by auto
  then show "e = e'" using dirty_unique [OF _ e(1,2)] writer_okD(1) [OF w] by (simp add: plain_writer_def)
qed

text \<open>The transaction after the stores.\<close>

definition touched_txn :: "MDB_txn \<Rightarrow> nat \<Rightarrow> bool \<Rightarrow> pgno_t \<Rightarrow> MDB_txn" where
  "touched_txn t dbi root g' = (if root then t\<lparr>mt_dbs := (mt_dbs t)[dbi := (mt_dbs t ! dbi)\<lparr>md_root := g'\<rparr>]\<rparr> else t)"

lemma touched_txn_simps [simp]: "mt_dirty_list (touched_txn t dbi root g') = mt_dirty_list t" "mt_next_pgno (touched_txn t dbi root g') = mt_next_pgno t"
  "mt_free_pgs (touched_txn t dbi root g') = mt_free_pgs t" "mt_dirty_room (touched_txn t dbi root g') = mt_dirty_room t"
  "mt_cursors (touched_txn t dbi root g') = mt_cursors t" "mt_flags (touched_txn t dbi root g') = mt_flags t"
  "mt_dbflags (touched_txn t dbi root g') = mt_dbflags t" "mt_txnid (touched_txn t dbi root g') = mt_txnid t"
  "mt_spill_pgs (touched_txn t dbi root g') = mt_spill_pgs t"
  "length (mt_dbs (touched_txn t dbi root g')) = length (mt_dbs t)"
  "i \<noteq> dbi \<Longrightarrow> mt_dbs (touched_txn t dbi root g') ! i = mt_dbs t ! i"
  by (simp_all add: touched_txn_def)

lemma pages_ready_stored:
  assumes r: "pages_ready n st t" "txns st = [t]" and dbi: "dbi \<noteq> FREE_DBI" and t': "t' = touched_txn t dbi root g'"
    and st': "env st' = env st" "txns st' = [t']"
  shows "pages_ready n st' t'"
proof -
  have d: "get_db st' FREE_DBI = get_db st FREE_DBI" "get_dbflag st' = get_dbflag st"
    using dbi by (auto simp: get_db_def get_dbflag_def get_txn_def st' r(2) t' rd_def fun_eq_iff)
  have o': "mdb_find_oldest st' = mdb_find_oldest st" by (rule find_oldest_cong [OF _ r(2) st'(2)]) (simp_all add: st'(1) t')
  show ?thesis using r(1) unfolding pages_ready_def free_db_ok_def nothing_to_reclaim_def pghead_ids_def d o' st'(1) by (simp add: t')
qed

lemma dirty_ref:
  assumes w: "writer_ok st t" and g: "mdb_page_get st g = Some (0, (PMem b, l), st)"
  shows "\<lparr>mid = g, mptr = PMem b\<rparr> \<in> dirty_of t"
proof -
  note ok = writer_okD [OF w]
  have "g \<in> mid ` dirty_of t"
  proof (rule ccontr)
    assume n: "g \<notin> mid ` dirty_of t"
    then show False using writer_get_clean [OF ok(1) n] g by (auto simp: MDB_PAGE_NOTFOUND_def split: if_splits)
  qed
  then obtain e where e: "e \<in> dirty_of t" "mid e = g" by blast
  then have "mptr e = PMem b" using writer_get_dirty [OF ok(1) e(1)] g by simp
  then have "e = \<lparr>mid = g, mptr = PMem b\<rparr>" using e(2) by (cases e) simp
  then show ?thesis using e(1) by simp
qed

lemma touch_stored_ok:
  assumes w: "writer_ok st t" and f: "fresh_page st t st3 t3 a g' q" and m: "pages_marked st t" and dbi: "dbi \<noteq> FREE_DBI"
    and q': "mp_pgno q' = g'" "F_ISSET (mp_flags q') P_DIRTY"
    and up: "up = None \<or> (up = Some (b, par') \<and> mdb_page_get st gp = Some (0, (PMem b, l), st) \<and> heap st b = Some par \<and>
      mp_pgno par' = mp_pgno par \<and> mp_flags par' = mp_flags par)"
    and r: "pages_ready n st3 t3" and st4: "st4 = touch_stored st3 dbi up a g' q'" and t4: "t4 = touched_txn t3 dbi (up = None) g'"
  shows "writer_ok st4 t4" "pages_marked st4 t4" "pages_ready n st4 t4" "mdb_page_get st4 g' = Some (0, (PMem a, 1), st4)"
    "x \<noteq> g' \<Longrightarrow> mdb_page_get st4 x = Some (0, rf, st4) \<longleftrightarrow> mdb_page_get st x = Some (0, rf, st)"
    "page_of st4 g' = Some q'" "up \<noteq> None \<Longrightarrow> page_of st4 gp = Some par'"
    "x \<noteq> g' \<Longrightarrow> (up \<noteq> None \<longrightarrow> x \<noteq> gp) \<Longrightarrow> page_of st4 x = page_of st x"
proof -
  have w3: "writer_ok st3 t3" and h3: "heap st3 = (heap st)(a \<mapsto> q)" "mp_pgno q = g'" and d3: "dirty_of t3 = insert \<lparr>mid = g', mptr = PMem a\<rparr> (dirty_of t)"
    and g3: "mdb_page_get st3 g' = Some (0, (PMem a, 1), st3)" and new: "g' \<notin> mid ` dirty_of t"
    using f by (simp_all add: fresh_page_def)
  have others3: "mdb_page_get st3 x = Some (0, rf, st3) \<longleftrightarrow> mdb_page_get st x = Some (0, rf, st)" if "x \<noteq> g'" for x rf
    using f that unfolding fresh_page_def by blast
  have na: "b \<noteq> a" if "mdb_page_get st x = Some (0, (PMem b, l), st)" for x b l using f that unfolding fresh_page_def by blast
  have t3: "txns st3 = [t3]" using writer_okD(1) [OF w3] by (simp add: plain_writer_def)
  have map3: "me_map (env st3) = me_map (env st)" using f unfolding fresh_page_def by auto
  define st3' where "st3' = (if up = None then upd_db dbi (\<lambda>d. d\<lparr>md_root := g'\<rparr>) st3 else st3)"
  have s3': "heap st3' = heap st3" "env st3' = env st3" "txns st3' = [t4]" by (simp_all add: st3'_def t4 touched_txn_def upd_db_def upd_txn_def t3)
  have w3': "writer_ok st3' t4" using writer_ok_dbs [OF w3 t3, of dbi "\<lambda>d. d\<lparr>md_root := g'\<rparr>"] w3 by (simp add: st3'_def t4 touched_txn_def)
  define sA where "sA = (if up = None then st3' else st3'\<lparr>heap := (heap st3)(b \<mapsto> par')\<rparr>)"
  have upb: "up \<noteq> None \<Longrightarrow> b \<noteq> a \<and> heap st3 b = Some par \<and> mp_pgno par' = mp_pgno par \<and> gp \<noteq> g' \<and> mdb_page_get st3 gp = Some (0, (PMem b, l), st3)"
  proof -
    assume "up \<noteq> None"
    then have u: "mdb_page_get st gp = Some (0, (PMem b, l), st)" "heap st b = Some par" "mp_pgno par' = mp_pgno par" using up by auto
    have "gp \<noteq> g'" using dirty_ref [OF w u(1)] new by force
    then show ?thesis using u na [OF u(1)] h3(1) others3 by simp
  qed
  have wA: "writer_ok sA t4" using w3' upb writer_ok_heap [OF w3', of b par par'] s3'(1) by (auto simp: sA_def)
  have hA: "heap sA a = Some q" using upb h3(1) s3'(1) by (auto simp: sA_def)
  have e4: "st4 = sA\<lparr>heap := (heap sA)(a \<mapsto> q')\<rparr>"
    using up by (auto simp: st4 touch_stored_def sA_def st3'_def)
  have w4: "writer_ok st4 t4" unfolding e4 by (rule writer_ok_heap [OF wA hA]) (use q'(1) h3(2) in simp)
  have env4: "env st4 = env st3" "txns st4 = [t4]" by (simp_all add: e4 sA_def s3')
  have l3A: "same_lookup st3 sA" by (simp add: same_lookup_def lookup_part_def sA_def s3' t3 t4)
  have lA4: "same_lookup sA st4" by (simp add: same_lookup_def e4)
  have l4: "same_lookup st3 st4" by (rule same_lookup_trans [OF l3A lA4])
  show "writer_ok st4 t4" by (rule w4)
  show "pages_ready n st4 t4" by (rule pages_ready_stored [OF r t3 dbi t4 env4])
  show g4: "mdb_page_get st4 g' = Some (0, (PMem a, 1), st4)" by (rule lookup_get [OF l4 g3])
  show "mdb_page_get st4 x = Some (0, rf, st4) \<longleftrightarrow> mdb_page_get st x = Some (0, rf, st)" if "x \<noteq> g'" for x rf
    unfolding lookup_get_iff [OF l4] by (rule others3 [OF that])
  have p3: "page_of st3 x = page_of st x" if x: "x \<noteq> g'" for x
  proof -
    have "page_of st3 x = Some mp \<longleftrightarrow> page_of st x = Some mp" for mp
    proof -
      have "get_page st3 rf = get_page st rf" if "mdb_page_get st x = Some (0, (rf, l), st)" for rf l
        using na that h3(1) map3 by (cases rf) (auto simp: get_page_def)
      then show ?thesis unfolding page_of_ref others3 [OF x] by auto
    qed
    then show ?thesis by (metis not_Some_eq)
  qed
  have pA: "page_of sA x = (if up \<noteq> None \<and> x = gp then Some par' else page_of st3 x)" for x
  proof (cases "up = None")
    case True
    then show ?thesis using page_of_cong [OF l3A, of x] s3' by (simp add: sA_def get_page_def split: page_ref.split)
  next
    case False
    then have u: "up = Some (b, par')" using up by blast
    show ?thesis using page_of_store [OF l3A writer_named [OF w3], of gp b l par' x] upb [OF False] s3' by (simp add: sA_def u)
  qed
  have p4: "page_of st4 x = (if x = g' then Some q' else page_of sA x)" for x
    by (rule page_of_store [OF lA4 writer_named [OF wA] lookup_get [OF l3A g3]]) (simp_all add: e4)
  show "page_of st4 g' = Some q'" by (simp add: p4)
  show "up \<noteq> None \<Longrightarrow> page_of st4 gp = Some par'" using upb p4 pA by simp
  show "x \<noteq> g' \<Longrightarrow> (up \<noteq> None \<longrightarrow> x \<noteq> gp) \<Longrightarrow> page_of st4 x = page_of st x" for x using p4 pA p3 by auto
  have h4: "heap st4 = (if up = None then (heap st)(a \<mapsto> q') else (heap st)(b \<mapsto> par', a \<mapsto> q'))"
    using upb h3(1) s3'(1) by (auto simp: e4 sA_def fun_eq_iff)
  show "pages_marked st4 t4"
    unfolding pages_marked_def
  proof (intro conjI ballI allI impI)
    fix e x mp assume e: "e \<in> dirty_of t4" "mptr e = PMem x" "heap st4 x = Some mp"
    show "F_ISSET (mp_flags mp) P_DIRTY"
    proof (cases "x = a")
      case True
      then show ?thesis using e(3) q'(2) h4 by (auto split: if_splits)
    next
      case False
      then have e': "e \<in> dirty_of t" using e(1,2) d3 by (auto simp: t4)
      show ?thesis
      proof (cases "up \<noteq> None \<and> x = b")
        case True
        then have "mp = par'" "mp_flags par' = mp_flags par" "heap st b = Some par" using e(3) h4 False up by auto
        then show ?thesis using m e' e(2) True unfolding pages_marked_def by auto
      next
        case 2: False
        then have "heap st x = Some mp" using e(3) h4 False by (auto split: if_splits)
        then show ?thesis using m e' e(2) unfolding pages_marked_def by blast
      qed
    qed
  next
    fix g mp assume "me_map (env st4) g = Some mp"
    then show "mp_pgno mp = g" "\<not> F_ISSET (mp_flags mp) P_DIRTY" using m map3 env4(1) unfolding pages_marked_def by auto
  qed
qed


section \<open>One level of the way\<close>

text \<open>The stack of the cursor \<open>mc\<close> holds the pages \<open>gs\<close> and indices \<open>ks\<close>, \<open>r\<close> of the way; level \<open>j\<close> is its top.\<close>

definition on_way :: "st \<Rightarrow> nat \<Rightarrow> nat \<Rightarrow> pgno_t list \<Rightarrow> nat list \<Rightarrow> nat \<Rightarrow> nat \<Rightarrow> bool" where
  "on_way st mc dbi gs ks r j \<longleftrightarrow> (\<exists>c. crs st mc = Some c \<and> mc_dbi c = dbi \<and> mc_snum c = length gs \<and> mc_top c = j \<and>
     mc_flags c = C_INITIALIZED \<and> stack_full c \<and> length gs \<le> CURSOR_STACK \<and> length gs = Suc (length ks) \<and>
     (\<forall>i < length gs. \<exists>l. mdb_page_get st (gs ! i) = Some (0, (mc_pg c ! i, l), st)) \<and>
     (\<forall>i < length ks. mc_ki c ! i = ks ! i) \<and> mc_ki c ! length ks = r)"

lemma touch_dirty:
  assumes w: "writer_ok st t" and c: "crs st mc = Some c" "stack_full c" "mc_top c < CURSOR_STACK" "\<not> anyset (mc_flags c) C_SUB"
    and g: "get_page st (mc_pg c ! mc_top c) = Some mp" "F_ISSET (mp_flags mp) P_DIRTY"
  shows "mdb_page_touch mc st = Some (0, st)"
proof -
  have t: "txns st = [t]" using writer_okD(1) [OF w] by (simp add: plain_writer_def)
  have p: "cur_pg c = Some (mc_pg c ! mc_top c)" using c(2,3) by (simp add: cur_pg_def stack_full_def)
  have "touch_page mc st = Some (0, None, st)" using c(1) t p g by (simp add: touch_page_def get_txn_def has_parent_def Let_def)
  then show ?thesis using c(1,4) p by (simp add: mdb_page_touch_def)
qed

lemma writer_ok_crs: "writer_ok st t \<Longrightarrow> (\<And>m. crs st m = None \<Longrightarrow> g m = None) \<Longrightarrow> writer_ok (st\<lparr>crs := g\<rparr>) t"
  unfolding writer_ok_def plain_writer_def pghead_ids_def by auto

lemma crs_irrelevant: "pages_marked (st\<lparr>crs := g\<rparr>) t = pages_marked st t" "pages_ready n (st\<lparr>crs := g\<rparr>) t = pages_ready n st t"
proof -
  have "mdb_find_oldest (st\<lparr>crs := g\<rparr>) = mdb_find_oldest st" by (simp add: mdb_find_oldest_def get_txn_def)
  then show "pages_marked (st\<lparr>crs := g\<rparr>) t = pages_marked st t" "pages_ready n (st\<lparr>crs := g\<rparr>) t = pages_ready n st t"
    by (simp_all add: pages_marked_def pages_ready_def free_db_ok_def nothing_to_reclaim_def pghead_ids_def get_db_def get_dbflag_def get_txn_def)
qed

text \<open>The replacement of the page in the cursors.\<close>

lemma touch_cursors_all:
  assumes c: "crs st mc = Some c" "stack_full c" "mc_top c < CURSOR_STACK" "mc_dbi c = dbi" and cs: "cursors_ok st dbi" and ne: "old \<noteq> np"
    and t: "txns st = [t]"
  shows "\<exists>g ms. (if mt_cursors t = [] then Some [] else rd (mt_cursors t) dbi) = Some ms \<and>
     touch_cursors ms (mc_snum c) (mc_top c) old np (upd_cur mc (set_pg (mc_top c) np) st) = Some (st\<lparr>crs := g\<rparr>) \<and>
     g mc = Some (set_pg (mc_top c) np c) \<and> cursors_ok (st\<lparr>crs := g\<rparr>) dbi \<and> (\<forall>m. crs st m = None \<longrightarrow> g m = None)"
proof -
  obtain ms where ms: "tracked st dbi = Some ms" "\<forall>m \<in> set ms. \<exists>c. crs st m = Some c \<and> stack_full c"
    using cs by (auto simp: cursors_ok_def)
  define st1 where "st1 = upd_cur mc (set_pg (mc_top c) np) st"
  have full: "stack_full (set_pg i p c)" if "stack_full c" for i p c using that by (simp add: stack_full_def set_pg_def)
  have ff: "stack_full (follow s l o' n c)" if "stack_full c" for s l o' n c using that full by (simp add: follow_def)
  have ms1: "\<forall>m \<in> set ms. \<exists>c. crs st1 m = Some c \<and> stack_full c" using ms(2) c(1,2) full by (auto simp: st1_def upd_cur_def)
  define g where "g = (\<lambda>m. if m \<in> set ms then map_option (follow (mc_snum c) (mc_top c) old np) (crs st1 m) else crs st1 m)"
  have "st1\<lparr>crs := g\<rparr> = st\<lparr>crs := g\<rparr>" by (simp add: st1_def upd_cur_def)
  then have run: "touch_cursors ms (mc_snum c) (mc_top c) old np st1 = Some (st\<lparr>crs := g\<rparr>)"
    using touch_cursors_run [OF ms1 c(3) ne] by (simp add: g_def)
  have "g mc = Some (set_pg (mc_top c) np c)"
    using c ne by (simp add: g_def st1_def upd_cur_def follow_def set_pg_def stack_full_def)
  moreover have "cursors_ok (st\<lparr>crs := g\<rparr>) dbi"
    unfolding cursors_ok_def
  proof (intro exI [of _ ms] conjI ballI)
    show "tracked (st\<lparr>crs := g\<rparr>) dbi = Some ms" using ms(1) by (simp add: tracked_def get_txn_def)
    fix m assume m: "m \<in> set ms"
    obtain c1 where "crs st1 m = Some c1" "stack_full c1" using ms1 m by blast
    then show "\<exists>c. crs (st\<lparr>crs := g\<rparr>) m = Some c \<and> stack_full c" using m ff by (auto simp: g_def)
  qed
  moreover have "\<forall>m. crs st m = None \<longrightarrow> g m = None" using c(1) by (auto simp: g_def st1_def upd_cur_def)
  moreover have "(if mt_cursors t = [] then Some [] else rd (mt_cursors t) dbi) = Some ms" using ms(1) t by (simp add: tracked_def get_txn_def)
  ultimately show ?thesis using run unfolding st1_def by blast
qed

text \<open>What a level of the way needs, and what its copying leaves.\<close>

definition level_copied :: "st \<Rightarrow> MDB_txn \<Rightarrow> st \<Rightarrow> MDB_txn \<Rightarrow> nat \<Rightarrow> pgno_t list \<Rightarrow> nat list \<Rightarrow> nat \<Rightarrow> pgno_t \<Rightarrow> bool" where
  "level_copied st t st' t' dbi gs ks j g' \<longleftrightarrow> copied st st' gs ks j g' \<and>
     (g' \<in> set (pghead_ids st) \<or> mt_next_pgno t \<le> g') \<and> g' < mt_next_pgno t' \<and> mt_next_pgno t \<le> mt_next_pgno t' \<and>
     set (pghead_ids st') \<subseteq> set (pghead_ids st) - {g'} \<and> (\<exists>a. mdb_page_get st' g' = Some (0, (PMem a, 1), st')) \<and>
     (\<forall>x r. x \<noteq> g' \<longrightarrow> (mdb_page_get st' x = Some (0, r, st') \<longleftrightarrow> mdb_page_get st x = Some (0, r, st))) \<and>
     (\<forall>x. x \<noteq> g' \<longrightarrow> (0 < j \<longrightarrow> x \<noteq> gs ! (j - 1)) \<longrightarrow> page_of st' x = page_of st x) \<and>
     idl_elems (idl_ids (mt_free_pgs t')) = idl_elems (idl_ids (mt_free_pgs t)) @ [gs ! j] \<and> ncrs st \<le> ncrs st' \<and>
     (\<exists>h dp g. env st' = (env st)\<lparr>me_pghead := h, me_dpages := dp, me_pgoldest := g\<rparr>) \<and>
     (\<exists>dl r n f. t' = t\<lparr>mt_dirty_list := dl, mt_dirty_room := r, mt_next_pgno := n, mt_free_pgs := f,
        mt_dbs := (mt_dbs t)[dbi := (mt_dbs t ! dbi)\<lparr>md_root := (if j = 0 then g' else md_root (mt_dbs t ! dbi))\<rparr>]\<rparr>) \<and>
     (\<exists>mp. page_of st' g' = Some mp \<and> page_ok (me_psize (env st')) mp \<and> \<not> IS_OVERFLOW mp)"

lemma found_not_fresh:
  assumes "writer_ok st t" "mdb_page_get st x = Some (0, (p, l), st)" "x \<notin> set (pghead_ids st)" "g' \<in> set (pghead_ids st) \<or> mt_next_pgno t \<le> g'"
  shows "x \<noteq> g'"
proof -
  note ok = writer_okD [OF assms(1)]
  have "x < mt_next_pgno t"
  proof (cases "x \<in> mid ` dirty_of t")
    case True
    then show ?thesis using ok(3) by auto
  next
    case False
    then show ?thesis using writer_get_clean [OF ok(1) False] assms(2) by (auto simp: MDB_PAGE_NOTFOUND_def split: if_splits)
  qed
  then show ?thesis using assms(3,4) by auto
qed

lemma touch_level_clean:
  assumes w: "writer_ok st t" "pages_ready (Suc n) st t" "free_room (Suc n) t" "pages_marked st t" "cursors_ok st dbi" "dbi \<noteq> FREE_DBI"
    and o: "on_way st mc dbi gs ks r j" "j < length gs" and g: "page_of st (gs ! j) = Some mp" "\<not> F_ISSET (mp_flags mp) P_DIRTY"
      "page_ok (me_psize (env st)) mp" "\<not> IS_OVERFLOW mp" and free: "\<forall>i < length gs. gs ! i \<notin> set (pghead_ids st)"
    and up: "0 < j \<Longrightarrow> (\<exists>b l. mdb_page_get st (gs ! (j - 1)) = Some (0, (PMem b, l), st)) \<and> page_of st (gs ! (j - 1)) = Some par \<and>
       page_ok psize par \<and> ks ! (j - 1) < NUMKEYS par"
  shows "\<exists>st' t' g'. mdb_page_touch mc st = Some (0, st') \<and> writer_ok st' t' \<and> pages_marked st' t' \<and> pages_ready n st' t' \<and> free_room n t' \<and>
     cursors_ok st' dbi \<and> on_way st' mc dbi (gs[j := g']) ks r j \<and> level_copied st t st' t' dbi gs ks j g'"
proof -
  note ok = writer_okD [OF w(1)]
  obtain c where c: "crs st mc = Some c" "mc_dbi c = dbi" "mc_snum c = length gs" "mc_top c = j" "mc_flags c = C_INITIALIZED" "stack_full c"
    "length gs \<le> CURSOR_STACK" "length gs = Suc (length ks)" "\<forall>i < length gs. \<exists>l. mdb_page_get st (gs ! i) = Some (0, (mc_pg c ! i, l), st)"
    "\<forall>i < length ks. mc_ki c ! i = ks ! i" "mc_ki c ! length ks = r"
    using o(1) unfolding on_way_def by blast
  have j: "j < CURSOR_STACK" using o(2) c(7) by simp
  obtain l where pg: "mdb_page_get st (gs ! j) = Some (0, (mc_pg c ! j, l), st)" using c(9) o(2) by blast
  have mp: "get_page st (mc_pg c ! j) = Some mp" using page_of_get [OF pg] g(1) by simp
  define up' where "up' = (0 < j)"
  obtain b l' where b: "up' \<Longrightarrow> mdb_page_get st (gs ! (j - 1)) = Some (0, (PMem b, l'), st)" using up unfolding up'_def by blast
  define k where "k = ks ! (j - 1)"
  define nd where "nd = page_items par ! k"
  have u: "mdb_page_get st (gs ! (j - 1)) = Some (0, (PMem b, l'), st) \<and> mc_pg c ! (j - 1) = PMem b \<and>
      heap st b = Some par \<and> mc_ki c ! (j - 1) = k \<and> NODEPTR par k = Some nd" if jj: "0 < j"
  proof -
    have b: "mdb_page_get st (gs ! (j - 1)) = Some (0, (PMem b, l'), st)" using b jj by (simp add: up'_def)
    moreover have "mc_pg c ! (j - 1) = PMem b" using c(9) [rule_format, of "j - 1"] b o(2) by auto
    moreover have "heap st b = Some par" using page_of_get [OF b] up [OF jj] by (simp add: get_page_def)
    moreover have "mc_ki c ! (j - 1) = k" using c(8,10) o(2) jj by (simp add: k_def)
    moreover have "NODEPTR par k = Some nd" using up [OF jj] page_okD(7) [of psize par k] by (simp add: nd_def k_def)
    ultimately show ?thesis by blast
  qed
  define upv where "upv = (\<lambda>g'. if j = 0 then None else Some (b, set_node par k (SETPGNO nd g')))"
  obtain st3 t3 a g' q where tp: "touch_page mc st = Some (0, Some (PMem a), touch_stored st3 dbi (upv g') a g' (touched_copy q mp (me_psize (env st)) g'))"
     and f: "fresh_page st t st3 t3 a g' q" and r3: "pages_ready n st3 t3" and fr3: "free_room n t3" and ne: "gs ! j \<noteq> g'"
     and fpg: "idl_elems (idl_ids (mt_free_pgs t3)) = idl_elems (idl_ids (mt_free_pgs t)) @ [gs ! j]"
    using touch_page_run [OF w(1-4) c(1,6) _ c(2), of "gs ! j" l mp "gs ! (j - 1)" b l' par k nd] j pg mp g(2) free o(2) u unfolding c(4) upv_def by auto
  define q' where "q' = touched_copy q mp (me_psize (env st)) g'"
  note q' = touched_copy_ok [OF g(3,4) q'_def]
  define st4 where "st4 = touch_stored st3 dbi (upv g') a g' q'"
  define t4 where "t4 = touched_txn t3 dbi (upv g' = None) g'"
  have upv: "upv g' = None \<or> (upv g' = Some (b, set_node par k (SETPGNO nd g')) \<and> mdb_page_get st (gs ! (j - 1)) = Some (0, (PMem b, l'), st) \<and>
      heap st b = Some par \<and> mp_pgno (set_node par k (SETPGNO nd g')) = mp_pgno par \<and> mp_flags (set_node par k (SETPGNO nd g')) = mp_flags par)"
    using u by (simp add: upv_def)
  note s4 = touch_stored_ok [OF w(1) f w(4,6) q'(5,6) upv r3 st4_def t4_def]
  have t4: "txns st4 = [t4]" using writer_okD(1) [OF s4(1)] by (simp add: plain_writer_def)
  have e4: "env st4 = env st3" "crs st4 = crs st" "ncrs st4 = ncrs st3"
    using f by (auto simp: st4_def touch_stored_def fresh_page_def upv_def)
  obtain h dp og where env3: "env st3 = (env st)\<lparr>me_pghead := h, me_dpages := dp, me_pgoldest := og\<rparr>" using f unfolding fresh_page_def by blast
  obtain dl rm nx fp where t3: "t3 = t\<lparr>mt_dirty_list := dl, mt_dirty_room := rm, mt_next_pgno := nx, mt_free_pgs := fp\<rparr>"
    using f unfolding fresh_page_def by (elim conjE exE) (rule that)
  have t: "txns st = [t]" using ok(1) by (simp add: plain_writer_def)
  have mc4: "mt_cursors t4 = mt_cursors t" by (simp add: t4_def t3)
  have tr: "tracked st4 dbi = tracked st dbi" by (simp add: tracked_def get_txn_def t t4 mc4)
  have "cursors_ok st4 dbi" using w(5) unfolding cursors_ok_def tr e4(2) .
  then obtain gc ms where gc: "(if mt_cursors t4 = [] then Some [] else rd (mt_cursors t4) dbi) = Some ms"
     "touch_cursors ms (length gs) j (PMap (gs ! j)) (PMem a) (upd_cur mc (set_pg j (PMem a)) st4) = Some (st4\<lparr>crs := gc\<rparr>)"
     "gc mc = Some (set_pg j (PMem a) c)" "cursors_ok (st4\<lparr>crs := gc\<rparr>) dbi" "\<forall>m. crs st4 m = None \<longrightarrow> gc m = None"
    using touch_cursors_all [of st4 mc c dbi "PMap (gs ! j)" "PMem a" t4] c(1-4,6) e4(2) j t4 by auto
  define st' where "st' = st4\<lparr>crs := gc\<rparr>"
  have cp: "cur_pg c = Some (PMap (gs ! j))" using clean_in_map(2) [OF w(1,4) pg mp g(2)] c(4,6) j by (simp add: cur_pg_def stack_full_def)
  have run: "mdb_page_touch mc st = Some (0, st')"
    using c(1-5) cp tp gc(1,2) t4 by (cases "mt_cursors t4 = []") (simp_all add: mdb_page_touch_def q'_def [symmetric] st4_def [symmetric] get_txn_def C_INITIALIZED_def C_SUB_def anyset_def st'_def)
  have same: "same_pages st4 st'" by (simp add: same_pages_def st'_def)
  have l4: "same_lookup st4 st'" by (rule same_lookup_pages [OF same])
  have po: "page_of st' x = page_of st4 x" for x by (rule page_of_cong [OF l4]) (simp add: same_pages_simps [OF same])
  have w': "writer_ok st' t4" unfolding st'_def by (rule writer_ok_crs [OF s4(1)]) (use gc(5) in blast)
  have inv: "pages_marked st' t4" "pages_ready n st' t4" using s4(2,3) by (simp_all add: st'_def crs_irrelevant)
  have fr: "free_room n t4" using fr3 by (simp add: free_room_def t4_def)
  have nf: "gs ! i \<noteq> g'" if ii: "i < length gs" for i
  proof -
    obtain l where "mdb_page_get st (gs ! i) = Some (0, (mc_pg c ! i, l), st)" using c(9) ii by blast
    then show ?thesis by (rule found_not_fresh [OF w(1)]) (use free ii f in \<open>auto simp: fresh_page_def\<close>)
  qed
  have "on_way st' mc dbi (gs[j := g']) ks r j"
    unfolding on_way_def
  proof (intro exI [of _ "set_pg j (PMem a) c"] conjI allI impI)
    show "crs st' mc = Some (set_pg j (PMem a) c)" by (simp add: st'_def gc(3))
    fix i assume i: "i < length (gs[j := g'])"
    show "\<exists>l. mdb_page_get st' (gs[j := g'] ! i) = Some (0, (mc_pg (set_pg j (PMem a) c) ! i, l), st')"
    proof (cases "i = j")
      case True
      then show ?thesis using lookup_get [OF l4 s4(4)] i c(6) j by (auto simp: set_pg_def stack_full_def)
    next
      case False
      obtain l where "mdb_page_get st (gs ! i) = Some (0, (mc_pg c ! i, l), st)" using c(9) i by auto
      then show ?thesis using s4(5) [OF nf] lookup_get [OF l4] False i by (auto simp: set_pg_def)
    qed
  qed (use c in \<open>auto simp: set_pg_def stack_full_def\<close>)
  moreover have "level_copied st t st' t4 dbi gs ks j g'"
    unfolding level_copied_def
  proof (intro conjI)
    have g48: "unat g' < 2 ^ 48"
      using f fr3 unfolding fresh_page_def free_room_def by (auto simp: word_less_nat_alt)
    show "copied st st' gs ks j g'"
      unfolding copied_def po
    proof (intro conjI impI)
      show "unat g' < 2 ^ 48" by (rule g48)
      show "\<exists>mp mp' psize. page_of st (gs ! j) = Some mp \<and> page_of st4 g' = Some mp' \<and> page_items mp' = page_items mp \<and> page_ok psize mp' \<and>
        IS_LEAF mp' = IS_LEAF mp \<and> IS_BRANCH mp' = IS_BRANCH mp"
        using g(1) s4(6) q'(1-4) by blast
      assume "0 < j"
      then show "\<exists>par. page_of st (gs ! (j - 1)) = Some par \<and>
        page_of st4 (gs ! (j - 1)) = Some (set_node par (ks ! (j - 1)) (SETPGNO (page_items par ! (ks ! (j - 1))) g'))"
        using up s4(7) by (simp add: upv_def nd_def k_def)
    qed
    show "\<exists>mp. page_of st' g' = Some mp \<and> page_ok (me_psize (env st')) mp \<and> \<not> IS_OVERFLOW mp"
      unfolding po using s4(6) q'(1,7) g(4) by (simp add: st'_def e4(1) env3)
    show "\<forall>x. x \<noteq> g' \<longrightarrow> (0 < j \<longrightarrow> x \<noteq> gs ! (j - 1)) \<longrightarrow> page_of st' x = page_of st x"
      unfolding po using s4(8) by (simp add: upv_def)
    show "\<forall>x r. x \<noteq> g' \<longrightarrow> (mdb_page_get st' x = Some (0, r, st') \<longleftrightarrow> mdb_page_get st x = Some (0, r, st))"
      unfolding lookup_get_iff [OF l4] using s4(5) by blast
    show "\<exists>a. mdb_page_get st' g' = Some (0, (PMem a, 1), st')" using lookup_get [OF l4 s4(4)] by blast
    show "\<exists>h dp g. env st' = (env st)\<lparr>me_pghead := h, me_dpages := dp, me_pgoldest := g\<rparr>"
      by (intro exI [of _ h] exI [of _ dp] exI [of _ og]) (simp add: st'_def e4(1) env3)
    have "(mt_dbs t)[dbi := (mt_dbs t ! dbi)\<lparr>md_root := md_root (mt_dbs t ! dbi)\<rparr>] = mt_dbs t" by simp
    then show "\<exists>dl r n f. t4 = t\<lparr>mt_dirty_list := dl, mt_dirty_room := r, mt_next_pgno := n, mt_free_pgs := f,
        mt_dbs := (mt_dbs t)[dbi := (mt_dbs t ! dbi)\<lparr>md_root := (if j = 0 then g' else md_root (mt_dbs t ! dbi))\<rparr>]\<rparr>"
      by (intro exI [of _ dl] exI [of _ rm] exI [of _ nx] exI [of _ fp]) (simp add: t4_def t3 touched_txn_def upv_def)
    show "idl_elems (idl_ids (mt_free_pgs t4)) = idl_elems (idl_ids (mt_free_pgs t)) @ [gs ! j]" using fpg by (simp add: t4_def)
    show "ncrs st \<le> ncrs st'" using f by (simp add: fresh_page_def st'_def e4)
    have "pghead_ids st' = pghead_ids st3" by (simp add: pghead_ids_def st'_def e4)
    then show "set (pghead_ids st') \<subseteq> set (pghead_ids st) - {g'}" using f by (simp add: fresh_page_def)
    show "g' \<in> set (pghead_ids st) \<or> mt_next_pgno t \<le> g'" "g' < mt_next_pgno t4" "mt_next_pgno t \<le> mt_next_pgno t4"
      using f by (simp_all add: fresh_page_def t4_def)
  qed
  moreover have "cursors_ok st' dbi" using gc(4) by (simp add: st'_def)
  ultimately show ?thesis using run w' inv fr by blast
qed


section \<open>All levels\<close>

text \<open>
  The invariant of the loop of \<open>mdb_cursor_touch\<close> at level \<open>j\<close>: the levels above are dirty, and the
  tree, the way to the key and the stack of the cursor are as they should be.
\<close>

definition way_pages :: "st \<Rightarrow> pgno_t list \<Rightarrow> nat list \<Rightarrow> bool" where
  "way_pages st gs ks \<longleftrightarrow> (\<forall>i < length gs. \<exists>mp. page_of st (gs ! i) = Some mp \<and> page_ok (me_psize (env st)) mp \<and> \<not> IS_OVERFLOW mp \<and>
     (i < length ks \<longrightarrow> \<not> IS_LEAF mp))"

definition writer_inv :: "nat \<Rightarrow> nat \<Rightarrow> st \<Rightarrow> MDB_txn \<Rightarrow> bool" where
  "writer_inv dbi n st t \<longleftrightarrow> writer_ok st t \<and> pages_marked st t \<and> pages_ready n st t \<and> free_room n t \<and> cursors_ok st dbi \<and>
     dbi \<noteq> FREE_DBI \<and> dbi < length (mt_dbs t)"

definition sized :: "st \<Rightarrow> pgno_t \<Rightarrow> bool" where
  "sized st x \<longleftrightarrow> (\<forall>mp. page_of st x = Some mp \<longrightarrow> IS_BRANCH mp \<or> IS_LEAF mp \<longrightarrow> page_ok (me_psize (env st)) mp \<and> \<not> IS_OVERFLOW mp)"

definition tree_inv :: "(byte list \<Rightarrow> byte list \<Rightarrow> bool) \<Rightarrow> byte list \<Rightarrow> (byte list \<times> byte list) list \<Rightarrow> MDB_node list \<Rightarrow> nat \<Rightarrow> st \<Rightarrow> MDB_txn \<Rightarrow>
    pgno_t list \<Rightarrow> nat list \<Rightarrow> bool" where
  "tree_inv lt key its nds dbi st t gs ks \<longleftrightarrow> md_root (mt_dbs t ! dbi) = gs ! 0 \<and> chain lt st key gs ks \<and> subtree lt st (length ks) (gs ! 0) its \<and>
     distinct (tree_pgs st (length ks) (gs ! 0)) \<and>
     (\<forall>x \<in> set (tree_pgs st (length ks) (gs ! 0)). x < mt_next_pgno t \<and> x \<notin> set (pghead_ids st) \<and> sized st x) \<and> way_pages st gs ks \<and>
     map_option page_items (page_of st (gs ! length ks)) = Some nds"

definition dirty_to :: "st \<Rightarrow> pgno_t list \<Rightarrow> nat \<Rightarrow> bool" where
  "dirty_to st gs j \<longleftrightarrow> (\<forall>i < j. \<exists>a l. mdb_page_get st (gs ! i) = Some (0, (PMem a, l), st))"

text \<open>
  What the loop leaves as it was, and where the pages went: the numbers \<open>fs\<close> on the list of freed
  pages are no more in the tree, and the new ones \<open>ns\<close> were in no use.
\<close>

definition moved :: "nat \<Rightarrow> st \<Rightarrow> MDB_txn \<Rightarrow> pgno_t list \<Rightarrow> st \<Rightarrow> MDB_txn \<Rightarrow> pgno_t list \<Rightarrow> bool" where
  "moved dbi st t pgs st' t' pgs' \<longleftrightarrow> (\<exists>h dp g. env st' = (env st)\<lparr>me_pghead := h, me_dpages := dp, me_pgoldest := g\<rparr>) \<and> ncrs st \<le> ncrs st' \<and>
     (\<exists>dl r n f g. t' = t\<lparr>mt_dirty_list := dl, mt_dirty_room := r, mt_next_pgno := n, mt_free_pgs := f,
        mt_dbs := (mt_dbs t)[dbi := (mt_dbs t ! dbi)\<lparr>md_root := g\<rparr>]\<rparr>) \<and>
     mt_next_pgno t \<le> mt_next_pgno t' \<and> set (pghead_ids st') \<subseteq> set (pghead_ids st) \<and>
     (\<exists>fs ns. idl_elems (idl_ids (mt_free_pgs t')) = idl_elems (idl_ids (mt_free_pgs t)) @ fs \<and> mset pgs' + mset fs = mset pgs + mset ns \<and>
        (\<forall>x \<in> set ns. x \<in> set (pghead_ids st) \<or> mt_next_pgno t \<le> x))"

lemma moved_refl: "moved dbi st t pgs st t pgs"
proof -
  have "(mt_dbs t)[dbi := (mt_dbs t ! dbi)\<lparr>md_root := md_root (mt_dbs t ! dbi)\<rparr>] = mt_dbs t" by simp
  then have "t = t\<lparr>mt_dirty_list := mt_dirty_list t, mt_dirty_room := mt_dirty_room t, mt_next_pgno := mt_next_pgno t, mt_free_pgs := mt_free_pgs t,
      mt_dbs := (mt_dbs t)[dbi := (mt_dbs t ! dbi)\<lparr>md_root := md_root (mt_dbs t ! dbi)\<rparr>]\<rparr>" by simp
  moreover have "env st = (env st)\<lparr>me_pghead := me_pghead (env st), me_dpages := me_dpages (env st), me_pgoldest := me_pgoldest (env st)\<rparr>" by simp
  moreover have "idl_elems (idl_ids (mt_free_pgs t)) = idl_elems (idl_ids (mt_free_pgs t)) @ []" "mset pgs + mset [] = mset pgs + mset ([] :: pgno_t list)" by simp_all
  ultimately show ?thesis unfolding moved_def by (metis empty_iff empty_set order_refl)
qed

lemma moved_trans:
  assumes a: "moved dbi st t pgs st1 t1 pgs1" and b: "moved dbi st1 t1 pgs1 st2 t2 pgs2" and d: "dbi < length (mt_dbs t)"
  shows "moved dbi st t pgs st2 t2 pgs2"
proof -
  obtain h1 dp1 g1 where e1: "env st1 = (env st)\<lparr>me_pghead := h1, me_dpages := dp1, me_pgoldest := g1\<rparr>" using a unfolding moved_def by blast
  obtain h2 dp2 g2 where e2: "env st2 = (env st1)\<lparr>me_pghead := h2, me_dpages := dp2, me_pgoldest := g2\<rparr>" using b unfolding moved_def by blast
  obtain dl1 r1 n1 f1 x1 where t1: "t1 = t\<lparr>mt_dirty_list := dl1, mt_dirty_room := r1, mt_next_pgno := n1, mt_free_pgs := f1,
        mt_dbs := (mt_dbs t)[dbi := (mt_dbs t ! dbi)\<lparr>md_root := x1\<rparr>]\<rparr>" using a unfolding moved_def by (elim conjE exE) (rule that)
  obtain dl2 r2 n2 f2 x2 where t2: "t2 = t1\<lparr>mt_dirty_list := dl2, mt_dirty_room := r2, mt_next_pgno := n2, mt_free_pgs := f2,
        mt_dbs := (mt_dbs t1)[dbi := (mt_dbs t1 ! dbi)\<lparr>md_root := x2\<rparr>]\<rparr>" using b unfolding moved_def by (elim conjE exE) (rule that)
  obtain fs1 ns1 where p1: "idl_elems (idl_ids (mt_free_pgs t1)) = idl_elems (idl_ids (mt_free_pgs t)) @ fs1" "mset pgs1 + mset fs1 = mset pgs + mset ns1"
    "\<forall>x \<in> set ns1. x \<in> set (pghead_ids st) \<or> mt_next_pgno t \<le> x" using a unfolding moved_def by blast
  obtain fs2 ns2 where p2: "idl_elems (idl_ids (mt_free_pgs t2)) = idl_elems (idl_ids (mt_free_pgs t1)) @ fs2" "mset pgs2 + mset fs2 = mset pgs1 + mset ns2"
    "\<forall>x \<in> set ns2. x \<in> set (pghead_ids st1) \<or> mt_next_pgno t1 \<le> x" using b unfolding moved_def by blast
  have n: "mt_next_pgno t \<le> mt_next_pgno t1" "set (pghead_ids st1) \<subseteq> set (pghead_ids st)" "ncrs st \<le> ncrs st1"
    "mt_next_pgno t1 \<le> mt_next_pgno t2" "set (pghead_ids st2) \<subseteq> set (pghead_ids st1)" "ncrs st1 \<le> ncrs st2"
    using a b unfolding moved_def by simp_all
  have "mset pgs2 + mset (fs1 @ fs2) = (mset pgs2 + mset fs2) + mset fs1" by simp
  also have "\<dots> = mset pgs + mset (ns1 @ ns2)" unfolding p2(2) using p1(2) by simp
  finally have m: "mset pgs2 + mset (fs1 @ fs2) = mset pgs + mset (ns1 @ ns2)" .
  have "\<forall>x \<in> set (ns1 @ ns2). x \<in> set (pghead_ids st) \<or> mt_next_pgno t \<le> x" using p1(3) p2(3) n(1,2) by auto
  then have pp: "\<exists>fs ns. idl_elems (idl_ids (mt_free_pgs t2)) = idl_elems (idl_ids (mt_free_pgs t)) @ fs \<and> mset pgs2 + mset fs = mset pgs + mset ns \<and>
        (\<forall>x \<in> set ns. x \<in> set (pghead_ids st) \<or> mt_next_pgno t \<le> x)"
    using p1(1) p2(1) m by (intro exI [of _ "fs1 @ fs2"] exI [of _ "ns1 @ ns2"]) simp
  have "t2 = t\<lparr>mt_dirty_list := dl2, mt_dirty_room := r2, mt_next_pgno := n2, mt_free_pgs := f2,
        mt_dbs := (mt_dbs t)[dbi := (mt_dbs t ! dbi)\<lparr>md_root := x2\<rparr>]\<rparr>"
    using d by (simp add: t2 t1)
  then have tt: "\<exists>dl r n f g. t2 = t\<lparr>mt_dirty_list := dl, mt_dirty_room := r, mt_next_pgno := n, mt_free_pgs := f,
        mt_dbs := (mt_dbs t)[dbi := (mt_dbs t ! dbi)\<lparr>md_root := g\<rparr>]\<rparr>" by blast
  have ee: "\<exists>h dp g. env st2 = (env st)\<lparr>me_pghead := h, me_dpages := dp, me_pgoldest := g\<rparr>"
    by (intro exI [of _ h2] exI [of _ dp2] exI [of _ g2]) (simp add: e2 e1)
  show ?thesis unfolding moved_def by (intro conjI ee tt pp) (use n in auto)
qed


lemma pages_ready_less: "pages_ready (Suc n) st t \<Longrightarrow> pages_ready n st t"
  by (auto simp: pages_ready_def)

lemma free_room_less: "free_room (Suc n) t \<Longrightarrow> free_room n t"
  by (auto simp: free_room_def)

lemma copied_moved:
  assumes l: "level_copied st t st' t' dbi gs ks j g'" and m: "mset pgs' + {#gs ! j#} = mset pgs + {#g'#}"
  shows "moved dbi st t pgs st' t' pgs'"
proof -
  obtain dl r n f where t': "t' = t\<lparr>mt_dirty_list := dl, mt_dirty_room := r, mt_next_pgno := n, mt_free_pgs := f,
        mt_dbs := (mt_dbs t)[dbi := (mt_dbs t ! dbi)\<lparr>md_root := (if j = 0 then g' else md_root (mt_dbs t ! dbi))\<rparr>]\<rparr>"
    using l unfolding level_copied_def by (elim conjE exE) (rule that)
  have "\<exists>fs ns. idl_elems (idl_ids (mt_free_pgs t')) = idl_elems (idl_ids (mt_free_pgs t)) @ fs \<and> mset pgs' + mset fs = mset pgs + mset ns \<and>
        (\<forall>x \<in> set ns. x \<in> set (pghead_ids st) \<or> mt_next_pgno t \<le> x)"
    using l m by (intro exI [of _ "[gs ! j]"] exI [of _ "[g']"]) (simp add: level_copied_def)
  moreover have "\<exists>dl r n f g. t' = t\<lparr>mt_dirty_list := dl, mt_dirty_room := r, mt_next_pgno := n, mt_free_pgs := f,
        mt_dbs := (mt_dbs t)[dbi := (mt_dbs t ! dbi)\<lparr>md_root := g\<rparr>]\<rparr>"
    using t' by blast
  moreover have "set (pghead_ids st') \<subseteq> set (pghead_ids st)" using l unfolding level_copied_def by blast
  ultimately show ?thesis using l unfolding moved_def level_copied_def by blast
qed

lemma mset_one_changed:
  assumes "mset ys + {#b#} = mset xs + {#c#}" "distinct xs" "c \<notin> set xs" "b \<in> set xs"
  shows "distinct ys" "set ys = insert c (set xs - {b})"
proof -
  have m: "mset (b # ys) = mset (c # xs)" using assms(1) by simp
  then have d: "distinct (b # ys)" using assms(2,3) by (metis distinct.simps(2) mset_eq_imp_distinct_iff)
  have "set (b # ys) = set (c # xs)" by (rule mset_eq_setD [OF m])
  then show "distinct ys" "set ys = insert c (set xs - {b})" using d assms(3,4) by auto
qed

lemma way_copied:
  assumes w: "way_pages st gs ks" and ch: "chain lt st key gs ks" and d: "distinct gs" and j: "j < length gs"
    and l: "level_copied st t st' t' dbi gs ks j g'" and nf: "g' \<notin> set gs"
  shows "way_pages st' (gs[j := g']) ks"
  unfolding way_pages_def
proof (intro allI impI)
  note L = l [unfolded level_copied_def]
  have ps: "me_psize (env st') = me_psize (env st)" using L by auto
  have len: "length gs = Suc (length ks)" using ch by (simp add: chain_def)
  fix i assume "i < length (gs[j := g'])"
  then have i: "i < length gs" by simp
  obtain mp where mp: "page_of st (gs ! i) = Some mp" "page_ok (me_psize (env st)) mp" "\<not> IS_OVERFLOW mp" "i < length ks \<longrightarrow> \<not> IS_LEAF mp"
    using w i unfolding way_pages_def by blast
  consider "i = j" | "0 < j" "i = j - 1" | "i \<noteq> j" "0 < j \<longrightarrow> i \<noteq> j - 1" by blast
  then show "\<exists>mp. page_of st' (gs[j := g'] ! i) = Some mp \<and> page_ok (me_psize (env st')) mp \<and> \<not> IS_OVERFLOW mp \<and> (i < length ks \<longrightarrow> \<not> IS_LEAF mp)"
  proof cases
    case 1
    have "copied st st' gs ks j g'" using L by blast
    then obtain mp' where "page_of st' g' = Some mp'" "IS_LEAF mp' = IS_LEAF mp" using mp(1) 1 unfolding copied_def by auto
    then show ?thesis using L 1 mp(4) j by auto
  next
    case 2
    have ik: "i < length ks" using 2 j len by simp
    obtain mp1 where "page_of st (gs ! i) = Some mp1" "child_of lt key mp1 (ks ! i)" using ch ik unfolding chain_def by blast
    then have k: "ks ! i < NUMKEYS mp" using mp(1) by (simp add: child_of_def)
    have "copied st st' gs ks j g'" using L by blast
    then have "page_of st' (gs ! i) = Some (set_node mp (ks ! i) (SETPGNO (page_items mp ! (ks ! i)) g'))"
      using 2 mp(1) unfolding copied_def by auto
    moreover have "page_ok (me_psize (env st)) (set_node mp (ks ! i) (SETPGNO (page_items mp ! (ks ! i)) g'))"
      using set_pgno_node(1) [OF mp(2) _ k] mp(4) ik by blast
    ultimately show ?thesis using 2 mp(3,4) ps by (simp add: IS_OVERFLOW_def IS_LEAF_def)
  next
    case 3
    then have "gs ! i \<noteq> gs ! j" "0 < j \<longrightarrow> gs ! i \<noteq> gs ! (j - 1)" using d i j by (auto simp: nth_eq_iff_index_eq)
    moreover have "gs ! i \<noteq> g'" using nf i by (metis nth_mem)
    ultimately have "page_of st' (gs ! i) = page_of st (gs ! i)" using L by blast
    then show ?thesis using mp 3 ps by simp
  qed
qed

context tree_order
begin

lemma tree_copied:
  assumes i: "tree_inv less key its nds dbi st t gs ks" and key: "key \<in> K" and dbi: "dbi < length (mt_dbs t)" and j: "j < length gs"
    and l: "level_copied st t st' t' dbi gs ks j g'"
  shows "tree_inv less key its nds dbi st' t' (gs[j := g']) ks"
    "mset (tree_pgs st' (length ks) (gs[j := g'] ! 0)) + {#gs ! j#} = mset (tree_pgs st (length ks) (gs ! 0)) + {#g'#}"
proof -
  note T = i [unfolded tree_inv_def] and L = l [unfolded level_copied_def]
  have ch: "chain less st key gs ks" and len: "length gs = Suc (length ks)" using T by (auto simp: chain_def)
  have jk: "j \<le> length ks" using j len by simp
  have fresh: "x \<noteq> g'" if "x \<in> set (tree_pgs st (length ks) (gs ! 0))" for x
    using T L that by auto
  have d: "distinct gs" using chain_distinct [OF ch, of 0] T by simp
  have on: "x \<in> set (tree_pgs st (length ks) (gs ! 0))" if "x \<in> set gs" for x
    using that chain_pages [OF ch, of _ 0] len by (auto simp: in_set_conv_nth)
  have cow: "subtree less st' (length ks) (gs[j := g'] ! 0) its \<and>
     mset (tree_pgs st' (length ks) (gs[j := g'] ! 0)) + {#gs ! j#} = mset (tree_pgs st (length ks) (gs ! 0)) + {#g'#}"
    by (rule cow_tree [OF _ _ ch jk key]) (use T L fresh in blast)+
  then show ms: "mset (tree_pgs st' (length ks) (gs[j := g'] ! 0)) + {#gs ! j#} = mset (tree_pgs st (length ks) (gs ! 0)) + {#g'#}" by simp
  have ch': "chain less st' key (gs[j := g']) ks"
  proof (rule chain_copied [OF ch _ jk d])
    show "copied st st' gs ks j g'" using L by blast
    show "page_of st' x = page_of st x" if "x \<in> set gs" "x \<noteq> gs ! j" "0 < j \<longrightarrow> x \<noteq> gs ! (j - 1)" for x
      using L that on fresh by blast
    show "\<exists>psize. page_ok psize mp \<and> \<not> IS_LEAF mp" if "i < length ks" "page_of st (gs ! i) = Some mp" for i mp
      using T that len unfolding way_pages_def by (metis less_SucI option.inject)
  qed
  have b: "gs ! j \<in> set (tree_pgs st (length ks) (gs ! 0))" "g' \<notin> set (tree_pgs st (length ks) (gs ! 0))"
    using on j fresh by auto
  note ch1 = mset_one_changed [OF ms _ b(2,1)]
  have dist: "distinct (tree_pgs st' (length ks) (gs[j := g'] ! 0))" using ch1(1) T by blast
  have sub: "set (tree_pgs st' (length ks) (gs[j := g'] ! 0)) \<subseteq> insert g' (set (tree_pgs st (length ks) (gs ! 0)))" using ch1(2) T by blast
  have "g' \<notin> set gs" using on b(2) by blast
  then have way: "way_pages st' (gs[j := g']) ks" using way_copied [OF _ ch d j l] T by blast
  obtain dl r n f where t': "t' = t\<lparr>mt_dirty_list := dl, mt_dirty_room := r, mt_next_pgno := n, mt_free_pgs := f,
        mt_dbs := (mt_dbs t)[dbi := (mt_dbs t ! dbi)\<lparr>md_root := (if j = 0 then g' else md_root (mt_dbs t ! dbi))\<rparr>]\<rparr>"
    using L by (elim conjE exE) (rule that)
  have root: "md_root (mt_dbs t' ! dbi) = gs[j := g'] ! 0" using T j by (cases "j = 0") (simp_all add: t' dbi)
  have leaf: "map_option page_items (page_of st' (gs[j := g'] ! length ks)) = Some nds"
  proof (cases "j = length ks")
    case True
    have "copied st st' gs ks j g'" using L by blast
    then obtain mp mp' where "page_of st (gs ! j) = Some mp" "page_of st' g' = Some mp'" "page_items mp' = page_items mp" unfolding copied_def by blast
    then show ?thesis using T True j by simp
  next
    case False
    have x: "gs ! length ks \<in> set gs" using len by simp
    have "gs ! length ks \<noteq> gs ! j" "0 < j \<longrightarrow> gs ! length ks \<noteq> gs ! (j - 1)" using d False j len by (auto simp: nth_eq_iff_index_eq)
    then have "page_of st' (gs ! length ks) = page_of st (gs ! length ks)" using L fresh [OF on [OF x]] by blast
    then show ?thesis using T False by simp
  qed
  have new: "\<forall>x \<in> set (tree_pgs st' (length ks) (gs[j := g'] ! 0)). x < mt_next_pgno t' \<and> x \<notin> set (pghead_ids st') \<and> sized st' x"
  proof
    fix x assume "x \<in> set (tree_pgs st' (length ks) (gs[j := g'] ! 0))"
    then consider "x = g'" | "x \<in> set (tree_pgs st (length ks) (gs ! 0))" using sub by blast
    then show "x < mt_next_pgno t' \<and> x \<notin> set (pghead_ids st') \<and> sized st' x"
    proof cases
      case 1
      then show ?thesis using L by (auto simp: sized_def)
    next
      case 2
      then have "x < mt_next_pgno t" "x \<notin> set (pghead_ids st)" "sized st x" "x \<noteq> g'" using T fresh by blast+
      moreover have "sized st' x"
      proof (cases "0 < j \<and> x = gs ! (j - 1)")
        case True
        then have "gs[j := g'] ! (j - 1) = x" "j - 1 < length (gs[j := g'])" using j by (auto simp: nth_list_update_neq)
        then obtain mp where "page_of st' x = Some mp" "page_ok (me_psize (env st')) mp" "\<not> IS_OVERFLOW mp"
          using way unfolding way_pages_def by metis
        then show ?thesis by (simp add: sized_def)
      next
        case False
        then have "page_of st' x = page_of st x" using L \<open>x \<noteq> g'\<close> by blast
        moreover have "me_psize (env st') = me_psize (env st)" using L by auto
        ultimately show ?thesis using \<open>sized st x\<close> by (simp add: sized_def)
      qed
      ultimately show ?thesis using L by auto
    qed
  qed
  show "tree_inv less key its nds dbi st' t' (gs[j := g']) ks"
    unfolding tree_inv_def using root ch' cow dist way new leaf by blast
qed

end


lemma way_dirty: "on_way st mc dbi gs ks r j \<Longrightarrow> i < length gs \<Longrightarrow> \<exists>p l. mdb_page_get st (gs ! i) = Some (0, (p, l), st)"
  unfolding on_way_def by blast

context tree_order
begin

lemma touch_level:
  assumes w: "writer_inv dbi (Suc n) st t" and i: "tree_inv less key its nds dbi st t gs ks" and o: "on_way st mc dbi gs ks r j" "j < length gs"
    and dj: "dirty_to st gs j" and key: "key \<in> K"
  shows "\<exists>st' t' gs'. mdb_page_touch mc st = Some (0, st') \<and> writer_inv dbi n st' t' \<and> tree_inv less key its nds dbi st' t' gs' ks \<and>
     on_way st' mc dbi gs' ks r j \<and> dirty_to st' gs' (Suc j) \<and> length gs' = length gs \<and>
     moved dbi st t (tree_pgs st (length ks) (gs ! 0)) st' t' (tree_pgs st' (length ks) (gs' ! 0))"
proof -
  note W = w [unfolded writer_inv_def] and T = i [unfolded tree_inv_def]
  have ok: "writer_ok st t" "pages_ready (Suc n) st t" "free_room (Suc n) t" "pages_marked st t" "cursors_ok st dbi" "dbi \<noteq> FREE_DBI"
    "dbi < length (mt_dbs t)" using W by blast+
  have ch: "chain less st key gs ks" and len: "length gs = Suc (length ks)" and way: "way_pages st gs ks" using T by (auto simp: chain_def)
  obtain mp where mp: "page_of st (gs ! j) = Some mp" "page_ok (me_psize (env st)) mp" "\<not> IS_OVERFLOW mp"
    using way o(2) unfolding way_pages_def by blast
  obtain c where c: "crs st mc = Some c" "mc_top c = j" "mc_flags c = C_INITIALIZED" "stack_full c" "length gs \<le> CURSOR_STACK"
    and cg: "\<forall>i < length gs. \<exists>l. mdb_page_get st (gs ! i) = Some (0, (mc_pg c ! i, l), st)"
    using o(1) unfolding on_way_def by blast
  obtain l where pg: "mdb_page_get st (gs ! j) = Some (0, (mc_pg c ! j, l), st)" using cg o(2) by blast
  have gp: "get_page st (mc_pg c ! j) = Some mp" using page_of_get [OF pg] mp(1) by simp
  show ?thesis
  proof (cases "F_ISSET (mp_flags mp) P_DIRTY")
    case True
    have fl: "\<not> anyset (mc_flags c) C_SUB" by (simp add: c(3) anyset_def C_INITIALIZED_def C_SUB_def)
    have "mdb_page_touch mc st = Some (0, st)"
      by (rule touch_dirty [OF ok(1) c(1,4) _ fl _ True]) (use c(2,5) o(2) gp in simp_all)
    moreover have "writer_inv dbi n st t" using W pages_ready_less free_room_less unfolding writer_inv_def by blast
    moreover have "dirty_to st gs (Suc j)"
      using dj clean_in_map(1) [OF ok(1,4) pg gp True] pg unfolding dirty_to_def by (auto simp: less_Suc_eq)
    ultimately show ?thesis using i o(1) moved_refl by blast
  next
    case False
    have on: "x \<in> set (tree_pgs st (length ks) (gs ! 0))" if "x \<in> set gs" for x
      using that chain_pages [OF ch, of _ 0] len by (auto simp: in_set_conv_nth)
    have free: "\<forall>i < length gs. gs ! i \<notin> set (pghead_ids st)" using T on by auto
    obtain par where par: "0 < j \<Longrightarrow> page_of st (gs ! (j - 1)) = Some par \<and> page_ok (me_psize (env st)) par \<and> ks ! (j - 1) < NUMKEYS par"
    proof (cases "0 < j")
      case True
      then have jk: "j - 1 < length ks" using o(2) len by simp
      obtain par where p1: "page_of st (gs ! (j - 1)) = Some par" "child_of less key par (ks ! (j - 1))" using ch jk unfolding chain_def by blast
      obtain par' where p2: "page_of st (gs ! (j - 1)) = Some par'" "page_ok (me_psize (env st)) par'"
        using way len jk unfolding way_pages_def by (metis less_SucI)
      show thesis using that [of par] p1 p2 by (simp add: child_of_def)
    qed (use that in blast)
    have up: "0 < j \<Longrightarrow> (\<exists>b l. mdb_page_get st (gs ! (j - 1)) = Some (0, (PMem b, l), st)) \<and> page_of st (gs ! (j - 1)) = Some par \<and>
       page_ok (me_psize (env st)) par \<and> ks ! (j - 1) < NUMKEYS par"
      using par dj unfolding dirty_to_def by auto
    obtain st' t' g' where s: "mdb_page_touch mc st = Some (0, st')" "writer_ok st' t'" "pages_marked st' t'" "pages_ready n st' t'" "free_room n t'"
      "cursors_ok st' dbi" "on_way st' mc dbi (gs[j := g']) ks r j" "level_copied st t st' t' dbi gs ks j g'"
      using touch_level_clean [OF ok(1-6) o mp(1) False mp(2,3) free up] by blast
    note L = s(8) [unfolded level_copied_def]
    note tc = tree_copied [OF i key ok(7) o(2) s(8)]
    have lt: "dbi < length (mt_dbs t')" using L ok(7) by auto
    have "writer_inv dbi n st' t'" using s(2-6) ok(6) lt unfolding writer_inv_def by blast
    moreover have "moved dbi st t (tree_pgs st (length ks) (gs ! 0)) st' t' (tree_pgs st' (length ks) (gs[j := g'] ! 0))"
      by (rule copied_moved [OF s(8) tc(2)])
    moreover have "dirty_to st' (gs[j := g']) (Suc j)"
      unfolding dirty_to_def
    proof (intro allI impI)
      fix i assume i: "i < Suc j"
      show "\<exists>a l. mdb_page_get st' (gs[j := g'] ! i) = Some (0, (PMem a, l), st')"
      proof (cases "i = j")
        case True
        then show ?thesis using L o(2) by auto
      next
        case False
        then have ij: "i < j" "i < length gs" using i o(2) by simp_all
        obtain a l where a: "mdb_page_get st (gs ! i) = Some (0, (PMem a, l), st)" using dj ij unfolding dirty_to_def by blast
        have "gs ! i \<noteq> g'" by (rule found_not_fresh [OF ok(1) a]) (use free ij L in blast)+
        then show ?thesis using L a False by auto
      qed
    qed
    ultimately show ?thesis using s(1,7) tc(1) by (metis length_list_update)
  qed
qed

end


section \<open>The loop\<close>

lemma page_of_same: "same_pages st st' \<Longrightarrow> page_of st' x = page_of st x"
  by (rule page_of_cong [OF same_lookup_pages]) (simp_all add: same_pages_simps)

lemma tree_pgs_same: "same_pages st st' \<Longrightarrow> tree_pgs st' d pg = tree_pgs st d pg"
  by (rule tree_pgs_cong) (simp add: page_of_same)

lemma get_same: "same_pages st st' \<Longrightarrow> mdb_page_get st' x = Some (0, r, st') \<longleftrightarrow> mdb_page_get st x = Some (0, r, st)"
  by (rule lookup_get_iff [OF same_lookup_pages])

lemma tree_inv_same: "same_pages st st' \<Longrightarrow> tree_inv lt key its nds dbi st t gs ks \<Longrightarrow> tree_inv lt key its nds dbi st' t gs ks"
proof -
  assume s: "same_pages st st'" and i: "tree_inv lt key its nds dbi st t gs ks"
  have p: "pghead_ids st' = pghead_ids st" using same_pages_simps(6) [OF s] by (simp add: pghead_ids_def)
  show ?thesis using i subtree_same [OF _ s]
    unfolding tree_inv_def chain_def way_pages_def sized_def page_of_same [OF s] tree_pgs_same [OF s] p same_pages_simps(6) [OF s] by blast
qed

lemma dirty_to_same: "same_pages st st' \<Longrightarrow> dirty_to st' gs j = dirty_to st gs j"
  by (simp add: dirty_to_def get_same)

lemma writer_inv_cur:
  assumes w: "writer_inv dbi n st t" and f: "\<And>c. stack_full c \<Longrightarrow> stack_full (f c)"
  shows "writer_inv dbi n (upd_cur mc f st) t"
proof -
  note W = w [unfolded writer_inv_def]
  have u: "upd_cur mc f st = st\<lparr>crs := (crs st)(mc := map_option f (crs st mc))\<rparr>" by (simp add: upd_cur_def)
  have "writer_ok (upd_cur mc f st) t" unfolding u by (rule writer_ok_crs) (use W in auto)
  moreover have "cursors_ok (upd_cur mc f st) dbi"
  proof -
    obtain ms where ms: "tracked st dbi = Some ms" "\<forall>m \<in> set ms. \<exists>c. crs st m = Some c \<and> stack_full c" using W by (auto simp: cursors_ok_def)
    have "tracked (upd_cur mc f st) dbi = Some ms" using ms(1) by (simp add: tracked_def get_txn_def u)
    moreover have "\<forall>m \<in> set ms. \<exists>c. crs (upd_cur mc f st) m = Some c \<and> stack_full c" using ms(2) f by (auto simp: u)
    ultimately show ?thesis unfolding cursors_ok_def by blast
  qed
  ultimately show ?thesis using W unfolding writer_inv_def by (simp add: u crs_irrelevant)
qed

lemma on_way_top: "on_way st mc dbi gs ks r j \<Longrightarrow> on_way (upd_cur mc (\<lambda>c. c\<lparr>mc_top := f c\<rparr>) st) mc dbi gs ks r (f (the (crs st mc)))"
proof -
  assume o: "on_way st mc dbi gs ks r j"
  have s: "same_pages st (upd_cur mc (\<lambda>c. c\<lparr>mc_top := f c\<rparr>) st)" by simp
  show ?thesis using o unfolding on_way_def get_same [OF s] by (auto simp: upd_cur_def stack_full_def)
qed

lemma moved_cur: "moved dbi st t pgs st' t' pgs' \<Longrightarrow> moved dbi st t pgs (upd_cur mc f st') t' pgs'"
  by (simp add: moved_def upd_cur_def pghead_ids_def)

lemma top_full: "stack_full c \<Longrightarrow> stack_full (c\<lparr>mc_top := x\<rparr>)"
  by (simp add: stack_full_def)

context tree_order
begin

lemma touch_stack_run:
  assumes "writer_inv dbi (n + k) st t" "tree_inv less key its nds dbi st t gs ks" "on_way st mc dbi gs ks r j" "j + k = length gs"
    "dirty_to st gs j" "key \<in> K"
  shows "\<exists>st' t' gs'. touch_stack mc k st = Some (0, st') \<and> writer_inv dbi n st' t' \<and> tree_inv less key its nds dbi st' t' gs' ks \<and>
     on_way st' mc dbi gs' ks r (length gs') \<and> dirty_to st' gs' (length gs') \<and> length gs' = length gs \<and>
     moved dbi st t (tree_pgs st (length ks) (gs ! 0)) st' t' (tree_pgs st' (length ks) (gs' ! 0))"
  using assms(1-5)
proof (induction k arbitrary: st t gs j)
  case 0
  then show ?case using moved_refl by (intro exI [of _ st] exI [of _ t] exI [of _ gs]) (simp del: tree_pgs.simps)
next
  case (Suc k)
  have j: "j < length gs" using Suc.prems(4) by simp
  obtain st1 t1 gs1 where s: "mdb_page_touch mc st = Some (0, st1)" "writer_inv dbi (n + k) st1 t1" "tree_inv less key its nds dbi st1 t1 gs1 ks"
     "on_way st1 mc dbi gs1 ks r j" "dirty_to st1 gs1 (Suc j)" "length gs1 = length gs"
     "moved dbi st t (tree_pgs st (length ks) (gs ! 0)) st1 t1 (tree_pgs st1 (length ks) (gs1 ! 0))"
    using touch_level [OF _ Suc.prems(2,3) j Suc.prems(5) assms(6), of "n + k"] Suc.prems(1) by auto
  define st2 where "st2 = upd_cur mc (\<lambda>c. c\<lparr>mc_top := mc_top c + 1\<rparr>) st1"
  have same: "same_pages st1 st2" by (simp add: st2_def)
  have w2: "writer_inv dbi (n + k) st2 t1" unfolding st2_def by (rule writer_inv_cur [OF s(2) top_full])
  have t2: "tree_inv less key its nds dbi st2 t1 gs1 ks" by (rule tree_inv_same [OF same s(3)])
  have "mc_top (the (crs st1 mc)) = j" using s(4) by (auto simp: on_way_def)
  then have o2: "on_way st2 mc dbi gs1 ks r (Suc j)" using on_way_top [OF s(4), of "\<lambda>c. mc_top c + 1"] by (simp add: st2_def)
  have d2: "dirty_to st2 gs1 (Suc j)" using s(5) dirty_to_same [OF same] by simp
  have m2: "moved dbi st t (tree_pgs st (length ks) (gs ! 0)) st2 t1 (tree_pgs st2 (length ks) (gs1 ! 0))"
    using moved_cur [OF s(7)] tree_pgs_same [OF same] by (simp add: st2_def)
  obtain st' t' gs' where IH: "touch_stack mc k st2 = Some (0, st')" "writer_inv dbi n st' t'" "tree_inv less key its nds dbi st' t' gs' ks"
     "on_way st' mc dbi gs' ks r (length gs')" "dirty_to st' gs' (length gs')" "length gs' = length gs1"
     "moved dbi st2 t1 (tree_pgs st2 (length ks) (gs1 ! 0)) st' t' (tree_pgs st' (length ks) (gs' ! 0))"
    using Suc.IH [OF w2 t2 o2 _ d2] Suc.prems(4) s(6) by auto
  have lt: "dbi < length (mt_dbs t)" using Suc.prems(1) by (simp add: writer_inv_def)
  have "touch_stack mc (Suc k) st = Some (0, st')" using s(1) IH(1) by (simp add: rc_bind_def st2_def)
  then show ?case using IH s(6) moved_trans [OF m2 IH(7) lt] by metis
qed

text \<open>
  \<open>mdb_cursor_touch\<close> for the main database, or one whose record is already dirty: the cursor is at the
  same place, all pages on its stack are dirty, and the database holds the same items.
\<close>

lemma cursor_touch_run:
  assumes w: "writer_inv dbi (n + length gs) st t" and i: "tree_inv less key its nds dbi st t gs ks" and o: "on_way st mc dbi gs ks r j"
    and key: "key \<in> K" and fl: "get_dbflag st dbi = Some fl" "dbi > MAIN_DBI \<longrightarrow> anyset fl DB_DIRTY"
  shows "\<exists>st' t' gs'. mdb_cursor_touch mc st = Some (0, st') \<and> writer_inv dbi n st' t' \<and> tree_inv less key its nds dbi st' t' gs' ks \<and>
     on_way st' mc dbi gs' ks r (length ks) \<and> dirty_to st' gs' (length gs') \<and> length gs' = length gs \<and>
     moved dbi st t (tree_pgs st (length ks) (gs ! 0)) st' t' (tree_pgs st' (length ks) (gs' ! 0))"
proof -
  obtain c where c: "crs st mc = Some c" "mc_dbi c = dbi" "mc_snum c = length gs" "length gs = Suc (length ks)"
    using o unfolding on_way_def by blast
  define st1 where "st1 = upd_cur mc (\<lambda>c. c\<lparr>mc_top := 0\<rparr>) st"
  have same: "same_pages st st1" by (simp add: st1_def)
  have o1: "on_way st1 mc dbi gs ks r 0" unfolding st1_def using on_way_top [OF o, of "\<lambda>_. 0"] by simp
  have w1: "writer_inv dbi (n + length gs) st1 t" unfolding st1_def by (rule writer_inv_cur [OF w top_full])
  have d1: "dirty_to st1 gs 0" by (simp add: dirty_to_def)
  obtain st2 t2 gs2 where s: "touch_stack mc (length gs) st1 = Some (0, st2)" "writer_inv dbi n st2 t2" "tree_inv less key its nds dbi st2 t2 gs2 ks"
     "on_way st2 mc dbi gs2 ks r (length gs2)" "dirty_to st2 gs2 (length gs2)" "length gs2 = length gs"
     "moved dbi st1 t (tree_pgs st1 (length ks) (gs ! 0)) st2 t2 (tree_pgs st2 (length ks) (gs2 ! 0))"
    using touch_stack_run [OF w1 tree_inv_same [OF same i] o1 _ d1 key] by auto
  define st3 where "st3 = upd_cur mc (\<lambda>c. c\<lparr>mc_top := mc_snum c - 1\<rparr>) st2"
  have same3: "same_pages st2 st3" by (simp add: st3_def)
  have "mc_snum (the (crs st2 mc)) - 1 = length ks" using s(4,6) c(4) by (auto simp: on_way_def)
  then have "on_way st3 mc dbi gs2 ks r (length ks)" using on_way_top [OF s(4), of "\<lambda>c. mc_snum c - 1"] by (simp add: st3_def)
  moreover have "writer_inv dbi n st3 t2" unfolding st3_def by (rule writer_inv_cur [OF s(2) top_full])
  moreover have "moved dbi st t (tree_pgs st (length ks) (gs ! 0)) st3 t2 (tree_pgs st3 (length ks) (gs2 ! 0))"
  proof -
    have "moved dbi st t (tree_pgs st (length ks) (gs ! 0)) st2 t2 (tree_pgs st2 (length ks) (gs2 ! 0))"
      using s(7) same tree_pgs_same [OF same] by (simp add: moved_def st1_def upd_cur_def pghead_ids_def)
    then show ?thesis using moved_cur tree_pgs_same [OF same3] by (simp add: st3_def)
  qed
  moreover have "mdb_cursor_touch mc st = Some (0, st3)"
  proof -
    have "crs st1 mc = Some (c\<lparr>mc_top := 0\<rparr>)" using c(1) by (simp add: st1_def upd_cur_def)
    moreover have "length gs \<noteq> 0" using c(4) by simp
    ultimately show ?thesis using c(1-3) fl s(1)
      by (cases "dbi > MAIN_DBI") (simp_all add: mdb_cursor_touch_def rc_bind_def MDB_SUCCESS_def st1_def [symmetric] st3_def del: One_nat_def)
  qed
  ultimately show ?thesis using s(5,6) tree_inv_same [OF same3 s(3)] dirty_to_same [OF same3] by metis
qed

end

end
