(* ===== verification/Lmdb_Update_Facts.thy ===== *)
theory Lmdb_Update_Facts
  imports Lmdb_Touch_Facts
begin

text \<open>
  Storing one item: \<open>mdb_put\<close> on a database whose leaf for the key has room turns the tree into one
  of the updated map, copies what it changes, and leaves the state ready for the next operation.
\<close>

section \<open>Databases that can be written\<close>

text \<open>The tree of a database in a write transaction: no page twice, and none that could be allocated.\<close>

definition db_tree :: "(byte list \<Rightarrow> byte list \<Rightarrow> bool) \<Rightarrow> st \<Rightarrow> MDB_txn \<Rightarrow> nat \<Rightarrow> pgno_t \<Rightarrow> (byte list \<times> byte list) list \<Rightarrow> bool" where
  "db_tree lt st t d root its \<longleftrightarrow> d < CURSOR_STACK \<and> subtree lt st d root its \<and> sorted_wrt lt (map fst its) \<and> distinct (tree_pgs st d root) \<and>
     (\<forall>x \<in> set (tree_pgs st d root). 1 < x \<and> x < mt_next_pgno t \<and> x \<notin> set (pghead_ids st) \<and> sized st x)"

lemma way_of_tree:
  assumes "chain lt st key gs ks" "subtree lt st (length ks) (gs ! 0) its" "\<forall>x \<in> set (tree_pgs st (length ks) (gs ! 0)). sized st x"
  shows "way_pages st gs ks"
  using assms
proof (induction ks arbitrary: gs its)
  case Nil
  then obtain g where gs: "gs = [g]" by (auto simp: chain_Nil)
  have "subtree lt st 0 g its" using Nil.prems(2) by (simp add: gs)
  then obtain mp where "page_of st g = Some mp" "IS_LEAF mp" by (elim subtree_leafE) (simp add: page_at_iff)
  then show ?case using Nil.prems(3) by (auto simp: way_pages_def gs sized_def)
next
  case (Cons k ks)
  obtain g gs' where gs: "gs = g # gs'" using Cons.prems(1) by (cases gs) (auto simp: chain_def)
  obtain mp where mp: "page_of st g = Some mp" "child_of lt key mp k" "NODEPGNO (page_items mp ! k) = gs' ! 0"
    and ch: "chain lt st key gs' ks" using Cons.prems(1) by (auto simp: chain_Cons gs)
  have k: "k < NUMKEYS mp" using mp(2) by (simp add: child_of_def)
  obtain kids where b: "IS_BRANCH mp" "\<not> IS_LEAF mp" "\<forall>j < NUMKEYS mp. subtree lt st (length ks) (NODEPGNO (page_items mp ! j)) (kids ! j)"
  proof -
    have "subtree lt st (Suc (length ks)) g its" using Cons.prems(2) by (simp add: gs)
    then obtain mp0 kids where "page_at st g mp0" "IS_BRANCH mp0" "\<not> IS_LEAF mp0"
      "\<forall>j < NUMKEYS mp0. subtree lt st (length ks) (NODEPGNO (page_items mp0 ! j)) (kids ! j)"
      by (elim subtree_branchE) (rule that; assumption)
    then show thesis using that mp(1) by (simp add: page_at_iff)
  qed
  have sub: "subtree lt st (length ks) (gs' ! 0) (kids ! k)" using b(3) k mp(3) by metis
  have nd: "page_items mp ! k \<in> set (page_items mp)" using k by simp
  have "set (tree_pgs st (length ks) (gs' ! 0)) \<subseteq> set (tree_pgs st (Suc (length ks)) g)"
    using mp(1,3) nd by (auto intro!: bexI [OF _ nd])
  then have "way_pages st gs' ks" using Cons.IH [OF ch sub] Cons.prems(3) by (auto simp: gs)
  moreover have "sized st g" using Cons.prems(3) tree_pgs_root [of g st "length (k # ks)"] by (simp add: gs del: tree_pgs.simps)
  ultimately show ?case
    using mp(1) b(1,2) unfolding way_pages_def gs by (simp add: sized_def All_less_Suc2)
qed

section \<open>From the search to the loop\<close>

lemma stack_way:
  assumes s: "on_stack st rt path" and q: "mdb_page_get st q = Some (0, (p, l), st)" and c: "cursor_path st1 mc dbi C_INITIALIZED (path @ [(p, r)])"
    and same: "same_pages st st1"
  shows "on_way st1 mc dbi (map fst rt @ [q]) (map snd rt) r (length rt)"
proof -
  have len: "length path = length rt" using s by (simp add: on_stack_def list_all2_lengthD)
  obtain cu where cu: "crs st1 mc = Some cu" "mc_snum cu = Suc (length path)" "mc_top cu = length path" "length (mc_pg cu) = CURSOR_STACK"
    "length (mc_ki cu) = CURSOR_STACK" "take (Suc (length path)) (zip (mc_pg cu) (mc_ki cu)) = path @ [(p, r)]" "length path < CURSOR_STACK"
    "mc_dbi cu = dbi" "mc_flags cu = C_INITIALIZED"
    using c by (auto simp: cursor_path_def)
  have at: "(mc_pg cu ! i, mc_ki cu ! i) = (path @ [(p, r)]) ! i" if "i < Suc (length path)" for i
  proof -
    have "(path @ [(p, r)]) ! i = zip (mc_pg cu) (mc_ki cu) ! i" using cu(6) that by (metis nth_take)
    then show ?thesis using that cu(4,5,7) by simp
  qed
  have pgs: "\<exists>l. mdb_page_get st ((map fst rt @ [q]) ! i) = Some (0, (mc_pg cu ! i, l), st)" if i: "i < Suc (length rt)" for i
  proof (cases "i = length rt")
    case True
    then show ?thesis using at [of i] q len by (simp add: nth_append)
  next
    case False
    then have i: "i < length rt" using i by simp
    then have "\<exists>l. mdb_page_get st (fst (rt ! i)) = Some (0, (fst (path ! i), l), st)"
      using s len by (auto simp: on_stack_def list_all2_conv_all_nth split_beta)
    then show ?thesis using at [of i] i len by (simp add: nth_append) (metis fst_conv)
  qed
  have kis: "mc_ki cu ! i = map snd rt ! i" if i: "i < length rt" for i
  proof -
    have "snd (path ! i) = snd (rt ! i)" using s i len by (auto simp: on_stack_def list_all2_conv_all_nth split_beta)
    then show ?thesis using at [of i] i len by (simp add: nth_append) (metis snd_conv)
  qed
  have "mc_ki cu ! length rt = r" using at [of "length rt"] len by (simp add: nth_append)
  then show ?thesis
    unfolding on_way_def get_same [OF same]
    by (intro exI [of _ cu]) (use cu len pgs kis in \<open>auto simp: stack_full_def\<close>)
qed


context tree_order
begin

text \<open>The search of \<open>mdb_cursor_set\<close> establishes the invariant of the copying loop.\<close>

lemma leaf_way:
  assumes a: "at_leaf less st key d (md_root db) st1 mc dbi rt path q p r mp its0" and same: "same_pages st st1"
    and tr: "db_tree less st t d (md_root db) its" and db: "mt_dbs t ! dbi = db"
  defines "gs \<equiv> map fst rt @ [q]" and "ks \<equiv> map snd rt"
  shows "on_way st1 mc dbi gs ks r (length ks)" "tree_inv less key its (page_items mp) dbi st1 t gs ks" "gs ! 0 = md_root db" "length ks = d"
proof -
  have A: "route less st key d (md_root db) rt 0 q" "on_stack st rt path" "get_page st p = Some mp"
    "cursor_path st1 mc dbi C_INITIALIZED (path @ [(p, r)])" "r \<le> length its0" "page_ok ps mp \<longrightarrow> True" for ps
    using a unfolding at_leaf_def by blast+
  obtain l where q: "mdb_page_get st q = Some (0, (p, l), st)" using a unfolding at_leaf_def by blast
  show "on_way st1 mc dbi gs ks r (length ks)" using stack_way [OF A(2) q A(4) same] by (simp add: gs_def ks_def)
  have ch: "chain less st key gs ks" "length ks = d" "gs ! 0 = md_root db"
    using route_chain [OF A(1)] by (simp_all add: gs_def ks_def)
  have D: "subtree less st d (md_root db) its" "distinct (tree_pgs st d (md_root db))"
    "\<forall>x \<in> set (tree_pgs st d (md_root db)). x < mt_next_pgno t \<and> x \<notin> set (pghead_ids st) \<and> sized st x"
    using tr unfolding db_tree_def by blast+
  have w: "way_pages st gs ks" by (rule way_of_tree [OF ch(1)]) (use D ch(2,3) in auto)
  have lf: "page_of st (gs ! length ks) = Some mp"
    using page_of_get [OF q] A(3) by (simp add: gs_def ks_def nth_append)
  have "tree_inv less key its (page_items mp) dbi st t gs ks"
    unfolding tree_inv_def using ch D w lf db by simp
  then show "tree_inv less key its (page_items mp) dbi st1 t gs ks" by (rule tree_inv_same [OF same])
  show "gs ! 0 = md_root db" "length ks = d" by (fact ch)+
qed

end


section \<open>The updated items\<close>

text \<open>\<open>r\<close> is the place of the key in the keys \<open>kys\<close> of a leaf.\<close>

definition place :: "(byte list \<Rightarrow> byte list \<Rightarrow> bool) \<Rightarrow> byte list \<Rightarrow> byte list list \<Rightarrow> nat \<Rightarrow> bool" where
  "place lt key kys r \<longleftrightarrow> r \<le> length kys \<and> (\<forall>k < r. lt (kys ! k) key) \<and> (\<forall>k. r \<le> k \<longrightarrow> k < length kys \<longrightarrow> kys ! k = key \<or> lt key (kys ! k))"

context tree_order
begin

lemma put_items_split:
  assumes "place less key (map fst its0) r" "sorted_wrt less (map fst its0)" "key \<in> K" "fst ` set its0 \<subseteq> K"
  defines "found \<equiv> r < length its0 \<and> fst (its0 ! r) = key"
  shows "put_items r key v its0 = take r its0 @ (key, v) # drop (if found then Suc r else r) its0"
    "\<forall>x \<in> set (take r its0). less (fst x) key" "\<forall>x \<in> set (drop (if found then Suc r else r) its0). less key (fst x)"
proof -
  have P: "r \<le> length its0" "\<And>k. k < r \<Longrightarrow> less (fst (its0 ! k)) key"
    "\<And>k. r \<le> k \<Longrightarrow> k < length its0 \<Longrightarrow> fst (its0 ! k) = key \<or> less key (fst (its0 ! k))"
    using assms(1) unfolding place_def by auto
  show "put_items r key v its0 = take r its0 @ (key, v) # drop (if found then Suc r else r) its0"
    by (auto simp: put_items_def found_def insert_at_def upd_conv_take_nth_drop)
  show "\<forall>x \<in> set (take r its0). less (fst x) key"
  proof
    fix x assume "x \<in> set (take r its0)"
    then obtain k where "k < r" "x = its0 ! k" by (auto simp: in_set_conv_nth)
    then show "less (fst x) key" using P(2) by blast
  qed
  show "\<forall>x \<in> set (drop (if found then Suc r else r) its0). less key (fst x)"
  proof
    fix x assume x: "x \<in> set (drop (if found then Suc r else r) its0)"
    obtain k where k: "(if found then Suc r else r) \<le> k" "k < length its0" "x = its0 ! k"
    proof -
      obtain i where "i < length (drop (if found then Suc r else r) its0)" "x = drop (if found then Suc r else r) its0 ! i"
        using x by (metis in_set_conv_nth)
      then show thesis by (intro that [of "(if found then Suc r else r) + i"]) simp_all
    qed
    show "less key (fst x)"
    proof (cases "found")
      case True
      then have "less (map fst its0 ! r) (map fst its0 ! k)" using sorted_wrt_nth_less [OF assms(2), of r k] k by simp
      then show ?thesis using True k by (simp add: found_def)
    next
      case False
      then have f: "\<not> (r < length its0 \<and> fst (its0 ! r) = key)" by (simp add: found_def)
      have r: "r < length its0" "less key (fst (its0 ! r))" using P(3) [of r] k f False by auto
      have "fst (its0 ! k) \<noteq> key"
      proof
        assume e: "fst (its0 ! k) = key"
        then have "k \<noteq> r" using f r by auto
        then have "less (map fst its0 ! r) (map fst its0 ! k)" using sorted_wrt_nth_less [OF assms(2), of r k] k False by simp
        then have "less (fst (its0 ! r)) key" using e k r by simp
        moreover have "fst (its0 ! r) \<in> K" using assms(4) r(1) by (simp add: image_subset_iff)
        ultimately show False using r(2) asym [OF assms(3)] by blast
      qed
      then show ?thesis using P(3) [of k] k False by auto
    qed
  qed
qed


lemma items_updated:
  assumes pl: "place less key (map fst its0) r" and srt: "sorted_wrt less (map fst (bef @ its0 @ aft))" and K: "key \<in> K" "fst ` set its0 \<subseteq> K"
    and sides: "\<forall>k \<in> fst ` set bef. less k key" "\<forall>k \<in> fst ` set aft. less key k"
    and trans: "\<And>a b. a \<in> fst ` set (bef @ its0) \<Longrightarrow> b \<in> fst ` set (its0 @ aft) \<Longrightarrow> less a key \<Longrightarrow> less key b \<Longrightarrow> less a b"
  shows "sorted_wrt less (map fst (bef @ put_items r key v its0 @ aft))"
    "map_of (bef @ put_items r key v its0 @ aft) = (map_of (bef @ its0 @ aft))(key \<mapsto> v)"
    "map_of (bef @ its0 @ aft) key \<noteq> None \<longleftrightarrow> r < length its0 \<and> fst (its0 ! r) = key"
    "length (put_items r key v its0) = (if r < length its0 \<and> fst (its0 ! r) = key then length its0 else Suc (length its0))"
proof -
  define found where "found \<longleftrightarrow> r < length its0 \<and> fst (its0 ! r) = key"
  define A where "A = bef @ take r its0"
  define B where "B = drop (if found then Suc r else r) its0 @ aft"
  define M where "M = (if found then [its0 ! r] else [])"
  have srt0: "sorted_wrt less (map fst its0)" using srt by (simp add: sorted_wrt_append)
  note sp = put_items_split [OF pl srt0 K, folded found_def]
  have old: "bef @ its0 @ aft = A @ M @ B"
    by (cases found) (auto simp: A_def B_def M_def found_def id_take_nth_drop [symmetric] Cons_nth_drop_Suc)
  have new: "bef @ put_items r key v its0 @ aft = A @ (key, v) # B" by (simp add: sp(1) A_def B_def)
  have AK: "less (fst x) key" if "x \<in> set A" for x using that sp(2) sides(1) by (auto simp: A_def)
  have BK: "less key (fst x)" if "x \<in> set B" for x using that sp(3) sides(2) by (auto simp: B_def)
  have srtAB: "sorted_wrt less (map fst A)" "sorted_wrt less (map fst B)" using srt unfolding old by (simp_all add: sorted_wrt_append)
  have in_: "fst x \<in> fst ` set (bef @ its0)" if "x \<in> set A" for x using that by (auto simp: A_def dest: in_set_takeD)
  have in': "fst x \<in> fst ` set (its0 @ aft)" if "x \<in> set B" for x using that by (auto simp: B_def dest: in_set_dropD)
  show "sorted_wrt less (map fst (bef @ put_items r key v its0 @ aft))"
    unfolding new using srtAB AK BK trans [OF in_ in'] by (auto simp: sorted_wrt_append sorted_wrt_map)
  have no: "key \<notin> fst ` set A" "key \<notin> fst ` set B" using AK BK irrefl [OF K(1)] by fastforce+
  have kM: "fst ` set M \<subseteq> {key}" by (auto simp: M_def found_def)
  show "map_of (bef @ put_items r key v its0 @ aft) = (map_of (bef @ its0 @ aft))(key \<mapsto> v)"
  proof
    fix x
    show "map_of (bef @ put_items r key v its0 @ aft) x = ((map_of (bef @ its0 @ aft))(key \<mapsto> v)) x"
    proof (cases "x = key")
      case True
      then show ?thesis unfolding old new using no(1) by (simp add: map_add_def map_of_eq_None_iff [THEN iffD2] split: option.split)
    next
      case False
      then have "map_of M x = None" using kM by (auto simp: map_of_eq_None_iff)
      then show ?thesis unfolding old new using False by (simp add: map_add_def split: option.split)
    qed
  qed
  have "map_of (bef @ its0 @ aft) key \<noteq> None \<longleftrightarrow> key \<in> fst ` set M"
    unfolding old using no by (auto simp: map_of_eq_None_iff)
  also have "\<dots> \<longleftrightarrow> found" by (auto simp: M_def found_def)
  finally show "map_of (bef @ its0 @ aft) key \<noteq> None \<longleftrightarrow> r < length its0 \<and> fst (its0 ! r) = key" by (simp add: found_def)
  show "length (put_items r key v its0) = (if r < length its0 \<and> fst (its0 ! r) = key then length its0 else Suc (length its0))"
    by (simp add: put_items_def)
qed


section \<open>The store into the leaf\<close>

text \<open>What the way gives for the leaf: its buffer, its items and the cursor.\<close>

lemma way_leaf:
  assumes w: "writer_inv dbi n st t" and i: "tree_inv less key its nds dbi st t gs ks" and o: "on_way st mc dbi gs ks r (length ks)"
    and dj: "dirty_to st gs (length gs)" and key: "key \<in> K"
  shows "\<exists>c a mp its0 bef aft R l. crs st mc = Some c \<and> cur_pg c = Some (PMem a) \<and> cur_ki c = Some r \<and> mc_dbi c = dbi \<and> mc_top c < CURSOR_STACK \<and>
     mc_flags c = C_INITIALIZED \<and> mdb_page_get st (gs ! length ks) = Some (0, (PMem a, l), st) \<and> heap st a = Some mp \<and> page_items mp = nds \<and>
     page_ok (me_psize (env st)) mp \<and> \<not> IS_OVERFLOW mp \<and> IS_LEAF mp \<and> \<not> IS_BRANCH mp \<and> leaf_items st mp its0 \<and> map fst its0 = map NODEKEY nds \<and>
     its = bef @ its0 @ aft \<and> fst ` set its0 \<subseteq> K \<and> (\<forall>k \<in> fst ` set bef. less k key) \<and> (\<forall>k \<in> fst ` set aft. less key k) \<and>
     gs ! length ks \<notin> set R \<and> gs ! length ks \<notin> set (leaf_overflows mp) \<and> 
     mset (tree_pgs st (length ks) (gs ! 0)) = mset (R @ gs ! length ks # leaf_overflows mp) \<and>
     (\<forall>st'. (\<forall>x \<in> set R. page_of st' x = page_of st x) \<longrightarrow>
        mset (tree_pgs st' (length ks) (gs ! 0)) = mset (R @ tree_pgs st' 0 (gs ! length ks)) \<and>
        (\<forall>its1. subtree less st' 0 (gs ! length ks) its1 \<longrightarrow> fst ` set its1 \<subseteq> insert key (fst ` set its0) \<longrightarrow>
           subtree less st' (length ks) (gs ! 0) (bef @ its1 @ aft)))"
proof -
  note T = i [unfolded tree_inv_def]
  define q where "q = gs ! length ks"
  have ch: "chain less st key gs ks" and way: "way_pages st gs ks" and sub: "subtree less st (length ks) (gs ! 0) its"
    and dis: "distinct (tree_pgs st (length ks) (gs ! 0))" using T by blast+
  have rt: "route less st key (length ks) (gs ! 0) (zip gs ks) 0 q" using chain_route [OF ch, of 0] by (simp add: q_def)
  obtain c where c: "crs st mc = Some c" "mc_dbi c = dbi" "mc_top c = length ks" "mc_flags c = C_INITIALIZED" "stack_full c"
    "length gs \<le> CURSOR_STACK" "length gs = Suc (length ks)" "mc_ki c ! length ks = r"
    and cg: "\<forall>i < length gs. \<exists>l. mdb_page_get st (gs ! i) = Some (0, (mc_pg c ! i, l), st)"
    using o unfolding on_way_def by blast
  have lk: "length ks < length gs" using c(7) by simp
  obtain a l where pg: "mdb_page_get st q = Some (0, (PMem a, l), st)" using dj lk unfolding dirty_to_def q_def by blast
  obtain l1 where "mdb_page_get st q = Some (0, (mc_pg c ! length ks, l1), st)" using cg lk unfolding q_def by blast
  then have pa: "mc_pg c ! length ks = PMem a" using pg by simp
  obtain R bef its0 aft where lift: "mset (tree_pgs st (length ks) (gs ! 0)) = mset (R @ tree_pgs st 0 q)"
     "its = bef @ its0 @ aft" "subtree less st 0 q its0" "\<forall>k \<in> fst ` set bef. less k key" "\<forall>k \<in> fst ` set aft. less key k"
    and lf: "\<forall>st'. (\<forall>x \<in> set R. page_of st' x = page_of st x) \<longrightarrow>
        mset (tree_pgs st' (length ks) (gs ! 0)) = mset (R @ tree_pgs st' 0 q) \<and>
        (\<forall>its1. subtree less st' 0 q its1 \<longrightarrow> fst ` set its1 \<subseteq> insert key (fst ` set its0) \<longrightarrow>
           subtree less st' (length ks) (gs ! 0) (bef @ its1 @ aft))"
    using route_lift [OF rt sub key] by (elim exE conjE) (rule that; assumption)
  obtain mp psize where mp: "get_page st (PMem a) = Some mp" "page_ok psize mp" "IS_LEAF mp" "\<not> IS_BRANCH mp" "leaf_items st mp its0"
    using leaf_of_subtree [OF pg lift(3)] by blast
  have po: "page_of st q = Some mp" using page_of_get [OF pg] mp(1) by simp
  have sz: "page_ok (me_psize (env st)) mp" "\<not> IS_OVERFLOW mp" using way lk po unfolding way_pages_def q_def by auto
  have nds: "page_items mp = nds" using T po by (simp add: q_def)
  have tp: "tree_pgs st 0 q = q # leaf_overflows mp" using po by simp
  have d2: "distinct (R @ q # leaf_overflows mp)" using dis lift(1) unfolding tp by (metis mset_eq_imp_distinct_iff)
  have "fst ` set its0 \<subseteq> K" using subtree_K [OF lift(3)] by blast
  moreover have "map fst its0 = map NODEKEY nds" using mp(5) nds by (simp add: leaf_items_def)
  moreover have "cur_pg c = Some (PMem a)" "cur_ki c = Some r" "mc_top c < CURSOR_STACK"
    using c(3,5-8) pa by (simp_all add: cur_pg_def cur_ki_def stack_full_def)
  moreover have "heap st a = Some mp" using mp(1) by (simp add: get_page_def)
  moreover have "q \<notin> set R" "q \<notin> set (leaf_overflows mp)" using d2 by auto
  ultimately show ?thesis
    using c(1,2,4) pg nds sz mp(3-5) lift(2,4,5) lf lift(1)
    unfolding q_def [symmetric] tp by blast
qed


lemma leaf_written:
  assumes w: "writer_ok st t" and wr: "wrote st st' dbi f a mp'" and q: "mdb_page_get st q = Some (0, (PMem a, l), st)"
    and mp: "heap st a = Some mp" "page_ok psize mp" "IS_LEAF mp" "\<not> IS_BRANCH mp"
    and mp': "page_ok psize mp'" "mp_flags mp' = mp_flags mp" "leaf_overflows mp' = leaf_overflows mp"
    and its: "leaf_items st mp' its1" "its1 \<noteq> []" and no: "q \<notin> set (leaf_overflows mp)"
  shows "subtree less st' 0 q its1" "tree_pgs st' 0 q = q # leaf_overflows mp" "page_of st' x = (if x = q then Some mp' else page_of st x)"
proof -
  note lk = wrote_lookup [OF wr]
  have po: "page_of st' x = (if x = q then Some mp' else page_of st x)" for x
    by (rule page_of_store [OF _ writer_named [OF w] q]) (use lk in simp_all)
  then show "page_of st' x = (if x = q then Some mp' else page_of st x)" .
  have "leaf_items st' mp' its1" by (rule leaf_items_cong [OF its(1)]) (use po no mp'(3) in auto)
  then show "subtree less st' 0 q its1"
    using subtree.leaf [of st' q mp' psize its1 less] po mp mp'(1) its(2) IS_LEAF_cong [OF mp'(2)] IS_BRANCH_cong [OF mp'(2)]
    by (simp add: page_at_iff)
  show "tree_pgs st' 0 q = q # leaf_overflows mp" using po mp'(3) by simp
qed

text \<open>The end of \<open>mdb_cursor_put\<close>, after the way was copied.\<close>

lemma put_leaf_run:
  assumes w: "writer_inv dbi n st t" and i: "tree_inv less key its nds dbi st t gs ks" and o: "on_way st mc dbi gs ks r (length ks)"
    and dj: "dirty_to st gs (length gs)" and key: "key \<in> K" "length key < 65536" and srt: "sorted_wrt less (map fst its)"
    and pl: "place less key (map NODEKEY nds) r"
    and fit: "\<forall>mp. page_items mp = nds \<longrightarrow> page_ok (me_psize (env st)) mp \<longrightarrow> IS_LEAF mp \<longrightarrow>
       leaf_fits (me_nodemax (env st)) mp r (map_of its key \<noteq> None) key v"
  shows "\<exists>st' its' a q mp' l. put_tail mc key v (map_of its key = None) st = Some (0, None, st') \<and>
     wrote st st' dbi (if map_of its key = None then (\<lambda>d. d\<lparr>md_entries := md_entries d + 1\<rparr>) else (\<lambda>d. d)) a mp' \<and>
     mdb_page_get st q = Some (0, (PMem a, l), st) \<and> (\<exists>mp. heap st a = Some mp \<and> mp_flags mp' = mp_flags mp \<and> mp_pgno mp' = mp_pgno mp) \<and>
     q \<in> set (tree_pgs st (length ks) (gs ! 0)) \<and>
     page_ok (me_psize (env st)) mp' \<and> \<not> IS_OVERFLOW mp' \<and> (\<forall>x. page_of st' x = (if x = q then Some mp' else page_of st x)) \<and>
     subtree less st' (length ks) (gs ! 0) its' \<and> sorted_wrt less (map fst its') \<and> map_of its' = (map_of its)(key \<mapsto> v) \<and>
     length its' = (if map_of its key = None then Suc (length its) else length its) \<and>
     mset (tree_pgs st' (length ks) (gs ! 0)) = mset (tree_pgs st (length ks) (gs ! 0))"
proof -
  define q where "q = gs ! length ks"
  obtain c a mp its0 bef aft R l where c: "crs st mc = Some c" "cur_pg c = Some (PMem a)" "cur_ki c = Some r" "mc_dbi c = dbi" "mc_top c < CURSOR_STACK"
     "mc_flags c = C_INITIALIZED" and pg: "mdb_page_get st q = Some (0, (PMem a, l), st)"
     and mp: "heap st a = Some mp" "page_items mp = nds" "page_ok (me_psize (env st)) mp" "\<not> IS_OVERFLOW mp" "IS_LEAF mp" "\<not> IS_BRANCH mp" "leaf_items st mp its0"
     and it: "map fst its0 = map NODEKEY nds" "its = bef @ its0 @ aft" "fst ` set its0 \<subseteq> K" "\<forall>k \<in> fst ` set bef. less k key" "\<forall>k \<in> fst ` set aft. less key k"
     and no: "q \<notin> set R" "q \<notin> set (leaf_overflows mp)" and ms: "mset (tree_pgs st (length ks) (gs ! 0)) = mset (R @ q # leaf_overflows mp)"
     and lift: "\<forall>st'. (\<forall>x \<in> set R. page_of st' x = page_of st x) \<longrightarrow>
        mset (tree_pgs st' (length ks) (gs ! 0)) = mset (R @ tree_pgs st' 0 q) \<and>
        (\<forall>its1. subtree less st' 0 q its1 \<longrightarrow> fst ` set its1 \<subseteq> insert key (fst ` set its0) \<longrightarrow>
           subtree less st' (length ks) (gs ! 0) (bef @ its1 @ aft))"
    using way_leaf [OF w i o dj key(1)] unfolding q_def [symmetric] by (elim exE conjE) (rule that; assumption)
  have W: "writer_ok st t" "cursors_ok st dbi" using w unfolding writer_inv_def by blast+
  have sub: "subtree less st (length ks) (gs ! 0) its" using i unfolding tree_inv_def by blast
  have itsK: "fst ` set its \<subseteq> K" using subtree_K [OF sub] by blast
  have pl0: "place less key (map fst its0) r" using pl it(1) by simp
  have tr: "less x y" if "x \<in> fst ` set (bef @ its0)" "y \<in> fst ` set (its0 @ aft)" "less x key" "less key y" for x y
    by (rule less_trans [OF _ key(1) _ that(3,4)]) (use that(1,2) itsK it(2) in auto)
  have upd: "sorted_wrt less (map fst (bef @ put_items r key v its0 @ aft))"
    "map_of (bef @ put_items r key v its0 @ aft) = (map_of its)(key \<mapsto> v)"
    "map_of its key \<noteq> None \<longleftrightarrow> r < length its0 \<and> fst (its0 ! r) = key"
    "length (put_items r key v its0) = (if r < length its0 \<and> fst (its0 ! r) = key then length its0 else Suc (length its0))"
    using items_updated [OF pl0 srt [unfolded it(2)] key(1) it(3,4,5) tr] unfolding it(2) by blast+
  define its1 where "its1 = put_items r key v its0"
  define found where "found \<longleftrightarrow> r < length its0 \<and> fst (its0 ! r) = key"
  have fd: "map_of its key \<noteq> None \<longleftrightarrow> found" using upd(3) by (simp add: found_def)
  have lf: "leaf_fits (me_nodemax (env st)) mp r found key v" using fit mp(2,3,5) fd by simp
  have r: "r \<le> length its0" using pl0 unfolding place_def by simp
  define f :: "MDB_db \<Rightarrow> MDB_db" where "f = (if found then (\<lambda>d. d) else (\<lambda>d. d\<lparr>md_entries := md_entries d + 1\<rparr>))"
  have sub_fl: "\<not> anyset (mc_flags c) C_SUB" by (simp add: c(6) anyset_def C_INITIALIZED_def C_SUB_def)
  obtain st' mp' where s: "put_tail mc key v (\<not> found) st = Some (MDB_SUCCESS, None, st')" "wrote st st' dbi f a mp'"
    "page_ok (me_psize (env st)) mp'" "leaf_items st mp' its1" "leaf_overflows mp' = leaf_overflows mp" "mp_flags mp' = mp_flags mp" "mp_pgno mp' = mp_pgno mp"
  proof (cases found)
    case True
    then have old: "r < length its0" "fst (its0 ! r) = key" by (simp_all add: found_def)
    have fit1: "leaf_fits (me_nodemax (env st)) mp r True key v" using lf True by simp
    have f: "f = (\<lambda>d. d)" and nf: "(\<not> found) = False" using True by (simp_all add: f_def)
    show thesis using put_replace_run [OF c(1-5) sub_fl mp(1,3,5,7) key(2) fit1 W(2) old]
      by (elim exE conjE) (rule that [unfolded its1_def f nf]; assumption)
  next
    case False
    then have new: "\<not> (r < length its0 \<and> fst (its0 ! r) = key)" by (simp add: found_def)
    have fit1: "leaf_fits (me_nodemax (env st)) mp r False key v" using lf False by simp
    have f: "f = (\<lambda>d. d\<lparr>md_entries := md_entries d + 1\<rparr>)" and nf: "(\<not> found) = True" using False by (simp_all add: f_def)
    show thesis using put_insert_run [OF c(1-5) mp(1,3,5,7) r key(2) fit1 W(2) new]
      by (elim exE conjE) (rule that [unfolded its1_def f nf]; assumption)
  qed
  have ne: "its1 \<noteq> []" using upd(4) r unfolding its1_def by (cases its0) (auto simp: put_items_def insert_at_def)
  note lw = leaf_written [OF W(1) s(2) pg mp(1,3,5,6) s(3,6,5,4) ne no(2)]
  have "\<forall>x \<in> set R. page_of st' x = page_of st x" using lw(3) no(1) by auto
  then have l': "mset (tree_pgs st' (length ks) (gs ! 0)) = mset (R @ tree_pgs st' 0 q)"
    "subtree less st' 0 q its1 \<Longrightarrow> fst ` set its1 \<subseteq> insert key (fst ` set its0) \<Longrightarrow> subtree less st' (length ks) (gs ! 0) (bef @ its1 @ aft)"
    using lift by blast+
  have "set its1 \<subseteq> insert (key, v) (set its0)"
    using r by (auto simp: its1_def put_items_def set_insert_at dest: set_update_subset_insert [THEN subsetD])
  then have tree: "subtree less st' (length ks) (gs ! 0) (bef @ its1 @ aft)" using l'(2) lw(1) by force
  have "length (bef @ its1 @ aft) = (if map_of its key = None then Suc (length its) else length its)"
    using upd(4) fd it(2) by (auto simp: its1_def found_def)
  moreover have "IS_OVERFLOW mp' = IS_OVERFLOW mp" by (simp add: IS_OVERFLOW_def s(6))
  moreover have "q \<in> set (tree_pgs st (length ks) (gs ! 0))" using ms by (metis in_set_conv_decomp mset_eq_setD)
  moreover have "mset (tree_pgs st' (length ks) (gs ! 0)) = mset (tree_pgs st (length ks) (gs ! 0))" using l'(1) lw(2) ms by simp
  moreover have "(map_of its key = None) = (\<not> found)" using fd by blast
  ultimately show ?thesis
    using s(1,2,3,6,7) pg mp(1,4) tree upd(1,2) lw(3) unfolding its1_def [symmetric] MDB_SUCCESS_def f_def
    by (intro exI [of _ st'] exI [of _ "bef @ its1 @ aft"] exI [of _ a] exI [of _ q] exI [of _ mp'] exI [of _ l]) auto
qed

end

end
