(* ===== verification/Lmdb_Db_Facts.thy ===== *)
theory Lmdb_Db_Facts
  imports Lmdb_Update_Facts
begin

text \<open>
  \<open>mdb_put\<close> as a whole: the local cursor, the search, the copied way, the store into the leaf.  A
  database that can be written stays one, and its map is updated.
\<close>

section \<open>The writer after the store\<close>

lemma upd_db_single: "txns st = [t] \<Longrightarrow> upd_db dbi f st = st\<lparr>txns := [t\<lparr>mt_dbs := (mt_dbs t)[dbi := f (mt_dbs t ! dbi)]\<rparr>]\<rparr>"
  by (simp add: upd_db_def upd_txn_def)

lemma writer_inv_crs:
  assumes w: "writer_inv dbi n st t" and g: "cursors_kept (crs st) g"
  shows "writer_inv dbi n (st\<lparr>crs := g\<rparr>) t"
proof -
  note W = w [unfolded writer_inv_def]
  obtain ms where ms: "tracked st dbi = Some ms" "\<forall>m \<in> set ms. \<exists>c. crs st m = Some c \<and> stack_full c" using W by (auto simp: cursors_ok_def)
  have "tracked (st\<lparr>crs := g\<rparr>) dbi = Some ms" using ms(1) by (simp add: tracked_def get_txn_def)
  moreover have "\<forall>m \<in> set ms. \<exists>c. g m = Some c \<and> stack_full c" using ms(2) g unfolding cursors_kept_def by metis
  ultimately have "cursors_ok (st\<lparr>crs := g\<rparr>) dbi" by (simp add: cursors_ok_def)
  moreover have "writer_ok (st\<lparr>crs := g\<rparr>) t" by (rule writer_ok_crs) (use W g in \<open>auto simp: cursors_kept_def\<close>)
  ultimately show ?thesis using W unfolding writer_inv_def by (simp add: crs_irrelevant)
qed

lemma writer_inv_dbs:
  fixes f :: "MDB_db \<Rightarrow> MDB_db"
  assumes w: "writer_inv dbi n st t"
  defines "t' \<equiv> t\<lparr>mt_dbs := (mt_dbs t)[dbi := f (mt_dbs t ! dbi)]\<rparr>"
  shows "writer_inv dbi n (upd_db dbi f st) t'"
proof -
  note W = w [unfolded writer_inv_def]
  have t: "txns st = [t]" using W unfolding writer_ok_def plain_writer_def by blast
  define st' where "st' = upd_db dbi f st"
  have st': "st' = st\<lparr>txns := [t']\<rparr>" using upd_db_single [OF t] by (simp add: st'_def t'_def)
  have g: "get_txn st = Some t" "get_txn st' = Some t'" using t by (simp_all add: get_txn_def st')
  have "get_db st' FREE_DBI = get_db st FREE_DBI" "get_dbflag st' = get_dbflag st"
    using W by (auto simp: get_db_def get_dbflag_def g t'_def rd_def)
  moreover have "mdb_find_oldest st' = mdb_find_oldest st" by (rule find_oldest_cong [OF _ t, of _ t']) (simp_all add: st' t'_def)
  ultimately have "pages_ready n st' t'"
    using W unfolding pages_ready_def free_db_ok_def nothing_to_reclaim_def by (auto simp: st' t'_def pghead_ids_def)
  moreover have "pages_marked st' t'" using W unfolding pages_marked_def by (simp add: st' t'_def)
  moreover have "writer_ok st' t'" using writer_ok_dbs [OF _ t] W by (simp add: st'_def t'_def)
  moreover have "free_room n t'" using W by (simp add: free_room_def t'_def)
  moreover have "tracked st' dbi = tracked st dbi" "crs st' = crs st" by (simp_all add: tracked_def g) (simp_all add: st' t'_def)
  then have "cursors_ok st' dbi" using W unfolding cursors_ok_def by simp
  ultimately show ?thesis using W unfolding writer_inv_def st'_def [symmetric] by (simp add: t'_def)
qed

lemma writer_inv_wrote:
  assumes w: "writer_inv dbi n st t" and wr: "wrote st st' dbi f a mp'"
    and mp: "heap st a = Some mp" "mp_flags mp' = mp_flags mp" "mp_pgno mp' = mp_pgno mp"
  shows "writer_inv dbi n st' (t\<lparr>mt_dbs := (mt_dbs t)[dbi := f (mt_dbs t ! dbi)]\<rparr>)"
proof -
  define t' where "t' = t\<lparr>mt_dbs := (mt_dbs t)[dbi := f (mt_dbs t ! dbi)]\<rparr>"
  define st1 where "st1 = upd_db dbi f st"
  have w1: "writer_inv dbi n st1 t'" unfolding st1_def t'_def by (rule writer_inv_dbs [OF w])
  define st2 where "st2 = st1\<lparr>heap := (heap st1)(a \<mapsto> mp')\<rparr>"
  have h1: "heap st1 a = Some mp" using mp(1) by (simp add: st1_def)
  note W = w1 [unfolded writer_inv_def]
  have t1: "get_txn st2 = get_txn st1" "env st2 = env st1" "crs st2 = crs st1" "txns st2 = txns st1" by (simp_all add: st2_def get_txn_def)
  have "writer_ok st2 t'" unfolding st2_def using writer_ok_heap [OF _ h1 mp(3)] W by blast
  moreover have "pages_marked st2 t'"
    using W h1 mp(2) unfolding pages_marked_def by (auto simp: st2_def split: if_splits)
  moreover have "pages_ready n st2 t'"
  proof -
    have "mdb_find_oldest st2 = mdb_find_oldest st1" by (simp add: mdb_find_oldest_def t1)
    then show ?thesis using W unfolding pages_ready_def free_db_ok_def nothing_to_reclaim_def by (simp add: t1 get_db_def get_dbflag_def pghead_ids_def)
  qed
  moreover have "cursors_ok st2 dbi" using W unfolding cursors_ok_def tracked_def t1 by blast
  ultimately have "writer_inv dbi n st2 t'" using W unfolding writer_inv_def by blast
  moreover have "st' = st2\<lparr>crs := crs st'\<rparr>" "cursors_kept (crs st2) (crs st')"
    using wr unfolding wrote_def by (simp_all add: st2_def st1_def)
  ultimately show ?thesis unfolding t'_def [symmetric] by (metis writer_inv_crs)
qed

section \<open>The local cursor\<close>

lemma tracked_not_new: "writer_inv dbi n st t \<Longrightarrow> crs st mc = None \<Longrightarrow> tracked st dbi = Some ms \<Longrightarrow> mc \<notin> set ms"
  by (auto simp: writer_inv_def cursors_ok_def)

lemma writer_inv_local:
  assumes w: "writer_inv dbi n st t"
  shows "writer_inv dbi n (st\<lparr>crs := (crs st)(ncrs st \<mapsto> blank_cursor dbi), ncrs := ncrs st + 1\<rparr>) t"
proof -
  define st' where "st' = st\<lparr>crs := (crs st)(ncrs st \<mapsto> blank_cursor dbi), ncrs := ncrs st + 1\<rparr>"
  note W = w [unfolded writer_inv_def]
  obtain ms where ms: "tracked st dbi = Some ms" "\<forall>m \<in> set ms. \<exists>c. crs st m = Some c \<and> stack_full c" using W by (auto simp: cursors_ok_def)
  have "tracked st' dbi = Some ms" using ms(1) by (simp add: tracked_def get_txn_def st'_def)
  moreover have "stack_full (blank_cursor dbi)" by (simp add: stack_full_def blank_cursor_def)
  ultimately have "cursors_ok st' dbi" using ms(2) by (auto simp: cursors_ok_def st'_def)
  moreover have "writer_ok st' t" using W unfolding writer_ok_def plain_writer_def pghead_ids_def st'_def by auto
  moreover have "mdb_find_oldest st' = mdb_find_oldest st" by (simp add: mdb_find_oldest_def get_txn_def st'_def)
  then have "pages_ready n st' t"
    using W unfolding pages_ready_def free_db_ok_def nothing_to_reclaim_def by (simp add: get_db_def get_dbflag_def get_txn_def pghead_ids_def st'_def)
  moreover have "pages_marked st' t" using W unfolding pages_marked_def st'_def by simp
  ultimately show ?thesis using W unfolding writer_inv_def st'_def by blast
qed

lemma writer_inv_drop:
  assumes w: "writer_inv dbi n st t" and no: "\<And>ms. tracked st dbi = Some ms \<Longrightarrow> mc \<notin> set ms"
  shows "writer_inv dbi n (drop_cursor mc st) t"
proof -
  note W = w [unfolded writer_inv_def]
  obtain ms where ms: "tracked st dbi = Some ms" "\<forall>m \<in> set ms. \<exists>c. crs st m = Some c \<and> stack_full c" using W by (auto simp: cursors_ok_def)
  have "tracked (drop_cursor mc st) dbi = Some ms" using ms(1) by (simp add: tracked_def get_txn_def drop_cursor_def)
  then have "cursors_ok (drop_cursor mc st) dbi" using ms(2) no [OF ms(1)] by (auto simp: cursors_ok_def drop_cursor_def)
  moreover have "writer_ok (drop_cursor mc st) t" unfolding drop_cursor_def by (rule writer_ok_crs) (use W in auto)
  ultimately show ?thesis using W unfolding writer_inv_def by (simp add: drop_cursor_def crs_irrelevant)
qed

lemma writer_inv_only:
  assumes w: "writer_inv dbi n st t" and o: "only mc st st'" and c: "crs st mc \<noteq> None" "crs st' mc = Some c" "stack_full c"
  shows "writer_inv dbi n st' t"
proof -
  have "st' = st\<lparr>crs := crs st'\<rparr>" using o by (simp add: only_def)
  moreover have "cursors_kept (crs st) (crs st')" using o c unfolding cursors_kept_def only_def by metis
  ultimately show ?thesis using writer_inv_crs [OF w] by metis
qed

lemma db_tree_same: "same_pages st st' \<Longrightarrow> db_tree lt st t d root its \<Longrightarrow> db_tree lt st' t d root its"
proof -
  assume s: "same_pages st st'" and i: "db_tree lt st t d root its"
  have p: "pghead_ids st' = pghead_ids st" using same_pages_simps(6) [OF s] by (simp add: pghead_ids_def)
  show ?thesis using i subtree_same [OF _ s]
    unfolding db_tree_def sized_def page_of_same [OF s] tree_pgs_same [OF s] p same_pages_simps(6) [OF s] by blast
qed

lemma db_open_same: "same_pages st st' \<Longrightarrow> db_open st dbi db cc \<Longrightarrow> db_open st' dbi db cc"
  by (simp add: db_open_def same_pages_simps)

section \<open>Room in the leaf and in the dirty list\<close>

lemma leaf_fits_cong:
  assumes a: "page_ok ps mp" "IS_LEAF mp" and b: "page_ok ps mp'" "IS_LEAF mp'" and e: "page_items mp' = page_items mp"
  shows "leaf_fits nm mp' r found key v = leaf_fits nm mp r found key v"
proof -
  have ns: "node_space mp' nd = node_space mp nd" for nd using a(2) b(2) by (simp add: node_space_def)
  have "NUMKEYS mp' = NUMKEYS mp" using e by (metis length_page_items)
  moreover have "mp_upper mp' = mp_upper mp" using page_okD(12) [OF a(1)] page_okD(12) [OF b(1)] by (simp add: e ns [abs_def])
  ultimately have "SIZELEFT mp' = SIZELEFT mp" using page_SIZELEFT [OF a(1)] page_SIZELEFT [OF b(1)] page_lower [OF a(1)] page_lower [OF b(1)] by simp
  then show ?thesis by (simp add: leaf_fits_def e ns)
qed

text \<open>The number of pages for which \<open>mdb_page_spill\<close> wants room in the dirty list.\<close>

definition spill_need :: "st \<Rightarrow> MDB_txn \<Rightarrow> nat \<Rightarrow> byte list \<Rightarrow> byte list \<Rightarrow> nat" where
  "spill_need st t dbi key v = (let i = unat (md_depth (mt_dbs t ! dbi)) + (if dbi > MAIN_DBI then unat (md_depth (mt_dbs t ! MAIN_DBI)) else 0) +
     (LEAFSIZE key (val_of v) + me_psize (env st)) div me_psize (env st) in i + i)"

lemma no_spill:
  assumes c: "crs st mc = Some c" "mc_dbi c = dbi" "\<not> anyset (mc_flags c) C_SUB" and t: "txns st = [t]" "dbi \<noteq> FREE_DBI" "dbi < length (mt_dbs t)"
    and need: "spill_need st t dbi key v < mt_dirty_room t"
  shows "mdb_page_spill mc (Some (key, val_of v)) st = Some (0, st)"
proof -
  have "MAIN_DBI < length (mt_dbs t)" using t(2,3) by (simp add: FREE_DBI_def MAIN_DBI_def)
  then have "get_db st dbi = Some (mt_dbs t ! dbi)" "get_db st MAIN_DBI = Some (mt_dbs t ! MAIN_DBI)" "get_txn st = Some t"
    using t by (simp_all add: get_db_def get_txn_def)
  then show ?thesis
    unfolding mdb_page_spill_def using c need [unfolded spill_need_def Let_def]
    by (simp only: Option.bind.simps Let_def if_False if_True option.case prod.case MDB_SUCCESS_def)
qed


section \<open>Writing the leaf\<close>

text \<open>Where the pages went and what became of the record of the database.\<close>

definition updated :: "nat \<Rightarrow> (MDB_db \<Rightarrow> MDB_db) \<Rightarrow> st \<Rightarrow> MDB_txn \<Rightarrow> pgno_t list \<Rightarrow> st \<Rightarrow> MDB_txn \<Rightarrow> pgno_t list \<Rightarrow> bool" where
  "updated dbi f st t pgs st' t' pgs' \<longleftrightarrow>
     (\<exists>t1. moved dbi st t pgs st' t1 pgs' \<and> t' = t1\<lparr>mt_dbs := (mt_dbs t1)[dbi := f (mt_dbs t1 ! dbi)]\<rparr>)"

abbreviation count_put :: "bool \<Rightarrow> MDB_db \<Rightarrow> MDB_db" where
  "count_put new \<equiv> (if new then (\<lambda>d. d\<lparr>md_entries := md_entries d + 1\<rparr>) else (\<lambda>d. d))"

lemma moved_env: "moved dbi st t pgs st' t' pgs' \<Longrightarrow> me_psize (env st') = me_psize (env st) \<and> me_nodemax (env st') = me_nodemax (env st) \<and>
   me_map (env st') = me_map (env st) \<and> me_metas (env st') = me_metas (env st) \<and> me_dbxs (env st') = me_dbxs (env st) \<and> me_txns (env st') = me_txns (env st)"
  by (auto simp: moved_def)

lemma moved_new: "moved dbi st t pgs st' t' pgs' \<Longrightarrow> x \<in> set pgs' \<Longrightarrow> x \<in> set pgs \<or> x \<in> set (pghead_ids st) \<or> mt_next_pgno t \<le> x"
proof -
  assume m: "moved dbi st t pgs st' t' pgs'" and x: "x \<in> set pgs'"
  obtain fs ns where p: "mset pgs' + mset fs = mset pgs + mset ns" "\<forall>x \<in> set ns. x \<in> set (pghead_ids st) \<or> mt_next_pgno t \<le> x"
    using m unfolding moved_def by blast
  have "set (pgs' @ fs) = set (pgs @ ns)" using p(1) by (intro mset_eq_setD) simp
  then show ?thesis using x p(2) by auto
qed

lemma moved_next: "moved dbi st t pgs st' t' pgs' \<Longrightarrow> mt_next_pgno t \<le> mt_next_pgno t' \<and> set (pghead_ids st') \<subseteq> set (pghead_ids st) \<and> ncrs st \<le> ncrs st'"
  by (simp add: moved_def)

lemma moved_record: "moved dbi st t pgs st' t' pgs' \<Longrightarrow> dbi < length (mt_dbs t) \<Longrightarrow> \<exists>g. mt_dbs t' = (mt_dbs t)[dbi := (mt_dbs t ! dbi)\<lparr>md_root := g\<rparr>]"
  by (auto simp: moved_def)

context tree_order
begin

lemma put_change:
  assumes w: "writer_inv dbi (n + length gs) st t" and i: "tree_inv less key its nds dbi st t gs ks" and o: "on_way st mc dbi gs ks r (length ks)"
    and key: "key \<in> K" "length key < 65536" and fl: "get_dbflag st dbi = Some fl" "dbi > MAIN_DBI \<longrightarrow> anyset fl DB_DIRTY"
    and srt: "sorted_wrt less (map fst its)" and pl: "place less key (map NODEKEY nds) r" and d: "length ks < CURSOR_STACK"
    and fit: "\<forall>mp. page_items mp = nds \<longrightarrow> page_ok (me_psize (env st)) mp \<longrightarrow> IS_LEAF mp \<longrightarrow>
       leaf_fits (me_nodemax (env st)) mp r (map_of its key \<noteq> None) key v"
    and one: "\<forall>x \<in> set (tree_pgs st (length ks) (gs ! 0)). 1 < x" "\<forall>x \<in> set (pghead_ids st). 1 < x" "1 < mt_next_pgno t"
  shows "\<exists>st1 st' t' its'. mdb_cursor_touch mc st = Some (0, st1) \<and> put_tail mc key v (map_of its key = None) st1 = Some (0, None, st') \<and>
     writer_inv dbi n st' t' \<and> db_tree less st' t' (length ks) (md_root (mt_dbs t' ! dbi)) its' \<and> map_of its' = (map_of its)(key \<mapsto> v) \<and>
     length its' = (if map_of its key = None then Suc (length its) else length its) \<and>
     updated dbi (count_put (map_of its key = None)) st t (tree_pgs st (length ks) (gs ! 0)) st' t' (tree_pgs st' (length ks) (md_root (mt_dbs t' ! dbi)))"
proof -
  obtain st1 t1 gs1 where s: "mdb_cursor_touch mc st = Some (0, st1)" "writer_inv dbi n st1 t1" "tree_inv less key its nds dbi st1 t1 gs1 ks"
     "on_way st1 mc dbi gs1 ks r (length ks)" "dirty_to st1 gs1 (length gs1)" "length gs1 = length gs"
     "moved dbi st t (tree_pgs st (length ks) (gs ! 0)) st1 t1 (tree_pgs st1 (length ks) (gs1 ! 0))"
    using cursor_touch_run [OF w i o key(1) fl] by blast
  have e: "me_psize (env st1) = me_psize (env st)" "me_nodemax (env st1) = me_nodemax (env st)" using moved_env [OF s(7)] by simp_all
  define f where "f = count_put (map_of its key = None)"
  note fit1 = fit [folded e]
  obtain st' its' a q mp' l mp where p: "put_tail mc key v (map_of its key = None) st1 = Some (0, None, st')"
     "wrote st1 st' dbi f a mp'" "mdb_page_get st1 q = Some (0, (PMem a, l), st1)" 
     and hp: "heap st1 a = Some mp" "mp_flags mp' = mp_flags mp" "mp_pgno mp' = mp_pgno mp"
     and p2: "q \<in> set (tree_pgs st1 (length ks) (gs1 ! 0))"
     "page_ok (me_psize (env st1)) mp'" "\<not> IS_OVERFLOW mp'" "\<forall>x. page_of st' x = (if x = q then Some mp' else page_of st1 x)"
     "subtree less st' (length ks) (gs1 ! 0) its'" "sorted_wrt less (map fst its')" "map_of its' = (map_of its)(key \<mapsto> v)"
     "length its' = (if map_of its key = None then Suc (length its) else length its)"
     "mset (tree_pgs st' (length ks) (gs1 ! 0)) = mset (tree_pgs st1 (length ks) (gs1 ! 0))"
    using put_leaf_run [OF s(2-5) key srt pl fit1, folded f_def] by (elim exE conjE) (rule that; assumption)
  define t' where "t' = t1\<lparr>mt_dbs := (mt_dbs t1)[dbi := f (mt_dbs t1 ! dbi)]\<rparr>"
  have w': "writer_inv dbi n st' t'" using writer_inv_wrote [OF s(2) p(2) hp] by (simp add: t'_def)
  have dbi: "dbi < length (mt_dbs t1)" using s(2) by (simp add: writer_inv_def)
  have root: "md_root (mt_dbs t' ! dbi) = gs1 ! 0" using s(3) dbi by (simp add: t'_def tree_inv_def f_def)
  have env': "env st' = env st1" "pghead_ids st' = pghead_ids st1" "ncrs st' = ncrs st1"
  proof -
    show "env st' = env st1" using wrote_lookup [OF p(2)] by simp
    then show "pghead_ids st' = pghead_ids st1" by (simp add: pghead_ids_def)
    show "ncrs st' = ncrs st1" by (subst p(2) [unfolded wrote_def, THEN conjunct1]) simp
  qed
  have moved': "moved dbi st t (tree_pgs st (length ks) (gs ! 0)) st' t1 (tree_pgs st' (length ks) (gs1 ! 0))"
    using s(7) unfolding moved_def env' p2(9) .
  have upd: "updated dbi f st t (tree_pgs st (length ks) (gs ! 0)) st' t' (tree_pgs st' (length ks) (gs1 ! 0))"
    unfolding updated_def using moved' t'_def by blast
  have dbt: "db_tree less st' t' (length ks) (gs1 ! 0) its'"
    unfolding db_tree_def
  proof (intro conjI ballI)
    have D: "distinct (tree_pgs st1 (length ks) (gs1 ! 0))"
      "\<forall>x \<in> set (tree_pgs st1 (length ks) (gs1 ! 0)). x < mt_next_pgno t1 \<and> x \<notin> set (pghead_ids st1) \<and> sized st1 x"
      using s(3) unfolding tree_inv_def by blast+
    show "distinct (tree_pgs st' (length ks) (gs1 ! 0))" using D(1) p2(9) by (metis mset_eq_imp_distinct_iff)
    fix x assume x: "x \<in> set (tree_pgs st' (length ks) (gs1 ! 0))"
    then have x1: "x \<in> set (tree_pgs st1 (length ks) (gs1 ! 0))" using mset_eq_setD [OF p2(9)] by simp
    show "1 < x" using moved_new [OF moved' x] one by auto
    show "x < mt_next_pgno t'" "x \<notin> set (pghead_ids st')" using D(2) x1 by (simp_all add: t'_def env')
    show "sized st' x" using D(2) x1 p2(2-4) unfolding sized_def env' by auto
  qed (use d p2(5,6) in auto)
  show ?thesis
    by (rule exI [of _ st1], rule exI [of _ st'], rule exI [of _ t'], rule exI [of _ its'])
      (use s(1) p(1) p2(7,8) w' upd dbt in \<open>simp add: root f_def del: tree_pgs.simps\<close>)
qed

end

section \<open>Storing an item\<close>

text \<open>
  A database of the write transaction that can be written: \<open>n\<close> pages can be allocated, its record is
  loaded, its tree of depth \<open>d\<close> holds \<open>its\<close>.
\<close>

definition writable :: "(byte list \<Rightarrow> byte list \<Rightarrow> bool) \<Rightarrow> MDB_cmp_func \<Rightarrow> nat \<Rightarrow> nat \<Rightarrow> st \<Rightarrow> MDB_txn \<Rightarrow> nat \<Rightarrow> (byte list \<times> byte list) list \<Rightarrow> bool" where
  "writable lt cc dbi n st t d its \<longleftrightarrow> writer_inv dbi n st t \<and> db_open st dbi (mt_dbs t ! dbi) cc \<and>
     db_tree lt st t d (md_root (mt_dbs t ! dbi)) its \<and> 1 < mt_next_pgno t \<and> (\<forall>x \<in> set (pghead_ids st). 1 < x) \<and>
     (dbi > MAIN_DBI \<longrightarrow> (\<exists>fl. get_dbflag st dbi = Some fl \<and> anyset fl DB_DIRTY))"

text \<open>The leaf for the key has room for the item.\<close>

definition leaf_room :: "(byte list \<Rightarrow> byte list \<Rightarrow> bool) \<Rightarrow> st \<Rightarrow> nat \<Rightarrow> pgno_t \<Rightarrow> byte list \<Rightarrow> bool \<Rightarrow> byte list \<Rightarrow> bool" where
  "leaf_room lt st d root key found v \<longleftrightarrow> (\<forall>rt q mp r. route lt st key d root rt 0 q \<longrightarrow> page_of st q = Some mp \<longrightarrow>
     place lt key (map NODEKEY (page_items mp)) r \<longrightarrow> leaf_fits (me_nodemax (env st)) mp r found key v)"

lemma route_same: "same_pages st st' \<Longrightarrow> route lt st' key d pg rt h q \<longleftrightarrow> route lt st key d pg rt h q"
proof -
  have mono: "route lt b key d pg rt h q" if "route lt a key d pg rt h q" "same_pages a b" for a b
    using that by (induction rule: route.induct) (auto intro!: route.intros simp: page_of_same)
  assume "same_pages st st'"
  then show ?thesis using mono same_pages_sym by blast
qed

lemma writer_txn: "writer_inv dbi n st t \<Longrightarrow> txns st = [t]"
  by (simp add: writer_inv_def writer_ok_def plain_writer_def)

lemma db_init:
  assumes op: "db_open st dbi db cc"
  shows "mdb_cursor_init (ncrs st) dbi (snd (local_cursor (blank_cursor dbi) st)) =
    Some (st\<lparr>crs := (crs st)(ncrs st \<mapsto> blank_cursor dbi), ncrs := ncrs st + 1\<rparr>)"
  using op by (auto simp: db_open_def mdb_cursor_init_def search_levels_def numeral_eq_Suc local_cursor_def get_db_def get_dbflag_def get_txn_def)

lemma db_tree_root:
  assumes "db_tree lt st t d root its" "free_room n t"
  shows "1 < root" "root \<noteq> P_INVALID"
proof -
  have r: "1 < root" "root < mt_next_pgno t" using assms(1) tree_pgs_root [of root st d] unfolding db_tree_def by blast+
  show "1 < root" by (fact r)
  have "unat (mt_next_pgno t) < 2 ^ 48" using assms(2) by (simp add: free_room_def)
  then have "unat root < 2 ^ 48" using r(2) by (simp add: word_less_nat_alt)
  moreover have "\<not> unat P_INVALID < 2 ^ 48" by (simp add: P_INVALID_def unsigned_minus_1_eq_mask mask_eq_exp_minus_1)
  ultimately show "root \<noteq> P_INVALID" by blast
qed

lemma updated_txn:
  assumes u: "updated dbi (count_put b) st t pgs st' t' pgs'" and dbi: "dbi < length (mt_dbs t)"
  shows "\<exists>dl r n f g e. t' = t\<lparr>mt_dirty_list := dl, mt_dirty_room := r, mt_next_pgno := n, mt_free_pgs := f,
     mt_dbs := (mt_dbs t)[dbi := (mt_dbs t ! dbi)\<lparr>md_root := g, md_entries := e\<rparr>]\<rparr> \<and>
     e = (if b then md_entries (mt_dbs t ! dbi) + 1 else md_entries (mt_dbs t ! dbi))"
proof -
  obtain t1 where m: "moved dbi st t pgs st' t1 pgs'" and t': "t' = t1\<lparr>mt_dbs := (mt_dbs t1)[dbi := count_put b (mt_dbs t1 ! dbi)]\<rparr>"
    using u unfolding updated_def by blast
  obtain dl r n f g where t1: "t1 = t\<lparr>mt_dirty_list := dl, mt_dirty_room := r, mt_next_pgno := n, mt_free_pgs := f,
        mt_dbs := (mt_dbs t)[dbi := (mt_dbs t ! dbi)\<lparr>md_root := g\<rparr>]\<rparr>" using m unfolding moved_def by (elim conjE exE) (rule that)
  show ?thesis
    by (rule exI [of _ dl], rule exI [of _ r], rule exI [of _ n], rule exI [of _ f], rule exI [of _ g],
        rule exI [of _ "if b then md_entries (mt_dbs t ! dbi) + 1 else md_entries (mt_dbs t ! dbi)"]) (use dbi in \<open>simp add: t' t1\<close>)
qed

lemma db_open_updated:
  assumes op: "db_open st dbi (mt_dbs t ! dbi) cc" and u: "updated dbi (count_put b) st t pgs st' t' pgs'"
    and t: "txns st = [t]" "txns st' = [t']" and dbi: "dbi < length (mt_dbs t)"
  shows "db_open st' dbi (mt_dbs t' ! dbi) cc"
proof -
  obtain dl r n f g e where t': "t' = t\<lparr>mt_dirty_list := dl, mt_dirty_room := r, mt_next_pgno := n, mt_free_pgs := f,
     mt_dbs := (mt_dbs t)[dbi := (mt_dbs t ! dbi)\<lparr>md_root := g, md_entries := e\<rparr>]\<rparr>" using updated_txn [OF u dbi] by (elim exE conjE) (rule that)
  have "me_dbxs (env st') = me_dbxs (env st)" using u moved_env unfolding updated_def by blast
  then show ?thesis using op t dbi unfolding db_open_def by (auto simp: get_txn_def t' TXN_DBI_EXIST_def)
qed

context tree_order
begin

text \<open>The search: the cursor is at the leaf, and the invariant of the copying loop holds.\<close>

lemma put_search:
  assumes w: "writable less cc dbi n st t d its" and key: "key \<in> K" "key \<noteq> []" and cur: "crs st mc = Some (blank_cursor dbi)"
    and room: "leaf_room less st d (md_root (mt_dbs t ! dbi)) key (map_of its key \<noteq> None) v"
  shows "\<exists>st1 gs ks r nds. put_position mc key 0 st = Some (if map_of its key = None then MDB_NOTFOUND else 0, None, False, st1) \<and>
     writable less cc dbi n st1 t d its \<and> tree_inv less key its nds dbi st1 t gs ks \<and> on_way st1 mc dbi gs ks r (length ks) \<and> length ks = d \<and>
     gs ! 0 = md_root (mt_dbs t ! dbi) \<and> place less key (map NODEKEY nds) r \<and> only mc st st1 \<and>
     (\<forall>mp. page_items mp = nds \<longrightarrow> page_ok (me_psize (env st1)) mp \<longrightarrow> IS_LEAF mp \<longrightarrow>
       leaf_fits (me_nodemax (env st1)) mp r (map_of its key \<noteq> None) key v)"
proof -
  define root where "root = md_root (mt_dbs t ! dbi)"
  note W = w [unfolded writable_def, folded root_def]
  have wi: "writer_inv dbi n st t" and op: "db_open st dbi (mt_dbs t ! dbi) cc" and tr: "db_tree less st t d root its" using W by blast+
  have t: "get_txn st = Some t" "dbi < length (mt_dbs t)" "free_room n t"
    using writer_txn [OF wi] wi by (simp_all add: get_txn_def writer_inv_def)
  note rt = db_tree_root [OF tr t(3)]
  have D: "d < CURSOR_STACK" "subtree less st d root its" "sorted_wrt less (map fst its)" using tr unfolding db_tree_def by blast+
  obtain st1 rt path q p r mp its0 where s: "mdb_cursor_set mc key True MDB_SET True st =
       Some (case map_of its key of None \<Rightarrow> (MDB_NOTFOUND, None, None, st1) | Some v \<Rightarrow> (0, None, Some v, st1))" "only mc st st1"
     "at_leaf less st key d root st1 mc dbi rt path q p r mp its0"
    using cursor_set_leaf [OF key op rt [unfolded root_def] D(1) D(2,3) [unfolded root_def] cur, folded root_def]
    by (elim exE conjE) (rule that; assumption)
  have same: "same_pages st st1" by (rule only_same [OF s(2)])
  define gs ks where "gs = map fst rt @ [q]" and "ks = map snd rt"
  note lw = leaf_way [OF s(3) [unfolded root_def] same tr [unfolded root_def] refl, folded gs_def ks_def root_def]
  have pos: "put_position mc key 0 st = Some (if map_of its key = None then MDB_NOTFOUND else 0, None, False, st1)"
    using cur t rt(2) s(1) unfolding root_def
    by (cases "map_of its key") (simp_all add: put_position_def blank_cursor_def get_db_def MDB_CURRENT_def anyset_def MDB_NOTFOUND_def)
  obtain c where c: "crs st1 mc = Some c" "stack_full c" using lw(1) unfolding on_way_def by blast
  have "writer_inv dbi n st1 t" by (rule writer_inv_only [OF wi s(2) _ c]) (simp add: cur)
  moreover have "pghead_ids st1 = pghead_ids st" using same_pages_simps(6) [OF same] by (simp add: pghead_ids_def)
  ultimately have "writable less cc dbi n st1 t d its"
    using W db_open_same [OF same op] db_tree_same [OF same tr] same_pages_simps(4) [OF same] unfolding writable_def root_def by simp
  moreover have pl: "place less key (map NODEKEY (page_items mp)) r" "leaf_items st mp its0" "IS_LEAF mp" "route less st key d root rt 0 q"
  proof -
    have A: "leaf_items st mp its0" "r \<le> length its0" "\<forall>k < r. less (fst (its0 ! k)) key"
      "\<forall>k. r \<le> k \<longrightarrow> k < length its0 \<longrightarrow> fst (its0 ! k) = key \<or> less key (fst (its0 ! k))" "IS_LEAF mp" "route less st key d root rt 0 q"
      using s(3) unfolding at_leaf_def by blast+
    show "leaf_items st mp its0" "IS_LEAF mp" "route less st key d root rt 0 q" by (fact A)+
    have "map NODEKEY (page_items mp) = map fst its0" using A(1) by (simp add: leaf_items_def)
    then show "place less key (map NODEKEY (page_items mp)) r" using A(2-4) by (simp add: place_def)
  qed
  moreover have "leaf_fits (me_nodemax (env st1)) mp' r (map_of its key \<noteq> None) key v"
    if m: "page_items mp' = page_items mp" "page_ok (me_psize (env st1)) mp'" "IS_LEAF mp'" for mp'
  proof -
    obtain l where "mdb_page_get st q = Some (0, (p, l), st)" "get_page st p = Some mp" using s(3) unfolding at_leaf_def by blast
    then have q: "page_of st q = Some mp" using page_of_get by simp
    have "leaf_fits (me_nodemax (env st)) mp r (map_of its key \<noteq> None) key v"
      using room pl(1,4) q unfolding leaf_room_def root_def by blast
    moreover have "\<exists>mq. page_of st1 (gs ! length ks) = Some mq \<and> page_ok (me_psize (env st1)) mq"
      using lw(2) unfolding tree_inv_def way_pages_def chain_def by auto
    then have "page_ok (me_psize (env st1)) mp" using q page_of_same [OF same] by (simp add: gs_def ks_def nth_append)
    ultimately show ?thesis using leaf_fits_cong [OF _ pl(3) m(2,3,1)] same_pages_simps(6) [OF same] by simp
  qed
  ultimately show ?thesis using pos lw s(2) unfolding root_def by blast
qed

end

text \<open>The checks of \<open>mdb_cursor_put\<close> before it changes anything.\<close>

lemma cursor_put_run:
  assumes w: "writer_inv dbi n st t" "get_txn st = Some t" and key: "key \<noteq> []" "length key \<le> MDB_MAXKEYSIZE" and v: "length v \<le> MAXDATASIZE"
    and pos: "put_position mc key 0 st = Some (rc, None, False, st1)" "rc \<noteq> MDB_NO_ROOT"
    and c: "crs st1 mc = Some c" "mc_dbi c = dbi" "mc_flags c = C_INITIALIZED" and t1: "txns st1 = [t]" "spill_need st1 t dbi key v < mt_dirty_room t"
    and touch: "mdb_cursor_touch mc st1 = Some (0, st2)"
  shows "mdb_cursor_put mc key (val_of v) 0 st = put_tail mc key v (rc \<noteq> 0) st2"
proof -
  have ok: "\<not> anyset (mt_flags t) (MDB_TXN_RDONLY OR MDB_TXN_ERROR)" "dbi \<noteq> FREE_DBI" "dbi < length (mt_dbs t)"
    using w(1) by (simp_all add: writer_inv_def writer_ok_def plain_writer_def anyset_def bit.conj_disj_distrib)
  have nd: "upd_cur mc (\<lambda>c. if anyset (mc_flags c) C_DEL then c\<lparr>mc_flags := mc_flags c XOR C_DEL\<rparr> else c) st1 = st1"
    using c(1,3) by (simp add: upd_cur_def anyset_def C_INITIALIZED_def C_DEL_def fun_upd_idem)
  have "\<not> anyset (mc_flags c) C_SUB" using c(3) by (simp add: anyset_def C_INITIALIZED_def C_SUB_def)
  then have spill: "mdb_page_spill mc (Some (key, val_of v)) st1 = Some (0, st1)" using no_spill [OF c(1,2) _ t1(1) ok(2,3) t1(2)] by blast
  have fl: "\<not> anyset (0 :: 32 word) MDB_MULTIPLE" "\<not> anyset (0 :: 32 word) MDB_NOSPILL" "(0 :: 32 word) AND NOT MDB_NOSPILL = 0"
    by (simp_all add: anyset_def)
  have k: "\<not> (key = [] \<or> length key - 1 \<ge> MDB_MAXKEYSIZE)" using key by (cases key) (auto simp: MDB_MAXKEYSIZE_def)
  show ?thesis
    using w(2) ok(1) fl k v pos spill touch unfolding mdb_cursor_put_def put_tail_def
    by (simp add: nd rc_bind_def Let_def split del: if_split)
qed

lemma updated_ends:
  assumes u: "updated dbi f st1 t pgs st3 t' pgs'" and same: "same_pages st st1" "ncrs st \<le> ncrs st1" and e: "env st' = env st3" "ncrs st' = ncrs st3"
  shows "updated dbi f st t pgs st' t' pgs'"
proof -
  have "pghead_ids st' = pghead_ids st3" "pghead_ids st = pghead_ids st1" "env st = env st1"
    using e(1) same(1) by (simp_all add: pghead_ids_def same_pages_def)
  then have "moved dbi st t pgs st' t1 pgs'" if "moved dbi st1 t pgs st3 t1 pgs'" for t1
    using that e same(2) unfolding moved_def by auto
  then show ?thesis using u unfolding updated_def by blast
qed

text \<open>The local cursor is gone, and the database can be written.\<close>

lemma put_ends:
  assumes w: "writable lt cc dbi k st t d its" and mc: "crs st mc = None" and same: "same_pages st st1" "ncrs st \<le> ncrs st1"
    and p: "writer_inv dbi n st3 t'" "db_tree lt st3 t' d (md_root (mt_dbs t' ! dbi)) its'"
    and u: "updated dbi (count_put b) st1 t pgs st3 t' pgs'"
  shows "writable lt cc dbi n (drop_cursor mc st3) t' d its'" "updated dbi (count_put b) st t pgs (drop_cursor mc st3) t' pgs'"
proof -
  note W = w [unfolded writable_def]
  define st' where "st' = drop_cursor mc st3"
  have same3: "same_pages st3 st'" by (simp add: st'_def drop_cursor_def)
  show u': "updated dbi (count_put b) st t pgs (drop_cursor mc st3) t' pgs'" by (rule updated_ends [OF u same]) (simp_all add: drop_cursor_def)
  have wi: "writer_inv dbi k st t" using W by blast
  have t: "txns st = [t]" "txns st3 = [t']" "dbi < length (mt_dbs t)" "txns st' = [t']"
    using writer_txn [OF wi] writer_txn [OF p(1)] wi by (simp_all add: writer_inv_def st'_def drop_cursor_def)
  obtain dl r n' f g e where t': "t' = t\<lparr>mt_dirty_list := dl, mt_dirty_room := r, mt_next_pgno := n', mt_free_pgs := f,
     mt_dbs := (mt_dbs t)[dbi := (mt_dbs t ! dbi)\<lparr>md_root := g, md_entries := e\<rparr>]\<rparr>" using updated_txn [OF u t(3)] by (elim exE conjE) (rule that)
  have "tracked st3 dbi = tracked st dbi" using t(1,2) by (simp add: tracked_def get_txn_def t')
  then have "writer_inv dbi n st' t'" unfolding st'_def using writer_inv_drop [OF p(1)] tracked_not_new [OF wi mc] by metis
  moreover have "db_open st' dbi (mt_dbs t' ! dbi) cc" using db_open_updated [OF _ u' [folded st'_def] t(1,4,3)] W by blast
  moreover have "db_tree lt st' t' d (md_root (mt_dbs t' ! dbi)) its'" by (rule db_tree_same [OF same3 p(2)])
  moreover have "1 < mt_next_pgno t'" "\<forall>x \<in> set (pghead_ids st'). 1 < x"
  proof -
    obtain t1 where m: "moved dbi st t pgs st' t1 pgs'" "mt_next_pgno t' = mt_next_pgno t1" using u' unfolding updated_def st'_def by auto
    show "1 < mt_next_pgno t'" "\<forall>x \<in> set (pghead_ids st'). 1 < x" using moved_next [OF m(1)] W m(2) by auto
  qed
  moreover have "get_dbflag st' = get_dbflag st" using t(1,4) by (simp add: get_dbflag_def get_txn_def t' fun_eq_iff)
  ultimately show "writable lt cc dbi n (drop_cursor mc st3) t' d its'" using W unfolding writable_def st'_def [symmetric] by simp
qed

context tree_order
begin

text \<open>\<open>mdb_put\<close> stores the item, and the database can be written again.\<close>

lemma put_run:
  assumes w: "writable less cc dbi (n + Suc d) st t d its" and key: "key \<in> K" "key \<noteq> []" "length key \<le> MDB_MAXKEYSIZE" and v: "length v \<le> MAXDATASIZE"
    and spill: "spill_need st t dbi key v < mt_dirty_room t"
    and room: "leaf_room less st d (md_root (mt_dbs t ! dbi)) key (map_of its key \<noteq> None) v"
  shows "\<exists>st' t' its'. mdb_put dbi key v 0 st = Some (0, None, st') \<and> writable less cc dbi n st' t' d its' \<and> map_of its' = (map_of its)(key \<mapsto> v) \<and>
     length its' = (if map_of its key = None then Suc (length its) else length its) \<and>
     updated dbi (count_put (map_of its key = None)) st t (tree_pgs st d (md_root (mt_dbs t ! dbi))) st' t' (tree_pgs st' d (md_root (mt_dbs t' ! dbi)))"
proof -
  define root where "root = md_root (mt_dbs t ! dbi)"
  define mc where "mc = ncrs st"
  define st0 where "st0 = st\<lparr>crs := (crs st)(mc \<mapsto> blank_cursor dbi), ncrs := mc + 1\<rparr>"
  note W = w [unfolded writable_def]
  have wi: "writer_inv dbi (n + Suc d) st t" and op: "db_open st dbi (mt_dbs t ! dbi) cc" using W by blast+
  have same0: "same_pages st st0" by (simp add: st0_def same_pages_def)
  have t: "get_txn st = Some t" "txns st = [t]" "dbi < length (mt_dbs t)" "dbi \<noteq> FREE_DBI" "get_txn st0 = Some t"
    using writer_txn [OF wi] wi by (simp_all add: get_txn_def writer_inv_def st0_def)
  have w0: "writable less cc dbi (n + Suc d) st0 t d its"
  proof -
    have "pghead_ids st0 = pghead_ids st" by (simp add: pghead_ids_def st0_def)
    then show ?thesis using W writer_inv_local [OF wi, folded mc_def, folded st0_def] db_open_same [OF same0] db_tree_same [OF same0]
      same_pages_simps(4) [OF same0] unfolding writable_def by simp
  qed
  have cur0: "crs st0 mc = Some (blank_cursor dbi)" by (simp add: st0_def)
  have room0: "leaf_room less st0 d root key (map_of its key \<noteq> None) v"
    using room route_same [OF same0] page_of_same [OF same0] same_pages_simps(6) [OF same0] unfolding leaf_room_def root_def by simp
  obtain st1 gs ks r nds where s: "put_position mc key 0 st0 = Some (if map_of its key = None then MDB_NOTFOUND else 0, None, False, st1)"
     "writable less cc dbi (n + Suc d) st1 t d its" "tree_inv less key its nds dbi st1 t gs ks" "on_way st1 mc dbi gs ks r (length ks)" "length ks = d"
     "gs ! 0 = root" "place less key (map NODEKEY nds) r" "only mc st0 st1"
     and fit: "\<forall>mp. page_items mp = nds \<longrightarrow> page_ok (me_psize (env st1)) mp \<longrightarrow> IS_LEAF mp \<longrightarrow>
       leaf_fits (me_nodemax (env st1)) mp r (map_of its key \<noteq> None) key v"
    using put_search [OF w0 key(1,2) cur0 room0 [unfolded root_def], folded root_def] by (elim exE conjE) (rule that; assumption)
  note W1 = s(2) [unfolded writable_def, folded root_def]
  have same1: "same_pages st st1" by (rule same_pages_trans [OF same0 only_same [OF s(8)]])
  obtain fl where fl: "get_dbflag st1 dbi = Some fl" "dbi > MAIN_DBI \<longrightarrow> anyset fl DB_DIRTY"
    using W1 unfolding db_open_def get_dbflag_def by (cases "dbi > MAIN_DBI") auto
  have len: "length gs = Suc d" using s(3,5) unfolding tree_inv_def chain_def by simp
  have w1: "writer_inv dbi (n + length gs) st1 t" using W1 len by simp
  have tr1: "sorted_wrt less (map fst its)" "length ks < CURSOR_STACK" "\<forall>x \<in> set (tree_pgs st1 (length ks) (gs ! 0)). 1 < x"
    using W1 s(5,6) unfolding db_tree_def by simp_all
  have k16: "length key < 65536" using key(3) by (simp add: MDB_MAXKEYSIZE_def)
  have one: "\<forall>x \<in> set (pghead_ids st1). 1 < x" "1 < mt_next_pgno t" using W1 by blast+
  obtain st2 st3 t' its' where p: "mdb_cursor_touch mc st1 = Some (0, st2)" "put_tail mc key v (map_of its key = None) st2 = Some (0, None, st3)"
     "writer_inv dbi n st3 t'" "db_tree less st3 t' (length ks) (md_root (mt_dbs t' ! dbi)) its'" "map_of its' = (map_of its)(key \<mapsto> v)"
     "length its' = (if map_of its key = None then Suc (length its) else length its)"
     "updated dbi (count_put (map_of its key = None)) st1 t (tree_pgs st1 (length ks) (gs ! 0)) st3 t' (tree_pgs st3 (length ks) (md_root (mt_dbs t' ! dbi)))"
    using put_change [OF w1 s(3,4) key(1) k16 fl tr1(1) s(7) tr1(2) fit tr1(3) one] by (elim exE conjE) (rule that; assumption)
  have run: "mdb_put dbi key v 0 st = Some (0, None, drop_cursor mc st3)"
  proof -
    obtain c where c: "crs st1 mc = Some c" "mc_dbi c = dbi" "mc_flags c = C_INITIALIZED" using s(4) unfolding on_way_def by blast
    have sp: "txns st1 = [t]" "spill_need st1 t dbi key v < mt_dirty_room t"
      using spill t(2) same1 by (simp_all add: same_pages_def spill_need_def)
    have "(if map_of its key = None then MDB_NOTFOUND else 0) \<noteq> MDB_NO_ROOT" by (simp add: MDB_NOTFOUND_def MDB_NO_ROOT_def MDB_LAST_ERRCODE_def MDB_BAD_DBI_def)
    moreover have "writer_inv dbi (n + Suc d) st0 t" using w0 unfolding writable_def by blast
    ultimately have "mdb_cursor_put mc key (val_of v) 0 st0 = put_tail mc key v (map_of its key = None) st2"
      using cursor_put_run [OF _ t(5) key(2,3) v s(1) _ c sp p(1)] by (cases "map_of its key") (simp_all add: MDB_NOTFOUND_def)
    moreover have "TXN_DBI_EXIST t dbi" using op t(1) unfolding db_open_def by auto
    ultimately show ?thesis
      using t(1,4) p(2) db_init [OF op, folded mc_def, folded st0_def] by (simp add: mdb_put_def local_cursor_def mc_def)
  qed
  have mc: "crs st mc = None" using wi by (simp add: writer_inv_def writer_ok_def mc_def)
  have n1: "ncrs st \<le> ncrs st1" using only_ncrs [OF s(8)] by (simp add: st0_def mc_def)
  have pgs: "tree_pgs (drop_cursor mc st3) d g = tree_pgs st3 d g" for g by (rule tree_pgs_same) (simp add: drop_cursor_def)
  note pe = put_ends [OF w mc same1 n1 p(3) p(4) [unfolded s(5)] p(7) [unfolded s(5,6) root_def tree_pgs_same [OF same1]]]
  show ?thesis
    by (rule exI [of _ "drop_cursor mc st3"], rule exI [of _ t'], rule exI [of _ its']) (use run pe p(5,6) in \<open>simp add: pgs del: tree_pgs.simps\<close>)
qed

end

end
