(* ===== verification/Lmdb_Item_Facts.thy ===== *)
theory Lmdb_Item_Facts
  imports Lmdb_Db_Facts Lmdb_Midl_Facts
begin

text \<open>
  The properties of storing one item, stated for the default comparator: \<open>mdb_put\<close> updates the map that
  the tree represents, leaves the committed pages alone, and what was put is found again.
\<close>

section \<open>The order of the keys\<close>

lemma route_end: "route lt st key d pg rt h q \<Longrightarrow> subtree lt' st d pg its \<Longrightarrow> \<exists>its'. subtree lt' st h q its'"
proof (induction arbitrary: its rule: route.induct)
  case (down pg mp i d rt h q)
  obtain mp0 kids where mp0: "page_at st pg mp0" "\<forall>j < NUMKEYS mp0. subtree lt' st d (NODEPGNO (page_items mp0 ! j)) (kids ! j)"
    using down.prems by (elim subtree_branchE) (rule that; assumption)
  have "mp0 = mp" using mp0(1) down.hyps(1) by (simp add: page_at_iff)
  then show ?case using down.IH mp0(2) down.hyps(2) by (auto simp: child_of_def)
qed blast

lemma route_order:
  assumes "route lt st key d pg rt h q" "subtree lt0 st d pg its" "length key < 2 ^ 32"
    and lt: "\<And>a b. length a < 2 ^ 32 \<Longrightarrow> length b < 2 ^ 32 \<Longrightarrow> lt' a b \<longleftrightarrow> lt a b"
  shows "route lt' st key d pg rt h q"
  using assms(1,2)
proof (induction arbitrary: its rule: route.induct)
  case here
  show ?case by (rule route.here)
next
  case (down pg mp i d rt h q)
  obtain mp0 psize kids where mp0: "page_at st pg mp0" "page_ok psize mp0" "\<forall>j < NUMKEYS mp0. subtree lt0 st d (NODEPGNO (page_items mp0 ! j)) (kids ! j)"
    using down.prems by (elim subtree_branchE) (rule that; assumption)
  have e: "mp0 = mp" using mp0(1) down.hyps(1) by (simp add: page_at_iff)
  have K: "length (NODEKEY (page_items mp ! j)) < 2 ^ 32" if "j < NUMKEYS mp" for j using page_key_length [OF mp0(2)] that e by simp
  have i: "i < NUMKEYS mp" using down.hyps(2) by (simp add: child_of_def)
  have "child_of lt' key mp i" using down.hyps(2) lt K assms(3) unfolding child_of_def by auto
  moreover have "route lt' st key d (NODEPGNO (page_items mp ! i)) rt h q" using down.IH mp0(3) e i by blast
  ultimately show ?case using down.hyps(1) by (intro route.down)
qed

lemma place_order:
  assumes "place lt key kys r" "length key < 2 ^ 32" "\<forall>k \<in> set kys. length k < 2 ^ 32"
    and lt: "\<And>a b. length a < 2 ^ 32 \<Longrightarrow> length b < 2 ^ 32 \<Longrightarrow> lt' a b \<longleftrightarrow> lt a b"
  shows "place lt' key kys r"
proof -
  have "length (kys ! k) < 2 ^ 32" if "k < length kys" for k using assms(3) that by simp
  then show ?thesis using assms(1,2) lt unfolding place_def by auto
qed

lemma leaf_room_order:
  assumes room: "leaf_room lt st d root key found v" and sub: "subtree lt0 st d root its" and key: "length key < 2 ^ 32"
    and lt: "\<And>a b. length a < 2 ^ 32 \<Longrightarrow> length b < 2 ^ 32 \<Longrightarrow> lt' a b \<longleftrightarrow> lt a b"
  shows "leaf_room lt' st d root key found v"
  unfolding leaf_room_def
proof (intro allI impI)
  fix rt q mp r
  assume rt: "route lt' st key d root rt 0 q" and mp: "page_of st q = Some mp" and pl: "place lt' key (map NODEKEY (page_items mp)) r"
  obtain its' where "subtree lt0 st 0 q its'" using route_end [OF rt sub] by blast
  then obtain psize where "page_ok psize mp" using mp by (elim subtree_leafE) (simp add: page_at_iff)
  then have K: "\<forall>k \<in> set (map NODEKEY (page_items mp)). length k < 2 ^ 32" using page_key_length by (auto simp: in_set_conv_nth)
  have "route lt st key d root rt 0 q" by (rule route_order [OF rt sub key]) (simp add: lt)
  moreover have "place lt key (map NODEKEY (page_items mp)) r" by (rule place_order [OF pl key K]) (simp add: lt)
  ultimately show "leaf_fits (me_nodemax (env st)) mp r found key v" using room mp unfolding leaf_room_def by blast
qed

lemma writable_order:
  assumes w: "writable lt cc dbi n st t d its" and lt: "\<And>a b. length a < 2 ^ 32 \<Longrightarrow> length b < 2 ^ 32 \<Longrightarrow> lt' a b \<longleftrightarrow> lt a b"
  shows "writable lt' cc dbi n st t d its"
proof -
  have h: "subtree lt st d (md_root (mt_dbs t ! dbi)) its" "sorted_wrt lt (map fst its)" using w by (simp_all add: writable_def db_tree_def)
  have "subtree lt' st d (md_root (mt_dbs t ! dbi)) its" by (rule subtree_order [OF h(1)]) (simp add: lt)
  moreover have "sorted_wrt lt' (map fst its)" by (rule sorted_order [OF h]) (simp add: lt)
  ultimately show ?thesis using w by (simp add: writable_def db_tree_def)
qed

lemma put_memn:
  assumes w: "writable lex_less Cmp_memn dbi (n + Suc d) st t d its" and key: "key \<noteq> []" "length key \<le> MDB_MAXKEYSIZE" and v: "length v \<le> MAXDATASIZE"
    and spill: "spill_need st t dbi key v < mt_dirty_room t"
    and room: "leaf_room lex_less st d (md_root (mt_dbs t ! dbi)) key (map_of its key \<noteq> None) v"
  shows "\<exists>st' t' its'. mdb_put dbi key v 0 st = Some (0, None, st') \<and> writable lex_less Cmp_memn dbi n st' t' d its' \<and> map_of its' = (map_of its)(key \<mapsto> v) \<and>
     length its' = (if map_of its key = None then Suc (length its) else length its) \<and>
     updated dbi (count_put (map_of its key = None)) st t (tree_pgs st d (md_root (mt_dbs t ! dbi))) st' t' (tree_pgs st' d (md_root (mt_dbs t' ! dbi)))"
proof -
  have k: "length key < 2 ^ 32" using key(2) by (simp add: MDB_MAXKEYSIZE_def)
  have sub: "subtree lex_less st d (md_root (mt_dbs t ! dbi)) its" using w by (simp add: writable_def db_tree_def)
  have "writable memn.less Cmp_memn dbi (n + Suc d) st t d its" by (rule writable_order [OF w less_memn])
  moreover have "leaf_room memn.less st d (md_root (mt_dbs t ! dbi)) key (map_of its key \<noteq> None) v"
    by (rule leaf_room_order [OF room sub k less_memn])
  ultimately obtain st' t' its' where "mdb_put dbi key v 0 st = Some (0, None, st')" "writable memn.less Cmp_memn dbi n st' t' d its'"
     "map_of its' = (map_of its)(key \<mapsto> v)" "length its' = (if map_of its key = None then Suc (length its) else length its)"
     "updated dbi (count_put (map_of its key = None)) st t (tree_pgs st d (md_root (mt_dbs t ! dbi))) st' t' (tree_pgs st' d (md_root (mt_dbs t' ! dbi)))"
    using memn_tree.put_run [OF _ _ key v spill] k by blast
  moreover have "writable lex_less Cmp_memn dbi n st' t' d its'" by (rule writable_order [OF calculation(2)]) (simp add: less_memn)
  ultimately show ?thesis by blast
qed

lemma get_writable:
  assumes w: "writable lex_less Cmp_memn dbi n st t d its" and k: "k \<noteq> []" "length k < 2 ^ 32"
  shows "\<exists>st'. mdb_get dbi k st = Some (case map_of its k of None \<Rightarrow> (MDB_NOTFOUND, None, st') | Some v \<Rightarrow> (0, Some v, st'))"
proof -
  note W = w [unfolded writable_def db_tree_def]
  have "1 < md_root (mt_dbs t ! dbi)" "md_root (mt_dbs t ! dbi) \<noteq> P_INVALID"
    using w db_tree_root [of lex_less st t d "md_root (mt_dbs t ! dbi)" its n] unfolding writable_def writer_inv_def by blast+
  then have h: "db_holds lex_less st (mt_dbs t ! dbi) its" using W unfolding db_holds_def by auto
  have op: "db_open st dbi (mt_dbs t ! dbi) Cmp_memn" using W by blast
  have "\<exists>st'. mdb_get dbi k st = Some (case map_of its k of None \<Rightarrow> (MDB_NOTFOUND, None, st') | Some v \<Rightarrow> (0, Some v, st')) \<and>
      same_pages st st' \<and> (\<forall>m. m \<noteq> ncrs st \<longrightarrow> crs st' m = crs st m)"
    by (rule memn.get_lookup [OF memn_tree.cmp_cc memn_tree.not_cint _ _ k(1) op db_holds_memn [OF h]]) (use k(2) memn_tree.pageK in auto)
  then show ?thesis by blast
qed

section \<open>Storing an item\<close>

text \<open>
  C3: \<open>mdb_put\<close> on a database whose pages form a search tree with the items \<open>its\<close>, in a write transaction
  that can still allocate the pages of one way to a leaf, stores the item: the tree then holds the
  updated map, the entry counter is right, and the database can be written again with what is left.
  The conditions of this section (\<open>writable\<close>, \<open>spill_need\<close>, \<open>leaf_room\<close>): a transaction without a parent,
  without \<open>MDB_WRITEMAP\<close>, loose or spilled pages, that is given memory and has the pages for the copies
  in \<open>me_pghead\<close> or at the end of the map, so that the free list is not read; room in the dirty list, so
  that nothing is spilled; and room in the leaf for the item, stored in it, so that no page is split and
  no overflow page needed.
\<close>

theorem mdb_put_refines_update:
  assumes "writable lex_less Cmp_memn dbi (n + Suc d) st t d its" and "key \<noteq> []" and "length key \<le> MDB_MAXKEYSIZE" and "length v \<le> MAXDATASIZE"
    and "spill_need st t dbi key v < mt_dirty_room t"
    and "leaf_room lex_less st d (md_root (mt_dbs t ! dbi)) key (map_of its key \<noteq> None) v"
  shows "\<exists>st' t' its'. mdb_put dbi key v 0 st = Some (0, None, st') \<and> writable lex_less Cmp_memn dbi n st' t' d its' \<and>
     map_of its' = (map_of its)(key \<mapsto> v) \<and> length its' = (if map_of its key = None then Suc (length its) else length its) \<and>
     md_entries (mt_dbs t' ! dbi) = md_entries (mt_dbs t ! dbi) + (if map_of its key = None then 1 else 0)"
proof -
  obtain st' t' its' where p: "mdb_put dbi key v 0 st = Some (0, None, st')" "writable lex_less Cmp_memn dbi n st' t' d its'"
     "map_of its' = (map_of its)(key \<mapsto> v)" "length its' = (if map_of its key = None then Suc (length its) else length its)"
     "updated dbi (count_put (map_of its key = None)) st t (tree_pgs st d (md_root (mt_dbs t ! dbi))) st' t' (tree_pgs st' d (md_root (mt_dbs t' ! dbi)))"
    using put_memn [OF assms] by blast
  have dbi: "dbi < length (mt_dbs t)" using assms(1) by (simp add: writable_def writer_inv_def)
  show ?thesis using p(1-4) updated_txn [OF p(5) dbi] dbi by (intro exI [of _ st'] exI [of _ t'] exI [of _ its']) auto
qed

text \<open>
  C4: when the leaf has room for the item, the dirty list room for the copies (nothing is spilled) and
  the pages for them need no reading of the free list (the conditions of C3), \<open>mdb_put\<close> writes no page of
  the file, no meta page and nothing of the lock table: the pages it replaces are copied, their numbers
  go to the list of freed pages of the transaction, and every number the tree has instead was reclaimed
  or unused, so the committed trees, and the readers on them, see nothing.
\<close>

theorem mdb_put_copies_pages:
  assumes "writable lex_less Cmp_memn dbi (n + Suc d) st t d its" and "key \<noteq> []" and "length key \<le> MDB_MAXKEYSIZE" and "length v \<le> MAXDATASIZE"
    and "spill_need st t dbi key v < mt_dirty_room t"
    and "leaf_room lex_less st d (md_root (mt_dbs t ! dbi)) key (map_of its key \<noteq> None) v"
  shows "\<exists>st' t' fs ns. mdb_put dbi key v 0 st = Some (0, None, st') \<and> get_txn st' = Some t' \<and>
     me_map (env st') = me_map (env st) \<and> me_metas (env st') = me_metas (env st) \<and> me_txns (env st') = me_txns (env st) \<and>
     idl_elems (idl_ids (mt_free_pgs t')) = idl_elems (idl_ids (mt_free_pgs t)) @ fs \<and>
     mset (tree_pgs st' d (md_root (mt_dbs t' ! dbi))) + mset fs = mset (tree_pgs st d (md_root (mt_dbs t ! dbi))) + mset ns \<and>
     (\<forall>x \<in> set ns. x \<in> set (pghead_ids st) \<or> mt_next_pgno t \<le> x)"
proof -
  obtain st' t' its' where p: "mdb_put dbi key v 0 st = Some (0, None, st')" "writable lex_less Cmp_memn dbi n st' t' d its'"
     "updated dbi (count_put (map_of its key = None)) st t (tree_pgs st d (md_root (mt_dbs t ! dbi))) st' t' (tree_pgs st' d (md_root (mt_dbs t' ! dbi)))"
    using put_memn [OF assms] by blast
  obtain t1 where m: "moved dbi st t (tree_pgs st d (md_root (mt_dbs t ! dbi))) st' t1 (tree_pgs st' d (md_root (mt_dbs t' ! dbi)))"
    "mt_free_pgs t' = mt_free_pgs t1" using p(3) unfolding updated_def by auto
  have "get_txn st' = Some t'" using p(2) writer_txn unfolding writable_def get_txn_def by fastforce
  then show ?thesis using p(1) m moved_env [OF m(1)] unfolding moved_def by metis
qed

text \<open>
  C5: under the conditions of C3 (room in leaf and dirty list, pages for the copies at hand), \<open>mdb_put\<close>
  succeeds, and \<open>mdb_get\<close> then finds the new value under its key, and under every other key what was
  there before.
\<close>

theorem mdb_put_then_get:
  assumes "writable lex_less Cmp_memn dbi (n + Suc d) st t d its" and "key \<noteq> []" and "length key \<le> MDB_MAXKEYSIZE" and "length v \<le> MAXDATASIZE"
    and "spill_need st t dbi key v < mt_dirty_room t"
    and "leaf_room lex_less st d (md_root (mt_dbs t ! dbi)) key (map_of its key \<noteq> None) v"
    and "k \<noteq> []" and "length k < 2 ^ 32"
  shows "\<exists>st' st''. mdb_put dbi key v 0 st = Some (0, None, st') \<and>
     mdb_get dbi k st' = Some (if k = key then (0, Some v, st'') else case map_of its k of None \<Rightarrow> (MDB_NOTFOUND, None, st'') | Some x \<Rightarrow> (0, Some x, st''))"
proof -
  obtain st' t' its' where p: "mdb_put dbi key v 0 st = Some (0, None, st')" "writable lex_less Cmp_memn dbi n st' t' d its'"
     "map_of its' = (map_of its)(key \<mapsto> v)"
    using put_memn [OF assms(1-6)] by blast
  then show ?thesis using get_writable [OF p(2) assms(7,8)] by (cases "k = key") (auto split: option.splits)
qed

section \<open>A transaction on a small tree\<close>

definition up_txn :: MDB_txn where
  "up_txn = sample_txn\<lparr>mt_dbs := [sample_db, tree_db], mt_dirty_list := replicate 131072 \<lparr>mid = 0, mptr = PNull\<rparr>\<rparr>"

definition up_st :: st where
  "up_st = tree_st\<lparr>txns := [up_txn], env := (env tree_st)\<lparr>me_psize := 64, me_txn := True\<rparr>\<rparr>"

lemma up_dirty: "id2l_ok (mt_dirty_list up_txn)" "id2l_sorted (mt_dirty_list up_txn)" "id2l_elems (mt_dirty_list up_txn) = []"
  "id2l_count (mt_dirty_list up_txn) = 0"
proof -
  define ids where "ids = replicate 131072 \<lparr>mid = (0 :: MDB_ID), mptr = PNull\<rparr>"
  note e = id2l_empty [OF ids_def]
  have "mt_dirty_list up_txn = ids" by (simp add: up_txn_def ids_def)
  then show "id2l_ok (mt_dirty_list up_txn)" "id2l_sorted (mt_dirty_list up_txn)" "id2l_elems (mt_dirty_list up_txn) = []"
    "id2l_count (mt_dirty_list up_txn) = 0"
    using e by simp_all
qed

lemma up_fields [simp]: "mt_flags up_txn = 0" "mt_loose_pgs up_txn = []" "mt_spill_pgs up_txn = None" "mt_next_pgno up_txn = 8"
  "mt_dbs up_txn = [sample_db, tree_db]" "mt_free_pgs up_txn = sample_idl" "mt_cursors up_txn = [[], []]" "mt_dbflags up_txn = [DB_VALID, DB_VALID]"
  "mt_numdbs up_txn = 2" "mt_dirty_room up_txn = MDB_IDL_UM_MAX" "mt_txnid up_txn = 7"
  "txns up_st = [up_txn]" "heap up_st = (\<lambda>_. None)" "crs up_st = (\<lambda>_. None)" "nalloc up_st = 0" "ncrs up_st = 0" "malloc_ok up_st = (\<lambda>_ _. True)"
  "me_map (env up_st) = me_map (env tree_st)" "me_psize (env up_st) = 64" "me_dpages (env up_st) = []" "me_pghead (env up_st) = None"
  "me_flags (env up_st) = MDB_NOSYNC" "me_maxpg (env up_st) = 256" "me_txns (env up_st) = Some sample_ti" "me_nodemax (env up_st) = 2030"
  "me_dbxs (env up_st) = me_dbxs (env tree_st)"
  by (simp_all add: up_txn_def up_st_def tree_st_def)

lemma anyset_zero: "\<not> anyset 0 f"
  by (simp add: anyset_def)

lemma up_writer_ok: "writer_ok up_st up_txn"
  using up_dirty by (simp add: writer_ok_def plain_writer_def pghead_ids_def anyset_zero)

lemma up_get: "mdb_page_get up_st pg = (if pg < 8 then Some (0, (PMap pg, 0), up_st) else Some (MDB_PAGE_NOTFOUND, (PNull, 0), set_txn_error up_st))"
  using writer_get_clean [of up_st up_txn pg] up_writer_ok up_dirty by (simp add: writer_ok_def)

lemma up_page: "page_of up_st pg = (if pg < 8 then me_map (env tree_st) pg else None)"
  by (simp add: page_of_def up_get get_page_def MDB_PAGE_NOTFOUND_def)

lemma tree_page_of: "page_of tree_st pg = (if pg < 8 then me_map (env tree_st) pg else None)"
  by (simp add: page_of_def mdb_page_get_def get_page_def tree_st_def get_txn_def MDB_SUCCESS_def anyset_def MDB_TXN_RDONLY_def MDB_PAGE_NOTFOUND_def)

lemma up_pages: "me_map (env tree_st) = [6 \<mapsto> sample_branch, 5 \<mapsto> leaf_of 5 1 10 2 20, 7 \<mapsto> leaf_of 7 3 30 4 40]"
  by (simp add: tree_st_def)

lemma leaf_of_overflows: "leaf_overflows (leaf_of g a va b vb) = []"
  using leaf_of_ok [of g a va b vb] by (simp add: leaf_overflows_def)

lemma branch_kids: "NODEPGNO (page_items sample_branch ! 0) = 5" "NODEPGNO (page_items sample_branch ! 1) = 7"
  using sample_branch_ok by (simp_all add: NODEPGNO_def)

lemma up_tree_pgs: "tree_pgs up_st (Suc 0) 6 = [6, 5, 7]" "tree_pgs tree_st (Suc 0) 6 = [6, 5, 7]"
proof -
  have its: "page_items sample_branch = [\<lparr>mn_lo = 5, mn_hi = 0, mn_flags = 0, mn_ksize = 0, mn_data = []\<rparr>, \<lparr>mn_lo = 7, mn_hi = 0, mn_flags = 0, mn_ksize = 1, mn_data = [3]\<rparr>]"
    using sample_branch_ok by simp
  show "tree_pgs up_st (Suc 0) 6 = [6, 5, 7]" "tree_pgs tree_st (Suc 0) 6 = [6, 5, 7]"
    by (simp_all add: up_page tree_page_of up_pages its NODEPGNO_def leaf_of_overflows)
qed

lemma up_subtree: "subtree lex_less up_st (Suc 0) 6 [([1], [10]), ([2], [20]), ([3], [30]), ([4], [40])]"
  by (rule subtree_cong [OF tree_subtree]) (simp add: up_tree_pgs up_page tree_page_of del: tree_pgs.simps)

lemma up_writer: "writer_inv MAIN_DBI 2 up_st up_txn"
  unfolding writer_inv_def
proof (intro conjI)
  show "writer_ok up_st up_txn" by (rule up_writer_ok)
  show "pages_marked up_st up_txn"
    using up_dirty by (auto simp: pages_marked_def up_pages F_ISSET_def P_DIRTY_def leaf_of_def sample_leaf_def sample_branch_def P_LEAF_def P_BRANCH_def split: if_splits)
  have two: "mti_numreaders sample_ti = Suc (Suc 0)" by simp
  have "mdb_find_oldest up_st = Some 5"
    by (simp add: mdb_find_oldest_def get_txn_def two del: sample_ti_simps(2))
  then show "pages_ready 2 up_st up_txn"
    using up_dirty by (simp add: pages_ready_def free_db_ok_def nothing_to_reclaim_def get_db_def get_dbflag_def get_txn_def FREE_DBI_def sample_db_def
        zero_db_def anyset_def DB_VALID_def DB_STALE_def pghead_ids_def)
  show "free_room 2 up_txn" by (simp add: free_room_def sample_idl_def idl_wf_def)
  show "cursors_ok up_st MAIN_DBI" by (simp add: cursors_ok_def tracked_def get_txn_def MAIN_DBI_def)
qed (simp_all add: MAIN_DBI_def FREE_DBI_def)

lemma up_writable: "writable lex_less Cmp_memn MAIN_DBI (0 + Suc (Suc 0)) up_st up_txn (Suc 0) [([1], [10]), ([2], [20]), ([3], [30]), ([4], [40])]"
  unfolding writable_def
proof (intro conjI)
  show "writer_inv MAIN_DBI (0 + Suc (Suc 0)) up_st up_txn" using up_writer by (simp add: numeral_2_eq_2)
  show "db_open up_st MAIN_DBI (mt_dbs up_txn ! MAIN_DBI) Cmp_memn"
    by (simp add: db_open_def get_txn_def TXN_DBI_EXIST_def MAIN_DBI_def FREE_DBI_def rd_def anyset_def
      DB_VALID_def DB_STALE_def tree_db_def sample_db_def zero_db_def tree_st_def)
  have "sized up_st x" if "x \<in> {6, 5, 7}" for x
    using that leaf_of_ok leaf_of_flags sample_branch_ok
    by (auto simp: sized_def up_page up_pages IS_OVERFLOW_def leaf_of_def sample_leaf_def sample_branch_def F_ISSET_def P_OVERFLOW_def P_LEAF_def P_BRANCH_def)
  then show "db_tree lex_less up_st up_txn (Suc 0) (md_root (mt_dbs up_txn ! MAIN_DBI)) [([1], [10]), ([2], [20]), ([3], [30]), ([4], [40])]"
    using up_subtree up_tree_pgs(1) by (simp add: db_tree_def MAIN_DBI_def tree_db_def CURSOR_STACK_def pghead_ids_def del: tree_pgs.simps)
qed (simp_all add: pghead_ids_def MAIN_DBI_def)

lemma up_room: "leaf_room lex_less up_st (Suc 0) 6 [2, 5] False [25]"
  unfolding leaf_room_def
proof (intro allI impI)
  fix rt q mp r assume rt: "route lex_less up_st [2, 5] (Suc 0) 6 rt 0 q" and q: "page_of up_st q = Some mp"
  obtain mp0 i where "page_of up_st 6 = Some mp0" "child_of lex_less [2, 5] mp0 i" "q = NODEPGNO (page_items mp0 ! i)"
    using rt by (auto elim!: route.cases)
  then have i: "i < 2" "q = NODEPGNO (page_items sample_branch ! i)" by (auto simp: up_page up_pages child_of_def)
  have "i = 0 \<or> i = 1" using i(1) by auto
  then have "q = 5 \<or> q = 7" using branch_kids i(2) by auto
  then obtain g a va b vb where mp: "mp = leaf_of g a va b vb" using q by (auto simp: up_page up_pages)
  have "SIZELEFT mp = 24" using page_SIZELEFT [of 64 mp] leaf_of_ok [of g a va b vb] by (simp add: mp) (simp add: leaf_of_def sample_leaf_def)
  then show "leaf_fits (me_nodemax (env up_st)) mp r False [2, 5] [25]" by (simp add: leaf_fits_def EVEN_def)
qed

lemma up_spill: "spill_need up_st up_txn MAIN_DBI [2, 5] [25] < mt_dirty_room up_txn"
  by (simp add: spill_need_def up_txn_def tree_db_def sample_db_def zero_db_def up_st_def LEAFSIZE_def NODESIZE_def MAIN_DBI_def)

lemma mdb_put_refines_update_witness:
  "\<exists>st' t' its'. mdb_put MAIN_DBI [2, 5] [25] 0 up_st = Some (0, None, st') \<and> writable lex_less Cmp_memn MAIN_DBI 0 st' t' (Suc 0) its' \<and>
     map_of its' = (map_of [([1], [10]), ([2], [20]), ([3], [30]), ([4], [40])])([2, 5] \<mapsto> [25]) \<and> length its' = 5 \<and> md_entries (mt_dbs t' ! MAIN_DBI) = 5"
  using mdb_put_refines_update [OF up_writable _ _ _ up_spill] up_room
  by (simp add: MDB_MAXKEYSIZE_def MAXDATASIZE_def) (simp add: MAIN_DBI_def tree_db_def eval_nat_numeral)

lemma mdb_put_copies_pages_witness:
  "\<exists>st' t' fs ns. mdb_put MAIN_DBI [2, 5] [25] 0 up_st = Some (0, None, st') \<and> get_txn st' = Some t' \<and> me_map (env st') = me_map (env up_st) \<and>
     idl_elems (idl_ids (mt_free_pgs t')) = fs \<and> mset (tree_pgs st' (Suc 0) (md_root (mt_dbs t' ! MAIN_DBI))) + mset fs = {#6, 5, 7#} + mset ns \<and>
     (\<forall>x \<in> set ns. 8 \<le> x)"
proof -
  have r: "leaf_room lex_less up_st (Suc 0) (md_root (mt_dbs up_txn ! MAIN_DBI)) [2, 5] (map_of [([1], [10]), ([2], [20]), ([3], [30]), ([4], [40])] [2, 5] \<noteq> None) [25]"
    using up_room by (simp add: MAIN_DBI_def tree_db_def)
  have e: "mset (tree_pgs up_st (Suc 0) (md_root (mt_dbs up_txn ! MAIN_DBI))) = {#6, 5, 7#}" "idl_elems (idl_ids (mt_free_pgs up_txn)) = []" "pghead_ids up_st = []"
    using up_tree_pgs(1) by (simp_all add: MAIN_DBI_def tree_db_def sample_idl_def idl_elems_def pghead_ids_def del: tree_pgs.simps)
  show ?thesis
    using mdb_put_copies_pages [OF up_writable _ _ _ up_spill r, unfolded e] by (simp add: MDB_MAXKEYSIZE_def MAXDATASIZE_def del: tree_pgs.simps) blast
qed

lemma mdb_put_then_get_witness:
  "\<exists>st' st''. mdb_put MAIN_DBI [2, 5] [25] 0 up_st = Some (0, None, st') \<and> mdb_get MAIN_DBI [2, 5] st' = Some (0, Some [25], st'')"
  using mdb_put_then_get [OF up_writable _ _ _ up_spill, of "[2, 5]"] up_room
  by (simp add: MDB_MAXKEYSIZE_def MAXDATASIZE_def) (simp add: MAIN_DBI_def tree_db_def)

end
