(* ===== verification/Lmdb_Freelist.thy ===== *)
theory Lmdb_Freelist
  imports Lmdb_Tree
begin

text \<open>
  Saving the free pages of a transaction in the free-list database at commit
  (\<open>mdb_freelist_save\<close> of \<open>LegacyDatabase/mdb.c\<close>): the pages the transaction freed go to a record
  of its own number, the unused rest of the reclaimed pages (\<open>me_pghead\<close>) back into records of
  numbers that were reclaimed.  Writing a record can itself take and free pages, so space is
  reserved first, repeatedly, and filled when the lists no longer change.

  The loops have no bound that is known beforehand; they are functions that need not return.
\<close>

section \<open>Space reserved in a record\<close>

text \<open>
  A store through the data pointer of a put with \<open>MDB_RESERVE\<close>: the data of the node at the cursor,
  on the leaf page or on its overflow page.  The bytes from the start are replaced.
\<close>

definition fill_reserved :: "nat \<Rightarrow> byte list \<Rightarrow> st \<Rightarrow> st option" where
  "fill_reserved mc bs st = do {
     c \<leftarrow> crs st mc;
     p \<leftarrow> cur_pg c;
     ki \<leftarrow> cur_ki c;
     mp \<leftarrow> get_page st p;
     leaf \<leftarrow> NODEPTR mp ki;
     if node_isset leaf F_BIGDATA then do {
       pg \<leftarrow> load64 (NODEDATA leaf);
       (rc, (omp, level), st) \<leftarrow> mdb_page_get st pg;
       mdb_cassert (rc = 0);
       overflow_store omp (val_of bs) st }
     else do {
       mdb_cassert (length bs \<le> length (NODEDATA leaf));
       put_node p ki (leaf\<lparr>mn_data := take (mn_ksize leaf) (mn_data leaf) @ bs @
                             drop (mn_ksize leaf + length bs) (mn_data leaf)\<rparr>) st } }"

definition reserve :: "nat \<Rightarrow> MDB_val" where
  "reserve n = \<lparr>mv_size = n, mv_data = []\<rparr>"

section \<open>The loops\<close>

text \<open>The variables of the main loop.\<close>

record save_vars =
  sv_pglast :: txnid_t
  sv_head_id :: txnid_t
  sv_freecnt :: pgno_t
  sv_head_room :: int
  sv_total_room :: int
  sv_more :: int

text \<open>\<open>while (pglast < env->me_pglast)\<close>: delete the records whose pages were reclaimed.\<close>

partial_function (option) save_delete_loop :: "nat \<Rightarrow> save_vars \<Rightarrow> st \<Rightarrow> (int \<times> save_vars \<times> st) option" where
  "save_delete_loop mc v st =
     (if sv_pglast v < me_pglast (env st) then do {
        (rc, key, d, st) \<leftarrow> mdb_cursor_first mc False st;
        if rc \<noteq> 0 then Some (rc, v, st)
        else do {
          k \<leftarrow> key;
          pglast \<leftarrow> load64 k;
          let v = v\<lparr>sv_pglast := pglast, sv_head_id := pglast, sv_total_room := 0, sv_head_room := 0\<rparr>;
          mdb_cassert (pglast \<le> me_pglast (env st));
          (rc, st) \<leftarrow> mdb_cursor_del mc 0 st;
          if rc \<noteq> 0 then Some (rc, v, st) else save_delete_loop mc v st } }
      else Some (0, v, st))"

text \<open>
  \<open>do { ... } while (freecnt < free_pgs[0])\<close>: reserve the record of the transaction's own freed
  pages, until the reservation frees no further page.  The result is \<open>freecnt\<close>.
\<close>

partial_function (option) save_reserve_loop :: "nat \<Rightarrow> st \<Rightarrow> (int \<times> pgno_t \<times> st) option" where
  "save_reserve_loop mc st = do {
     t \<leftarrow> get_txn st;
     freecnt \<leftarrow> rd (idl_ids (mt_free_pgs t)) 0;
     (rc, d, st) \<leftarrow> mdb_cursor_put mc (bytes64 (mt_txnid t))
                      (reserve ((unat freecnt + 1) * sizeof_MDB_ID)) MDB_RESERVE st;
     if rc \<noteq> 0 then Some (rc, freecnt, st)
     else do {
       t \<leftarrow> get_txn st;
       n \<leftarrow> rd (idl_ids (mt_free_pgs t)) 0;
       if freecnt < n then save_reserve_loop mc st else Some (0, freecnt, st) } }"

definition save_free_pgs :: "nat \<Rightarrow> save_vars \<Rightarrow> st \<Rightarrow> (int \<times> save_vars \<times> st) option" where
  "save_free_pgs mc v st = do {
     (rc, st) \<leftarrow> (if sv_freecnt v = 0 then mdb_page_search mc None (MDB_PS_LAST OR MDB_PS_MODIFY) st
                  else Some (0, st));
     if rc \<noteq> 0 \<and> rc \<noteq> MDB_NOTFOUND then Some (rc, v, st)
     else do {
       (rc, freecnt, st) \<leftarrow> save_reserve_loop mc st;
       let v = v\<lparr>sv_freecnt := freecnt\<rparr>;
       if rc \<noteq> 0 then Some (rc, v, st)
       else do {
         t \<leftarrow> get_txn st;
         ids \<leftarrow> mdb_midl_sort (idl_ids (mt_free_pgs t));
         let st = set_free_pgs (mt_free_pgs t\<lparr>idl_ids := ids\<rparr>) st;
         mdb_cassert (unat freecnt < length ids);
         st \<leftarrow> fill_reserved mc (bytes_of_ids (take (unat freecnt + 1) ids)) st;
         Some (0, v, st) } } }"

text \<open>How the main loop goes on: \<open>None\<close> is the \<open>break\<close>.\<close>

definition save_step :: "int \<Rightarrow> int \<Rightarrow> save_vars \<Rightarrow> save_vars option" where
  "save_step mop_len maxfree v =
     (let v' = (if sv_total_room v \<ge> mop_len then v\<lparr>sv_more := sv_more v - 1\<rparr>
                else if sv_head_room v \<ge> maxfree \<and> sv_head_id v > 1
                then v\<lparr>sv_head_id := sv_head_id v - 1, sv_head_room := 0\<rparr> else v)
      in if sv_total_room v = mop_len \<or> sv_total_room v \<ge> mop_len \<and> sv_more v' < 0 then None
      else
        let total_room = sv_total_room v' - sv_head_room v';
            head_room = mop_len - total_room;
            head_room =
              (if head_room > maxfree \<and> sv_head_id v' > 1 then
                 (let h = head_room div int (unat (sv_head_id v')) in h + (maxfree - h mod (maxfree + 1)))
               else if head_room < 0 then 0 else head_room)
        in Some (v'\<lparr>sv_total_room := total_room, sv_head_room := head_room\<rparr>))"

partial_function (option) save_loop :: "nat \<Rightarrow> int option \<Rightarrow> save_vars \<Rightarrow> st \<Rightarrow> (int \<times> int \<times> st) option" where
  "save_loop mc clean_limit v st = do {
     (rc, v, st) \<leftarrow> save_delete_loop mc v st;
     if rc \<noteq> 0 then Some (rc, 0, st)
     else do {
       t \<leftarrow> get_txn st;
       n \<leftarrow> rd (idl_ids (mt_free_pgs t)) 0;
       if sv_freecnt v < n then do {
         (rc, v, st) \<leftarrow> save_free_pgs mc v st;
         if rc \<noteq> 0 then Some (rc, 0, st) else save_loop mc clean_limit v st }
       else do {
         len \<leftarrow> (case me_pghead (env st) of None \<Rightarrow> Some 0 | Some mop \<Rightarrow> map_option unat (rd (idl_ids mop) 0));
         let mop_len = int (len + mt_loose_count t);
         case save_step mop_len (int (me_maxfree_1pg (env st))) v of
           None \<Rightarrow> Some (0, mop_len, st)
         | Some v \<Rightarrow> do {
             let h = nat (sv_head_room v);
             (rc, d, st) \<leftarrow> mdb_cursor_put mc (bytes64 (sv_head_id v))
                              (reserve ((h + 1) * sizeof_pgno_t)) MDB_RESERVE st;
             if rc \<noteq> 0 then Some (rc, 0, st)
             else do {
               let j = (case clean_limit of None \<Rightarrow> 0 | Some l \<Rightarrow> if sv_head_room v > l then h else 0);
               st \<leftarrow> fill_reserved mc (bytes_of_ids (replicate (j + 1) 0)) st;
               save_loop mc clean_limit (v\<lparr>sv_total_room := sv_total_room v + sv_head_room v\<rparr>) st } } } } }"

text \<open>
  \<open>for (; !rc; rc = mdb_cursor_next(...))\<close>: fill the records from the end of the list;
  \<open>mop_len\<close> pages are left.
\<close>

partial_function (option) save_fill_loop ::
  "nat \<Rightarrow> nat \<Rightarrow> int \<Rightarrow> byte list option \<Rightarrow> byte list option \<Rightarrow> st \<Rightarrow> (int \<times> st) option" where
  "save_fill_loop mc mop_len rc key data st =
     (if rc \<noteq> 0 then Some (rc, st)
      else do {
        k \<leftarrow> key;
        d \<leftarrow> data;
        idn \<leftarrow> load64 k;
        mop \<leftarrow> me_pghead (env st);
        mdb_cassert (length d \<ge> sizeof_MDB_ID \<and> idn \<le> me_pglast (env st));
        let n = length d div sizeof_MDB_ID - 1;
        let (n, sz) = (if n > mop_len then (mop_len, (mop_len + 1) * sizeof_MDB_ID) else (n, length d));
        mdb_cassert (mop_len < length (idl_ids mop));
        let ids = of_nat n # take n (drop (mop_len - n + 1) (idl_ids mop));
        (rc, d, st) \<leftarrow> mdb_cursor_put mc (bytes64 idn) \<lparr>mv_size = sz, mv_data = bytes_of_ids ids\<rparr> MDB_CURRENT st;
        if rc \<noteq> 0 \<or> mop_len = n then Some (rc, st)
        else do {
          (rc, key, data, st) \<leftarrow> mdb_cursor_next mc True st;
          save_fill_loop mc (mop_len - n) rc key data st } })"

section \<open>The whole function\<close>

text \<open>Loose pages when no pages were reclaimed: they become freed pages.\<close>

fun xappend_all :: "st \<Rightarrow> page_ref list \<Rightarrow> MDB_ID list \<Rightarrow> MDB_ID list option" where
  "xappend_all st [] ids = Some ids"
| "xappend_all st (p # ps) ids = do {
     mp \<leftarrow> get_page st p;
     ids \<leftarrow> mdb_midl_xappend ids (mp_pgno mp);
     xappend_all st ps ids }"

definition clear_loose :: "st \<Rightarrow> st" where
  "clear_loose = upd_txn (\<lambda>t. t\<lparr>mt_loose_pgs := [], mt_loose_count := 0\<rparr>)"

definition save_loose_freed :: "st \<Rightarrow> (int \<times> st) option" where
  "save_loose_freed st = do {
     t \<leftarrow> get_txn st;
     if me_pghead (env st) = None \<and> mt_loose_pgs t \<noteq> [] then do {
       (rc, idl) \<leftarrow> mdb_midl_need (mem_of st) (mt_free_pgs t) (mt_loose_count t);
       let st = set_free_pgs idl (tick st);
       if rc \<noteq> 0 then Some (rc, st)
       else do {
         ids \<leftarrow> xappend_all st (mt_loose_pgs t) (idl_ids idl);
         Some (0, clear_loose (set_free_pgs (idl\<lparr>idl_ids := ids\<rparr>) st)) } }
     else Some (0, st) }"

text \<open>
  Loose pages beside reclaimed ones: they are sorted at the end of the list's allocation and merged
  from there.  The result includes the new length of the list.
\<close>

definition save_loose_merged :: "int \<Rightarrow> st \<Rightarrow> (int \<times> int \<times> st) option" where
  "save_loose_merged mop_len st = do {
     t \<leftarrow> get_txn st;
     if mt_loose_pgs t \<noteq> [] then do {
       mop \<leftarrow> me_pghead (env st);
       let count = mt_loose_count t;
       (rc, mop) \<leftarrow> mdb_midl_need (mem_of st) mop (2 * count + 1);
       let st = set_pghead (Some mop) (tick st);
       if rc \<noteq> 0 then Some (rc, mop_len, st)
       else do {
         pgs \<leftarrow> those (map (\<lambda>p. map_option mp_pgno (get_page st p)) (mt_loose_pgs t));
         let off = unat (idl_len mop) - count;
         ids \<leftarrow> memcpy (idl_ids mop) off (of_nat (length pgs) # pgs) 0 (length pgs + 1);
         loose \<leftarrow> mdb_midl_sort (drop off ids);
         ids \<leftarrow> mdb_midl_xmerge (take off ids @ loose) loose;
         n \<leftarrow> rd ids 0;
         Some (0, int (unat n), clear_loose (set_pghead (Some (mop\<lparr>idl_ids := ids\<rparr>)) st)) } }
     else Some (0, mop_len, st) }"

definition mdb_freelist_save :: "st \<Rightarrow> (int \<times> st) option" where
  "mdb_freelist_save st = do {
     let (mc, st) = local_cursor (blank_cursor FREE_DBI) st;
     st \<leftarrow> mdb_cursor_init mc FREE_DBI st;
     let ret = (\<lambda>(rc, st). (rc :: int, drop_cursor mc st));
     (rc, st) \<leftarrow> (if me_pghead (env st) \<noteq> None
                  then mdb_page_search mc None (MDB_PS_FIRST OR MDB_PS_MODIFY) st else Some (0, st));
     if rc \<noteq> 0 \<and> rc \<noteq> MDB_NOTFOUND then Some (ret (rc, st))
     else do {
       (rc, st) \<leftarrow> save_loose_freed st;
       if rc \<noteq> 0 then Some (ret (rc, st))
       else do {
         let clean_limit = (if anyset (me_flags (env st)) (MDB_NOMEMINIT OR MDB_WRITEMAP) then None
                            else Some (int (me_maxfree_1pg (env st))));
         (rc, mop_len, st) \<leftarrow> save_loop mc clean_limit
             \<lparr>sv_pglast = 0, sv_head_id = 0, sv_freecnt = 0, sv_head_room = 0, sv_total_room = 0, sv_more = 1\<rparr> st;
         if rc \<noteq> 0 then Some (ret (rc, st))
         else do {
           (rc, mop_len, st) \<leftarrow> save_loose_merged mop_len st;
           if rc \<noteq> 0 then Some (ret (rc, st))
           else if mop_len \<noteq> 0 then do {
             (rc, key, data, st) \<leftarrow> mdb_cursor_first mc True st;
             (rc, st) \<leftarrow> save_fill_loop mc (nat mop_len) rc key data st;
             Some (ret (rc, st)) }
           else Some (ret (MDB_SUCCESS, st)) } } } }"

end
