(* ===== verification/Lmdb_Txn.thy ===== *)
theory Lmdb_Txn
  imports Lmdb_Freelist Lmdb_Meta
begin

text \<open>
  Transactions (\<open>LegacyDatabase/mdb.c\<close>): reader slots, \<open>mdb_txn_begin\<close> and \<open>mdb_txn_renew\<close>,
  nested transactions with their shadowed cursors, \<open>mdb_txn_reset\<close>, \<open>mdb_txn_abort\<close>,
  \<open>mdb_txn_commit\<close>.

  The list \<open>txns\<close> is the running transaction and its ancestors: \<open>mt_child\<close> of its head is null and
  of every other element is the one before it, \<open>mt_parent\<close> of an element is the one after it.  A
  transaction is named by its position, so a parent with a child is a position above 0.  The write
  mutex is held while \<open>me_txn\<close> is set; a thread that waits for itself does not return.
\<close>

section \<open>Cursors of nested transactions\<close>

text \<open>
  \<open>mdb_cursor_shadow\<close>: the child takes over the parent's cursors and keeps copies.  The parent's
  own lists are as before when the child has ended.
\<close>

fun shadow_cursors :: "nat \<Rightarrow> nat list \<Rightarrow> st \<Rightarrow> (int \<times> st) option" where
  "shadow_cursors dbi [] st = Some (MDB_SUCCESS, st)"
| "shadow_cursors dbi (mc # ms) st =
     (if \<not> mem_of st sizeof_MDB_cursor then Some (ENOMEM, tick st)
      else do {
        c \<leftarrow> crs st mc;
        shadow_cursors dbi ms (upd_txn (\<lambda>t. t\<lparr>mt_backups := (mc, c) # mt_backups t,
          mt_cursors := (mt_cursors t)[dbi := mc # mt_cursors t ! dbi]\<rparr>) (tick st)) })"

text \<open>\<open>for (i = src->mt_numdbs; --i >= 0; )\<close>.\<close>

fun shadow_dbs :: "nat list list \<Rightarrow> nat \<Rightarrow> st \<Rightarrow> (int \<times> st) option" where
  "shadow_dbs src 0 st = Some (MDB_SUCCESS, st)"
| "shadow_dbs src (Suc i) st = do {
     ms \<leftarrow> rd src i;
     rc_bind (shadow_cursors i ms st) (shadow_dbs src i) }"

definition mdb_cursor_shadow :: "st \<Rightarrow> (int \<times> st) option" where
  "mdb_cursor_shadow st =
     (case txns st of
        dst # src # ts \<Rightarrow> shadow_dbs (mt_cursors src) (mt_numdbs src) st
      | _ \<Rightarrow> None)"

text \<open>
  \<open>mdb_cursors_close\<close>: a cursor of the parent is kept as it is (\<open>merge\<close>) or restored; a cursor of
  this transaction is freed.
\<close>

fun close_cursors :: "(nat \<times> MDB_cursor) list \<Rightarrow> bool \<Rightarrow> nat list \<Rightarrow> st \<Rightarrow> st" where
  "close_cursors backups merge [] st = st"
| "close_cursors backups merge (mc # ms) st =
     close_cursors backups merge ms
       (case map_of backups mc of
          Some bk \<Rightarrow> if merge then st else upd_cur mc (\<lambda>_. bk) st
        | None \<Rightarrow> drop_cursor mc st)"

definition mdb_cursors_close :: "bool \<Rightarrow> st \<Rightarrow> st option" where
  "mdb_cursors_close merge st = do {
     t \<leftarrow> get_txn st;
     let n = mt_numdbs t;
     let st = close_cursors (mt_backups t) merge (concat (rev (take n (mt_cursors t)))) st;
     Some (upd_txn (\<lambda>t. t\<lparr>mt_backups := [],
       mt_cursors := map (\<lambda>i. if i < n then [] else mt_cursors t ! i) [0..<length (mt_cursors t)]\<rparr>) st) }"

section \<open>Database handles at the end of a transaction\<close>

definition PERSISTENT :: "16 word" where
  "PERSISTENT = ucast PERSISTENT_FLAGS"

definition mdb_valid :: "16 word" where
  "mdb_valid = ucast MDB_VALID"

text \<open>
  \<open>for (i = n; --i >= 2;)\<close>: handles opened in the transaction are kept or closed.  A null name is
  the empty list.
\<close>

fun dbis_update_loop :: "MDB_txn \<Rightarrow> bool \<Rightarrow> nat \<Rightarrow> MDB_env \<Rightarrow> MDB_env" where
  "dbis_update_loop t keep 0 e = e"
| "dbis_update_loop t keep (Suc i) e =
     (if i < 2 then e
      else dbis_update_loop t keep i
        (if anyset (mt_dbflags t ! i) DB_NEW then
           if keep then e\<lparr>me_dbflags := (me_dbflags e)[i := md_flags (mt_dbs t ! i) OR mdb_valid]\<rparr>
           else if md_name (me_dbxs e ! i) \<noteq> [] then
             e\<lparr>me_dbxs := (me_dbxs e)[i := (me_dbxs e ! i)\<lparr>md_name := []\<rparr>],
               me_dbflags := (me_dbflags e)[i := 0],
               me_dbiseqs := (me_dbiseqs e)[i := me_dbiseqs e ! i + 1]\<rparr>
           else e
         else e))"

definition mdb_dbis_update :: "bool \<Rightarrow> st \<Rightarrow> st option" where
  "mdb_dbis_update keep st = do {
     t \<leftarrow> get_txn st;
     let n = mt_numdbs t;
     mdb_cassert (n \<le> length (mt_dbflags t) \<and> n \<le> length (mt_dbs t));
     Some (upd_env (\<lambda>e. let e = dbis_update_loop t keep n e in
       if keep \<and> me_numdbs e < n then e\<lparr>me_numdbs := n\<rparr> else e) st) }"

section \<open>Ending a transaction\<close>

definition upd_reader :: "nat \<Rightarrow> (MDB_reader \<Rightarrow> MDB_reader) \<Rightarrow> st \<Rightarrow> st" where
  "upd_reader i f = upd_env (\<lambda>e. e\<lparr>me_txns := map_option
     (\<lambda>ti. ti\<lparr>mti_readers := (mti_readers ti)[i := f (mti_readers ti ! i)]\<rparr>) (me_txns e)\<rparr>)"

text \<open>
  \<open>if (mdb_midl_shrink(&txn->mt_free_pgs)) env->me_free_pgs = txn->mt_free_pgs;\<close>.  When nothing is
  shrunk, the two are one array (unless it has grown and \<open>realloc\<close> refuses to shrink it, when
  \<open>me_free_pgs\<close> is left dangling); its contents are reset at the next begin.
\<close>

definition shrink_free_pgs :: "st \<Rightarrow> st option" where
  "shrink_free_pgs st = do {
     t \<leftarrow> get_txn st;
     let (done, idl) = mdb_midl_shrink (mem_of st) (mt_free_pgs t);
     let st = set_free_pgs idl (tick st);
     Some (if done then upd_env (\<lambda>e. e\<lparr>me_free_pgs := idl\<rparr>) st else st) }"

definition mdb_txn_reset0 :: "st \<Rightarrow> st option" where
  "mdb_txn_reset0 st = do {
     st \<leftarrow> mdb_dbis_update False st;
     t \<leftarrow> get_txn st;
     if F_ISSET (mt_flags t) MDB_TXN_RDONLY then
       (let st = (case mt_reader t of
                    None \<Rightarrow> st
                  | Some i \<Rightarrow>
                      let st = upd_reader i (\<lambda>r. r\<lparr>mr_txnid := -1\<rparr>) st in
                      if \<not> anyset (me_flags (env st)) MDB_NOTLS
                      then upd_txn (\<lambda>t. t\<lparr>mt_reader := None\<rparr>) st else st)
        in Some (upd_txn (\<lambda>t. t\<lparr>mt_numdbs := 0, mt_dbxs := False\<rparr>) st))
     else do {
       let st = upd_env (\<lambda>e. e\<lparr>me_pghead := None, me_pglast := 0\<rparr>) st;
       st \<leftarrow> (if \<not> anyset (me_flags (env st)) MDB_WRITEMAP then mdb_dlist_free st else Some st);
       st \<leftarrow> (if \<not> has_parent st then do {
                st \<leftarrow> shrink_free_pgs st;
                Some (upd_env (\<lambda>e. e\<lparr>me_txn := False\<rparr>) st) }
              else Some st);
       st \<leftarrow> mdb_cursors_close False st;
       Some (if has_parent st
             then upd_env (\<lambda>e. e\<lparr>me_pghead := mf_pghead (mnt_pgstate t), me_pglast := mf_pglast (mnt_pgstate t)\<rparr>) st
             else st) } }"

text \<open>Only a read-only transaction.\<close>

definition mdb_txn_reset :: "st \<Rightarrow> st option" where
  "mdb_txn_reset st = do {
     t \<leftarrow> get_txn st;
     if \<not> anyset (mt_flags t) MDB_TXN_RDONLY then Some st else mdb_txn_reset0 st }"

text \<open>
  The structure of a transaction is given up: freed, or the environment's \<open>me_txn0\<close>, which keeps what
  is in it.
\<close>

definition release_txn :: "st \<Rightarrow> st" where
  "release_txn st =
     (case txns st of
        [] \<Rightarrow> st
      | t # ts \<Rightarrow>
          let st = st\<lparr>txns := ts\<rparr> in
          if ts = [] \<and> \<not> anyset (mt_flags t) MDB_TXN_RDONLY then upd_env (\<lambda>e. e\<lparr>me_txn0 := t\<rparr>) st else st)"

definition txn_abort_head :: "st \<Rightarrow> st option" where
  "txn_abort_head st = do {
     st \<leftarrow> mdb_txn_reset0 st;
     t \<leftarrow> get_txn st;
     let st = (if anyset (mt_flags t) MDB_TXN_RDONLY then
                 (case mt_reader t of None \<Rightarrow> st | Some i \<Rightarrow> upd_reader i (\<lambda>r. r\<lparr>mr_pid := 0\<rparr>) st)
               else st);
     Some (release_txn st) }"

text \<open>\<open>mdb_txn_abort\<close> of the transaction at position \<open>k\<close>: its children first.\<close>

fun mdb_txn_abort :: "nat \<Rightarrow> st \<Rightarrow> st option" where
  "mdb_txn_abort 0 st = txn_abort_head st"
| "mdb_txn_abort (Suc k) st = do { st \<leftarrow> txn_abort_head st; mdb_txn_abort k st }"

section \<open>Readers\<close>

datatype Pidlock_op = Pidset | Pidcheck

text \<open>
  The lock of a process on the lock file: take the own one, or ask whether another is taken (result
  \<open>-1\<close>).  The call is repeated while it is interrupted.
\<close>

partial_function (option) mdb_reader_pid :: "Pidlock_op \<Rightarrow> nat \<Rightarrow> st \<Rightarrow> (int \<times> st) option" where
  "mdb_reader_pid op pid st =
     (let (rc, st') = io_call st in
      if rc = 0 then Some (if op = Pidcheck \<and> pid_locked st pid then -1 else 0, st')
      else if rc = EINTR then mdb_reader_pid op pid st'
      else Some (rc, st'))"

text \<open>\<open>for (i=0; i<nr; i++) if (ti->mti_readers[i].mr_pid == 0) break;\<close> with \<open>k = nr - i\<close>.\<close>

fun free_slot :: "MDB_reader list \<Rightarrow> nat \<Rightarrow> nat \<Rightarrow> nat option" where
  "free_slot rs i 0 = Some i"
| "free_slot rs i (Suc k) = do {
     r \<leftarrow> rd rs i;
     if mr_pid r = 0 then Some i else free_slot rs (i + 1) k }"

definition upd_ti :: "(MDB_txninfo \<Rightarrow> MDB_txninfo) \<Rightarrow> st \<Rightarrow> st" where
  "upd_ti f = upd_env (\<lambda>e. e\<lparr>me_txns := map_option f (me_txns e)\<rparr>)"

text \<open>
  Under the reader mutex: take the first free slot, or a new one.  The slot is marked with the
  process before the number of slots is raised.
\<close>

definition claim_slot :: "MDB_txninfo \<Rightarrow> st \<Rightarrow> (int \<times> nat \<times> st) option" where
  "claim_slot ti st = do {
     let nr = mti_numreaders ti;
     i \<leftarrow> free_slot (mti_readers ti) 0 nr;
     if i = me_maxreaders (env st) then Some (MDB_READERS_FULL, i, st)
     else do {
       r \<leftarrow> rd (mti_readers ti) i;
       let st = upd_reader i (\<lambda>r. r\<lparr>mr_pid := me_pid (env st), mr_tid := tid st\<rparr>) st;
       let nr' = (if i = nr then nr + 1 else nr);
       let st = (if i = nr then upd_ti (\<lambda>ti. ti\<lparr>mti_numreaders := nr'\<rparr>) st else st);
       Some (0, i, upd_env (\<lambda>e. e\<lparr>me_numreaders := nr'\<rparr>) st) } }"

text \<open>A slot for a read-only transaction; the second result is \<open>new_notls\<close>.\<close>

definition renew_slot :: "MDB_txninfo \<Rightarrow> st \<Rightarrow> (int \<times> bool \<times> nat \<times> st) option" where
  "renew_slot ti st = do {
     t \<leftarrow> get_txn st;
     let notls = anyset (me_flags (env st)) MDB_NOTLS;
     case (if notls then mt_reader t else tls st) of
       Some i \<Rightarrow> do {
         r \<leftarrow> rd (mti_readers ti) i;
         Some (if mr_pid r \<noteq> me_pid (env st) \<or> mr_txnid r \<noteq> -1 then MDB_BAD_RSLOT else 0, False, i, st) }
     | None \<Rightarrow> do {
         (rc, st) \<leftarrow> (if \<not> me_live_reader (env st) then do {
                        (rc, st) \<leftarrow> mdb_reader_pid Pidset (me_pid (env st)) st;
                        Some (rc, if rc \<noteq> 0 then st else upd_env (\<lambda>e. e\<lparr>me_live_reader := True\<rparr>) st) }
                      else Some (0, st));
         if rc \<noteq> 0 then Some (rc, False, 0, st)
         else do {
           let (rc, st) = io_call st;
           if rc \<noteq> 0 then Some (rc, False, 0, st)
           else do {
             (rc, i, st) \<leftarrow> claim_slot ti st;
             if rc \<noteq> 0 then Some (rc, False, i, st)
             else if notls then Some (0, True, i, st)
             else do {
               let (rc, st) = io_call st;
               if rc \<noteq> 0 then Some (rc, False, i, upd_reader i (\<lambda>r. r\<lparr>mr_pid := 0\<rparr>) st)
               else Some (0, False, i, st\<lparr>tls := Some i\<rparr>) } } } } }"

section \<open>Starting a transaction\<close>

text \<open>
  The two halves of \<open>mdb_txn_renew0\<close>: each gives the return code, \<open>new_notls\<close> and the meta page the
  transaction starts from.
\<close>

definition renew_reader :: "st \<Rightarrow> (int \<times> bool \<times> MDB_meta option \<times> st) option" where
  "renew_reader st =
     (case me_txns (env st) of
        None \<Rightarrow> do {
          meta \<leftarrow> picked_meta (env st);
          Some (0, False, Some meta, upd_txn (\<lambda>t. t\<lparr>mt_txnid := mm_txnid meta, mt_reader := None\<rparr>) st) }
      | Some ti \<Rightarrow> do {
          (rc, new_notls, i, st) \<leftarrow> renew_slot ti st;
          if rc \<noteq> 0 then Some (rc, False, None, st)
          else do {
            let n = mti_txnid ti;
            meta \<leftarrow> rd (me_metas (env st)) (unat (n AND 1));
            Some (0, new_notls, Some meta,
              upd_txn (\<lambda>t. t\<lparr>mt_txnid := n, mt_reader := Some i\<rparr>)
                (upd_reader i (\<lambda>r. r\<lparr>mr_txnid := n\<rparr>) st)) } })"

definition renew_writer :: "st \<Rightarrow> (int \<times> bool \<times> MDB_meta option \<times> st) option" where
  "renew_writer st = do {
     let e = env st;
     (rc, n, meta, st) \<leftarrow>
       (case me_txns e of
          None \<Rightarrow> do { meta \<leftarrow> picked_meta e; Some (0, mm_txnid meta, Some meta, st) }
        | Some ti \<Rightarrow> do {
            mdb_cassert (\<not> me_txn e);
            let (rc, st) = io_call st;
            if rc \<noteq> 0 then Some (rc, 0, None, st)
            else do {
              meta \<leftarrow> rd (me_metas e) (unat (mti_txnid ti AND 1));
              Some (0, mti_txnid ti, Some meta, st) } });
     if rc \<noteq> 0 then Some (rc, False, None, st)
     else do {
       t \<leftarrow> get_txn st;
       d0 \<leftarrow> rd (mt_dirty_list t) 0;
       ids \<leftarrow> wr (idl_ids (me_free_pgs e)) 0 0;
       let st = upd_txn (\<lambda>t. t\<lparr>mt_txnid := n + 1, mt_dirty_room := MDB_IDL_UM_MAX,
                  mt_dirty_list := (mt_dirty_list t)[0 := d0\<lparr>mid := 0\<rparr>],
                  mt_free_pgs := (me_free_pgs e)\<lparr>idl_ids := ids\<rparr>, mt_spill_pgs := None,
                  mt_dbiseqs := me_dbiseqs e\<rparr>) st;
       Some (0, False, meta, upd_env (\<lambda>e. e\<lparr>me_txn := True\<rparr>) st) } }"

text \<open>The database records and flags: the two core databases are valid, named ones stale.\<close>

definition renew_db :: "MDB_env \<Rightarrow> MDB_meta \<Rightarrow> nat \<Rightarrow> nat \<Rightarrow> MDB_db \<Rightarrow> MDB_db" where
  "renew_db e meta numdbs i d =
     (if i < 2 then mm_dbs meta ! i
      else if i < numdbs then d\<lparr>md_flags := me_dbflags e ! i AND PERSISTENT\<rparr> else d)"

definition renew_dbflag :: "MDB_env \<Rightarrow> nat \<Rightarrow> nat \<Rightarrow> 8 word \<Rightarrow> 8 word" where
  "renew_dbflag e numdbs i f =
     (if i < 2 then DB_VALID
      else if i < numdbs then (if anyset (me_dbflags e ! i) mdb_valid then DB_VALID OR DB_STALE else 0) else f)"

definition mdb_txn_renew0 :: "st \<Rightarrow> (int \<times> st) option" where
  "mdb_txn_renew0 st = do {
     let st = upd_txn (\<lambda>t. t\<lparr>mt_numdbs := me_numdbs (env st), mt_dbxs := True\<rparr>) st;
     t \<leftarrow> get_txn st;
     (rc, new_notls, meta, st) \<leftarrow>
       (if anyset (mt_flags t) MDB_TXN_RDONLY then renew_reader st else renew_writer st);
     if rc \<noteq> 0 then Some (rc, st)
     else do {
       meta \<leftarrow> meta;
       t \<leftarrow> get_txn st;
       let e = env st;
       mdb_cassert (2 \<le> length (mt_dbs t) \<and> mt_numdbs t \<le> length (mt_dbs t) \<and>
         length (mt_dbflags t) = length (mt_dbs t) \<and> mt_numdbs t \<le> length (me_dbflags e) \<and> length (mm_dbs meta) = 2);
       let dbs = map (\<lambda>i. renew_db e meta (mt_numdbs t) i (mt_dbs t ! i)) [0..<length (mt_dbs t)];
       let fls = map (\<lambda>i. renew_dbflag e (mt_numdbs t) i (mt_dbflags t ! i)) [0..<length (mt_dbflags t)];
       let st = upd_txn (\<lambda>t. t\<lparr>mt_dbs := dbs, mt_dbflags := fls, mt_next_pgno := mm_last_pg meta + 1\<rparr>) st;
       if me_maxpg e < mm_last_pg meta + 1 then do {
         st \<leftarrow> mdb_txn_reset0 st;
         let st = (if new_notls then
                     (case mt_reader t of
                        None \<Rightarrow> st
                      | Some i \<Rightarrow> upd_txn (\<lambda>t. t\<lparr>mt_reader := None\<rparr>) (upd_reader i (\<lambda>r. r\<lparr>mr_pid := 0\<rparr>) st))
                   else st);
         Some (MDB_MAP_RESIZED, st) }
       else Some (MDB_SUCCESS, st) } }"

text \<open>The transaction to renew is the running one, after \<open>mdb_txn_reset\<close>.\<close>

definition mdb_txn_renew :: "st \<Rightarrow> (int \<times> st) option" where
  "mdb_txn_renew st =
     (case txns st of
        [] \<Rightarrow> Some (EINVAL, st)
      | t # ts \<Rightarrow>
          if mt_dbxs t then Some (EINVAL, st)
          else if anyset (me_flags (env st)) MDB_FATAL_ERROR then Some (MDB_PANIC, st)
          else mdb_txn_renew0 st)"

definition sizeof_MDB_txn :: nat where "sizeof_MDB_txn = 136"
definition sizeof_MDB_ntxn :: nat where "sizeof_MDB_ntxn = 152"
definition sizeof_MDB_ID2 :: nat where "sizeof_MDB_ID2 = 16"
definition sizeof_ptr :: nat where "sizeof_ptr = 8"

text \<open>What \<open>calloc\<close> gives.\<close>

definition zero_txn :: "nat \<Rightarrow> MDB_txn" where
  "zero_txn maxdbs = \<lparr>mt_next_pgno = 0, mt_txnid = 0, mt_free_pgs = \<lparr>idl_len = 0, idl_ids = []\<rparr>,
     mt_loose_pgs = [], mt_loose_count = 0, mt_spill_pgs = None, mt_dirty_list = [], mt_reader = None,
     mt_dbs = replicate maxdbs zero_db, mt_dbiseqs = [], mt_cursors = [], mt_backups = [],
     mt_dbflags = replicate maxdbs 0, mt_numdbs = 0, mt_dbxs = False, mt_flags = 0, mt_dirty_room = 0,
     mnt_pgstate = \<lparr>mf_pghead = None, mf_pglast = 0\<rparr>\<rparr>"

definition child_txn :: "MDB_env \<Rightarrow> MDB_txn \<Rightarrow> MDB_IDL \<Rightarrow> MDB_txn" where
  "child_txn e parent free_pgs = (zero_txn (me_maxdbs e))\<lparr>
     mt_txnid := mt_txnid parent, mt_dirty_room := mt_dirty_room parent,
     mt_dirty_list := replicate MDB_IDL_UM_SIZE \<lparr>mid = 0, mptr = PNull\<rparr>,
     mt_free_pgs := free_pgs, mt_spill_pgs := None, mt_next_pgno := mt_next_pgno parent,
     mt_numdbs := mt_numdbs parent, mt_dbxs := mt_dbxs parent, mt_flags := mt_flags parent,
     mt_dbiseqs := mt_dbiseqs parent, mt_cursors := replicate (me_maxdbs e) [],
     mt_dbs := take (mt_numdbs parent) (mt_dbs parent) @ replicate (me_maxdbs e - mt_numdbs parent) zero_db,
     mt_dbflags := map (\<lambda>f. f AND NOT DB_NEW) (take (mt_numdbs parent) (mt_dbflags parent)) @
                   replicate (me_maxdbs e - mt_numdbs parent) 0,
     mnt_pgstate := \<lparr>mf_pghead = me_pghead e, mf_pglast = me_pglast e\<rparr>\<rparr>"

text \<open>\<open>env->me_pghead = mdb_midl_alloc(env->me_pghead[0])\<close> and the copy.\<close>

definition copy_pghead :: "st \<Rightarrow> (int \<times> st) option" where
  "copy_pghead st =
     (case me_pghead (env st) of
        None \<Rightarrow> Some (0, st)
      | Some old \<Rightarrow> do {
          n \<leftarrow> rd (idl_ids old) 0;
          case mdb_midl_alloc (mem_of st) (unat n) of
            None \<Rightarrow> Some (ENOMEM, set_pghead None (tick st))
          | Some idl \<Rightarrow> do {
              ids \<leftarrow> memcpy (idl_ids idl) 0 (idl_ids old) 0 (unat n + 1);
              Some (0, set_pghead (Some (idl\<lparr>idl_ids := ids\<rparr>)) (tick st)) } })"

text \<open>A nested transaction under the running one.\<close>

definition begin_child :: "nat \<Rightarrow> MDB_txn \<Rightarrow> st \<Rightarrow> (int \<times> st) option" where
  "begin_child sz parent st =
     (if \<not> mem_of st sz then Some (ENOMEM, tick st)
      else let st = tick st in
        if \<not> mem_of st (sizeof_MDB_ID2 * MDB_IDL_UM_SIZE) then Some (ENOMEM, tick st)
        else let st = tick st in
          case mdb_midl_alloc (mem_of st) MDB_IDL_UM_MAX of
            None \<Rightarrow> Some (ENOMEM, tick st)
          | Some free_pgs \<Rightarrow> do {
              let st = (tick st)\<lparr>txns := child_txn (env st) parent free_pgs # txns st\<rparr>;
              (rc, st) \<leftarrow> rc_bind (copy_pghead st) mdb_cursor_shadow;
              if rc \<noteq> 0 then do {
                st \<leftarrow> mdb_txn_reset0 st;
                Some (rc, st\<lparr>txns := tl (txns st)\<rparr>) }
              else Some (rc, st) })"

text \<open>
  \<open>mdb_txn_begin\<close>; \<open>parent\<close> is the position of the parent.  A transaction without a parent starts
  when the thread runs none.
\<close>

definition mdb_txn_begin :: "nat option \<Rightarrow> 32 word \<Rightarrow> st \<Rightarrow> (int \<times> st) option" where
  "mdb_txn_begin parent flags st =
     (let e = env st; rdonly = anyset flags MDB_RDONLY in
      if anyset (me_flags e) MDB_FATAL_ERROR then Some (MDB_PANIC, st)
      else if anyset (me_flags e) MDB_RDONLY \<and> \<not> rdonly then Some (EACCES, st)
      else case parent of
        Some k \<Rightarrow> do {
          p \<leftarrow> rd (txns st) k;
          if k > 0 \<or> rdonly \<or> anyset (mt_flags p) (MDB_TXN_RDONLY OR MDB_TXN_ERROR) \<or>
             anyset (me_flags e) MDB_WRITEMAP
          then Some (if anyset (mt_flags p) MDB_TXN_RDONLY then EINVAL else MDB_BAD_TXN, st)
          else begin_child (sizeof_MDB_ntxn + me_maxdbs e * (sizeof_MDB_db + 1) + me_maxdbs e * sizeof_ptr) p st }
      | None \<Rightarrow> do {
          mdb_cassert (txns st = []);
          if rdonly \<and> \<not> mem_of st (sizeof_MDB_txn + me_maxdbs e * (sizeof_MDB_db + 1)) then Some (ENOMEM, tick st)
          else do {
            let st = (if rdonly then (tick st)\<lparr>txns := [(zero_txn (me_maxdbs e))\<lparr>mt_flags := MDB_TXN_RDONLY\<rparr>]\<rparr>
                      else st\<lparr>txns := [(me_txn0 e)\<lparr>mt_flags := 0\<rparr>]\<rparr>);
            (rc, st) \<leftarrow> mdb_txn_renew0 st;
            Some (rc, if rc \<noteq> 0 then release_txn st else st) } })"

end
