(* ===== verification/Lmdb_Commit.thy ===== *)
theory Lmdb_Commit
  imports Lmdb_Txn
begin

text \<open>
  \<open>mdb_txn_commit\<close> of \<open>LegacyDatabase/mdb.c\<close>: a nested transaction is merged into its parent; a
  transaction without a parent stores the records of the databases it changed, saves its free pages,
  writes its dirty pages and then the meta page.
\<close>

section \<open>Merging a nested transaction\<close>

text \<open>\<open>while (pn > pspill[x]) x--;\<close>, which ends at the largest ID in cell 0.\<close>

fun spill_down :: "MDB_ID list \<Rightarrow> MDB_ID \<Rightarrow> nat \<Rightarrow> nat option" where
  "spill_down ps pn x = do {
     y \<leftarrow> rd ps x;
     if pn > y then (case x of 0 \<Rightarrow> None | Suc x' \<Rightarrow> spill_down ps pn x') else Some x }"

declare spill_down.simps [simp del]

text \<open>Mark the parent's spilled pages that the child has made dirty; \<open>k\<close> of the child's pages are left.\<close>

fun unspill_marks :: "MDB_ID list \<Rightarrow> page_ref MDB_ID2 list \<Rightarrow> nat \<Rightarrow> nat \<Rightarrow> nat \<Rightarrow> nat \<Rightarrow> (MDB_ID list \<times> nat) option" where
  "unspill_marks ps src i x y 0 = Some (ps, y)"
| "unspill_marks ps src i x y (Suc k) = do {
     e \<leftarrow> rd src i;
     let pn = spill_id (mid e);
     x \<leftarrow> spill_down ps pn x;
     v \<leftarrow> rd ps x;
     if pn = v then do { ps \<leftarrow> wr ps x 1; unspill_marks ps src (i + 1) (x - 1) (x - 1) k }
     else unspill_marks ps src (i + 1) x y k }"

definition merge_spill :: "MDB_ID list \<Rightarrow> page_ref MDB_ID2 list \<Rightarrow> MDB_ID list option" where
  "merge_spill ps src = do {
     n \<leftarrow> rd ps 0;
     let ps_len = unat n;
     if ps_len = 0 then Some ps
     else do {
       ps \<leftarrow> wr ps 0 (-1);
       s0 \<leftarrow> rd src 0;
       (ps, y) \<leftarrow> unspill_marks ps src 1 ps_len ps_len (unat (mid s0));
       (ps, y) \<leftarrow> spill_purge ps (y + 1) y (ps_len - y);
       wr ps 0 (of_nat y) } }"

text \<open>The length of the merged dirty list when the parent is nested too.\<close>

fun dirty_down :: "page_ref MDB_ID2 list \<Rightarrow> pgno_t \<Rightarrow> nat \<Rightarrow> nat option" where
  "dirty_down dl yp i = do {
     e \<leftarrow> rd dl i;
     if yp < mid e then (case i of 0 \<Rightarrow> None | Suc i' \<Rightarrow> dirty_down dl yp i') else Some i }"

declare dirty_down.simps [simp del]

fun merged_len :: "page_ref MDB_ID2 list \<Rightarrow> page_ref MDB_ID2 list \<Rightarrow> nat \<Rightarrow> nat \<Rightarrow> nat \<Rightarrow> nat option" where
  "merged_len dst src i len 0 = Some len"
| "merged_len dst src i len (Suc y) =
     (if i = 0 then Some len
      else do {
        e \<leftarrow> rd src (Suc y);
        i \<leftarrow> dirty_down dst (mid e) i;
        f \<leftarrow> rd dst i;
        if mid e = mid f then merged_len dst src (i - 1) (len - 1) y
        else merged_len dst src i len y })"

text \<open>\<open>while (yp < dst[x].mid) dst[i--] = dst[x--];\<close>.\<close>

fun merge_down :: "page_ref MDB_ID2 list \<Rightarrow> pgno_t \<Rightarrow> nat \<Rightarrow> nat \<Rightarrow> (page_ref MDB_ID2 list \<times> nat \<times> nat) option" where
  "merge_down dst yp i x = do {
     e \<leftarrow> rd dst x;
     if yp < mid e then
       (case x of 0 \<Rightarrow> None | Suc x' \<Rightarrow> do { dst \<leftarrow> wr dst i e; merge_down dst yp (i - 1) x' })
     else Some (dst, i, x) }"

declare merge_down.simps [simp del]

definition free_ref :: "page_ref \<Rightarrow> st \<Rightarrow> st option" where
  "free_ref p st = (case p of PMem a \<Rightarrow> Some (st\<lparr>heap := (heap st)(a := None)\<rparr>) | _ \<Rightarrow> None)"

text \<open>\<open>for (i = len; y; dst[i--] = src[y--])\<close>, from the end; equal page numbers are taken from the child.\<close>

fun merge_dirty :: "page_ref MDB_ID2 list \<Rightarrow> page_ref MDB_ID2 list \<Rightarrow> nat \<Rightarrow> nat \<Rightarrow> nat \<Rightarrow> st \<Rightarrow>
    (page_ref MDB_ID2 list \<times> nat \<times> nat \<times> st) option" where
  "merge_dirty dst src i x 0 st = Some (dst, i, x, st)"
| "merge_dirty dst src i x (Suc y) st = do {
     s \<leftarrow> rd src (Suc y);
     (dst, i, x) \<leftarrow> merge_down dst (mid s) i x;
     e \<leftarrow> rd dst x;
     (x, st) \<leftarrow> (if mid s = mid e then do { st \<leftarrow> free_ref (mptr e) st; Some (x - 1, st) } else Some (x, st));
     dst \<leftarrow> wr dst i s;
     merge_dirty dst src (i - 1) x y st }"

definition merge_dirty_lists :: "page_ref MDB_ID2 list \<Rightarrow> page_ref MDB_ID2 list \<Rightarrow> bool \<Rightarrow> nat \<Rightarrow> st \<Rightarrow>
    (page_ref MDB_ID2 list \<times> st) option" where
  "merge_dirty_lists dst src nested room st = do {
     d0 \<leftarrow> rd dst 0;
     s0 \<leftarrow> rd src 0;
     let x = unat (mid d0);
     dst \<leftarrow> wr dst 0 (d0\<lparr>mid := 0\<rparr>);
     len \<leftarrow> (if nested then do {
               e \<leftarrow> rd dst x;
               y \<leftarrow> mdb_mid2l_search src (mid e + 1);
               merged_len dst src x (x + unat (mid s0)) (y - 1) }
             else Some (MDB_IDL_UM_MAX - room));
     (dst, i, x, st) \<leftarrow> merge_dirty dst src len x (unat (mid s0)) st;
     mdb_cassert (i = x);
     dst \<leftarrow> wr dst 0 (d0\<lparr>mid := of_nat len\<rparr>);
     Some (dst, st) }"

text \<open>The child's spill list joins the parent's; an error is recorded in the parent's flags.\<close>

definition append_spill :: "MDB_IDL option \<Rightarrow> MDB_IDL option \<Rightarrow> st \<Rightarrow> (int \<times> MDB_IDL option \<times> st) option" where
  "append_spill parent child st =
     (case child of
        None \<Rightarrow> Some (0, parent, st)
      | Some c \<Rightarrow>
          (case parent of
             None \<Rightarrow> Some (0, Some c, st)
           | Some p \<Rightarrow> do {
               (rc, p) \<leftarrow> mdb_midl_append_list (mem_of st) p (idl_ids c);
               ids \<leftarrow> mdb_midl_sort (idl_ids p);
               Some (rc, Some (p\<lparr>idl_ids := ids\<rparr>), tick st) }))"

text \<open>
  \<open>for (lp = &parent->mt_loose_pgs; *lp; lp = &NEXT_LOOSE_PAGE(lp)); *lp = txn->mt_loose_pgs;\<close> with \<open>lp\<close> a
  pointer to a pointer: \<open>NEXT_LOOSE_PAGE(lp)\<close> is not the link of the first loose page but the word two
  words after \<open>lp\<close>, in the transaction itself.  After \<open>mt_loose_pgs\<close> that is \<open>mt_spill_pgs\<close>.  When it is
  null, the child's list is stored there: nothing changes if that is null too, otherwise the pointer to
  a list of page numbers is one to a page.  When it is not null, the scan goes on through the pointers
  that follow.
\<close>

definition append_loose :: "page_ref list \<Rightarrow> page_ref list \<Rightarrow> MDB_IDL option \<Rightarrow> page_ref list option" where
  "append_loose parent child spill =
     (if parent = [] then Some child
      else if spill = None \<and> child = [] then Some parent
      else None)"

definition commit_child :: "MDB_txn \<Rightarrow> MDB_txn \<Rightarrow> MDB_txn list \<Rightarrow> st \<Rightarrow> (int \<times> st) option" where
  "commit_child t p ts st = do {
     (rc, idl) \<leftarrow> mdb_midl_append_list (mem_of st) (mt_free_pgs p) (idl_ids (mt_free_pgs t));
     let st = tick st;
     let p = p\<lparr>mt_free_pgs := idl\<rparr>;
     if rc \<noteq> 0 then do { st \<leftarrow> txn_abort_head (st\<lparr>txns := t # p # ts\<rparr>); Some (rc, st) }
     else do {
       st \<leftarrow> mdb_cursors_close True st;
       let n = mt_numdbs t;
       let p = p\<lparr>mt_next_pgno := mt_next_pgno t, mt_flags := mt_flags t,
                 mt_dbs := take n (mt_dbs t) @ drop n (mt_dbs p), mt_numdbs := n,
                 mt_dbflags := map (\<lambda>i. if i < 2 then mt_dbflags t ! i
                                        else if i < n then mt_dbflags t ! i OR (mt_dbflags p ! i AND DB_NEW)
                                        else mt_dbflags p ! i) [0..<length (mt_dbflags p)]\<rparr>;
       spill \<leftarrow> (case mt_spill_pgs p of
                   None \<Rightarrow> Some None
                 | Some sl \<Rightarrow> map_option (\<lambda>ids. Some (sl\<lparr>idl_ids := ids\<rparr>))
                               (merge_spill (idl_ids sl) (mt_dirty_list t)));
       (dl, st) \<leftarrow> merge_dirty_lists (mt_dirty_list p) (mt_dirty_list t) (ts \<noteq> []) (mt_dirty_room t) st;
       (rc, spill, st) \<leftarrow> append_spill spill (mt_spill_pgs t) st;
       loose \<leftarrow> append_loose (mt_loose_pgs p) (mt_loose_pgs t) spill;
       let p = p\<lparr>mt_dirty_list := dl, mt_dirty_room := mt_dirty_room t, mt_spill_pgs := spill,
                 mt_flags := (if rc \<noteq> 0 then mt_flags p OR MDB_TXN_ERROR else mt_flags p),
                 mt_loose_pgs := loose,
                 mt_loose_count := mt_loose_count p + mt_loose_count t\<rparr>;
       Some (rc, st\<lparr>txns := p # ts\<rparr>) } }"

section \<open>Committing to the file\<close>

text \<open>\<open>for (i = 2; i < txn->mt_numdbs; i++)\<close>: the records of the named databases that changed.\<close>

fun save_dbs :: "nat \<Rightarrow> nat \<Rightarrow> nat \<Rightarrow> st \<Rightarrow> (int \<times> st) option" where
  "save_dbs mc i 0 st = Some (0, st)"
| "save_dbs mc i (Suc k) st = do {
     fl \<leftarrow> get_dbflag st i;
     if anyset fl DB_DIRTY then do {
       changed \<leftarrow> dbi_changed st i;
       if changed then Some (MDB_BAD_DBI, st)
       else do {
         db \<leftarrow> get_db st i;
         dbx \<leftarrow> get_dbx st i;
         (rc, d, st) \<leftarrow> mdb_cursor_put mc (md_name dbx) (val_of (bytes_of_db db)) 0 st;
         if rc \<noteq> 0 then Some (rc, st) else save_dbs mc (i + 1) k st } }
     else save_dbs mc (i + 1) k st }"

definition save_named_dbs :: "st \<Rightarrow> (int \<times> st) option" where
  "save_named_dbs st = do {
     t \<leftarrow> get_txn st;
     if mt_numdbs t > 2 then do {
       let (mc, st) = local_cursor (blank_cursor MAIN_DBI) st;
       st \<leftarrow> mdb_cursor_init mc MAIN_DBI st;
       (rc, st) \<leftarrow> save_dbs mc 2 (mt_numdbs t - 2) st;
       Some (rc, drop_cursor mc st) }
     else Some (0, st) }"

text \<open>The pages, the sync and the meta page, in this order.\<close>

definition commit_write :: "st \<Rightarrow> (int \<times> st) option" where
  "commit_write st =
     rc_bind (mdb_page_flush 0 st) (\<lambda>st.
     rc_bind (Some (mdb_env_sync False st)) (\<lambda>st.
     rc_bind (mdb_env_write_meta st) (\<lambda>st.
       map_option (Pair 0) (if \<not> anyset (me_flags (env st)) MDB_WRITEMAP then mdb_dlist_free st else Some st))))"

definition commit_pages :: "st \<Rightarrow> (int \<times> st) option" where
  "commit_pages st =
     rc_bind (save_named_dbs st) (\<lambda>st.
     rc_bind (mdb_freelist_save st) (\<lambda>st. do {
       st \<leftarrow> shrink_free_pgs (set_pghead None st);
       commit_write st }))"

text \<open>The label \<open>done\<close>.\<close>

definition commit_done :: "st \<Rightarrow> (int \<times> st) option" where
  "commit_done st = do {
     st \<leftarrow> mdb_dbis_update True (upd_env (\<lambda>e. e\<lparr>me_pglast := 0, me_txn := False\<rparr>) st);
     Some (MDB_SUCCESS, release_txn st) }"

definition commit_fail :: "int \<Rightarrow> st \<Rightarrow> (int \<times> st) option" where
  "commit_fail rc st = do { st \<leftarrow> txn_abort_head st; Some (rc, st) }"

definition commit_top :: "st \<Rightarrow> (int \<times> st) option" where
  "commit_top st =
     (if \<not> me_txn (env st) then commit_fail EINVAL st
      else do {
        st \<leftarrow> mdb_cursors_close False st;
        t \<leftarrow> get_txn st;
        d0 \<leftarrow> rd (mt_dirty_list t) 0;
        if mid d0 = 0 \<and> \<not> anyset (mt_flags t) (MDB_TXN_DIRTY OR MDB_TXN_SPILLS) then commit_done st
        else do {
          (rc, st) \<leftarrow> commit_pages st;
          if rc \<noteq> 0 then commit_fail rc st else commit_done st } })"

text \<open>The innermost transaction.\<close>

definition txn_commit_head :: "st \<Rightarrow> (int \<times> st) option" where
  "txn_commit_head st =
     (case txns st of
        [] \<Rightarrow> Some (EINVAL, st)
      | t # ts \<Rightarrow>
          if F_ISSET (mt_flags t) MDB_TXN_RDONLY then do {
            st \<leftarrow> mdb_dbis_update True st;
            st \<leftarrow> txn_abort_head (upd_txn (\<lambda>t. t\<lparr>mt_numdbs := 2\<rparr>) st);
            Some (MDB_SUCCESS, st) }
          else if F_ISSET (mt_flags t) MDB_TXN_ERROR then
            commit_fail MDB_BAD_TXN
              (case ts of
                 [] \<Rightarrow> st
               | p # ts \<Rightarrow> st\<lparr>txns := t # p\<lparr>mt_flags := mt_flags p OR MDB_TXN_ERROR\<rparr> # ts\<rparr>)
          else (case ts of p # ts \<Rightarrow> commit_child t p ts st | [] \<Rightarrow> commit_top st))"

text \<open>\<open>mdb_txn_commit\<close> of the transaction at position \<open>k\<close>: its child first; when that fails, it aborts.\<close>

fun mdb_txn_commit :: "nat \<Rightarrow> st \<Rightarrow> (int \<times> st) option" where
  "mdb_txn_commit 0 st = txn_commit_head st"
| "mdb_txn_commit (Suc k) st = do {
     (rc, st) \<leftarrow> mdb_txn_commit k st;
     if rc \<noteq> 0 then commit_fail rc st else txn_commit_head st }"

end
