(* ===== verification/Lmdb_Flush_Facts.thy ===== *)
theory Lmdb_Flush_Facts
  imports Lmdb_Store Lmdb_Sample
begin

text \<open>
  \<open>mdb_page_flush\<close>: what reaches the file is the list of the dirty pages in page order, or a part from
  its start when a write fails; the pages that are kept stay in the dirty list.
\<close>

section \<open>The dirty pages\<close>

text \<open>The entries of the dirty list, the page of an entry, and what the flush writes.\<close>

definition dirty_entries :: "MDB_txn \<Rightarrow> page_ref MDB_ID2 list" where
  "dirty_entries t = cells (mt_dirty_list t) 1 (Suc (unat (mid (mt_dirty_list t ! 0))))"

definition entry_page :: "st \<Rightarrow> page_ref MDB_ID2 \<Rightarrow> MDB_page" where
  "entry_page st e = the (get_page st (mptr e))"

definition page_kept :: "MDB_page \<Rightarrow> bool" where
  "page_kept mp \<longleftrightarrow> anyset (mp_flags mp) (P_LOOSE OR P_KEEP)"

definition page_clean :: "MDB_page \<Rightarrow> MDB_page" where
  "page_clean mp = mp\<lparr>mp_flags := mp_flags mp AND NOT P_DIRTY\<rparr>"

definition written_pages :: "st \<Rightarrow> page_ref MDB_ID2 list \<Rightarrow> (pgno_t \<times> MDB_page) list" where
  "written_pages st es = map (\<lambda>e. (mid e, page_clean (entry_page st e))) (filter (\<lambda>e. \<not> page_kept (entry_page st e)) es)"

text \<open>The entries are \<open>malloc\<close>ed pages, each its own.\<close>

definition entries_ok :: "st \<Rightarrow> page_ref MDB_ID2 list \<Rightarrow> bool" where
  "entries_ok st es \<longleftrightarrow> distinct (map mptr es) \<and>
     (\<forall>e \<in> set es. mid e \<noteq> 0 \<and> (\<exists>a mp. mptr e = PMem a \<and> heap st a = Some mp \<and> mp_pgno mp = mid e \<and>
       (IS_OVERFLOW mp \<longrightarrow> mp_pages mp \<noteq> 0)))"

definition dirty_ok :: "st \<Rightarrow> bool" where
  "dirty_ok st \<longleftrightarrow> 0 < me_psize (env st) \<and> (\<exists>t. get_txn st = Some t \<and>
     unat (mid (mt_dirty_list t ! 0)) < length (mt_dirty_list t) \<and> entries_ok st (dirty_entries t))"

text \<open>The heap keeps its pages up to flags that say nothing about their kind.\<close>

definition heap_flags :: "st \<Rightarrow> st \<Rightarrow> bool" where
  "heap_flags st st' \<longleftrightarrow> (\<forall>a mp. heap st a = Some mp \<longrightarrow>
     (\<exists>mp'. heap st' a = Some mp' \<and> mp' = mp\<lparr>mp_flags := mp_flags mp'\<rparr> \<and> IS_OVERFLOW mp' = IS_OVERFLOW mp))"

lemma heap_flags_refl [simp]: "heap_flags st st"
  by (auto simp: heap_flags_def)

lemma heap_flags_trans: "heap_flags st st' \<Longrightarrow> heap_flags st' st'' \<Longrightarrow> heap_flags st st''"
  unfolding heap_flags_def
proof (intro allI impI)
  fix a mp
  assume h: "\<forall>a mp. heap st a = Some mp \<longrightarrow>
        (\<exists>mp'. heap st' a = Some mp' \<and> mp' = mp\<lparr>mp_flags := mp_flags mp'\<rparr> \<and> IS_OVERFLOW mp' = IS_OVERFLOW mp)"
    "\<forall>a mp. heap st' a = Some mp \<longrightarrow>
        (\<exists>mp'. heap st'' a = Some mp' \<and> mp' = mp\<lparr>mp_flags := mp_flags mp'\<rparr> \<and> IS_OVERFLOW mp' = IS_OVERFLOW mp)"
    and a: "heap st a = Some mp"
  obtain m1 where m1: "heap st' a = Some m1" "m1 = mp\<lparr>mp_flags := mp_flags m1\<rparr>" "IS_OVERFLOW m1 = IS_OVERFLOW mp"
    using h(1) a by blast
  obtain m2 where m2: "heap st'' a = Some m2" "m2 = m1\<lparr>mp_flags := mp_flags m2\<rparr>" "IS_OVERFLOW m2 = IS_OVERFLOW m1"
    using h(2) m1(1) by blast
  have "m2 = mp\<lparr>mp_flags := mp_flags m2\<rparr>" using m1(2) m2(2) by (metis MDB_page.update_convs(3) MDB_page.surjective)
  then show "\<exists>mp'. heap st'' a = Some mp' \<and> mp' = mp\<lparr>mp_flags := mp_flags mp'\<rparr> \<and> IS_OVERFLOW mp' = IS_OVERFLOW mp"
    using m1 m2 by blast
qed

lemma overflow_flags: "IS_OVERFLOW (mp\<lparr>mp_flags := mp_flags mp AND NOT P_DIRTY\<rparr>) = IS_OVERFLOW mp"
  "IS_OVERFLOW (mp\<lparr>mp_flags := mp_flags mp AND NOT P_KEEP\<rparr>) = IS_OVERFLOW mp"
proof -
  have "(w AND NOT P_DIRTY) AND P_OVERFLOW = w AND P_OVERFLOW" "(w AND NOT P_KEEP) AND P_OVERFLOW = w AND P_OVERFLOW" for w
    by (simp_all add: page_flag_defs and.assoc)
  then show "IS_OVERFLOW (mp\<lparr>mp_flags := mp_flags mp AND NOT P_DIRTY\<rparr>) = IS_OVERFLOW mp"
    "IS_OVERFLOW (mp\<lparr>mp_flags := mp_flags mp AND NOT P_KEEP\<rparr>) = IS_OVERFLOW mp"
    by (simp_all add: IS_OVERFLOW_def F_ISSET_def)
qed

lemma store_batch_append: "store_batch m (xs @ ys) = store_batch (store_batch m xs) ys"
  by (induction m xs rule: store_batch.induct) auto

section \<open>The loop that writes\<close>

lemma written_Cons: "written_pages st (e # es) =
    (if page_kept (entry_page st e) then [] else [(mid e, page_clean (entry_page st e))]) @ written_pages st es"
  by (simp add: written_pages_def)

lemma entries_step:
  assumes "entries_ok st (e # es)" "mptr e = PMem a" "heap st a = Some mp" "env st' = env st\<lparr>me_map := m\<rparr>"
    and "heap st' = (heap st)(a \<mapsto> mp\<lparr>mp_flags := f\<rparr>)" "IS_OVERFLOW (mp\<lparr>mp_flags := f\<rparr>) = IS_OVERFLOW mp"
  shows "entries_ok st' es" "written_pages st' es = written_pages st es" "heap_flags st st'"
    "\<And>x. x \<in> set es \<Longrightarrow> entry_page st' x = entry_page st x"
proof -
  have ne: "\<exists>b mp'. mptr x = PMem b \<and> b \<noteq> a \<and> heap st b = Some mp'" if x: "x \<in> set es" for x
  proof -
    obtain b mp' where b: "mptr x = PMem b" "heap st b = Some mp'"
      using assms(1) x by (auto simp: entries_ok_def)
    have "PMem a \<notin> mptr ` set es" using assms(1,2) by (simp add: entries_ok_def)
    then have "b \<noteq> a" using b(1) x by (metis image_eqI)
    then show ?thesis using b by blast
  qed
  show same: "entry_page st' x = entry_page st x" if "x \<in> set es" for x
    using ne [OF that] assms(5) by (auto simp: entry_page_def get_page_def)
  show "entries_ok st' es" using assms(1,2,5) ne by (fastforce simp: entries_ok_def)
  show "written_pages st' es = written_pages st es"
    unfolding written_pages_def using same by (auto intro!: map_cong filter_cong)
  show "heap_flags st st'" using assms(3,5,6) by (auto simp: heap_flags_def)
qed

definition flushed :: "st \<Rightarrow> st \<Rightarrow> (pgno_t \<times> MDB_page) list \<Rightarrow> bool" where
  "flushed st st' ws \<longleftrightarrow> env st' = env st\<lparr>me_map := store_batch (me_map (env st)) ws\<rparr> \<and> txns st' = txns st \<and>
     crs st' = crs st \<and> heap_flags st st'"

lemma flushed_step:
  assumes "flushed st st' ws" "flushed st' st'' vs"
  shows "flushed st st'' (ws @ vs)"
  using assms heap_flags_trans by (auto simp: flushed_def store_batch_append)

lemma write_batch_flushed:
  assumes "write_batch iov st = (rc, st')"
  shows "flushed st st' (take (if rc = 0 then length iov else io_part st (nio st)) iov) \<and> heap st' = heap st"
  using assms by (auto simp: write_batch_def Let_def flushed_def upd_env_def heap_flags_def)

lemma flush_loop_spec:
  assumes "i \<le> n" "n < length dl" "es = cells dl (Suc i) (Suc n)" "entries_ok st es" "0 < me_psize (env st)" "pos \<noteq> np"
  shows "\<exists>rc st' dl' k. flush_loop st dl i n cur pos sz np ws iov = Some (rc, st', dl') \<and>
     flushed st st' (take k (iov @ written_pages st es)) \<and> length dl' = length dl \<and>
     (\<forall>j. j \<le> i \<or> n < j \<longrightarrow> dl' ! j = dl ! j) \<and>
     (rc = 0 \<longrightarrow> k = length (iov @ written_pages st es) \<and>
       (\<forall>j. i < j \<longrightarrow> j \<le> n \<longrightarrow> dl' ! j = (if page_kept (entry_page st (dl ! j)) then (dl ! j)\<lparr>mid := 0\<rparr> else dl ! j)))"
  using assms
proof (induction es arbitrary: i dl st cur pos sz np ws iov)
  case Nil
  then have i: "i = n" by (metis Suc_leI diff_is_0_eq le_antisym length_cells list.size(3) not_less_eq_eq)
  obtain rc st' where w: "(if iov \<noteq> [] then write_batch iov st else (0, st)) = (rc, st')" by fastforce
  have "flush_loop st dl i n cur pos sz np ws iov = Some (rc, st', dl)"
    using i Nil.prems(6) w by (subst flush_loop.simps) simp
  moreover have "\<exists>k. flushed st st' (take k iov) \<and> (rc = 0 \<longrightarrow> k = length iov)"
  proof (cases "iov = []")
    case True
    then show ?thesis using w by (auto simp: flushed_def)
  next
    case False
    then show ?thesis using w write_batch_flushed [of iov st rc st'] by (auto split: if_splits)
  qed
  ultimately show ?case using i by (auto simp: written_pages_def)
next
  case (Cons e es)
  have i: "i < n" using Cons.prems(3) by (cases "i < n") auto
  have es: "e = dl ! Suc i" "es = cells dl (Suc (Suc i)) (Suc n)"
    using Cons.prems(3) cells_Cons [of "Suc i" "Suc n" dl] i by auto
  obtain a mp where a: "mptr e = PMem a" "heap st a = Some mp" "IS_OVERFLOW mp \<longrightarrow> mp_pages mp \<noteq> 0" "mid e \<noteq> 0"
    using Cons.prems(4) by (auto simp: entries_ok_def)
  have ep: "entry_page st e = mp" "get_page st (PMem a) = Some mp" using a by (simp_all add: entry_page_def get_page_def)
  have rd: "rd dl (Suc i) = Some e" using i Cons.prems(2) es(1) by simp
  show ?case
  proof (cases "page_kept mp")
    case True
    define st1 where "st1 = st\<lparr>heap := (heap st)(a \<mapsto> mp\<lparr>mp_flags := mp_flags mp AND NOT P_KEEP\<rparr>)\<rparr>"
    define dl1 where "dl1 = dl[Suc i := e\<lparr>mid := 0\<rparr>]"
    have s1: "entries_ok st1 es" "written_pages st1 es = written_pages st es" "heap_flags st st1"
      "\<And>x. x \<in> set es \<Longrightarrow> entry_page st1 x = entry_page st x"
      using entries_step [OF Cons.prems(4) a(1,2), of st1 "me_map (env st)"] overflow_flags(2) by (simp_all add: st1_def)
    have c1: "es = cells dl1 (Suc (Suc i)) (Suc n)" using es(2) by (simp add: dl1_def)
    have step: "flush_loop st dl i n cur pos sz np ws iov = flush_loop st1 dl1 (Suc i) n cur pos sz np ws iov"
      using i rd a(1,2) ep(2) True Cons.prems(2)
      by (subst flush_loop.simps) (simp add: page_kept_def put_page_def st1_def dl1_def)
    obtain rc st' dl' k where r: "flush_loop st1 dl1 (Suc i) n cur pos sz np ws iov = Some (rc, st', dl')"
      "flushed st1 st' (take k (iov @ written_pages st es))" "length dl' = length dl1"
      "\<forall>j. j \<le> Suc i \<or> n < j \<longrightarrow> dl' ! j = dl1 ! j"
      "rc = 0 \<longrightarrow> k = length (iov @ written_pages st es) \<and>
       (\<forall>j. Suc i < j \<longrightarrow> j \<le> n \<longrightarrow> dl' ! j = (if page_kept (entry_page st1 (dl1 ! j)) then (dl1 ! j)\<lparr>mid := 0\<rparr> else dl1 ! j))"
      using Cons.IH [OF _ _ c1 s1(1), of pos np cur sz ws iov] i Cons.prems(2,5,6) s1(2) by (auto simp: dl1_def st1_def)
    have "flushed st st1 []" using s1(3) by (simp add: flushed_def st1_def)
    then have "flushed st st' (take k (iov @ written_pages st (e # es)))"
      using flushed_step [of st st1 "[]" st'] r(2) True ep(1) by (simp add: written_Cons)
    moreover have "dl' ! j = (if page_kept (entry_page st (dl ! j)) then (dl ! j)\<lparr>mid := 0\<rparr> else dl ! j)"
      if "rc = 0" "i < j" "j \<le> n" for j
    proof (cases "j = Suc i")
      case True
      then show ?thesis using r(4) \<open>page_kept mp\<close> ep(1) es(1) Cons.prems(2) i by (auto simp: dl1_def)
    next
      case False
      then have "dl ! j \<in> set es" using es(2) that by (auto simp: set_cells)
      then show ?thesis using r(5) that False s1(4) by (auto simp: dl1_def)
    qed
    moreover have "dl' ! j = dl ! j" if "j \<le> i \<or> n < j" for j
      using r(4) that i by (auto simp: dl1_def)
    moreover have "length dl' = length dl" using r(3) by (simp add: dl1_def)
    moreover have "rc = 0 \<longrightarrow> k = length (iov @ written_pages st (e # es))" using r(5) True ep(1) by (simp add: written_Cons)
    ultimately show ?thesis using step r(1)
      by (intro exI [of _ rc] exI [of _ st'] exI [of _ dl'] exI [of _ k]) simp
  next
    case False
    define dp where "dp = page_clean mp"
    define st1 where "st1 = st\<lparr>heap := (heap st)(a \<mapsto> dp)\<rparr>"
    define pos1 where "pos1 = unat (mid e) * me_psize (env st)"
    define sz1 where "sz1 = (if IS_OVERFLOW dp then me_psize (env st) * mp_pages dp else me_psize (env st))"
    define wrt where "wrt \<longleftrightarrow> pos1 \<noteq> np \<or> length iov = MDB_COMMIT_PAGES \<or> ws + sz1 > MAX_WRITE"
    obtain rc1 st2 where w: "(if wrt \<and> iov \<noteq> [] then write_batch iov st1 else (0, st1)) = (rc1, st2)" by fastforce
    have ov: "IS_OVERFLOW dp = IS_OVERFLOW mp" using overflow_flags(1) by (simp add: dp_def page_clean_def)
    have "mp_pages dp = mp_pages mp" by (simp add: dp_def page_clean_def)
    then have sz1: "0 < sz1" using a(3) ov Cons.prems(5) by (simp add: sz1_def)
    have f1: "flushed st st1 []"
      using entries_step(3) [OF Cons.prems(4) a(1,2), of st1 "me_map (env st)"] overflow_flags(1)
      by (simp add: flushed_def st1_def dp_def page_clean_def)
    obtain k1 where k1: "flushed st1 st2 (take k1 iov)" "rc1 = 0 \<and> wrt \<longrightarrow> k1 = length iov" "\<not> wrt \<longrightarrow> k1 = 0" "heap st2 = heap st1"
    proof (cases "wrt \<and> iov \<noteq> []")
      case True
      then have "write_batch iov st1 = (rc1, st2)" using w by simp
      note b = write_batch_flushed [OF this]
      show ?thesis
        by (rule that [of "if rc1 = 0 then length iov else io_part st1 (nio st1)"]) (use b True in simp_all)
    next
      case False
      then have "st2 = st1" "wrt \<longrightarrow> iov = []" using w by auto
      then show ?thesis by (intro that [of 0]) (simp_all add: flushed_def)
    qed
    have f2: "flushed st st2 (take k1 iov)" using flushed_step [OF f1 k1(1)] by simp
    have s2: "entries_ok st2 es" "written_pages st2 es = written_pages st es" "\<And>x. x \<in> set es \<Longrightarrow> entry_page st2 x = entry_page st x"
      using entries_step [OF Cons.prems(4) a(1,2), of st2 "store_batch (me_map (env st)) (take k1 iov)"] f2 k1(4) overflow_flags(1)
      by (simp_all add: flushed_def st1_def dp_def page_clean_def)
    have unfold: "flush_loop st dl i n cur pos sz np ws iov =
        (if rc1 \<noteq> 0 then Some (rc1, st2, dl)
         else flush_loop st2 dl (Suc i) n (mid e, dp) pos1 sz1 (pos1 + sz1) (if wrt then sz1 else ws + sz1)
           (if wrt then [(mid e, dp)] else iov @ [(mid e, dp)]))"
      using i rd a(1,2) ep(2) False w
      by (subst flush_loop.simps)
        (auto simp: page_kept_def put_page_def st1_def dp_def page_clean_def pos1_def sz1_def wrt_def Let_def split: if_splits)
    have W: "iov @ written_pages st (e # es) = iov @ (mid e, dp) # written_pages st es"
      using False ep(1) by (simp add: written_Cons dp_def)
    show ?thesis
    proof (cases "rc1 = 0")
      case False
      have "take k1 iov = take (min k1 (length iov)) (iov @ written_pages st (e # es))" by (simp add: min_def)
      then show ?thesis
        using unfold False f2 by (intro exI [of _ rc1] exI [of _ st2] exI [of _ dl] exI [of _ "min k1 (length iov)"]) simp
    next
      case True
      define iov1 where "iov1 = (if wrt then [(mid e, dp)] else iov @ [(mid e, dp)])"
      have env2: "0 < me_psize (env st2)" using f2 Cons.prems(5) by (simp add: flushed_def)
      obtain rc st' dl' k where r: "flush_loop st2 dl (Suc i) n (mid e, dp) pos1 sz1 (pos1 + sz1) (if wrt then sz1 else ws + sz1) iov1 = Some (rc, st', dl')"
        "flushed st2 st' (take k (iov1 @ written_pages st es))" "length dl' = length dl"
        "\<forall>j. j \<le> Suc i \<or> n < j \<longrightarrow> dl' ! j = dl ! j"
        "rc = 0 \<longrightarrow> k = length (iov1 @ written_pages st es) \<and>
         (\<forall>j. Suc i < j \<longrightarrow> j \<le> n \<longrightarrow> dl' ! j = (if page_kept (entry_page st2 (dl ! j)) then (dl ! j)\<lparr>mid := 0\<rparr> else dl ! j))"
        using Cons.IH [OF _ Cons.prems(2) es(2) s2(1) env2, of pos1 "pos1 + sz1" "(mid e, dp)" sz1 "if wrt then sz1 else ws + sz1" iov1]
          i sz1 s2(2) by auto
      have "\<exists>k'. flushed st st' (take k' (iov @ written_pages st (e # es))) \<and>
          (rc = 0 \<longrightarrow> k' = length (iov @ written_pages st (e # es)))"
      proof (cases wrt)
        case wrt: True
        have "flushed st st' (iov @ take k (iov1 @ written_pages st es))"
          using flushed_step [OF f2 r(2)] k1(2) True wrt by simp
        then show ?thesis
          using r(5) wrt by (intro exI [of _ "length iov + k"]) (auto simp: W iov1_def)
      next
        case wrt: False
        have "flushed st st' (take k (iov1 @ written_pages st es))"
          using flushed_step [OF f2 r(2)] k1(3) wrt by simp
        then show ?thesis using r(5) wrt by (intro exI [of _ k]) (auto simp: W iov1_def)
      qed
      moreover have "dl' ! j = (if page_kept (entry_page st (dl ! j)) then (dl ! j)\<lparr>mid := 0\<rparr> else dl ! j)"
        if "rc = 0" "i < j" "j \<le> n" for j
      proof (cases "j = Suc i")
        case True
        then show ?thesis using r(4) \<open>\<not> page_kept mp\<close> ep(1) es(1) by auto
      next
        case False
        then have "dl ! j \<in> set es" using es(2) that by (auto simp: set_cells)
        then show ?thesis using r(5) that False s2(3) by auto
      qed
      ultimately show ?thesis using unfold True r(1,3,4) by (auto simp: iov1_def)
    qed
  qed
qed

section \<open>The loop that frees and compacts\<close>

text \<open>Only the list of free page buffers and released buffers differ.\<close>

definition released :: "st \<Rightarrow> st \<Rightarrow> page_ref MDB_ID2 list \<Rightarrow> bool" where
  "released st st' es \<longleftrightarrow> (\<exists>dps. env st' = env st\<lparr>me_dpages := dps\<rparr>) \<and> txns st' = txns st \<and> crs st' = crs st \<and>
     io_rc st' = io_rc st \<and> nio st' = nio st \<and> (\<forall>a. PMem a \<notin> mptr ` set es \<longrightarrow> heap st' a = heap st a)"

lemma dpage_free_released:
  assumes "mptr e = PMem a" "heap st a = Some mp"
  shows "\<exists>st'. mdb_dpage_free st (mptr e) = Some st' \<and> released st st' [e]"
  using assms by (auto simp: mdb_dpage_free_def get_page_def mdb_page_free_def released_def upd_env_def intro: exI [of _ "me_dpages (env st)"])

lemma released_trans: "released st st' es \<Longrightarrow> released st' st'' fs \<Longrightarrow> released st st'' (es @ fs)"
  by (auto simp: released_def image_Un)

definition compacted :: "st \<Rightarrow> page_ref MDB_ID2 list \<Rightarrow> page_ref MDB_ID2 list" where
  "compacted st es = map (\<lambda>e. e\<lparr>mid := mp_pgno (entry_page st e)\<rparr>) (filter (\<lambda>e. mid e = 0) es)"

lemma compacted_cong:
  assumes "\<And>e. e \<in> set es \<Longrightarrow> mid e = 0 \<Longrightarrow> mp_pgno (entry_page st e) = mp_pgno (entry_page st' e)"
  shows "compacted st es = compacted st' es"
  using assms by (auto simp: compacted_def)

lemma flush_free_loop_spec:
  assumes "j \<le> i" "i \<le> n" "n < length dl" "es = cells dl (Suc i) (Suc n)" "distinct (map mptr es)"
    and "\<And>e. e \<in> set es \<Longrightarrow> \<exists>a mp. mptr e = PMem a \<and> heap st a = Some mp"
  shows "\<exists>st' dl'. flush_free_loop st dl i j n = Some (st', dl', j + length (compacted st es)) \<and>
     released st st' (filter (\<lambda>e. mid e \<noteq> 0) es) \<and> length dl' = length dl \<and> dl' ! 0 = dl ! 0 \<and>
     cells dl' 1 (Suc (j + length (compacted st es))) = cells dl 1 (Suc j) @ compacted st es"
  using assms
proof (induction es arbitrary: i j dl st)
  case Nil
  then have i: "i = n" by (metis Suc_leI diff_is_0_eq le_antisym length_cells list.size(3) not_less_eq_eq)
  then show ?case
    by (subst flush_free_loop.simps) (auto simp: compacted_def released_def intro: exI [of _ "me_dpages (env st)"])
next
  case (Cons e es)
  have i: "i < n" using Cons.prems(4) by (cases "i < n") auto
  have es: "e = dl ! Suc i" "es = cells dl (Suc (Suc i)) (Suc n)"
    using Cons.prems(4) cells_Cons [of "Suc i" "Suc n" dl] i by auto
  obtain a mp where a: "mptr e = PMem a" "heap st a = Some mp" using Cons.prems(6) [of e] by auto
  have ep: "entry_page st e = mp" "get_page st (PMem a) = Some mp" using a by (simp_all add: entry_page_def get_page_def)
  have rd: "rd dl (Suc i) = Some e" using i Cons.prems(3) es(1) by simp
  show ?case
  proof (cases "mid e = 0")
    case True
    define e1 where "e1 = e\<lparr>mid := mp_pgno mp\<rparr>"
    define dl1 where "dl1 = dl[Suc j := e1]"
    have step: "flush_free_loop st dl i j n = flush_free_loop st dl1 (Suc i) (Suc j) n"
      using i rd a(1) ep(2) True Cons.prems(1,3) by (subst flush_free_loop.simps) (simp add: dl1_def e1_def)
    have c1: "es = cells dl1 (Suc (Suc i)) (Suc n)" using es(2) Cons.prems(1) by (simp add: dl1_def)
    obtain st' dl' where r: "flush_free_loop st dl1 (Suc i) (Suc j) n = Some (st', dl', Suc j + length (compacted st es))"
      "released st st' (filter (\<lambda>e. mid e \<noteq> 0) es)" "length dl' = length dl1" "dl' ! 0 = dl1 ! 0"
      "cells dl' 1 (Suc (Suc j + length (compacted st es))) = cells dl1 1 (Suc (Suc j)) @ compacted st es"
      using Cons.IH [OF _ _ _ c1, of "Suc j" st] i Cons.prems(1,3,5,6) by (auto simp: dl1_def)
    have "cells dl1 1 (Suc (Suc j)) = cells dl 1 (Suc j) @ [e1]"
      using cells_snoc [of 1 "Suc j" dl1] Cons.prems(1,3) i by (simp add: dl1_def)
    moreover have "compacted st (e # es) = e1 # compacted st es" using True ep(1) by (simp add: compacted_def e1_def)
    ultimately show ?thesis using step r True by (intro exI [of _ st'] exI [of _ dl']) (simp add: dl1_def)
  next
    case False
    obtain st1 where f: "mdb_dpage_free st (mptr e) = Some st1" "released st st1 [e]"
      using dpage_free_released [OF a] by blast
    have step: "flush_free_loop st dl i j n = flush_free_loop st1 dl (Suc i) j n"
      using i rd False f(1) by (subst flush_free_loop.simps) simp
    have fresh: "PMem a \<notin> mptr ` set es" using Cons.prems(5) a(1) by simp
    have keep: "heap st1 b = heap st b" if "x \<in> set es" "mptr x = PMem b" for x b
    proof -
      have "b \<noteq> a" using fresh that by (metis image_eqI)
      then show ?thesis using f(2) a(1) by (auto simp: released_def)
    qed
    have mem: "\<exists>b mp. mptr x = PMem b \<and> heap st1 b = Some mp" if x: "x \<in> set es" for x
    proof -
      obtain b mp where "mptr x = PMem b" "heap st b = Some mp" using Cons.prems(6) x by fastforce
      then show ?thesis using keep x by auto
    qed
    have same: "compacted st1 es = compacted st es"
    proof (rule compacted_cong)
      fix x assume x: "x \<in> set es"
      obtain b mp where "mptr x = PMem b" "heap st b = Some mp" using Cons.prems(6) x by fastforce
      then show "mp_pgno (entry_page st1 x) = mp_pgno (entry_page st x)"
        using keep x by (simp add: entry_page_def get_page_def)
    qed
    obtain st' dl' where r: "flush_free_loop st1 dl (Suc i) j n = Some (st', dl', j + length (compacted st1 es))"
      "released st1 st' (filter (\<lambda>e. mid e \<noteq> 0) es)" "length dl' = length dl" "dl' ! 0 = dl ! 0"
      "cells dl' 1 (Suc (j + length (compacted st1 es))) = cells dl 1 (Suc j) @ compacted st1 es"
      using Cons.IH [OF _ _ _ es(2), of j st1] i Cons.prems(1,3,5) mem by auto
    have "released st st' (filter (\<lambda>e. mid e \<noteq> 0) (e # es))" using released_trans [OF f(2) r(2)] False by simp
    moreover have "compacted st (e # es) = compacted st es" using False by (simp add: compacted_def)
    ultimately show ?thesis using step r same by (intro exI [of _ st'] exI [of _ dl']) simp
  qed
qed

section \<open>The flush\<close>

lemma marked_entries:
  assumes "entries_ok st es" "heap_flags st st'" "ms = map (\<lambda>e. if page_kept (entry_page st e) then e\<lparr>mid := 0\<rparr> else e) es"
  shows "map mptr ms = map mptr es" "compacted st' ms = filter (\<lambda>e. page_kept (entry_page st e)) es"
    "\<And>e. e \<in> set ms \<Longrightarrow> \<exists>a mp. mptr e = PMem a \<and> heap st' a = Some mp"
proof -
  show "map mptr ms = map mptr es" by (simp add: assms(3))
  have page: "\<exists>a mp. mptr e = PMem a \<and> heap st' a = Some mp \<and> mp_pgno mp = mid e \<and> mid e \<noteq> 0" if e: "e \<in> set es" for e
  proof -
    obtain a mp where a: "mptr e = PMem a" "heap st a = Some mp" "mp_pgno mp = mid e" "mid e \<noteq> 0"
      using assms(1) e by (auto simp: entries_ok_def)
    then obtain mp' where p: "heap st' a = Some mp'" "mp' = mp\<lparr>mp_flags := mp_flags mp'\<rparr>"
      using assms(2) unfolding heap_flags_def by blast
    have "mp_pgno mp' = mp_pgno mp" using arg_cong [OF p(2), of mp_pgno] by simp
    then show ?thesis using a p(1) by auto
  qed
  show "\<exists>a mp. mptr e = PMem a \<and> heap st' a = Some mp" if "e \<in> set ms" for e
    using that page by (fastforce simp: assms(3))
  have "compacted st' ms = map (\<lambda>e. e\<lparr>mid := mp_pgno (entry_page st' e)\<rparr>)
      (map (\<lambda>e. e\<lparr>mid := 0\<rparr>) (filter (\<lambda>e. page_kept (entry_page st e)) es))"
  proof -
    have "filter (\<lambda>e. mid e = 0) ms = map (\<lambda>e. e\<lparr>mid := 0\<rparr>) (filter (\<lambda>e. page_kept (entry_page st e)) es)"
      using page unfolding assms(3) by (induction es) fastforce+
    then show ?thesis by (simp only: compacted_def)
  qed
  also have "\<dots> = filter (\<lambda>e. page_kept (entry_page st e)) es"
    unfolding map_map
  proof (rule map_idI)
    fix e assume "e \<in> set (filter (\<lambda>e. page_kept (entry_page st e)) es)"
    then obtain a mp where "mptr e = PMem a" "heap st' a = Some mp" "mp_pgno mp = mid e" using page by fastforce
    then show "((\<lambda>e. e\<lparr>mid := mp_pgno (entry_page st' e)\<rparr>) \<circ> (\<lambda>e. e\<lparr>mid := 0\<rparr>)) e = e" by (simp add: entry_page_def get_page_def)
  qed
  finally show "compacted st' ms = filter (\<lambda>e. page_kept (entry_page st e)) es" .
qed

lemma get_txn_cons: "get_txn st = Some t \<longleftrightarrow> (\<exists>ts. txns st = t # ts)"
  by (auto simp: get_txn_def split: list.splits)

lemma page_flush_run:
  assumes "dirty_ok st" and "\<not> anyset (me_flags (env st)) MDB_WRITEMAP" and "get_txn st = Some t"
  shows "\<exists>rc st' k dps dl room. mdb_page_flush 0 st = Some (rc, st') \<and>
     env st' = env st\<lparr>me_map := store_batch (me_map (env st)) (take k (written_pages st (dirty_entries t))), me_dpages := dps\<rparr> \<and>
     txns st' = t\<lparr>mt_dirty_list := dl, mt_dirty_room := room\<rparr> # tl (txns st) \<and>
     (rc = 0 \<longrightarrow> k = length (written_pages st (dirty_entries t)) \<and>
        unat (mid (dl ! 0)) < length dl \<and>
        cells dl 1 (Suc (unat (mid (dl ! 0)))) = filter (\<lambda>e. page_kept (entry_page st e)) (dirty_entries t) \<and>
        room = mt_dirty_room t + length (written_pages st (dirty_entries t)) \<and>
        (\<forall>e \<in> set (dirty_entries t). page_kept (entry_page st e) \<longrightarrow> (\<exists>a mp. mptr e = PMem a \<and> heap st' a = Some mp)))"
proof -
  define dl n where "dl = mt_dirty_list t" and "n = unat (mid (mt_dirty_list t ! 0))"
  define es where "es = dirty_entries t"
  have len: "n < length dl" and ok: "entries_ok st es" and ps: "0 < me_psize (env st)"
    using assms(1,3) by (auto simp: dirty_ok_def dl_def n_def es_def)
  have es: "es = cells dl (Suc 0) (Suc n)" by (simp add: es_def dirty_entries_def dl_def n_def)
  obtain ts where ts: "txns st = t # ts" using assms(3) by (auto simp: get_txn_cons)
  have rd0: "rd dl 0 = Some (dl ! 0)" using len by (auto simp: rd_def)
  obtain rc st1 dl1 k where f: "flush_loop st dl 0 n (0, blank_page) 0 0 1 0 [] = Some (rc, st1, dl1)"
    "flushed st st1 (take k (written_pages st es))" "length dl1 = length dl" "\<forall>j. j \<le> 0 \<or> n < j \<longrightarrow> dl1 ! j = dl ! j"
    "rc = 0 \<longrightarrow> k = length (written_pages st es) \<and>
       (\<forall>j. 0 < j \<longrightarrow> j \<le> n \<longrightarrow> dl1 ! j = (if page_kept (entry_page st (dl ! j)) then (dl ! j)\<lparr>mid := 0\<rparr> else dl ! j))"
    using flush_loop_spec [OF _ len es ok ps, of 0 1 "(0, blank_page)" 0 0 "[]"] by auto
  have run: "mdb_page_flush 0 st = (if rc \<noteq> 0 then Some (rc, set_dirty_list dl1 st1)
      else flush_free_loop st1 dl1 0 0 n \<bind> (\<lambda>(st, dl', j).
         Some (MDB_SUCCESS, upd_txn (\<lambda>t. t\<lparr>mt_dirty_list := dl'[0 := (dl ! 0)\<lparr>mid := of_nat j\<rparr>],
                 mt_dirty_room := mt_dirty_room t + (n - j)\<rparr>) st)))"
  proof -
    have n: "unat (mid (dl ! 0)) = n" by (simp add: dl_def n_def)
    show ?thesis
      using f(1) rd0 assms(2,3) by (simp add: mdb_page_flush_def dl_def [symmetric] n Let_def)
  qed
  show ?thesis
  proof (cases "rc = 0")
    case False
    then show ?thesis
      using run f(2) ts
      by (intro exI [of _ rc] exI [of _ "set_dirty_list dl1 st1"] exI [of _ k] exI [of _ "me_dpages (env st)"] exI [of _ dl1] exI [of _ "mt_dirty_room t"])
        (simp add: flushed_def set_dirty_list_def upd_txn_def es_def)
  next
    case True
    define ms where "ms = cells dl1 (Suc 0) (Suc n)"
    have ms: "ms = map (\<lambda>e. if page_kept (entry_page st e) then e\<lparr>mid := 0\<rparr> else e) es"
      unfolding ms_def es by (rule nth_equalityI) (use f(5) True in auto)
    have hf: "heap_flags st st1" using f(2) by (simp add: flushed_def)
    note m = marked_entries [OF ok hf ms]
    have d: "distinct (map mptr ms)" using ok m(1) by (simp add: entries_ok_def)
    obtain st2 dl2 where r: "flush_free_loop st1 dl1 0 0 n = Some (st2, dl2, length (compacted st1 ms))"
      "released st1 st2 (filter (\<lambda>e. mid e \<noteq> 0) ms)" "length dl2 = length dl1" "dl2 ! 0 = dl1 ! 0"
      "cells dl2 1 (Suc (length (compacted st1 ms))) = compacted st1 ms"
      using flush_free_loop_spec [of 0 0 n dl1 ms st1] len f(3) d m(3) by (auto simp: ms_def)
    define j where "j = length (filter (\<lambda>e. page_kept (entry_page st e)) es)"
    have jn: "j + length (written_pages st es) = n"
      using sum_length_filter_compl [of "\<lambda>e. page_kept (entry_page st e)" es] es by (simp add: j_def written_pages_def)
    have "n < 2 ^ 64" unfolding n_def by (rule unat64_less)
    then have uj: "unat (of_nat j :: 64 word) = j" using jn by (intro unat_of_nat64) simp
    define dl3 where "dl3 = dl2[0 := (dl ! 0)\<lparr>mid := of_nat j\<rparr>]"
    define st3 where "st3 = upd_txn (\<lambda>t. t\<lparr>mt_dirty_list := dl3, mt_dirty_room := mt_dirty_room t + (n - j)\<rparr>) st2"
    have "mdb_page_flush 0 st = Some (0, st3)"
      using run True r(1) m(2) by (simp add: st3_def dl3_def j_def dl_def MDB_SUCCESS_def)
    moreover obtain dps where "env st3 = env st\<lparr>me_map := store_batch (me_map (env st)) (take k (written_pages st es)), me_dpages := dps\<rparr>"
      using r(2) f(2) by (auto simp: st3_def released_def flushed_def upd_txn_def)
    moreover have "txns st3 = t\<lparr>mt_dirty_list := dl3, mt_dirty_room := mt_dirty_room t + (n - j)\<rparr> # tl (txns st)"
      using r(2) f(2) ts by (auto simp: st3_def released_def flushed_def upd_txn_def)
    moreover have "mid (dl3 ! 0) = of_nat j" "j < length dl3"
    proof -
      have "0 < length dl2" using len f(3) r(3) by linarith
      then show "mid (dl3 ! 0) = of_nat j" "j < length dl3" using len f(3) r(3) jn by (simp_all add: dl3_def)
    qed
    moreover have "cells dl3 1 (Suc j) = filter (\<lambda>e. page_kept (entry_page st e)) es"
      using r(5) m(2) by (simp add: dl3_def j_def)
    moreover have "n - j = length (written_pages st es)" using jn by simp
    moreover have "\<exists>a mp. mptr e = PMem a \<and> heap st3 a = Some mp" if e: "e \<in> set es" "page_kept (entry_page st e)" for e
    proof -
      have e1: "e\<lparr>mid := 0\<rparr> \<in> set ms" using e by (auto simp: ms image_iff intro!: bexI [of _ e])
      then obtain a mp where a: "mptr e = PMem a" "heap st1 a = Some mp" using m(3) [of "e\<lparr>mid := 0\<rparr>"] by auto
      have "PMem a \<notin> mptr ` set (filter (\<lambda>e. mid e \<noteq> 0) ms)"
      proof
        assume "PMem a \<in> mptr ` set (filter (\<lambda>e. mid e \<noteq> 0) ms)"
        then obtain f where f: "f \<in> set ms" "mid f \<noteq> 0" "mptr f = mptr (e\<lparr>mid := 0\<rparr>)" using a(1) by auto
        have "f = e\<lparr>mid := 0\<rparr>" using d e1 f(1,3) by (auto simp: distinct_map inj_on_def)
        then show False using f(2) by simp
      qed
      then have "heap st3 a = heap st1 a" using r(2) by (simp add: released_def st3_def upd_txn_def)
      then show ?thesis using a by auto
    qed
    ultimately show ?thesis using f(5) True uj unfolding es_def [symmetric] 
      by (intro exI [of _ 0] exI [of _ st3] exI [of _ k] exI [of _ dps] exI [of _ dl3] exI [of _ "mt_dirty_room t + (n - j)"]) simp
  qed
qed

text \<open>
  C13: \<open>mdb_page_flush\<close> of a transaction writes its dirty pages, without the pages that are kept, in the
  order of the dirty list; when it fails, a part from the start of that list has been written.  Nothing
  else in the file changes.  When it succeeds, all of them have been written, the dirty list is what is
  kept, and there is room for as many pages more as were written.
\<close>

theorem page_flush_writes:
  assumes "dirty_ok st" and "\<not> anyset (me_flags (env st)) MDB_WRITEMAP" and "get_txn st = Some t"
  shows "\<exists>rc st' t' k. mdb_page_flush 0 st = Some (rc, st') \<and> get_txn st' = Some t' \<and>
     me_map (env st') = store_batch (me_map (env st)) (take k (written_pages st (dirty_entries t))) \<and>
     me_metas (env st') = me_metas (env st) \<and> me_txns (env st') = me_txns (env st) \<and>
     (rc = 0 \<longrightarrow> k = length (written_pages st (dirty_entries t)) \<and>
        dirty_entries t' = filter (\<lambda>e. page_kept (entry_page st e)) (dirty_entries t) \<and>
        mt_dirty_room t' = mt_dirty_room t + length (written_pages st (dirty_entries t)))"
proof -
  obtain rc st' k dps dl room where run: "mdb_page_flush 0 st = Some (rc, st')"
    "env st' = env st\<lparr>me_map := store_batch (me_map (env st)) (take k (written_pages st (dirty_entries t))), me_dpages := dps\<rparr>"
    "txns st' = t\<lparr>mt_dirty_list := dl, mt_dirty_room := room\<rparr> # tl (txns st)"
    "rc = 0 \<longrightarrow> k = length (written_pages st (dirty_entries t)) \<and> unat (mid (dl ! 0)) < length dl \<and>
        cells dl 1 (Suc (unat (mid (dl ! 0)))) = filter (\<lambda>e. page_kept (entry_page st e)) (dirty_entries t) \<and>
        room = mt_dirty_room t + length (written_pages st (dirty_entries t))"
    using page_flush_run [OF assms] by blast
  show ?thesis
    by (intro exI [of _ rc] exI [of _ st'] exI [of _ "t\<lparr>mt_dirty_list := dl, mt_dirty_room := room\<rparr>"] exI [of _ k])
      (use run in \<open>simp add: get_txn_def dirty_entries_def\<close>)
qed

text \<open>A write transaction with two dirty leaf pages, of which one is kept.\<close>

definition dirty_st :: st where
  "dirty_st = sample_wst\<lparr>txns := [sample_txn\<lparr>mt_dirty_list := [\<lparr>mid = 2, mptr = PNull\<rparr>, \<lparr>mid = 5, mptr = PMem 2\<rparr>,
       \<lparr>mid = 6, mptr = PMem 3\<rparr>]\<rparr>],
     heap := [2 \<mapsto> blank_page\<lparr>mp_pgno := 5, mp_flags := P_LEAF OR P_DIRTY\<rparr>,
              3 \<mapsto> blank_page\<lparr>mp_pgno := 6, mp_flags := P_LEAF OR P_DIRTY OR P_KEEP\<rparr>]\<rparr>"

lemma dirty_st_simps [simp]: "get_txn dirty_st = Some (sample_txn\<lparr>mt_dirty_list := [\<lparr>mid = 2, mptr = PNull\<rparr>,
    \<lparr>mid = 5, mptr = PMem 2\<rparr>, \<lparr>mid = 6, mptr = PMem 3\<rparr>]\<rparr>)" "env dirty_st = sample_env\<lparr>me_txn := True\<rparr>"
  "heap dirty_st = [2 \<mapsto> blank_page\<lparr>mp_pgno := 5, mp_flags := P_LEAF OR P_DIRTY\<rparr>,
              3 \<mapsto> blank_page\<lparr>mp_pgno := 6, mp_flags := P_LEAF OR P_DIRTY OR P_KEEP\<rparr>]"
  by (simp_all add: dirty_st_def get_txn_def)

lemma dirty_st_entries: "cells [\<lparr>mid = 2, mptr = PNull\<rparr>, \<lparr>mid = 5, mptr = PMem 2\<rparr>, \<lparr>mid = 6, mptr = PMem 3\<rparr>] (Suc 0) 3 =
    [\<lparr>mid = 5, mptr = PMem 2\<rparr>, \<lparr>mid = 6, mptr = PMem 3\<rparr>]"
  by (simp add: cells_def upt_conv_Cons numeral_2_eq_2 numeral_3_eq_3)

lemma dirty_st_ok: "dirty_ok dirty_st"
  by (simp add: dirty_ok_def dirty_entries_def dirty_st_entries entries_ok_def IS_OVERFLOW_def F_ISSET_def page_flag_defs blank_page_def)

lemma dirty_st_written: "written_pages dirty_st [\<lparr>mid = 5, mptr = PMem 2\<rparr>, \<lparr>mid = 6, mptr = PMem 3\<rparr>] =
    [(5, blank_page\<lparr>mp_pgno := 5, mp_flags := P_LEAF\<rparr>)]"
  by (simp add: written_pages_def entry_page_def get_page_def page_kept_def page_clean_def anyset_def page_flag_defs blank_page_def)

lemma page_flush_writes_witness:
  "\<exists>rc st' k. mdb_page_flush 0 dirty_st = Some (rc, st') \<and> (rc = 0 \<longrightarrow> k = 1) \<and> me_metas (env st') = [sample_meta 6, sample_meta 5]
     \<and> me_map (env st') = store_batch Map.empty (take k [(5, blank_page\<lparr>mp_pgno := 5, mp_flags := P_LEAF\<rparr>)])"
proof -
  obtain rc st' k where "mdb_page_flush 0 dirty_st = Some (rc, st')"
    "me_map (env st') = store_batch (me_map (env dirty_st)) (take k [(5, blank_page\<lparr>mp_pgno := 5, mp_flags := P_LEAF\<rparr>)])"
    "me_metas (env st') = me_metas (env dirty_st)" "rc = 0 \<longrightarrow> k = 1"
    using page_flush_writes [OF dirty_st_ok, OF _ dirty_st_simps(1)]
    by (auto simp: dirty_entries_def dirty_st_entries dirty_st_written)
  then show ?thesis by auto
qed

end
