(* ===== verification/Lmdb_Commit_Facts.thy ===== *)
theory Lmdb_Commit_Facts
  imports Lmdb_Commit Lmdb_Meta_Facts Lmdb_Flush_Facts
begin

text \<open>
  What \<open>mdb_txn_commit\<close> does to the file: the dirty pages are written before the meta page, and until
  the meta page is written the last committed transaction is what the environment holds.
\<close>

section \<open>Dropping the dirty list\<close>

lemma dpage_free_dpages:
  assumes "mdb_dpage_free st (PMem a) = Some st'" "heap st a = Some mp"
  shows "set (me_dpages (env st)) \<subseteq> set (me_dpages (env st'))" "\<not> IS_OVERFLOW mp \<Longrightarrow> a \<in> set (me_dpages (env st'))"
  using assms by (auto simp: mdb_dpage_free_def get_page_def mdb_page_free_def upd_env_def split: if_splits)

text \<open>The buffers of single pages are on the list of free buffers afterwards.\<close>

definition buffers_free :: "st \<Rightarrow> st \<Rightarrow> page_ref MDB_ID2 list \<Rightarrow> bool" where
  "buffers_free st st' es \<longleftrightarrow> set (me_dpages (env st)) \<subseteq> set (me_dpages (env st')) \<and>
     (\<forall>e \<in> set es. \<forall>a mp. mptr e = PMem a \<longrightarrow> heap st a = Some mp \<longrightarrow> \<not> IS_OVERFLOW mp \<longrightarrow> a \<in> set (me_dpages (env st')))"

lemma dlist_free_loop_spec:
  assumes "i + k \<le> length dl" "distinct (map mptr (cells dl i (i + k)))"
    and "\<And>e. e \<in> set (cells dl i (i + k)) \<Longrightarrow> \<exists>a mp. mptr e = PMem a \<and> heap st a = Some mp"
  shows "\<exists>st'. dlist_free_loop st dl i k = Some st' \<and> released st st' (cells dl i (i + k)) \<and>
     buffers_free st st' (cells dl i (i + k))"
  using assms
proof (induction k arbitrary: i st)
  case 0
  have "released st st []" unfolding released_def by (rule conjI, rule exI [of _ "me_dpages (env st)"]) simp_all
  then show ?case by (simp add: buffers_free_def)
next
  case (Suc k)
  define es where "es = cells dl (Suc i) (Suc i + k)"
  have es: "cells dl i (i + Suc k) = dl ! i # es" by (simp add: es_def cells_Cons)
  obtain a mp where a: "mptr (dl ! i) = PMem a" "heap st a = Some mp" using Suc.prems(3) [of "dl ! i"] es by auto
  obtain st1 where f: "mdb_dpage_free st (mptr (dl ! i)) = Some st1" "released st st1 [dl ! i]"
    using dpage_free_released [OF a] by blast
  note free = dpage_free_dpages [OF f(1) [unfolded a(1)] a(2)]
  have keep: "\<exists>b mp. mptr x = PMem b \<and> heap st1 b = heap st b \<and> heap st b = Some mp" if x: "x \<in> set es" for x
  proof -
    obtain b mp where b: "mptr x = PMem b" "heap st b = Some mp" using Suc.prems(3) [of x] x es by auto
    have "PMem a \<notin> mptr ` set es" using Suc.prems(2) a(1) es by simp
    then have "b \<noteq> a" using b(1) x by (metis image_eqI)
    then show ?thesis using b f(2) a(1) by (auto simp: released_def)
  qed
  then have mem: "\<exists>b mp. mptr x = PMem b \<and> heap st1 b = Some mp" if "x \<in> set es" for x
    using that by fastforce
  obtain st' where r: "dlist_free_loop st1 dl (Suc i) k = Some st'" "released st1 st' es" "buffers_free st1 st' es"
    using Suc.IH [of "Suc i" st1] Suc.prems(1,2) mem es by (auto simp: es_def)
  have "buffers_free st st' (dl ! i # es)"
    unfolding buffers_free_def
  proof (intro conjI ballI allI impI)
    show "set (me_dpages (env st)) \<subseteq> set (me_dpages (env st'))" using free(1) r(3) by (auto simp: buffers_free_def)
    fix e b mp' assume e: "e \<in> set (dl ! i # es)" "mptr e = PMem b" "heap st b = Some mp'" "\<not> IS_OVERFLOW mp'"
    show "b \<in> set (me_dpages (env st'))"
    proof (cases "e \<in> set es")
      case True
      then have "heap st1 b = Some mp'" using keep [OF True] e(2,3) by auto
      then show ?thesis using r(3) True e(2,4) by (auto simp: buffers_free_def)
    next
      case False
      then have "b = a" "mp' = mp" using e a by auto
      then show ?thesis using free(2) e(4) r(3) by (auto simp: buffers_free_def)
    qed
  qed
  then show ?case using f Suc.prems(1) released_trans [OF f(2) r(2)] r(1) es by (auto simp: rd_def)
qed

lemma dlist_free_spec:
  assumes "get_txn st = Some t" "unat (mid (mt_dirty_list t ! 0)) < length (mt_dirty_list t)"
    and "distinct (map mptr (dirty_entries t))"
    and "\<And>e. e \<in> set (dirty_entries t) \<Longrightarrow> \<exists>a mp. mptr e = PMem a \<and> heap st a = Some mp"
  shows "\<exists>st' dl. mdb_dlist_free st = Some st' \<and> (\<exists>dps. env st' = env st\<lparr>me_dpages := dps\<rparr>) \<and>
     txns st' = t\<lparr>mt_dirty_list := dl\<rparr> # tl (txns st) \<and> dl \<noteq> [] \<and> buffers_free st st' (dirty_entries t) \<and>
     io_rc st' = io_rc st \<and> nio st' = nio st"
proof -
  have "0 < length (mt_dirty_list t)" using assms(2) by linarith
  then have rd: "rd (mt_dirty_list t) 0 = Some (mt_dirty_list t ! 0)" "mt_dirty_list t \<noteq> []" by auto
  obtain st' where f: "dlist_free_loop st (mt_dirty_list t) 1 (unat (mid (mt_dirty_list t ! 0))) = Some st'"
    "released st st' (dirty_entries t)" "buffers_free st st' (dirty_entries t)"
    using dlist_free_loop_spec [of 1 "unat (mid (mt_dirty_list t ! 0))" "mt_dirty_list t" st] assms(2-4)
    by (auto simp: dirty_entries_def)
  obtain ts where ts: "txns st = t # ts" using assms(1) by (auto simp: get_txn_cons)
  show ?thesis
    using assms(1) rd f ts
    by (auto simp: mdb_dlist_free_def released_def buffers_free_def set_dirty_list_def upd_txn_def Let_def)
qed

section \<open>The loose pages of a nested transaction\<close>

text \<open>
  When the parent and the child both have loose pages, the commit of the child has no result: the scan
  for the end of the parent's list leaves the list, and the child's pages are stored elsewhere.
\<close>

lemma commit_child_loose_lost:
  assumes "mt_loose_pgs p \<noteq> []" and "mt_loose_pgs t \<noteq> []"
    and "mdb_midl_append_list (mem_of st) (mt_free_pgs p) (idl_ids (mt_free_pgs t)) = Some (0, idl)"
  shows "commit_child t p ts st = None"
  using assms by (auto simp: commit_child_def append_loose_def Let_def split: Option.bind_splits prod.splits)

section \<open>The pages, then the meta page\<close>

lemma metas_ok_cong: "me_metas e = me_metas e' \<Longrightarrow> metas_ok e m = metas_ok e' m"
  by (simp add: metas_ok_def mdb_env_pick_meta_def picked_meta_def)

lemma commit_write_run:
  assumes "dirty_ok st" and "\<not> anyset (me_flags (env st)) MDB_WRITEMAP" and "get_txn st = Some t"
    and "metas_ok (env st) m" and "mm_txnid m \<noteq> -1" and "mt_txnid t = mm_txnid m + 1" and "2 \<le> length (mt_dbs t)"
  defines "W \<equiv> written_pages st (dirty_entries t)"
  shows "\<exists>rc st' k. commit_write st = Some (rc, st') \<and> me_map (env st') = store_batch (me_map (env st)) (take k W) \<and>
     (me_metas (env st') \<noteq> me_metas (env st) \<longrightarrow> k = length W) \<and>
     (rc = 0 \<longrightarrow> k = length W \<and> (\<exists>m'. metas_ok (env st') m' \<and> mm_txnid m' = mt_txnid t \<and>
          mm_dbs m' = [mt_dbs t ! FREE_DBI, mt_dbs t ! MAIN_DBI] \<and> mm_last_pg m' = mt_next_pgno t - 1)) \<and>
     (rc \<noteq> 0 \<longrightarrow> metas_ok (env st') m \<or> F_ISSET (me_flags (env st')) MDB_FATAL_ERROR)"
proof -
  obtain rc1 st1 k dps dl room where f: "mdb_page_flush 0 st = Some (rc1, st1)"
    "env st1 = env st\<lparr>me_map := store_batch (me_map (env st)) (take k W), me_dpages := dps\<rparr>"
    "txns st1 = t\<lparr>mt_dirty_list := dl, mt_dirty_room := room\<rparr> # tl (txns st)"
    "rc1 = 0 \<longrightarrow> k = length W \<and> unat (mid (dl ! 0)) < length dl \<and>
        cells dl 1 (Suc (unat (mid (dl ! 0)))) = filter (\<lambda>e. page_kept (entry_page st e)) (dirty_entries t) \<and>
        (\<forall>e \<in> set (dirty_entries t). page_kept (entry_page st e) \<longrightarrow> (\<exists>a mp. mptr e = PMem a \<and> heap st1 a = Some mp))"
    using page_flush_run [OF assms(1-3)] unfolding W_def by blast
  have metas1: "metas_ok (env st1) m" using metas_ok_cong [of "env st1" "env st"] assms(4) f(2) by simp
  show ?thesis
  proof (cases "rc1 = 0")
    case False
    then show ?thesis
      using f(1,2) metas1
      by (intro exI [of _ rc1] exI [of _ st1] exI [of _ k]) (simp add: commit_write_def rc_bind_def)
  next
    case True
    obtain rc2 st2 where s: "mdb_env_sync False st1 = (rc2, st2)" by fastforce
    then have s2: "env st2 = env st1" "txns st2 = txns st1" "heap st2 = heap st1"
      by (auto simp: mdb_env_sync_def io_call_def split: if_splits)
    show ?thesis
    proof (cases "rc2 = 0")
      case False
      then show ?thesis
        using f(1,2) metas1 \<open>rc1 = 0\<close> s s2(1)
        by (intro exI [of _ rc2] exI [of _ st2] exI [of _ k]) (simp add: commit_write_def rc_bind_def)
    next
      case rc2: True
      define t1 where "t1 = t\<lparr>mt_dirty_list := dl, mt_dirty_room := room\<rparr>"
      have g: "get_txn st2 = Some t1" "metas_ok (env st2) m" "mt_txnid t1 = mm_txnid m + 1" "2 \<le> length (mt_dbs t1)"
        "\<not> anyset (me_flags (env st2)) MDB_WRITEMAP"
        using s2 f(2,3) metas1 assms(2,6,7) by (simp_all add: get_txn_def t1_def)
      obtain rc3 st3 where w: "mdb_env_write_meta st2 = Some (rc3, st3)" "me_map (env st3) = me_map (env st2)"
        "txns st3 = txns st2" "heap st3 = heap st2"
        "rc3 = 0 \<longrightarrow> (\<exists>m'. metas_ok (env st3) m' \<and> mm_txnid m' = mt_txnid t1 \<and>
          mm_dbs m' = [mt_dbs t1 ! FREE_DBI, mt_dbs t1 ! MAIN_DBI] \<and> mm_last_pg m' = mt_next_pgno t1 - 1) \<and>
          me_flags (env st3) = me_flags (env st2)"
        "rc3 \<noteq> 0 \<longrightarrow> F_ISSET (me_flags (env st3)) MDB_FATAL_ERROR"
        using env_write_meta_run [OF g(1,2) assms(5) g(3-5)] by blast
      have k: "k = length W" using f(4) True by simp
      show ?thesis
      proof (cases "rc3 = 0")
        case False
        then show ?thesis
          using f(1,2) \<open>rc1 = 0\<close> s rc2 w s2(1) k
          by (intro exI [of _ rc3] exI [of _ st3] exI [of _ k]) (simp add: commit_write_def rc_bind_def)
      next
        case rc3: True
        have de: "dirty_entries t1 = filter (\<lambda>e. page_kept (entry_page st e)) (dirty_entries t)"
          and len: "unat (mid (mt_dirty_list t1 ! 0)) < length (mt_dirty_list t1)"
          using f(4) True by (simp_all add: t1_def dirty_entries_def)
        have "distinct (map mptr (dirty_entries t))"
          using assms(1,3) by (auto simp: dirty_ok_def entries_ok_def)
        then have d: "distinct (map mptr (dirty_entries t1))" by (simp add: de distinct_map_filter)
        have h: "\<exists>a mp. mptr e = PMem a \<and> heap st3 a = Some mp" if "e \<in> set (dirty_entries t1)" for e
          using that f(4) True s2(3) w(4) by (auto simp: de)
        have t3: "get_txn st3 = Some t1" using g(1) w(3) by (simp add: get_txn_def)
        obtain st4 dps4 where l: "mdb_dlist_free st3 = Some st4" "env st4 = env st3\<lparr>me_dpages := dps4\<rparr>"
          using dlist_free_spec [OF t3 len d h] by blast
        have run: "commit_write st = Some (0, st4)"
          using f(1) \<open>rc1 = 0\<close> s rc2 w(1,5) rc3 l(1) g(5) by (simp add: commit_write_def rc_bind_def)
        obtain m' where "metas_ok (env st3) m'" "mm_txnid m' = mt_txnid t1"
          "mm_dbs m' = [mt_dbs t1 ! FREE_DBI, mt_dbs t1 ! MAIN_DBI]" "mm_last_pg m' = mt_next_pgno t1 - 1"
          using w(5) rc3 by blast
        then show ?thesis
          using run l(2) w(2) s2(1) f(2) k metas_ok_cong [of "env st4" "env st3"]
          by (intro exI [of _ 0] exI [of _ st4] exI [of _ k]) (auto simp: t1_def)
      qed
    qed
  qed
qed

text \<open>The pages that a write of one page changes.\<close>

definition page_covers :: "pgno_t \<times> MDB_page \<Rightarrow> pgno_t \<Rightarrow> bool" where
  "page_covers w q \<longleftrightarrow> q = fst w \<or> IS_OVERFLOW (snd w) \<and> fst w < q \<and> unat q < unat (fst w) + mp_pages (snd w)"

lemma store_batch_other: "\<forall>w \<in> set ws. \<not> page_covers w q \<Longrightarrow> store_batch m ws q = m q"
  by (induction m ws rule: store_batch.induct) (auto simp: page_covers_def store_map_def)

text \<open>
  C11: the end of a commit (\<open>mdb_page_flush\<close>, \<open>mdb_env_sync\<close>, \<open>mdb_env_write_meta\<close>, \<open>mdb_dlist_free\<close>)
  changes the meta pages only after every dirty page is in the file, and never a page that is not
  dirty.  When it succeeds, the dirty pages are in the file and the meta page of the transaction is in
  force; when it fails, the old meta page is in force or the environment is marked as unusable.
\<close>

theorem commit_write_ordering:
  assumes "dirty_ok st" and "\<not> anyset (me_flags (env st)) MDB_WRITEMAP" and "get_txn st = Some t"
    and "metas_ok (env st) m" and "mm_txnid m \<noteq> -1" and "mt_txnid t = mm_txnid m + 1" and "2 \<le> length (mt_dbs t)"
    and "W = written_pages st (dirty_entries t)"
  shows "\<exists>rc st' k. commit_write st = Some (rc, st') \<and> me_map (env st') = store_batch (me_map (env st)) (take k W) \<and>
     (me_metas (env st') \<noteq> me_metas (env st) \<longrightarrow> k = length W) \<and>
     (\<forall>q. (\<forall>w \<in> set W. \<not> page_covers w q) \<longrightarrow> me_map (env st') q = me_map (env st) q) \<and>
     (rc = 0 \<longrightarrow> k = length W \<and> (\<exists>m'. metas_ok (env st') m' \<and> mm_txnid m' = mt_txnid t \<and>
          mm_dbs m' = [mt_dbs t ! FREE_DBI, mt_dbs t ! MAIN_DBI] \<and> mm_last_pg m' = mt_next_pgno t - 1)) \<and>
     (rc \<noteq> 0 \<longrightarrow> metas_ok (env st') m \<or> F_ISSET (me_flags (env st')) MDB_FATAL_ERROR)"
proof -
  obtain rc st' k where run: "commit_write st = Some (rc, st')" "me_map (env st') = store_batch (me_map (env st)) (take k W)"
     "me_metas (env st') \<noteq> me_metas (env st) \<longrightarrow> k = length W"
     "rc = 0 \<longrightarrow> k = length W \<and> (\<exists>m'. metas_ok (env st') m' \<and> mm_txnid m' = mt_txnid t \<and>
          mm_dbs m' = [mt_dbs t ! FREE_DBI, mt_dbs t ! MAIN_DBI] \<and> mm_last_pg m' = mt_next_pgno t - 1)"
     "rc \<noteq> 0 \<longrightarrow> metas_ok (env st') m \<or> F_ISSET (me_flags (env st')) MDB_FATAL_ERROR"
    using commit_write_run [OF assms(1-7)] unfolding assms(8) by blast
  have "me_map (env st') q = me_map (env st) q" if "\<forall>w \<in> set W. \<not> page_covers w q" for q
    unfolding run(2) by (rule store_batch_other) (use that in_set_takeD in fast)
  then show ?thesis using run by blast
qed

lemma commit_write_ordering_witness:
  "\<exists>rc st'. commit_write dirty_st = Some (rc, st') \<and> me_map (env st') 4 = None \<and>
     (rc = 0 \<longrightarrow> me_map (env st') 5 = Some (blank_page\<lparr>mp_pgno := 5, mp_flags := P_LEAF\<rparr>) \<and> (\<exists>m'. metas_ok (env st') m' \<and> mm_txnid m' = 7))"
proof -
  have m: "metas_ok (env dirty_st) (sample_meta 6)" using sample_metas_ok(2) by simp
  define t where "t = sample_txn\<lparr>mt_dirty_list := [\<lparr>mid = 2, mptr = PNull\<rparr>, \<lparr>mid = 5, mptr = PMem 2\<rparr>, \<lparr>mid = 6, mptr = PMem 3\<rparr>]\<rparr>"
  define W where "W = [(5 :: pgno_t, blank_page\<lparr>mp_pgno := 5, mp_flags := P_LEAF\<rparr>)]"
  have W: "W = written_pages dirty_st (dirty_entries t)"
    by (simp add: W_def t_def dirty_entries_def dirty_st_entries dirty_st_written)
  have h: "\<not> anyset (me_flags (env dirty_st)) MDB_WRITEMAP" "get_txn dirty_st = Some t" "mm_txnid (sample_meta 6) \<noteq> -1"
    "mt_txnid t = mm_txnid (sample_meta 6) + 1" "2 \<le> length (mt_dbs t)" "mt_txnid t = 7" by (simp_all add: t_def)
  obtain rc st' k where run: "commit_write dirty_st = Some (rc, st')"
     "me_map (env st') = store_batch (me_map (env dirty_st)) (take k W)"
     "\<forall>q. (\<forall>w \<in> set W. \<not> page_covers w q) \<longrightarrow> me_map (env st') q = me_map (env dirty_st) q"
     "rc = 0 \<longrightarrow> k = length W \<and> (\<exists>m'. metas_ok (env st') m' \<and> mm_txnid m' = 7)"
    using commit_write_ordering [OF dirty_st_ok h(1,2) m h(3-5) W] unfolding h(6) by blast
  have "\<not> IS_OVERFLOW (blank_page\<lparr>mp_pgno := 5, mp_flags := P_LEAF\<rparr>)"
    by (simp add: IS_OVERFLOW_def F_ISSET_def page_flag_defs)
  then have "\<forall>w \<in> set W. \<not> page_covers w 4" by (simp add: W_def page_covers_def)
  then have "me_map (env st') 4 = None" using run(3) by simp
  moreover have "rc = 0 \<longrightarrow> me_map (env st') 5 = Some (blank_page\<lparr>mp_pgno := 5, mp_flags := P_LEAF\<rparr>)"
    using run(2,4) by (auto simp: W_def store_map_def)
  ultimately show ?thesis using run(1,4) by blast
qed

end
