(* ===== verification/Lmdb_Txn_Facts.thy ===== *)
theory Lmdb_Txn_Facts
  imports Lmdb_Commit_Facts
begin

text \<open>
  What starting and ending a transaction guarantees: a write transaction starts from the last committed
  meta page, a read-only one claims a slot of the reader table and takes its snapshot, an abort leaves
  nothing of the transaction but its list of loose pages.
\<close>

section \<open>Starting a write transaction\<close>

text \<open>The environment is open, \<open>m\<close> is in force and no write transaction runs.\<close>

definition writer_ready :: "MDB_env \<Rightarrow> MDB_meta \<Rightarrow> bool" where
  "writer_ready e m \<longleftrightarrow> metas_ok e m \<and> (\<exists>ti. me_txns e = Some ti \<and> mti_txnid ti = mm_txnid m) \<and> \<not> me_txn e \<and>
     \<not> anyset (me_flags e) MDB_FATAL_ERROR \<and> \<not> anyset (me_flags e) MDB_RDONLY \<and>
     mt_dirty_list (me_txn0 e) \<noteq> [] \<and> idl_ids (me_free_pgs e) \<noteq> [] \<and>
     2 \<le> length (mt_dbs (me_txn0 e)) \<and> me_numdbs e \<le> length (mt_dbs (me_txn0 e)) \<and>
     length (mt_dbflags (me_txn0 e)) = length (mt_dbs (me_txn0 e)) \<and> me_numdbs e \<le> length (me_dbflags e) \<and>
     mm_last_pg m + 1 \<le> me_maxpg e"

text \<open>What a fresh write transaction is: the next one, with the committed databases and nothing dirty.\<close>

definition fresh_writer :: "MDB_txn \<Rightarrow> MDB_meta \<Rightarrow> bool" where
  "fresh_writer t m \<longleftrightarrow> mt_txnid t = mm_txnid m + 1 \<and> mt_flags t = 0 \<and>
     mt_dbs t ! FREE_DBI = mm_dbs m ! FREE_DBI \<and> mt_dbs t ! MAIN_DBI = mm_dbs m ! MAIN_DBI \<and>
     mt_next_pgno t = mm_last_pg m + 1 \<and> dirty_entries t = [] \<and> mt_dirty_room t = MDB_IDL_UM_MAX \<and>
     mt_spill_pgs t = None \<and> idl_count (idl_ids (mt_free_pgs t)) = 0"

lemma metas_rd: "metas_ok e m \<Longrightarrow> rd (me_metas e) (unat (mm_txnid m AND 1)) = Some m"
  by (auto simp: metas_ok_def picked_meta_def)

lemma upd_txn_simps [simp]: "env (upd_txn f st) = env st" "heap (upd_txn f st) = heap st" "crs (upd_txn f st) = crs st"
  by (simp_all add: upd_txn_def)

lemma get_txn_upd [simp]: "get_txn (upd_txn f st) = map_option f (get_txn st)"
  by (simp add: upd_txn_def get_txn_def split: list.splits)

lemma upd_env_simps [simp]: "env (upd_env f st) = f (env st)" "txns (upd_env f st) = txns st" "get_txn (upd_env f st) = get_txn st"
  "heap (upd_env f st) = heap st" "crs (upd_env f st) = crs st"
  by (simp_all add: upd_env_def get_txn_def)

lemma not_anyset_0 [simp]: "\<not> anyset 0 f"
  by (simp add: anyset_def)

lemma begin_writer_run:
  assumes "txns st = []" and "writer_ready (env st) m" and "\<not> anyset flags MDB_RDONLY"
  shows "\<exists>st'. mdb_txn_begin None flags st = Some (io_rc st (nio st), st') \<and> me_map (env st') = me_map (env st) \<and>
     me_metas (env st') = me_metas (env st) \<and> me_txns (env st') = me_txns (env st) \<and> me_dpages (env st') = me_dpages (env st) \<and>
     (if io_rc st (nio st) = 0
      then \<exists>t. txns st' = [t] \<and> fresh_writer t m \<and> me_txn (env st') \<and> mt_loose_pgs t = mt_loose_pgs (me_txn0 (env st))
      else txns st' = [] \<and> \<not> me_txn (env st'))"
proof -
  define e where "e = env st"
  define t0 where "t0 = me_txn0 e"
  obtain ti where ok: "metas_ok e m" and ti: "me_txns e = Some ti" "mti_txnid ti = mm_txnid m" "\<not> me_txn e"
    and fl: "\<not> anyset (me_flags e) MDB_FATAL_ERROR" "\<not> anyset (me_flags e) MDB_RDONLY"
    and ne: "mt_dirty_list t0 \<noteq> []" "idl_ids (me_free_pgs e) \<noteq> []" "2 \<le> length (mt_dbs t0)" "me_numdbs e \<le> length (mt_dbs t0)"
      "length (mt_dbflags t0) = length (mt_dbs t0)" "me_numdbs e \<le> length (me_dbflags e)" and mx: "mm_last_pg m + 1 \<le> me_maxpg e"
    using assms(2) by (auto simp: writer_ready_def e_def t0_def)
  have len: "length (mm_dbs m) = 2"
    using ok by (elim metas_ok_cases) auto
  define d0 where "d0 = mt_dirty_list t0 ! 0"
  have rd: "rd (mt_dirty_list t0) 0 = Some d0" "wr (idl_ids (me_free_pgs e)) 0 0 = Some ((idl_ids (me_free_pgs e))[0 := 0])"
    using ne(1,2) by (simp_all add: d0_def wr_def)
  define st1 where "st1 = upd_txn (\<lambda>t. t\<lparr>mt_numdbs := me_numdbs e, mt_dbxs := True\<rparr>) (st\<lparr>txns := [t0\<lparr>mt_flags := 0\<rparr>]\<rparr>)"
  have s1: "env st1 = e" "get_txn st1 = Some (t0\<lparr>mt_flags := 0, mt_numdbs := me_numdbs e, mt_dbxs := True\<rparr>)"
    "txns st1 = [t0\<lparr>mt_flags := 0, mt_numdbs := me_numdbs e, mt_dbxs := True\<rparr>]" "io_rc st1 = io_rc st" "nio st1 = nio st"
    by (simp_all add: st1_def e_def get_txn_def upd_txn_def)
  show ?thesis
  proof (cases "io_rc st (nio st) = 0")
    case False
    have "mdb_txn_renew0 (st\<lparr>txns := [t0\<lparr>mt_flags := 0\<rparr>]\<rparr>) = Some (io_rc st (nio st), st1\<lparr>nio := nio st + 1\<rparr>)"
      using s1 ti False by (simp add: mdb_txn_renew0_def renew_writer_def io_call_def st1_def [symmetric] e_def [symmetric])
    then have "mdb_txn_begin None flags st = Some (io_rc st (nio st), release_txn (st1\<lparr>nio := nio st + 1\<rparr>))"
      using fl assms(1,3) False by (simp add: mdb_txn_begin_def Let_def e_def [symmetric] t0_def [symmetric])
    then show ?thesis using False s1 ti(3) by (simp add: release_txn_def Let_def e_def [symmetric])
  next
    case True
    define t1 where "t1 = t0\<lparr>mt_flags := 0, mt_numdbs := me_numdbs e, mt_dbxs := True, mt_txnid := mm_txnid m + 1,
      mt_dirty_room := MDB_IDL_UM_MAX, mt_dirty_list := (mt_dirty_list t0)[0 := d0\<lparr>mid := 0\<rparr>],
      mt_free_pgs := (me_free_pgs e)\<lparr>idl_ids := (idl_ids (me_free_pgs e))[0 := 0]\<rparr>, mt_spill_pgs := None,
      mt_dbiseqs := me_dbiseqs e\<rparr>"
    define st2 where "st2 = st1\<lparr>nio := nio st + 1, txns := [t1], env := e\<lparr>me_txn := True\<rparr>\<rparr>"
    have s2: "get_txn st2 = Some t1" "env st2 = e\<lparr>me_txn := True\<rparr>" "txns st2 = [t1]"
      by (simp_all add: st2_def get_txn_def)
    have w: "renew_writer st1 = Some (0, False, Some m, st2)"
      using s1 ti True rd metas_rd [OF ok]
      by (simp add: renew_writer_def io_call_def get_txn_def t1_def st2_def upd_txn_def upd_env_def)
    define t2 where "t2 = t1\<lparr>mt_dbs := map (\<lambda>i. renew_db (env st2) m (mt_numdbs t1) i (mt_dbs t1 ! i)) [0..<length (mt_dbs t1)],
      mt_dbflags := map (\<lambda>i. renew_dbflag (env st2) (mt_numdbs t1) i (mt_dbflags t1 ! i)) [0..<length (mt_dbflags t1)],
      mt_next_pgno := mm_last_pg m + 1\<rparr>"
    have l1: "length (mt_dbs t1) = length (mt_dbs t0)" "length (mt_dbflags t1) = length (mt_dbflags t0)" "mt_numdbs t1 = me_numdbs e"
      by (simp_all add: t1_def)
    have mx': "\<not> me_maxpg e < mm_last_pg m + 1" using mx by simp
    have u2: "upd_txn f st2 = st2\<lparr>txns := [f t1]\<rparr>" for f by (simp add: upd_txn_def s2(3))
    have "mdb_txn_renew0 (st\<lparr>txns := [t0\<lparr>mt_flags := 0\<rparr>]\<rparr>) = Some (MDB_SUCCESS, st2\<lparr>txns := [t2]\<rparr>)"
      using s1 s2 w ne(3-6) len mx' l1
      by (simp add: mdb_txn_renew0_def Let_def e_def [symmetric] st1_def [symmetric] t2_def u2)
    then have "mdb_txn_begin None flags st = Some (MDB_SUCCESS, st2\<lparr>txns := [t2]\<rparr>)"
      using fl assms(1,3) by (simp add: mdb_txn_begin_def Let_def e_def [symmetric] t0_def [symmetric] MDB_SUCCESS_def)
    moreover have "fresh_writer t2 m"
    proof -
      have "mt_dbs t2 ! i = mm_dbs m ! i" if "i < 2" for i
        using that ne(3) l1(1) by (simp add: t2_def renew_db_def)
      moreover have "dirty_entries t2 = []" using ne(1) by (simp add: dirty_entries_def t2_def t1_def)
      ultimately show ?thesis using ne(2)
        by (simp add: fresh_writer_def t2_def t1_def FREE_DBI_def MAIN_DBI_def)
    qed
    ultimately show ?thesis using True s2(2)
      by (intro exI [of _ "st2\<lparr>txns := [t2]\<rparr>"]) (simp add: e_def [symmetric] MDB_SUCCESS_def t2_def t1_def t0_def)
  qed
qed

section \<open>Aborting a write transaction\<close>

lemma dbis_update_loop_env:
  "\<exists>a b c. dbis_update_loop t keep n e = e\<lparr>me_dbxs := a, me_dbflags := b, me_dbiseqs := c\<rparr> \<and>
     length b = length (me_dbflags e)"
proof (induction n arbitrary: e)
  case 0
  show ?case
    by (rule exI [of _ "me_dbxs e"], rule exI [of _ "me_dbflags e"], rule exI [of _ "me_dbiseqs e"]) simp
next
  case (Suc n)
  show ?case
  proof (cases "n < 2")
    case True
    then show ?thesis
      by (intro exI [of _ "me_dbxs e"] exI [of _ "me_dbflags e"] exI [of _ "me_dbiseqs e"]) simp
  next
    case False
    define e1 where "e1 = (if anyset (mt_dbflags t ! n) DB_NEW then
           if keep then e\<lparr>me_dbflags := (me_dbflags e)[n := md_flags (mt_dbs t ! n) OR mdb_valid]\<rparr>
           else if md_name (me_dbxs e ! n) \<noteq> [] then
             e\<lparr>me_dbxs := (me_dbxs e)[n := (me_dbxs e ! n)\<lparr>md_name := []\<rparr>],
               me_dbflags := (me_dbflags e)[n := 0],
               me_dbiseqs := (me_dbiseqs e)[n := me_dbiseqs e ! n + 1]\<rparr>
           else e
         else e)"
    obtain a b c where "dbis_update_loop t keep n e1 = e1\<lparr>me_dbxs := a, me_dbflags := b, me_dbiseqs := c\<rparr>"
      "length b = length (me_dbflags e1)" using Suc.IH by blast
    moreover have "e1\<lparr>me_dbxs := a, me_dbflags := b, me_dbiseqs := c\<rparr> = e\<lparr>me_dbxs := a, me_dbflags := b, me_dbiseqs := c\<rparr>"
      "length (me_dbflags e1) = length (me_dbflags e)"
      by (simp_all add: e1_def)
    moreover have "dbis_update_loop t keep (Suc n) e = dbis_update_loop t keep n e1"
      using False by (simp only: dbis_update_loop.simps if_False e1_def)
    ultimately show ?thesis by (intro exI [of _ a] exI [of _ b] exI [of _ c]) simp
  qed
qed

lemma close_cursors_keeps [simp]: "env (close_cursors bs mg ms st) = env st" "txns (close_cursors bs mg ms st) = txns st"
  "heap (close_cursors bs mg ms st) = heap st" "io_rc (close_cursors bs mg ms st) = io_rc st" "nio (close_cursors bs mg ms st) = nio st"
  by (induction bs mg ms st rule: close_cursors.induct) (auto simp: upd_cur_def drop_cursor_def split: option.splits)

lemma shrink_nonempty: "mdb_midl_shrink mem idl = (r, idl') \<Longrightarrow> idl_ids idl \<noteq> [] \<Longrightarrow> idl_ids idl' \<noteq> []"
  by (auto simp: mdb_midl_shrink_def realloc_cells_def split: if_splits)

text \<open>A write transaction without a parent, in an environment where \<open>m\<close> is in force.\<close>

definition writer_runs :: "st \<Rightarrow> MDB_txn \<Rightarrow> MDB_meta \<Rightarrow> bool" where
  "writer_runs st t m \<longleftrightarrow> txns st = [t] \<and> \<not> anyset (mt_flags t) MDB_TXN_RDONLY \<and> \<not> anyset (me_flags (env st)) MDB_WRITEMAP \<and>
     unat (mid (mt_dirty_list t ! 0)) < length (mt_dirty_list t) \<and> distinct (map mptr (dirty_entries t)) \<and>
     (\<forall>e \<in> set (dirty_entries t). \<exists>a mp. mptr e = PMem a \<and> heap st a = Some mp) \<and>
     mt_numdbs t \<le> length (mt_dbs t) \<and> idl_ids (mt_free_pgs t) \<noteq> [] \<and>
     writer_ready (env st\<lparr>me_txn := False, me_txn0 := t\<rparr>) m"

lemma abort_writer_run:
  assumes "writer_runs st t m"
  shows "\<exists>st'. mdb_txn_abort 0 st = Some st' \<and> txns st' = [] \<and> writer_ready (env st') m \<and>
     me_map (env st') = me_map (env st) \<and> me_metas (env st') = me_metas (env st) \<and> me_txns (env st') = me_txns (env st) \<and>
     buffers_free st st' (dirty_entries t) \<and> mt_loose_pgs (me_txn0 (env st')) = mt_loose_pgs t \<and>
     io_rc st' = io_rc st \<and> nio st' = nio st"
proof -
  have w: "txns st = [t]" "\<not> anyset (mt_flags t) MDB_TXN_RDONLY" "\<not> anyset (me_flags (env st)) MDB_WRITEMAP"
    "mt_numdbs t \<le> length (mt_dbs t)" and rdy: "writer_ready (env st\<lparr>me_txn := False, me_txn0 := t\<rparr>) m"
    using assms by (simp_all add: writer_runs_def)
  have nr: "\<not> F_ISSET (mt_flags t) MDB_TXN_RDONLY"
    using w(2) by (auto simp: F_ISSET_def anyset_def MDB_TXN_RDONLY_def)
  have lf: "length (mt_dbflags t) = length (mt_dbs t)" using rdy by (simp add: writer_ready_def)
  have t: "get_txn st = Some t" using w(1) by (simp add: get_txn_def)
  obtain xs fs sq where u: "dbis_update_loop t False (mt_numdbs t) (env st) = env st\<lparr>me_dbxs := xs, me_dbflags := fs, me_dbiseqs := sq\<rparr>"
    "length fs = length (me_dbflags (env st))" using dbis_update_loop_env by blast
  define st1 where "st1 = st\<lparr>env := env st\<lparr>me_dbxs := xs, me_dbflags := fs, me_dbiseqs := sq, me_pghead := None, me_pglast := 0\<rparr>\<rparr>"
  have t1: "get_txn st1 = Some t" using t by (simp add: st1_def get_txn_def)
  obtain st2 dl dps where d: "mdb_dlist_free st1 = Some st2" "env st2 = env st1\<lparr>me_dpages := dps\<rparr>"
     "txns st2 = [t\<lparr>mt_dirty_list := dl\<rparr>]" "dl \<noteq> []" "buffers_free st1 st2 (dirty_entries t)" "io_rc st2 = io_rc st1" "nio st2 = nio st1"
    using dlist_free_spec [OF t1] assms w(1) by (auto simp: writer_runs_def st1_def)
  obtain r idl where sh: "mdb_midl_shrink (mem_of st2) (mt_free_pgs t) = (r, idl)" by fastforce
  have idl: "idl_ids idl \<noteq> []" using shrink_nonempty [OF sh] assms by (simp add: writer_runs_def)
  define st3 where "st3 = (tick st2)\<lparr>txns := [t\<lparr>mt_dirty_list := dl, mt_free_pgs := idl\<rparr>],
     env := (if r then env st2\<lparr>me_free_pgs := idl, me_txn := False\<rparr> else env st2\<lparr>me_txn := False\<rparr>)\<rparr>"
  define st4 where "st4 = (let st = close_cursors (mt_backups t) False (concat (rev (take (mt_numdbs t) (mt_cursors t)))) st3 in
    upd_txn (\<lambda>t'. t'\<lparr>mt_backups := [], mt_cursors := map (\<lambda>i. if i < mt_numdbs t then [] else mt_cursors t ! i) [0..<length (mt_cursors t)]\<rparr>) st)"
  have st1: "upd_env (\<lambda>e. e\<lparr>me_pghead := None, me_pglast := 0\<rparr>)
      (upd_env (\<lambda>e. let e = dbis_update_loop t False (mt_numdbs t) e in if False \<and> me_numdbs e < mt_numdbs t then e\<lparr>me_numdbs := mt_numdbs t\<rparr> else e) st) = st1"
    using u(1) by (simp add: upd_env_def st1_def Let_def)
  have st1w: "\<not> anyset (me_flags (env st1)) MDB_WRITEMAP" "\<not> has_parent st1" "\<not> has_parent st2"
    using w(1,3) d(3) by (simp_all add: st1_def has_parent_def)
  obtain st2' where st2': "shrink_free_pgs st2 = Some st2'" "upd_env (me_txn_update (\<lambda>_. False)) st2' = st3"
    using d(3) sh
    by (auto simp: shrink_free_pgs_def get_txn_def set_free_pgs_def upd_txn_def upd_env_def tick_def st3_def Let_def split: if_splits)
  have st3: "mdb_cursors_close False st3 = Some st4" "\<not> has_parent st4"
    by (simp_all add: mdb_cursors_close_def st3_def st4_def get_txn_def has_parent_def upd_txn_def Let_def)
  have reset: "mdb_txn_reset0 st = Some st4"
    using t nr w lf u(1) st1 d sh st1w st2' st3
    by (simp add: mdb_txn_reset0_def mdb_dbis_update_def)
  define t4 where "t4 = t\<lparr>mt_dirty_list := dl, mt_free_pgs := idl, mt_backups := [],
    mt_cursors := map (\<lambda>i. if i < mt_numdbs t then [] else mt_cursors t ! i) [0..<length (mt_cursors t)]\<rparr>"
  have st4: "txns st4 = [t4]" "env st4 = env st3" "io_rc st4 = io_rc st" "nio st4 = nio st"
    using d(6,7) by (simp_all add: st4_def st3_def t4_def Let_def upd_txn_def tick_def st1_def)
  have run: "mdb_txn_abort 0 st = Some (st4\<lparr>txns := [], env := (env st3)\<lparr>me_txn0 := t4\<rparr>\<rparr>)"
    using reset w(2) st4(1,2) by (simp add: txn_abort_head_def get_txn_def release_txn_def upd_env_def t4_def)
  have e3: "env st3 = (env st1)\<lparr>me_dpages := dps, me_free_pgs := (if r then idl else me_free_pgs (env st1)), me_txn := False\<rparr>"
    using d(2) by (simp add: st3_def st1_def)
  have rdy': "writer_ready ((env st3)\<lparr>me_txn0 := t4\<rparr>) m"
    using rdy d(4) idl u(2) lf
    by (auto simp: writer_ready_def e3 st1_def t4_def metas_ok_def mdb_env_pick_meta_def picked_meta_def)
  show ?thesis
    by (intro exI [of _ "st4\<lparr>txns := [], env := (env st3)\<lparr>me_txn0 := t4\<rparr>\<rparr>"])
      (use run rdy' d(5) st4(3,4) in \<open>simp add: e3 st1_def t4_def buffers_free_def d(2)\<close>)
qed

text \<open>
  C14: \<open>mdb_txn_begin\<close> of a write transaction without a parent returns the code of the writer mutex.  When
  that is 0 the transaction that runs is the one after the committed one, with the committed records
  and the first page after the committed last one as its next page, and nothing is dirty or freed; when
  it is not, no transaction runs.  The file, the meta pages and the reader table stay as they are.
\<close>

theorem begin_writer_starts_from_meta:
  assumes "txns st = []" and "writer_ready (env st) m" and "\<not> anyset flags MDB_RDONLY"
  shows "\<exists>st'. mdb_txn_begin None flags st = Some (io_rc st (nio st), st') \<and> me_map (env st') = me_map (env st) \<and>
     me_metas (env st') = me_metas (env st) \<and> me_txns (env st') = me_txns (env st) \<and>
     (if io_rc st (nio st) = 0 then me_txn (env st') \<and> (\<exists>t. txns st' = [t] \<and> fresh_writer t m)
      else txns st' = [] \<and> \<not> me_txn (env st'))"
  using begin_writer_run [OF assms] by (auto split: if_splits)

lemma sample_ready: "writer_ready sample_env (sample_meta 6)"
proof -
  have "sample_idl \<noteq> \<lparr>idl_len = 4, idl_ids = []\<rparr>" "idl_ids sample_idl \<noteq> []" by (simp_all add: sample_idl_def)
  then show ?thesis using sample_metas_ok(1) by (simp add: writer_ready_def)
qed

lemma begin_writer_starts_from_meta_witness:
  "\<exists>st' t. mdb_txn_begin None 0 sample_st = Some (0, st') \<and> txns st' = [t] \<and> fresh_writer t (sample_meta 6)"
  using begin_writer_starts_from_meta [of sample_st "sample_meta 6" 0] sample_ready by auto

text \<open>
  C15: \<open>mdb_txn_abort\<close> of a write transaction without a parent changes neither the file, nor the meta pages,
  nor the reader table, and leaves the environment ready for a write transaction: the next
  \<open>mdb_txn_begin\<close> that gets the mutex starts from the same committed state again.
\<close>

theorem abort_writer_undoes:
  assumes "writer_runs st t m" and "\<not> anyset flags MDB_RDONLY" and "io_rc st (nio st) = 0"
  shows "\<exists>st1 st2 t2. mdb_txn_abort 0 st = Some st1 \<and> txns st1 = [] \<and> \<not> me_txn (env st1) \<and>
     me_map (env st1) = me_map (env st) \<and> me_metas (env st1) = me_metas (env st) \<and> me_txns (env st1) = me_txns (env st) \<and>
     mdb_txn_begin None flags st1 = Some (0, st2) \<and> txns st2 = [t2] \<and> fresh_writer t2 m \<and> me_map (env st2) = me_map (env st)"
proof -
  obtain st1 where a: "mdb_txn_abort 0 st = Some st1" "txns st1 = []" "writer_ready (env st1) m"
     "me_map (env st1) = me_map (env st)" "me_metas (env st1) = me_metas (env st)" "me_txns (env st1) = me_txns (env st)"
     "io_rc st1 = io_rc st" "nio st1 = nio st"
    using abort_writer_run [OF assms(1)] by blast
  then obtain st2 t2 where "mdb_txn_begin None flags st1 = Some (0, st2)" "txns st2 = [t2]" "fresh_writer t2 m"
    "me_map (env st2) = me_map (env st)"
    using begin_writer_run [OF a(2,3) assms(2)] assms(3) by auto
  moreover have "\<not> me_txn (env st1)" using a(3) by (simp add: writer_ready_def)
  ultimately show ?thesis using a by blast
qed

text \<open>A write transaction with one dirty page, which is loose.\<close>

definition loose_txn :: MDB_txn where
  "loose_txn = sample_txn\<lparr>mt_dirty_list := [\<lparr>mid = 1, mptr = PNull\<rparr>, \<lparr>mid = 5, mptr = PMem 2\<rparr>], mt_loose_pgs := [PMem 2],
     mt_loose_count := 1\<rparr>"

definition loose_st :: st where
  "loose_st = sample_wst\<lparr>txns := [loose_txn], heap := [2 \<mapsto> blank_page\<lparr>mp_pgno := 5, mp_flags := P_LEAF OR P_DIRTY OR P_LOOSE\<rparr>]\<rparr>"

lemma loose_st_simps [simp]: "txns loose_st = [loose_txn]" "env loose_st = sample_env\<lparr>me_txn := True\<rparr>"
  "heap loose_st = [2 \<mapsto> blank_page\<lparr>mp_pgno := 5, mp_flags := P_LEAF OR P_DIRTY OR P_LOOSE\<rparr>]" "io_rc loose_st = (\<lambda>_. 0)"
  by (simp_all add: loose_st_def)

lemma loose_entries: "dirty_entries loose_txn = [\<lparr>mid = 5, mptr = PMem 2\<rparr>]"
  by (simp add: dirty_entries_def loose_txn_def cells_def upt_conv_Cons)

lemma loose_runs: "writer_runs loose_st loose_txn (sample_meta 6)"
proof -
  have "writer_ready (env loose_st\<lparr>me_txn := False, me_txn0 := loose_txn\<rparr>) (sample_meta 6)"
    using sample_ready by (simp add: writer_ready_def metas_ok_def mdb_env_pick_meta_def picked_meta_def loose_txn_def)
  moreover have "idl_ids sample_idl \<noteq> []" by (simp add: sample_idl_def)
  ultimately show ?thesis
    by (simp add: writer_runs_def loose_entries) (simp add: loose_txn_def)
qed

lemma abort_writer_undoes_witness:
  "\<exists>st1 st2 t2. mdb_txn_abort 0 loose_st = Some st1 \<and> mdb_txn_begin None 0 st1 = Some (0, st2) \<and> txns st2 = [t2] \<and>
     mt_txnid t2 = 7"
  using abort_writer_undoes [OF loose_runs, of 0] by (auto simp: fresh_writer_def)

text \<open>
  C19: the list of loose pages is not reset: when a write transaction with a loose page is aborted, the next
  one allocates that page although its buffer is on the environment's list of free buffers and it is
  not in the dirty list.
\<close>

theorem abort_keeps_loose_pages:
  assumes "writer_runs st t m" and "\<not> anyset flags MDB_RDONLY" and "io_rc st (nio st) = 0"
    and "mt_loose_pgs t = PMem a # ps" and "\<lparr>mid = pg, mptr = PMem a\<rparr> \<in> set (dirty_entries t)"
    and "heap st a = Some mp" and "\<not> IS_OVERFLOW mp"
  shows "\<exists>st1 st2 st3 t3. mdb_txn_abort 0 st = Some st1 \<and> mdb_txn_begin None flags st1 = Some (0, st2) \<and>
     mdb_page_alloc mc 1 st2 = Some (MDB_SUCCESS, PMem a, st3) \<and> a \<in> set (me_dpages (env st3)) \<and>
     get_txn st3 = Some t3 \<and> dirty_entries t3 = []"
proof -
  obtain st1 where a: "mdb_txn_abort 0 st = Some st1" "txns st1 = []" "writer_ready (env st1) m"
     "buffers_free st st1 (dirty_entries t)" "mt_loose_pgs (me_txn0 (env st1)) = PMem a # ps"
     "io_rc st1 = io_rc st" "nio st1 = nio st"
    using abort_writer_run [OF assms(1)] assms(4) by auto
  obtain st2 t2 where b: "mdb_txn_begin None flags st1 = Some (0, st2)" "txns st2 = [t2]" "fresh_writer t2 m"
    "mt_loose_pgs t2 = PMem a # ps" "me_dpages (env st2) = me_dpages (env st1)"
    using begin_writer_run [OF a(2,3) assms(2)] assms(3) a(5-7) by auto
  have "a \<in> set (me_dpages (env st1))" using a(4) assms(5-7) by (force simp: buffers_free_def)
  moreover define t3 where "t3 = t2\<lparr>mt_loose_pgs := ps, mt_loose_count := mt_loose_count t2 - 1\<rparr>"
  moreover have "dirty_entries t3 = []" using b(3) by (simp add: fresh_writer_def t3_def dirty_entries_def)
  moreover have "mdb_page_alloc mc 1 st2 = Some (MDB_SUCCESS, PMem a, st2\<lparr>txns := [t3]\<rparr>)"
    using b(2,4) by (simp add: mdb_page_alloc_def get_txn_def upd_txn_def t3_def)
  moreover have "get_txn (st2\<lparr>txns := [t3]\<rparr>) = Some t3" by (simp add: get_txn_def)
  ultimately show ?thesis
    using a(1) b(1,5) by (intro exI [of _ st1] exI [of _ st2] exI [of _ "st2\<lparr>txns := [t3]\<rparr>"] exI [of _ t3]) simp
qed

lemma abort_keeps_loose_pages_witness:
  "\<exists>st1 st2 st3. mdb_txn_abort 0 loose_st = Some st1 \<and> mdb_txn_begin None 0 st1 = Some (0, st2) \<and>
     mdb_page_alloc 0 1 st2 = Some (MDB_SUCCESS, PMem 2, st3) \<and> 2 \<in> set (me_dpages (env st3))"
proof -
  have l: "mt_loose_pgs loose_txn = PMem 2 # []" "\<lparr>mid = 5, mptr = PMem 2\<rparr> \<in> set (dirty_entries loose_txn)"
    "heap loose_st 2 = Some (blank_page\<lparr>mp_pgno := 5, mp_flags := P_LEAF OR P_DIRTY OR P_LOOSE\<rparr>)"
    "\<not> IS_OVERFLOW (blank_page\<lparr>mp_pgno := 5, mp_flags := P_LEAF OR P_DIRTY OR P_LOOSE\<rparr>)"
    by (simp add: loose_txn_def, simp add: loose_entries, simp_all add: IS_OVERFLOW_def F_ISSET_def page_flag_defs)
  show ?thesis using abort_keeps_loose_pages [OF loose_runs _ _ l, of 0 0] by auto
qed

end
