(* ===== verification/Lmdb_Readers.thy ===== *)
theory Lmdb_Readers
  imports Lmdb_Txn
begin

text \<open>
  Clearing the reader slots of processes that have died (\<open>mdb_reader_check\<close> of
  \<open>LegacyDatabase/mdb.c\<close>).  The processes already looked at are kept in an ascending list with its
  length in front, searched and filled by \<open>mdb_pid_insert\<close>.
\<close>

text \<open>The loop of the insertion: the cursor and the sign, or \<open>Inl\<close> when the process is there.\<close>

function pid_search :: "nat list \<Rightarrow> nat \<Rightarrow> nat \<Rightarrow> nat \<Rightarrow> nat \<Rightarrow> int \<Rightarrow> (unit + nat \<times> int) option" where
  "pid_search ids pid base n cursor val =
     (if 0 < n then
        (let pivot = n div 2; cursor = base + pivot + 1 in
         case rd ids cursor of
           None \<Rightarrow> None
         | Some y \<Rightarrow>
             (if pid < y then pid_search ids pid base pivot cursor (-1)
              else if pid > y then pid_search ids pid cursor (n - (pivot + 1)) cursor 1
              else Some (Inl ())))
      else Some (Inr (cursor, val)))"
  by pat_completeness auto
termination by (relation "measure (\<lambda>(ids, pid, base, n, cursor, val). n)") auto

declare pid_search.simps [simp del]

text \<open>\<open>for (n = ids[0]; n > cursor; n--) ids[n] = ids[n-1];\<close> with \<open>k = n - cursor\<close> moves left.\<close>

fun pid_shift :: "nat list \<Rightarrow> nat \<Rightarrow> nat \<Rightarrow> nat list option" where
  "pid_shift ids cursor 0 = Some ids"
| "pid_shift ids cursor (Suc k) = do {
     y \<leftarrow> rd ids (cursor + k);
     ids \<leftarrow> wr ids (cursor + Suc k) y;
     pid_shift ids cursor k }"

definition mdb_pid_insert :: "nat list \<Rightarrow> nat \<Rightarrow> (int \<times> nat list) option" where
  "mdb_pid_insert ids pid = do {
     n \<leftarrow> rd ids 0;
     r \<leftarrow> pid_search ids pid 0 n 1 0;
     case r of
       Inl _ \<Rightarrow> Some (-1, ids)
     | Inr (cursor, val) \<Rightarrow> do {
         let cursor = (if val > 0 then cursor + 1 else cursor);
         ids \<leftarrow> wr ids 0 (n + 1);
         ids \<leftarrow> pid_shift ids cursor (n + 1 - cursor);
         ids \<leftarrow> wr ids cursor pid;
         Some (0, ids) } }"

text \<open>\<open>for (; j<rdrs; j++)\<close>: the slots of the process from \<open>j\<close> on are cleared and counted.\<close>

fun clear_slots :: "nat \<Rightarrow> MDB_reader list \<Rightarrow> nat \<Rightarrow> nat \<Rightarrow> nat \<Rightarrow> (MDB_reader list \<times> nat) option" where
  "clear_slots pid rs j 0 cnt = Some (rs, cnt)"
| "clear_slots pid rs j (Suc k) cnt = do {
     r \<leftarrow> rd rs j;
     if mr_pid r = pid then do {
       rs \<leftarrow> wr rs j (r\<lparr>mr_pid := 0\<rparr>);
       clear_slots pid rs (j + 1) k (cnt + 1) }
     else clear_slots pid rs (j + 1) k cnt }"

text \<open>
  One process: under the reader mutex (unless the caller holds it) its lock is asked for again, since
  another process may have taken the number.  The result is the code of the mutex.
\<close>

definition clear_process :: "bool \<Rightarrow> nat \<Rightarrow> nat \<Rightarrow> nat \<Rightarrow> nat \<Rightarrow> st \<Rightarrow> (int \<times> nat \<times> st) option" where
  "clear_process rlocked pid i rdrs cnt st = do {
     ti \<leftarrow> me_txns (env st);
     let (rc, st) = (if rlocked then (0, st) else io_call st);
     if rc \<noteq> 0 then Some (rc, cnt, st)
     else do {
       (alive, st) \<leftarrow> (if rlocked then Some (0, st) else mdb_reader_pid Pidcheck pid st);
       let j = (if alive \<noteq> 0 then rdrs else i);
       (rs, cnt) \<leftarrow> clear_slots pid (mti_readers ti) j (rdrs - j) cnt;
       Some (0, cnt, upd_ti (\<lambda>ti. ti\<lparr>mti_readers := rs\<rparr>) st) } }"

text \<open>\<open>for (i=0; i<rdrs; i++)\<close>; \<open>k = rdrs - i\<close> slots are left.\<close>

fun check_slots :: "bool \<Rightarrow> nat \<Rightarrow> nat \<Rightarrow> nat \<Rightarrow> nat list \<Rightarrow> nat \<Rightarrow> st \<Rightarrow> (int \<times> nat \<times> st) option" where
  "check_slots rlocked rdrs i 0 pids cnt st = Some (MDB_SUCCESS, cnt, st)"
| "check_slots rlocked rdrs i (Suc k) pids cnt st = do {
     ti \<leftarrow> me_txns (env st);
     r \<leftarrow> rd (mti_readers ti) i;
     let pid = mr_pid r;
     if pid \<noteq> 0 \<and> pid \<noteq> me_pid (env st) then do {
       (dup, pids) \<leftarrow> mdb_pid_insert pids pid;
       if dup = 0 then do {
         (alive, st) \<leftarrow> mdb_reader_pid Pidcheck pid st;
         if alive = 0 then do {
           (rc, cnt, st) \<leftarrow> clear_process rlocked pid i rdrs cnt st;
           if rc \<noteq> 0 then Some (rc, cnt, st) else check_slots rlocked rdrs (i + 1) k pids cnt st }
         else check_slots rlocked rdrs (i + 1) k pids cnt st }
       else check_slots rlocked rdrs (i + 1) k pids cnt st }
     else check_slots rlocked rdrs (i + 1) k pids cnt st }"

definition sizeof_pid :: nat where
  "sizeof_pid = 4"

text \<open>The code, the number of slots cleared, and the state.\<close>

definition mdb_reader_check0 :: "bool \<Rightarrow> st \<Rightarrow> (int \<times> nat \<times> st) option" where
  "mdb_reader_check0 rlocked st = do {
     ti \<leftarrow> me_txns (env st);
     let rdrs = mti_numreaders ti;
     if \<not> mem_of st ((rdrs + 1) * sizeof_pid) then Some (ENOMEM, 0, tick st)
     else check_slots rlocked rdrs 0 rdrs (replicate (rdrs + 1) 0) 0 (tick st) }"

definition mdb_reader_check :: "st \<Rightarrow> (int \<times> nat \<times> st) option" where
  "mdb_reader_check st =
     (if me_txns (env st) = None then Some (MDB_SUCCESS, 0, st) else mdb_reader_check0 False st)"

end
