(* ===== verification/Lmdb_Reader_Facts.thy ===== *)
theory Lmdb_Reader_Facts
  imports Lmdb_Txn_Facts Lmdb_Readers
begin

text \<open>
  The reader table: a read-only transaction takes the first free slot and pins the committed snapshot,
  the writer's \<open>mdb_find_oldest\<close> never goes beyond a pinned snapshot, and \<open>mdb_reader_check\<close> clears
  exactly the slots of the processes that have died.
\<close>

section \<open>The list of processes already looked at\<close>

definition pid_list :: "nat list \<Rightarrow> nat set \<Rightarrow> bool" where
  "pid_list ids S \<longleftrightarrow> ids \<noteq> [] \<and> ids ! 0 < length ids \<and> sorted_wrt (<) (cells ids 1 (Suc (ids ! 0))) \<and>
     set (cells ids 1 (Suc (ids ! 0))) = S"

lemma pid_list_less: "pid_list ids S \<Longrightarrow> 1 \<le> p \<Longrightarrow> p < q \<Longrightarrow> q \<le> ids ! 0 \<Longrightarrow> ids ! p < ids ! q"
  by (auto simp: pid_list_def sorted_wrt_cells)

lemma pid_list_mem: "pid_list ids S \<Longrightarrow> x \<in> S \<longleftrightarrow> (\<exists>c. 1 \<le> c \<and> c \<le> ids ! 0 \<and> ids ! c = x)"
  by (auto simp: pid_list_def set_cells image_iff Bex_def less_Suc_eq_le)

lemma in_cells: "a \<le> j \<Longrightarrow> j < b \<Longrightarrow> xs ! j \<in> set (cells xs a b)"
  by (simp add: set_cells)

text \<open>Where the process belongs: all smaller ones before, all greater ones from there on.\<close>

definition pid_pos :: "nat list \<Rightarrow> nat \<Rightarrow> nat \<Rightarrow> bool" where
  "pid_pos ids pid x \<longleftrightarrow> 1 \<le> x \<and> x \<le> Suc (ids ! 0) \<and> (\<forall>c. 1 \<le> c \<longrightarrow> c < x \<longrightarrow> ids ! c < pid) \<and>
     (\<forall>c. x \<le> c \<longrightarrow> c \<le> ids ! 0 \<longrightarrow> pid < ids ! c)"

lemma pid_search_spec:
  assumes "pid_list ids S" "base + n \<le> ids ! 0"
    and "\<forall>c. 1 \<le> c \<longrightarrow> c \<le> base \<longrightarrow> ids ! c < pid" "\<forall>c. base + n < c \<longrightarrow> c \<le> ids ! 0 \<longrightarrow> pid < ids ! c"
    and "val > 0 \<longrightarrow> cursor = base" "val < 0 \<longrightarrow> cursor = Suc (base + n)" "val = 0 \<longrightarrow> base = 0 \<and> n = ids ! 0 \<and> cursor = 1"
  shows "\<exists>r. pid_search ids pid base n cursor val = Some r \<and>
     (case r of Inl _ \<Rightarrow> pid \<in> S | Inr (c, v) \<Rightarrow> pid_pos ids pid (if v > 0 then Suc c else c))"
  using assms
proof (induction ids pid base n cursor val rule: pid_search.induct)
  case (1 ids pid base n cursor val)
  show ?case
  proof (cases "n = 0")
    case True
    then have "pid_search ids pid base n cursor val = Some (Inr (cursor, val))" by (subst pid_search.simps) simp
    moreover have "pid_pos ids pid (if val > 0 then Suc cursor else cursor)"
    proof -
      have "(if val > 0 then Suc cursor else cursor) = Suc base"
        using "1.prems"(5-7) True by (cases "val > 0"; cases "val < 0") auto
      then show ?thesis using "1.prems"(2-4) True by (simp add: pid_pos_def less_Suc_eq_le Suc_le_eq)
    qed
    ultimately show ?thesis by simp
  next
    case False
    define k where "k = Suc (base + n div 2)"
    have kn: "1 \<le> k" "k \<le> base + n" using False by (auto simp: k_def)
    have rd: "rd ids k = Some (ids ! k)" using kn "1.prems"(1,2) by (auto simp: pid_list_def rd_def)
    have unfold: "pid_search ids pid base n cursor val =
        (if pid < ids ! k then pid_search ids pid base (n div 2) k (-1)
         else if pid > ids ! k then pid_search ids pid k (n - Suc (n div 2)) k 1 else Some (Inl ()))"
      using False rd by (subst pid_search.simps) (simp add: Let_def k_def)
    have lo: "ids ! c \<le> ids ! k" if "1 \<le> c" "c \<le> k" for c
      using pid_list_less [OF "1.prems"(1), of c k] that kn "1.prems"(2) by (cases "c = k") auto
    have hi: "ids ! k \<le> ids ! c" if "k \<le> c" "c \<le> ids ! 0" for c
      using pid_list_less [OF "1.prems"(1), of k c] that kn by (cases "c = k") auto
    consider "pid < ids ! k" | "pid > ids ! k" | "pid = ids ! k" by linarith
    then show ?thesis
    proof cases
      case 1
      have "\<exists>r. pid_search ids pid base (n div 2) k (-1) = Some r \<and>
         (case r of Inl _ \<Rightarrow> pid \<in> S | Inr (c, v) \<Rightarrow> pid_pos ids pid (if v > 0 then Suc c else c))"
        by (rule "1.IH"(1)) (use False rd 1 "1.prems"(1-4) kn hi in \<open>auto simp: k_def Suc_le_eq intro: less_le_trans\<close>)
      then show ?thesis using unfold 1 by simp
    next
      case 2
      have e: "k + (n - (n div 2 + 1)) = base + n" using kn by (simp add: k_def)
      have "\<exists>r. pid_search ids pid k (n - (n div 2 + 1)) k 1 = Some r \<and>
         (case r of Inl _ \<Rightarrow> pid \<in> S | Inr (c, v) \<Rightarrow> pid_pos ids pid (if v > 0 then Suc c else c))"
        by (rule "1.IH"(2)) (use False rd 2 "1.prems"(1-4) kn lo e in \<open>auto simp: k_def intro: le_less_trans\<close>)
      then show ?thesis using unfold 2 by simp
    next
      case 3
      then have "pid \<in> S" using pid_list_mem [OF "1.prems"(1)] kn "1.prems"(2) by (metis le_trans)
      then show ?thesis using unfold 3 by simp
    qed
  qed
qed

lemma pid_shift_spec:
  assumes "cursor + k < length ids"
  shows "\<exists>ids'. pid_shift ids cursor k = Some ids' \<and> length ids' = length ids \<and>
     (\<forall>j. ids' ! j = (if cursor < j \<and> j \<le> cursor + k then ids ! (j - 1) else ids ! j))"
  using assms
proof (induction k arbitrary: ids)
  case (Suc k)
  define ids1 where "ids1 = ids[cursor + Suc k := ids ! (cursor + k)]"
  obtain ids' where r: "pid_shift ids1 cursor k = Some ids'" "length ids' = length ids1"
    "\<forall>j. ids' ! j = (if cursor < j \<and> j \<le> cursor + k then ids1 ! (j - 1) else ids1 ! j)"
    using Suc.IH [of ids1] Suc.prems by (auto simp: ids1_def)
  have "pid_shift ids cursor (Suc k) = Some ids'" using r(1) Suc.prems by (simp add: ids1_def rd_def wr_def)
  moreover have "ids' ! j = (if cursor < j \<and> j \<le> cursor + Suc k then ids ! (j - 1) else ids ! j)" for j
  proof (cases "j = cursor + Suc k")
    case True
    then show ?thesis using r(3) Suc.prems by (simp add: ids1_def)
  next
    case False
    then show ?thesis using r(3) by (auto simp: ids1_def nth_list_update)
  qed
  ultimately show ?case using r(2) by (simp add: ids1_def)
qed simp

lemma pid_insert_spec:
  assumes "pid_list ids S" "Suc (ids ! 0) < length ids"
  shows "\<exists>rc ids'. mdb_pid_insert ids pid = Some (rc, ids') \<and> length ids' = length ids \<and> pid_list ids' (insert pid S) \<and>
     (if pid \<in> S then rc = -1 \<and> ids' = ids else rc = 0 \<and> ids' ! 0 = Suc (ids ! 0))"
proof -
  define n where "n = ids ! 0"
  have rd0: "rd ids 0 = Some n" using assms by (auto simp: rd_def n_def)
  obtain r where r: "pid_search ids pid 0 n 1 0 = Some r"
    "case r of Inl _ \<Rightarrow> pid \<in> S | Inr (c, v) \<Rightarrow> pid_pos ids pid (if v > 0 then Suc c else c)"
    using pid_search_spec [OF assms(1), of 0 n pid 0 1] by (auto simp: n_def)
  show ?thesis
  proof (cases r)
    case (Inl u)
    then show ?thesis using rd0 r assms(1) by (simp add: mdb_pid_insert_def insert_absorb)
  next
    case (Inr cv)
    obtain c v where cv: "cv = (c, v)" by fastforce
    define x where "x = (if v > 0 then Suc c else c)"
    have x: "1 \<le> x" "x \<le> Suc n" "\<And>c. 1 \<le> c \<Longrightarrow> c < x \<Longrightarrow> ids ! c < pid" "\<And>c. x \<le> c \<Longrightarrow> c \<le> n \<Longrightarrow> pid < ids ! c"
      using r(2) Inr cv by (auto simp: x_def pid_pos_def n_def)
    have new: "pid \<notin> S"
    proof
      assume "pid \<in> S"
      then obtain c where "1 \<le> c" "c \<le> n" "ids ! c = pid" using pid_list_mem [OF assms(1)] by (auto simp: n_def)
      then show False using x(3,4) [of c] by (cases "c < x") auto
    qed
    define ids1 where "ids1 = ids[0 := Suc n]"
    obtain ids2 where s: "pid_shift ids1 x (Suc n - x) = Some ids2" "length ids2 = length ids1"
      "\<forall>j. ids2 ! j = (if x < j \<and> j \<le> Suc n then ids1 ! (j - 1) else ids1 ! j)"
      using pid_shift_spec [of x "Suc n - x" ids1] x(2) assms(2) by (auto simp: ids1_def n_def)
    define ids' where "ids' = ids2[x := pid]"
    have pos: "0 < length ids" using assms(2) by linarith
    have len: "length ids' = length ids" using s(2) by (simp add: ids'_def ids1_def)
    have nth: "ids' ! j = (if j = x then pid else if x < j \<and> j \<le> Suc n then ids ! (j - 1) else if j = 0 then Suc n else ids ! j)" for j
      using s(2,3) x(1,2) assms(2) pos by (auto simp: ids'_def ids1_def n_def nth_list_update)
    have run: "mdb_pid_insert ids pid = Some (0, ids')"
    proof -
      have "mdb_pid_insert ids pid = do {
          ids \<leftarrow> wr ids 0 (n + 1);
          ids \<leftarrow> pid_shift ids x (n + 1 - x);
          ids \<leftarrow> wr ids x pid;
          Some (0, ids) }"
        using rd0 r(1) Inr cv by (simp add: mdb_pid_insert_def x_def Let_def)
      moreover have "wr ids 0 (n + 1) = Some ids1" "wr ids2 x pid = Some ids'"
        using pos x(2) assms(2) s(2) by (simp_all add: wr_def ids1_def ids'_def n_def)
      ultimately show ?thesis using s(1) by simp
    qed
    have n': "ids' ! 0 = Suc n" using nth [of 0] x(1) by simp
    have "ids' ! p < ids' ! q" if "1 \<le> p" "p < q" "q \<le> Suc n" for p q
    proof -
      consider "q < x" | "q = x" | "p < x" "x < q" | "p = x" | "x < p" using that by linarith
      then show ?thesis
      proof cases
        case 1
        then show ?thesis using that x(2) pid_list_less [OF assms(1), of p q] by (simp add: nth n_def)
      next
        case 2
        then show ?thesis using that x(3) by (simp add: nth)
      next
        case 3
        then have "ids ! p < pid" "pid < ids ! (q - 1)" using x(3,4) that by auto
        then show ?thesis using 3 that by (simp add: nth)
      next
        case 4
        then show ?thesis using that x(4) [of "q - 1"] by (simp add: nth)
      next
        case 5
        then show ?thesis using that pid_list_less [OF assms(1), of "p - 1" "q - 1"] x(1) by (simp add: nth n_def)
      qed
    qed
    then have srt: "sorted_wrt (<) (cells ids' 1 (Suc (ids' ! 0)))" by (auto simp: sorted_wrt_cells n')
    have "set (cells ids' 1 (Suc (ids' ! 0))) = insert pid S"
    proof (intro set_eqI iffI)
      fix y assume "y \<in> set (cells ids' 1 (Suc (ids' ! 0)))"
      then obtain j where j: "1 \<le> j" "j \<le> Suc n" "y = ids' ! j" by (auto simp: set_cells n' less_Suc_eq_le)
      then have "y = pid \<or> (\<exists>c. 1 \<le> c \<and> c \<le> n \<and> ids ! c = y)"
      proof (cases "j < x")
        case True
        then show ?thesis using j x(2) by (intro disjI2 exI [of _ j]) (simp add: nth)
      next
        case False
        then show ?thesis using j x(1) by (cases "j = x") (auto simp: nth intro!: exI [of _ "j - 1"])
      qed
      then show "y \<in> insert pid S" using pid_list_mem [OF assms(1)] by (auto simp: n_def)
    next
      fix y assume "y \<in> insert pid S"
      then consider "y = pid" | c where "1 \<le> c" "c \<le> n" "ids ! c = y" using pid_list_mem [OF assms(1)] by (auto simp: n_def)
      then show "y \<in> set (cells ids' 1 (Suc (ids' ! 0)))"
      proof cases
        case 1
        then have "y = ids' ! x" by (simp add: nth)
        then show ?thesis using x(1,2) unfolding n' by (simp only: in_cells less_Suc_eq_le)
      next
        case 2
        define j where "j = (if c < x then c else Suc c)"
        have "y = ids' ! j" "1 \<le> j" "j < Suc (Suc n)" using 2 by (simp_all add: nth j_def)
        then show ?thesis unfolding n' by (simp only: in_cells)
      qed
    qed
    moreover have "ids' \<noteq> []" "ids' ! 0 < length ids'" using len pos assms(2) n' by (auto simp: n_def)
    ultimately have "pid_list ids' (insert pid S)" using srt unfolding pid_list_def by blast
    then show ?thesis using run len new n' by (simp add: n_def)
  qed
qed

section \<open>Clearing slots\<close>

lemma clear_slots_spec:
  assumes "j + k \<le> length rs"
  shows "\<exists>rs'. clear_slots pid rs j k cnt = Some (rs', cnt + card {x. j \<le> x \<and> x < j + k \<and> mr_pid (rs ! x) = pid}) \<and>
     length rs' = length rs \<and>
     (\<forall>i < length rs. rs' ! i = (if j \<le> i \<and> i < j + k \<and> mr_pid (rs ! i) = pid then (rs ! i)\<lparr>mr_pid := 0\<rparr> else rs ! i))"
  using assms
proof (induction k arbitrary: j rs cnt)
  case (Suc k)
  define rs1 where "rs1 = (if mr_pid (rs ! j) = pid then rs[j := (rs ! j)\<lparr>mr_pid := 0\<rparr>] else rs)"
  have p: "Suc j + k \<le> length rs1" using Suc.prems by (simp add: rs1_def)
  have other: "rs1 ! i = rs ! i" if "i \<noteq> j" for i using that by (simp add: rs1_def)
  define cnt1 where "cnt1 = (if mr_pid (rs ! j) = pid then cnt + 1 else cnt)"
  obtain rs' where r: "clear_slots pid rs1 (Suc j) k cnt1 = Some (rs', cnt1 + card {x. Suc j \<le> x \<and> x < Suc j + k \<and> mr_pid (rs1 ! x) = pid})"
    "length rs' = length rs1"
    "\<forall>i < length rs1. rs' ! i = (if Suc j \<le> i \<and> i < Suc j + k \<and> mr_pid (rs1 ! i) = pid then (rs1 ! i)\<lparr>mr_pid := 0\<rparr> else rs1 ! i)"
    using Suc.IH [OF p, of cnt1] by blast
  have "{x. j \<le> x \<and> x < j + Suc k \<and> mr_pid (rs ! x) = pid} =
      (if mr_pid (rs ! j) = pid then insert j else id) {x. Suc j \<le> x \<and> x < Suc j + k \<and> mr_pid (rs1 ! x) = pid}"
    using other by (auto simp: le_less Suc_le_eq)
  then have "cnt + card {x. j \<le> x \<and> x < j + Suc k \<and> mr_pid (rs ! x) = pid} =
      cnt1 + card {x. Suc j \<le> x \<and> x < Suc j + k \<and> mr_pid (rs1 ! x) = pid}"
    by (simp add: cnt1_def)
  moreover have "clear_slots pid rs j (Suc k) cnt = clear_slots pid rs1 (Suc j) k cnt1"
    using Suc.prems by (simp add: rd_def wr_def rs1_def cnt1_def)
  moreover have "rs' ! i = (if j \<le> i \<and> i < j + Suc k \<and> mr_pid (rs ! i) = pid then (rs ! i)\<lparr>mr_pid := 0\<rparr> else rs ! i)"
    if "i < length rs" for i
  proof (cases "i = j")
    case True
    then show ?thesis using r(3) that by (auto simp: rs1_def)
  next
    case False
    have "rs' ! i = (if Suc j \<le> i \<and> i < Suc j + k \<and> mr_pid (rs ! i) = pid then (rs ! i)\<lparr>mr_pid := 0\<rparr> else rs ! i)"
      using r(3) other [OF False] that by (simp add: rs1_def)
    then show ?thesis using False by auto
  qed
  ultimately show ?case using r(1,2) by (simp add: rs1_def)
qed simp

text \<open>A process that is neither this one nor holds its lock, and the table without the slots of such processes.\<close>

definition dead_pid :: "st \<Rightarrow> nat \<Rightarrow> bool" where
  "dead_pid st p \<longleftrightarrow> p \<noteq> 0 \<and> p \<noteq> me_pid (env st) \<and> \<not> pid_locked st p"

definition clear_dead :: "st \<Rightarrow> nat set \<Rightarrow> nat \<Rightarrow> MDB_reader list \<Rightarrow> MDB_reader list" where
  "clear_dead st S n rs = map (\<lambda>j. if j < n \<and> mr_pid (rs ! j) \<in> S \<and> dead_pid st (mr_pid (rs ! j))
     then (rs ! j)\<lparr>mr_pid := 0\<rparr> else rs ! j) [0..<length rs]"

definition dead_slots :: "st \<Rightarrow> nat set \<Rightarrow> nat \<Rightarrow> MDB_reader list \<Rightarrow> nat set" where
  "dead_slots st S n rs = {j. j < n \<and> mr_pid (rs ! j) \<in> S \<and> dead_pid st (mr_pid (rs ! j))}"

definition with_readers :: "st \<Rightarrow> MDB_txninfo \<Rightarrow> MDB_reader list \<Rightarrow> nat \<Rightarrow> st" where
  "with_readers st ti rs n = st\<lparr>env := env st\<lparr>me_txns := Some (ti\<lparr>mti_readers := rs\<rparr>)\<rparr>, nio := n\<rparr>"

lemma with_readers_simps [simp]: "me_txns (env (with_readers st ti rs n)) = Some (ti\<lparr>mti_readers := rs\<rparr>)"
  "me_pid (env (with_readers st ti rs n)) = me_pid (env st)" "io_rc (with_readers st ti rs n) = io_rc st"
  "pid_locked (with_readers st ti rs n) = pid_locked st" "nio (with_readers st ti rs n) = n"
  "(with_readers st ti rs n)\<lparr>nio := m\<rparr> = with_readers st ti rs m"
  "upd_ti (mti_readers_update (\<lambda>_. rs')) (with_readers st ti rs n) = with_readers st ti rs' n"
  by (simp_all add: with_readers_def upd_ti_def upd_env_def)

lemma pidcheck_eq: "\<forall>n. io_rc st n = 0 \<Longrightarrow> mdb_reader_pid Pidcheck pid st = Some (if pid_locked st pid then -1 else 0, st\<lparr>nio := nio st + 1\<rparr>)"
  by (subst mdb_reader_pid.simps) (simp add: io_call_def)

lemma clear_process_spec:
  assumes "\<forall>n. io_rc st n = 0" "rdrs \<le> length rs" "i \<le> rdrs" "\<not> pid_locked st pid"
  shows "\<exists>m rs'. clear_process rlocked pid i rdrs cnt (with_readers st ti rs n) =
       Some (0, cnt + card {x. i \<le> x \<and> x < rdrs \<and> mr_pid (rs ! x) = pid}, with_readers st ti rs' m) \<and> length rs' = length rs \<and>
     (\<forall>x < length rs. rs' ! x = (if i \<le> x \<and> x < rdrs \<and> mr_pid (rs ! x) = pid then (rs ! x)\<lparr>mr_pid := 0\<rparr> else rs ! x))"
proof -
  obtain rs' where r: "clear_slots pid rs i (rdrs - i) cnt = Some (rs', cnt + card {x. i \<le> x \<and> x < rdrs \<and> mr_pid (rs ! x) = pid})"
    "length rs' = length rs"
    "\<forall>x < length rs. rs' ! x = (if i \<le> x \<and> x < rdrs \<and> mr_pid (rs ! x) = pid then (rs ! x)\<lparr>mr_pid := 0\<rparr> else rs ! x)"
    using clear_slots_spec [of i "rdrs - i" rs pid cnt] assms(2,3) by auto
  have "clear_process rlocked pid i rdrs cnt (with_readers st ti rs n) =
      Some (0, cnt + card {x. i \<le> x \<and> x < rdrs \<and> mr_pid (rs ! x) = pid}, with_readers st ti rs' (if rlocked then n else n + 2))"
    using assms r(1) by (simp add: clear_process_def io_call_def pidcheck_eq)
  then show ?thesis using r(2,3) by blast
qed

text \<open>The processes seen in the first \<open>i\<close> slots.\<close>

definition seen :: "st \<Rightarrow> MDB_reader list \<Rightarrow> nat \<Rightarrow> nat set" where
  "seen st rs i = {p. p \<noteq> 0 \<and> p \<noteq> me_pid (env st) \<and> (\<exists>j < i. mr_pid (rs ! j) = p)}"

lemma seen_Suc: "seen st rs (Suc i) = (if mr_pid (rs ! i) = 0 \<or> mr_pid (rs ! i) = me_pid (env st) then seen st rs i
    else insert (mr_pid (rs ! i)) (seen st rs i))"
  by (auto simp: seen_def less_Suc_eq)

lemma length_clear_dead [simp]: "length (clear_dead st S n rs) = length rs"
  by (simp add: clear_dead_def)

lemma nth_clear_dead: "j < length rs \<Longrightarrow> clear_dead st S n rs ! j =
    (if j < n \<and> mr_pid (rs ! j) \<in> S \<and> dead_pid st (mr_pid (rs ! j)) then (rs ! j)\<lparr>mr_pid := 0\<rparr> else rs ! j)"
  by (simp add: clear_dead_def)

lemma clear_dead_cong:
  assumes "\<And>p. dead_pid st p \<Longrightarrow> p \<in> (\<lambda>j. mr_pid (rs ! j)) ` {..<n} \<Longrightarrow> p \<in> S \<longleftrightarrow> p \<in> S'"
  shows "clear_dead st S n rs = clear_dead st S' n rs" "dead_slots st S n rs = dead_slots st S' n rs"
  using assms unfolding clear_dead_def dead_slots_def by auto

text \<open>One more process that is dead.\<close>

lemma clear_dead_insert:
  assumes "n \<le> length rs" "p \<notin> S" "dead_pid st p" "S = seen st rs i" "length rs' = length rs"
    and "\<forall>x < length rs. rs' ! x = (if i \<le> x \<and> x < n \<and> mr_pid (clear_dead st S n rs ! x) = p
       then (clear_dead st S n rs ! x)\<lparr>mr_pid := 0\<rparr> else clear_dead st S n rs ! x)"
  shows "rs' = clear_dead st (insert p S) n rs"
    "card (dead_slots st S n rs) + card {x. i \<le> x \<and> x < n \<and> mr_pid (clear_dead st S n rs ! x) = p} =
      card (dead_slots st (insert p S) n rs)"
proof -
  have p0: "p \<noteq> 0" "p \<noteq> me_pid (env st)" using assms(3) by (simp_all add: dead_pid_def)
  have late: "i \<le> x" if "mr_pid (rs ! x) = p" for x
    using assms(2,4) p0 that by (auto simp: seen_def not_less [symmetric])
  have cur: "mr_pid (clear_dead st S n rs ! x) = p \<longleftrightarrow> mr_pid (rs ! x) = p" if "x < length rs" for x
    using that p0 assms(2) by (auto simp: nth_clear_dead)
  show "rs' = clear_dead st (insert p S) n rs"
  proof (rule nth_equalityI)
    fix x assume "x < length rs'"
    then have x: "x < length rs" using assms(5) by simp
    show "rs' ! x = clear_dead st (insert p S) n rs ! x"
    proof (cases "mr_pid (rs ! x) = p")
      case True
      then show ?thesis using assms(2,3,6) x late [OF True] cur [OF x] by (simp add: nth_clear_dead)
    next
      case False
      then show ?thesis using assms(6) x cur [OF x] by (simp add: nth_clear_dead)
    qed
  qed (simp add: assms(5))
  define A where "A = {x. i \<le> x \<and> x < n \<and> mr_pid (clear_dead st S n rs ! x) = p}"
  have A: "A = {x. x < n \<and> mr_pid (rs ! x) = p}" 
  proof -
    have "i \<le> x \<and> x < n \<and> mr_pid (clear_dead st S n rs ! x) = p \<longleftrightarrow> x < n \<and> mr_pid (rs ! x) = p" for x
      using late [of x] cur [of x] assms(1) by auto
    then show ?thesis by (simp add: A_def)
  qed
  have "dead_slots st (insert p S) n rs = dead_slots st S n rs \<union> A" "dead_slots st S n rs \<inter> A = {}"
    using assms(2,3) by (auto simp: dead_slots_def A)
  moreover have "finite A" "finite (dead_slots st S n rs)" by (simp_all add: A dead_slots_def)
  ultimately show "card (dead_slots st S n rs) + card {x. i \<le> x \<and> x < n \<and> mr_pid (clear_dead st S n rs ! x) = p} =
      card (dead_slots st (insert p S) n rs)"
    unfolding A_def [symmetric] by (simp add: card_Un_disjoint)
qed

lemma check_slots_spec:
  assumes "\<forall>n. io_rc st n = 0" "rdrs = i + k" "rdrs \<le> length rs" "pid_list pids (seen st rs i)" "pids ! 0 \<le> i"
    and "length pids = Suc rdrs"
  shows "\<exists>m. check_slots rlocked rdrs i k pids (card (dead_slots st (seen st rs i) rdrs rs))
       (with_readers st ti (clear_dead st (seen st rs i) rdrs rs) n) =
     Some (MDB_SUCCESS, card (dead_slots st (seen st rs rdrs) rdrs rs), with_readers st ti (clear_dead st (seen st rs rdrs) rdrs rs) m)"
  using assms(2-)
proof (induction k arbitrary: i pids n)
  case 0
  then show ?case by auto
next
  case (Suc k)
  define S where "S = seen st rs i"
  define p where "p = mr_pid (rs ! i)"
  define cur where "cur = clear_dead st S rdrs rs"
  have i: "i < length rs" "i < rdrs" using Suc.prems(1,2) by simp_all
  have c: "rd cur i = Some (cur ! i)" "cur ! i = (if p \<in> S \<and> dead_pid st p then (rs ! i)\<lparr>mr_pid := 0\<rparr> else rs ! i)"
    using i by (simp_all add: cur_def nth_clear_dead p_def)
  have room: "Suc (pids ! 0) < length pids" using Suc.prems(4,5) i by simp
  obtain rc pids' where ins: "mdb_pid_insert pids p = Some (rc, pids')" "length pids' = length pids" "pid_list pids' (insert p S)"
     "if p \<in> S then rc = -1 \<and> pids' = pids else rc = 0 \<and> pids' ! 0 = Suc (pids ! 0)"
    using pid_insert_spec [OF Suc.prems(3) room] unfolding S_def by blast
  define skip where "skip \<longleftrightarrow> p = 0 \<or> p = me_pid (env st) \<or> p \<in> S"
  show ?case
  proof (cases skip)
    case True
    have S': "seen st rs (Suc i) = S" using True by (auto simp: seen_Suc S_def p_def skip_def)
    have "check_slots rlocked rdrs i (Suc k) pids (card (dead_slots st S rdrs rs)) (with_readers st ti cur n) =
        check_slots rlocked rdrs (Suc i) k pids (card (dead_slots st S rdrs rs)) (with_readers st ti cur n)"
      using c ins(1,4) True by (auto simp: skip_def p_def Let_def)
    then show ?thesis
      using Suc.IH [of "Suc i" pids n] Suc.prems S' by (simp add: S_def [symmetric] cur_def)
  next
    case False
    have S': "seen st rs (Suc i) = insert p S" using False by (auto simp: seen_Suc S_def p_def skip_def)
    have new: "rc = 0" "pids' ! 0 \<le> Suc i" "p \<notin> S" "p \<noteq> 0" "p \<noteq> me_pid (env st)"
      using ins(4) False Suc.prems(4) by (auto simp: skip_def)
    have IH: "\<exists>m. check_slots rlocked rdrs (Suc i) k pids' (card (dead_slots st (insert p S) rdrs rs))
        (with_readers st ti (clear_dead st (insert p S) rdrs rs) n') =
      Some (MDB_SUCCESS, card (dead_slots st (seen st rs rdrs) rdrs rs), with_readers st ti (clear_dead st (seen st rs rdrs) rdrs rs) m)" for n'
      using Suc.IH [of "Suc i" pids' n'] Suc.prems ins(2,3) new S' by simp
    have cp: "mr_pid (cur ! i) = p" using c(2) new(3) by (simp add: p_def)
    show ?thesis
    proof (cases "pid_locked st p")
      case True
      then have same: "clear_dead st (insert p S) rdrs rs = cur" "dead_slots st (insert p S) rdrs rs = dead_slots st S rdrs rs"
        using clear_dead_cong [of st rs rdrs "insert p S" S] by (auto simp: dead_pid_def cur_def)
      have "check_slots rlocked rdrs i (Suc k) pids (card (dead_slots st S rdrs rs)) (with_readers st ti cur n) =
          check_slots rlocked rdrs (Suc i) k pids' (card (dead_slots st S rdrs rs)) (with_readers st ti cur (Suc n))"
        using c(1) cp ins(1) new True assms(1) by (simp add: pidcheck_eq Let_def)
      then show ?thesis using IH [of "Suc n"] same by (simp add: S_def [symmetric] cur_def)
    next
      case False
      then have dead: "dead_pid st p" using new by (simp add: dead_pid_def)
      obtain m rs' where cl: "clear_process rlocked p i rdrs (card (dead_slots st S rdrs rs)) (with_readers st ti cur (Suc n)) =
           Some (0, card (dead_slots st S rdrs rs) + card {x. i \<le> x \<and> x < rdrs \<and> mr_pid (cur ! x) = p}, with_readers st ti rs' m)"
         "length rs' = length cur"
         "\<forall>x < length cur. rs' ! x = (if i \<le> x \<and> x < rdrs \<and> mr_pid (cur ! x) = p then (cur ! x)\<lparr>mr_pid := 0\<rparr> else cur ! x)"
        using clear_process_spec [OF assms(1) _ _ False, of rdrs cur i rlocked "card (dead_slots st S rdrs rs)" ti "Suc n"] Suc.prems(2) i
        by (auto simp: cur_def)
      have upd: "rs' = clear_dead st (insert p S) rdrs rs"
        "card (dead_slots st S rdrs rs) + card {x. i \<le> x \<and> x < rdrs \<and> mr_pid (cur ! x) = p} = card (dead_slots st (insert p S) rdrs rs)"
        using clear_dead_insert [OF Suc.prems(2) new(3) dead S_def, of rs'] cl(2,3) by (simp_all add: cur_def)
      have "check_slots rlocked rdrs i (Suc k) pids (card (dead_slots st S rdrs rs)) (with_readers st ti cur n) =
          check_slots rlocked rdrs (Suc i) k pids' (card (dead_slots st (insert p S) rdrs rs)) (with_readers st ti rs' m)"
        using c(1) cp ins(1) new False assms(1) cl(1) upd(2) by (simp add: pidcheck_eq Let_def)
      then show ?thesis using IH [of m] upd(1) by (simp add: S_def [symmetric] cur_def)
    qed
  qed
qed

text \<open>
  C18: when the system calls succeed, \<open>mdb_reader_check\<close> returns 0 and the number of slots it cleared:
  exactly the slots in use whose process is not this one and does not hold its lock have their process
  set to 0; every other slot, the number of slots and the rest of the environment stay as they are.
\<close>

theorem reader_check_clears_dead:
  assumes "me_txns (env st) = Some ti" and "mti_numreaders ti \<le> length (mti_readers ti)" and "\<forall>n. io_rc st n = 0"
    and "mem_of st ((mti_numreaders ti + 1) * sizeof_pid)"
  shows "\<exists>cnt st' ti'. mdb_reader_check st = Some (MDB_SUCCESS, cnt, st') \<and>
     cnt = card {j. j < mti_numreaders ti \<and> dead_pid st (mr_pid (mti_readers ti ! j))} \<and>
     env st' = env st\<lparr>me_txns := Some ti'\<rparr> \<and> mti_numreaders ti' = mti_numreaders ti \<and> mti_txnid ti' = mti_txnid ti \<and>
     length (mti_readers ti') = length (mti_readers ti) \<and>
     (\<forall>j < length (mti_readers ti). mti_readers ti' ! j =
        (if j < mti_numreaders ti \<and> dead_pid st (mr_pid (mti_readers ti ! j)) then (mti_readers ti ! j)\<lparr>mr_pid := 0\<rparr>
         else mti_readers ti ! j))"
proof -
  define rs n where "rs = mti_readers ti" and "n = mti_numreaders ti"
  define st1 where "st1 = tick st"
  have s1: "env st1 = env st" "io_rc st1 = io_rc st" "pid_locked st1 = pid_locked st" by (simp_all add: st1_def tick_def)
  have pl: "pid_list (replicate (Suc n) 0) (seen st1 rs 0)" by (simp add: pid_list_def seen_def)
  have e0: "clear_dead st1 (seen st1 rs 0) n rs = rs" "dead_slots st1 (seen st1 rs 0) n rs = {}"
    by (simp_all add: clear_dead_def dead_slots_def seen_def map_nth)
  have w0: "with_readers st1 ti rs (nio st1) = st1" using assms(1) by (simp add: with_readers_def rs_def s1)
  obtain m where run: "check_slots False n 0 n (replicate (Suc n) 0) 0 st1 =
     Some (MDB_SUCCESS, card (dead_slots st1 (seen st1 rs n) n rs), with_readers st1 ti (clear_dead st1 (seen st1 rs n) n rs) m)"
    using check_slots_spec [of st1 n 0 n rs "replicate (Suc n) 0" False ti "nio st1"] assms(2,3) pl e0 w0 s1
    by (auto simp: rs_def n_def)
  have sn: "dead_pid st1 p \<Longrightarrow> p \<in> (\<lambda>j. mr_pid (rs ! j)) ` {..<n} \<Longrightarrow> p \<in> seen st1 rs n \<longleftrightarrow> p \<in> UNIV" for p
    by (auto simp: seen_def dead_pid_def)
  have d: "dead_pid st1 p = dead_pid st p" for p by (simp add: dead_pid_def s1)
  have all: "clear_dead st1 (seen st1 rs n) n rs = clear_dead st1 UNIV n rs" "dead_slots st1 (seen st1 rs n) n rs = dead_slots st1 UNIV n rs"
    using clear_dead_cong [OF sn] by simp_all
  have "mdb_reader_check st = Some (MDB_SUCCESS, card (dead_slots st1 UNIV n rs), with_readers st1 ti (clear_dead st1 UNIV n rs) m)"
    using run assms(1,4) all by (simp add: mdb_reader_check_def mdb_reader_check0_def n_def st1_def Let_def)
  then show ?thesis
    by (intro exI [of _ "card (dead_slots st1 UNIV n rs)"] exI [of _ "with_readers st1 ti (clear_dead st1 UNIV n rs) m"]
        exI [of _ "ti\<lparr>mti_readers := clear_dead st1 UNIV n rs\<rparr>"])
      (simp add: with_readers_def s1 dead_slots_def nth_clear_dead d rs_def n_def)
qed

lemma reader_check_clears_dead_witness:
  "\<exists>cnt st' ti'. mdb_reader_check (sample_st\<lparr>env := sample_env\<lparr>me_pid := 41\<rparr>\<rparr>) = Some (MDB_SUCCESS, cnt, st') \<and>
     cnt = 1 \<and> me_txns (env st') = Some ti' \<and> mti_readers ti' ! 0 = \<lparr>mr_txnid = 5, mr_pid = 0, mr_tid = 1\<rparr>"
proof -
  define s where "s = sample_st\<lparr>env := sample_env\<lparr>me_pid := 41\<rparr>\<rparr>"
  have s: "me_txns (env s) = Some sample_ti" "mti_numreaders sample_ti \<le> length (mti_readers sample_ti)" "\<forall>n. io_rc s n = 0"
    "mem_of s ((mti_numreaders sample_ti + 1) * sizeof_pid)"
    by (simp_all add: s_def mem_of_def)
  have d: "dead_pid s 42" "\<not> dead_pid s 0" by (simp_all add: dead_pid_def s_def)
  have "{j. j < mti_numreaders sample_ti \<and> dead_pid s (mr_pid (mti_readers sample_ti ! j))} = {0}"
  proof -
    have "j < 2 \<and> dead_pid s (mr_pid (mti_readers sample_ti ! j)) \<longleftrightarrow> j = 0" for j
      using d by (auto simp: less_2_cases_iff)
    then show ?thesis by simp
  qed
  then show ?thesis using reader_check_clears_dead [OF s] d by (auto simp: s_def)
qed

section \<open>Starting a read-only transaction\<close>

lemma free_slot_spec:
  assumes "i + k \<le> length rs"
  shows "\<exists>j. free_slot rs i k = Some j \<and> i \<le> j \<and> j \<le> i + k \<and> (j < i + k \<longrightarrow> mr_pid (rs ! j) = 0) \<and>
     (\<forall>x. i \<le> x \<longrightarrow> x < j \<longrightarrow> mr_pid (rs ! x) \<noteq> 0)"
  using assms
proof (induction k arbitrary: i)
  case (Suc k)
  show ?case
  proof (cases "mr_pid (rs ! i) = 0")
    case True
    then show ?thesis using Suc.prems by (auto simp: rd_def)
  next
    case False
    obtain j where j: "free_slot rs (Suc i) k = Some j" "Suc i \<le> j" "j \<le> Suc i + k" "j < Suc i + k \<longrightarrow> mr_pid (rs ! j) = 0"
     "\<forall>x. Suc i \<le> x \<longrightarrow> x < j \<longrightarrow> mr_pid (rs ! x) \<noteq> 0"
      using Suc.IH [of "Suc i"] Suc.prems by auto
    have "mr_pid (rs ! x) \<noteq> 0" if "i \<le> x" "x < j" for x
      using j(5) False that by (cases "x = i") auto
    moreover have "free_slot rs i (Suc k) = Some j" using j(1) False Suc.prems by (simp add: rd_def)
    ultimately show ?thesis using j(2-4) by (intro exI [of _ j]) simp
  qed
qed simp

text \<open>The environment is open, \<open>m\<close> is in force, and there is room for the databases.\<close>

definition reader_ready :: "MDB_env \<Rightarrow> MDB_txninfo \<Rightarrow> MDB_meta \<Rightarrow> bool" where
  "reader_ready e ti m \<longleftrightarrow> metas_ok e m \<and> me_txns e = Some ti \<and> mti_txnid ti = mm_txnid m \<and>
     \<not> anyset (me_flags e) MDB_FATAL_ERROR \<and> mti_numreaders ti \<le> me_maxreaders e \<and> me_maxreaders e \<le> length (mti_readers ti) \<and>
     2 \<le> me_maxdbs e \<and> me_numdbs e \<le> me_maxdbs e \<and> me_numdbs e \<le> length (me_dbflags e) \<and> mm_last_pg m + 1 \<le> me_maxpg e"

lemma claim_slot_spec:
  assumes "mti_numreaders ti \<le> me_maxreaders (env st)" "me_maxreaders (env st) \<le> length (mti_readers ti)" "me_txns (env st) = Some ti"
  shows "\<exists>i. (\<forall>x < i. mr_pid (mti_readers ti ! x) \<noteq> 0) \<and> i \<le> mti_numreaders ti \<and>
     (i < mti_numreaders ti \<longrightarrow> mr_pid (mti_readers ti ! i) = 0) \<and>
     claim_slot ti st = (if i = me_maxreaders (env st) then Some (MDB_READERS_FULL, i, st)
      else Some (0, i, upd_env (\<lambda>e. e\<lparr>me_numreaders := max (mti_numreaders ti) (Suc i),
        me_txns := Some (ti\<lparr>mti_readers := (mti_readers ti)[i := (mti_readers ti ! i)\<lparr>mr_pid := me_pid e, mr_tid := tid st\<rparr>],
          mti_numreaders := max (mti_numreaders ti) (Suc i)\<rparr>)\<rparr>) st))"
proof -
  obtain i where i: "free_slot (mti_readers ti) 0 (mti_numreaders ti) = Some i" "i \<le> mti_numreaders ti"
    "i < mti_numreaders ti \<longrightarrow> mr_pid (mti_readers ti ! i) = 0" "\<forall>x < i. mr_pid (mti_readers ti ! x) \<noteq> 0"
    using free_slot_spec [of 0 "mti_numreaders ti" "mti_readers ti"] assms(1,2) by auto
  have len: "i \<noteq> me_maxreaders (env st) \<Longrightarrow> i < length (mti_readers ti)" using i(2) assms(1,2) by simp
  then show ?thesis
    using i assms(3)
    by (intro exI [of _ i]) (auto simp: claim_slot_def Let_def upd_reader_def upd_ti_def upd_env_def max_def)
qed

definition claimed :: "MDB_txninfo \<Rightarrow> nat \<Rightarrow> nat \<Rightarrow> nat \<Rightarrow> MDB_txninfo" where
  "claimed ti i pid t = ti\<lparr>mti_readers := (mti_readers ti)[i := (mti_readers ti ! i)\<lparr>mr_pid := pid, mr_tid := t\<rparr>],
     mti_numreaders := max (mti_numreaders ti) (Suc i)\<rparr>"

lemma renew_slot_spec:
  assumes "\<forall>n. io_rc st n = 0" "get_txn st = Some t" "mt_reader t = None" "anyset (me_flags (env st)) MDB_NOTLS \<or> tls st = None"
    and "mti_numreaders ti \<le> me_maxreaders (env st)" "me_maxreaders (env st) \<le> length (mti_readers ti)" "me_txns (env st) = Some ti"
  shows "\<exists>i nn st'. (\<forall>x < i. mr_pid (mti_readers ti ! x) \<noteq> 0) \<and> i \<le> mti_numreaders ti \<and>
     (i < mti_numreaders ti \<longrightarrow> mr_pid (mti_readers ti ! i) = 0) \<and> txns st' = txns st \<and> io_rc st' = io_rc st \<and>
     renew_slot ti st = Some (if i = me_maxreaders (env st) then MDB_READERS_FULL else 0, nn, i, st') \<and>
     (if i = me_maxreaders (env st) then env st' = env st\<lparr>me_live_reader := True\<rparr>
      else env st' = env st\<lparr>me_live_reader := True, me_numreaders := max (mti_numreaders ti) (Suc i),
             me_txns := Some (claimed ti i (me_pid (env st)) (tid st))\<rparr> \<and>
           tls st' = (if anyset (me_flags (env st)) MDB_NOTLS then tls st else Some i))"
proof -
  define notls where "notls = anyset (me_flags (env st)) MDB_NOTLS"
  define st1 where "st1 = (if me_live_reader (env st) then st else st\<lparr>nio := nio st + 1, env := env st\<lparr>me_live_reader := True\<rparr>\<rparr>)"
  have s1: "env st1 = env st\<lparr>me_live_reader := True\<rparr>" "txns st1 = txns st" "io_rc st1 = io_rc st" "tid st1 = tid st" "tls st1 = tls st"
    by (simp_all add: st1_def)
  define st2 where "st2 = st1\<lparr>nio := nio st1 + 1\<rparr>"
  have s2: "env st2 = env st\<lparr>me_live_reader := True\<rparr>" "txns st2 = txns st" "io_rc st2 = io_rc st" "tid st2 = tid st" "tls st2 = tls st"
    by (simp_all add: st2_def s1)
  obtain i where i: "\<forall>x < i. mr_pid (mti_readers ti ! x) \<noteq> 0" "i \<le> mti_numreaders ti"
     "i < mti_numreaders ti \<longrightarrow> mr_pid (mti_readers ti ! i) = 0"
     "claim_slot ti st2 = (if i = me_maxreaders (env st2) then Some (MDB_READERS_FULL, i, st2)
      else Some (0, i, upd_env (\<lambda>e. e\<lparr>me_numreaders := max (mti_numreaders ti) (Suc i),
        me_txns := Some (ti\<lparr>mti_readers := (mti_readers ti)[i := (mti_readers ti ! i)\<lparr>mr_pid := me_pid e, mr_tid := tid st2\<rparr>],
          mti_numreaders := max (mti_numreaders ti) (Suc i)\<rparr>)\<rparr>) st2))"
    using claim_slot_spec [of ti st2] assms(5-7) s2(1) by auto
  have none: "(if notls then mt_reader t else tls st) = None" using assms(3,4) by (auto simp: notls_def)
  have pid: "(if \<not> me_live_reader (env st) then mdb_reader_pid Pidset (me_pid (env st)) st \<bind>
        (\<lambda>(rc, st). Some (rc, if rc \<noteq> 0 then st else upd_env (\<lambda>e. e\<lparr>me_live_reader := True\<rparr>) st)) else Some (0, st)) = Some (0, st1)"
    using assms(1) by (subst mdb_reader_pid.simps) (simp add: io_call_def st1_def upd_env_def)
  have "renew_slot ti st = claim_slot ti st2 \<bind> (\<lambda>(rc, i, st).
             if rc \<noteq> 0 then Some (rc, False, i, st)
             else if notls then Some (0, True, i, st)
             else do {
               let (rc, st) = io_call st;
               if rc \<noteq> 0 then Some (rc, False, i, upd_reader i (\<lambda>r. r\<lparr>mr_pid := 0\<rparr>) st)
               else Some (0, False, i, st\<lparr>tls := Some i\<rparr>) })"
    unfolding renew_slot_def Let_def notls_def [symmetric]
    using assms(1,2) none pid s1(3) by (simp add: io_call_def st2_def)
  moreover have "MDB_READERS_FULL \<noteq> 0" by (simp add: MDB_READERS_FULL_def)
  ultimately show ?thesis
    using i s2 assms(1)
    by (intro exI [of _ i] exI [of _ "i \<noteq> me_maxreaders (env st) \<and> notls"])
      (auto simp: io_call_def upd_env_def claimed_def notls_def)
qed

lemma release_reader: "txns st = [t] \<Longrightarrow> anyset (mt_flags t) MDB_TXN_RDONLY \<Longrightarrow> release_txn st = st\<lparr>txns := []\<rparr>"
  by (simp add: release_txn_def)

lemma rdonly_set [simp]: "anyset MDB_TXN_RDONLY MDB_TXN_RDONLY"
  by (simp add: anyset_def MDB_TXN_RDONLY_def)

lemma reader_record [simp]: "r\<lparr>mr_pid := p, mr_tid := q, mr_txnid := n\<rparr> = \<lparr>mr_txnid = n, mr_pid = p, mr_tid = q\<rparr>"
  by (cases r) simp

text \<open>The running transaction reads the snapshot of the meta page \<open>m\<close>, registered in slot \<open>i\<close>.\<close>

definition reads_snapshot :: "MDB_meta \<Rightarrow> nat \<Rightarrow> st \<Rightarrow> bool" where
  "reads_snapshot m i st \<longleftrightarrow> (\<exists>t. txns st = [t] \<and> mt_txnid t = mm_txnid m \<and> mt_reader t = Some i \<and> mt_flags t = MDB_TXN_RDONLY \<and>
     mt_dbs t ! FREE_DBI = mm_dbs m ! FREE_DBI \<and> mt_dbs t ! MAIN_DBI = mm_dbs m ! MAIN_DBI \<and> mt_next_pgno t = mm_last_pg m + 1)"

definition register :: "MDB_meta \<Rightarrow> nat \<Rightarrow> MDB_txninfo \<Rightarrow> MDB_txninfo" where
  "register m i ti = ti\<lparr>mti_readers := (mti_readers ti)[i := (mti_readers ti ! i)\<lparr>mr_txnid := mm_txnid m\<rparr>]\<rparr>"

definition fresh_reader :: "MDB_env \<Rightarrow> MDB_txn" where
  "fresh_reader e = (zero_txn (me_maxdbs e))\<lparr>mt_flags := MDB_TXN_RDONLY, mt_numdbs := me_numdbs e, mt_dbxs := True\<rparr>"

text \<open>What follows the choice of the slot.\<close>

lemma begin_from_slot:
  assumes st: "txns st = []" "reader_ready (env st) ti m" "anyset flags MDB_RDONLY" "\<forall>n. mem_of st n"
    and slot: "renew_slot ti ((tick st)\<lparr>txns := [fresh_reader (env st)]\<rparr>) = Some (rc, nn, i, st2)" "txns st2 = [fresh_reader (env st)]"
      "env st2 = (env st)\<lparr>me_live_reader := x, me_numreaders := y, me_txns := Some ti1\<rparr>" "rc = 0 \<longrightarrow> i < length (mti_readers ti1)"
  shows "\<exists>st'. mdb_txn_begin None flags st = Some (rc, st') \<and> me_map (env st') = me_map (env st) \<and> me_metas (env st') = me_metas (env st) \<and>
     tls st' = tls st2 \<and> (if rc = 0 then reads_snapshot m i st' \<and> me_txns (env st') = Some (register m i ti1)
                          else txns st' = [] \<and> me_txns (env st') = Some ti1)"
proof -
  define e where "e = env st"
  have r: "metas_ok e m" "me_txns e = Some ti" "mti_txnid ti = mm_txnid m" "\<not> anyset (me_flags e) MDB_FATAL_ERROR"
    "2 \<le> me_maxdbs e" "me_numdbs e \<le> me_maxdbs e" "me_numdbs e \<le> length (me_dbflags e)" "\<not> me_maxpg e < mm_last_pg m + 1"
    using st(2) by (auto simp: reader_ready_def e_def)
  have len: "length (mm_dbs m) = 2" using r(1) by (elim metas_ok_cases) auto
  define t0 st1 where "t0 = fresh_reader e" and "st1 = (tick st)\<lparr>txns := [t0]\<rparr>"
  have s1: "env st1 = e" "get_txn st1 = Some t0" by (simp_all add: st1_def e_def get_txn_def tick_def)
  have slot1: "renew_slot ti st1 = Some (rc, nn, i, st2)" "txns st2 = [t0]"
    "env st2 = e\<lparr>me_live_reader := x, me_numreaders := y, me_txns := Some ti1\<rparr>"
    using slot by (simp_all add: st1_def t0_def e_def)
  have start: "mdb_txn_begin None flags st = mdb_txn_renew0 ((tick st)\<lparr>txns := [(zero_txn (me_maxdbs e))\<lparr>mt_flags := MDB_TXN_RDONLY\<rparr>]\<rparr>) \<bind>
      (\<lambda>(rc, st). Some (rc, if rc \<noteq> 0 then release_txn st else st))"
    using st(1,3,4) r(4) by (simp add: mdb_txn_begin_def Let_def e_def [symmetric])
  have upd1: "upd_txn (\<lambda>t. t\<lparr>mt_numdbs := me_numdbs e, mt_dbxs := True\<rparr>)
      ((tick st)\<lparr>txns := [(zero_txn (me_maxdbs e))\<lparr>mt_flags := MDB_TXN_RDONLY\<rparr>]\<rparr>) = st1"
    by (simp add: upd_txn_def st1_def t0_def fresh_reader_def)
  have fl: "anyset (mt_flags t0) MDB_TXN_RDONLY" by (simp add: t0_def fresh_reader_def)
  show ?thesis
  proof (cases "rc = 0")
    case False
    have "renew_reader st1 = Some (rc, False, None, st2)" using slot1(1) False r(2) s1(1) by (simp add: renew_reader_def)
    then have "mdb_txn_renew0 ((tick st)\<lparr>txns := [(zero_txn (me_maxdbs e))\<lparr>mt_flags := MDB_TXN_RDONLY\<rparr>]\<rparr>) = Some (rc, st2)"
      using upd1 s1(2) fl False by (simp add: mdb_txn_renew0_def e_def [symmetric] tick_def)
    then have "mdb_txn_begin None flags st = Some (rc, st2\<lparr>txns := []\<rparr>)"
      using start release_reader [OF slot1(2) fl] False by simp
    then show ?thesis using False slot1(3) by (intro exI [of _ "st2\<lparr>txns := []\<rparr>"]) (simp add: e_def)
  next
    case True
    define e3 where "e3 = (env st2)\<lparr>me_txns := Some (register m i ti1)\<rparr>"
    define t1 where "t1 = t0\<lparr>mt_txnid := mm_txnid m, mt_reader := Some i\<rparr>"
    define st3 where "st3 = st2\<lparr>env := e3, txns := [t1]\<rparr>"
    have "upd_txn (\<lambda>t. t\<lparr>mt_txnid := mm_txnid m, mt_reader := Some i\<rparr>)
        (upd_reader i (\<lambda>r. r\<lparr>mr_txnid := mm_txnid m\<rparr>) st2) = st3"
      using slot1(2,3) by (simp add: st3_def e3_def upd_reader_def upd_env_def upd_txn_def register_def t1_def)
    then have rr: "renew_reader st1 = Some (0, nn, Some m, st3)"
      using slot1 True r(2,3) s1(1) metas_rd [OF r(1)] by (simp add: renew_reader_def)
    define t2 where "t2 = t1\<lparr>mt_dbs := map (\<lambda>i. renew_db (env st3) m (mt_numdbs t1) i (mt_dbs t1 ! i)) [0..<length (mt_dbs t1)],
      mt_dbflags := map (\<lambda>i. renew_dbflag (env st3) (mt_numdbs t1) i (mt_dbflags t1 ! i)) [0..<length (mt_dbflags t1)],
      mt_next_pgno := mm_last_pg m + 1\<rparr>"
    have l1: "length (mt_dbs t1) = me_maxdbs e" "length (mt_dbflags t1) = me_maxdbs e" "mt_numdbs t1 = me_numdbs e"
      by (simp_all add: t1_def t0_def fresh_reader_def zero_txn_def)
    have s3: "get_txn st3 = Some t1" "txns st3 = [t1]" "me_dbflags (env st3) = me_dbflags e" "me_maxpg (env st3) = me_maxpg e"
      by (simp_all add: st3_def get_txn_def e3_def slot1(3))
    have u3: "upd_txn f st3 = st3\<lparr>txns := [f t1]\<rparr>" for f by (simp add: upd_txn_def s3(2))
    have "mdb_txn_renew0 ((tick st)\<lparr>txns := [(zero_txn (me_maxdbs e))\<lparr>mt_flags := MDB_TXN_RDONLY\<rparr>]\<rparr>) = Some (MDB_SUCCESS, st3\<lparr>txns := [t2]\<rparr>)"
      using upd1 s1(2) fl rr s3 r(5-8) len l1
      by (simp add: mdb_txn_renew0_def Let_def e_def [symmetric] tick_def t2_def u3)
    then have "mdb_txn_begin None flags st = Some (0, st3\<lparr>txns := [t2]\<rparr>)"
      using start by (simp add: MDB_SUCCESS_def)
    moreover have "mt_dbs t2 ! j = mm_dbs m ! j" if "j < 2" for j
      using that r(5) l1(1) by (simp add: t2_def renew_db_def)
    then have "reads_snapshot m i (st3\<lparr>txns := [t2]\<rparr>)"
      by (simp add: reads_snapshot_def t2_def t1_def t0_def fresh_reader_def FREE_DBI_def MAIN_DBI_def)
    ultimately show ?thesis using True slot1(3)
      by (intro exI [of _ "st3\<lparr>txns := [t2]\<rparr>"]) (simp add: st3_def e3_def e_def)
  qed
qed

lemma fresh_reader_simps [simp]: "mt_reader (fresh_reader e) = None"
  by (simp add: fresh_reader_def zero_txn_def)

lemma reader_env: "me_txns e = Some ti \<Longrightarrow> e\<lparr>me_live_reader := b\<rparr> = e\<lparr>me_live_reader := b, me_numreaders := me_numreaders e, me_txns := Some ti\<rparr>"
  by (cases e) simp

text \<open>A thread with a slot.\<close>

lemma begin_own_slot:
  assumes "txns st = []" and "reader_ready (env st) ti m" and "anyset flags MDB_RDONLY" and "\<forall>n. mem_of st n"
    and "\<not> anyset (me_flags (env st)) MDB_NOTLS" and "tls st = Some j" and "j < mti_numreaders ti"
  defines "ok \<equiv> mr_pid (mti_readers ti ! j) = me_pid (env st) \<and> mr_txnid (mti_readers ti ! j) = -1"
  shows "\<exists>st'. mdb_txn_begin None flags st = Some (if ok then 0 else MDB_BAD_RSLOT, st') \<and>
     me_map (env st') = me_map (env st) \<and> me_metas (env st') = me_metas (env st) \<and> tls st' = tls st \<and>
     (if ok then reads_snapshot m j st' \<and> me_txns (env st') = Some (register m j ti) else txns st' = [] \<and> me_txns (env st') = Some ti)"
proof -
  define st1 where "st1 = (tick st)\<lparr>txns := [fresh_reader (env st)]\<rparr>"
  have s1: "get_txn st1 = Some (fresh_reader (env st))" "env st1 = env st" "tls st1 = tls st" "io_rc st1 = io_rc st" "tid st1 = tid st"
    "txns st1 = [fresh_reader (env st)]" by (simp_all add: st1_def get_txn_def tick_def)
  have r: "me_txns (env st) = Some ti" "mti_numreaders ti \<le> me_maxreaders (env st)" "me_maxreaders (env st) \<le> length (mti_readers ti)"
    using assms(2) by (auto simp: reader_ready_def)
  note begin_with = begin_from_slot [OF assms(1-4), folded st1_def]
  define rc where "rc = (if ok then 0 else MDB_BAD_RSLOT)"
  have rc: "rc = 0 \<longleftrightarrow> ok" by (simp add: rc_def MDB_BAD_RSLOT_def)
  have run: "renew_slot ti st1 = Some (rc, False, j, st1)" using assms(5-7) r s1 by (auto simp: renew_slot_def Let_def ok_def rc_def)
  have "env st = (env st)\<lparr>me_live_reader := me_live_reader (env st)\<rparr>" by simp
  then have e: "env st1 = (env st)\<lparr>me_live_reader := me_live_reader (env st), me_numreaders := me_numreaders (env st), me_txns := Some ti\<rparr>"
    unfolding s1(2) using reader_env [OF r(1)] by (rule trans)
  show ?thesis using begin_with [OF run s1(6) e] assms(7) r s1(3) unfolding rc rc_def [symmetric] by auto
qed

text \<open>A thread without one.\<close>

lemma begin_new_slot:
  assumes "txns st = []" and "reader_ready (env st) ti m" and "anyset flags MDB_RDONLY" and "\<forall>n. mem_of st n"
    and "\<forall>n. io_rc st n = 0" and "anyset (me_flags (env st)) MDB_NOTLS \<or> tls st = None"
  defines "notls \<equiv> anyset (me_flags (env st)) MDB_NOTLS"
  shows "\<exists>i st'. mdb_txn_begin None flags st = Some (if i = me_maxreaders (env st) then MDB_READERS_FULL else 0, st') \<and>
     me_map (env st') = me_map (env st) \<and> me_metas (env st') = me_metas (env st) \<and>
     i \<le> mti_numreaders ti \<and> (\<forall>x < i. mr_pid (mti_readers ti ! x) \<noteq> 0) \<and> (i < mti_numreaders ti \<longrightarrow> mr_pid (mti_readers ti ! i) = 0) \<and>
     (if i = me_maxreaders (env st) then txns st' = [] \<and> me_txns (env st') = Some ti
      else reads_snapshot m i st' \<and> me_txns (env st') = Some (register m i (claimed ti i (me_pid (env st)) (tid st))) \<and>
        tls st' = (if notls then tls st else Some i))"
proof -
  define st1 where "st1 = (tick st)\<lparr>txns := [fresh_reader (env st)]\<rparr>"
  have s1: "get_txn st1 = Some (fresh_reader (env st))" "env st1 = env st" "tls st1 = tls st" "io_rc st1 = io_rc st" "tid st1 = tid st"
    "txns st1 = [fresh_reader (env st)]" by (simp_all add: st1_def get_txn_def tick_def)
  have r: "me_txns (env st) = Some ti" "mti_numreaders ti \<le> me_maxreaders (env st)" "me_maxreaders (env st) \<le> length (mti_readers ti)"
    using assms(2) by (auto simp: reader_ready_def)
  note begin_with = begin_from_slot [OF assms(1-4), folded st1_def]
  have pre: "\<forall>n. io_rc st1 n = 0" "get_txn st1 = Some (fresh_reader (env st))" "mt_reader (fresh_reader (env st)) = None"
    "anyset (me_flags (env st1)) MDB_NOTLS \<or> tls st1 = None" "mti_numreaders ti \<le> me_maxreaders (env st1)"
    "me_maxreaders (env st1) \<le> length (mti_readers ti)" "me_txns (env st1) = Some ti"
    using assms(5,6) r s1 by simp_all
  obtain i nn st2 where i: "\<forall>x < i. mr_pid (mti_readers ti ! x) \<noteq> 0" "i \<le> mti_numreaders ti"
     "i < mti_numreaders ti \<longrightarrow> mr_pid (mti_readers ti ! i) = 0" "txns st2 = txns st1"
     "renew_slot ti st1 = Some (if i = me_maxreaders (env st) then MDB_READERS_FULL else 0, nn, i, st2)"
     "if i = me_maxreaders (env st) then env st2 = (env st)\<lparr>me_live_reader := True\<rparr>
      else env st2 = (env st)\<lparr>me_live_reader := True, me_numreaders := max (mti_numreaders ti) (Suc i),
           me_txns := Some (claimed ti i (me_pid (env st)) (tid st))\<rparr> \<and> tls st2 = (if notls then tls st else Some i)"
    using renew_slot_spec [OF pre] unfolding notls_def s1(2,3,5) by blast
  show ?thesis
  proof (cases "i = me_maxreaders (env st)")
    case True
    then have run: "renew_slot ti st1 = Some (MDB_READERS_FULL, nn, i, st2)" using i(5) by simp
    have t2: "txns st2 = [fresh_reader (env st)]" using i(4) s1(6) by simp
    have e: "env st2 = (env st)\<lparr>me_live_reader := True, me_numreaders := me_numreaders (env st), me_txns := Some ti\<rparr>"
      by (rule trans [OF _ reader_env [OF r(1)]]) (use i(6) True in simp)
    obtain st' where "mdb_txn_begin None flags st = Some (MDB_READERS_FULL, st')"
      "me_map (env st') = me_map (env st)" "me_metas (env st') = me_metas (env st)" "txns st' = []" "me_txns (env st') = Some ti"
      using begin_with [OF run t2 e] by (auto simp: MDB_READERS_FULL_def)
    then show ?thesis using i(1-3) True by (intro exI [of _ i] exI [of _ st']) simp
  next
    case False
    then have run: "renew_slot ti st1 = Some (0, nn, i, st2)" using i(5) by simp
    have t2: "txns st2 = [fresh_reader (env st)]" using i(4) s1(6) by simp
    have e: "env st2 = (env st)\<lparr>me_live_reader := True, me_numreaders := max (mti_numreaders ti) (Suc i),
        me_txns := Some (claimed ti i (me_pid (env st)) (tid st))\<rparr>" using i(6) False by simp
    have "i < length (mti_readers (claimed ti i (me_pid (env st)) (tid st)))" using i(2) False r by (simp add: claimed_def)
    then obtain st' where "mdb_txn_begin None flags st = Some (0, st')" "me_map (env st') = me_map (env st)"
      "me_metas (env st') = me_metas (env st)" "tls st' = tls st2" "reads_snapshot m i st'"
      "me_txns (env st') = Some (register m i (claimed ti i (me_pid (env st)) (tid st)))"
      using begin_with [OF run t2 e] by auto
    then show ?thesis using i(1-3,6) False by (intro exI [of _ i] exI [of _ st']) simp
  qed
qed

text \<open>
  C16: \<open>mdb_txn_begin\<close> of a read-only transaction, when memory and the system calls are given.  A thread
  that has a reader slot uses it again if it is its process's and not in use; otherwise the result is
  \<open>MDB_BAD_RSLOT\<close>.  A thread without one (always so with \<open>MDB_NOTLS\<close>) takes the first free slot, or gets
  \<open>MDB_READERS_FULL\<close> when the table is full; without \<open>MDB_NOTLS\<close> the slot becomes the thread's.  On an
  error nothing is started and no slot changes.  On success the slot holds the number of the committed
  transaction, every other slot is as before, and the transaction has that number, the committed records
  and the committed last page.  The file and the meta pages stay as they are.
\<close>

theorem begin_reader_pins_snapshot:
  assumes "txns st = []" and "reader_ready (env st) ti m" and "anyset flags MDB_RDONLY"
    and "\<forall>j. tls st = Some j \<longrightarrow> j < mti_numreaders ti" and "\<forall>n. io_rc st n = 0" and "\<forall>n. mem_of st n"
  shows "\<exists>i rc st'. mdb_txn_begin None flags st = Some (rc, st') \<and>
     me_map (env st') = me_map (env st) \<and> me_metas (env st') = me_metas (env st) \<and>
     (case if anyset (me_flags (env st)) MDB_NOTLS then None else tls st of
        Some j \<Rightarrow> i = j \<and> tls st' = tls st \<and>
          (if mr_pid (mti_readers ti ! j) = me_pid (env st) \<and> mr_txnid (mti_readers ti ! j) = -1
           then rc = 0 \<and> reads_snapshot m i st' \<and> me_txns (env st') = Some (register m i ti)
           else rc = MDB_BAD_RSLOT \<and> txns st' = [] \<and> me_txns (env st') = Some ti)
      | None \<Rightarrow> i \<le> mti_numreaders ti \<and> (\<forall>x < i. mr_pid (mti_readers ti ! x) \<noteq> 0) \<and>
          (i < mti_numreaders ti \<longrightarrow> mr_pid (mti_readers ti ! i) = 0) \<and>
          (if i = me_maxreaders (env st) then rc = MDB_READERS_FULL \<and> txns st' = [] \<and> me_txns (env st') = Some ti
           else rc = 0 \<and> reads_snapshot m i st' \<and> me_txns (env st') = Some (register m i (claimed ti i (me_pid (env st)) (tid st))) \<and>
             tls st' = (if anyset (me_flags (env st)) MDB_NOTLS then tls st else Some i)))"
proof (cases "if anyset (me_flags (env st)) MDB_NOTLS then None else tls st")
  case (Some j)
  then have j: "\<not> anyset (me_flags (env st)) MDB_NOTLS" "tls st = Some j" "j < mti_numreaders ti" using assms(4) by (auto split: if_splits)
  define rc where "rc = (if mr_pid (mti_readers ti ! j) = me_pid (env st) \<and> mr_txnid (mti_readers ti ! j) = -1 then 0 else MDB_BAD_RSLOT)"
  obtain st' where "mdb_txn_begin None flags st = Some (rc, st')" "me_map (env st') = me_map (env st)" "me_metas (env st') = me_metas (env st)"
    "tls st' = tls st" "if mr_pid (mti_readers ti ! j) = me_pid (env st) \<and> mr_txnid (mti_readers ti ! j) = -1
       then reads_snapshot m j st' \<and> me_txns (env st') = Some (register m j ti) else txns st' = [] \<and> me_txns (env st') = Some ti"
    using begin_own_slot [OF assms(1-3,6) j, folded rc_def] by blast
  then show ?thesis using j by (intro exI [of _ j] exI [of _ rc] exI [of _ st']) (simp add: rc_def)
next
  case None
  then have "anyset (me_flags (env st)) MDB_NOTLS \<or> tls st = None" by (auto split: if_splits)
  from begin_new_slot [OF assms(1-3,6,5) this] obtain i st' where
    "mdb_txn_begin None flags st = Some (if i = me_maxreaders (env st) then MDB_READERS_FULL else 0, st')"
    "me_map (env st') = me_map (env st)" "me_metas (env st') = me_metas (env st)" "i \<le> mti_numreaders ti"
    "\<forall>x < i. mr_pid (mti_readers ti ! x) \<noteq> 0" "i < mti_numreaders ti \<longrightarrow> mr_pid (mti_readers ti ! i) = 0"
    "if i = me_maxreaders (env st) then txns st' = [] \<and> me_txns (env st') = Some ti
     else reads_snapshot m i st' \<and> me_txns (env st') = Some (register m i (claimed ti i (me_pid (env st)) (tid st))) \<and>
       tls st' = (if anyset (me_flags (env st)) MDB_NOTLS then tls st else Some i)"
    by (elim exE conjE) (rule that; assumption)
  then show ?thesis unfolding None
    by (intro exI [of _ i] exI [of _ "if i = me_maxreaders (env st) then MDB_READERS_FULL else 0"] exI [of _ st']) simp
qed

lemma begin_reader_pins_snapshot_witness:
  "\<exists>st'. mdb_txn_begin None MDB_RDONLY sample_st = Some (0, st') \<and> reads_snapshot (sample_meta 6) 1 st'"
proof -
  have ready: "reader_ready (env sample_st) sample_ti (sample_meta 6)"
    using sample_metas_ok(1) by (simp add: reader_ready_def)
  have fl: "anyset MDB_RDONLY MDB_RDONLY" by (simp add: anyset_def MDB_RDONLY_def)
  obtain i rc st' where r: "mdb_txn_begin None MDB_RDONLY sample_st = Some (rc, st')" "i \<le> 2"
     "\<forall>x < i. mr_pid (mti_readers sample_ti ! x) \<noteq> 0" "i < 2 \<longrightarrow> mr_pid (mti_readers sample_ti ! i) = 0"
     "i \<noteq> 3 \<longrightarrow> rc = 0 \<and> reads_snapshot (sample_meta 6) i st'"
    using begin_reader_pins_snapshot [OF _ ready fl] by (auto split: if_splits)
  have "i = 1"
  proof -
    have "i \<noteq> 0" using r(4) by (intro notI) simp
    moreover have "i \<noteq> 2" using r(3) [rule_format, of 1] by (intro notI) simp
    ultimately show ?thesis using r(2) by linarith
  qed
  then show ?thesis using r by auto
qed

section \<open>The oldest snapshot in use\<close>

lemma find_oldest_loop_spec:
  assumes "i \<le> length rs"
  shows "\<exists>old. find_oldest_loop rs i lim = Some old \<and> old \<le> lim \<and>
     (\<forall>j < i. mr_pid (rs ! j) \<noteq> 0 \<longrightarrow> old \<le> mr_txnid (rs ! j)) \<and>
     (old = lim \<or> (\<exists>j < i. mr_pid (rs ! j) \<noteq> 0 \<and> mr_txnid (rs ! j) = old))"
  using assms
proof (induction i arbitrary: lim)
  case (Suc i)
  define lim1 where "lim1 = (if mr_pid (rs ! i) \<noteq> 0 \<and> mr_txnid (rs ! i) < lim then mr_txnid (rs ! i) else lim)"
  obtain old where o': "find_oldest_loop rs i lim1 = Some old" "old \<le> lim1"
     "\<forall>j < i. mr_pid (rs ! j) \<noteq> 0 \<longrightarrow> old \<le> mr_txnid (rs ! j)"
     "old = lim1 \<or> (\<exists>j < i. mr_pid (rs ! j) \<noteq> 0 \<and> mr_txnid (rs ! j) = old)"
    using Suc.IH [of lim1] Suc.prems by auto
  have "find_oldest_loop rs (Suc i) lim = Some old"
    using o'(1) Suc.prems by (auto simp: rd_def lim1_def Let_def)
  moreover have "old \<le> lim" "mr_pid (rs ! i) \<noteq> 0 \<longrightarrow> old \<le> mr_txnid (rs ! i)"
    using o'(2) by (auto simp: lim1_def split: if_splits)
  moreover have "lim1 = lim \<or> mr_pid (rs ! i) \<noteq> 0 \<and> mr_txnid (rs ! i) = lim1" by (simp add: lim1_def)
  ultimately show ?case using o'(3,4) by (metis less_Suc_eq)
qed simp

text \<open>
  C17: \<open>mdb_find_oldest\<close>, below which the writer takes freed pages again, is the least of the number before
  the writer's and the numbers of all slots in use: it is not above any snapshot in use.
\<close>

theorem find_oldest_is_minimum:
  assumes "get_txn st = Some t" and "me_txns (env st) = Some ti" and "mti_numreaders ti \<le> length (mti_readers ti)"
  shows "\<exists>old. mdb_find_oldest st = Some old \<and> old \<le> mt_txnid t - 1 \<and>
     (\<forall>j < mti_numreaders ti. mr_pid (mti_readers ti ! j) \<noteq> 0 \<longrightarrow> old \<le> mr_txnid (mti_readers ti ! j)) \<and>
     (old = mt_txnid t - 1 \<or> (\<exists>j < mti_numreaders ti. mr_pid (mti_readers ti ! j) \<noteq> 0 \<and> mr_txnid (mti_readers ti ! j) = old))"
  using find_oldest_loop_spec [OF assms(3)] assms(1,2) by (simp add: mdb_find_oldest_def)

lemma find_oldest_is_minimum_witness:
  "\<exists>old. mdb_find_oldest sample_wst = Some old \<and> old \<le> 5 \<and> (old = 6 \<or> (\<exists>j < 2. mr_txnid (mti_readers sample_ti ! j) = old))"
  using find_oldest_is_minimum [of sample_wst sample_txn sample_ti] by fastforce

end
