(* ===== verification/Lmdb_Env.thy ===== *)
theory Lmdb_Env
  imports Lmdb_Commit
begin

text \<open>
  The environment and its databases (\<open>LegacyDatabase/mdb.c\<close>): creating and opening, flags,
  statistics, opening, closing and dropping named databases, comparators, and clearing the reader
  slots of dead processes.
\<close>

section \<open>Creating and opening\<close>

definition zero_env :: MDB_env where
  "zero_env = \<lparr>me_flags = 0, me_psize = 0, me_os_psize = 0, me_maxreaders = 0, me_numreaders = 0,
     me_numdbs = 0, me_maxdbs = 0, me_pid = 0, me_mapaddr = 0, me_map = (\<lambda>_. None), me_txns = None,
     me_metas = [], me_txn = False, me_txn0 = zero_txn 0, me_mapsize = 0, me_maxpg = 0, me_dbxs = [],
     me_dbflags = [], me_dbiseqs = [], me_pgoldest = 0, me_pglast = 0, me_pghead = None, me_dpages = [],
     me_free_pgs = \<lparr>idl_len = 0, idl_ids = []\<rparr>, me_maxfree_1pg = 0, me_nodemax = 0,
     me_live_reader = False\<rparr>"

text \<open>The file handles are not part of the model; the process and the system's page size are arguments.\<close>

definition mdb_env_create :: "nat \<Rightarrow> nat \<Rightarrow> st \<Rightarrow> int \<times> st" where
  "mdb_env_create pid os_psize st =
     (if \<not> mem_of st 1 then (ENOMEM, tick st)
      else (MDB_SUCCESS, (tick st)\<lparr>env := zero_env\<lparr>me_maxreaders := DEFAULT_READERS, me_maxdbs := 2,
              me_numdbs := 2, me_pid := pid, me_os_psize := os_psize\<rparr>\<rparr>))"

text \<open>\<open>((me_psize - PAGEHDRSZ) / MDB_MINKEYS) & -2) - sizeof(indx_t)\<close> and its neighbours.\<close>

definition page_limits :: "MDB_env \<Rightarrow> MDB_env" where
  "page_limits e = e\<lparr>
     me_maxfree_1pg := (me_psize e - PAGEHDRSZ) div sizeof_pgno_t - 1,
     me_nodemax := (me_psize e - PAGEHDRSZ) div MDB_MINKEYS div 2 * 2 - sizeof_indx_t,
     me_maxpg := of_nat (me_mapsize e div me_psize e)\<rparr>"

text \<open>\<open>if (!env->me_mapsize) ... else if (env->me_mapsize < meta.mm_mapsize) ...\<close>.\<close>

definition open_mapsize :: "bool \<Rightarrow> MDB_meta \<Rightarrow> nat \<Rightarrow> nat" where
  "open_mapsize newenv meta sz =
     (if sz = 0 then (if newenv then DEFAULT_MAPSIZE else unat (mm_mapsize meta))
      else if sz < unat (mm_mapsize meta) then
        (let minsize = unat ((mm_last_pg meta + 1) * of_nat (mm_psize meta)) in
         if sz < minsize then minsize else sz)
      else sz)"

text \<open>
  \<open>mdb_env_open2\<close>.  What the file holds is given by \<open>pread\<close>, \<open>mmap\<close> and \<open>pwrite\<close>; \<open>file_metas\<close> are
  the meta records that the map of an existing file shows.
\<close>

definition mdb_env_open2 :: "pread_fun \<Rightarrow> (nat \<Rightarrow> nat \<Rightarrow> int \<times> nat) \<Rightarrow> (nat \<Rightarrow> int \<times> int) \<Rightarrow> MDB_meta list \<Rightarrow> st \<Rightarrow>
    (int \<times> st) option" where
  "mdb_env_open2 pread mmap pwrite file_metas st =
     (let (i, meta) = mdb_env_read_header pread zero_meta in
      if i \<noteq> 0 \<and> i \<noteq> ENOENT then Some (i, st)
      else
        let newenv = (i \<noteq> 0);
            psize = (if newenv then min (me_os_psize (env st)) MAX_PAGESIZE else mm_psize meta);
            st = upd_env (\<lambda>e. e\<lparr>me_psize := psize, me_mapsize := open_mapsize newenv meta (me_mapsize e)\<rparr>) st;
            fixed = anyset (me_flags (env st)) MDB_FIXEDMAP;
            (rc, st) = mdb_env_map mmap file_metas (if fixed then unat (mm_address meta) else 0) st
        in if rc \<noteq> 0 then Some (rc, st)
        else do {
          let meta = (if newenv \<and> fixed then meta\<lparr>mm_address := of_nat (me_mapaddr (env st))\<rparr> else meta);
          (rc, st) \<leftarrow> (if newenv then do {
                         (rc, meta, metas, st) \<leftarrow> mdb_env_init_meta pwrite meta st;
                         Some (rc, if rc = 0 then upd_env (\<lambda>e. e\<lparr>me_metas := metas\<rparr>) st else st) }
                       else Some (0, st));
          if rc \<noteq> MDB_SUCCESS then Some (rc, st) else Some (MDB_SUCCESS, upd_env page_limits st) })"

text \<open>The write transaction's structure and lists that \<open>mdb_env_open\<close> allocates.\<close>

definition open_txn0 :: "nat \<Rightarrow> MDB_txn" where
  "open_txn0 maxdbs = (zero_txn maxdbs)\<lparr>mt_cursors := replicate maxdbs [], mt_dbiseqs := replicate maxdbs 0,
     mt_dirty_list := replicate MDB_IDL_UM_SIZE \<lparr>mid = 0, mptr = PNull\<rparr>\<rparr>"

definition open_alloc :: "MDB_env \<Rightarrow> MDB_env" where
  "open_alloc e = e\<lparr>me_dbxs := replicate (me_maxdbs e) \<lparr>md_name = [], md_cmp = None, md_dcmp = None\<rparr>,
     me_dbflags := replicate (me_maxdbs e) 0, me_dbiseqs := replicate (me_maxdbs e) 0,
     me_free_pgs := \<lparr>idl_len = of_nat MDB_IDL_UM_MAX, idl_ids = replicate (MDB_IDL_UM_MAX + 1) 0\<rparr>,
     me_txn0 := open_txn0 (me_maxdbs e)\<rparr>"

text \<open>\<open>mdb_env_close0\<close> gives up the reader slots of this process; \<open>i\<close> slots are left.\<close>

fun close_readers :: "nat \<Rightarrow> nat \<Rightarrow> MDB_reader list \<Rightarrow> MDB_reader list option" where
  "close_readers pid 0 rs = Some rs"
| "close_readers pid (Suc i) rs = do {
     r \<leftarrow> rd rs i;
     rs \<leftarrow> (if mr_pid r = pid then wr rs i (r\<lparr>mr_pid := 0\<rparr>) else Some rs);
     close_readers pid i rs }"

section \<open>Flags and statistics\<close>

definition CHANGEABLE :: "32 word" where
  "CHANGEABLE = MDB_NOSYNC OR MDB_NOMETASYNC OR MDB_MAPASYNC OR MDB_NOMEMINIT"

definition CHANGELESS :: "32 word" where
  "CHANGELESS = MDB_FIXEDMAP OR MDB_NOSUBDIR OR MDB_RDONLY OR MDB_WRITEMAP OR MDB_NOTLS OR MDB_NOLOCK OR
     MDB_NORDAHEAD"

definition mdb_env_set_flags :: "32 word \<Rightarrow> bool \<Rightarrow> st \<Rightarrow> int \<times> st" where
  "mdb_env_set_flags flag onoff st =
     (if anyset flag (if me_mapaddr (env st) \<noteq> 0 then NOT CHANGEABLE else NOT (CHANGEABLE OR CHANGELESS))
      then (EINVAL, st)
      else (MDB_SUCCESS, upd_env (\<lambda>e. e\<lparr>me_flags := if onoff then me_flags e OR flag
                                                     else me_flags e AND NOT flag\<rparr>) st))"

definition mdb_env_get_flags :: "st \<Rightarrow> 32 word" where
  "mdb_env_get_flags st = me_flags (env st)"

record MDB_stat =
  ms_psize :: nat
  ms_depth :: nat
  ms_branch_pages :: pgno_t
  ms_leaf_pages :: pgno_t
  ms_overflow_pages :: pgno_t
  ms_entries :: "64 word"

definition mdb_stat0 :: "MDB_env \<Rightarrow> MDB_db \<Rightarrow> MDB_stat" where
  "mdb_stat0 e db = \<lparr>ms_psize = me_psize e, ms_depth = unat (md_depth db),
     ms_branch_pages = md_branch_pages db, ms_leaf_pages = md_leaf_pages db,
     ms_overflow_pages = md_overflow_pages db, ms_entries = md_entries db\<rparr>"

definition mdb_env_stat :: "st \<Rightarrow> MDB_stat option" where
  "mdb_env_stat st = do {
     m \<leftarrow> picked_meta (env st);
     db \<leftarrow> rd (mm_dbs m) MAIN_DBI;
     Some (mdb_stat0 (env st) db) }"

record MDB_envinfo =
  ei_mapaddr :: "64 word"
  ei_mapsize :: nat
  ei_last_pgno :: pgno_t
  ei_last_txnid :: txnid_t
  ei_maxreaders :: nat
  ei_numreaders :: nat

definition mdb_env_info :: "st \<Rightarrow> MDB_envinfo option" where
  "mdb_env_info st = do {
     m \<leftarrow> picked_meta (env st);
     let e = env st;
     Some \<lparr>ei_mapaddr = mm_address m, ei_mapsize = me_mapsize e, ei_last_pgno = mm_last_pg m,
           ei_last_txnid = mm_txnid m, ei_maxreaders = me_maxreaders e,
           ei_numreaders = (case me_txns e of None \<Rightarrow> me_numreaders e | Some ti \<Rightarrow> mti_numreaders ti)\<rparr> }"

definition mdb_env_get_maxkeysize :: "st \<Rightarrow> nat" where
  "mdb_env_get_maxkeysize st = MDB_MAXKEYSIZE"

section \<open>Named databases\<close>

definition default_cmps :: "32 word \<Rightarrow> MDB_dbx \<Rightarrow> MDB_dbx" where
  "default_cmps f x = x\<lparr>
     md_cmp := Some (if anyset f MDB_REVERSEKEY then Cmp_memnr
                     else if anyset f MDB_INTEGERKEY then Cmp_cint else Cmp_memn),
     md_dcmp := (if \<not> anyset f MDB_DUPSORT then None
                 else Some (if anyset f MDB_INTEGERDUP then (if anyset f MDB_DUPFIXED then Cmp_int else Cmp_cint)
                            else if anyset f MDB_REVERSEDUP then Cmp_memnr else Cmp_memn))\<rparr>"

definition upd_dbx :: "nat \<Rightarrow> (MDB_dbx \<Rightarrow> MDB_dbx) \<Rightarrow> st \<Rightarrow> st" where
  "upd_dbx i f = upd_env (\<lambda>e. e\<lparr>me_dbxs := (me_dbxs e)[i := f (me_dbxs e ! i)]\<rparr>)"

definition mdb_default_cmp :: "nat \<Rightarrow> st \<Rightarrow> st option" where
  "mdb_default_cmp dbi st = do {
     db \<leftarrow> get_db st dbi;
     x \<leftarrow> get_dbx st dbi;
     Some (upd_dbx dbi (default_cmps (ucast (md_flags db))) st) }"

text \<open>Default comparators when none is set.\<close>

definition ensure_cmp :: "nat \<Rightarrow> st \<Rightarrow> st option" where
  "ensure_cmp dbi st = do {
     x \<leftarrow> get_dbx st dbi;
     if md_cmp x = None then mdb_default_cmp dbi st else Some st }"

text \<open>
  \<open>for (i=2; i<txn->mt_numdbs; i++)\<close>: the handle of the name, or the first slot without a name;
  \<open>k\<close> slots are left.
\<close>

fun find_dbi :: "MDB_dbx list \<Rightarrow> byte list \<Rightarrow> nat \<Rightarrow> nat \<Rightarrow> nat option \<Rightarrow> (nat option \<times> nat option) option" where
  "find_dbi xs name i 0 unused = Some (None, unused)"
| "find_dbi xs name i (Suc k) unused = do {
     x \<leftarrow> rd xs i;
     if md_name x = [] then find_dbi xs name (i + 1) k (if unused = None then Some i else unused)
     else if md_name x = name then Some (Some i, unused)
     else find_dbi xs name (i + 1) k unused }"

text \<open>The record of a named database: found, or created with \<open>MDB_CREATE\<close>.  The flag says created.\<close>

definition lookup_db :: "byte list \<Rightarrow> 32 word \<Rightarrow> st \<Rightarrow> (int \<times> MDB_db option \<times> bool \<times> st) option" where
  "lookup_db name flags st = do {
     let (mc, st) = local_cursor (blank_cursor MAIN_DBI) st;
     st \<leftarrow> mdb_cursor_init mc MAIN_DBI st;
     (rc, k, data, st) \<leftarrow> mdb_cursor_set mc name True MDB_SET True st;
     if rc = MDB_SUCCESS then do {
       mp \<leftarrow> top_page st mc;
       ki \<leftarrow> top_ki st mc;
       nd \<leftarrow> NODEPTR mp ki;
       if \<not> node_isset nd F_SUBDATA then Some (MDB_INCOMPATIBLE, None, False, drop_cursor mc st)
       else do {
         d \<leftarrow> data;
         db \<leftarrow> db_of_bytes d;
         Some (rc, Some db, False, drop_cursor mc st) } }
     else if rc = MDB_NOTFOUND \<and> anyset flags MDB_CREATE then do {
       let dummy = zero_db\<lparr>md_root := P_INVALID, md_flags := ucast (flags AND PERSISTENT_FLAGS)\<rparr>;
       (rc, d, st) \<leftarrow> mdb_cursor_put mc name (val_of (bytes_of_db dummy)) F_SUBDATA st;
       Some (rc, Some dummy, True, drop_cursor mc st) }
     else Some (rc, None, False, drop_cursor mc st) }"

text \<open>The handle of a found or created database.\<close>

definition install_db :: "nat \<Rightarrow> byte list \<Rightarrow> MDB_db \<Rightarrow> 8 word \<Rightarrow> st \<Rightarrow> st option" where
  "install_db slot name db dbflag st = do {
     x \<leftarrow> get_dbx st slot;
     n \<leftarrow> rd (me_dbiseqs (env st)) slot;
     let st = upd_dbx slot (\<lambda>x. x\<lparr>md_name := name\<rparr>) st;
     let st = upd_env (\<lambda>e. e\<lparr>me_dbiseqs := (me_dbiseqs e)[slot := n + 1]\<rparr>) st;
     let st = upd_txn (\<lambda>t. t\<lparr>mt_dbflags := (mt_dbflags t)[slot := dbflag],
                mt_dbiseqs := (mt_dbiseqs t)[slot := n + 1], mt_dbs := (mt_dbs t)[slot := db]\<rparr>) st;
     mdb_default_cmp slot st }"

text \<open>The return code and the handle.\<close>

definition mdb_dbi_open :: "byte list option \<Rightarrow> 32 word \<Rightarrow> st \<Rightarrow> (int \<times> nat option \<times> st) option" where
  "mdb_dbi_open name flags st = do {
     st \<leftarrow> ensure_cmp FREE_DBI st;
     t \<leftarrow> get_txn st;
     if flags AND VALID_FLAGS \<noteq> flags then Some (EINVAL, None, st)
     else if anyset (mt_flags t) MDB_TXN_ERROR then Some (MDB_BAD_TXN, None, st)
     else do {
       db \<leftarrow> get_db st MAIN_DBI;
       case name of
         None \<Rightarrow> do {
           let f2 = ucast (flags AND PERSISTENT_FLAGS);
           let st = (if anyset flags PERSISTENT_FLAGS \<and> md_flags db OR f2 \<noteq> md_flags db
                     then upd_txn (\<lambda>t. t\<lparr>mt_flags := mt_flags t OR MDB_TXN_DIRTY\<rparr>)
                            (upd_db MAIN_DBI (\<lambda>d. d\<lparr>md_flags := md_flags d OR f2\<rparr>) st)
                     else st);
           st \<leftarrow> mdb_default_cmp MAIN_DBI st;
           Some (MDB_SUCCESS, Some MAIN_DBI, st) }
       | Some name \<Rightarrow> do {
           st \<leftarrow> ensure_cmp MAIN_DBI st;
           (found, unused) \<leftarrow> find_dbi (me_dbxs (env st)) name 2 (mt_numdbs t - 2) None;
           if found \<noteq> None then Some (MDB_SUCCESS, found, st)
           else if unused = None \<and> mt_numdbs t \<ge> me_maxdbs (env st) then Some (MDB_DBS_FULL, None, st)
           else if anyset (ucast (md_flags db)) (MDB_DUPSORT OR MDB_INTEGERKEY)
           then Some (if anyset flags MDB_CREATE then MDB_INCOMPATIBLE else MDB_NOTFOUND, None, st)
           else do {
             (rc, rec, created, st) \<leftarrow> lookup_db name flags st;
             if rc \<noteq> MDB_SUCCESS then Some (rc, None, st)
             else do {
               db \<leftarrow> rec;
               let slot = (case unused of None \<Rightarrow> mt_numdbs t | Some i \<Rightarrow> i);
               st \<leftarrow> install_db slot name db
                       (DB_NEW OR DB_VALID OR (if created then DB_DIRTY else 0)) st;
               Some (MDB_SUCCESS, Some slot,
                 if unused = None then upd_txn (\<lambda>t. t\<lparr>mt_numdbs := mt_numdbs t + 1\<rparr>) st else st) } } } } }"

text \<open>The code and the statistics.\<close>

definition mdb_stat :: "nat \<Rightarrow> st \<Rightarrow> (int \<times> MDB_stat option \<times> st) option" where
  "mdb_stat dbi st = do {
     t \<leftarrow> get_txn st;
     if \<not> TXN_DBI_EXIST t dbi then Some (EINVAL, None, st)
     else if anyset (mt_flags t) MDB_TXN_ERROR then Some (MDB_BAD_TXN, None, st)
     else do {
       fl \<leftarrow> get_dbflag st dbi;
       st \<leftarrow> (if anyset fl DB_STALE then do {
                let (mc, st) = local_cursor (blank_cursor dbi) st;
                st \<leftarrow> mdb_cursor_init mc dbi st;
                Some (drop_cursor mc st) }
              else Some st);
       db \<leftarrow> get_db st dbi;
       Some (MDB_SUCCESS, Some (mdb_stat0 (env st) db), st) } }"

definition mdb_dbi_close :: "nat \<Rightarrow> st \<Rightarrow> st option" where
  "mdb_dbi_close dbi st =
     (if dbi \<le> MAIN_DBI \<or> dbi \<ge> me_maxdbs (env st) then Some st
      else do {
        x \<leftarrow> get_dbx st dbi;
        Some (if md_name x \<noteq> [] then
                upd_env (\<lambda>e. e\<lparr>me_dbxs := (me_dbxs e)[dbi := (me_dbxs e ! dbi)\<lparr>md_name := []\<rparr>],
                  me_dbflags := (me_dbflags e)[dbi := 0],
                  me_dbiseqs := (me_dbiseqs e)[dbi := me_dbiseqs e ! dbi + 1]\<rparr>) st
              else st) })"

definition mdb_dbi_flags :: "nat \<Rightarrow> st \<Rightarrow> (int \<times> 16 word option) option" where
  "mdb_dbi_flags dbi st = do {
     t \<leftarrow> get_txn st;
     if dbi = FREE_DBI \<or> \<not> TXN_DBI_EXIST t dbi then Some (EINVAL, None)
     else do { db \<leftarrow> get_db st dbi; Some (MDB_SUCCESS, Some (md_flags db AND PERSISTENT)) } }"

definition mdb_set_compare :: "nat \<Rightarrow> MDB_cmp_func \<Rightarrow> st \<Rightarrow> (int \<times> st) option" where
  "mdb_set_compare dbi cmp st = do {
     t \<leftarrow> get_txn st;
     if dbi = FREE_DBI \<or> \<not> TXN_DBI_EXIST t dbi then Some (EINVAL, st)
     else Some (MDB_SUCCESS, upd_dbx dbi (\<lambda>x. x\<lparr>md_cmp := Some cmp\<rparr>) st) }"

definition mdb_set_dupsort :: "nat \<Rightarrow> MDB_cmp_func \<Rightarrow> st \<Rightarrow> (int \<times> st) option" where
  "mdb_set_dupsort dbi cmp st = do {
     t \<leftarrow> get_txn st;
     if dbi = FREE_DBI \<or> \<not> TXN_DBI_EXIST t dbi then Some (EINVAL, st)
     else Some (MDB_SUCCESS, upd_dbx dbi (\<lambda>x. x\<lparr>md_dcmp := Some cmp\<rparr>) st) }"

section \<open>Emptying and deleting a database\<close>

text \<open>The overflow pages of the nodes of a leaf page, from node \<open>i\<close> on; \<open>k\<close> nodes are left.\<close>

fun drop_leaf :: "MDB_page \<Rightarrow> nat \<Rightarrow> nat \<Rightarrow> st \<Rightarrow> (int \<times> st) option" where
  "drop_leaf mp i 0 st = Some (0, st)"
| "drop_leaf mp i (Suc k) st = do {
     ni \<leftarrow> NODEPTR mp i;
     (rc, st) \<leftarrow>
       (if node_isset ni F_BIGDATA then do {
          pg \<leftarrow> load64 (NODEDATA ni);
          (rc, (omp, level), st) \<leftarrow> mdb_page_get st pg;
          if rc \<noteq> 0 then Some (rc, st)
          else do {
            om \<leftarrow> get_page st omp;
            mdb_cassert (IS_OVERFLOW om);
            t \<leftarrow> get_txn st;
            (rc, idl) \<leftarrow> mdb_midl_append_range (mem_of st) (mt_free_pgs t) pg (mp_pages om);
            Some (rc, set_free_pgs idl (tick st)) } }
        else Some (0, st));
     if rc \<noteq> 0 then Some (rc, st) else drop_leaf mp (i + 1) k st }"

text \<open>The children of a branch page.\<close>

fun drop_children :: "MDB_page \<Rightarrow> nat \<Rightarrow> nat \<Rightarrow> MDB_ID list \<Rightarrow> MDB_ID list option" where
  "drop_children mp i 0 ids = Some ids"
| "drop_children mp i (Suc k) ids = do {
     ni \<leftarrow> NODEPTR mp i;
     ids \<leftarrow> mdb_midl_xappend ids (NODEPGNO ni);
     drop_children mp (i + 1) k ids }"

definition drop_page :: "MDB_page \<Rightarrow> st \<Rightarrow> (int \<times> st) option" where
  "drop_page mp st =
     (let n = NUMKEYS mp in
      if IS_LEAF mp then drop_leaf mp 0 n st
      else do {
        t \<leftarrow> get_txn st;
        (rc, idl) \<leftarrow> mdb_midl_need (mem_of st) (mt_free_pgs t) n;
        let st = set_free_pgs idl (tick st);
        if rc \<noteq> 0 then Some (rc, st)
        else do {
          ids \<leftarrow> drop_children mp 0 n (idl_ids idl);
          Some (0, set_free_pgs (idl\<lparr>idl_ids := ids\<rparr>) st) } })"

text \<open>\<open>mdb_cursor_pop(mc)\<close> and back to the first page of every level below.\<close>

definition drop_rewind :: "MDB_cursor \<Rightarrow> MDB_cursor \<Rightarrow> MDB_cursor" where
  "drop_rewind mx c =
     (let c = mdb_cursor_pop c; n = mc_snum c in
      c\<lparr>mc_ki := map (\<lambda>i. if i = 0 \<or> i < n then 0 else mc_ki c ! i) [0..<length (mc_ki c)],
        mc_pg := map (\<lambda>i. if 1 \<le> i \<and> i < n then mc_pg mx ! i else mc_pg c ! i) [0..<length (mc_pg c)]\<rparr>)"

text \<open>\<open>while (mc->mc_snum > 0)\<close>: every page of the tree once; it need not end on a tree with a cycle.\<close>

partial_function (option) drop_loop :: "nat \<Rightarrow> MDB_cursor \<Rightarrow> st \<Rightarrow> (int \<times> st) option" where
  "drop_loop mc mx st = do {
     c \<leftarrow> crs st mc;
     if mc_snum c = 0 then Some (0, st)
     else do {
       mp \<leftarrow> top_page st mc;
       (rc, st) \<leftarrow> drop_page mp st;
       if rc \<noteq> 0 then Some (rc, st)
       else if mc_top c = 0 then Some (0, st)
       else do {
         (rc, st) \<leftarrow> mdb_cursor_sibling mc True (set_top_ki mc (NUMKEYS mp) st);
         if rc = 0 then drop_loop mc mx st
         else if rc \<noteq> MDB_NOTFOUND then Some (rc, st)
         else drop_loop mc mx (upd_cur mc (drop_rewind mx) st) } } }"

definition mdb_drop0 :: "nat \<Rightarrow> st \<Rightarrow> (int \<times> st) option" where
  "mdb_drop0 mc st = do {
     (rc, st) \<leftarrow> page_search no_touch mc None MDB_PS_FIRST st;
     if rc = MDB_SUCCESS then do {
       mp \<leftarrow> top_page st mc;
       let st = (if IS_LEAF2 mp then upd_cur mc mdb_cursor_pop st else st);
       c \<leftarrow> crs st mc;
       (rc, st) \<leftarrow> drop_loop mc (mdb_cursor_copy c (blank_cursor (mc_dbi c))) st;
       (rc, st) \<leftarrow>
         (if rc \<noteq> 0 then Some (rc, st)
          else do {
            t \<leftarrow> get_txn st;
            db \<leftarrow> get_db st (mc_dbi c);
            (rc, idl) \<leftarrow> mdb_midl_append (mem_of st) (mt_free_pgs t) (md_root db);
            Some (rc, set_free_pgs idl (tick st)) });
       Some (rc, if rc \<noteq> 0 then set_txn_error st else st) }
     else Some (if rc = MDB_NOTFOUND then MDB_SUCCESS else rc, st) }"

definition empty_db :: "MDB_db \<Rightarrow> MDB_db" where
  "empty_db d = d\<lparr>md_depth := 0, md_branch_pages := 0, md_leaf_pages := 0, md_overflow_pages := 0,
     md_entries := 0, md_root := P_INVALID\<rparr>"

fun uninit_cursors :: "nat list \<Rightarrow> st \<Rightarrow> st" where
  "uninit_cursors [] st = st"
| "uninit_cursors (m # ms) st = uninit_cursors ms (clear_flags m (C_INITIALIZED OR C_EOF) st)"

text \<open>With \<open>del\<close> the record and the handle go too; otherwise the database is left empty.\<close>

definition drop_record :: "nat \<Rightarrow> bool \<Rightarrow> st \<Rightarrow> (int \<times> st) option" where
  "drop_record dbi del st =
     (if del \<and> dbi > MAIN_DBI then do {
        x \<leftarrow> get_dbx st dbi;
        (rc, st) \<leftarrow> mdb_del0 MAIN_DBI (md_name x) 0 st;
        if rc = 0 then do { st \<leftarrow> mdb_dbi_close dbi (set_dbflag dbi DB_STALE st); Some (0, st) }
        else Some (rc, set_txn_error st) }
      else do {
        fl \<leftarrow> get_dbflag st dbi;
        Some (0, upd_txn (\<lambda>t. t\<lparr>mt_flags := mt_flags t OR MDB_TXN_DIRTY\<rparr>)
                   (upd_db dbi empty_db (set_dbflag dbi (fl OR DB_DIRTY) st))) })"

definition mdb_drop :: "nat \<Rightarrow> nat \<Rightarrow> st \<Rightarrow> (int \<times> st) option" where
  "mdb_drop dbi del st = do {
     t \<leftarrow> get_txn st;
     if del > 1 \<or> dbi = FREE_DBI \<or> \<not> TXN_DBI_EXIST t dbi then Some (EINVAL, st)
     else if F_ISSET (mt_flags t) MDB_TXN_RDONLY then Some (EACCES, st)
     else do {
       changed \<leftarrow> (if dbi > MAIN_DBI then dbi_changed st dbi else Some False);
       if changed then Some (MDB_BAD_DBI, st)
       else do {
         (rc, mc, st) \<leftarrow> mdb_cursor_open dbi st;
         if rc \<noteq> 0 then Some (rc, st)
         else do {
           mc \<leftarrow> mc;
           (rc, st) \<leftarrow> mdb_drop0 mc st;
           ms \<leftarrow> tracked st dbi;
           let st = uninit_cursors ms st;
           (rc, st) \<leftarrow> (if rc \<noteq> 0 then Some (rc, st) else drop_record dbi (del = 1) st);
           st \<leftarrow> mdb_cursor_close mc st;
           Some (rc, st) } } } }"

end
