(* ===== verification/Kv_Coder.thy ===== *)
theory Kv_Coder
  imports Lmdb_Bytes
begin

text \<open>
  The key-value coder (\<open>PSKeyValueEncoder.m\<close>, \<open>PSKeyValueDecoder.m\<close>), which writes the records that the
  application keeps in its stores: a record is a sequence of fields, each a key with its length, a type
  byte and a value.

  An \<open>NSString\<close> is the list of its UTF-8 bytes, a C string the list of the bytes before its \<open>NUL\<close>, and
  \<open>nil\<close> is \<open>None\<close>.  A pointer into the data of a decoder is an index into \<open>kd_mem\<close>, the bytes of the
  buffer: the code does not compare it with \<open>_end\<close> before it reads, so an index outside of the buffer is
  a read the model has no result for (\<open>None\<close>).  An object that follows the protocol \<open>PSCoding\<close> is a
  value of type \<open>'o\<close>; its class and its own methods are arguments.
\<close>

section \<open>Field types\<close>

definition PSKeyValueCoderFieldTypeString :: byte where "PSKeyValueCoderFieldTypeString = 1"
definition PSKeyValueCoderFieldTypeInt32 :: byte where "PSKeyValueCoderFieldTypeInt32 = 2"
definition PSKeyValueCoderFieldTypeInt64 :: byte where "PSKeyValueCoderFieldTypeInt64 = 3"
definition PSKeyValueCoderFieldTypeCustomClass :: byte where "PSKeyValueCoderFieldTypeCustomClass = 4"
definition PSKeyValueCoderFieldTypeArray :: byte where "PSKeyValueCoderFieldTypeArray = 5"
definition PSKeyValueCoderFieldTypeData :: byte where "PSKeyValueCoderFieldTypeData = 6"
definition PSKeyValueCoderFieldTypeInt32Array :: byte where "PSKeyValueCoderFieldTypeInt32Array = 7"
definition PSKeyValueCoderFieldTypeInt32Dictionary :: byte where "PSKeyValueCoderFieldTypeInt32Dictionary = 8"
definition PSKeyValueCoderFieldTypeDouble :: byte where "PSKeyValueCoderFieldTypeDouble = 9"

lemmas field_type_defs = PSKeyValueCoderFieldTypeString_def PSKeyValueCoderFieldTypeInt32_def PSKeyValueCoderFieldTypeInt64_def
  PSKeyValueCoderFieldTypeCustomClass_def PSKeyValueCoderFieldTypeArray_def PSKeyValueCoderFieldTypeData_def
  PSKeyValueCoderFieldTypeInt32Array_def PSKeyValueCoderFieldTypeInt32Dictionary_def PSKeyValueCoderFieldTypeDouble_def

section \<open>The encoder\<close>

text \<open>The state of an encoder is \<open>_data\<close>, the bytes written so far.\<close>

text \<open>
  \<open>writeLength\<close>: seven bits in a byte, the top bit set when more follow; \<open>k\<close> conditional bytes are
  left before the last one.
\<close>

fun length_bytes :: "nat \<Rightarrow> 32 word \<Rightarrow> byte list" where
  "length_bytes 0 value = [ucast (value AND 127)]"
| "length_bytes (Suc k) value =
     (if value > 127 then (ucast (value AND 127) OR 128) # length_bytes k (drop_bit 7 value) else length_bytes k value)"

definition writeLength :: "32 word \<Rightarrow> byte list \<Rightarrow> byte list" where
  "writeLength value data = data @ length_bytes 4 value"

definition int32_bytes :: "32 word \<Rightarrow> byte list" where
  "int32_bytes w = le_bytes 4 (unat w)"

text \<open>\<open>[data replaceBytesInRange:NSMakeRange(pos, 4) withBytes:...]\<close>.\<close>

definition replace_bytes :: "nat \<Rightarrow> byte list \<Rightarrow> byte list \<Rightarrow> byte list" where
  "replace_bytes pos bs data = take pos data @ bs @ drop (pos + length bs) data"

text \<open>The part that every method starts with: the key and the type.\<close>

definition write_key :: "byte list \<Rightarrow> byte \<Rightarrow> byte list \<Rightarrow> byte list" where
  "write_key key fieldType data = writeLength (of_nat (length key)) data @ key @ [fieldType]"

definition encodeStringForCKey :: "byte list option \<Rightarrow> byte list option \<Rightarrow> byte list \<Rightarrow> byte list" where
  "encodeStringForCKey string key data =
     (case (key, string) of
        (Some key, Some string) \<Rightarrow>
          writeLength (of_nat (length string)) (write_key key PSKeyValueCoderFieldTypeString data) @ string
      | _ \<Rightarrow> data)"

definition encodeInt32ForCKey :: "32 word \<Rightarrow> byte list option \<Rightarrow> byte list \<Rightarrow> byte list" where
  "encodeInt32ForCKey number key data =
     (case key of None \<Rightarrow> data | Some key \<Rightarrow> write_key key PSKeyValueCoderFieldTypeInt32 data @ int32_bytes number)"

definition encodeInt64ForCKey :: "64 word \<Rightarrow> byte list option \<Rightarrow> byte list \<Rightarrow> byte list" where
  "encodeInt64ForCKey number key data =
     (case key of None \<Rightarrow> data | Some key \<Rightarrow> write_key key PSKeyValueCoderFieldTypeInt64 data @ bytes64 number)"

text \<open>The length of what was written after position \<open>pos\<close>, stored there.\<close>

definition patch_length :: "nat \<Rightarrow> byte list \<Rightarrow> byte list" where
  "patch_length pos data = replace_bytes pos (int32_bytes (of_int (int (length data) - int pos - 4))) data"

text \<open>
  The class of an object (\<open>class_getName(object_getClass(object))\<close>) and its \<open>encodeWithKeyValueCoder:\<close>
  are the arguments \<open>cls\<close> and \<open>enc\<close>.
\<close>

definition encodeObjectValue :: "('o \<Rightarrow> byte list) \<Rightarrow> ('o \<Rightarrow> byte list \<Rightarrow> byte list) \<Rightarrow> 'o \<Rightarrow> byte list \<Rightarrow> byte list" where
  "encodeObjectValue cls enc obj data =
     (let pos = length data;
          data = data @ int32_bytes 0;
          data = data @ cls obj @ [0];
          data = enc obj data
      in patch_length pos data)"

definition encodeObjectForCKey :: "('o \<Rightarrow> byte list) \<Rightarrow> ('o \<Rightarrow> byte list \<Rightarrow> byte list) \<Rightarrow> 'o option \<Rightarrow> byte list option \<Rightarrow> byte list \<Rightarrow> byte list" where
  "encodeObjectForCKey cls enc obj key data =
     (case (key, obj) of
        (Some key, Some obj) \<Rightarrow> encodeObjectValue cls enc obj (write_key key PSKeyValueCoderFieldTypeCustomClass data)
      | _ \<Rightarrow> data)"

definition encodeArrayForCKey :: "('o \<Rightarrow> byte list) \<Rightarrow> ('o \<Rightarrow> byte list \<Rightarrow> byte list) \<Rightarrow> 'o list option \<Rightarrow> byte list option \<Rightarrow> byte list \<Rightarrow> byte list" where
  "encodeArrayForCKey cls enc array key data =
     (case (key, array) of
        (Some key, Some array) \<Rightarrow>
          (let data = write_key key PSKeyValueCoderFieldTypeArray data;
               pos = length data;
               data = data @ int32_bytes 0;
               data = writeLength (of_nat (length array)) data;
               data = fold (encodeObjectValue cls enc) array data
           in patch_length pos data)
      | _ \<Rightarrow> data)"

definition encodeDataForCKey :: "byte list option \<Rightarrow> byte list option \<Rightarrow> byte list \<Rightarrow> byte list" where
  "encodeDataForCKey bytes key data =
     (case (key, bytes) of
        (Some key, Some bytes) \<Rightarrow>
          writeLength (of_nat (length bytes)) (write_key key PSKeyValueCoderFieldTypeData data) @ bytes
      | _ \<Rightarrow> data)"

definition encodeBytesForCKey :: "byte list \<Rightarrow> byte list option \<Rightarrow> byte list \<Rightarrow> byte list" where
  "encodeBytesForCKey value key data =
     (case key of
        None \<Rightarrow> data
      | Some key \<Rightarrow> writeLength (of_nat (length value)) (write_key key PSKeyValueCoderFieldTypeData data) @ value)"

text \<open>A message to the array \<open>nil\<close> gives no elements.\<close>

definition encodeInt32ArrayForCKey :: "32 word list option \<Rightarrow> byte list option \<Rightarrow> byte list \<Rightarrow> byte list" where
  "encodeInt32ArrayForCKey value key data =
     (case key of
        None \<Rightarrow> data
      | Some key \<Rightarrow>
          (let value = (case value of None \<Rightarrow> [] | Some value \<Rightarrow> value);
               data = write_key key PSKeyValueCoderFieldTypeInt32Array data;
               data = data @ int32_bytes (of_nat (length value))
           in fold (\<lambda>number data. data @ int32_bytes number) value data))"

text \<open>The dictionary is the list of its entries in the order of \<open>allKeys\<close>.\<close>

definition encodeInt32DictionaryForCKey :: "('o \<Rightarrow> byte list) \<Rightarrow> ('o \<Rightarrow> byte list \<Rightarrow> byte list) \<Rightarrow> (32 word \<times> 'o) list option \<Rightarrow> byte list option \<Rightarrow>
    byte list \<Rightarrow> byte list" where
  "encodeInt32DictionaryForCKey cls enc value key data =
     (case key of
        None \<Rightarrow> data
      | Some key \<Rightarrow>
          (let value = (case value of None \<Rightarrow> [] | Some value \<Rightarrow> value);
               data = write_key key PSKeyValueCoderFieldTypeInt32Dictionary data;
               pos = length data;
               data = data @ int32_bytes 0;
               data = writeLength (of_nat (length value)) data;
               data = fold (\<lambda>(k, obj) data. encodeObjectValue cls enc obj (data @ int32_bytes k)) value data
           in patch_length pos data))"

text \<open>The bits of the \<open>double\<close>; this method does not test the key.\<close>

definition encodeDoubleForCKey :: "64 word \<Rightarrow> byte list \<Rightarrow> byte list \<Rightarrow> byte list" where
  "encodeDoubleForCKey value key data = write_key key PSKeyValueCoderFieldTypeDouble data @ bytes64 value"

text \<open>
  The methods with an \<open>NSString\<close> key write its UTF-8 bytes in the same way.  The one for objects takes
  the name from \<open>NSStringFromClass\<close>.
\<close>

definition encodeStringForKey :: "byte list option \<Rightarrow> byte list option \<Rightarrow> byte list \<Rightarrow> byte list" where
  "encodeStringForKey string key data =
     (case (key, string) of
        (Some keyData, Some stringData) \<Rightarrow>
          writeLength (of_nat (length stringData)) (write_key keyData PSKeyValueCoderFieldTypeString data) @ stringData
      | _ \<Rightarrow> data)"

definition encodeInt32ForKey :: "32 word \<Rightarrow> byte list option \<Rightarrow> byte list \<Rightarrow> byte list" where
  "encodeInt32ForKey number key data =
     (case key of None \<Rightarrow> data | Some keyData \<Rightarrow> write_key keyData PSKeyValueCoderFieldTypeInt32 data @ int32_bytes number)"

definition encodeInt64ForKey :: "64 word \<Rightarrow> byte list option \<Rightarrow> byte list \<Rightarrow> byte list" where
  "encodeInt64ForKey number key data =
     (case key of None \<Rightarrow> data | Some keyData \<Rightarrow> write_key keyData PSKeyValueCoderFieldTypeInt64 data @ bytes64 number)"

definition encodeObjectForKey :: "('o \<Rightarrow> byte list) \<Rightarrow> ('o \<Rightarrow> byte list \<Rightarrow> byte list) \<Rightarrow> 'o option \<Rightarrow> byte list option \<Rightarrow> byte list \<Rightarrow> byte list" where
  "encodeObjectForKey cls enc obj key data =
     (case (key, obj) of
        (Some keyData, Some obj) \<Rightarrow>
          (let data = write_key keyData PSKeyValueCoderFieldTypeCustomClass data;
               pos = length data;
               data = data @ int32_bytes 0;
               data = data @ cls obj;
               data = data @ [0];
               data = enc obj data
           in patch_length pos data)
      | _ \<Rightarrow> data)"

definition encodeArrayForKey :: "('o \<Rightarrow> byte list) \<Rightarrow> ('o \<Rightarrow> byte list \<Rightarrow> byte list) \<Rightarrow> 'o list option \<Rightarrow> byte list option \<Rightarrow> byte list \<Rightarrow> byte list" where
  "encodeArrayForKey cls enc array key data =
     (case (key, array) of
        (Some keyData, Some array) \<Rightarrow>
          (let data = write_key keyData PSKeyValueCoderFieldTypeArray data;
               pos = length data;
               data = data @ int32_bytes 0;
               data = writeLength (of_nat (length array)) data;
               data = fold (encodeObjectValue cls enc) array data
           in patch_length pos data)
      | _ \<Rightarrow> data)"

definition reset_encoder :: "byte list \<Rightarrow> byte list" where
  "reset_encoder data = []"

end
