(* ===== verification/Kv_Decoder.thy ===== *)
theory Kv_Decoder
  imports Kv_Coder
begin

text \<open>
  The decoder (\<open>PSKeyValueDecoder.m\<close>).  Its pointers \<open>_begin\<close>, \<open>_end\<close> and \<open>_currentPtr\<close> are indices into
  \<open>kd_mem\<close>; \<open>kd_data\<close> is \<open>_data\<close>.  The decoder \<open>_tempCoder\<close> for the fields of an object is set up anew
  for each object, so it is a value made where it is used.
\<close>

record PSKeyValueDecoder =
  kd_data :: "byte list option"
  kd_mem :: "byte list"
  kd_begin :: nat
  kd_end :: nat
  kd_cur :: nat

section \<open>Reading and skipping values\<close>

definition read_bytes :: "byte list \<Rightarrow> nat \<Rightarrow> nat \<Rightarrow> byte list option" where
  "read_bytes m p n = (if p + n \<le> length m then Some (take n (drop p m)) else None)"

definition load32_at :: "byte list \<Rightarrow> nat \<Rightarrow> 32 word option" where
  "load32_at m p = map_option of_nat (load 4 (drop p m))"

text \<open>\<open>readLength\<close>: \<open>i\<close> bytes are read already, and \<open>k\<close> more are possible after the next one.\<close>

fun read_length_from :: "nat \<Rightarrow> nat \<Rightarrow> 32 word \<Rightarrow> byte list \<Rightarrow> nat \<Rightarrow> (32 word \<times> nat) option" where
  "read_length_from 0 i result m p = do {
     b \<leftarrow> rd m p;
     Some (result OR push_bit (7 * i) (ucast (b AND 127)), p + 1) }"
| "read_length_from (Suc k) i result m p = do {
     b \<leftarrow> rd m p;
     let result = result OR push_bit (7 * i) (ucast (b AND 127));
     if b AND 128 \<noteq> 0 then read_length_from k (i + 1) result m (p + 1)
     else Some (result, p + 1) }"

definition readLength :: "byte list \<Rightarrow> nat \<Rightarrow> (32 word \<times> nat) option" where
  "readLength m p = read_length_from 4 0 0 m p"

text \<open>
  \<open>-[NSString initWithBytes:length:encoding:]\<close> with \<open>NSUTF8StringEncoding\<close> gives \<open>nil\<close> for bytes that are
  not UTF-8.
\<close>

fun utf8_tail :: "nat \<Rightarrow> byte \<Rightarrow> byte \<Rightarrow> byte list \<Rightarrow> byte list option" where
  "utf8_tail 0 lo hi bs = Some bs"
| "utf8_tail (Suc n) lo hi [] = None"
| "utf8_tail (Suc n) lo hi (b # bs) = (if lo \<le> b \<and> b \<le> hi then utf8_tail n 0x80 0xBF bs else None)"

lemma utf8_tail_length: "utf8_tail n lo hi bs = Some r \<Longrightarrow> length r \<le> length bs"
  by (induction n lo hi bs rule: utf8_tail.induct) (auto split: if_splits)

function utf8_valid :: "byte list \<Rightarrow> bool" where
  "utf8_valid [] = True"
| "utf8_valid (b # bs) =
     (case (if b < 0x80 then Some bs
            else if 0xC2 \<le> b \<and> b \<le> 0xDF then utf8_tail 1 0x80 0xBF bs
            else if b = 0xE0 then utf8_tail 2 0xA0 0xBF bs
            else if b = 0xED then utf8_tail 2 0x80 0x9F bs
            else if 0xE1 \<le> b \<and> b \<le> 0xEF then utf8_tail 2 0x80 0xBF bs
            else if b = 0xF0 then utf8_tail 3 0x90 0xBF bs
            else if 0xF1 \<le> b \<and> b \<le> 0xF3 then utf8_tail 3 0x80 0xBF bs
            else if b = 0xF4 then utf8_tail 3 0x80 0x8F bs
            else None) of
        None \<Rightarrow> False
      | Some r \<Rightarrow> utf8_valid r)"
  by pat_completeness auto
termination
  by (relation "measure length") (auto split: if_splits dest: utf8_tail_length simp: less_Suc_eq_le)

definition ns_string :: "byte list \<Rightarrow> byte list option" where
  "ns_string bs = (if utf8_valid bs then Some bs else None)"

definition readString :: "byte list \<Rightarrow> nat \<Rightarrow> (byte list option \<times> nat) option" where
  "readString m p = do {
     (stringLength, p) \<leftarrow> readLength m p;
     bs \<leftarrow> read_bytes m p (unat stringLength);
     Some (ns_string bs, p + unat stringLength) }"

definition skipString :: "byte list \<Rightarrow> nat \<Rightarrow> nat option" where
  "skipString m p = do {
     (stringLength, p) \<leftarrow> readLength m p;
     Some (p + unat stringLength) }"

definition readInt32 :: "byte list \<Rightarrow> nat \<Rightarrow> (32 word \<times> nat) option" where
  "readInt32 m p = do { number \<leftarrow> load32_at m p; Some (number, p + 4) }"

definition skipInt32 :: "nat \<Rightarrow> nat" where
  "skipInt32 p = p + 4"

definition readInt64 :: "byte list \<Rightarrow> nat \<Rightarrow> (64 word \<times> nat) option" where
  "readInt64 m p = do { number \<leftarrow> load64 (drop p m); Some (number, p + 8) }"

text \<open>The bits of the \<open>double\<close>.\<close>

definition readDouble :: "byte list \<Rightarrow> nat \<Rightarrow> (64 word \<times> nat) option" where
  "readDouble m p = do { number \<leftarrow> load64 (drop p m); Some (number, p + 8) }"

definition skipInt64 :: "nat \<Rightarrow> nat" where
  "skipInt64 p = p + 8"

text \<open>\<open>strlen\<close> and the characters before the \<open>NUL\<close>.\<close>

definition c_string :: "byte list \<Rightarrow> nat \<Rightarrow> byte list option" where
  "c_string m p = (if 0 \<in> set (drop p m) then Some (takeWhile (\<lambda>b. b \<noteq> 0) (drop p m)) else None)"

text \<open>
  \<open>rt\<close> stands for the runtime: \<open>objc_getClass\<close> and, for a class that is there, its
  \<open>initWithKeyValueCoder:\<close> (which gives an object or \<open>nil\<close>).
\<close>

type_synonym 'o runtime = "byte list \<Rightarrow> (PSKeyValueDecoder \<Rightarrow> 'o option option) option"

definition readObject :: "'o runtime \<Rightarrow> byte list \<Rightarrow> nat \<Rightarrow> ('o option \<times> nat) option" where
  "readObject rt m p = do {
     objectLength \<leftarrow> load32_at m p;
     let p = p + 4;
     let objectEnd = p + unat objectLength;
     className \<leftarrow> c_string m p;
     let p = p + (length className + 1);
     obj \<leftarrow> (case rt className of
              None \<Rightarrow> Some None
            | Some initWithKeyValueCoder \<Rightarrow>
                initWithKeyValueCoder \<lparr>kd_data = None, kd_mem = m, kd_begin = p, kd_end = objectEnd, kd_cur = p\<rparr>);
     Some (obj, objectEnd) }"

text \<open>The sum \<open>4 + objectLength\<close> is a \<open>uint32_t\<close>.\<close>

definition skipObject :: "byte list \<Rightarrow> nat \<Rightarrow> nat option" where
  "skipObject m p = do { objectLength \<leftarrow> load32_at m p; Some (p + unat (4 + objectLength)) }"

text \<open>The loop of \<open>readArray\<close> with \<open>n\<close> objects left.\<close>

fun read_objects :: "'o runtime \<Rightarrow> nat \<Rightarrow> byte list \<Rightarrow> nat \<Rightarrow> 'o list \<Rightarrow> 'o list option" where
  "read_objects rt 0 m p array = Some array"
| "read_objects rt (Suc n) m p array = do {
     (obj, p) \<leftarrow> readObject rt m p;
     read_objects rt n m p (case obj of None \<Rightarrow> array | Some obj \<Rightarrow> array @ [obj]) }"

definition readArray :: "'o runtime \<Rightarrow> byte list \<Rightarrow> nat \<Rightarrow> ('o list \<times> nat) option" where
  "readArray rt m p = do {
     objectLength \<leftarrow> load32_at m p;
     let p = p + 4;
     let objectEnd = p + unat objectLength;
     (count, p) \<leftarrow> readLength m p;
     array \<leftarrow> read_objects rt (unat count) m p [];
     Some (array, objectEnd) }"

definition skipArray :: "byte list \<Rightarrow> nat \<Rightarrow> nat option" where
  "skipArray m p = do { objectLength \<leftarrow> load32_at m p; Some (p + unat (4 + objectLength)) }"

text \<open>The loop of \<open>readInt32Dictionary\<close>.\<close>

fun read_entries :: "'o runtime \<Rightarrow> nat \<Rightarrow> byte list \<Rightarrow> nat \<Rightarrow> (32 word \<Rightarrow> 'o option) \<Rightarrow> (32 word \<Rightarrow> 'o option) option" where
  "read_entries rt 0 m p dict = Some dict"
| "read_entries rt (Suc n) m p dict = do {
     key \<leftarrow> load32_at m p;
     (obj, p) \<leftarrow> readObject rt m (p + 4);
     read_entries rt n m p (case obj of None \<Rightarrow> dict | Some obj \<Rightarrow> dict(key \<mapsto> obj)) }"

definition readInt32Dictionary :: "'o runtime \<Rightarrow> byte list \<Rightarrow> nat \<Rightarrow> ((32 word \<Rightarrow> 'o option) \<times> nat) option" where
  "readInt32Dictionary rt m p = do {
     objectLength \<leftarrow> load32_at m p;
     let p = p + 4;
     let objectEnd = p + unat objectLength;
     (count, p) \<leftarrow> readLength m p;
     dict \<leftarrow> read_entries rt (unat count) m p Map.empty;
     Some (dict, objectEnd) }"

definition skipInt32Dictionary :: "byte list \<Rightarrow> nat \<Rightarrow> nat option" where
  "skipInt32Dictionary m p = do { objectLength \<leftarrow> load32_at m p; Some (p + unat (4 + objectLength)) }"

definition readData :: "byte list \<Rightarrow> nat \<Rightarrow> (byte list \<times> nat) option" where
  "readData m p = do {
     (len, p) \<leftarrow> readLength m p;
     data \<leftarrow> read_bytes m p (unat len);
     Some (data, p + unat len) }"

text \<open>\<open>value\<close> is the buffer of the caller.\<close>

definition readBytes :: "byte list \<Rightarrow> nat \<Rightarrow> byte list \<Rightarrow> 32 word \<Rightarrow> (byte list \<times> nat) option" where
  "readBytes m p value maxLength = do {
     (len, p) \<leftarrow> readLength m p;
     let n = unat (min maxLength len);
     data \<leftarrow> read_bytes m p n;
     mdb_cassert (n \<le> length value);
     Some (data @ drop n value, p + unat len) }"

definition skipData :: "byte list \<Rightarrow> nat \<Rightarrow> nat option" where
  "skipData m p = do {
     (len, p) \<leftarrow> readLength m p;
     Some (p + unat len) }"

text \<open>There is no case for \<open>PSKeyValueCoderFieldTypeInt32Array\<close>.\<close>

definition skipField :: "byte list \<Rightarrow> nat \<Rightarrow> nat option" where
  "skipField m p = do {
     fieldType \<leftarrow> rd m p;
     let p = p + 1;
     if fieldType = PSKeyValueCoderFieldTypeString then skipString m p
     else if fieldType = PSKeyValueCoderFieldTypeInt32 then Some (skipInt32 p)
     else if fieldType = PSKeyValueCoderFieldTypeInt64 then Some (skipInt64 p)
     else if fieldType = PSKeyValueCoderFieldTypeCustomClass then skipObject m p
     else if fieldType = PSKeyValueCoderFieldTypeArray then skipArray m p
     else if fieldType = PSKeyValueCoderFieldTypeData then skipData m p
     else if fieldType = PSKeyValueCoderFieldTypeInt32Dictionary then skipInt32Dictionary m p
     else if fieldType = PSKeyValueCoderFieldTypeDouble then Some (skipInt64 p)
     else Some p }"

lemma read_length_from_advances: "read_length_from k i r m p = Some (n, q) \<Longrightarrow> p < q"
  by (induction k arbitrary: i r p) (fastforce split: bind_splits if_splits simp: Let_def)+

lemma readLength_advances: "readLength m p = Some (n, q) \<Longrightarrow> p < q"
  by (simp add: readLength_def read_length_from_advances)

lemma skipField_advances: "skipField m p = Some q \<Longrightarrow> p < q"
  by (auto simp: skipField_def skipString_def skipInt32_def skipInt64_def skipObject_def skipArray_def skipData_def skipInt32Dictionary_def Let_def
      split: bind_splits if_splits dest!: readLength_advances)

section \<open>Setting the data\<close>

definition initWithData :: "byte list \<Rightarrow> PSKeyValueDecoder" where
  "initWithData data = \<lparr>kd_data = Some data, kd_mem = data, kd_begin = 0, kd_end = length data, kd_cur = 0\<rparr>"

definition resetData :: "byte list \<Rightarrow> PSKeyValueDecoder \<Rightarrow> PSKeyValueDecoder" where
  "resetData data d = d\<lparr>kd_data := Some data, kd_mem := data, kd_begin := 0, kd_end := length data, kd_cur := 0\<rparr>"

definition resetBytes :: "byte list \<Rightarrow> nat \<Rightarrow> PSKeyValueDecoder \<Rightarrow> PSKeyValueDecoder" where
  "resetBytes bytes len d = d\<lparr>kd_data := None, kd_mem := bytes, kd_begin := 0, kd_end := len, kd_cur := 0\<rparr>"

text \<open>Without \<open>_data\<close> the messages give a null pointer and the length 0.\<close>

definition rewind :: "PSKeyValueDecoder \<Rightarrow> PSKeyValueDecoder" where
  "rewind d = (let data = (case kd_data d of None \<Rightarrow> [] | Some data \<Rightarrow> data)
               in d\<lparr>kd_mem := data, kd_begin := 0, kd_end := length data, kd_cur := 0\<rparr>)"

section \<open>Finding a key\<close>

text \<open>The outcome of the inner loop of \<open>skipToValueForRawKey\<close>: at the value, at the end, or given up.\<close>

datatype scan = Found nat | Missed nat | GivenUp nat

function scan_keys :: "byte list \<Rightarrow> byte list \<Rightarrow> nat \<Rightarrow> nat \<Rightarrow> scan option" where
  "scan_keys m key scanEnd p =
     (if p < scanEnd then do {
        (compareKeyLength, q) \<leftarrow> readLength m p;
        differs \<leftarrow> (if unat compareKeyLength \<noteq> length key then Some True
                   else map_option (\<lambda>bs. bs \<noteq> key) (read_bytes m q (length key)));
        if differs then
          if compareKeyLength > 1000 then Some (GivenUp q)
          else do {
            q' \<leftarrow> skipField m (q + unat compareKeyLength);
            scan_keys m key scanEnd q' }
        else Some (Found (q + unat compareKeyLength)) }
      else Some (Missed p))"
  by pat_completeness auto
termination
  by (relation "measure (\<lambda>(m, key, scanEnd, p). scanEnd - p)") (auto dest!: readLength_advances skipField_advances)

declare scan_keys.simps [simp del]

definition skipToValueForRawKey :: "byte list \<Rightarrow> PSKeyValueDecoder \<Rightarrow> (bool \<times> PSKeyValueDecoder) option" where
  "skipToValueForRawKey key d = do {
     let middlePtr = kd_cur d;
     r \<leftarrow> scan_keys (kd_mem d) key (kd_end d) (kd_cur d);
     case r of
       Found p \<Rightarrow> Some (True, d\<lparr>kd_cur := p\<rparr>)
     | GivenUp p \<Rightarrow> Some (False, d\<lparr>kd_cur := p\<rparr>)
     | Missed _ \<Rightarrow> do {
         r \<leftarrow> scan_keys (kd_mem d) key middlePtr (kd_begin d);
         case r of
           Found p \<Rightarrow> Some (True, d\<lparr>kd_cur := p\<rparr>)
         | GivenUp p \<Rightarrow> Some (False, d\<lparr>kd_cur := p\<rparr>)
         | Missed p \<Rightarrow> Some (False, d\<lparr>kd_cur := p\<rparr>) } }"

section \<open>Decoding the value of a key\<close>

text \<open>
  The conversions of the library: \<open>intValue\<close>, \<open>longLongValue\<close> and \<open>doubleValue\<close> of a string, and those
  between numbers, with \<open>'f\<close> for \<open>double\<close>.  A message to \<open>nil\<close> gives 0.
\<close>

record 'f conversions =
  intValue :: "byte list \<Rightarrow> 32 word"
  longLongValue :: "byte list \<Rightarrow> 64 word"
  doubleValue :: "byte list \<Rightarrow> 'f"
  double_of_bits :: "64 word \<Rightarrow> 'f"
  double_of_int32 :: "32 word \<Rightarrow> 'f"
  double_of_int64 :: "64 word \<Rightarrow> 'f"
  int32_of_double :: "'f \<Rightarrow> 32 word"

text \<open>\<open>printf\<close> with \<open>PRId32\<close> and \<open>PRId64\<close>.\<close>

fun digits :: "nat \<Rightarrow> byte list" where
  "digits n = (if n < 10 then [of_nat (48 + n)] else digits (n div 10) @ [of_nat (48 + n mod 10)])"

definition decimal :: "int \<Rightarrow> byte list" where
  "decimal i = (if i < 0 then 45 # digits (nat (- i)) else digits (nat i))"

text \<open>The type byte of the value the decoder is at.\<close>

definition field_type :: "PSKeyValueDecoder \<Rightarrow> (byte \<times> PSKeyValueDecoder) option" where
  "field_type d = do { t \<leftarrow> rd (kd_mem d) (kd_cur d); Some (t, d\<lparr>kd_cur := kd_cur d + 1\<rparr>) }"

text \<open>\<open>skipField(&self->_currentPtr)\<close>.\<close>

definition skip_field :: "PSKeyValueDecoder \<Rightarrow> PSKeyValueDecoder option" where
  "skip_field d = do { p \<leftarrow> skipField (kd_mem d) (kd_cur d); Some (d\<lparr>kd_cur := p\<rparr>) }"

text \<open>A read at \<open>_currentPtr\<close>.\<close>

definition read_value :: "(byte list \<Rightarrow> nat \<Rightarrow> ('v \<times> nat) option) \<Rightarrow> PSKeyValueDecoder \<Rightarrow> ('v \<times> PSKeyValueDecoder) option" where
  "read_value f d = do { (v, p) \<leftarrow> f (kd_mem d) (kd_cur d); Some (v, d\<lparr>kd_cur := p\<rparr>) }"

definition decodeStringForRawKey :: "byte list \<Rightarrow> PSKeyValueDecoder \<Rightarrow> (byte list option \<times> PSKeyValueDecoder) option" where
  "decodeStringForRawKey key d = do {
     (found, d) \<leftarrow> skipToValueForRawKey key d;
     if found then do {
       (fieldType, d) \<leftarrow> field_type d;
       if fieldType = PSKeyValueCoderFieldTypeString then read_value readString d
       else if fieldType = PSKeyValueCoderFieldTypeInt32 then do {
         (n, d) \<leftarrow> read_value readInt32 d; Some (Some (decimal (sint n)), d) }
       else if fieldType = PSKeyValueCoderFieldTypeInt64 then do {
         (n, d) \<leftarrow> read_value readInt64 d; Some (Some (decimal (sint n)), d) }
       else do { d \<leftarrow> skip_field d; Some (None, d) } }
     else Some (None, d) }"

definition decodeInt32ForRawKey :: "'f conversions \<Rightarrow> byte list \<Rightarrow> PSKeyValueDecoder \<Rightarrow> (32 word \<times> PSKeyValueDecoder) option" where
  "decodeInt32ForRawKey cv key d = do {
     (found, d) \<leftarrow> skipToValueForRawKey key d;
     if found then do {
       (fieldType, d) \<leftarrow> field_type d;
       if fieldType = PSKeyValueCoderFieldTypeString then do {
         (s, d) \<leftarrow> read_value readString d; Some (case s of None \<Rightarrow> 0 | Some s \<Rightarrow> intValue cv s, d) }
       else if fieldType = PSKeyValueCoderFieldTypeInt32 then read_value readInt32 d
       else if fieldType = PSKeyValueCoderFieldTypeInt64 then do {
         (n, d) \<leftarrow> read_value readInt64 d; Some (ucast n, d) }
       else do { d \<leftarrow> skip_field d; Some (0, d) } }
     else Some (0, d) }"

definition decodeInt64ForRawKey :: "'f conversions \<Rightarrow> byte list \<Rightarrow> PSKeyValueDecoder \<Rightarrow> (64 word \<times> PSKeyValueDecoder) option" where
  "decodeInt64ForRawKey cv key d = do {
     (found, d) \<leftarrow> skipToValueForRawKey key d;
     if found then do {
       (fieldType, d) \<leftarrow> field_type d;
       if fieldType = PSKeyValueCoderFieldTypeString then do {
         (s, d) \<leftarrow> read_value readString d; Some (case s of None \<Rightarrow> 0 | Some s \<Rightarrow> longLongValue cv s, d) }
       else if fieldType = PSKeyValueCoderFieldTypeInt32 then do {
         (n, d) \<leftarrow> read_value readInt32 d; Some (scast n, d) }
       else if fieldType = PSKeyValueCoderFieldTypeInt64 then read_value readInt64 d
       else do { d \<leftarrow> skip_field d; Some (0, d) } }
     else Some (0, d) }"

definition decodeObjectForRawKey :: "'o runtime \<Rightarrow> byte list \<Rightarrow> PSKeyValueDecoder \<Rightarrow> ('o option \<times> PSKeyValueDecoder) option" where
  "decodeObjectForRawKey rt key d = do {
     (found, d) \<leftarrow> skipToValueForRawKey key d;
     if found then do {
       (fieldType, d) \<leftarrow> field_type d;
       if fieldType = PSKeyValueCoderFieldTypeCustomClass then read_value (readObject rt) d
       else do { d \<leftarrow> skip_field d; Some (None, d) } }
     else Some (None, d) }"

definition decodeArrayForRawKey :: "'o runtime \<Rightarrow> byte list \<Rightarrow> PSKeyValueDecoder \<Rightarrow> ('o list option \<times> PSKeyValueDecoder) option" where
  "decodeArrayForRawKey rt key d = do {
     (found, d) \<leftarrow> skipToValueForRawKey key d;
     if found then do {
       (fieldType, d) \<leftarrow> field_type d;
       if fieldType = PSKeyValueCoderFieldTypeArray then do {
         (a, d) \<leftarrow> read_value (readArray rt) d; Some (Some a, d) }
       else do { d \<leftarrow> skip_field d; Some (None, d) } }
     else Some (None, d) }"

definition decodeDataForRawKey :: "byte list \<Rightarrow> PSKeyValueDecoder \<Rightarrow> (byte list option \<times> PSKeyValueDecoder) option" where
  "decodeDataForRawKey key d = do {
     (found, d) \<leftarrow> skipToValueForRawKey key d;
     if found then do {
       (fieldType, d) \<leftarrow> field_type d;
       if fieldType = PSKeyValueCoderFieldTypeData then do {
         (a, d) \<leftarrow> read_value readData d; Some (Some a, d) }
       else do { d \<leftarrow> skip_field d; Some (None, d) } }
     else Some (None, d) }"

text \<open>The result is the buffer of the caller.\<close>

definition decodeBytesForRawKey :: "byte list \<Rightarrow> byte list \<Rightarrow> nat \<Rightarrow> PSKeyValueDecoder \<Rightarrow> (byte list \<times> PSKeyValueDecoder) option" where
  "decodeBytesForRawKey key value maxLength d = do {
     (found, d) \<leftarrow> skipToValueForRawKey key d;
     if found then do {
       (fieldType, d) \<leftarrow> field_type d;
       if fieldType = PSKeyValueCoderFieldTypeData then read_value (\<lambda>m p. readBytes m p value (of_nat maxLength)) d
       else do { d \<leftarrow> skip_field d; Some (value, d) } }
     else Some (value, d) }"

text \<open>The loop over the elements of an array of numbers.\<close>

fun read_int32s :: "nat \<Rightarrow> byte list \<Rightarrow> nat \<Rightarrow> (32 word list \<times> nat) option" where
  "read_int32s 0 m p = Some ([], p)"
| "read_int32s (Suc n) m p = do {
     number \<leftarrow> load32_at m p;
     (ns, q) \<leftarrow> read_int32s n m (p + 4);
     Some (number # ns, q) }"

definition decodeInt32ArrayForCKey :: "byte list \<Rightarrow> PSKeyValueDecoder \<Rightarrow> (32 word list option \<times> PSKeyValueDecoder) option" where
  "decodeInt32ArrayForCKey key d = do {
     (found, d) \<leftarrow> skipToValueForRawKey key d;
     if found then do {
       (fieldType, d) \<leftarrow> field_type d;
       if fieldType = PSKeyValueCoderFieldTypeInt32Array then do {
         (count, d) \<leftarrow> read_value readInt32 d;
         (array, d) \<leftarrow> read_value (read_int32s (nat (sint count))) d;
         Some (Some array, d) }
       else do {
         d \<leftarrow> skip_field (d\<lparr>kd_cur := kd_cur d - 1\<rparr>);
         Some (None, d) } }
     else Some (None, d) }"

definition decodeInt32DictionaryForCKey :: "'o runtime \<Rightarrow> byte list \<Rightarrow> PSKeyValueDecoder \<Rightarrow>
    ((32 word \<Rightarrow> 'o option) option \<times> PSKeyValueDecoder) option" where
  "decodeInt32DictionaryForCKey rt key d = do {
     (found, d) \<leftarrow> skipToValueForRawKey key d;
     if found then do {
       (fieldType, d) \<leftarrow> field_type d;
       if fieldType = PSKeyValueCoderFieldTypeInt32Dictionary then do {
         (a, d) \<leftarrow> read_value (readInt32Dictionary rt) d; Some (Some a, d) }
       else do { d \<leftarrow> skip_field d; Some (None, d) } }
     else Some (None, d) }"

text \<open>The value of a string goes through \<open>int32_t\<close>.\<close>

definition decodeDoubleForCKey :: "'f conversions \<Rightarrow> byte list \<Rightarrow> PSKeyValueDecoder \<Rightarrow> ('f \<times> PSKeyValueDecoder) option" where
  "decodeDoubleForCKey cv key d = do {
     (found, d) \<leftarrow> skipToValueForRawKey key d;
     if found then do {
       (fieldType, d) \<leftarrow> field_type d;
       if fieldType = PSKeyValueCoderFieldTypeString then do {
         (s, d) \<leftarrow> read_value readString d;
         Some (double_of_int32 cv (case s of None \<Rightarrow> 0 | Some s \<Rightarrow> int32_of_double cv (doubleValue cv s)), d) }
       else if fieldType = PSKeyValueCoderFieldTypeInt32 then do {
         (n, d) \<leftarrow> read_value readInt32 d; Some (double_of_int32 cv n, d) }
       else if fieldType = PSKeyValueCoderFieldTypeInt64 then do {
         (n, d) \<leftarrow> read_value readInt64 d; Some (double_of_int64 cv n, d) }
       else if fieldType = PSKeyValueCoderFieldTypeDouble then do {
         (n, d) \<leftarrow> read_value readDouble d; Some (double_of_bits cv n, d) }
       else do { d \<leftarrow> skip_field d; Some (double_of_int32 cv 0, d) } }
     else Some (double_of_int32 cv 0, d) }"

text \<open>
  The loop of \<open>decodeObjectsByKeys\<close>.  A key that is not UTF-8 is \<open>nil\<close>, which a dictionary does not
  take: an exception.
\<close>

lemma readObject_advances: "readObject rt m p = Some (obj, q) \<Longrightarrow> p < q"
  by (auto simp: readObject_def Let_def split: bind_splits option.splits)

function objects_by_keys :: "'o runtime \<Rightarrow> byte list \<Rightarrow> nat \<Rightarrow> nat \<Rightarrow> (byte list \<Rightarrow> 'o option) \<Rightarrow> (byte list \<Rightarrow> 'o option) option" where
  "objects_by_keys rt m stop p dict =
     (if p < stop then do {
        (keyLength, q) \<leftarrow> readLength m p;
        bs \<leftarrow> read_bytes m q (unat keyLength);
        let q = q + unat keyLength;
        fieldType \<leftarrow> rd m q;
        if fieldType = PSKeyValueCoderFieldTypeCustomClass then do {
          (obj, q') \<leftarrow> readObject rt m (q + 1);
          case obj of
            None \<Rightarrow> objects_by_keys rt m stop q' dict
          | Some obj \<Rightarrow> do {
              key \<leftarrow> ns_string bs;
              objects_by_keys rt m stop q' (dict(key \<mapsto> obj)) } }
        else Some dict }
      else Some dict)"
  by pat_completeness auto
termination
  by (relation "measure (\<lambda>(rt, m, stop, p, dict). stop - p)") (auto dest!: readLength_advances readObject_advances)

declare objects_by_keys.simps [simp del]

definition decodeObjectsByKeys :: "'o runtime \<Rightarrow> PSKeyValueDecoder \<Rightarrow> ((byte list \<Rightarrow> 'o option) \<times> PSKeyValueDecoder) option" where
  "decodeObjectsByKeys rt d = do {
     dict \<leftarrow> objects_by_keys rt (kd_mem d) (kd_end d) (kd_begin d) Map.empty;
     Some (dict, d\<lparr>kd_cur := kd_begin d\<rparr>) }"

end
