(* ===== verification/Kv_Objects.thy ===== *)
theory Kv_Objects
  imports Kv_Decoder
begin

text \<open>
  Classes that follow \<open>PSCoding\<close>: feed positions and queued polls of a peer, the reply markup of bots
  (a markup with rows of buttons, each with an action), and the descriptions of bots and their
  commands.  An object is a value of \<open>tg_object\<close> with its instance variables; \<open>nil\<close> is \<open>None\<close>.
  Dynamic dispatch is by the constructor (\<open>encodeWithKeyValueCoder\<close>), the runtime by the class name
  (\<open>tg_runtime\<close>).
\<close>

section \<open>Objects\<close>

datatype tg_object =
    TGFeedPosition "32 word" "32 word" "64 word"
  | TGQueuedPeerPoll "64 word" "tg_object option"
  | TGBotReplyMarkupButtonActionUrl "byte list option"
  | TGBotReplyMarkupButtonActionCallback "byte list option"
  | TGBotReplyMarkupButtonActionRequestPhone
  | TGBotReplyMarkupButtonActionRequestLocation
  | TGBotReplyMarkupButtonActionSwitchInline "byte list option" bool
  | TGBotReplyMarkupButtonActionGame "byte list option"
  | TGBotReplyMarkupButtonActionPurchase "byte list option"
  | TGBotReplyMarkupButton "byte list option" "tg_object option"
  | TGBotReplyMarkupRow "tg_object list option"
  | TGBotReplyMarkup "32 word" "32 word" "tg_object list option" bool bool bool bool bool
  | TGBotComandInfo "byte list option" "byte list option"
  | TGBotInfo "32 word" "byte list option" "byte list option" "tg_object list option"

text \<open>The bytes of a C string literal.\<close>

definition ckey :: "string \<Rightarrow> byte list" where
  "ckey s = map (\<lambda>c. of_nat (of_char c)) s"

fun class_name :: "tg_object \<Rightarrow> string" where
  "class_name (TGFeedPosition _ _ _) = ''TGFeedPosition''"
| "class_name (TGQueuedPeerPoll _ _) = ''TGQueuedPeerPoll''"
| "class_name (TGBotReplyMarkupButtonActionUrl _) = ''TGBotReplyMarkupButtonActionUrl''"
| "class_name (TGBotReplyMarkupButtonActionCallback _) = ''TGBotReplyMarkupButtonActionCallback''"
| "class_name TGBotReplyMarkupButtonActionRequestPhone = ''TGBotReplyMarkupButtonActionRequestPhone''"
| "class_name TGBotReplyMarkupButtonActionRequestLocation = ''TGBotReplyMarkupButtonActionRequestLocation''"
| "class_name (TGBotReplyMarkupButtonActionSwitchInline _ _) = ''TGBotReplyMarkupButtonActionSwitchInline''"
| "class_name (TGBotReplyMarkupButtonActionGame _) = ''TGBotReplyMarkupButtonActionGame''"
| "class_name (TGBotReplyMarkupButtonActionPurchase _) = ''TGBotReplyMarkupButtonActionPurchase''"
| "class_name (TGBotReplyMarkupButton _ _) = ''TGBotReplyMarkupButton''"
| "class_name (TGBotReplyMarkupRow _) = ''TGBotReplyMarkupRow''"
| "class_name (TGBotReplyMarkup _ _ _ _ _ _ _ _) = ''TGBotReplyMarkup''"
| "class_name (TGBotComandInfo _ _) = ''TGBotComandInfo''"
| "class_name (TGBotInfo _ _ _ _) = ''TGBotInfo''"

definition cls_of :: "tg_object \<Rightarrow> byte list" where
  "cls_of obj = ckey (class_name obj)"

text \<open>A \<open>bool\<close> as the number it is converted to.\<close>

definition of_flag :: "bool \<Rightarrow> 32 word" where
  "of_flag b = (if b then 1 else 0)"

section \<open>Encoding\<close>

text \<open>
  The \<open>encodeWithKeyValueCoder:\<close> of each class.  In those of classes that hold objects, \<open>enc\<close> is the message sent to these.
\<close>

type_synonym encoder = "tg_object \<Rightarrow> byte list \<Rightarrow> byte list"

definition encode_TGFeedPosition :: "32 word \<Rightarrow> 32 word \<Rightarrow> 64 word \<Rightarrow> byte list \<Rightarrow> byte list" where
  "encode_TGFeedPosition date n_id peerId data =
     (let data = encodeInt32ForCKey date (Some (ckey ''d'')) data;
          data = encodeInt32ForCKey n_id (Some (ckey ''m'')) data
      in encodeInt64ForCKey peerId (Some (ckey ''p'')) data)"

definition encode_TGQueuedPeerPoll :: "encoder \<Rightarrow> 64 word \<Rightarrow> tg_object option \<Rightarrow> byte list \<Rightarrow> byte list" where
  "encode_TGQueuedPeerPoll enc peerId feedPosition data =
     (let data = encodeInt64ForCKey peerId (Some (ckey ''i'')) data
      in encodeObjectForCKey cls_of enc feedPosition (Some (ckey ''p'')) data)"

definition encode_ActionUrl :: "byte list option \<Rightarrow> byte list \<Rightarrow> byte list" where
  "encode_ActionUrl url data = encodeStringForCKey url (Some (ckey ''url'')) data"

definition encode_ActionCallback :: "byte list option \<Rightarrow> byte list \<Rightarrow> byte list" where
  "encode_ActionCallback bytes data = encodeDataForCKey bytes (Some (ckey ''data'')) data"

definition encode_ActionRequestPhone :: "byte list \<Rightarrow> byte list" where
  "encode_ActionRequestPhone data = data"

definition encode_ActionRequestLocation :: "byte list \<Rightarrow> byte list" where
  "encode_ActionRequestLocation data = data"

definition encode_ActionSwitchInline :: "byte list option \<Rightarrow> bool \<Rightarrow> byte list \<Rightarrow> byte list" where
  "encode_ActionSwitchInline query samePeer data =
     (let data = encodeStringForCKey query (Some (ckey ''query'')) data
      in encodeInt32ForCKey (if samePeer then 1 else 0) (Some (ckey ''samePeer'')) data)"

definition encode_ActionGame :: "byte list option \<Rightarrow> byte list \<Rightarrow> byte list" where
  "encode_ActionGame txt data = encodeStringForCKey txt (Some (ckey ''text'')) data"

definition encode_ActionPurchase :: "byte list option \<Rightarrow> byte list \<Rightarrow> byte list" where
  "encode_ActionPurchase txt data = encodeStringForCKey txt (Some (ckey ''text'')) data"

definition encode_TGBotReplyMarkupButton :: "encoder \<Rightarrow> byte list option \<Rightarrow> tg_object option \<Rightarrow> byte list \<Rightarrow> byte list" where
  "encode_TGBotReplyMarkupButton enc txt action data =
     (let data = encodeStringForCKey txt (Some (ckey ''text'')) data
      in encodeObjectForCKey cls_of enc action (Some (ckey ''action'')) data)"

definition encode_TGBotReplyMarkupRow :: "encoder \<Rightarrow> tg_object list option \<Rightarrow> byte list \<Rightarrow> byte list" where
  "encode_TGBotReplyMarkupRow enc buttons data = encodeArrayForCKey cls_of enc buttons (Some (ckey ''buttons'')) data"

definition encode_TGBotReplyMarkup :: "encoder \<Rightarrow> 32 word \<Rightarrow> 32 word \<Rightarrow> tg_object list option \<Rightarrow> bool \<Rightarrow> bool \<Rightarrow> bool \<Rightarrow> bool \<Rightarrow> bool \<Rightarrow>
    byte list \<Rightarrow> byte list" where
  "encode_TGBotReplyMarkup enc userId messageId rows matchDefaultHeight hideKeyboardOnActivation alreadyActivated manuallyHidden isInline data =
     (let data = encodeInt32ForCKey userId (Some (ckey ''userId'')) data;
          data = encodeInt32ForCKey messageId (Some (ckey ''messageId'')) data;
          data = encodeArrayForCKey cls_of enc rows (Some (ckey ''rows'')) data;
          data = encodeInt32ForCKey (of_flag matchDefaultHeight) (Some (ckey ''matchDefaultHeight'')) data;
          data = encodeInt32ForCKey (of_flag hideKeyboardOnActivation) (Some (ckey ''hideKeyboardOnActivation'')) data;
          data = encodeInt32ForCKey (of_flag alreadyActivated) (Some (ckey ''alreadyActivated'')) data;
          data = encodeInt32ForCKey (of_flag manuallyHidden) (Some (ckey ''manuallyHidden'')) data
      in encodeInt32ForCKey (of_flag isInline) (Some (ckey ''isInline'')) data)"

definition encode_TGBotComandInfo :: "byte list option \<Rightarrow> byte list option \<Rightarrow> byte list \<Rightarrow> byte list" where
  "encode_TGBotComandInfo command commandDescription data =
     (let data = encodeStringForCKey command (Some (ckey ''command'')) data
      in encodeStringForCKey commandDescription (Some (ckey ''commandDescription'')) data)"

definition encode_TGBotInfo :: "encoder \<Rightarrow> 32 word \<Rightarrow> byte list option \<Rightarrow> byte list option \<Rightarrow> tg_object list option \<Rightarrow> byte list \<Rightarrow> byte list" where
  "encode_TGBotInfo enc version shortDescription botDescription commandList data =
     (let data = encodeInt32ForCKey version (Some (ckey ''version'')) data;
          data = encodeStringForCKey shortDescription (Some (ckey ''shortDescription'')) data;
          data = encodeStringForCKey botDescription (Some (ckey ''botDescription'')) data
      in encodeArrayForCKey cls_of enc commandList (Some (ckey ''commandList'')) data)"

text \<open>The encoder of an object calls \<open>enc\<close> for the objects it holds only.\<close>

lemma encodeObjectForCKey_cong [fundef_cong]:
  assumes "cls = cls'" "obj = obj'" "key = key'" "data = data'" "\<And>x ys. obj' = Some x \<Longrightarrow> enc x ys = enc' x ys"
  shows "encodeObjectForCKey cls enc obj key data = encodeObjectForCKey cls' enc' obj' key' data'"
  using assms by (auto simp: encodeObjectForCKey_def encodeObjectValue_def split: option.splits)

lemma encodeArrayForCKey_cong [fundef_cong]:
  assumes "cls = cls'" "objs = objs'" "key = key'" "data = data'" "\<And>xs x ys. objs' = Some xs \<Longrightarrow> x \<in> set xs \<Longrightarrow> enc x ys = enc' x ys"
  shows "encodeArrayForCKey cls enc objs key data = encodeArrayForCKey cls' enc' objs' key' data'"
proof -
  have "encodeObjectValue cls' enc x data = encodeObjectValue cls' enc' x data" if "objs' = Some xs" "x \<in> set xs" for xs x data
    using assms(5) [OF that] by (simp add: encodeObjectValue_def)
  then have "fold (encodeObjectValue cls' enc) xs d = fold (encodeObjectValue cls' enc') xs d" if "objs' = Some xs" for xs d
    using that by (intro fold_cong) (auto simp: fun_eq_iff)
  then show ?thesis using assms(1-4) by (simp add: encodeArrayForCKey_def Let_def split: option.splits)
qed

lemma encode_TGQueuedPeerPoll_cong [fundef_cong]:
  assumes "peerId = peerId'" "obj = obj'" "data = data'" "\<And>x ys. obj' = Some x \<Longrightarrow> enc x ys = enc' x ys"
  shows "encode_TGQueuedPeerPoll enc peerId obj data = encode_TGQueuedPeerPoll enc' peerId' obj' data'"
  unfolding encode_TGQueuedPeerPoll_def assms(1-3) Let_def by (rule encodeObjectForCKey_cong) (simp_all add: assms(4))

lemma encode_TGBotReplyMarkupButton_cong [fundef_cong]:
  assumes "txt = txt'" "obj = obj'" "data = data'" "\<And>x ys. obj' = Some x \<Longrightarrow> enc x ys = enc' x ys"
  shows "encode_TGBotReplyMarkupButton enc txt obj data = encode_TGBotReplyMarkupButton enc' txt' obj' data'"
  unfolding encode_TGBotReplyMarkupButton_def assms(1-3) Let_def by (rule encodeObjectForCKey_cong) (simp_all add: assms(4))

lemma encode_TGBotReplyMarkupRow_cong [fundef_cong]:
  assumes "objs = objs'" "data = data'" "\<And>xs x ys. objs' = Some xs \<Longrightarrow> x \<in> set xs \<Longrightarrow> enc x ys = enc' x ys"
  shows "encode_TGBotReplyMarkupRow enc objs data = encode_TGBotReplyMarkupRow enc' objs' data'"
  unfolding encode_TGBotReplyMarkupRow_def assms(1-2) by (rule encodeArrayForCKey_cong) (simp_all add: assms(3))

lemma encode_TGBotReplyMarkup_cong [fundef_cong]:
  assumes "u = u'" "m = m'" "objs = objs'" "a = a'" "b = b'" "c = c'" "d = d'" "e = e'" "data = data'"
    "\<And>xs x ys. objs' = Some xs \<Longrightarrow> x \<in> set xs \<Longrightarrow> enc x ys = enc' x ys"
  shows "encode_TGBotReplyMarkup enc u m objs a b c d e data = encode_TGBotReplyMarkup enc' u' m' objs' a' b' c' d' e' data'"
proof -
  have "encodeArrayForCKey cls_of enc objs' key ys = encodeArrayForCKey cls_of enc' objs' key ys" for key ys
    by (rule encodeArrayForCKey_cong) (simp_all add: assms(10))
  then show ?thesis unfolding encode_TGBotReplyMarkup_def assms(1-9) Let_def by simp
qed

lemma encode_TGBotInfo_cong [fundef_cong]:
  assumes "v = v'" "s = s'" "b = b'" "objs = objs'" "data = data'" "\<And>xs x ys. objs' = Some xs \<Longrightarrow> x \<in> set xs \<Longrightarrow> enc x ys = enc' x ys"
  shows "encode_TGBotInfo enc v s b objs data = encode_TGBotInfo enc' v' s' b' objs' data'"
  unfolding encode_TGBotInfo_def assms(1-5) Let_def by (rule encodeArrayForCKey_cong) (simp_all add: assms(6))

function encodeWithKeyValueCoder :: encoder where
  "encodeWithKeyValueCoder (TGFeedPosition date n_id peerId) data = encode_TGFeedPosition date n_id peerId data"
| "encodeWithKeyValueCoder (TGQueuedPeerPoll peerId feedPosition) data = encode_TGQueuedPeerPoll encodeWithKeyValueCoder peerId feedPosition data"
| "encodeWithKeyValueCoder (TGBotReplyMarkupButtonActionUrl url) data = encode_ActionUrl url data"
| "encodeWithKeyValueCoder (TGBotReplyMarkupButtonActionCallback bytes) data = encode_ActionCallback bytes data"
| "encodeWithKeyValueCoder TGBotReplyMarkupButtonActionRequestPhone data = encode_ActionRequestPhone data"
| "encodeWithKeyValueCoder TGBotReplyMarkupButtonActionRequestLocation data = encode_ActionRequestLocation data"
| "encodeWithKeyValueCoder (TGBotReplyMarkupButtonActionSwitchInline query samePeer) data = encode_ActionSwitchInline query samePeer data"
| "encodeWithKeyValueCoder (TGBotReplyMarkupButtonActionGame txt) data = encode_ActionGame txt data"
| "encodeWithKeyValueCoder (TGBotReplyMarkupButtonActionPurchase txt) data = encode_ActionPurchase txt data"
| "encodeWithKeyValueCoder (TGBotReplyMarkupButton txt action) data = encode_TGBotReplyMarkupButton encodeWithKeyValueCoder txt action data"
| "encodeWithKeyValueCoder (TGBotReplyMarkupRow buttons) data = encode_TGBotReplyMarkupRow encodeWithKeyValueCoder buttons data"
| "encodeWithKeyValueCoder (TGBotReplyMarkup userId messageId rows match hide activated hidden inline) data =
     encode_TGBotReplyMarkup encodeWithKeyValueCoder userId messageId rows match hide activated hidden inline data"
| "encodeWithKeyValueCoder (TGBotComandInfo command commandDescription) data = encode_TGBotComandInfo command commandDescription data"
| "encodeWithKeyValueCoder (TGBotInfo version short descr commandList) data = encode_TGBotInfo encodeWithKeyValueCoder version short descr commandList data"
  by pat_completeness auto

termination
  by (relation "measure (size \<circ> fst)") (auto simp: less_Suc_eq_le intro!: le_SucI elim!: size_list_estimation')


section \<open>Decoding\<close>

text \<open>
  The \<open>initWithKeyValueCoder:\<close> of each class; \<open>rt\<close> is the runtime for the objects that it holds.
\<close>

type_synonym initializer = "PSKeyValueDecoder \<Rightarrow> tg_object option option"

definition init_TGFeedPosition :: "'f conversions \<Rightarrow> initializer" where
  "init_TGFeedPosition cv d = do {
     (date, d) \<leftarrow> decodeInt32ForRawKey cv (ckey ''d'') d;
     (n_id, d) \<leftarrow> decodeInt32ForRawKey cv (ckey ''m'') d;
     (peerId, d) \<leftarrow> decodeInt64ForRawKey cv (ckey ''p'') d;
     Some (Some (TGFeedPosition date n_id peerId)) }"

definition init_TGQueuedPeerPoll :: "'f conversions \<Rightarrow> tg_object runtime \<Rightarrow> initializer" where
  "init_TGQueuedPeerPoll cv rt d = do {
     (peerId, d) \<leftarrow> decodeInt64ForRawKey cv (ckey ''i'') d;
     (feedPosition, d) \<leftarrow> decodeObjectForRawKey rt (ckey ''p'') d;
     Some (Some (TGQueuedPeerPoll peerId feedPosition)) }"

definition init_ActionUrl :: initializer where
  "init_ActionUrl d = do {
     (url, d) \<leftarrow> decodeStringForRawKey (ckey ''url'') d;
     Some (Some (TGBotReplyMarkupButtonActionUrl url)) }"

definition init_ActionCallback :: initializer where
  "init_ActionCallback d = do {
     (bytes, d) \<leftarrow> decodeDataForRawKey (ckey ''data'') d;
     Some (Some (TGBotReplyMarkupButtonActionCallback bytes)) }"

definition init_ActionRequestPhone :: initializer where
  "init_ActionRequestPhone d = Some (Some TGBotReplyMarkupButtonActionRequestPhone)"

definition init_ActionRequestLocation :: initializer where
  "init_ActionRequestLocation d = Some (Some TGBotReplyMarkupButtonActionRequestLocation)"

definition init_ActionSwitchInline :: "'f conversions \<Rightarrow> initializer" where
  "init_ActionSwitchInline cv d = do {
     (query, d) \<leftarrow> decodeStringForRawKey (ckey ''query'') d;
     (samePeer, d) \<leftarrow> decodeInt32ForRawKey cv (ckey ''samePeer'') d;
     Some (Some (TGBotReplyMarkupButtonActionSwitchInline query (samePeer \<noteq> 0))) }"

definition init_ActionGame :: initializer where
  "init_ActionGame d = do {
     (txt, d) \<leftarrow> decodeStringForRawKey (ckey ''text'') d;
     Some (Some (TGBotReplyMarkupButtonActionGame txt)) }"

definition init_ActionPurchase :: initializer where
  "init_ActionPurchase d = do {
     (txt, d) \<leftarrow> decodeStringForRawKey (ckey ''text'') d;
     Some (Some (TGBotReplyMarkupButtonActionPurchase txt)) }"

definition init_TGBotReplyMarkupButton :: "tg_object runtime \<Rightarrow> initializer" where
  "init_TGBotReplyMarkupButton rt d = do {
     (txt, d) \<leftarrow> decodeStringForRawKey (ckey ''text'') d;
     (action, d) \<leftarrow> decodeObjectForRawKey rt (ckey ''action'') d;
     Some (Some (TGBotReplyMarkupButton txt action)) }"

definition init_TGBotReplyMarkupRow :: "tg_object runtime \<Rightarrow> initializer" where
  "init_TGBotReplyMarkupRow rt d = do {
     (buttons, d) \<leftarrow> decodeArrayForRawKey rt (ckey ''buttons'') d;
     Some (Some (TGBotReplyMarkupRow buttons)) }"

definition init_TGBotReplyMarkup :: "'f conversions \<Rightarrow> tg_object runtime \<Rightarrow> initializer" where
  "init_TGBotReplyMarkup cv rt d = do {
     (userId, d) \<leftarrow> decodeInt32ForRawKey cv (ckey ''userId'') d;
     (messageId, d) \<leftarrow> decodeInt32ForRawKey cv (ckey ''messageId'') d;
     (rows, d) \<leftarrow> decodeArrayForRawKey rt (ckey ''rows'') d;
     (matchDefaultHeight, d) \<leftarrow> decodeInt32ForRawKey cv (ckey ''matchDefaultHeight'') d;
     (hideKeyboardOnActivation, d) \<leftarrow> decodeInt32ForRawKey cv (ckey ''hideKeyboardOnActivation'') d;
     (alreadyActivated, d) \<leftarrow> decodeInt32ForRawKey cv (ckey ''alreadyActivated'') d;
     (manuallyHidden, d) \<leftarrow> decodeInt32ForRawKey cv (ckey ''manuallyHidden'') d;
     (isInline, d) \<leftarrow> decodeInt32ForRawKey cv (ckey ''isInline'') d;
     Some (Some (TGBotReplyMarkup userId messageId rows (matchDefaultHeight \<noteq> 0) (hideKeyboardOnActivation \<noteq> 0)
       (alreadyActivated \<noteq> 0) (manuallyHidden \<noteq> 0) (isInline \<noteq> 0))) }"

definition init_TGBotComandInfo :: initializer where
  "init_TGBotComandInfo d = do {
     (command, d) \<leftarrow> decodeStringForRawKey (ckey ''command'') d;
     (commandDescription, d) \<leftarrow> decodeStringForRawKey (ckey ''commandDescription'') d;
     Some (Some (TGBotComandInfo command commandDescription)) }"

definition init_TGBotInfo :: "'f conversions \<Rightarrow> tg_object runtime \<Rightarrow> initializer" where
  "init_TGBotInfo cv rt d = do {
     (version, d) \<leftarrow> decodeInt32ForRawKey cv (ckey ''version'') d;
     (shortDescription, d) \<leftarrow> decodeStringForRawKey (ckey ''shortDescription'') d;
     (botDescription, d) \<leftarrow> decodeStringForRawKey (ckey ''botDescription'') d;
     (commandList, d) \<leftarrow> decodeArrayForRawKey rt (ckey ''commandList'') d;
     Some (Some (TGBotInfo version shortDescription botDescription commandList)) }"

text \<open>The classes by their names.\<close>

definition class_init :: "'f conversions \<Rightarrow> tg_object runtime \<Rightarrow> tg_object runtime" where
  "class_init cv rt = map_of [
     (ckey ''TGFeedPosition'', init_TGFeedPosition cv),
     (ckey ''TGQueuedPeerPoll'', init_TGQueuedPeerPoll cv rt),
     (ckey ''TGBotReplyMarkupButtonActionUrl'', init_ActionUrl),
     (ckey ''TGBotReplyMarkupButtonActionCallback'', init_ActionCallback),
     (ckey ''TGBotReplyMarkupButtonActionRequestPhone'', init_ActionRequestPhone),
     (ckey ''TGBotReplyMarkupButtonActionRequestLocation'', init_ActionRequestLocation),
     (ckey ''TGBotReplyMarkupButtonActionSwitchInline'', init_ActionSwitchInline cv),
     (ckey ''TGBotReplyMarkupButtonActionGame'', init_ActionGame),
     (ckey ''TGBotReplyMarkupButtonActionPurchase'', init_ActionPurchase),
     (ckey ''TGBotReplyMarkupButton'', init_TGBotReplyMarkupButton rt),
     (ckey ''TGBotReplyMarkupRow'', init_TGBotReplyMarkupRow rt),
     (ckey ''TGBotReplyMarkup'', init_TGBotReplyMarkup cv rt),
     (ckey ''TGBotComandInfo'', init_TGBotComandInfo),
     (ckey ''TGBotInfo'', init_TGBotInfo cv rt)]"

text \<open>The runtime with these classes, for objects that are nested at most \<open>n\<close> deep.\<close>

fun tg_runtime :: "nat \<Rightarrow> 'f conversions \<Rightarrow> tg_object runtime" where
  "tg_runtime 0 cv name = Some (\<lambda>d. None)"
| "tg_runtime (Suc n) cv name = class_init cv (tg_runtime n cv) name"

section \<open>Archives\<close>

text \<open>
  The methods for \<open>NSCoding\<close> of \<open>TGBotReplyMarkup\<close>.  A keyed archive maps keys to what was encoded for
  them: numbers, objects or flags; a flag that is not there is \<open>NO\<close>, a number 0, an object \<open>nil\<close>.
\<close>

datatype archived = ArchInt32 "32 word" | ArchObjects "tg_object list option" | ArchBool bool

type_synonym archive = "string \<Rightarrow> archived option"

definition decodeArchInt32 :: "archive \<Rightarrow> string \<Rightarrow> 32 word" where
  "decodeArchInt32 ar key = (case ar key of Some (ArchInt32 n) \<Rightarrow> n | _ \<Rightarrow> 0)"

definition decodeArchObjects :: "archive \<Rightarrow> string \<Rightarrow> tg_object list option" where
  "decodeArchObjects ar key = (case ar key of Some (ArchObjects objs) \<Rightarrow> objs | _ \<Rightarrow> None)"

definition decodeArchBool :: "archive \<Rightarrow> string \<Rightarrow> bool" where
  "decodeArchBool ar key = (case ar key of Some (ArchBool b) \<Rightarrow> b | _ \<Rightarrow> False)"

definition encodeWithCoder :: "32 word \<Rightarrow> 32 word \<Rightarrow> tg_object list option \<Rightarrow> bool \<Rightarrow> bool \<Rightarrow> bool \<Rightarrow> bool \<Rightarrow> bool \<Rightarrow> archive \<Rightarrow> archive" where
  "encodeWithCoder userId messageId rows matchDefaultHeight hideKeyboardOnActivation alreadyActivated manuallyHidden isInline ar =
     ar(''userId'' \<mapsto> ArchInt32 userId, ''messageId'' \<mapsto> ArchInt32 messageId, ''rows'' \<mapsto> ArchObjects rows,
        ''matchDefaultHeight'' \<mapsto> ArchBool matchDefaultHeight, ''hideKeyboardOnActivation'' \<mapsto> ArchBool hideKeyboardOnActivation,
        ''alreadyActivated'' \<mapsto> ArchBool alreadyActivated, ''manuallyHidden'' \<mapsto> ArchBool manuallyHidden, ''isInline'' \<mapsto> ArchBool isInline)"

definition initWithCoder :: "archive \<Rightarrow> tg_object" where
  "initWithCoder ar =
     TGBotReplyMarkup (decodeArchInt32 ar ''userId'') (decodeArchInt32 ar ''messageId'') (decodeArchObjects ar ''rows'')
       (decodeArchBool ar ''matchDefaultHeight'') (decodeArchBool ar ''hideKeyboardOnDeactivation'')
       (decodeArchBool ar ''alreadyActivated'') (decodeArchBool ar ''manuallyHidden'') (decodeArchBool ar ''isInline'')"

end
