(* ===== verification/Kv_Field_Facts.thy ===== *)
theory Kv_Field_Facts
  imports Kv_Decoder
begin

text \<open>
  What the reading routines of the decoder give where the bytes of the encoder lie.  A field is a key
  with a value (\<open>kv\<close>), its bytes are \<open>field_bytes\<close>, and the encoder's methods append them.
\<close>

named_theorems lies_simps "where the parts of a sequence of bytes lie"

section \<open>Bytes at a position\<close>

definition lies :: "byte list \<Rightarrow> nat \<Rightarrow> byte list \<Rightarrow> bool" where
  "lies m p bs \<longleftrightarrow> p + length bs \<le> length m \<and> take (length bs) (drop p m) = bs"

lemma lies_append [lies_simps]: "lies m p (xs @ ys) \<longleftrightarrow> lies m p xs \<and> lies m (p + length xs) ys"
  by (auto simp: lies_def take_add add.commute append_eq_append_conv)

lemma lies_Cons [lies_simps]: "lies m p (x # xs) \<longleftrightarrow> rd m p = Some x \<and> lies m (p + 1) xs"
proof (cases "p < length m")
  case True
  then have "drop p m = m ! p # drop (p + 1) m" by (simp add: Cons_nth_drop_Suc)
  then show ?thesis using True by (auto simp: lies_def)
qed (auto simp: lies_def rd_def)

lemma lies_Nil [lies_simps]: "lies m p [] \<longleftrightarrow> p \<le> length m"
  by (simp add: lies_def)

lemma lies_middle: "lies (pre @ bs @ post) (length pre) bs"
  by (simp add: lies_def)

lemma lies_drop: "lies m p bs \<Longrightarrow> \<exists>post. drop p m = bs @ post"
  by (metis append_take_drop_id lies_def)

lemma lies_read_bytes: "lies m p bs \<Longrightarrow> length bs = n \<Longrightarrow> read_bytes m p n = Some bs"
  by (auto simp: lies_def read_bytes_def)

lemma lies_load: "lies m p (le_bytes n v) \<Longrightarrow> load n (drop p m) = Some (v mod 256 ^ n)"
  by (auto simp: lies_def load_def)

lemma length_int32_bytes [simp]: "length (int32_bytes w) = 4"
  by (simp add: int32_bytes_def)

lemma int32_bytes_not_Nil [simp]: "int32_bytes w \<noteq> []"
  using length_int32_bytes [of w] by (metis list.size(3) zero_neq_numeral)

lemma lies_load32: "lies m p (int32_bytes w) \<Longrightarrow> load32_at m p = Some w"
proof -
  assume "lies m p (int32_bytes w)"
  moreover have "unat w < 256 ^ 4" using unsigned_less [of w, where 'a = nat] by simp
  ultimately show ?thesis by (simp add: load32_at_def int32_bytes_def lies_load)
qed

lemma lies_load64: "lies m p (bytes64 w) \<Longrightarrow> load64 (drop p m) = Some w"
  by (auto dest: lies_drop)

section \<open>Lengths\<close>

lemma and_127: "v AND 127 = take_bit 7 v" for v :: "'a::len word"
proof -
  have "(127 :: 'a word) = mask 7" by (simp add: mask_eq_exp_minus_1)
  then show ?thesis by (simp only: take_bit_eq_mask)
qed

lemma small_127: "\<not> v > 127 \<longleftrightarrow> drop_bit 7 v = 0" for v :: "32 word"
proof -
  have "drop_bit 7 v = 0 \<longleftrightarrow> unat v div 128 = 0"
    by (simp add: unat_drop_bit_eq drop_bit_eq_div [of 7 "unat v"] flip: unat_eq_0)
  then show ?thesis by (simp add: not_less word_le_nat_alt div_eq_0_iff) linarith
qed

lemma low_bits_byte: "ucast (take_bit 7 (ucast (take_bit 7 v) :: byte)) = take_bit 7 v" for v :: "32 word"
  by (rule bit_word_eqI) (auto simp: bit_simps)

lemma low_bits_byte_more: "ucast (take_bit 7 (ucast (take_bit 7 v) OR 128 :: byte)) = take_bit 7 v" for v :: "32 word"
proof -
  have "take_bit 7 (128 :: byte) = 0" by (simp add: take_bit_eq_mod)
  then show ?thesis by (simp add: low_bits_byte)
qed

lemma top_bit: "ucast (take_bit 7 v) AND 128 = (0 :: byte)" for v :: "32 word"
proof -
  have "bit (128 :: byte) n \<longrightarrow> n = 7" for n
  proof -
    have "bit (128 :: byte) n = bit (2 ^ 7 :: byte) n" by simp
    then show ?thesis by (simp only: bit_exp_iff) blast
  qed
  then show ?thesis by (intro bit_word_eqI) (auto simp: bit_and_iff bit_take_bit_iff bit_ucast_iff)
qed

lemma top_bit_more: "(b OR 128) AND 128 \<noteq> (0 :: byte)"
proof -
  have "(b OR 128) AND 128 = 128" by (rule bit_word_eqI) (auto simp: bit_simps)
  then show ?thesis by simp
qed

lemma length_bytes_small: "drop_bit 7 v = 0 \<Longrightarrow> length_bytes k v = [ucast v]"
  by (induction k) (use small_127 [of v] in \<open>auto simp: and_127 take_bit_eq_self_iff_drop_bit_eq_0 [THEN iffD2]\<close>)

lemma split_7: "(r OR push_bit (7 * i) (take_bit 7 v)) OR push_bit (7 * (i + 1)) (drop_bit 7 v) = r OR push_bit (7 * i) v" for v :: "32 word"
proof (rule bit_word_eqI)
  fix n assume n: "n < LENGTH(32)"
  show "bit ((r OR push_bit (7 * i) (take_bit 7 v)) OR push_bit (7 * (i + 1)) (drop_bit 7 v)) n = bit (r OR push_bit (7 * i) v) n"
  proof (cases "7 * (i + 1) \<le> n")
    case True
    then have "7 + (n - 7 * (i + 1)) = n - 7 * i" by simp
    then show ?thesis using True n by (auto simp: bit_simps)
  qed (use n in \<open>auto simp: bit_simps\<close>)
qed

lemma read_length_from_bytes:
  "lies m p (length_bytes k v) \<Longrightarrow> drop_bit (7 * (k + 1)) v = 0 \<Longrightarrow>
   read_length_from k i r m p = Some (r OR push_bit (7 * i) v, p + length (length_bytes k v))"
proof (induction k arbitrary: i r p v)
  case 0
  then have "take_bit 7 v = v" by (simp add: take_bit_eq_self_iff_drop_bit_eq_0)
  then show ?case using 0 low_bits_byte [of v] by (auto simp: lies_simps and_127)
next
  case (Suc k)
  show ?case
  proof (cases "drop_bit 7 v = 0")
    case True
    then have "take_bit 7 v = v" by (simp add: take_bit_eq_self_iff_drop_bit_eq_0)
    then show ?thesis using Suc.prems True low_bits_byte [of v] top_bit [of v] length_bytes_small [OF True, of "Suc k"]
      by (auto simp: lies_simps and_127 simp del: length_bytes.simps)
  next
    case False
    then have big: "v > 127" using small_127 by blast
    have "drop_bit (7 * (k + 1)) (drop_bit 7 v) = 0" using Suc.prems(2) by (simp add: add.commute)
    from Suc.IH [OF _ this, of "p + 1" "i + 1" "r OR push_bit (7 * i) (take_bit 7 v)"]
    show ?thesis using big Suc.prems(1) low_bits_byte_more [of v] top_bit_more [of "ucast (take_bit 7 v)"] split_7 [of r i v]
      by (auto simp: lies_simps and_127 Let_def)
  qed
qed

lemma readLength_bytes: "lies m p (length_bytes 4 v) \<Longrightarrow> readLength m p = Some (v, p + length (length_bytes 4 v))"
  using read_length_from_bytes [of m p 4 v 0 0] by (simp add: readLength_def)


section \<open>Values and fields\<close>

datatype 'o kv =
    KString "byte list"
  | KInt32 "32 word"
  | KInt64 "64 word"
  | KObject 'o
  | KArray "'o list"
  | KData "byte list"
  | KInt32Array "32 word list"
  | KInt32Dict "(32 word \<times> 'o) list"
  | KDouble "64 word"

definition counted :: "byte list \<Rightarrow> byte list" where
  "counted bs = length_bytes 4 (of_nat (length bs)) @ bs"

definition sized :: "byte list \<Rightarrow> byte list" where
  "sized bs = int32_bytes (of_nat (length bs)) @ bs"

definition object_bytes :: "('o \<Rightarrow> byte list) \<Rightarrow> ('o \<Rightarrow> byte list) \<Rightarrow> 'o \<Rightarrow> byte list" where
  "object_bytes cls content obj = sized (cls obj @ [0] @ content obj)"

fun kv_type_byte :: "'o kv \<Rightarrow> byte" where
  "kv_type_byte (KString _) = PSKeyValueCoderFieldTypeString"
| "kv_type_byte (KInt32 _) = PSKeyValueCoderFieldTypeInt32"
| "kv_type_byte (KInt64 _) = PSKeyValueCoderFieldTypeInt64"
| "kv_type_byte (KObject _) = PSKeyValueCoderFieldTypeCustomClass"
| "kv_type_byte (KArray _) = PSKeyValueCoderFieldTypeArray"
| "kv_type_byte (KData _) = PSKeyValueCoderFieldTypeData"
| "kv_type_byte (KInt32Array _) = PSKeyValueCoderFieldTypeInt32Array"
| "kv_type_byte (KInt32Dict _) = PSKeyValueCoderFieldTypeInt32Dictionary"
| "kv_type_byte (KDouble _) = PSKeyValueCoderFieldTypeDouble"

fun value_bytes :: "('o \<Rightarrow> byte list) \<Rightarrow> ('o \<Rightarrow> byte list) \<Rightarrow> 'o kv \<Rightarrow> byte list" where
  "value_bytes cls content (KString s) = counted s"
| "value_bytes cls content (KInt32 n) = int32_bytes n"
| "value_bytes cls content (KInt64 n) = bytes64 n"
| "value_bytes cls content (KObject obj) = object_bytes cls content obj"
| "value_bytes cls content (KArray objs) =
     sized (length_bytes 4 (of_nat (length objs)) @ concat (map (object_bytes cls content) objs))"
| "value_bytes cls content (KData bs) = counted bs"
| "value_bytes cls content (KInt32Array ns) = int32_bytes (of_nat (length ns)) @ concat (map int32_bytes ns)"
| "value_bytes cls content (KInt32Dict es) =
     sized (length_bytes 4 (of_nat (length es)) @ concat (map (\<lambda>(k, obj). int32_bytes k @ object_bytes cls content obj) es))"
| "value_bytes cls content (KDouble n) = bytes64 n"

definition field_bytes :: "('o \<Rightarrow> byte list) \<Rightarrow> ('o \<Rightarrow> byte list) \<Rightarrow> byte list \<times> 'o kv \<Rightarrow> byte list" where
  "field_bytes cls content f = counted (fst f) @ kv_type_byte (snd f) # value_bytes cls content (snd f)"

definition record_bytes :: "('o \<Rightarrow> byte list) \<Rightarrow> ('o \<Rightarrow> byte list) \<Rightarrow> (byte list \<times> 'o kv) list \<Rightarrow> byte list" where
  "record_bytes cls content fs = concat (map (field_bytes cls content) fs)"

lemma record_bytes_simps [simp]:
  "record_bytes cls content [] = []"
  "record_bytes cls content (f # fs) = field_bytes cls content f @ record_bytes cls content fs"
  "record_bytes cls content (fs @ gs) = record_bytes cls content fs @ record_bytes cls content gs"
  by (simp_all add: record_bytes_def)

text \<open>The decoder has no case to step over an array of numbers.\<close>

fun skippable :: "'o kv \<Rightarrow> bool" where
  "skippable (KInt32Array _) = False"
| "skippable _ = True"

section \<open>Stepping over a field\<close>

lemma unat_of_nat32: "n < 2 ^ 32 \<Longrightarrow> unat (of_nat n :: 32 word) = n"
  by (simp add: unat_of_nat take_bit_nat_eq_self)

lemma unat_size32: "n + 4 < 2 ^ 32 \<Longrightarrow> unat (4 + of_nat n :: 32 word) = n + 4"
proof -
  assume "n + 4 < 2 ^ 32"
  moreover have "(4 + of_nat n :: 32 word) = of_nat (n + 4)" by simp
  ultimately show ?thesis by (simp only: unat_of_nat32)
qed

lemma lies_counted: "lies m p (counted bs) \<Longrightarrow> length bs < 2 ^ 32 \<Longrightarrow>
    readLength m p = Some (of_nat (length bs), p + (length (counted bs) - length bs)) \<and>
    lies m (p + (length (counted bs) - length bs)) bs \<and> unat (of_nat (length bs) :: 32 word) = length bs"
  by (auto simp: counted_def lies_simps readLength_bytes unat_of_nat32)

lemma length_counted: "length bs \<le> length (counted bs)"
  by (simp add: counted_def)

lemma skip_counted: "lies m p (counted bs) \<Longrightarrow> length bs < 2 ^ 32 \<Longrightarrow> skipString m p = Some (p + length (counted bs)) \<and> skipData m p = Some (p + length (counted bs))"
  using lies_counted [of m p bs] length_counted [of bs] by (simp add: skipString_def skipData_def)

lemma lies_sized: "lies m p (sized bs) \<Longrightarrow> load32_at m p = Some (of_nat (length bs)) \<and> lies m (p + 4) bs"
  by (auto simp: sized_def lies_simps lies_load32)

lemma skip_sized: "lies m p (sized bs) \<Longrightarrow> length (sized bs) < 2 ^ 32 \<Longrightarrow>
    skipObject m p = Some (p + length (sized bs)) \<and> skipArray m p = Some (p + length (sized bs)) \<and> skipInt32Dictionary m p = Some (p + length (sized bs))"
  using lies_sized [of m p bs] unat_size32 [of "length bs"]
  by (simp add: skipObject_def skipArray_def skipInt32Dictionary_def sized_def)

lemma skipField_field:
  assumes "lies m p (kv_type_byte v # value_bytes cls content v)" "skippable v" "length (value_bytes cls content v) < 2 ^ 32"
  shows "skipField m p = Some (p + 1 + length (value_bytes cls content v))"
proof -
  have "lies m (p + 1) (counted bs) \<Longrightarrow> length (counted bs) < 2 ^ 32 \<Longrightarrow> skipString m (p + 1) = Some (p + 1 + length (counted bs)) \<and>
      skipData m (p + 1) = Some (p + 1 + length (counted bs))" for bs
    using skip_counted [of m "p + 1" bs] length_counted [of bs] by simp
  then show ?thesis using assms skip_sized [of m "p + 1"]
    by (cases v) (auto simp: skipField_def lies_simps field_type_defs skipInt32_def skipInt64_def object_bytes_def)
qed


section \<open>Finding a key\<close>

definition field_fits :: "('o \<Rightarrow> byte list) \<Rightarrow> ('o \<Rightarrow> byte list) \<Rightarrow> byte list \<times> 'o kv \<Rightarrow> bool" where
  "field_fits cls content f \<longleftrightarrow> length (fst f) \<le> 1000 \<and> skippable (snd f) \<and> length (value_bytes cls content (snd f)) < 2 ^ 31"

lemma field_key:
  assumes "lies m p (field_bytes cls content f)" "field_fits cls content f"
  obtains q where "readLength m p = Some (of_nat (length (fst f)), q)" "unat (of_nat (length (fst f)) :: 32 word) = length (fst f)"
    "lies m q (fst f)" "lies m (q + length (fst f)) (kv_type_byte (snd f) # value_bytes cls content (snd f))"
    "q + length (fst f) + 1 + length (value_bytes cls content (snd f)) = p + length (field_bytes cls content f)"
proof -
  have l: "lies m p (counted (fst f))" "length (fst f) < 2 ^ 32"
    using assms by (auto simp: field_bytes_def lies_simps field_fits_def)
  show ?thesis
    using that lies_counted [OF l] length_counted [of "fst f"] assms(1) by (simp add: field_bytes_def lies_simps)
qed

lemma length_field_bytes: "0 < length (field_bytes cls content f)"
  by (simp add: field_bytes_def)

lemma scan_other:
  assumes "lies m p (field_bytes cls content f)" "field_fits cls content f" "fst f \<noteq> key" "p < scanEnd"
  shows "scan_keys m key scanEnd p = scan_keys m key scanEnd (p + length (field_bytes cls content f))"
proof -
  obtain q where q: "readLength m p = Some (of_nat (length (fst f)), q)" "unat (of_nat (length (fst f)) :: 32 word) = length (fst f)"
    "lies m q (fst f)" "lies m (q + length (fst f)) (kv_type_byte (snd f) # value_bytes cls content (snd f))"
    "q + length (fst f) + 1 + length (value_bytes cls content (snd f)) = p + length (field_bytes cls content f)"
    using field_key [OF assms(1,2)] .
  have "length (fst f) \<le> 1000" "skippable (snd f)" "length (value_bytes cls content (snd f)) < 2 ^ 32"
    using assms(2) by (auto simp: field_fits_def)
  moreover from this have "\<not> (of_nat (length (fst f)) :: 32 word) > 1000" using q(2) by (simp add: not_less word_le_nat_alt)
  moreover have "read_bytes m q (length key) = Some (fst f)" if "length (fst f) = length key"
    using lies_read_bytes [OF q(3) that] .
  ultimately show ?thesis
    using assms(3,4) q(1,2) skipField_field [OF q(4)] q(5) by (subst scan_keys.simps) auto
qed

lemma scan_found:
  assumes "lies m p (field_bytes cls content (key, v))" "field_fits cls content (key, v)" "p < scanEnd"
  shows "\<exists>q. scan_keys m key scanEnd p = Some (Found q) \<and> lies m q (kv_type_byte v # value_bytes cls content v) \<and>
           q + 1 + length (value_bytes cls content v) = p + length (field_bytes cls content (key, v))"
proof -
  obtain q where q: "readLength m p = Some (of_nat (length key), q)" "unat (of_nat (length key) :: 32 word) = length key"
    "lies m q key" "lies m (q + length key) (kv_type_byte v # value_bytes cls content v)"
    "q + length key + 1 + length (value_bytes cls content v) = p + length (field_bytes cls content (key, v))"
    using field_key [OF assms(1,2)] by auto
  then show ?thesis
    using assms(3) lies_read_bytes [OF q(3)] by (subst scan_keys.simps) auto
qed

lemma scan_past:
  assumes "lies m p (record_bytes cls content fs)" "\<forall>f\<in>set fs. field_fits cls content f \<and> fst f \<noteq> key"
    "p + length (record_bytes cls content fs) \<le> scanEnd"
  shows "scan_keys m key scanEnd p = scan_keys m key scanEnd (p + length (record_bytes cls content fs))"
  using assms
proof (induction fs arbitrary: p)
  case (Cons f fs)
  have "p < scanEnd" using Cons.prems(3) length_field_bytes [of cls content f] by (simp del: length_greater_0_conv)
  then have "scan_keys m key scanEnd p = scan_keys m key scanEnd (p + length (field_bytes cls content f))"
    using Cons.prems by (intro scan_other) (auto simp: lies_simps)
  then show ?case using Cons.IH [of "p + length (field_bytes cls content f)"] Cons.prems by (simp add: lies_simps add.assoc)
qed simp

lemma scan_missed: "scan_keys m key p p = Some (Missed p)"
  by (subst scan_keys.simps) simp

text \<open>A decoder at the border of two fields of a record.\<close>

definition at_field :: "('o \<Rightarrow> byte list) \<Rightarrow> ('o \<Rightarrow> byte list) \<Rightarrow> (byte list \<times> 'o kv) list \<Rightarrow> PSKeyValueDecoder \<Rightarrow> bool" where
  "at_field cls content fs d \<longleftrightarrow>
     lies (kd_mem d) (kd_begin d) (record_bytes cls content fs) \<and> kd_end d = kd_begin d + length (record_bytes cls content fs) \<and>
     (\<exists>fs1 fs2. fs = fs1 @ fs2 \<and> kd_cur d = kd_begin d + length (record_bytes cls content fs1))"

text \<open>The key that is in the record is found from there.\<close>

lemma skip_to_key:
  assumes d: "at_field cls content fs d" and fit: "\<forall>f\<in>set fs. field_fits cls content f" and dis: "distinct (map fst fs)" and f: "(key, v) \<in> set fs"
  shows "\<exists>p. skipToValueForRawKey key d = Some (True, d\<lparr>kd_cur := p\<rparr>) \<and> lies (kd_mem d) p (kv_type_byte v # value_bytes cls content v) \<and>
           at_field cls content fs (d\<lparr>kd_cur := p + 1 + length (value_bytes cls content v)\<rparr>)"
proof -
  let ?m = "kd_mem d" and ?r = "record_bytes cls content"
  obtain gs hs where fs: "fs = gs @ (key, v) # hs" using f split_list by fast
  obtain fs1 fs2 where c: "fs = fs1 @ fs2" "kd_cur d = kd_begin d + length (?r fs1)" using d by (auto simp: at_field_def)
  have l: "lies ?m (kd_begin d) (?r fs)" "kd_end d = kd_begin d + length (?r fs)" using d by (auto simp: at_field_def)
  have found: "\<exists>p. scan_keys ?m key e (kd_begin d + length (?r xs)) = Some (Found p) \<and> lies ?m p (kv_type_byte v # value_bytes cls content v) \<and>
      p + 1 + length (value_bytes cls content v) = kd_begin d + length (?r (gs @ [(key, v)]))"
    if xs: "gs = xs @ ys" and e: "kd_begin d + length (?r (gs @ [(key, v)])) \<le> e" for xs ys e
  proof -
    have "scan_keys ?m key e (kd_begin d + length (?r xs)) = scan_keys ?m key e (kd_begin d + length (?r xs) + length (?r ys))"
      by (rule scan_past) (use l(1) fs fit dis xs e in \<open>auto simp: lies_simps\<close>)
    moreover have "lies ?m (kd_begin d + length (?r gs)) (field_bytes cls content (key, v))" using l(1) fs by (simp add: lies_simps)
    ultimately show ?thesis
      using scan_found [of ?m "kd_begin d + length (?r gs)" cls content key v e] fit fs xs e length_field_bytes [of cls content "(key, v)"]
      by (simp add: add.assoc del: length_greater_0_conv)
  qed
  have e: "at_field cls content fs (d\<lparr>kd_cur := kd_begin d + length (?r (gs @ [(key, v)]))\<rparr>)"
    unfolding at_field_def by (intro conjI, use l in simp, use l in simp, rule exI [of _ "gs @ [(key, v)]"], rule exI [of _ hs]) (use fs in simp)
  show ?thesis
  proof (cases "length fs1 \<le> length gs")
    case True
    then obtain ys where "gs = fs1 @ ys" using fs c(1) by (metis append_eq_append_conv_if append_take_drop_id)
    from found [OF this, of "kd_end d"] e show ?thesis using c(2) l(2) fs
      by (auto simp: skipToValueForRawKey_def)
  next
    case False
    then obtain ys where y: "fs1 = gs @ (key, v) # ys" "hs = ys @ fs2"
      using fs c(1) by (auto simp: append_eq_append_conv2 append_eq_Cons_conv)
    have "scan_keys ?m key (kd_end d) (kd_cur d) = scan_keys ?m key (kd_end d) (kd_cur d + length (?r fs2))"
      by (rule scan_past) (use l fs fit dis c y in \<open>auto simp: lies_simps add.assoc\<close>)
    then have "scan_keys ?m key (kd_end d) (kd_cur d) = Some (Missed (kd_end d))" using c l(2) by (simp add: scan_missed add.assoc)
    moreover have "\<exists>p. scan_keys ?m key (kd_cur d) (kd_begin d) = Some (Found p) \<and> lies ?m p (kv_type_byte v # value_bytes cls content v) \<and>
        p + 1 + length (value_bytes cls content v) = kd_begin d + length (?r (gs @ [(key, v)]))"
      using found [of "[]" gs "kd_cur d"] y c(2) by simp
    ultimately show ?thesis using e by (auto simp: skipToValueForRawKey_def)
  qed
qed

lemma skip_to_no_key:
  assumes d: "at_field cls content fs d" and fit: "\<forall>f\<in>set fs. field_fits cls content f" and no: "key \<notin> fst ` set fs"
  shows "skipToValueForRawKey key d = Some (False, d)"
proof -
  let ?m = "kd_mem d" and ?r = "record_bytes cls content"
  obtain fs1 fs2 where c: "fs = fs1 @ fs2" "kd_cur d = kd_begin d + length (?r fs1)" using d by (auto simp: at_field_def)
  have l: "lies ?m (kd_begin d) (?r fs)" "kd_end d = kd_begin d + length (?r fs)" using d by (auto simp: at_field_def)
  have no': "\<forall>f\<in>set fs. field_fits cls content f \<and> fst f \<noteq> key" using fit no by auto
  have "scan_keys ?m key (kd_end d) (kd_cur d) = scan_keys ?m key (kd_end d) (kd_cur d + length (?r fs2))"
    by (rule scan_past) (use l no' c in \<open>auto simp: lies_simps add.assoc\<close>)
  moreover have "scan_keys ?m key (kd_cur d) (kd_begin d) = scan_keys ?m key (kd_cur d) (kd_begin d + length (?r fs1))"
    by (rule scan_past) (use l no' c in \<open>auto simp: lies_simps add.assoc\<close>)
  moreover have "d\<lparr>kd_cur := kd_cur d\<rparr> = d" by simp
  ultimately show ?thesis using c l(2) by (simp add: skipToValueForRawKey_def scan_missed add.assoc)
qed

end
