(* ===== verification/Kv_Record_Facts.thy ===== *)
theory Kv_Record_Facts
  imports Kv_Field_Facts
begin

text \<open>
  The contract between the coder and the classes that follow \<open>PSCoding\<close> (\<open>ps_coding\<close>), and what
  follows from it: the encoder's methods append the fields of a record, and the decoder answers any
  sequence of requests for them as a finite map does, in whatever order they were written.
\<close>

section \<open>Writing a field\<close>

fun encode_field :: "('o \<Rightarrow> byte list) \<Rightarrow> ('o \<Rightarrow> byte list \<Rightarrow> byte list) \<Rightarrow> byte list \<times> 'o kv \<Rightarrow> byte list \<Rightarrow> byte list" where
  "encode_field cls enc (key, KString s) = encodeStringForCKey (Some s) (Some key)"
| "encode_field cls enc (key, KInt32 n) = encodeInt32ForCKey n (Some key)"
| "encode_field cls enc (key, KInt64 n) = encodeInt64ForCKey n (Some key)"
| "encode_field cls enc (key, KObject obj) = encodeObjectForCKey cls enc (Some obj) (Some key)"
| "encode_field cls enc (key, KArray objs) = encodeArrayForCKey cls enc (Some objs) (Some key)"
| "encode_field cls enc (key, KData bs) = encodeDataForCKey (Some bs) (Some key)"
| "encode_field cls enc (key, KInt32Array ns) = encodeInt32ArrayForCKey (Some ns) (Some key)"
| "encode_field cls enc (key, KInt32Dict es) = encodeInt32DictionaryForCKey cls enc (Some es) (Some key)"
| "encode_field cls enc (key, KDouble n) = encodeDoubleForCKey n key"

lemma write_key_bytes: "write_key key t data = data @ counted key @ [t]"
  by (simp add: write_key_def writeLength_def counted_def)

lemma patch_length_bytes: "patch_length (length data) (data @ int32_bytes w @ bs) = data @ sized bs"
  by (simp add: patch_length_def replace_bytes_def sized_def)

section \<open>Reading a value\<close>

lemma read_counted: "lies m p (counted bs) \<Longrightarrow> length (counted bs) < 2 ^ 31 \<Longrightarrow>
    readString m p = Some (ns_string bs, p + length (counted bs)) \<and> readData m p = Some (bs, p + length (counted bs))"
  using lies_counted [of m p bs] length_counted [of bs] by (auto simp: readString_def readData_def lies_read_bytes)

lemma read_numbers:
  "lies m p (int32_bytes n) \<Longrightarrow> readInt32 m p = Some (n, p + 4)"
  "lies m p (bytes64 w) \<Longrightarrow> readInt64 m p = Some (w, p + 8)"
  "lies m p (bytes64 w) \<Longrightarrow> readDouble m p = Some (w, p + 8)"
  by (simp_all add: readInt32_def readInt64_def readDouble_def lies_load32 lies_load64)

lemma lies_c_string: "lies m p (bs @ 0 # cs) \<Longrightarrow> 0 \<notin> set bs \<Longrightarrow> c_string m p = Some bs"
proof -
  assume "lies m p (bs @ 0 # cs)" "0 \<notin> set bs"
  then obtain post where "drop p m = bs @ 0 # cs @ post" using lies_drop by fastforce
  moreover from \<open>0 \<notin> set bs\<close> have "takeWhile (\<lambda>b. b \<noteq> 0) (bs @ 0 # cs @ post) = bs" by (subst takeWhile_append2) auto
  ultimately show ?thesis by (simp add: c_string_def)
qed

lemma length_objects: "\<forall>x\<in>set xs. 0 < length (f x) \<Longrightarrow> length xs \<le> length (concat (map f xs))"
  by (induction xs) (auto simp del: length_greater_0_conv length_concat)

section \<open>Requests and answers\<close>

datatype kv_type = TString | TInt32 | TInt64 | TObject | TArray | TData | TInt32Dict | TDouble

datatype ('o, 'f) answer =
    AString "byte list option"
  | AInt32 "32 word"
  | AInt64 "64 word"
  | AObject "'o option"
  | AArray "'o list option"
  | AData "byte list option"
  | ADict "(32 word \<Rightarrow> 'o option) option"
  | ADouble 'f

lemma inj_answer [simp]: "inj AString" "inj AInt32" "inj AInt64" "inj AObject" "inj AArray" "inj AData"
  by (simp_all add: inj_def)

text \<open>The request of a key as a value of a type, by the decoder's method for that type.\<close>

definition answered :: "('a \<Rightarrow> 'b) \<Rightarrow> ('a \<times> PSKeyValueDecoder) option \<Rightarrow> ('b \<times> PSKeyValueDecoder) option" where
  "answered f r = map_option (map_prod f id) r"

fun decode_as :: "'o runtime \<Rightarrow> 'f conversions \<Rightarrow> kv_type \<Rightarrow> byte list \<Rightarrow> PSKeyValueDecoder \<Rightarrow> (('o, 'f) answer \<times> PSKeyValueDecoder) option" where
  "decode_as rt cv TString key d = answered AString (decodeStringForRawKey key d)"
| "decode_as rt cv TInt32 key d = answered AInt32 (decodeInt32ForRawKey cv key d)"
| "decode_as rt cv TInt64 key d = answered AInt64 (decodeInt64ForRawKey cv key d)"
| "decode_as rt cv TObject key d = answered AObject (decodeObjectForRawKey rt key d)"
| "decode_as rt cv TArray key d = answered AArray (decodeArrayForRawKey rt key d)"
| "decode_as rt cv TData key d = answered AData (decodeDataForRawKey key d)"
| "decode_as rt cv TInt32Dict key d = answered ADict (decodeInt32DictionaryForCKey rt key d)"
| "decode_as rt cv TDouble key d = answered ADouble (decodeDoubleForCKey cv key d)"

fun decode_all :: "'o runtime \<Rightarrow> 'f conversions \<Rightarrow> (kv_type \<times> byte list) list \<Rightarrow> PSKeyValueDecoder \<Rightarrow> (('o, 'f) answer list \<times> PSKeyValueDecoder) option" where
  "decode_all rt cv [] d = Some ([], d)"
| "decode_all rt cv ((t, key) # reqs) d = do {
     (a, d) \<leftarrow> decode_as rt cv t key d;
     (as, d) \<leftarrow> decode_all rt cv reqs d;
     Some (a # as, d) }"

text \<open>
  What a finite map from keys to values answers: the value, converted between strings and numbers as
  the library does, a default for a key that is not there, and nothing when the types do not agree.
\<close>

fun convert :: "'f conversions \<Rightarrow> kv_type \<Rightarrow> 'o kv \<Rightarrow> ('o, 'f) answer option" where
  "convert cv TString (KString s) = Some (AString (Some s))"
| "convert cv TString (KInt32 n) = Some (AString (Some (decimal (sint n))))"
| "convert cv TString (KInt64 n) = Some (AString (Some (decimal (sint n))))"
| "convert cv TInt32 (KString s) = Some (AInt32 (intValue cv s))"
| "convert cv TInt32 (KInt32 n) = Some (AInt32 n)"
| "convert cv TInt32 (KInt64 n) = Some (AInt32 (ucast n))"
| "convert cv TInt64 (KString s) = Some (AInt64 (longLongValue cv s))"
| "convert cv TInt64 (KInt32 n) = Some (AInt64 (scast n))"
| "convert cv TInt64 (KInt64 n) = Some (AInt64 n)"
| "convert cv TObject (KObject obj) = Some (AObject (Some obj))"
| "convert cv TArray (KArray objs) = Some (AArray (Some objs))"
| "convert cv TData (KData bs) = Some (AData (Some bs))"
| "convert cv TInt32Dict (KInt32Dict es) = Some (ADict (Some (map_of (rev es))))"
| "convert cv TDouble (KString s) = Some (ADouble (double_of_int32 cv (int32_of_double cv (doubleValue cv s))))"
| "convert cv TDouble (KInt32 n) = Some (ADouble (double_of_int32 cv n))"
| "convert cv TDouble (KInt64 n) = Some (ADouble (double_of_int64 cv n))"
| "convert cv TDouble (KDouble n) = Some (ADouble (double_of_bits cv n))"
| "convert cv _ _ = None"

fun absent :: "'f conversions \<Rightarrow> kv_type \<Rightarrow> ('o, 'f) answer" where
  "absent cv TString = AString None"
| "absent cv TInt32 = AInt32 0"
| "absent cv TInt64 = AInt64 0"
| "absent cv TObject = AObject None"
| "absent cv TArray = AArray None"
| "absent cv TData = AData None"
| "absent cv TInt32Dict = ADict None"
| "absent cv TDouble = ADouble (double_of_int32 cv 0)"

definition lookup_as :: "'f conversions \<Rightarrow> (byte list \<Rightarrow> 'o kv option) \<Rightarrow> kv_type \<times> byte list \<Rightarrow> ('o, 'f) answer option" where
  "lookup_as cv M req = (case M (snd req) of None \<Rightarrow> Some (absent cv (fst req)) | Some v \<Rightarrow> convert cv (fst req) v)"

text \<open>The values a class can be asked to write.\<close>

fun value_storable :: "('o \<Rightarrow> bool) \<Rightarrow> 'o kv \<Rightarrow> bool" where
  "value_storable storable (KString s) = utf8_valid s"
| "value_storable storable (KObject obj) = storable obj"
| "value_storable storable (KArray objs) = list_all storable objs"
| "value_storable storable (KInt32Dict es) = list_all (storable \<circ> snd) es"
| "value_storable storable _ = True"

definition record_ok :: "('o \<Rightarrow> byte list) \<Rightarrow> ('o \<Rightarrow> byte list) \<Rightarrow> ('o \<Rightarrow> bool) \<Rightarrow> (byte list \<times> 'o kv) list \<Rightarrow> bool" where
  "record_ok cls content storable fs \<longleftrightarrow>
     distinct (map fst fs) \<and> (\<forall>f\<in>set fs. field_fits cls content f \<and> value_storable storable (snd f))"

text \<open>A table of \<open>n\<close> elements with its size in front.\<close>

lemma lies_table:
  assumes "lies m p (sized (length_bytes 4 (of_nat n) @ bs))" "length (sized (length_bytes 4 (of_nat n) @ bs)) < 2 ^ 31" "n \<le> length bs"
  shows "\<exists>k q. load32_at m p = Some (of_nat k) \<and> unat (of_nat k :: 32 word) = k \<and> p + 4 + k = p + length (sized (length_bytes 4 (of_nat n) @ bs)) \<and>
           readLength m (p + 4) = Some (of_nat n, q) \<and> unat (of_nat n :: 32 word) = n \<and> lies m q bs \<and> length bs < 2 ^ 31"
proof -
  let ?body = "length_bytes 4 (of_nat n) @ bs"
  have s: "length ?body < 2 ^ 31" using assms(2) by (simp add: sized_def)
  then have "length ?body < 2 ^ 32" "n < 2 ^ 32" using assms(3) by simp_all
  then have "unat (of_nat (length ?body) :: 32 word) = length ?body" "unat (of_nat n :: 32 word) = n" using unat_of_nat32 by blast+
  moreover have "load32_at m p = Some (of_nat (length ?body))" "lies m (p + 4) ?body" using lies_sized assms(1) by blast+
  moreover from this(2) have "readLength m (p + 4) = Some (of_nat n, p + 4 + length (length_bytes 4 (of_nat n)))"
    "lies m (p + 4 + length (length_bytes 4 (of_nat n))) bs" by (simp_all add: lies_simps readLength_bytes)
  moreover have "p + 4 + length ?body = p + length (sized ?body)" by (simp add: sized_def)
  moreover have "length bs < 2 ^ 31" using s by simp
  ultimately show ?thesis by (intro exI conjI) assumption+
qed

section \<open>Objects\<close>

text \<open>
  A class that follows \<open>PSCoding\<close>: its \<open>encodeWithKeyValueCoder:\<close> only appends, and its
  \<open>initWithKeyValueCoder:\<close> gives the object back when the decoder's range holds what was appended.
\<close>

locale ps_writer =
  fixes cls :: "'o \<Rightarrow> byte list"
    and enc :: "'o \<Rightarrow> byte list \<Rightarrow> byte list"
    and content :: "'o \<Rightarrow> byte list"
  assumes appends: "enc obj data = data @ content obj"
begin

lemma encodeObjectValue_bytes: "encodeObjectValue cls enc obj data = data @ object_bytes cls content obj"
  by (simp add: encodeObjectValue_def appends Let_def patch_length_bytes object_bytes_def)

lemma encode_objects_bytes: "fold (encodeObjectValue cls enc) objs data = data @ concat (map (object_bytes cls content) objs)"
  by (induction objs arbitrary: data) (simp_all add: encodeObjectValue_bytes)

lemma encode_entries_bytes: "fold (\<lambda>(k, obj) data. encodeObjectValue cls enc obj (data @ int32_bytes k)) es data =
    data @ concat (map (\<lambda>(k, obj). int32_bytes k @ object_bytes cls content obj) es)"
  by (induction es arbitrary: data) (auto simp: encodeObjectValue_bytes)

lemma encode_numbers_bytes: "fold (\<lambda>number data. data @ int32_bytes number) ns data = data @ concat (map int32_bytes ns)"
  by (induction ns arbitrary: data) simp_all

lemma encode_array_bytes: "encodeArrayForCKey cls enc (Some objs) (Some key) data =
    write_key key PSKeyValueCoderFieldTypeArray data @ value_bytes cls content (KArray objs)"
  by (simp add: encodeArrayForCKey_def Let_def writeLength_def encode_objects_bytes patch_length_bytes)

lemma encode_dict_bytes: "encodeInt32DictionaryForCKey cls enc (Some es) (Some key) data =
    write_key key PSKeyValueCoderFieldTypeInt32Dictionary data @ value_bytes cls content (KInt32Dict es)"
  using encode_entries_bytes [of es] by (simp add: encodeInt32DictionaryForCKey_def Let_def writeLength_def patch_length_bytes)

lemma encode_field_bytes: "encode_field cls enc f data = data @ field_bytes cls content f"
  by (cases f; cases "snd f")
    (auto simp: field_bytes_def write_key_bytes Let_def writeLength_def encode_array_bytes encode_dict_bytes encode_numbers_bytes counted_def
      encodeObjectValue_bytes encodeStringForCKey_def encodeInt32ForCKey_def encodeInt64ForCKey_def encodeObjectForCKey_def
      encodeDataForCKey_def encodeInt32ArrayForCKey_def encodeDoubleForCKey_def)

lemma encode_fields_bytes: "fold (encode_field cls enc) fs data = data @ record_bytes cls content fs"
  by (induction fs arbitrary: data) (simp_all add: encode_field_bytes)

end


locale ps_coding = ps_writer cls enc content
  for cls :: "'o \<Rightarrow> byte list" and enc :: "'o \<Rightarrow> byte list \<Rightarrow> byte list" and content :: "'o \<Rightarrow> byte list" +
  fixes rt :: "'o runtime"
    and storable :: "'o \<Rightarrow> bool"
  assumes named: "storable obj \<Longrightarrow> 0 \<notin> set (cls obj)"
    and restores: "storable obj \<Longrightarrow> lies m p (content obj) \<Longrightarrow>
      \<exists>init. rt (cls obj) = Some init \<and>
        init \<lparr>kd_data = None, kd_mem = m, kd_begin = p, kd_end = p + length (content obj), kd_cur = p\<rparr> = Some (Some obj)"
begin

lemma readObject_bytes:
  assumes "lies m p (object_bytes cls content obj)" "storable obj" "length (object_bytes cls content obj) < 2 ^ 31"
  shows "readObject rt m p = Some (Some obj, p + length (object_bytes cls content obj))"
proof -
  define q n where "q = p + 4 + (length (cls obj) + 1)" and "n = length (cls obj @ [0] @ content obj)"
  have l: "load32_at m p = Some (of_nat n)" "lies m (p + 4) (cls obj @ [0] @ content obj)"
    using lies_sized assms(1) unfolding object_bytes_def n_def by blast+
  have c: "c_string m (p + 4) = Some (cls obj)" using lies_c_string named assms(2) l(2) by simp
  have n: "unat (of_nat n :: 32 word) = n"
    using assms(3) by (intro unat_of_nat32) (simp add: object_bytes_def sized_def n_def)
  have "lies m q (content obj)" "q + length (content obj) = p + 4 + n" using l(2) by (simp_all add: lies_simps q_def n_def)
  from restores [OF assms(2) this(1), unfolded this(2)] obtain init where
    "rt (cls obj) = Some init" "init \<lparr>kd_data = None, kd_mem = m, kd_begin = q, kd_end = p + 4 + n, kd_cur = q\<rparr> = Some (Some obj)" by blast
  then have "readObject rt m p = Some (Some obj, p + 4 + n)"
    using l(1) c n unfolding q_def by (simp add: readObject_def Let_def)
  then show ?thesis by (simp add: object_bytes_def sized_def n_def)
qed

lemma length_object_bytes: "0 < length (object_bytes cls content obj)"
  by (simp add: object_bytes_def sized_def)

lemma read_objects_bytes:
  assumes "lies m p (concat (map (object_bytes cls content) objs))" "list_all storable objs"
    "length (concat (map (object_bytes cls content) objs)) < 2 ^ 31"
  shows "read_objects rt (length objs) m p array = Some (array @ objs)"
  using assms by (induction objs arbitrary: p array) (auto simp: lies_simps readObject_bytes)

lemma readArray_bytes:
  assumes "lies m p (value_bytes cls content (KArray objs))" "list_all storable objs" "length (value_bytes cls content (KArray objs)) < 2 ^ 31"
  shows "readArray rt m p = Some (objs, p + length (value_bytes cls content (KArray objs)))"
proof -
  have "length objs \<le> length (concat (map (object_bytes cls content) objs))"
    using length_objects [of objs "object_bytes cls content"] length_object_bytes by blast
  from lies_table [OF assms(1) [unfolded value_bytes.simps] assms(3) [unfolded value_bytes.simps] this]
  show ?thesis using read_objects_bytes [OF _ assms(2), of m] by (auto simp: readArray_def Let_def simp del: length_concat)
qed

lemma read_entries_bytes:
  assumes "lies m p (concat (map (\<lambda>(k, obj). int32_bytes k @ object_bytes cls content obj) es))" "list_all (storable \<circ> snd) es"
    "length (concat (map (\<lambda>(k, obj). int32_bytes k @ object_bytes cls content obj) es)) < 2 ^ 31"
  shows "read_entries rt (length es) m p dict = Some (dict ++ map_of (rev es))"
  using assms
  by (induction es arbitrary: p dict) (auto simp: lies_simps readObject_bytes lies_load32 add.assoc simp del: length_concat)

lemma readInt32Dictionary_bytes:
  assumes "lies m p (value_bytes cls content (KInt32Dict es))" "list_all (storable \<circ> snd) es" "length (value_bytes cls content (KInt32Dict es)) < 2 ^ 31"
  shows "readInt32Dictionary rt m p = Some (map_of (rev es), p + length (value_bytes cls content (KInt32Dict es)))"
proof -
  let ?f = "\<lambda>(k, obj). int32_bytes k @ object_bytes cls content obj"
  have "length es \<le> length (concat (map ?f es))" 
    by (rule length_objects) auto
  from lies_table [OF assms(1) [unfolded value_bytes.simps] assms(3) [unfolded value_bytes.simps] this]
  show ?thesis using read_entries_bytes [OF _ assms(2), of m] by (auto simp: readInt32Dictionary_def Let_def simp del: length_concat)
qed

lemma decode_absent:
  assumes "at_field cls content fs d" "record_ok cls content storable fs" "key \<notin> fst ` set fs"
  shows "decode_as rt cv t key d = Some (absent cv t, d)"
proof -
  have "skipToValueForRawKey key d = Some (False, d)"
    using skip_to_no_key assms unfolding record_ok_def by blast
  then show ?thesis
    by (cases t) (simp_all add: answered_def decodeStringForRawKey_def decodeInt32ForRawKey_def decodeInt64ForRawKey_def decodeObjectForRawKey_def
        decodeArrayForRawKey_def decodeDataForRawKey_def decodeInt32DictionaryForCKey_def decodeDoubleForCKey_def)
qed

lemma read_value_bytes:
  assumes "lies (kd_mem d) (kd_cur d) (value_bytes cls content v)" "length (value_bytes cls content v) < 2 ^ 31" "value_storable storable v"
  shows "v = KString s \<Longrightarrow> read_value readString d = Some (Some s, d\<lparr>kd_cur := kd_cur d + length (value_bytes cls content v)\<rparr>)"
    and "v = KInt32 n \<Longrightarrow> read_value readInt32 d = Some (n, d\<lparr>kd_cur := kd_cur d + length (value_bytes cls content v)\<rparr>)"
    and "v = KInt64 w \<Longrightarrow> read_value readInt64 d = Some (w, d\<lparr>kd_cur := kd_cur d + length (value_bytes cls content v)\<rparr>)"
    and "v = KObject obj \<Longrightarrow> read_value (readObject rt) d = Some (Some obj, d\<lparr>kd_cur := kd_cur d + length (value_bytes cls content v)\<rparr>)"
    and "v = KArray objs \<Longrightarrow> read_value (readArray rt) d = Some (objs, d\<lparr>kd_cur := kd_cur d + length (value_bytes cls content v)\<rparr>)"
    and "v = KData s \<Longrightarrow> read_value readData d = Some (s, d\<lparr>kd_cur := kd_cur d + length (value_bytes cls content v)\<rparr>)"
    and "v = KInt32Dict es \<Longrightarrow> read_value (readInt32Dictionary rt) d = Some (map_of (rev es), d\<lparr>kd_cur := kd_cur d + length (value_bytes cls content v)\<rparr>)"
    and "v = KDouble w \<Longrightarrow> read_value readDouble d = Some (w, d\<lparr>kd_cur := kd_cur d + length (value_bytes cls content v)\<rparr>)"
  using assms read_counted [of "kd_mem d" "kd_cur d" s] read_numbers [of "kd_mem d" "kd_cur d"] readObject_bytes [of "kd_mem d" "kd_cur d" obj]
    readArray_bytes [of "kd_mem d" "kd_cur d" objs] readInt32Dictionary_bytes [of "kd_mem d" "kd_cur d" es]
  by (simp_all add: read_value_def ns_string_def del: value_bytes.simps(5,8))

lemma decode_present:
  assumes d: "at_field cls content fs d" and ok: "record_ok cls content storable fs" and f: "(key, v) \<in> set fs" and a: "convert cv t v = Some a"
  shows "\<exists>p. decode_as rt cv t key d = Some (a, d\<lparr>kd_cur := p\<rparr>) \<and> at_field cls content fs (d\<lparr>kd_cur := p\<rparr>)"
proof -
  obtain p where p: "skipToValueForRawKey key d = Some (True, d\<lparr>kd_cur := p\<rparr>)" "lies (kd_mem d) p (kv_type_byte v # value_bytes cls content v)"
    "at_field cls content fs (d\<lparr>kd_cur := p + 1 + length (value_bytes cls content v)\<rparr>)"
    using skip_to_key [OF d _ _ f] ok unfolding record_ok_def by blast
  define e where "e = d\<lparr>kd_cur := p + 1\<rparr>"
  have v: "lies (kd_mem e) (kd_cur e) (value_bytes cls content v)" "length (value_bytes cls content v) < 2 ^ 31" "value_storable storable v"
    and t: "field_type (d\<lparr>kd_cur := p\<rparr>) = Some (kv_type_byte v, e)"
    using p(2) ok f by (auto simp: lies_simps record_ok_def field_fits_def e_def field_type_def)
  note r = read_value_bytes [OF v]
  have "decode_as rt cv t key d = Some (a, e\<lparr>kd_cur := kd_cur e + length (value_bytes cls content v)\<rparr>)"
  proof (cases t)
    case TString
    then show ?thesis using a p(1) \<open>field_type _ = _\<close> r(1-3) by (cases v) (auto simp: answered_def decodeStringForRawKey_def field_type_defs)
  next
    case TInt32
    then show ?thesis using a p(1) \<open>field_type _ = _\<close> r(1-3) by (cases v) (auto simp: answered_def decodeInt32ForRawKey_def field_type_defs)
  next
    case TInt64
    then show ?thesis using a p(1) \<open>field_type _ = _\<close> r(1-3) by (cases v) (auto simp: answered_def decodeInt64ForRawKey_def field_type_defs)
  next
    case TObject
    then show ?thesis using a p(1) \<open>field_type _ = _\<close> r(4) by (cases v) (auto simp: answered_def decodeObjectForRawKey_def field_type_defs)
  next
    case TArray
    then show ?thesis using a p(1) \<open>field_type _ = _\<close> r(5) by (cases v) (auto simp: answered_def decodeArrayForRawKey_def field_type_defs)
  next
    case TData
    then show ?thesis using a p(1) \<open>field_type _ = _\<close> r(6) by (cases v) (auto simp: answered_def decodeDataForRawKey_def field_type_defs)
  next
    case TInt32Dict
    then show ?thesis using a p(1) \<open>field_type _ = _\<close> r(7) by (cases v) (auto simp: answered_def decodeInt32DictionaryForCKey_def field_type_defs)
  next
    case TDouble
    then show ?thesis using a p(1) \<open>field_type _ = _\<close> r(1-3,8) by (cases v) (auto simp: answered_def decodeDoubleForCKey_def field_type_defs)
  qed
  then show ?thesis using p(3) by (auto simp: e_def)
qed

text \<open>A request is answered as by the map of the record, and the decoder stays at a border.\<close>

lemma decode_request:
  assumes "at_field cls content fs d" "record_ok cls content storable fs" "lookup_as cv (map_of fs) (t, key) = Some a"
  shows "\<exists>e. decode_as rt cv t key d = Some (a, e) \<and> at_field cls content fs e"
proof (cases "map_of fs key")
  case None
  then have "key \<notin> fst ` set fs" by (simp add: map_of_eq_None_iff)
  from decode_absent [OF assms(1,2) this, of cv t] show ?thesis using assms None by (simp add: lookup_as_def)
next
  case (Some v)
  then have "convert cv t v = Some a" using assms(3) by (simp add: lookup_as_def)
  then show ?thesis using decode_present [OF assms(1,2) map_of_SomeD [OF Some]] by blast
qed

lemma decode_all_requests:
  assumes "at_field cls content fs d" "record_ok cls content storable fs" "\<forall>req\<in>set reqs. lookup_as cv (map_of fs) req \<noteq> None"
  shows "\<exists>d'. decode_all rt cv reqs d = Some (map (\<lambda>req. the (lookup_as cv (map_of fs) req)) reqs, d')"
  using assms
proof (induction reqs arbitrary: d)
  case (Cons req reqs)
  obtain t key where req: "req = (t, key)" by (cases req)
  then obtain a where a: "lookup_as cv (map_of fs) (t, key) = Some a" using Cons.prems(3) by auto
  from decode_request [OF Cons.prems(1,2) this] obtain e where "decode_as rt cv t key d = Some (a, e)" "at_field cls content fs e" by blast
  moreover from this Cons obtain d' where "decode_all rt cv reqs e = Some (map (\<lambda>req. the (lookup_as cv (map_of fs) req)) reqs, d')"
    by fastforce
  ultimately show ?case using req a by simp
qed simp

text \<open>The rules for the decoder's methods in an initializer, whose result does not depend on where the decoder is left.\<close>

lemma request_step:
  assumes "at_field cls content fs d" "record_ok cls content storable fs" "lookup_as cv (map_of fs) (t, key) = Some (c x)"
    and m: "decode_as rt cv t key d = answered c m" and c: "inj c" and k: "\<And>e. at_field cls content fs e \<Longrightarrow> k x e = r"
  shows "(m \<bind> (\<lambda>(x, d). k x d)) = r"
proof -
  obtain e where "decode_as rt cv t key d = Some (c x, e)" "at_field cls content fs e" using decode_request [OF assms(1-3)] by blast
  then have "m = Some (x, e)" using m injD [OF c] by (auto simp: answered_def)
  then show ?thesis using k \<open>at_field cls content fs e\<close> by simp
qed

lemmas string_step = request_step [where t = TString and c = AString, simplified, OF _ _ _ refl]
  and int32_step = request_step [where t = TInt32 and c = AInt32, simplified, OF _ _ _ refl]
  and int64_step = request_step [where t = TInt64 and c = AInt64, simplified, OF _ _ _ refl]
  and object_step = request_step [where t = TObject and c = AObject, simplified, OF _ _ _ refl]
  and array_step = request_step [where t = TArray and c = AArray, simplified, OF _ _ _ refl]
  and data_step = request_step [where t = TData and c = AData, simplified, OF _ _ _ refl]

end

text \<open>A decoder set up on a whole record.\<close>

lemma at_first_field:
  assumes "lies (kd_mem d) (kd_begin d) (record_bytes cls content fs)" "kd_end d = kd_begin d + length (record_bytes cls content fs)" "kd_cur d = kd_begin d"
  shows "at_field cls content fs d"
proof -
  have "fs = [] @ fs \<and> kd_cur d = kd_begin d + length (record_bytes cls content [])" using assms(3) by simp
  then show ?thesis unfolding at_field_def using assms(1,2) by blast
qed

lemma at_field_initWithData: "at_field cls content fs (initWithData (record_bytes cls content fs))"
  using lies_middle [of "[]" "record_bytes cls content fs" "[]"] by (intro at_first_field) (simp_all add: initWithData_def)

end
