(* ===== verification/Kv_Objects_Facts.thy ===== *)
theory Kv_Objects_Facts
  imports Kv_Objects Kv_Record_Facts
begin

text \<open>
  The classes of \<open>Kv_Objects\<close> keep the contract \<open>ps_coding\<close> (interpretation \<open>tg\<close>), so whatever tree of
  objects the encoder writes, the decoder gives back.
\<close>

section \<open>The fields of an object\<close>

definition field_if :: "('a \<Rightarrow> 'o kv) \<Rightarrow> string \<Rightarrow> 'a option \<Rightarrow> (byte list \<times> 'o kv) list" where
  "field_if c key x = (case x of None \<Rightarrow> [] | Some x \<Rightarrow> [(ckey key, c x)])"

lemma field_if_simps [simp]: "field_if c key None = []" "field_if c key (Some x) = [(ckey key, c x)]"
  by (simp_all add: field_if_def)

fun tg_fields :: "tg_object \<Rightarrow> (byte list \<times> tg_object kv) list" where
  "tg_fields (TGFeedPosition date n_id peerId) = [(ckey ''d'', KInt32 date), (ckey ''m'', KInt32 n_id), (ckey ''p'', KInt64 peerId)]"
| "tg_fields (TGQueuedPeerPoll peerId feedPosition) = (ckey ''i'', KInt64 peerId) # field_if KObject ''p'' feedPosition"
| "tg_fields (TGBotReplyMarkupButtonActionUrl url) = field_if KString ''url'' url"
| "tg_fields (TGBotReplyMarkupButtonActionCallback bytes) = field_if KData ''data'' bytes"
| "tg_fields TGBotReplyMarkupButtonActionRequestPhone = []"
| "tg_fields TGBotReplyMarkupButtonActionRequestLocation = []"
| "tg_fields (TGBotReplyMarkupButtonActionSwitchInline query samePeer) = field_if KString ''query'' query @ [(ckey ''samePeer'', KInt32 (of_flag samePeer))]"
| "tg_fields (TGBotReplyMarkupButtonActionGame txt) = field_if KString ''text'' txt"
| "tg_fields (TGBotReplyMarkupButtonActionPurchase txt) = field_if KString ''text'' txt"
| "tg_fields (TGBotReplyMarkupButton txt action) = field_if KString ''text'' txt @ field_if KObject ''action'' action"
| "tg_fields (TGBotReplyMarkupRow buttons) = field_if KArray ''buttons'' buttons"
| "tg_fields (TGBotReplyMarkup userId messageId rows match hide activated hidden inline) =
     [(ckey ''userId'', KInt32 userId), (ckey ''messageId'', KInt32 messageId)] @ field_if KArray ''rows'' rows @
     [(ckey ''matchDefaultHeight'', KInt32 (of_flag match)), (ckey ''hideKeyboardOnActivation'', KInt32 (of_flag hide)),
      (ckey ''alreadyActivated'', KInt32 (of_flag activated)), (ckey ''manuallyHidden'', KInt32 (of_flag hidden)),
      (ckey ''isInline'', KInt32 (of_flag inline))]"
| "tg_fields (TGBotComandInfo command commandDescription) = field_if KString ''command'' command @ field_if KString ''commandDescription'' commandDescription"
| "tg_fields (TGBotInfo version short descr commandList) =
     (ckey ''version'', KInt32 version) # field_if KString ''shortDescription'' short @ field_if KString ''botDescription'' descr @
     field_if KArray ''commandList'' commandList"

lemma encodes_fields: "encodeWithKeyValueCoder obj data = fold (encode_field cls_of encodeWithKeyValueCoder) (tg_fields obj) data"
  by (cases obj)
    (auto simp: field_if_def encode_TGFeedPosition_def encode_TGQueuedPeerPoll_def encode_ActionUrl_def encode_ActionCallback_def
      encode_ActionRequestPhone_def encode_ActionRequestLocation_def encode_ActionSwitchInline_def encode_ActionGame_def encode_ActionPurchase_def
      encode_TGBotReplyMarkupButton_def encode_TGBotReplyMarkupRow_def encode_TGBotReplyMarkup_def encode_TGBotComandInfo_def encode_TGBotInfo_def
      encodeStringForCKey_def encodeObjectForCKey_def encodeArrayForCKey_def encodeDataForCKey_def Let_def of_flag_def split: option.splits)

lemma field_objects_smaller: "(key, v) \<in> set (tg_fields obj) \<Longrightarrow> x \<in> set_kv v \<Longrightarrow> size x < size obj"
  by (cases obj) (auto simp: field_if_def less_Suc_eq_le intro!: le_SucI elim!: size_list_estimation' split: option.splits)

section \<open>Only appending\<close>

lemma encode_field_cong: "(\<And>x ys. x \<in> set_kv v \<Longrightarrow> enc x ys = enc' x ys) \<Longrightarrow> snd f = v \<Longrightarrow> (\<And>es. v \<noteq> KInt32Dict es) \<Longrightarrow> encode_field cls enc f data = encode_field cls enc' f data"
  by (cases f; cases v) (auto intro: encodeObjectForCKey_cong encodeArrayForCKey_cong)

lemma tg_fields_no_dict: "(key, v) \<in> set (tg_fields obj) \<Longrightarrow> v \<noteq> KInt32Dict es"
  by (cases obj) (auto simp: field_if_def split: option.splits)

definition content_of :: "tg_object \<Rightarrow> byte list" where
  "content_of obj = encodeWithKeyValueCoder obj []"


lemma encode_field_tg_cong:
  assumes "f \<in> set (tg_fields obj)" "\<And>x ys. size x < size obj \<Longrightarrow> enc x ys = enc' x ys"
  shows "encode_field cls_of enc f data = encode_field cls_of enc' f data"
proof (rule encode_field_cong)
  show "snd f \<noteq> KInt32Dict es" for es using tg_fields_no_dict [of "fst f" "snd f" obj] assms(1) by simp
  show "enc x ys = enc' x ys" if "x \<in> set_kv (snd f)" for x ys
    using field_objects_smaller [of "fst f" "snd f" obj x] assms that by simp
qed simp

text \<open>The encoder that appends by definition, and agrees with the one of the objects.\<close>

definition appending :: encoder where
  "appending obj data = data @ content_of obj"

interpretation appending: ps_writer cls_of appending content_of
  by unfold_locales (simp add: appending_def)

lemma encodeWithKeyValueCoder_bytes: "encodeWithKeyValueCoder obj data = data @ record_bytes cls_of content_of (tg_fields obj)"
proof (induction "size obj" arbitrary: obj data rule: less_induct)
  case less
  have e: "encodeWithKeyValueCoder x ys = appending x ys" if "size x < size obj" for x ys
    using less [OF that, of ys] less [OF that, of "[]"] by (simp add: appending_def content_of_def)
  have "encode_field cls_of encodeWithKeyValueCoder f = encode_field cls_of appending f" if "f \<in> set (tg_fields obj)" for f
    by (rule ext, rule encode_field_tg_cong [OF that], rule e)
  then have "fold (encode_field cls_of encodeWithKeyValueCoder) (tg_fields obj) data = fold (encode_field cls_of appending) (tg_fields obj) data"
    by (intro fold_cong) auto
  then show ?case by (simp add: encodes_fields [of obj data] appending.encode_fields_bytes)
qed

lemma content_of_fields: "content_of obj = record_bytes cls_of content_of (tg_fields obj)"
  by (simp add: content_of_def encodeWithKeyValueCoder_bytes)

interpretation tg_writer: ps_writer cls_of encodeWithKeyValueCoder content_of
  by unfold_locales (metis encodeWithKeyValueCoder_bytes content_of_fields)

section \<open>Restoring\<close>

text \<open>
  An object whose strings are UTF-8, whose fields fit in 31 bits of length, and which is nested less than \<open>n\<close> deep.
\<close>

fun tg_storable :: "nat \<Rightarrow> tg_object \<Rightarrow> bool" where
  "tg_storable 0 obj = False"
| "tg_storable (Suc n) obj = (\<forall>f\<in>set (tg_fields obj). field_fits cls_of content_of f \<and> value_storable (tg_storable n) (snd f))"

lemma inj_ckey: "ckey s = ckey t \<longleftrightarrow> s = t"
proof -
  have "inj (\<lambda>c. word_of_nat (of_char c) :: byte)"
  proof (rule injI)
    fix c d :: char
    assume "(word_of_nat (of_char c) :: byte) = word_of_nat (of_char d)"
    then have "unat (word_of_nat (of_char c) :: byte) = unat (word_of_nat (of_char d) :: byte)" by simp
    moreover have "(of_char x :: nat) < 256" for x :: char by simp
    ultimately have "(of_char c :: nat) = of_char d" by (simp add: unat_of_nat take_bit_nat_eq_self)
    then show "c = d" by simp
  qed
  then show ?thesis by (simp add: ckey_def inj_map_eq_map)
qed

lemma distinct_tg_fields: "distinct (map fst (tg_fields obj))"
  by (cases obj) (auto simp: field_if_def inj_ckey split: option.splits)

lemma class_name_no_NUL: "0 \<notin> set (cls_of obj)"
  by (cases obj) (simp_all add: cls_of_def ckey_def)


lemma of_flag_nonzero [simp]: "of_flag b \<noteq> 0 \<longleftrightarrow> b"
  by (simp add: of_flag_def)

lemma class_init_restores:
  assumes ps: "ps_coding cls_of enc content_of rt st"
    and d: "at_field cls_of content_of (tg_fields obj) d" and ok: "record_ok cls_of content_of st (tg_fields obj)"
  shows "\<exists>init. class_init cv rt (cls_of obj) = Some init \<and> init d = Some (Some obj)"
proof -
  note steps = ps_coding.int32_step [OF ps _ ok, where cv = cv] ps_coding.int64_step [OF ps _ ok, where cv = cv]
    ps_coding.string_step [OF ps _ ok, where cv = cv] ps_coding.data_step [OF ps _ ok, where cv = cv]
    ps_coding.object_step [OF ps _ ok, where cv = cv] ps_coding.array_step [OF ps _ ok, where cv = cv]
  note looks = lookup_as_def inj_ckey
  show ?thesis
  proof (cases obj)
    case (TGFeedPosition date n_id peerId)
    have "init_TGFeedPosition cv d = Some (Some obj)"
      unfolding init_TGFeedPosition_def
      by (insert d, ((rule steps, assumption, simp add: TGFeedPosition looks)+, simp add: TGFeedPosition))
    then show ?thesis by (simp add: class_init_def cls_of_def inj_ckey TGFeedPosition)
  next
    case (TGQueuedPeerPoll peerId pos)
    have "init_TGQueuedPeerPoll cv rt d = Some (Some obj)"
      unfolding init_TGQueuedPeerPoll_def
      by (insert d, cases pos; ((rule steps, assumption, simp add: TGQueuedPeerPoll looks)+, simp add: TGQueuedPeerPoll))
    then show ?thesis by (simp add: class_init_def cls_of_def inj_ckey TGQueuedPeerPoll)
  next
    case (TGBotReplyMarkupButtonActionUrl url)
    have "init_ActionUrl d = Some (Some obj)"
      unfolding init_ActionUrl_def
      by (insert d, cases url; ((rule steps, assumption, simp add: TGBotReplyMarkupButtonActionUrl looks)+, simp add: TGBotReplyMarkupButtonActionUrl))
    then show ?thesis by (simp add: class_init_def cls_of_def inj_ckey TGBotReplyMarkupButtonActionUrl)
  next
    case (TGBotReplyMarkupButtonActionCallback bs)
    have "init_ActionCallback d = Some (Some obj)"
      unfolding init_ActionCallback_def
      by (insert d, cases bs; ((rule steps, assumption, simp add: TGBotReplyMarkupButtonActionCallback looks)+, simp add: TGBotReplyMarkupButtonActionCallback))
    then show ?thesis by (simp add: class_init_def cls_of_def inj_ckey TGBotReplyMarkupButtonActionCallback)
  next
    case TGBotReplyMarkupButtonActionRequestPhone
    then show ?thesis by (simp add: class_init_def cls_of_def inj_ckey init_ActionRequestPhone_def)
  next
    case TGBotReplyMarkupButtonActionRequestLocation
    then show ?thesis by (simp add: class_init_def cls_of_def inj_ckey init_ActionRequestLocation_def)
  next
    case (TGBotReplyMarkupButtonActionSwitchInline query samePeer)
    have "init_ActionSwitchInline cv d = Some (Some obj)"
      unfolding init_ActionSwitchInline_def
      by (insert d, cases query; ((rule steps, assumption, simp add: TGBotReplyMarkupButtonActionSwitchInline looks)+, simp add: TGBotReplyMarkupButtonActionSwitchInline))
    then show ?thesis by (simp add: class_init_def cls_of_def inj_ckey TGBotReplyMarkupButtonActionSwitchInline)
  next
    case (TGBotReplyMarkupButtonActionGame label)
    have "init_ActionGame d = Some (Some obj)"
      unfolding init_ActionGame_def
      by (insert d, cases label; ((rule steps, assumption, simp add: TGBotReplyMarkupButtonActionGame looks)+, simp add: TGBotReplyMarkupButtonActionGame))
    then show ?thesis by (simp add: class_init_def cls_of_def inj_ckey TGBotReplyMarkupButtonActionGame)
  next
    case (TGBotReplyMarkupButtonActionPurchase label)
    have "init_ActionPurchase d = Some (Some obj)"
      unfolding init_ActionPurchase_def
      by (insert d, cases label; ((rule steps, assumption, simp add: TGBotReplyMarkupButtonActionPurchase looks)+, simp add: TGBotReplyMarkupButtonActionPurchase))
    then show ?thesis by (simp add: class_init_def cls_of_def inj_ckey TGBotReplyMarkupButtonActionPurchase)
  next
    case (TGBotReplyMarkupButton label action)
    have "init_TGBotReplyMarkupButton rt d = Some (Some obj)"
      unfolding init_TGBotReplyMarkupButton_def
      by (insert d, cases label; cases action; ((rule steps, assumption, simp add: TGBotReplyMarkupButton looks)+, simp add: TGBotReplyMarkupButton))
    then show ?thesis by (simp add: class_init_def cls_of_def inj_ckey TGBotReplyMarkupButton)
  next
    case (TGBotReplyMarkupRow buttons)
    have "init_TGBotReplyMarkupRow rt d = Some (Some obj)"
      unfolding init_TGBotReplyMarkupRow_def
      by (insert d, cases buttons; ((rule steps, assumption, simp add: TGBotReplyMarkupRow looks)+, simp add: TGBotReplyMarkupRow))
    then show ?thesis by (simp add: class_init_def cls_of_def inj_ckey TGBotReplyMarkupRow)
  next
    case (TGBotReplyMarkup userId messageId rows match hide activated hidden inline)
    have "init_TGBotReplyMarkup cv rt d = Some (Some obj)"
      unfolding init_TGBotReplyMarkup_def
      by (insert d, cases rows; ((rule steps, assumption, simp add: TGBotReplyMarkup looks)+, simp add: TGBotReplyMarkup))
    then show ?thesis by (simp add: class_init_def cls_of_def inj_ckey TGBotReplyMarkup)
  next
    case (TGBotComandInfo command descr)
    have "init_TGBotComandInfo d = Some (Some obj)"
      unfolding init_TGBotComandInfo_def
      by (insert d, cases command; cases descr; ((rule steps, assumption, simp add: TGBotComandInfo looks)+, simp add: TGBotComandInfo))
    then show ?thesis by (simp add: class_init_def cls_of_def inj_ckey TGBotComandInfo)
  next
    case (TGBotInfo version short descr commandList)
    have "init_TGBotInfo cv rt d = Some (Some obj)"
      unfolding init_TGBotInfo_def
      by (insert d, cases short; cases descr; cases commandList; ((rule steps, assumption, simp add: TGBotInfo looks)+, simp add: TGBotInfo))
    then show ?thesis by (simp add: class_init_def cls_of_def inj_ckey TGBotInfo)
  qed
qed


lemma ps_coding_runtime: "ps_coding cls_of encodeWithKeyValueCoder content_of (tg_runtime n cv) (tg_storable n)"
proof (induction n)
  case 0
  show ?case by unfold_locales (simp_all add: tg_writer.appends)
next
  case (Suc n)
  show ?case
  proof (unfold_locales)
    show "0 \<notin> set (cls_of obj)" for obj by (rule class_name_no_NUL)
    fix obj m p
    let ?d = "\<lparr>kd_data = None, kd_mem = m, kd_begin = p, kd_end = p + length (content_of obj), kd_cur = p\<rparr>"
    assume obj: "tg_storable (Suc n) obj" "lies m p (content_of obj)"
    have "at_field cls_of content_of (tg_fields obj) ?d"
      by (rule at_first_field) (use obj(2) content_of_fields [of obj] in simp_all)
    moreover have "record_ok cls_of content_of (tg_storable n) (tg_fields obj)"
      using obj(1) distinct_tg_fields by (simp add: record_ok_def)
    ultimately show "\<exists>init. tg_runtime (Suc n) cv (cls_of obj) = Some init \<and> init ?d = Some (Some obj)"
      using class_init_restores [OF Suc, of obj ?d cv] by simp
  qed
qed

interpretation tg: ps_coding cls_of encodeWithKeyValueCoder content_of "tg_runtime n cv" "tg_storable n" for n cv
  by (rule ps_coding_runtime)

section \<open>A sample\<close>

definition sample_markup :: tg_object where
  "sample_markup = TGBotReplyMarkup 5 9 (Some [TGBotReplyMarkupRow (Some [TGBotReplyMarkupButton (Some [104, 105])
     (Some (TGBotReplyMarkupButtonActionUrl None))])]) True True False False False"

lemma length_length_bytes: "\<not> v > 127 \<Longrightarrow> length (length_bytes 4 v) = 1"
  by (simp add: small_127 length_bytes_small)

lemmas lengths = field_bytes_def counted_def sized_def object_bytes_def cls_of_def ckey_def length_length_bytes field_fits_def

lemma sample_markup_storable: "tg_storable 4 sample_markup \<and> length (content_of sample_markup) < 1000"
proof -
  let ?u = "TGBotReplyMarkupButtonActionUrl None"
  let ?b = "TGBotReplyMarkupButton (Some [104, 105]) (Some ?u)"
  let ?r = "TGBotReplyMarkupRow (Some [?b])"
  have u: "length (content_of ?u) = 0" by (simp add: content_of_fields [of ?u])
  have b: "length (content_of ?b) = 53" using u by (simp add: content_of_fields [of ?b] lengths)
  have r: "length (content_of ?r) = 94" using b by (simp add: content_of_fields [of ?r] lengths)
  have "tg_storable (Suc (Suc (Suc (Suc 0)))) sample_markup" using u b r by (simp add: sample_markup_def lengths)
  then have "tg_storable 4 sample_markup" by (simp only: eval_nat_numeral BitM.simps)
  moreover have "length (content_of sample_markup) < 1000"
    unfolding content_of_fields [of sample_markup] using r by (simp add: sample_markup_def lengths)
  ultimately show ?thesis ..
qed

definition sample_conversions :: "nat conversions" where
  "sample_conversions = \<lparr>intValue = \<lambda>s. of_nat (length s), longLongValue = \<lambda>s. of_nat (length s), doubleValue = length,
     double_of_bits = unat, double_of_int32 = unat, double_of_int64 = unat, int32_of_double = of_nat\<rparr>"

section \<open>Properties\<close>

text \<open>
  C10: a record of fields with different keys, written in whatever order, none an array of numbers (the
  decoder cannot skip those, \<open>number_array_not_skipped\<close>), keys of at most 1000 bytes, values of less than
  \<open>2 ^ 31\<close>: the decoder answers a sequence of requests, in any order and with repetitions, as the finite
  map of the fields does, if each request is for a key that is not there or for a type that the method
  takes from the value found (\<open>convert\<close>: the type itself, or strings and numbers for one another; other
  requests lose the position, \<open>mismatch_loses_position\<close>).  The answer is the value written, converted,
  or the default for an absent key.  Values include objects, arrays and dictionaries of the classes
  above.
\<close>

theorem kv_record_answers_requests:
  assumes "record_ok cls_of content_of (tg_storable n) fs" "\<forall>req\<in>set reqs. lookup_as cv (map_of fs) req \<noteq> None"
  shows "\<exists>d. decode_all (tg_runtime n cv) cv reqs (initWithData (fold (encode_field cls_of encodeWithKeyValueCoder) fs [])) =
           Some (map (\<lambda>req. the (lookup_as cv (map_of fs) req)) reqs, d)"
  using tg.decode_all_requests [OF at_field_initWithData assms] by (simp add: tg_writer.encode_fields_bytes)

lemma kv_record_answers_requests_witness:
  "\<exists>d. decode_all (tg_runtime 4 sample_conversions) sample_conversions [(TString, ckey ''a''), (TInt64, ckey ''c''), (TObject, ckey ''m'')]
     (initWithData (fold (encode_field cls_of encodeWithKeyValueCoder) [(ckey ''m'', KObject sample_markup), (ckey ''a'', KInt32 7)] [])) =
     Some ([AString (Some [55]), AInt64 0, AObject (Some sample_markup)], d)"
proof -
  let ?fs = "[(ckey ''m'', KObject sample_markup), (ckey ''a'', KInt32 7)]"
  have "length (object_bytes cls_of content_of sample_markup) < 2000"
    using sample_markup_storable by (simp add: object_bytes_def sized_def cls_of_def sample_markup_def ckey_def)
  then have "record_ok cls_of content_of (tg_storable 4) ?fs"
    using sample_markup_storable by (simp add: record_ok_def field_fits_def inj_ckey ckey_def)
  moreover have "decimal 7 = [55]" by (simp add: decimal_def)
  ultimately show ?thesis
    using kv_record_answers_requests [of 4 ?fs "[(TString, ckey ''a''), (TInt64, ckey ''c''), (TObject, ckey ''m'')]" sample_conversions]
    by (simp add: lookup_as_def inj_ckey)
qed

text \<open>
  C9: an object that is written into a buffer of its own is read back from it as the same object, with
  everything it holds: a reply markup with its rows, their buttons and the actions of these.
\<close>

theorem kv_object_restored:
  assumes "tg_storable n obj"
  shows "\<exists>init. tg_runtime n cv (cls_of obj) = Some init \<and> init (initWithData (encodeWithKeyValueCoder obj [])) = Some (Some obj)"
proof (cases n)
  case (Suc k)
  have "at_field cls_of content_of (tg_fields obj) (initWithData (encodeWithKeyValueCoder obj []))"
    using at_field_initWithData [of cls_of content_of "tg_fields obj"] by (simp add: encodeWithKeyValueCoder_bytes)
  moreover have "record_ok cls_of content_of (tg_storable k) (tg_fields obj)"
    using assms distinct_tg_fields by (simp add: record_ok_def Suc)
  ultimately show ?thesis
    using class_init_restores [OF ps_coding_runtime, of obj _ k cv cv] by (simp add: Suc)
qed (use assms in simp)

lemma kv_object_restored_witness:
  "\<exists>init. tg_runtime 4 sample_conversions (cls_of sample_markup) = Some init \<and>
     init (initWithData (encodeWithKeyValueCoder sample_markup [])) = Some (Some sample_markup)"
  using kv_object_restored [of 4 sample_markup sample_conversions] sample_markup_storable by blast

section \<open>Where the coder does not do what it means to\<close>

text \<open>
  An array of numbers is not stepped over: behind one, the search for another key reads outside of the
  buffer, although the key is there.
\<close>

lemma number_array_not_skipped:
  "decodeInt32ForRawKey cv (ckey ''b'')
     (initWithData (encodeInt32ForCKey 7 (Some (ckey ''b'')) (encodeInt32ArrayForCKey (Some [2]) (Some (ckey ''a'')) []))) = None"
  by code_simp

text \<open>
  After a request for a value of another type the decoder has stepped over the type byte twice, and the
  next request can read outside of the buffer.
\<close>

lemma mismatch_loses_position:
  "(do { (obj, d) \<leftarrow> decodeObjectForRawKey rt (ckey ''a'')
           (initWithData (encodeInt32ForCKey 7 (Some (ckey ''b'')) (encodeStringForCKey (Some [104, 105]) (Some (ckey ''a'')) [])));
         decodeInt32ForRawKey cv (ckey ''b'') d }) = None"
  by code_simp

text \<open>The archive of a markup does not keep \<open>hideKeyboardOnActivation\<close>: it is written and read with different keys.\<close>

lemma archive_loses_flag:
  "initWithCoder (encodeWithCoder userId messageId rows match hide activated hidden inline Map.empty) =
     TGBotReplyMarkup userId messageId rows match False activated hidden inline"
  by (simp add: initWithCoder_def encodeWithCoder_def decodeArchInt32_def decodeArchObjects_def decodeArchBool_def)

end
