(* ===== verification/Kv_Store.thy ===== *)
theory Kv_Store
  imports Lmdb_Env Lmdb_Readers
begin

text \<open>
  The key-value store of the application on LMDB: the table (\<open>PSLMDBTable.m\<close>), the cursor
  (\<open>PSLMDBKeyValueCursor.m\<close>), the reader and writer of a transaction
  (\<open>PSLMDBKeyValueReaderWriter.m\<close>) and the store (\<open>PSLMDBKeyValueStore.m\<close>).

  A reader or writer is the number \<open>_dbi\<close> of its database; its transaction is the running one of the
  state.  Keys and values are byte lists, \<open>None\<close> a null pointer; a method that returns \<open>true\<close> and
  stores its result through pointers gives \<open>Some\<close> result.  A block of the caller is a function on a
  value \<open>'b\<close>, its variables, and the state, for it can use the transaction.  Log messages are left
  out.
\<close>

section \<open>The cursor\<close>

text \<open>\<open>mdb_cmp\<close> of \<open>mdb.c\<close>.\<close>

definition mdb_cmp :: "nat \<Rightarrow> byte list \<Rightarrow> byte list \<Rightarrow> st \<Rightarrow> int option" where
  "mdb_cmp dbi a b st = do { x \<leftarrow> get_dbx st dbi; c \<leftarrow> md_cmp x; cmp_call c a b }"

datatype PSKeyValueCursorDirection = PSKeyValueCursorDirectionForward | PSKeyValueCursorDirectionBack

type_synonym item = "byte list \<times> byte list"

definition cursor_previous :: "nat \<Rightarrow> st \<Rightarrow> (item option \<times> st) option" where
  "cursor_previous mc st = do {
     (rc, mdbKey, mdbData, st) \<leftarrow> mdb_cursor_get mc (Some []) True MDB_PREV st;
     if rc = MDB_SUCCESS then do { k \<leftarrow> mdbKey; v \<leftarrow> mdbData; Some (Some (k, v), st) }
     else Some (None, st) }"

definition cursor_next :: "nat \<Rightarrow> st \<Rightarrow> (item option \<times> st) option" where
  "cursor_next mc st = do {
     (rc, mdbKey, mdbData, st) \<leftarrow> mdb_cursor_get mc (Some []) True MDB_NEXT st;
     if rc = MDB_SUCCESS then do { k \<leftarrow> mdbKey; v \<leftarrow> mdbData; Some (Some (k, v), st) }
     else Some (None, st) }"

definition positionAt :: "nat \<Rightarrow> byte list \<Rightarrow> PSKeyValueCursorDirection \<Rightarrow> st \<Rightarrow> (item option \<times> st) option" where
  "positionAt mc key directionIfNotFound st = do {
     (rc, mdbKey, mdbData, st) \<leftarrow> mdb_cursor_get mc (Some key) True
        (if directionIfNotFound = PSKeyValueCursorDirectionForward then MDB_SET_RANGE else MDB_SET_KEY) st;
     if rc = MDB_SUCCESS then do { k \<leftarrow> mdbKey; v \<leftarrow> mdbData; Some (Some (k, v), st) }
     else if rc = MDB_NOTFOUND then
       if directionIfNotFound = PSKeyValueCursorDirectionBack then cursor_previous mc st
       else Some (None, st)
     else Some (None, st) }"

section \<open>The reader and writer\<close>

definition readValueForRawKey :: "nat \<Rightarrow> byte list option \<Rightarrow> st \<Rightarrow> (byte list option \<times> st) option" where
  "readValueForRawKey dbi key st =
     (case key of
        None \<Rightarrow> Some (None, st)
      | Some key \<Rightarrow> do {
          (rc, mdbData, st) \<leftarrow> mdb_get dbi key st;
          if rc = MDB_SUCCESS then do { v \<leftarrow> mdbData; Some (Some v, st) }
          else Some (None, st) })"

definition writeValueForRawKey :: "nat \<Rightarrow> byte list option \<Rightarrow> byte list \<Rightarrow> st \<Rightarrow> st option" where
  "writeValueForRawKey dbi key value st =
     (case key of
        None \<Rightarrow> Some st
      | Some key \<Rightarrow>
          if key = [] then Some st
          else do { (rc, _, st) \<leftarrow> mdb_put dbi key value 0 st; Some st })"

definition readWithCursor :: "nat \<Rightarrow> (nat \<Rightarrow> 'b \<Rightarrow> st \<Rightarrow> ('b \<times> st) option) \<Rightarrow> 'b \<Rightarrow> st \<Rightarrow> ('b \<times> st) option" where
  "readWithCursor dbi readWithCursorBlock b st = do {
     (rc, cursor, st) \<leftarrow> mdb_cursor_open dbi st;
     if rc = MDB_SUCCESS then do {
       mc \<leftarrow> cursor;
       (b, st) \<leftarrow> readWithCursorBlock mc b st;
       st \<leftarrow> mdb_cursor_close mc st;
       Some (b, st) }
     else Some (b, st) }"

definition PSKeyValueReaderEnumerationReverse :: "64 word" where "PSKeyValueReaderEnumerationReverse = 1"
definition PSKeyValueReaderEnumerationLowerBoundExclusive :: "64 word" where "PSKeyValueReaderEnumerationLowerBoundExclusive = 2"
definition PSKeyValueReaderEnumerationUpperBoundExclusive :: "64 word" where "PSKeyValueReaderEnumerationUpperBoundExclusive = 4"

text \<open>The block of an enumeration also says whether to stop.\<close>

type_synonym 'b block = "byte list \<Rightarrow> byte list \<Rightarrow> 'b \<Rightarrow> st \<Rightarrow> ('b \<times> bool \<times> st) option"

text \<open>\<open>while (!stop)\<close>: move on while the keys are inside.\<close>

partial_function (option) enumerate_rest :: "(st \<Rightarrow> (item option \<times> st) option) \<Rightarrow> (byte list \<Rightarrow> st \<Rightarrow> bool option) \<Rightarrow> 'b block \<Rightarrow>
    'b \<Rightarrow> st \<Rightarrow> ('b \<times> st) option" where
  "enumerate_rest move inside block b st = do {
     (positioned, st) \<leftarrow> move st;
     case positioned of
       None \<Rightarrow> Some (b, st)
     | Some (k, v) \<Rightarrow> do {
         ok \<leftarrow> inside k st;
         if ok then do {
           (b, stop, st) \<leftarrow> block k v b st;
           if stop then Some (b, st) else enumerate_rest move inside block b st }
         else Some (b, st) } }"

text \<open>
  The first item, and the others after it.  The first comparison reads \<open>positionedKeyVal\<close>, made from the
  key at which the cursor was positioned: when an exclusive bound was skipped, that is the bound, not
  the key \<open>positionedKey\<close> that the block gets.
\<close>

definition enumerate_from :: "(st \<Rightarrow> (item option \<times> st) option) \<Rightarrow> (byte list \<Rightarrow> st \<Rightarrow> bool option) \<Rightarrow> 'b block \<Rightarrow>
    byte list \<Rightarrow> item option \<Rightarrow> 'b \<Rightarrow> st \<Rightarrow> ('b \<times> st) option" where
  "enumerate_from move inside block positionedKeyVal positioned b st =
     (case positioned of
        None \<Rightarrow> Some (b, st)
      | Some (k, v) \<Rightarrow> do {
          ok \<leftarrow> inside positionedKeyVal st;
          if ok then do {
            (b, stop, st) \<leftarrow> block k v b st;
            if stop then Some (b, st) else enumerate_rest move inside block b st }
          else Some (b, st) })"

text \<open>The comparison with the bound at which an enumeration ends.\<close>

definition within_lower :: "nat \<Rightarrow> byte list \<Rightarrow> 64 word \<Rightarrow> byte list \<Rightarrow> st \<Rightarrow> bool option" where
  "within_lower dbi lowerBoundKey options positionedKey st = do {
     cmpResult \<leftarrow> mdb_cmp dbi positionedKey lowerBoundKey st;
     Some (if anyset options PSKeyValueReaderEnumerationLowerBoundExclusive then cmpResult > 0 else cmpResult \<ge> 0) }"

definition within_upper :: "nat \<Rightarrow> byte list \<Rightarrow> 64 word \<Rightarrow> byte list \<Rightarrow> st \<Rightarrow> bool option" where
  "within_upper dbi upperBoundKey options positionedKey st = do {
     cmpResult \<leftarrow> mdb_cmp dbi positionedKey upperBoundKey st;
     Some (if anyset options PSKeyValueReaderEnumerationUpperBoundExclusive then cmpResult < 0 else cmpResult \<le> 0) }"

definition enumerateReverse :: "nat \<Rightarrow> byte list \<Rightarrow> byte list \<Rightarrow> 64 word \<Rightarrow> 'b block \<Rightarrow> nat \<Rightarrow> 'b \<Rightarrow> st \<Rightarrow> ('b \<times> st) option" where
  "enumerateReverse dbi lowerBoundKey upperBoundKey options block mc b st = do {
     (positioned, st) \<leftarrow> positionAt mc upperBoundKey PSKeyValueCursorDirectionBack st;
     case positioned of
       None \<Rightarrow> Some (b, st)
     | Some (k, v) \<Rightarrow> do {
         skip \<leftarrow> (if anyset options PSKeyValueReaderEnumerationUpperBoundExclusive
                 then map_option (\<lambda>c. c = 0) (mdb_cmp dbi upperBoundKey k st) else Some False);
         (positioned, st) \<leftarrow> (if skip then cursor_previous mc st else Some (positioned, st));
         enumerate_from (cursor_previous mc)
           (within_lower dbi lowerBoundKey options) block k positioned b st } }"

definition enumerateForward :: "nat \<Rightarrow> byte list \<Rightarrow> byte list \<Rightarrow> 64 word \<Rightarrow> 'b block \<Rightarrow> nat \<Rightarrow> 'b \<Rightarrow> st \<Rightarrow> ('b \<times> st) option" where
  "enumerateForward dbi lowerBoundKey upperBoundKey options block mc b st = do {
     (positioned, st) \<leftarrow> positionAt mc lowerBoundKey PSKeyValueCursorDirectionForward st;
     case positioned of
       None \<Rightarrow> Some (b, st)
     | Some (k, v) \<Rightarrow> do {
         skip \<leftarrow> (if anyset options PSKeyValueReaderEnumerationLowerBoundExclusive
                 then map_option (\<lambda>c. c = 0) (mdb_cmp dbi lowerBoundKey k st) else Some False);
         (positioned, st) \<leftarrow> (if skip then cursor_next mc st else Some (positioned, st));
         enumerate_from (cursor_next mc)
           (within_upper dbi upperBoundKey options) block k positioned b st } }"

definition enumerateKeysAndValues :: "nat \<Rightarrow> byte list option \<Rightarrow> byte list option \<Rightarrow> 64 word \<Rightarrow> 'b block \<Rightarrow> 'b \<Rightarrow> st \<Rightarrow> ('b \<times> st) option" where
  "enumerateKeysAndValues dbi lowerBoundKey upperBoundKey options block b st =
     (case (upperBoundKey, lowerBoundKey) of
        (Some upper, Some lower) \<Rightarrow>
          readWithCursor dbi
            (if anyset options PSKeyValueReaderEnumerationReverse then enumerateReverse dbi lower upper options block
             else enumerateForward dbi lower upper options block) b st
      | _ \<Rightarrow> Some (b, st))"

datatype PSKeyValueReaderSelectKey = PSKeyValueReaderSelectLowerKey | PSKeyValueReaderSelectHigherKey

definition readValueBetween :: "nat \<Rightarrow> byte list option \<Rightarrow> byte list option \<Rightarrow> PSKeyValueReaderSelectKey \<Rightarrow> st \<Rightarrow> (item option \<times> st) option" where
  "readValueBetween dbi lowerBoundKey upperBoundKey selectKey st =
     enumerateKeysAndValues dbi lowerBoundKey upperBoundKey
       (if selectKey = PSKeyValueReaderSelectHigherKey then PSKeyValueReaderEnumerationReverse else 0)
       (\<lambda>key value selected st. Some (Some (key, value), True, st)) None st"

definition deleteValueForRawKey :: "nat \<Rightarrow> byte list option \<Rightarrow> st \<Rightarrow> (bool \<times> st) option" where
  "deleteValueForRawKey dbi key st =
     (case key of
        None \<Rightarrow> Some (False, st)
      | Some key \<Rightarrow>
          if key = [] then Some (False, st)
          else do { (rc, st) \<leftarrow> mdb_del dbi key st; Some (rc = MDB_SUCCESS, st) })"

partial_function (option) delete_rest :: "nat \<Rightarrow> int \<Rightarrow> st \<Rightarrow> st option" where
  "delete_rest mc rc st =
     (if rc = MDB_SUCCESS then do {
        (rc, st) \<leftarrow> mdb_cursor_del mc 0 st;
        (rc, _, _, st) \<leftarrow> mdb_cursor_get mc None False MDB_NEXT st;
        delete_rest mc rc st }
      else Some st)"

definition deleteAllValues :: "nat \<Rightarrow> st \<Rightarrow> st option" where
  "deleteAllValues dbi st = do {
     (rc, cursor, st) \<leftarrow> mdb_cursor_open dbi st;
     if rc = MDB_SUCCESS then do {
       mc \<leftarrow> cursor;
       (rc, _, _, st) \<leftarrow> mdb_cursor_get mc None False MDB_FIRST st;
       st \<leftarrow> delete_rest mc rc st;
       mdb_cursor_close mc st }
     else Some st }"

section \<open>The store\<close>

text \<open>
  \<open>_table\<close> is the number of its database, or \<open>nil\<close>.  The parts of LMDB that work on files are arguments:
  \<open>env_open\<close> for \<open>mdb_env_open\<close>, \<open>env_close\<close> for \<open>mdb_env_close\<close>, \<open>mmap\<close> as for \<open>mdb_env_set_mapsize\<close>.
\<close>

definition createTableWithName :: "byte list \<Rightarrow> st \<Rightarrow> (nat option \<times> st) option" where
  "createTableWithName name st = do {
     (rc, st) \<leftarrow> mdb_txn_begin None 0 st;
     (rc, dbi, st) \<leftarrow> mdb_dbi_open (Some name) MDB_CREATE st;
     if rc \<noteq> MDB_SUCCESS then do { st \<leftarrow> mdb_txn_abort 0 st; Some (None, st) }
     else do { (rc, st) \<leftarrow> mdb_txn_commit 0 st; Some (dbi, st) } }"

definition open_store :: "(nat \<Rightarrow> nat \<Rightarrow> int \<times> nat) \<Rightarrow> (st \<Rightarrow> (int \<times> st) option) \<Rightarrow> nat \<Rightarrow> nat \<Rightarrow> nat \<Rightarrow> st \<Rightarrow> (bool \<times> nat option \<times> st) option" where
  "open_store mmap env_open pid os_psize sz st =
     (let (rc, st) = mdb_env_create pid os_psize st in
      if rc \<noteq> MDB_SUCCESS then Some (False, None, st)
      else do {
        (rc, st) \<leftarrow> mdb_env_set_mapsize mmap sz st;
        let (rc, st) = mdb_env_set_maxdbs 64 st;
        (rc, st) \<leftarrow> env_open st;
        if rc \<noteq> MDB_SUCCESS then Some (False, None, st)
        else do {
          (rc, removedReaders, st) \<leftarrow> mdb_reader_check st;
          (tbl, st) \<leftarrow> createTableWithName (map (\<lambda>c. of_nat (of_char c)) ''main'') st;
          Some (True, tbl, st) } })"

definition close_store :: "(st \<Rightarrow> st option) \<Rightarrow> nat option \<Rightarrow> st \<Rightarrow> st option" where
  "close_store env_close tbl st = do {
     st \<leftarrow> mdb_dbi_close (case tbl of None \<Rightarrow> 0 | Some dbi \<Rightarrow> dbi) st;
     env_close st }"

definition storeWithPath :: "(nat \<Rightarrow> nat \<Rightarrow> int \<times> nat) \<Rightarrow> (st \<Rightarrow> (int \<times> st) option) \<Rightarrow> (st \<Rightarrow> st option) \<Rightarrow> nat \<Rightarrow> nat \<Rightarrow> byte list \<Rightarrow> nat \<Rightarrow> st \<Rightarrow>
    (nat option option \<times> st) option" where
  "storeWithPath mmap env_open env_close pid os_psize path sz st =
     (if path = [] then Some (None, st)
      else do {
        (ok, tbl, st) \<leftarrow> open_store mmap env_open pid os_psize sz st;
        if ok then Some (Some tbl, st)
        else do { st \<leftarrow> close_store env_close tbl st; Some (None, st) } })"

definition sync_store :: "st \<Rightarrow> st" where
  "sync_store st = snd (mdb_env_sync True st)"

definition readInTransaction :: "nat option \<Rightarrow> (nat \<Rightarrow> 'b \<Rightarrow> st \<Rightarrow> ('b \<times> st) option) \<Rightarrow> 'b \<Rightarrow> st \<Rightarrow> ('b \<times> st) option" where
  "readInTransaction tbl transaction b st =
     (case tbl of
        None \<Rightarrow> Some (b, st)
      | Some dbi \<Rightarrow> do {
          (rc, st) \<leftarrow> mdb_txn_begin None MDB_RDONLY st;
          if rc \<noteq> MDB_SUCCESS then Some (b, st)
          else do {
            (b, st) \<leftarrow> transaction dbi b st;
            (rc, st) \<leftarrow> mdb_txn_commit 0 st;
            Some (b, st) } })"

definition readWriteInTransaction :: "nat option \<Rightarrow> (nat \<Rightarrow> 'b \<Rightarrow> st \<Rightarrow> ('b \<times> st) option) \<Rightarrow> 'b \<Rightarrow> st \<Rightarrow> ('b \<times> st) option" where
  "readWriteInTransaction tbl transaction b st =
     (case tbl of
        None \<Rightarrow> Some (b, st)
      | Some dbi \<Rightarrow> do {
          (rc, st) \<leftarrow> mdb_txn_begin None 0 st;
          if rc \<noteq> MDB_SUCCESS then Some (b, st)
          else do {
            (b, st) \<leftarrow> transaction dbi b st;
            (rc, st) \<leftarrow> mdb_txn_commit 0 st;
            Some (b, st) } })"

end
