(* ===== verification/Lmdb_Range_Facts.thy ===== *)
theory Lmdb_Range_Facts
  imports Lmdb_Route_Facts
begin

text \<open>
  Positioning a cursor at a key and walking from there in both directions: \<open>mdb_cursor_get\<close> with
  \<open>MDB_SET_RANGE\<close>, \<open>MDB_SET_KEY\<close>, \<open>MDB_NEXT\<close> and \<open>MDB_PREV\<close> on trees of any depth.
\<close>

section \<open>To the previous page\<close>

lemma path_set_ki_wrap:
  assumes "cursor_path st mc dbi fl (path @ [(p, k)])" "0 < n" "n < 65536"
  shows "cursor_path (set_top_ki mc (n + 65535) st) mc dbi fl (path @ [(p, n - 1)])"
proof -
  have "u16 (n + 65535) = u16 (n - 1)"
  proof -
    have "n + 65535 = (n - 1) + 65536" using assms(2) by simp
    then show ?thesis by (simp only: u16_def mod_add_self2)
  qed
  then have "set_top_ki mc (n + 65535) st = set_top_ki mc (n - 1) st" by (simp add: set_top_ki_def set_ki_def)
  then show ?thesis using path_set_ki [OF assms(1), of "n - 1"] assms(3) by simp
qed

lemma concat_take: "k < length kids \<Longrightarrow> length (concat (take (Suc k) kids)) = length (concat (take k kids)) + length (kids ! k)"
  by (simp add: take_Suc_conv_app_nth)

lemma concat_take_all: "0 < length kids \<Longrightarrow> length (concat (take (length kids - 1) kids)) + length (kids ! (length kids - 1)) = length (concat kids)"
  using concat_take [of "length kids - 1" kids] by simp

lemma subtree_keys_there: "subtree lt st h pg its \<Longrightarrow> \<exists>mp psize. page_at st pg mp \<and> page_ok psize mp \<and> 0 < NUMKEYS mp"
proof (erule subtree.cases)
  fix pg' mp psize its'
  assume l: "pg = pg'" "page_at st pg' mp" "page_ok psize mp" "leaf_items st mp its'" "its' \<noteq> []"
  have "NUMKEYS mp = length its'" using l(4) by (metis leaf_items_def length_map length_page_items)
  then show ?thesis using l by (intro exI [of _ mp] exI [of _ psize]) simp
next
  fix pg' mp psize assume "pg = pg'" "page_at st pg' mp" "page_ok psize mp" "2 \<le> NUMKEYS mp"
  then show ?thesis by (intro exI [of _ mp] exI [of _ psize]) simp
qed

lemma sibling_left:
  assumes "on_trunk lt st d root its path h lo sub" "cursor_path st1 mc dbi fl (butlast path @ [(fst (last path), j')])"
    and "same_pages st st1" "length path \<le> n"
  shows "if lo = 0 then cursor_sibling_n n mc False st1 = Some (MDB_NOTFOUND, st1)
     else \<exists>st2 path' q mp' sub'. cursor_sibling_n n mc False st1 = Some (0, st2) \<and> only mc st1 st2 \<and> get_page st q = Some mp' \<and>
       cursor_path st2 mc dbi fl (path' @ [(q, NUMKEYS mp' - 1)]) \<and>
       on_trunk lt st d root its (path' @ [(q, NUMKEYS mp' - 1)]) h (lo - length sub') sub' \<and> length sub' \<le> lo"
  using assms
proof (induction arbitrary: st1 n j' rule: on_trunk.induct)
  case (root p l k)
  obtain n' where n: "n = Suc n'" using root.prems(3) by (cases n) auto
  show ?case using path_top(3) [of st1 mc dbi fl "[]" p j'] root.prems(1) n by auto
next
  case (child path p k0 h lo kids mp psize k q l j)
  have prems1: "cursor_path st1 mc dbi fl ((path @ [(p, k)]) @ [(q, j')])" using child.prems(1) by (simp add: butlast_append)
  obtain n' where n: "n = Suc n'" "length (path @ [(p, k)]) \<le> n'" using child.prems(3) by (cases n) auto
  define st2 where "st2 = upd_cur mc mdb_cursor_pop st1"
  have path2: "cursor_path st2 mc dbi fl (path @ [(p, k)])"
    and undo: "upd_cur mc (\<lambda>c. c\<lparr>mc_top := mc_top c + 1, mc_snum := mc_snum c + 1\<rparr>) st2 = st1"
    using path_pop [OF prems1] by (simp_all add: st2_def)
  have o2: "only mc st1 st2" by (simp add: st2_def)
  have same2: "same_pages st st2" using same_pages_trans [OF child.prems(2) only_same [OF o2]] .
  have top2: "top_page st2 mc = Some mp" "top_ki st2 mc = Some k"
    using path_top(1,2) [OF path2] same_pages_simps(1) [OF same2] child.hyps(2) by simp_all
  obtain c where c: "crs st1 mc = Some c" "mc_snum c = Suc (length (path @ [(p, k)]))" using path_top(3) [OF prems1] by auto
  have depth: "length path + 1 < CURSOR_STACK" using prems1 by (simp add: cursor_path_def)
  have ne: "kids ! i \<noteq> []" if "i < NUMKEYS mp" for i using child.hyps(7) subtree_nonempty that by blast
  define up where "up = (if k = 0 then do {
            (rc, st) \<leftarrow> cursor_sibling_n n' mc False st2;
            Some (rc, if rc \<noteq> MDB_SUCCESS
                      then upd_cur mc (\<lambda>c. c\<lparr>mc_top := mc_top c + 1, mc_snum := mc_snum c + 1\<rparr>) st
                      else st) }
          else Some (MDB_SUCCESS, set_top_ki mc (k - 1) st2))"
  have unfold: "cursor_sibling_n n mc False st1 = up \<bind> (\<lambda>(rc, st). if rc \<noteq> MDB_SUCCESS then Some (rc, st)
       else do {
         mp \<leftarrow> top_page st mc;
         mdb_cassert (IS_BRANCH mp);
         ki \<leftarrow> top_ki st mc;
         indx \<leftarrow> NODEPTR mp ki;
         (rc, (p, level), st) \<leftarrow> mdb_page_get st (NODEPGNO indx);
         if rc \<noteq> 0 then Some (rc, clear_flags mc (C_INITIALIZED OR C_EOF) st)
         else do {
           (_, st) \<leftarrow> mdb_cursor_push mc p st;
           mp \<leftarrow> get_page st p;
           Some (MDB_SUCCESS, if \<not> False then set_top_ki mc (NUMKEYS mp + 65535) st else st) } })"
    using n(1) c top2 by (simp add: st2_def [symmetric] up_def)
  text \<open>Down into child \<open>i\<close> of a page that the cursor is on.\<close>
  have down: "\<exists>st2 path' q mp' sub'. cursor_sibling_n n mc False st1 = Some (0, st2) \<and> only mc st1 st2 \<and> get_page st q = Some mp' \<and>
       cursor_path st2 mc dbi fl (path' @ [(q, NUMKEYS mp' - 1)]) \<and>
       on_trunk lt st d root its (path' @ [(q, NUMKEYS mp' - 1)]) h (lo1 - length sub') sub' \<and> length sub' \<le> lo1"
    if up: "up = Some (MDB_SUCCESS, st3)" and o3: "only mc st1 st3" and p3: "cursor_path st3 mc dbi fl (path1 @ [(p1, i)])"
      and t3: "on_trunk lt st d root its (path1 @ [(p1, i0)]) (Suc h) lo0 (concat kids1)" and mp1: "get_page st p1 = Some mp1"
      and b: "page_ok psize1 mp1" "IS_BRANCH mp1" "\<not> IS_LEAF mp1" "length kids1 = NUMKEYS mp1"
      "\<forall>i < NUMKEYS mp1. subtree lt st h (NODEPGNO (page_items mp1 ! i)) (kids1 ! i)" "i < NUMKEYS mp1"
      and lo1: "lo1 = lo0 + length (concat (take (Suc i) kids1))"
    for st3 path1 p1 i i0 lo0 kids1 mp1 psize1 lo1
  proof -
    have same3: "same_pages st st3" using same_pages_trans [OF child.prems(2) only_same [OF o3]] .
    have top3: "top_page st3 mc = Some mp1" "top_ki st3 mc = Some i"
      using path_top(1,2) [OF p3] same_pages_simps(1) [OF same3] mp1 by simp_all
    have depth1: "length path1 + 1 < CURSOR_STACK"
      using trunk_subtree(2) [OF t3] trunk_subtree(2) [OF child.hyps(1)] depth by simp
    obtain q' l' mp' st4 where g: "NODEPTR mp1 i = Some (page_items mp1 ! i)"
      "mdb_page_get st3 (NODEPGNO (page_items mp1 ! i)) = Some (0, (q', l'), st3)" "get_page st q' = Some mp'"
      "mdb_cursor_push mc q' st3 = Some (0, st4)" "only mc st3 st4" "cursor_path st4 mc dbi fl ((path1 @ [(p1, i)]) @ [(q', 0)])"
      "on_trunk lt st d root its ((path1 @ [(p1, i)]) @ [(q', 0)]) h (lo0 + length (concat (take i kids1))) (kids1 ! i)"
      using go_child [OF t3 mp1 b(1-6) p3 same3 depth1] by blast
    obtain psize' where ok: "page_ok psize' mp'" and pos: "0 < NUMKEYS mp'"
    proof -
      have sub: "subtree lt st h (NODEPGNO (page_items mp1 ! i)) (kids1 ! i)" using b(5,6) by simp
      have "\<exists>mp0 psize. page_at st (NODEPGNO (page_items mp1 ! i)) mp0 \<and> page_ok psize mp0 \<and> 0 < NUMKEYS mp0"
        using subtree_keys_there [OF sub] .
      moreover have "mp0 = mp'" if "page_at st (NODEPGNO (page_items mp1 ! i)) mp0" for mp0
        using that page_get_in [OF same_pages_sym [OF same3] g(2)] g(3) by (auto simp: page_at_def)
      ultimately show ?thesis using that by blast
    qed
    define st5 where "st5 = set_top_ki mc (NUMKEYS mp' + 65535) st4"
    have p5: "cursor_path st5 mc dbi fl ((path1 @ [(p1, i)]) @ [(q', NUMKEYS mp' - 1)])"
      unfolding st5_def by (rule path_set_ki_wrap [OF g(6) pos]) (use numkeys_small [OF ok] in simp)
    have o5: "only mc st1 st5" unfolding st5_def by (rule only_trans [OF only_trans [OF o3 g(5)] only_upd(2)])
    have "get_page st4 q' = Some mp'"
      using same_pages_simps(1) [OF same_pages_trans [OF same3 only_same [OF g(5)]]] g(3) by simp
    then have run: "cursor_sibling_n n mc False st1 = Some (0, st5)"
      using unfold up top3 g(1,2,4) b(2) by (simp add: st5_def MDB_SUCCESS_def)
    have lo: "lo1 = lo0 + length (concat (take i kids1)) + length (kids1 ! i)" using lo1 concat_take [of i kids1] b(4,6) by simp
    have t5: "on_trunk lt st d root its ((path1 @ [(p1, i)]) @ [(q', NUMKEYS mp' - 1)]) h (lo1 - length (kids1 ! i)) (kids1 ! i)"
      using trunk_last [OF g(7)] lo by simp
    show ?thesis using run o5 g(3) p5 t5 lo by (intro exI conjI) (assumption | simp)+
  qed
  show ?case
  proof (cases "k = 0")
    case True
    have "cursor_path st2 mc dbi fl (butlast (path @ [(p, k0)]) @ [(fst (last (path @ [(p, k0)])), k)])" "length (path @ [(p, k0)]) \<le> n'"
      using path2 n(2) by simp_all
    note IH = child.IH [OF this(1) same2 this(2)]
    show ?thesis
    proof (cases "lo = 0")
      case start: True
      have "cursor_sibling_n n' mc False st2 = Some (MDB_NOTFOUND, st2)" using IH start by simp
      then have "cursor_sibling_n n mc False st1 = Some (MDB_NOTFOUND, st1)"
        using unfold True undo by (simp add: up_def MDB_NOTFOUND_def MDB_SUCCESS_def)
      then show ?thesis using start True by simp
    next
      case more: False
      obtain st3 path' p' mp' kids' where r: "cursor_sibling_n n' mc False st2 = Some (0, st3)" "only mc st2 st3" "get_page st p' = Some mp'"
        "cursor_path st3 mc dbi fl (path' @ [(p', NUMKEYS mp' - 1)])"
        "on_trunk lt st d root its (path' @ [(p', NUMKEYS mp' - 1)]) (Suc h) (lo - length kids') kids'" "length kids' \<le> lo"
        using IH more by auto
      have o3: "only mc st1 st3" by (rule only_trans [OF o2 r(2)])
      obtain pg l' where pg: "mdb_page_get st pg = Some (0, (p', l'), st)" "subtree lt st (Suc h) pg kids'"
        using trunk_subtree(1) [OF r(5)] by auto
      obtain psize' kids1 where b: "page_ok psize' mp'" "IS_BRANCH mp'" "\<not> IS_LEAF mp'" "2 \<le> NUMKEYS mp'" "length kids1 = NUMKEYS mp'"
        "kids' = concat kids1" "\<forall>i < NUMKEYS mp'. subtree lt st h (NODEPGNO (page_items mp' ! i)) (kids1 ! i)"
        using subtree_unique [OF pg(1) r(3) pg(2)] by blast
      have "up = Some (MDB_SUCCESS, st3)" using r(1) True by (simp add: up_def MDB_SUCCESS_def)
      moreover have "lo = (lo - length (concat kids1)) + length (concat (take (Suc (NUMKEYS mp' - 1)) kids1))"
        using r(6) b(4-6) by simp
      moreover have "NUMKEYS mp' - 1 < NUMKEYS mp'" using b(4) by simp
      ultimately have "\<exists>st2 path' q mp' sub'. cursor_sibling_n n mc False st1 = Some (0, st2) \<and> only mc st1 st2 \<and> get_page st q = Some mp' \<and>
       cursor_path st2 mc dbi fl (path' @ [(q, NUMKEYS mp' - 1)]) \<and>
       on_trunk lt st d root its (path' @ [(q, NUMKEYS mp' - 1)]) h (lo - length sub') sub' \<and> length sub' \<le> lo"
        using down [OF _ o3 r(4) r(5) [unfolded b(6)] r(3) b(1-3,5,7)] by blast
      then show ?thesis using more True by simp
    qed
  next
    case False
    define st3 where "st3 = set_top_ki mc (k - 1) st2"
    have path3: "cursor_path st3 mc dbi fl (path @ [(p, k - 1)])"
      unfolding st3_def by (rule path_set_ki [OF path2]) (use child.hyps(8) numkeys_small [OF child.hyps(3)] in simp)
    have o3: "only mc st1 st3" unfolding st3_def by (rule only_trans [OF o2 only_upd(2)])
    have "up = Some (MDB_SUCCESS, st3)" using False by (simp add: up_def st3_def)
    moreover have "k - 1 < NUMKEYS mp" using child.hyps(8) by simp
    moreover have "lo + length (concat (take k kids)) = lo + length (concat (take (Suc (k - 1)) kids))" using False by simp
    ultimately have "\<exists>st2 path' q mp' sub'. cursor_sibling_n n mc False st1 = Some (0, st2) \<and> only mc st1 st2 \<and> get_page st q = Some mp' \<and>
       cursor_path st2 mc dbi fl (path' @ [(q, NUMKEYS mp' - 1)]) \<and>
       on_trunk lt st d root its (path' @ [(q, NUMKEYS mp' - 1)]) h (lo + length (concat (take k kids)) - length sub') sub' \<and>
       length sub' \<le> lo + length (concat (take k kids))"
      using down [OF _ o3 path3 child.hyps(1-7)] by blast
    moreover have nz: "lo + length (concat (take k kids)) \<noteq> 0"
      using concat_take [of "k - 1" kids] ne [of "k - 1"] child.hyps(6,8) False by simp
    ultimately show ?thesis unfolding if_not_P [OF nz] by blast
  qed
qed


section \<open>To the previous item\<close>

text \<open>The cursor is before item \<open>pos\<close>, on the leaf of that item or at the end of the leaf of the one before it.\<close>

definition at_gap :: "(byte list \<Rightarrow> byte list \<Rightarrow> bool) \<Rightarrow> st \<Rightarrow> nat \<Rightarrow> pgno_t \<Rightarrow> (byte list \<times> byte list) list \<Rightarrow> st \<Rightarrow> nat \<Rightarrow> nat \<Rightarrow> nat \<Rightarrow> bool" where
  "at_gap lt st d root its st1 mc dbi pos \<longleftrightarrow> same_pages st st1 \<and> (\<exists>fl path p k lo sub. flags_ready fl \<and>
     cursor_path st1 mc dbi fl (path @ [(p, k)]) \<and> on_trunk lt st d root its (path @ [(p, k)]) 0 lo sub \<and> k \<le> length sub \<and> pos = lo + k)"

lemma at_item_gap: "at_item lt st d root its st1 mc dbi pos \<Longrightarrow> at_gap lt st d root its st1 mc dbi pos"
  unfolding at_item_def at_gap_def
  by (elim conjE exE, rule conjI, assumption, intro exI conjI, assumption, assumption, assumption, erule less_imp_le, assumption)

lemma at_item_less: "at_item lt st d root its st1 mc dbi pos \<Longrightarrow> pos < length its"
  unfolding at_item_def using trunk_subtree(3) by fastforce

lemma at_item_ready: "at_item lt st d root its st1 mc dbi pos \<Longrightarrow> \<exists>c. crs st1 mc = Some c \<and> flags_ready (mc_flags c)"
  unfolding at_item_def using path_top(3) by blast

lemma flags_ready_clear: "flags_ready fl \<Longrightarrow> flags_ready (fl AND NOT C_EOF)"
  unfolding flags_ready_def anyset_def
  by (simp add: C_INITIALIZED_def C_EOF_def C_DEL_def word_bw_assocs)

lemma prev_item:
  assumes "at_gap lt st d root its st1 mc dbi pos"
  shows "if pos = 0 then mdb_cursor_prev mc True st1 = Some (MDB_NOTFOUND, None, None, st1)
     else \<exists>st2. mdb_cursor_prev mc True st1 = Some (MDB_SUCCESS, Some (fst (its ! (pos - 1))), Some (snd (its ! (pos - 1))), st2) \<and>
       only mc st1 st2 \<and> at_item lt st d root its st2 mc dbi (pos - 1)"
proof -
  obtain fl path p k lo sub where i: "flags_ready fl" "cursor_path st1 mc dbi fl (path @ [(p, k)])"
    "on_trunk lt st d root its (path @ [(p, k)]) 0 lo sub" "k \<le> length sub" "pos = lo + k" and same: "same_pages st st1"
    using assms by (auto simp: at_gap_def)
  obtain mp psize where mp: "top_page st1 mc = Some mp" "top_ki st1 mc = Some k" "page_ok psize mp" "NUMKEYS mp = length sub"
    using trunk_leaf [OF i(3,2) same] by blast
  obtain c where c: "crs st1 mc = Some c" "mc_flags c = fl" using path_top(3) [OF i(2)] by auto
  have unfold: "mdb_cursor_prev mc True st1 = (if k = 0 then do {
          (rc, st) \<leftarrow> mdb_cursor_sibling mc False st1;
          if rc \<noteq> MDB_SUCCESS then Some (rc, st)
          else do { mp \<leftarrow> top_page st mc; Some (0, set_top_ki mc (NUMKEYS mp + 65535) st) } }
        else Some (0, set_top_ki mc (k - 1) st1)) \<bind>
      (\<lambda>(rc, st). if rc \<noteq> 0 then Some (rc, None, None, st) else read_item mc True (clear_flags mc C_EOF st))"
    using c mp(1,2) i(1) by (simp add: mdb_cursor_prev_def flags_ready_def)
  text \<open>The end: on item \<open>k'\<close> of a leaf.\<close>
  have fin: "\<exists>st3. read_item mc True (clear_flags mc C_EOF st2) = Some (MDB_SUCCESS, Some (fst (its ! (lo' + k'))), Some (snd (its ! (lo' + k'))), st3) \<and>
      only mc st1 st3 \<and> at_item lt st d root its st3 mc dbi (lo' + k')"
    if "cursor_path st2 mc dbi fl (path' @ [(p', k')])" "on_trunk lt st d root its (path' @ [(p', k')]) 0 lo' sub'" "only mc st1 st2" "k' < length sub'"
    for st2 path' p' k' lo' sub'
  proof -
    define st3 where "st3 = clear_flags mc C_EOF st2"
    have p3: "cursor_path st3 mc dbi (fl AND NOT C_EOF) (path' @ [(p', k')])" unfolding st3_def by (rule path_flags(2) [OF that(1)])
    have o3: "only mc st1 st3" unfolding st3_def by (rule only_trans [OF that(3) only_upd(4)])
    have s3: "same_pages st st3" by (rule same_pages_trans [OF same only_same [OF o3]])
    have "at_item lt st d root its st3 mc dbi (lo' + k')"
      unfolding at_item_def using s3 flags_ready_clear [OF i(1)] p3 that(2,4) by blast
    then show ?thesis using read_at [OF that(2) p3 s3 that(4)] o3 unfolding st3_def by blast
  qed
  show ?thesis
  proof (cases "k = 0")
    case False
    have p2: "cursor_path (set_top_ki mc (k - 1) st1) mc dbi fl (path @ [(p, k - 1)])"
      by (rule path_set_ki [OF i(2)]) (use i(4) mp(4) numkeys_small [OF mp(3)] in simp)
    have "mdb_cursor_prev mc True st1 = read_item mc True (clear_flags mc C_EOF (set_top_ki mc (k - 1) st1))"
      using unfold False by simp
    moreover have "lo + (k - 1) = pos - 1" "pos \<noteq> 0" "k - 1 < length sub" using i(4,5) False by simp_all
    ultimately show ?thesis using fin [OF p2 trunk_last [OF i(3)] only_upd(2)] by simp
  next
    case True
    have "cursor_path st1 mc dbi fl (butlast (path @ [(p, k)]) @ [(fst (last (path @ [(p, k)])), k)])" using i(2) by simp
    moreover have "length (path @ [(p, k)]) \<le> CURSOR_STACK + 1" using i(2) by (simp add: cursor_path_def)
    ultimately have sib: "if lo = 0 then mdb_cursor_sibling mc False st1 = Some (MDB_NOTFOUND, st1)
     else \<exists>st2 path' q mp' sub'. mdb_cursor_sibling mc False st1 = Some (0, st2) \<and> only mc st1 st2 \<and> get_page st q = Some mp' \<and>
       cursor_path st2 mc dbi fl (path' @ [(q, NUMKEYS mp' - 1)]) \<and>
       on_trunk lt st d root its (path' @ [(q, NUMKEYS mp' - 1)]) 0 (lo - length sub') sub' \<and> length sub' \<le> lo"
      unfolding mdb_cursor_sibling_def by (rule sibling_left [OF i(3) _ same])
    show ?thesis
    proof (cases "lo = 0")
      case start: True
      then have "mdb_cursor_sibling mc False st1 = Some (MDB_NOTFOUND, st1)" using sib by simp
      then show ?thesis using unfold True start i(5) by (simp add: MDB_SUCCESS_def MDB_NOTFOUND_def)
    next
      case more: False
      obtain st2 path' q mp' sub' where s: "mdb_cursor_sibling mc False st1 = Some (0, st2)" "only mc st1 st2" "get_page st q = Some mp'"
        "cursor_path st2 mc dbi fl (path' @ [(q, NUMKEYS mp' - 1)])"
        "on_trunk lt st d root its (path' @ [(q, NUMKEYS mp' - 1)]) 0 (lo - length sub') sub'" "length sub' \<le> lo"
        using sib more by auto
      have s2: "same_pages st st2" by (rule same_pages_trans [OF same only_same [OF s(2)]])
      obtain mp2 psize2 where l: "top_page st2 mc = Some mp2" "page_ok psize2 mp2" "NUMKEYS mp2 = length sub'"
        using trunk_leaf [OF s(5,4) s2] by blast
      have "mp2 = mp'" using l(1) path_top(1) [OF s(4)] same_pages_simps(1) [OF s2] s(3) by simp
      have ne: "0 < length sub'" using trunk_subtree(1) [OF s(5)] subtree_nonempty by blast
      have p3: "cursor_path (set_top_ki mc (NUMKEYS mp' + 65535) st2) mc dbi fl (path' @ [(q, NUMKEYS mp' - 1)])"
        by (rule path_set_ki_wrap [OF s(4)]) (use ne l(3) \<open>mp2 = mp'\<close> numkeys_small [OF l(2)] in simp_all)
      have "mdb_cursor_prev mc True st1 = read_item mc True (clear_flags mc C_EOF (set_top_ki mc (NUMKEYS mp' + 65535) st2))"
        using unfold True s(1) l(1) \<open>mp2 = mp'\<close> by (simp add: MDB_SUCCESS_def)
      moreover have "lo - length sub' + (NUMKEYS mp' - 1) = pos - 1" "pos \<noteq> 0" "NUMKEYS mp' - 1 < length sub'"
        using s(6) ne l(3) \<open>mp2 = mp'\<close> i(5) True more by (simp_all del: length_greater_0_conv)
      ultimately show ?thesis using fin [OF p3 s(5) only_trans [OF s(2) only_upd(2)]] by simp
    qed
  qed
qed


section \<open>Down to a key\<close>

lemma path_cursor_at: "cursor_path st mc dbi fl (path @ [(p, k)]) \<Longrightarrow> get_page st p = Some mp \<Longrightarrow> cursor_at st mc dbi (length path) mp"
proof -
  assume a: "cursor_path st mc dbi fl (path @ [(p, k)])" "get_page st p = Some mp"
  then obtain c where c: "crs st mc = Some c" "mc_snum c = Suc (length path)" "mc_top c = length path" "length (mc_pg c) = CURSOR_STACK"
    "length (mc_ki c) = CURSOR_STACK" "take (Suc (length path)) (zip (mc_pg c) (mc_ki c)) = path @ [(p, k)]" "length path < CURSOR_STACK" "mc_dbi c = dbi"
    by (auto simp: cursor_path_def)
  then show ?thesis using take_zip_snoc(2) [OF c(6) refl] a(2) by (simp add: cursor_at_def)
qed

lemma branch_page:
  assumes "mdb_page_get st pg = Some (0, (p, l), st)" "get_page st p = Some mp" "subtree lt st (Suc h) pg its"
  shows "\<exists>psize kids. page_ok psize mp \<and> IS_BRANCH mp \<and> \<not> IS_LEAF mp \<and> 2 \<le> NUMKEYS mp \<and> length kids = NUMKEYS mp \<and> its = concat kids \<and>
    (\<forall>i < NUMKEYS mp. subtree lt st h (NODEPGNO (page_items mp ! i)) (kids ! i)) \<and> separates lt mp kids"
proof -
  from assms(3) obtain mp0 psize kids where l: "page_at st pg mp0" "page_ok psize mp0" "IS_BRANCH mp0" "\<not> IS_LEAF mp0"
    "2 \<le> NUMKEYS mp0" "length kids = NUMKEYS mp0" "its = concat kids"
    and sub: "\<forall>i < NUMKEYS mp0. subtree lt st h (NODEPGNO (page_items mp0 ! i)) (kids ! i)" and sep: "separates lt mp0 kids"
    by (elim subtree_branchE) (rule that; assumption)
  have "mp0 = mp" using l(1) assms(1,2) by (auto simp: page_at_def)
  then show ?thesis using l sub sep by blast
qed

text \<open>The keys before item \<open>lo\<close> are smaller than \<open>key\<close>, those from item \<open>hi\<close> on are greater.\<close>

definition key_between :: "(byte list \<Rightarrow> byte list \<Rightarrow> bool) \<Rightarrow> byte list \<Rightarrow> (byte list \<times> byte list) list \<Rightarrow> nat \<Rightarrow> nat \<Rightarrow> bool" where
  "key_between lt key its lo hi \<longleftrightarrow> (\<forall>i < lo. lt (fst (its ! i)) key) \<and> (\<forall>i. hi \<le> i \<longrightarrow> i < length its \<longrightarrow> lt key (fst (its ! i)))"

lemma concat_before: "x < length (concat (take i kids)) \<Longrightarrow> i \<le> length kids \<Longrightarrow> \<exists>j < i. concat kids ! x \<in> set (kids ! j)"
proof -
  assume x: "x < length (concat (take i kids))" "i \<le> length kids"
  have "concat kids = concat (take i kids) @ concat (drop i kids)" by (metis append_take_drop_id concat_append)
  then have "concat kids ! x = concat (take i kids) ! x" using x(1) by (metis nth_append)
  then have "concat kids ! x \<in> set (concat (take i kids))" using x(1) by (metis nth_mem)
  then obtain ys where "ys \<in> set (take i kids)" "concat kids ! x \<in> set ys" by auto
  moreover from this(1) obtain j where "j < i" "ys = kids ! j" using x(2) by (auto simp: in_set_conv_nth)
  ultimately show ?thesis by blast
qed

lemma concat_after: "length (concat (take i kids)) \<le> x \<Longrightarrow> x < length (concat kids) \<Longrightarrow> \<exists>j. i \<le> j \<and> j < length kids \<and> concat kids ! x \<in> set (kids ! j)"
proof -
  assume x: "length (concat (take i kids)) \<le> x" "x < length (concat kids)"
  have e: "concat kids = concat (take i kids) @ concat (drop i kids)" by (metis append_take_drop_id concat_append)
  then have "concat kids ! x = concat (drop i kids) ! (x - length (concat (take i kids)))" using x(1) by (metis linorder_not_less nth_append)
  moreover have "x - length (concat (take i kids)) < length (concat (drop i kids))" using x arg_cong [OF e, of length] by simp
  ultimately have "concat kids ! x \<in> set (concat (drop i kids))" by (metis nth_mem)
  then obtain ys where "ys \<in> set (drop i kids)" "concat kids ! x \<in> set ys" by auto
  then obtain j where "j < length kids - i" "ys = kids ! (i + j)" by (auto simp: in_set_conv_nth)
  then show ?thesis using \<open>concat kids ! x \<in> set ys\<close> by (intro exI [of _ "i + j"]) simp
qed

context key_order
begin

lemma child_between:
  assumes b: "key_between less key its lo (lo + length (concat kids))" and its: "concat kids = take (length (concat kids)) (drop lo its)"
      "lo + length (concat kids) \<le> length its"
    and len: "length kids = NUMKEYS mp" and i: "child_of less key mp i" and key: "key \<in> K"
    and ks: "\<And>k. k < NUMKEYS mp \<Longrightarrow> NODEKEY (page_items mp ! k) \<in> K" and sep: "separates less mp kids"
    and kids: "\<And>j k. j < NUMKEYS mp \<Longrightarrow> k \<in> fst ` set (kids ! j) \<Longrightarrow> k \<in> K"
  shows "key_between less key its (lo + length (concat (take i kids))) (lo + length (concat (take i kids)) + length (kids ! i))"
proof -
  have tr: "less a c" if "a \<in> K" "b \<in> K" "c \<in> K" "less a b" "less b c" for a b c using that trans [of a b c] by (simp add: less_def)
  have il: "i < NUMKEYS mp" using i by (simp add: child_of_def)
  have at: "its ! (lo + x) = concat kids ! x" if "x < length (concat kids)" for x
    using its that by (metis add_leD1 nth_drop nth_take)
  have whole: "concat kids = concat (take i kids) @ kids ! i @ concat (drop (Suc i) kids)"
    using il len by (metis concat.simps(2) concat_append id_take_nth_drop)
  have before: "less (fst (its ! x)) key" if x: "x < lo + length (concat (take i kids))" for x
  proof (cases "x < lo")
    case True
    then show ?thesis using b by (simp add: key_between_def)
  next
    case False
    then have x': "x - lo < length (concat (take i kids))" using x by simp
    then obtain j where j: "j < i" "concat kids ! (x - lo) \<in> set (kids ! j)" using concat_before [OF x'] il len by auto
    have "x - lo < length (concat kids)" using x' arg_cong [OF whole, of length] by simp
    then have e: "its ! x = concat kids ! (x - lo)" using at [of "x - lo"] False by simp
    have kx: "fst (its ! x) \<in> fst ` set (kids ! j)" using j(2) e by simp
    have l: "less (fst (its ! x)) (NODEKEY (page_items mp ! i))" using separatesD(2) [OF sep _ il j(1) kx] j(1) by simp
    show ?thesis
      using i j(1) l tr [OF kids [OF _ kx] ks [OF il] key l] il by (auto simp: child_of_def)
  qed
  have after: "less key (fst (its ! x))" if x: "lo + length (concat (take i kids)) + length (kids ! i) \<le> x" "x < length its" for x
  proof (cases "lo + length (concat kids) \<le> x")
    case True
    then show ?thesis using b x(2) by (simp add: key_between_def)
  next
    case False
    have "length (concat (take (Suc i) kids)) \<le> x - lo" using x(1) concat_take [of i kids] il len by simp
    moreover have x': "x - lo < length (concat kids)" using False x(1) by simp
    ultimately obtain j where j: "Suc i \<le> j" "j < length kids" "concat kids ! (x - lo) \<in> set (kids ! j)" using concat_after by blast
    have e: "its ! x = concat kids ! (x - lo)" using at [OF x'] x(1) by simp
    have kx: "fst (its ! x) \<in> fst ` set (kids ! j)" using j(3) e by simp
    have il1: "i + 1 < NUMKEYS mp" using j(1,2) len by simp
    have l: "less key (NODEKEY (page_items mp ! (i + 1)))" using i il1 by (simp add: child_of_def)
    have jl: "j < NUMKEYS mp" using j(2) len by simp
    have "fst (its ! x) = NODEKEY (page_items mp ! (i + 1)) \<or> less (NODEKEY (page_items mp ! (i + 1))) (fst (its ! x))"
      using separatesD(3) [OF sep _ _ jl kx, of "i + 1"] j(1) by simp
    then show ?thesis using l tr [OF key ks [OF il1] kids [OF jl kx] l] by auto
  qed
  show ?thesis unfolding key_between_def using before after by blast
qed

end


context tree_order
begin

lemma descend_to:
  assumes "on_trunk less st d root its (path @ [(p, k0)]) h lo sub" "cursor_path st1 mc dbi fl (path @ [(p, k0)])" "same_pages st st1"
    and "h < n" "length path + h < CURSOR_STACK" "cursor_cmp st1 mc = Some cc" "get_db st1 dbi = Some db"
    and key: "key \<in> K" and "key_between less key its lo (lo + length sub)"
  shows "\<exists>st2 path' q k lo' sub'. search_root_loop touch n mc (Some key) 0 st1 = Some (0, st2) \<and> only mc st1 st2 \<and>
     cursor_path st2 mc dbi ((fl OR C_INITIALIZED) AND NOT C_EOF) (path' @ [(q, k)]) \<and>
     on_trunk less st d root its (path' @ [(q, k)]) 0 lo' sub' \<and> key_between less key its lo' (lo' + length sub')"
  using assms(1-7,9)
proof (induction h arbitrary: path p k0 lo sub st1 n)
  case 0
  obtain n' where n: "n = Suc n'" using "0.prems"(4) by (cases n) auto
  obtain mp psize where mp: "top_page st1 mc = Some mp" "IS_LEAF mp" "\<not> IS_BRANCH mp"
    using trunk_leaf [OF "0.prems"(1-3)] by blast
  have "search_root_loop touch n mc (Some key) 0 st1 = Some (0, clear_flags mc C_EOF (or_flags mc C_INITIALIZED st1))"
    using n mp by (simp add: MDB_SUCCESS_def)
  moreover have "only mc st1 (clear_flags mc C_EOF (or_flags mc C_INITIALIZED st1))"
    by (rule only_trans [OF only_upd(3) only_upd(4)])
  ultimately show ?case using path_flags(2) [OF path_flags(1) [OF "0.prems"(2)]] "0.prems"(1,8) by blast
next
  case (Suc h)
  obtain n' where n: "n = Suc n'" "h < n'" using Suc.prems(4) by (cases n) auto
  obtain pg l where pg: "mdb_page_get st pg = Some (0, (p, l), st)" "subtree less st (Suc h) pg sub"
    using trunk_subtree(1) [OF Suc.prems(1)] by auto
  obtain mp where mp: "get_page st p = Some mp" using subtree_page [OF pg(2)] pg(1) by auto
  obtain psize kids where b: "page_ok psize mp" "IS_BRANCH mp" "\<not> IS_LEAF mp" "2 \<le> NUMKEYS mp" "length kids = NUMKEYS mp"
    "sub = concat kids" "\<forall>i < NUMKEYS mp. subtree less st h (NODEPGNO (page_items mp ! i)) (kids ! i)" and sep: "separates less mp kids"
    using branch_page [OF pg(1) mp pg(2)] by blast
  have mp1: "get_page st1 p = Some mp" using mp same_pages_simps(1) [OF Suc.prems(3)] by simp
  have top1: "top_page st1 mc = Some mp" using path_top(1) [OF Suc.prems(2)] mp1 by simp
  have at1: "cursor_at st1 mc dbi (length path) mp" by (rule path_cursor_at [OF Suc.prems(2) mp1])
  obtain i r where ch: "choose_child mc (Some key) 0 mp st1 = Some (i, set_top_ki mc r st1)" "r < 65536" "child_of less key mp i"
  proof -
    have "\<exists>i r. choose_child mc (Some key) 0 mp st1 = Some (i, set_top_ki mc r st1) \<and> r < 65536 \<and> child_of less key mp i"
      by (rule choose_child_spec [OF cmp_cc not_cint at1 Suc.prems(6,7) b(1,3,4) key]) (use pageK [OF b(1)] separatesD(1) [OF sep] in simp_all)
    then show ?thesis using that by blast
  qed
  have i: "i < NUMKEYS mp" using ch(3) by (simp add: child_of_def)
  define st2 where "st2 = set_top_ki mc i (set_top_ki mc r st1)"
  have p2: "cursor_path st2 mc dbi fl (path @ [(p, i)])"
    unfolding st2_def by (rule path_set_ki [OF path_set_ki [OF Suc.prems(2) ch(2)]]) (use i numkeys_small [OF b(1)] in simp)
  have o2: "only mc st1 st2" unfolding st2_def by (rule only_trans [OF only_upd(2) only_upd(2)])
  have s2: "same_pages st st2" by (rule same_pages_trans [OF Suc.prems(3) only_same [OF o2]])
  have dep: "length path + 1 < CURSOR_STACK" using Suc.prems(5) by simp
  obtain q l' mp' st3 where g: "NODEPTR mp i = Some (page_items mp ! i)"
    "mdb_page_get st2 (NODEPGNO (page_items mp ! i)) = Some (0, (q, l'), st2)" "get_page st q = Some mp'"
    "mdb_cursor_push mc q st2 = Some (0, st3)" "only mc st2 st3" "cursor_path st3 mc dbi fl ((path @ [(p, i)]) @ [(q, 0)])"
    "on_trunk less st d root its ((path @ [(p, i)]) @ [(q, 0)]) h (lo + length (concat (take i kids))) (kids ! i)"
    using go_child [OF Suc.prems(1) [unfolded b(6)] mp b(1-3,5,7) i p2 s2 dep] by blast
  have "same_pages (set_top_ki mc r st1) st2" by (simp add: st2_def)
  then have pg2: "mdb_page_get (set_top_ki mc r st1) (NODEPGNO (page_items mp ! i)) = Some (0, (q, l'), set_top_ki mc r st1)"
    using page_get_in [OF same_pages_sym g(2)] by blast
  have o3: "only mc st1 st3" by (rule only_trans [OF o2 g(5)])
  have s3: "same_pages st st3" by (rule same_pages_trans [OF Suc.prems(3) only_same [OF o3]])
  have step: "search_root_loop touch n mc (Some key) 0 st1 = search_root_loop touch n' mc (Some key) 0 st3"
    using n(1) top1 b(2,4) g(1,4) pg2 ch(1) i by (simp add: rc_bind_def st2_def anyset_def)
  have dep3: "length (path @ [(p, i)]) + h < CURSOR_STACK" using Suc.prems(5) by simp
  have "get_page st3 q = Some mp'" using g(3) same_pages_simps(1) [OF s3] by simp
  then have cmp3: "cursor_cmp st3 mc = Some cc"
    using cursor_cmp_at [OF at1 path_cursor_at [OF g(6)] only_same [OF o3]] Suc.prems(6) by simp
  have db3: "get_db st3 dbi = Some db" using Suc.prems(7) only_same [OF o3] by (simp add: same_pages_simps)
  have "sub = take (length sub) (drop lo its)" "lo + length sub \<le> length its" using trunk_subtree(3,4) [OF Suc.prems(1)] by blast+
  then have bet: "key_between less key its (lo + length (concat (take i kids))) (lo + length (concat (take i kids)) + length (kids ! i))"
    using Suc.prems(8) unfolding b(6)
    by (intro child_between [OF _ _ _ b(5) ch(3) key _ sep]) (use pageK [OF b(1)] subtree_K b(7) in blast)+
  obtain st4 path' q' k lo' sub' where "search_root_loop touch n' mc (Some key) 0 st3 = Some (0, st4)" "only mc st3 st4"
     "cursor_path st4 mc dbi ((fl OR C_INITIALIZED) AND NOT C_EOF) (path' @ [(q', k)])"
     "on_trunk less st d root its (path' @ [(q', k)]) 0 lo' sub'" "key_between less key its lo' (lo' + length sub')"
    using Suc.IH [OF g(7) g(6) s3 n(2) dep3 cmp3 db3 bet] by blast
  then show ?case using step only_trans [OF o3] by metis
qed

lemma leaf_slot:
  assumes t: "on_trunk less st d root its (path @ [(p, k0)]) 0 lo sub" and p: "cursor_path st1 mc dbi fl (path @ [(p, k0)])" and same: "same_pages st st1"
    and cur: "cursor_cmp st1 mc = Some cc" "get_db st1 dbi = Some db" and key: "key \<in> K" and bet: "key_between less key its lo (lo + length sub)"
    and srt: "sorted_wrt less (map fst its)"
  shows "\<exists>r exact. cursor_node_search mc key st1 = Some (exact, if r < length sub then Some r else None, set_top_ki mc r st1) \<and> r \<le> length sub \<and>
     (\<forall>i < lo + r. less (fst (its ! i)) key) \<and> (\<forall>i. lo + r \<le> i \<longrightarrow> i < length its \<longrightarrow> fst (its ! i) = key \<or> less key (fst (its ! i))) \<and>
     (exact \<longleftrightarrow> r < length sub \<and> fst (its ! (lo + r)) = key)"
proof -
  obtain pg l where pg: "mdb_page_get st pg = Some (0, (p, l), st)" "subtree less st 0 pg sub" using trunk_subtree(1) [OF t] by auto
  obtain mp psize where mp: "get_page st p = Some mp" "page_ok psize mp" "IS_LEAF mp" "leaf_items st mp sub" "NUMKEYS mp = length sub"
    using leaf_of_subtree [OF pg] by blast
  have at: "cursor_at st1 mc dbi (length path) mp"
    by (rule path_cursor_at [OF p]) (use mp(1) same_pages_simps(1) [OF same] in simp)
  have sub: "its ! (lo + x) = sub ! x" "lo + x < length its" if "x < length sub" for x
    using trunk_subtree(3,4) [OF t] that by (metis add_leD1 nth_drop nth_take, linarith)
  have kk: "NODEKEY (page_items mp ! x) = fst (its ! (lo + x))" if "x < NUMKEYS mp" for x
  proof -
    have "map fst sub ! x = map NODEKEY (page_items mp) ! x" using mp(4) by (simp add: leaf_items_def)
    then show ?thesis using that mp(5) sub(1) by simp
  qed
  have "\<exists>r exact. mdb_node_search cc (unat (md_pad db)) mp key = Some (r, exact, if r < NUMKEYS mp then Some r else None) \<and>
     0 \<le> r \<and> r \<le> NUMKEYS mp \<and> (\<forall>k. 0 \<le> k \<longrightarrow> k < r \<longrightarrow> less (NODEKEY (page_items mp ! k)) key) \<and>
     (\<forall>k. r \<le> k \<longrightarrow> k < NUMKEYS mp \<longrightarrow> NODEKEY (page_items mp ! k) = key \<or> less key (NODEKEY (page_items mp ! k))) \<and>
     (exact \<longleftrightarrow> r < NUMKEYS mp \<and> NODEKEY (page_items mp ! r) = key)"
  proof (rule node_search_page)
    fix i j assume "i < j" "j < NUMKEYS mp"
    then show "less (NODEKEY (page_items mp ! i)) (NODEKEY (page_items mp ! j))"
      using srt kk sub(2) mp(5) by (simp add: sorted_wrt_iff_nth_less)
  qed (use cmp_cc not_cint mp(2,3) key pageK in auto)
  then obtain r exact where s: "mdb_node_search cc (unat (md_pad db)) mp key = Some (r, exact, if r < NUMKEYS mp then Some r else None)"
    "r \<le> NUMKEYS mp" "\<And>k. k < r \<Longrightarrow> less (NODEKEY (page_items mp ! k)) key"
    "\<And>k. r \<le> k \<Longrightarrow> k < NUMKEYS mp \<Longrightarrow> NODEKEY (page_items mp ! k) = key \<or> less key (NODEKEY (page_items mp ! k))"
    "exact \<longleftrightarrow> r < NUMKEYS mp \<and> NODEKEY (page_items mp ! r) = key" by auto
  have "less (fst (its ! i)) key" if i: "i < lo + r" for i
  proof (cases "i < lo")
    case True
    then show ?thesis using bet by (simp add: key_between_def)
  next
    case False
    then show ?thesis using s(2) s(3) [of "i - lo"] kk [of "i - lo"] i by simp
  qed
  moreover have "fst (its ! i) = key \<or> less key (fst (its ! i))" if i: "lo + r \<le> i" "i < length its" for i
  proof (cases "i < lo + length sub")
    case True
    then show ?thesis using s(4) [of "i - lo"] kk [of "i - lo"] i mp(5) by simp
  next
    case False
    then show ?thesis using bet i(2) by (simp add: key_between_def)
  qed
  ultimately show ?thesis
    using node_search_at [OF at cur s(1)] s(2,5) kk mp(5) by (intro exI [of _ r] exI [of _ exact]) auto
qed

end

text \<open>The root page on the stack.\<close>

lemma seek_root:
  assumes op: "db_open st dbi db cc" and root: "1 < md_root db" "md_root db \<noteq> P_INVALID" "mdb_page_get st (md_root db) = Some (0, (p, l), st)"
    and cur: "crs st mc = Some (blank_cursor dbi)" and key: "key \<noteq> []"
  defines "st1 \<equiv> upd_cur mc (\<lambda>c. c\<lparr>mc_snum := 1, mc_top := 0\<rparr>) (upd_cur mc (set_pg 0 p) st)"
  shows "cursor_path st1 mc dbi 0 ([] @ [(p, 0)])" "only mc st st1"
    "page_search no_touch mc (Some key) 0 st = search_root_loop no_touch (CURSOR_STACK + 1) mc (Some key) 0 st1"
    "cursor_cmp st1 mc = Some cc" "get_db st1 dbi = Some db"
proof -
  obtain t fl dbx where o: "get_txn st = Some t" "\<not> anyset (mt_flags t) MDB_TXN_ERROR"
    "rd (mt_dbflags t) dbi = Some fl" "\<not> anyset fl DB_STALE" "rd (mt_dbs t) dbi = Some db" "rd (me_dbxs (env st)) dbi = Some dbx" "md_cmp dbx = Some cc"
    using op unfolding db_open_def by blast
  show p1: "cursor_path st1 mc dbi 0 ([] @ [(p, 0)])"
    using cur by (simp add: cursor_path_def st1_def upd_cur_def set_pg_def blank_cursor_def CURSOR_STACK_def numeral_eq_Suc)
  show o1: "only mc st st1" unfolding st1_def by (rule only_trans [OF only_upd(1) only_upd(1)])
  have "page_search no_touch mc (Some key) 0 st = search_from_root no_touch mc (Some key) 0 st"
    using o cur not_error [OF o(2)]
    by (simp add: page_search_def search_levels_def numeral_eq_Suc rc_bind_def blank_cursor_def get_dbflag_def)
  also have "\<dots> = search_root_loop no_touch (CURSOR_STACK + 1) mc (Some key) 0 st1"
    using o(1,5) cur root
    by (simp add: search_from_root_def get_db_def blank_cursor_def CURSOR_STACK_def rc_bind_def st1_def mdb_page_search_root_def anyset_def)
  finally show "page_search no_touch mc (Some key) 0 st = search_root_loop no_touch (CURSOR_STACK + 1) mc (Some key) 0 st1" .
  show "get_db st1 dbi = Some db" using o(1,5) only_same [OF o1] by (simp add: same_pages_simps get_db_def)
  show "cursor_cmp st1 mc = Some cc"
    using path_top(3) [OF p1] o(6,7) same_pages_simps [OF only_same [OF o1]] by (auto simp: cursor_cmp_def get_dbx_def)
qed


lemma flags_ready_set: "\<not> anyset fl C_DEL \<Longrightarrow> flags_ready ((fl OR C_INITIALIZED) AND NOT C_EOF)"
  by (simp add: flags_ready_def anyset_def C_INITIALIZED_def C_EOF_def C_DEL_def and.assoc bit.conj_disj_distrib2)

lemma found_at:
  assumes t: "on_trunk lt st d root its (path @ [(p, k)]) 0 lo sub" and p: "cursor_path st1 mc dbi fl (path @ [(p, k)])" and same: "same_pages st st1"
    and k: "k < length sub" and fl: "\<not> anyset fl C_DEL" and wk: "op = MDB_SET_RANGE \<or> op = MDB_SET_KEY"
  shows "\<exists>st2. cursor_set_found mc True op k st1 = Some (0, Some (fst (its ! (lo + k))), Some (snd (its ! (lo + k))), st2) \<and> only mc st1 st2 \<and>
     at_item lt st d root its st2 mc dbi (lo + k)"
proof -
  define st2 where "st2 = clear_flags mc C_EOF (or_flags mc C_INITIALIZED st1)"
  have p2: "cursor_path st2 mc dbi ((fl OR C_INITIALIZED) AND NOT C_EOF) (path @ [(p, k)])"
    unfolding st2_def by (rule path_flags(2) [OF path_flags(1) [OF p]])
  have o2: "only mc st1 st2" unfolding st2_def by (rule only_trans [OF only_upd(3) only_upd(4)])
  have s2: "same_pages st st2" by (rule same_pages_trans [OF same only_same [OF o2]])
  obtain mp psize where mp: "top_page st2 mc = Some mp" "top_ki st2 mc = Some k" "page_ok psize mp" "IS_LEAF mp" "leaf_items st2 mp sub" "NUMKEYS mp = length sub"
    using trunk_leaf [OF t p2 s2] by blast
  obtain c where c: "crs st2 mc = Some c" "mc_dbi c = dbi" using path_top(3) [OF p2] by auto
  have r: "read_item mc True st2 = Some (MDB_SUCCESS, Some (fst (its ! (lo + k))), Some (snd (its ! (lo + k))), st2)"
    by (rule read_at [OF t p2 s2 k])
  have nd: "NODEPTR mp k = Some (page_items mp ! k)" "\<not> IS_LEAF2 mp" using page_okD(7,2) [OF mp(3)] k mp(6) by auto
  have nv: "mdb_node_read (page_items mp ! k) st2 = Some (MDB_SUCCESS, snd (sub ! k), st2)" "\<not> node_isset (page_items mp ! k) F_DUPDATA"
    using mp(5) k by (auto simp: leaf_items_def node_value_def)
  have "cursor_set_found mc True op k st1 = Some (0, Some (fst (its ! (lo + k))), Some (snd (its ! (lo + k))), st2)"
    using c mp(1,2,4) nd nv r wk by (auto simp: cursor_set_found_def Let_def st2_def [symmetric] MDB_SUCCESS_def read_item_def)
  moreover have "at_item lt st d root its st2 mc dbi (lo + k)"
    unfolding at_item_def using s2 flags_ready_set [OF fl] p2 t k by blast
  ultimately show ?thesis using o2 by blast
qed

section \<open>The interface\<close>

text \<open>\<open>mdb_cursor_get\<close> clears \<open>C_DEL\<close> at the end; a cursor that has not deleted is not changed.\<close>

lemma no_del_same: "crs st mc = Some c \<Longrightarrow> \<not> anyset (mc_flags c) C_DEL \<Longrightarrow>
   upd_cur mc (\<lambda>c. if anyset (mc_flags c) C_DEL then c\<lparr>mc_flags := mc_flags c XOR C_DEL\<rparr> else c) st = st"
  by (simp add: upd_cur_def fun_upd_idem)

lemma get_wrap:
  assumes "get_txn st = Some t" "\<not> anyset (mt_flags t) MDB_TXN_ERROR" "cursor_get_op mc key wd op st = Some (rc, k, d, st2)"
    and "crs st2 mc = Some c" "\<not> anyset (mc_flags c) C_DEL"
  shows "mdb_cursor_get mc key wd op st = Some (rc, k, d, st2)"
  using assms no_del_same [OF assms(4,5)] by (simp add: mdb_cursor_get_def)

lemma get_next:
  assumes "get_txn st = Some t" "\<not> anyset (mt_flags t) MDB_TXN_ERROR" "at_item lt st d root its st1 mc dbi pos"
  shows "\<exists>st2. mdb_cursor_get mc key True MDB_NEXT st1 = Some (if pos + 1 < length its
       then (MDB_SUCCESS, Some (fst (its ! (pos + 1))), Some (snd (its ! (pos + 1))), st2) else (MDB_NOTFOUND, None, None, st2)) \<and>
       only mc st1 st2 \<and> crs st2 mc \<noteq> None \<and> (pos + 1 < length its \<longrightarrow> at_item lt st d root its st2 mc dbi (pos + 1))"
proof -
  have same: "same_pages st st1" using assms(3) by (simp add: at_item_def)
  have t: "get_txn st1 = Some t" using assms(1) same_pages_simps(2) [OF same] by simp
  obtain c where c: "crs st1 mc = Some c" "flags_ready (mc_flags c)" using at_item_ready [OF assms(3)] by blast
  have op: "cursor_get_op mc key True MDB_NEXT st1 = mdb_cursor_next mc True st1"
    using c by (simp add: cursor_get_op_def flags_ready_def)
  show ?thesis
  proof (cases "pos + 1 < length its")
    case True
    then obtain st2 where s: "mdb_cursor_next mc True st1 = Some (MDB_SUCCESS, Some (fst (its ! (pos + 1))), Some (snd (its ! (pos + 1))), st2)"
       "only mc st1 st2" "at_item lt st d root its st2 mc dbi (pos + 1)" using next_item [OF assms(3)] by auto
    obtain c2 where "crs st2 mc = Some c2" "flags_ready (mc_flags c2)" using at_item_ready [OF s(3)] by blast
    then show ?thesis using get_wrap [OF t assms(2), of mc key True MDB_NEXT] op s True by (auto simp: flags_ready_def)
  next
    case False
    then have "mdb_cursor_next mc True st1 = Some (MDB_NOTFOUND, None, None, or_flags mc C_EOF st1)" using next_item [OF assms(3)] by simp
    moreover have "crs (or_flags mc C_EOF st1) mc = Some (c\<lparr>mc_flags := mc_flags c OR C_EOF\<rparr>)" using c(1) by (simp add: or_flags_def upd_cur_def)
    moreover have "\<not> anyset (mc_flags c OR C_EOF) C_DEL"
      using c(2) by (simp add: flags_ready_def anyset_def C_EOF_def C_DEL_def bit.conj_disj_distrib2)
    ultimately have "mdb_cursor_get mc key True MDB_NEXT st1 = Some (MDB_NOTFOUND, None, None, or_flags mc C_EOF st1)"
      using get_wrap [OF t assms(2), of mc key True MDB_NEXT] op by simp
    then show ?thesis using False \<open>crs (or_flags mc C_EOF st1) mc = _\<close> by (intro exI [of _ "or_flags mc C_EOF st1"]) simp
  qed
qed

lemma get_prev:
  assumes "get_txn st = Some t" "\<not> anyset (mt_flags t) MDB_TXN_ERROR" "at_gap lt st d root its st1 mc dbi pos"
  shows "\<exists>st2. mdb_cursor_get mc key True MDB_PREV st1 = Some (if pos = 0 then (MDB_NOTFOUND, None, None, st2)
       else (MDB_SUCCESS, Some (fst (its ! (pos - 1))), Some (snd (its ! (pos - 1))), st2)) \<and>
       only mc st1 st2 \<and> crs st2 mc \<noteq> None \<and> (pos \<noteq> 0 \<longrightarrow> at_item lt st d root its st2 mc dbi (pos - 1))"
proof -
  have same: "same_pages st st1" using assms(3) by (simp add: at_gap_def)
  have t: "get_txn st1 = Some t" using assms(1) same_pages_simps(2) [OF same] by simp
  obtain c where c: "crs st1 mc = Some c" "flags_ready (mc_flags c)"
    using assms(3) path_top(3) unfolding at_gap_def by blast
  have op: "cursor_get_op mc key True MDB_PREV st1 = mdb_cursor_prev mc True st1"
    using c by (simp add: cursor_get_op_def flags_ready_def)
  show ?thesis
  proof (cases "pos = 0")
    case True
    then have "mdb_cursor_prev mc True st1 = Some (MDB_NOTFOUND, None, None, st1)" using prev_item [OF assms(3)] by simp
    then have "mdb_cursor_get mc key True MDB_PREV st1 = Some (MDB_NOTFOUND, None, None, st1)"
      using get_wrap [OF t assms(2), of mc key True MDB_PREV] op c by (simp add: flags_ready_def)
    then show ?thesis using True c(1) by (intro exI [of _ st1]) simp
  next
    case False
    then obtain st2 where s: "mdb_cursor_prev mc True st1 = Some (MDB_SUCCESS, Some (fst (its ! (pos - 1))), Some (snd (its ! (pos - 1))), st2)"
       "only mc st1 st2" "at_item lt st d root its st2 mc dbi (pos - 1)" using prev_item [OF assms(3)] by auto
    obtain c2 where "crs st2 mc = Some c2" "flags_ready (mc_flags c2)" using at_item_ready [OF s(3)] by blast
    then show ?thesis using get_wrap [OF t assms(2), of mc key True MDB_PREV] op s False by (auto simp: flags_ready_def)
  qed
qed

text \<open>The number of keys smaller than \<open>key\<close>.\<close>

definition first_from :: "(byte list \<Rightarrow> byte list \<Rightarrow> bool) \<Rightarrow> byte list \<Rightarrow> (byte list \<times> byte list) list \<Rightarrow> nat" where
  "first_from lt key its = length (takeWhile (\<lambda>it. lt (fst it) key) its)"

lemma first_from_eq:
  assumes "\<forall>i < n. lt (fst (its ! i)) key" "n < length its \<Longrightarrow> \<not> lt (fst (its ! n)) key" "n \<le> length its"
  shows "first_from lt key its = n"
proof -
  have "takeWhile (\<lambda>it. lt (fst it) key) its = take n its" by (rule takeWhile_eq_take_P_nth) (use assms in auto)
  then show ?thesis using assms(3) by (simp add: first_from_def)
qed

context tree_order
begin

lemma seek:
  assumes op: "db_open st dbi db cc" and holds: "db_holds less st db its" "its \<noteq> []" and cur: "crs st mc = Some (blank_cursor dbi)"
    and key: "key \<in> K" "key \<noteq> []"
  shows "\<exists>d st2 path p k0 fl lo sub r exact. page_search no_touch mc (Some key) 0 st = Some (0, st2) \<and> only mc st st2 \<and>
     cursor_path st2 mc dbi fl (path @ [(p, k0)]) \<and> flags_ready fl \<and> on_trunk less st d (md_root db) its (path @ [(p, k0)]) 0 lo sub \<and>
     cursor_node_search mc key st2 = Some (exact, if r < length sub then Some r else None, set_top_ki mc r st2) \<and> r \<le> length sub \<and>
     first_from less key its = lo + r \<and> (exact \<longleftrightarrow> r < length sub \<and> fst (its ! (lo + r)) = key) \<and> (exact \<longleftrightarrow> key \<in> fst ` set its)"
proof -
  obtain d where d: "md_root db \<noteq> P_INVALID" "1 < md_root db" "d < CURSOR_STACK" "subtree less st d (md_root db) its"
    and srt: "sorted_wrt less (map fst its)"
    using holds by (auto simp: db_holds_def split: if_splits)
  obtain p l mp where pg: "mdb_page_get st (md_root db) = Some (0, (p, l), st)" "get_page st p = Some mp"
    using subtree_page [OF d(4)] by blast
  define st1 where "st1 = upd_cur mc (\<lambda>c. c\<lparr>mc_snum := 1, mc_top := 0\<rparr>) (upd_cur mc (set_pg 0 p) st)"
  note sr = seek_root [OF op d(2,1) pg(1) cur key(2), folded st1_def]
  have t1: "on_trunk less st d (md_root db) its ([] @ [(p, 0)]) d 0 its" using on_trunk.root [OF pg(1) d(4)] by simp
  have b1: "key_between less key its 0 (0 + length its)" by (simp add: key_between_def)
  obtain st2 path' q k lo sub where s: "search_root_loop no_touch (CURSOR_STACK + 1) mc (Some key) 0 st1 = Some (0, st2)" "only mc st1 st2"
     "cursor_path st2 mc dbi ((0 OR C_INITIALIZED) AND NOT C_EOF) (path' @ [(q, k)])"
     "on_trunk less st d (md_root db) its (path' @ [(q, k)]) 0 lo sub" "key_between less key its lo (lo + length sub)"
    using descend_to [OF t1 sr(1) only_same [OF sr(2)] _ _ sr(4,5) key(1) b1, of "CURSOR_STACK + 1" no_touch] d(3) by auto
  have o2: "only mc st st2" by (rule only_trans [OF sr(2) s(2)])
  have cmp2: "cursor_cmp st2 mc = Some cc"
    using sr(4) path_top(3) [OF s(3)] path_top(3) [OF sr(1)] same_pages_simps [OF only_same [OF s(2)]] by (auto simp: cursor_cmp_def get_dbx_def)
  have db2: "get_db st2 dbi = Some db" using sr(5) only_same [OF s(2)] by (simp add: same_pages_simps)
  obtain r exact where r: "cursor_node_search mc key st2 = Some (exact, if r < length sub then Some r else None, set_top_ki mc r st2)" "r \<le> length sub"
     "\<forall>i < lo + r. less (fst (its ! i)) key" "\<forall>i. lo + r \<le> i \<longrightarrow> i < length its \<longrightarrow> fst (its ! i) = key \<or> less key (fst (its ! i))"
     "exact \<longleftrightarrow> r < length sub \<and> fst (its ! (lo + r)) = key"
    using leaf_slot [OF s(4,3) only_same [OF o2] cmp2 db2 key(1) s(5) srt] by blast
  have irr: "\<not> less x x" if "x \<in> K" for x using irrefl [OF that] .
  have asym: "\<not> less b a" if "a \<in> K" "b \<in> K" "less a b" for a b using that less_trans [of a b a] irr by blast
  have inK: "fst (its ! i) \<in> K" if "i < length its" for i using subtree_K [OF d(4)] that by simp
  have le: "lo + r \<le> length its" using trunk_subtree(3) [OF s(4)] r(2) by simp
  have "first_from less key its = lo + r"
    by (rule first_from_eq) (use r(3,4) le asym irr key(1) inK in \<open>blast+\<close>)
  moreover have "exact \<longleftrightarrow> key \<in> fst ` set its"
  proof
    assume exact
    then have "fst (its ! (lo + r)) = key" "lo + r < length its" using r(5) trunk_subtree(3) [OF s(4)] by simp_all
    then show "key \<in> fst ` set its" by (metis image_eqI nth_mem)
  next
    assume "key \<in> fst ` set its"
    then obtain i where i: "i < length its" "fst (its ! i) = key" by (auto simp: in_set_conv_nth)
    have "\<not> i < lo + r" using r(3) i irr [OF key(1)] by auto
    moreover have "\<not> lo + r < i"
    proof
      assume a: "lo + r < i"
      then have l: "less (fst (its ! (lo + r))) key" using sorted_wrt_nth_less [OF srt a] i by simp
      have lt: "lo + r < length its" using a i(1) by simp
      then have "fst (its ! (lo + r)) = key \<or> less key (fst (its ! (lo + r)))" using r(4) by blast
      then show False using l asym [OF inK [OF lt] key(1) l] irr [OF key(1)] by auto
    qed
    ultimately have e: "i = lo + r" by simp
    have "\<not> lo + r = lo + length sub"
    proof
      assume "lo + r = lo + length sub"
      then have "less key (fst (its ! i))" using s(5) i(1) e by (simp add: key_between_def)
      then show False using i(2) irr [OF key(1)] by simp
    qed
    then show exact using r(2,5) e i(2) by simp
  qed
  moreover have "flags_ready ((0 OR C_INITIALIZED) AND NOT C_EOF)" by (rule flags_ready_set) (simp add: anyset_def)
  ultimately show ?thesis using sr(3) s(1,3,4) o2 r(1,2,5) by (intro exI conjI) (assumption | simp)+
qed

lemma set_range:
  assumes op: "db_open st dbi db cc" and holds: "db_holds less st db its" and cur: "crs st mc = Some (blank_cursor dbi)"
    and key: "key \<in> K" "key \<noteq> []"
  shows "\<exists>st2. mdb_cursor_set mc key True MDB_SET_RANGE False st =
       Some (if first_from less key its < length its
             then (0, Some (fst (its ! first_from less key its)), Some (snd (its ! first_from less key its)), st2)
             else (MDB_NOTFOUND, None, None, st2)) \<and> only mc st st2 \<and>
     (\<exists>c. crs st2 mc = Some c \<and> \<not> anyset (mc_flags c) C_DEL) \<and>
     (first_from less key its < length its \<longrightarrow> (\<exists>d. at_item less st d (md_root db) its st2 mc dbi (first_from less key its)))"
proof (cases "its = []")
  case True
  then have root: "md_root db = P_INVALID" using holds by (auto simp: db_holds_def dest: subtree_nonempty split: if_splits)
  obtain t fl where o: "get_txn st = Some t" "\<not> anyset (mt_flags t) MDB_TXN_ERROR"
    "rd (mt_dbflags t) dbi = Some fl" "\<not> anyset fl DB_STALE" "rd (mt_dbs t) dbi = Some db"
    using op unfolding db_open_def by blast
  have "page_search no_touch mc (Some key) 0 st = search_from_root no_touch mc (Some key) 0 st"
    using o cur not_error [OF o(2)]
    by (simp add: page_search_def search_levels_def numeral_eq_Suc rc_bind_def blank_cursor_def get_dbflag_def)
  also have "\<dots> = Some (MDB_NOTFOUND, st)"
    using o(1,5) cur root by (simp add: search_from_root_def get_db_def blank_cursor_def)
  finally have "mdb_cursor_set mc key True MDB_SET_RANGE False st = Some (MDB_NOTFOUND, None, None, st)"
    using key(2) cur by (simp add: mdb_cursor_set_def blank_cursor_def anyset_def MDB_SUCCESS_def MDB_NOTFOUND_def)
  then show ?thesis using True cur by (intro exI [of _ st]) (simp add: blank_cursor_def anyset_def)
next
  case False
  obtain d st2 path p k0 fl lo sub r exact where s: "page_search no_touch mc (Some key) 0 st = Some (0, st2)" "only mc st st2"
     "cursor_path st2 mc dbi fl (path @ [(p, k0)])" "flags_ready fl" "on_trunk less st d (md_root db) its (path @ [(p, k0)]) 0 lo sub"
     "cursor_node_search mc key st2 = Some (exact, if r < length sub then Some r else None, set_top_ki mc r st2)" "r \<le> length sub"
     "first_from less key its = lo + r"
    using seek [OF op holds False cur key] by blast
  have same: "same_pages st st2" by (rule only_same [OF s(2)])
  have del: "\<not> anyset fl C_DEL" using s(4) by (simp add: flags_ready_def)
  obtain mp psize where mp: "top_page st2 mc = Some mp" "IS_LEAF mp" "page_ok psize mp" "NUMKEYS mp = length sub"
    using trunk_leaf [OF s(5,3) same] by blast
  have set: "mdb_cursor_set mc key True MDB_SET_RANGE False st = cursor_set_search mc key True MDB_SET_RANGE False st2"
    using key(2) cur s(1) mp(1,2) by (simp add: mdb_cursor_set_def blank_cursor_def anyset_def MDB_SUCCESS_def)
  define st3 where "st3 = set_top_ki mc r st2"
  have p3: "cursor_path st3 mc dbi fl (path @ [(p, r)])"
    unfolding st3_def by (rule path_set_ki [OF s(3)]) (use s(7) mp(4) numkeys_small [OF mp(3)] in simp)
  have t3: "on_trunk less st d (md_root db) its (path @ [(p, r)]) 0 lo sub" by (rule trunk_last [OF s(5)])
  have o3: "only mc st st3" unfolding st3_def by (rule only_trans [OF s(2) only_upd(2)])
  have same3: "same_pages st st3" by (rule only_same [OF o3])
  have wk: "MDB_SET_RANGE = MDB_SET_RANGE \<or> MDB_SET_RANGE = MDB_SET_KEY" by simp
  show ?thesis
  proof (cases "r < length sub")
    case True
    obtain st4 where f: "cursor_set_found mc True MDB_SET_RANGE r st3 = Some (0, Some (fst (its ! (lo + r))), Some (snd (its ! (lo + r))), st4)"
      "only mc st3 st4" "at_item less st d (md_root db) its st4 mc dbi (lo + r)"
      using found_at [OF t3 p3 same3 True del wk] by blast
    have "mdb_cursor_set mc key True MDB_SET_RANGE False st = Some (0, Some (fst (its ! (lo + r))), Some (snd (its ! (lo + r))), st4)"
      using set s(6) True f(1) by (simp add: cursor_set_search_def st3_def)
    moreover have "lo + r < length its" using trunk_subtree(3) [OF t3] True by simp
    moreover have "\<exists>c. crs st4 mc = Some c \<and> \<not> anyset (mc_flags c) C_DEL" using at_item_ready [OF f(3)] by (auto simp: flags_ready_def)
    ultimately show ?thesis using s(8) f(3) only_trans [OF o3 f(2)] by auto
  next
    case False
    have "cursor_path st3 mc dbi fl (butlast (path @ [(p, r)]) @ [(fst (last (path @ [(p, r)])), r)])" using p3 by simp
    moreover have "length (path @ [(p, r)]) \<le> CURSOR_STACK + 1" using p3 by (simp add: cursor_path_def)
    ultimately have sib: "if lo + length sub = length its then mdb_cursor_sibling mc True st3 = Some (MDB_NOTFOUND, st3)
     else \<exists>st4 path' q sub'. mdb_cursor_sibling mc True st3 = Some (0, st4) \<and> only mc st3 st4 \<and>
       cursor_path st4 mc dbi fl (path' @ [(q, 0)]) \<and> on_trunk less st d (md_root db) its (path' @ [(q, 0)]) 0 (lo + length sub) sub'"
      unfolding mdb_cursor_sibling_def by (rule sibling_right [OF t3 _ same3])
    have r: "r = length sub" using False s(7) by simp
    show ?thesis
    proof (cases "lo + length sub = length its")
      case True
      have "mdb_cursor_set mc key True MDB_SET_RANGE False st = Some (MDB_NOTFOUND, None, None, st3)"
        using set s(6) False sib True by (simp add: cursor_set_search_def st3_def MDB_NOTFOUND_def MDB_SUCCESS_def)
      moreover have "\<exists>c. crs st3 mc = Some c \<and> \<not> anyset (mc_flags c) C_DEL" using path_top(3) [OF p3] del by auto
      ultimately show ?thesis using True r s(8) o3 by (intro exI [of _ st3]) simp
    next
      case more: False
      obtain st4 path' q sub' where g: "mdb_cursor_sibling mc True st3 = Some (0, st4)" "only mc st3 st4"
       "cursor_path st4 mc dbi fl (path' @ [(q, 0)])" "on_trunk less st d (md_root db) its (path' @ [(q, 0)]) 0 (lo + length sub) sub'"
        using sib more by auto
      have o4: "only mc st st4" by (rule only_trans [OF o3 g(2)])
      have ne: "0 < length sub'" using trunk_subtree(1) [OF g(4)] subtree_nonempty by blast
      obtain mp4 where mp4: "top_page st4 mc = Some mp4" "IS_LEAF mp4" using trunk_leaf [OF g(4,3) only_same [OF o4]] by blast
      obtain st5 where f: "cursor_set_found mc True MDB_SET_RANGE 0 st4 =
          Some (0, Some (fst (its ! (lo + length sub + 0))), Some (snd (its ! (lo + length sub + 0))), st5)"
        "only mc st4 st5" "at_item less st d (md_root db) its st5 mc dbi (lo + length sub + 0)"
        using found_at [OF g(4,3) only_same [OF o4] ne del wk] by blast
      have "mdb_cursor_set mc key True MDB_SET_RANGE False st = Some (0, Some (fst (its ! (lo + r))), Some (snd (its ! (lo + r))), st5)"
        using set s(6) False g(1) mp4 f(1) r by (simp add: cursor_set_search_def st3_def MDB_SUCCESS_def)
      moreover have "lo + r < length its" using at_item_less [OF f(3)] r by simp
      moreover have "\<exists>c. crs st5 mc = Some c \<and> \<not> anyset (mc_flags c) C_DEL" using at_item_ready [OF f(3)] by (auto simp: flags_ready_def)
      ultimately show ?thesis using s(8) f(3) r only_trans [OF o4 f(2)] by auto
    qed
  qed
qed

lemma set_key:
  assumes op: "db_open st dbi db cc" and holds: "db_holds less st db its" "its \<noteq> []" and cur: "crs st mc = Some (blank_cursor dbi)"
    and key: "key \<in> K" "key \<noteq> []"
  shows "\<exists>st2 d. mdb_cursor_set mc key True MDB_SET_KEY True st =
       Some (if key \<in> fst ` set its
             then (0, Some (fst (its ! first_from less key its)), Some (snd (its ! first_from less key its)), st2)
             else (MDB_NOTFOUND, None, None, st2)) \<and> only mc st st2 \<and>
     (if key \<in> fst ` set its then at_item less st d (md_root db) its st2 mc dbi (first_from less key its) \<and> fst (its ! first_from less key its) = key
      else at_gap less st d (md_root db) its st2 mc dbi (first_from less key its))"
proof -
  obtain d st2 path p k0 fl lo sub r exact where s: "page_search no_touch mc (Some key) 0 st = Some (0, st2)" "only mc st st2"
     "cursor_path st2 mc dbi fl (path @ [(p, k0)])" "flags_ready fl" "on_trunk less st d (md_root db) its (path @ [(p, k0)]) 0 lo sub"
     "cursor_node_search mc key st2 = Some (exact, if r < length sub then Some r else None, set_top_ki mc r st2)" "r \<le> length sub"
     "first_from less key its = lo + r" "exact \<longleftrightarrow> r < length sub \<and> fst (its ! (lo + r)) = key" "exact \<longleftrightarrow> key \<in> fst ` set its"
    using seek [OF op holds cur key] by blast
  have same: "same_pages st st2" by (rule only_same [OF s(2)])
  have del: "\<not> anyset fl C_DEL" using s(4) by (simp add: flags_ready_def)
  obtain mp psize where mp: "top_page st2 mc = Some mp" "IS_LEAF mp" "page_ok psize mp" "NUMKEYS mp = length sub"
    using trunk_leaf [OF s(5,3) same] by blast
  have set: "mdb_cursor_set mc key True MDB_SET_KEY True st = cursor_set_search mc key True MDB_SET_KEY True st2"
    using key(2) cur s(1) mp(1,2) by (simp add: mdb_cursor_set_def blank_cursor_def anyset_def MDB_SUCCESS_def)
  define st3 where "st3 = set_top_ki mc r st2"
  have p3: "cursor_path st3 mc dbi fl (path @ [(p, r)])"
    unfolding st3_def by (rule path_set_ki [OF s(3)]) (use s(7) mp(4) numkeys_small [OF mp(3)] in simp)
  have t3: "on_trunk less st d (md_root db) its (path @ [(p, r)]) 0 lo sub" by (rule trunk_last [OF s(5)])
  have o3: "only mc st st3" unfolding st3_def by (rule only_trans [OF s(2) only_upd(2)])
  have same3: "same_pages st st3" by (rule only_same [OF o3])
  show ?thesis
  proof (cases exact)
    case True
    then have r: "r < length sub" "fst (its ! (lo + r)) = key" using s(9) by auto
    have wk: "MDB_SET_KEY = MDB_SET_RANGE \<or> MDB_SET_KEY = MDB_SET_KEY" by simp
    obtain st4 where f: "cursor_set_found mc True MDB_SET_KEY r st3 = Some (0, Some (fst (its ! (lo + r))), Some (snd (its ! (lo + r))), st4)"
      "only mc st3 st4" "at_item less st d (md_root db) its st4 mc dbi (lo + r)"
      using found_at [OF t3 p3 same3 r(1) del wk] by blast
    have "mdb_cursor_set mc key True MDB_SET_KEY True st = Some (0, Some (fst (its ! (lo + r))), Some (snd (its ! (lo + r))), st4)"
      using set s(6) True r(1) f(1) by (simp add: cursor_set_search_def st3_def)
    then show ?thesis using s(8,10) True f(3) r(2) only_trans [OF o3 f(2)] by (intro exI [of _ st4] exI [of _ d]) simp
  next
    case False
    have "mdb_cursor_set mc key True MDB_SET_KEY True st = Some (MDB_NOTFOUND, None, None, st3)"
      using set s(6) False by (simp add: cursor_set_search_def st3_def)
    moreover have "at_gap less st d (md_root db) its st3 mc dbi (lo + r)"
      unfolding at_gap_def using same3 s(4,7) p3 t3 by blast
    ultimately show ?thesis using s(8,10) False o3 by (intro exI [of _ st3] exI [of _ d]) simp
  qed
qed

end

end
