(* ===== verification/Kv_Store_Facts.thy ===== *)
theory Kv_Store_Facts
  imports Kv_Store Lmdb_Range_Facts Lmdb_Item_Facts
begin

text \<open>
  The key-value store on LMDB answers from the items of its table: an enumeration of the keys between
  two bounds hands the block the items inside, in the order of the keys or the reverse, until it stops
  (but the item after an excluded first bound is handed over without the test of the other bound);
  the value stored for a key is the one read back.  The store's cursors see the tree through the
  cursor facts of \<open>Lmdb_Range_Facts\<close>.
\<close>

section \<open>A block over a list of items\<close>

text \<open>A block that only works on its own variables.\<close>

definition pure_block :: "(byte list \<Rightarrow> byte list \<Rightarrow> 'b \<Rightarrow> 'b \<times> bool) \<Rightarrow> 'b block" where
  "pure_block f k v b st = (let (b, stop) = f k v b in Some (b, stop, st))"

lemma pure_block_app: "f k v b = (b', stop) \<Longrightarrow> pure_block f k v b st = Some (b', stop, st)"
  by (simp add: pure_block_def)

fun run_block :: "(byte list \<Rightarrow> byte list \<Rightarrow> 'b \<Rightarrow> 'b \<times> bool) \<Rightarrow> item list \<Rightarrow> 'b \<Rightarrow> 'b" where
  "run_block f [] b = b"
| "run_block f ((k, v) # its) b = (let (b, stop) = f k v b in if stop then b else run_block f its b)"

text \<open>
  What the loop of an enumeration needs of a cursor: \<open>P xs st\<close> says that in \<open>st\<close> the items still to come
  are \<open>xs\<close>; \<open>Q\<close> is kept.
\<close>

locale item_stream =
  fixes move :: "st \<Rightarrow> (item option \<times> st) option" and inside :: "byte list \<Rightarrow> st \<Rightarrow> bool option" and p :: "byte list \<Rightarrow> bool"
    and P :: "item list \<Rightarrow> st \<Rightarrow> bool" and Q :: "st \<Rightarrow> bool"
  assumes moves: "P xs st \<Longrightarrow> \<exists>st'. move st = Some (case xs of [] \<Rightarrow> None | x # ys \<Rightarrow> Some x, st') \<and> Q st' \<and> (xs \<noteq> [] \<longrightarrow> P (tl xs) st')"
    and tests: "P xs st \<Longrightarrow> length k < 2 ^ 32 \<Longrightarrow> inside k st = Some (p k)"
    and keys: "P xs st \<Longrightarrow> x \<in> set xs \<Longrightarrow> length (fst x) < 2 ^ 32"
    and kept: "P xs st \<Longrightarrow> Q st"
begin

lemma rest:
  assumes "P xs st"
  shows "\<exists>st'. enumerate_rest move inside (pure_block f) b st = Some (run_block f (takeWhile (\<lambda>it. p (fst it)) xs) b, st') \<and> Q st'"
  using assms
proof (induction xs arbitrary: b st)
  case Nil
  then show ?case using moves [OF Nil] by (subst enumerate_rest.simps) auto
next
  case (Cons x xs)
  obtain k v where x: "x = (k, v)" by (cases x)
  obtain st1 where s: "move st = Some (Some (k, v), st1)" "Q st1" "P xs st1" using moves [OF Cons.prems] x by auto
  have i: "inside k st1 = Some (p k)" using tests [OF s(3)] keys [OF Cons.prems, of x] x by simp
  obtain b1 stop where f: "f k v b = (b1, stop)" by (cases "f k v b")
  show ?case
  proof (cases "p k \<and> \<not> stop")
    case True
    then show ?thesis using Cons.IH [OF s(3), of b1] by (subst enumerate_rest.simps) (simp add: s i f x pure_block_app [of f, OF f])
  next
    case False
    then show ?thesis using s by (subst enumerate_rest.simps) (auto simp: i f x pure_block_app [of f, OF f])
  qed
qed

lemma from_item:
  assumes "P xs st" and "length key < 2 ^ 32"
  shows "\<exists>st'. enumerate_from move inside (pure_block f) key (Some x) b st =
    Some (run_block f (if p key then x # takeWhile (\<lambda>it. p (fst it)) xs else []) b, st') \<and> Q st'"
proof -
  obtain k v where x: "x = (k, v)" by (cases x)
  have i: "inside key st = Some (p key)" using tests [OF assms] .
  obtain b1 stop where f: "f k v b = (b1, stop)" by (cases "f k v b")
  show ?thesis
  proof (cases "p key \<and> \<not> stop")
    case True
    then show ?thesis using rest [OF assms(1), of f b1] by (simp add: enumerate_from_def i f x pure_block_app [of f, OF f])
  next
    case False
    then show ?thesis using kept [OF assms(1)] by (auto simp: enumerate_from_def i f x pure_block_app [of f, OF f])
  qed
qed

end

section \<open>The cursor of a reader\<close>

text \<open>A reader's transaction keeps no track of its cursors.\<close>

definition read_txn :: "st \<Rightarrow> bool" where
  "read_txn st \<longleftrightarrow> (\<exists>t. get_txn st = Some t \<and> F_ISSET (mt_flags t) MDB_TXN_RDONLY \<and> mt_cursors t = [] \<and> mt_backups t = [])"

lemma open_reader:
  assumes op: "db_open st dbi db cc" and r: "read_txn st" and m: "mem_of st sizeof_MDB_cursor"
  shows "\<exists>st1. mdb_cursor_open dbi st = Some (0, Some (ncrs st), st1) \<and> same_pages st st1 \<and>
    crs st1 (ncrs st) = Some (blank_cursor dbi) \<and> (\<forall>m. m \<noteq> ncrs st \<longrightarrow> crs st1 m = crs st m)"
proof -
  obtain t fl dbx where o: "get_txn st = Some t" "\<not> anyset (mt_flags t) MDB_TXN_ERROR" "dbi \<noteq> FREE_DBI" "TXN_DBI_EXIST t dbi"
    "rd (mt_dbflags t) dbi = Some fl" "\<not> anyset fl DB_STALE" "rd (mt_dbs t) dbi = Some db"
    "\<not> anyset (ucast (md_flags db)) MDB_DUPSORT" "rd (me_dbxs (env st)) dbi = Some dbx" "md_cmp dbx = Some cc"
    using op unfolding db_open_def by blast
  have rt: "F_ISSET (mt_flags t) MDB_TXN_RDONLY" "mt_cursors t = []" using r o(1) by (auto simp: read_txn_def)
  define st1 where "st1 = snd (local_cursor (blank_cursor dbi) (tick st))"
  have t1: "get_txn st1 = Some t" using o(1) by (simp add: st1_def local_cursor_def tick_def get_txn_def)
  have "mdb_cursor_init (ncrs st) dbi st1 = Some st1"
    using o(1,5-8) t1 by (simp add: mdb_cursor_init_def search_levels_def numeral_eq_Suc local_cursor_def get_db_def
        get_dbflag_def get_txn_def st1_def tick_def)
  moreover have "local_cursor (blank_cursor dbi) (tick st) = (ncrs st, st1)" by (simp add: st1_def local_cursor_def tick_def)
  ultimately have "mdb_cursor_open dbi st = Some (0, Some (ncrs st), st1)"
    using o(1-4) rt m t1 by (simp add: mdb_cursor_open_def MDB_SUCCESS_def)
  moreover have "same_pages st st1" by (simp add: st1_def local_cursor_def tick_def same_pages_def)
  ultimately show ?thesis by (auto simp: st1_def local_cursor_def tick_def)
qed

lemma close_reader: "read_txn st0 \<Longrightarrow> same_pages st0 st \<Longrightarrow> crs st mc = Some c \<Longrightarrow> mdb_cursor_close mc st = Some (drop_cursor mc st)"
  using same_pages_simps(2) [of st0 st] by (auto simp: mdb_cursor_close_def read_txn_def)

lemma db_holds_same: "db_holds lt st db its \<Longrightarrow> same_pages st st' \<Longrightarrow> db_holds lt st' db its"
  using subtree_same by (fastforce simp: db_holds_def)

text \<open>The cursor \<open>mc\<close> of a database with the items \<open>its\<close> stands before (\<open>next_items\<close>) or after (\<open>prev_items\<close>) the items \<open>xs\<close>.\<close>

definition next_items :: "st \<Rightarrow> nat \<Rightarrow> nat \<Rightarrow> item list \<Rightarrow> st \<Rightarrow> bool" where
  "next_items st0 dbi mc xs st \<longleftrightarrow> only mc st0 st \<and> (\<exists>db its d pos. db_open st0 dbi db Cmp_memn \<and> db_holds memn.less st0 db its \<and>
     at_item memn.less st0 d (md_root db) its st mc dbi pos \<and> xs = drop (Suc pos) its)"

definition prev_items :: "st \<Rightarrow> nat \<Rightarrow> nat \<Rightarrow> item list \<Rightarrow> st \<Rightarrow> bool" where
  "prev_items st0 dbi mc xs st \<longleftrightarrow> only mc st0 st \<and> (\<exists>db its d pos. db_open st0 dbi db Cmp_memn \<and> db_holds memn.less st0 db its \<and>
     at_gap memn.less st0 d (md_root db) its st mc dbi pos \<and> pos \<le> length its \<and> xs = rev (take pos its))"

definition kept_cursor :: "st \<Rightarrow> nat \<Rightarrow> st \<Rightarrow> bool" where
  "kept_cursor st0 mc st \<longleftrightarrow> only mc st0 st \<and> crs st mc \<noteq> None"

definition upper_ok :: "64 word \<Rightarrow> byte list \<Rightarrow> byte list \<Rightarrow> bool" where
  "upper_ok options upper k \<longleftrightarrow>
     (if anyset options PSKeyValueReaderEnumerationUpperBoundExclusive then lex_less k upper else \<not> lex_less upper k)"

definition lower_ok :: "64 word \<Rightarrow> byte list \<Rightarrow> byte list \<Rightarrow> bool" where
  "lower_ok options lower k \<longleftrightarrow>
     (if anyset options PSKeyValueReaderEnumerationLowerBoundExclusive then lex_less lower k else \<not> lex_less k lower)"

lemma mdb_cmp_open:
  assumes "db_open st dbi db Cmp_memn" "same_pages st st1" "length a < 2 ^ 32" "length b < 2 ^ 32"
  shows "\<exists>c. mdb_cmp dbi a b st1 = Some c \<and> (c < 0 \<longleftrightarrow> lex_less a b) \<and> (c > 0 \<longleftrightarrow> lex_less b a)"
  using assms(1) same_pages_simps(5) [OF assms(2)] cmp_memn_lex [OF assms(3,4)]
  by (auto simp: mdb_cmp_def db_open_def get_dbx_def fun_eq_iff cmp_call_def)

lemma within_upper_ok:
  assumes "db_open st dbi db Cmp_memn" "same_pages st st1" "length k < 2 ^ 32" "length upper < 2 ^ 32"
  shows "within_upper dbi upper options k st1 = Some (upper_ok options upper k)"
  using mdb_cmp_open [OF assms] by (auto simp: within_upper_def upper_ok_def not_less)

lemma within_lower_ok:
  assumes "db_open st dbi db Cmp_memn" "same_pages st st1" "length k < 2 ^ 32" "length lower < 2 ^ 32"
  shows "within_lower dbi lower options k st1 = Some (lower_ok options lower k)"
  using mdb_cmp_open [OF assms] by (auto simp: within_lower_def lower_ok_def not_less)

lemma held_keys: "db_holds lt st db its \<Longrightarrow> x \<in> set its \<Longrightarrow> length (fst x) < 2 ^ 32"
  using subtree_keys [of lt st] by (fastforce simp: db_holds_def split: if_splits)

lemma open_txn: "db_open st dbi db cc \<Longrightarrow> \<exists>t. get_txn st = Some t \<and> \<not> anyset (mt_flags t) MDB_TXN_ERROR"
  by (auto simp: db_open_def)

lemma next_moves:
  assumes "next_items st0 dbi mc xs st"
  shows "\<exists>st'. cursor_next mc st = Some (case xs of [] \<Rightarrow> None | x # ys \<Rightarrow> Some x, st') \<and> kept_cursor st0 mc st' \<and>
     (xs \<noteq> [] \<longrightarrow> next_items st0 dbi mc (tl xs) st')"
proof -
  obtain db its d pos where a: "only mc st0 st" "db_open st0 dbi db Cmp_memn" "db_holds memn.less st0 db its"
     "at_item memn.less st0 d (md_root db) its st mc dbi pos" "xs = drop (Suc pos) its" using assms unfolding next_items_def by blast
  obtain t where t: "get_txn st0 = Some t" "\<not> anyset (mt_flags t) MDB_TXN_ERROR" using open_txn [OF a(2)] by blast
  obtain st' where g: "mdb_cursor_get mc (Some []) True MDB_NEXT st = Some (if pos + 1 < length its
       then (MDB_SUCCESS, Some (fst (its ! (pos + 1))), Some (snd (its ! (pos + 1))), st') else (MDB_NOTFOUND, None, None, st'))"
       "only mc st st'" "crs st' mc \<noteq> None" "pos + 1 < length its \<longrightarrow> at_item memn.less st0 d (md_root db) its st' mc dbi (pos + 1)"
    using get_next [OF t a(4)] by blast
  have o: "only mc st0 st'" by (rule only_trans [OF a(1) g(2)])
  show ?thesis
  proof (cases "pos + 1 < length its")
    case True
    then have xs: "xs = its ! (pos + 1) # drop (Suc (pos + 1)) its" using a(5) Cons_nth_drop_Suc [of "pos + 1" its] by simp
    have at: "at_item memn.less st0 d (md_root db) its st' mc dbi (pos + 1)" using g(4) True by simp
    then have "next_items st0 dbi mc (tl xs) st'" using o a(2,3) xs unfolding next_items_def by auto
    then show ?thesis using g(1,3) True o xs by (simp add: cursor_next_def kept_cursor_def)
  next
    case False
    then have "xs = []" using a(5) by simp
    then show ?thesis using g(1,3) False o by (simp add: cursor_next_def kept_cursor_def MDB_NOTFOUND_def MDB_SUCCESS_def)
  qed
qed

lemma prev_moves:
  assumes "prev_items st0 dbi mc xs st"
  shows "\<exists>st'. cursor_previous mc st = Some (case xs of [] \<Rightarrow> None | x # ys \<Rightarrow> Some x, st') \<and> kept_cursor st0 mc st' \<and>
     (xs \<noteq> [] \<longrightarrow> prev_items st0 dbi mc (tl xs) st')"
proof -
  obtain db its d pos where a: "only mc st0 st" "db_open st0 dbi db Cmp_memn" "db_holds memn.less st0 db its"
     "at_gap memn.less st0 d (md_root db) its st mc dbi pos" "pos \<le> length its" "xs = rev (take pos its)" using assms unfolding prev_items_def by blast
  obtain t where t: "get_txn st0 = Some t" "\<not> anyset (mt_flags t) MDB_TXN_ERROR" using open_txn [OF a(2)] by blast
  obtain st' where g: "mdb_cursor_get mc (Some []) True MDB_PREV st = Some (if pos = 0 then (MDB_NOTFOUND, None, None, st')
       else (MDB_SUCCESS, Some (fst (its ! (pos - 1))), Some (snd (its ! (pos - 1))), st'))"
       "only mc st st'" "crs st' mc \<noteq> None" "pos \<noteq> 0 \<longrightarrow> at_item memn.less st0 d (md_root db) its st' mc dbi (pos - 1)"
    using get_prev [OF t a(4)] by blast
  have o: "only mc st0 st'" by (rule only_trans [OF a(1) g(2)])
  show ?thesis
  proof (cases pos)
    case (Suc n)
    then have xs: "xs = its ! n # rev (take n its)" using a(5,6) by (simp add: take_Suc_conv_app_nth)
    have "at_gap memn.less st0 d (md_root db) its st' mc dbi n" using at_item_gap g(4) Suc by simp
    moreover have "n \<le> length its" "tl xs = rev (take n its)" using a(5) xs Suc by simp_all
    ultimately have "prev_items st0 dbi mc (tl xs) st'" using o a(2,3) unfolding prev_items_def by blast
    then show ?thesis using g(1,3) Suc o xs by (simp add: cursor_previous_def kept_cursor_def)
  next
    case 0
    then have "xs = []" using a(6) by simp
    then show ?thesis using g(1,3) 0 o by (simp add: cursor_previous_def kept_cursor_def MDB_NOTFOUND_def MDB_SUCCESS_def)
  qed
qed

text \<open>A bound of \<open>2 ^ 32\<close> bytes or more makes no stream.\<close>

interpretation forward: item_stream "cursor_next mc" "within_upper dbi upper options" "upper_ok options upper"
    "\<lambda>xs st. length upper < 2 ^ 32 \<and> next_items st0 dbi mc xs st" "kept_cursor st0 mc" for mc dbi upper options st0
proof (unfold_locales, goal_cases)
  case (1 xs st) then show ?case using next_moves by auto
next
  case (2 xs st k) then show ?case using within_upper_ok only_same unfolding next_items_def by blast
next
  case (3 xs st x) then show ?case using held_keys in_set_dropD unfolding next_items_def by metis
next
  case (4 xs st) then show ?case using at_item_ready unfolding next_items_def kept_cursor_def by fastforce
qed

interpretation backward: item_stream "cursor_previous mc" "within_lower dbi lower options" "lower_ok options lower"
    "\<lambda>xs st. length lower < 2 ^ 32 \<and> prev_items st0 dbi mc xs st" "kept_cursor st0 mc" for mc dbi lower options st0
proof (unfold_locales, goal_cases)
  case (1 xs st) then show ?case using prev_moves by auto
next
  case (2 xs st k) then show ?case using within_lower_ok only_same unfolding prev_items_def by blast
next
  case (3 xs st x) then show ?case using held_keys in_set_takeD set_rev unfolding prev_items_def by metis
next
  case (4 xs st) then show ?case unfolding prev_items_def kept_cursor_def at_gap_def cursor_path_def by fastforce
qed

section \<open>Positioning\<close>

abbreviation below :: "byte list \<Rightarrow> item list \<Rightarrow> nat" where
  "below \<equiv> first_from lex_less"

text \<open>How many keys are not greater.\<close>

abbreviation upto_key :: "byte list \<Rightarrow> item list \<Rightarrow> nat" where
  "upto_key \<equiv> first_from (\<lambda>a k. \<not> lex_less k a)"

lemma below_memn: "db_holds lt st db its \<Longrightarrow> length key < 2 ^ 32 \<Longrightarrow> first_from memn.less key its = below key its"
  unfolding first_from_def by (intro arg_cong [of _ _ length] takeWhile_cong refl less_memn held_keys)

lemma upto_found:
  assumes srt: "sorted_wrt lex_less (map fst its)" and f: "fst (its ! below key its) = key" "below key its < length its"
  shows "upto_key key its = Suc (below key its)"
proof (rule first_from_eq)
  show "\<forall>j < Suc (below key its). \<not> lex_less key (fst (its ! j))"
    using f(1) nth_length_takeWhile lex_less_asym unfolding first_from_def
    by (metis (no_types, lifting) lex_less_irrefl less_Suc_eq nth_mem set_takeWhileD takeWhile_nth)
  show "Suc (below key its) < length its \<Longrightarrow> \<not> \<not> lex_less key (fst (its ! Suc (below key its)))"
    using sorted_wrt_nth_less [OF srt, of "below key its" "Suc (below key its)"] f by simp
qed (use f in simp)

lemma upto_missing: "key \<notin> fst ` set its \<Longrightarrow> upto_key key its = below key its"
  unfolding first_from_def using lex_less_total lex_less_asym by (intro arg_cong [of _ _ length] takeWhile_cong) force+

lemma position_forward:
  assumes op: "db_open st dbi db Cmp_memn" and h: "db_holds lex_less st db its" and cur: "crs st mc = Some (blank_cursor dbi)"
    and key: "key \<noteq> []" "length key < 2 ^ 32"
  shows "\<exists>st2. positionAt mc key PSKeyValueCursorDirectionForward st =
       Some (if below key its < length its then Some (its ! below key its) else None, st2) \<and> kept_cursor st mc st2 \<and>
     (below key its < length its \<longrightarrow> next_items st dbi mc (drop (Suc (below key its)) its) st2)"
proof -
  have h': "db_holds memn.less st db its" by (rule db_holds_memn [OF h])
  obtain t where t: "get_txn st = Some t" "\<not> anyset (mt_flags t) MDB_TXN_ERROR" using open_txn [OF op] by blast
  define i where "i = below key its"
  have i: "first_from memn.less key its = i" unfolding i_def by (rule below_memn [OF h key(2)])
  obtain st2 where s: "mdb_cursor_set mc key True MDB_SET_RANGE False st = Some (if i < length its
        then (0, Some (fst (its ! i)), Some (snd (its ! i)), st2) else (MDB_NOTFOUND, None, None, st2))" "only mc st st2"
     "\<exists>c. crs st2 mc = Some c \<and> \<not> anyset (mc_flags c) C_DEL"
     "i < length its \<longrightarrow> (\<exists>d. at_item memn.less st d (md_root db) its st2 mc dbi i)"
    using memn_tree.set_range [OF op h' cur _ key(1)] key(2) unfolding i by auto
  obtain c2 where c2: "crs st2 mc = Some c2" "\<not> anyset (mc_flags c2) C_DEL" using s(3) by blast
  have "cursor_get_op mc (Some key) True MDB_SET_RANGE st = mdb_cursor_set mc key True MDB_SET_RANGE False st"
    using cur by (simp add: cursor_get_op_def)
  then have "mdb_cursor_get mc (Some key) True MDB_SET_RANGE st = mdb_cursor_set mc key True MDB_SET_RANGE False st"
    using get_wrap [OF t _ c2, of "Some key" True MDB_SET_RANGE] s(1) by (auto split: if_splits)
  moreover have "kept_cursor st mc st2" using s(2) c2 by (simp add: kept_cursor_def)
  moreover have "i < length its \<longrightarrow> next_items st dbi mc (drop (Suc i) its) st2"
    using s(2,4) op h' unfolding next_items_def by blast
  ultimately show ?thesis using s(1) unfolding i_def [symmetric]
    by (intro exI [of _ st2]) (simp add: positionAt_def MDB_SUCCESS_def MDB_NOTFOUND_def)
qed

lemma position_back:
  assumes op: "db_open st dbi db Cmp_memn" and h: "db_holds lex_less st db its" and ne: "its \<noteq> []" and cur: "crs st mc = Some (blank_cursor dbi)"
    and key: "key \<noteq> []" "length key < 2 ^ 32"
  shows "\<exists>st2. positionAt mc key PSKeyValueCursorDirectionBack st =
       Some (if upto_key key its = 0 then None else Some (its ! (upto_key key its - 1)), st2) \<and> kept_cursor st mc st2 \<and>
     (upto_key key its \<noteq> 0 \<longrightarrow> prev_items st dbi mc (rev (take (upto_key key its - 1) its)) st2)"
proof -
  have h': "db_holds memn.less st db its" by (rule db_holds_memn [OF h])
  have srt: "sorted_wrt lex_less (map fst its)" using h by (simp add: db_holds_def)
  obtain t where t: "get_txn st = Some t" "\<not> anyset (mt_flags t) MDB_TXN_ERROR" using open_txn [OF op] by blast
  define i where "i = below key its"
  have i: "first_from memn.less key its = i" unfolding i_def by (rule below_memn [OF h key(2)])
  obtain st2 d where s: "mdb_cursor_set mc key True MDB_SET_KEY True st = Some (if key \<in> fst ` set its
        then (0, Some (fst (its ! i)), Some (snd (its ! i)), st2) else (MDB_NOTFOUND, None, None, st2))" "only mc st st2"
     "if key \<in> fst ` set its then at_item memn.less st d (md_root db) its st2 mc dbi i \<and> fst (its ! i) = key
      else at_gap memn.less st d (md_root db) its st2 mc dbi i"
    using memn_tree.set_key [OF op h' ne cur _ key(1)] key(2) unfolding i by blast
  have gap: "at_gap memn.less st d (md_root db) its st2 mc dbi i" using s(3) at_item_gap by (auto split: if_splits)
  then obtain c2 where c2: "crs st2 mc = Some c2" "\<not> anyset (mc_flags c2) C_DEL"
    using path_top(3) unfolding at_gap_def flags_ready_def by blast
  have "cursor_get_op mc (Some key) True MDB_SET_KEY st = mdb_cursor_set mc key True MDB_SET_KEY True st"
    using cur by (simp add: cursor_get_op_def)
  then have run: "mdb_cursor_get mc (Some key) True MDB_SET_KEY st = mdb_cursor_set mc key True MDB_SET_KEY True st"
    using get_wrap [OF t _ c2, of "Some key" True MDB_SET_KEY] s(1) by (auto split: if_splits)
  have le: "i \<le> length its" by (simp add: i_def first_from_def length_takeWhile_le)
  show ?thesis
  proof (cases "key \<in> fst ` set its")
    case True
    then have at: "at_item memn.less st d (md_root db) its st2 mc dbi i" "fst (its ! i) = key" using s(3) by auto
    have u: "upto_key key its = Suc i" using upto_found [OF srt] at(2) at_item_less [OF at(1)] unfolding i_def by blast
    have "prev_items st dbi mc (rev (take i its)) st2" using s(2) op h' gap le unfolding prev_items_def by blast
    then show ?thesis using run s(1,2) True c2 u
      by (intro exI [of _ st2]) (simp add: positionAt_def MDB_SUCCESS_def kept_cursor_def)
  next
    case False
    then have u: "upto_key key its = i" unfolding i_def by (rule upto_missing)
    have p: "prev_items st dbi mc (rev (take i its)) st2" using s(2) op h' gap le unfolding prev_items_def by blast
    obtain st3 where m: "cursor_previous mc st2 = Some (case rev (take i its) of [] \<Rightarrow> None | x # ys \<Rightarrow> Some x, st3)" "kept_cursor st mc st3"
      "rev (take i its) \<noteq> [] \<longrightarrow> prev_items st dbi mc (tl (rev (take i its))) st3" using prev_moves [OF p] by blast
    have "rev (take i its) = its ! (i - 1) # rev (take (i - 1) its)" if "i \<noteq> 0"
      using that le by (cases i) (simp_all add: take_Suc_conv_app_nth)
    then show ?thesis using run s(1) False m u
      by (intro exI [of _ st3]) (auto simp: positionAt_def MDB_SUCCESS_def MDB_NOTFOUND_def)
  qed
qed

section \<open>Enumeration\<close>

text \<open>The items between the bounds.\<close>

definition items_between :: "64 word \<Rightarrow> byte list \<Rightarrow> byte list \<Rightarrow> item list \<Rightarrow> item list" where
  "items_between options lower upper its = filter (\<lambda>it. lower_ok options lower (fst it) \<and> upper_ok options upper (fst it)) its"

text \<open>
  The items that the block gets.  Usually these are the items between the bounds; but when there are
  none, and the exclusive bound at which the enumeration starts is itself a key and passes the test of
  the other bound, the item next to it, outside of the bounds, is handed to the block.
\<close>

definition forward_items :: "64 word \<Rightarrow> byte list \<Rightarrow> byte list \<Rightarrow> item list \<Rightarrow> item list" where
  "forward_items options lower upper its =
     (if items_between options lower upper its = [] \<and> anyset options PSKeyValueReaderEnumerationLowerBoundExclusive \<and>
         lower \<in> fst ` set its \<and> upper_ok options upper lower
      then take 1 (filter (\<lambda>it. lex_less lower (fst it)) its)
      else items_between options lower upper its)"

definition backward_items :: "64 word \<Rightarrow> byte list \<Rightarrow> byte list \<Rightarrow> item list \<Rightarrow> item list" where
  "backward_items options lower upper its =
     (if items_between options lower upper its = [] \<and> anyset options PSKeyValueReaderEnumerationUpperBoundExclusive \<and>
         upper \<in> fst ` set its \<and> lower_ok options lower upper
      then take 1 (rev (filter (\<lambda>it. lex_less (fst it) upper) its))
      else rev (items_between options lower upper its))"

text \<open>The first item is not tested, the ones after it are.\<close>

lemma first_unchecked:
  assumes "sorted_wrt R (map fst xs)" and "\<forall>x \<in> set xs. R key (fst x)" and "\<And>a b. R a b \<Longrightarrow> p b \<Longrightarrow> p a"
  shows "(case xs of [] \<Rightarrow> [] | x # ys \<Rightarrow> if p key then x # takeWhile (\<lambda>it. p (fst it)) ys else []) =
    (if takeWhile (\<lambda>it. p (fst it)) xs = [] \<and> p key then take 1 xs else takeWhile (\<lambda>it. p (fst it)) xs)"
proof (cases xs)
  case (Cons x ys)
  have "p key" if "p (fst x)" using assms(2,3) that Cons by auto
  moreover have "takeWhile (\<lambda>it. p (fst it)) ys = []" if "\<not> p (fst x)"
  proof (cases ys)
    case (Cons y zs)
    have "R (fst x) (fst y)" using assms(1) \<open>xs = x # ys\<close> Cons by simp
    then have "\<not> p (fst y)" using assms(3) that by blast
    then show ?thesis using Cons by simp
  qed simp
  ultimately show ?thesis using Cons by auto
qed simp

lemma lex_le_less: "\<not> lex_less b a \<Longrightarrow> lex_less b c \<Longrightarrow> lex_less a c"
  using lex_less_total [of a b] lex_less_trans [of a b c] by auto

lemma lex_less_le: "lex_less a b \<Longrightarrow> \<not> lex_less c b \<Longrightarrow> lex_less a c"
  using lex_less_total [of b c] lex_less_trans [of a b c] by auto

lemma filter_take:
  assumes "\<And>j. j < length xs \<Longrightarrow> p (xs ! j) \<longleftrightarrow> j < m"
  shows "filter p xs = take m xs"
proof -
  have "filter p (take m xs) = take m xs" using assms by (auto simp: filter_id_conv in_set_conv_nth)
  moreover have "filter p (drop m xs) = []" using assms by (auto simp: filter_empty_conv in_set_conv_nth)
  ultimately show ?thesis by (metis append_Nil2 append_take_drop_id filter_append)
qed

lemma filter_drop:
  assumes "\<And>j. j < length xs \<Longrightarrow> p (xs ! j) \<longleftrightarrow> m \<le> j"
  shows "filter p xs = drop m xs"
proof -
  have "filter p (take m xs) = []" using assms by (auto simp: filter_empty_conv in_set_conv_nth)
  moreover have "filter p (drop m xs) = drop m xs" using assms by (auto simp: filter_id_conv in_set_conv_nth)
  ultimately show ?thesis by (metis append_Nil append_take_drop_id filter_append)
qed

lemma takeWhile_down:
  assumes "sorted_wrt R (map fst xs)" and "\<And>a b. R a b \<Longrightarrow> p b \<Longrightarrow> p a"
  shows "takeWhile (\<lambda>it. p (fst it)) xs = filter (\<lambda>it. p (fst it)) xs"
  using assms(1)
proof (induction xs)
  case (Cons x xs)
  show ?case
  proof (cases "p (fst x)")
    case False
    then have "\<forall>y \<in> set xs. \<not> p (fst y)" using Cons.prems assms(2) by fastforce
    then show ?thesis using False by simp
  qed (use Cons in simp)
qed simp

lemma first_from_before: "j < first_from lt key its \<Longrightarrow> lt (fst (its ! j)) key"
  unfolding first_from_def using nth_mem [of j "takeWhile (\<lambda>it. lt (fst it) key) its"] set_takeWhileD takeWhile_nth by fastforce

lemma first_from_stop: "first_from lt key its < length its \<Longrightarrow> \<not> lt (fst (its ! first_from lt key its)) key"
  unfolding first_from_def by (rule nth_length_takeWhile)

lemma first_from_le: "first_from lt key its \<le> length its"
  by (simp add: first_from_def length_takeWhile_le)

lemma upper_ok_down: "lex_less a b \<Longrightarrow> upper_ok options upper b \<Longrightarrow> upper_ok options upper a"
  unfolding upper_ok_def using lex_less_trans by (auto split: if_splits)

lemma upper_takeWhile:
  "sorted_wrt lex_less (map fst xs) \<Longrightarrow> takeWhile (\<lambda>it. upper_ok options upper (fst it)) xs = filter (\<lambda>it. upper_ok options upper (fst it)) xs"
  by (erule takeWhile_down) (rule upper_ok_down)

lemma between_upper: "items_between options lower upper its =
    filter (\<lambda>it. upper_ok options upper (fst it)) (filter (\<lambda>it. lower_ok options lower (fst it)) its)"
  by (simp add: items_between_def)

lemma lower_ok_up: "lex_less b a \<Longrightarrow> lower_ok options lower b \<Longrightarrow> lower_ok options lower a"
  unfolding lower_ok_def using lex_less_trans by (auto split: if_splits)

text \<open>Where the enumeration starts: after the bound itself when it is exclusive.\<close>

lemma filter_lower:
  fixes lower :: "byte list"
  assumes srt: "sorted_wrt lex_less (map fst its)"
  defines "i \<equiv> below lower its"
  shows "filter (\<lambda>it. lower_ok options lower (fst it)) its =
    drop (if i < length its \<and> anyset options PSKeyValueReaderEnumerationLowerBoundExclusive \<and> fst (its ! i) = lower then Suc i else i) its"
    (is "_ = drop ?m its")
proof (rule filter_drop)
  fix j assume j: "j < length its"
  have low: "j < i \<Longrightarrow> lex_less (fst (its ! j)) lower" unfolding i_def by (rule first_from_before)
  have at: "\<not> lex_less (fst (its ! i)) lower" if "i < length its" using that first_from_stop unfolding i_def by blast
  have up: "lex_less lower (fst (its ! j))" if "i < j"
  proof -
    have "lex_less (fst (its ! i)) (fst (its ! j))" using sorted_wrt_nth_less [OF srt, of i j] that j by simp
    moreover have "\<not> lex_less (fst (its ! i)) lower" using at that j by simp
    ultimately show ?thesis by (rule lex_le_less [rotated])
  qed
  consider "j < i" | "j = i" | "i < j" by linarith
  then show "lower_ok options lower (fst (its ! j)) \<longleftrightarrow> ?m \<le> j"
  proof cases
    case 1
    then show ?thesis using low lex_less_asym by (auto simp: lower_ok_def)
  next
    case 2
    then show ?thesis using at j lex_less_total [of lower "fst (its ! i)"] by (auto simp: lower_ok_def)
  next
    case 3
    then show ?thesis using up lex_less_asym by (auto simp: lower_ok_def)
  qed
qed

lemma filter_upper:
  fixes upper :: "byte list"
  assumes srt: "sorted_wrt lex_less (map fst its)"
  defines "n \<equiv> upto_key upper its"
  shows "filter (\<lambda>it. upper_ok options upper (fst it)) its =
    take (if n \<noteq> 0 \<and> anyset options PSKeyValueReaderEnumerationUpperBoundExclusive \<and> fst (its ! (n - 1)) = upper then n - 1 else n) its"
    (is "_ = take ?m its")
proof (rule filter_take)
  fix j assume j: "j < length its"
  have low: "\<not> lex_less upper (fst (its ! i))" if "i < n" for i using that unfolding n_def by (rule first_from_before)
  have le: "n \<le> length its" unfolding n_def by (rule first_from_le)
  have high: "lex_less upper (fst (its ! j))" if "n \<le> j"
  proof -
    have "lex_less upper (fst (its ! n))" using first_from_stop that j le_less_trans unfolding n_def by blast
    then show ?thesis using sorted_wrt_nth_less [OF srt, of n j] that j lex_less_trans by (cases "j = n") auto
  qed
  have low2: "lex_less (fst (its ! j)) upper" if "Suc j < n"
  proof -
    have "lex_less (fst (its ! j)) (fst (its ! (n - 1)))" using sorted_wrt_nth_less [OF srt, of j "n - 1"] that le by simp
    moreover have "\<not> lex_less upper (fst (its ! (n - 1)))" using low that by simp
    ultimately show ?thesis by (rule lex_less_le)
  qed
  consider "Suc j < n" | "n = Suc j" | "n \<le> j" by linarith
  then show "upper_ok options upper (fst (its ! j)) \<longleftrightarrow> j < ?m"
  proof cases
    case 1
    then show ?thesis using low2 lex_less_asym by (auto simp: upper_ok_def)
  next
    case 2
    then show ?thesis using low [of j] lex_less_total [of upper "fst (its ! j)"] by (auto simp: upper_ok_def)
  next
    case 3
    then show ?thesis using high lex_less_asym by (auto simp: upper_ok_def)
  qed
qed

lemma below_found:
  assumes "sorted_wrt lex_less (map fst its)" "key \<in> fst ` set its"
  shows "below key its < length its \<and> fst (its ! below key its) = key"
proof -
  obtain j where j: "j < length its" "fst (its ! j) = key" using assms(2) by (auto simp: in_set_conv_nth)
  have le: "below key its \<le> j"
  proof (rule ccontr)
    assume "\<not> below key its \<le> j"
    then have "lex_less (fst (its ! j)) key" using first_from_before [of j lex_less key its] by simp
    then show False using j(2) lex_less_irrefl by simp
  qed
  then have n: "below key its < length its" using j(1) by simp
  show ?thesis
  proof (cases "below key its = j")
    case False
    then have "lex_less (fst (its ! below key its)) key"
      using sorted_wrt_nth_less [OF assms(1), of "below key its" j] j le by simp
    then show ?thesis using first_from_stop [OF n] by blast
  qed (use j in simp)
qed

text \<open>The block of a reader runs on a cursor of its own, given up at the end.\<close>

lemma with_cursor:
  assumes op: "db_open st dbi db Cmp_memn" and h: "db_holds lex_less st db its" and r: "read_txn st" and m: "mem_of st sizeof_MDB_cursor"
    and blk: "\<And>mc st1. db_open st1 dbi db Cmp_memn \<Longrightarrow> db_holds lex_less st1 db its \<Longrightarrow> crs st1 mc = Some (blank_cursor dbi) \<Longrightarrow>
      \<exists>st2. blk mc b st1 = Some (b', st2) \<and> kept_cursor st1 mc st2"
  shows "\<exists>st'. readWithCursor dbi blk b st = Some (b', st') \<and> same_pages st st' \<and> (\<forall>m. m \<noteq> ncrs st \<longrightarrow> crs st' m = crs st m)"
proof -
  obtain st1 where o: "mdb_cursor_open dbi st = Some (0, Some (ncrs st), st1)" "same_pages st st1"
    "crs st1 (ncrs st) = Some (blank_cursor dbi)" "\<forall>m. m \<noteq> ncrs st \<longrightarrow> crs st1 m = crs st m" using open_reader [OF op r m] by blast
  obtain st2 where b: "blk (ncrs st) b st1 = Some (b', st2)" "kept_cursor st1 (ncrs st) st2"
    using blk [OF db_open_same [OF o(2) op] db_holds_same [OF h o(2)] o(3)] by blast
  have s2: "same_pages st st2" "only (ncrs st) st1 st2" using same_pages_trans [OF o(2) only_same] b(2) by (auto simp: kept_cursor_def)
  have "mdb_cursor_close (ncrs st) st2 = Some (drop_cursor (ncrs st) st2)"
    using close_reader [OF r s2(1)] b(2) by (auto simp: kept_cursor_def)
  moreover have "same_pages st (drop_cursor (ncrs st) st2)" using s2(1) by (simp add: same_pages_def drop_cursor_def)
  moreover have "\<forall>m. m \<noteq> ncrs st \<longrightarrow> crs (drop_cursor (ncrs st) st2) m = crs st m" using o(4) s2(2) by (simp add: only_def drop_cursor_def)
  ultimately show ?thesis using o(1) b(1) by (simp add: readWithCursor_def MDB_SUCCESS_def)
qed

lemma skip_bound:
  assumes "db_open st dbi db Cmp_memn" "same_pages st st1" "length a < 2 ^ 32" "length b < 2 ^ 32"
  shows "map_option (\<lambda>c. c = 0) (mdb_cmp dbi a b st1) = Some (a = b)"
proof -
  obtain c where c: "mdb_cmp dbi a b st1 = Some c" "c < 0 \<longleftrightarrow> lex_less a b" "c > 0 \<longleftrightarrow> lex_less b a" using mdb_cmp_open [OF assms] by blast
  have "c = 0 \<longleftrightarrow> a = b" using c(2,3) lex_less_total [of a b] lex_less_irrefl by (metis linorder_neqE_linordered_idom less_irrefl)
  then show ?thesis using c(1) by simp
qed

lemma run_forward:
  assumes op: "db_open st dbi db Cmp_memn" and h: "db_holds lex_less st db its" and cur: "crs st mc = Some (blank_cursor dbi)"
    and lower: "lower \<noteq> []" "length lower < 2 ^ 32" and upper: "length upper < 2 ^ 32"
  shows "\<exists>st2. enumerateForward dbi lower upper options (pure_block f) mc b st = Some (run_block f (forward_items options lower upper its) b, st2) \<and>
     kept_cursor st mc st2"
proof -
  define i where "i = below lower its"
  define ex where "ex = anyset options PSKeyValueReaderEnumerationLowerBoundExclusive"
  have srt: "sorted_wrt lex_less (map fst its)" using h by (simp add: db_holds_def)
  have e: "items_between options lower upper its = takeWhile (\<lambda>it. upper_ok options upper (fst it))
      (drop (if i < length its \<and> ex \<and> fst (its ! i) = lower then Suc i else i) its)" (is "_ = takeWhile _ (drop ?m its)")
  proof -
    have "sorted_wrt lex_less (map fst (drop ?m its))" unfolding drop_map [symmetric] using srt by (rule sorted_wrt_drop)
    then show ?thesis by (simp only: between_upper upper_takeWhile filter_lower [OF srt] ex_def i_def)
  qed
  have found: "i < length its \<and> fst (its ! i) = lower" if "lower \<in> fst ` set its" using below_found [OF srt that] by (simp add: i_def)
  obtain st2 where s: "positionAt mc lower PSKeyValueCursorDirectionForward st = Some (if i < length its then Some (its ! i) else None, st2)"
     "kept_cursor st mc st2" "i < length its \<longrightarrow> next_items st dbi mc (drop (Suc i) its) st2"
    using position_forward [OF op h cur lower] unfolding i_def by blast
  show ?thesis
  proof (cases "i < length its")
    case False
    then have "forward_items options lower upper its = []" using found e by (auto simp: forward_items_def)
    then show ?thesis using s False by (simp add: enumerateForward_def)
  next
    case True
    then have n: "next_items st dbi mc (drop (Suc i) its) st2" using s(3) by simp
    obtain k v where kv: "its ! i = (k, v)" by (cases "its ! i")
    have k: "length k < 2 ^ 32" using held_keys [OF h nth_mem [OF True]] kv by simp
    have d: "drop i its = (k, v) # drop (Suc i) its" using Cons_nth_drop_Suc [OF True] kv by simp
    have sk: "map_option (\<lambda>c. c = 0) (mdb_cmp dbi lower k st2) = Some (lower = k)"
      by (rule skip_bound [OF op only_same [of mc] lower(2) k]) (use s(2) in \<open>simp add: kept_cursor_def\<close>)
    show ?thesis
    proof (cases "ex \<and> lower = k")
      case False
      have "forward_items options lower upper its = items_between options lower upper its"
        using found False kv by (auto simp: forward_items_def ex_def)
      then have v: "forward_items options lower upper its = (if upper_ok options upper k
          then its ! i # takeWhile (\<lambda>it. upper_ok options upper (fst it)) (drop (Suc i) its) else [])" using e False kv d True by auto
      have "\<exists>st'. enumerate_from (cursor_next mc) (within_upper dbi upper options) (pure_block f) k (Some (its ! i)) b st2 =
          Some (run_block f (forward_items options lower upper its) b, st') \<and> kept_cursor st mc st'"
        unfolding v by (rule forward.from_item) (use n upper k in simp_all)
      then show ?thesis using s(1) True False sk kv by (auto simp: enumerateForward_def ex_def)
    next
      case skip: True
      obtain st3 where m: "cursor_next mc st2 = Some (case drop (Suc i) its of [] \<Rightarrow> None | x # ys \<Rightarrow> Some x, st3)" "kept_cursor st mc st3"
        "drop (Suc i) its \<noteq> [] \<longrightarrow> next_items st dbi mc (tl (drop (Suc i) its)) st3" using next_moves [OF n] by blast
      have lows: "filter (\<lambda>it. lex_less lower (fst it)) its = drop (Suc i) its"
        using filter_lower [OF srt, of options lower] skip True kv unfolding lower_ok_def ex_def i_def by simp
      have "forward_items options lower upper its = (case drop (Suc i) its of [] \<Rightarrow> [] | x # ys \<Rightarrow>
          if upper_ok options upper k then x # takeWhile (\<lambda>it. upper_ok options upper (fst it)) ys else [])"
      proof (subst first_unchecked [where R = lex_less and p = "upper_ok options upper"])
        show "sorted_wrt lex_less (map fst (drop (Suc i) its))" unfolding drop_map [symmetric] using srt by (rule sorted_wrt_drop)
        show "\<forall>x \<in> set (drop (Suc i) its). lex_less k (fst x)" unfolding lows [symmetric] using skip by simp
        have "k \<in> fst ` set its" using nth_mem [OF True] kv by force
        then show "forward_items options lower upper its =
          (if takeWhile (\<lambda>it. upper_ok options upper (fst it)) (drop (Suc i) its) = [] \<and> upper_ok options upper k then take 1 (drop (Suc i) its)
           else takeWhile (\<lambda>it. upper_ok options upper (fst it)) (drop (Suc i) its))"
          using e skip True kv lows by (simp add: forward_items_def ex_def)
      qed (rule upper_ok_down)
      then have "\<exists>st'. enumerate_from (cursor_next mc) (within_upper dbi upper options) (pure_block f) k
            (case drop (Suc i) its of [] \<Rightarrow> None | x # ys \<Rightarrow> Some x) b st3 =
          Some (run_block f (forward_items options lower upper its) b, st') \<and> kept_cursor st mc st'"
        using forward.from_item [of upper st dbi mc _ st3 k options f] m(2,3) upper k
        by (cases "drop (Suc i) its") (simp_all add: enumerate_from_def)
      then show ?thesis using s(1) True skip sk kv m(1) by (auto simp: enumerateForward_def ex_def)
    qed
  qed
qed

lemma lower_takeWhile:
  "sorted_wrt lex_less (map fst xs) \<Longrightarrow>
   takeWhile (\<lambda>it. lower_ok options lower (fst it)) (rev xs) = filter (\<lambda>it. lower_ok options lower (fst it)) (rev xs)"
  using takeWhile_down [of "\<lambda>a b. lex_less b a" "rev xs", OF _ lower_ok_up] by (simp flip: rev_map add: sorted_wrt_rev)

lemma rev_between: "rev (items_between options lower upper its) =
    filter (\<lambda>it. lower_ok options lower (fst it)) (rev (filter (\<lambda>it. upper_ok options upper (fst it)) its))"
  by (simp add: items_between_def rev_filter conj_commute)

lemma run_backward:
  assumes op: "db_open st dbi db Cmp_memn" and h: "db_holds lex_less st db its" and ne: "its \<noteq> []" and cur: "crs st mc = Some (blank_cursor dbi)"
    and upper: "upper \<noteq> []" "length upper < 2 ^ 32" and lower: "length lower < 2 ^ 32"
  shows "\<exists>st2. enumerateReverse dbi lower upper options (pure_block f) mc b st = Some (run_block f (backward_items options lower upper its) b, st2) \<and>
     kept_cursor st mc st2"
proof -
  define n where "n = upto_key upper its"
  define ex where "ex = anyset options PSKeyValueReaderEnumerationUpperBoundExclusive"
  have srt: "sorted_wrt lex_less (map fst its)" using h by (simp add: db_holds_def)
  have e: "rev (items_between options lower upper its) = takeWhile (\<lambda>it. lower_ok options lower (fst it))
      (rev (take (if n \<noteq> 0 \<and> ex \<and> fst (its ! (n - 1)) = upper then n - 1 else n) its))" (is "_ = takeWhile _ (rev (take ?m its))")
  proof -
    have "sorted_wrt lex_less (map fst (take ?m its))" unfolding take_map [symmetric] using srt by (rule sorted_wrt_take)
    then show ?thesis by (simp only: rev_between lower_takeWhile filter_upper [OF srt] ex_def n_def)
  qed
  have found: "n \<noteq> 0 \<and> fst (its ! (n - 1)) = upper" if "upper \<in> fst ` set its"
    using below_found [OF srt that] upto_found [OF srt] by (simp add: n_def)
  obtain st2 where s: "positionAt mc upper PSKeyValueCursorDirectionBack st = Some (if n = 0 then None else Some (its ! (n - 1)), st2)"
     "kept_cursor st mc st2" "n \<noteq> 0 \<longrightarrow> prev_items st dbi mc (rev (take (n - 1) its)) st2"
    using position_back [OF op h ne cur upper] unfolding n_def by blast
  show ?thesis
  proof (cases n)
    case 0
    then have "backward_items options lower upper its = []" using found e by (auto simp: backward_items_def)
    then show ?thesis using s 0 by (simp add: enumerateReverse_def)
  next
    case (Suc i)
    have le: "i < length its" using first_from_le [of _ upper its] Suc unfolding n_def by (metis Suc_le_lessD)
    have p: "prev_items st dbi mc (rev (take i its)) st2" using s(3) Suc by simp
    obtain k v where kv: "its ! i = (k, v)" by (cases "its ! i")
    have k: "length k < 2 ^ 32" using held_keys [OF h nth_mem [OF le]] kv by simp
    have d: "rev (take n its) = (k, v) # rev (take i its)" using le kv Suc by (simp add: take_Suc_conv_app_nth)
    have sk: "map_option (\<lambda>c. c = 0) (mdb_cmp dbi upper k st2) = Some (upper = k)"
      by (rule skip_bound [OF op only_same [of mc] upper(2) k]) (use s(2) in \<open>simp add: kept_cursor_def\<close>)
    show ?thesis
    proof (cases "ex \<and> upper = k")
      case False
      have "backward_items options lower upper its = rev (items_between options lower upper its)"
        using found False kv Suc by (auto simp: backward_items_def ex_def)
      then have v: "backward_items options lower upper its = (if lower_ok options lower k
          then its ! i # takeWhile (\<lambda>it. lower_ok options lower (fst it)) (rev (take i its)) else [])" using e False kv d Suc by auto
      have "\<exists>st'. enumerate_from (cursor_previous mc) (within_lower dbi lower options) (pure_block f) k (Some (its ! i)) b st2 =
          Some (run_block f (backward_items options lower upper its) b, st') \<and> kept_cursor st mc st'"
        unfolding v by (rule backward.from_item) (use p lower k in simp_all)
      then show ?thesis using s(1) False sk kv Suc by (auto simp: enumerateReverse_def ex_def)
    next
      case skip: True
      obtain st3 where m: "cursor_previous mc st2 = Some (case rev (take i its) of [] \<Rightarrow> None | x # ys \<Rightarrow> Some x, st3)" "kept_cursor st mc st3"
        "rev (take i its) \<noteq> [] \<longrightarrow> prev_items st dbi mc (tl (rev (take i its))) st3" using prev_moves [OF p] by blast
      have ups: "filter (\<lambda>it. lex_less (fst it) upper) its = take i its"
        using filter_upper [OF srt, of options upper] skip Suc kv unfolding upper_ok_def ex_def n_def by simp
      have "backward_items options lower upper its = (case rev (take i its) of [] \<Rightarrow> [] | x # ys \<Rightarrow>
          if lower_ok options lower k then x # takeWhile (\<lambda>it. lower_ok options lower (fst it)) ys else [])"
      proof (subst first_unchecked [where R = "\<lambda>a b. lex_less b a" and p = "lower_ok options lower"])
        have "sorted_wrt lex_less (map fst (take i its))" unfolding take_map [symmetric] using srt by (rule sorted_wrt_take)
        then show "sorted_wrt (\<lambda>a b. lex_less b a) (map fst (rev (take i its)))" by (simp flip: rev_map add: sorted_wrt_rev)
        show "\<forall>x \<in> set (rev (take i its)). lex_less (fst x) k" unfolding ups [symmetric] using skip by simp
        have "k \<in> fst ` set its" using nth_mem [OF le] kv by force
        then show "backward_items options lower upper its =
          (if takeWhile (\<lambda>it. lower_ok options lower (fst it)) (rev (take i its)) = [] \<and> lower_ok options lower k then take 1 (rev (take i its))
           else takeWhile (\<lambda>it. lower_ok options lower (fst it)) (rev (take i its)))"
          using e skip Suc kv ups rev_is_Nil_conv [of "items_between options lower upper its"]
          by (simp add: backward_items_def ex_def del: rev_is_Nil_conv)
      qed (rule lower_ok_up)
      note v = this
      have "\<exists>st'. enumerate_from (cursor_previous mc) (within_lower dbi lower options) (pure_block f) k
            (case rev (take i its) of [] \<Rightarrow> None | x # ys \<Rightarrow> Some x) b st3 =
          Some (run_block f (backward_items options lower upper its) b, st') \<and> kept_cursor st mc st'"
      proof (cases "rev (take i its)")
        case Nil
        then show ?thesis using m(2) v by (simp only: list.case) (simp add: enumerate_from_def)
      next
        case (Cons x xs)
        then have "length lower < 2 ^ 32 \<and> prev_items st dbi mc xs st3" using m(3) lower by simp
        then show ?thesis using backward.from_item [of lower st dbi mc xs st3 k options f x b] v k Cons by (simp only: list.case)
      qed
      then show ?thesis using s(1) skip sk kv m(1) Suc by (auto simp: enumerateReverse_def ex_def)
    qed
  qed
qed

section \<open>The properties\<close>

text \<open>
  C6: \<open>enumerateKeysAndValuesBetweenLowerBoundKey:upperBoundKey:options:withBlock:\<close>, in a read transaction
  whose table holds the items \<open>its\<close> in a search tree, hands the block the items between the bounds,
  each bound in or out by its option, in the order of the keys, or for
  \<open>PSKeyValueReaderEnumerationReverse\<close> in the reverse order, until the block stops.  With one exception
  (\<open>forward_items\<close>, \<open>backward_items\<close>): when no item is between the bounds, and the exclusive bound at
  which it starts is a key of the table within the other bound, the block gets the item next to that
  key, though it is outside of the bounds.  The method returns, no page changes, and the cursor is given
  up.
\<close>

theorem enumeration_visits_range:
  assumes "db_open st dbi db Cmp_memn" and "db_holds lex_less st db its" and "its \<noteq> []" and "read_txn st" and "mem_of st sizeof_MDB_cursor"
    and "lower \<noteq> []" and "length lower < 2 ^ 32" and "upper \<noteq> []" and "length upper < 2 ^ 32"
  shows "\<exists>st'. enumerateKeysAndValues dbi (Some lower) (Some upper) options (pure_block f) b st =
      Some (run_block f (if anyset options PSKeyValueReaderEnumerationReverse then backward_items options lower upper its
                         else forward_items options lower upper its) b, st') \<and>
    same_pages st st' \<and> (\<forall>m. m \<noteq> ncrs st \<longrightarrow> crs st' m = crs st m)"
proof (cases "anyset options PSKeyValueReaderEnumerationReverse")
  case True
  then show ?thesis by (simp add: enumerateKeysAndValues_def)
      (rule with_cursor [OF assms(1,2,4,5)], rule run_backward [OF _ _ assms(3) _ assms(8,9,7)])
next
  case False
  then show ?thesis by (simp add: enumerateKeysAndValues_def)
      (rule with_cursor [OF assms(1,2,4,5)], rule run_forward [OF _ _ _ assms(6,7,9)])
qed

lemma tree_read_txn: "read_txn tree_st" and tree_mem: "mem_of tree_st n"
  by (simp_all add: read_txn_def tree_st_def get_txn_def sample_txn_def F_ISSET_def mem_of_def sample_st_def)

text \<open>A block that collects the items and never stops.\<close>

definition collect :: "byte list \<Rightarrow> byte list \<Rightarrow> item list \<Rightarrow> item list \<times> bool" where
  "collect k v b = (b @ [(k, v)], False)"

lemma run_collect: "run_block collect its b = b @ its"
  by (induction its arbitrary: b rule: list.induct) (auto simp: collect_def split_paired_all)

lemma enumeration_visits_range_witness:
  "\<exists>st'. enumerateKeysAndValues MAIN_DBI (Some [2]) (Some [4]) (PSKeyValueReaderEnumerationReverse OR PSKeyValueReaderEnumerationUpperBoundExclusive)
      (pure_block collect) [] tree_st = Some ([([3], [30]), ([2], [20])], st')"
  using enumeration_visits_range [OF tree_open tree_holds _ tree_read_txn tree_mem, of "[2]" "[4]"
      "PSKeyValueReaderEnumerationReverse OR PSKeyValueReaderEnumerationUpperBoundExclusive" collect "[]"]
  by (auto simp: collect_def backward_items_def items_between_def lower_ok_def upper_ok_def anyset_def PSKeyValueReaderEnumerationReverse_def
      PSKeyValueReaderEnumerationLowerBoundExclusive_def PSKeyValueReaderEnumerationUpperBoundExclusive_def)

text \<open>
  The exception at work on a table with the keys 1 to 4: asked for the keys after 2 up to 2, 5, which
  are none, the enumeration hands the block the key 3.
\<close>

lemma exclusive_bound_overshoots:
  "\<exists>st'. enumerateKeysAndValues MAIN_DBI (Some [2]) (Some [2, 5]) PSKeyValueReaderEnumerationLowerBoundExclusive
      (pure_block collect) [] tree_st = Some ([([3], [30])], st')"
proof -
  have "\<exists>st'. readWithCursor MAIN_DBI (enumerateForward MAIN_DBI [2] [2, 5] PSKeyValueReaderEnumerationLowerBoundExclusive (pure_block collect)) []
      tree_st = Some (run_block collect (forward_items PSKeyValueReaderEnumerationLowerBoundExclusive [2] [2, 5]
         [([1], [10]), ([2], [20]), ([3], [30]), ([4], [40])]) [], st') \<and>
      same_pages tree_st st' \<and> (\<forall>m. m \<noteq> ncrs tree_st \<longrightarrow> crs st' m = crs tree_st m)"
    by (rule with_cursor [OF tree_open tree_holds tree_read_txn tree_mem]) (rule run_forward, simp_all)
  then show ?thesis
    by (auto simp: enumerateKeysAndValues_def collect_def forward_items_def items_between_def lower_ok_def upper_ok_def anyset_def
      PSKeyValueReaderEnumerationReverse_def PSKeyValueReaderEnumerationLowerBoundExclusive_def PSKeyValueReaderEnumerationUpperBoundExclusive_def)
qed

lemma run_select: "run_block (\<lambda>k v selected. (Some (k, v), True)) its b = (case its of [] \<Rightarrow> b | it # _ \<Rightarrow> Some it)"
  by (cases its) auto

lemma sorted_last:
  assumes "sorted_wrt (\<lambda>x y. lex_less (fst x) (fst y)) ys" "rev ys = x # xs" "y \<in> set ys"
  shows "\<not> lex_less (fst x) (fst y)"
proof -
  have "ys = rev xs @ [x]" using assms(2) by (metis rev_rev_ident rev.simps(2))
  then have "y = x \<or> lex_less (fst y) (fst x)" using assms(1,3) by (auto simp: sorted_wrt_append)
  then show ?thesis using lex_less_asym by auto
qed

lemma sorted_first: "sorted_wrt (\<lambda>x y. lex_less (fst x) (fst y)) ys \<Longrightarrow> ys = x # xs \<Longrightarrow> y \<in> set ys \<Longrightarrow> \<not> lex_less (fst y) (fst x)"
  using lex_less_asym by fastforce

lemma option_zero: "\<not> anyset 0 f"
  by (simp add: anyset_def)

lemma reverse_only: "anyset PSKeyValueReaderEnumerationReverse PSKeyValueReaderEnumerationReverse"
  "\<not> anyset PSKeyValueReaderEnumerationReverse PSKeyValueReaderEnumerationLowerBoundExclusive"
  "\<not> anyset PSKeyValueReaderEnumerationReverse PSKeyValueReaderEnumerationUpperBoundExclusive"
  by (simp_all add: anyset_def PSKeyValueReaderEnumerationReverse_def PSKeyValueReaderEnumerationLowerBoundExclusive_def
      PSKeyValueReaderEnumerationUpperBoundExclusive_def)

lemma select_block: "(\<lambda>key value selected st. Some (Some (key, value), True, st)) = pure_block (\<lambda>k v selected. (Some (k, v), True))"
  by (simp add: fun_eq_iff pure_block_def)

lemma run_between:
  assumes op: "db_open st dbi db Cmp_memn" and h: "db_holds lex_less st db its" and ne: "its \<noteq> []" and r: "read_txn st" and m: "mem_of st sizeof_MDB_cursor"
    and lower: "lower \<noteq> []" "length lower < 2 ^ 32" and upper: "upper \<noteq> []" "length upper < 2 ^ 32"
  shows "\<exists>st'. readValueBetween dbi (Some lower) (Some upper) selectKey st =
      Some (case (if selectKey = PSKeyValueReaderSelectHigherKey then rev else id) (filter (\<lambda>it. \<not> lex_less (fst it) lower \<and> \<not> lex_less upper (fst it)) its) of
          [] \<Rightarrow> None | it # _ \<Rightarrow> Some it, st') \<and> same_pages st st'"
proof -
  let ?sel = "\<lambda>k v selected :: item option. (Some (k, v), True)"
  have "\<exists>st'. readWithCursor dbi (enumerateReverse dbi lower upper PSKeyValueReaderEnumerationReverse (pure_block ?sel)) None st =
      Some (run_block ?sel (backward_items PSKeyValueReaderEnumerationReverse lower upper its) None, st') \<and> same_pages st st' \<and>
      (\<forall>m. m \<noteq> ncrs st \<longrightarrow> crs st' m = crs st m)"
    by (rule with_cursor [OF op h r m]) (rule run_backward [OF _ _ ne _ upper lower(2)])
  moreover have "\<exists>st'. readWithCursor dbi (enumerateForward dbi lower upper 0 (pure_block ?sel)) None st =
      Some (run_block ?sel (forward_items 0 lower upper its) None, st') \<and> same_pages st st' \<and> (\<forall>m. m \<noteq> ncrs st \<longrightarrow> crs st' m = crs st m)"
    by (rule with_cursor [OF op h r m]) (rule run_forward [OF _ _ _ lower upper(2)])
  ultimately show ?thesis
    unfolding readValueBetween_def select_block run_select forward_items_def backward_items_def items_between_def lower_ok_def upper_ok_def
    by (auto simp: enumerateKeysAndValues_def option_zero reverse_only)
qed

text \<open>
  C7: \<open>readValueBetweenLowerBoundKey:upperBoundKey:selectKey:selectedKey:selectedValue:\<close> selects the item
  with the smallest key between the bounds, or with \<open>PSKeyValueReaderSelectHigherKey\<close> the one with the
  greatest, both bounds included, and reports when there is none.
\<close>

theorem read_between_selects_extreme:
  assumes "db_open st dbi db Cmp_memn" and "db_holds lex_less st db its" and "its \<noteq> []" and "read_txn st" and "mem_of st sizeof_MDB_cursor"
    and "lower \<noteq> []" and "length lower < 2 ^ 32" and "upper \<noteq> []" and "length upper < 2 ^ 32"
  shows "\<exists>selected st'. readValueBetween dbi (Some lower) (Some upper) selectKey st = Some (selected, st') \<and> same_pages st st' \<and>
    (case selected of
       None \<Rightarrow> \<forall>it \<in> set its. lex_less (fst it) lower \<or> lex_less upper (fst it)
     | Some (k, v) \<Rightarrow> (k, v) \<in> set its \<and> \<not> lex_less k lower \<and> \<not> lex_less upper k \<and>
         (\<forall>it \<in> set its. \<not> lex_less (fst it) lower \<and> \<not> lex_less upper (fst it) \<longrightarrow>
            (if selectKey = PSKeyValueReaderSelectHigherKey then \<not> lex_less k (fst it) else \<not> lex_less (fst it) k)))"
proof -
  let ?in = "filter (\<lambda>it. \<not> lex_less (fst it) lower \<and> \<not> lex_less upper (fst it)) its"
  define sel where "sel = (if selectKey = PSKeyValueReaderSelectHigherKey then rev else id) ?in"
  obtain st' where r: "readValueBetween dbi (Some lower) (Some upper) selectKey st = Some (case sel of [] \<Rightarrow> None | it # _ \<Rightarrow> Some it, st')" "same_pages st st'"
    using run_between [OF assms] unfolding sel_def by blast
  have sel: "set sel = set ?in" by (simp add: sel_def)
  have srt: "sorted_wrt (\<lambda>x y. lex_less (fst x) (fst y)) ?in" using assms(2) by (simp add: db_holds_def sorted_wrt_map sorted_wrt_filter)
  note last = sorted_last [OF srt] and first = sorted_first [OF srt]
  have mem: "x \<in> set its \<and> \<not> lex_less (fst x) lower \<and> \<not> lex_less upper (fst x)" if "x \<in> set ?in" for x using that by simp
  show ?thesis
  proof (cases sel)
    case Nil
    then have "set ?in = {}" using sel by (metis list.set(1))
    have none: "lex_less (fst y) lower \<or> lex_less upper (fst y)" if "y \<in> set its" for y
    proof -
      have "y \<notin> set ?in" using \<open>set ?in = {}\<close> by (metis empty_iff)
      then show ?thesis using that by simp
    qed
    then show ?thesis using r Nil none by (intro exI [of _ None] exI [of _ st']) simp
  next
    case (Cons x xs)
    obtain k v where x: "x = (k, v)" by (cases x)
    have "x \<in> set ?in" unfolding sel [symmetric] Cons by simp
    then have m: "(k, v) \<in> set its" "\<not> lex_less k lower" "\<not> lex_less upper k" using mem [of x] x by simp_all
    have ex: "if selectKey = PSKeyValueReaderSelectHigherKey then \<not> lex_less k (fst y) else \<not> lex_less (fst y) k" if "y \<in> set ?in" for y
    proof (cases "selectKey = PSKeyValueReaderSelectHigherKey")
      case True
      then have "rev ?in = x # xs" using Cons by (simp add: sel_def)
      then show ?thesis using last [OF _ that] True x by simp
    next
      case False
      then have "?in = x # xs" using Cons by (simp add: sel_def)
      then show ?thesis using first [OF _ that] False x by simp
    qed
    have "\<forall>y \<in> set its. \<not> lex_less (fst y) lower \<and> \<not> lex_less upper (fst y) \<longrightarrow>
        (if selectKey = PSKeyValueReaderSelectHigherKey then \<not> lex_less k (fst y) else \<not> lex_less (fst y) k)" using ex by simp
    then show ?thesis using r Cons m x by (intro exI [of _ "Some x"] exI [of _ st']) simp
  qed
qed

lemma read_between_selects_extreme_witness:
  "\<exists>st'. readValueBetween MAIN_DBI (Some [1]) (Some [3]) PSKeyValueReaderSelectHigherKey tree_st = Some (Some ([3], [30]), st')"
proof -
  define its :: "item list" where "its = [([1], [10]), ([2], [20]), ([3], [30]), ([4], [40])]"
  have h: "db_holds lex_less tree_st tree_db its" "its \<noteq> []" using tree_holds by (simp_all add: its_def)
  obtain selected st' where s: "readValueBetween MAIN_DBI (Some [1]) (Some [3]) PSKeyValueReaderSelectHigherKey tree_st = Some (selected, st')"
    "case selected of None \<Rightarrow> \<forall>it \<in> set its. lex_less (fst it) [1] \<or> lex_less [3] (fst it)
     | Some (k, v) \<Rightarrow> (k, v) \<in> set its \<and> \<not> lex_less k [1] \<and> \<not> lex_less [3] k \<and>
         (\<forall>it \<in> set its. \<not> lex_less (fst it) [1] \<and> \<not> lex_less [3] (fst it) \<longrightarrow>
            (if PSKeyValueReaderSelectHigherKey = PSKeyValueReaderSelectHigherKey then \<not> lex_less k (fst it) else \<not> lex_less (fst it) k))"
    using read_between_selects_extreme [OF tree_open h tree_read_txn tree_mem, of "[1]" "[3]" PSKeyValueReaderSelectHigherKey] by auto
  from s(2) have "selected = Some ([3], [30])" by (auto simp: its_def split: option.splits)
  then show ?thesis using s(1) by simp
qed



section \<open>A table without a transaction\<close>

text \<open>
  When \<open>mdb_txn_begin\<close> fails, for instance when the map cannot grow or no memory is left,
  \<open>_createTableWithName:\<close> logs the code and goes on with the null transaction: no result, the call of
  \<open>mdb_dbi_open\<close> reads through a null pointer.
\<close>

lemma create_table_without_transaction:
  assumes "mdb_txn_begin None 0 st = Some (rc, st')" "txns st' = []"
  shows "createTableWithName name st = None"
proof -
  have "get_txn st1 = None" if "ensure_cmp FREE_DBI st' = Some st1" for st1
    using that assms(2) by (auto simp: ensure_cmp_def mdb_default_cmp_def get_txn_def upd_env_def get_db_def split: Option.bind_splits option.splits if_splits)
  then have "mdb_dbi_open (Some name) MDB_CREATE st' = None"
    by (cases "ensure_cmp FREE_DBI st'") (auto simp: mdb_dbi_open_def)
  then show ?thesis using assms(1) by (simp add: createTableWithName_def)
qed

end
