(* ===== verification/Spec2Isabelle.thy ===== *)
theory Spec2Isabelle
  imports Lmdb_Midl_Sort_Facts Lmdb_Bytes_Facts Lmdb_Page_Facts Lmdb_Meta_Facts Lmdb_Item_Facts
    Lmdb_Reader_Facts Lmdb_Env Kv_Objects_Facts Kv_Store_Facts
begin

text \<open>
  A verification development of the storage of the application: LMDB, the memory-mapped transactional
  key-value store in \<open>LegacyDatabase/\<close> (\<open>mdb.c\<close>, \<open>midl.c\<close> and their headers); the store of the
  application on it (\<open>PSLMDBKeyValueStore.m\<close>, \<open>PSLMDBKeyValueReaderWriter.m\<close>, \<open>PSLMDBKeyValueCursor.m\<close>);
  and the records in which objects are stored (\<open>PSKeyValueEncoder.m\<close>, \<open>PSKeyValueDecoder.m\<close>).

  \<^bold>\<open>The program.\<close>  A database file is an array of pages.  Pages 0 and 1 are the meta pages: each
  holds a transaction number and the roots of two B+ trees, the free-list database (which pages each
  transaction freed) and the main database.  A writer never changes a page that a committed tree
  uses: it copies every page it touches (\<open>mdb_page_touch\<close>), keeps the copies in memory (the dirty list)
  and at commit writes them and then the older of the two meta pages, which makes the new trees the
  committed ones.  A reader takes the newer meta page and puts its number in the reader table; the
  writer reuses only pages that were freed before the oldest number in the table.

  \<^bold>\<open>The state.\<close>  \<open>st\<close> (\<open>Lmdb_Types\<close>) holds what the C code keeps in memory and in the file: \<open>env\<close> is
  \<open>struct MDB_env\<close> with the file \<open>me_map\<close>, the meta pages and the lock table; \<open>txns\<close> is the running
  transaction with its ancestors; \<open>crs\<close> maps the addresses of cursors to them, because the code
  changes cursors through the transaction's lists; \<open>heap\<close> maps the addresses of allocated pages to
  them.  A page pointer (\<open>page_ref\<close>) is null, a page of the map or a heap page.  The results of
  \<open>malloc\<close> and of system calls come from the oracles \<open>malloc_ok\<close>, \<open>io_rc\<close> and \<open>io_part\<close>, indexed by the
  number of the call, so every failure is a case of every theorem that does not exclude it.  An
  operation takes the state and gives the return code of the C function with the new state, or \<open>None\<close>
  for a failed \<open>mdb_cassert\<close> or what C leaves undefined (an access outside of an array, a null pointer).
  A theorem that a result is \<open>Some\<close> therefore excludes those.

  \<^bold>\<open>The store and the records.\<close>  A store has one table, a named database; a block given to it runs in a
  transaction, with a reader or writer that looks up, stores, deletes and enumerates items through
  the calls of LMDB.  An object is stored as a record: fields of a key, a type byte and a value, where
  an object or an array of objects is again a sequence of bytes with records inside.  The decoder
  looks a key up from its current position on and then from the start, so that the fields can be asked
  for in any order; it works on a buffer (\<open>kd_mem\<close>) by offsets.  A string is the list of its UTF-8 bytes.

  \<^bold>\<open>The theories and the code.\<close>
  \<^item> \<open>Lmdb_Prelude\<close>: integer types, checked array access (\<open>rd\<close>, \<open>wr\<close>), lists with insertion and removal.
  \<^item> \<open>Lmdb_Midl\<close>, \<open>Lmdb_Midl_Sort\<close>: \<open>midl.c\<close>, the ID lists (\<open>MDB_IDL\<close>, descending, with the length in
    cell 0) and the tables of dirty pages (\<open>MDB_ID2L\<close>, ascending).
  \<^item> \<open>Lmdb_Types\<close>: the structures, flags and return codes of \<open>mdb.c\<close> and \<open>lmdb.h\<close>.
  \<^item> \<open>Lmdb_Bytes\<close>: stored integers, database records and page lists as bytes; the comparators
    \<open>mdb_cmp_memn\<close>, \<open>mdb_cmp_memnr\<close>, \<open>mdb_cmp_int\<close>, \<open>mdb_cmp_cint\<close>, \<open>mdb_cmp_long\<close>.
  \<^item> \<open>Lmdb_Page\<close>: one page: node and page macros, \<open>mdb_node_search\<close>, the stores of \<open>mdb_node_add\<close>,
    \<open>mdb_node_del\<close>, \<open>mdb_update_key\<close>, \<open>mdb_page_copy\<close>.
  \<^item> \<open>Lmdb_Store\<close>: where a page is (\<open>mdb_page_get\<close>), page buffers, dirty list, spilling
    (\<open>mdb_page_spill\<close>), writing (\<open>mdb_page_flush\<close>), \<open>mdb_ovpage_free\<close>, \<open>mdb_find_oldest\<close>.
  \<^item> \<open>Lmdb_Cursor\<close>: the cursor stack, \<open>mdb_page_search\<close>, \<open>mdb_cursor_sibling\<close>, the positioning
    operations, \<open>mdb_cursor_get\<close>, \<open>mdb_get\<close>.
  \<^item> \<open>Lmdb_Alloc\<close>: \<open>mdb_page_alloc\<close>, \<open>mdb_page_touch\<close>, \<open>mdb_cursor_touch\<close>, \<open>mdb_page_new\<close>.
  \<^item> \<open>Lmdb_Split\<close>: \<open>mdb_node_add\<close> on the tree, \<open>mdb_cursor_copy\<close>, \<open>mdb_page_split\<close>, \<open>mdb_update_key\<close>.
  \<^item> \<open>Lmdb_Tree\<close>: \<open>mdb_node_move\<close>, \<open>mdb_page_merge\<close>, \<open>mdb_rebalance\<close>, \<open>mdb_cursor_del\<close>, \<open>mdb_del\<close>,
    \<open>mdb_cursor_put\<close>, \<open>mdb_put\<close>.
  \<^item> \<open>Lmdb_Freelist\<close>: \<open>mdb_freelist_save\<close>.
  \<^item> \<open>Lmdb_Meta\<close>: \<open>mdb_env_pick_meta\<close>, \<open>mdb_env_write_meta\<close>, \<open>mdb_env_sync\<close>, reading and creating the
    meta pages, \<open>mdb_env_map\<close> and the map size.
  \<^item> \<open>Lmdb_Txn\<close>, \<open>Lmdb_Commit\<close>: reader slots, \<open>mdb_txn_begin\<close>, \<open>mdb_txn_renew0\<close>, \<open>mdb_txn_reset0\<close>,
    \<open>mdb_txn_abort\<close>, nested transactions, \<open>mdb_txn_commit\<close>.
  \<^item> \<open>Lmdb_Env\<close>, \<open>Lmdb_Readers\<close>: creating and opening an environment, statistics, flags, named
    databases, \<open>mdb_drop\<close>; \<open>mdb_reader_check\<close>.
  \<^item> \<open>Kv_Store\<close>: the store, its transactions, reader, writer and cursor.
  \<^item> \<open>Kv_Coder\<close>, \<open>Kv_Decoder\<close>: the methods of the encoder and of the decoder.
  \<^item> \<open>Kv_Objects\<close>: classes that are stored, from \<open>Telegraph/\<close> and \<open>LegacyComponents/\<close> (bot information and
    the keyboards of bots, positions in feeds), as one datatype \<open>tg_object\<close> with the
    \<open>encodeWithKeyValueCoder:\<close> and \<open>initWithKeyValueCoder:\<close> of each.

  \<^bold>\<open>The lemmas.\<close>  Each \<open>_Facts\<close> theory holds the theorems about the theory it is named after.
  \<^item> \<open>Lmdb_Midl_Facts\<close>, \<open>Lmdb_Midl_Sort_Facts\<close>: the list operations against the list of their IDs
    (\<open>idl_elems\<close>, \<open>id2l_elems\<close>), order and capacity as invariants, every error code.
  \<^item> \<open>Lmdb_Bytes_Facts\<close>: the comparators are total orders (locale \<open>key_order\<close>, which the tree theorems
    use through its interpretations), and which.
  \<^item> \<open>Lmdb_Page_Facts\<close>: the layout invariant \<open>page_ok\<close>, under which the operations on a page are the
    insertion, deletion and update of one element of \<open>page_items\<close> (locale \<open>slotted\<close>).
  \<^item> \<open>Lmdb_Get_Facts\<close>, \<open>Lmdb_Read_Facts\<close>, \<open>Lmdb_Walk_Facts\<close>: the abstract view of a database is the
    sorted list of its items (\<open>subtree\<close>, \<open>db_holds\<close>); \<open>mdb_get\<close> refines the lookup in it and the cursor
    walk its enumeration.
  \<^item> \<open>Lmdb_Route_Facts\<close>, \<open>Lmdb_Range_Facts\<close>: the way from the root to the leaf of a key (locale \<open>tree_order\<close>,
    interpreted on the two byte comparators), the steps of a cursor to both sides, and the positions
    that \<open>MDB_SET_RANGE\<close> and \<open>MDB_SET_KEY\<close> find.
  \<^item> \<open>Lmdb_Write_Facts\<close>, \<open>Lmdb_Cow_Facts\<close>, \<open>Lmdb_Alloc_Facts\<close>, \<open>Lmdb_Touch_Facts\<close>: the state of a write
    transaction (\<open>writer_inv\<close>), the allocation of a page and the copies that \<open>mdb_cursor_touch\<close> makes of
    the pages on the way, with what they change outside of it: nothing.
  \<^item> \<open>Lmdb_Put_Facts\<close>, \<open>Lmdb_Update_Facts\<close>, \<open>Lmdb_Db_Facts\<close>, \<open>Lmdb_Item_Facts\<close>: the change of the leaf,
    the tree around it, and \<open>mdb_put\<close> as the update of the map, on leaves that have room for the item.
  \<^item> \<open>Lmdb_Meta_Facts\<close>, \<open>Lmdb_Flush_Facts\<close>, \<open>Lmdb_Commit_Facts\<close>: what is in the file at which moment: a
    cut-off or failed write never damages the committed state.
  \<^item> \<open>Lmdb_Txn_Facts\<close>, \<open>Lmdb_Reader_Facts\<close>: begin and abort of transactions, the reader table.
  \<^item> \<open>Kv_Store_Facts\<close>: the enumeration between two bounds as a filter of the items (locale \<open>item_stream\<close>,
    interpreted on the forward and the backward cursor) with the one item too many that a skipped
    bound can give (\<open>forward_items\<close>, \<open>backward_items\<close>), values written and read.
  \<^item> \<open>Kv_Field_Facts\<close>, \<open>Kv_Record_Facts\<close>, \<open>Kv_Objects_Facts\<close>: a record as the list of its fields (locale
    \<open>ps_writer\<close>) answers every sequence of requests; objects of all classes are restored (locale
    \<open>ps_coding\<close>, interpreted on the classes).
  \<^item> \<open>Lmdb_Sample\<close>: a small environment on which the theorems are evaluated.

  \<^bold>\<open>Conditions of the theorems on \<open>mdb_put\<close>.\<close>  They are about a write transaction without a parent that has
  the pages for its copies at hand and room in its dirty list, and a leaf with room for the item
  (\<open>writable\<close>, \<open>spill_need\<close>, \<open>leaf_room\<close>): reading the free list for pages, spilling and the splitting of
  pages are modelled, but no theorem is about them.

  \<^bold>\<open>Where the code is not what it means to be\<close>, the model follows the code and a lemma shows the effect:
  \<open>exclusive_bound_overshoots\<close>, \<open>commit_child_loose_lost\<close>, \<open>set_mapsize_below_used\<close>,
  \<open>number_array_not_skipped\<close>, \<open>mismatch_loses_position\<close>, \<open>archive_loses_flag\<close>,
  \<open>create_table_without_transaction\<close>, and the theorems on \<open>mdb_midl_shrink\<close> and on the loose pages of an
  aborted transaction.

  \<^bold>\<open>Bounds.\<close>  Loops over an array recurse on the number of cells left.  The descent from the root has
  \<open>CURSOR_STACK + 1\<close> turns: every turn pushes a page, and the push fails when the stack is full, so the
  last turn is never reached; the same bound is enough for \<open>mdb_cursor_sibling\<close> and \<open>mdb_page_split\<close>,
  which go up one level in each call, and twice that for \<open>mdb_rebalance\<close>, which alternates with
  \<open>mdb_page_merge\<close>.  \<open>search_levels\<close> bounds the opening of a named database through the main one.  The
  loop of the allocator reads one record of the free list in each turn.  The stack of the sort holds
  64 numbers as in C, and the theorem shows that it does not overflow.  Loops without a bound known
  beforehand (\<open>mdb_freelist_save\<close>, \<open>mdb_drop0\<close>, \<open>mdb_reader_pid\<close>, the sort) are partial functions; the
  sort is shown to return, \<open>mdb_reader_pid\<close> when its system call is not interrupted, and the loop of an
  enumeration (\<open>enumerate_rest\<close>) on every database whose pages form a tree.  \<open>tg_runtime n\<close> restores objects
  nested at most \<open>n\<close> deep; \<open>tg_storable n\<close> says that an object is, and that its strings are UTF-8 and its
  lengths fit.  A length in a record has at most five bytes, as in \<open>readLength\<close>.

  \<^bold>\<open>Not modelled.\<close>  Values with duplicates (\<open>MDB_DUPSORT\<close>: sub-pages, sub-cursors, \<open>MDB_xcursor\<close>): no
  database of the application uses them, and where the code tests for them the model asserts that
  they are absent.  The system side of \<open>mdb_env_open\<close> and \<open>mdb_env_close0\<close> (files, semaphores, thread
  keys), \<open>mdb_env_copy\<close> and \<open>mdb_reader_list\<close>: calls of the operating system and formatting of text.
  The memory map is coherent with the file, and threads are interleaved at the calls of the library
  only.  The Windows and debugging branches are not compiled for the platform.  In the
  Objective-C parts log messages, the allocation of objects and the directory of a store are left
  out, the number formats of the library are parameters (\<open>conversions\<close>), and of the classes that are
  stored only those of \<open>tg_object\<close> are modelled, since the others repeat their pattern.  The queries of
  the share extension, the networking and the user interface are outside of this development.
\<close>

end
